(* ===== verification/Prelude.thy ===== *)
theory Prelude
  imports Main "HOL-Library.Word" "HOL-Library.Monad_Syntax"
begin

unbundle bit_operations_syntax

text \<open>
  Conventions shared by every theory of the development.

  Machine integers are words of their C++ width: \<open>u8\<close>, \<open>u16\<close>, \<open>u32\<close>, \<open>u64\<close>; a signed
  \<open>s32\<close>/\<open>s64\<close> is the same word read with \<open>sint\<close>. Containers are lists and maps.

  A computation that the C++ program may not survive (a failed \<open>ASSERT\<close>, \<open>UNREACHABLE\<close>, an
  access the language leaves undefined, or a loop that does not end) has type
  \<open>'a run = 'a option\<close>: \<open>None\<close> is that event, \<open>Some x\<close> a normal return.
  A function of the emulated system that returns a \<open>Result\<close> or a \<open>ResultVal\<close> has type
  \<open>result + 'a\<close>, \<open>Inl\<close> holding the error code.
\<close>

section \<open>Types\<close>

type_synonym u8 = "8 word"
type_synonym u16 = "16 word"
type_synonym u32 = "32 word"
type_synonym u64 = "64 word"
type_synonym s32 = "32 word"
type_synonym s64 = "64 word"

type_synonym 'a run = "'a option"

text \<open>Collections of rewrite rules for the components' proofs.\<close>

named_theorems tql_simps \<open>characteristic equations of the ready queue\<close>
named_theorems kernel_simps \<open>frame equations of the kernel operations\<close>

section \<open>Assertions\<close>

definition ASSERT :: "bool \<Rightarrow> unit run" where
  "ASSERT b = (if b then Some () else None)"

lemma ASSERT_True [simp]: "ASSERT True = Some ()"
  by (simp add: ASSERT_def)

lemma ASSERT_False [simp]: "ASSERT False = None"
  by (simp add: ASSERT_def)

lemma ASSERT_bind_Some [simp]:
  "(Option.bind (ASSERT b) f = Some y) \<longleftrightarrow> b \<and> f () = Some y"
  by (simp add: ASSERT_def)

lemma ASSERT_bind: "b \<Longrightarrow> Option.bind (ASSERT b) f = f ()"
  by simp

section \<open>Lists\<close>

text \<open>Reading an updated list, without a side condition on the index.\<close>

lemma nth_upd: "xs[i := x] ! j = (if i = j \<and> j < length xs then x else xs ! j)"
  by (cases "i < length xs") (auto simp: list_update_beyond)

text \<open>Evaluating an update at a numeral.\<close>

lemma list_update_numeral [simp]:
  "(x # xs)[numeral k := y] = x # xs[pred_numeral k := y]"
  by (simp add: numeral_eq_Suc)

lemma replicate_numeral:
  "replicate (numeral k) x = x # replicate (pred_numeral k) x"
  by (simp add: numeral_eq_Suc)

lemma hd_concat_map:
  assumes "\<forall>j < i. f (xs ! j) = []" and "i < length xs" and "f (xs ! i) \<noteq> []"
  shows "concat (map f xs) = f (xs ! i) @ concat (map f (drop (Suc i) xs))"
proof -
  have split: "xs = take i xs @ xs ! i # drop (Suc i) xs"
    using assms(2) by (simp add: id_take_nth_drop)
  have "\<forall>x \<in> set (take i xs). f x = []"
    using assms(1,2) by (auto simp: in_set_conv_nth)
  then have "concat (map f (take i xs)) = []"
    by simp
  with split show ?thesis
    by (metis append_Nil concat.simps(2) concat_append list.simps(9) map_append)
qed

section \<open>Signed arithmetic\<close>

text \<open>\<open>a + b\<close> and \<open>a - b\<close> on \<open>s32\<close>: undefined in C++ when the result does not fit.\<close>

definition s32_add :: "s32 \<Rightarrow> s32 \<Rightarrow> s32 run" where
  "s32_add a b =
     (if - (2 ^ 31) \<le> sint a + sint b \<and> sint a + sint b < 2 ^ 31 then Some (a + b) else None)"

definition s32_sub :: "s32 \<Rightarrow> s32 \<Rightarrow> s32 run" where
  "s32_sub a b =
     (if - (2 ^ 31) \<le> sint a - sint b \<and> sint a - sint b < 2 ^ 31 then Some (a - b) else None)"

lemma unat_u32_less: "unat (w :: u32) < 2 ^ 32"
proof -
  have "unat w < 2 ^ LENGTH(32)" by (rule unsigned_less)
  then show ?thesis by simp
qed

lemma unat_plus_fits: "unat (a :: u32) + unat b < 2 ^ 32 \<Longrightarrow> unat (a + b) = unat a + unat b"
  by (subst unat_add_lem [symmetric]) simp

lemma unat_u64_less: "unat (w :: u64) < 2 ^ 64"
proof -
  have "unat w < 2 ^ LENGTH(64)" by (rule unsigned_less)
  then show ?thesis by simp
qed

lemma unat_plus_fits64: "unat (a :: u64) + unat b < 2 ^ 64 \<Longrightarrow> unat (a + b) = unat a + unat b"
  by (subst unat_add_lem [symmetric]) simp

lemma unat_ucast_u64 [simp]: "unat (ucast (w :: u32) :: u64) = unat w"
  using unat_u32_less [of w] by (simp add: unsigned_ucast_eq take_bit_nat_eq_self)

lemma sint_s32_range: "- (2 ^ 31) \<le> sint (a :: s32)" "sint (a :: s32) < 2 ^ 31"
  using sint_greater_eq [of a] sint_less [of a] by simp_all

lemma sint_s32_fits:
  "- (2 ^ 31) \<le> i \<Longrightarrow> i < 2 ^ 31 \<Longrightarrow> sint (word_of_int i :: s32) = i"
  by (simp add: signed_of_int signed_take_bit_int_eq_self)

lemma s32_add_Some:
  "s32_add a b = Some c \<longleftrightarrow>
     - (2 ^ 31) \<le> sint a + sint b \<and> sint a + sint b < 2 ^ 31 \<and> c = word_of_int (sint a + sint b)"
  by (auto simp: s32_add_def)

lemma s32_sub_Some:
  "s32_sub a b = Some c \<longleftrightarrow>
     - (2 ^ 31) \<le> sint a - sint b \<and> sint a - sint b < 2 ^ 31 \<and> c = word_of_int (sint a - sint b)"
  by (auto simp: s32_sub_def)

end
