(* ===== verification/PageTable.thy ===== *)
theory PageTable
  imports Prelude
begin

text \<open>
  \<open>MemoryRef\<close> (\<open>common/memory_ref.h\<close>), the guest page table and the mapping functions of
  \<open>Memory::MemorySystem\<close> (\<open>core/memory.h\<close>, \<open>core/memory.cpp\<close>). A host buffer is its address and
  size; the cached pointer and size of a reference are functions of the reference. Flushing the
  rasterizer before a mapping changes changes no state modelled here.
\<close>

section \<open>References to host memory\<close>

record host_buffer =
  hb_ptr :: u64
  hb_size :: u64

record memory_ref =
  backing_mem :: "host_buffer option"
  ref_offset :: u64

definition null_ref :: memory_ref where
  "null_ref = \<lparr>backing_mem = None, ref_offset = 0\<rparr>"

definition MemoryRef_at :: "host_buffer \<Rightarrow> u64 \<Rightarrow> memory_ref run" where
  "MemoryRef_at b off = do {
     ASSERT (off \<le> hb_size b);
     Some \<lparr>backing_mem = Some b, ref_offset = off\<rparr>}"

definition GetPtr :: "memory_ref \<Rightarrow> u64" where
  "GetPtr r = (case backing_mem r of None \<Rightarrow> 0 | Some b \<Rightarrow> hb_ptr b + ref_offset r)"

definition GetSize :: "memory_ref \<Rightarrow> u64" where
  "GetSize r = (case backing_mem r of None \<Rightarrow> 0 | Some b \<Rightarrow> hb_size b - ref_offset r)"

text \<open>\<open>operator+=\<close> and \<open>operator+\<close>.\<close>

definition ref_advance :: "memory_ref \<Rightarrow> u32 \<Rightarrow> memory_ref run" where
  "ref_advance r offset_by = do {
     ASSERT (ucast offset_by < GetSize r);
     Some (r\<lparr>ref_offset := ref_offset r + ucast offset_by\<rparr>)}"

definition ref_plus :: "memory_ref \<Rightarrow> u32 \<Rightarrow> memory_ref run" where
  "ref_plus r offset_by = do {
     ASSERT (ucast offset_by < GetSize r);
     b \<leftarrow> backing_mem r;
     MemoryRef_at b (ref_offset r + ucast offset_by)}"

section \<open>The rasterizer's cache marker\<close>

abbreviation (input) "CITRA_PAGE_SIZE \<equiv> (0x1000 :: u32)"
abbreviation (input) "CITRA_PAGE_MASK \<equiv> (0xFFF :: u32)"
abbreviation (input) "VRAM_VADDR \<equiv> (0x1F000000 :: u32)"
abbreviation (input) "VRAM_VADDR_END \<equiv> (0x1F600000 :: u32)"
abbreviation (input) "LINEAR_HEAP_VADDR \<equiv> (0x14000000 :: u32)"
abbreviation (input) "LINEAR_HEAP_VADDR_END \<equiv> (0x1C000000 :: u32)"
abbreviation (input) "NEW_LINEAR_HEAP_VADDR \<equiv> (0x30000000 :: u32)"
abbreviation (input) "NEW_LINEAR_HEAP_VADDR_END \<equiv> (0x40000000 :: u32)"
abbreviation (input) "PLUGIN_3GX_FB_VADDR \<equiv> (0x06000000 :: u32)"
abbreviation (input) "PLUGIN_3GX_FB_VADDR_END \<equiv> (0x060A9000 :: u32)"

datatype marker_area = MarkVram | MarkLinearHeap | MarkNewLinearHeap | MarkPluginFb

type_synonym cache_marker = "marker_area \<times> u32 \<Rightarrow> bool"

definition marker_at :: "u32 \<Rightarrow> (marker_area \<times> u32) option" where
  "marker_at addr =
     (if addr \<ge> VRAM_VADDR \<and> addr < VRAM_VADDR_END then
        Some (MarkVram, (addr - VRAM_VADDR) div CITRA_PAGE_SIZE)
      else if addr \<ge> LINEAR_HEAP_VADDR \<and> addr < LINEAR_HEAP_VADDR_END then
        Some (MarkLinearHeap, (addr - LINEAR_HEAP_VADDR) div CITRA_PAGE_SIZE)
      else if addr \<ge> NEW_LINEAR_HEAP_VADDR \<and> addr < NEW_LINEAR_HEAP_VADDR_END then
        Some (MarkNewLinearHeap, (addr - NEW_LINEAR_HEAP_VADDR) div CITRA_PAGE_SIZE)
      else if addr \<ge> PLUGIN_3GX_FB_VADDR \<and> addr < PLUGIN_3GX_FB_VADDR_END then
        Some (MarkPluginFb, (addr - PLUGIN_3GX_FB_VADDR) div CITRA_PAGE_SIZE)
      else None)"

definition Marker_Mark :: "cache_marker \<Rightarrow> u32 \<Rightarrow> bool \<Rightarrow> cache_marker" where
  "Marker_Mark m addr cached =
     (case marker_at addr of None \<Rightarrow> m | Some p \<Rightarrow> m(p := cached))"

definition Marker_IsCached :: "cache_marker \<Rightarrow> u32 \<Rightarrow> bool" where
  "Marker_IsCached m addr = (case marker_at addr of None \<Rightarrow> False | Some p \<Rightarrow> m p)"

section \<open>The page table\<close>

datatype PageType = Unmapped | PageMemory | RasterizerCachedMemory

record page_table =
  attributes :: "u32 \<Rightarrow> PageType"
  pointers :: "u32 \<Rightarrow> memory_ref"

definition PageTable_Clear :: "page_table \<Rightarrow> page_table" where
  "PageTable_Clear pt = pt\<lparr>pointers := (\<lambda>_. null_ref), attributes := (\<lambda>_. Unmapped)\<rparr>"

text \<open>One round of the loop of \<open>MapPages\<close>, and the loop; it makes \<open>size\<close> rounds.\<close>

definition map_page :: "cache_marker \<Rightarrow> page_table \<Rightarrow> u32 \<Rightarrow> memory_ref \<Rightarrow> PageType \<Rightarrow> page_table"
where
  "map_page marker pt b memory type =
     (let pt = pt\<lparr>attributes := (attributes pt)(b := type), pointers := (pointers pt)(b := memory)\<rparr>
      in if type = PageMemory \<and> Marker_IsCached marker (b * CITRA_PAGE_SIZE)
         then pt\<lparr>attributes := (attributes pt)(b := RasterizerCachedMemory),
                 pointers := (pointers pt)(b := null_ref)\<rparr>
         else pt)"

fun map_pages_loop ::
  "cache_marker \<Rightarrow> nat \<Rightarrow> page_table \<Rightarrow> u32 \<Rightarrow> memory_ref \<Rightarrow> PageType \<Rightarrow> page_table run" where
  "map_pages_loop marker 0 pt b memory type = Some pt"
| "map_pages_loop marker (Suc n) pt b memory type = do {
     ASSERT (unat b < 2 ^ 20);
     let pt = map_page marker pt b memory type;
     memory \<leftarrow> (if GetPtr memory \<noteq> 0 \<and> GetSize memory > ucast CITRA_PAGE_SIZE
                then ref_advance memory CITRA_PAGE_SIZE else Some memory);
     map_pages_loop marker n pt (b + 1) memory type}"

definition MapPages ::
  "cache_marker \<Rightarrow> page_table \<Rightarrow> u32 \<Rightarrow> u32 \<Rightarrow> memory_ref \<Rightarrow> PageType \<Rightarrow> page_table run" where
  "MapPages marker pt b sz memory type = map_pages_loop marker (unat sz) pt b memory type"

definition MapMemoryRegion ::
  "cache_marker \<Rightarrow> page_table \<Rightarrow> u32 \<Rightarrow> u32 \<Rightarrow> memory_ref \<Rightarrow> page_table run" where
  "MapMemoryRegion marker pt b sz target = do {
     ASSERT (sz AND CITRA_PAGE_MASK = 0);
     ASSERT (b AND CITRA_PAGE_MASK = 0);
     MapPages marker pt (b div CITRA_PAGE_SIZE) (sz div CITRA_PAGE_SIZE) target PageMemory}"

definition UnmapRegion :: "cache_marker \<Rightarrow> page_table \<Rightarrow> u32 \<Rightarrow> u32 \<Rightarrow> page_table run" where
  "UnmapRegion marker pt b sz = do {
     ASSERT (sz AND CITRA_PAGE_MASK = 0);
     ASSERT (b AND CITRA_PAGE_MASK = 0);
     MapPages marker pt (b div CITRA_PAGE_SIZE) (sz div CITRA_PAGE_SIZE) null_ref Unmapped}"

section \<open>What a mapping does to the page table\<close>

text \<open>The entry of a page backed by the host address \<open>p\<close>.\<close>

definition page_entry :: "cache_marker \<Rightarrow> u32 \<Rightarrow> u64 \<Rightarrow> PageType \<times> u64" where
  "page_entry marker b p =
     (if Marker_IsCached marker (b * CITRA_PAGE_SIZE) then (RasterizerCachedMemory, 0)
      else (PageMemory, p))"

definition entry_of :: "page_table \<Rightarrow> u32 \<Rightarrow> PageType \<times> u64" where
  "entry_of pt b = (attributes pt b, GetPtr (pointers pt b))"

lemma GetPtr_null [simp]: "GetPtr null_ref = 0" "GetSize null_ref = 0"
  by (simp_all add: GetPtr_def GetSize_def null_ref_def)

lemma ref_advance_spec:
  assumes "ucast n < GetSize r"
  shows "\<exists>r'. ref_advance r n = Some r' \<and> GetPtr r' = GetPtr r + ucast n \<and>
    GetSize r' = GetSize r - ucast n"
  using assms by (auto simp: ref_advance_def GetPtr_def GetSize_def split: option.splits)

lemma entry_map_page:
  "entry_of (map_page marker pt b memory type) c =
     (if c = b then (if type = PageMemory then page_entry marker b (GetPtr memory)
                     else (type, GetPtr memory))
      else entry_of pt c)"
  by (simp add: map_page_def entry_of_def page_entry_def)

text \<open>A reference to \<open>sz\<close> bytes of a host buffer, which lies in the host's address space.\<close>

definition ref_covers :: "memory_ref \<Rightarrow> nat \<Rightarrow> bool" where
  "ref_covers r sz \<longleftrightarrow> (case backing_mem r of None \<Rightarrow> False
     | Some b \<Rightarrow> hb_ptr b \<noteq> 0 \<and> unat (hb_ptr b) + unat (hb_size b) < 2 ^ 64 \<and>
         unat (ref_offset r) + sz \<le> unat (hb_size b))"

lemma ref_coversE:
  assumes "ref_covers r sz"
  obtains b where "backing_mem r = Some b" "hb_ptr b \<noteq> 0"
    "unat (hb_ptr b) + unat (hb_size b) < 2 ^ 64" "unat (ref_offset r) + sz \<le> unat (hb_size b)"
  using assms by (auto simp: ref_covers_def split: option.splits)

lemma ref_covers_ptr:
  assumes "ref_covers r sz"
  shows "GetPtr r \<noteq> 0" and "sz \<le> unat (GetSize r)" and "unat (GetPtr r) + sz < 2 ^ 64"
proof -
  obtain b where b: "backing_mem r = Some b" "hb_ptr b \<noteq> 0"
    "unat (hb_ptr b) + unat (hb_size b) < 2 ^ 64" "unat (ref_offset r) + sz \<le> unat (hb_size b)"
    using assms by (rule ref_coversE)
  have p: "unat (GetPtr r) = unat (hb_ptr b) + unat (ref_offset r)"
    using b by (simp add: GetPtr_def unat_plus_fits64)
  moreover have "0 < unat (hb_ptr b)" using b(2) by (simp add: unat_gt_0)
  ultimately have "0 < unat (GetPtr r)" by simp
  then show "GetPtr r \<noteq> 0" by auto
  show "sz \<le> unat (GetSize r)"
    using b by (simp add: GetSize_def unat_sub word_le_nat_alt)
  show "unat (GetPtr r) + sz < 2 ^ 64" using p b by simp
qed

text \<open>Both advancing operators move to the rest of the buffer.\<close>

lemma ref_step:
  assumes "ref_covers r sz" and "unat (n :: u32) < sz"
  shows "\<exists>r'. ref_advance r n = Some r' \<and> ref_plus r n = Some r' \<and>
    ref_covers r' (sz - unat n) \<and> GetPtr r' = GetPtr r + ucast n"
proof -
  obtain b where b: "backing_mem r = Some b" "hb_ptr b \<noteq> 0"
    "unat (hb_ptr b) + unat (hb_size b) < 2 ^ 64" "unat (ref_offset r) + sz \<le> unat (hb_size b)"
    using assms(1) by (rule ref_coversE)
  have n: "unat (ucast n :: u64) = unat n" by simp
  have lt: "ucast n < GetSize r"
    using ref_covers_ptr(2) [OF assms(1)] assms(2) n by (simp add: word_less_nat_alt)
  have off: "unat (ref_offset r + ucast n) = unat (ref_offset r) + unat n"
    using b assms(2) n by (subst unat_plus_fits64) simp_all
  let ?r = "r\<lparr>ref_offset := ref_offset r + ucast n\<rparr>"
  have "ref_covers ?r (sz - unat n)"
    using b assms(2) off by (simp add: ref_covers_def)
  moreover have "ref_offset r + ucast n \<le> hb_size b"
    using b assms(2) off by (simp add: word_le_nat_alt)
  ultimately show ?thesis
    using lt b by (auto simp: ref_advance_def ref_plus_def MemoryRef_at_def GetPtr_def)
qed

lemma u32_Suc: "unat (b :: u32) < 2 ^ 20 \<Longrightarrow> unat (b + 1) = Suc (unat b)"
  by (subst unat_plus_fits) simp_all

lemma map_pages_loop_null:
  assumes "unat b + n \<le> 2 ^ 20"
  shows "\<exists>pt'. map_pages_loop marker n pt b null_ref Unmapped = Some pt' \<and>
    (\<forall>c. entry_of pt' c = (if unat b \<le> unat c \<and> unat c < unat b + n then (Unmapped, 0)
                           else entry_of pt c))"
  using assms
proof (induction n arbitrary: b pt)
  case (Suc n)
  have b1: "unat (b + 1) = Suc (unat b)" using Suc.prems by (intro u32_Suc) simp
  obtain pt' where pt': "map_pages_loop marker n (map_page marker pt b null_ref Unmapped) (b + 1)
        null_ref Unmapped = Some pt'"
      "\<And>c. entry_of pt' c = (if unat (b + 1) \<le> unat c \<and> unat c < unat (b + 1) + n
        then (Unmapped, 0) else entry_of (map_page marker pt b null_ref Unmapped) c)"
    using Suc.IH [of "b + 1" "map_page marker pt b null_ref Unmapped"] Suc.prems b1 by auto
  have "entry_of pt' c = (if unat b \<le> unat c \<and> unat c < unat b + Suc n then (Unmapped, 0)
      else entry_of pt c)" for c
    using b1 by (auto simp: pt'(2) entry_map_page word_unat_eq_iff)
  with pt'(1) Suc.prems show ?case by (simp add: Let_def)
qed auto

lemma map_pages_loop_ref:
  assumes "unat b + n \<le> 2 ^ 20" and "ref_covers memory (n * 0x1000)"
  shows "\<exists>pt'. map_pages_loop marker n pt b memory PageMemory = Some pt' \<and>
    (\<forall>c. entry_of pt' c = (if unat b \<le> unat c \<and> unat c < unat b + n
        then page_entry marker c (GetPtr memory + of_nat ((unat c - unat b) * 0x1000))
        else entry_of pt c))"
  using assms
proof (induction n arbitrary: b pt memory)
  case (Suc n)
  have b1: "unat (b + 1) = Suc (unat b)" using Suc.prems by (intro u32_Suc) simp
  let ?pt = "map_page marker pt b memory PageMemory"
  obtain m' where m': "(if GetPtr memory \<noteq> 0 \<and> GetSize memory > ucast CITRA_PAGE_SIZE
       then ref_advance memory CITRA_PAGE_SIZE else Some memory) = Some m'"
      "n = 0 \<or> ref_covers m' (n * 0x1000) \<and> GetPtr m' = GetPtr memory + 0x1000"
  proof (cases "n = 0")
    case True
    show ?thesis
    proof (cases "GetSize memory > ucast CITRA_PAGE_SIZE")
      case big: True
      with ref_advance_spec [OF big] True that show ?thesis by fastforce
    qed (use True that in simp)
  next
    case False
    then have "0x1000 < Suc n * 0x1000" by simp
    with ref_step [OF Suc.prems(2), of CITRA_PAGE_SIZE]
    obtain m' where "ref_advance memory CITRA_PAGE_SIZE = Some m'" "ref_covers m' (n * 0x1000)"
        "GetPtr m' = GetPtr memory + 0x1000"
      by auto
    moreover have "GetSize memory > ucast CITRA_PAGE_SIZE"
      using ref_covers_ptr(2) [OF Suc.prems(2)] False by (simp add: word_less_nat_alt)
    ultimately show ?thesis using that ref_covers_ptr(1) [OF Suc.prems(2)] by simp
  qed
  show ?case
  proof (cases "n = 0")
    case True
    have "entry_of ?pt c = (if unat b \<le> unat c \<and> unat c < unat b + Suc n
        then page_entry marker c (GetPtr memory + of_nat ((unat c - unat b) * 0x1000))
        else entry_of pt c)" for c
    proof -
      have "unat b \<le> unat c \<and> unat c < unat b + Suc n \<longleftrightarrow> c = b"
        using True by (auto simp: word_unat_eq_iff)
      then show ?thesis by (simp add: entry_map_page)
    qed
    then show ?thesis using True Suc.prems m'(1) by (simp add: Let_def)
  next
    case False
    then obtain pt' where pt': "map_pages_loop marker n ?pt (b + 1) m' PageMemory = Some pt'"
      "\<And>c. entry_of pt' c = (if unat (b + 1) \<le> unat c \<and> unat c < unat (b + 1) + n
        then page_entry marker c (GetPtr m' + of_nat ((unat c - unat (b + 1)) * 0x1000))
        else entry_of ?pt c)"
      using Suc.IH [of "b + 1" m' ?pt] Suc.prems m'(2) b1 by auto
    have "entry_of pt' c = (if unat b \<le> unat c \<and> unat c < unat b + Suc n
        then page_entry marker c (GetPtr memory + of_nat ((unat c - unat b) * 0x1000))
        else entry_of pt c)" for c
    proof (cases "unat (b + 1) \<le> unat c \<and> unat c < unat (b + 1) + n")
      case True
      then have "(unat c - unat b) * 0x1000 = 0x1000 + (unat c - unat (b + 1)) * 0x1000"
        using b1 by (simp add: algebra_simps)
      with True show ?thesis
        using b1 m'(2) False by (simp add: pt'(2))
    next
      case out: False
      show ?thesis
      proof (cases "c = b")
        case True
        then show ?thesis by (simp add: pt'(2) entry_map_page b1)
      next
        case other: False
        then have "unat c \<noteq> unat b" by (simp add: word_unat_eq_iff)
        then show ?thesis using out other b1 by (auto simp: pt'(2) entry_map_page)
      qed
    qed
    then show ?thesis using pt'(1) m'(1) Suc.prems by (simp add: Let_def)
  qed
qed auto

end
