(* ===== verification/BitFields.thy ===== *)
theory BitFields
  imports Prelude
begin

text \<open>
  \<open>BitField<Position, Bits, T>\<close> (\<open>common/bit_field.h\<close>) for an unsigned storage type: a field
  of \<open>bits\<close> bits at \<open>pos\<close> of a word. The laws say that fields behave like record fields.
\<close>

section \<open>Operations\<close>

definition bf_mask :: "nat \<Rightarrow> nat \<Rightarrow> 'a::len word" where
  "bf_mask pos bits = push_bit pos (drop_bit (LENGTH('a) - bits) (NOT 0))"

definition FormatValue :: "nat \<Rightarrow> nat \<Rightarrow> 'a::len word \<Rightarrow> 'a word" where
  "FormatValue pos bits v = push_bit pos v AND bf_mask pos bits"

definition ExtractValue :: "nat \<Rightarrow> nat \<Rightarrow> 'a::len word \<Rightarrow> 'a word" where
  "ExtractValue pos bits storage = drop_bit pos (storage AND bf_mask pos bits)"

definition Assign :: "nat \<Rightarrow> nat \<Rightarrow> 'a::len word \<Rightarrow> 'a word \<Rightarrow> 'a word" where
  "Assign pos bits v storage = (storage AND NOT (bf_mask pos bits)) OR FormatValue pos bits v"

section \<open>Laws\<close>

lemma bit_bf_mask:
  "bits \<le> LENGTH('a) \<Longrightarrow> bit (bf_mask pos bits :: 'a::len word) n \<longleftrightarrow>
     n < LENGTH('a) \<and> pos \<le> n \<and> n < pos + bits"
  by (auto simp: bf_mask_def bit_push_bit_iff bit_drop_bit_eq bit_not_iff_eq bit_mask_iff
      dest: bit_imp_le_length)

lemma bit_FormatValue:
  "bits \<le> LENGTH('a) \<Longrightarrow> bit (FormatValue pos bits (v :: 'a::len word)) n \<longleftrightarrow>
     n < LENGTH('a) \<and> pos \<le> n \<and> n < pos + bits \<and> bit v (n - pos)"
  by (auto simp: FormatValue_def bit_and_iff bit_push_bit_iff bit_bf_mask)

lemma bit_ExtractValue:
  "bits \<le> LENGTH('a) \<Longrightarrow> bit (ExtractValue pos bits (s :: 'a::len word)) n \<longleftrightarrow>
     n < bits \<and> pos + n < LENGTH('a) \<and> bit s (pos + n)"
  by (auto simp: ExtractValue_def bit_and_iff bit_drop_bit_eq bit_bf_mask)

lemma bit_Assign:
  "bits \<le> LENGTH('a) \<Longrightarrow> bit (Assign pos bits v (s :: 'a::len word)) n \<longleftrightarrow>
     n < LENGTH('a) \<and> (if pos \<le> n \<and> n < pos + bits then bit v (n - pos) else bit s n)"
  by (auto simp: Assign_def bit_or_iff bit_and_iff bit_not_iff bit_bf_mask bit_FormatValue
      dest: bit_imp_le_length)

lemmas bf_bits = bit_bf_mask bit_FormatValue bit_ExtractValue bit_Assign

text \<open>What is assigned is read back, truncated to the field; other fields are untouched.\<close>

lemma Extract_Assign_same:
  "pos + bits \<le> LENGTH('a) \<Longrightarrow>
     ExtractValue pos bits (Assign pos bits v (s :: 'a::len word)) = take_bit bits v"
  by (rule bit_eqI) (auto simp: bf_bits bit_take_bit_iff)

lemma Extract_Assign_other:
  "bits \<le> LENGTH('a) \<Longrightarrow> bits' \<le> LENGTH('a) \<Longrightarrow> pos + bits \<le> pos' \<or> pos' + bits' \<le> pos \<Longrightarrow>
     ExtractValue pos' bits' (Assign pos bits v (s :: 'a::len word)) = ExtractValue pos' bits' s"
  by (rule bit_eqI) (auto simp: bf_bits)

lemma Extract_Format_same:
  "pos + bits \<le> LENGTH('a) \<Longrightarrow>
     ExtractValue pos bits (FormatValue pos bits (v :: 'a::len word)) = take_bit bits v"
  by (rule bit_eqI) (auto simp: bf_bits bit_take_bit_iff)

lemma Extract_Format_other:
  "bits \<le> LENGTH('a) \<Longrightarrow> bits' \<le> LENGTH('a) \<Longrightarrow> pos + bits \<le> pos' \<or> pos' + bits' \<le> pos \<Longrightarrow>
     ExtractValue pos' bits' (FormatValue pos bits (v :: 'a::len word)) = 0"
  by (rule bit_eqI) (auto simp: bf_bits)

lemma Extract_or:
  "ExtractValue pos bits (a OR b) = ExtractValue pos bits a OR ExtractValue pos bits b"
  by (simp add: ExtractValue_def bit.conj_disj_distrib2)

lemma Extract_zero [simp]: "ExtractValue pos bits 0 = 0"
  by (simp add: ExtractValue_def)

lemma take_bit_small:
  "unat (v :: 'a::len word) < 2 ^ n \<Longrightarrow> take_bit n v = v"
  by (metis take_bit_nat_eq_self_iff unsigned_take_bit_eq word_unat_eq_iff)

end
