(* ===== verification/ResultCode.thy ===== *)
theory ResultCode
  imports BitFields
begin

text \<open>
  CTR-OS result codes (\<open>core/hle/result.h\<close>) and the kernel's constants
  (\<open>core/hle/kernel/errors.h\<close>): a result is a 32-bit word with a description, a module, a
  summary and a level, built and read through \<open>BitField\<close>.
\<close>

section \<open>The enumerations\<close>

text \<open>
  An \<open>enum class\<close> with underlying type \<open>u32\<close> is its value. Of the modules, those the
  modelled code uses.
\<close>

abbreviation (input) Desc_Success :: u32 where "Desc_Success \<equiv> 0"
abbreviation (input) Desc_InvalidSection :: u32 where "Desc_InvalidSection \<equiv> 1000"
abbreviation (input) Desc_TooLarge :: u32 where "Desc_TooLarge \<equiv> 1001"
abbreviation (input) Desc_NotAuthorized :: u32 where "Desc_NotAuthorized \<equiv> 1002"
abbreviation (input) Desc_AlreadyDone :: u32 where "Desc_AlreadyDone \<equiv> 1003"
abbreviation (input) Desc_InvalidSize :: u32 where "Desc_InvalidSize \<equiv> 1004"
abbreviation (input) Desc_InvalidEnumValue :: u32 where "Desc_InvalidEnumValue \<equiv> 1005"
abbreviation (input) Desc_InvalidCombination :: u32 where "Desc_InvalidCombination \<equiv> 1006"
abbreviation (input) Desc_NoData :: u32 where "Desc_NoData \<equiv> 1007"
abbreviation (input) Desc_Busy :: u32 where "Desc_Busy \<equiv> 1008"
abbreviation (input) Desc_MisalignedAddress :: u32 where "Desc_MisalignedAddress \<equiv> 1009"
abbreviation (input) Desc_MisalignedSize :: u32 where "Desc_MisalignedSize \<equiv> 1010"
abbreviation (input) Desc_OutOfMemory :: u32 where "Desc_OutOfMemory \<equiv> 1011"
abbreviation (input) Desc_NotImplemented :: u32 where "Desc_NotImplemented \<equiv> 1012"
abbreviation (input) Desc_InvalidAddress :: u32 where "Desc_InvalidAddress \<equiv> 1013"
abbreviation (input) Desc_InvalidPointer :: u32 where "Desc_InvalidPointer \<equiv> 1014"
abbreviation (input) Desc_InvalidHandle :: u32 where "Desc_InvalidHandle \<equiv> 1015"
abbreviation (input) Desc_NotInitialized :: u32 where "Desc_NotInitialized \<equiv> 1016"
abbreviation (input) Desc_AlreadyInitialized :: u32 where "Desc_AlreadyInitialized \<equiv> 1017"
abbreviation (input) Desc_NotFound :: u32 where "Desc_NotFound \<equiv> 1018"
abbreviation (input) Desc_CancelRequested :: u32 where "Desc_CancelRequested \<equiv> 1019"
abbreviation (input) Desc_AlreadyExists :: u32 where "Desc_AlreadyExists \<equiv> 1020"
abbreviation (input) Desc_OutOfRange :: u32 where "Desc_OutOfRange \<equiv> 1021"
abbreviation (input) Desc_Timeout :: u32 where "Desc_Timeout \<equiv> 1022"
abbreviation (input) Desc_InvalidResultValue :: u32 where "Desc_InvalidResultValue \<equiv> 1023"

abbreviation (input) Mod_Common :: u32 where "Mod_Common \<equiv> 0"
abbreviation (input) Mod_Kernel :: u32 where "Mod_Kernel \<equiv> 1"
abbreviation (input) Mod_FileServer :: u32 where "Mod_FileServer \<equiv> 3"
abbreviation (input) Mod_OS :: u32 where "Mod_OS \<equiv> 6"
abbreviation (input) Mod_FS :: u32 where "Mod_FS \<equiv> 17"
abbreviation (input) Mod_LDR :: u32 where "Mod_LDR \<equiv> 29"
abbreviation (input) Mod_RomFS :: u32 where "Mod_RomFS \<equiv> 31"
abbreviation (input) Mod_FND :: u32 where "Mod_FND \<equiv> 36"

abbreviation (input) Sum_Success :: u32 where "Sum_Success \<equiv> 0"
abbreviation (input) Sum_NothingHappened :: u32 where "Sum_NothingHappened \<equiv> 1"
abbreviation (input) Sum_WouldBlock :: u32 where "Sum_WouldBlock \<equiv> 2"
abbreviation (input) Sum_OutOfResource :: u32 where "Sum_OutOfResource \<equiv> 3"
abbreviation (input) Sum_NotFound :: u32 where "Sum_NotFound \<equiv> 4"
abbreviation (input) Sum_InvalidState :: u32 where "Sum_InvalidState \<equiv> 5"
abbreviation (input) Sum_NotSupported :: u32 where "Sum_NotSupported \<equiv> 6"
abbreviation (input) Sum_InvalidArgument :: u32 where "Sum_InvalidArgument \<equiv> 7"
abbreviation (input) Sum_WrongArgument :: u32 where "Sum_WrongArgument \<equiv> 8"
abbreviation (input) Sum_Canceled :: u32 where "Sum_Canceled \<equiv> 9"
abbreviation (input) Sum_StatusChanged :: u32 where "Sum_StatusChanged \<equiv> 10"
abbreviation (input) Sum_Internal :: u32 where "Sum_Internal \<equiv> 11"
abbreviation (input) Sum_InvalidResult :: u32 where "Sum_InvalidResult \<equiv> 63"

abbreviation (input) Lvl_Success :: u32 where "Lvl_Success \<equiv> 0"
abbreviation (input) Lvl_Info :: u32 where "Lvl_Info \<equiv> 1"
abbreviation (input) Lvl_Status :: u32 where "Lvl_Status \<equiv> 25"
abbreviation (input) Lvl_Temporary :: u32 where "Lvl_Temporary \<equiv> 26"
abbreviation (input) Lvl_Permanent :: u32 where "Lvl_Permanent \<equiv> 27"
abbreviation (input) Lvl_Usage :: u32 where "Lvl_Usage \<equiv> 28"
abbreviation (input) Lvl_Reinitialize :: u32 where "Lvl_Reinitialize \<equiv> 29"
abbreviation (input) Lvl_Reset :: u32 where "Lvl_Reset \<equiv> 30"
abbreviation (input) Lvl_Fatal :: u32 where "Lvl_Fatal \<equiv> 31"

abbreviation (input) ErrCodes_OutOfSharedMems :: u32 where "ErrCodes_OutOfSharedMems \<equiv> 11"
abbreviation (input) ErrCodes_OutOfThreads :: u32 where "ErrCodes_OutOfThreads \<equiv> 12"
abbreviation (input) ErrCodes_OutOfMutexes :: u32 where "ErrCodes_OutOfMutexes \<equiv> 13"
abbreviation (input) ErrCodes_OutOfSemaphores :: u32 where "ErrCodes_OutOfSemaphores \<equiv> 14"
abbreviation (input) ErrCodes_OutOfEvents :: u32 where "ErrCodes_OutOfEvents \<equiv> 15"
abbreviation (input) ErrCodes_OutOfTimers :: u32 where "ErrCodes_OutOfTimers \<equiv> 16"
abbreviation (input) ErrCodes_OutOfHandles :: u32 where "ErrCodes_OutOfHandles \<equiv> 19"
abbreviation (input) ErrCodes_SessionClosedByRemote :: u32 where "ErrCodes_SessionClosedByRemote \<equiv> 26"
abbreviation (input) ErrCodes_PortNameTooLong :: u32 where "ErrCodes_PortNameTooLong \<equiv> 30"
abbreviation (input) ErrCodes_WrongLockingThread :: u32 where "ErrCodes_WrongLockingThread \<equiv> 31"
abbreviation (input) ErrCodes_NoPendingSessions :: u32 where "ErrCodes_NoPendingSessions \<equiv> 35"
abbreviation (input) ErrCodes_WrongPermission :: u32 where "ErrCodes_WrongPermission \<equiv> 46"
abbreviation (input) ErrCodes_InvalidBufferDescriptor :: u32 where "ErrCodes_InvalidBufferDescriptor \<equiv> 48"
abbreviation (input) ErrCodes_OutOfAddressArbiters :: u32 where "ErrCodes_OutOfAddressArbiters \<equiv> 51"
abbreviation (input) ErrCodes_MaxConnectionsReached :: u32 where "ErrCodes_MaxConnectionsReached \<equiv> 52"
abbreviation (input) ErrCodes_CommandTooLarge :: u32 where "ErrCodes_CommandTooLarge \<equiv> 54"

section \<open>Result\<close>

text \<open>The union \<open>Result\<close>, as its \<open>raw\<close> word.\<close>

type_synonym result = u32

definition Result_make :: "u32 \<Rightarrow> u32 \<Rightarrow> u32 \<Rightarrow> u32 \<Rightarrow> result" where
  "Result_make d m s l =
     FormatValue 0 10 d OR FormatValue 10 8 m OR
     FormatValue 21 6 s OR FormatValue 27 5 l"

definition Result_IsSuccess :: "result \<Rightarrow> bool" where
  "Result_IsSuccess raw \<longleftrightarrow> ExtractValue 31 1 raw = 0"

definition Result_IsError :: "result \<Rightarrow> bool" where
  "Result_IsError raw \<longleftrightarrow> ExtractValue 31 1 raw = 1"

definition ResultSuccess :: result where
  "ResultSuccess = 0"

definition UnimplementedFunction :: "u32 \<Rightarrow> result" where
  "UnimplementedFunction m =
     Result_make Desc_NotImplemented m Sum_NotSupported Lvl_Permanent"

definition ResultUnknown :: result where
  "ResultUnknown = - 1"

text \<open>\<open>CASCADE_RESULT\<close> and \<open>R_UNLESS\<close>: an error returns from the function, a value goes on.\<close>

definition cascade :: "result + 'a \<Rightarrow> ('a \<Rightarrow> (result + 'b) run) \<Rightarrow> (result + 'b) run" where
  "cascade source f = (case source of Inl e \<Rightarrow> Some (Inl e) | Inr x \<Rightarrow> f x)"

lemma cascade_simps [simp]:
  "cascade (Inl e) f = Some (Inl e)" "cascade (Inr x) f = f x"
  by (simp_all add: cascade_def)

section \<open>The kernel's result constants\<close>

definition ResultOutOfHandles :: result where
  "ResultOutOfHandles =
     Result_make ErrCodes_OutOfHandles Mod_Kernel Sum_OutOfResource Lvl_Permanent"

definition ResultSessionClosed :: result where
  "ResultSessionClosed =
     Result_make ErrCodes_SessionClosedByRemote Mod_OS Sum_Canceled Lvl_Status"

definition ResultPortNameTooLong :: result where
  "ResultPortNameTooLong =
     Result_make ErrCodes_PortNameTooLong Mod_OS Sum_InvalidArgument Lvl_Usage"

definition ResultWrongPermission :: result where
  "ResultWrongPermission =
     Result_make ErrCodes_WrongPermission Mod_OS Sum_WrongArgument Lvl_Permanent"

definition ResultInvalidBufferDescriptor :: result where
  "ResultInvalidBufferDescriptor =
     Result_make ErrCodes_InvalidBufferDescriptor Mod_OS Sum_WrongArgument Lvl_Permanent"

definition ResultMaxConnectionsReached :: result where
  "ResultMaxConnectionsReached =
     Result_make ErrCodes_MaxConnectionsReached Mod_OS Sum_WouldBlock Lvl_Temporary"

definition ResultNotAuthorized :: result where
  "ResultNotAuthorized =
     Result_make Desc_NotAuthorized Mod_OS Sum_WrongArgument Lvl_Permanent"

definition ResultInvalidEnumValue :: result where
  "ResultInvalidEnumValue =
     Result_make Desc_InvalidEnumValue Mod_Kernel Sum_InvalidArgument Lvl_Permanent"

definition ResultInvalidEnumValueFnd :: result where
  "ResultInvalidEnumValueFnd =
     Result_make Desc_InvalidEnumValue Mod_FND Sum_InvalidArgument Lvl_Permanent"

definition ResultInvalidCombination :: result where
  "ResultInvalidCombination =
     Result_make Desc_InvalidCombination Mod_OS Sum_InvalidArgument Lvl_Usage"

definition ResultInvalidCombinationKernel :: result where
  "ResultInvalidCombinationKernel =
     Result_make Desc_InvalidCombination Mod_Kernel Sum_WrongArgument Lvl_Permanent"

definition ResultMisalignedAddress :: result where
  "ResultMisalignedAddress =
     Result_make Desc_MisalignedAddress Mod_OS Sum_InvalidArgument Lvl_Usage"

definition ResultMisalignedSize :: result where
  "ResultMisalignedSize =
     Result_make Desc_MisalignedSize Mod_OS Sum_InvalidArgument Lvl_Usage"

definition ResultOutOfMemory :: result where
  "ResultOutOfMemory =
     Result_make Desc_OutOfMemory Mod_Kernel Sum_OutOfResource Lvl_Permanent"

definition ResultOutOfHeapMemory :: result where
  "ResultOutOfHeapMemory =
     Result_make Desc_OutOfMemory Mod_OS Sum_OutOfResource Lvl_Status"

definition ResultNotImplemented :: result where
  "ResultNotImplemented =
     Result_make Desc_NotImplemented Mod_OS Sum_InvalidArgument Lvl_Usage"

definition ResultInvalidAddress :: result where
  "ResultInvalidAddress =
     Result_make Desc_InvalidAddress Mod_OS Sum_InvalidArgument Lvl_Usage"

definition ResultInvalidAddressState :: result where
  "ResultInvalidAddressState =
     Result_make Desc_InvalidAddress Mod_OS Sum_InvalidState Lvl_Usage"

definition ResultInvalidPointer :: result where
  "ResultInvalidPointer =
     Result_make Desc_InvalidPointer Mod_Kernel Sum_InvalidArgument Lvl_Permanent"

definition ResultInvalidHandle :: result where
  "ResultInvalidHandle =
     Result_make Desc_InvalidHandle Mod_Kernel Sum_InvalidArgument Lvl_Permanent"

definition ResultInvalidHandleOs :: result where
  "ResultInvalidHandleOs =
     Result_make Desc_InvalidHandle Mod_OS Sum_WrongArgument Lvl_Permanent"

definition ResultNotFound :: result where
  "ResultNotFound =
     Result_make Desc_NotFound Mod_Kernel Sum_NotFound Lvl_Permanent"

definition ResultOutOfRange :: result where
  "ResultOutOfRange =
     Result_make Desc_OutOfRange Mod_OS Sum_InvalidArgument Lvl_Usage"

definition ResultOutOfRangeKernel :: result where
  "ResultOutOfRangeKernel =
     Result_make Desc_OutOfRange Mod_Kernel Sum_InvalidArgument Lvl_Permanent"

definition ResultTimeout :: result where
  "ResultTimeout =
     Result_make Desc_Timeout Mod_OS Sum_StatusChanged Lvl_Info"

definition ResultNoPendingSessions :: result where
  "ResultNoPendingSessions =
     Result_make ErrCodes_NoPendingSessions Mod_OS Sum_WouldBlock Lvl_Permanent"


section \<open>Correctness\<close>

lemmas result_eval = Result_make_def FormatValue_def bf_mask_def mask_eq_exp_minus_1

lemmas kernel_result_defs =
  ResultOutOfHandles_def ResultSessionClosed_def ResultPortNameTooLong_def
  ResultMaxConnectionsReached_def ResultNotAuthorized_def ResultInvalidEnumValue_def
  ResultInvalidEnumValueFnd_def ResultInvalidCombination_def
  ResultInvalidCombinationKernel_def ResultMisalignedAddress_def ResultMisalignedSize_def
  ResultOutOfMemory_def ResultOutOfHeapMemory_def ResultNotImplemented_def
  ResultInvalidAddress_def ResultInvalidAddressState_def ResultInvalidPointer_def
  ResultInvalidHandle_def ResultInvalidHandleOs_def ResultNotFound_def
  ResultOutOfRange_def ResultOutOfRangeKernel_def ResultNoPendingSessions_def

lemma Result_make_field:
  "ExtractValue p n (Result_make d m s l) =
     ExtractValue p n (FormatValue 0 10 d) OR ExtractValue p n (FormatValue 10 8 m) OR
     ExtractValue p n (FormatValue 21 6 s) OR ExtractValue p n (FormatValue 27 5 l)"
  by (simp add: Result_make_def Extract_or)

text \<open>the four fields of a result code are read back from the word that \<open>Result\<close> builds
  out of them, truncated to their widths (10, 8, 6 and 5 bits).\<close>

theorem Result_fields:
  "ExtractValue 0 10 (Result_make d m s l) = take_bit 10 d \<and>
   ExtractValue 10 8 (Result_make d m s l) = take_bit 8 m \<and>
   ExtractValue 21 6 (Result_make d m s l) = take_bit 6 s \<and>
   ExtractValue 27 5 (Result_make d m s l) = take_bit 5 l"
  by (simp add: Result_make_field Extract_Format_same Extract_Format_other)

text \<open>The error bit is the top bit of the level: every level from \<open>Status\<close> on is an error.\<close>

lemma Result_IsError_iff_bit: "Result_IsError r \<longleftrightarrow> bit r 31"
proof -
  have "ExtractValue 31 1 r = (if bit r 31 then 1 else 0)"
    by (rule bit_eqI) (auto simp: bit_ExtractValue bit_1_iff)
  then show ?thesis by (simp add: Result_IsError_def)
qed

lemma Result_IsSuccess_iff: "Result_IsSuccess r \<longleftrightarrow> \<not> Result_IsError r"
proof -
  have "ExtractValue 31 1 r = (if bit r 31 then 1 else 0)"
    by (rule bit_eqI) (auto simp: bit_ExtractValue bit_1_iff)
  then show ?thesis by (simp add: Result_IsSuccess_def Result_IsError_def)
qed

lemma Result_make_IsError: "Result_IsError (Result_make d m s l) \<longleftrightarrow> bit l 4"
  by (simp add: Result_IsError_iff_bit Result_make_def bit_or_iff bit_FormatValue)

lemma IsError_ResultSuccess [simp]: "\<not> Result_IsError ResultSuccess"
  by (simp add: Result_IsError_iff_bit ResultSuccess_def)

text \<open>the kernel's result constants have the values that the comments of \<open>errors.h\<close> give;
  the one exception is \<open>ResultOutOfHeapMemory\<close>, whose comment gives 0xC860180A.\<close>

theorem kernel_result_values:
  "ResultOutOfHandles = 0xD8600413 \<and> ResultSessionClosed = 0xC920181A \<and>
    ResultPortNameTooLong = 0xE0E0181E \<and> ResultMaxConnectionsReached = 0xD0401834 \<and>
    ResultNotAuthorized = 0xD9001BEA \<and> ResultInvalidEnumValue = 0xD8E007ED \<and>
    ResultInvalidEnumValueFnd = 0xD8E093ED \<and> ResultInvalidCombination = 0xE0E01BEE \<and>
    ResultInvalidCombinationKernel = 0xD90007EE \<and> ResultMisalignedAddress = 0xE0E01BF1 \<and>
    ResultMisalignedSize = 0xE0E01BF2 \<and> ResultOutOfMemory = 0xD86007F3 \<and>
    ResultNotImplemented = 0xE0E01BF4 \<and> ResultInvalidAddress = 0xE0E01BF5 \<and>
    ResultInvalidAddressState = 0xE0A01BF5 \<and> ResultInvalidPointer = 0xD8E007F6 \<and>
    ResultInvalidHandle = 0xD8E007F7 \<and> ResultInvalidHandleOs = 0xD9001BF7 \<and>
    ResultNotFound = 0xD88007FA \<and> ResultOutOfRange = 0xE0E01BFD \<and>
    ResultOutOfRangeKernel = 0xD8E007FD \<and> ResultNoPendingSessions = 0xD8401823 \<and>
    ResultOutOfHeapMemory = 0xC8601BF3 \<and> ResultOutOfHeapMemory \<noteq> 0xC860180A"
  by (simp add: result_eval kernel_result_defs)

end
