(* ===== verification/VMManager.thy ===== *)
theory VMManager
  imports PageTable ResultCode
begin

text \<open>
  \<open>Kernel::VMManager\<close> (\<open>core/hle/kernel/vm_manager.h\<close>, \<open>vm_manager.cpp\<close>): the areas of a
  process' address space. The \<open>std::map\<close> from base address to area is the list of its areas in
  key order (an area's key is its base), an iterator is a position, \<open>end()\<close> the length. The
  marker of cached pages, which the page table's update reads, is the argument \<open>mk\<close>.
\<close>

section \<open>Data\<close>

datatype VMAType = VMA_Free | VMA_BackingMemory

abbreviation (input) "Perm_None \<equiv> (0 :: u8)"
abbreviation (input) "Perm_Read \<equiv> (1 :: u8)"
abbreviation (input) "Perm_Write \<equiv> (2 :: u8)"
abbreviation (input) "Perm_Execute \<equiv> (4 :: u8)"
abbreviation (input) "Perm_ReadWrite \<equiv> (3 :: u8)"

datatype MemoryState =
  MS_Free | MS_Reserved | MS_IO | MS_Static | MS_Code | MS_Private | MS_Shared | MS_Continuous |
  MS_Aliased | MS_Alias | MS_AliasCode | MS_Locked

record vma =
  vma_base :: u32
  vma_size :: u32
  vma_type :: VMAType
  permissions :: u8
  meminfo_state :: MemoryState
  backing_memory :: memory_ref

record vm_manager =
  vma_map :: "vma list"
  vm_page_table :: page_table
  vm_locked :: bool

abbreviation (input) "MAX_ADDRESS \<equiv> (0x40000000 :: u32)"

definition initial_vma :: vma where
  "initial_vma = \<lparr>vma_base = 0, vma_size = MAX_ADDRESS, vma_type = VMA_Free,
     permissions = Perm_None, meminfo_state = MS_Free, backing_memory = null_ref\<rparr>"

section \<open>The map\<close>

definition vma_at :: "vm_manager \<Rightarrow> nat \<Rightarrow> vma run" where
  "vma_at vm i = (if i < length (vma_map vm) then Some (vma_map vm ! i) else None)"

definition upper_bound :: "vma list \<Rightarrow> u32 \<Rightarrow> nat" where
  "upper_bound xs a = length (takeWhile (\<lambda>v. vma_base v \<le> a) xs)"

definition lower_bound :: "vma list \<Rightarrow> u32 \<Rightarrow> nat" where
  "lower_bound xs a = length (takeWhile (\<lambda>v. vma_base v < a) xs)"

text \<open>\<open>emplace_hint\<close>: nothing is inserted when the key is taken.\<close>

definition emplace :: "vma list \<Rightarrow> vma \<Rightarrow> nat \<times> vma list" where
  "emplace xs v =
     (let i = lower_bound xs (vma_base v)
      in if i < length xs \<and> vma_base (xs ! i) = vma_base v then (i, xs)
         else (i, take i xs @ v # drop i xs))"

definition erase_at :: "vma list \<Rightarrow> nat \<Rightarrow> vma list" where
  "erase_at xs i = take i xs @ drop (Suc i) xs"

definition set_vma :: "vm_manager \<Rightarrow> nat \<Rightarrow> vma \<Rightarrow> vm_manager" where
  "set_vma vm i v = vm\<lparr>vma_map := (vma_map vm)[i := v]\<rparr>"

section \<open>Splitting and merging\<close>

definition CanBeMergedWith :: "vma \<Rightarrow> vma \<Rightarrow> bool run" where
  "CanBeMergedWith v next_v = do {
     ASSERT (vma_base v + vma_size v = vma_base next_v);
     Some (if permissions v \<noteq> permissions next_v \<or> meminfo_state v \<noteq> meminfo_state next_v \<or>
              vma_type v \<noteq> vma_type next_v then False
           else if vma_type v = VMA_BackingMemory \<and>
              GetPtr (backing_memory v) + ucast (vma_size v) \<noteq> GetPtr (backing_memory next_v)
           then False else True)}"

definition FindVMA :: "vm_manager \<Rightarrow> u32 \<Rightarrow> nat run" where
  "FindVMA vm target =
     (if target \<ge> MAX_ADDRESS then Some (length (vma_map vm))
      else (case upper_bound (vma_map vm) target of 0 \<Rightarrow> None | Suc i \<Rightarrow> Some i))"

definition SplitVMA :: "vm_manager \<Rightarrow> nat \<Rightarrow> u32 \<Rightarrow> (nat \<times> vm_manager) run" where
  "SplitVMA vm i offset_in_vma = do {
     old_vma \<leftarrow> vma_at vm i;
     let new_vma = old_vma;
     ASSERT (offset_in_vma < vma_size old_vma);
     ASSERT (offset_in_vma > 0);
     let old_vma = old_vma\<lparr>vma_size := offset_in_vma\<rparr>;
     let vm = set_vma vm i old_vma;
     let new_vma = new_vma\<lparr>vma_base := vma_base new_vma + offset_in_vma,
       vma_size := vma_size new_vma - offset_in_vma\<rparr>;
     new_vma \<leftarrow> (case vma_type new_vma of
         VMA_Free \<Rightarrow> Some new_vma
       | VMA_BackingMemory \<Rightarrow> do {
           r \<leftarrow> ref_advance (backing_memory new_vma) offset_in_vma;
           Some (new_vma\<lparr>backing_memory := r\<rparr>)});
     mergeable \<leftarrow> CanBeMergedWith old_vma new_vma;
     ASSERT mergeable;
     let (j, xs) = emplace (vma_map vm) new_vma;
     Some (j, vm\<lparr>vma_map := xs\<rparr>)}"

definition merge_next :: "vm_manager \<Rightarrow> nat \<Rightarrow> vm_manager run" where
  "merge_next vm i =
     (if Suc i < length (vma_map vm) then do {
        v \<leftarrow> vma_at vm i;
        next_vma \<leftarrow> vma_at vm (Suc i);
        mergeable \<leftarrow> CanBeMergedWith v next_vma;
        if mergeable then
          Some (vm\<lparr>vma_map := erase_at
            ((vma_map vm)[i := v\<lparr>vma_size := vma_size v + vma_size next_vma\<rparr>]) (Suc i)\<rparr>)
        else Some vm}
      else Some vm)"

definition merge_prev :: "vm_manager \<Rightarrow> nat \<Rightarrow> (nat \<times> vm_manager) run" where
  "merge_prev vm i =
     (case i of 0 \<Rightarrow> Some (i, vm)
      | Suc p \<Rightarrow> do {
          v \<leftarrow> vma_at vm i;
          prev_vma \<leftarrow> vma_at vm p;
          mergeable \<leftarrow> CanBeMergedWith prev_vma v;
          if mergeable then
            Some (p, vm\<lparr>vma_map := erase_at
              ((vma_map vm)[p := prev_vma\<lparr>vma_size := vma_size prev_vma + vma_size v\<rparr>]) i\<rparr>)
          else Some (i, vm)})"

definition MergeAdjacent :: "vm_manager \<Rightarrow> nat \<Rightarrow> (nat \<times> vm_manager) run" where
  "MergeAdjacent vm i = do {
     v \<leftarrow> vma_at vm i;
     vm \<leftarrow> merge_next vm i;
     merge_prev vm i}"

definition UpdatePageTableForVMA :: "cache_marker \<Rightarrow> vm_manager \<Rightarrow> vma \<Rightarrow> vm_manager run" where
  "UpdatePageTableForVMA mk vm v = do {
     pt \<leftarrow> (case vma_type v of
         VMA_Free \<Rightarrow> UnmapRegion mk (vm_page_table vm) (vma_base v) (vma_size v)
       | VMA_BackingMemory \<Rightarrow>
           MapMemoryRegion mk (vm_page_table vm) (vma_base v) (vma_size v) (backing_memory v));
     Some (vm\<lparr>vm_page_table := pt\<rparr>)}"

definition VM_Reset :: "cache_marker \<Rightarrow> vm_manager \<Rightarrow> vm_manager run" where
  "VM_Reset mk vm = do {
     ASSERT (\<not> vm_locked vm);
     UpdatePageTableForVMA mk
       (vm\<lparr>vma_map := [initial_vma], vm_page_table := PageTable_Clear (vm_page_table vm)\<rparr>)
       initial_vma}"

definition VM_Unlock :: "vm_manager \<Rightarrow> vm_manager" where
  "VM_Unlock vm = vm\<lparr>vm_locked := False\<rparr>"

section \<open>Carving\<close>

definition page_aligned :: "u32 \<Rightarrow> bool" where
  "page_aligned a \<longleftrightarrow> a AND CITRA_PAGE_MASK = 0"

definition CarveVMA :: "vm_manager \<Rightarrow> u32 \<Rightarrow> u32 \<Rightarrow> (result + (nat \<times> vm_manager)) run" where
  "CarveVMA vm b sz = do {
     ASSERT (page_aligned sz);
     ASSERT (page_aligned b);
     i \<leftarrow> FindVMA vm b;
     if i = length (vma_map vm) then Some (Inl ResultInvalidAddress)
     else do {
       v \<leftarrow> vma_at vm i;
       if vma_type v \<noteq> VMA_Free then Some (Inl ResultInvalidAddressState)
       else do {
         let start_in_vma = b - vma_base v;
         let end_in_vma = start_in_vma + sz;
         if end_in_vma > vma_size v then Some (Inl ResultInvalidAddressState)
         else do {
           vm \<leftarrow> (if end_in_vma \<noteq> vma_size v then map_option snd (SplitVMA vm i end_in_vma)
                  else Some vm);
           (i, vm) \<leftarrow> (if start_in_vma \<noteq> 0 then SplitVMA vm i start_in_vma else Some (i, vm));
           Some (Inr (i, vm))}}}}"

definition CarveVMARange :: "vm_manager \<Rightarrow> u32 \<Rightarrow> u32 \<Rightarrow> (result + (nat \<times> vm_manager)) run" where
  "CarveVMARange vm target sz = do {
     ASSERT (page_aligned sz);
     ASSERT (page_aligned target);
     let target_end = target + sz;
     ASSERT (target_end \<ge> target);
     ASSERT (target_end \<le> MAX_ADDRESS);
     ASSERT (sz > 0);
     begin_vma \<leftarrow> FindVMA vm target;
     let i_end = lower_bound (vma_map vm) target_end;
     if \<exists>v \<in> set (take (i_end - begin_vma) (drop begin_vma (vma_map vm))). vma_type v = VMA_Free
     then Some (Inl ResultInvalidAddressState)
     else do {
       v \<leftarrow> vma_at vm begin_vma;
       (begin_vma, vm) \<leftarrow>
         (if target \<noteq> vma_base v then SplitVMA vm begin_vma (target - vma_base v)
          else Some (begin_vma, vm));
       end_vma \<leftarrow> FindVMA vm target_end;
       if end_vma = length (vma_map vm) then Some (Inr (begin_vma, vm))
       else do {
         w \<leftarrow> vma_at vm end_vma;
         if target_end \<noteq> vma_base w then do {
           (end_vma, vm) \<leftarrow> SplitVMA vm end_vma (target_end - vma_base w);
           Some (Inr (begin_vma, vm))}
         else Some (Inr (begin_vma, vm))}}}"

section \<open>The operations\<close>

definition MapBackingMemory ::
  "cache_marker \<Rightarrow> vm_manager \<Rightarrow> u32 \<Rightarrow> memory_ref \<Rightarrow> u32 \<Rightarrow> MemoryState \<Rightarrow>
     (result + (nat \<times> vm_manager)) run" where
  "MapBackingMemory mk vm target memory sz state = do {
     ASSERT (\<not> vm_locked vm);
     ASSERT (GetPtr memory \<noteq> 0);
     carved \<leftarrow> CarveVMA vm target sz;
     case carved of
       Inl e \<Rightarrow> Some (Inl e)
     | Inr (i, vm) \<Rightarrow> do {
         final_vma \<leftarrow> vma_at vm i;
         ASSERT (vma_size final_vma = sz);
         let final_vma = final_vma\<lparr>vma_type := VMA_BackingMemory, permissions := Perm_ReadWrite,
           meminfo_state := state, backing_memory := memory\<rparr>;
         vm \<leftarrow> UpdatePageTableForVMA mk (set_vma vm i final_vma) final_vma;
         map_option Inr (MergeAdjacent vm i)}}"

definition MapBackingMemoryToBase ::
  "cache_marker \<Rightarrow> vm_manager \<Rightarrow> u32 \<Rightarrow> u32 \<Rightarrow> memory_ref \<Rightarrow> u32 \<Rightarrow> MemoryState \<Rightarrow>
     (result + (u32 \<times> vm_manager)) run" where
  "MapBackingMemoryToBase mk vm b region_size memory sz state = do {
     ASSERT (\<not> vm_locked vm);
     let i = length (takeWhile (\<lambda>v. \<not> (vma_type v = VMA_Free \<and>
       vma_base v + vma_size v > b \<and> vma_base v + vma_size v \<ge> b + sz)) (vma_map vm));
     v \<leftarrow> vma_at vm i;
     let target = max b (vma_base v);
     if i = length (vma_map vm) \<or> target + sz > b + region_size then
       Some (Inl (Result_make Desc_OutOfMemory Mod_Kernel Sum_OutOfResource Lvl_Permanent))
     else do {
       r \<leftarrow> MapBackingMemory mk vm target memory sz state;
       case r of Inl e \<Rightarrow> Some (Inl e) | Inr (j, vm) \<Rightarrow> Some (Inr (target, vm))}}"

definition Unmap :: "cache_marker \<Rightarrow> vm_manager \<Rightarrow> nat \<Rightarrow> (nat \<times> vm_manager) run" where
  "Unmap mk vm i = do {
     ASSERT (\<not> vm_locked vm);
     v \<leftarrow> vma_at vm i;
     let v = v\<lparr>vma_type := VMA_Free, permissions := Perm_None, meminfo_state := MS_Free,
       backing_memory := null_ref\<rparr>;
     vm \<leftarrow> UpdatePageTableForVMA mk (set_vma vm i v) v;
     MergeAdjacent vm i}"

definition Reprotect :: "cache_marker \<Rightarrow> vm_manager \<Rightarrow> nat \<Rightarrow> u8 \<Rightarrow> (nat \<times> vm_manager) run" where
  "Reprotect mk vm i new_perms = do {
     ASSERT (\<not> vm_locked vm);
     v \<leftarrow> vma_at vm i;
     let v = v\<lparr>permissions := new_perms\<rparr>;
     vm \<leftarrow> UpdatePageTableForVMA mk (set_vma vm i v) v;
     MergeAdjacent vm i}"

definition change_state ::
  "cache_marker \<Rightarrow> MemoryState \<Rightarrow> u8 \<Rightarrow> vm_manager \<Rightarrow> nat \<Rightarrow> (nat \<times> vm_manager) run" where
  "change_state mk new_state new_perms vm i = do {
     v \<leftarrow> vma_at vm i;
     let v = v\<lparr>permissions := new_perms, meminfo_state := new_state\<rparr>;
     vm \<leftarrow> UpdatePageTableForVMA mk (set_vma vm i v) v;
     MergeAdjacent vm i}"

text \<open>The loop the three range operations share: from position \<open>i\<close> on, every area that starts
  below \<open>target_end\<close>.\<close>

partial_function (option) range_loop ::
  "(vm_manager \<Rightarrow> nat \<Rightarrow> (nat \<times> vm_manager) run) \<Rightarrow> u32 \<Rightarrow> nat \<Rightarrow> vm_manager \<Rightarrow> vm_manager run"
where
  "range_loop step target_end i vm =
     (if i < length (vma_map vm) \<and> vma_base (vma_map vm ! i) < target_end then
        Option.bind (step vm i) (\<lambda>(j, vm'). range_loop step target_end (Suc j) vm')
      else Some vm)"

definition UnmapRange :: "cache_marker \<Rightarrow> vm_manager \<Rightarrow> u32 \<Rightarrow> u32 \<Rightarrow> (result + vm_manager) run" where
  "UnmapRange mk vm target sz = do {
     ASSERT (\<not> vm_locked vm);
     carved \<leftarrow> CarveVMARange vm target sz;
     case carved of
       Inl e \<Rightarrow> Some (Inl e)
     | Inr (i, vm) \<Rightarrow> do {
         let target_end = target + sz;
         vm \<leftarrow> range_loop (Unmap mk) target_end i vm;
         j \<leftarrow> FindVMA vm target;
         v \<leftarrow> vma_at vm j;
         ASSERT (vma_size v \<ge> sz);
         Some (Inr vm)}}"

definition ReprotectRange ::
  "cache_marker \<Rightarrow> vm_manager \<Rightarrow> u32 \<Rightarrow> u32 \<Rightarrow> u8 \<Rightarrow> (result + vm_manager) run" where
  "ReprotectRange mk vm target sz new_perms = do {
     ASSERT (\<not> vm_locked vm);
     carved \<leftarrow> CarveVMARange vm target sz;
     case carved of
       Inl e \<Rightarrow> Some (Inl e)
     | Inr (i, vm) \<Rightarrow> do {
         let target_end = target + sz;
         vm \<leftarrow> range_loop (\<lambda>vm i. Reprotect mk vm i new_perms) target_end i vm;
         Some (Inr vm)}}"

text \<open>The areas from the one that holds \<open>target\<close> up to the first that starts at or after the end.\<close>

definition ChangeMemoryState ::
  "cache_marker \<Rightarrow> vm_manager \<Rightarrow> u32 \<Rightarrow> u32 \<Rightarrow> MemoryState \<Rightarrow> u8 \<Rightarrow> MemoryState \<Rightarrow> u8 \<Rightarrow>
     (result + vm_manager) run" where
  "ChangeMemoryState mk vm target sz expected_state expected_perms new_state new_perms =
     (if vm_locked vm then Some (Inr vm)
      else do {
        let target_end = target + sz;
        begin_vma \<leftarrow> FindVMA vm target;
        let i_end = lower_bound (vma_map vm) target_end;
        if begin_vma = length (vma_map vm) then Some (Inl ResultInvalidAddress)
        else if i_end < begin_vma then None
        else if \<exists>v \<in> set (take (i_end - begin_vma) (drop begin_vma (vma_map vm))).
            meminfo_state v \<noteq> expected_state \<or>
            permissions v AND expected_perms \<noteq> expected_perms
        then Some (Inl ResultInvalidAddressState)
        else do {
          carved \<leftarrow> CarveVMARange vm target sz;
          case carved of
            Inl e \<Rightarrow> Some (Inl e)
          | Inr (i, vm) \<Rightarrow> do {
              vm \<leftarrow> range_loop (change_state mk new_state new_perms) target_end i vm;
              Some (Inr vm)}}})"

text \<open>The loop of \<open>GetBackingBlocksForRange\<close>; \<open>range_end\<close> is \<open>address + size\<close>.\<close>

partial_function (option) backing_blocks ::
  "vm_manager \<Rightarrow> u32 \<Rightarrow> u32 \<Rightarrow> (memory_ref \<times> u32) list \<Rightarrow>
     (result + (memory_ref \<times> u32) list) run" where
  "backing_blocks vm range_end interval_target blocks =
     (if interval_target = range_end then Some (Inr blocks)
      else Option.bind (FindVMA vm interval_target) (\<lambda>i.
        Option.bind (vma_at vm i) (\<lambda>v.
          if vma_type v \<noteq> VMA_BackingMemory then Some (Inl ResultInvalidAddressState)
          else
            (let interval_end = min range_end (vma_base v + vma_size v);
                 interval_size = interval_end - interval_target
             in Option.bind (ref_plus (backing_memory v) (interval_target - vma_base v)) (\<lambda>r.
               backing_blocks vm range_end (interval_target + interval_size)
                 (blocks @ [(r, interval_size)]))))))"

definition GetBackingBlocksForRange ::
  "vm_manager \<Rightarrow> u32 \<Rightarrow> u32 \<Rightarrow> (result + (memory_ref \<times> u32) list) run" where
  "GetBackingBlocksForRange vm address sz = backing_blocks vm (address + sz) address []"

section \<open>Areas that tile an address range\<close>

abbreviation vma_end :: "vma \<Rightarrow> nat" where
  "vma_end v \<equiv> unat (vma_base v) + unat (vma_size v)"

fun tiles :: "nat \<Rightarrow> vma list \<Rightarrow> nat \<Rightarrow> bool" where
  "tiles b [] e \<longleftrightarrow> b = e"
| "tiles b (v # vs) e \<longleftrightarrow>
     unat (vma_base v) = b \<and> 0 < unat (vma_size v) \<and> tiles (b + unat (vma_size v)) vs e"

lemma tiles_append: "tiles b (xs @ ys) e \<longleftrightarrow> (\<exists>m. tiles b xs m \<and> tiles m ys e)"
  by (induction xs arbitrary: b) auto

lemma tiles_le: "tiles b xs e \<Longrightarrow> b \<le> e"
  by (induction xs arbitrary: b) fastforce+

lemma tiles_bounds:
  "tiles b xs e \<Longrightarrow> v \<in> set xs \<Longrightarrow> b \<le> unat (vma_base v) \<and> 0 < unat (vma_size v) \<and> vma_end v \<le> e"
  by (induction xs arbitrary: b) (fastforce dest: tiles_le)+

lemma tiles_fun: "tiles b xs e \<Longrightarrow> tiles b xs e' \<Longrightarrow> e = e'"
  by (induction xs arbitrary: b) auto

text \<open>The area that holds an address, and where the two searches of the map land.\<close>

lemma tiles_find:
  assumes "tiles b xs e" and "b \<le> unat t" and "unat t < e"
  shows "\<exists>ps v ns. xs = ps @ v # ns \<and> upper_bound xs t = Suc (length ps) \<and>
    unat (vma_base v) \<le> unat t \<and> unat t < vma_end v"
  using assms
proof (induction xs arbitrary: b)
  case (Cons v vs)
  show ?case
  proof (cases "unat t < b + unat (vma_size v)")
    case True
    have "takeWhile (\<lambda>v. vma_base v \<le> t) vs = []"
    proof (cases vs)
      case (Cons w ws)
      then show ?thesis using Cons.prems True by (auto simp: word_le_nat_alt)
    qed simp
    then have "upper_bound (v # vs) t = Suc (length [])"
      using Cons.prems by (simp add: upper_bound_def word_le_nat_alt)
    then show ?thesis
      using Cons.prems True by (intro exI [of _ "[]"] exI [of _ v] exI [of _ vs]) auto
  next
    case False
    then obtain ps w ns where w: "vs = ps @ w # ns" "upper_bound vs t = Suc (length ps)"
        "unat (vma_base w) \<le> unat t" "unat t < vma_end w"
      using Cons.IH [of "b + unat (vma_size v)"] Cons.prems by auto
    then show ?thesis
      using Cons.prems
      by (intro exI [of _ "v # ps"] exI [of _ w] exI [of _ ns])
        (auto simp: upper_bound_def word_le_nat_alt)
  qed
qed simp

lemma lower_bound_split:
  assumes "\<forall>v \<in> set xs. unat (vma_base v) < unat t"
    and "ys = [] \<or> unat t \<le> unat (vma_base (hd ys))"
  shows "lower_bound (xs @ ys) t = length xs"
proof -
  have "takeWhile (\<lambda>v. vma_base v < t) (xs @ ys) = xs @ takeWhile (\<lambda>v. vma_base v < t) ys"
    using assms(1) by (intro takeWhile_append2) (simp add: word_less_nat_alt)
  moreover have "takeWhile (\<lambda>v. vma_base v < t) ys = []"
    using assms(2) by (cases ys) (auto simp: word_less_nat_alt)
  ultimately show ?thesis by (simp add: lower_bound_def)
qed

lemma lower_bound_split':
  assumes "\<forall>v \<in> set xs. unat (vma_base v) < unat t"
    and "ys = [] \<or> unat t < unat (vma_base (hd ys))"
  shows "lower_bound (xs @ ys) t = length xs"
  using lower_bound_split [of xs t ys] assms by auto

section \<open>What an address maps to\<close>

type_synonym addr_info = "VMAType \<times> u8 \<times> MemoryState \<times> u64"

definition in_area :: "nat \<Rightarrow> vma \<Rightarrow> bool" where
  "in_area a v \<longleftrightarrow> unat (vma_base v) \<le> a \<and> a < vma_end v"

definition info :: "vma \<Rightarrow> nat \<Rightarrow> addr_info" where
  "info v a = (vma_type v, permissions v, meminfo_state v,
     if vma_type v = VMA_Free then 0
     else GetPtr (backing_memory v) + of_nat (a - unat (vma_base v)))"

definition view :: "vma list \<Rightarrow> nat \<Rightarrow> addr_info option" where
  "view xs a = map_option (\<lambda>v. info v a) (find (in_area a) xs)"

lemma view_Nil [simp]: "view [] a = None"
  by (simp add: view_def)

lemma view_Cons: "view (v # vs) a = (if in_area a v then Some (info v a) else view vs a)"
  by (simp add: view_def)

lemma view_outside:
  "tiles b xs e \<Longrightarrow> a < b \<or> e \<le> a \<Longrightarrow> view xs a = None"
  using tiles_bounds [of b xs e] by (auto simp: view_def find_None_iff in_area_def) fastforce+

lemma view_append:
  assumes "tiles b xs m" and "tiles m ys e"
  shows "view (xs @ ys) a = (if a < m then view xs a else view ys a)"
proof (cases "a < m")
  case True
  then have "view ys a = None" using view_outside [OF assms(2)] by simp
  then have "find (in_area a) ys = None" by (simp add: view_def)
  then have "find (in_area a) (xs @ ys) = find (in_area a) xs"
    by (induction xs) auto
  with True show ?thesis by (simp add: view_def)
next
  case False
  then have "find (in_area a) xs = None"
    using view_outside [OF assms(1)] by (simp add: view_def)
  then have "find (in_area a) (xs @ ys) = find (in_area a) ys"
    by (induction xs) (auto split: if_splits)
  with False show ?thesis by (simp add: view_def)
qed

text \<open>The view of a middle area.\<close>

lemma view_middle:
  assumes "tiles b (ps @ v # ns) e"
  shows "view (ps @ v # ns) a =
    (if in_area a v then Some (info v a) else view (ps @ ns) a)"
    and "in_area a v \<Longrightarrow> view ps a = None \<and> view ns a = None"
proof -
  obtain m where m: "tiles b ps m" "unat (vma_base v) = m" "tiles (m + unat (vma_size v)) ns e"
    using assms by (auto simp: tiles_append)
  have ps: "in_area a v \<Longrightarrow> view ps a = None" for a
    using view_outside [OF m(1)] m(2) by (simp add: in_area_def)
  have find_app: "find (in_area a) (ps @ zs) =
      (case find (in_area a) ps of None \<Rightarrow> find (in_area a) zs | Some w \<Rightarrow> Some w)" for zs
    by (induction ps) auto
  show "view (ps @ v # ns) a = (if in_area a v then Some (info v a) else view (ps @ ns) a)"
    using ps [of a] by (auto simp: view_def find_app split: option.splits)
  show "in_area a v \<Longrightarrow> view ps a = None \<and> view ns a = None"
    using ps [of a] view_outside [OF m(3), of a] m(2) by (simp add: in_area_def)
qed

section \<open>Well-formed areas, splitting and merging\<close>

lemma page_aligned_iff: "page_aligned a \<longleftrightarrow> unat a mod 0x1000 = 0"
proof -
  have m: "(0xFFF :: u32) = mask 12" by (simp add: mask_eq_exp_minus_1)
  have "unat (a AND 0xFFF) = unat a mod 0x1000"
    unfolding m take_bit_eq_mask [symmetric] unsigned_take_bit_eq by (simp add: take_bit_eq_mod)
  then show ?thesis
    by (simp add: page_aligned_def) (metis unat_eq_0)
qed

text \<open>
  The host buffers of the process: no two of them touch, or the areas that merge because the
  one's pointer ends where the other's begins could outgrow their buffer.
\<close>

definition separated :: "host_buffer set \<Rightarrow> bool" where
  "separated H \<longleftrightarrow> (\<forall>b \<in> H. \<forall>c \<in> H. b = c \<or>
     unat (hb_ptr b) + unat (hb_size b) < unat (hb_ptr c) \<or>
     unat (hb_ptr c) + unat (hb_size c) < unat (hb_ptr b))"

definition vma_ok :: "host_buffer set \<Rightarrow> vma \<Rightarrow> bool" where
  "vma_ok H v \<longleftrightarrow> page_aligned (vma_base v) \<and> page_aligned (vma_size v) \<and>
     (vma_type v = VMA_BackingMemory \<longrightarrow> ref_covers (backing_memory v) (unat (vma_size v)) \<and>
       the (backing_mem (backing_memory v)) \<in> H)"

lemma adjacent_refs:
  assumes H: "separated H" and r: "ref_covers r n" "the (backing_mem r) \<in> H"
    and q: "ref_covers q k" "the (backing_mem q) \<in> H" "0 < k"
    and adj: "unat (GetPtr r) + n = unat (GetPtr q)"
  shows "ref_covers r (n + k)"
proof -
  obtain b where b: "backing_mem r = Some b" "hb_ptr b \<noteq> 0"
    "unat (hb_ptr b) + unat (hb_size b) < 2 ^ 64" "unat (ref_offset r) + n \<le> unat (hb_size b)"
    using r(1) by (rule ref_coversE)
  obtain c where c: "backing_mem q = Some c" "hb_ptr c \<noteq> 0"
    "unat (hb_ptr c) + unat (hb_size c) < 2 ^ 64" "unat (ref_offset q) + k \<le> unat (hb_size c)"
    using q(1) by (rule ref_coversE)
  have rp: "unat (GetPtr r) = unat (hb_ptr b) + unat (ref_offset r)"
    using b by (simp add: GetPtr_def unat_plus_fits64)
  have qp: "unat (GetPtr q) = unat (hb_ptr c) + unat (ref_offset q)"
    using c by (simp add: GetPtr_def unat_plus_fits64)
  have "b = c \<or> unat (hb_ptr b) + unat (hb_size b) < unat (hb_ptr c) \<or>
     unat (hb_ptr c) + unat (hb_size c) < unat (hb_ptr b)"
    using H r(2) q(2) b(1) c(1) by (auto simp: separated_def)
  then have "b = c" using rp qp adj b(4) c(4) q(3) by auto
  with rp qp adj b c show ?thesis by (simp add: ref_covers_def)
qed

definition kind :: "vma \<Rightarrow> VMAType \<times> u8 \<times> MemoryState" where
  "kind v = (vma_type v, permissions v, meminfo_state v)"

lemma of_nat_unat_u32: "(of_nat (unat (w :: u32)) :: u64) = ucast w"
  by (simp add: unsigned_ucast_eq)

lemma plus_u32:
  "unat (a :: u32) + unat b \<le> 0x40000000 \<Longrightarrow> unat (a + b) = unat a + unat b"
  by (rule unat_plus_fits) simp

text \<open>Two areas can be merged when the second continues the first.\<close>

definition continues :: "vma \<Rightarrow> vma \<Rightarrow> bool" where
  "continues v w \<longleftrightarrow> kind v = kind w \<and>
     (vma_type v = VMA_BackingMemory \<longrightarrow>
       GetPtr (backing_memory v) + ucast (vma_size v) = GetPtr (backing_memory w))"

lemma CanBeMergedWith_iff:
  assumes "vma_end v = unat (vma_base w)" and "vma_end v \<le> 0x40000000"
  shows "CanBeMergedWith v w = Some (continues v w)"
proof -
  have "vma_base v + vma_size v = vma_base w"
    using plus_u32 [of "vma_base v" "vma_size v"] assms by (simp add: word_unat_eq_iff)
  then show ?thesis by (auto simp: CanBeMergedWith_def continues_def kind_def)
qed

lemma info_continues:
  assumes "continues v w" and "vma_end v = unat (vma_base w)" and "unat (vma_base w) \<le> a"
  shows "info (v\<lparr>vma_size := s\<rparr>) a = info w a"
proof -
  have "a - unat (vma_base v) = unat (vma_size v) + (a - unat (vma_base w))"
    using assms(2,3) by simp
  then have "of_nat (a - unat (vma_base v)) =
      (of_nat (unat (vma_size v)) + of_nat (a - unat (vma_base w)) :: u64)"
    by (simp only: of_nat_add)
  then have "(of_nat (a - unat (vma_base v)) :: u64) =
      ucast (vma_size v) + of_nat (a - unat (vma_base w))"
    by (simp only: of_nat_unat_u32)
  with assms(1) show ?thesis
    by (cases "vma_type w") (auto simp: info_def continues_def kind_def add.assoc [symmetric])
qed

lemma view_skip: "\<not> in_area a v \<Longrightarrow> view (ps @ v # ns) a = view (ps @ ns) a"
  by (induction ps) (auto simp: view_Cons)

lemma merged_view:
  assumes t: "tiles b (ps @ v # w # ns) e" and "e \<le> 0x40000000" and c: "continues v w"
  defines "u \<equiv> v\<lparr>vma_size := vma_size v + vma_size w\<rparr>"
  shows "tiles b (ps @ u # ns) e" and "view (ps @ u # ns) = view (ps @ v # w # ns)"
    and "vma_end u = vma_end w"
    and "separated H \<Longrightarrow> vma_ok H v \<Longrightarrow> vma_ok H w \<Longrightarrow> vma_ok H u"
proof -
  obtain m where m: "tiles b ps m" "unat (vma_base v) = m" "0 < unat (vma_size v)"
      "unat (vma_base w) = m + unat (vma_size v)" "0 < unat (vma_size w)"
      "tiles (m + unat (vma_size v) + unat (vma_size w)) ns e"
    using t by (auto simp: tiles_append)
  have "m + unat (vma_size v) + unat (vma_size w) \<le> 0x40000000"
    using tiles_le [OF m(6)] assms(2) by simp
  then have s: "unat (vma_size v + vma_size w) = unat (vma_size v) + unat (vma_size w)"
    by (intro plus_u32) simp
  show t': "tiles b (ps @ u # ns) e"
    using m s by (auto simp: tiles_append u_def add.assoc intro!: exI [of _ m])
  show "vma_end u = vma_end w" using m s by (simp add: u_def)
  have "tiles b ((ps @ [v]) @ w # ns) e" using t by simp
  note vw = view_middle(1) [OF t] and ww = view_middle(1) [OF this] and uu = view_middle(1) [OF t']
  show "view (ps @ u # ns) = view (ps @ v # w # ns)"
  proof
    fix a
    have area: "in_area a u \<longleftrightarrow> in_area a v \<or> in_area a w"
      using m s by (auto simp: in_area_def u_def)
    consider "in_area a v" | "\<not> in_area a v" "in_area a w" | "\<not> in_area a v" "\<not> in_area a w"
      by blast
    then show "view (ps @ u # ns) a = view (ps @ v # w # ns) a"
    proof cases
      case 1
      then show ?thesis using area by (simp add: vw uu) (simp add: info_def u_def)
    next
      case 2
      have "info u a = info w a"
        unfolding u_def using m 2 by (intro info_continues [OF c]) (auto simp: in_area_def)
      moreover have "view (ps @ v # w # ns) a = Some (info w a)"
        using 2 ww by simp
      ultimately show ?thesis using 2 area by (simp add: uu)
    next
      case 3
      have "view (ps @ v # w # ns) a = view (ps @ ns) a"
        using view_skip [of a v ps "w # ns"] view_skip [of a w ps ns] 3 by simp
      then show ?thesis using 3 area by (simp add: uu)
    qed
  qed
  assume H: "separated H" and ok: "vma_ok H v" "vma_ok H w"
  have "ref_covers (backing_memory v) (unat (vma_size v) + unat (vma_size w))"
    if "vma_type v = VMA_BackingMemory"
  proof -
    have r: "ref_covers (backing_memory v) (unat (vma_size v))"
        "the (backing_mem (backing_memory v)) \<in> H"
        "ref_covers (backing_memory w) (unat (vma_size w))"
        "the (backing_mem (backing_memory w)) \<in> H"
        "GetPtr (backing_memory v) + ucast (vma_size v) = GetPtr (backing_memory w)"
      using that ok c by (auto simp: vma_ok_def continues_def kind_def)
    have "unat (GetPtr (backing_memory v)) + unat (vma_size v) = unat (GetPtr (backing_memory w))"
      using ref_covers_ptr(3) [OF r(1)] unfolding r(5) [symmetric]
      by (subst unat_plus_fits64) simp_all
    with adjacent_refs [OF H r(1,2,3,4) m(5)] show ?thesis by simp
  qed
  with ok c s show "vma_ok H u"
    by (auto simp: vma_ok_def u_def continues_def kind_def page_aligned_iff mod_add_eq)
qed

definition areas_ok :: "host_buffer set \<Rightarrow> vma list \<Rightarrow> bool" where
  "areas_ok H xs \<longleftrightarrow> separated H \<and> tiles 0 xs 0x40000000 \<and> (\<forall>v \<in> set xs. vma_ok H v)"

lemma areas_okD:
  assumes "areas_ok H (ps @ v # ns)"
  shows "tiles 0 ps (unat (vma_base v))" and "0 < unat (vma_size v)"
    and "tiles (vma_end v) ns 0x40000000" and "vma_end v \<le> 0x40000000" and "vma_ok H v"
    and "separated H" and "tiles 0 (ps @ v # ns) 0x40000000"
proof -
  show t: "tiles 0 (ps @ v # ns) 0x40000000" using assms by (simp add: areas_ok_def)
  then show "tiles 0 ps (unat (vma_base v))" "0 < unat (vma_size v)"
      "tiles (vma_end v) ns 0x40000000"
    by (auto simp: tiles_append)
  then show "vma_end v \<le> 0x40000000" using tiles_le by blast
  show "vma_ok H v" "separated H" using assms by (simp_all add: areas_ok_def)
qed

lemma vma_at_middle [simp]: "vma_map vm = ps @ v # ns \<Longrightarrow> vma_at vm (length ps) = Some v"
  by (simp add: vma_at_def)

lemma vma_at_middle' [simp]:
  "vma_map vm = ps @ u # v # ns \<Longrightarrow> vma_at vm (Suc (length ps)) = Some v"
  by (simp add: vma_at_def nth_append)

lemma SplitVMA_spec:
  assumes vm: "vma_map vm = ps @ v # ns" and ok: "areas_ok H (ps @ v # ns)"
    and off: "0 < off" "off < vma_size v" "page_aligned off"
  shows "\<exists>v1 v2. SplitVMA vm (length ps) off =
      Some (Suc (length ps), vm\<lparr>vma_map := ps @ v1 # v2 # ns\<rparr>) \<and>
    v1 = v\<lparr>vma_size := off\<rparr> \<and> unat (vma_base v2) = unat (vma_base v) + unat off \<and>
    vma_end v2 = vma_end v \<and> kind v2 = kind v \<and> areas_ok H (ps @ v1 # v2 # ns) \<and>
    view (ps @ v1 # v2 # ns) = view (ps @ v # ns)"
proof -
  note D = areas_okD [OF ok]
  have o: "0 < unat off" "unat off < unat (vma_size v)"
    using off(1,2) by (simp_all add: word_less_nat_alt)
  have nb: "unat (vma_base v + off) = unat (vma_base v) + unat off"
    using D(4) o by (intro plus_u32) simp
  have ns: "unat (vma_size v - off) = unat (vma_size v) - unat off"
    using o by (simp add: unat_sub word_le_nat_alt)
  obtain r where r: "(case vma_type v of VMA_Free \<Rightarrow> Some (backing_memory v)
       | VMA_BackingMemory \<Rightarrow> ref_advance (backing_memory v) off) = Some r"
     "vma_type v = VMA_BackingMemory \<longrightarrow> ref_covers r (unat (vma_size v) - unat off) \<and>
       GetPtr r = GetPtr (backing_memory v) + ucast off \<and> the (backing_mem r) \<in> H"
  proof (cases "vma_type v")
    case VMA_BackingMemory
    then have c: "ref_covers (backing_memory v) (unat (vma_size v))"
        "the (backing_mem (backing_memory v)) \<in> H"
      using D(5) by (simp_all add: vma_ok_def)
    obtain r where r: "ref_advance (backing_memory v) off = Some r"
        "ref_covers r (unat (vma_size v) - unat off)"
        "GetPtr r = GetPtr (backing_memory v) + ucast off"
      using ref_step [OF c(1) o(2)] by blast
    moreover have "backing_mem r = backing_mem (backing_memory v)"
      using r(1) by (auto simp: ref_advance_def)
    ultimately show ?thesis using that VMA_BackingMemory c(2) by simp
  qed (use that in auto)
  define v1 where "v1 = v\<lparr>vma_size := off\<rparr>"
  define v2 where "v2 = v\<lparr>vma_base := vma_base v + off, vma_size := vma_size v - off,
    backing_memory := r\<rparr>"
  have sel: "unat (vma_base v1) = unat (vma_base v)" "vma_size v1 = off" "vma_end v2 = vma_end v"
      "unat (vma_base v2) = unat (vma_base v) + unat off" "kind v1 = kind v" "kind v2 = kind v"
    using nb ns o by (simp_all add: v1_def v2_def kind_def)
  have cont: "continues v1 v2"
    using r(2) by (auto simp: continues_def v1_def v2_def kind_def)
  have t: "tiles 0 (ps @ v1 # v2 # ns) 0x40000000"
    using D nb ns o by (auto simp: tiles_append v1_def v2_def intro!: exI [of _ "unat (vma_base v)"])
  have a: "unat off mod 0x1000 = 0" "unat (vma_base v) mod 0x1000 = 0" "unat (vma_size v) mod 0x1000 = 0"
    using off(3) D(5) by (simp_all add: page_aligned_iff vma_ok_def)
  then have "page_aligned (vma_base v + off)" "page_aligned (vma_size v - off)"
    by (simp_all add: page_aligned_iff nb ns mod_eq_0_iff_dvd)
  then have ok1: "vma_ok H v1" and ok2: "vma_ok H v2"
    using D(5) off(3) r(2) o ns
    by (auto simp: vma_ok_def v1_def v2_def ref_covers_def split: option.splits)
  have areas: "areas_ok H (ps @ v1 # v2 # ns)"
    using t ok1 ok2 ok by (auto simp: areas_ok_def)
  have "v1\<lparr>vma_size := vma_size v1 + vma_size v2\<rparr> = v" by (simp add: v1_def v2_def)
  then have vw: "view (ps @ v1 # v2 # ns) = view (ps @ v # ns)"
    using merged_view(2) [OF t _ cont] by simp
  have low: "lower_bound (ps @ v1 # ns) (vma_base v2) = Suc (length ps)"
  proof -
    have "lower_bound ((ps @ [v1]) @ ns) (vma_base v2) = length (ps @ [v1])"
    proof (rule lower_bound_split')
      show "\<forall>w \<in> set (ps @ [v1]). unat (vma_base w) < unat (vma_base v2)"
        using tiles_bounds [OF D(1)] sel o by fastforce
      show "ns = [] \<or> unat (vma_base v2) < unat (vma_base (hd ns))"
        using D(3) sel o by (cases ns) auto
    qed
    then show ?thesis by simp
  qed
  have emp: "emplace (ps @ v1 # ns) v2 = (Suc (length ps), ps @ v1 # v2 # ns)"
  proof -
    have "Suc (length ps) < length (ps @ v1 # ns) \<Longrightarrow>
        vma_base ((ps @ v1 # ns) ! Suc (length ps)) \<noteq> vma_base v2"
      using D(3) sel o by (cases ns) (auto simp: nth_append)
    then show ?thesis by (auto simp: emplace_def low)
  qed
  have can: "CanBeMergedWith v1 v2 = Some True"
    using CanBeMergedWith_iff [of v1 v2] sel D(4) o cont by simp
  have "SplitVMA vm (length ps) off = Some (Suc (length ps), vm\<lparr>vma_map := ps @ v1 # v2 # ns\<rparr>)"
    using vm off(1,2) r(1) emp can
    by (cases "vma_type v") (auto simp: SplitVMA_def set_vma_def Let_def v1_def v2_def)
  then show ?thesis
    using sel areas vw by (auto simp: v1_def)
qed

lemma areas_ok_merged:
  assumes "areas_ok H (ps @ v # w # ns)" and "continues v w"
  shows "areas_ok H (ps @ v\<lparr>vma_size := vma_size v + vma_size w\<rparr> # ns)"
    and "view (ps @ v\<lparr>vma_size := vma_size v + vma_size w\<rparr> # ns) = view (ps @ v # w # ns)"
    and "vma_end (v\<lparr>vma_size := vma_size v + vma_size w\<rparr>) = vma_end w"
  using assms merged_view [of 0 ps v w ns "0x40000000"] by (auto simp: areas_ok_def)

lemma merge_next_spec:
  assumes vm: "vma_map vm = ps @ v # ns" and ok: "areas_ok H (ps @ v # ns)"
  shows "\<exists>u ns'. merge_next vm (length ps) = Some (vm\<lparr>vma_map := ps @ u # ns'\<rparr>) \<and>
    areas_ok H (ps @ u # ns') \<and> view (ps @ u # ns') = view (ps @ v # ns) \<and>
    u = v\<lparr>vma_size := vma_size u\<rparr> \<and>
    (ns' = ns \<and> vma_end u = vma_end v \<or>
     (\<exists>w. ns = w # ns' \<and> vma_end u = vma_end w \<and> continues v w))"
proof (cases ns)
  case Nil
  then show ?thesis
    using assms by (intro exI [of _ v] exI [of _ "[]"]) (simp add: merge_next_def)
next
  case (Cons w ws)
  have can: "CanBeMergedWith v w = Some (continues v w)"
    using areas_okD(3,4) [OF ok] Cons by (intro CanBeMergedWith_iff) auto
  show ?thesis
  proof (cases "continues v w")
    case True
    note M = areas_ok_merged [OF ok [unfolded Cons] True]
    have "erase_at ((ps @ v # w # ws)[length ps := x]) (Suc (length ps)) = ps @ x # ws" for x
      by (simp add: erase_at_def)
    then have "merge_next vm (length ps) =
        Some (vm\<lparr>vma_map := ps @ v\<lparr>vma_size := vma_size v + vma_size w\<rparr> # ws\<rparr>)"
      using vm Cons can True by (simp add: merge_next_def)
    then show ?thesis
      using M True Cons
      by (intro exI [of _ "v\<lparr>vma_size := vma_size v + vma_size w\<rparr>"] exI [of _ ws]) simp
  next
    case False
    then have "merge_next vm (length ps) = Some (vm\<lparr>vma_map := ps @ v # ns\<rparr>)"
      using vm Cons can by (simp add: merge_next_def)
    then show ?thesis using ok by (intro exI [of _ v] exI [of _ ns]) simp
  qed
qed

lemma merge_prev_spec:
  assumes vm: "vma_map vm = ps @ v # ns" and ok: "areas_ok H (ps @ v # ns)"
  shows "\<exists>ps' u. merge_prev vm (length ps) = Some (length ps', vm\<lparr>vma_map := ps' @ u # ns\<rparr>) \<and>
    areas_ok H (ps' @ u # ns) \<and> view (ps' @ u # ns) = view (ps @ v # ns) \<and> kind u = kind v \<and>
    unat (vma_base u) \<le> unat (vma_base v) \<and> vma_end u = vma_end v \<and>
    (ps \<noteq> [] \<and> continues (last ps) v \<longrightarrow> vma_base u = vma_base (last ps))"
proof (cases ps rule: rev_cases)
  case Nil
  then show ?thesis
    using assms by (intro exI [of _ "[]"] exI [of _ v]) (simp add: merge_prev_def)
next
  case (snoc qs p)
  have ok': "areas_ok H (qs @ p # v # ns)" using ok snoc by simp
  have can: "CanBeMergedWith p v = Some (continues p v)"
    using areas_okD(3,4) [OF ok'] by (intro CanBeMergedWith_iff) auto
  have at: "vma_at vm (length qs) = Some p" "vma_at vm (Suc (length qs)) = Some v"
    using vm snoc by (simp_all add: vma_at_def nth_append)
  show ?thesis
  proof (cases "continues p v")
    case True
    note M = areas_ok_merged [OF ok' True]
    let ?u = "p\<lparr>vma_size := vma_size p + vma_size v\<rparr>"
    have "erase_at ((qs @ p # v # ns)[length qs := x]) (Suc (length qs)) = qs @ x # ns" for x
      by (simp add: erase_at_def)
    then have "merge_prev vm (length ps) = Some (length qs, vm\<lparr>vma_map := qs @ ?u # ns\<rparr>)"
      using vm snoc can True at by (simp add: merge_prev_def)
    moreover have "kind ?u = kind v" using True by (simp add: continues_def kind_def)
    moreover have "unat (vma_base p) \<le> unat (vma_base v)"
      using areas_okD(3) [OF ok'] by simp
    ultimately show ?thesis
      using M snoc by (intro exI [of _ qs] exI [of _ ?u]) simp
  next
    case False
    then have "merge_prev vm (length ps) = Some (length ps, vm\<lparr>vma_map := ps @ v # ns\<rparr>)"
      using vm snoc can at by (simp add: merge_prev_def)
    then show ?thesis using ok False snoc by (intro exI [of _ ps] exI [of _ v]) simp
  qed
qed

lemma MergeAdjacent_spec:
  assumes vm: "vma_map vm = ps @ v # ns" and ok: "areas_ok H (ps @ v # ns)"
  shows "\<exists>ps' u ns'. MergeAdjacent vm (length ps) =
      Some (length ps', vm\<lparr>vma_map := ps' @ u # ns'\<rparr>) \<and>
    areas_ok H (ps' @ u # ns') \<and> view (ps' @ u # ns') = view (ps @ v # ns) \<and> kind u = kind v \<and>
    unat (vma_base u) \<le> unat (vma_base v) \<and>
    (ns' = ns \<and> vma_end u = vma_end v \<or>
     (\<exists>w. ns = w # ns' \<and> vma_end u = vma_end w \<and> continues v w)) \<and>
    (ps \<noteq> [] \<and> continues (last ps) v \<longrightarrow> vma_base u = vma_base (last ps))"
proof -
  obtain u1 ns1 where n: "merge_next vm (length ps) = Some (vm\<lparr>vma_map := ps @ u1 # ns1\<rparr>)"
      "areas_ok H (ps @ u1 # ns1)" "view (ps @ u1 # ns1) = view (ps @ v # ns)"
      "u1 = v\<lparr>vma_size := vma_size u1\<rparr>"
      "ns1 = ns \<and> vma_end u1 = vma_end v \<or>
       (\<exists>w. ns = w # ns1 \<and> vma_end u1 = vma_end w \<and> continues v w)"
    using merge_next_spec [OF assms] by blast
  have eq: "vma_base u1 = vma_base v" "kind u1 = kind v" "continues p u1 = continues p v" for p
    by (subst n(4); simp add: kind_def continues_def)+
  obtain ps' u where p: "merge_prev (vm\<lparr>vma_map := ps @ u1 # ns1\<rparr>) (length ps) =
        Some (length ps', vm\<lparr>vma_map := ps' @ u # ns1\<rparr>)"
      "areas_ok H (ps' @ u # ns1)" "view (ps' @ u # ns1) = view (ps @ u1 # ns1)" "kind u = kind u1"
      "unat (vma_base u) \<le> unat (vma_base u1)" "vma_end u = vma_end u1"
      "ps \<noteq> [] \<and> continues (last ps) u1 \<longrightarrow> vma_base u = vma_base (last ps)"
    using merge_prev_spec [where vm = "vm\<lparr>vma_map := ps @ u1 # ns1\<rparr>", OF _ n(2)] by auto
  have "MergeAdjacent vm (length ps) = Some (length ps', vm\<lparr>vma_map := ps' @ u # ns1\<rparr>)"
    using vm n(1) p(1) by (simp add: MergeAdjacent_def)
  then show ?thesis
    using p n(3,5) eq by (intro exI [of _ ps'] exI [of _ u] exI [of _ ns1]) simp
qed

section \<open>The page table agrees with the areas\<close>

fun expected_entry :: "cache_marker \<Rightarrow> u32 \<Rightarrow> addr_info option \<Rightarrow> PageType \<times> u64" where
  "expected_entry mk page (Some (VMA_BackingMemory, perms, state, ptr)) = page_entry mk page ptr"
| "expected_entry mk page _ = (Unmapped, 0)"

definition pages_agree :: "cache_marker \<Rightarrow> vma list \<Rightarrow> page_table \<Rightarrow> bool" where
  "pages_agree mk xs pt \<longleftrightarrow> (\<forall>page. unat page < 0x40000 \<longrightarrow>
     entry_of pt page = expected_entry mk page (view xs (unat page * 0x1000)))"

definition vm_wf :: "cache_marker \<Rightarrow> host_buffer set \<Rightarrow> vm_manager \<Rightarrow> bool" where
  "vm_wf mk H vm \<longleftrightarrow> areas_ok H (vma_map vm) \<and> pages_agree mk (vma_map vm) (vm_page_table vm)"

lemma page_in_area:
  assumes "unat base mod 0x1000 = 0" and "unat (sz :: u32) mod 0x1000 = 0"
  shows "unat base div 0x1000 \<le> page \<and> page < unat base div 0x1000 + unat sz div 0x1000 \<longleftrightarrow>
    unat (base :: u32) \<le> page * 0x1000 \<and> page * 0x1000 < unat base + unat sz"
proof -
  obtain q r where "unat base = q * 0x1000" "unat sz = r * 0x1000"
    using assms by (metis mod_eq_0_iff_dvd dvd_div_mult_self)
  then show ?thesis by auto
qed

lemma UpdatePageTable_spec:
  assumes ok: "vma_ok H v" and fit: "vma_end v \<le> 0x40000000"
  shows "\<exists>pt. UpdatePageTableForVMA mk vm v = Some (vm\<lparr>vm_page_table := pt\<rparr>) \<and>
    (\<forall>page. entry_of pt page =
      (if in_area (unat page * 0x1000) v
       then expected_entry mk page (Some (info v (unat page * 0x1000)))
       else entry_of (vm_page_table vm) page))"
proof -
  let ?b = "vma_base v div CITRA_PAGE_SIZE" and ?s = "vma_size v div CITRA_PAGE_SIZE"
  have al: "page_aligned (vma_base v)" "page_aligned (vma_size v)"
    using ok by (simp_all add: vma_ok_def)
  then have m: "unat (vma_base v) mod 0x1000 = 0" "unat (vma_size v) mod 0x1000 = 0"
    by (simp_all add: page_aligned_iff)
  have d: "unat ?b = unat (vma_base v) div 0x1000" "unat ?s = unat (vma_size v) div 0x1000"
    by (simp_all add: unat_div_distrib)
  have n: "unat ?b + unat ?s \<le> 2 ^ 20" using fit d by simp
  have area: "(unat ?b \<le> unat page \<and> unat page < unat ?b + unat ?s) =
      in_area (unat page * 0x1000) v" for page :: u32
    using page_in_area [OF m, of "unat page"] d by (simp add: in_area_def)
  show ?thesis
  proof (cases "vma_type v")
    case VMA_Free
    obtain pt where pt: "map_pages_loop mk (unat ?s) (vm_page_table vm) ?b null_ref Unmapped = Some pt"
        "\<And>page. entry_of pt page = (if unat ?b \<le> unat page \<and> unat page < unat ?b + unat ?s
          then (Unmapped, 0) else entry_of (vm_page_table vm) page)"
      using map_pages_loop_null [OF n, of mk "vm_page_table vm"] by blast
    have "UpdatePageTableForVMA mk vm v = Some (vm\<lparr>vm_page_table := pt\<rparr>)"
      using VMA_Free al pt(1)
      by (simp add: UpdatePageTableForVMA_def UnmapRegion_def MapPages_def page_aligned_def)
    then show ?thesis
      using VMA_Free by (intro exI [of _ pt]) (simp add: pt(2) area info_def)
  next
    case VMA_BackingMemory
    then have c: "ref_covers (backing_memory v) (unat ?s * 0x1000)"
      using ok m d by (simp add: vma_ok_def mod_eq_0_iff_dvd)
    obtain pt where pt: "map_pages_loop mk (unat ?s) (vm_page_table vm) ?b (backing_memory v)
          PageMemory = Some pt"
        "\<And>page. entry_of pt page = (if unat ?b \<le> unat page \<and> unat page < unat ?b + unat ?s
          then page_entry mk page (GetPtr (backing_memory v) + of_nat ((unat page - unat ?b) * 0x1000))
          else entry_of (vm_page_table vm) page)"
      using map_pages_loop_ref [OF n c, of mk "vm_page_table vm"] by blast
    have off: "(unat page - unat ?b) * 0x1000 = unat page * 0x1000 - unat (vma_base v)" for page :: u32
      using m d by (simp add: diff_mult_distrib mod_eq_0_iff_dvd)
    have "UpdatePageTableForVMA mk vm v = Some (vm\<lparr>vm_page_table := pt\<rparr>)"
      using VMA_BackingMemory al pt(1)
      by (simp add: UpdatePageTableForVMA_def MapMemoryRegion_def MapPages_def page_aligned_def)
    then show ?thesis
      using VMA_BackingMemory by (intro exI [of _ pt]) (simp add: pt(2) area info_def off)
  qed
qed

lemma replace_area:
  assumes ok: "areas_ok H (ps @ v # ns)" and ok': "vma_ok H v'"
    and same: "vma_base v' = vma_base v" "vma_size v' = vma_size v"
  shows "areas_ok H (ps @ v' # ns)"
    and "view (ps @ v' # ns) =
      (\<lambda>a. if in_area a v then Some (info v' a) else view (ps @ v # ns) a)"
proof -
  have t: "tiles 0 (ps @ v' # ns) 0x40000000"
    using areas_okD(7) [OF ok] same by (auto simp: tiles_append)
  with ok ok' show "areas_ok H (ps @ v' # ns)" by (auto simp: areas_ok_def)
  have "in_area a v' = in_area a v" for a using same by (simp add: in_area_def)
  then show "view (ps @ v' # ns) =
      (\<lambda>a. if in_area a v then Some (info v' a) else view (ps @ v # ns) a)"
    using view_middle(1) [OF t] view_skip by (fastforce simp: fun_eq_iff)
qed

text \<open>Rewriting one area, updating its pages and merging: the step every operation makes.\<close>

lemma modify_spec:
  assumes wf: "vm_wf mk H vm" and vm: "vma_map vm = ps @ v # ns" and ok': "vma_ok H v'"
    and same: "vma_base v' = vma_base v" "vma_size v' = vma_size v"
  shows "\<exists>ps' u ns' pt. Option.bind (UpdatePageTableForVMA mk (set_vma vm (length ps) v') v')
        (\<lambda>vm. MergeAdjacent vm (length ps)) =
      Some (length ps', vm\<lparr>vma_map := ps' @ u # ns', vm_page_table := pt\<rparr>) \<and>
    vm_wf mk H (vm\<lparr>vma_map := ps' @ u # ns', vm_page_table := pt\<rparr>) \<and>
    view (ps' @ u # ns') = (\<lambda>a. if in_area a v then Some (info v' a) else view (vma_map vm) a) \<and>
    kind u = kind v' \<and> unat (vma_base u) \<le> unat (vma_base v) \<and>
    (ns' = ns \<and> vma_end u = vma_end v \<or>
     (\<exists>w. ns = w # ns' \<and> vma_end u = vma_end w \<and> continues v' w)) \<and>
    (ps \<noteq> [] \<and> continues (last ps) v' \<longrightarrow> vma_base u = vma_base (last ps))"
proof -
  have ok: "areas_ok H (ps @ v # ns)" using wf vm by (simp add: vm_wf_def)
  note R = replace_area [OF ok ok' same]
  have fit: "vma_end v' \<le> 0x40000000" using areas_okD(4) [OF ok] same by simp
  obtain pt where pt: "UpdatePageTableForVMA mk (set_vma vm (length ps) v') v' =
        Some ((set_vma vm (length ps) v')\<lparr>vm_page_table := pt\<rparr>)"
      "\<And>page. entry_of pt page = (if in_area (unat page * 0x1000) v'
         then expected_entry mk page (Some (info v' (unat page * 0x1000)))
         else entry_of (vm_page_table vm) page)"
    using UpdatePageTable_spec [OF ok' fit, of mk "set_vma vm (length ps) v'"]
    by (auto simp: set_vma_def)
  let ?vm = "(set_vma vm (length ps) v')\<lparr>vm_page_table := pt\<rparr>"
  have map: "vma_map ?vm = ps @ v' # ns" using vm by (simp add: set_vma_def)
  obtain ps' u ns' where M: "MergeAdjacent ?vm (length ps) =
        Some (length ps', ?vm\<lparr>vma_map := ps' @ u # ns'\<rparr>)"
      "areas_ok H (ps' @ u # ns')" "view (ps' @ u # ns') = view (ps @ v' # ns)" "kind u = kind v'"
      "unat (vma_base u) \<le> unat (vma_base v')"
      "ns' = ns \<and> vma_end u = vma_end v' \<or>
       (\<exists>w. ns = w # ns' \<and> vma_end u = vma_end w \<and> continues v' w)"
      "ps \<noteq> [] \<and> continues (last ps) v' \<longrightarrow> vma_base u = vma_base (last ps)"
    using MergeAdjacent_spec [OF map R(1)] by blast
  have view: "view (ps' @ u # ns') =
      (\<lambda>a. if in_area a v then Some (info v' a) else view (vma_map vm) a)"
    unfolding vm using M(3) R(2) by simp
  have "in_area a v' = in_area a v" for a using same by (simp add: in_area_def)
  then have "pages_agree mk (ps' @ u # ns') pt"
    using wf by (simp add: pages_agree_def vm_wf_def view pt(2))
  moreover have "?vm\<lparr>vma_map := ps' @ u # ns'\<rparr> =
      vm\<lparr>vma_map := ps' @ u # ns', vm_page_table := pt\<rparr>"
    by (simp add: set_vma_def)
  ultimately show ?thesis
    using pt(1) M view same
    by (intro exI [of _ ps'] exI [of _ u] exI [of _ ns'] exI [of _ pt]) (simp add: vm_wf_def)
qed

section \<open>The range loop\<close>

text \<open>
  A step that rewrites each area by \<open>f\<close>, which acts on what an address maps to as \<open>F\<close>, and
  which leaves alone an area that the rewritten one absorbs.
\<close>

definition area_step ::
  "cache_marker \<Rightarrow> host_buffer set \<Rightarrow> (vma \<Rightarrow> vma) \<Rightarrow> (addr_info \<Rightarrow> addr_info) \<Rightarrow>
     (vm_manager \<Rightarrow> nat \<Rightarrow> (nat \<times> vm_manager) run) \<Rightarrow> bool" where
  "area_step mk H f F step \<longleftrightarrow>
     (\<forall>v. vma_base (f v) = vma_base v \<and> vma_size (f v) = vma_size v \<and>
       (vma_ok H v \<longrightarrow> vma_ok H (f v)) \<and> (\<forall>a. info (f v) a = F (info v a))) \<and>
     (\<forall>v w a. continues (f v) w \<longrightarrow> F (info w a) = info w a) \<and>
     (\<forall>vm i v. \<not> vm_locked vm \<longrightarrow> vma_at vm i = Some v \<longrightarrow>
       step vm i = Option.bind (UpdatePageTableForVMA mk (set_vma vm i (f v)) (f v))
         (\<lambda>vm. MergeAdjacent vm i))"

text \<open>Rewritten areas that always merge with each other, recognised by their kind.\<close>

definition sticky :: "(vma \<Rightarrow> vma) \<Rightarrow> (vma \<Rightarrow> bool) \<Rightarrow> bool" where
  "sticky f g \<longleftrightarrow> (\<forall>v. g (f v)) \<and> (\<forall>p v. kind p = kind v \<longrightarrow> g p = g v) \<and>
     (\<forall>p v. g p \<longrightarrow> continues p (f v))"

lemma range_loop_stop:
  assumes "tiles m rs 0x40000000" and "vma_map vm = ps @ rs" and "unat te \<le> m"
  shows "range_loop step te (length ps) vm = Some vm"
proof -
  have "\<not> (length ps < length (vma_map vm) \<and> vma_base (vma_map vm ! length ps) < te)"
    using assms by (cases rs) (auto simp: word_less_nat_alt)
  then show ?thesis by (subst range_loop.simps) auto
qed

lemma range_loop_spec:
  assumes st: "area_step mk H f F step"
    and "vm_wf mk H vm" and "\<not> vm_locked vm" and "vma_map vm = ps @ ms @ rs"
    and "tiles m ms (unat te)" and "tiles (unat te) rs 0x40000000"
  shows "\<exists>xs pt. range_loop step te (length ps) vm = Some (vm\<lparr>vma_map := xs, vm_page_table := pt\<rparr>) \<and>
    vm_wf mk H (vm\<lparr>vma_map := xs, vm_page_table := pt\<rparr>) \<and>
    view xs = (\<lambda>a. if m \<le> a \<and> a < unat te then map_option F (view (vma_map vm) a)
                   else view (vma_map vm) a) \<and>
    (\<forall>g s. sticky f g \<longrightarrow>
      (ps \<noteq> [] \<and> g (last ps) \<and> unat (vma_base (last ps)) \<le> s) \<or> (ms \<noteq> [] \<and> m \<le> s) \<longrightarrow>
      (\<exists>u \<in> set xs. unat (vma_base u) \<le> s \<and> unat te \<le> vma_end u))"
  using assms(2-)
proof (induction "length ms" arbitrary: vm ps ms rs m rule: less_induct)
  case less
  show ?case
  proof (cases ms)
    case Nil
    with less.prems have "range_loop step te (length ps) vm = Some vm" "m = unat te"
      by (auto intro!: range_loop_stop [where m = "unat te" and rs = rs])
    moreover have "vma_end (last ps) = unat te \<and> last ps \<in> set (vma_map vm)" if "ps \<noteq> []"
    proof -
      have "butlast ps @ last ps # rs = ps @ rs"
        using that by (metis append_butlast_last_id append.assoc append_Cons append_Nil)
      moreover have "areas_ok H (ps @ rs)" using less.prems(1,3) Nil by (simp add: vm_wf_def)
      ultimately have "areas_ok H (butlast ps @ last ps # rs)" by (simp only:)
      from areas_okD(3) [OF this] less.prems(5) have "vma_end (last ps) = unat te"
        by (cases rs) auto
      then show ?thesis using that less.prems(3) by simp
    qed
    ultimately show ?thesis
      using less.prems(1) Nil by (intro exI [of _ "vma_map vm"] exI [of _ "vm_page_table vm"])
        (auto simp: fun_eq_iff intro!: bexI [of _ "last ps"])
  next
    case (Cons v vs)
    have vm: "vma_map vm = ps @ v # (vs @ rs)" using less.prems(3) Cons by simp
    have ok: "areas_ok H (ps @ v # (vs @ rs))" using less.prems(1) vm by (simp add: vm_wf_def)
    have m: "m = unat (vma_base v)" "tiles (vma_end v) vs (unat te)" using less.prems(4) Cons by auto
    have f: "vma_base (f v) = vma_base v" "vma_size (f v) = vma_size v" "vma_ok H (f v)"
        "\<And>a. info (f v) a = F (info v a)" "\<And>w a. continues (f v) w \<Longrightarrow> F (info w a) = info w a"
      using st areas_okD(5) [OF ok] by (auto simp: area_step_def)
    obtain qs u ns pt where S: "Option.bind (UpdatePageTableForVMA mk (set_vma vm (length ps) (f v)) (f v))
          (\<lambda>vm. MergeAdjacent vm (length ps)) =
        Some (length qs, vm\<lparr>vma_map := qs @ u # ns, vm_page_table := pt\<rparr>)"
      "vm_wf mk H (vm\<lparr>vma_map := qs @ u # ns, vm_page_table := pt\<rparr>)"
      "view (qs @ u # ns) = (\<lambda>a. if in_area a v then Some (info (f v) a) else view (vma_map vm) a)"
      "ns = vs @ rs \<and> vma_end u = vma_end v \<or>
       (\<exists>w. vs @ rs = w # ns \<and> vma_end u = vma_end w \<and> continues (f v) w)"
      "kind u = kind (f v)" "unat (vma_base u) \<le> unat (vma_base v)"
      "ps \<noteq> [] \<and> continues (last ps) (f v) \<longrightarrow> vma_base u = vma_base (last ps)"
      using modify_spec [OF less.prems(1) vm f(3,1,2)] by blast
    let ?vm = "vm\<lparr>vma_map := qs @ u # ns, vm_page_table := pt\<rparr>"
    have unf: "range_loop step te (length ps) vm = range_loop step te (length (qs @ [u])) ?vm"
    proof -
      have "step vm (length ps) = Some (length qs, ?vm)"
        using st less.prems(2) vm S(1) by (simp add: area_step_def)
      moreover have "vma_base v < te"
        using tiles_le [OF m(2)] areas_okD(2) [OF ok] by (simp add: word_less_nat_alt)
      ultimately show ?thesis using vm by (subst range_loop.simps) simp
    qed
    have old: "view (vma_map vm) a = Some (info v a)" if "in_area a v" for a
      using view_middle(1) [OF areas_okD(7) [OF ok]] vm that by simp
    have cont: "\<exists>xs pt'. range_loop step te (length (qs @ [u])) ?vm =
          Some (?vm\<lparr>vma_map := xs, vm_page_table := pt'\<rparr>) \<and>
        vm_wf mk H (?vm\<lparr>vma_map := xs, vm_page_table := pt'\<rparr>) \<and>
        view xs = (\<lambda>a. if vma_end u \<le> a \<and> a < unat te then map_option F (view (qs @ u # ns) a)
                       else view (qs @ u # ns) a) \<and>
        (\<forall>g s. sticky f g \<longrightarrow> g u \<and> unat (vma_base u) \<le> s \<longrightarrow>
          (\<exists>u \<in> set xs. unat (vma_base u) \<le> s \<and> unat te \<le> vma_end u))"
    proof -
      have w2: "vma_map ?vm = (qs @ [u]) @ ns" by simp
      consider (keep) "ns = vs @ rs" "vma_end u = vma_end v"
        | (absorb) w ws where "vs = w # ws" "ns = ws @ rs" "vma_end u = vma_end w"
        | (past) w where "vs = []" "rs = w # ns" "vma_end u = vma_end w"
        using S(4) by (cases vs) auto
      then show ?thesis
      proof cases
        case keep
        then show ?thesis
          using less.hyps [OF _ S(2), of vs "qs @ [u]" rs "vma_end u"] less.prems(2,5) m Cons
          by (simp cong: if_cong) blast
      next
        case absorb
        then show ?thesis
          using less.hyps [OF _ S(2), of ws "qs @ [u]" rs "vma_end u"] less.prems(2,5) m Cons
          by (simp cong: if_cong) blast
      next
        case past
        then have "unat te < vma_end u" "tiles (vma_end u) ns 0x40000000"
          using m less.prems(5) by auto
        then have "range_loop step te (length (qs @ [u])) ?vm = Some ?vm"
          using range_loop_stop [OF _ w2] by simp
        then show ?thesis
          using S(2) \<open>unat te < vma_end u\<close>
          by (intro exI [of _ "qs @ u # ns"] exI [of _ pt])
            (auto simp: fun_eq_iff intro!: bexI [of _ u])
      qed
    qed
    then obtain xs pt' where X: "range_loop step te (length (qs @ [u])) ?vm =
          Some (?vm\<lparr>vma_map := xs, vm_page_table := pt'\<rparr>)"
        "vm_wf mk H (?vm\<lparr>vma_map := xs, vm_page_table := pt'\<rparr>)"
        "\<And>a. view xs a = (if vma_end u \<le> a \<and> a < unat te then map_option F (view (qs @ u # ns) a)
                       else view (qs @ u # ns) a)"
        "\<forall>g s. sticky f g \<longrightarrow> g u \<and> unat (vma_base u) \<le> s \<longrightarrow>
          (\<exists>u \<in> set xs. unat (vma_base u) \<le> s \<and> unat te \<le> vma_end u)"
      by auto
    have low: "g u \<and> unat (vma_base u) \<le> s"
      if "sticky f g" "(ps \<noteq> [] \<and> g (last ps) \<and> unat (vma_base (last ps)) \<le> s) \<or> m \<le> s" for g s
    proof -
      have "g (f v)" "g u = g (f v)" using that(1) S(5) unfolding sticky_def by blast+
      then have "g u" by simp
      moreover have "ps \<noteq> [] \<and> g (last ps) \<longrightarrow> vma_base u = vma_base (last ps)"
        using that(1) S(7) unfolding sticky_def by blast
      ultimately show ?thesis using that(2) S(6) m(1) by auto
    qed
    have step: "view (qs @ u # ns) a =
        (if in_area a v then Some (F (info v a)) else view (vma_map vm) a)" for a
      using S(3) f(4) by simp
    have mid: "map_option F (view (vma_map vm) a) = view (vma_map vm) a"
      if "vma_end v \<le> a" "a < vma_end u" for a
      using S(4)
    proof
      assume "\<exists>w. vs @ rs = w # ns \<and> vma_end u = vma_end w \<and> continues (f v) w"
      then obtain w where w: "vs @ rs = w # ns" "vma_end u = vma_end w" "continues (f v) w" by blast
      have "tiles 0 ((ps @ [v]) @ w # ns) 0x40000000" using areas_okD(7) [OF ok] w(1) by simp
      from view_middle(1) [OF this, of a] have "view (vma_map vm) a = Some (info w a)"
        using that w(2) vm w(1) areas_okD(3) [OF ok] by (simp add: in_area_def)
      with f(5) [OF w(3)] show ?thesis by simp
    qed (use that in simp)
    have ends: "vma_end v \<le> vma_end u" "vma_end v \<le> unat te"
      using S(4) areas_okD(3) [OF ok] tiles_le [OF m(2)] by auto
    have "view xs a = (if m \<le> a \<and> a < unat te then map_option F (view (vma_map vm) a)
        else view (vma_map vm) a)" for a
    proof (cases "in_area a v")
      case True
      then show ?thesis using ends m(1) by (auto simp: X(3) step old in_area_def)
    next
      case False
      then consider "a < m" | "vma_end v \<le> a" using m(1) by (auto simp: in_area_def)
      then show ?thesis
        using False ends m(1) mid [of a] by cases (auto simp: X(3) step)
    qed
    then have "view xs = (\<lambda>a. if m \<le> a \<and> a < unat te then map_option F (view (vma_map vm) a)
        else view (vma_map vm) a)" by (rule ext)
    moreover have "\<forall>g s. sticky f g \<longrightarrow>
      (ps \<noteq> [] \<and> g (last ps) \<and> unat (vma_base (last ps)) \<le> s) \<or> (ms \<noteq> [] \<and> m \<le> s) \<longrightarrow>
      (\<exists>u \<in> set xs. unat (vma_base u) \<le> s \<and> unat te \<le> vma_end u)"
      using X(4) low by blast
    ultimately show ?thesis
      using X(1,2) unf by (intro exI [of _ xs] exI [of _ pt']) simp
  qed
qed

section \<open>Carving\<close>

lemma view_Some_iff:
  assumes "tiles b xs e"
  shows "view xs a = Some i \<longleftrightarrow> (\<exists>v \<in> set xs. in_area a v \<and> info v a = i)"
proof
  assume "view xs a = Some i"
  then show "\<exists>v \<in> set xs. in_area a v \<and> info v a = i"
    by (auto simp: view_def find_Some_iff)
next
  assume "\<exists>v \<in> set xs. in_area a v \<and> info v a = i"
  then obtain v ps ns where "xs = ps @ v # ns" "in_area a v" "info v a = i"
    by (meson split_list)
  then show "view xs a = Some i" using view_middle(1) [of b ps v ns e a] assms by simp
qed

lemma FindVMA_spec:
  assumes ok: "areas_ok H (vma_map vm)" and t: "unat t < 0x40000000"
  shows "\<exists>ps v ns. vma_map vm = ps @ v # ns \<and> FindVMA vm t = Some (length ps) \<and>
    unat (vma_base v) \<le> unat t \<and> unat t < vma_end v"
proof -
  have "tiles 0 (vma_map vm) 0x40000000" using ok by (simp add: areas_ok_def)
  from tiles_find [OF this _ t] obtain ps v ns where
    "vma_map vm = ps @ v # ns" "upper_bound (vma_map vm) t = Suc (length ps)"
    "unat (vma_base v) \<le> unat t" "unat t < vma_end v" by auto
  moreover have "\<not> MAX_ADDRESS \<le> t" using t by (simp add: word_le_nat_alt)
  ultimately show ?thesis by (auto simp: FindVMA_def)
qed

lemma FindVMA_end: "0x40000000 \<le> unat t \<Longrightarrow> FindVMA vm t = Some (length (vma_map vm))"
  by (simp add: FindVMA_def word_le_nat_alt)

lemma tiles_below:
  assumes "tiles b xs e"
  shows "set (takeWhile (\<lambda>v. vma_base v < t) xs) = {v \<in> set xs. vma_base v < t}"
  using assms
proof (induction xs arbitrary: b)
  case (Cons v vs)
  show ?case
  proof (cases "vma_base v < t")
    case True
    then show ?thesis using Cons.IH Cons.prems by auto
  next
    case False
    have "\<not> vma_base w < t" if "w \<in> set vs" for w
      using tiles_bounds [of "b + unat (vma_size v)" vs e w] Cons.prems that False
      by (auto simp: word_less_nat_alt)
    with False show ?thesis by auto
  qed
qed simp

text \<open>The areas that \<open>CarveVMARange\<close> and \<open>ChangeMemoryState\<close> look at.\<close>

lemma range_areas:
  assumes ok: "areas_ok H (ps @ v # ns)" and t: "unat (vma_base v) \<le> t" "t < vma_end v"
    and te: "t < unat te"
  shows "length ps \<le> lower_bound (ps @ v # ns) te"
    and "set (take (lower_bound (ps @ v # ns) te - length ps) (drop (length ps) (ps @ v # ns))) =
      {w \<in> set (ps @ v # ns). \<exists>a. t \<le> a \<and> a < unat te \<and> in_area a w}"
proof -
  note D = areas_okD [OF ok]
  have low: "\<forall>w \<in> set (ps @ [v]). vma_base w < te"
    using tiles_bounds [OF D(1)] t te by (fastforce simp: word_less_nat_alt)
  then have tw: "takeWhile (\<lambda>v. vma_base v < te) (ps @ v # ns) =
      ps @ v # takeWhile (\<lambda>v. vma_base v < te) ns"
    by (subst takeWhile_append2) auto
  then show "length ps \<le> lower_bound (ps @ v # ns) te" by (simp add: lower_bound_def)
  have "set (take (lower_bound (ps @ v # ns) te - length ps) (drop (length ps) (ps @ v # ns))) =
      insert v {w \<in> set ns. vma_base w < te}"
    using tiles_below [OF D(3), of te] tw
    by (simp add: lower_bound_def takeWhile_eq_take [symmetric])
  also have "\<dots> = {w \<in> set (ps @ v # ns). \<exists>a. t \<le> a \<and> a < unat te \<and> in_area a w}"
  proof (intro equalityI subsetI)
    fix w assume "w \<in> insert v {w \<in> set ns. vma_base w < te}"
    then consider "w = v" | "w \<in> set ns" "vma_base w < te" by blast
    then show "w \<in> {w \<in> set (ps @ v # ns). \<exists>a. t \<le> a \<and> a < unat te \<and> in_area a w}"
    proof cases
      case 1
      then show ?thesis using t te by (auto simp: in_area_def)
    next
      case 2
      then have "t \<le> unat (vma_base w)" "in_area (unat (vma_base w)) w" "unat (vma_base w) < unat te"
        using tiles_bounds [OF D(3)] t by (fastforce simp: in_area_def word_less_nat_alt)+
      with 2 show ?thesis by auto
    qed
  next
    fix w assume "w \<in> {w \<in> set (ps @ v # ns). \<exists>a. t \<le> a \<and> a < unat te \<and> in_area a w}"
    then obtain a where a: "w \<in> set (ps @ v # ns)" "t \<le> a" "a < unat te" "in_area a w" by blast
    have "w \<notin> set ps \<or> w = v" using tiles_bounds [OF D(1), of w] a t by (auto simp: in_area_def)
    moreover have "vma_base w < te" using a by (simp add: in_area_def word_less_nat_alt)
    ultimately show "w \<in> insert v {w \<in> set ns. vma_base w < te}" using a(1) by auto
  qed
  finally show "set (take (lower_bound (ps @ v # ns) te - length ps) (drop (length ps) (ps @ v # ns))) =
      {w \<in> set (ps @ v # ns). \<exists>a. t \<le> a \<and> a < unat te \<and> in_area a w}" .
qed

lemma aligned_diff:
  assumes "page_aligned a" "page_aligned b" "unat b \<le> unat a"
  shows "page_aligned (a - b)"
  using assms by (simp add: page_aligned_iff unat_sub word_le_nat_alt mod_eq_0_iff_dvd)

text \<open>Cutting the tiling at an aligned address.\<close>

lemma cut_area:
  assumes vm: "vma_map vm = ps @ v # ns" and ok: "areas_ok H (ps @ v # ns)"
    and t: "unat (vma_base v) < unat t" "unat t < vma_end v" and al: "page_aligned t"
  shows "\<exists>v1 v2. SplitVMA vm (length ps) (t - vma_base v) =
      Some (Suc (length ps), vm\<lparr>vma_map := ps @ v1 # v2 # ns\<rparr>) \<and>
    unat (vma_base v1) = unat (vma_base v) \<and> vma_end v1 = unat t \<and> unat (vma_base v2) = unat t \<and>
    vma_end v2 = vma_end v \<and> kind v1 = kind v \<and> kind v2 = kind v \<and>
    areas_ok H (ps @ v1 # v2 # ns) \<and> view (ps @ v1 # v2 # ns) = view (ps @ v # ns)"
proof -
  have d: "unat (t - vma_base v) = unat t - unat (vma_base v)"
    using t by (simp add: unat_sub word_le_nat_alt)
  have "0 < t - vma_base v" "t - vma_base v < vma_size v"
    using t d by (simp_all add: word_less_nat_alt)
  moreover have "page_aligned (t - vma_base v)"
    using areas_okD(5) [OF ok] al t by (intro aligned_diff) (simp_all add: vma_ok_def)
  ultimately obtain v1 v2 where "SplitVMA vm (length ps) (t - vma_base v) =
      Some (Suc (length ps), vm\<lparr>vma_map := ps @ v1 # v2 # ns\<rparr>)"
    "v1 = v\<lparr>vma_size := t - vma_base v\<rparr>"
    "unat (vma_base v2) = unat (vma_base v) + unat (t - vma_base v)"
    "vma_end v2 = vma_end v" "kind v2 = kind v" "areas_ok H (ps @ v1 # v2 # ns)"
    "view (ps @ v1 # v2 # ns) = view (ps @ v # ns)"
    using SplitVMA_spec [OF vm ok] by blast
  then show ?thesis using d t by (intro exI [of _ v1] exI [of _ v2]) (simp add: kind_def)
qed

lemma CarveVMA_spec:
  assumes ok: "areas_ok H (vma_map vm)" and al: "page_aligned b" "page_aligned sz"
    and fit: "0 < unat sz" "unat b + unat sz < 2 ^ 32"
  shows "if 0x40000000 \<le> unat b then CarveVMA vm b sz = Some (Inl ResultInvalidAddress)
    else if \<exists>v \<in> set (vma_map vm). vma_type v = VMA_Free \<and> unat (vma_base v) \<le> unat b \<and>
      unat b + unat sz \<le> vma_end v
    then \<exists>ps v ns. CarveVMA vm b sz = Some (Inr (length ps, vm\<lparr>vma_map := ps @ v # ns\<rparr>)) \<and>
      vma_base v = b \<and> vma_size v = sz \<and> vma_type v = VMA_Free \<and> areas_ok H (ps @ v # ns) \<and>
      view (ps @ v # ns) = view (vma_map vm)
    else CarveVMA vm b sz = Some (Inl ResultInvalidAddressState)"
proof (cases "0x40000000 \<le> unat b")
  case True
  then show ?thesis
    using al by (simp add: CarveVMA_def FindVMA_end)
next
  case False
  obtain ps v ns where v: "vma_map vm = ps @ v # ns" "FindVMA vm b = Some (length ps)"
      "unat (vma_base v) \<le> unat b" "unat b < vma_end v"
    using FindVMA_spec [OF ok, of b] False by auto
  have okv: "areas_ok H (ps @ v # ns)" using ok v(1) by simp
  note D = areas_okD [OF okv]
  have uniq: "w = v" if "w \<in> set (vma_map vm)" "unat (vma_base w) \<le> unat b" "unat b < vma_end w" for w
    using that tiles_bounds [OF D(1), of w] tiles_bounds [OF D(3), of w] v by auto
  then have fits: "(\<exists>v \<in> set (vma_map vm). vma_type v = VMA_Free \<and> unat (vma_base v) \<le> unat b \<and>
      unat b + unat sz \<le> vma_end v) \<longleftrightarrow> vma_type v = VMA_Free \<and> unat b + unat sz \<le> vma_end v"
    using v(1,3) fit(1) by fastforce
  have start: "unat (b - vma_base v) = unat b - unat (vma_base v)"
    using v(3) by (simp add: unat_sub word_le_nat_alt)
  then have stop: "unat (b - vma_base v + sz) = unat b + unat sz - unat (vma_base v)"
    using v(3) fit(2) by (subst unat_plus_fits) simp_all
  then have gt: "vma_size v < b - vma_base v + sz \<longleftrightarrow> \<not> unat b + unat sz \<le> vma_end v"
    using v(3) by (auto simp: word_less_nat_alt)
  have at: "vma_at vm (length ps) = Some v" using v(1) by simp
  have low: "\<not> MAX_ADDRESS \<le> b" using False by (simp add: word_le_nat_alt)
  show ?thesis
  proof (cases "vma_type v = VMA_Free \<and> unat b + unat sz \<le> vma_end v")
    case no: False
    then have "CarveVMA vm b sz = Some (Inl ResultInvalidAddressState)"
      using al v(1,2) at gt by (auto simp: CarveVMA_def Let_def)
    then show ?thesis using no fits False by simp
  next
    case yes: True
    have "page_aligned (b + sz)"
      using al fit(2) by (simp add: page_aligned_iff unat_plus_fits mod_eq_0_iff_dvd)
    have bs: "unat (b + sz) = unat b + unat sz" using fit(2) by (rule unat_plus_fits)
    have off: "b - vma_base v + sz = b + sz - vma_base v" by simp
    obtain v1 ns1 where first: "(if b - vma_base v + sz \<noteq> vma_size v
        then map_option snd (SplitVMA vm (length ps) (b - vma_base v + sz)) else Some vm) =
        Some (vm\<lparr>vma_map := ps @ v1 # ns1\<rparr>)"
      "unat (vma_base v1) = unat (vma_base v)" "vma_end v1 = unat b + unat sz" "kind v1 = kind v"
      "areas_ok H (ps @ v1 # ns1)" "view (ps @ v1 # ns1) = view (vma_map vm)"
    proof (cases "b - vma_base v + sz = vma_size v")
      case True
      then have "unat (b - vma_base v + sz) = unat (vma_size v)" by simp
      then have "vma_end v = unat b + unat sz" using stop v(3) by linarith
      then show ?thesis using that [of v ns] True v(1) okv by simp
    next
      case False
      then have "unat (b - vma_base v + sz) \<noteq> unat (vma_size v)"
        by (simp add: word_unat_eq_iff)
      then have "unat (b + sz) < vma_end v"
        using yes stop bs v(3) by linarith
      moreover have "unat (vma_base v) < unat (b + sz)" using bs v(3) fit(1) by simp
      ultimately obtain v1 v2 where "SplitVMA vm (length ps) (b + sz - vma_base v) =
          Some (Suc (length ps), vm\<lparr>vma_map := ps @ v1 # v2 # ns\<rparr>)"
        "unat (vma_base v1) = unat (vma_base v)" "vma_end v1 = unat (b + sz)" "kind v1 = kind v"
        "areas_ok H (ps @ v1 # v2 # ns)" "view (ps @ v1 # v2 # ns) = view (ps @ v # ns)"
        using cut_area [OF v(1) okv _ _ \<open>page_aligned (b + sz)\<close>] by blast
      then have "map_option snd (SplitVMA vm (length ps) (b - vma_base v + sz)) =
          Some (vm\<lparr>vma_map := ps @ v1 # v2 # ns\<rparr>)"
          "vma_end v1 = unat b + unat sz" "view (ps @ v1 # v2 # ns) = view (vma_map vm)"
          "kind v1 = kind v" "areas_ok H (ps @ v1 # v2 # ns)"
          "unat (vma_base v1) = unat (vma_base v)"
        unfolding off v(1) bs by simp_all
      then show ?thesis using that [of v1 "v2 # ns"] False by simp
    qed
    let ?vm1 = "vm\<lparr>vma_map := ps @ v1 # ns1\<rparr>"
    have b1: "vma_base v1 = vma_base v" using first(2) by (simp add: word_unat_eq_iff)
    obtain qs u ns2 where second: "(if b - vma_base v \<noteq> 0 then SplitVMA ?vm1 (length ps) (b - vma_base v)
        else Some (length ps, ?vm1)) = Some (length qs, vm\<lparr>vma_map := qs @ u # ns2\<rparr>)"
      "unat (vma_base u) = unat b" "vma_end u = unat b + unat sz" "kind u = kind v"
      "areas_ok H (qs @ u # ns2)" "view (qs @ u # ns2) = view (vma_map vm)"
    proof (cases "b = vma_base v")
      case True
      then show ?thesis using that [of ps v1 ns1] first b1 by simp
    next
      case False
      then have "unat (vma_base v1) < unat b"
        using v(3) b1 by (metis le_neq_implies_less word_unat_eq_iff)
      moreover have "vma_map ?vm1 = ps @ v1 # ns1" by simp
      ultimately obtain w1 w2 where "SplitVMA ?vm1 (length ps) (b - vma_base v1) =
          Some (Suc (length ps), ?vm1\<lparr>vma_map := ps @ w1 # w2 # ns1\<rparr>)"
        "unat (vma_base w2) = unat b" "vma_end w2 = vma_end v1" "kind w2 = kind v1"
        "areas_ok H (ps @ w1 # w2 # ns1)" "view (ps @ w1 # w2 # ns1) = view (ps @ v1 # ns1)"
        using cut_area [OF _ first(5) _ _ al(1)] first(3) fit(1) by fastforce
      then show ?thesis using that [of "ps @ [w1]" w2 ns1] False first b1 by simp
    qed
    have "CarveVMA vm b sz = Some (Inr (length qs, vm\<lparr>vma_map := qs @ u # ns2\<rparr>))"
      using al v(1,2) at gt yes first(1) second(1) by (simp add: CarveVMA_def Let_def)
    moreover have "vma_base u = b" "vma_size u = sz" "vma_type u = VMA_Free"
      using second(2-4) yes by (simp_all add: word_unat_eq_iff kind_def)
    ultimately show ?thesis using second(5,6) yes fits False by auto
  qed
qed

lemma CarveVMARange_spec:
  assumes ok: "areas_ok H (vma_map vm)" and al: "page_aligned t" "page_aligned sz"
    and fit: "0 < unat sz" "unat t + unat sz \<le> 0x40000000"
  shows "if \<exists>a p s q. unat t \<le> a \<and> a < unat t + unat sz \<and>
      view (vma_map vm) a = Some (VMA_Free, p, s, q)
    then CarveVMARange vm t sz = Some (Inl ResultInvalidAddressState)
    else \<exists>ps ms rs. CarveVMARange vm t sz =
        Some (Inr (length ps, vm\<lparr>vma_map := ps @ ms @ rs\<rparr>)) \<and>
      areas_ok H (ps @ ms @ rs) \<and> view (ps @ ms @ rs) = view (vma_map vm) \<and>
      tiles (unat t) ms (unat (t + sz)) \<and> tiles (unat (t + sz)) rs 0x40000000"
proof -
  have te: "unat (t + sz) = unat t + unat sz" using fit(2) by (intro unat_plus_fits) simp
  have asserts: "t \<le> t + sz" "t + sz \<le> MAX_ADDRESS" "0 < sz"
    using fit te by (simp_all add: word_le_nat_alt word_less_nat_alt)
  have al_te: "page_aligned (t + sz)"
    using al te by (simp add: page_aligned_iff mod_eq_0_iff_dvd)
  obtain ps v ns where v: "vma_map vm = ps @ v # ns" "FindVMA vm t = Some (length ps)"
      "unat (vma_base v) \<le> unat t" "unat t < vma_end v"
    using FindVMA_spec [OF ok, of t] fit by auto
  have okv: "areas_ok H (ps @ v # ns)" using ok v(1) by simp
  note D = areas_okD [OF okv]
  have lt: "unat t < unat (t + sz)" using te fit(1) by simp
  note R = range_areas [OF okv v(3,4) lt]
  have free: "(\<exists>w \<in> set (take (lower_bound (vma_map vm) (t + sz) - length ps)
        (drop (length ps) (vma_map vm))). vma_type w = VMA_Free) \<longleftrightarrow>
      (\<exists>a p s q. unat t \<le> a \<and> a < unat t + unat sz \<and> view (vma_map vm) a = Some (VMA_Free, p, s, q))"
    using R(2) view_Some_iff [OF D(7)] v(1) te by (auto simp: info_def) blast+
  show ?thesis
  proof (cases "\<exists>a p s q. unat t \<le> a \<and> a < unat t + unat sz \<and>
      view (vma_map vm) a = Some (VMA_Free, p, s, q)")
    case True
    then have "CarveVMARange vm t sz = Some (Inl ResultInvalidAddressState)"
      using al asserts v(2) free by (simp add: CarveVMARange_def Let_def)
    with True show ?thesis by simp
  next
    case False
    have at: "vma_at vm (length ps) = Some v" using v(1) by simp
    obtain qs u ns1 where first: "(if t \<noteq> vma_base v then SplitVMA vm (length ps) (t - vma_base v)
        else Some (length ps, vm)) = Some (length qs, vm\<lparr>vma_map := qs @ u # ns1\<rparr>)"
      "unat (vma_base u) = unat t" "areas_ok H (qs @ u # ns1)" "view (qs @ u # ns1) = view (vma_map vm)"
    proof (cases "t = vma_base v")
      case True
      then show ?thesis using that [of ps v ns] v(1) okv by simp
    next
      case False
      then have "unat (vma_base v) < unat t"
        using v(3) by (metis le_neq_implies_less word_unat_eq_iff)
      from cut_area [OF v(1) okv this v(4) al(1)] obtain v1 v2 where
        "SplitVMA vm (length ps) (t - vma_base v) =
          Some (Suc (length ps), vm\<lparr>vma_map := ps @ v1 # v2 # ns\<rparr>)"
        "unat (vma_base v2) = unat t" "areas_ok H (ps @ v1 # v2 # ns)"
        "view (ps @ v1 # v2 # ns) = view (ps @ v # ns)" by blast
      then show ?thesis using that [of "ps @ [v1]" v2 ns] False v(1) by simp
    qed
    let ?vm1 = "vm\<lparr>vma_map := qs @ u # ns1\<rparr>"
    note E = areas_okD [OF first(3)]
    have "CarveVMARange vm t sz = Option.bind
        (if t \<noteq> vma_base v then SplitVMA vm (length ps) (t - vma_base v) else Some (length ps, vm))
        (\<lambda>(begin_vma, vm). Option.bind (FindVMA vm (t + sz)) (\<lambda>end_vma.
          if end_vma = length (vma_map vm) then Some (Inr (begin_vma, vm))
          else Option.bind (vma_at vm end_vma) (\<lambda>w.
            if t + sz \<noteq> vma_base w then
              Option.bind (SplitVMA vm end_vma (t + sz - vma_base w))
                (\<lambda>(end_vma, vm). Some (Inr (begin_vma, vm)))
            else Some (Inr (begin_vma, vm)))))"
    proof -
      have "\<not> (\<exists>w \<in> set (take (lower_bound (vma_map vm) (t + sz) - length ps)
          (drop (length ps) (vma_map vm))). vma_type w = VMA_Free)"
        using free False by blast
      then show ?thesis using al asserts v(2) at by (simp add: CarveVMARange_def Let_def)
    qed
    then have head: "CarveVMARange vm t sz = Option.bind (FindVMA ?vm1 (t + sz)) (\<lambda>end_vma.
        if end_vma = length (qs @ u # ns1) then Some (Inr (length qs, ?vm1))
        else Option.bind (vma_at ?vm1 end_vma) (\<lambda>w.
          if t + sz \<noteq> vma_base w then
            Option.bind (SplitVMA ?vm1 end_vma (t + sz - vma_base w))
              (\<lambda>(end_vma, vm). Some (Inr (length qs, vm)))
          else Some (Inr (length qs, ?vm1))))"
      unfolding first(1) by simp
    have "\<exists>ms rs. CarveVMARange vm t sz = Some (Inr (length qs, vm\<lparr>vma_map := qs @ ms @ rs\<rparr>)) \<and>
      areas_ok H (qs @ ms @ rs) \<and> view (qs @ ms @ rs) = view (vma_map vm) \<and>
      tiles (unat t) ms (unat (t + sz)) \<and> tiles (unat (t + sz)) rs 0x40000000"
    proof (cases "unat (t + sz) = 0x40000000")
      case True
      then have "CarveVMARange vm t sz = Some (Inr (length qs, ?vm1))"
        by (simp add: head FindVMA_end)
      then show ?thesis
        using first(2,3,4) E True by (intro exI [of _ "u # ns1"] exI [of _ "[]"]) simp
    next
      case inside: False
      have ok1: "areas_ok H (vma_map ?vm1)" using first(3) by simp
      obtain xs w ys where w: "qs @ u # ns1 = xs @ w # ys" "FindVMA ?vm1 (t + sz) = Some (length xs)"
          "unat (vma_base w) \<le> unat (t + sz)" "unat (t + sz) < vma_end w"
        using FindVMA_spec [OF ok1, of "t + sz"] inside te fit by auto
      have okw: "areas_ok H (xs @ w # ys)" using first(3) w(1) by simp
      note W = areas_okD [OF okw]
      obtain us where us: "xs = qs @ us" "tiles (unat t) us (unat (vma_base w))"
      proof -
        have "(\<exists>us. xs = qs @ us) \<or> (\<exists>us. us \<noteq> [] \<and> qs = xs @ us)"
          using w(1) unfolding append_eq_append_conv2 by (metis append_Nil2)
        then consider us where "xs = qs @ us" | us where "us \<noteq> []" "qs = xs @ us" by blast
        then show ?thesis
        proof cases
          case 1
          then have "tiles (unat t) us (unat (vma_base w))"
            using E(1) W(1) first(2) tiles_fun by (fastforce simp: tiles_append)
          with 1 that show ?thesis by simp
        next
          case 2
          then have "w \<in> set qs" using w(1) by (cases us) auto
          then have "vma_end w \<le> unat t" using tiles_bounds [OF E(1)] first(2) by simp
          with w(4) lt show ?thesis by simp
        qed
      qed
      have atw: "vma_at ?vm1 (length xs) = Some w" using w(1) by simp
      have len: "length xs \<noteq> length (qs @ u # ns1)" using w(1) by simp
      show ?thesis
      proof (cases "t + sz = vma_base w")
        case True
        then have "CarveVMARange vm t sz = Some (Inr (length qs, ?vm1))"
          unfolding head w(2) using len atw by simp
        then show ?thesis
          using first(3,4) us w(1) W(2,3) True
          by (intro exI [of _ us] exI [of _ "w # ys"]) auto
      next
        case split: False
        then have "unat (vma_base w) < unat (t + sz)"
          using w(3) by (metis le_neq_implies_less word_unat_eq_iff)
        moreover have "vma_map ?vm1 = xs @ w # ys" using w(1) by simp
        ultimately obtain w1 w2 where c: "SplitVMA ?vm1 (length xs) (t + sz - vma_base w) =
            Some (Suc (length xs), ?vm1\<lparr>vma_map := xs @ w1 # w2 # ys\<rparr>)"
          "unat (vma_base w1) = unat (vma_base w)" "vma_end w1 = unat (t + sz)"
          "unat (vma_base w2) = unat (t + sz)" "areas_ok H (xs @ w1 # w2 # ys)"
          "view (xs @ w1 # w2 # ys) = view (xs @ w # ys)"
          using cut_area [OF _ okw _ w(4) al_te] by blast
        then have "CarveVMARange vm t sz =
            Some (Inr (length qs, vm\<lparr>vma_map := xs @ w1 # w2 # ys\<rparr>))"
          unfolding head w(2) using split len atw by simp
        moreover have "tiles (unat t) (us @ [w1]) (unat (t + sz))"
            "tiles (unat (t + sz)) (w2 # ys) 0x40000000"
          using us(2) c(2-5) areas_okD [OF c(5)] areas_okD [of H "xs @ [w1]" w2 ys]
          by (auto simp: tiles_append)
        ultimately show ?thesis
          using c(5,6) us(1) w(1) first(4)
          by (intro exI [of _ "us @ [w1]"] exI [of _ "w2 # ys"]) simp
      qed
    qed
    with False show ?thesis by auto
  qed
qed

section \<open>The operations on the view\<close>

definition unmap_vma :: "vma \<Rightarrow> vma" where
  "unmap_vma v = v\<lparr>vma_type := VMA_Free, permissions := Perm_None, meminfo_state := MS_Free,
     backing_memory := null_ref\<rparr>"

definition free_info :: addr_info where
  "free_info = (VMA_Free, Perm_None, MS_Free, 0)"

lemma step_Unmap: "area_step mk H unmap_vma (\<lambda>_. free_info) (Unmap mk)"
  by (auto simp: area_step_def unmap_vma_def free_info_def info_def vma_ok_def continues_def
      kind_def Unmap_def Let_def)

lemma sticky_Unmap: "sticky unmap_vma (\<lambda>v. kind v = (VMA_Free, Perm_None, MS_Free))"
  by (auto simp: sticky_def unmap_vma_def continues_def kind_def)

lemma step_Reprotect:
  "area_step mk H (\<lambda>v. v\<lparr>permissions := np\<rparr>) (\<lambda>(t, p, s, q). (t, np, s, q))
     (\<lambda>vm i. Reprotect mk vm i np)"
  by (auto simp: area_step_def info_def vma_ok_def continues_def kind_def Reprotect_def Let_def)

lemma step_change_state:
  "area_step mk H (\<lambda>v. v\<lparr>permissions := np, meminfo_state := ns\<rparr>) (\<lambda>(t, p, s, q). (t, np, ns, q))
     (change_state mk ns np)"
  by (auto simp: area_step_def info_def vma_ok_def continues_def kind_def change_state_def Let_def)

text \<open>Carving a mapped range and running the loop over it.\<close>

lemma carve_and_loop:
  assumes wf: "vm_wf mk H vm" and unlocked: "\<not> vm_locked vm"
    and al: "page_aligned t" "page_aligned sz"
    and fit: "0 < unat sz" "unat t + unat sz \<le> 0x40000000"
    and st: "area_step mk H f F step"
    and mapped: "\<not> (\<exists>a p s q. unat t \<le> a \<and> a < unat t + unat sz \<and>
      view (vma_map vm) a = Some (VMA_Free, p, s, q))"
  shows "\<exists>i vm1 vm'. CarveVMARange vm t sz = Some (Inr (i, vm1)) \<and>
    range_loop step (t + sz) i vm1 = Some vm' \<and> vm_wf mk H vm' \<and> \<not> vm_locked vm' \<and>
    view (vma_map vm') = (\<lambda>a. if unat t \<le> a \<and> a < unat t + unat sz
      then map_option F (view (vma_map vm) a) else view (vma_map vm) a) \<and>
    (\<forall>g. sticky f g \<longrightarrow>
      (\<exists>u \<in> set (vma_map vm'). unat (vma_base u) \<le> unat t \<and> unat t + unat sz \<le> vma_end u))"
proof -
  have ok: "areas_ok H (vma_map vm)" using wf by (simp add: vm_wf_def)
  have te: "unat (t + sz) = unat t + unat sz" using fit(2) by (intro unat_plus_fits) simp
  obtain ps ms rs where c: "CarveVMARange vm t sz = Some (Inr (length ps, vm\<lparr>vma_map := ps @ ms @ rs\<rparr>))"
      "areas_ok H (ps @ ms @ rs)" "view (ps @ ms @ rs) = view (vma_map vm)"
      "tiles (unat t) ms (unat (t + sz))" "tiles (unat (t + sz)) rs 0x40000000"
    using CarveVMARange_spec [OF ok al fit] unfolding if_not_P [OF mapped] by blast
  let ?vm1 = "vm\<lparr>vma_map := ps @ ms @ rs\<rparr>"
  have wf1: "vm_wf mk H ?vm1" using wf c(2,3) by (simp add: vm_wf_def pages_agree_def)
  have "ms \<noteq> []" using c(4) te fit(1) by auto
  have "\<exists>xs pt. range_loop step (t + sz) (length ps) ?vm1 =
        Some (?vm1\<lparr>vma_map := xs, vm_page_table := pt\<rparr>) \<and>
      vm_wf mk H (?vm1\<lparr>vma_map := xs, vm_page_table := pt\<rparr>) \<and>
      view xs = (\<lambda>a. if unat t \<le> a \<and> a < unat (t + sz) then map_option F (view (vma_map ?vm1) a)
                     else view (vma_map ?vm1) a) \<and>
      (\<forall>g s. sticky f g \<longrightarrow>
        (ps \<noteq> [] \<and> g (last ps) \<and> unat (vma_base (last ps)) \<le> s) \<or> (ms \<noteq> [] \<and> unat t \<le> s) \<longrightarrow>
        (\<exists>u \<in> set xs. unat (vma_base u) \<le> s \<and> unat (t + sz) \<le> vma_end u))"
    using unlocked by (intro range_loop_spec [OF st wf1 _ _ c(4,5)]) simp_all
  then obtain xs pt where X: "range_loop step (t + sz) (length ps) ?vm1 =
        Some (?vm1\<lparr>vma_map := xs, vm_page_table := pt\<rparr>)"
      "vm_wf mk H (?vm1\<lparr>vma_map := xs, vm_page_table := pt\<rparr>)"
      "view xs = (\<lambda>a. if unat t \<le> a \<and> a < unat (t + sz) then map_option F (view (vma_map ?vm1) a)
                     else view (vma_map ?vm1) a)"
      "\<forall>g s. sticky f g \<longrightarrow>
        (ps \<noteq> [] \<and> g (last ps) \<and> unat (vma_base (last ps)) \<le> s) \<or> (ms \<noteq> [] \<and> unat t \<le> s) \<longrightarrow>
        (\<exists>u \<in> set xs. unat (vma_base u) \<le> s \<and> unat (t + sz) \<le> vma_end u)"
    by blast
  have "\<forall>g. sticky f g \<longrightarrow>
      (\<exists>u \<in> set xs. unat (vma_base u) \<le> unat t \<and> unat (t + sz) \<le> vma_end u)"
    using X(4) \<open>ms \<noteq> []\<close> by blast
  then show ?thesis
    using c(1,3) X(1-3) te unlocked
    by (intro exI [of _ "length ps"] exI [of _ ?vm1]
        exI [of _ "?vm1\<lparr>vma_map := xs, vm_page_table := pt\<rparr>"]) (simp cong: if_cong)
qed

lemma carve_unmapped:
  assumes wf: "vm_wf mk H vm" and al: "page_aligned t" "page_aligned sz"
    and fit: "0 < unat sz" "unat t + unat sz \<le> 0x40000000"
    and "\<exists>a p s q. unat t \<le> a \<and> a < unat t + unat sz \<and>
      view (vma_map vm) a = Some (VMA_Free, p, s, q)"
  shows "CarveVMARange vm t sz = Some (Inl ResultInvalidAddressState)"
  using CarveVMARange_spec [OF _ al fit, of H vm] assms(1,6) unfolding vm_wf_def by presburger

lemma view_total:
  assumes "areas_ok H xs" and "a < 0x40000000"
  shows "\<exists>i. view xs a = Some i"
proof -
  have t: "tiles 0 xs 0x40000000" using assms(1) by (simp add: areas_ok_def)
  have "unat (of_nat a :: u32) = a"
    using assms(2) by (simp add: unsigned_of_nat take_bit_nat_eq_self)
  with tiles_find [OF t, of "of_nat a"] assms(2) obtain ps w ns where
    w: "xs = ps @ w # ns" "in_area a w" by (auto simp: in_area_def)
  then have "w \<in> set xs" by simp
  with w(2) show ?thesis using view_Some_iff [OF t] by blast
qed

definition has_free :: "vm_manager \<Rightarrow> u32 \<Rightarrow> u32 \<Rightarrow> bool" where
  "has_free vm t sz \<longleftrightarrow> (\<exists>a p s q. unat t \<le> a \<and> a < unat t + unat sz \<and>
     view (vma_map vm) a = Some (VMA_Free, p, s, q))"

section \<open>Properties\<close>

lemma UnmapRange_spec:
  assumes wf: "vm_wf mk H vm" and unlocked: "\<not> vm_locked vm"
    and al: "page_aligned t" "page_aligned sz"
    and fit: "0 < unat sz" "unat t + unat sz \<le> 0x40000000"
  shows "\<exists>res. UnmapRange mk vm t sz = Some res \<and>
    (case res of
       Inl e \<Rightarrow> e = ResultInvalidAddressState \<and> has_free vm t sz
     | Inr vm' \<Rightarrow> \<not> has_free vm t sz \<and> vm_wf mk H vm' \<and> \<not> vm_locked vm' \<and>
         view (vma_map vm') = (\<lambda>a. if unat t \<le> a \<and> a < unat t + unat sz then Some free_info
                                  else view (vma_map vm) a))"
proof (cases "has_free vm t sz")
  case True
  then have "UnmapRange mk vm t sz = Some (Inl ResultInvalidAddressState)"
    using carve_unmapped [OF wf al fit] unlocked by (simp add: UnmapRange_def has_free_def)
  with True show ?thesis by simp
next
  case False
  obtain i vm1 vm' where c: "CarveVMARange vm t sz = Some (Inr (i, vm1))"
      "range_loop (Unmap mk) (t + sz) i vm1 = Some vm'" "vm_wf mk H vm'" "\<not> vm_locked vm'"
      "view (vma_map vm') = (\<lambda>a. if unat t \<le> a \<and> a < unat t + unat sz
        then map_option (\<lambda>_. free_info) (view (vma_map vm) a) else view (vma_map vm) a)"
      "\<exists>u \<in> set (vma_map vm'). unat (vma_base u) \<le> unat t \<and> unat t + unat sz \<le> vma_end u"
    using carve_and_loop [OF wf unlocked al fit step_Unmap] False sticky_Unmap
    unfolding has_free_def by meson
  obtain u where u: "u \<in> set (vma_map vm')" "unat (vma_base u) \<le> unat t"
      "unat t + unat sz \<le> vma_end u" using c(6) by blast
  have ok': "areas_ok H (vma_map vm')" using c(3) by (simp add: vm_wf_def)
  obtain ps v ns where v: "vma_map vm' = ps @ v # ns" "FindVMA vm' t = Some (length ps)"
      "unat (vma_base v) \<le> unat t" "unat t < vma_end v"
    using FindVMA_spec [OF ok', of t] fit by auto
  note D = areas_okD [OF ok' [unfolded v(1)]]
  have "u = v"
    using u v tiles_bounds [OF D(1), of u] tiles_bounds [OF D(3), of u] fit(1) by auto
  then have "sz \<le> vma_size v" using u v(3) by (simp add: word_le_nat_alt)
  moreover have "vma_at vm' (length ps) = Some v" using v(1) by simp
  ultimately have "UnmapRange mk vm t sz = Some (Inr vm')"
    using unlocked c(1,2) v(2) by (simp add: UnmapRange_def Let_def)
  moreover have mapped: "view (vma_map vm) a \<noteq> None" if "a < 0x40000000" for a
    using view_total [OF _ that] wf by (auto simp: vm_wf_def)
  have "view (vma_map vm') = (\<lambda>a. if unat t \<le> a \<and> a < unat t + unat sz then Some free_info
      else view (vma_map vm) a)"
    using mapped fit(2) by (fastforce simp: c(5) fun_eq_iff)
  ultimately show ?thesis using False c(3,4) by simp
qed

text \<open>C12: \<open>UnmapRange\<close> of an aligned range inside the address space runs to the end (its final
  assertion included). It is refused, with \<open>ResultInvalidAddressState\<close>, exactly when some address
  of the range is free already; otherwise every address of the range becomes free, every other
  address keeps its mapping, the areas still tile the address space and the page table still
  agrees with them.\<close>

theorem unmap_range_spec:
  assumes wf: "vm_wf mk H vm" and unlocked: "\<not> vm_locked vm"
    and al: "page_aligned t" "page_aligned sz"
    and fit: "0 < unat sz" "unat t + unat sz \<le> 0x40000000"
  shows "\<exists>res. UnmapRange mk vm t sz = Some res \<and>
    (case res of
       Inl e \<Rightarrow> e = ResultInvalidAddressState \<and> has_free vm t sz
     | Inr vm' \<Rightarrow> \<not> has_free vm t sz \<and> vm_wf mk H vm' \<and>
         view (vma_map vm') = (\<lambda>a. if unat t \<le> a \<and> a < unat t + unat sz then Some free_info
                                  else view (vma_map vm) a))"
  using UnmapRange_spec [OF assms] by (auto split: sum.splits)

text \<open>C15: \<open>ReprotectRange\<close> runs to the end, is refused exactly when some address of the range is
  free, and otherwise changes the permissions of the addresses of the range and nothing else.\<close>

theorem reprotect_range_spec:
  assumes wf: "vm_wf mk H vm" and unlocked: "\<not> vm_locked vm"
    and al: "page_aligned t" "page_aligned sz"
    and fit: "0 < unat sz" "unat t + unat sz \<le> 0x40000000"
  shows "\<exists>res. ReprotectRange mk vm t sz np = Some res \<and>
    (case res of
       Inl e \<Rightarrow> e = ResultInvalidAddressState \<and> has_free vm t sz
     | Inr vm' \<Rightarrow> \<not> has_free vm t sz \<and> vm_wf mk H vm' \<and>
         view (vma_map vm') = (\<lambda>a. if unat t \<le> a \<and> a < unat t + unat sz
           then map_option (\<lambda>(ty, p, s, q). (ty, np, s, q)) (view (vma_map vm) a)
           else view (vma_map vm) a))"
proof (cases "has_free vm t sz")
  case True
  then have "ReprotectRange mk vm t sz np = Some (Inl ResultInvalidAddressState)"
    using carve_unmapped [OF wf al fit] unlocked by (simp add: ReprotectRange_def has_free_def)
  with True show ?thesis by simp
next
  case False
  obtain i vm1 vm' where c: "CarveVMARange vm t sz = Some (Inr (i, vm1))"
      "range_loop (\<lambda>vm i. Reprotect mk vm i np) (t + sz) i vm1 = Some vm'" "vm_wf mk H vm'"
      "view (vma_map vm') = (\<lambda>a. if unat t \<le> a \<and> a < unat t + unat sz
        then map_option (\<lambda>(ty, p, s, q). (ty, np, s, q)) (view (vma_map vm) a)
        else view (vma_map vm) a)"
    using carve_and_loop [OF wf unlocked al fit step_Reprotect] False unfolding has_free_def by meson
  then have "ReprotectRange mk vm t sz np = Some (Inr vm')"
    using unlocked by (simp add: ReprotectRange_def Let_def)
  with False c(3,4) show ?thesis by simp
qed

end
