(* ===== verification/IntervalSets.thy ===== *)
theory IntervalSets
  imports Prelude
begin

text \<open>
  \<open>boost::icl::interval_set<u32>\<close>, which the memory code uses and which is not part of the
  repository: a record of its operations, that the model takes as an argument, \<open>icl_ok\<close>, what
  its documentation promises of them (for right-open intervals, the only ones the code
  inserts), and \<open>list_icl\<close>, sorted lists of segments, which satisfies it.
\<close>

section \<open>Interval sets\<close>

datatype interval_bounds = LeftOpen | RightOpen | BothOpen | BothClosed

record interval =
  lower :: u32
  upper :: u32
  bounds :: interval_bounds

definition Interval :: "u32 \<Rightarrow> u32 \<Rightarrow> interval" where
  "Interval lo up = \<lparr>lower = lo, upper = up, bounds = RightOpen\<rparr>"

record 's icl =
  icl_empty :: 's
  icl_iter :: "'s \<Rightarrow> interval list"
  icl_add :: "'s \<Rightarrow> interval \<Rightarrow> 's"
  icl_sub :: "'s \<Rightarrow> interval \<Rightarrow> 's"
  icl_sub_set :: "'s \<Rightarrow> 's \<Rightarrow> 's"
  icl_contains :: "'s \<Rightarrow> interval \<Rightarrow> bool"
  icl_intersects :: "'s \<Rightarrow> interval \<Rightarrow> bool"

section \<open>What the interval sets promise\<close>

definition interval_points :: "interval \<Rightarrow> nat set" where
  "interval_points i = {unat (lower i)..<unat (upper i)}"

definition icl_points :: "'s icl \<Rightarrow> 's \<Rightarrow> nat set" where
  "icl_points ops s = (\<Union>i \<in> set (icl_iter ops s). interval_points i)"

text \<open>The segments of a set of right-open intervals: non-empty, in order, with gaps between.\<close>

definition segments_ok :: "interval list \<Rightarrow> bool" where
  "segments_ok is \<longleftrightarrow> (\<forall>i \<in> set is. bounds i = RightOpen \<and> lower i < upper i) \<and>
     sorted_wrt (\<lambda>i j. upper i < lower j) is"

definition icl_wf :: "'s icl \<Rightarrow> 's \<Rightarrow> bool" where
  "icl_wf ops s \<longleftrightarrow> segments_ok (icl_iter ops s)"

definition icl_ok :: "'s icl \<Rightarrow> bool" where
  "icl_ok ops \<longleftrightarrow>
     icl_wf ops (icl_empty ops) \<and> icl_points ops (icl_empty ops) = {} \<and>
     (\<forall>s lo up. icl_wf ops s \<longrightarrow>
       icl_wf ops (icl_add ops s (Interval lo up)) \<and>
       icl_points ops (icl_add ops s (Interval lo up)) =
         icl_points ops s \<union> interval_points (Interval lo up) \<and>
       icl_wf ops (icl_sub ops s (Interval lo up)) \<and>
       icl_points ops (icl_sub ops s (Interval lo up)) =
         icl_points ops s - interval_points (Interval lo up) \<and>
       (icl_contains ops s (Interval lo up) \<longleftrightarrow>
         interval_points (Interval lo up) \<subseteq> icl_points ops s) \<and>
       (icl_intersects ops s (Interval lo up) \<longleftrightarrow>
         interval_points (Interval lo up) \<inter> icl_points ops s \<noteq> {})) \<and>
     (\<forall>s t. icl_wf ops s \<longrightarrow> icl_wf ops t \<longrightarrow>
       icl_wf ops (icl_sub_set ops s t) \<and>
       icl_points ops (icl_sub_set ops s t) = icl_points ops s - icl_points ops t)"

lemma icl_emptyD:
  "icl_ok ops \<Longrightarrow> icl_wf ops (icl_empty ops)"
  "icl_ok ops \<Longrightarrow> icl_points ops (icl_empty ops) = {}"
  by (simp_all add: icl_ok_def)

lemma icl_addD:
  assumes "icl_ok ops" and "icl_wf ops s" and "bounds i = RightOpen"
  shows "icl_wf ops (icl_add ops s i)"
    and "icl_points ops (icl_add ops s i) = icl_points ops s \<union> interval_points i"
proof -
  have "i = Interval (lower i) (upper i)" using assms(3) by (simp add: Interval_def)
  then show "icl_wf ops (icl_add ops s i)"
      "icl_points ops (icl_add ops s i) = icl_points ops s \<union> interval_points i"
    using assms(1,2) unfolding icl_ok_def by metis+
qed

lemma icl_subD:
  assumes "icl_ok ops" and "icl_wf ops s"
  shows "icl_wf ops (icl_sub ops s (Interval lo up))"
    and "icl_points ops (icl_sub ops s (Interval lo up)) =
      icl_points ops s - interval_points (Interval lo up)"
    and "icl_contains ops s (Interval lo up) \<longleftrightarrow>
      interval_points (Interval lo up) \<subseteq> icl_points ops s"
    and "icl_intersects ops s (Interval lo up) \<longleftrightarrow>
      interval_points (Interval lo up) \<inter> icl_points ops s \<noteq> {}"
  using assms by (simp_all add: icl_ok_def)

lemma icl_sub_setD:
  assumes "icl_ok ops" and "icl_wf ops s" and "icl_wf ops t"
  shows "icl_wf ops (icl_sub_set ops s t)"
    and "icl_points ops (icl_sub_set ops s t) = icl_points ops s - icl_points ops t"
  using assms by (simp_all add: icl_ok_def)

lemma finite_points [simp]:
  "finite (interval_points i)" "finite (icl_points ops s)"
  by (simp_all add: interval_points_def icl_points_def)

lemma points_Interval [simp]: "interval_points (Interval lo up) = {unat lo..<unat up}"
  by (simp add: interval_points_def Interval_def)

lemma Interval_sel [simp]:
  "lower (Interval lo up) = lo" "upper (Interval lo up) = up" "bounds (Interval lo up) = RightOpen"
  by (simp_all add: Interval_def)

section \<open>Counting\<close>

definition points_of :: "interval list \<Rightarrow> nat set" where
  "points_of is = (\<Union>i \<in> set is. interval_points i)"

lemma points_of_simps [simp]:
  "points_of [] = {}" "points_of (i # is) = interval_points i \<union> points_of is"
  by (simp_all add: points_of_def)

lemma points_of_append [simp]: "points_of (is @ js) = points_of is \<union> points_of js"
  by (auto simp: points_of_def)

lemma points_of_rev [simp]: "points_of (rev is) = points_of is"
  by (simp add: points_of_def)

lemma finite_points_of [simp]: "finite (points_of is)"
  by (simp add: points_of_def)

lemma icl_points_alt: "icl_points ops s = points_of (icl_iter ops s)"
  by (simp add: icl_points_def points_of_def)

text \<open>The segments from the highest down, as the allocators walk them.\<close>

definition descending :: "interval list \<Rightarrow> bool" where
  "descending is \<longleftrightarrow> segments_ok (rev is)"

lemma descending_Cons:
  "descending (i # is) \<longleftrightarrow> bounds i = RightOpen \<and> lower i < upper i \<and> descending is \<and>
     (\<forall>j \<in> set is. upper j < lower i)"
  by (auto simp: descending_def segments_ok_def sorted_wrt_append)

lemma below_head:
  assumes "\<forall>j \<in> set is. upper j < lower i" and "x \<in> points_of is"
  shows "x < unat (lower i)"
  using assms by (fastforce simp: points_of_def interval_points_def word_less_nat_alt)

lemma unat_width: "lower i < upper i \<Longrightarrow> unat (upper i - lower i) = unat (upper i) - unat (lower i)"
  by (simp add: unat_sub word_le_nat_alt word_less_nat_alt)

lemma card_interval: "lower i < upper i \<Longrightarrow> card (interval_points i) = unat (upper i - lower i)"
  by (simp add: interval_points_def unat_width)

section \<open>Sorted lists of segments\<close>

definition nonempty :: "interval \<Rightarrow> bool" where
  "nonempty i \<longleftrightarrow> lower i < upper i"

definition remains :: "interval \<Rightarrow> interval \<Rightarrow> interval list" where
  "remains j i = filter nonempty [Interval (lower j) (min (upper j) (lower i)),
     Interval (max (lower j) (upper i)) (upper j)]"

definition list_sub :: "interval list \<Rightarrow> interval \<Rightarrow> interval list" where
  "list_sub is i =
     (if nonempty i then concat (map (\<lambda>j. remains j i) is) else is)"

definition list_add :: "interval list \<Rightarrow> interval \<Rightarrow> interval list" where
  "list_add is i =
     (if nonempty i then
        (let touching = filter (\<lambda>j. lower i \<le> upper j \<and> lower j \<le> upper i) is
         in filter (\<lambda>j. upper j < lower i) is @
            [Interval (foldr (\<lambda>j. min (lower j)) touching (lower i))
               (foldr (\<lambda>j. max (upper j)) touching (upper i))] @
            filter (\<lambda>j. upper i < lower j) is)
      else is)"

definition list_icl :: "interval list icl" where
  "list_icl = \<lparr>icl_empty = [], icl_iter = (\<lambda>is. is), icl_add = list_add, icl_sub = list_sub,
     icl_sub_set = (\<lambda>s t. fold (\<lambda>i s. list_sub s i) t s),
     icl_contains = (\<lambda>s i. nonempty i \<longrightarrow> (\<exists>j \<in> set s. lower j \<le> lower i \<and> upper i \<le> upper j)),
     icl_intersects = (\<lambda>s i. nonempty i \<and> (\<exists>j \<in> set s. lower i < upper j \<and> lower j < upper i))\<rparr>"

lemma segments_ok_Cons:
  "segments_ok (i # is) \<longleftrightarrow> bounds i = RightOpen \<and> lower i < upper i \<and> segments_ok is \<and>
     (\<forall>j \<in> set is. upper i < lower j)"
  by (auto simp: segments_ok_def)

lemma segments_ok_append:
  "segments_ok (is @ js) \<longleftrightarrow> segments_ok is \<and> segments_ok js \<and>
     (\<forall>i \<in> set is. \<forall>j \<in> set js. upper i < lower j)"
  by (auto simp: segments_ok_def sorted_wrt_append)

lemma segments_ok_filter: "segments_ok is \<Longrightarrow> segments_ok (filter P is)"
  by (auto simp: segments_ok_def sorted_wrt_filter)

text \<open>Separated segments: a block of free points lies inside one of them.\<close>

lemma block_in_segment:
  assumes ok: "segments_ok is" and sub: "{a..<b} \<subseteq> points_of is" and "a < b"
  shows "\<exists>i \<in> set is. unat (lower i) \<le> a \<and> b \<le> unat (upper i)"
proof -
  obtain i where i: "i \<in> set is" "unat (lower i) \<le> a" "a < unat (upper i)"
    using sub \<open>a < b\<close> by (force simp: points_of_def interval_points_def)
  have "b \<le> unat (upper i)"
  proof (rule ccontr)
    assume "\<not> b \<le> unat (upper i)"
    then have "unat (upper i) \<in> points_of is"
      using sub i(3) by (intro subsetD [OF sub]) simp
    then obtain j where j: "j \<in> set is" "unat (lower j) \<le> unat (upper i)"
        "unat (upper i) < unat (upper j)"
      by (auto simp: points_of_def interval_points_def)
    have "i = j \<or> upper i < lower j \<or> upper j < lower i"
      using ok i(1) j(1) unfolding segments_ok_def
      by (metis in_set_conv_nth linorder_neqE_nat sorted_wrt_nth_less)
    with i j show False by (auto simp: word_less_nat_alt)
  qed
  with i show ?thesis by blast
qed

lemma list_sub_simps:
  "list_sub [] i = []"
  "nonempty i \<Longrightarrow> list_sub (j # is) i = remains j i @ list_sub is i"
  "\<not> nonempty i \<Longrightarrow> list_sub is i = is"
  by (simp_all add: list_sub_def)

lemma remains:
  assumes "nonempty i" and "lower j < upper j"
  shows "segments_ok (remains j i)"
    and "\<forall>p \<in> set (remains j i). lower j \<le> lower p \<and> upper p \<le> upper j"
    and "points_of (remains j i) = interval_points j - interval_points i"
proof -
  show "segments_ok (remains j i)"
    using assms by (auto simp: remains_def segments_ok_def nonempty_def min_def max_def)
  show "\<forall>p \<in> set (remains j i). lower j \<le> lower p \<and> upper p \<le> upper j"
    by (auto simp: remains_def)
  show "points_of (remains j i) = interval_points j - interval_points i"
    using assms by (auto simp: remains_def nonempty_def interval_points_def
        min_def max_def word_less_nat_alt word_le_nat_alt)
qed

lemma list_sub_within:
  assumes "segments_ok is" and "p \<in> set (list_sub is i)"
  shows "\<exists>j \<in> set is. lower j \<le> lower p \<and> upper p \<le> upper j"
proof (cases "nonempty i")
  case True
  show ?thesis
    using assms
  proof (induction "is")
    case (Cons j "is")
    then show ?case
      using remains(2) [OF True, of j] by (auto simp: segments_ok_Cons list_sub_simps True)
  qed (simp add: list_sub_simps)
qed (use assms(2) in \<open>auto simp: list_sub_simps\<close>)

lemma sub_segments:
  assumes "segments_ok is"
  shows "segments_ok (list_sub is i)"
    and "points_of (list_sub is i) = points_of is - interval_points i"
proof -
  have "segments_ok (list_sub is i) \<and> points_of (list_sub is i) = points_of is - interval_points i"
  proof (cases "nonempty i")
    case True
    show ?thesis
      using assms
    proof (induction "is")
      case (Cons j "is")
      then have j: "lower j < upper j" "segments_ok is" "\<forall>k \<in> set is. upper j < lower k"
        by (auto simp: segments_ok_Cons)
      have "upper p < lower q" if "p \<in> set (remains j i)" "q \<in> set (list_sub is i)" for p q
        using list_sub_within [OF j(2) that(2)] remains(2) [OF True j(1)] j(3) that(1) by fastforce
      then show ?case
        using Cons.IH j remains [OF True j(1)]
        by (auto simp: list_sub_simps True segments_ok_append points_of_append)
    qed (simp add: list_sub_simps)
  qed (use assms in \<open>auto simp: list_sub_simps nonempty_def interval_points_def word_less_nat_alt\<close>)
  then show "segments_ok (list_sub is i)"
      "points_of (list_sub is i) = points_of is - interval_points i" by simp_all
qed

lemma fold_sub_segments:
  assumes "segments_ok is"
  shows "segments_ok (fold (\<lambda>i s. list_sub s i) js is) \<and>
    points_of (fold (\<lambda>i s. list_sub s i) js is) = points_of is - points_of js"
  using assms by (induction js arbitrary: "is") (auto simp: sub_segments)

lemma foldr_min_bounds:
  "foldr (\<lambda>j. min (f j)) js (l :: 'a :: linorder) \<le> l"
  "j \<in> set js \<Longrightarrow> foldr (\<lambda>j. min (f j)) js l \<le> f j"
  "foldr (\<lambda>j. min (f j)) js l = l \<or> (\<exists>j \<in> set js. foldr (\<lambda>j. min (f j)) js l = f j)"
  by (induction js) (auto simp: min_def intro: order_trans)

lemma foldr_max_bounds:
  "(l :: 'a :: linorder) \<le> foldr (\<lambda>j. max (f j)) js l"
  "j \<in> set js \<Longrightarrow> f j \<le> foldr (\<lambda>j. max (f j)) js l"
  "foldr (\<lambda>j. max (f j)) js l = l \<or> (\<exists>j \<in> set js. foldr (\<lambda>j. max (f j)) js l = f j)"
  by (induction js) (auto simp: max_def intro: order_trans)

lemma separated:
  assumes "segments_ok is" and "j \<in> set is" and "k \<in> set is"
  shows "j = k \<or> upper j < lower k \<or> upper k < lower j"
  using assms unfolding segments_ok_def
  by (metis in_set_conv_nth linorder_neqE_nat sorted_wrt_nth_less)

lemma add_segments:
  assumes ok: "segments_ok is"
  shows "segments_ok (list_add is i)"
    and "points_of (list_add is i) = points_of is \<union> interval_points i"
proof -
  have "segments_ok (list_add is i) \<and> points_of (list_add is i) = points_of is \<union> interval_points i"
  proof (cases "nonempty i")
    case True
    define T where "T = filter (\<lambda>j. lower i \<le> upper j \<and> lower j \<le> upper i) is"
    define lo where "lo = foldr (\<lambda>j. min (lower j)) T (lower i)"
    define up where "up = foldr (\<lambda>j. max (upper j)) T (upper i)"
    let ?L = "filter (\<lambda>j. upper j < lower i) is" and ?R = "filter (\<lambda>j. upper i < lower j) is"
    have add: "list_add is i = ?L @ [Interval lo up] @ ?R"
      using True by (simp add: list_add_def T_def lo_def up_def Let_def)
    have lo: "lo \<le> lower i" "\<And>j. j \<in> set T \<Longrightarrow> lo \<le> lower j"
        "lo = lower i \<or> (\<exists>j \<in> set T. lo = lower j)"
      unfolding lo_def by (rule foldr_min_bounds; assumption?)+
    have up: "upper i \<le> up" "\<And>j. j \<in> set T \<Longrightarrow> upper j \<le> up"
        "up = upper i \<or> (\<exists>j \<in> set T. up = upper j)"
      unfolding up_def by (rule foldr_max_bounds; assumption?)+
    have iw: "lower i < upper i" using True by (simp add: nonempty_def)
    have jw: "\<And>j. j \<in> set is \<Longrightarrow> lower j < upper j" using ok by (simp add: segments_ok_def)
    have left: "upper j < lo" if "j \<in> set ?L" for j
      using lo(3)
    proof
      assume "\<exists>t \<in> set T. lo = lower t"
      then obtain t where "t \<in> set T" "lo = lower t" by blast
      with separated [OF ok, of j t] that jw [of j] show ?thesis by (auto simp: T_def)
    qed (use that in simp)
    have right: "up < lower j" if "j \<in> set ?R" for j
      using up(3)
    proof
      assume "\<exists>t \<in> set T. up = upper t"
      then obtain t where "t \<in> set T" "up = upper t" by blast
      with separated [OF ok, of j t] that jw [of j] show ?thesis by (auto simp: T_def)
    qed (use that in simp)
    have "segments_ok (list_add is i)"
      unfolding add segments_ok_append
      using left right lo(1) up(1) iw segments_ok_filter [OF ok]
      by (auto simp: segments_ok_Cons intro: order_le_less_trans order_less_le_trans)
        (auto simp: segments_ok_def)
    moreover have "points_of is = points_of ?L \<union> points_of T \<union> points_of ?R"
      by (auto simp: points_of_def T_def not_less) (metis not_less)
    moreover have "interval_points (Interval lo up) = points_of T \<union> interval_points i"
    proof (rule equalityI; rule subsetI)
      fix x assume x: "x \<in> interval_points (Interval lo up)"
      consider "x < unat (lower i)" | "unat (upper i) \<le> x" | "x \<in> interval_points i"
        unfolding interval_points_def by fastforce
      then show "x \<in> points_of T \<union> interval_points i"
      proof cases
        case 1
        with x lo(3) obtain t where "t \<in> set T" "lo = lower t" by auto
        with 1 x have "x \<in> interval_points t"
          by (auto simp: T_def interval_points_def word_le_nat_alt)
        with \<open>t \<in> set T\<close> show ?thesis by (auto simp: points_of_def)
      next
        case 2
        with x up(3) obtain t where "t \<in> set T" "up = upper t" by auto
        with 2 x have "x \<in> interval_points t"
          by (auto simp: T_def interval_points_def word_le_nat_alt)
        with \<open>t \<in> set T\<close> show ?thesis by (auto simp: points_of_def)
      qed simp
    next
      fix x assume "x \<in> points_of T \<union> interval_points i"
      then show "x \<in> interval_points (Interval lo up)"
        using lo(1,2) up(1,2)
        by (auto simp: points_of_def interval_points_def word_le_nat_alt)
          (meson le_trans less_le_trans)+
    qed
    ultimately show ?thesis by (auto simp: add)
  qed (use ok in \<open>auto simp: list_add_def nonempty_def interval_points_def word_less_nat_alt\<close>)
  then show "segments_ok (list_add is i)"
      "points_of (list_add is i) = points_of is \<union> interval_points i" by simp_all
qed

lemma list_icl_sel [simp]:
  "icl_empty list_icl = []" "icl_iter list_icl s = s" "icl_add list_icl = list_add"
  "icl_sub list_icl = list_sub" "icl_sub_set list_icl s t = fold (\<lambda>i s. list_sub s i) t s"
  by (simp_all add: list_icl_def)

lemma list_contains:
  assumes "segments_ok s"
  shows "icl_contains list_icl s (Interval lo up) \<longleftrightarrow> {unat lo..<unat up} \<subseteq> points_of s"
proof (cases "lo < up")
  case True
  show ?thesis
  proof
    assume "{unat lo..<unat up} \<subseteq> points_of s"
    from block_in_segment [OF assms this] True
    show "icl_contains list_icl s (Interval lo up)"
      by (auto simp: list_icl_def word_less_nat_alt word_le_nat_alt)
  next
    assume "icl_contains list_icl s (Interval lo up)"
    then obtain j where j: "j \<in> set s" "lower j \<le> lo" "up \<le> upper j"
      using True by (auto simp: list_icl_def nonempty_def)
    then have "{unat lo..<unat up} \<subseteq> interval_points j"
      by (auto simp: interval_points_def word_le_nat_alt)
    with j(1) show "{unat lo..<unat up} \<subseteq> points_of s"
      by (auto simp: points_of_def)
  qed
qed (auto simp: list_icl_def nonempty_def word_less_nat_alt)

lemma list_intersects:
  assumes "segments_ok s"
  shows "icl_intersects list_icl s (Interval lo up) \<longleftrightarrow> {unat lo..<unat up} \<inter> points_of s \<noteq> {}"
proof (cases "lo < up")
  case True
  have "({unat lo..<unat up} \<inter> interval_points j \<noteq> {}) \<longleftrightarrow> lo < upper j \<and> lower j < up"
    if "j \<in> set s" for j
  proof -
    have "lower j < upper j" using assms that by (simp add: segments_ok_def)
    then show ?thesis
      using True by (auto simp: interval_points_def Int_atLeastLessThan word_less_nat_alt
          max_def min_def)
  qed
  then have "({unat lo..<unat up} \<inter> points_of s \<noteq> {}) \<longleftrightarrow>
      (\<exists>j \<in> set s. lo < upper j \<and> lower j < up)"
    by (auto simp: points_of_def)
  then show ?thesis using True by (simp add: list_icl_def nonempty_def)
qed (auto simp: list_icl_def nonempty_def word_less_nat_alt)

lemma list_icl_ok: "icl_ok list_icl"
  unfolding icl_ok_def
  by (intro conjI allI impI)
    (auto simp: icl_wf_def icl_points_alt add_segments sub_segments fold_sub_segments
      list_contains list_intersects segments_ok_def [of "[]"])

end
