(* ===== verification/MemoryRegions.thy ===== *)
theory MemoryRegions
  imports IntervalSets
begin

text \<open>
  \<open>Kernel::MemoryRegionInfo\<close> and \<open>KernelSystem::MemoryInit\<close> (\<open>core/hle/kernel/memory.h\<close>,
  \<open>memory.cpp\<close>): the allocators of the three FCRAM regions. The set of free blocks is a
  \<open>boost::icl::interval_set<u32>\<close>: its operations are the argument \<open>ops\<close>
  (theory \<open>IntervalSets\<close>).
\<close>

section \<open>Data\<close>

record 's memory_region =
  base :: u32
  region_size :: u32
  used :: u32
  free_blocks :: 's
  is_locked :: bool

section \<open>Operations\<close>

definition Region_Reset ::
  "'s icl \<Rightarrow> 's memory_region \<Rightarrow> u32 \<Rightarrow> u32 \<Rightarrow> 's memory_region run" where
  "Region_Reset ops r b sz = do {
     ASSERT (\<not> is_locked r);
     Some (r\<lparr>base := b, region_size := sz, used := 0,
       free_blocks := icl_add ops (icl_empty ops) (Interval b (b + sz))\<rparr>)}"

fun heap_walk :: "'s icl \<Rightarrow> interval list \<Rightarrow> 's \<Rightarrow> u32 \<Rightarrow> ('s \<times> u32) run" where
  "heap_walk ops [] result rest = Some (result, rest)"
| "heap_walk ops (i # is) result rest = do {
     ASSERT (bounds i = RightOpen);
     if upper i - lower i \<ge> rest then
       Some (icl_add ops result (Interval (upper i - rest) (upper i)), 0)
     else heap_walk ops is (icl_add ops result i) (rest - (upper i - lower i))}"

definition Region_HeapAllocate ::
  "'s icl \<Rightarrow> 's memory_region \<Rightarrow> u32 \<Rightarrow> ('s \<times> 's memory_region) run" where
  "Region_HeapAllocate ops r sz = do {
     ASSERT (\<not> is_locked r);
     (result, rest) \<leftarrow> heap_walk ops (rev (icl_iter ops (free_blocks r))) (icl_empty ops) sz;
     if rest \<noteq> 0 then Some (icl_empty ops, r)
     else Some (result, r\<lparr>free_blocks := icl_sub_set ops (free_blocks r) result,
       used := used r + sz\<rparr>)}"

definition Region_LinearAllocateAt ::
  "'s icl \<Rightarrow> 's memory_region \<Rightarrow> u32 \<Rightarrow> u32 \<Rightarrow> (bool \<times> 's memory_region) run" where
  "Region_LinearAllocateAt ops r offset sz = do {
     ASSERT (\<not> is_locked r);
     let i = Interval offset (offset + sz);
     if \<not> icl_contains ops (free_blocks r) i then Some (False, r)
     else Some (True, r\<lparr>free_blocks := icl_sub ops (free_blocks r) i, used := used r + sz\<rparr>)}"

fun linear_walk :: "interval list \<Rightarrow> u32 \<Rightarrow> interval option run" where
  "linear_walk [] sz = Some None"
| "linear_walk (i # is) sz = do {
     ASSERT (bounds i = RightOpen);
     if upper i - lower i \<ge> sz then Some (Some i) else linear_walk is sz}"

definition Region_LinearAllocate ::
  "'s icl \<Rightarrow> 's memory_region \<Rightarrow> u32 \<Rightarrow> (u32 option \<times> 's memory_region) run" where
  "Region_LinearAllocate ops r sz = do {
     ASSERT (\<not> is_locked r);
     found \<leftarrow> linear_walk (icl_iter ops (free_blocks r)) sz;
     case found of
       None \<Rightarrow> Some (None, r)
     | Some i \<Rightarrow>
         let allocated = Interval (lower i) (lower i + sz)
         in Some (Some (lower allocated),
              r\<lparr>free_blocks := icl_sub ops (free_blocks r) allocated, used := used r + sz\<rparr>)}"

definition Region_RLinearAllocate ::
  "'s icl \<Rightarrow> 's memory_region \<Rightarrow> u32 \<Rightarrow> (u32 option \<times> 's memory_region) run" where
  "Region_RLinearAllocate ops r sz = do {
     ASSERT (\<not> is_locked r);
     found \<leftarrow> linear_walk (rev (icl_iter ops (free_blocks r))) sz;
     case found of
       None \<Rightarrow> Some (None, r)
     | Some i \<Rightarrow>
         let allocated = Interval (upper i - sz) (upper i)
         in Some (Some (lower allocated),
              r\<lparr>free_blocks := icl_sub ops (free_blocks r) allocated, used := used r + sz\<rparr>)}"

definition Region_Free ::
  "'s icl \<Rightarrow> 's memory_region \<Rightarrow> u32 \<Rightarrow> u32 \<Rightarrow> 's memory_region run" where
  "Region_Free ops r offset sz =
     (if is_locked r then Some r
      else do {
        let i = Interval offset (offset + sz);
        ASSERT (\<not> icl_intersects ops (free_blocks r) i);
        Some (r\<lparr>free_blocks := icl_add ops (free_blocks r) i, used := used r - sz\<rparr>)})"

definition Region_Unlock :: "'s memory_region \<Rightarrow> 's memory_region" where
  "Region_Unlock r = r\<lparr>is_locked := False\<rparr>"

section \<open>Laying out the regions\<close>

definition memory_region_sizes :: "u32 list list" where
  "memory_region_sizes =
     [[0x04000000, 0x02C00000, 0x01400000],
      [0, 0, 0],
      [0x06000000, 0x00C00000, 0x01400000],
      [0x05000000, 0x01C00000, 0x01400000],
      [0x04800000, 0x02400000, 0x01400000],
      [0x02000000, 0x04C00000, 0x01400000],
      [0x07C00000, 0x06400000, 0x02000000],
      [0x0B200000, 0x02E00000, 0x02000000]]"

abbreviation (input) "FCRAM_SIZE \<equiv> (0x08000000 :: u32)"
abbreviation (input) "FCRAM_N3DS_SIZE \<equiv> (0x10000000 :: u32)"

datatype New3dsMemoryMode = Legacy | NewProd | NewDev1 | NewDev2

record config_mem =
  app_mem_type :: u32
  app_mem_alloc :: u32
  sys_mem_alloc :: u32
  base_mem_alloc :: u32

definition mem_type_indices :: "bool \<Rightarrow> u8 \<Rightarrow> New3dsMemoryMode \<Rightarrow> u32 \<times> u32" where
  "mem_type_indices is_new_3ds memory_mode n3ds_mode =
     (let mem_type_index = ucast memory_mode; reported_mem_type = ucast memory_mode
      in if is_new_3ds then
           if n3ds_mode = NewProd \<or> n3ds_mode = NewDev2 then (6, 6)
           else if n3ds_mode = NewDev1 then (7, 7)
           else (6, reported_mem_type)
         else (mem_type_index, reported_mem_type))"

fun reset_regions ::
  "'s icl \<Rightarrow> 's memory_region list \<Rightarrow> u32 list \<Rightarrow> u32 \<Rightarrow> ('s memory_region list \<times> u32) run"
where
  "reset_regions ops (r # rs) (sz # szs) b = do {
     r' \<leftarrow> Region_Reset ops r b sz;
     (rs', b') \<leftarrow> reset_regions ops rs szs (b + region_size r');
     Some (r' # rs', b')}"
| "reset_regions ops rs szs b = Some ([], b)"

definition MemoryInit ::
  "'s icl \<Rightarrow> bool \<Rightarrow> 's memory_region list \<Rightarrow> u8 \<Rightarrow> New3dsMemoryMode \<Rightarrow> config_mem \<Rightarrow>
     ('s memory_region list \<times> config_mem) run" where
  "MemoryInit ops is_new_3ds regions memory_mode n3ds_mode cm =
     (let (mem_type_index, reported_mem_type) = mem_type_indices is_new_3ds memory_mode n3ds_mode
      in if \<not> unat mem_type_index < 8 \<or> \<not> unat reported_mem_type < 8 then None
         else do {
           (regions', b) \<leftarrow> reset_regions ops regions (memory_region_sizes ! unat mem_type_index) 0;
           ASSERT (b = (if is_new_3ds then FCRAM_N3DS_SIZE else FCRAM_SIZE));
           Some (regions', cm
             \<lparr>app_mem_type := reported_mem_type,
              app_mem_alloc := memory_region_sizes ! unat reported_mem_type ! 0,
              sys_mem_alloc := region_size (regions' ! 1),
              base_mem_alloc := region_size (regions' ! 2)\<rparr>)})"

text \<open>\<open>MemoryRegion\<close> is the enum's \<open>u16\<close> value, APPLICATION, SYSTEM and BASE being 1, 2 and 3.\<close>

definition GetMemoryRegion :: "'s memory_region list \<Rightarrow> u16 \<Rightarrow> 's memory_region run" where
  "GetMemoryRegion regions region =
     (if region = 1 then Some (regions ! 0)
      else if region = 2 then Some (regions ! 1)
      else if region = 3 then Some (regions ! 2)
      else None)"

section \<open>The heap walk\<close>

text \<open>The walk takes whole segments from the top, then the upper part of one more.\<close>

lemma heap_walk_spec:
  assumes ops: "icl_ok ops" and "descending is" and "icl_wf ops res"
    and "\<And>x y. x \<in> points_of is \<Longrightarrow> y \<in> icl_points ops res \<Longrightarrow> x < y"
  shows "\<exists>res' rest'. heap_walk ops is res rest = Some (res', rest') \<and> icl_wf ops res' \<and>
    icl_points ops res \<subseteq> icl_points ops res' \<and>
    icl_points ops res' \<subseteq> icl_points ops res \<union> points_of is \<and>
    (if unat rest \<le> card (points_of is)
     then rest' = 0 \<and> card (icl_points ops res') = card (icl_points ops res) + unat rest \<and>
       (\<forall>x \<in> points_of is - icl_points ops res'. \<forall>y \<in> icl_points ops res'. x < y)
     else unat rest' = unat rest - card (points_of is))"
  using assms(2-4)
proof (induction "is" arbitrary: res rest)
  case Nil
  then show ?case by (auto simp: unat_eq_0)
next
  case (Cons i "is")
  have d: "bounds i = RightOpen" "lower i < upper i" "descending is"
      "\<forall>j \<in> set is. upper j < lower i"
    using Cons.prems(1) by (simp_all add: descending_Cons)
  note below = below_head [OF d(4)]
  have disj: "interval_points i \<inter> points_of is = {}"
    using below by (force simp: interval_points_def)
  have card: "card (points_of (i # is)) = unat (upper i - lower i) + card (points_of is)"
    using disj by (simp add: card_Un_disjoint card_interval [OF d(2)])
  show ?case
  proof (cases "rest \<le> upper i - lower i")
    case True
    let ?I = "Interval (upper i - rest) (upper i)"
    have u: "unat (upper i - rest) = unat (upper i) - unat rest" "unat rest \<le> unat (upper i)"
      using True unat_width [OF d(2)] by (auto simp: unat_sub word_le_nat_alt)
    have sub: "interval_points ?I \<subseteq> interval_points i"
      using True u unat_width [OF d(2)] by (auto simp: interval_points_def word_le_nat_alt)
    have new: "icl_points ops res \<inter> interval_points ?I = {}"
      using Cons.prems(3) sub by (fastforce simp: points_of_def)
    note add = icl_addD [OF ops Cons.prems(2), of ?I]
    have "card (icl_points ops (icl_add ops res ?I)) = card (icl_points ops res) + unat rest"
      using add(2) new u by (simp add: card_Un_disjoint)
    moreover have "x < y" if "x \<in> points_of (i # is) - icl_points ops (icl_add ops res ?I)"
        and "y \<in> icl_points ops (icl_add ops res ?I)" for x y
      using that add(2) Cons.prems(3) [of x y] below [of x] u unat_width [OF d(2)] True
      by (auto simp: interval_points_def word_le_nat_alt)
    ultimately show ?thesis
      using True add d sub card by (auto simp: word_le_nat_alt)
  next
    case False
    note add = icl_addD [OF ops Cons.prems(2) d(1)]
    have "\<And>x y. x \<in> points_of is \<Longrightarrow> y \<in> icl_points ops (icl_add ops res i) \<Longrightarrow> x < y"
      using Cons.prems(3) add(2) below by (fastforce simp: interval_points_def)
    note IH = Cons.IH [OF d(3) add(1) this, of "rest - (upper i - lower i)"]
    have r: "unat (rest - (upper i - lower i)) = unat rest - unat (upper i - lower i)"
      using False by (simp add: unat_sub)
    have w: "unat (upper i - lower i) < unat rest"
      using False by (simp add: word_less_nat_alt not_le)
    have new: "icl_points ops res \<inter> interval_points i = {}"
      using Cons.prems(3) by (fastforce simp: points_of_def)
    have c: "card (icl_points ops (icl_add ops res i)) =
        card (icl_points ops res) + unat (upper i - lower i)"
      using add(2) new by (simp add: card_Un_disjoint card_interval [OF d(2)])
    from IH obtain res' rest' where H:
      "heap_walk ops is (icl_add ops res i) (rest - (upper i - lower i)) = Some (res', rest')"
      "icl_wf ops res'" "icl_points ops (icl_add ops res i) \<subseteq> icl_points ops res'"
      "icl_points ops res' \<subseteq> icl_points ops (icl_add ops res i) \<union> points_of is"
      "if unat rest - unat (upper i - lower i) \<le> card (points_of is)
       then rest' = 0 \<and> card (icl_points ops res') =
           card (icl_points ops (icl_add ops res i)) + (unat rest - unat (upper i - lower i)) \<and>
         (\<forall>x \<in> points_of is - icl_points ops res'. \<forall>y \<in> icl_points ops res'. x < y)
       else unat rest' = unat rest - unat (upper i - lower i) - card (points_of is)"
      unfolding r by blast
    have "unat rest \<le> card (points_of (i # is)) \<longleftrightarrow>
        unat rest - unat (upper i - lower i) \<le> card (points_of is)"
      using w card by auto
    then show ?thesis
      using H False d(1) add(2) c w card by (auto split: if_splits)
  qed
qed

section \<open>The invariant\<close>

definition region_points :: "'s memory_region \<Rightarrow> nat set" where
  "region_points r = {unat (base r)..<unat (base r) + unat (region_size r)}"

definition free_points :: "'s icl \<Rightarrow> 's memory_region \<Rightarrow> nat set" where
  "free_points ops r = icl_points ops (free_blocks r)"

definition region_wf :: "'s icl \<Rightarrow> 's memory_region \<Rightarrow> bool" where
  "region_wf ops r \<longleftrightarrow> icl_wf ops (free_blocks r) \<and> free_points ops r \<subseteq> region_points r \<and>
     unat (base r) + unat (region_size r) < 2 ^ 32 \<and>
     unat (used r) + card (free_points ops r) = unat (region_size r)"

lemma finite_region_points [simp]: "finite (region_points r)" "finite (free_points ops r)"
  by (simp_all add: region_points_def free_points_def)

text \<open>Taking a block of free points, and giving back a block that is not free.\<close>

lemma take_points:
  assumes wf: "region_wf ops r" and s: "icl_wf ops s" and sub: "blk \<subseteq> free_points ops r"
    and pts: "icl_points ops s = free_points ops r - blk" and card: "card blk = unat sz"
  shows "region_wf ops (r\<lparr>free_blocks := s, used := used r + sz\<rparr>)"
proof -
  have "finite blk" using sub finite_subset by (metis finite_region_points(2))
  then have "card (icl_points ops s) + unat sz = card (free_points ops r)"
    using pts sub card card_mono [OF _ sub] by (simp add: card_Diff_subset)
  moreover have "unat (used r) + unat sz < 2 ^ 32"
    using wf calculation by (auto simp: region_wf_def)
  ultimately show ?thesis
    using wf s pts by (auto simp: region_wf_def free_points_def region_points_def unat_plus_fits)
qed

section \<open>Specifications\<close>

lemma wf_descending: "icl_wf ops s \<Longrightarrow> descending (rev (icl_iter ops s))"
  by (simp add: icl_wf_def descending_def)

lemma linear_walk_find:
  "\<forall>i \<in> set is. bounds i = RightOpen \<Longrightarrow>
    linear_walk is sz = Some (find (\<lambda>i. upper i - lower i \<ge> sz) is)"
  by (induction "is") auto

text \<open>A segment has room for a block exactly when it is wide enough.\<close>

lemma width_iff:
  "lower i < upper i \<Longrightarrow> sz \<le> upper i - lower i \<longleftrightarrow> unat (lower i) + unat sz \<le> unat (upper i)"
  by (auto simp: word_le_nat_alt unat_width word_less_nat_alt)

lemma find_sorted:
  assumes "find P xs = Some x" and "sorted_wrt R xs"
  shows "x \<in> set xs \<and> P x \<and> (\<forall>y \<in> set xs. P y \<longrightarrow> y = x \<or> R x y)"
  using assms by (induction xs) (auto split: if_splits)

text \<open>C20: \<open>HeapAllocate\<close> on an unlocked region. When enough bytes are free it returns a set of
  exactly the requested number of free bytes, the highest ones, and they are no longer free;
  otherwise it returns the empty set and changes nothing. Either way \<open>used\<close> and the free bytes
  still add up to the region.\<close>

theorem heap_allocate_spec:
  assumes ops: "icl_ok ops" and wf: "region_wf ops r" and unlocked: "\<not> is_locked r"
  shows "\<exists>result r'. Region_HeapAllocate ops r sz = Some (result, r') \<and> region_wf ops r' \<and>
    (if unat sz \<le> card (free_points ops r)
     then card (icl_points ops result) = unat sz \<and> icl_points ops result \<subseteq> free_points ops r \<and>
       free_points ops r' = free_points ops r - icl_points ops result \<and>
       (\<forall>x \<in> free_points ops r'. \<forall>y \<in> icl_points ops result. x < y) \<and>
       used r' = used r + sz
     else icl_points ops result = {} \<and> r' = r)"
proof -
  let ?L = "rev (icl_iter ops (free_blocks r))"
  have iwf: "icl_wf ops (free_blocks r)" using wf by (simp add: region_wf_def)
  have L: "points_of ?L = free_points ops r" by (simp add: free_points_def icl_points_alt)
  obtain result rest where w: "heap_walk ops ?L (icl_empty ops) sz = Some (result, rest)"
      "icl_wf ops result" "icl_points ops result \<subseteq> free_points ops r"
      "if unat sz \<le> card (free_points ops r)
       then rest = 0 \<and> card (icl_points ops result) = unat sz \<and>
         (\<forall>x \<in> free_points ops r - icl_points ops result. \<forall>y \<in> icl_points ops result. x < y)
       else unat rest = unat sz - card (free_points ops r)"
    using heap_walk_spec [OF ops wf_descending [OF iwf] icl_emptyD(1) [OF ops], of sz]
      icl_emptyD(2) [OF ops] unfolding L by auto
  show ?thesis
  proof (cases "unat sz \<le> card (free_points ops r)")
    case True
    have rest: "rest = 0" using w(4) True by simp
    note sub = icl_sub_setD [OF ops iwf w(2)]
    have pts: "icl_points ops (icl_sub_set ops (free_blocks r) result) =
        free_points ops r - icl_points ops result"
      using sub(2) by (simp add: free_points_def)
    have "region_wf ops (r\<lparr>free_blocks := icl_sub_set ops (free_blocks r) result, used := used r + sz\<rparr>)"
      using take_points [OF wf sub(1) w(3) pts] w(4) True by simp
    then show ?thesis
      using w unlocked True pts rest by (simp add: Region_HeapAllocate_def) (simp add: free_points_def)
  next
    case False
    then have "rest \<noteq> 0" using w(4) by (auto simp: unat_eq_0)
    then show ?thesis
      using w(1) unlocked False wf icl_emptyD [OF ops] by (simp add: Region_HeapAllocate_def)
  qed
qed

text \<open>A block of free bytes of positive size starts where a wide enough segment allows it.\<close>

lemma free_block_iff:
  assumes "segments_ok is" and "0 < sz"
  shows "{a..<a + sz} \<subseteq> points_of is \<longleftrightarrow>
    (\<exists>i \<in> set is. unat (lower i) \<le> a \<and> a + sz \<le> unat (upper i))"
proof
  assume "{a..<a + sz} \<subseteq> points_of is"
  from block_in_segment [OF assms(1) this] assms(2)
  show "\<exists>i \<in> set is. unat (lower i) \<le> a \<and> a + sz \<le> unat (upper i)" by simp
next
  assume "\<exists>i \<in> set is. unat (lower i) \<le> a \<and> a + sz \<le> unat (upper i)"
  then obtain i where "i \<in> set is" "{a..<a + sz} \<subseteq> interval_points i"
    by (auto simp: interval_points_def)
  then show "{a..<a + sz} \<subseteq> points_of is" by (auto simp: points_of_def)
qed

lemma take_interval:
  assumes ops: "icl_ok ops" and wf: "region_wf ops r"
    and fit: "unat a + unat sz < 2 ^ 32" and sub: "{unat a..<unat a + unat sz} \<subseteq> free_points ops r"
  defines "r' \<equiv> r\<lparr>free_blocks := icl_sub ops (free_blocks r) (Interval a (a + sz)),
    used := used r + sz\<rparr>"
  shows "region_wf ops r'"
    and "free_points ops r' = free_points ops r - {unat a..<unat a + unat sz}"
proof -
  have iwf: "icl_wf ops (free_blocks r)" using wf by (simp add: region_wf_def)
  note d = icl_subD [OF ops iwf, of a "a + sz"]
  have pts: "icl_points ops (icl_sub ops (free_blocks r) (Interval a (a + sz))) =
      free_points ops r - {unat a..<unat a + unat sz}"
    using d(2) unat_plus_fits [OF fit] by (simp add: free_points_def)
  show "region_wf ops r'"
    unfolding r'_def using take_points [OF wf d(1) sub pts] by simp
  show "free_points ops r' = free_points ops r - {unat a..<unat a + unat sz}"
    using pts by (simp add: r'_def free_points_def)
qed

lemma segment_in_region:
  assumes "region_wf ops r" and "i \<in> set (icl_iter ops (free_blocks r))"
  shows "lower i < upper i" and "unat (upper i) < 2 ^ 32"
    and "interval_points i \<subseteq> free_points ops r"
  using assms unat_u32_less [of "upper i"]
  by (auto simp: region_wf_def icl_wf_def segments_ok_def free_points_def icl_points_def)

lemma linear_walk_region:
  assumes wf: "region_wf ops r" and seg: "set is = set (icl_iter ops (free_blocks r))"
  shows "linear_walk is sz = Some (find (\<lambda>i. upper i - lower i \<ge> sz) is)"
  using assms by (intro linear_walk_find) (auto simp: region_wf_def icl_wf_def segments_ok_def)

lemma no_free_block:
  assumes wf: "region_wf ops r" and sz: "0 < sz" and seg: "set is = set (icl_iter ops (free_blocks r))"
    and none: "find (\<lambda>i. upper i - lower i \<ge> sz) is = None"
  shows "\<not> {a..<a + unat sz} \<subseteq> free_points ops r"
proof
  assume "{a..<a + unat sz} \<subseteq> free_points ops r"
  moreover have "segments_ok (icl_iter ops (free_blocks r))" "0 < unat sz"
    using wf sz by (auto simp: region_wf_def icl_wf_def word_less_nat_alt)
  ultimately obtain i where i: "i \<in> set is" "unat (lower i) \<le> a" "a + unat sz \<le> unat (upper i)"
    unfolding free_points_def icl_points_alt seg using free_block_iff by blast
  then have "sz \<le> upper i - lower i"
    using width_iff [OF segment_in_region(1) [OF wf]] seg by auto
  with none i(1) show False by (auto simp: find_None_iff)
qed

lemma linear_allocate_lowest_raw:
  assumes ops: "icl_ok ops" and wf: "region_wf ops r" and unlocked: "\<not> is_locked r" and sz: "0 < sz"
  shows "\<exists>res r'. Region_LinearAllocate ops r sz = Some (res, r') \<and> region_wf ops r' \<and>
    (case res of
       None \<Rightarrow> r' = r \<and> (\<forall>a. \<not> {a..<a + unat sz} \<subseteq> free_points ops r)
     | Some a \<Rightarrow> {unat a..<unat a + unat sz} \<subseteq> free_points ops r \<and>
         (\<forall>b. {b..<b + unat sz} \<subseteq> free_points ops r \<longrightarrow> unat a \<le> b) \<and>
         free_points ops r' = free_points ops r - {unat a..<unat a + unat sz} \<and>
         used r' = used r + sz)"
proof -
  let ?is = "icl_iter ops (free_blocks r)"
  note walk = linear_walk_region [OF wf refl, of sz]
  have segs: "segments_ok ?is" and pos: "0 < unat sz"
    using wf sz by (auto simp: region_wf_def icl_wf_def word_less_nat_alt)
  show ?thesis
  proof (cases "find (\<lambda>i. upper i - lower i \<ge> sz) ?is")
    case None
    then show ?thesis
      using wf unlocked walk no_free_block [OF wf sz refl None]
      by (simp add: Region_LinearAllocate_def)
  next
    case (Some i)
    have i: "i \<in> set ?is" "sz \<le> upper i - lower i"
        "\<And>j. j \<in> set ?is \<Longrightarrow> sz \<le> upper j - lower j \<Longrightarrow> j = i \<or> upper i < lower j"
      using find_sorted [OF Some] segs unfolding segments_ok_def by blast+
    note s = segment_in_region [OF wf i(1)]
    have fit: "unat (lower i) + unat sz \<le> unat (upper i)" using i(2) width_iff [OF s(1)] by simp
    have sub: "{unat (lower i)..<unat (lower i) + unat sz} \<subseteq> free_points ops r"
      using s(3) fit by (force simp: interval_points_def)
    have low: "unat (lower i) \<le> b" if b: "{b..<b + unat sz} \<subseteq> free_points ops r" for b
    proof -
      obtain j where j: "j \<in> set ?is" "unat (lower j) \<le> b" "b + unat sz \<le> unat (upper j)"
        using b free_block_iff [OF segs pos] by (auto simp: free_points_def icl_points_alt)
      have "sz \<le> upper j - lower j"
        using j width_iff [OF segment_in_region(1) [OF wf j(1)]] by simp
      with i(3) [OF j(1)] j(2) s(1) show ?thesis by (auto simp: word_less_nat_alt)
    qed
    have "unat (lower i) + unat sz < 2 ^ 32" using fit s(2) by simp
    from take_interval [OF ops wf this sub] show ?thesis
      using unlocked walk Some sub low by (simp add: Region_LinearAllocate_def Let_def)
  qed
qed

text \<open>\<open>LinearAllocate\<close> of a positive size on an unlocked region is a first fit from below: it
  returns the lowest offset at which that many bytes are free in one block, takes exactly those
  bytes, and fails, changing nothing, only when no such block exists.\<close>

theorem linear_allocate_lowest:
  assumes ops: "icl_ok ops" and wf: "region_wf ops r" and unlocked: "\<not> is_locked r" and sz: "0 < sz"
  shows "\<exists>res r'. Region_LinearAllocate ops r sz = Some (res, r') \<and> region_wf ops r' \<and>
    (case res of
       None \<Rightarrow> r' = r \<and> (\<forall>a. \<not> {a..<a + unat sz} \<subseteq> free_points ops r)
     | Some a \<Rightarrow> {unat a..<unat a + unat sz} \<subseteq> free_points ops r \<and>
         (\<forall>b. {b..<b + unat sz} \<subseteq> free_points ops r \<longrightarrow> unat a \<le> b) \<and>
         free_points ops r' = free_points ops r - {unat a..<unat a + unat sz} \<and>
         used r' = used r + sz)"
  by (rule linear_allocate_lowest_raw [OF assms])

text \<open>\<open>RLinearAllocate\<close> of a positive size is the same from above: it returns the highest offset
  at which the bytes are free in one block, or fails when there is none.\<close>

theorem rlinear_allocate_highest:
  assumes ops: "icl_ok ops" and wf: "region_wf ops r" and unlocked: "\<not> is_locked r" and sz: "0 < sz"
  shows "\<exists>res r'. Region_RLinearAllocate ops r sz = Some (res, r') \<and> region_wf ops r' \<and>
    (case res of
       None \<Rightarrow> r' = r \<and> (\<forall>a. \<not> {a..<a + unat sz} \<subseteq> free_points ops r)
     | Some a \<Rightarrow> {unat a..<unat a + unat sz} \<subseteq> free_points ops r \<and>
         (\<forall>b. {b..<b + unat sz} \<subseteq> free_points ops r \<longrightarrow> b \<le> unat a) \<and>
         free_points ops r' = free_points ops r - {unat a..<unat a + unat sz} \<and>
         used r' = used r + sz)"
proof -
  let ?is = "icl_iter ops (free_blocks r)"
  have walk: "linear_walk (rev ?is) sz = Some (find (\<lambda>i. upper i - lower i \<ge> sz) (rev ?is))"
    using linear_walk_region [OF wf] by simp
  have segs: "segments_ok ?is" and pos: "0 < unat sz"
    using wf sz by (auto simp: region_wf_def icl_wf_def word_less_nat_alt)
  show ?thesis
  proof (cases "find (\<lambda>i. upper i - lower i \<ge> sz) (rev ?is)")
    case None
    then show ?thesis
      using wf unlocked walk no_free_block [OF wf sz _ None]
      by (simp add: Region_RLinearAllocate_def)
  next
    case (Some i)
    have "sorted_wrt (\<lambda>i j. upper j < lower i) (rev ?is)"
      using segs by (simp add: segments_ok_def sorted_wrt_rev)
    then have i: "i \<in> set ?is" "sz \<le> upper i - lower i"
        "\<And>j. j \<in> set ?is \<Longrightarrow> sz \<le> upper j - lower j \<Longrightarrow> j = i \<or> upper j < lower i"
      using find_sorted [OF Some] unfolding set_rev by blast+
    note s = segment_in_region [OF wf i(1)]
    have fit: "unat (lower i) + unat sz \<le> unat (upper i)" using i(2) width_iff [OF s(1)] by simp
    have a: "unat (upper i - sz) = unat (upper i) - unat sz"
      using fit by (simp add: unat_sub word_le_nat_alt)
    have sub: "{unat (upper i - sz)..<unat (upper i - sz) + unat sz} \<subseteq> free_points ops r"
      using s(3) fit a by (force simp: interval_points_def)
    have high: "b \<le> unat (upper i - sz)" if b: "{b..<b + unat sz} \<subseteq> free_points ops r" for b
    proof -
      obtain j where j: "j \<in> set ?is" "unat (lower j) \<le> b" "b + unat sz \<le> unat (upper j)"
        using b free_block_iff [OF segs pos] by (auto simp: free_points_def icl_points_alt)
      have "sz \<le> upper j - lower j"
        using j width_iff [OF segment_in_region(1) [OF wf j(1)]] by simp
      with i(3) [OF j(1)] j(3) s(1) a show ?thesis by (auto simp: word_less_nat_alt)
    qed
    have "unat (upper i - sz) + unat sz < 2 ^ 32" using fit s(2) a by simp
    from take_interval [OF ops wf this sub] show ?thesis
      using unlocked walk Some sub high by (simp add: Region_RLinearAllocate_def Let_def)
  qed
qed

section \<open>Freeing\<close>

lemma give_back:
  assumes ops: "icl_ok ops" and wf: "region_wf ops r"
    and blk: "{unat a..<unat a + unat sz} \<subseteq> region_points r" and sz: "0 < sz"
  shows "Region_Free ops r a sz =
     (if is_locked r then Some r
      else if {unat a..<unat a + unat sz} \<inter> free_points ops r = {}
      then Some (r\<lparr>free_blocks := icl_add ops (free_blocks r) (Interval a (a + sz)), used := used r - sz\<rparr>)
      else None)"
    and "{unat a..<unat a + unat sz} \<inter> free_points ops r = {} \<Longrightarrow>
      region_wf ops (r\<lparr>free_blocks := icl_add ops (free_blocks r) (Interval a (a + sz)), used := used r - sz\<rparr>)"
    and "icl_points ops (icl_add ops (free_blocks r) (Interval a (a + sz))) =
      free_points ops r \<union> {unat a..<unat a + unat sz}"
proof -
  let ?B = "{unat a..<unat a + unat sz}"
  have "?B \<noteq> {}" using sz by (simp add: word_less_nat_alt)
  then have "unat a + unat sz \<le> unat (base r) + unat (region_size r)"
    using blk by (simp add: region_points_def)
  then have u: "unat (a + sz) = unat a + unat sz"
    using wf by (intro unat_plus_fits) (simp add: region_wf_def)
  have iwf: "icl_wf ops (free_blocks r)" using wf by (simp add: region_wf_def)
  note add = icl_addD [OF ops iwf, of "Interval a (a + sz)"]
  show pts: "icl_points ops (icl_add ops (free_blocks r) (Interval a (a + sz))) =
      free_points ops r \<union> ?B"
    using add(2) u by (simp add: free_points_def)
  show "Region_Free ops r a sz =
     (if is_locked r then Some r
      else if ?B \<inter> free_points ops r = {}
      then Some (r\<lparr>free_blocks := icl_add ops (free_blocks r) (Interval a (a + sz)), used := used r - sz\<rparr>)
      else None)"
    using icl_subD(4) [OF ops iwf, of a "a + sz"] u
    by (simp add: Region_Free_def Let_def free_points_def)
  assume disj: "?B \<inter> free_points ops r = {}"
  have "card (free_points ops r) + unat sz = card (free_points ops r \<union> ?B)"
    using disj by (simp add: card_Un_disjoint Int_commute)
  also have "\<dots> \<le> card (region_points r)"
    using wf blk by (intro card_mono) (auto simp: region_wf_def)
  finally have c: "card (free_points ops r) + unat sz \<le> unat (region_size r)"
    by (simp add: region_points_def)
  moreover have "unat (used r) + card (free_points ops r) = unat (region_size r)"
    using wf by (simp add: region_wf_def)
  ultimately have "unat (used r - sz) = unat (used r) - unat sz" "unat sz \<le> unat (used r)"
    by (simp_all add: unat_sub word_le_nat_alt)
  then show "region_wf ops (r\<lparr>free_blocks := icl_add ops (free_blocks r) (Interval a (a + sz)),
      used := used r - sz\<rparr>)"
    using wf blk disj pts add(1)
    by (auto simp: region_wf_def free_points_def region_points_def card_Un_disjoint Int_commute)
qed

text \<open>\<open>Free\<close> undoes \<open>LinearAllocate\<close>: after allocating a block and freeing it, the same bytes
  are free and \<open>used\<close> has its old value; freeing the block a second time hits the assertion.\<close>

theorem free_undoes_linear_allocate:
  assumes ops: "icl_ok ops" and wf: "region_wf ops r" and sz: "0 < sz"
    and alloc: "Region_LinearAllocate ops r sz = Some (Some a, r1)"
  shows "\<exists>r2. Region_Free ops r1 a sz = Some r2 \<and> region_wf ops r2 \<and>
    free_points ops r2 = free_points ops r \<and> used r2 = used r \<and> Region_Free ops r2 a sz = None"
proof -
  have unlocked: "\<not> is_locked r"
    using alloc by (auto simp: Region_LinearAllocate_def)
  obtain res r' where w: "Region_LinearAllocate ops r sz = Some (res, r')" "region_wf ops r'"
    and H: "case res of None \<Rightarrow> r' = r \<and> (\<forall>a. \<not> {a..<a + unat sz} \<subseteq> free_points ops r)
     | Some a \<Rightarrow> {unat a..<unat a + unat sz} \<subseteq> free_points ops r \<and>
         (\<forall>b. {b..<b + unat sz} \<subseteq> free_points ops r \<longrightarrow> unat a \<le> b) \<and>
         free_points ops r' = free_points ops r - {unat a..<unat a + unat sz} \<and>
         used r' = used r + sz"
    using linear_allocate_lowest_raw [OF ops wf unlocked sz] by blast
  have "res = Some a" "r' = r1" using alloc w(1) by simp_all
  with w(2) H have r1: "region_wf ops r1" "{unat a..<unat a + unat sz} \<subseteq> free_points ops r"
      "free_points ops r1 = free_points ops r - {unat a..<unat a + unat sz}" "used r1 = used r + sz"
    by simp_all
  have same: "base r1 = base r" "region_size r1 = region_size r" "is_locked r1 = is_locked r"
    using alloc by (auto simp: Region_LinearAllocate_def Let_def split: option.splits bind_splits)
  have "free_points ops r \<subseteq> region_points r1"
    using wf same by (simp add: region_wf_def region_points_def)
  with r1(2) have blk: "{unat a..<unat a + unat sz} \<subseteq> region_points r1" by (rule subset_trans)
  note g = give_back [OF ops r1(1) blk sz]
  define r2 where "r2 = r1\<lparr>free_blocks := icl_add ops (free_blocks r1) (Interval a (a + sz)),
    used := used r1 - sz\<rparr>"
  have disj: "{unat a..<unat a + unat sz} \<inter> free_points ops r1 = {}" using r1(3) by auto
  have r2: "region_wf ops r2" "free_points ops r2 = free_points ops r" "used r2 = used r"
    using g(2) [OF disj] g(3) r1 by (auto simp: r2_def free_points_def)
  have blk2: "{unat a..<unat a + unat sz} \<subseteq> region_points r2"
    using blk by (simp add: r2_def region_points_def)
  have "unat a \<in> {unat a..<unat a + unat sz}" using sz by (simp add: word_less_nat_alt)
  with r1(2) r2(2) have "{unat a..<unat a + unat sz} \<inter> free_points ops r2 \<noteq> {}" by blast
  then have "Region_Free ops r2 a sz = None"
    using give_back(1) [OF ops r2(1) blk2 sz] same unlocked by (simp add: r2_def)
  then show ?thesis
    using g(1) disj same unlocked r2 by (auto simp: r2_def)
qed

section \<open>The layout of FCRAM\<close>

lemma Reset_spec:
  assumes ops: "icl_ok ops" and "\<not> is_locked r" and fit: "unat b + unat sz < 2 ^ 32"
  shows "\<exists>r'. Region_Reset ops r b sz = Some r' \<and> region_wf ops r' \<and> base r' = b \<and>
    region_size r' = sz \<and> used r' = 0 \<and> free_points ops r' = {unat b..<unat b + unat sz} \<and>
    \<not> is_locked r'"
  using assms icl_emptyD [OF ops] icl_addD [OF ops icl_emptyD(1) [OF ops], of "Interval b (b + sz)"]
  by (simp add: Region_Reset_def region_wf_def free_points_def region_points_def unat_plus_fits)

lemma reset_three:
  assumes ops: "icl_ok ops" and unlocked: "\<forall>r \<in> {r0, r1, r2}. \<not> is_locked r"
    and fit: "unat a + unat b + unat c < 2 ^ 32"
  shows "\<exists>x y z. reset_regions ops [r0, r1, r2] [a, b, c] 0 = Some ([x, y, z], a + b + c) \<and>
    (\<forall>r \<in> {x, y, z}. region_wf ops r \<and> used r = 0 \<and> \<not> is_locked r) \<and>
    free_points ops x = {0..<unat a} \<and> free_points ops y = {unat a..<unat a + unat b} \<and>
    free_points ops z = {unat a + unat b..<unat a + unat b + unat c} \<and>
    region_size x = a \<and> region_size y = b \<and> region_size z = c"
proof -
  have u: "unat (a + b) = unat a + unat b" using fit by (intro unat_plus_fits) simp
  obtain x where x: "Region_Reset ops r0 0 a = Some x" "region_wf ops x" "region_size x = a"
      "used x = 0" "free_points ops x = {0..<unat a}" "\<not> is_locked x"
    using Reset_spec [OF ops, of r0 0 a] unlocked fit by auto
  obtain y where y: "Region_Reset ops r1 a b = Some y" "region_wf ops y" "region_size y = b"
      "used y = 0" "free_points ops y = {unat a..<unat a + unat b}" "\<not> is_locked y"
    using Reset_spec [OF ops, of r1 a b] unlocked fit by auto
  obtain z where z: "Region_Reset ops r2 (a + b) c = Some z" "region_wf ops z" "region_size z = c"
      "used z = 0" "free_points ops z = {unat a + unat b..<unat a + unat b + unat c}"
      "\<not> is_locked z"
    using Reset_spec [OF ops, of r2 "a + b" c] unlocked fit u by auto
  from x y z show ?thesis by (simp add: add.assoc)
qed

text \<open>The memory modes the enum names; 1 is the unused row of the table.\<close>

definition known_mode :: "u8 \<Rightarrow> bool" where
  "known_mode m \<longleftrightarrow> m \<in> {0, 2, 3, 4, 5}"

lemma init_row:
  assumes ops: "icl_ok ops" and unlocked: "\<forall>r \<in> {r0, r1, r2}. \<not> is_locked r"
    and idx: "mem_type_indices n3ds m mode3 = (i, j)" "unat i < 8" "unat j < 8"
    and row: "memory_region_sizes ! unat i = [a, b, c]"
    and total: "unat a + unat b + unat c = (if n3ds then 0x10000000 else 0x08000000)"
  shows "\<exists>x y z cm'. MemoryInit ops n3ds [r0, r1, r2] m mode3 cm = Some ([x, y, z], cm') \<and>
    (\<forall>r \<in> {x, y, z}. region_wf ops r \<and> used r = 0) \<and>
    free_points ops x \<union> free_points ops y \<union> free_points ops z =
      {0..<(if n3ds then 0x10000000 else 0x08000000)} \<and>
    free_points ops x \<inter> free_points ops y = {} \<and> free_points ops y \<inter> free_points ops z = {} \<and>
    free_points ops x \<inter> free_points ops z = {} \<and>
    sys_mem_alloc cm' = region_size y \<and> base_mem_alloc cm' = region_size z \<and>
    app_mem_alloc cm' = memory_region_sizes ! unat j ! 0 \<and>
    region_size x = memory_region_sizes ! unat i ! 0"
proof -
  have fit: "unat a + unat b + unat c < 2 ^ 32" using total by (simp split: if_splits)
  have "unat (a + b + c) = unat a + unat b + unat c"
    using fit by (simp add: unat_plus_fits)
  then have sum: "a + b + c = (if n3ds then FCRAM_N3DS_SIZE else FCRAM_SIZE)"
    using total by (simp add: word_unat_eq_iff split: if_splits)
  obtain x y z where r: "reset_regions ops [r0, r1, r2] [a, b, c] 0 = Some ([x, y, z], a + b + c)"
      "\<forall>r \<in> {x, y, z}. region_wf ops r \<and> used r = 0"
      "free_points ops x = {0..<unat a}" "free_points ops y = {unat a..<unat a + unat b}"
      "free_points ops z = {unat a + unat b..<unat a + unat b + unat c}"
      "region_size x = a" "region_size y = b" "region_size z = c"
    using reset_three [OF ops unlocked fit] by blast
  have "free_points ops x \<union> free_points ops y \<union> free_points ops z =
      {0..<unat a + unat b + unat c}"
    using r(3-5) by auto
  moreover have "MemoryInit ops n3ds [r0, r1, r2] m mode3 cm = Some ([x, y, z], cm
      \<lparr>app_mem_type := j, app_mem_alloc := memory_region_sizes ! unat j ! 0,
       sys_mem_alloc := b, base_mem_alloc := c\<rparr>)"
    using idx row r(1,7,8) sum by (simp add: MemoryInit_def del: reset_regions.simps)
  ultimately show ?thesis
    using r(2-8) row total by auto
qed

text \<open>for every console model and every memory mode of the two enums, \<open>MemoryInit\<close> passes its
  assertion: the three regions are all free, follow each other without gap or overlap from 0 and
  cover FCRAM exactly, and the configuration memory reports the sizes of the regions (of the
  application region except when a New 3DS runs in legacy mode).\<close>

theorem memory_init_tiles_fcram:
  assumes ops: "icl_ok ops" and unlocked: "\<forall>r \<in> {r0, r1, r2}. \<not> is_locked r"
    and mode: "known_mode m"
  shows "\<exists>x y z cm'. MemoryInit ops n3ds [r0, r1, r2] m mode3 cm = Some ([x, y, z], cm') \<and>
    (\<forall>r \<in> {x, y, z}. region_wf ops r \<and> used r = 0) \<and>
    free_points ops x \<union> free_points ops y \<union> free_points ops z =
      {0..<(if n3ds then 0x10000000 else 0x08000000)} \<and>
    free_points ops x \<inter> free_points ops y = {} \<and> free_points ops y \<inter> free_points ops z = {} \<and>
    free_points ops x \<inter> free_points ops z = {} \<and>
    sys_mem_alloc cm' = region_size y \<and> base_mem_alloc cm' = region_size z \<and>
    (app_mem_alloc cm' = region_size x \<or> (n3ds \<and> mode3 = Legacy))"
proof -
  obtain i j where idx: "mem_type_indices n3ds m mode3 = (i, j)" by fastforce
  then have ij: "if n3ds then (i = 7 \<and> j = 7) \<or> (i = 6 \<and> (j = 6 \<or> mode3 = Legacy \<and> j \<in> {0, 2, 3, 4, 5}))
      else i = j \<and> i \<in> {0, 2, 3, 4, 5}"
    using mode by (cases mode3) (auto simp: mem_type_indices_def known_mode_def split: if_splits)
  then have "unat i < 8" "unat j < 8" by (auto split: if_splits)
  moreover obtain a b c where "memory_region_sizes ! unat i = [a, b, c]"
      "unat a + unat b + unat c = (if n3ds then 0x10000000 else 0x08000000)"
    using ij by (auto simp: memory_region_sizes_def split: if_splits)
  ultimately obtain x y z cm' where
      "MemoryInit ops n3ds [r0, r1, r2] m mode3 cm = Some ([x, y, z], cm')"
      "\<forall>r \<in> {x, y, z}. region_wf ops r \<and> used r = 0"
      "free_points ops x \<union> free_points ops y \<union> free_points ops z =
        {0..<(if n3ds then 0x10000000 else 0x08000000)}"
      "free_points ops x \<inter> free_points ops y = {}" "free_points ops y \<inter> free_points ops z = {}"
      "free_points ops x \<inter> free_points ops z = {}"
      "sys_mem_alloc cm' = region_size y" "base_mem_alloc cm' = region_size z"
      "app_mem_alloc cm' = memory_region_sizes ! unat j ! 0"
      "region_size x = memory_region_sizes ! unat i ! 0"
    using init_row [OF ops unlocked idx] by blast
  moreover have "i = j \<or> n3ds \<and> mode3 = Legacy" using ij by (auto split: if_splits)
  ultimately show ?thesis by metis
qed

section \<open>The properties on sorted lists of segments\<close>

definition example_region :: "interval list memory_region" where
  "example_region = \<lparr>base = 0, region_size = 0x4000, used = 0x1000,
     free_blocks = [Interval 0 0x1000, Interval 0x2000 0x4000], is_locked = False\<rparr>"

lemma example_region_wf: "region_wf list_icl example_region"
proof -
  have "free_points list_icl example_region = {0..<0x1000} \<union> {0x2000..<0x4000}"
    by (simp add: free_points_def icl_points_alt example_region_def)
  then show ?thesis
    by (auto simp: region_wf_def icl_wf_def example_region_def segments_ok_def region_points_def
        card_Un_disjoint)
qed

lemma example_region_unlocked: "\<not> is_locked example_region"
  by (simp add: example_region_def)

lemma heap_allocate_spec_witness:
  "\<exists>result r'. Region_HeapAllocate list_icl example_region 0x2800 = Some (result, r') \<and>
    card (icl_points list_icl result) = 0x2800 \<and> used r' = 0x3800"
proof -
  have "card (free_points list_icl example_region) = 0x3000"
    by (simp add: free_points_def icl_points_alt example_region_def card_Un_disjoint)
  then show ?thesis
    using heap_allocate_spec [OF list_icl_ok example_region_wf example_region_unlocked, of "0x2800"]
    by (auto simp: example_region_def)
qed

lemma linear_allocate_lowest_witness:
  "\<exists>r'. Region_LinearAllocate list_icl example_region 0x1800 = Some (Some 0x2000, r') \<and>
    region_wf list_icl r'"
  using linear_allocate_lowest [OF list_icl_ok example_region_wf example_region_unlocked, of "0x1800"]
  by (auto simp: Region_LinearAllocate_def example_region_def)

lemma rlinear_allocate_highest_witness:
  "\<exists>r'. Region_RLinearAllocate list_icl example_region 0x800 = Some (Some 0x3800, r') \<and>
    region_wf list_icl r'"
  using rlinear_allocate_highest [OF list_icl_ok example_region_wf example_region_unlocked, of "0x800"]
  by (auto simp: Region_RLinearAllocate_def example_region_def)

lemma free_undoes_linear_allocate_witness:
  "\<exists>r1 r2. Region_LinearAllocate list_icl example_region 0x1800 = Some (Some 0x2000, r1) \<and>
    Region_Free list_icl r1 0x2000 0x1800 = Some r2 \<and> used r2 = 0x1000"
proof -
  obtain r1 where "Region_LinearAllocate list_icl example_region 0x1800 = Some (Some 0x2000, r1)"
    by (simp add: Region_LinearAllocate_def example_region_def)
  moreover from free_undoes_linear_allocate [OF list_icl_ok example_region_wf _ this]
  obtain r2 where "Region_Free list_icl r1 0x2000 0x1800 = Some r2" "used r2 = 0x1000"
    by (auto simp: example_region_def)
  ultimately show ?thesis by blast
qed

lemma memory_init_tiles_fcram_witness:
  "\<exists>x y z cm'. MemoryInit list_icl True [example_region, example_region, example_region] 0 NewDev1
      \<lparr>app_mem_type = 0, app_mem_alloc = 0, sys_mem_alloc = 0, base_mem_alloc = 0\<rparr> =
      Some ([x, y, z], cm') \<and> app_mem_alloc cm' = region_size x"
proof -
  have "\<forall>r \<in> {example_region, example_region, example_region}. \<not> is_locked r"
    by (simp add: example_region_unlocked)
  moreover have "known_mode 0" by (simp add: known_mode_def)
  ultimately show ?thesis
    using memory_init_tiles_fcram [OF list_icl_ok] by (metis New3dsMemoryMode.distinct(3))
qed

end
