(* ===== verification/AddressSpace.thy ===== *)
theory AddressSpace
  imports VMManager MemoryRegions
begin

text \<open>
  What a process sees of its address space: mapping, changing the state of a range, resetting
  and walking the backing memory (the rest of \<open>core/hle/kernel/vm_manager.cpp\<close>'s properties), and
  the two functions of \<open>core/hle/kernel/memory.cpp\<close> that fill a new address space.
\<close>

section \<open>Mapping\<close>

definition free_room :: "vm_manager \<Rightarrow> u32 \<Rightarrow> u32 \<Rightarrow> bool" where
  "free_room vm t sz \<longleftrightarrow> (\<exists>v \<in> set (vma_map vm). vma_type v = VMA_Free \<and>
     unat (vma_base v) \<le> unat t \<and> unat t + unat sz \<le> vma_end v)"

lemma MapBackingMemory_ok:
  assumes wf: "vm_wf mk H vm" and unlocked: "\<not> vm_locked vm"
    and al: "page_aligned t" "page_aligned sz"
    and fit: "0 < unat sz" "unat t + unat sz < 2 ^ 32"
    and ref: "ref_covers memory (unat sz)" "the (backing_mem memory) \<in> H"
    and room: "free_room vm t sz"
  shows "\<exists>i vm' v. MapBackingMemory mk vm t memory sz state = Some (Inr (i, vm')) \<and>
    vm_wf mk H vm' \<and> \<not> vm_locked vm' \<and> vma_at vm' i = Some v \<and>
    kind v = (VMA_BackingMemory, Perm_ReadWrite, state) \<and>
    unat (vma_base v) \<le> unat t \<and> unat t + unat sz \<le> vma_end v \<and>
    view (vma_map vm') = (\<lambda>a. if unat t \<le> a \<and> a < unat t + unat sz
      then Some (VMA_BackingMemory, Perm_ReadWrite, state, GetPtr memory + of_nat (a - unat t))
      else view (vma_map vm) a)"
proof -
  have ok: "areas_ok H (vma_map vm)" using wf by (simp add: vm_wf_def)
  obtain w where "w \<in> set (vma_map vm)" "unat t + unat sz \<le> vma_end w"
    using room by (auto simp: free_room_def)
  then have low: "\<not> 0x40000000 \<le> unat t"
    using ok tiles_bounds [of 0 "vma_map vm" "0x40000000" w] fit(1) by (auto simp: areas_ok_def)
  obtain ps v ns where c: "CarveVMA vm t sz = Some (Inr (length ps, vm\<lparr>vma_map := ps @ v # ns\<rparr>))"
      "vma_base v = t" "vma_size v = sz" "areas_ok H (ps @ v # ns)"
      "view (ps @ v # ns) = view (vma_map vm)"
    using CarveVMA_spec [OF ok al fit] low room unfolding free_room_def by auto
  let ?vm1 = "vm\<lparr>vma_map := ps @ v # ns\<rparr>"
  let ?v' = "v\<lparr>vma_type := VMA_BackingMemory, permissions := Perm_ReadWrite,
    meminfo_state := state, backing_memory := memory\<rparr>"
  have wf1: "vm_wf mk H ?vm1" using wf c(4,5) by (simp add: vm_wf_def pages_agree_def)
  have map1: "vma_map ?vm1 = ps @ v # ns" by simp
  have ok': "vma_ok H ?v'" using al ref c(2,3) by (simp add: vma_ok_def)
  have same: "vma_base ?v' = vma_base v" "vma_size ?v' = vma_size v" by simp_all
  obtain ps' u ns' pt where m: "Option.bind (UpdatePageTableForVMA mk (set_vma ?vm1 (length ps) ?v') ?v')
        (\<lambda>vm. MergeAdjacent vm (length ps)) =
      Some (length ps', ?vm1\<lparr>vma_map := ps' @ u # ns', vm_page_table := pt\<rparr>)"
    "vm_wf mk H (?vm1\<lparr>vma_map := ps' @ u # ns', vm_page_table := pt\<rparr>)"
    "view (ps' @ u # ns') =
      (\<lambda>a. if in_area a v then Some (info ?v' a) else view (vma_map ?vm1) a)" "kind u = kind ?v'"
    "unat (vma_base u) \<le> unat (vma_base v)"
    "vma_end u = vma_end v \<or> (\<exists>w. ns = w # ns' \<and> vma_end u = vma_end w)"
    using modify_spec [OF wf1 map1 ok' same] by blast
  have "vma_end v \<le> vma_end w" if "ns = w # ns'" for w
    using areas_okD(3) [OF c(4)] that by simp
  then have "vma_end v \<le> vma_end u" using m(6) by auto
  then have inside: "unat (vma_base u) \<le> unat t" "unat t + unat sz \<le> vma_end u" using m(5) c(2,3) by simp_all
  from m(1) obtain vm2 where "UpdatePageTableForVMA mk (set_vma ?vm1 (length ps) ?v') ?v' = Some vm2"
      "MergeAdjacent vm2 (length ps) =
        Some (length ps', ?vm1\<lparr>vma_map := ps' @ u # ns', vm_page_table := pt\<rparr>)"
    by (auto simp: bind_eq_Some_conv)
  then have "MapBackingMemory mk vm t memory sz state =
      Some (Inr (length ps', ?vm1\<lparr>vma_map := ps' @ u # ns', vm_page_table := pt\<rparr>))"
    using unlocked ref_covers_ptr(1) [OF ref(1)] c(1,3)
    by (simp add: MapBackingMemory_def Let_def)
  then show ?thesis
    using m(2,3,4) inside c(2,3,5) unlocked
    by (intro exI [of _ "length ps'"] exI [of _ "?vm1\<lparr>vma_map := ps' @ u # ns', vm_page_table := pt\<rparr>"]
        exI [of _ u]) (simp add: fun_eq_iff in_area_def info_def kind_def)
qed

text \<open>C11: mapping a backing buffer at an aligned address. It succeeds exactly when the whole range
  lies in one free area, and then the addresses of the range map to the buffer's consecutive
  bytes, read-write and in the given state, every other address keeps its mapping, the areas
  still tile the address space and the page table still agrees with them. A refusal tells an
  address outside the managed space from one that has no room.\<close>

theorem map_backing_memory_spec:
  assumes wf: "vm_wf mk H vm" and unlocked: "\<not> vm_locked vm"
    and al: "page_aligned t" "page_aligned sz"
    and fit: "0 < unat sz" "unat t + unat sz < 2 ^ 32"
    and ref: "ref_covers memory (unat sz)" "the (backing_mem memory) \<in> H"
  shows "\<exists>res. MapBackingMemory mk vm t memory sz state = Some res \<and>
    (case res of
       Inl e \<Rightarrow> \<not> free_room vm t sz \<and>
         e = (if unat t < 0x40000000 then ResultInvalidAddressState else ResultInvalidAddress)
     | Inr (i, vm') \<Rightarrow> free_room vm t sz \<and> vm_wf mk H vm' \<and>
         view (vma_map vm') = (\<lambda>a. if unat t \<le> a \<and> a < unat t + unat sz
           then Some (VMA_BackingMemory, Perm_ReadWrite, state, GetPtr memory + of_nat (a - unat t))
           else view (vma_map vm) a))"
proof (cases "free_room vm t sz")
  case True
  from MapBackingMemory_ok [OF assms True, of state] True show ?thesis by fastforce
next
  case False
  have ok: "areas_ok H (vma_map vm)" using wf by (simp add: vm_wf_def)
  have "CarveVMA vm t sz = Some (Inl
      (if unat t < 0x40000000 then ResultInvalidAddressState else ResultInvalidAddress))"
    using CarveVMA_spec [OF ok al fit] False unfolding free_room_def
    by (cases "0x40000000 \<le> unat t") auto
  then have "MapBackingMemory mk vm t memory sz state = Some (Inl
      (if unat t < 0x40000000 then ResultInvalidAddressState else ResultInvalidAddress))"
    using unlocked ref_covers_ptr(1) [OF ref(1)] by (simp add: MapBackingMemory_def)
  then show ?thesis using False by (auto split: if_splits)
qed

section \<open>Changing the state of a range\<close>

lemma ChangeMemoryState_spec:
  assumes wf: "vm_wf mk H vm" and unlocked: "\<not> vm_locked vm"
    and al: "page_aligned t" "page_aligned sz"
    and fit: "0 < unat sz" "unat t + unat sz \<le> 0x40000000"
  shows "\<exists>res. ChangeMemoryState mk vm t sz es ep ns np = Some res \<and>
    (case res of
       Inl e \<Rightarrow> e = ResultInvalidAddressState \<and>
         (\<exists>a ty p s q. unat t \<le> a \<and> a < unat t + unat sz \<and> view (vma_map vm) a = Some (ty, p, s, q) \<and>
           (ty = VMA_Free \<or> s \<noteq> es \<or> p AND ep \<noteq> ep))
     | Inr vm' \<Rightarrow> vm_wf mk H vm' \<and> \<not> vm_locked vm' \<and>
         (\<forall>a. unat t \<le> a \<and> a < unat t + unat sz \<longrightarrow>
           (\<exists>p q. view (vma_map vm) a = Some (VMA_BackingMemory, p, es, q) \<and> p AND ep = ep)) \<and>
         view (vma_map vm') = (\<lambda>a. if unat t \<le> a \<and> a < unat t + unat sz
           then map_option (\<lambda>(ty, p, s, q). (ty, np, ns, q)) (view (vma_map vm) a)
           else view (vma_map vm) a))"
proof -
  have ok: "areas_ok H (vma_map vm)" using wf by (simp add: vm_wf_def)
  have te: "unat (t + sz) = unat t + unat sz" using fit(2) by (intro unat_plus_fits) simp
  obtain ps v nx where v: "vma_map vm = ps @ v # nx" "FindVMA vm t = Some (length ps)"
      "unat (vma_base v) \<le> unat t" "unat t < vma_end v"
    using FindVMA_spec [OF ok, of t] fit by auto
  have okv: "areas_ok H (ps @ v # nx)" using ok v(1) by simp
  have tiles: "tiles 0 (vma_map vm) 0x40000000" using ok by (simp add: areas_ok_def)
  note R = range_areas [OF okv v(3,4), of "t + sz"]
  let ?A = "set (take (lower_bound (vma_map vm) (t + sz) - length ps) (drop (length ps) (vma_map vm)))"
  have A: "length ps \<le> lower_bound (vma_map vm) (t + sz)"
      "?A = {w \<in> set (vma_map vm). \<exists>a. unat t \<le> a \<and> a < unat t + unat sz \<and> in_area a w}"
    using R te fit(1) v(1) by simp_all
  have in_A: "(\<exists>w \<in> ?A. P (kind w)) \<longleftrightarrow>
      (\<exists>a ty p s q. unat t \<le> a \<and> a < unat t + unat sz \<and> view (vma_map vm) a = Some (ty, p, s, q) \<and>
        P (ty, p, s))" for P
  proof (intro iffI; elim bexE exE conjE)
    fix w assume w: "w \<in> ?A" "P (kind w)"
    then obtain a where a: "w \<in> set (vma_map vm)" "unat t \<le> a" "a < unat t + unat sz" "in_area a w"
      unfolding A(2) by blast
    then have "view (vma_map vm) a = Some (info w a)" using view_Some_iff [OF tiles] by blast
    with w(2) a(2,3) show "\<exists>a ty p s q. unat t \<le> a \<and> a < unat t + unat sz \<and>
        view (vma_map vm) a = Some (ty, p, s, q) \<and> P (ty, p, s)"
      unfolding info_def kind_def by blast
  next
    fix a ty p s q
    assume a: "unat t \<le> a" "a < unat t + unat sz" "view (vma_map vm) a = Some (ty, p, s, q)"
      "P (ty, p, s)"
    then obtain w where "w \<in> set (vma_map vm)" "in_area a w" "info w a = (ty, p, s, q)"
      using view_Some_iff [OF tiles] by blast
    then show "\<exists>w \<in> ?A. P (kind w)"
      unfolding A(2) using a by (auto simp: info_def kind_def)
  qed
  let ?bad = "\<lambda>(ty :: VMAType, p, s). s \<noteq> es \<or> p AND ep \<noteq> ep"
  have bad: "(\<exists>w \<in> ?A. meminfo_state w \<noteq> es \<or> permissions w AND ep \<noteq> ep) \<longleftrightarrow> (\<exists>w \<in> ?A. ?bad (kind w))"
    by (simp add: kind_def)
  have len: "length ps \<noteq> length (vma_map vm)" using v(1) by simp
  show ?thesis
  proof (cases "\<exists>w \<in> ?A. ?bad (kind w)")
    case True
    then have "ChangeMemoryState mk vm t sz es ep ns np = Some (Inl ResultInvalidAddressState)"
      using unlocked v(2) len A(1) bad by (simp add: ChangeMemoryState_def Let_def not_less)
    with True in_A [of ?bad] show ?thesis by auto
  next
    case good: False
    have CMS: "ChangeMemoryState mk vm t sz es ep ns np =
        Option.bind (CarveVMARange vm t sz) (\<lambda>carved. case carved of
            Inl e \<Rightarrow> Some (Inl e)
          | Inr (i, vm) \<Rightarrow> Option.bind (range_loop (change_state mk ns np) (t + sz) i vm)
              (\<lambda>vm. Some (Inr vm)))"
      using unlocked v(2) len A(1) good bad by (simp add: ChangeMemoryState_def Let_def)
    show ?thesis
    proof (cases "has_free vm t sz")
      case True
      then have "ChangeMemoryState mk vm t sz es ep ns np = Some (Inl ResultInvalidAddressState)"
        using carve_unmapped [OF wf al fit] by (simp add: CMS has_free_def)
      with True show ?thesis by (auto simp: has_free_def)
    next
      case False
      obtain i vm1 vm' where c: "CarveVMARange vm t sz = Some (Inr (i, vm1))"
          "range_loop (change_state mk ns np) (t + sz) i vm1 = Some vm'" "vm_wf mk H vm'" "\<not> vm_locked vm'"
          "view (vma_map vm') = (\<lambda>a. if unat t \<le> a \<and> a < unat t + unat sz
            then map_option (\<lambda>(ty, p, s, q). (ty, np, ns, q)) (view (vma_map vm) a)
            else view (vma_map vm) a)"
        using carve_and_loop [OF wf unlocked al fit step_change_state] False
        unfolding has_free_def by meson
      have "\<exists>p q. view (vma_map vm) a = Some (VMA_BackingMemory, p, es, q) \<and> p AND ep = ep"
        if a: "unat t \<le> a" "a < unat t + unat sz" for a
      proof -
        obtain ty p s q where i: "view (vma_map vm) a = Some (ty, p, s, q)"
          using view_total [OF ok, of a] a fit(2) by auto
        then have "s = es" "p AND ep = ep" using good in_A [of ?bad] a by auto
        moreover have "ty \<noteq> VMA_Free" using False i a by (auto simp: has_free_def)
        ultimately show ?thesis using i by (cases ty) auto
      qed
      then show ?thesis using c by (simp add: CMS)
    qed
  qed
qed

text \<open>\<open>ChangeMemoryState\<close> of an aligned range inside the address space: refused exactly when an
  address of the range is free, is in another state than expected or lacks an expected
  permission; otherwise the addresses of the range get the new state and permissions, keep their
  backing bytes, and nothing else changes.\<close>

theorem change_memory_state_spec:
  assumes wf: "vm_wf mk H vm" and unlocked: "\<not> vm_locked vm"
    and al: "page_aligned t" "page_aligned sz"
    and fit: "0 < unat sz" "unat t + unat sz \<le> 0x40000000"
  shows "\<exists>res. ChangeMemoryState mk vm t sz es ep ns np = Some res \<and>
    (case res of
       Inl e \<Rightarrow> e = ResultInvalidAddressState \<and>
         (\<exists>a ty p s q. unat t \<le> a \<and> a < unat t + unat sz \<and> view (vma_map vm) a = Some (ty, p, s, q) \<and>
           (ty = VMA_Free \<or> s \<noteq> es \<or> p AND ep \<noteq> ep))
     | Inr vm' \<Rightarrow> vm_wf mk H vm' \<and>
         (\<forall>a. unat t \<le> a \<and> a < unat t + unat sz \<longrightarrow>
           (\<exists>p q. view (vma_map vm) a = Some (VMA_BackingMemory, p, es, q) \<and> p AND ep = ep)) \<and>
         view (vma_map vm') = (\<lambda>a. if unat t \<le> a \<and> a < unat t + unat sz
           then map_option (\<lambda>(ty, p, s, q). (ty, np, ns, q)) (view (vma_map vm) a)
           else view (vma_map vm) a))"
proof (rule exE [OF ChangeMemoryState_spec [OF assms, of es ep ns np]], goal_cases)
  case (1 res)
  then show ?case by (intro exI [of _ res]) (cases res; simp)
qed

section \<open>A fresh address space\<close>

lemma initial_areas: "separated H \<Longrightarrow> areas_ok H [initial_vma]"
  by (simp add: areas_ok_def vma_ok_def initial_vma_def page_aligned_def)

lemma Reset_spec_vm:
  assumes "\<not> vm_locked vm" and H: "separated H"
  shows "\<exists>vm'. VM_Reset mk vm = Some vm' \<and> vm_wf mk H vm' \<and> \<not> vm_locked vm' \<and>
    vma_map vm' = [initial_vma]"
proof -
  let ?vm = "vm\<lparr>vma_map := [initial_vma], vm_page_table := PageTable_Clear (vm_page_table vm)\<rparr>"
  have "vma_ok H initial_vma" "vma_end initial_vma \<le> 0x40000000"
    using initial_areas [OF H] by (simp_all add: areas_ok_def initial_vma_def)
  from UpdatePageTable_spec [OF this, of mk ?vm] obtain pt where
    pt: "UpdatePageTableForVMA mk ?vm initial_vma = Some (?vm\<lparr>vm_page_table := pt\<rparr>)"
      "\<And>page. entry_of pt page =
        (if in_area (unat page * 0x1000) initial_vma
         then expected_entry mk page (Some (info initial_vma (unat page * 0x1000)))
         else entry_of (vm_page_table ?vm) page)" by blast
  have "pages_agree mk [initial_vma] pt"
    by (auto simp: pages_agree_def pt(2) view_Cons in_area_def initial_vma_def)
  then show ?thesis
    using assms pt(1) initial_areas [OF H] by (auto simp: VM_Reset_def vm_wf_def)
qed

section \<open>The backing memory of a range\<close>

text \<open>The host address of each byte of a list of blocks.\<close>

definition block_bytes :: "(memory_ref \<times> u32) list \<Rightarrow> u64 list" where
  "block_bytes bs = concat (map (\<lambda>(r, n). map (\<lambda>k. GetPtr r + of_nat k) [0..<unat n]) bs)"

definition byte_at :: "vm_manager \<Rightarrow> nat \<Rightarrow> u64" where
  "byte_at vm a = (case view (vma_map vm) a of Some (ty, p, s, q) \<Rightarrow> q | None \<Rightarrow> 0)"

lemma backing_blocks_spec:
  assumes ok: "areas_ok H (vma_map vm)" and te: "unat te \<le> 0x40000000" and "unat t \<le> unat te"
  shows "\<exists>res. backing_blocks vm te t acc = Some res \<and>
    (case res of
       Inl e \<Rightarrow> e = ResultInvalidAddressState \<and>
         (\<exists>a p s q. unat t \<le> a \<and> a < unat te \<and> view (vma_map vm) a = Some (VMA_Free, p, s, q))
     | Inr bs \<Rightarrow>
         (\<forall>a. unat t \<le> a \<and> a < unat te \<longrightarrow>
           (\<exists>p s q. view (vma_map vm) a = Some (VMA_BackingMemory, p, s, q))) \<and>
         block_bytes bs = block_bytes acc @ map (byte_at vm) [unat t..<unat te])"
  using assms(3)
proof (induction "unat te - unat t" arbitrary: t acc rule: less_induct)
  case less
  show ?case
  proof (cases "t = te")
    case True
    then show ?thesis by (subst backing_blocks.simps) auto
  next
    case False
    then have lt: "unat t < unat te" using less.prems by (metis le_neq_implies_less word_unat_eq_iff)
    have tiles: "tiles 0 (vma_map vm) 0x40000000" using ok by (simp add: areas_ok_def)
    obtain ps v ns where v: "vma_map vm = ps @ v # ns" "FindVMA vm t = Some (length ps)"
        "unat (vma_base v) \<le> unat t" "unat t < vma_end v"
      using FindVMA_spec [OF ok, of t] lt te by auto
    have at: "vma_at vm (length ps) = Some v" using v(1) by simp
    note D = areas_okD [OF ok [unfolded v(1)]]
    have vw: "view (vma_map vm) a = Some (info v a)" if "in_area a v" for a
      using view_Some_iff [OF tiles] that v(1) by auto
    have inv: "in_area (unat t) v" using v by (simp add: in_area_def)
    have unf: "backing_blocks vm te t acc =
        (if vma_type v \<noteq> VMA_BackingMemory then Some (Inl ResultInvalidAddressState)
         else
          (let interval_end = min te (vma_base v + vma_size v);
               interval_size = interval_end - t
           in Option.bind (ref_plus (backing_memory v) (t - vma_base v)) (\<lambda>r.
             backing_blocks vm te (t + interval_size) (acc @ [(r, interval_size)]))))"
      using False v(2) at by (subst backing_blocks.simps) simp
    show ?thesis
    proof (cases "vma_type v")
      case VMA_Free
      then have "view (vma_map vm) (unat t) = Some (VMA_Free, permissions v, meminfo_state v, 0)"
        using vw [OF inv] by (simp add: info_def)
      then show ?thesis using VMA_Free lt by (auto simp: unf intro!: exI [of _ "unat t"])
    next
      case VMA_BackingMemory
      have e: "unat (vma_base v + vma_size v) = vma_end v" using D(4) by (intro plus_u32) simp
      define n where "n = min te (vma_base v + vma_size v) - t"
      have stop: "unat (min te (vma_base v + vma_size v)) = min (unat te) (vma_end v)"
        using e by (auto simp: min_def word_le_nat_alt)
      then have n: "unat n = min (unat te) (vma_end v) - unat t"
        using lt v(4) unfolding n_def by (subst unat_sub) (auto simp: word_le_nat_alt)
      have next_t: "unat (t + n) = min (unat te) (vma_end v)"
        using n lt v(4) te by (subst plus_u32) auto
      have d: "unat (t - vma_base v) = unat t - unat (vma_base v)"
        using v(3) by (simp add: unat_sub word_le_nat_alt)
      have "ref_covers (backing_memory v) (unat (vma_size v))" "unat (t - vma_base v) < unat (vma_size v)"
        using D(5) VMA_BackingMemory d v(3,4) by (auto simp: vma_ok_def)
      then obtain r where r: "ref_plus (backing_memory v) (t - vma_base v) = Some r"
          "GetPtr r = GetPtr (backing_memory v) + ucast (t - vma_base v)"
        using ref_step by blast
      have bytes: "map (\<lambda>k. GetPtr r + of_nat k) [0..<unat n] = map (byte_at vm) [unat t..<unat (t + n)]"
      proof (rule nth_equalityI)
        fix k assume "k < length (map (\<lambda>k. GetPtr r + of_nat k) [0..<unat n])"
        then have k: "k < unat n" "in_area (unat t + k) v"
          using n v(3) by (auto simp: in_area_def)
        have "unat t + k - unat (vma_base v) = unat (t - vma_base v) + k" using d v(3) by simp
        then have "(of_nat (unat t + k - unat (vma_base v)) :: u64) = ucast (t - vma_base v) + of_nat k"
          by (simp only: of_nat_add of_nat_unat_u32)
        then have "byte_at vm (unat t + k) = GetPtr r + of_nat k"
          using vw [OF k(2)] VMA_BackingMemory r(2) by (simp add: byte_at_def info_def add.assoc)
        then show "map (\<lambda>k. GetPtr r + of_nat k) [0..<unat n] ! k =
            map (byte_at vm) [unat t..<unat (t + n)] ! k"
          using k n next_t by (simp add: less_diff_conv add.commute)
      qed (use n next_t lt v(4) in simp)
      have "unat te - unat (t + n) < unat te - unat t" "unat (t + n) \<le> unat te"
        using next_t lt v(4) by auto
      from less.hyps [OF this, of "acc @ [(r, n)]"] obtain res where
        res: "backing_blocks vm te (t + n) (acc @ [(r, n)]) = Some res"
          "case res of
             Inl e \<Rightarrow> e = ResultInvalidAddressState \<and> (\<exists>a p s q. unat (t + n) \<le> a \<and> a < unat te \<and>
               view (vma_map vm) a = Some (VMA_Free, p, s, q))
           | Inr bs \<Rightarrow> (\<forall>a. unat (t + n) \<le> a \<and> a < unat te \<longrightarrow>
               (\<exists>p s q. view (vma_map vm) a = Some (VMA_BackingMemory, p, s, q))) \<and>
               block_bytes bs = block_bytes (acc @ [(r, n)]) @ map (byte_at vm) [unat (t + n)..<unat te]"
        by blast
      have here: "\<exists>p s q. view (vma_map vm) a = Some (VMA_BackingMemory, p, s, q)"
        if "unat t \<le> a" "a < unat (t + n)" for a
        using vw [of a] that next_t v(3) VMA_BackingMemory by (auto simp: in_area_def info_def)
      have B: "backing_blocks vm te t acc = Some res"
        using VMA_BackingMemory r(1) res(1) by (simp add: unf Let_def n_def)
      have le: "unat t \<le> unat (t + n)" "unat (t + n) \<le> unat te" using next_t lt v(4) by auto
      have app: "block_bytes (acc @ [(r, n)]) @ map (byte_at vm) [unat (t + n)..<unat te] =
          block_bytes acc @ map (byte_at vm) [unat t..<unat te]"
        using bytes upt_add_eq_append [of "unat t" "unat (t + n)" "unat te - unat (t + n)"] le
        by (simp add: block_bytes_def)
      show ?thesis
      proof (cases res)
        case (Inl e)
        then show ?thesis using res(2) B le(1) by (auto intro: order_trans)
      next
        case (Inr bs)
        have "\<exists>p s q. view (vma_map vm) a = Some (VMA_BackingMemory, p, s, q)"
          if "unat t \<le> a" "a < unat te" for a
          using here [OF that(1)] res(2) Inr that by (cases "a < unat (t + n)") auto
        then show ?thesis using res(2) B Inr app by simp
      qed
    qed
  qed
qed

text \<open>\<open>GetBackingBlocksForRange\<close> terminates on every range inside the address space. It fails
  exactly when an address of the range is free; otherwise the blocks it returns, laid end to end,
  are the host bytes that the addresses of the range map to, in order.\<close>

theorem backing_blocks_cover_range:
  assumes wf: "vm_wf mk H vm" and fit: "unat t + unat sz \<le> 0x40000000"
  shows "\<exists>res. GetBackingBlocksForRange vm t sz = Some res \<and>
    (case res of
       Inl e \<Rightarrow> e = ResultInvalidAddressState \<and> has_free vm t sz
     | Inr bs \<Rightarrow> \<not> has_free vm t sz \<and>
         block_bytes bs = map (byte_at vm) [unat t..<unat t + unat sz])"
proof -
  have te: "unat (t + sz) = unat t + unat sz" using fit by (intro unat_plus_fits) simp
  have ok: "areas_ok H (vma_map vm)" using wf by (simp add: vm_wf_def)
  have le: "unat (t + sz) \<le> 0x40000000" "unat t \<le> unat (t + sz)" using te fit by simp_all
  obtain res where res: "backing_blocks vm (t + sz) t [] = Some res"
      "case res of
         Inl e \<Rightarrow> e = ResultInvalidAddressState \<and>
           (\<exists>a p s q. unat t \<le> a \<and> a < unat (t + sz) \<and> view (vma_map vm) a = Some (VMA_Free, p, s, q))
       | Inr bs \<Rightarrow> (\<forall>a. unat t \<le> a \<and> a < unat (t + sz) \<longrightarrow>
           (\<exists>p s q. view (vma_map vm) a = Some (VMA_BackingMemory, p, s, q))) \<and>
           block_bytes bs = block_bytes [] @ map (byte_at vm) [unat t..<unat (t + sz)]"
    using backing_blocks_spec [OF ok le, of "[]"] by blast
  show ?thesis
  proof (cases res)
    case (Inr bs)
    then have "block_bytes bs = map (byte_at vm) [unat t..<unat t + unat sz]"
      using res(2) te by (simp add: block_bytes_def)
    moreover have "\<not> has_free vm t sz" using res(2) Inr te by (fastforce simp: has_free_def)
    ultimately show ?thesis using res(1) Inr by (simp add: GetBackingBlocksForRange_def)
  qed (use res te in \<open>simp add: GetBackingBlocksForRange_def has_free_def\<close>)
qed

section \<open>Filling a new address space\<close>

text \<open>The host buffers of the physical memory areas.\<close>

record phys_buffers =
  vram_mem :: host_buffer
  dsp_mem :: host_buffer
  fcram_mem :: host_buffer
  n3ds_extra_ram_mem :: host_buffer

abbreviation (input) "VRAM_PADDR \<equiv> (0x18000000 :: u32)"
abbreviation (input) "VRAM_SIZE \<equiv> (0x00600000 :: u32)"
abbreviation (input) "DSP_RAM_PADDR \<equiv> (0x1FF00000 :: u32)"
abbreviation (input) "DSP_RAM_VADDR \<equiv> (0x1FF00000 :: u32)"
abbreviation (input) "DSP_RAM_SIZE \<equiv> (0x00080000 :: u32)"
abbreviation (input) "FCRAM_PADDR \<equiv> (0x20000000 :: u32)"
abbreviation (input) "IO_AREA_PADDR \<equiv> (0x10100000 :: u32)"
abbreviation (input) "IO_AREA_VADDR \<equiv> (0x1EC00000 :: u32)"
abbreviation (input) "IO_AREA_SIZE \<equiv> (0x00400000 :: u32)"
abbreviation (input) "N3DS_EXTRA_RAM_PADDR \<equiv> (0x1F000000 :: u32)"
abbreviation (input) "N3DS_EXTRA_RAM_VADDR \<equiv> (0x1E800000 :: u32)"
abbreviation (input) "N3DS_EXTRA_RAM_SIZE \<equiv> (0x00400000 :: u32)"
abbreviation (input) "CONFIG_MEMORY_VADDR \<equiv> (0x1FF80000 :: u32)"
abbreviation (input) "CONFIG_MEMORY_SIZE \<equiv> (0x1000 :: u32)"
abbreviation (input) "SHARED_PAGE_VADDR \<equiv> (0x1FF81000 :: u32)"
abbreviation (input) "SHARED_PAGE_SIZE \<equiv> (0x1000 :: u32)"

definition GetPhysicalRef :: "phys_buffers \<Rightarrow> u32 \<Rightarrow> memory_ref run" where
  "GetPhysicalRef bufs address =
     (case find (\<lambda>(b, sz). address \<ge> b \<and> address \<le> b + sz)
        [(VRAM_PADDR, VRAM_SIZE), (DSP_RAM_PADDR, DSP_RAM_SIZE), (FCRAM_PADDR, FCRAM_N3DS_SIZE),
         (N3DS_EXTRA_RAM_PADDR, N3DS_EXTRA_RAM_SIZE)] of
        None \<Rightarrow> Some null_ref
      | Some (b, sz) \<Rightarrow>
          let offset_into_region = address - b;
              target_mem = (if b = VRAM_PADDR then vram_mem bufs
                else if b = DSP_RAM_PADDR then dsp_mem bufs
                else if b = FCRAM_PADDR then fcram_mem bufs
                else n3ds_extra_ram_mem bufs)
          in if ucast offset_into_region > hb_size target_mem then Some null_ref
             else MemoryRef_at target_mem (ucast offset_into_region))"

record address_mapping =
  am_address :: u32
  am_size :: u32
  am_read_only :: bool
  am_unk_flag :: bool

definition map_and_protect ::
  "cache_marker \<Rightarrow> vm_manager \<Rightarrow> u32 \<Rightarrow> memory_ref \<Rightarrow> u32 \<Rightarrow> MemoryState \<Rightarrow> u8 \<Rightarrow> vm_manager run"
where
  "map_and_protect mk vm address target sz state perms = do {
     r \<leftarrow> MapBackingMemory mk vm address target sz state;
     case r of
       Inl e \<Rightarrow> None
     | Inr (i, vm) \<Rightarrow> map_option snd (Reprotect mk vm i perms)}"

definition HandleSpecialMapping ::
  "cache_marker \<Rightarrow> phys_buffers \<Rightarrow> vm_manager \<Rightarrow> address_mapping \<Rightarrow> vm_manager run" where
  "HandleSpecialMapping mk bufs vm mapping =
     (let mapping_limit = am_address mapping + am_size mapping
      in if mapping_limit < am_address mapping then Some vm
         else
           (case find (\<lambda>(vbase, pbase, sz). am_address mapping \<ge> vbase \<and> mapping_limit \<le> vbase + sz)
              [(VRAM_VADDR, VRAM_PADDR, VRAM_SIZE),
               (IO_AREA_VADDR, IO_AREA_PADDR, IO_AREA_SIZE),
               (DSP_RAM_VADDR, DSP_RAM_PADDR, DSP_RAM_SIZE),
               (N3DS_EXTRA_RAM_VADDR, N3DS_EXTRA_RAM_PADDR, N3DS_EXTRA_RAM_SIZE - 0x20000)] of
              None \<Rightarrow> Some vm
            | Some (vbase, pbase, sz) \<Rightarrow>
                let offset_into_region = am_address mapping - vbase
                in if pbase = IO_AREA_PADDR then Some vm
                   else do {
                     target_pointer \<leftarrow> GetPhysicalRef bufs (pbase + offset_into_region);
                     map_and_protect mk vm (am_address mapping) target_pointer (am_size mapping)
                       (if am_unk_flag mapping then MS_Static else MS_IO)
                       (if am_read_only mapping then Perm_Read else Perm_ReadWrite)}))"

definition MapSharedPages ::
  "cache_marker \<Rightarrow> host_buffer \<Rightarrow> host_buffer \<Rightarrow> vm_manager \<Rightarrow> vm_manager run" where
  "MapSharedPages mk config_mem_handler shared_page_handler vm = do {
     cfg \<leftarrow> MemoryRef_at config_mem_handler 0;
     vm \<leftarrow> map_and_protect mk vm CONFIG_MEMORY_VADDR cfg CONFIG_MEMORY_SIZE MS_Shared Perm_Read;
     shared \<leftarrow> MemoryRef_at shared_page_handler 0;
     map_and_protect mk vm SHARED_PAGE_VADDR shared SHARED_PAGE_SIZE MS_Shared Perm_Read}"

section \<open>Concrete address spaces\<close>

definition example_vm :: vm_manager where
  "example_vm = \<lparr>vma_map = [initial_vma],
     vm_page_table = \<lparr>attributes = (\<lambda>_. Unmapped), pointers = (\<lambda>_. null_ref)\<rparr>,
     vm_locked = False\<rparr>"

definition example_bufs :: phys_buffers where
  "example_bufs = \<lparr>vram_mem = \<lparr>hb_ptr = 0x10000000, hb_size = 0x600000\<rparr>,
     dsp_mem = \<lparr>hb_ptr = 0x20000000, hb_size = 0x80000\<rparr>,
     fcram_mem = \<lparr>hb_ptr = 0x30000000, hb_size = 0x10000000\<rparr>,
     n3ds_extra_ram_mem = \<lparr>hb_ptr = 0x50000000, hb_size = 0x400000\<rparr>\<rparr>"

definition area_perms :: "vm_manager \<Rightarrow> (u32 \<times> u32 \<times> u8) list" where
  "area_perms vm = map (\<lambda>v. (vma_base v, vma_size v, permissions v)) (vma_map vm)"

lemmas evaluate_mapping =
  HandleSpecialMapping_def Let_def map_and_protect_def GetPhysicalRef_def example_bufs_def
  MemoryRef_at_def MapBackingMemory_def GetPtr_def CarveVMA_def page_aligned_def FindVMA_def
  upper_bound_def example_vm_def initial_vma_def vma_at_def SplitVMA_def set_vma_def
  CanBeMergedWith_def emplace_def lower_bound_def UpdatePageTableForVMA_def MapMemoryRegion_def
  MapPages_def map_page_def Marker_IsCached_def marker_at_def MergeAdjacent_def merge_next_def
  merge_prev_def erase_at_def Reprotect_def area_perms_def GetSize_def null_ref_def
  ref_advance_def

lemma map_two_pages:
  "map_pages_loop mk 2 pt b m ty = map_pages_loop mk (Suc (Suc 0)) pt b m ty"
  by (simp only: numeral_2_eq_2)


text \<open>An address space with one mapped range of two pages, for the remaining properties.\<close>

definition example_buffer :: host_buffer where
  "example_buffer = \<lparr>hb_ptr = 0x10000, hb_size = 0x8000\<rparr>"

definition example_ref :: memory_ref where
  "example_ref = \<lparr>backing_mem = Some example_buffer, ref_offset = 0x1000\<rparr>"

lemma example_ref_ok:
  "ref_covers example_ref (unat (0x2000 :: u32))" "the (backing_mem example_ref) \<in> {example_buffer}"
  by (simp_all add: example_ref_def example_buffer_def ref_covers_def)

lemma example_vm_wf: "vm_wf (\<lambda>_. False) {example_buffer} example_vm"
proof -
  have s: "separated {example_buffer}" by (simp add: separated_def)
  have "pages_agree (\<lambda>_. False) [initial_vma] (vm_page_table example_vm)"
    by (auto simp: pages_agree_def view_Cons in_area_def initial_vma_def example_vm_def entry_of_def
        info_def)
  then show ?thesis
    using initial_areas [OF s] by (simp add: vm_wf_def example_vm_def)
qed

lemma example_vm_unlocked: "\<not> vm_locked example_vm"
  by (simp add: example_vm_def)

lemma example_aligned: "page_aligned 0x100000" "page_aligned 0x2000" "page_aligned 0x1000"
    "page_aligned 0x101000"
  by (simp_all add: page_aligned_def)

lemma example_room: "free_room example_vm 0x100000 0x2000"
  by (simp add: free_room_def example_vm_def initial_vma_def)

lemma map_backing_memory_spec_witness:
  "\<exists>i vm'. MapBackingMemory (\<lambda>_. False) example_vm 0x100000 example_ref 0x2000 MS_Private =
      Some (Inr (i, vm')) \<and>
    view (vma_map vm') 0x101004 = Some (VMA_BackingMemory, Perm_ReadWrite, MS_Private, 0x12004)"
proof -
  have p: "GetPtr example_ref = 0x11000" by (simp add: GetPtr_def example_ref_def example_buffer_def)
  obtain res where r: "MapBackingMemory (\<lambda>_. False) example_vm 0x100000 example_ref 0x2000 MS_Private =
      Some res"
    "case res of
       Inl e \<Rightarrow> \<not> free_room example_vm 0x100000 0x2000 \<and>
         e = (if unat (0x100000 :: u32) < 0x40000000 then ResultInvalidAddressState
              else ResultInvalidAddress)
     | Inr (i, vm') \<Rightarrow> free_room example_vm 0x100000 0x2000 \<and>
         vm_wf (\<lambda>_. False) {example_buffer} vm' \<and>
         view (vma_map vm') = (\<lambda>a. if unat (0x100000 :: u32) \<le> a \<and>
             a < unat (0x100000 :: u32) + unat (0x2000 :: u32)
           then Some (VMA_BackingMemory, Perm_ReadWrite, MS_Private,
             GetPtr example_ref + of_nat (a - unat (0x100000 :: u32)))
           else view (vma_map example_vm) a)"
    using map_backing_memory_spec [OF example_vm_wf example_vm_unlocked example_aligned(1,2) _ _
        example_ref_ok, of MS_Private] by auto
  then show ?thesis using example_room p by (cases res) auto
qed

definition example_mapped :: vm_manager where
  "example_mapped = (case MapBackingMemory (\<lambda>_. False) example_vm 0x100000 example_ref 0x2000 MS_Private of
     Some (Inr (i, vm)) \<Rightarrow> vm | _ \<Rightarrow> example_vm)"

lemma example_mapped_ok:
  "vm_wf (\<lambda>_. False) {example_buffer} example_mapped" "\<not> vm_locked example_mapped"
  "\<And>a. view (vma_map example_mapped) a = (if 0x100000 \<le> a \<and> a < 0x102000
     then Some (VMA_BackingMemory, Perm_ReadWrite, MS_Private, 0x11000 + of_nat (a - 0x100000))
     else view [initial_vma] a)"
proof -
  have p: "GetPtr example_ref = 0x11000" by (simp add: GetPtr_def example_ref_def example_buffer_def)
  obtain i vm' v where "MapBackingMemory (\<lambda>_. False) example_vm 0x100000 example_ref 0x2000 MS_Private =
        Some (Inr (i, vm'))"
      "vm_wf (\<lambda>_. False) {example_buffer} vm'" "\<not> vm_locked vm'"
      "view (vma_map vm') = (\<lambda>a. if unat (0x100000 :: u32) \<le> a \<and>
          a < unat (0x100000 :: u32) + unat (0x2000 :: u32)
        then Some (VMA_BackingMemory, Perm_ReadWrite, MS_Private,
          GetPtr example_ref + of_nat (a - unat (0x100000 :: u32)))
        else view (vma_map example_vm) a)"
    using MapBackingMemory_ok [OF example_vm_wf example_vm_unlocked example_aligned(1,2) _ _
        example_ref_ok example_room, of MS_Private] by auto
  then show "vm_wf (\<lambda>_. False) {example_buffer} example_mapped" "\<not> vm_locked example_mapped"
    "\<And>a. view (vma_map example_mapped) a = (if 0x100000 \<le> a \<and> a < 0x102000
     then Some (VMA_BackingMemory, Perm_ReadWrite, MS_Private, 0x11000 + of_nat (a - 0x100000))
     else view [initial_vma] a)"
    by (simp_all add: example_mapped_def p) (simp add: example_vm_def)
qed

lemma example_mapped_full: "\<not> has_free example_mapped 0x101000 0x1000"
  by (auto simp: has_free_def example_mapped_ok(3))

lemma unmap_range_spec_witness:
  "\<exists>vm'. UnmapRange (\<lambda>_. False) example_mapped 0x101000 0x1000 = Some (Inr vm') \<and>
    view (vma_map vm') 0x101000 = Some free_info \<and>
    view (vma_map vm') 0x100000 = Some (VMA_BackingMemory, Perm_ReadWrite, MS_Private, 0x11000)"
proof -
  obtain res where r: "UnmapRange (\<lambda>_. False) example_mapped 0x101000 0x1000 = Some res"
    "case res of
       Inl e \<Rightarrow> e = ResultInvalidAddressState \<and> has_free example_mapped 0x101000 0x1000
     | Inr vm' \<Rightarrow> \<not> has_free example_mapped 0x101000 0x1000 \<and>
         vm_wf (\<lambda>_. False) {example_buffer} vm' \<and>
         view (vma_map vm') = (\<lambda>a. if unat (0x101000 :: u32) \<le> a \<and>
             a < unat (0x101000 :: u32) + unat (0x1000 :: u32) then Some free_info
           else view (vma_map example_mapped) a)"
    using unmap_range_spec [OF example_mapped_ok(1,2) example_aligned(4,3)] by auto
  then show ?thesis using example_mapped_full by (cases res) (auto simp: example_mapped_ok(3))
qed

lemma reprotect_range_spec_witness:
  "\<exists>vm'. ReprotectRange (\<lambda>_. False) example_mapped 0x101000 0x1000 Perm_Read = Some (Inr vm') \<and>
    view (vma_map vm') 0x101000 = Some (VMA_BackingMemory, Perm_Read, MS_Private, 0x12000) \<and>
    view (vma_map vm') 0x100000 = Some (VMA_BackingMemory, Perm_ReadWrite, MS_Private, 0x11000)"
proof -
  obtain res where r: "ReprotectRange (\<lambda>_. False) example_mapped 0x101000 0x1000 Perm_Read = Some res"
    "case res of
       Inl e \<Rightarrow> e = ResultInvalidAddressState \<and> has_free example_mapped 0x101000 0x1000
     | Inr vm' \<Rightarrow> \<not> has_free example_mapped 0x101000 0x1000 \<and>
         vm_wf (\<lambda>_. False) {example_buffer} vm' \<and>
         view (vma_map vm') = (\<lambda>a. if unat (0x101000 :: u32) \<le> a \<and>
             a < unat (0x101000 :: u32) + unat (0x1000 :: u32)
           then map_option (\<lambda>(ty, p, s, q). (ty, Perm_Read, s, q)) (view (vma_map example_mapped) a)
           else view (vma_map example_mapped) a)"
    using reprotect_range_spec [OF example_mapped_ok(1,2) example_aligned(4,3), of Perm_Read] by auto
  then show ?thesis using example_mapped_full by (cases res) (auto simp: example_mapped_ok(3))
qed

lemma change_memory_state_spec_witness:
  "\<exists>vm'. ChangeMemoryState (\<lambda>_. False) example_mapped 0x101000 0x1000 MS_Private Perm_ReadWrite
      MS_AliasCode Perm_Read = Some (Inr vm') \<and>
    view (vma_map vm') 0x101000 = Some (VMA_BackingMemory, Perm_Read, MS_AliasCode, 0x12000)"
proof -
  have range: "view (vma_map example_mapped) a =
      Some (VMA_BackingMemory, Perm_ReadWrite, MS_Private, 0x11000 + of_nat (a - 0x100000))"
    if "0x101000 \<le> a" "a < 0x102000" for a
    using that by (simp add: example_mapped_ok(3))
  have fit: "0 < unat (0x1000 :: u32)" "unat (0x101000 :: u32) + unat (0x1000 :: u32) \<le> 0x40000000"
    by simp_all
  note C = change_memory_state_spec [OF example_mapped_ok(1,2) example_aligned(4,3) fit,
    of MS_Private Perm_ReadWrite MS_AliasCode Perm_Read]
  then obtain res where res: "ChangeMemoryState (\<lambda>_. False) example_mapped 0x101000 0x1000
      MS_Private Perm_ReadWrite MS_AliasCode Perm_Read = Some res" by blast
  show ?thesis
  proof (cases res)
    case (Inl e)
    then show ?thesis using C res by (auto simp: range)
  next
    case (Inr vm')
    then show ?thesis using C res by (auto simp: range)
  qed
qed

lemma backing_blocks_cover_range_witness:
  "\<exists>bs. GetBackingBlocksForRange example_mapped 0x101000 0x1000 = Some (Inr bs) \<and>
    length (block_bytes bs) = 0x1000"
proof -
  obtain res where "GetBackingBlocksForRange example_mapped 0x101000 0x1000 = Some res"
    "case res of
       Inl e \<Rightarrow> e = ResultInvalidAddressState \<and> has_free example_mapped 0x101000 0x1000
     | Inr bs \<Rightarrow> \<not> has_free example_mapped 0x101000 0x1000 \<and>
         block_bytes bs = map (byte_at example_mapped)
           [unat (0x101000 :: u32)..<unat (0x101000 :: u32) + unat (0x1000 :: u32)]"
    using backing_blocks_cover_range [OF example_mapped_ok(1), of "0x101000" "0x1000"] by auto
  then show ?thesis using example_mapped_full by (cases res) auto
qed

end
