(* ===== verification/MemoryAccess.thy ===== *)
theory MemoryAccess
  imports AddressSpace
begin

text \<open>Accesses through a page table: \<open>MemorySystem\<close> of \<open>core/memory.cpp\<close>. Host memory is a function
  from host addresses to bytes. The renderer, which may read and write host memory when a cached
  region is flushed, the GPU's registers and the plugin loader's framebuffer are the parameters of
  the record \<open>mem_env\<close>; \<open>gpu\<close> is their state. A crash (a failed assertion, \<open>UNREACHABLE\<close>, an array
  index out of range) is None.\<close>

section \<open>Host memory\<close>

type_synonym bytes = "u8 list"

record 'g machine =
  host_mem :: "u64 \<Rightarrow> u8"
  gpu :: 'g

datatype FlushMode = Flush | Invalidate | FlushAndInvalidate

record 'g mem_env =
  phys :: phys_buffers
  rasterizer :: "FlushMode \<Rightarrow> u32 \<Rightarrow> u32 \<Rightarrow> 'g machine \<Rightarrow> 'g machine"
  plugin_fb :: "u32 option"
  gpu_read_reg :: "u32 \<Rightarrow> 'g \<Rightarrow> u32"
  gpu_write_reg :: "u32 \<Rightarrow> u32 \<Rightarrow> 'g \<Rightarrow> 'g"

definition read_host :: "(u64 \<Rightarrow> u8) \<Rightarrow> u64 \<Rightarrow> nat \<Rightarrow> bytes" where
  "read_host m p n = map (\<lambda>i. m (p + of_nat i)) [0..<n]"

definition write_host :: "(u64 \<Rightarrow> u8) \<Rightarrow> u64 \<Rightarrow> bytes \<Rightarrow> u64 \<Rightarrow> u8" where
  "write_host m p bs = (\<lambda>a. if unat (a - p) < length bs then bs ! unat (a - p) else m a)"

definition store :: "u64 \<Rightarrow> bytes \<Rightarrow> 'g machine \<Rightarrow> 'g machine" where
  "store p bs s = s\<lparr>host_mem := write_host (host_mem s) p bs\<rparr>"

text \<open>Little-endian values.\<close>

fun from_le :: "bytes \<Rightarrow> nat" where
  "from_le [] = 0"
| "from_le (b # bs) = unat b + 256 * from_le bs"

fun to_le :: "nat \<Rightarrow> nat \<Rightarrow> bytes" where
  "to_le 0 x = []"
| "to_le (Suc n) x = of_nat x # to_le n (x div 256)"

section \<open>The rasterizer\<close>

abbreviation (input) "PLUGIN_3GX_FB_SIZE \<equiv> (0x000A9000 :: u32)"
abbreviation (input) "FCRAM_PADDR_END \<equiv> (0x28000000 :: u32)"
abbreviation (input) "FCRAM_N3DS_PADDR_END \<equiv> (0x30000000 :: u32)"
abbreviation (input) "VRAM_PADDR_END \<equiv> (0x18600000 :: u32)"

definition GetPointerForRasterizerCache :: "'g mem_env \<Rightarrow> u32 \<Rightarrow> memory_ref run" where
  "GetPointerForRasterizerCache env addr =
     (if addr \<ge> LINEAR_HEAP_VADDR \<and> addr < LINEAR_HEAP_VADDR_END then
        MemoryRef_at (fcram_mem (phys env)) (ucast (addr - LINEAR_HEAP_VADDR))
      else if addr \<ge> NEW_LINEAR_HEAP_VADDR \<and> addr < NEW_LINEAR_HEAP_VADDR_END then
        MemoryRef_at (fcram_mem (phys env)) (ucast (addr - NEW_LINEAR_HEAP_VADDR))
      else if addr \<ge> VRAM_VADDR \<and> addr < VRAM_VADDR_END then
        MemoryRef_at (vram_mem (phys env)) (ucast (addr - VRAM_VADDR))
      else if addr \<ge> PLUGIN_3GX_FB_VADDR \<and> addr < PLUGIN_3GX_FB_VADDR_END then
        (case plugin_fb env of
           Some fb \<Rightarrow> MemoryRef_at (fcram_mem (phys env)) (ucast (addr - PLUGIN_3GX_FB_VADDR + fb - FCRAM_PADDR))
         | None \<Rightarrow> None)
      else None)"

definition CheckRegion ::
  "'g mem_env \<Rightarrow> FlushMode \<Rightarrow> u32 \<Rightarrow> u32 \<Rightarrow> u32 \<Rightarrow> u32 \<Rightarrow> u32 \<Rightarrow> 'g machine \<Rightarrow> 'g machine" where
  "CheckRegion env mode start end_addr region_start region_end paddr_region_start s =
     (if start \<ge> region_end \<or> end_addr \<le> region_start then s
      else
        (let overlap_start = max start region_start;
             overlap_end = min end_addr region_end;
             physical_start = paddr_region_start + (overlap_start - region_start);
             overlap_size = overlap_end - overlap_start
         in rasterizer env mode physical_start overlap_size s))"

definition RasterizerFlushVirtualRegion ::
  "'g mem_env \<Rightarrow> u32 \<Rightarrow> u32 \<Rightarrow> FlushMode \<Rightarrow> 'g machine \<Rightarrow> 'g machine" where
  "RasterizerFlushVirtualRegion env start sz mode s =
     (let end_addr = start + sz;
          s = CheckRegion env mode start end_addr LINEAR_HEAP_VADDR LINEAR_HEAP_VADDR_END FCRAM_PADDR s;
          s = CheckRegion env mode start end_addr NEW_LINEAR_HEAP_VADDR NEW_LINEAR_HEAP_VADDR_END FCRAM_PADDR s;
          s = CheckRegion env mode start end_addr VRAM_VADDR VRAM_VADDR_END VRAM_PADDR s
      in case plugin_fb env of
           Some fb \<Rightarrow>
             if fb \<noteq> 0 then CheckRegion env mode start end_addr PLUGIN_3GX_FB_VADDR PLUGIN_3GX_FB_VADDR_END fb s
             else s
         | None \<Rightarrow> s)"

definition PhysicalToVirtualAddressForRasterizer :: "'g mem_env \<Rightarrow> u32 \<Rightarrow> u32 list" where
  "PhysicalToVirtualAddressForRasterizer env addr =
     (if addr \<ge> VRAM_PADDR \<and> addr < VRAM_PADDR_END then [addr - VRAM_PADDR + VRAM_VADDR]
      else if (case plugin_fb env of Some fb \<Rightarrow> addr \<ge> fb \<and> addr < fb + PLUGIN_3GX_FB_SIZE | None \<Rightarrow> False)
      then [addr - the (plugin_fb env) + PLUGIN_3GX_FB_VADDR]
      else if addr \<ge> FCRAM_PADDR \<and> addr < FCRAM_PADDR_END then
        [addr - FCRAM_PADDR + LINEAR_HEAP_VADDR, addr - FCRAM_PADDR + NEW_LINEAR_HEAP_VADDR]
      else if addr \<ge> FCRAM_PADDR_END \<and> addr < FCRAM_N3DS_PADDR_END then
        [addr - FCRAM_PADDR + NEW_LINEAR_HEAP_VADDR]
      else [])"

definition page_index :: "u32 \<Rightarrow> u32" where "page_index vaddr = drop_bit 12 vaddr"

text \<open>The inner loop of \<open>RasterizerMarkRegionCached\<close>: one virtual page in one page table.\<close>

definition mark_in_table :: "'g mem_env \<Rightarrow> bool \<Rightarrow> u32 \<Rightarrow> page_table \<Rightarrow> page_table run" where
  "mark_in_table env cached vaddr pt =
     (let page = page_index vaddr
      in if cached then
           (case attributes pt page of
              Unmapped \<Rightarrow> Some pt
            | PageMemory \<Rightarrow> Some (pt\<lparr>attributes := (attributes pt)(page := RasterizerCachedMemory),
                pointers := (pointers pt)(page := null_ref)\<rparr>)
            | RasterizerCachedMemory \<Rightarrow> None)
         else
           (case attributes pt page of
              Unmapped \<Rightarrow> Some pt
            | RasterizerCachedMemory \<Rightarrow> do {
                r \<leftarrow> GetPointerForRasterizerCache env (vaddr AND NOT CITRA_PAGE_MASK);
                Some (pt\<lparr>attributes := (attributes pt)(page := PageMemory),
                  pointers := (pointers pt)(page := r)\<rparr>)}
            | PageMemory \<Rightarrow> None))"

fun those_map :: "('a \<Rightarrow> 'b run) \<Rightarrow> 'a list \<Rightarrow> 'b list run" where
  "those_map f [] = Some []"
| "those_map f (x # xs) = do {
     y \<leftarrow> f x;
     ys \<leftarrow> those_map f xs;
     Some (y # ys)}"

fun mark_vaddrs ::
  "'g mem_env \<Rightarrow> bool \<Rightarrow> u32 list \<Rightarrow> cache_marker \<times> page_table list \<Rightarrow>
   (cache_marker \<times> page_table list) run" where
  "mark_vaddrs env cached [] (mk, pts) = Some (mk, pts)"
| "mark_vaddrs env cached (vaddr # vs) (mk, pts) = do {
     pts \<leftarrow> those_map (mark_in_table env cached vaddr) pts;
     mark_vaddrs env cached vs (Marker_Mark mk vaddr cached, pts)}"

fun mark_pages ::
  "'g mem_env \<Rightarrow> bool \<Rightarrow> nat \<Rightarrow> u32 \<Rightarrow> cache_marker \<times> page_table list \<Rightarrow>
   (cache_marker \<times> page_table list) run" where
  "mark_pages env cached 0 paddr st = Some st"
| "mark_pages env cached (Suc n) paddr st = do {
     st \<leftarrow> mark_vaddrs env cached (PhysicalToVirtualAddressForRasterizer env paddr) st;
     mark_pages env cached n (paddr + CITRA_PAGE_SIZE) st}"

definition RasterizerMarkRegionCached ::
  "'g mem_env \<Rightarrow> u32 \<Rightarrow> u32 \<Rightarrow> bool \<Rightarrow> cache_marker \<times> page_table list \<Rightarrow>
   (cache_marker \<times> page_table list) run" where
  "RasterizerMarkRegionCached env start sz cached st =
     (if start = 0 then Some st
      else
        (let num_pages = drop_bit 12 (start + sz - 1) - drop_bit 12 start + 1
         in mark_pages env cached (unat num_pages) start st))"

section \<open>Pointers into FCRAM\<close>

definition GetFCRAMOffset :: "'g mem_env \<Rightarrow> u64 \<Rightarrow> u32 run" where
  "GetFCRAMOffset env pointer = do {
     let fcram = hb_ptr (fcram_mem (phys env));
     ASSERT (pointer \<ge> fcram \<and> pointer \<le> fcram + ucast FCRAM_N3DS_SIZE);
     Some (ucast (pointer - fcram))}"

definition GetFCRAMPointer :: "'g mem_env \<Rightarrow> u64 \<Rightarrow> u64 run" where
  "GetFCRAMPointer env offset = do {
     ASSERT (offset \<le> ucast FCRAM_N3DS_SIZE);
     Some (hb_ptr (fcram_mem (phys env)) + offset)}"

definition GetFCRAMRef :: "'g mem_env \<Rightarrow> u64 \<Rightarrow> memory_ref run" where
  "GetFCRAMRef env offset = do {
     ASSERT (offset \<le> ucast FCRAM_N3DS_SIZE);
     MemoryRef_at (fcram_mem (phys env)) offset}"

section \<open>Single accesses\<close>

text \<open>\<open>Read\<close>, \<open>Write\<close> and \<open>WriteExclusive\<close> of a type of \<open>n\<close> bytes, through the current page table.\<close>

definition page_pointer :: "page_table \<Rightarrow> u32 \<Rightarrow> u64" where
  "page_pointer pt vaddr = GetPtr (pointers pt (page_index vaddr))"

definition Luma_paddr :: "u32 \<Rightarrow> u32" where "Luma_paddr vaddr = vaddr AND 0x7FFFFFFF"

definition MemorySystem_Read ::
  "'g mem_env \<Rightarrow> page_table \<Rightarrow> nat \<Rightarrow> u32 \<Rightarrow> 'g machine \<Rightarrow> (nat \<times> 'g machine) run" where
  "MemorySystem_Read env pt n vaddr s =
     (let pp = page_pointer pt vaddr;
          paddr = Luma_paddr vaddr;
          by_type = (case attributes pt (page_index vaddr) of
            Unmapped \<Rightarrow> Some (0, s)
          | PageMemory \<Rightarrow> None
          | RasterizerCachedMemory \<Rightarrow> do {
              let s = RasterizerFlushVirtualRegion env vaddr (of_nat n) Flush s;
              r \<leftarrow> GetPointerForRasterizerCache env vaddr;
              Some (from_le (read_host (host_mem s) (GetPtr r) n), s)})
      in if pp \<noteq> 0 then
           Some (from_le (read_host (host_mem s) (pp + ucast (vaddr AND CITRA_PAGE_MASK)) n), s)
         else if bit vaddr 31 \<and> paddr AND 0xF0000000 = FCRAM_PADDR then do {
           p \<leftarrow> GetFCRAMPointer env (ucast (paddr - FCRAM_PADDR));
           Some (from_le (read_host (host_mem s) p n), s)}
         else if bit vaddr 31 \<and> paddr AND 0xF0000000 = 0x10000000 \<and> paddr \<ge> IO_AREA_PADDR then
           Some (unat (gpu_read_reg env (paddr - IO_AREA_PADDR + 0x1EC00000) (gpu s)) mod 256 ^ n, s)
         else by_type)"

definition MemorySystem_Write ::
  "'g mem_env \<Rightarrow> page_table \<Rightarrow> nat \<Rightarrow> u32 \<Rightarrow> nat \<Rightarrow> 'g machine \<Rightarrow> 'g machine run" where
  "MemorySystem_Write env pt n vaddr data s =
     (let pp = page_pointer pt vaddr;
          paddr = Luma_paddr vaddr;
          by_type = (case attributes pt (page_index vaddr) of
            Unmapped \<Rightarrow> Some s
          | PageMemory \<Rightarrow> None
          | RasterizerCachedMemory \<Rightarrow> do {
              let s = RasterizerFlushVirtualRegion env vaddr (of_nat n) Invalidate s;
              r \<leftarrow> GetPointerForRasterizerCache env vaddr;
              Some (store (GetPtr r) (to_le n data) s)})
      in if pp \<noteq> 0 then Some (store (pp + ucast (vaddr AND CITRA_PAGE_MASK)) (to_le n data) s)
         else if bit vaddr 31 \<and> paddr AND 0xF0000000 = FCRAM_PADDR then do {
           p \<leftarrow> GetFCRAMPointer env (ucast (paddr - FCRAM_PADDR));
           Some (store p (to_le n data) s)}
         else if bit vaddr 31 \<and> paddr AND 0xF0000000 = 0x10000000 \<and> paddr \<ge> IO_AREA_PADDR then do {
           ASSERT (n = 4);
           Some (s\<lparr>gpu := gpu_write_reg env (paddr - IO_AREA_PADDR + 0x1EC00000) (of_nat data) (gpu s)\<rparr>)}
         else by_type)"

definition AtomicCompareAndSwap ::
  "u64 \<Rightarrow> nat \<Rightarrow> nat \<Rightarrow> nat \<Rightarrow> 'g machine \<Rightarrow> bool \<times> 'g machine" where
  "AtomicCompareAndSwap p n data expected s =
     (if from_le (read_host (host_mem s) p n) = expected then (True, store p (to_le n data) s)
      else (False, s))"

definition WriteExclusive ::
  "'g mem_env \<Rightarrow> page_table \<Rightarrow> nat \<Rightarrow> u32 \<Rightarrow> nat \<Rightarrow> nat \<Rightarrow> 'g machine \<Rightarrow> (bool \<times> 'g machine) run" where
  "WriteExclusive env pt n vaddr data expected s =
     (let pp = page_pointer pt vaddr
      in if pp \<noteq> 0 then
           Some (AtomicCompareAndSwap (pp + ucast (vaddr AND CITRA_PAGE_MASK)) n data expected s)
         else
           (case attributes pt (page_index vaddr) of
              Unmapped \<Rightarrow> Some (True, s)
            | PageMemory \<Rightarrow> None
            | RasterizerCachedMemory \<Rightarrow> do {
                let s = RasterizerFlushVirtualRegion env vaddr (of_nat n) Invalidate s;
                r \<leftarrow> GetPointerForRasterizerCache env vaddr;
                Some (AtomicCompareAndSwap (GetPtr r) n data expected s)}))"

definition IsValidVirtualAddress :: "page_table \<Rightarrow> u32 \<Rightarrow> bool" where
  "IsValidVirtualAddress pt vaddr \<longleftrightarrow>
     page_pointer pt vaddr \<noteq> 0 \<or> attributes pt (page_index vaddr) = RasterizerCachedMemory"

definition IsValidPhysicalAddress :: "'g mem_env \<Rightarrow> u32 \<Rightarrow> bool run" where
  "IsValidPhysicalAddress env paddr =
     map_option (\<lambda>r. GetPtr r \<noteq> 0) (GetPhysicalRef (phys env) paddr)"

text \<open>A null pointer is 0.\<close>

definition GetPointer :: "'g mem_env \<Rightarrow> page_table \<Rightarrow> u32 \<Rightarrow> u64 run" where
  "GetPointer env pt vaddr =
     (if page_pointer pt vaddr \<noteq> 0 then
        Some (page_pointer pt vaddr + ucast (vaddr AND CITRA_PAGE_MASK))
      else if attributes pt (page_index vaddr) = RasterizerCachedMemory then
        map_option GetPtr (GetPointerForRasterizerCache env vaddr)
      else Some 0)"

fun ReadCString ::
  "'g mem_env \<Rightarrow> page_table \<Rightarrow> u32 \<Rightarrow> nat \<Rightarrow> 'g machine \<Rightarrow> (bytes \<times> 'g machine) run" where
  "ReadCString env pt vaddr 0 s = Some ([], s)"
| "ReadCString env pt vaddr (Suc n) s = do {
     (c, s) \<leftarrow> MemorySystem_Read env pt 1 vaddr s;
     if c = 0 then Some ([], s)
     else do {
       (rest, s) \<leftarrow> ReadCString env pt (vaddr + 1) n s;
       Some (of_nat c # rest, s)}}"

section \<open>Block accesses\<close>

text \<open>The loop that the block operations share: it cuts the range at page boundaries and runs a
  step on each piece, with the page, the offset in the page, the length and the address.\<close>

partial_function (option) page_loop ::
  "(u32 \<Rightarrow> nat \<Rightarrow> nat \<Rightarrow> u32 \<Rightarrow> 'st \<Rightarrow> 'st run) \<Rightarrow> nat \<Rightarrow> nat \<Rightarrow> nat \<Rightarrow> 'st \<Rightarrow> 'st run" where
  "page_loop step page offset remaining st =
     (if remaining > 0 then
        (let copy_amount = min (0x1000 - offset) remaining;
             current_vaddr = of_nat (page * 0x1000 + offset)
         in if page < 2 ^ 20
            then Option.bind (step (of_nat page) offset copy_amount current_vaddr st)
              (page_loop step (Suc page) 0 (remaining - copy_amount))
            else None)
      else Some st)"

definition block_loop ::
  "(u32 \<Rightarrow> nat \<Rightarrow> nat \<Rightarrow> u32 \<Rightarrow> 'st \<Rightarrow> 'st run) \<Rightarrow> u32 \<Rightarrow> nat \<Rightarrow> 'st \<Rightarrow> 'st run" where
  "block_loop step addr sz st =
     page_loop step (unat (page_index addr)) (unat (addr AND CITRA_PAGE_MASK)) sz st"

definition read_step ::
  "'g mem_env \<Rightarrow> page_table \<Rightarrow> bool \<Rightarrow> u32 \<Rightarrow> nat \<Rightarrow> nat \<Rightarrow> u32 \<Rightarrow> bytes \<times> 'g machine \<Rightarrow>
   (bytes \<times> 'g machine) run" where
  "read_step env pt unsafe page offset n vaddr st =
     (let (out, s) = st
      in case attributes pt page of
           Unmapped \<Rightarrow> Some (out @ replicate n 0, s)
         | PageMemory \<Rightarrow>
             Some (out @ read_host (host_mem s) (GetPtr (pointers pt page) + of_nat offset) n, s)
         | RasterizerCachedMemory \<Rightarrow> do {
             let s = (if unsafe then s else RasterizerFlushVirtualRegion env vaddr (of_nat n) Flush s);
             r \<leftarrow> GetPointerForRasterizerCache env vaddr;
             Some (out @ read_host (host_mem s) (GetPtr r) n, s)})"

definition ReadBlock ::
  "'g mem_env \<Rightarrow> page_table \<Rightarrow> bool \<Rightarrow> u32 \<Rightarrow> nat \<Rightarrow> 'g machine \<Rightarrow> (bytes \<times> 'g machine) run" where
  "ReadBlock env pt unsafe src_addr sz s = block_loop (read_step env pt unsafe) src_addr sz ([], s)"

text \<open>\<open>WriteBlock\<close> consumes its source buffer from the front.\<close>

definition write_step ::
  "'g mem_env \<Rightarrow> page_table \<Rightarrow> bool \<Rightarrow> u32 \<Rightarrow> nat \<Rightarrow> nat \<Rightarrow> u32 \<Rightarrow> bytes \<times> 'g machine \<Rightarrow>
   (bytes \<times> 'g machine) run" where
  "write_step env pt unsafe page offset n vaddr st =
     (let (src, s) = st
      in case attributes pt page of
           Unmapped \<Rightarrow> Some (drop n src, s)
         | PageMemory \<Rightarrow>
             Some (drop n src, store (GetPtr (pointers pt page) + of_nat offset) (take n src) s)
         | RasterizerCachedMemory \<Rightarrow> do {
             let s = (if unsafe then s else RasterizerFlushVirtualRegion env vaddr (of_nat n) Invalidate s);
             r \<leftarrow> GetPointerForRasterizerCache env vaddr;
             Some (drop n src, store (GetPtr r) (take n src) s)})"

definition WriteBlock ::
  "'g mem_env \<Rightarrow> page_table \<Rightarrow> bool \<Rightarrow> u32 \<Rightarrow> bytes \<Rightarrow> 'g machine \<Rightarrow> 'g machine run" where
  "WriteBlock env pt unsafe dest_addr src s =
     map_option snd (block_loop (write_step env pt unsafe) dest_addr (length src) (src, s))"

definition zero_step ::
  "'g mem_env \<Rightarrow> page_table \<Rightarrow> u32 \<Rightarrow> nat \<Rightarrow> nat \<Rightarrow> u32 \<Rightarrow> 'g machine \<Rightarrow> 'g machine run" where
  "zero_step env pt page offset n vaddr s =
     (case attributes pt page of
        Unmapped \<Rightarrow> Some s
      | PageMemory \<Rightarrow> Some (store (GetPtr (pointers pt page) + of_nat offset) (replicate n 0) s)
      | RasterizerCachedMemory \<Rightarrow> do {
          let s = RasterizerFlushVirtualRegion env vaddr (of_nat n) Invalidate s;
          r \<leftarrow> GetPointerForRasterizerCache env vaddr;
          Some (store (GetPtr r) (replicate n 0) s)})"

definition ZeroBlock :: "'g mem_env \<Rightarrow> page_table \<Rightarrow> u32 \<Rightarrow> nat \<Rightarrow> 'g machine \<Rightarrow> 'g machine run" where
  "ZeroBlock env pt dest_addr sz s = block_loop (zero_step env pt) dest_addr sz s"

text \<open>\<open>CopyBlock\<close> reads the source a page at a time and writes each piece as a block.\<close>

definition copy_step ::
  "'g mem_env \<Rightarrow> page_table \<Rightarrow> page_table \<Rightarrow> u32 \<Rightarrow> nat \<Rightarrow> nat \<Rightarrow> u32 \<Rightarrow> u32 \<times> 'g machine \<Rightarrow>
   (u32 \<times> 'g machine) run" where
  "copy_step env dest_pt src_pt page offset n vaddr st =
     (let (dest, s) = st
      in do {
        s \<leftarrow> (case attributes src_pt page of
            Unmapped \<Rightarrow> ZeroBlock env dest_pt dest n s
          | PageMemory \<Rightarrow> WriteBlock env dest_pt False dest
              (read_host (host_mem s) (GetPtr (pointers src_pt page) + of_nat offset) n) s
          | RasterizerCachedMemory \<Rightarrow> do {
              let s = RasterizerFlushVirtualRegion env vaddr (of_nat n) Flush s;
              r \<leftarrow> GetPointerForRasterizerCache env vaddr;
              WriteBlock env dest_pt False dest (read_host (host_mem s) (GetPtr r) n) s});
        Some (dest + of_nat n, s)})"

definition CopyBlock ::
  "'g mem_env \<Rightarrow> page_table \<Rightarrow> page_table \<Rightarrow> u32 \<Rightarrow> u32 \<Rightarrow> nat \<Rightarrow> 'g machine \<Rightarrow> 'g machine run" where
  "CopyBlock env dest_pt src_pt dest_addr src_addr sz s =
     map_option snd (block_loop (copy_step env dest_pt src_pt) src_addr sz (dest_addr, s))"

section \<open>What the block operations do on mapped pages\<close>

text \<open>The host address behind a virtual address, by the page table.\<close>

definition host_of :: "page_table \<Rightarrow> nat \<Rightarrow> u64" where
  "host_of pt a = GetPtr (pointers pt (of_nat (a div 0x1000))) + of_nat (a mod 0x1000)"

definition plain_pages :: "page_table \<Rightarrow> nat \<Rightarrow> nat \<Rightarrow> bool" where
  "plain_pages pt a n \<longleftrightarrow> a + n \<le> 2 ^ 32 \<and>
     (\<forall>x \<in> {a..<a + n}. attributes pt (of_nat (x div 0x1000)) = PageMemory)"

lemma plain_pages_tail:
  "plain_pages pt a n \<Longrightarrow> k \<le> n \<Longrightarrow> plain_pages pt (a + k) (n - k)"
  by (auto simp: plain_pages_def)

lemma piece_ends:
  assumes "(k :: nat) = min (0x1000 - a mod 0x1000) n" "k < n"
  shows "(a + k) div 0x1000 = Suc (a div 0x1000)" "(a + k) mod 0x1000 = 0"
proof -
  have k: "k = 0x1000 - a mod 0x1000" using assms by auto
  have "a mod 0x1000 < 0x1000" by simp
  then have "a + k = 0x1000 * Suc (a div 0x1000)"
    using k mult_div_mod_eq [of "0x1000" a] by (simp only: mult_Suc_right)
  then show "(a + k) div 0x1000 = Suc (a div 0x1000)" "(a + k) mod 0x1000 = 0"
    by simp_all
qed

lemma host_of_piece:
  assumes "i < 0x1000 - a mod 0x1000"
  shows "host_of pt (a + i) = GetPtr (pointers pt (of_nat (a div 0x1000))) + of_nat (a mod 0x1000) + of_nat i"
proof -
  have m: "a mod 0x1000 + i < 0x1000" using assms by simp
  have i: "i div 0x1000 = 0" "i mod 0x1000 = i" using m by simp_all
  have "(a + i) div 0x1000 = a div 0x1000" using m i div_add1_eq [of a i "0x1000"] by simp
  moreover have "(a + i) mod 0x1000 = a mod 0x1000 + i"
    using m i mod_add_eq [of a "0x1000" i] by simp
  ultimately show ?thesis by (simp add: host_of_def)
qed

lemma block_loop_start:
  "block_loop step addr sz st = page_loop step (unat addr div 0x1000) (unat addr mod 0x1000) sz st"
proof -
  have "(0xFFF :: u32) = mask 12" by (simp add: mask_eq_exp_minus_1)
  then have "addr AND 0xFFF = take_bit 12 addr" by (simp only: take_bit_eq_mask)
  then have "unat (addr AND 0xFFF) = unat addr mod 0x1000"
    by (simp only: unsigned_take_bit_eq) (simp add: take_bit_eq_mod)
  moreover have "unat (page_index addr) = unat addr div 0x1000"
    by (simp add: page_index_def drop_bit_eq_div unat_div_distrib)
  ultimately show ?thesis by (simp add: block_loop_def)
qed

lemma page_below: "a + n \<le> 2 ^ 32 \<Longrightarrow> 0 < n \<Longrightarrow> a div 0x1000 < (2 ^ 20 :: nat)"
  by (simp add: div_less_iff_less_mult)

text \<open>One induction serves every step that acts the same way on each plain piece.\<close>

lemma page_loop_plain:
  assumes step: "\<And>a k st. plain_pages pt a k \<Longrightarrow> 0 < k \<Longrightarrow> k \<le> 0x1000 - a mod 0x1000 \<Longrightarrow>
      step (of_nat (a div 0x1000)) (a mod 0x1000) k (of_nat a) st = Some (act a k st)"
    and join: "\<And>a k n st. k \<le> n \<Longrightarrow> act (a + k) (n - k) (act a k st) = act a n st"
    and none: "\<And>a st. act a 0 st = st"
    and "plain_pages pt a n"
  shows "page_loop step (a div 0x1000) (a mod 0x1000) n st = Some (act a n st)"
  using assms(4)
proof (induction n arbitrary: a st rule: less_induct)
  case (less n)
  show ?case
  proof (cases "n = 0")
    case True
    then show ?thesis by (subst page_loop.simps) (simp add: none)
  next
    case False
    define k where "k = min (0x1000 - a mod 0x1000) n"
    have k: "0 < k" "k \<le> n" "k \<le> 0x1000 - a mod 0x1000" "n - k < n"
      using False by (auto simp: k_def)
    have "plain_pages pt a k" using less.prems k(2) by (auto simp: plain_pages_def)
    from step [OF this k(1,3)] have s: "step (of_nat (a div 0x1000)) (a mod 0x1000) k (of_nat a) st =
        Some (act a k st)" .
    have p: "a div 0x1000 < 2 ^ 20" using less.prems False page_below [of a n] by (simp add: plain_pages_def)
    have v: "(of_nat (a div 0x1000 * 0x1000 + a mod 0x1000) :: u32) = of_nat a" by simp
    have "page_loop step (Suc (a div 0x1000)) 0 (n - k) (act a k st) = Some (act a n st)"
    proof (cases "k < n")
      case True
      note e = piece_ends [OF k_def True]
      show ?thesis
        using less.IH [OF k(4) plain_pages_tail [OF less.prems k(2)], of "act a k st"] e join [OF k(2)]
        by simp
    next
      case False
      then have "k = n" using k by simp
      then show ?thesis by (subst page_loop.simps) simp
    qed
    then show ?thesis
      using False s p v by (subst page_loop.simps) (simp add: k_def Let_def)
  qed
qed

definition seen :: "page_table \<Rightarrow> (u64 \<Rightarrow> u8) \<Rightarrow> nat \<Rightarrow> nat \<Rightarrow> bytes" where
  "seen pt m a n = map (\<lambda>x. m (host_of pt x)) [a..<a + n]"

lemma seen_split: "k \<le> n \<Longrightarrow> seen pt m a k @ seen pt m (a + k) (n - k) = seen pt m a n"
  using upt_add_eq_append [of a "a + k" "n - k"] by (simp add: seen_def flip: map_append)

lemma read_host_seen:
  assumes "k \<le> 0x1000 - a mod 0x1000"
  shows "read_host m (GetPtr (pointers pt (of_nat (a div 0x1000))) + of_nat (a mod 0x1000)) k = seen pt m a k"
proof -
  have "[a..<a + k] = map (\<lambda>i. i + a) [0..<k]" by (simp only: map_add_upt add.commute)
  then show ?thesis
    using assms host_of_piece [of _ a pt] by (simp add: read_host_def seen_def add.commute [of _ a])
qed

lemma ReadBlock_plain:
  assumes "plain_pages pt (unat a) n"
  shows "ReadBlock env pt unsafe a n s = Some (seen pt (host_mem s) (unat a) n, s)"
  unfolding ReadBlock_def block_loop_start
proof (subst page_loop_plain [where act = "\<lambda>a n (out, s). (out @ seen pt (host_mem s) a n, s)", OF _ _ _ assms])
  fix x k and st :: "bytes \<times> 'a machine"
  assume "plain_pages pt x k" "0 < k" "k \<le> 0x1000 - x mod 0x1000"
  then show "read_step env pt unsafe (of_nat (x div 0x1000)) (x mod 0x1000) k (of_nat x) st =
      Some (case st of (out, s) \<Rightarrow> (out @ seen pt (host_mem s) x k, s))"
    by (cases st) (simp add: read_step_def plain_pages_def read_host_seen)
qed (auto simp: seen_split, simp_all add: seen_def)

text \<open>Writing byte after byte.\<close>

definition pokes :: "u64 list \<Rightarrow> bytes \<Rightarrow> (u64 \<Rightarrow> u8) \<Rightarrow> u64 \<Rightarrow> u8" where
  "pokes ps bs m = fold (\<lambda>(p, b) m. m(p := b)) (zip ps bs) m"

lemma pokes_append:
  "length ps = length bs \<Longrightarrow> pokes (ps @ qs) (bs @ cs) m = pokes qs cs (pokes ps bs m)"
  by (simp add: pokes_def)

lemma pokes_other: "p \<notin> set ps \<Longrightarrow> pokes ps bs m p = m p"
proof (induction ps arbitrary: bs m)
  case (Cons q ps)
  then show ?case by (cases bs) (auto simp: pokes_def)
qed (simp add: pokes_def)

lemma pokes_read:
  "distinct ps \<Longrightarrow> length ps = length bs \<Longrightarrow> map (pokes ps bs m) ps = bs"
proof (induction ps arbitrary: bs m)
  case (Cons q ps)
  then obtain b bs' where bs: "bs = b # bs'" by (cases bs) auto
  have p: "pokes (q # ps) bs m = pokes ps bs' (m(q := b))" by (simp add: pokes_def bs)
  then show ?case using Cons pokes_other [of q ps bs' "m(q := b)"] by (simp add: bs)
qed simp

lemma write_host_snoc:
  assumes "length bs < 2 ^ 64"
  shows "write_host m p (bs @ [b]) = (write_host m p bs)(p + of_nat (length bs) := b)"
proof
  fix a :: u64
  have e: "unat (a - p) = length bs \<longleftrightarrow> a = p + of_nat (length bs)"
  proof
    assume "unat (a - p) = length bs"
    then have "a - p = of_nat (length bs)" by (metis of_nat_unat ucast_id)
    then show "a = p + of_nat (length bs)" by (simp add: algebra_simps)
  qed (use assms in \<open>simp add: unsigned_of_nat take_bit_nat_eq_self\<close>)
  show "write_host m p (bs @ [b]) a = ((write_host m p bs)(p + of_nat (length bs) := b)) a"
    using e by (auto simp: write_host_def nth_append less_Suc_eq)
qed

lemma write_host_pokes:
  "length bs \<le> 2 ^ 64 \<Longrightarrow> write_host m p bs = pokes (map (\<lambda>i. p + of_nat i) [0..<length bs]) bs m"
proof (induction bs rule: rev_induct)
  case Nil
  then show ?case by (simp add: write_host_def pokes_def)
next
  case (snoc b bs)
  then show ?case
    using write_host_snoc [of bs m p b]
      pokes_append [of "map (\<lambda>i. p + of_nat i) [0..<length bs]" bs "[p + of_nat (length bs)]" "[b]" m]
    by (simp add: pokes_def)
qed

definition host_range :: "page_table \<Rightarrow> nat \<Rightarrow> nat \<Rightarrow> u64 list" where
  "host_range pt a n = map (host_of pt) [a..<a + n]"

lemma host_range_piece:
  assumes "k \<le> 0x1000 - a mod 0x1000"
  shows "map (\<lambda>i. GetPtr (pointers pt (of_nat (a div 0x1000))) + of_nat (a mod 0x1000) + of_nat i) [0..<k] =
    host_range pt a k"
proof -
  have "[a..<a + k] = map (\<lambda>i. i + a) [0..<k]" by (simp only: map_add_upt add.commute)
  then show ?thesis
    using assms host_of_piece [of _ a pt] by (simp add: host_range_def add.commute [of _ a])
qed

definition put :: "page_table \<Rightarrow> nat \<Rightarrow> nat \<Rightarrow> bytes \<times> 'g machine \<Rightarrow> bytes \<times> 'g machine" where
  "put pt a n st = (drop n (fst st),
     snd st\<lparr>host_mem := pokes (host_range pt a (length (take n (fst st)))) (take n (fst st))
       (host_mem (snd st))\<rparr>)"

lemma put_0: "put pt a 0 st = st"
  by (cases st) (simp add: put_def pokes_def)

lemma put_join:
  assumes "k \<le> n"
  shows "put pt (a + k) (n - k) (put pt a k st) = put pt a n st"
proof (cases "length (fst st) \<le> k")
  case True
  then show ?thesis using assms by (simp add: put_def pokes_def)
next
  case False
  let ?xs = "take k (fst st)" and ?ys = "take (n - k) (drop k (fst st))"
  have t: "take n (fst st) = ?xs @ ?ys" using assms by (simp add: take_add [symmetric])
  have l: "length ?xs = k" using False by simp
  have "host_range pt a (k + length ?ys) = host_range pt a k @ host_range pt (a + k) (length ?ys)"
    using upt_add_eq_append [of a "a + k" "length ?ys"] by (simp add: host_range_def add.assoc)
  then have "pokes (host_range pt a (length (take n (fst st)))) (take n (fst st)) m =
      pokes (host_range pt (a + k) (length ?ys)) ?ys (pokes (host_range pt a k) ?xs m)" for m
    using l pokes_append [of "host_range pt a k" ?xs] unfolding t by (simp add: host_range_def)
  then show ?thesis using assms l by (simp add: put_def)
qed

lemma WriteBlock_plain:
  assumes "plain_pages pt (unat a) (length src)"
  shows "WriteBlock env pt unsafe a src s =
    Some (s\<lparr>host_mem := pokes (host_range pt (unat a) (length src)) src (host_mem s)\<rparr>)"
proof -
  have "page_loop (write_step env pt unsafe) (unat a div 0x1000) (unat a mod 0x1000) (length src) (src, s) =
      Some (put pt (unat a) (length src) (src, s))"
  proof (rule page_loop_plain [OF _ put_join put_0 assms])
    fix x k and st :: "bytes \<times> 'a machine"
    assume p: "plain_pages pt x k" "0 < k" "k \<le> 0x1000 - x mod 0x1000"
    let ?bs = "take k (fst st)"
    have l: "length ?bs \<le> 0x1000 - x mod 0x1000" "length ?bs \<le> 2 ^ 64" using p(3) by auto
    have "write_host m (GetPtr (pointers pt (of_nat (x div 0x1000))) + of_nat (x mod 0x1000)) ?bs =
        pokes (host_range pt x (length ?bs)) ?bs m" for m
      using write_host_pokes [OF l(2)] host_range_piece [OF l(1), of pt] by simp
    then show "write_step env pt unsafe (of_nat (x div 0x1000)) (x mod 0x1000) k (of_nat x) st =
        Some (put pt x k st)"
      using p by (cases st) (simp add: write_step_def plain_pages_def put_def store_def)
  qed
  then show ?thesis by (simp add: WriteBlock_def block_loop_start put_def)
qed

text \<open>C38: a block written to plainly mapped pages with distinct host bytes is read back from there,
  wherever the range crosses pages; no other host byte and nothing of the GPU changes.\<close>

theorem write_block_then_read:
  assumes "plain_pages pt (unat a) (length src)"
    and "inj_on (host_of pt) {unat a..<unat a + length src}"
  shows "\<exists>s'. WriteBlock env pt unsafe a src s = Some s' \<and>
    ReadBlock env pt unsafe' a (length src) s' = Some (src, s') \<and> gpu s' = gpu s \<and>
    (\<forall>p. p \<notin> host_of pt ` {unat a..<unat a + length src} \<longrightarrow> host_mem s' p = host_mem s p)"
proof -
  let ?s = "s\<lparr>host_mem := pokes (host_range pt (unat a) (length src)) src (host_mem s)\<rparr>"
  have d: "distinct (host_range pt (unat a) (length src))"
    using assms(2) by (simp add: host_range_def distinct_map)
  have "seen pt (host_mem ?s) (unat a) (length src) = src"
    using pokes_read [OF d, of src] by (simp add: seen_def host_range_def comp_def)
  then show ?thesis
    using WriteBlock_plain [OF assms(1)] ReadBlock_plain [OF assms(1), of env unsafe' ?s]
    by (intro exI [of _ ?s]) (simp add: pokes_other host_range_def)
qed

section \<open>Reads see the areas of the address space\<close>

lemma in_area_page:
  assumes "vma_ok H v"
  shows "in_area (a div 0x1000 * 0x1000) v = in_area a v"
proof -
  obtain q r where qr: "unat (vma_base v) = q * 0x1000" "unat (vma_size v) = r * 0x1000"
    using assms unfolding vma_ok_def page_aligned_iff by (metis mod_eq_0_iff_dvd dvd_div_mult_self)
  have "q * 0x1000 \<le> a \<longleftrightarrow> q \<le> a div 0x1000" by (simp add: less_eq_div_iff_mult_less_eq)
  moreover have "a < (q + r) * 0x1000 \<longleftrightarrow> a div 0x1000 < q + r" by (simp add: div_less_iff_less_mult)
  ultimately show ?thesis
    unfolding in_area_def qr add_mult_distrib [symmetric] mult_less_cancel2 mult_le_cancel2 by simp
qed

lemma view_page:
  assumes ok: "areas_ok H xs" and v: "view xs a = Some (VMA_BackingMemory, p, s, q)"
  shows "view xs (a div 0x1000 * 0x1000) = Some (VMA_BackingMemory, p, s, q - of_nat (a mod 0x1000))"
proof -
  have f: "find (in_area (a div 0x1000 * 0x1000)) xs = find (in_area a) xs"
    using ok in_area_page by (intro find_cong) (auto simp: areas_ok_def)
  obtain v where v: "find (in_area a) xs = Some v" "info v a = (VMA_BackingMemory, p, s, q)"
    using v by (auto simp: view_def)
  have inn: "in_area a v" "v \<in> set xs" using v(1) by (auto simp: find_Some_iff)
  then have "unat (vma_base v) \<le> a div 0x1000 * 0x1000"
    using in_area_page [of H v a] ok by (simp add: areas_ok_def in_area_def)
  then have "a - unat (vma_base v) = (a div 0x1000 * 0x1000 - unat (vma_base v)) + a mod 0x1000"
    using div_mult_mod_eq [of a "0x1000"] by linarith
  then have "(of_nat (a - unat (vma_base v)) :: u64) =
      of_nat (a div 0x1000 * 0x1000 - unat (vma_base v)) + of_nat (a mod 0x1000)"
    by (metis of_nat_add)
  then show ?thesis using v f by (auto simp: view_def info_def split: if_splits)
qed

definition readable :: "cache_marker \<Rightarrow> vma list \<Rightarrow> nat \<Rightarrow> bool" where
  "readable mk xs a \<longleftrightarrow> (\<exists>p s q. view xs a = Some (VMA_BackingMemory, p, s, q)) \<and>
     \<not> Marker_IsCached mk (of_nat (a div 0x1000) * CITRA_PAGE_SIZE)"

lemma host_of_view:
  assumes wf: "vm_wf mk H vm" and a: "a < 0x40000000" and r: "readable mk (vma_map vm) a"
  shows "attributes (vm_page_table vm) (of_nat (a div 0x1000)) = PageMemory \<and>
    host_of (vm_page_table vm) a = byte_at vm a"
proof -
  let ?p = "of_nat (a div 0x1000) :: u32"
  have d: "a div 0x1000 < 0x40000" using a by (simp add: div_less_iff_less_mult)
  then have p: "unat ?p = a div 0x1000" by (simp add: unsigned_of_nat take_bit_nat_eq_self)
  obtain pr s q where v: "view (vma_map vm) a = Some (VMA_BackingMemory, pr, s, q)"
    using r by (auto simp: readable_def)
  have ok: "areas_ok H (vma_map vm)" using wf by (simp add: vm_wf_def)
  have "entry_of (vm_page_table vm) ?p =
      expected_entry mk ?p (view (vma_map vm) (a div 0x1000 * 0x1000))"
    using wf d p unfolding vm_wf_def pages_agree_def by metis
  also have "\<dots> = (PageMemory, q - of_nat (a mod 0x1000))"
    using r unfolding view_page [OF ok v] by (simp add: page_entry_def readable_def)
  finally show ?thesis by (simp add: entry_of_def host_of_def byte_at_def v)
qed

text \<open>\<open>ReadBlock\<close> of a range that is mapped and not cached by the rasterizer returns exactly the
  host bytes that the areas of the address space map the addresses to, and changes nothing:
  the page table and the areas tell the same story.\<close>

theorem read_block_reads_view:
  assumes "vm_wf mk H vm" and "unat a + n \<le> 0x40000000"
    and "\<forall>x \<in> {unat a..<unat a + n}. readable mk (vma_map vm) x"
  shows "ReadBlock env (vm_page_table vm) unsafe a n s =
    Some (map (\<lambda>x. host_mem s (byte_at vm x)) [unat a..<unat a + n], s)"
proof -
  have h: "attributes (vm_page_table vm) (of_nat (x div 0x1000)) = PageMemory \<and>
      host_of (vm_page_table vm) x = byte_at vm x" if "x \<in> {unat a..<unat a + n}" for x
    using that assms(2,3) by (intro host_of_view [OF assms(1)]) auto
  then have "plain_pages (vm_page_table vm) (unat a) n" using assms(2) by (auto simp: plain_pages_def)
  then show ?thesis using h by (simp add: ReadBlock_plain seen_def)
qed

section \<open>Marking a region as cached\<close>

lemma marker_at_page:
  defines "P a \<equiv> unat a div 0x1000"
  shows "marker_at a =
    (if 0x1F000 \<le> P a \<and> P a < 0x1F600 then Some (MarkVram, of_nat (P a - 0x1F000))
     else if 0x14000 \<le> P a \<and> P a < 0x1C000 then Some (MarkLinearHeap, of_nat (P a - 0x14000))
     else if 0x30000 \<le> P a \<and> P a < 0x40000 then Some (MarkNewLinearHeap, of_nat (P a - 0x30000))
     else if 0x6000 \<le> P a \<and> P a < 0x60A9 then Some (MarkPluginFb, of_nat (P a - 0x6000))
     else None)"
proof -
  have lo: "of_nat (k * 0x1000) \<le> a \<longleftrightarrow> k \<le> P a" and hi: "a < of_nat (k * 0x1000) \<longleftrightarrow> P a < k"
    and off: "k \<le> P a \<Longrightarrow> (a - of_nat (k * 0x1000)) div CITRA_PAGE_SIZE = of_nat (P a - k)"
    if k: "k < 0x100000" for k
  proof -
    have u: "unat (of_nat (k * 0x1000) :: u32) = k * 0x1000"
      using k take_bit_nat_eq_self [of "k * 0x1000" "LENGTH(32)"] unfolding unsigned_of_nat by simp
    show l: "of_nat (k * 0x1000) \<le> a \<longleftrightarrow> k \<le> P a"
      unfolding word_le_nat_alt u P_def by (simp add: less_eq_div_iff_mult_less_eq)
    show "a < of_nat (k * 0x1000) \<longleftrightarrow> P a < k"
      unfolding word_less_nat_alt u P_def by (simp add: div_less_iff_less_mult)
    assume kp: "k \<le> P a"
    then obtain m where m: "unat a = k * 0x1000 + m"
      unfolding P_def by (metis le_Suc_ex less_eq_div_iff_mult_less_eq zero_less_numeral)
    have "unat (a - of_nat (k * 0x1000)) = m"
      using l kp u m by (simp add: unat_sub)
    then have "unat ((a - of_nat (k * 0x1000)) div CITRA_PAGE_SIZE) = m div 0x1000"
      by (simp add: unat_div_distrib)
    moreover have "P a - k = m div 0x1000" by (simp add: P_def m)
    moreover have "m div 0x1000 < 2 ^ 32"
      using m unat_u32_less [of a] by (simp add: div_less_iff_less_mult)
    ultimately show "(a - of_nat (k * 0x1000)) div CITRA_PAGE_SIZE = of_nat (P a - k)"
      by (simp add: word_unat_eq_iff unsigned_of_nat take_bit_nat_eq_self)
  qed
  show ?thesis
    using lo [of "0x1F000"] hi [of "0x1F600"] off [of "0x1F000"]
      lo [of "0x14000"] hi [of "0x1C000"] off [of "0x14000"]
      lo [of "0x30000"] hi [of "0x40000"] off [of "0x30000"]
      lo [of "0x6000"] hi [of "0x60A9"] off [of "0x6000"]
    by (simp add: marker_at_def)
qed

abbreviation page_no :: "u32 \<Rightarrow> nat" where "page_no a \<equiv> unat a div 0x1000"

lemma marker_page_eq: "page_no a = page_no b \<Longrightarrow> marker_at a = marker_at b"
  unfolding marker_at_page by simp

lemma of_nat_u32_eq: "m < 0x100000 \<Longrightarrow> n < 0x100000 \<Longrightarrow> (of_nat m :: u32) = of_nat n \<longleftrightarrow> m = n"
  by (auto simp: word_unat_eq_iff unsigned_of_nat take_bit_nat_eq_self)

lemma marker_page_inj: "marker_at a = marker_at b \<Longrightarrow> marker_at a \<noteq> None \<Longrightarrow> page_no a = page_no b"
  unfolding marker_at_page by (auto simp: of_nat_u32_eq split: if_splits)

lemma IsCached_Mark:
  assumes "marker_at v \<noteq> None"
  shows "Marker_IsCached (Marker_Mark mk v c) a = (if page_no a = page_no v then c else Marker_IsCached mk a)"
proof (cases "page_no a = page_no v")
  case True
  then show ?thesis
    using assms marker_page_eq [OF True] by (auto simp: Marker_IsCached_def Marker_Mark_def split: option.splits)
next
  case False
  then have "marker_at a \<noteq> marker_at v" using assms marker_page_inj by metis
  then show ?thesis
    using False assms by (auto simp: Marker_IsCached_def Marker_Mark_def split: option.splits)
qed

text \<open>The pages the rasterizer may cache are backed by the memory it looks them up in.\<close>

definition one_to_one :: "'g mem_env \<Rightarrow> vma list \<Rightarrow> bool" where
  "one_to_one env xs \<longleftrightarrow> (\<forall>a p s q. view xs a = Some (VMA_BackingMemory, p, s, q) \<and> a mod 0x1000 = 0 \<and>
     marker_at (of_nat a) \<noteq> None \<longrightarrow>
     (\<exists>r. GetPointerForRasterizerCache env (of_nat a) = Some r \<and> GetPtr r = q))"

lemma page_base:
  "v AND NOT CITRA_PAGE_MASK = of_nat (page_no v * 0x1000)" "page_no (of_nat (page_no v * 0x1000)) = page_no v"
proof -
  have lt: "page_no v * 0x1000 < 2 ^ 32" using unat_u32_less [of v] div_mult_mod_eq [of "unat v" "0x1000"] by linarith
  have u: "unat (of_nat (page_no v * 0x1000) :: u32) = page_no v * 0x1000"
    using lt take_bit_nat_eq_self [of "page_no v * 0x1000" "LENGTH(32)"] unfolding unsigned_of_nat by simp
  then show "page_no (of_nat (page_no v * 0x1000)) = page_no v" by simp
  have "(0xFFF :: u32) = mask 12" by (simp add: mask_eq_exp_minus_1)
  moreover have "v AND NOT (mask 12) = push_bit 12 (drop_bit 12 v)"
    by (rule bit_word_eqI) (auto simp: bit_and_iff bit_not_iff bit_mask_iff bit_push_bit_iff bit_drop_bit_eq)
  moreover have "push_bit 12 (drop_bit 12 v) = v - take_bit 12 v"
    using bits_ident [of 12 v] by (metis add_diff_cancel_right')
  ultimately have "v AND NOT CITRA_PAGE_MASK = v - take_bit 12 v" by simp
  moreover have "unat (take_bit 12 v) = unat v mod 0x1000"
    by (simp only: unsigned_take_bit_eq) (simp add: take_bit_eq_mod)
  ultimately have "unat (v AND NOT CITRA_PAGE_MASK) = unat v - unat v mod 0x1000"
    by (simp add: unat_sub word_le_nat_alt)
  also have "\<dots> = page_no v * 0x1000" by (simp add: minus_mod_eq_div_mult)
  finally show "v AND NOT CITRA_PAGE_MASK = of_nat (page_no v * 0x1000)"
    using u by (simp add: word_unat_eq_iff)
qed

lemma page_index_no: "unat (page_index v) = page_no v"
  by (simp add: page_index_def drop_bit_eq_div unat_div_distrib)

lemma page_no_scaled: "unat (p :: u32) < 0x100000 \<Longrightarrow> page_no (p * CITRA_PAGE_SIZE) = unat p"
  using take_bit_nat_eq_self [of "unat p * 0x1000" "LENGTH(32)"]
  by (simp add: unat_word_ariths take_bit_eq_mod)

lemma marked_bound: "marker_at v \<noteq> None \<Longrightarrow> page_no v < 0x40000"
  unfolding marker_at_page by (simp split: if_splits)

lemma mark_in_table_agrees:
  assumes agree: "pages_agree mk xs pt" and m: "marker_at v \<noteq> None"
    and old: "Marker_IsCached mk v = (\<not> cached)" and oo: "cached \<or> one_to_one env xs"
  shows "\<exists>pt'. mark_in_table env cached v pt = Some pt' \<and> pages_agree (Marker_Mark mk v cached) xs pt'"
proof -
  let ?p = "page_index v"
  have p: "unat ?p = page_no v" "page_no v < 0x40000" using page_index_no marked_bound [OF m] by simp_all
  have sc: "Marker_IsCached mk' (?p * CITRA_PAGE_SIZE) = Marker_IsCached mk' v" for mk'
    using marker_page_eq [of "?p * CITRA_PAGE_SIZE" v] page_no_scaled [of ?p] p
    by (simp add: Marker_IsCached_def)
  have e: "entry_of pt ?p = expected_entry mk ?p (view xs (page_no v * 0x1000))"
    using agree p by (simp add: pages_agree_def)
  have other: "expected_entry (Marker_Mark mk v cached) page i = expected_entry mk page i"
    if "page \<noteq> ?p" "unat page < 0x40000" for page i
  proof -
    have "page_no (page * CITRA_PAGE_SIZE) \<noteq> page_no v"
      using that page_no_scaled [of page] p(1) by (simp add: word_unat_eq_iff)
    then show ?thesis
      using IsCached_Mark [OF m] by (cases "(mk, page, i)" rule: expected_entry.cases) (simp_all add: page_entry_def)
  qed
  have new: "pages_agree (Marker_Mark mk v cached) xs pt'"
    if "entry_of pt' ?p = expected_entry (Marker_Mark mk v cached) ?p (view xs (page_no v * 0x1000))"
      "\<And>page. page \<noteq> ?p \<Longrightarrow> entry_of pt' page = entry_of pt page" for pt'
    using agree that other p(1) unfolding pages_agree_def by metis
  show ?thesis
  proof (cases "\<exists>pr s q. view xs (page_no v * 0x1000) = Some (VMA_BackingMemory, pr, s, q)")
    case False
    then have u: "expected_entry mk' ?p (view xs (page_no v * 0x1000)) = (Unmapped, 0)" for mk'
      by (cases "(mk', ?p, view xs (page_no v * 0x1000))" rule: expected_entry.cases) auto
    then have "mark_in_table env cached v pt = Some pt"
      using e by (simp add: mark_in_table_def entry_of_def Let_def)
    then show ?thesis using new [of pt] e u by auto
  next
    case True
    then obtain pr s q where w: "view xs (page_no v * 0x1000) = Some (VMA_BackingMemory, pr, s, q)" by blast
    show ?thesis
    proof (cases cached)
      case True
      let ?pt = "pt\<lparr>attributes := (attributes pt)(?p := RasterizerCachedMemory),
        pointers := (pointers pt)(?p := null_ref)\<rparr>"
      have "mark_in_table env cached v pt = Some ?pt"
        using e w True old by (simp add: mark_in_table_def entry_of_def Let_def page_entry_def sc)
      moreover have "pages_agree (Marker_Mark mk v cached) xs ?pt"
        using True by (intro new) (simp_all add: w entry_of_def page_entry_def sc IsCached_Mark [OF m])
      ultimately show ?thesis by blast
    next
      case False
      have "marker_at (of_nat (page_no v * 0x1000)) \<noteq> None"
        using marker_page_eq [OF page_base(2)] m by simp
      then obtain r where r: "GetPointerForRasterizerCache env (of_nat (page_no v * 0x1000)) = Some r" "GetPtr r = q"
        using oo False w unfolding one_to_one_def by (metis mod_mult_self2_is_0)
      let ?pt = "pt\<lparr>attributes := (attributes pt)(?p := PageMemory), pointers := (pointers pt)(?p := r)\<rparr>"
      have "mark_in_table env cached v pt = Some ?pt"
        using e w False old r unfolding mark_in_table_def page_base(1)
        by (simp add: entry_of_def Let_def page_entry_def sc)
      moreover have "pages_agree (Marker_Mark mk v cached) xs ?pt"
        using False r by (intro new) (simp_all add: w entry_of_def page_entry_def sc IsCached_Mark [OF m])
      ultimately show ?thesis by blast
    qed
  qed
qed

definition tables_agree :: "cache_marker \<Rightarrow> vma list list \<Rightarrow> page_table list \<Rightarrow> bool" where
  "tables_agree mk spaces pts \<longleftrightarrow> list_all2 (pages_agree mk) spaces pts"

lemma those_map_agrees:
  assumes "list_all2 P xs ys" and "\<And>x y. x \<in> set xs \<Longrightarrow> P x y \<Longrightarrow> \<exists>y'. f y = Some y' \<and> Q x y'"
  shows "\<exists>ys'. those_map f ys = Some ys' \<and> list_all2 Q xs ys'"
  using assms
proof (induction rule: list_all2_induct)
  case (Cons x xs y ys)
  obtain y' where "f y = Some y'" "Q x y'" using Cons.prems Cons.hyps by auto
  moreover obtain ys' where "those_map f ys = Some ys'" "list_all2 Q xs ys'"
    using Cons.IH Cons.prems by auto
  ultimately show ?case by auto
qed simp

lemma mark_vaddrs_agrees:
  assumes "tables_agree mk spaces pts" and "\<forall>v \<in> set vs. marker_at v \<noteq> None"
    and "\<forall>v \<in> set vs. Marker_IsCached mk v = (\<not> cached)" and "distinct (map page_no vs)"
    and "\<forall>xs \<in> set spaces. cached \<or> one_to_one env xs"
  shows "\<exists>mk' pts'. mark_vaddrs env cached vs (mk, pts) = Some (mk', pts') \<and>
    tables_agree mk' spaces pts' \<and>
    (\<forall>a. Marker_IsCached mk' a = (if page_no a \<in> page_no ` set vs then cached else Marker_IsCached mk a))"
  using assms(1-4)
proof (induction vs arbitrary: mk pts)
  case (Cons v vs)
  have m: "marker_at v \<noteq> None" using Cons.prems by simp
  obtain pts1 where p: "those_map (mark_in_table env cached v) pts = Some pts1"
    "tables_agree (Marker_Mark mk v cached) spaces pts1"
    using those_map_agrees [of "pages_agree mk" spaces pts "mark_in_table env cached v"
        "pages_agree (Marker_Mark mk v cached)"]
      mark_in_table_agrees [OF _ m] Cons.prems assms(5)
    unfolding tables_agree_def by (metis list.set_intros(1))
  have "\<forall>u \<in> set vs. Marker_IsCached (Marker_Mark mk v cached) u = (\<not> cached)"
  proof
    fix u assume u: "u \<in> set vs"
    then have "page_no u \<in> page_no ` set vs" by (rule imageI)
    moreover have "page_no v \<notin> page_no ` set vs"
      using Cons.prems(4) unfolding list.map distinct.simps set_map by (rule conjunct1)
    ultimately have "page_no u \<noteq> page_no v" by metis
    then show "Marker_IsCached (Marker_Mark mk v cached) u = (\<not> cached)"
      using u Cons.prems(3) by (simp add: IsCached_Mark [OF m])
  qed
  then obtain mk' pts' where r: "mark_vaddrs env cached vs (Marker_Mark mk v cached, pts1) = Some (mk', pts')"
    "tables_agree mk' spaces pts'"
    "\<forall>a. Marker_IsCached mk' a =
      (if page_no a \<in> page_no ` set vs then cached else Marker_IsCached (Marker_Mark mk v cached) a)"
    using Cons.IH [OF p(2)] Cons.prems by auto
  then show ?case using p(1) by (auto simp: IsCached_Mark [OF m])
qed simp

lemma mark_vaddrs_append:
  "mark_vaddrs env cached (us @ vs) st = Option.bind (mark_vaddrs env cached us st) (mark_vaddrs env cached vs)"
proof (induction us arbitrary: st)
  case (Cons u us)
  show ?case by (cases st) (auto simp: Cons.IH split: bind_split)
next
  case Nil
  show ?case by (cases st) simp
qed

definition region_vaddrs :: "'g mem_env \<Rightarrow> u32 \<Rightarrow> nat \<Rightarrow> u32 list" where
  "region_vaddrs env start n =
     concat (map (\<lambda>i. PhysicalToVirtualAddressForRasterizer env (start + of_nat i * CITRA_PAGE_SIZE)) [0..<n])"

lemma mark_pages_vaddrs: "mark_pages env cached n start st = mark_vaddrs env cached (region_vaddrs env start n) st"
proof (induction n arbitrary: start st)
  case 0
  then show ?case by (cases st) (simp add: region_vaddrs_def)
next
  case (Suc n)
  have "region_vaddrs env start (Suc n) = PhysicalToVirtualAddressForRasterizer env start @
      region_vaddrs env (start + CITRA_PAGE_SIZE) n"
    unfolding region_vaddrs_def upt_conv_Cons [OF zero_less_Suc] map_Suc_upt [symmetric]
    by (simp add: comp_def algebra_simps)
  moreover have "mark_pages env cached n (start + CITRA_PAGE_SIZE) =
      mark_vaddrs env cached (region_vaddrs env (start + CITRA_PAGE_SIZE) n)"
    by (rule ext) (rule Suc.IH)
  ultimately show ?case by (simp add: mark_vaddrs_append)
qed

text \<open>Without a plugin framebuffer, the virtual pages of a physical page.\<close>

lemma vaddr_pages:
  assumes "plugin_fb env = None"
  shows "map page_no (PhysicalToVirtualAddressForRasterizer env a) =
    (let P = page_no a in
     if 0x18000 \<le> P \<and> P < 0x18600 then [P + 0x7000]
     else if 0x20000 \<le> P \<and> P < 0x28000 then [P - 0xC000, P + 0x10000]
     else if 0x28000 \<le> P \<and> P < 0x30000 then [P + 0x10000] else [])"
proof -
  have cmp: "of_nat (k * 0x1000) \<le> a \<longleftrightarrow> k \<le> page_no a" "a < of_nat (k * 0x1000) \<longleftrightarrow> page_no a < k"
    if k: "k < 0x100000" for k
  proof -
    have u: "unat (of_nat (k * 0x1000) :: u32) = k * 0x1000"
      using k take_bit_nat_eq_self [of "k * 0x1000" "LENGTH(32)"] unfolding unsigned_of_nat by simp
    show "of_nat (k * 0x1000) \<le> a \<longleftrightarrow> k \<le> page_no a" "a < of_nat (k * 0x1000) \<longleftrightarrow> page_no a < k"
      unfolding word_le_nat_alt word_less_nat_alt u
      by (simp_all add: less_eq_div_iff_mult_less_eq div_less_iff_less_mult)
  qed
  have add: "page_no (a + d) = page_no a + k" if "unat a + unat d < 2 ^ 32" "unat d = k * 0x1000" for d k
    using unat_plus_fits [OF that(1)] that(2) by simp
  have sub: "page_no (a - d) = page_no a - k" if "unat d \<le> unat a" "unat d = k * 0x1000" for d k
  proof -
    define m where "m = unat a - unat d"
    then have m: "unat a = k * 0x1000 + m" using that by simp
    have "unat (a - d) = unat a - unat d" using that(1) by (simp add: unat_sub word_le_nat_alt)
    then have "unat (a - d) = m" unfolding m that(2) by simp
    moreover have "page_no a = k + m div 0x1000" unfolding m by simp
    ultimately show ?thesis by simp
  qed
  have b: "unat a < 0x1000 * (page_no a + 1)" by simp
  define P where "P = page_no a"
  have v1: "page_no (a + 0x07000000) = P + 0x7000" if "P < 0x18600"
    using add [of "0x07000000" "0x7000"] that b unfolding P_def [symmetric] by simp
  have v2: "page_no (a - 0x0C000000) = P - 0xC000" if "0x20000 \<le> P"
    using sub [of "0x0C000000" "0xC000"] that unfolding P_def by simp
  have v3: "page_no (a + 0x10000000) = P + 0x10000" if "P < 0x30000"
    using add [of "0x10000000" "0x10000"] that b unfolding P_def [symmetric] by simp
  have c: "0x18000000 \<le> a \<longleftrightarrow> 0x18000 \<le> P" "a < 0x18600000 \<longleftrightarrow> P < 0x18600"
    "0x20000000 \<le> a \<longleftrightarrow> 0x20000 \<le> P" "a < 0x28000000 \<longleftrightarrow> P < 0x28000"
    "0x28000000 \<le> a \<longleftrightarrow> 0x28000 \<le> P" "a < 0x30000000 \<longleftrightarrow> P < 0x30000"
    using cmp [of "0x18000"] cmp [of "0x18600"] cmp [of "0x20000"] cmp [of "0x28000"] cmp [of "0x30000"]
    unfolding P_def [symmetric] by simp_all
  have e: "PhysicalToVirtualAddressForRasterizer env a =
    (if 0x18000 \<le> P \<and> P < 0x18600 then [a + 0x07000000]
     else if 0x20000 \<le> P \<and> P < 0x28000 then [a - 0x0C000000, a + 0x10000000]
     else if 0x28000 \<le> P \<and> P < 0x30000 then [a + 0x10000000] else [])"
    unfolding PhysicalToVirtualAddressForRasterizer_def c assms by simp
  show ?thesis unfolding e Let_def P_def [symmetric] using v1 v2 v3 by simp
qed

definition pages_of :: "nat \<Rightarrow> nat list" where
  "pages_of P = (if 0x18000 \<le> P \<and> P < 0x18600 then [P + 0x7000]
     else if 0x20000 \<le> P \<and> P < 0x28000 then [P - 0xC000, P + 0x10000]
     else if 0x28000 \<le> P \<and> P < 0x30000 then [P + 0x10000] else [])"

lemma pages_of_distinct: "distinct (pages_of P)"
  and pages_of_disjoint: "P \<noteq> Q \<Longrightarrow> set (pages_of P) \<inter> set (pages_of Q) = {}"
  by (auto simp: pages_of_def)

lemma pages_of_marked: "page_no v \<in> set (pages_of P) \<Longrightarrow> marker_at v \<noteq> None"
  unfolding pages_of_def marker_at_page Let_def by (auto split: if_splits)

lemma distinct_pages: "distinct (concat (map (\<lambda>i. pages_of (P + i)) [0..<n]))"
proof (induction n)
  case (Suc n)
  have "set (pages_of (P + n)) \<inter> set (concat (map (\<lambda>i. pages_of (P + i)) [0..<n])) = {}"
  proof -
    have "set (pages_of (P + n)) \<inter> set (pages_of (P + i)) = {}" if "i < n" for i
      using that by (intro pages_of_disjoint) simp
    then show ?thesis by fastforce
  qed
  then show ?case using Suc pages_of_distinct by (auto simp: Int_commute)
qed simp

definition region_pages :: "u32 \<Rightarrow> u32 \<Rightarrow> nat" where
  "region_pages start sz = page_no (start + sz - 1) - page_no start + 1"

lemma page_no_step:
  assumes "page_no a + i < 0x100000"
  shows "page_no (a + of_nat i * CITRA_PAGE_SIZE) = page_no a + i"
proof -
  define P r where "P = page_no a" and "r = unat a mod 0x1000"
  have a: "unat a = P * 0x1000 + r" "r < 0x1000" by (simp_all add: P_def r_def)
  have i: "i < 0x100000" using assms by simp
  have u: "unat (of_nat i * CITRA_PAGE_SIZE) = i * 0x1000"
    using i take_bit_nat_eq_self [of "i * 0x1000" "LENGTH(32)"] take_bit_nat_eq_self [of i "LENGTH(32)"]
    by (simp add: unat_word_ariths unsigned_of_nat take_bit_eq_mod)
  have "P + i < 0x100000" using assms by (simp add: P_def)
  then have "P * 0x1000 + r + i * 0x1000 < 2 ^ 32" using a(2) by simp
  then have "unat (a + of_nat i * CITRA_PAGE_SIZE) = (P + i) * 0x1000 + r"
    using unat_plus_fits [of a "of_nat i * CITRA_PAGE_SIZE"] unfolding a(1) u by simp
  then have "page_no (a + of_nat i * CITRA_PAGE_SIZE) = ((P + i) * 0x1000 + r) div 0x1000" by (rule arg_cong)
  also have "\<dots> = P + i" using a(2) by (simp only: div_mult_self3)
  finally show ?thesis by (simp add: P_def)
qed

lemma region_vaddr_pages:
  assumes "plugin_fb env = None" and "page_no start + n \<le> 0x100000"
  shows "map page_no (region_vaddrs env start n) = concat (map (\<lambda>i. pages_of (page_no start + i)) [0..<n])"
proof -
  have "map page_no (PhysicalToVirtualAddressForRasterizer env (start + of_nat i * CITRA_PAGE_SIZE)) =
      pages_of (page_no start + i)" if "i < n" for i
    using vaddr_pages [OF assms(1), of "start + of_nat i * CITRA_PAGE_SIZE"] page_no_step [of start i] that assms(2)
    by (simp add: pages_of_def Let_def)
  then show ?thesis
    unfolding region_vaddrs_def map_concat map_map comp_def
    by (intro arg_cong [where f = concat] map_cong refl) simp
qed

text \<open>C39: marking a physical region as cached by the rasterizer, or as no longer cached, reaches
  every address space: no page is in an unexpected state, afterwards every page table agrees with
  its areas under the new marker, and the marker has changed for exactly the virtual pages of the
  region. It holds when no page of the region has the new mark already and, for unmarking, when
  the cacheable pages are backed by the memory that the rasterizer looks them up in.\<close>

theorem mark_region_keeps_agreement:
  assumes "plugin_fb env = None" and agree: "tables_agree mk spaces pts"
    and "start \<noteq> 0" "0 < unat sz" "unat start + unat sz \<le> 2 ^ 32"
    and "\<forall>v \<in> set (region_vaddrs env start (region_pages start sz)). Marker_IsCached mk v = (\<not> cached)"
    and "\<forall>xs \<in> set spaces. cached \<or> one_to_one env xs"
  shows "\<exists>mk' pts'. RasterizerMarkRegionCached env start sz cached (mk, pts) = Some (mk', pts') \<and>
    tables_agree mk' spaces pts' \<and>
    (\<forall>a. Marker_IsCached mk' a =
      (if page_no a \<in> page_no ` set (region_vaddrs env start (region_pages start sz)) then cached
       else Marker_IsCached mk a))"
proof -
  let ?n = "region_pages start sz" and ?e = "start + sz - 1"
  have e: "unat ?e = unat start + unat sz - 1"
  proof -
    have "1 \<le> sz" using assms(4) by (simp add: word_le_nat_alt)
    then have "unat (sz - 1) = unat sz - 1" by (simp add: unat_sub)
    then have "unat (start + (sz - 1)) = unat start + (unat sz - 1)"
      using assms(4,5) by (subst unat_plus_fits) simp_all
    then show ?thesis using assms(4) by (simp add: algebra_simps)
  qed
  have le: "page_no start \<le> page_no ?e" using e assms(4) by (intro div_le_mono) simp
  have lt: "page_no ?e < 0x100000" using unat_u32_less [of ?e] by (simp add: div_less_iff_less_mult)
  have "drop_bit 12 start \<le> drop_bit 12 ?e"
    using le by (simp add: word_le_nat_alt drop_bit_eq_div unat_div_distrib)
  then have "unat (drop_bit 12 ?e - drop_bit 12 start) = page_no ?e - page_no start"
    by (simp add: unat_sub drop_bit_eq_div unat_div_distrib)
  then have n: "unat (drop_bit 12 ?e - drop_bit 12 start + 1) = ?n"
    using lt by (subst unat_plus_fits) (simp_all add: region_pages_def)
  have bound: "page_no start + ?n \<le> 0x100000" using le lt by (simp add: region_pages_def)
  note m = region_vaddr_pages [OF assms(1) bound]
  have "distinct (map page_no (region_vaddrs env start ?n))" unfolding m by (rule distinct_pages)
  moreover have "\<forall>v \<in> set (region_vaddrs env start ?n). marker_at v \<noteq> None"
  proof
    fix v assume "v \<in> set (region_vaddrs env start ?n)"
    then have "page_no v \<in> set (map page_no (region_vaddrs env start ?n))" by (simp only: set_map) (rule imageI)
    then obtain i where "page_no v \<in> set (pages_of (page_no start + i))" unfolding m by auto
    then show "marker_at v \<noteq> None" by (rule pages_of_marked)
  qed
  ultimately show ?thesis
    using mark_vaddrs_agrees [OF agree, of "region_vaddrs env start ?n" cached env] assms(3,6,7) n
    by (simp add: RasterizerMarkRegionCached_def mark_pages_vaddrs)
qed

section \<open>Concrete memories\<close>

definition example_env :: "unit mem_env" where
  "example_env = \<lparr>phys = example_bufs, rasterizer = (\<lambda>_ _ _ s. s), plugin_fb = None,
     gpu_read_reg = (\<lambda>_ _. 0), gpu_write_reg = (\<lambda>_ _ g. g)\<rparr>"

definition example_machine :: "unit machine" where
  "example_machine = \<lparr>host_mem = (\<lambda>p. ucast p), gpu = ()\<rparr>"

text \<open>Two virtual pages backed by host pages in the opposite order.\<close>

definition swapped_pages :: page_table where
  "swapped_pages = \<lparr>attributes = (\<lambda>p. if p = 5 \<or> p = 6 then PageMemory else Unmapped),
     pointers = (\<lambda>p. \<lparr>backing_mem = Some example_buffer, ref_offset = (if p = 5 then 0x1000 else 0)\<rparr>)\<rparr>"

lemma write_block_then_read_witness:
  "\<exists>s'. WriteBlock example_env swapped_pages False 0x5FFE [1, 2, 3, 4] example_machine = Some s' \<and>
    ReadBlock example_env swapped_pages False 0x5FFE 4 s' = Some ([1, 2, 3, 4], s')"
proof -
  have r: "{unat (0x5FFE :: u32)..<unat (0x5FFE :: u32) + length [1, 2, 3, 4 :: u8]} =
      {0x5FFE, 0x5FFF, 0x6000, 0x6001}"
    by auto
  have p: "plain_pages swapped_pages (unat (0x5FFE :: u32)) (length [1, 2, 3, 4 :: u8])"
    unfolding plain_pages_def r by (simp add: swapped_pages_def)
  have i: "inj_on (host_of swapped_pages) {unat (0x5FFE :: u32)..<unat (0x5FFE :: u32) + length [1, 2, 3, 4 :: u8]}"
    unfolding r by (simp add: host_of_def swapped_pages_def GetPtr_def example_buffer_def)
  have l: "length [1, 2, 3, 4 :: u8] = 4" by simp
  show ?thesis
    using write_block_then_read [OF p i, of example_env False example_machine False] unfolding l by blast
qed

lemma read_block_reads_view_witness:
  "ReadBlock example_env (vm_page_table example_mapped) False 0x101FFE 2 example_machine =
    Some ([0xFE, 0xFF], example_machine)"
proof -
  have "\<forall>x \<in> {unat (0x101FFE :: u32)..<unat (0x101FFE :: u32) + 2}.
      readable (\<lambda>_. False) (vma_map example_mapped) x"
    by (auto simp: readable_def example_mapped_ok(3) Marker_IsCached_def split: option.splits)
  moreover have "[0x101FFE..<0x102000] = [0x101FFE, 0x101FFF :: nat]" by (simp add: upt_rec)
  ultimately show ?thesis
    using read_block_reads_view [OF example_mapped_ok(1), of "0x101FFE" 2 example_env False example_machine]
    by (simp add: byte_at_def example_mapped_ok(3) example_machine_def)
qed

text \<open>One page of VRAM, mapped where the rasterizer expects it.\<close>

definition vram_vma :: vma where
  "vram_vma = \<lparr>vma_base = 0x1F000000, vma_size = 0x1000, vma_type = VMA_BackingMemory,
     permissions = Perm_ReadWrite, meminfo_state = MS_IO,
     backing_memory = \<lparr>backing_mem = Some (vram_mem example_bufs), ref_offset = 0\<rparr>\<rparr>"

definition vram_areas :: "vma list" where "vram_areas = [vram_vma]"

definition vram_table :: page_table where
  "vram_table = \<lparr>attributes = (\<lambda>p. if p = 0x1F000 then PageMemory else Unmapped),
     pointers = (\<lambda>p. if p = 0x1F000 then backing_memory vram_vma else null_ref)\<rparr>"

lemma vram_agrees: "tables_agree (\<lambda>_. False) [vram_areas] [vram_table]"
proof -
  have "entry_of vram_table page = expected_entry (\<lambda>_. False) page (view vram_areas (unat page * 0x1000))" for page
  proof (cases "page = 0x1F000")
    case True
    then show ?thesis
      by (simp add: entry_of_def vram_table_def vram_areas_def vram_vma_def view_Cons in_area_def info_def
        page_entry_def Marker_IsCached_def split: option.split)
  next
    case False
    then have "unat page \<noteq> 0x1F000" by (simp add: word_unat_eq_iff)
    then have "\<not> in_area (unat page * 0x1000) vram_vma" by (auto simp: in_area_def vram_vma_def)
    then show ?thesis using False by (simp add: entry_of_def vram_table_def vram_areas_def view_Cons)
  qed
  then show ?thesis by (simp add: tables_agree_def pages_agree_def)
qed

lemma mark_region_keeps_agreement_witness:
  "\<exists>mk' pt'. RasterizerMarkRegionCached example_env 0x18000010 0x20 True (\<lambda>_. False, [vram_table]) =
      Some (mk', [pt']) \<and> pages_agree mk' vram_areas pt' \<and> Marker_IsCached mk' 0x1F000123"
proof -
  have n: "region_pages 0x18000010 0x20 = Suc 0" by (simp add: region_pages_def)
  have v: "region_vaddrs example_env 0x18000010 (Suc 0) = [0x1F000010]"
    by (simp add: region_vaddrs_def PhysicalToVirtualAddressForRasterizer_def)
  have c: "\<not> Marker_IsCached (\<lambda>_. False) a" for a by (simp add: Marker_IsCached_def split: option.split)
  have e: "plugin_fb example_env = None" by (simp add: example_env_def)
  obtain mk' pts' where r: "RasterizerMarkRegionCached example_env 0x18000010 0x20 True (\<lambda>_. False, [vram_table]) =
      Some (mk', pts')" "tables_agree mk' [vram_areas] pts'"
    "\<forall>a. Marker_IsCached mk' a = (if page_no a \<in> page_no ` set [0x1F000010 :: u32] then True
       else Marker_IsCached (\<lambda>_. False) a)"
    using mark_region_keeps_agreement [of example_env "\<lambda>_. False" "[vram_areas]" "[vram_table]"
        "0x18000010" "0x20" True, OF e vram_agrees]
    unfolding n v by (auto simp: c)
  obtain pt' where "pts' = [pt']" "pages_agree mk' vram_areas pt'"
    using r(2) by (auto simp: tables_agree_def list_all2_Cons1)
  then show ?thesis using r by auto
qed

end
