(* ===== verification/ResourceLimit.thy ===== *)
theory ResourceLimit
  imports Prelude
begin

text \<open>
  \<open>Kernel::ResourceLimit\<close> and \<open>ResourceLimitList\<close> (\<open>core/hle/kernel/resource_limit.h\<close>,
  \<open>.cpp\<close>): per-category accounting of kernel resources. The two arrays are lists of ten \<open>s32\<close>;
  an index past their end is undefined. The settings and the application region's size, which
  the constructor of the list reads, are arguments.
\<close>

section \<open>Data\<close>

datatype ResourceLimitCategory =
  CategoryApplication | CategorySysApplet | CategoryLibApplet | CategoryOther | CategoryUnknown u8

abbreviation (input) "RL_Priority \<equiv> (0 :: u32)"
abbreviation (input) "RL_Commit \<equiv> (1 :: u32)"
abbreviation (input) "RL_Thread \<equiv> (2 :: u32)"
abbreviation (input) "RL_Event \<equiv> (3 :: u32)"
abbreviation (input) "RL_Mutex \<equiv> (4 :: u32)"
abbreviation (input) "RL_Semaphore \<equiv> (5 :: u32)"
abbreviation (input) "RL_Timer \<equiv> (6 :: u32)"
abbreviation (input) "RL_SharedMemory \<equiv> (7 :: u32)"
abbreviation (input) "RL_AddressArbiter \<equiv> (8 :: u32)"
abbreviation (input) "RL_CpuTime \<equiv> (9 :: u32)"

record resource_limit =
  m_name :: string
  m_limit_values :: "s32 list"
  m_current_values :: "s32 list"

definition array_get :: "'a list \<Rightarrow> u32 \<Rightarrow> 'a run" where
  "array_get xs i = (if unat i < length xs then Some (xs ! unat i) else None)"

definition array_set :: "'a list \<Rightarrow> u32 \<Rightarrow> 'a \<Rightarrow> 'a list run" where
  "array_set xs i x = (if unat i < length xs then Some (xs[unat i := x]) else None)"

section \<open>Operations\<close>

definition ResourceLimit_Create :: "string \<Rightarrow> resource_limit" where
  "ResourceLimit_Create name =
     \<lparr>m_name = name, m_limit_values = replicate 10 0, m_current_values = replicate 10 0\<rparr>"

definition GetCurrentValue :: "resource_limit \<Rightarrow> u32 \<Rightarrow> s32 run" where
  "GetCurrentValue r type = array_get (m_current_values r) type"

definition GetLimitValue :: "resource_limit \<Rightarrow> u32 \<Rightarrow> s32 run" where
  "GetLimitValue r type = array_get (m_limit_values r) type"

definition SetLimitValue :: "resource_limit \<Rightarrow> u32 \<Rightarrow> s32 \<Rightarrow> resource_limit run" where
  "SetLimitValue r type value = do {
     values \<leftarrow> array_set (m_limit_values r) type value;
     Some (r\<lparr>m_limit_values := values\<rparr>)}"

definition Reserve :: "resource_limit \<Rightarrow> u32 \<Rightarrow> s32 \<Rightarrow> (bool \<times> resource_limit) run" where
  "Reserve r type amount = do {
     limit \<leftarrow> array_get (m_limit_values r) type;
     current \<leftarrow> array_get (m_current_values r) type;
     new_value \<leftarrow> s32_add current amount;
     if sint new_value > sint limit then Some (False, r)
     else do {
       values \<leftarrow> array_set (m_current_values r) type new_value;
       Some (True, r\<lparr>m_current_values := values\<rparr>)}}"

definition ResourceLimit_Release :: "resource_limit \<Rightarrow> u32 \<Rightarrow> s32 \<Rightarrow> (bool \<times> resource_limit) run" where
  "ResourceLimit_Release r type amount = do {
     value \<leftarrow> array_get (m_current_values r) type;
     if sint amount > sint value then Some (False, r)
     else do {
       new_value \<leftarrow> s32_sub value amount;
       values \<leftarrow> array_set (m_current_values r) type new_value;
       Some (True, r\<lparr>m_current_values := values\<rparr>)}}"

section \<open>The list of the four categories\<close>

fun SetLimitValues :: "(u32 \<times> s32) list \<Rightarrow> resource_limit \<Rightarrow> resource_limit run" where
  "SetLimitValues [] r = Some r"
| "SetLimitValues ((type, value) # vs) r = do {
     r' \<leftarrow> SetLimitValue r type value;
     SetLimitValues vs r'}"

definition ResourceLimitList_new :: "bool \<Rightarrow> u32 \<Rightarrow> resource_limit list run" where
  "ResourceLimitList_new is_new_3ds appmemalloc_size = do {
     app \<leftarrow> SetLimitValues
       [(RL_Priority, 0x18), (RL_Commit, appmemalloc_size), (RL_Thread, 0x20), (RL_Event, 0x20),
        (RL_Mutex, 0x20), (RL_Semaphore, 0x8), (RL_Timer, 0x8), (RL_SharedMemory, 0x10),
        (RL_AddressArbiter, 0x2), (RL_CpuTime, 0x0)]
       (ResourceLimit_Create ''Applications'');
     sys \<leftarrow> SetLimitValues
       [(RL_Priority, 0x4), (RL_Commit, if is_new_3ds then 0x5E06000 else 0x2606000),
        (RL_Thread, if is_new_3ds then 0x1D else 0xE), (RL_Event, if is_new_3ds then 0xB else 0x8),
        (RL_Mutex, 0x8), (RL_Semaphore, 0x4), (RL_Timer, 0x4), (RL_SharedMemory, 0x8),
        (RL_AddressArbiter, 0x3), (RL_CpuTime, 0x2710)]
       (ResourceLimit_Create ''System Applets'');
     lib \<leftarrow> SetLimitValues
       [(RL_Priority, 0x4), (RL_Commit, 0x602000), (RL_Thread, 0xE), (RL_Event, 0x8),
        (RL_Mutex, 0x8), (RL_Semaphore, 0x4), (RL_Timer, 0x4), (RL_SharedMemory, 0x8),
        (RL_AddressArbiter, 0x1), (RL_CpuTime, 0x2710)]
       (ResourceLimit_Create ''Library Applets'');
     other \<leftarrow> SetLimitValues
       [(RL_Priority, 0x4), (RL_Commit, if is_new_3ds then 0x2182000 else 0x1682000),
        (RL_Thread, if is_new_3ds then 0xE1 else 0xCA),
        (RL_Event, if is_new_3ds then 0x108 else 0xF8),
        (RL_Mutex, if is_new_3ds then 0x25 else 0x23),
        (RL_Semaphore, if is_new_3ds then 0x43 else 0x40),
        (RL_Timer, if is_new_3ds then 0x2C else 0x2B),
        (RL_SharedMemory, if is_new_3ds then 0x1F else 0x1E),
        (RL_AddressArbiter, if is_new_3ds then 0x2D else 0x2B), (RL_CpuTime, 0x3E8)]
       (ResourceLimit_Create ''Others'');
     Some [app, sys, lib, other]}"

fun GetForCategory :: "resource_limit list \<Rightarrow> ResourceLimitCategory \<Rightarrow> resource_limit run" where
  "GetForCategory limits CategoryApplication = array_get limits 0"
| "GetForCategory limits CategorySysApplet = array_get limits 1"
| "GetForCategory limits CategoryLibApplet = array_get limits 2"
| "GetForCategory limits CategoryOther = array_get limits 3"
| "GetForCategory limits (CategoryUnknown c) = None"

section \<open>Accounting\<close>

text \<open>A sequence of requests, as the services issue them; each may be refused.\<close>

datatype rl_request = ReserveReq u32 s32 | ReleaseReq u32 s32

fun run_request :: "rl_request \<Rightarrow> resource_limit \<Rightarrow> (bool \<times> resource_limit) run" where
  "run_request (ReserveReq type amount) r = Reserve r type amount"
| "run_request (ReleaseReq type amount) r = ResourceLimit_Release r type amount"

fun run_requests :: "rl_request list \<Rightarrow> resource_limit \<Rightarrow> resource_limit run" where
  "run_requests [] r = Some r"
| "run_requests (q # qs) r = do { (ok, r') \<leftarrow> run_request q r; run_requests qs r' }"

fun request_amount :: "rl_request \<Rightarrow> int" where
  "request_amount (ReserveReq type amount) = sint amount"
| "request_amount (ReleaseReq type amount) = sint amount"

definition within_limits :: "resource_limit \<Rightarrow> bool" where
  "within_limits r \<longleftrightarrow> length (m_limit_values r) = 10 \<and> length (m_current_values r) = 10 \<and>
     list_all2 (\<lambda>c l. 0 \<le> sint c \<and> sint c \<le> sint l) (m_current_values r) (m_limit_values r)"

lemma within_limits_upd:
  assumes "within_limits r" and "unat i < 10" and "0 \<le> sint v"
    and "sint v \<le> sint (m_limit_values r ! unat i)"
  shows "within_limits (r\<lparr>m_current_values := (m_current_values r)[unat i := v]\<rparr>)"
  using assms by (auto simp: within_limits_def list_all2_conv_all_nth nth_upd)

lemma Reserve_step:
  assumes w: "within_limits r" and i: "unat type < 10" and a: "0 \<le> sint amount"
    and fits: "sint (m_current_values r ! unat type) + sint amount < 2 ^ 31"
  shows "\<exists>r'. Reserve r type amount =
      Some (sint (m_current_values r ! unat type) + sint amount \<le>
            sint (m_limit_values r ! unat type), r') \<and> within_limits r' \<and>
      m_limit_values r' = m_limit_values r \<and>
      m_current_values r' =
        (if sint (m_current_values r ! unat type) + sint amount \<le> sint (m_limit_values r ! unat type)
         then (m_current_values r)[unat type := m_current_values r ! unat type + amount]
         else m_current_values r)"
proof -
  let ?c = "m_current_values r ! unat type"
  have c: "0 \<le> sint ?c" and len: "unat type < length (m_current_values r)"
      "unat type < length (m_limit_values r)"
    using w i by (auto simp: within_limits_def list_all2_conv_all_nth)
  have s: "sint (?c + amount) = sint ?c + sint amount"
    using sint_s32_fits [of "sint ?c + sint amount"] c a fits by simp
  have add: "s32_add ?c amount = Some (?c + amount)"
    using c a fits by (simp add: s32_add_def)
  show ?thesis
    using within_limits_upd [OF w i, of "?c + amount"] c a w len
    by (auto simp: Reserve_def array_get_def array_set_def add s)
qed

lemma Release_step:
  assumes w: "within_limits r" and i: "unat type < 10" and a: "0 \<le> sint amount"
  shows "\<exists>r'. ResourceLimit_Release r type amount =
      Some (sint amount \<le> sint (m_current_values r ! unat type), r') \<and> within_limits r' \<and>
      m_limit_values r' = m_limit_values r \<and>
      m_current_values r' =
        (if sint amount \<le> sint (m_current_values r ! unat type)
         then (m_current_values r)[unat type := m_current_values r ! unat type - amount]
         else m_current_values r)"
proof -
  let ?c = "m_current_values r ! unat type" and ?l = "m_limit_values r ! unat type"
  have c: "0 \<le> sint ?c" "sint ?c \<le> sint ?l" and len: "unat type < length (m_current_values r)"
    using w i by (auto simp: within_limits_def list_all2_conv_all_nth)
  show ?thesis
  proof (cases "sint amount \<le> sint ?c")
    case True
    have s: "sint (?c - amount) = sint ?c - sint amount"
      using sint_s32_fits [of "sint ?c - sint amount"] True a sint_s32_range [of ?c] by simp
    have sub: "s32_sub ?c amount = Some (?c - amount)"
      using True a sint_s32_range [of ?c] by (simp add: s32_sub_def)
    show ?thesis
      using within_limits_upd [OF w i, of "?c - amount"] True a c len
      by (auto simp: ResourceLimit_Release_def array_get_def array_set_def sub s)
  qed (use w len in \<open>auto simp: ResourceLimit_Release_def array_get_def\<close>)
qed

section \<open>The abstract accounting\<close>

definition usage :: "resource_limit \<Rightarrow> nat \<Rightarrow> int" where
  "usage r i = sint (m_current_values r ! i)"

definition limit_of :: "resource_limit \<Rightarrow> nat \<Rightarrow> int" where
  "limit_of r i = sint (m_limit_values r ! i)"

fun spec_request :: "(nat \<Rightarrow> int) \<Rightarrow> rl_request \<Rightarrow> (nat \<Rightarrow> int) \<Rightarrow> (nat \<Rightarrow> int)" where
  "spec_request lim (ReserveReq type amount) u =
     (if u (unat type) + sint amount \<le> lim (unat type)
      then u(unat type := u (unat type) + sint amount) else u)"
| "spec_request lim (ReleaseReq type amount) u =
     (if sint amount \<le> u (unat type) then u(unat type := u (unat type) - sint amount) else u)"

text \<open>A known resource type, an amount that is not negative, and a sum that fits.\<close>

fun sane_request :: "(nat \<Rightarrow> int) \<Rightarrow> rl_request \<Rightarrow> bool" where
  "sane_request lim (ReserveReq type amount) \<longleftrightarrow>
     unat type < 10 \<and> 0 \<le> sint amount \<and> lim (unat type) + sint amount < 2 ^ 31"
| "sane_request lim (ReleaseReq type amount) \<longleftrightarrow> unat type < 10 \<and> 0 \<le> sint amount"

lemma spec_request_cong:
  assumes "sane_request lim q" and "\<And>i. i < 10 \<Longrightarrow> u i = u' i" and "i < 10"
  shows "spec_request lim q u i = spec_request lim q u' i"
  using assms by (cases q) (auto split: if_splits)

lemma spec_requests_cong:
  assumes "\<forall>q \<in> set qs. sane_request lim q" and "\<And>i. i < 10 \<Longrightarrow> u i = u' i" and "i < 10"
  shows "fold (spec_request lim) qs u i = fold (spec_request lim) qs u' i"
  using assms
proof (induction qs arbitrary: u u')
  case (Cons q qs)
  have "\<And>j. j < 10 \<Longrightarrow> spec_request lim q u j = spec_request lim q u' j"
    using Cons.prems by (intro spec_request_cong) auto
  from Cons.IH [OF _ this] Cons.prems(1,3) show ?case by simp
qed simp

lemma limit_of_cong: "m_limit_values r' = m_limit_values r \<Longrightarrow> limit_of r' = limit_of r"
  by (simp add: fun_eq_iff limit_of_def)

lemma request_step:
  assumes w: "within_limits r" and q: "sane_request (limit_of r) q"
  shows "\<exists>ok r'. run_request q r = Some (ok, r') \<and> within_limits r' \<and> limit_of r' = limit_of r \<and>
    (\<forall>i < 10. usage r' i = spec_request (limit_of r) q (usage r) i)"
proof -
  have len: "length (m_current_values r) = 10" using w by (simp add: within_limits_def)
  have le: "unat type < 10 \<Longrightarrow> usage r (unat type) \<le> limit_of r (unat type)"
      "unat type < 10 \<Longrightarrow> 0 \<le> usage r (unat type)" for type
    using w by (auto simp: within_limits_def list_all2_conv_all_nth usage_def limit_of_def)
  show ?thesis
  proof (cases q)
    case (ReserveReq type amount)
    have a: "unat type < 10" "0 \<le> sint amount" and
        fits: "sint (m_current_values r ! unat type) + sint amount < 2 ^ 31"
      using q le(1) [of type] by (auto simp: ReserveReq usage_def)
    have s: "sint (m_current_values r ! unat type + amount) =
        sint (m_current_values r ! unat type) + sint amount"
      using sint_s32_fits [of "sint (m_current_values r ! unat type) + sint amount"]
        le(2) [of type] a fits by (simp add: usage_def)
    from Reserve_step [OF w a fits] obtain ok r' where
      r': "Reserve r type amount = Some (ok, r')" "within_limits r'"
        "m_limit_values r' = m_limit_values r"
        "m_current_values r' = (if usage r (unat type) + sint amount \<le> limit_of r (unat type)
           then (m_current_values r)[unat type := m_current_values r ! unat type + amount]
           else m_current_values r)"
      by (auto simp: usage_def limit_of_def)
    then have "usage r' i = spec_request (limit_of r) q (usage r) i" for i
      using len a s by (simp add: ReserveReq usage_def nth_upd)
    with r' limit_of_cong [OF r'(3)] show ?thesis by (auto simp: ReserveReq)
  next
    case (ReleaseReq type amount)
    have a: "unat type < 10" "0 \<le> sint amount" using q by (auto simp: ReleaseReq)
    have s: "sint amount \<le> sint (m_current_values r ! unat type) \<Longrightarrow>
        sint (m_current_values r ! unat type - amount) =
        sint (m_current_values r ! unat type) - sint amount"
      using sint_s32_fits [of "sint (m_current_values r ! unat type) - sint amount"]
        sint_s32_range [of "m_current_values r ! unat type"] a by simp
    from Release_step [OF w a] obtain ok r' where
      r': "ResourceLimit_Release r type amount = Some (ok, r')" "within_limits r'"
        "m_limit_values r' = m_limit_values r"
        "m_current_values r' = (if sint amount \<le> usage r (unat type)
           then (m_current_values r)[unat type := m_current_values r ! unat type - amount]
           else m_current_values r)"
      by (auto simp: usage_def)
    then have "usage r' i = spec_request (limit_of r) q (usage r) i" for i
      using len a s by (simp add: ReleaseReq usage_def nth_upd)
    with r' limit_of_cong [OF r'(3)] show ?thesis by (auto simp: ReleaseReq)
  qed
qed

section \<open>Properties\<close>

text \<open>C26: any sequence of sane reservations and releases runs without undefined behaviour and
  does to the \<open>s32\<close> counters exactly what the unbounded accounting does: each request is granted
  whole or refused whole, and no counter leaves the range from 0 to its limit.\<close>

theorem resource_requests_refine_accounting:
  assumes "within_limits r" and "\<forall>q \<in> set qs. sane_request (limit_of r) q"
  shows "\<exists>r'. run_requests qs r = Some r' \<and> within_limits r' \<and> limit_of r' = limit_of r \<and>
    (\<forall>i < 10. usage r' i = fold (spec_request (limit_of r)) qs (usage r) i)"
  using assms
proof (induction qs arbitrary: r)
  case (Cons q qs)
  obtain ok r1 where r1: "run_request q r = Some (ok, r1)" "within_limits r1"
      "limit_of r1 = limit_of r" "\<forall>i < 10. usage r1 i = spec_request (limit_of r) q (usage r) i"
    using request_step [of r q] Cons.prems by auto
  obtain r' where r': "run_requests qs r1 = Some r'" "within_limits r'" "limit_of r' = limit_of r1"
      "\<forall>i < 10. usage r' i = fold (spec_request (limit_of r1)) qs (usage r1) i"
    using Cons.IH [OF r1(2)] Cons.prems r1(3) by auto
  have "fold (spec_request (limit_of r)) qs (usage r1) i =
      fold (spec_request (limit_of r)) qs (spec_request (limit_of r) q (usage r)) i" if "i < 10" for i
    using spec_requests_cong [of qs "limit_of r" "usage r1" _ i] Cons.prems r1(4) that by simp
  with r1 r' show ?case by simp
qed simp

definition example_limit :: resource_limit where
  "example_limit = (ResourceLimit_Create ''A'')\<lparr>m_limit_values := replicate 10 0x20\<rparr>"

lemma resource_requests_refine_accounting_witness:
  "\<exists>r'. run_requests [ReserveReq RL_Thread 3, ReserveReq RL_Thread 30, ReleaseReq RL_Thread 1]
     example_limit = Some r' \<and> usage r' 2 = 2"
proof -
  let ?qs = "[ReserveReq RL_Thread 3, ReserveReq RL_Thread 30, ReleaseReq RL_Thread 1]"
  have "within_limits example_limit"
    by (simp add: within_limits_def example_limit_def ResourceLimit_Create_def
        list_all2_conv_all_nth)
  moreover have "\<forall>q \<in> set ?qs. sane_request (limit_of example_limit) q"
    by (simp add: limit_of_def example_limit_def)
  ultimately obtain r' where "run_requests ?qs example_limit = Some r'"
      "\<forall>i < 10. usage r' i = fold (spec_request (limit_of example_limit)) ?qs
        (usage example_limit) i"
    using resource_requests_refine_accounting by blast
  then show ?thesis
    by (simp add: limit_of_def usage_def example_limit_def ResourceLimit_Create_def)
qed

text \<open>for both console models and every application region below 2 GiB, the list of limits is
  built without an out-of-range store, each category gets its own record, all counters start at
  zero within their limits, and only the application's commit limit depends on the region.\<close>

theorem resource_limit_list_ok:
  assumes "0 \<le> sint (app_size :: u32)"
  shows "\<exists>limits. ResourceLimitList_new new_3ds app_size = Some limits \<and> length limits = 4 \<and>
    (\<forall>r \<in> set limits. within_limits r \<and> m_current_values r = replicate 10 0) \<and>
    map_option m_name (GetForCategory limits CategoryApplication) = Some ''Applications'' \<and>
    map_option m_name (GetForCategory limits CategorySysApplet) = Some ''System Applets'' \<and>
    map_option m_name (GetForCategory limits CategoryLibApplet) = Some ''Library Applets'' \<and>
    map_option m_name (GetForCategory limits CategoryOther) = Some ''Others'' \<and>
    Option.bind (GetForCategory limits CategoryApplication) (\<lambda>r. GetLimitValue r RL_Commit) =
      Some app_size"
proof (cases new_3ds)
  case True
  then show ?thesis
    using assms by (simp add: ResourceLimitList_new_def SetLimitValue_def array_set_def
        array_get_def ResourceLimit_Create_def within_limits_def GetLimitValue_def replicate_numeral)
next
  case False
  then show ?thesis
    using assms by (simp add: ResourceLimitList_new_def SetLimitValue_def array_set_def
        array_get_def ResourceLimit_Create_def within_limits_def GetLimitValue_def replicate_numeral)
qed

lemma resource_limit_list_ok_witness:
  "\<exists>limits. ResourceLimitList_new True 0x7C00000 = Some limits \<and> length limits = 4"
  using resource_limit_list_ok [where app_size = "0x7C00000" and new_3ds = True] by auto

end
