(* ===== verification/Process.thy ===== *)
theory Process
  imports MemoryAccess ResourceLimit
begin

text \<open>A process and its memory: \<open>Process\<close> of \<open>kernel/process.h\<close> and \<open>kernel/process.cpp\<close>. The memory
  regions, the resource limits and the machine are shared by all processes: they are the record
  \<open>kmem\<close>, and a process names its region and its limit by their indices. The arguments \<open>ops\<close> and
  \<open>env\<close> are the interval sets and the environment of the memory system.\<close>

section \<open>State\<close>

record ('s, 'g) kmem =
  km_regions :: "'s memory_region list"
  km_limits :: "resource_limit list"
  km_machine :: "'g machine"
  km_marker :: cache_marker

datatype ProcessStatus = ProcessCreated | ProcessRunning | ProcessExited

record 's process =
  svc_access_mask :: "bool list"
  handle_table_size :: u32
  address_mappings :: "address_mapping list"
  process_flags :: u16
  no_thread_restrictions :: bool
  kernel_version :: u16
  process_status :: ProcessStatus
  process_id :: u32
  creation_time_ticks :: int
  ideal_processor :: nat
  process_limit :: "nat option"
  vm_of :: vm_manager
  memory_used :: u32
  memory_region_of :: "nat option"
  holding_memory :: 's
  holding_tls_memory :: 's
  tls_slots :: "bool list list"

abbreviation (input) "HEAP_VADDR \<equiv> (0x08000000 :: u32)"
abbreviation (input) "HEAP_VADDR_END \<equiv> (0x10000000 :: u32)"
abbreviation (input) "TLS_AREA_VADDR \<equiv> (0x1FF82000 :: u32)"
abbreviation (input) "TLS_ENTRY_SIZE \<equiv> (0x200 :: u32)"

text \<open>The field \<open>memory_region\<close> of the flags, bits 8 to 11.\<close>

definition flags_region :: "'s process \<Rightarrow> u16" where
  "flags_region p = ExtractValue 8 4 (process_flags p)"

text \<open>The index of a region, where \<open>GetMemoryRegion\<close> returns the region itself.\<close>

definition region_index :: "u16 \<Rightarrow> nat run" where
  "region_index region = (if region = 1 then Some 0 else if region = 2 then Some 1
     else if region = 3 then Some 2 else None)"

lemma region_index_GetMemoryRegion:
  "GetMemoryRegion regions r = map_option (\<lambda>i. regions ! i) (region_index r)"
  by (simp add: GetMemoryRegion_def region_index_def)

section \<open>Kernel capabilities\<close>

text \<open>The syscall mask: 24 bits from position \<open>index\<close> on, as long as bits are left.\<close>

fun set_svc_bits :: "nat \<Rightarrow> nat \<Rightarrow> nat \<Rightarrow> bool list \<Rightarrow> bool list" where
  "set_svc_bits 0 index bits bs = bs"
| "set_svc_bits (Suc fuel) index bits bs =
     (if bits \<noteq> 0 \<and> index < length bs
      then set_svc_bits fuel (Suc index) (bits div 2) (bs[index := odd bits]) else bs)"

definition svc_mask_fuel :: nat where "svc_mask_fuel = 24"

text \<open>A vector of at most eight mappings: a ninth throws.\<close>

definition push_mapping :: "address_mapping \<Rightarrow> 's process \<Rightarrow> 's process run" where
  "push_mapping m p = do {
     ASSERT (length (address_mappings p) < 8);
     Some (p\<lparr>address_mappings := address_mappings p @ [m]\<rparr>)}"

fun ParseKernelCaps :: "u32 list \<Rightarrow> 's process \<Rightarrow> 's process run" where
  "ParseKernelCaps [] p = Some p"
| "ParseKernelCaps (descriptor # caps) p =
     (let type = drop_bit 20 descriptor
      in if descriptor = 0xFFFFFFFF then ParseKernelCaps caps p
         else if type AND 0xF00 = 0xE00 then ParseKernelCaps caps p
         else if type AND 0xF80 = 0xF00 then
           (let index = unat (drop_bit 24 descriptor AND 7) * 24;
                bits = unat (descriptor AND 0xFFFFFF)
            in ParseKernelCaps caps
                 (p\<lparr>svc_access_mask := set_svc_bits svc_mask_fuel index bits (svc_access_mask p)\<rparr>))
         else if type AND 0xFF0 = 0xFE0 then
           ParseKernelCaps caps (p\<lparr>handle_table_size := descriptor AND 0x3FF\<rparr>)
         else if type AND 0xFF8 = 0xFF0 then
           ParseKernelCaps caps (p\<lparr>process_flags := ucast (descriptor AND 0xFFFF)\<rparr>)
         else if type AND 0xFFE = 0xFF8 then
           (case caps of
              [] \<Rightarrow> ParseKernelCaps caps p
            | end_desc # rest \<Rightarrow>
                if drop_bit 20 end_desc AND 0xFFE \<noteq> 0xFF8 then ParseKernelCaps caps p
                else do {
                  let address = push_bit 12 descriptor;
                  let end_address = push_bit 12 end_desc;
                  let mapping = \<lparr>am_address = address,
                    am_size = (if address < end_address then end_address - address else 0),
                    am_read_only = descriptor AND 0x100000 \<noteq> 0,
                    am_unk_flag = end_desc AND 0x100000 \<noteq> 0\<rparr>;
                  p \<leftarrow> push_mapping mapping p;
                  ParseKernelCaps rest p})
         else if type AND 0xFFF = 0xFFE then do {
           p \<leftarrow> push_mapping \<lparr>am_address = push_bit 12 descriptor, am_size = CITRA_PAGE_SIZE,
             am_read_only = False, am_unk_flag = False\<rparr> p;
           ParseKernelCaps caps p}
         else if type AND 0xFE0 = 0xFC0 then
           ParseKernelCaps caps (p\<lparr>kernel_version := ucast (descriptor AND 0xFFFF)\<rparr>)
         else ParseKernelCaps caps p)"

definition Set3dsxKernelCaps :: "'s process \<Rightarrow> 's process" where
  "Set3dsxKernelCaps p = p\<lparr>svc_access_mask := map (\<lambda>_. True) (svc_access_mask p),
     address_mappings :=
       [\<lparr>am_address = 0x1FF50000, am_size = 0x8000, am_read_only = True, am_unk_flag = False\<rparr>,
        \<lparr>am_address = 0x1FF70000, am_size = 0x8000, am_read_only = True, am_unk_flag = False\<rparr>,
        \<lparr>am_address = 0x1F000000, am_size = 0x600000, am_read_only = False, am_unk_flag = False\<rparr>],
     kernel_version := 0x23a\<rparr>"

section \<open>Heap and linear heap\<close>

definition upd_region :: "nat \<Rightarrow> 's memory_region \<Rightarrow> ('s, 'g) kmem \<Rightarrow> ('s, 'g) kmem" where
  "upd_region i r k = k\<lparr>km_regions := (km_regions k)[i := r]\<rparr>"

definition process_region :: "'s process \<Rightarrow> ('s, 'g) kmem \<Rightarrow> (nat \<times> 's memory_region) run" where
  "process_region p k = do {
     i \<leftarrow> memory_region_of p;
     ASSERT (i < length (km_regions k));
     Some (i, km_regions k ! i)}"

text \<open>Both calls ignore the answer of the resource limit.\<close>

definition limit_op ::
  "(resource_limit \<Rightarrow> u32 \<Rightarrow> s32 \<Rightarrow> (bool \<times> resource_limit) run) \<Rightarrow> u32 \<Rightarrow> u32 \<Rightarrow> 's process \<Rightarrow>
   ('s, 'g) kmem \<Rightarrow> (bool \<times> ('s, 'g) kmem) run" where
  "limit_op f type amount p k = do {
     i \<leftarrow> process_limit p;
     ASSERT (i < length (km_limits k));
     (ok, r) \<leftarrow> f (km_limits k ! i) type amount;
     Some (ok, k\<lparr>km_limits := (km_limits k)[i := r]\<rparr>)}"

definition GetLinearHeapAreaAddress :: "'s process \<Rightarrow> u32" where
  "GetLinearHeapAreaAddress p =
     (if kernel_version p < 0x22C then LINEAR_HEAP_VADDR else NEW_LINEAR_HEAP_VADDR)"

definition GetLinearHeapBase :: "'s process \<Rightarrow> ('s, 'g) kmem \<Rightarrow> u32 run" where
  "GetLinearHeapBase p k = do {
     (i, r) \<leftarrow> process_region p k;
     Some (GetLinearHeapAreaAddress p + base r)}"

definition GetLinearHeapLimit :: "'s process \<Rightarrow> ('s, 'g) kmem \<Rightarrow> u32 run" where
  "GetLinearHeapLimit p k = do {
     b \<leftarrow> GetLinearHeapBase p k;
     (i, r) \<leftarrow> process_region p k;
     Some (b + region_size r)}"

text \<open>Filling host memory with zeros from one pointer up to another.\<close>

definition fill_zero :: "u64 \<Rightarrow> u64 \<Rightarrow> ('s, 'g) kmem \<Rightarrow> ('s, 'g) kmem" where
  "fill_zero p q k = k\<lparr>km_machine := store p (replicate (unat (q - p)) 0) (km_machine k)\<rparr>"

text \<open>One interval of a heap allocation: clear it, map it, protect it.\<close>

definition map_protected ::
  "('s, 'g) kmem \<Rightarrow> u32 \<Rightarrow> memory_ref \<Rightarrow> u32 \<Rightarrow> MemoryState \<Rightarrow> u8 \<Rightarrow> vm_manager \<Rightarrow> vm_manager run" where
  "map_protected k target ref sz state perms vm = do {
     r \<leftarrow> MapBackingMemory (km_marker k) vm target ref sz state;
     case r of
       Inl e \<Rightarrow> None
     | Inr (i, vm) \<Rightarrow> map_option snd (Reprotect (km_marker k) vm i perms)}"

fun heap_map ::
  "'g mem_env \<Rightarrow> interval list \<Rightarrow> u32 \<Rightarrow> MemoryState \<Rightarrow> u8 \<Rightarrow> vm_manager \<times> ('s, 'g) kmem \<Rightarrow>
   (vm_manager \<times> ('s, 'g) kmem) run" where
  "heap_map env [] target state perms (vm, k) = Some (vm, k)"
| "heap_map env (i # is) target state perms (vm, k) = do {
     let interval_size = upper i - lower i;
     p \<leftarrow> GetFCRAMPointer env (ucast (lower i));
     q \<leftarrow> GetFCRAMPointer env (ucast (upper i));
     let k = fill_zero p q k;
     ref \<leftarrow> GetFCRAMRef env (ucast (lower i));
     vm \<leftarrow> map_protected k target ref interval_size state perms vm;
     heap_map env is (target + interval_size) state perms (vm, k)}"

definition add_all :: "'s icl \<Rightarrow> 's \<Rightarrow> 's \<Rightarrow> 's" where
  "add_all ops s t = fold (\<lambda>i s. icl_add ops s i) (icl_iter ops t) s"

definition Process_HeapAllocate ::
  "'s icl \<Rightarrow> 'g mem_env \<Rightarrow> u32 \<Rightarrow> u32 \<Rightarrow> u8 \<Rightarrow> MemoryState \<Rightarrow> bool \<Rightarrow> 's process \<times> ('s, 'g) kmem \<Rightarrow>
   ((result + u32) \<times> 's process \<times> ('s, 'g) kmem) run" where
  "Process_HeapAllocate ops env target sz perms state skip_range_check pk =
     (let (p, k) = pk
      in if (target < HEAP_VADDR \<or> target + sz > HEAP_VADDR_END \<or> target + sz < target) \<and>
            \<not> skip_range_check
         then Some (Inl ResultInvalidAddress, p, k)
         else do {
           j \<leftarrow> FindVMA (vm_of p) target;
           v \<leftarrow> vma_at (vm_of p) j;
           if vma_type v \<noteq> VMA_Free \<or> vma_base v + vma_size v < target + sz
           then Some (Inl ResultInvalidAddressState, p, k)
           else do {
             (i, r) \<leftarrow> process_region p k;
             (allocated, r) \<leftarrow> Region_HeapAllocate ops r sz;
             if icl_iter ops allocated = [] then Some (Inl ResultOutOfHeapMemory, p, upd_region i r k)
             else do {
               (vm, k) \<leftarrow> heap_map env (icl_iter ops allocated) target state perms (vm_of p, upd_region i r k);
               let p = p\<lparr>vm_of := vm, holding_memory := add_all ops (holding_memory p) allocated,
                 memory_used := memory_used p + sz\<rparr>;
               (ok, k) \<leftarrow> limit_op Reserve RL_Commit sz p k;
               Some (Inr target, p, k)}}})"

fun free_blocks_of ::
  "'s icl \<Rightarrow> 'g mem_env \<Rightarrow> (memory_ref \<times> u32) list \<Rightarrow> 's process \<times> ('s, 'g) kmem \<Rightarrow>
   ('s process \<times> ('s, 'g) kmem) run" where
  "free_blocks_of ops env [] (p, k) = Some (p, k)"
| "free_blocks_of ops env ((memory, block_size) # bs) (p, k) = do {
     backing_offset \<leftarrow> GetFCRAMOffset env (GetPtr memory);
     (i, r) \<leftarrow> process_region p k;
     r \<leftarrow> Region_Free ops r backing_offset block_size;
     free_blocks_of ops env bs
       (p\<lparr>holding_memory := icl_sub ops (holding_memory p)
          (Interval backing_offset (backing_offset + block_size))\<rparr>, upd_region i r k)}"

definition Process_HeapFree ::
  "'s icl \<Rightarrow> 'g mem_env \<Rightarrow> u32 \<Rightarrow> u32 \<Rightarrow> 's process \<times> ('s, 'g) kmem \<Rightarrow>
   ((result + unit) \<times> 's process \<times> ('s, 'g) kmem) run" where
  "Process_HeapFree ops env target sz pk =
     (let (p, k) = pk
      in if target < HEAP_VADDR \<or> target + sz > HEAP_VADDR_END \<or> target + sz < target
         then Some (Inl ResultInvalidAddress, p, k)
         else if sz = 0 then Some (Inr (), p, k)
         else do {
           blocks \<leftarrow> GetBackingBlocksForRange (vm_of p) target sz;
           case blocks of
             Inl e \<Rightarrow> Some (Inl e, p, k)
           | Inr bs \<Rightarrow> do {
               (p, k) \<leftarrow> free_blocks_of ops env bs (p, k);
               r \<leftarrow> UnmapRange (km_marker k) (vm_of p) target sz;
               case r of
                 Inl e \<Rightarrow> None
               | Inr vm \<Rightarrow> do {
                   let p = p\<lparr>vm_of := vm, memory_used := memory_used p - sz\<rparr>;
                   (ok, k) \<leftarrow> limit_op ResourceLimit_Release RL_Commit sz p k;
                   Some (Inr (), p, k)}}})"

text \<open>The second half of \<open>LinearAllocate\<close>: clear, map, protect and account for the block.\<close>

definition linear_map ::
  "'s icl \<Rightarrow> 'g mem_env \<Rightarrow> u32 \<Rightarrow> u32 \<Rightarrow> u32 \<Rightarrow> u8 \<Rightarrow> 's process \<times> ('s, 'g) kmem \<Rightarrow>
   ((result + u32) \<times> 's process \<times> ('s, 'g) kmem) run" where
  "linear_map ops env physical_offset target sz perms pk =
     (let (p, k) = pk
      in do {
        ref \<leftarrow> GetFCRAMRef env (ucast physical_offset);
        let k = fill_zero (GetPtr ref) (GetPtr ref + ucast sz) k;
        vm \<leftarrow> map_protected k target ref sz MS_Continuous perms (vm_of p);
        let p = p\<lparr>vm_of := vm,
          holding_memory := icl_add ops (holding_memory p)
            (Interval physical_offset (physical_offset + sz)),
          memory_used := memory_used p + sz\<rparr>;
        (ok, k) \<leftarrow> limit_op Reserve RL_Commit sz p k;
        Some (Inr target, p, k)})"

definition Process_LinearAllocate ::
  "'s icl \<Rightarrow> 'g mem_env \<Rightarrow> u32 \<Rightarrow> u32 \<Rightarrow> u8 \<Rightarrow> 's process \<times> ('s, 'g) kmem \<Rightarrow>
   ((result + u32) \<times> 's process \<times> ('s, 'g) kmem) run" where
  "Process_LinearAllocate ops env target sz perms pk =
     (let (p, k) = pk
      in do {
        (i, r) \<leftarrow> process_region p k;
        if target = 0 then do {
          (offset, r) \<leftarrow> Region_LinearAllocate ops r sz;
          case offset of
            None \<Rightarrow> Some (Inl ResultOutOfHeapMemory, p, k)
          | Some physical_offset \<Rightarrow>
              linear_map ops env physical_offset (physical_offset + GetLinearHeapAreaAddress p) sz perms
                (p, upd_region i r k)}
        else do {
          b \<leftarrow> GetLinearHeapBase p k;
          l \<leftarrow> GetLinearHeapLimit p k;
          if target < b \<or> target + sz > l \<or> target + sz < target
          then Some (Inl ResultInvalidAddress, p, k)
          else do {
            let physical_offset = target - GetLinearHeapAreaAddress p;
            (ok, r) \<leftarrow> Region_LinearAllocateAt ops r physical_offset sz;
            if \<not> ok then Some (Inl ResultInvalidAddressState, p, k)
            else linear_map ops env physical_offset target sz perms (p, upd_region i r k)}}})"

definition Process_LinearFree ::
  "'s icl \<Rightarrow> u32 \<Rightarrow> u32 \<Rightarrow> 's process \<times> ('s, 'g) kmem \<Rightarrow>
   ((result + unit) \<times> 's process \<times> ('s, 'g) kmem) run" where
  "Process_LinearFree ops target sz pk =
     (let (p, k) = pk
      in do {
        b \<leftarrow> GetLinearHeapBase p k;
        l \<leftarrow> GetLinearHeapLimit p k;
        if target < b \<or> target + sz > l \<or> target + sz < target
        then Some (Inl ResultInvalidAddress, p, k)
        else if sz = 0 then Some (Inr (), p, k)
        else do {
          u \<leftarrow> UnmapRange (km_marker k) (vm_of p) target sz;
          case u of
            Inl e \<Rightarrow> Some (Inl e, p, k)
          | Inr vm \<Rightarrow> do {
              let physical_offset = target - GetLinearHeapAreaAddress p;
              (i, r) \<leftarrow> process_region p k;
              r \<leftarrow> Region_Free ops r physical_offset sz;
              let p = p\<lparr>vm_of := vm,
                holding_memory := icl_sub ops (holding_memory p)
                  (Interval physical_offset (physical_offset + sz)),
                memory_used := memory_used p - sz\<rparr>;
              (ok, k) \<leftarrow> limit_op ResourceLimit_Release RL_Commit sz p (upd_region i r k);
              Some (Inr (), p, k)}}})"

section \<open>Thread-local storage\<close>

text \<open>The first page with a free slot, and its first free slot.\<close>

fun find_tls_slot :: "bool list list \<Rightarrow> nat \<Rightarrow> (nat \<times> nat) option" where
  "find_tls_slot [] page = None"
| "find_tls_slot (slots # pages) page =
     (if list_all (\<lambda>b. b) slots then find_tls_slot pages (Suc page)
      else Some (page, length (takeWhile (\<lambda>b. b) slots)))"

definition tls_address :: "nat \<Rightarrow> nat \<Rightarrow> u32" where
  "tls_address page slot =
     TLS_AREA_VADDR + of_nat page * CITRA_PAGE_SIZE + of_nat slot * TLS_ENTRY_SIZE"

text \<open>The result of mapping a new page is ignored by the code.\<close>

definition new_tls_page ::
  "'s icl \<Rightarrow> 'g mem_env \<Rightarrow> 's process \<times> ('s, 'g) kmem \<Rightarrow>
   ((result + nat) \<times> 's process \<times> ('s, 'g) kmem) run" where
  "new_tls_page ops env pk =
     (let (p, k) = pk; page = length (tls_slots p)
      in do {
        i \<leftarrow> region_index 3;
        ASSERT (i < length (km_regions k));
        (offset, r) \<leftarrow> Region_LinearAllocate ops (km_regions k ! i) CITRA_PAGE_SIZE;
        case offset of
          None \<Rightarrow> Some (Inl ResultOutOfMemory, p, k)
        | Some off \<Rightarrow> do {
            let k = upd_region i r k;
            ref \<leftarrow> GetFCRAMRef env (ucast off);
            mapped \<leftarrow> MapBackingMemory (km_marker k) (vm_of p)
              (TLS_AREA_VADDR + of_nat page * CITRA_PAGE_SIZE) ref CITRA_PAGE_SIZE MS_Locked;
            let p = p\<lparr>holding_tls_memory := icl_add ops (holding_tls_memory p)
                (Interval off (off + CITRA_PAGE_SIZE)),
              memory_used := memory_used p + CITRA_PAGE_SIZE,
              tls_slots := tls_slots p @ [replicate 8 False],
              vm_of := (case mapped of Inl e \<Rightarrow> vm_of p | Inr (j, vm) \<Rightarrow> vm)\<rparr>;
            Some (Inr page, p, k)}})"

definition AllocateThreadLocalStorage ::
  "'s icl \<Rightarrow> 'g mem_env \<Rightarrow> 's process \<times> ('s, 'g) kmem \<Rightarrow>
   ((result + u32) \<times> 's process \<times> ('s, 'g) kmem) run" where
  "AllocateThreadLocalStorage ops env pk = do {
     (found, p, k) \<leftarrow> (case find_tls_slot (tls_slots (fst pk)) 0 of
         Some ps \<Rightarrow> Some (Inr ps, pk)
       | None \<Rightarrow> map_option (\<lambda>(r, pk). (map_sum id (\<lambda>page. (page, 0)) r, pk)) (new_tls_page ops env pk));
     case found of
       Inl e \<Rightarrow> Some (Inl e, p, k)
     | Inr (page, slot) \<Rightarrow> do {
         let p = p\<lparr>tls_slots := (tls_slots p)[page := (tls_slots p ! page)[slot := True]]\<rparr>;
         let address = tls_address page slot;
         m \<leftarrow> ZeroBlock env (vm_page_table (vm_of p)) address (unat TLS_ENTRY_SIZE) (km_machine k);
         Some (Inr address, p, k\<lparr>km_machine := m\<rparr>)}}"

section \<open>Mirror mappings\<close>

definition overlapping :: "u32 \<Rightarrow> u32 \<Rightarrow> u32 \<Rightarrow> bool" where
  "overlapping target source sz \<longleftrightarrow> source - target < sz \<or> target - source < sz"

definition outside_heap :: "u32 \<Rightarrow> u32 \<Rightarrow> bool" where
  "outside_heap source sz \<longleftrightarrow>
     source < HEAP_VADDR \<or> source + sz > HEAP_VADDR_END \<or> source + sz < source"

definition set_vm :: "'s process \<Rightarrow> result + vm_manager \<Rightarrow> (result + unit) \<times> 's process" where
  "set_vm p r = (case r of Inl e \<Rightarrow> (Inl e, p) | Inr vm \<Rightarrow> (Inr (), p\<lparr>vm_of := vm\<rparr>))"

fun map_blocks ::
  "cache_marker \<Rightarrow> (memory_ref \<times> u32) list \<Rightarrow> u32 \<Rightarrow> MemoryState \<Rightarrow> u8 \<Rightarrow> vm_manager \<Rightarrow> vm_manager run" where
  "map_blocks mk [] target state perms vm = Some vm"
| "map_blocks mk ((memory, block_size) # bs) target state perms vm = do {
     r \<leftarrow> MapBackingMemory mk vm target memory block_size state;
     case r of
       Inl e \<Rightarrow> None
     | Inr (i, vm) \<Rightarrow> do {
         (j, vm) \<leftarrow> Reprotect mk vm i perms;
         map_blocks mk bs (target + block_size) state perms vm}}"

definition Process_Map ::
  "cache_marker \<Rightarrow> u32 \<Rightarrow> u32 \<Rightarrow> u32 \<Rightarrow> u8 \<Rightarrow> bool \<Rightarrow> 's process \<Rightarrow> ((result + unit) \<times> 's process) run" where
  "Process_Map mk target source sz perms privileged p =
     (if \<not> privileged \<and> outside_heap source sz then Some (Inl ResultInvalidAddress, p)
      else if overlapping target source sz then
        (if privileged then
           (if source = target then
              map_option (set_vm p)
                (ChangeMemoryState mk (vm_of p) source sz MS_Private Perm_ReadWrite MS_AliasCode perms)
            else Some (Inl ResultInvalidAddress, p))
         else Some (Inl ResultInvalidAddressState, p))
      else do {
        j \<leftarrow> FindVMA (vm_of p) target;
        v \<leftarrow> vma_at (vm_of p) j;
        if vma_type v \<noteq> VMA_Free \<or> vma_base v + vma_size v < target + sz
        then Some (Inl ResultInvalidAddressState, p)
        else do {
          let source_state = (if privileged then MS_Locked else MS_Aliased);
          let target_state = (if privileged then MS_AliasCode else MS_Alias);
          let source_perm = (if privileged then Perm_None else Perm_ReadWrite);
          r \<leftarrow> ChangeMemoryState mk (vm_of p) source sz MS_Private Perm_ReadWrite source_state source_perm;
          case r of
            Inl e \<Rightarrow> Some (Inl e, p)
          | Inr vm \<Rightarrow> do {
              let p = p\<lparr>vm_of := vm\<rparr>;
              blocks \<leftarrow> GetBackingBlocksForRange vm source sz;
              case blocks of
                Inl e \<Rightarrow> Some (Inl e, p)
              | Inr bs \<Rightarrow> do {
                  vm \<leftarrow> map_blocks mk bs target target_state perms vm;
                  Some (Inr (), p\<lparr>vm_of := vm\<rparr>)}}}})"

definition Process_Unmap ::
  "cache_marker \<Rightarrow> u32 \<Rightarrow> u32 \<Rightarrow> u32 \<Rightarrow> u8 \<Rightarrow> bool \<Rightarrow> 's process \<Rightarrow> ((result + unit) \<times> 's process) run" where
  "Process_Unmap mk target source sz perms privileged p =
     (if \<not> privileged \<and> outside_heap source sz then Some (Inl ResultInvalidAddress, p)
      else if overlapping target source sz then
        (if privileged then
           (if source = target then
              map_option (set_vm p)
                (ChangeMemoryState mk (vm_of p) source sz MS_AliasCode Perm_None MS_Private perms)
            else Some (Inl ResultInvalidAddress, p))
         else Some (Inl ResultInvalidAddressState, p))
      else do {
        let source_state = (if privileged then MS_Locked else MS_Aliased);
        r \<leftarrow> UnmapRange mk (vm_of p) target sz;
        case r of
          Inl e \<Rightarrow> Some (Inl e, p)
        | Inr vm \<Rightarrow> do {
            let p = p\<lparr>vm_of := vm\<rparr>;
            map_option (set_vm p)
              (ChangeMemoryState mk vm source sz source_state Perm_None MS_Private perms)}})"

section \<open>Creation and destruction\<close>

fun free_holding ::
  "'s icl \<Rightarrow> nat \<Rightarrow> bool \<Rightarrow> interval list \<Rightarrow> 's process \<times> ('s, 'g) kmem \<Rightarrow>
   ('s process \<times> ('s, 'g) kmem) run" where
  "free_holding ops i commit [] pk = Some pk"
| "free_holding ops i commit (entry # es) pk =
     (let (p, k) = pk; sz = upper entry - lower entry
      in do {
        ASSERT (i < length (km_regions k));
        r \<leftarrow> Region_Free ops (km_regions k ! i) (lower entry) sz;
        let p = p\<lparr>memory_used := memory_used p - sz\<rparr>;
        let k = upd_region i r k;
        (ok, k) \<leftarrow> (if commit then limit_op ResourceLimit_Release RL_Commit sz p k else Some (True, k));
        free_holding ops i commit es (p, k)})"

definition FreeAllMemory ::
  "'s icl \<Rightarrow> 's process \<times> ('s, 'g) kmem \<Rightarrow> ('s process \<times> ('s, 'g) kmem) run" where
  "FreeAllMemory ops pk =
     (let (p, k) = pk
      in case (memory_region_of p, process_limit p) of
           (Some i, Some l) \<Rightarrow> do {
             (p, k) \<leftarrow> free_holding ops i True (icl_iter ops (holding_memory p)) (p, k);
             let p = p\<lparr>holding_memory := icl_empty ops\<rparr>;
             b \<leftarrow> region_index 3;
             (p, k) \<leftarrow> free_holding ops b False (icl_iter ops (holding_tls_memory p)) (p, k);
             Some (p\<lparr>holding_tls_memory := icl_empty ops, tls_slots := []\<rparr>, k)}
         | _ \<Rightarrow> Some (p, k))"

text \<open>\<open>CreateProcess\<close>; the constructor's address space is the argument \<open>vm\<close>.\<close>

definition CreateProcess :: "'s icl \<Rightarrow> vm_manager \<Rightarrow> int \<Rightarrow> u32 \<Rightarrow> 's process \<times> u32" where
  "CreateProcess ops vm ticks next_process_id =
     (let process_flags = Assign 8 4 0 1; pid = next_process_id + 1
      in (\<lparr>svc_access_mask = replicate 0x80 False, handle_table_size = 0x200, address_mappings = [],
           process_flags = process_flags, no_thread_restrictions = False, kernel_version = 0, process_status = ProcessCreated,
           process_id = pid, creation_time_ticks = ticks, ideal_processor = 0, process_limit = None,
           vm_of = vm, memory_used = 0, memory_region_of = None, holding_memory = icl_empty ops,
           holding_tls_memory = icl_empty ops, tls_slots = []\<rparr>, pid))"

section \<open>Starting a process\<close>

record segment =
  seg_offset :: nat
  seg_addr :: u32
  seg_size :: u32

record codeset =
  code_memory :: bytes
  segments :: "segment \<times> segment \<times> segment"
  entrypoint :: u32
  program_id :: u64

text \<open>\<open>MapSegment\<close>: the result of the allocation is not looked at.\<close>

definition MapSegment ::
  "'s icl \<Rightarrow> 'g mem_env \<Rightarrow> codeset \<Rightarrow> segment \<Rightarrow> u8 \<Rightarrow> MemoryState \<Rightarrow> 's process \<times> ('s, 'g) kmem \<Rightarrow>
   ('s process \<times> ('s, 'g) kmem) run" where
  "MapSegment ops env codeset segment perms state pk = do {
     (r, p, k) \<leftarrow> Process_HeapAllocate ops env (seg_addr segment) (seg_size segment) perms state True pk;
     ASSERT (seg_offset segment + unat (seg_size segment) \<le> length (code_memory codeset));
     m \<leftarrow> WriteBlock env (vm_page_table (vm_of p)) False (seg_addr segment)
       (take (unat (seg_size segment)) (drop (seg_offset segment) (code_memory codeset))) (km_machine k);
     Some (p, k\<lparr>km_machine := m\<rparr>)}"

fun special_mappings ::
  "'g mem_env \<Rightarrow> cache_marker \<Rightarrow> address_mapping list \<Rightarrow> vm_manager \<Rightarrow> vm_manager run" where
  "special_mappings env mk [] vm = Some vm"
| "special_mappings env mk (m # ms) vm = do {
     vm \<leftarrow> HandleSpecialMapping mk (phys env) vm m;
     special_mappings env mk ms vm}"

text \<open>\<open>Run\<close> up to the start of the main thread, without the plugin loader; \<open>None\<close> in the second
  component when the thread could not be reserved.\<close>

definition Run_map ::
  "'s icl \<Rightarrow> 'g mem_env \<Rightarrow> host_buffer \<Rightarrow> host_buffer \<Rightarrow> codeset \<Rightarrow> u32 \<Rightarrow> 's process \<times> ('s, 'g) kmem \<Rightarrow>
   (bool \<times> 's process \<times> ('s, 'g) kmem) run" where
  "Run_map ops env config_mem_handler shared_page_handler codeset stack_size pk = do {
     let (p, k) = pk;
     i \<leftarrow> region_index (flags_region p);
     let p = p\<lparr>memory_region_of := Some i\<rparr>;
     (ok, k) \<leftarrow> limit_op Reserve RL_Thread 1 p k;
     if \<not> ok then Some (False, p, k)
     else do {
       let (code, rodata, data_seg) = segments codeset;
       pk \<leftarrow> MapSegment ops env codeset code 5 MS_Code (p, k);
       pk \<leftarrow> MapSegment ops env codeset rodata Perm_Read MS_Code pk;
       pk \<leftarrow> MapSegment ops env codeset data_seg Perm_ReadWrite MS_Private pk;
       (r, p, k) \<leftarrow> Process_HeapAllocate ops env (HEAP_VADDR_END - stack_size) stack_size Perm_ReadWrite
         MS_Locked True pk;
       vm \<leftarrow> MapSharedPages (km_marker k) config_mem_handler shared_page_handler (vm_of p);
       vm \<leftarrow> special_mappings env (km_marker k) (address_mappings p) vm;
       Some (True, p\<lparr>vm_of := vm, process_status := ProcessRunning\<rparr>, k)}}"

end
