(* ===== verification/EventHeap.thy ===== *)
theory EventHeap
  imports Prelude "HOL-Library.Multiset"
begin

text \<open>The standard library's heap algorithms on a vector, as \<open>core_timing.cpp\<close> uses them:
  \<open>std::push_heap\<close>, \<open>std::pop_heap\<close> and \<open>std::make_heap\<close> with \<open>std::greater\<close>, so that the front
  element is a least one. The layout of the vector is the library's business; what the code relies
  on is stated by the locale \<open>min_heap\<close>: the operations keep the heap order, the front is a least
  element, and the elements are the expected multiset. The sift-up and sift-down below are one
  implementation that satisfies it. A key function stands for the order of the elements.\<close>

section \<open>The interface\<close>

locale min_heap =
  fixes hkey :: "'a \<Rightarrow> 'k::linorder"
    and hpush :: "'a \<Rightarrow> 'a list \<Rightarrow> 'a list"
    and hpop :: "'a list \<Rightarrow> 'a list"
    and hmake :: "'a list \<Rightarrow> 'a list"
    and hinv :: "'a list \<Rightarrow> bool"
  assumes inv_empty: "hinv []"
    and inv_push: "hinv xs \<Longrightarrow> hinv (hpush x xs)"
    and mset_push: "mset (hpush x xs) = add_mset x (mset xs)"
    and inv_pop: "hinv xs \<Longrightarrow> xs \<noteq> [] \<Longrightarrow> hinv (hpop xs)"
    and mset_pop: "xs \<noteq> [] \<Longrightarrow> mset (hpop xs) = mset xs - {# hd xs #}"
    and inv_make: "hinv (hmake xs)"
    and mset_make: "mset (hmake xs) = mset xs"
    and front_least: "hinv xs \<Longrightarrow> y \<in> set xs \<Longrightarrow> hkey (hd xs) \<le> hkey y"
begin

lemma set_push [simp]: "set (hpush x xs) = insert x (set xs)"
  by (metis mset_push set_mset_add_mset_insert set_mset_mset)

lemma set_make [simp]: "set (hmake xs) = set xs"
  by (metis mset_make set_mset_mset)

lemma set_pop_subset: "xs \<noteq> [] \<Longrightarrow> set (hpop xs) \<subseteq> set xs"
  by (metis in_diffD mset_pop set_mset_mset subsetI)

lemma length_pop: "xs \<noteq> [] \<Longrightarrow> Suc (length (hpop xs)) = length xs"
  using arg_cong [OF mset_pop, of xs size]
  by (cases xs) (simp_all add: size_Diff_singleton)

lemma split_pop: "xs \<noteq> [] \<Longrightarrow> mset xs = add_mset (hd xs) (mset (hpop xs))"
  by (simp add: mset_pop)

lemma set_split_pop: "xs \<noteq> [] \<Longrightarrow> set xs = insert (hd xs) (set (hpop xs))"
  using arg_cong [OF split_pop, of xs set_mset] by simp

end

section \<open>Sifting\<close>

definition swap :: "'a list \<Rightarrow> nat \<Rightarrow> nat \<Rightarrow> 'a list" where
  "swap xs i j = xs[i := xs ! j, j := xs ! i]"

abbreviation parent :: "nat \<Rightarrow> nat" where "parent i \<equiv> (i - 1) div 2"

function sift_up :: "('a \<Rightarrow> 'k::linorder) \<Rightarrow> 'a list \<Rightarrow> nat \<Rightarrow> 'a list" where
  "sift_up f xs i =
     (if 0 < i \<and> f (xs ! i) < f (xs ! parent i) then sift_up f (swap xs i (parent i)) (parent i)
      else xs)"
  by auto
termination by (relation "measure (\<lambda>(f, xs, i). i)") auto

declare sift_up.simps [simp del]

text \<open>The smaller child of \<open>i\<close> among the first \<open>n\<close> elements.\<close>

definition least_child :: "('a \<Rightarrow> 'k::linorder) \<Rightarrow> 'a list \<Rightarrow> nat \<Rightarrow> nat" where
  "least_child f xs i =
     (if 2 * i + 2 < length xs \<and> f (xs ! (2 * i + 2)) < f (xs ! (2 * i + 1)) then 2 * i + 2
      else 2 * i + 1)"

lemma least_child_bounds: "i < least_child f xs i" "least_child f xs i \<le> 2 * i + 2"
  by (auto simp: least_child_def)

function sift_down :: "('a \<Rightarrow> 'k::linorder) \<Rightarrow> 'a list \<Rightarrow> nat \<Rightarrow> 'a list" where
  "sift_down f xs i =
     (if 2 * i + 1 < length xs \<and> f (xs ! least_child f xs i) < f (xs ! i)
      then sift_down f (swap xs i (least_child f xs i)) (least_child f xs i) else xs)"
  by auto
termination
  by (relation "measure (\<lambda>(f, xs, i). length xs - i)")
    (auto simp: swap_def dest: less_le_trans intro!: diff_less_mono2 least_child_bounds)

declare sift_down.simps [simp del]

definition push_heap :: "('a \<Rightarrow> 'k::linorder) \<Rightarrow> 'a \<Rightarrow> 'a list \<Rightarrow> 'a list" where
  "push_heap f x xs = sift_up f (xs @ [x]) (length xs)"

definition pop_heap :: "('a \<Rightarrow> 'k::linorder) \<Rightarrow> 'a list \<Rightarrow> 'a list" where
  "pop_heap f xs = (if length xs \<le> 1 then [] else sift_down f (last xs # butlast (tl xs)) 0)"

definition make_heap :: "('a \<Rightarrow> 'k::linorder) \<Rightarrow> 'a list \<Rightarrow> 'a list" where
  "make_heap f xs = fold (push_heap f) xs []"

definition heap_ordered :: "('a \<Rightarrow> 'k::linorder) \<Rightarrow> 'a list \<Rightarrow> bool" where
  "heap_ordered f xs \<longleftrightarrow> (\<forall>i. 0 < i \<and> i < length xs \<longrightarrow> f (xs ! parent i) \<le> f (xs ! i))"

lemma length_swap [simp]: "length (swap xs i j) = length xs"
  by (simp add: swap_def)

lemma mset_swap_eq [simp]: "i < length xs \<Longrightarrow> j < length xs \<Longrightarrow> mset (swap xs i j) = mset xs"
  by (simp add: swap_def mset_swap)

lemma nth_swap: "i < length xs \<Longrightarrow> j < length xs \<Longrightarrow> k < length xs \<Longrightarrow>
    swap xs i j ! k = (if k = j then xs ! i else if k = i then xs ! j else xs ! k)"
  by (auto simp: swap_def nth_list_update)

lemma mset_sift_up: "i < length xs \<Longrightarrow> mset (sift_up f xs i) = mset xs"
proof (induction f xs i rule: sift_up.induct)
  case (1 f xs i)
  then show ?case by (subst sift_up.simps) (auto simp: div_less_dividend)
qed

lemma mset_sift_down: "i < length xs \<Longrightarrow> mset (sift_down f xs i) = mset xs"
proof (induction f xs i rule: sift_down.induct)
  case (1 f xs i)
  have "least_child f xs i < length xs" if "2 * i + 1 < length xs"
    using that by (auto simp: least_child_def)
  with 1 show ?case by (subst sift_down.simps) auto
qed

text \<open>During a sift one position is out of order: above it (\<open>up_to\<close>) or below it (\<open>down_to\<close>).\<close>

definition up_to :: "('a \<Rightarrow> 'k::linorder) \<Rightarrow> 'a list \<Rightarrow> nat \<Rightarrow> bool" where
  "up_to f xs i \<longleftrightarrow>
     (\<forall>k. 0 < k \<and> k < length xs \<and> k \<noteq> i \<longrightarrow> f (xs ! parent k) \<le> f (xs ! k)) \<and>
     (\<forall>k. 0 < k \<and> k < length xs \<and> 0 < i \<and> parent k = i \<longrightarrow> f (xs ! parent i) \<le> f (xs ! k))"

definition down_to :: "('a \<Rightarrow> 'k::linorder) \<Rightarrow> 'a list \<Rightarrow> nat \<Rightarrow> bool" where
  "down_to f xs i \<longleftrightarrow>
     (\<forall>k. 0 < k \<and> k < length xs \<and> parent k \<noteq> i \<longrightarrow> f (xs ! parent k) \<le> f (xs ! k)) \<and>
     (\<forall>k. 0 < k \<and> k < length xs \<and> 0 < i \<and> parent k = i \<longrightarrow> f (xs ! parent i) \<le> f (xs ! k))"

lemma parent_less: "0 < i \<Longrightarrow> parent i < i"
  by linarith

lemma sift_up_ordered: "i < length xs \<Longrightarrow> up_to f xs i \<Longrightarrow> heap_ordered f (sift_up f xs i)"
proof (induction f xs i rule: sift_up.induct)
  case (1 f xs i)
  show ?case
  proof (cases "0 < i \<and> f (xs ! i) < f (xs ! parent i)")
    case True
    let ?p = "parent i"
    have p: "?p < i" "?p < length xs" using True parent_less [of i] "1.prems"(1) by auto
    have o1: "f (xs ! parent k) \<le> f (xs ! k)" if "0 < k" "k < length xs" "k \<noteq> i" for k
      using "1.prems"(2) that by (auto simp: up_to_def)
    have o2: "f (xs ! ?p) \<le> f (xs ! k)" if "0 < k" "k < length xs" "parent k = i" for k
      using "1.prems"(2) that True by (auto simp: up_to_def)
    have "up_to f (swap xs i ?p) ?p"
      unfolding up_to_def
    proof (intro conjI allI impI; elim conjE)
      fix k assume k: "0 < k" "k < length (swap xs i ?p)" "k \<noteq> ?p"
      have pk: "parent k < k" using k parent_less by blast
      show "f (swap xs i ?p ! parent k) \<le> f (swap xs i ?p ! k)"
        using k pk p True o1 [of k] o2 [of k] "1.prems"(1)
        by (auto simp: nth_swap intro: less_imp_le order_trans)
    next
      fix k assume k: "0 < k" "k < length (swap xs i ?p)" "0 < ?p" "parent k = ?p"
      have pk: "?p < k" "parent ?p < ?p" using k parent_less by metis+
      show "f (swap xs i ?p ! parent ?p) \<le> f (swap xs i ?p ! k)"
        using k pk p True o1 [of k] o1 [of ?p] "1.prems"(1)
        by (auto simp: nth_swap intro: order_trans)
    qed
    with "1.IH" [OF True] p(2) show ?thesis using True by (subst sift_up.simps) simp
  next
    case False
    with "1.prems" have "heap_ordered f xs"
      unfolding heap_ordered_def up_to_def by (metis not_less)
    then show ?thesis using False by (subst sift_up.simps) auto
  qed
qed

lemma least_child_parent: "parent (least_child f xs i) = i"
  by (simp add: least_child_def)

lemma least_child_least:
  assumes "0 < k" "k < length xs" "parent k = i"
  shows "f (xs ! least_child f xs i) \<le> f (xs ! k)"
proof -
  have "k = 2 * i + 1 \<or> k = 2 * i + 2" using assms by linarith
  then show ?thesis using assms by (auto simp: least_child_def)
qed

lemma sift_down_ordered: "i < length xs \<Longrightarrow> down_to f xs i \<Longrightarrow> heap_ordered f (sift_down f xs i)"
proof (induction f xs i rule: sift_down.induct)
  case (1 f xs i)
  let ?c = "least_child f xs i"
  show ?case
  proof (cases "2 * i + 1 < length xs \<and> f (xs ! ?c) < f (xs ! i)")
    case True
    have c: "i < ?c" "?c < length xs" "parent ?c = i" "0 < ?c"
      using True least_child_bounds [where i = i and f = f and xs = xs] least_child_parent by (auto simp: least_child_def)
    have o1: "f (xs ! parent k) \<le> f (xs ! k)" if "0 < k" "k < length xs" "parent k \<noteq> i" for k
      using "1.prems"(2) that by (auto simp: down_to_def)
    have o2: "f (xs ! parent i) \<le> f (xs ! k)" if "0 < k" "k < length xs" "0 < i" "parent k = i" for k
      using "1.prems"(2) that by (auto simp: down_to_def)
    have "down_to f (swap xs i ?c) ?c"
      unfolding down_to_def
    proof (intro conjI allI impI; elim conjE)
      fix k assume k: "0 < k" "k < length (swap xs i ?c)" "parent k \<noteq> ?c"
      have pk: "parent k < k" using k parent_less by blast
      consider "parent k = i" | "k = i" | "parent k \<noteq> i" "k \<noteq> i" by blast
      then show "f (swap xs i ?c ! parent k) \<le> f (swap xs i ?c ! k)"
      proof cases
        case 1
        then show ?thesis
          using k c True least_child_least [of k xs i f] "1.prems"(1)
          by (auto simp: nth_swap intro: less_imp_le)
      next
        case 2
        then have "parent k < length xs" "parent k \<noteq> i" "parent k \<noteq> ?c" using k pk c by auto
        then show ?thesis using 2 k c o2 [of ?c] "1.prems"(1) by (simp add: nth_swap)
      next
        case 3
        then have "k \<noteq> ?c" using c by auto
        then show ?thesis using 3 k c o1 [of k] pk "1.prems"(1) by (simp add: nth_swap)
      qed
    next
      fix k assume k: "0 < k" "k < length (swap xs i ?c)" "0 < ?c" "parent k = ?c"
      have "?c < k" using k(1,4) parent_less [of k] by simp
      then show "f (swap xs i ?c ! parent ?c) \<le> f (swap xs i ?c ! k)"
        using k c o1 [of k] "1.prems"(1) by (auto simp: nth_swap)
    qed
    with "1.IH" [OF True] c(2) show ?thesis using True by (subst sift_down.simps) simp
  next
    case False
    have "f (xs ! parent k) \<le> f (xs ! k)" if k: "0 < k" "k < length xs" for k
    proof (cases "parent k = i")
      case True
      then have "2 * i + 1 < length xs" using k by linarith
      then show ?thesis using False least_child_least [OF k True, of f] True by auto
    qed (use "1.prems"(2) k in \<open>auto simp: down_to_def\<close>)
    then show ?thesis using False by (subst sift_down.simps) (auto simp: heap_ordered_def)
  qed
qed

section \<open>The three operations\<close>

lemma mset_push_heap: "mset (push_heap f x xs) = add_mset x (mset xs)"
  by (simp add: push_heap_def mset_sift_up)

lemma heap_ordered_push: "heap_ordered f xs \<Longrightarrow> heap_ordered f (push_heap f x xs)"
  unfolding push_heap_def
proof (rule sift_up_ordered)
  assume h: "heap_ordered f xs"
  show "up_to f (xs @ [x]) (length xs)"
    unfolding up_to_def
  proof (intro conjI allI impI; elim conjE)
    fix k assume k: "0 < k" "k < length (xs @ [x])" "k \<noteq> length xs"
    then have "k < length xs" "parent k < length xs" by auto
    then show "f ((xs @ [x]) ! parent k) \<le> f ((xs @ [x]) ! k)"
      using h k(1) by (simp add: heap_ordered_def nth_append)
  next
    fix k assume "0 < k" "k < length (xs @ [x])" "parent k = length xs"
    then show "f ((xs @ [x]) ! parent (length xs)) \<le> f ((xs @ [x]) ! k)"
      using parent_less [of k] by simp
  qed
qed simp

lemma heap_front:
  assumes h: "heap_ordered f xs" and i: "i < length xs"
  shows "f (xs ! 0) \<le> f (xs ! i)"
  using i
proof (induction i rule: less_induct)
  case (less i)
  show ?case
  proof (cases "i = 0")
    case False
    then have "f (xs ! 0) \<le> f (xs ! parent i)" using less parent_less [of i] by simp
    also have "\<dots> \<le> f (xs ! i)" using h less False by (simp add: heap_ordered_def)
    finally show ?thesis .
  qed simp
qed

lemma mset_pop_heap:
  assumes "xs \<noteq> []" shows "mset (pop_heap f xs) = mset xs - {# hd xs #}"
proof (cases "length xs \<le> 1")
  case True
  then show ?thesis using assms by (cases xs) (auto simp: pop_heap_def)
next
  case False
  then obtain x y ys where xs: "xs = x # ys @ [y]"
    using assms by (metis One_nat_def append_butlast_last_id hd_Cons_tl le_refl length_Cons list.size(3))
  then show ?thesis by (simp add: pop_heap_def mset_sift_down)
qed

lemma heap_ordered_pop:
  assumes h: "heap_ordered f xs" shows "heap_ordered f (pop_heap f xs)"
proof (cases "length xs \<le> 1")
  case False
  let ?ys = "last xs # butlast (tl xs)"
  have nth: "?ys ! k = xs ! k" if "0 < k" "k < length ?ys" for k
    using that False by (cases k) (auto simp: nth_butlast nth_tl)
  have "down_to f ?ys 0"
    unfolding down_to_def
  proof (intro conjI allI impI; elim conjE)
    fix k assume k: "0 < k" "k < length ?ys" "parent k \<noteq> 0"
    then have "parent k < length ?ys" "0 < parent k" by auto
    then show "f (?ys ! parent k) \<le> f (?ys ! k)"
      using h k nth by (simp add: heap_ordered_def del: nth_Cons_Suc nth_Cons_0)
  qed simp
  then show ?thesis using False by (simp add: pop_heap_def sift_down_ordered)
qed (simp add: pop_heap_def heap_ordered_def)

lemma mset_make_heap_aux: "mset (fold (push_heap f) xs ys) = mset xs + mset ys"
  by (induction xs arbitrary: ys) (simp_all add: mset_push_heap)

lemma heap_ordered_make_aux: "heap_ordered f ys \<Longrightarrow> heap_ordered f (fold (push_heap f) xs ys)"
  by (induction xs arbitrary: ys) (simp_all add: heap_ordered_push)

interpretation heap: min_heap f "push_heap f" "pop_heap f" "make_heap f" "heap_ordered f"
  for f :: "'a \<Rightarrow> 'k::linorder"
proof unfold_locales
  show "heap_ordered f []" by (simp add: heap_ordered_def)
  show "heap_ordered f (make_heap f xs)" for xs :: "'a list"
    unfolding make_heap_def by (rule heap_ordered_make_aux) (simp add: heap_ordered_def)
  show "mset (make_heap f xs) = mset xs" for xs :: "'a list"
    by (simp add: make_heap_def mset_make_heap_aux)
  show "f (hd xs) \<le> f y" if "heap_ordered f xs" "y \<in> set xs" for xs :: "'a list" and y
    using that heap_front [of f xs] by (metis hd_conv_nth in_set_conv_nth length_pos_if_in_set length_greater_0_conv)
qed (simp_all add: mset_push_heap heap_ordered_push mset_pop_heap heap_ordered_pop)

end
