(* ===== verification/CoreTiming.thy ===== *)
theory CoreTiming
  imports EventHeap "HOL-Library.Product_Lexorder" "HOL-Library.Signed_Division"
begin

text \<open>The emulator's clock and event queue: \<open>core/core_timing.h\<close> and \<open>core/core_timing.cpp\<close>. Signed
  64-bit quantities are integers; \<open>chk64\<close> is a signed operation, which must not overflow (None),
  \<open>wrap64\<close> the conversion of an unsigned 64-bit result to \<open>s64\<close>. Event types are the names under
  which they are registered; a callback is a number that \<open>call\<close>, a parameter, interprets as a
  function of the timing state and of the rest of the machine, \<open>'w\<close>. The multiplication by the
  \<open>double\<close> clock scale is the parameter \<open>scaled\<close>.\<close>

section \<open>Clock arithmetic\<close>

definition wrap64 :: "int \<Rightarrow> int" where "wrap64 = signed_take_bit 63"

definition s64_max :: int where "s64_max = 2 ^ 63 - 1"

definition chk64 :: "int \<Rightarrow> int run" where
  "chk64 x = (if - (2 ^ 63) \<le> x \<and> x < 2 ^ 63 then Some x else None)"

abbreviation (input) "BASE_CLOCK_RATE_ARM11 \<equiv> (268111856 :: int)"

definition MAX_VALUE_TO_MULTIPLY :: int where
  "MAX_VALUE_TO_MULTIPLY = s64_max div BASE_CLOCK_RATE_ARM11"

definition MAX_SLICE_LENGTH :: int where
  "MAX_SLICE_LENGTH = BASE_CLOCK_RATE_ARM11 div 234"

text \<open>A product of the unsigned rate with a signed value is unsigned.\<close>

definition rate_times :: "int \<Rightarrow> int" where
  "rate_times x = BASE_CLOCK_RATE_ARM11 * x mod 2 ^ 64"

definition msToCycles :: "int \<Rightarrow> int" where
  "msToCycles ms = wrap64 (rate_times ms div 1000)"

definition usToCycles :: "int \<Rightarrow> int" where
  "usToCycles us = wrap64 (rate_times us div 1000000)"

definition usToCycles_s64 :: "int \<Rightarrow> int" where
  "usToCycles_s64 us =
     (if us sdiv 1000000 > MAX_VALUE_TO_MULTIPLY then s64_max
      else if us > MAX_VALUE_TO_MULTIPLY then wrap64 (rate_times (us sdiv 1000000))
      else wrap64 (rate_times us div 1000000))"

definition usToCycles_u64 :: "int \<Rightarrow> int" where
  "usToCycles_u64 us =
     (if us div 1000000 > MAX_VALUE_TO_MULTIPLY then s64_max
      else if us > MAX_VALUE_TO_MULTIPLY then wrap64 (rate_times (wrap64 (us div 1000000)))
      else wrap64 (rate_times (wrap64 us) div 1000000))"

definition nsToCycles_int :: "int \<Rightarrow> int" where
  "nsToCycles_int ns = wrap64 (rate_times ns div 1000000000)"

definition nsToCycles :: "int \<Rightarrow> int" where
  "nsToCycles ns =
     (if ns sdiv 1000000000 > MAX_VALUE_TO_MULTIPLY then s64_max
      else if ns > MAX_VALUE_TO_MULTIPLY then wrap64 (rate_times (ns sdiv 1000000000))
      else wrap64 (rate_times ns div 1000000000))"

definition nsToCycles_u64 :: "int \<Rightarrow> int" where
  "nsToCycles_u64 ns =
     (if ns div 1000000000 > MAX_VALUE_TO_MULTIPLY then s64_max
      else if ns > MAX_VALUE_TO_MULTIPLY then wrap64 (rate_times (wrap64 ns sdiv 1000000000))
      else wrap64 (rate_times (wrap64 ns) div 1000000000))"

definition cyclesToNs :: "int \<Rightarrow> int run" where
  "cyclesToNs cycles = do {
     p \<leftarrow> chk64 (cycles * 1000000000);
     Some (p mod 2 ^ 64 div BASE_CLOCK_RATE_ARM11)}"

definition cyclesToUs :: "int \<Rightarrow> int run" where
  "cyclesToUs cycles = do {
     p \<leftarrow> chk64 (cycles * 1000000);
     Some (wrap64 (p mod 2 ^ 64 div BASE_CLOCK_RATE_ARM11))}"

definition cyclesToMs :: "int \<Rightarrow> int run" where
  "cyclesToMs cycles = do {
     p \<leftarrow> chk64 (cycles * 1000);
     Some (p mod 2 ^ 64 div BASE_CLOCK_RATE_ARM11)}"

section \<open>Timers and the timing state\<close>

record event =
  ev_time :: int
  fifo_order :: u64
  user_data :: u64
  ev_type :: string

definition ev_key :: "event \<Rightarrow> int \<times> nat" where
  "ev_key e = (ev_time e, unat (fifo_order e))"

record timer =
  event_queue :: "event list"
  event_fifo_id :: u64
  ts_queue :: "event list"
  is_timer_sane :: bool
  slice_length :: int
  downcount :: int
  executed_ticks :: int
  idled_cycles :: int
  cpu_clock_percentage :: u32

record timing =
  event_types :: "string \<rightharpoonup> nat option"
  timers :: "timer list"
  current_timer :: nat
  event_queue_locked :: bool

definition Timer_new :: "int \<Rightarrow> timer" where
  "Timer_new base_ticks =
     \<lparr>event_queue = [], event_fifo_id = 0, ts_queue = [], is_timer_sane = True,
      slice_length = MAX_SLICE_LENGTH, downcount = MAX_SLICE_LENGTH, executed_ticks = base_ticks,
      idled_cycles = 0, cpu_clock_percentage = 100\<rparr>"

definition UpdateClockSpeed :: "u32 \<Rightarrow> timing \<Rightarrow> timing" where
  "UpdateClockSpeed percentage tm =
     tm\<lparr>timers := map (\<lambda>t. t\<lparr>cpu_clock_percentage := percentage\<rparr>) (timers tm)\<rparr>"

text \<open>The base tick count that a negative override asks for (a setting or a random number) is an
  argument.\<close>

definition Timing_new :: "int \<Rightarrow> nat \<Rightarrow> u32 \<Rightarrow> int \<Rightarrow> timing run" where
  "Timing_new generated num_cores percentage override =
     (let base_ticks = (if override \<ge> 0 then override else generated);
          tm = UpdateClockSpeed percentage
            \<lparr>event_types = Map.empty, timers = replicate num_cores (Timer_new base_ticks),
             current_timer = 0, event_queue_locked = False\<rparr>
      in if num_cores = 0 then None else Some tm)"

definition RegisterEvent :: "string \<Rightarrow> nat option \<Rightarrow> timing \<Rightarrow> timing" where
  "RegisterEvent name callback tm =
     (let types = event_types tm;
          types = (case types name of None \<Rightarrow> types(name \<mapsto> None) | Some _ \<Rightarrow> types)
      in tm\<lparr>event_types := (if callback \<noteq> None then types(name \<mapsto> callback) else types)\<rparr>)"

definition upd_timer :: "nat \<Rightarrow> (timer \<Rightarrow> timer) \<Rightarrow> timing \<Rightarrow> timing" where
  "upd_timer c f tm = tm\<lparr>timers := (timers tm)[c := f (timers tm ! c)]\<rparr>"

section \<open>Operations of a timer\<close>

definition Timer_GetTicks :: "timer \<Rightarrow> int run" where
  "Timer_GetTicks t =
     (if is_timer_sane t then Some (executed_ticks t mod 2 ^ 64)
      else do {
        d \<leftarrow> chk64 (slice_length t - downcount t);
        Some ((executed_ticks t + d) mod 2 ^ 64)})"

definition AddTicks :: "(u32 \<Rightarrow> u64 \<Rightarrow> u64) \<Rightarrow> u64 \<Rightarrow> timer \<Rightarrow> timer" where
  "AddTicks scaled ticks t =
     t\<lparr>downcount := wrap64 (downcount t - uint (scaled (cpu_clock_percentage t) ticks))\<rparr>"

definition ForceExceptionCheck :: "int \<Rightarrow> timer \<Rightarrow> timer run" where
  "ForceExceptionCheck cycles t =
     (let cycles = max 0 cycles
      in if downcount t > cycles then do {
           d \<leftarrow> chk64 (downcount t - cycles);
           s \<leftarrow> chk64 (slice_length t - d);
           Some (t\<lparr>slice_length := s, downcount := cycles\<rparr>)}
         else Some t)"

definition enqueue :: "event \<Rightarrow> timer \<Rightarrow> timer" where
  "enqueue ev t =
     t\<lparr>event_queue := push_heap ev_key (ev\<lparr>fifo_order := event_fifo_id t\<rparr>) (event_queue t),
       event_fifo_id := event_fifo_id t + 1\<rparr>"

definition MoveEvents :: "timer \<Rightarrow> timer" where
  "MoveEvents t = fold enqueue (ts_queue t) (t\<lparr>ts_queue := []\<rparr>)"

definition GetMaxSliceLength :: "timer \<Rightarrow> int run" where
  "GetMaxSliceLength t =
     (case event_queue t of
        next_event # _ \<Rightarrow> do {
          d \<leftarrow> chk64 (ev_time next_event - executed_ticks t);
          ASSERT (d > 0);
          Some d}
      | [] \<Rightarrow> Some MAX_SLICE_LENGTH)"

definition SetNextSlice :: "int \<Rightarrow> timer \<Rightarrow> timer run" where
  "SetNextSlice max_slice_length t = do {
     s \<leftarrow> (case event_queue t of
            front # _ \<Rightarrow> do {
              d \<leftarrow> chk64 (ev_time front - executed_ticks t);
              Some (signed_take_bit 31 (min d max_slice_length))}
          | [] \<Rightarrow> Some max_slice_length);
     Some (t\<lparr>slice_length := s, downcount := s\<rparr>)}"

definition Timer_Idle :: "timer \<Rightarrow> timer" where
  "Timer_Idle t = t\<lparr>idled_cycles := (idled_cycles t + downcount t) mod 2 ^ 64, downcount := 0\<rparr>"

section \<open>Scheduling\<close>

definition SetCurrentTimer :: "nat \<Rightarrow> timing \<Rightarrow> timing run" where
  "SetCurrentTimer core_id tm = do {
     ASSERT (core_id < length (timers tm));
     Some (tm\<lparr>current_timer := core_id\<rparr>)}"

definition GetTicks :: "timing \<Rightarrow> int run" where
  "GetTicks tm = map_option wrap64 (Timer_GetTicks (timers tm ! current_timer tm))"

fun those_ticks :: "timer list \<Rightarrow> int list run" where
  "those_ticks [] = Some []"
| "those_ticks (t # ts) = do {
     x \<leftarrow> Timer_GetTicks t;
     xs \<leftarrow> those_ticks ts;
     Some (x # xs)}"

definition GetGlobalTicks :: "timing \<Rightarrow> int run" where
  "GetGlobalTicks tm = do {
     ticks \<leftarrow> those_ticks (timers tm);
     Some (wrap64 (fold max ticks 0))}"

definition GetGlobalTimeUs :: "timing \<Rightarrow> int run" where
  "GetGlobalTimeUs tm = do {
     g \<leftarrow> GetGlobalTicks tm;
     p \<leftarrow> chk64 (g * 1000000);
     Some (wrap64 (p mod 2 ^ 64 div BASE_CLOCK_RATE_ARM11))}"

text \<open>\<open>core_id = None\<close> is the default argument, the current timer.\<close>

definition ScheduleEvent ::
  "int \<Rightarrow> string \<Rightarrow> u64 \<Rightarrow> nat option \<Rightarrow> bool \<Rightarrow> timing \<Rightarrow> timing run" where
  "ScheduleEvent cycles_into_future type data core_id thread_safe_mode tm =
     (if event_queue_locked tm then Some tm
      else do {
        let c = (case core_id of None \<Rightarrow> current_timer tm | Some k \<Rightarrow> k);
        ASSERT (c < length (timers tm));
        let t = timers tm ! c;
        ticks \<leftarrow> Timer_GetTicks t;
        if thread_safe_mode then do {
          let cycles = max (MAX_SLICE_LENGTH * 2) cycles_into_future;
          let ev = \<lparr>ev_time = wrap64 (ticks + cycles), fifo_order = 0, user_data = data,
            ev_type = type\<rparr>;
          Some (upd_timer c (\<lambda>t. t\<lparr>ts_queue := ts_queue t @ [ev]\<rparr>) tm)}
        else do {
          let ev = \<lparr>ev_time = wrap64 (ticks + cycles_into_future), fifo_order = 0,
            user_data = data, ev_type = type\<rparr>;
          if current_timer tm = c then do {
            t \<leftarrow> (if \<not> is_timer_sane t then ForceExceptionCheck cycles_into_future t else Some t);
            Some (upd_timer c (\<lambda>_. enqueue ev t) tm)}
          else Some (upd_timer c (\<lambda>t. t\<lparr>ts_queue := ts_queue t @ [ev]\<rparr>) tm)}})"

definition drop_events :: "(event \<Rightarrow> bool) \<Rightarrow> timer \<Rightarrow> timer" where
  "drop_events P t =
     (let kept = filter (\<lambda>e. \<not> P e) (event_queue t)
      in if length kept < length (event_queue t) then t\<lparr>event_queue := make_heap ev_key kept\<rparr> else t)"

definition UnscheduleEvent :: "string \<Rightarrow> u64 \<Rightarrow> timing \<Rightarrow> timing" where
  "UnscheduleEvent type data tm =
     (if event_queue_locked tm then tm
      else tm\<lparr>timers := map (drop_events (\<lambda>e. ev_type e = type \<and> user_data e = data)) (timers tm)\<rparr>)"

definition RemoveEvent :: "string \<Rightarrow> timing \<Rightarrow> timing" where
  "RemoveEvent type tm =
     (if event_queue_locked tm then tm
      else tm\<lparr>timers := map (drop_events (\<lambda>e. ev_type e = type)) (timers tm)\<rparr>)"

definition UnlockEventQueue :: "timing \<Rightarrow> timing" where
  "UnlockEventQueue tm = tm\<lparr>event_queue_locked := False\<rparr>"

section \<open>Advancing\<close>

text \<open>A callback gets its argument and the number of cycles it is late.\<close>

type_synonym 'w callbacks = "nat \<Rightarrow> u64 \<Rightarrow> int \<Rightarrow> timing \<times> 'w \<Rightarrow> (timing \<times> 'w) run"

definition fire :: "'w callbacks \<Rightarrow> event \<Rightarrow> int \<Rightarrow> timing \<times> 'w \<Rightarrow> (timing \<times> 'w) run" where
  "fire call evt now s =
     (case event_types (fst s) (ev_type evt) of
        Some (Some callback) \<Rightarrow> do {
          late \<leftarrow> chk64 (now - ev_time evt);
          call callback (user_data evt) (signed_take_bit 31 late) s}
      | _ \<Rightarrow> Some s)"

partial_function (option) advance_loop ::
  "'w callbacks \<Rightarrow> nat \<Rightarrow> timing \<times> 'w \<Rightarrow> (timing \<times> 'w) run" where
  "advance_loop call c s =
     (let t = timers (fst s) ! c
      in case event_queue t of
           [] \<Rightarrow> Some s
         | evt # _ \<Rightarrow>
             if ev_time evt \<le> executed_ticks t then
               Option.bind
                 (fire call evt (executed_ticks t)
                    (upd_timer c (\<lambda>t. t\<lparr>event_queue := pop_heap ev_key (event_queue t)\<rparr>) (fst s), snd s))
                 (advance_loop call c)
             else Some s)"

definition begin_advance :: "timer \<Rightarrow> timer run" where
  "begin_advance t = do {
     let t = MoveEvents t;
     cycles_executed \<leftarrow> chk64 (slice_length t - downcount t);
     executed \<leftarrow> chk64 (executed_ticks t + cycles_executed);
     Some (t\<lparr>idled_cycles := 0, executed_ticks := executed, slice_length := 0, downcount := 0,
       is_timer_sane := True\<rparr>)}"

definition Timer_Advance :: "'w callbacks \<Rightarrow> nat \<Rightarrow> timing \<times> 'w \<Rightarrow> (timing \<times> 'w) run" where
  "Timer_Advance call c s = do {
     t \<leftarrow> begin_advance (timers (fst s) ! c);
     s \<leftarrow> advance_loop call c (upd_timer c (\<lambda>_. t) (fst s), snd s);
     Some (upd_timer c (\<lambda>t. t\<lparr>is_timer_sane := False\<rparr>) (fst s), snd s)}"

section \<open>Well-formed timers\<close>

text \<open>The bounds of \<open>timer_ok\<close> are those of a machine that has run for less than 500 years.\<close>

definition time_ok :: "int \<Rightarrow> bool" where
  "time_ok x \<longleftrightarrow> - (2 ^ 62) \<le> x \<and> x < 2 ^ 62"

definition timer_ok :: "timer \<Rightarrow> bool" where
  "timer_ok t \<longleftrightarrow> heap_ordered ev_key (event_queue t) \<and> 0 \<le> executed_ticks t \<and>
     executed_ticks t < 2 ^ 62 \<and> (\<forall>e \<in> set (event_queue t). time_ok (ev_time e))"

definition now :: "timer \<Rightarrow> int" where
  "now t = (if is_timer_sane t then executed_ticks t
            else executed_ticks t + (slice_length t - downcount t))"

definition due_events :: "timer \<Rightarrow> event multiset" where
  "due_events t = filter_mset (\<lambda>e. ev_time e \<le> executed_ticks t) (mset (event_queue t))"

lemma chk64_Some [simp]: "- (2 ^ 63) \<le> x \<Longrightarrow> x < 2 ^ 63 \<Longrightarrow> chk64 x = Some x"
  by (simp add: chk64_def)

lemma wrap64_id [simp]: "- (2 ^ 63) \<le> x \<Longrightarrow> x < 2 ^ 63 \<Longrightarrow> wrap64 x = x"
  by (simp add: wrap64_def signed_take_bit_int_eq_self)

lemma timers_upd [simp]: "timers (upd_timer c f tm) = (timers tm)[c := f (timers tm ! c)]"
  and event_types_upd [simp]: "event_types (upd_timer c f tm) = event_types tm"
  and locked_upd [simp]: "event_queue_locked (upd_timer c f tm) = event_queue_locked tm"
  and current_upd [simp]: "current_timer (upd_timer c f tm) = current_timer tm"
  by (simp_all add: upd_timer_def)

lemma Timer_GetTicks_now:
  assumes "0 \<le> now t" "now t < 2 ^ 62" "\<not> is_timer_sane t \<Longrightarrow> time_ok (slice_length t - downcount t)"
  shows "Timer_GetTicks t = Some (now t)"
  using assms by (auto simp: Timer_GetTicks_def now_def time_ok_def)

text \<open>The front of the heap is an event of least time.\<close>

lemma ev_time_of_key: "ev_key a \<le> ev_key b \<Longrightarrow> ev_time a \<le> ev_time b"
  by (auto simp: ev_key_def less_eq_prod_def)

lemma front_earliest:
  "heap_ordered ev_key q \<Longrightarrow> e \<in> set q \<Longrightarrow> ev_time (hd q) \<le> ev_time e"
  by (rule ev_time_of_key [OF heap.front_least])

lemma no_front_due:
  assumes "timer_ok t" "event_queue t = evt # q" "executed_ticks t < ev_time evt"
  shows "\<forall>e \<in> set (event_queue t). executed_ticks t < ev_time e"
proof
  fix e assume "e \<in> set (event_queue t)"
  with assms(1,2) have "ev_time evt \<le> ev_time e"
    using front_earliest [of "event_queue t" e] by (simp add: timer_ok_def)
  with assms(3) show "executed_ticks t < ev_time e" by simp
qed

lemma enqueue_fields [simp]:
  "executed_ticks (enqueue e t) = executed_ticks t" "slice_length (enqueue e t) = slice_length t"
  "downcount (enqueue e t) = downcount t" "is_timer_sane (enqueue e t) = is_timer_sane t"
  "ts_queue (enqueue e t) = ts_queue t"
  "mset (event_queue (enqueue e t)) =
     add_mset (e\<lparr>fifo_order := event_fifo_id t\<rparr>) (mset (event_queue t))"
  "set (event_queue (enqueue e t)) = insert (e\<lparr>fifo_order := event_fifo_id t\<rparr>) (set (event_queue t))"
  by (simp_all add: enqueue_def heap.mset_push)

lemma now_enqueue [simp]: "now (enqueue e t) = now t"
  by (simp add: now_def)

lemma timer_ok_enqueue [simp]:
  "timer_ok t \<Longrightarrow> time_ok (ev_time e) \<Longrightarrow> timer_ok (enqueue e t)"
  unfolding timer_ok_def by (auto simp: enqueue_def heap.inv_push)

lemma MoveEvents_aux:
  assumes "timer_ok t" "\<forall>e \<in> set es. time_ok (ev_time e)"
  shows "timer_ok (fold enqueue es t) \<and> executed_ticks (fold enqueue es t) = executed_ticks t \<and>
    slice_length (fold enqueue es t) = slice_length t \<and> downcount (fold enqueue es t) = downcount t"
  using assms by (induction es arbitrary: t) simp_all

section \<open>Advancing terminates and leaves nothing due\<close>

text \<open>A tame callback returns, keeps the timer well formed, does not move its clock and makes no
  event due that was not: it schedules, if at all, at least one cycle ahead.\<close>

definition tame :: "'w callbacks \<Rightarrow> nat \<Rightarrow> bool" where
  "tame call c \<longleftrightarrow> (\<forall>k d late tm w. c < length (timers tm) \<and> timer_ok (timers tm ! c) \<and>
       is_timer_sane (timers tm ! c) \<longrightarrow>
     (case call k d late (tm, w) of
        None \<Rightarrow> False
      | Some (tm', w') \<Rightarrow> length (timers tm') = length (timers tm) \<and> timer_ok (timers tm' ! c) \<and>
          is_timer_sane (timers tm' ! c) \<and>
          executed_ticks (timers tm' ! c) = executed_ticks (timers tm ! c) \<and>
          due_events (timers tm' ! c) \<subseteq># due_events (timers tm ! c)))"

lemma fire_tame:
  assumes "tame call c" "c < length (timers tm)" "timer_ok (timers tm ! c)"
    "is_timer_sane (timers tm ! c)" "time_ok (ev_time evt)"
    "n = executed_ticks (timers tm ! c)"
  obtains tm' w' where "fire call evt n (tm, w) = Some (tm', w')"
    "length (timers tm') = length (timers tm)" "timer_ok (timers tm' ! c)"
    "is_timer_sane (timers tm' ! c)"
    "executed_ticks (timers tm' ! c) = executed_ticks (timers tm ! c)"
    "due_events (timers tm' ! c) \<subseteq># due_events (timers tm ! c)"
proof (cases "\<exists>cb. event_types tm (ev_type evt) = Some (Some cb)")
  case True
  then obtain cb where cb: "event_types tm (ev_type evt) = Some (Some cb)" by blast
  have "chk64 (n - ev_time evt) = Some (n - ev_time evt)"
    using assms(3,5,6) by (auto simp: timer_ok_def time_ok_def)
  then have f: "fire call evt n (tm, w) =
      call cb (user_data evt) (signed_take_bit 31 (n - ev_time evt)) (tm, w)"
    using cb by (simp add: fire_def)
  have T: "case call cb (user_data evt) (signed_take_bit 31 (n - ev_time evt)) (tm, w) of
        None \<Rightarrow> False
      | Some (tm', w') \<Rightarrow> length (timers tm') = length (timers tm) \<and> timer_ok (timers tm' ! c) \<and>
          is_timer_sane (timers tm' ! c) \<and>
          executed_ticks (timers tm' ! c) = executed_ticks (timers tm ! c) \<and>
          due_events (timers tm' ! c) \<subseteq># due_events (timers tm ! c)"
    using assms(1-4) by (simp add: tame_def)
  then obtain tm' w' where
    "call cb (user_data evt) (signed_take_bit 31 (n - ev_time evt)) (tm, w) = Some (tm', w')"
    by (auto split: option.splits)
  with T f show ?thesis by (intro that [of tm' w']) auto
next
  case False
  then have "fire call evt n (tm, w) = Some (tm, w)"
    by (auto simp: fire_def split: option.splits)
  then show ?thesis using that assms by auto
qed

lemma pop_due:
  assumes "timer_ok t" "event_queue t = evt # q" "ev_time evt \<le> executed_ticks t"
  defines "t' \<equiv> t\<lparr>event_queue := pop_heap ev_key (event_queue t)\<rparr>"
  shows "timer_ok t'" "due_events t = add_mset evt (due_events t')"
proof -
  have m: "mset (event_queue t) = add_mset evt (mset (pop_heap ev_key (event_queue t)))"
    using heap.split_pop [of "event_queue t" ev_key] assms(2) by simp
  then show "due_events t = add_mset evt (due_events t')"
    using assms(3) unfolding due_events_def t'_def by simp
  show "timer_ok t'"
    using assms(1,2) heap.inv_pop [of ev_key "event_queue t"]
      heap.set_pop_subset [of "event_queue t" ev_key]
    unfolding t'_def timer_ok_def by auto
qed

lemma advance_loop_tame:
  assumes "tame call c" "c < length (timers tm)" "timer_ok (timers tm ! c)"
    "is_timer_sane (timers tm ! c)"
  shows "\<exists>tm' w'. advance_loop call c (tm, w) = Some (tm', w') \<and>
    length (timers tm') = length (timers tm) \<and> timer_ok (timers tm' ! c) \<and>
    executed_ticks (timers tm' ! c) = executed_ticks (timers tm ! c) \<and>
    (\<forall>e \<in> set (event_queue (timers tm' ! c)). executed_ticks (timers tm ! c) < ev_time e)"
  using assms(2-)
proof (induction "size (due_events (timers tm ! c))" arbitrary: tm w rule: less_induct)
  case less
  let ?t = "timers tm ! c"
  show ?case
  proof (cases "event_queue ?t")
    case Nil
    then show ?thesis using less.prems by (subst advance_loop.simps) simp
  next
    case (Cons evt q)
    show ?thesis
    proof (cases "ev_time evt \<le> executed_ticks ?t")
      case True
      let ?t' = "?t\<lparr>event_queue := pop_heap ev_key (event_queue ?t)\<rparr>"
      let ?tm = "upd_timer c (\<lambda>t. t\<lparr>event_queue := pop_heap ev_key (event_queue t)\<rparr>) tm"
      have tm: "timers ?tm ! c = ?t'" using less.prems by simp
      note pop = pop_due [OF less.prems(2) Cons True]
      have p: "c < length (timers ?tm)" "timer_ok (timers ?tm ! c)" "is_timer_sane (timers ?tm ! c)"
        "executed_ticks ?t = executed_ticks (timers ?tm ! c)"
        using less.prems pop(1) unfolding tm by simp_all
      have "time_ok (ev_time evt)" using less.prems(2) Cons by (simp add: timer_ok_def)
      then obtain tm1 w1 where f: "fire call evt (executed_ticks ?t) (?tm, w) = Some (tm1, w1)"
        "length (timers tm1) = length (timers ?tm)" "timer_ok (timers tm1 ! c)"
        "is_timer_sane (timers tm1 ! c)"
        "executed_ticks (timers tm1 ! c) = executed_ticks (timers ?tm ! c)"
        "due_events (timers tm1 ! c) \<subseteq># due_events (timers ?tm ! c)"
        by (rule fire_tame [OF assms(1) p(1-3) _ p(4), where w = w])
      have "size (due_events (timers tm1 ! c)) < size (due_events ?t)"
        using size_mset_mono [OF f(6)] tm pop(2) by simp
      from less.hyps [OF this _ f(3,4), of w1] f tm less.prems show ?thesis
        using True Cons by (subst advance_loop.simps) simp
    next
      case False
      then show ?thesis using less.prems no_front_due [OF less.prems(2) Cons] Cons
        by (subst advance_loop.simps) auto
    qed
  qed
qed

text \<open>The queued events with those posted by other threads.\<close>

definition advance_ready :: "timer \<Rightarrow> bool" where
  "advance_ready t \<longleftrightarrow> timer_ok t \<and> (\<forall>e \<in> set (ts_queue t). time_ok (ev_time e)) \<and>
     time_ok (slice_length t - downcount t) \<and> 0 \<le> executed_ticks t + (slice_length t - downcount t) \<and>
     executed_ticks t + (slice_length t - downcount t) < 2 ^ 62"

lemma begin_advance_ok:
  assumes "advance_ready t"
  shows "\<exists>t'. begin_advance t = Some t' \<and> timer_ok t' \<and> is_timer_sane t' \<and>
    executed_ticks t' = executed_ticks t + (slice_length t - downcount t) \<and>
    event_queue t' = event_queue (MoveEvents t)"
proof -
  have "timer_ok (t\<lparr>ts_queue := []\<rparr>)" using assms by (simp add: advance_ready_def timer_ok_def)
  from MoveEvents_aux [OF this] assms
  have m: "timer_ok (MoveEvents t)" "executed_ticks (MoveEvents t) = executed_ticks t"
    "slice_length (MoveEvents t) = slice_length t" "downcount (MoveEvents t) = downcount t"
    by (auto simp: MoveEvents_def advance_ready_def)
  then show ?thesis
    using assms by (auto simp: begin_advance_def advance_ready_def timer_ok_def time_ok_def)
qed

text \<open>C35: \<open>Advance\<close> with callbacks that schedule at least one cycle ahead terminates. The clock has
  moved by the cycles executed, no event that is due is left in the queue, and the assertion of
  \<open>GetMaxSliceLength\<close> holds afterwards: the next slice is positive.\<close>

theorem advance_terminates:
  assumes "tame call c" "c < length (timers tm)" "advance_ready (timers tm ! c)"
  shows "\<exists>tm' w'. Timer_Advance call c (tm, w) = Some (tm', w') \<and>
    timer_ok (timers tm' ! c) \<and> \<not> is_timer_sane (timers tm' ! c) \<and>
    executed_ticks (timers tm' ! c) = executed_ticks (timers tm ! c) +
      (slice_length (timers tm ! c) - downcount (timers tm ! c)) \<and>
    (\<forall>e \<in> set (event_queue (timers tm' ! c)). executed_ticks (timers tm' ! c) < ev_time e) \<and>
    (\<exists>d > 0. GetMaxSliceLength (timers tm' ! c) = Some d)"
proof -
  obtain t where t: "begin_advance (timers tm ! c) = Some t" "timer_ok t" "is_timer_sane t"
    "executed_ticks t = executed_ticks (timers tm ! c) +
      (slice_length (timers tm ! c) - downcount (timers tm ! c))"
    using begin_advance_ok [OF assms(3)] by auto
  let ?tm = "upd_timer c (\<lambda>_. t) tm"
  obtain tm' w' where l: "advance_loop call c (?tm, w) = Some (tm', w')"
    "length (timers tm') = length (timers tm)" "timer_ok (timers tm' ! c)"
    "executed_ticks (timers tm' ! c) = executed_ticks t"
    "\<forall>e \<in> set (event_queue (timers tm' ! c)). executed_ticks t < ev_time e"
    using advance_loop_tame [OF assms(1), of ?tm w] assms(2) t by auto
  have "\<exists>d > 0. GetMaxSliceLength (timers tm' ! c) = Some d"
    using l(3-5) by (auto simp: GetMaxSliceLength_def MAX_SLICE_LENGTH_def timer_ok_def time_ok_def
      ASSERT_def split: list.splits)
  moreover have "GetMaxSliceLength (x\<lparr>is_timer_sane := False\<rparr>) = GetMaxSliceLength x" for x
    by (simp add: GetMaxSliceLength_def cong: list.case_cong)
  ultimately show ?thesis
    using l assms(2) t by (simp add: Timer_Advance_def timer_ok_def)
qed

section \<open>Due events fire in order\<close>

text \<open>Callbacks that only record that they were called.\<close>

type_synonym log_entry = "nat \<times> u64 \<times> int"

definition logging :: "log_entry list callbacks" where
  "logging k d late s = Some (fst s, snd s @ [(k, d, late)])"

definition callback_of :: "timing \<Rightarrow> event \<Rightarrow> nat" where
  "callback_of tm e = the (the (event_types tm (ev_type e)))"

definition has_callback :: "timing \<Rightarrow> event \<Rightarrow> bool" where
  "has_callback tm e \<longleftrightarrow> (\<exists>cb. event_types tm (ev_type e) = Some (Some cb))"

definition log_of :: "timing \<Rightarrow> int \<Rightarrow> event \<Rightarrow> log_entry" where
  "log_of tm n e = (callback_of tm e, user_data e, signed_take_bit 31 (n - ev_time e))"

lemma fire_logging:
  assumes "has_callback tm e" "time_ok (ev_time e)" "0 \<le> n" "n < 2 ^ 62"
  shows "fire logging e n (tm, w) = Some (tm, w @ [log_of tm n e])"
  using assms by (auto simp: fire_def has_callback_def logging_def log_of_def callback_of_def time_ok_def)

lemma log_of_upd [simp]: "log_of (upd_timer c f tm) = log_of tm"
  and has_callback_upd [simp]: "has_callback (upd_timer c f tm) = has_callback tm"
  by (simp_all add: log_of_def callback_of_def has_callback_def fun_eq_iff)

lemma upd_upd [simp]: "upd_timer c f (upd_timer c g tm) = upd_timer c (\<lambda>t. f (g t)) tm"
  by (cases "c < length (timers tm)") (simp_all add: upd_timer_def list_update_beyond)

lemma advance_loop_logging:
  assumes "c < length (timers tm)" "timer_ok (timers tm ! c)"
    "\<forall>e \<in> set (event_queue (timers tm ! c)). has_callback tm e"
  shows "\<exists>es q. advance_loop logging c (tm, w) =
      Some (upd_timer c (\<lambda>t. t\<lparr>event_queue := q\<rparr>) tm,
        w @ map (log_of tm (executed_ticks (timers tm ! c))) es) \<and>
    sorted (map ev_key es) \<and> mset es = due_events (timers tm ! c) \<and>
    mset q = mset (event_queue (timers tm ! c)) - due_events (timers tm ! c)"
  using assms
proof (induction "length (event_queue (timers tm ! c))" arbitrary: tm w rule: less_induct)
  case less
  let ?t = "timers tm ! c"
  have stop: "?case" if nd: "\<forall>e \<in> set (event_queue ?t). executed_ticks ?t < ev_time e"
  proof -
    have "due_events ?t = {#}" using nd by (auto simp: due_events_def filter_mset_eq_conv)
    moreover have "advance_loop logging c (tm, w) = Some (tm, w)"
      using nd by (subst advance_loop.simps) (auto simp: Let_def split: list.splits)
    moreover have "upd_timer c (\<lambda>t. t\<lparr>event_queue := event_queue ?t\<rparr>) tm = tm"
      using less.prems(1) by (simp add: upd_timer_def)
    ultimately show ?case
      by (intro exI [of _ "[]"] exI [of _ "event_queue ?t"]) simp
  qed
  show ?case
  proof (cases "event_queue ?t")
    case Nil
    then show ?thesis using stop by simp
  next
    case (Cons evt q)
    show ?thesis
    proof (cases "ev_time evt \<le> executed_ticks ?t")
      case True
      let ?q = "pop_heap ev_key (event_queue ?t)"
      let ?t' = "?t\<lparr>event_queue := ?q\<rparr>"
      let ?tm = "upd_timer c (\<lambda>t. t\<lparr>event_queue := pop_heap ev_key (event_queue t)\<rparr>) tm"
      let ?n = "executed_ticks ?t"
      have t: "timers ?tm ! c = ?t'" "c < length (timers ?tm)" using less.prems by simp_all
      note pop = pop_due [OF less.prems(2) Cons True]
      have sub: "set ?q \<subseteq> set (event_queue ?t)" and len: "length ?q < length (event_queue ?t)"
        using heap.set_pop_subset [of "event_queue ?t" ev_key]
          heap.length_pop [of "event_queue ?t" ev_key] Cons by auto
      have f: "fire logging evt ?n (?tm, w) = Some (?tm, w @ [log_of tm ?n evt])"
        using fire_logging [of ?tm evt ?n w] less.prems(2,3) Cons by (simp add: timer_ok_def)
      obtain es r where ih: "advance_loop logging c (?tm, w @ [log_of tm ?n evt]) =
          Some (upd_timer c (\<lambda>t. t\<lparr>event_queue := r\<rparr>) tm,
            (w @ [log_of tm ?n evt]) @ map (log_of tm ?n) es)"
        "sorted (map ev_key es)" "mset es = due_events ?t'" "mset r = mset ?q - due_events ?t'"
        using less.hyps [of ?tm "w @ [log_of tm ?n evt]"] len less.prems(3) sub pop(1) t
        by auto
      have "ev_key evt \<le> ev_key e" if "e \<in> set es" for e
      proof -
        have "e \<in># due_events ?t'" using that ih(3) by (metis set_mset_mset)
        then have "e \<in> set (event_queue ?t)" using sub by (auto simp: due_events_def)
        then show ?thesis
          using less.prems(2) heap.front_least [of ev_key "event_queue ?t" e] Cons
          by (simp add: timer_ok_def)
      qed
      moreover have "mset ?q = mset (event_queue ?t) - {#evt#}"
        using heap.mset_pop [of "event_queue ?t" ev_key] Cons by simp
      ultimately show ?thesis
        using ih f pop(2) Cons True
        by - (rule exI [of _ "evt # es"], rule exI [of _ r],
          subst advance_loop.simps, simp add: Let_def)
    next
      case False
      then show ?thesis using stop no_front_due [OF less.prems(2) Cons] by simp
    qed
  qed
qed


section \<open>Scheduling\<close>

text \<open>The running slice ends no later than any queued event, unless the event is late already.\<close>

definition never_late :: "timer \<Rightarrow> bool" where
  "never_late t \<longleftrightarrow> (\<forall>e \<in> set (event_queue t). downcount t \<le> max 0 (ev_time e - now t))"

definition running :: "timer \<Rightarrow> bool" where
  "running t \<longleftrightarrow> \<not> is_timer_sane t \<and> 0 \<le> now t \<and> now t < 2 ^ 62 \<and> time_ok (downcount t) \<and>
     time_ok (slice_length t - downcount t) \<and> time_ok (slice_length t)"

lemma ForceExceptionCheck_running:
  assumes "running t" "time_ok cycles"
  shows "\<exists>t'. ForceExceptionCheck cycles t = Some t' \<and> running t' \<and> now t' = now t \<and>
    downcount t' = min (downcount t) (max 0 cycles) \<and> event_queue t' = event_queue t \<and>
    event_fifo_id t' = event_fifo_id t"
proof (cases "downcount t > max 0 cycles")
  case True
  let ?d = "downcount t - max 0 cycles"
  have r: "0 < ?d" "?d \<le> downcount t" using True by auto
  have s: "slice_length t - ?d = slice_length t - downcount t + max 0 cycles" by simp
  have b: "- (2 ^ 63) \<le> slice_length t - ?d" "slice_length t - ?d < 2 ^ 63"
    "time_ok (slice_length t - ?d)" "time_ok (max 0 cycles)"
    using assms True r by (auto simp: running_def time_ok_def max_def split: if_splits)
  then show ?thesis
    using assms True r b
    by (auto simp: ForceExceptionCheck_def Let_def running_def now_def time_ok_def min_def)
qed (use assms in \<open>auto simp: ForceExceptionCheck_def Let_def running_def\<close>)

text \<open>scheduling an event on the running core puts exactly that event into the queue, at the
  current time plus the delay, behind the events of the same time. The clock does not move, and
  the slice is cut short when the event falls into it, so the slice still ends before every event.\<close>

theorem schedule_keeps_deadlines:
  assumes "\<not> event_queue_locked tm" "current_timer tm < length (timers tm)"
    and t: "t = timers tm ! current_timer tm" "running t" "never_late t"
      "heap_ordered ev_key (event_queue t)"
    and "time_ok cycles"
  shows "\<exists>t'. ScheduleEvent cycles type data None False tm =
      Some (tm\<lparr>timers := (timers tm)[current_timer tm := t']\<rparr>) \<and>
    now t' = now t \<and> downcount t' = min (downcount t) (max 0 cycles) \<and>
    mset (event_queue t') = add_mset \<lparr>ev_time = now t + cycles, fifo_order = event_fifo_id t,
      user_data = data, ev_type = type\<rparr> (mset (event_queue t)) \<and>
    heap_ordered ev_key (event_queue t') \<and> never_late t'"
proof -
  obtain t1 where f: "ForceExceptionCheck cycles t = Some t1" "running t1" "now t1 = now t"
    "downcount t1 = min (downcount t) (max 0 cycles)" "event_queue t1 = event_queue t"
    "event_fifo_id t1 = event_fifo_id t"
    using ForceExceptionCheck_running [OF t(2) assms(7)] by blast
  have g: "Timer_GetTicks t = Some (now t)"
    using t(2) by (intro Timer_GetTicks_now) (auto simp: running_def)
  have w: "wrap64 (now t + cycles) = now t + cycles"
    using t(2) assms(7) by (intro wrap64_id) (auto simp: running_def time_ok_def)
  define t' where "t' = enqueue \<lparr>ev_time = now t + cycles, fifo_order = 0, user_data = data,
    ev_type = type\<rparr> t1"
  have s: "ScheduleEvent cycles type data None False tm =
      Some (tm\<lparr>timers := (timers tm)[current_timer tm := t']\<rparr>)"
    using assms(1,2) t(1,2) f(1) g w
    by (simp add: ScheduleEvent_def upd_timer_def t'_def running_def Let_def)
  have n: "now t' = now t" using f(3) by (simp add: t'_def)
  have "heap_ordered ev_key (event_queue t')"
    using t(4) f(5) by (simp add: t'_def enqueue_def heap.inv_push)
  moreover have "never_late t'"
    using t(3) f n by (auto simp: never_late_def t'_def)
  ultimately show ?thesis using s n f by (intro exI [of _ t']) (simp add: t'_def)
qed

lemma SetNextSlice_never_late:
  assumes "timer_ok t" "\<not> is_timer_sane t" "0 \<le> m" "m < 2 ^ 31"
    and "\<forall>e \<in> set (event_queue t). executed_ticks t < ev_time e"
  shows "\<exists>t'. SetNextSlice m t = Some t' \<and> never_late t' \<and> now t' = executed_ticks t \<and>
    0 \<le> downcount t' \<and> downcount t' \<le> m \<and> event_queue t' = event_queue t"
proof (cases "event_queue t")
  case Nil
  then show ?thesis using assms by (simp add: SetNextSlice_def never_late_def now_def)
next
  case (Cons front q)
  let ?d = "ev_time front - executed_ticks t"
  have c: "chk64 ?d = Some ?d" "0 < ?d"
    using assms(1,5) Cons by (auto simp: timer_ok_def time_ok_def)
  have m: "signed_take_bit 31 (min ?d m) = min ?d m"
    using c(2) assms(3,4) by (intro signed_take_bit_int_eq_self) auto
  have "?d \<le> ev_time e - executed_ticks t" if "e \<in> set (event_queue t)" for e
    using front_earliest [OF _ that] assms(1) Cons by (simp add: timer_ok_def)
  then show ?thesis
    using Cons c m assms(2,3) by (force simp: SetNextSlice_def never_late_def now_def)
qed

text \<open>Inside a callback the timer is sane, and an event scheduled ahead is not due.\<close>

lemma schedule_in_callback:
  assumes "\<not> event_queue_locked tm" "current_timer tm = c" "c < length (timers tm)"
    "timer_ok (timers tm ! c)" "is_timer_sane (timers tm ! c)" "0 < cycles"
    "executed_ticks (timers tm ! c) + cycles < 2 ^ 62"
  shows "\<exists>t'. ScheduleEvent cycles type data None False tm = Some (tm\<lparr>timers := (timers tm)[c := t']\<rparr>) \<and>
    timer_ok t' \<and> is_timer_sane t' \<and> executed_ticks t' = executed_ticks (timers tm ! c) \<and>
    due_events t' = due_events (timers tm ! c)"
  using assms
proof -
  let ?t = "timers tm ! c"
  let ?e = "\<lparr>ev_time = executed_ticks ?t + cycles, fifo_order = 0, user_data = data, ev_type = type\<rparr>"
  have g: "Timer_GetTicks ?t = Some (executed_ticks ?t)"
    using assms(4,5) by (simp add: Timer_GetTicks_def timer_ok_def)
  have w: "wrap64 (executed_ticks ?t + cycles) = executed_ticks ?t + cycles"
    using assms(4,6,7) by (simp add: timer_ok_def)
  have "ScheduleEvent cycles type data None False tm = Some (tm\<lparr>timers := (timers tm)[c := enqueue ?e ?t]\<rparr>)"
    using assms(1-3,5) g w by (simp add: ScheduleEvent_def upd_timer_def Let_def)
  moreover have "time_ok (ev_time ?e)" using assms(4,6,7) by (simp add: time_ok_def timer_ok_def)
  ultimately show ?thesis
    using assms(4,5,6) by (intro exI [of _ "enqueue ?e ?t"]) (simp add: due_events_def)
qed

text \<open>removing an event type and its argument takes exactly the matching events out of every
  queue and restores the heap order.\<close>

theorem unschedule_removes_exactly:
  assumes "\<not> event_queue_locked tm" "c < length (timers tm)"
    "heap_ordered ev_key (event_queue (timers tm ! c))" "never_late (timers tm ! c)"
    and t': "t' = timers (UnscheduleEvent type data tm) ! c"
  shows "mset (event_queue t') =
      filter_mset (\<lambda>e. \<not> (ev_type e = type \<and> user_data e = data)) (mset (event_queue (timers tm ! c))) \<and>
    heap_ordered ev_key (event_queue t') \<and> never_late t'"
proof -
  let ?P = "\<lambda>e. ev_type e = type \<and> user_data e = data" and ?t = "timers tm ! c"
  have t': "t' = drop_events ?P ?t"
    using assms(1,2) by (simp add: t' UnscheduleEvent_def)
  consider "length (filter (\<lambda>e. \<not> ?P e) (event_queue ?t)) < length (event_queue ?t)" |
      "filter (\<lambda>e. \<not> ?P e) (event_queue ?t) = event_queue ?t"
  proof (cases "\<forall>e \<in> set (event_queue ?t). \<not> ?P e")
    case True
    then show ?thesis using that(2) filter_True [of "event_queue ?t" "\<lambda>e. \<not> ?P e"] by simp
  next
    case False
    then obtain e where "e \<in> set (event_queue ?t)" "?P e" by blast
    then show ?thesis using that(1) length_filter_less [of e "event_queue ?t" "\<lambda>e. \<not> ?P e"] by simp
  qed
  then have m: "mset (event_queue t') = filter_mset (\<lambda>e. \<not> ?P e) (mset (event_queue ?t)) \<and>
      heap_ordered ev_key (event_queue t')"
  proof cases
    case 1
    then show ?thesis
      by (simp add: t' drop_events_def heap.inv_make heap.mset_make)
  next
    case 2
    then show ?thesis
      using assms(3) mset_filter [of "\<lambda>e. \<not> ?P e" "event_queue ?t"] by (simp add: t' drop_events_def)
  qed
  have "set (event_queue t') \<subseteq> set (event_queue ?t)"
  proof
    fix e assume "e \<in> set (event_queue t')"
    then have "e \<in># mset (event_queue t')" by simp
    then show "e \<in> set (event_queue ?t)" unfolding conjunct1 [OF m] by simp
  qed
  moreover have "now t' = now ?t" "downcount t' = downcount ?t"
    by (auto simp: t' drop_events_def Let_def now_def)
  ultimately show ?thesis using m assms(4) by (auto simp: never_late_def)
qed

section \<open>Conversions\<close>

lemma rate_times_exact:
  "0 \<le> x \<Longrightarrow> x \<le> MAX_VALUE_TO_MULTIPLY \<Longrightarrow> rate_times x = 268111856 * x \<and> 268111856 * x < 2 ^ 63"
  by (auto simp: rate_times_def MAX_VALUE_TO_MULTIPLY_def s64_max_def)

text \<open>C37: nanoseconds to cycles. Up to 34401209161 ns (34.4 s) the result is exact, rounded down; from there
  on the seconds are truncated first and the result is less than one second short. No value of
  the type reaches the overflow branch. A negative argument, which the type allows, wraps: \<open>-1\<close>
  becomes 68.8 seconds.\<close>

theorem nsToCycles_accuracy:
  assumes "0 \<le> ns" "ns < 2 ^ 63"
  shows "(if ns \<le> 34401209161 then nsToCycles ns = 268111856 * ns div 1000000000
     else nsToCycles ns = 268111856 * (ns div 1000000000)) \<and>
    268111856 * ns - 268111856 * 1000000000 < 1000000000 * nsToCycles ns \<and>
    1000000000 * nsToCycles ns \<le> 268111856 * ns \<and>
    nsToCycles 34401209162 < nsToCycles 34401209161 \<and> nsToCycles (- 1) = 18446744073"
proof -
  have m: "MAX_VALUE_TO_MULTIPLY = 34401209161"
    by (simp add: MAX_VALUE_TO_MULTIPLY_def s64_max_def)
  have sd: "ns sdiv 1000000000 = ns div 1000000000"
    using assms(1) by (simp add: signed_divide_int_def sgn_if)
  have q: "0 \<le> ns div 1000000000" "ns div 1000000000 \<le> 9223372036"
    using assms by auto
  have v: "nsToCycles ns = (if ns \<le> 34401209161 then 268111856 * ns div 1000000000
      else 268111856 * (ns div 1000000000))"
    using rate_times_exact [of ns] rate_times_exact [of "ns div 1000000000"] q m assms(1)
    by (simp add: nsToCycles_def sd)
  have c: "nsToCycles 34401209162 = 9115803104" "nsToCycles 34401209161 = 9223372036"
      "nsToCycles (- 1) = 18446744073"
    by (simp_all add: nsToCycles_def m signed_divide_int_def rate_times_def)
  have "268111856 * ns - 268111856 * 1000000000 < 1000000000 * nsToCycles ns"
    "1000000000 * nsToCycles ns \<le> 268111856 * ns"
    unfolding v using assms(1) by (auto simp: not_le)
  with v c show ?thesis by simp
qed

lemma nsToCycles_accuracy_witness: "nsToCycles 40000000001 = 40 * 268111856"
  using nsToCycles_accuracy [of 40000000001] by simp

section \<open>A concrete machine\<close>

definition example_event :: "int \<Rightarrow> u64 \<Rightarrow> event" where
  "example_event time data = \<lparr>ev_time = time, fifo_order = 7, user_data = data, ev_type = ''vblank''\<rparr>"

definition example_timer :: timer where
  "example_timer = \<lparr>event_queue = [example_event 1500 1], event_fifo_id = 8,
     ts_queue = [example_event 1200 2], is_timer_sane = False, slice_length = 1000, downcount = 400,
     executed_ticks = 1000, idled_cycles = 0, cpu_clock_percentage = 100\<rparr>"

definition example_timing :: timing where
  "example_timing = \<lparr>event_types = [''vblank'' \<mapsto> Some 0], timers = [example_timer],
     current_timer = 0, event_queue_locked = False\<rparr>"

text \<open>A callback that puts its event back 4000 cycles ahead, if the clock leaves room for it.\<close>

definition repeating :: "unit callbacks" where
  "repeating k d late s =
     (let t = timers (fst s) ! 0
      in if \<not> event_queue_locked (fst s) \<and> current_timer (fst s) = 0 \<and>
            executed_ticks t + (4000 - late) < 2 ^ 62 \<and> late < 4000
         then Option.bind (ScheduleEvent (4000 - late) ''vblank'' d None False (fst s))
           (\<lambda>tm. Some (tm, snd s))
         else Some s)"

lemma repeating_tame: "tame repeating 0"
  unfolding tame_def
proof (intro allI impI; elim conjE)
  fix k d late and tm :: timing and w :: unit
  assume tm: "0 < length (timers tm)" "timer_ok (timers tm ! 0)" "is_timer_sane (timers tm ! 0)"
  show "case repeating k d late (tm, w) of None \<Rightarrow> False
      | Some (tm', w') \<Rightarrow> length (timers tm') = length (timers tm) \<and> timer_ok (timers tm' ! 0) \<and>
          is_timer_sane (timers tm' ! 0) \<and>
          executed_ticks (timers tm' ! 0) = executed_ticks (timers tm ! 0) \<and>
          due_events (timers tm' ! 0) \<subseteq># due_events (timers tm ! 0)"
  proof (cases "\<not> event_queue_locked tm \<and> current_timer tm = 0 \<and>
      executed_ticks (timers tm ! 0) + (4000 - late) < 2 ^ 62 \<and> late < 4000")
    case True
    then obtain t' where
      "ScheduleEvent (4000 - late) ''vblank'' d None False tm = Some (tm\<lparr>timers := (timers tm)[0 := t']\<rparr>)"
      "timer_ok t'" "is_timer_sane t'" "executed_ticks t' = executed_ticks (timers tm ! 0)"
      "due_events t' = due_events (timers tm ! 0)"
      using schedule_in_callback [of tm 0 "4000 - late" "''vblank''" d] tm by auto
    then show ?thesis using True tm by (simp add: repeating_def)
  next
    case False
    then show ?thesis using tm by (simp only: repeating_def Let_def fst_conv) simp
  qed
qed

lemma mset_doubleton:
  assumes "mset es = mset [a, b]" shows "es = [a, b] \<or> es = [b, a]"
proof -
  have "length es = Suc (Suc 0)" using arg_cong [OF assms, of size] by simp
  then obtain x y where "es = [x, y]" by (auto simp: length_Suc_conv)
  then show ?thesis using assms by (auto simp: add_eq_conv_ex)
qed

lemma heap_ordered_single [simp]: "heap_ordered f [x]"
  by (simp add: heap_ordered_def)

lemma example_ready: "advance_ready example_timer"
  by (simp add: example_timer_def advance_ready_def timer_ok_def time_ok_def example_event_def)

lemma advance_terminates_witness:
  "\<exists>tm' w'. Timer_Advance repeating 0 (example_timing, ()) = Some (tm', w') \<and>
     executed_ticks (timers tm' ! 0) = 1600 \<and> (\<exists>d > 0. GetMaxSliceLength (timers tm' ! 0) = Some d)"
  using advance_terminates [OF repeating_tame, of example_timing "()"] example_ready
  by (auto simp: example_timing_def) (auto simp: example_timer_def)

lemma example_moved:
  "mset (event_queue (MoveEvents example_timer)) =
     {# example_event 1500 1, (example_event 1200 2)\<lparr>fifo_order := 8\<rparr> #}"
  by (simp add: MoveEvents_def example_timer_def add_mset_commute)


text \<open>The same machine with its event 500 cycles ahead.\<close>

definition ahead_timer :: timer where
  "ahead_timer = example_timer\<lparr>event_queue := [example_event 2100 1]\<rparr>"

definition ahead_timing :: timing where
  "ahead_timing = example_timing\<lparr>timers := [ahead_timer]\<rparr>"

lemma ahead_ok: "timers ahead_timing ! current_timer ahead_timing = ahead_timer"
  "running ahead_timer" "never_late ahead_timer" "heap_ordered ev_key (event_queue ahead_timer)"
  "now ahead_timer = 1600" "downcount ahead_timer = 400"
  by (simp_all add: ahead_timing_def ahead_timer_def example_timing_def example_timer_def running_def
    now_def time_ok_def never_late_def example_event_def)

lemma schedule_keeps_deadlines_witness:
  "\<exists>t'. ScheduleEvent 100 ''timer'' 5 None False ahead_timing =
       Some (ahead_timing\<lparr>timers := [t']\<rparr>) \<and> now t' = 1600 \<and> downcount t' = 100 \<and> never_late t'"
  using schedule_keeps_deadlines [of ahead_timing ahead_timer 100 "''timer''" 5] ahead_ok
  by (auto simp: ahead_timing_def example_timing_def time_ok_def)

lemma unschedule_removes_exactly_witness:
  "mset (event_queue (timers (UnscheduleEvent ''vblank'' 1 ahead_timing) ! 0)) = {#}"
proof -
  have t: "timers ahead_timing ! 0 = ahead_timer" by (simp add: ahead_timing_def)
  have "\<not> event_queue_locked ahead_timing" "0 < length (timers ahead_timing)"
    by (simp_all add: ahead_timing_def example_timing_def)
  from unschedule_removes_exactly [OF this _ _ refl, of "''vblank''" 1] ahead_ok t show ?thesis
    by (simp add: ahead_timer_def example_event_def)
qed

end
