(* ===== verification/KernelInterfaces.thy ===== *)
theory KernelInterfaces
  imports Prelude
begin

text \<open>
  The interfaces between the kernel's components, as locales: what a client of a component may
  rely on. Each is interpreted on the model's own definitions in the theory of the component
  that provides it.
\<close>

section \<open>The ready queue, as the scheduler uses it\<close>

text \<open>
  \<open>content q p\<close> is the queue of priority \<open>p\<close> (0 is the best), \<open>prepared q p\<close> that level
  \<open>p\<close> may hold threads. A pop returns \<open>None\<close> only when the code would crash or loop.
\<close>

locale ready_queue =
  fixes invar :: "'q \<Rightarrow> bool"
    and levels :: "'q \<Rightarrow> nat"
    and prepared :: "'q \<Rightarrow> nat \<Rightarrow> bool"
    and content :: "'q \<Rightarrow> nat \<Rightarrow> 'a list"
    and prepare :: "nat \<Rightarrow> 'q \<Rightarrow> 'q"
    and push_back :: "nat \<Rightarrow> 'a \<Rightarrow> 'q \<Rightarrow> 'q"
    and push_front :: "nat \<Rightarrow> 'a \<Rightarrow> 'q \<Rightarrow> 'q"
    and remove :: "nat \<Rightarrow> 'a \<Rightarrow> 'q \<Rightarrow> 'q"
    and pop_first :: "'q \<Rightarrow> ('a option \<times> 'q) run"
    and pop_first_better :: "nat \<Rightarrow> 'q \<Rightarrow> ('a option \<times> 'q) run"
  assumes content_levels: "levels q \<le> p \<Longrightarrow> content q p = []"
    and content_prepared: "invar q \<Longrightarrow> \<not> prepared q p \<Longrightarrow> content q p = []"
    and prepared_levels: "prepared q p \<Longrightarrow> p < levels q"
    and prepare: "invar q \<Longrightarrow> p < levels q \<Longrightarrow>
      invar (prepare p q) \<and> levels (prepare p q) = levels q \<and>
      prepared (prepare p q) = (prepared q)(p := True) \<and> content (prepare p q) = content q"
    and push_back: "invar q \<Longrightarrow> prepared q p \<Longrightarrow>
      invar (push_back p t q) \<and> levels (push_back p t q) = levels q \<and>
      prepared (push_back p t q) = prepared q \<and>
      content (push_back p t q) = (content q)(p := content q p @ [t])"
    and push_front: "invar q \<Longrightarrow> prepared q p \<Longrightarrow>
      invar (push_front p t q) \<and> levels (push_front p t q) = levels q \<and>
      prepared (push_front p t q) = prepared q \<and>
      content (push_front p t q) = (content q)(p := t # content q p)"
    and remove: "invar q \<Longrightarrow> p < levels q \<Longrightarrow>
      invar (remove p t q) \<and> levels (remove p t q) = levels q \<and>
      prepared (remove p t q) = prepared q \<and>
      content (remove p t q) = (content q)(p := removeAll t (content q p))"
    and pop_first_none: "invar q \<Longrightarrow> (\<And>p. content q p = []) \<Longrightarrow> pop_first q = Some (None, q)"
    and pop_first_some: "invar q \<Longrightarrow> (\<And>p. p < i \<Longrightarrow> content q p = []) \<Longrightarrow>
      content q i = t # ts \<Longrightarrow>
      \<exists>q'. pop_first q = Some (Some t, q') \<and> invar q' \<and> levels q' = levels q \<and>
        prepared q' = prepared q \<and> content q' = (content q)(i := ts)"
    and better_none: "invar q \<Longrightarrow> prepared q b \<Longrightarrow> (\<And>p. p < b \<Longrightarrow> content q p = []) \<Longrightarrow>
      pop_first_better b q = Some (None, q)"
    and better_some: "invar q \<Longrightarrow> prepared q b \<Longrightarrow> i < b \<Longrightarrow>
      (\<And>p. p < i \<Longrightarrow> content q p = []) \<Longrightarrow> content q i = t # ts \<Longrightarrow>
      \<exists>q'. pop_first_better b q = Some (Some t, q') \<and> invar q' \<and> levels q' = levels q \<and>
        prepared q' = prepared q \<and> content q' = (content q)(i := ts)"
begin

text \<open>The best non-empty level below a bound, or none.\<close>

lemma best_level:
  obtains (none) "\<And>p. p < b \<Longrightarrow> content q p = []"
  | (some) i t ts where "i < b" and "\<And>p. p < i \<Longrightarrow> content q p = []" and "content q i = t # ts"
proof (cases "\<exists>p < b. content q p \<noteq> []")
  case True
  define i where "i = (LEAST p. p < b \<and> content q p \<noteq> [])"
  have i: "i < b \<and> content q i \<noteq> []"
    using True unfolding i_def by (rule LeastI_ex)
  have below: "content q p = []" if "p < i" for p
  proof (rule ccontr)
    assume "content q p \<noteq> []"
    with that i have "i \<le> p"
      unfolding i_def by (intro Least_le) auto
    with that show False by simp
  qed
  from i obtain t ts where "content q i = t # ts"
    by (cases "content q i") auto
  with i below show thesis by (intro some) auto
qed (auto intro: none)

text \<open>A pop of a well-formed queue always returns, and returns a thread of the best level.\<close>

lemma pop_first_cases:
  assumes "invar q"
  obtains (empty) "pop_first q = Some (None, q)" and "\<And>p. content q p = []"
  | (thread) i t ts q' where "pop_first q = Some (Some t, q')" and "invar q'"
      and "levels q' = levels q" and "prepared q' = prepared q"
      and "\<And>p. p < i \<Longrightarrow> content q p = []" and "content q i = t # ts"
      and "content q' = (content q)(i := ts)"
proof (cases rule: best_level [of "levels q" q])
  case none
  then have all: "content q p = []" for p
    by (cases "p < levels q") (auto simp: content_levels)
  then show thesis
    using pop_first_none [OF assms] by (intro empty) auto
next
  case (some i t ts)
  from pop_first_some [OF assms some(2,3)] show thesis
    using some by (blast intro: thread)
qed

lemma pop_first_better_cases:
  assumes "invar q" and "prepared q b"
  obtains (empty) "pop_first_better b q = Some (None, q)" and "\<And>p. p < b \<Longrightarrow> content q p = []"
  | (thread) i t ts q' where "pop_first_better b q = Some (Some t, q')" and "i < b"
      and "invar q'" and "levels q' = levels q" and "prepared q' = prepared q"
      and "\<And>p. p < i \<Longrightarrow> content q p = []" and "content q i = t # ts"
      and "content q' = (content q)(i := ts)"
proof (cases rule: best_level [of b q])
  case none
  then show thesis
    using better_none [OF assms] by (intro empty) auto
next
  case (some i t ts)
  from better_some [OF assms some] show thesis
    using some by (blast intro: thread)
qed

text \<open>Moving a thread between levels: \<open>remove\<close>, \<open>prepare\<close>, \<open>push_back\<close>.\<close>

lemma move_spec:
  assumes "invar q" and "old < levels q" and "new < levels q"
    and q': "q' = push_back new t (prepare new (remove old t q))"
  shows "invar q' \<and> levels q' = levels q \<and> prepared q' = (prepared q)(new := True) \<and>
    content q' = ((content q)(old := removeAll t (content q old)))
      (new := ((content q)(old := removeAll t (content q old))) new @ [t])"
proof -
  from remove [OF assms(1,2), of t] assms(3)
  have r: "invar (remove old t q)" "new < levels (remove old t q)" by simp_all
  from prepare [OF r] push_back [of "prepare new (remove old t q)" new t]
    remove [OF assms(1,2), of t]
  show ?thesis by (simp add: q')
qed

text \<open>A thread is in the queue exactly as often as some level holds it.\<close>

lemma member_push_back:
  assumes "invar q" and "prepared q p"
  shows "(\<exists>i. s \<in> set (content (push_back p t q) i)) \<longleftrightarrow> s = t \<or> (\<exists>i. s \<in> set (content q i))"
  using push_back [OF assms, of t] by (simp add: fun_upd_def) (metis Un_iff insert_iff)

end

section \<open>Handles, as the kernel's services use them\<close>

text \<open>
  A table is a partial map from handles to objects; \<open>norm\<close> sends a handle to the one the table
  issued for the same entry (the table need not look at every bit of a handle).
\<close>

locale handle_space =
  fixes invar :: "'t \<Rightarrow> bool"
    and full :: "'t \<Rightarrow> bool"
    and norm :: "'h \<Rightarrow> 'h"
    and lookup :: "'t \<Rightarrow> 'h \<Rightarrow> 'o option"
    and create :: "'t \<Rightarrow> 'o \<Rightarrow> 'e + ('h \<times> 't)"
    and close :: "'t \<Rightarrow> 'h \<Rightarrow> 'e + 't"
    and e_full :: 'e
    and e_invalid :: 'e
  assumes norm_norm: "norm (norm h) = norm h"
    and lookup_norm: "lookup t (norm h) = lookup t h"
    and create_full: "invar t \<Longrightarrow> full t \<Longrightarrow> create t x = Inl e_full"
    and create_ok: "invar t \<Longrightarrow> \<not> full t \<Longrightarrow>
      \<exists>h t'. create t x = Inr (h, t') \<and> invar t' \<and> norm h = h \<and> lookup t h = None \<and>
        lookup t' = (\<lambda>k. if norm k = h then Some x else lookup t k)"
    and close_invalid: "lookup t h = None \<Longrightarrow> close t h = Inl e_invalid"
    and close_ok: "invar t \<Longrightarrow> lookup t h = Some x \<Longrightarrow>
      \<exists>t'. close t h = Inr t' \<and> invar t' \<and> \<not> full t' \<and>
        lookup t' = (\<lambda>k. if norm k = norm h then None else lookup t k)"
begin

lemma create_cases:
  assumes "invar t"
  obtains (full) "full t" and "create t x = Inl e_full"
  | (ok) h t' where "\<not> full t" and "create t x = Inr (h, t')" and "invar t'" and "norm h = h"
      and "lookup t h = None" and "lookup t' h = Some x"
      and "lookup t' = (\<lambda>k. if norm k = h then Some x else lookup t k)"
proof (cases "full t")
  case True
  with create_full [OF assms] show thesis by (blast intro: full)
next
  case False
  from create_ok [OF assms this, of x] False show thesis
    by (fastforce intro: ok)
qed

text \<open>No operation loses an entry other than the one it closes.\<close>

lemma create_keeps:
  assumes "invar t" and "create t x = Inr (h, t')" and "lookup t k = Some y"
  shows "lookup t' k = Some y"
  using assms(1)
proof (cases rule: create_cases [where x = x])
  case (ok h1 t1)
  have "norm k \<noteq> h1"
    using ok(5) assms(3) lookup_norm [of t k] by auto
  with ok(2,7) assms(2,3) show ?thesis by simp
qed (use assms(2) in simp)

text \<open>
  Moving an object between the tables of two processes: the source handle is dead afterwards,
  and the destination has the object whenever it was not full.
\<close>

lemma move_between:
  assumes "invar src" and "invar dst" and "lookup src h = Some x" and "\<not> full dst"
  shows "\<exists>src' h' dst'. close src h = Inr src' \<and> create dst x = Inr (h', dst') \<and>
    invar src' \<and> invar dst' \<and> lookup src' h = None \<and> lookup dst' h' = Some x"
  using close_ok [OF assms(1,3)] create_ok [OF assms(2,4), of x] by fastforce

text \<open>Closing makes room, so a handle can always be replaced in its own table.\<close>

lemma replace_in_place:
  assumes "invar t" and "lookup t h = Some x"
  shows "\<exists>t1 h' t2. close t h = Inr t1 \<and> create t1 y = Inr (h', t2) \<and> invar t2 \<and>
    lookup t2 h' = Some y \<and> (\<forall>k. norm k \<noteq> h' \<longrightarrow> norm k \<noteq> norm h \<longrightarrow> lookup t2 k = lookup t k)"
proof -
  obtain t1 where t1: "close t h = Inr t1" "invar t1" "\<not> full t1"
      "lookup t1 = (\<lambda>k. if norm k = norm h then None else lookup t k)"
    using close_ok [OF assms] by blast
  obtain h' t2 where t2: "create t1 y = Inr (h', t2)" "invar t2" "norm h' = h'"
      "lookup t2 = (\<lambda>k. if norm k = h' then Some y else lookup t1 k)"
    using create_ok [OF t1(2,3), of y] by blast
  from t1 t2 show ?thesis by auto
qed

end

end
