(* ===== verification/ThreadQueueList.thy ===== *)
theory ThreadQueueList
  imports KernelInterfaces
begin

text \<open>
  \<open>Common::ThreadQueueList\<close> (\<open>common/thread_queue_list.h\<close>), the ready queue of a core: an
  array of deques, one for each priority, threaded by \<open>next_nonempty\<close> pointers through the
  levels that were ever prepared. Priorities are natural numbers; indexing beyond the array is
  undefined in C++ and unspecified here. The pointers are kept as the code has them, so that
  the traversals can dereference null: those loops return \<open>None\<close>.
\<close>

section \<open>Data\<close>

text \<open>A \<open>Queue*\<close>: the tag \<open>UnlinkedTag()\<close>, \<open>nullptr\<close>, or the address of a level.\<close>

datatype qptr = Unlinked | Null | To nat

record 'a queue =
  next_nonempty :: qptr
  data :: "'a list"

record 'a tql =
  first :: qptr
  queues :: "'a queue list"

definition empty_queue :: "'a queue" where
  "empty_queue = \<lparr>next_nonempty = Unlinked, data = []\<rparr>"

definition tql_new :: "nat \<Rightarrow> 'a tql" where
  "tql_new n = \<lparr>first = Null, queues = replicate n empty_queue\<rparr>"

section \<open>Operations\<close>

text \<open>\<open>contains\<close>: the first level that holds \<open>uid\<close>, or \<open>-1\<close> as an unsigned value.\<close>

definition tql_contains :: "'a \<Rightarrow> 'a tql \<Rightarrow> u32" where
  "tql_contains uid q =
     (case find (\<lambda>i. uid \<in> set (data (queues q ! i))) [0..<length (queues q)] of
        Some i \<Rightarrow> of_nat i
      | None \<Rightarrow> - 1)"

text \<open>The \<open>while (cur != nullptr)\<close> scan of \<open>get_first\<close> and \<open>pop_first\<close>.\<close>

partial_function (option) scan_nonempty :: "'a queue list \<Rightarrow> qptr \<Rightarrow> nat option run" where
  "scan_nonempty qs cur =
     (case cur of
        Null \<Rightarrow> Some None
      | Unlinked \<Rightarrow> None
      | To i \<Rightarrow> if data (qs ! i) \<noteq> [] then Some (Some i)
                else scan_nonempty qs (next_nonempty (qs ! i)))"

text \<open>
  The \<open>while (cur < stop)\<close> scan of \<open>pop_first_better\<close>: both the null pointer and the tag
  compare below the address of a level, so the loop enters its body and dereferences them.
\<close>

partial_function (option) scan_better :: "'a queue list \<Rightarrow> nat \<Rightarrow> qptr \<Rightarrow> nat option run" where
  "scan_better qs p cur =
     (case cur of
        Null \<Rightarrow> None
      | Unlinked \<Rightarrow> None
      | To i \<Rightarrow> if \<not> i < p then Some None
                else if data (qs ! i) \<noteq> [] then Some (Some i)
                else scan_better qs p (next_nonempty (qs ! i)))"

definition tql_set_data :: "nat \<Rightarrow> 'a list \<Rightarrow> 'a tql \<Rightarrow> 'a tql" where
  "tql_set_data p xs q = q\<lparr>queues := (queues q)[p := (queues q ! p)\<lparr>data := xs\<rparr>]\<rparr>"

text \<open>\<open>None\<close> as the popped element is the default value \<open>T()\<close>, a null thread pointer.\<close>

definition tql_take :: "nat option \<Rightarrow> 'a tql \<Rightarrow> 'a option \<times> 'a tql" where
  "tql_take found q =
     (case found of
        None \<Rightarrow> (None, q)
      | Some i \<Rightarrow> (Some (hd (data (queues q ! i))), tql_set_data i (tl (data (queues q ! i))) q))"

definition tql_get_first :: "'a tql \<Rightarrow> 'a option run" where
  "tql_get_first q =
     map_option (map_option (\<lambda>i. hd (data (queues q ! i)))) (scan_nonempty (queues q) (first q))"

definition tql_pop_first :: "'a tql \<Rightarrow> ('a option \<times> 'a tql) run" where
  "tql_pop_first q = map_option (\<lambda>found. tql_take found q) (scan_nonempty (queues q) (first q))"

definition tql_pop_first_better :: "nat \<Rightarrow> 'a tql \<Rightarrow> ('a option \<times> 'a tql) run" where
  "tql_pop_first_better p q =
     map_option (\<lambda>found. tql_take found q) (scan_better (queues q) p (first q))"

definition tql_push_front :: "nat \<Rightarrow> 'a \<Rightarrow> 'a tql \<Rightarrow> 'a tql" where
  "tql_push_front p t q = tql_set_data p (t # data (queues q ! p)) q"

definition tql_push_back :: "nat \<Rightarrow> 'a \<Rightarrow> 'a tql \<Rightarrow> 'a tql" where
  "tql_push_back p t q = tql_set_data p (data (queues q ! p) @ [t]) q"

definition tql_remove :: "nat \<Rightarrow> 'a \<Rightarrow> 'a tql \<Rightarrow> 'a tql" where
  "tql_remove p t q = tql_set_data p (removeAll t (data (queues q ! p))) q"

definition tql_rotate :: "nat \<Rightarrow> 'a tql \<Rightarrow> 'a tql" where
  "tql_rotate p q =
     (let d = data (queues q ! p)
      in if length d > 1 then tql_set_data p (tl d @ [hd d]) q else q)"

definition tql_clear :: "'a tql \<Rightarrow> 'a tql" where
  "tql_clear q = q\<lparr>queues := replicate (length (queues q)) empty_queue, first := Null\<rparr>"

definition tql_empty :: "nat \<Rightarrow> 'a tql \<Rightarrow> bool" where
  "tql_empty p q = (data (queues q ! p) = [])"

text \<open>The loop of \<open>link\<close>, from \<open>priority - 1\<close> down to 0.\<close>

fun link_scan :: "'a queue list \<Rightarrow> nat \<Rightarrow> nat option" where
  "link_scan qs 0 = None"
| "link_scan qs (Suc i) =
     (if next_nonempty (qs ! i) \<noteq> Unlinked then Some i else link_scan qs i)"

definition tql_link :: "nat \<Rightarrow> 'a tql \<Rightarrow> 'a tql" where
  "tql_link p q =
     (let qs = queues q
      in case link_scan qs p of
           Some i \<Rightarrow>
             (let qs1 = qs[p := (qs ! p)\<lparr>next_nonempty := next_nonempty (qs ! i)\<rparr>]
              in q\<lparr>queues := qs1[i := (qs1 ! i)\<lparr>next_nonempty := To p\<rparr>]\<rparr>)
         | None \<Rightarrow>
             q\<lparr>queues := qs[p := (qs ! p)\<lparr>next_nonempty := first q\<rparr>], first := To p\<rparr>)"

definition tql_prepare :: "nat \<Rightarrow> 'a tql \<Rightarrow> 'a tql" where
  "tql_prepare p q = (if next_nonempty (queues q ! p) = Unlinked then tql_link p q else q)"

definition tql_move :: "'a \<Rightarrow> nat \<Rightarrow> nat \<Rightarrow> 'a tql \<Rightarrow> 'a tql" where
  "tql_move t old_p new_p q = tql_push_back new_p t (tql_prepare new_p (tql_remove old_p t q))"

text \<open>Serialization: pointers become indices, \<open>-2\<close> for null and \<open>-1\<close> for the tag.\<close>

fun ToIndex :: "qptr \<Rightarrow> int" where
  "ToIndex Null = -2"
| "ToIndex Unlinked = -1"
| "ToIndex (To i) = int i"

definition ToPointer :: "int \<Rightarrow> qptr" where
  "ToPointer idx = (if idx = -1 then Unlinked else if idx < 0 then Null else To (nat idx))"

definition tql_save :: "'a tql \<Rightarrow> int \<times> (int \<times> 'a list) list" where
  "tql_save q = (ToIndex (first q), map (\<lambda>x. (ToIndex (next_nonempty x), data x)) (queues q))"

definition tql_load :: "int \<times> (int \<times> 'a list) list \<Rightarrow> 'a tql" where
  "tql_load ar =
     \<lparr>first = ToPointer (fst ar),
      queues = map (\<lambda>(idx, d). \<lparr>next_nonempty = ToPointer idx, data = d\<rparr>) (snd ar)\<rparr>"

section \<open>Well-formed chains\<close>

definition linked :: "'a queue list \<Rightarrow> nat \<Rightarrow> bool" where
  "linked qs i \<longleftrightarrow> i < length qs \<and> next_nonempty (qs ! i) \<noteq> Unlinked"

definition linked_levels :: "'a queue list \<Rightarrow> nat list" where
  "linked_levels qs = filter (linked qs) [0..<length qs]"

text \<open>\<open>seg qs cur is e\<close>: following the pointers from \<open>cur\<close> visits \<open>is\<close> and ends at \<open>e\<close>.\<close>

fun seg :: "'a queue list \<Rightarrow> qptr \<Rightarrow> nat list \<Rightarrow> qptr \<Rightarrow> bool" where
  "seg qs cur [] e \<longleftrightarrow> cur = e"
| "seg qs cur (i # is) e \<longleftrightarrow>
     cur = To i \<and> i < length qs \<and> seg qs (next_nonempty (qs ! i)) is e"

text \<open>The pointers visit the linked levels in increasing order, and only those hold threads.\<close>

definition tql_wf :: "'a tql \<Rightarrow> bool" where
  "tql_wf q \<longleftrightarrow>
     seg (queues q) (first q) (linked_levels (queues q)) Null \<and>
     (\<forall>i < length (queues q). \<not> linked (queues q) i \<longrightarrow> data (queues q ! i) = [])"

definition tql_content :: "'a tql \<Rightarrow> nat \<Rightarrow> 'a list" where
  "tql_content q p = (if p < length (queues q) then data (queues q ! p) else [])"

definition tql_levels :: "'a tql \<Rightarrow> nat" where
  "tql_levels q = length (queues q)"

definition tql_prepared :: "'a tql \<Rightarrow> nat \<Rightarrow> bool" where
  "tql_prepared q p = linked (queues q) p"


section \<open>Chains under the operations\<close>

lemma seg_append:
  "seg qs cur (xs @ ys) e \<longleftrightarrow> (\<exists>m. seg qs cur xs m \<and> seg qs m ys e)"
  by (induction xs arbitrary: cur) auto

lemma seg_fresh:
  "i \<notin> set is \<Longrightarrow> seg (qs[i := x]) cur is e = seg qs cur is e"
  by (induction "is" arbitrary: cur) auto

lemma seg_same_next:
  assumes "i < length qs" and "next_nonempty x = next_nonempty (qs ! i)"
  shows "seg (qs[i := x]) cur is e = seg qs cur is e"
proof (induction "is" arbitrary: cur)
  case Nil
  show ?case by simp
next
  case (Cons j js)
  have "next_nonempty (qs[i := x] ! j) = next_nonempty (qs ! j)"
    using assms by (cases "i = j") simp_all
  with Cons.IH show ?case by simp
qed

lemma linked_set_data [tql_simps]:
  "linked (queues (tql_set_data p xs q)) = linked (queues q)"
proof
  fix i
  show "linked (queues (tql_set_data p xs q)) i = linked (queues q) i"
    by (auto simp: linked_def tql_set_data_def nth_upd)
qed

lemma first_set_data [tql_simps]: "first (tql_set_data p xs q) = first q"
  by (simp add: tql_set_data_def)

lemma length_set_data [tql_simps]:
  "length (queues (tql_set_data p xs q)) = length (queues q)"
  by (simp add: tql_set_data_def)

lemma data_set_data [tql_simps]:
  "i < length (queues q) \<Longrightarrow>
     data (queues (tql_set_data p xs q) ! i) = (if i = p then xs else data (queues q ! i))"
  by (auto simp: tql_set_data_def nth_list_update)

lemma wf_set_data:
  assumes "tql_wf q" and "linked (queues q) p \<or> xs = []"
  shows "tql_wf (tql_set_data p xs q)"
proof -
  have seg: "seg (queues (tql_set_data p xs q)) c is e = seg (queues q) c is e" for c "is" e
  proof (cases "p < length (queues q)")
    case True
    then show ?thesis
      by (simp add: tql_set_data_def seg_same_next)
  qed (simp add: tql_set_data_def list_update_beyond)
  have levels: "linked_levels (queues (tql_set_data p xs q)) = linked_levels (queues q)"
    unfolding linked_levels_def by (simp add: tql_simps)
  show ?thesis
    using assms by (auto simp: tql_wf_def seg levels tql_simps)
qed

lemma linked_levels_split:
  assumes "p \<le> length qs"
  shows "linked_levels qs = filter (linked qs) [0..<p] @ filter (linked qs) [p..<length qs]"
proof -
  have "[0..<length qs] = [0..<p] @ [p..<length qs]"
    using assms by (metis le0 le_Suc_ex upt_add_eq_append)
  then show ?thesis
    by (simp add: linked_levels_def)
qed

lemma link_scan_last:
  "p \<le> length qs \<Longrightarrow>
     link_scan qs p =
       (if filter (linked qs) [0..<p] = [] then None
        else Some (last (filter (linked qs) [0..<p])))"
proof (induction p)
  case (Suc p)
  then have "linked qs p \<longleftrightarrow> next_nonempty (qs ! p) \<noteq> Unlinked"
    by (simp add: linked_def)
  with Suc show ?case by simp
qed simp

lemma link_scan_None:
  "link_scan qs p = None \<Longrightarrow> p \<le> length qs \<Longrightarrow> filter (linked qs) [0..<p] = []"
  by (simp add: link_scan_last split: if_splits)

lemma link_scan_Some:
  assumes "link_scan qs p = Some i" and "p \<le> length qs"
  obtains xs where "filter (linked qs) [0..<p] = xs @ [i]" and "i < p" and "linked qs i"
proof -
  from assms have ne: "filter (linked qs) [0..<p] \<noteq> []"
    and l: "last (filter (linked qs) [0..<p]) = i"
    by (simp_all add: link_scan_last split: if_splits)
  have eq: "filter (linked qs) [0..<p] = butlast (filter (linked qs) [0..<p]) @ [i]"
    using ne l by (metis append_butlast_last_id)
  then have "i \<in> set (filter (linked qs) [0..<p])"
    by (metis in_set_conv_decomp)
  with eq show thesis
    by (intro that) auto
qed

lemma filter_upt_linked_insert:
  assumes "p < length qs" and "\<And>i. linked qs' i \<longleftrightarrow> linked qs i \<or> i = p"
    and "\<not> linked qs p" and "length qs' = length qs"
  shows "linked_levels qs' =
    filter (linked qs) [0..<p] @ p # filter (linked qs) [p..<length qs]"
proof -
  have low: "filter (linked qs') [0..<p] = filter (linked qs) [0..<p]"
    by (rule filter_cong) (auto simp: assms(2))
  have high: "filter (linked qs') [Suc p..<length qs] = filter (linked qs) [Suc p..<length qs]"
    by (rule filter_cong) (auto simp: assms(2))
  have up: "[p..<length qs] = p # [Suc p..<length qs]"
    using assms(1) by (simp add: upt_conv_Cons)
  have "linked qs' p" using assms(2) by simp
  then have "filter (linked qs') [p..<length qs] = p # filter (linked qs) [p..<length qs]"
    using assms(3) by (simp add: up high)
  then show ?thesis
    using linked_levels_split [of p qs'] assms(1,4) low by simp
qed

lemma wf_link:
  assumes wf: "tql_wf q" and p: "p < length (queues q)" and un: "\<not> linked (queues q) p"
  shows "tql_wf (tql_link p q) \<and> length (queues (tql_link p q)) = length (queues q) \<and>
    (\<forall>i. linked (queues (tql_link p q)) i \<longleftrightarrow> linked (queues q) i \<or> i = p) \<and>
    (\<forall>i < length (queues q). data (queues (tql_link p q) ! i) = data (queues q ! i))"
proof -
  let ?qs = "queues q"
  let ?qs' = "queues (tql_link p q)"
  let ?A = "filter (linked ?qs) [0..<p]"
  let ?B = "filter (linked ?qs) [p..<length ?qs]"
  have pB: "p \<notin> set ?B" and pA: "p \<notin> set ?A" using un by auto
  have seg0: "seg ?qs (first q) (?A @ ?B) Null"
    using wf p by (simp add: tql_wf_def linked_levels_split [of p])
  have len: "length ?qs' = length ?qs"
    by (simp add: tql_link_def Let_def split: option.splits)
  have nonnull: "first q \<noteq> Unlinked"
    using seg0 by (cases "?A @ ?B") auto
  have lk: "linked ?qs' i \<longleftrightarrow> linked ?qs i \<or> i = p" for i
  proof (cases "link_scan ?qs p")
    case None
    then show ?thesis
      using p nonnull by (auto simp: tql_link_def Let_def linked_def nth_list_update)
  next
    case (Some j)
    then obtain xs where "j < p" and "linked ?qs j"
      using p by (auto elim: link_scan_Some)
    with Some p show ?thesis
      by (auto simp: tql_link_def Let_def linked_def nth_list_update)
  qed
  have dt: "data (?qs' ! i) = data (?qs ! i)" if "i < length ?qs" for i
    using that p by (auto simp: tql_link_def Let_def nth_upd split: option.splits)
  have ll: "linked_levels ?qs' = ?A @ p # ?B"
    using filter_upt_linked_insert [OF p lk un len] .
  have "seg ?qs' (first (tql_link p q)) (?A @ p # ?B) Null"
  proof (cases "link_scan ?qs p")
    case None
    then have A: "?A = []" using p by (intro link_scan_None) auto
    have "first (tql_link p q) = To p" and
      qs': "?qs' = ?qs[p := (?qs ! p)\<lparr>next_nonempty := first q\<rparr>]"
      using None by (simp_all add: tql_link_def Let_def)
    then show ?thesis
      using seg0 A p pB by (simp add: seg_fresh)
  next
    case (Some i)
    then obtain xs where A: "?A = xs @ [i]" and i: "i < p" and li: "linked ?qs i"
      using p by (auto elim: link_scan_Some)
    have ix: "i \<notin> set xs" and iB: "i \<notin> set ?B"
      using A i by (auto dest: arg_cong [where f = distinct])
    from seg0 A have s1: "seg ?qs (first q) xs (To i)" and
      s2: "seg ?qs (next_nonempty (?qs ! i)) ?B Null"
      by (auto simp: seg_append)
    have px: "p \<notin> set xs" using A pA by auto
    have f: "first (tql_link p q) = first q" and
      qs': "?qs' = ?qs[p := (?qs ! p)\<lparr>next_nonempty := next_nonempty (?qs ! i)\<rparr>,
              i := (?qs ! i)\<lparr>next_nonempty := To p\<rparr>]"
      using Some i by (simp_all add: tql_link_def Let_def)
    have "seg ?qs' (first q) xs (To i)"
      using s1 px ix by (simp add: qs' seg_fresh)
    moreover have "seg ?qs' (next_nonempty (?qs ! i)) ?B Null"
      using s2 pB iB by (simp add: qs' seg_fresh)
    ultimately show ?thesis
      using i p f by (auto simp: A seg_append qs')
  qed
  moreover have "\<forall>i < length ?qs'. \<not> linked ?qs' i \<longrightarrow> data (?qs' ! i) = []"
    using wf len lk dt by (auto simp: tql_wf_def)
  ultimately show ?thesis
    using len lk dt by (simp add: tql_wf_def ll)
qed


section \<open>Traversals of a well-formed queue\<close>

lemma scan_nonempty_seg:
  "seg qs cur is Null \<Longrightarrow> scan_nonempty qs cur = Some (find (\<lambda>i. data (qs ! i) \<noteq> []) is)"
  by (induction "is" arbitrary: cur) (auto simp: scan_nonempty.simps)

lemma scan_better_seg:
  "seg qs cur is Null \<Longrightarrow> p \<in> set is \<Longrightarrow>
     scan_better qs p cur = Some (find (\<lambda>i. data (qs ! i) \<noteq> []) (takeWhile (\<lambda>i. i < p) is))"
proof (induction "is" arbitrary: cur)
  case (Cons i js)
  then show ?case
    by (cases "i < p") (auto simp: scan_better.simps [of qs p "To i"])
qed simp

lemma find_filter_irrelevant:
  "(\<And>x. x \<in> set xs \<Longrightarrow> P x \<Longrightarrow> Q x) \<Longrightarrow> find P (filter Q xs) = find P xs"
  by (induction xs) auto

lemma takeWhile_filter_upt:
  assumes "p < n" and "Q p"
  shows "takeWhile (\<lambda>i. i < p) (filter Q [0..<n]) = filter Q [0..<p]"
proof -
  have "[0..<n] = [0..<p] @ p # [Suc p..<n]"
    using assms(1) by (metis le0 less_imp_le_nat upt_add_eq_append upt_conv_Cons le_add_diff_inverse)
  then show ?thesis
    using assms(2) by (auto simp: takeWhile_append)
qed

lemma find_upt_iff:
  "find P [0..<n] = Some i \<longleftrightarrow> i < n \<and> P i \<and> (\<forall>j < i. \<not> P j)"
  by (auto simp: find_Some_iff)

lemma wf_unlinked_empty:
  "tql_wf q \<Longrightarrow> i < length (queues q) \<Longrightarrow> data (queues q ! i) \<noteq> [] \<Longrightarrow> linked (queues q) i"
  by (auto simp: tql_wf_def)

lemma scan_nonempty_wf:
  assumes "tql_wf q"
  shows "scan_nonempty (queues q) (first q) =
    Some (find (\<lambda>i. data (queues q ! i) \<noteq> []) [0..<length (queues q)])"
proof -
  have "scan_nonempty (queues q) (first q) =
    Some (find (\<lambda>i. data (queues q ! i) \<noteq> []) (linked_levels (queues q)))"
    using assms by (intro scan_nonempty_seg) (simp add: tql_wf_def)
  then show ?thesis
    unfolding linked_levels_def
    by (subst (asm) find_filter_irrelevant) (auto intro: wf_unlinked_empty [OF assms])
qed

lemma scan_better_wf:
  assumes "tql_wf q" and p: "linked (queues q) p"
  shows "scan_better (queues q) p (first q) =
    Some (find (\<lambda>i. data (queues q ! i) \<noteq> []) [0..<p])"
proof -
  have "p < length (queues q)" using p by (simp add: linked_def)
  then have tw: "takeWhile (\<lambda>i. i < p) (linked_levels (queues q)) =
      filter (linked (queues q)) [0..<p]"
    unfolding linked_levels_def using p by (intro takeWhile_filter_upt)
  have "p \<in> set (linked_levels (queues q))"
    using p by (auto simp: linked_levels_def linked_def)
  with assms(1) have "scan_better (queues q) p (first q) =
      Some (find (\<lambda>i. data (queues q ! i) \<noteq> []) (filter (linked (queues q)) [0..<p]))"
    using scan_better_seg [of "queues q" "first q" "linked_levels (queues q)" p]
    by (simp add: tql_wf_def tw)
  then show ?thesis
    by (subst (asm) find_filter_irrelevant)
      (auto intro!: wf_unlinked_empty [OF assms(1)] simp: \<open>p < length (queues q)\<close> less_trans)
qed

section \<open>The ready queue contract\<close>

lemma content_set_data:
  "tql_content (tql_set_data p xs q) =
     (if p < length (queues q) then (tql_content q)(p := xs) else tql_content q)"
  by (rule ext) (auto simp: tql_content_def tql_simps)

lemma prepared_set_data [tql_simps]:
  "tql_prepared (tql_set_data p xs q) = tql_prepared q"
  by (rule ext) (simp add: tql_prepared_def tql_simps)

lemma levels_set_data [tql_simps]: "tql_levels (tql_set_data p xs q) = tql_levels q"
  by (simp add: tql_levels_def tql_simps)

lemmas tql_abs_defs = tql_content_def tql_levels_def tql_prepared_def linked_def

lemma take_spec:
  assumes "tql_wf q" and "tql_content q i = t # ts"
  shows "\<exists>q'. tql_take (Some i) q = (Some t, q') \<and> tql_wf q' \<and> tql_levels q' = tql_levels q \<and>
    tql_prepared q' = tql_prepared q \<and> tql_content q' = (tql_content q)(i := ts)"
proof -
  from assms(2) have i: "i < length (queues q)" and d: "data (queues q ! i) = t # ts"
    by (auto simp: tql_content_def split: if_splits)
  then have "linked (queues q) i"
    using assms(1) by (auto intro: wf_unlinked_empty)
  with assms(1) i d show ?thesis
    by (simp add: tql_take_def tql_simps wf_set_data content_set_data)
qed

lemma prepare_spec:
  assumes "tql_wf q" and "p < tql_levels q"
  shows "tql_wf (tql_prepare p q) \<and> tql_levels (tql_prepare p q) = tql_levels q \<and>
    tql_prepared (tql_prepare p q) = (tql_prepared q)(p := True) \<and>
    tql_content (tql_prepare p q) = tql_content q"
proof (cases "linked (queues q) p")
  case True
  then show ?thesis
    using assms by (auto simp: tql_prepare_def tql_prepared_def linked_def fun_eq_iff)
next
  case False
  with assms have p: "p < length (queues q)" and link: "tql_prepare p q = tql_link p q"
    by (auto simp: tql_prepare_def tql_levels_def linked_def)
  from wf_link [OF assms(1) p False] show ?thesis
    by (auto simp: link tql_levels_def tql_prepared_def tql_content_def fun_eq_iff)
qed

interpretation rq: ready_queue tql_wf tql_levels tql_prepared tql_content tql_prepare
  tql_push_back tql_push_front tql_remove tql_pop_first tql_pop_first_better
proof (unfold_locales, goal_cases)
  case (2 q p)
  then show ?case by (auto simp: tql_wf_def tql_prepared_def tql_content_def)
next
  case (4 q p)
  then show ?case by (rule prepare_spec)
next
  case (5 q p t)
  then show ?case
    by (auto simp: tql_push_back_def tql_simps wf_set_data content_set_data tql_prepared_def
        tql_content_def linked_def fun_eq_iff)
next
  case (6 q p t)
  then show ?case
    by (auto simp: tql_push_front_def tql_simps wf_set_data content_set_data tql_prepared_def
        tql_content_def linked_def fun_eq_iff)
next
  case (7 q p t)
  then have "linked (queues q) p \<or> removeAll t (data (queues q ! p)) = []"
    by (auto simp: tql_wf_def tql_levels_def)
  with 7 show ?case
    by (auto simp: tql_remove_def tql_simps wf_set_data content_set_data tql_levels_def
        tql_content_def fun_eq_iff)
next
  case (8 q)
  have "find (\<lambda>i. data (queues q ! i) \<noteq> []) [0..<length (queues q)] = None"
    unfolding find_None_iff using 8(2) by (metis (full_types) atLeastLessThan_iff set_upt tql_content_def)
  with 8 show ?case
    by (simp add: tql_pop_first_def scan_nonempty_wf tql_take_def)
next
  case (9 q i t ts)
  then have "find (\<lambda>i. data (queues q ! i) \<noteq> []) [0..<length (queues q)] = Some i"
    by (auto simp: find_upt_iff tql_content_def split: if_splits)
  with 9 take_spec show ?case
    by (simp add: tql_pop_first_def scan_nonempty_wf)
next
  case (10 q b)
  have "find (\<lambda>i. data (queues q ! i) \<noteq> []) [0..<b] = None"
    using 10(2,3) by (auto simp: find_None_iff tql_abs_defs)
  with 10 show ?case
    by (simp add: tql_pop_first_better_def scan_better_wf tql_prepared_def tql_take_def)
next
  case (11 q b i t ts)
  then have "find (\<lambda>i. data (queues q ! i) \<noteq> []) [0..<b] = Some i"
    by (auto simp: find_upt_iff tql_content_def split: if_splits)
  with 11 take_spec show ?case
    by (simp add: tql_pop_first_better_def scan_better_wf tql_prepared_def)
qed (auto simp: tql_abs_defs)

section \<open>Sequences of queue operations\<close>

text \<open>
  What the scheduler does with the queue: a level is prepared before a thread is pushed onto it
  or before it bounds a pop.
\<close>

datatype 'a queue_op =
  QPushBack nat 'a | QPushFront nat 'a | QRemove nat 'a | QMove 'a nat nat | QPop | QPopBetter nat

fun run_queue_op :: "'a queue_op \<Rightarrow> 'a tql \<Rightarrow> ('a option \<times> 'a tql) run" where
  "run_queue_op (QPushBack p t) q = Some (None, tql_push_back p t (tql_prepare p q))"
| "run_queue_op (QPushFront p t) q = Some (None, tql_push_front p t (tql_prepare p q))"
| "run_queue_op (QRemove p t) q = Some (None, tql_remove p t q)"
| "run_queue_op (QMove t old new) q = Some (None, tql_move t old new q)"
| "run_queue_op QPop q = tql_pop_first q"
| "run_queue_op (QPopBetter p) q = tql_pop_first_better p (tql_prepare p q)"

fun run_queue_ops :: "'a queue_op list \<Rightarrow> 'a tql \<Rightarrow> ('a option list \<times> 'a tql) run" where
  "run_queue_ops [] q = Some ([], q)"
| "run_queue_ops (op # ops) q = do {
     (out, q1) \<leftarrow> run_queue_op op q;
     (outs, q2) \<leftarrow> run_queue_ops ops q1;
     Some (out # outs, q2)}"

text \<open>The same on a plain family of lists, where a pop looks for the first non-empty one.\<close>

definition take_best :: "nat \<Rightarrow> (nat \<Rightarrow> 'a list) \<Rightarrow> 'a option \<times> (nat \<Rightarrow> 'a list)" where
  "take_best n c = (case find (\<lambda>i. c i \<noteq> []) [0..<n] of
     None \<Rightarrow> (None, c)
   | Some i \<Rightarrow> (Some (hd (c i)), c(i := tl (c i))))"

fun spec_queue_op :: "nat \<Rightarrow> 'a queue_op \<Rightarrow> (nat \<Rightarrow> 'a list) \<Rightarrow> 'a option \<times> (nat \<Rightarrow> 'a list)" where
  "spec_queue_op n (QPushBack p t) c = (None, c(p := c p @ [t]))"
| "spec_queue_op n (QPushFront p t) c = (None, c(p := t # c p))"
| "spec_queue_op n (QRemove p t) c = (None, c(p := removeAll t (c p)))"
| "spec_queue_op n (QMove t old new) c =
     (let c1 = c(old := removeAll t (c old)) in (None, c1(new := c1 new @ [t])))"
| "spec_queue_op n QPop c = take_best n c"
| "spec_queue_op n (QPopBetter p) c = take_best p c"

fun spec_queue_ops ::
  "nat \<Rightarrow> 'a queue_op list \<Rightarrow> (nat \<Rightarrow> 'a list) \<Rightarrow> 'a option list \<times> (nat \<Rightarrow> 'a list)" where
  "spec_queue_ops n [] c = ([], c)"
| "spec_queue_ops n (op # ops) c =
     (let (out, c1) = spec_queue_op n op c; (outs, c2) = spec_queue_ops n ops c1
      in (out # outs, c2))"

fun valid_queue_op :: "nat \<Rightarrow> 'a queue_op \<Rightarrow> bool" where
  "valid_queue_op n (QPushBack p t) \<longleftrightarrow> p < n"
| "valid_queue_op n (QPushFront p t) \<longleftrightarrow> p < n"
| "valid_queue_op n (QRemove p t) \<longleftrightarrow> p < n"
| "valid_queue_op n (QMove t old new) \<longleftrightarrow> old < n \<and> new < n"
| "valid_queue_op n QPop \<longleftrightarrow> True"
| "valid_queue_op n (QPopBetter p) \<longleftrightarrow> p < n"

lemma take_best_none: "(\<And>p. p < n \<Longrightarrow> c p = []) \<Longrightarrow> take_best n c = (None, c)"
  unfolding take_best_def by (subst find_None_iff [THEN iffD2]) auto

lemma take_best_some:
  assumes "\<And>p. p < i \<Longrightarrow> c p = []" and "c i = t # ts" and "i < n"
  shows "take_best n c = (Some t, c(i := ts))"
proof -
  have "find (\<lambda>i. c i \<noteq> []) [0..<n] = Some i"
    using assms by (auto simp: find_upt_iff)
  with assms(2) show ?thesis by (simp add: take_best_def)
qed

lemma run_queue_op_spec:
  assumes wf: "tql_wf q" and ok: "valid_queue_op (tql_levels q) op"
  shows "\<exists>q'. run_queue_op op q = Some (fst (spec_queue_op (tql_levels q) op (tql_content q)), q') \<and>
    tql_wf q' \<and> tql_levels q' = tql_levels q \<and>
    tql_content q' = snd (spec_queue_op (tql_levels q) op (tql_content q))"
proof (cases op)
  case (QPushBack p t)
  then show ?thesis
    using rq.prepare [OF wf, of p] rq.push_back [of "tql_prepare p q" p t] ok by simp
next
  case (QPushFront p t)
  then show ?thesis
    using rq.prepare [OF wf, of p] rq.push_front [of "tql_prepare p q" p t] ok by simp
next
  case (QRemove p t)
  then show ?thesis using rq.remove [OF wf, of p t] ok by simp
next
  case (QMove t old new)
  then show ?thesis
    using rq.move_spec [OF wf, of old new "tql_move t old new q" t] ok
    by (simp add: tql_move_def Let_def)
next
  case QPop
  from wf show ?thesis
  proof (cases rule: rq.pop_first_cases)
    case empty
    then show ?thesis
      using QPop wf take_best_none [of "tql_levels q" "tql_content q"] by simp
  next
    case (thread i t ts q')
    have "i < tql_levels q" using thread(6) rq.content_levels by (metis list.distinct(1) not_less)
    then have "take_best (tql_levels q) (tql_content q) = (Some t, (tql_content q)(i := ts))"
      using thread(5,6) by (intro take_best_some) simp_all
    with thread QPop show ?thesis by simp
  qed
next
  case (QPopBetter p)
  then have P: "tql_wf (tql_prepare p q)" "tql_prepared (tql_prepare p q) p"
      "tql_levels (tql_prepare p q) = tql_levels q" "tql_content (tql_prepare p q) = tql_content q"
    using rq.prepare [OF wf, of p] ok by simp_all
  from P(1,2) show ?thesis
  proof (cases rule: rq.pop_first_better_cases)
    case empty
    then show ?thesis using QPopBetter P take_best_none [of p "tql_content q"] by simp
  next
    case (thread i t ts q')
    then have "take_best p (tql_content q) = (Some t, (tql_content q)(i := ts))"
      using P(4) by (intro take_best_some) simp_all
    with thread P QPopBetter show ?thesis by simp
  qed
qed

lemma wf_new_queue: "tql_wf (tql_new n)"
  by (auto simp: tql_wf_def tql_new_def linked_levels_def linked_def empty_queue_def)

section \<open>Properties\<close>



text \<open>saving a queue and loading it back gives the same queue, chain included.\<close>

theorem queue_save_load: "tql_load (tql_save q) = q"
proof -
  have "ToPointer (ToIndex p) = p" for p by (cases p) (simp_all add: ToPointer_def)
  moreover have "(\<lambda>x :: 'a queue. \<lparr>next_nonempty = next_nonempty x, data = data x\<rparr>) = (\<lambda>x. x)"
    by (rule ext) simp
  ultimately show ?thesis by (cases q) (simp add: tql_load_def tql_save_def comp_def)
qed

end
