(* ===== verification/KernelState.thy ===== *)
theory KernelState
  imports Process CoreTiming ThreadQueueList
begin

text \<open>The state shared by threads and synchronization objects: \<open>Thread\<close> (\<open>kernel/thread.h\<close>),
  \<open>ThreadManager\<close>, \<open>Mutex\<close>, \<open>Semaphore\<close>, \<open>Event\<close>, \<open>Timer\<close>, and the parts of
  \<open>KernelSystem\<close> they use. A shared pointer is the natural number of its host address, so that the
  order of a \<open>flat_set\<close> of pointers is the order of those numbers; the store maps addresses to
  objects. \<open>SVC_IPCCallback\<close>, the callbacks of HLE services and the HLE notifiers are the record
  \<open>kenv\<close>, and \<open>outside\<close> is the state they keep.\<close>

section \<open>Threads\<close>

datatype ThreadStatus = Running | Ready | WaitArb | WaitSleep | WaitIPC | WaitSynchAny | WaitSynchAll
  | WaitHleEvent | Dormant | Dead

datatype ThreadWakeupReason = Signal | Timeout

datatype oref = RThread nat | RObj nat

datatype wakeup_callback = SyncCallback bool | ArbiterCallback nat | OtherCallback nat

abbreviation (input) "ThreadPrioHighest \<equiv> (0 :: nat)"
abbreviation (input) "ThreadPrioLowest \<equiv> (63 :: nat)"

record thread_context =
  cpu_registers :: "u32 list"
  cpsr :: u32
  fpscr :: u32

record thread =
  th_context :: thread_context
  thread_id :: u32
  can_schedule :: bool
  status :: ThreadStatus
  entry_point :: u32
  stack_top :: u32
  nominal_priority :: nat
  current_priority :: nat
  last_running_ticks :: int
  processor_id :: int
  th_tls_address :: u32
  held_mutexes :: "nat list"
  pending_mutexes :: "nat list"
  owner_process :: "nat option"
  wait_objects :: "oref list"
  wait_address :: u32
  wakeup_callback :: "wakeup_callback option"
  core_id :: nat

section \<open>Synchronization objects\<close>

datatype ResetType = OneShot | Sticky | Pulse

record mutex =
  lock_count :: s32
  mutex_priority :: nat
  holding_thread :: "nat option"

record semaphore =
  max_count :: s32
  available_count :: s32

record kernel_event =
  event_reset_type :: ResetType
  event_signaled :: bool

record kernel_timer =
  timer_reset_type :: ResetType
  initial_delay :: int
  interval_delay :: int
  timer_signaled :: bool
  callback_id :: u64

text \<open>The ends of a connection on which a server waits: a port, with the sessions to be accepted, and a
  session, with the threads whose requests are to be handled. A handler of an emulated service is a
  number, and a session names its parent, which links it to the client's end. A session's list of
  mapped buffers, which only IPC uses, is kept in \<open>outside\<close>.\<close>

record server_port =
  pending_sessions :: "nat list"
  port_handler :: "nat option"

record server_session =
  session_parent :: nat
  session_handler :: "nat option"
  pending_requesting_threads :: "nat list"
  currently_handling :: "nat option"

datatype kobject = KMutex mutex | KSemaphore semaphore | KEvent kernel_event | KTimer kernel_timer
  | KServerPort server_port | KServerSession server_session

section \<open>Connections\<close>

text \<open>The parent of the two ends of a session, and a port's client end. They are no wait objects and
  have maps of their own; a client session is the address of its parent.\<close>

record session =
  session_client :: "nat option"
  session_server :: "nat option"
  session_port :: "nat option"

record client_port =
  cp_server_port :: nat
  max_sessions :: u32
  active_sessions :: u32

section \<open>Shared memory blocks\<close>

text \<open>\<open>SharedMemory\<close>; permissions are those of the enumeration \<open>MemoryPermission\<close>.\<close>

record 's shared_memory =
  linear_heap_phys_offset :: u32
  sm_backing_blocks :: "(memory_ref \<times> u32) list"
  sm_size :: u32
  sm_region :: nat
  sm_permissions :: u32
  sm_other_permissions :: u32
  sm_owner :: "nat option"
  base_address :: u32
  sm_holding_memory :: 's

section \<open>What a handle names\<close>

datatype kref = HWait oref | HArbiter nat | HProcess nat | HShared nat | HClientPort nat
  | HClientSession nat | HLimit nat

section \<open>The kernel\<close>

record thread_manager =
  current_thread :: "nat option"
  ready_queue :: "nat tql"
  unscheduled_ready_queue :: "nat list"
  wakeup_callback_table :: "u64 \<rightharpoonup> nat"
  thread_list :: "nat list"

record cpu =
  cpu_context :: thread_context
  cp15_uro :: u32
  cpu_pages :: "nat option"

record ('s, 'g, 'e) kernel =
  threads :: "nat \<rightharpoonup> thread"
  sync_objects :: "nat \<rightharpoonup> kobject"
  waiting_threads :: "oref \<Rightarrow> nat list"
  arbiter_threads :: "nat \<Rightarrow> nat list"
  managers :: "thread_manager list"
  cpus :: "cpu list"
  current_cpu :: nat
  current_process :: "nat option"
  stored_processes :: "nat option list"
  memory_pages :: "nat option"
  next_thread_id :: u32
  next_timer_callback_id :: u64
  timer_callback_table :: "u64 \<rightharpoonup> nat"
  reschedule_pending :: bool
  timing_of :: timing
  processes :: "nat \<rightharpoonup> 's process"
  process_list :: "nat list"
  kernel_memory :: "('s, 'g) kmem"
  sessions :: "nat \<rightharpoonup> session"
  client_ports :: "nat \<rightharpoonup> client_port"
  client_sessions :: "nat \<rightharpoonup> nat"
  named_ports :: "u8 list \<rightharpoonup> nat"
  shared_memories :: "nat \<rightharpoonup> 's shared_memory"
  outside :: 'e

record ('s, 'g, 'e) kenv =
  other_wakeup :: "nat \<Rightarrow> ThreadWakeupReason \<Rightarrow> nat \<Rightarrow> oref option \<Rightarrow> ('s, 'g, 'e) kernel \<Rightarrow>
    ('s, 'g, 'e) kernel run"
  hle_notifier :: "oref \<Rightarrow> ('s, 'g, 'e) kernel \<Rightarrow> ('s, 'g, 'e) kernel run"

definition upd_thread ::
  "nat \<Rightarrow> (thread \<Rightarrow> thread) \<Rightarrow> ('s, 'g, 'e) kernel \<Rightarrow> ('s, 'g, 'e) kernel" where
  "upd_thread t f k = k\<lparr>threads := (threads k)(t := map_option f (threads k t))\<rparr>"

definition set_object :: "nat \<Rightarrow> kobject \<Rightarrow> ('s, 'g, 'e) kernel \<Rightarrow> ('s, 'g, 'e) kernel" where
  "set_object a ob k = k\<lparr>sync_objects := (sync_objects k)(a \<mapsto> ob)\<rparr>"

definition upd_manager ::
  "nat \<Rightarrow> (thread_manager \<Rightarrow> thread_manager) \<Rightarrow> ('s, 'g, 'e) kernel \<Rightarrow> ('s, 'g, 'e) kernel" where
  "upd_manager c f k = k\<lparr>managers := (managers k)[c := f (managers k ! c)]\<rparr>"

definition upd_ready ::
  "nat \<Rightarrow> (nat tql \<Rightarrow> nat tql) \<Rightarrow> ('s, 'g, 'e) kernel \<Rightarrow> ('s, 'g, 'e) kernel" where
  "upd_ready c f = upd_manager c (\<lambda>m. m\<lparr>ready_queue := f (ready_queue m)\<rparr>)"

definition PrepareReschedule :: "('s, 'g, 'e) kernel \<Rightarrow> ('s, 'g, 'e) kernel" where
  "PrepareReschedule k = k\<lparr>reschedule_pending := True\<rparr>"

definition mutex_of :: "('s, 'g, 'e) kernel \<Rightarrow> nat \<Rightarrow> mutex run" where
  "mutex_of k a = (case sync_objects k a of Some (KMutex m) \<Rightarrow> Some m | _ \<Rightarrow> None)"

text \<open>The name of the event that wakes up a thread of a core.\<close>

definition wakeup_event :: "nat \<Rightarrow> string" where
  "wakeup_event c = ''ThreadWakeupCallback_'' @ [char_of (48 + c)]"

section \<open>Priorities\<close>

definition BoostPriority :: "nat \<Rightarrow> nat \<Rightarrow> ('s, 'g, 'e) kernel \<Rightarrow> ('s, 'g, 'e) kernel run" where
  "BoostPriority t priority k = do {
     th \<leftarrow> threads k t;
     let k = (if status th = Ready
              then upd_ready (core_id th) (tql_move t (current_priority th) priority) k
              else upd_ready (core_id th) (tql_prepare priority) k);
     Some (upd_thread t (\<lambda>th. th\<lparr>current_priority := priority\<rparr>) k)}"

fun best_mutex_priority :: "('s, 'g, 'e) kernel \<Rightarrow> nat list \<Rightarrow> nat \<Rightarrow> nat run" where
  "best_mutex_priority k [] best = Some best"
| "best_mutex_priority k (m # ms) best = do {
     mu \<leftarrow> mutex_of k m;
     best_mutex_priority k ms (if mutex_priority mu < best then mutex_priority mu else best)}"

definition Thread_UpdatePriority :: "nat \<Rightarrow> ('s, 'g, 'e) kernel \<Rightarrow> ('s, 'g, 'e) kernel run" where
  "Thread_UpdatePriority t k = do {
     th \<leftarrow> threads k t;
     best_priority \<leftarrow> best_mutex_priority k (held_mutexes th) (nominal_priority th);
     BoostPriority t best_priority k}"

definition SetPriority :: "nat \<Rightarrow> nat \<Rightarrow> ('s, 'g, 'e) kernel \<Rightarrow> ('s, 'g, 'e) kernel run" where
  "SetPriority t priority k = do {
     ASSERT (priority \<le> ThreadPrioLowest \<and> priority \<ge> ThreadPrioHighest);
     th \<leftarrow> threads k t;
     let k = (if status th = Ready
              then upd_ready (core_id th) (tql_move t (current_priority th) priority) k
              else upd_ready (core_id th) (tql_prepare priority) k);
     Some (upd_thread t (\<lambda>th. th\<lparr>nominal_priority := priority, current_priority := priority\<rparr>) k)}"

fun best_waiter_priority :: "('s, 'g, 'e) kernel \<Rightarrow> nat list \<Rightarrow> nat \<Rightarrow> nat run" where
  "best_waiter_priority k [] best = Some best"
| "best_waiter_priority k (t # ts) best = do {
     th \<leftarrow> threads k t;
     best_waiter_priority k ts (if current_priority th < best then current_priority th else best)}"

definition Mutex_UpdatePriority :: "nat \<Rightarrow> ('s, 'g, 'e) kernel \<Rightarrow> ('s, 'g, 'e) kernel run" where
  "Mutex_UpdatePriority a k = do {
     mu \<leftarrow> mutex_of k a;
     case holding_thread mu of
       None \<Rightarrow> Some k
     | Some holder \<Rightarrow> do {
         best_priority \<leftarrow> best_waiter_priority k (waiting_threads k (RObj a)) ThreadPrioLowest;
         if best_priority \<noteq> mutex_priority mu
         then Thread_UpdatePriority holder (set_object a (KMutex (mu\<lparr>mutex_priority := best_priority\<rparr>)) k)
         else Some k}}"

section \<open>Waking a thread\<close>

definition ResumeFromWait :: "nat \<Rightarrow> ('s, 'g, 'e) kernel \<Rightarrow> ('s, 'g, 'e) kernel run" where
  "ResumeFromWait t k = do {
     th \<leftarrow> threads k t;
     ASSERT (wait_objects th = []);
     case status th of
       Ready \<Rightarrow> do { ASSERT (wakeup_callback th = None); Some k }
     | Running \<Rightarrow> Some k
     | Dead \<Rightarrow> Some k
     | _ \<Rightarrow> do {
         let k = upd_thread t (\<lambda>th. th\<lparr>wakeup_callback := None\<rparr>) k;
         let k = upd_ready (core_id th) (tql_push_back (current_priority th) t) k;
         let k = upd_thread t (\<lambda>th. th\<lparr>status := Ready\<rparr>) k;
         Some (PrepareReschedule k)}}"

definition WakeAfterDelay ::
  "nat \<Rightarrow> int \<Rightarrow> bool \<Rightarrow> ('s, 'g, 'e) kernel \<Rightarrow> ('s, 'g, 'e) kernel run" where
  "WakeAfterDelay t nanoseconds thread_safe_mode k =
     (if nanoseconds = -1 then Some k
      else do {
        th \<leftarrow> threads k t;
        tm \<leftarrow> ScheduleEvent (nsToCycles nanoseconds) (wakeup_event (core_id th)) (ucast (thread_id th))
          (if thread_safe_mode then Some (core_id th) else None) thread_safe_mode (timing_of k);
        Some (k\<lparr>timing_of := tm\<rparr>)})"

definition SetWaitSynchronizationResult ::
  "nat \<Rightarrow> result \<Rightarrow> ('s, 'g, 'e) kernel \<Rightarrow> ('s, 'g, 'e) kernel" where
  "SetWaitSynchronizationResult t r =
     upd_thread t (\<lambda>th. th\<lparr>th_context := (th_context th)\<lparr>cpu_registers := (cpu_registers (th_context th))[0 := r]\<rparr>\<rparr>)"

definition SetWaitSynchronizationOutput ::
  "nat \<Rightarrow> s32 \<Rightarrow> ('s, 'g, 'e) kernel \<Rightarrow> ('s, 'g, 'e) kernel" where
  "SetWaitSynchronizationOutput t v =
     upd_thread t (\<lambda>th. th\<lparr>th_context := (th_context th)\<lparr>cpu_registers := (cpu_registers (th_context th))[1 := v]\<rparr>\<rparr>)"

text \<open>The last position of the object among those the thread waits for, or \<open>-1\<close>.\<close>

definition GetWaitObjectIndex :: "thread \<Rightarrow> oref \<Rightarrow> s32 run" where
  "GetWaitObjectIndex th ob = do {
     ASSERT (wait_objects th \<noteq> []);
     Some (of_int (int (length (dropWhile (\<lambda>x. x \<noteq> ob) (rev (wait_objects th)))) - 1))}"

definition GetCommandBufferAddress :: "thread \<Rightarrow> u32" where
  "GetCommandBufferAddress th = th_tls_address th + 0x80"

end
