(* ===== verification/WaitObjects.thy ===== *)
theory WaitObjects
  imports KernelState
begin

text \<open>What threads wait for: \<open>WaitObject\<close> (\<open>kernel/wait_object.cpp\<close>) and its subclasses
  \<open>Thread\<close>, \<open>Mutex\<close>, \<open>Semaphore\<close>, \<open>Event\<close>, \<open>Timer\<close>, \<open>ServerPort\<close> and \<open>ServerSession\<close>. A virtual call is a case distinction on
  the object.\<close>

section \<open>Availability\<close>

definition ShouldWait :: "('s, 'g, 'e) kernel \<Rightarrow> oref \<Rightarrow> nat \<Rightarrow> bool run" where
  "ShouldWait k ob t =
     (case ob of
        RThread x \<Rightarrow> map_option (\<lambda>th. status th \<noteq> Dead) (threads k x)
      | RObj a \<Rightarrow>
          (case sync_objects k a of
             None \<Rightarrow> None
           | Some (KMutex m) \<Rightarrow> Some (sint (lock_count m) > 0 \<and> holding_thread m \<noteq> Some t)
           | Some (KSemaphore s) \<Rightarrow> Some (sint (available_count s) \<le> 0)
           | Some (KEvent e) \<Rightarrow> Some (\<not> event_signaled e)
           | Some (KTimer tm) \<Rightarrow> Some (\<not> timer_signaled tm)
           | Some (KServerPort p) \<Rightarrow> Some (pending_sessions p = [])
           | Some (KServerSession s) \<Rightarrow>
               map_option (\<lambda>parent. session_client parent \<noteq> None \<and>
                 (pending_requesting_threads s = [] \<or> currently_handling s \<noteq> None)) (sessions k (session_parent s))))"

fun none_should_wait :: "('s, 'g, 'e) kernel \<Rightarrow> oref list \<Rightarrow> nat \<Rightarrow> bool run" where
  "none_should_wait k [] t = Some True"
| "none_should_wait k (ob # obs) t = do {
     w \<leftarrow> ShouldWait k ob t;
     if w then Some False else none_should_wait k obs t}"

section \<open>Acquiring\<close>

definition insert_sorted :: "nat \<Rightarrow> nat list \<Rightarrow> nat list" where
  "insert_sorted x xs = (if x \<in> set xs then xs else insort x xs)"

definition Mutex_Acquire :: "nat \<Rightarrow> mutex \<Rightarrow> nat \<Rightarrow> ('s, 'g, 'e) kernel \<Rightarrow> ('s, 'g, 'e) kernel run" where
  "Mutex_Acquire a m t k = do {
     w \<leftarrow> ShouldWait k (RObj a) t;
     ASSERT (\<not> w);
     k \<leftarrow> (if lock_count m = 0 then do {
         th \<leftarrow> threads k t;
         let k = set_object a (KMutex (m\<lparr>mutex_priority := current_priority th, holding_thread := Some t\<rparr>)) k;
         let k = upd_thread t (\<lambda>th. th\<lparr>held_mutexes := insert_sorted a (held_mutexes th)\<rparr>) k;
         k \<leftarrow> Thread_UpdatePriority t k;
         Some (PrepareReschedule k)}
       else Some k);
     m \<leftarrow> mutex_of k a;
     n \<leftarrow> s32_add (lock_count m) 1;
     Some (set_object a (KMutex (m\<lparr>lock_count := n\<rparr>)) k)}"

text \<open>A session pops the last request; with its client gone it is left alone.\<close>

definition ServerSession_Acquire ::
  "nat \<Rightarrow> server_session \<Rightarrow> nat \<Rightarrow> ('s, 'g, 'e) kernel \<Rightarrow> ('s, 'g, 'e) kernel run" where
  "ServerSession_Acquire a s t k = do {
     w \<leftarrow> ShouldWait k (RObj a) t;
     ASSERT (\<not> w);
     parent \<leftarrow> sessions k (session_parent s);
     if session_client parent = None then Some k
     else do {
       ASSERT (pending_requesting_threads s \<noteq> []);
       Some (set_object a (KServerSession (s\<lparr>currently_handling := Some (last (pending_requesting_threads s)),
         pending_requesting_threads := butlast (pending_requesting_threads s)\<rparr>)) k)}}"

definition Acquire :: "oref \<Rightarrow> nat \<Rightarrow> ('s, 'g, 'e) kernel \<Rightarrow> ('s, 'g, 'e) kernel run" where
  "Acquire ob t k =
     (case ob of
        RThread x \<Rightarrow> do { w \<leftarrow> ShouldWait k ob t; ASSERT (\<not> w); Some k }
      | RObj a \<Rightarrow>
          (case sync_objects k a of
             None \<Rightarrow> None
           | Some (KMutex m) \<Rightarrow> Mutex_Acquire a m t k
           | Some (KSemaphore s) \<Rightarrow>
               if sint (available_count s) \<le> 0 then Some k
               else Some (set_object a (KSemaphore (s\<lparr>available_count := available_count s - 1\<rparr>)) k)
           | Some (KEvent e) \<Rightarrow> do {
               ASSERT (event_signaled e);
               Some (if event_reset_type e = OneShot
                     then set_object a (KEvent (e\<lparr>event_signaled := False\<rparr>)) k else k)}
           | Some (KTimer tm) \<Rightarrow> do {
               ASSERT (timer_signaled tm);
               Some (if timer_reset_type tm = OneShot
                     then set_object a (KTimer (tm\<lparr>timer_signaled := False\<rparr>)) k else k)}
           | Some (KServerPort p) \<Rightarrow> do { ASSERT (pending_sessions p \<noteq> []); Some k }
           | Some (KServerSession s) \<Rightarrow> ServerSession_Acquire a s t k))"

fun Acquire_all :: "oref list \<Rightarrow> nat \<Rightarrow> ('s, 'g, 'e) kernel \<Rightarrow> ('s, 'g, 'e) kernel run" where
  "Acquire_all [] t k = Some k"
| "Acquire_all (ob # obs) t k = do { k \<leftarrow> Acquire ob t k; Acquire_all obs t k }"

section \<open>Waiting threads\<close>

definition set_waiting :: "oref \<Rightarrow> nat list \<Rightarrow> ('s, 'g, 'e) kernel \<Rightarrow> ('s, 'g, 'e) kernel" where
  "set_waiting ob ts k = k\<lparr>waiting_threads := (waiting_threads k)(ob := ts)\<rparr>"

definition is_mutex :: "('s, 'g, 'e) kernel \<Rightarrow> oref \<Rightarrow> nat option" where
  "is_mutex k ob = (case ob of RThread x \<Rightarrow> None
     | RObj a \<Rightarrow> (case sync_objects k a of Some (KMutex m) \<Rightarrow> Some a | _ \<Rightarrow> None))"

definition AddWaitingThread :: "oref \<Rightarrow> nat \<Rightarrow> ('s, 'g, 'e) kernel \<Rightarrow> ('s, 'g, 'e) kernel run" where
  "AddWaitingThread ob t k =
     (let ts = waiting_threads k ob;
          k = (if t \<in> set ts then k else set_waiting ob (ts @ [t]) k)
      in case is_mutex k ob of
           None \<Rightarrow> Some k
         | Some a \<Rightarrow> Mutex_UpdatePriority a
             (upd_thread t (\<lambda>th. th\<lparr>pending_mutexes := insert_sorted a (pending_mutexes th)\<rparr>) k))"

definition RemoveWaitingThread :: "oref \<Rightarrow> nat \<Rightarrow> ('s, 'g, 'e) kernel \<Rightarrow> ('s, 'g, 'e) kernel run" where
  "RemoveWaitingThread ob t k =
     (let k = set_waiting ob (remove1 t (waiting_threads k ob)) k
      in case is_mutex k ob of
           None \<Rightarrow> Some k
         | Some a \<Rightarrow> Mutex_UpdatePriority a
             (upd_thread t (\<lambda>th. th\<lparr>pending_mutexes := removeAll a (pending_mutexes th)\<rparr>) k))"

fun Remove_all :: "oref list \<Rightarrow> nat \<Rightarrow> ('s, 'g, 'e) kernel \<Rightarrow> ('s, 'g, 'e) kernel run" where
  "Remove_all [] t k = Some k"
| "Remove_all (ob # obs) t k = do { k \<leftarrow> RemoveWaitingThread ob t k; Remove_all obs t k }"

text \<open>The loop of \<open>GetHighestPriorityReadyThread\<close>, with the candidate and its priority.\<close>

fun best_ready ::
  "('s, 'g, 'e) kernel \<Rightarrow> oref \<Rightarrow> nat list \<Rightarrow> nat option \<Rightarrow> nat \<Rightarrow> nat option run" where
  "best_ready k ob [] candidate candidate_priority = Some candidate"
| "best_ready k ob (t # ts) candidate candidate_priority = do {
     th \<leftarrow> threads k t;
     ASSERT (status th = WaitSynchAny \<or> status th = WaitSynchAll \<or> status th = WaitHleEvent);
     if current_priority th \<ge> candidate_priority
     then best_ready k ob ts candidate candidate_priority
     else do {
       w \<leftarrow> ShouldWait k ob t;
       if w then best_ready k ob ts candidate candidate_priority
       else do {
         ready_to_run \<leftarrow> (if status th = WaitSynchAll then none_should_wait k (wait_objects th) t
                         else Some True);
         if ready_to_run then best_ready k ob ts (Some t) (current_priority th)
         else best_ready k ob ts candidate candidate_priority}}}"

definition GetHighestPriorityReadyThread :: "('s, 'g, 'e) kernel \<Rightarrow> oref \<Rightarrow> nat option run" where
  "GetHighestPriorityReadyThread k ob =
     best_ready k ob (waiting_threads k ob) None (ThreadPrioLowest + 1)"

section \<open>Wake-up callbacks\<close>

definition WakeUp_Sync ::
  "bool \<Rightarrow> ThreadWakeupReason \<Rightarrow> nat \<Rightarrow> oref option \<Rightarrow> ('s, 'g, 'e) kernel \<Rightarrow> ('s, 'g, 'e) kernel run" where
  "WakeUp_Sync do_output reason t ob k =
     (if reason = Timeout then Some (SetWaitSynchronizationResult t ResultTimeout k)
      else
        (let k = SetWaitSynchronizationResult t ResultSuccess k
         in if do_output then do {
              th \<leftarrow> threads k t;
              o' \<leftarrow> ob;
              i \<leftarrow> GetWaitObjectIndex th o';
              Some (SetWaitSynchronizationOutput t i k)}
            else Some k))"

definition WakeUp_Arbiter ::
  "nat \<Rightarrow> ThreadWakeupReason \<Rightarrow> nat \<Rightarrow> ('s, 'g, 'e) kernel \<Rightarrow> ('s, 'g, 'e) kernel run" where
  "WakeUp_Arbiter a reason t k = do {
     ASSERT (reason = Timeout);
     Some (k\<lparr>arbiter_threads := (arbiter_threads k)(a := removeAll t (arbiter_threads k a))\<rparr>)}"

definition WakeUp ::
  "('s, 'g, 'e) kenv \<Rightarrow> wakeup_callback \<Rightarrow> ThreadWakeupReason \<Rightarrow> nat \<Rightarrow> oref option \<Rightarrow>
   ('s, 'g, 'e) kernel \<Rightarrow> ('s, 'g, 'e) kernel run" where
  "WakeUp env cb reason t ob k =
     (case cb of
        SyncCallback do_output \<Rightarrow> WakeUp_Sync do_output reason t ob k
      | ArbiterCallback a \<Rightarrow> WakeUp_Arbiter a reason t k
      | OtherCallback n \<Rightarrow> other_wakeup env n reason t ob k)"

text \<open>Both callers remove the thread from all it waits for, as it is after the callback.\<close>

definition leave_waits :: "nat \<Rightarrow> ('s, 'g, 'e) kernel \<Rightarrow> ('s, 'g, 'e) kernel run" where
  "leave_waits t k = do {
     th \<leftarrow> threads k t;
     k \<leftarrow> Remove_all (wait_objects th) t k;
     Some (upd_thread t (\<lambda>th. th\<lparr>wait_objects := []\<rparr>) k)}"

definition call_back ::
  "('s, 'g, 'e) kenv \<Rightarrow> ThreadWakeupReason \<Rightarrow> nat \<Rightarrow> oref option \<Rightarrow> ('s, 'g, 'e) kernel \<Rightarrow>
   ('s, 'g, 'e) kernel run" where
  "call_back env reason t ob k = do {
     th \<leftarrow> threads k t;
     case wakeup_callback th of None \<Rightarrow> Some k | Some cb \<Rightarrow> WakeUp env cb reason t ob k}"

section \<open>Waking the waiting threads\<close>

definition wake_one ::
  "('s, 'g, 'e) kenv \<Rightarrow> oref \<Rightarrow> nat \<Rightarrow> ('s, 'g, 'e) kernel \<Rightarrow> ('s, 'g, 'e) kernel run" where
  "wake_one env ob t k = do {
     th \<leftarrow> threads k t;
     k \<leftarrow> (if status th \<noteq> WaitSynchAll then Acquire ob t k else Acquire_all (wait_objects th) t k);
     k \<leftarrow> call_back env Signal t (Some ob) k;
     k \<leftarrow> leave_waits t k;
     ResumeFromWait t k}"

partial_function (option) wakeup_loop ::
  "('s, 'g, 'e) kenv \<Rightarrow> oref \<Rightarrow> ('s, 'g, 'e) kernel \<Rightarrow> ('s, 'g, 'e) kernel run" where
  "wakeup_loop env ob k =
     Option.bind (GetHighestPriorityReadyThread k ob) (\<lambda>best.
       case best of
         None \<Rightarrow> Some k
       | Some t \<Rightarrow> Option.bind (wake_one env ob t k) (wakeup_loop env ob))"

definition end_pulse :: "oref \<Rightarrow> ('s, 'g, 'e) kernel \<Rightarrow> ('s, 'g, 'e) kernel" where
  "end_pulse ob k =
     (case ob of
        RThread x \<Rightarrow> k
      | RObj a \<Rightarrow>
          (case sync_objects k a of
             Some (KEvent e) \<Rightarrow> if event_reset_type e = Pulse
               then set_object a (KEvent (e\<lparr>event_signaled := False\<rparr>)) k else k
           | Some (KTimer tm) \<Rightarrow> if timer_reset_type tm = Pulse
               then set_object a (KTimer (tm\<lparr>timer_signaled := False\<rparr>)) k else k
           | _ \<Rightarrow> k))"

definition WakeupAllWaitingThreads ::
  "('s, 'g, 'e) kenv \<Rightarrow> oref \<Rightarrow> ('s, 'g, 'e) kernel \<Rightarrow> ('s, 'g, 'e) kernel run" where
  "WakeupAllWaitingThreads env ob k = do {
     k \<leftarrow> wakeup_loop env ob k;
     k \<leftarrow> hle_notifier env ob k;
     Some (end_pulse ob k)}"

end
