(* ===== verification/SyncObjects.thy ===== *)
theory SyncObjects
  imports WaitObjects
begin

text \<open>The operations of mutexes, semaphores, events and timers (\<open>kernel/mutex.cpp\<close>,
  \<open>semaphore.cpp\<close>, \<open>event.cpp\<close>, \<open>timer.cpp\<close>). The address of a new object is an argument.\<close>

section \<open>Mutexes\<close>

definition CreateMutex :: "nat \<Rightarrow> bool \<Rightarrow> ('s, 'g, 'e) kernel \<Rightarrow> ('s, 'g, 'e) kernel run" where
  "CreateMutex a initial_locked k =
     (let m = \<lparr>lock_count = 0, mutex_priority = 0, holding_thread = None\<rparr>;
          k = set_object a (KMutex m) k
      in if initial_locked then do {
           t \<leftarrow> current_thread (managers k ! current_cpu k);
           Mutex_Acquire a m t k}
         else Some k)"

definition WrongLockingThread :: result where
  "WrongLockingThread = Result_make ErrCodes_WrongLockingThread Mod_Kernel Sum_InvalidArgument Lvl_Permanent"

definition Mutex_Release ::
  "('s, 'g, 'e) kenv \<Rightarrow> nat \<Rightarrow> nat \<Rightarrow> ('s, 'g, 'e) kernel \<Rightarrow> (result \<times> ('s, 'g, 'e) kernel) run" where
  "Mutex_Release env a t k = do {
     m \<leftarrow> mutex_of k a;
     if holding_thread m \<noteq> Some t then Some (WrongLockingThread, k)
     else if sint (lock_count m) \<le> 0
     then Some (Result_make Desc_InvalidResultValue Mod_Kernel Sum_InvalidState Lvl_Permanent, k)
     else do {
       let n = lock_count m - 1;
       let k = set_object a (KMutex (m\<lparr>lock_count := n\<rparr>)) k;
       if n = 0 then do {
         let k = upd_thread t (\<lambda>th. th\<lparr>held_mutexes := removeAll a (held_mutexes th)\<rparr>) k;
         k \<leftarrow> Thread_UpdatePriority t k;
         m \<leftarrow> mutex_of k a;
         let k = set_object a (KMutex (m\<lparr>holding_thread := None\<rparr>)) k;
         k \<leftarrow> WakeupAllWaitingThreads env (RObj a) k;
         Some (ResultSuccess, PrepareReschedule k)}
       else Some (ResultSuccess, k)}}"

fun release_all ::
  "('s, 'g, 'e) kenv \<Rightarrow> nat list \<Rightarrow> ('s, 'g, 'e) kernel \<Rightarrow> ('s, 'g, 'e) kernel run" where
  "release_all env [] k = Some k"
| "release_all env (a # as) k = do {
     m \<leftarrow> mutex_of k a;
     let k = set_object a (KMutex (m\<lparr>lock_count := 0, holding_thread := None\<rparr>)) k;
     k \<leftarrow> WakeupAllWaitingThreads env (RObj a) k;
     release_all env as k}"

definition ReleaseThreadMutexes ::
  "('s, 'g, 'e) kenv \<Rightarrow> nat \<Rightarrow> ('s, 'g, 'e) kernel \<Rightarrow> ('s, 'g, 'e) kernel run" where
  "ReleaseThreadMutexes env t k = do {
     th \<leftarrow> threads k t;
     k \<leftarrow> release_all env (held_mutexes th) k;
     Some (upd_thread t (\<lambda>th. th\<lparr>held_mutexes := []\<rparr>) k)}"

section \<open>Semaphores\<close>

definition CreateSemaphore ::
  "nat \<Rightarrow> s32 \<Rightarrow> s32 \<Rightarrow> ('s, 'g, 'e) kernel \<Rightarrow> (result + nat) \<times> ('s, 'g, 'e) kernel" where
  "CreateSemaphore a initial_count maximum k =
     (if \<not> sint initial_count \<le> sint maximum then (Inl ResultInvalidCombinationKernel, k)
      else (Inr a, set_object a (KSemaphore \<lparr>max_count = maximum, available_count = initial_count\<rparr>) k))"

definition Semaphore_Release ::
  "('s, 'g, 'e) kenv \<Rightarrow> nat \<Rightarrow> s32 \<Rightarrow> ('s, 'g, 'e) kernel \<Rightarrow>
   ((result + s32) \<times> ('s, 'g, 'e) kernel) run" where
  "Semaphore_Release env a release_count k =
     (case sync_objects k a of
        Some (KSemaphore s) \<Rightarrow> do {
          total \<leftarrow> s32_add release_count (available_count s);
          if \<not> sint (max_count s) \<ge> sint total then Some (Inl ResultOutOfRangeKernel, k)
          else do {
            let k = set_object a (KSemaphore (s\<lparr>available_count := total\<rparr>)) k;
            k \<leftarrow> WakeupAllWaitingThreads env (RObj a) k;
            Some (Inr (available_count s), k)}}
      | _ \<Rightarrow> None)"

section \<open>Events\<close>

definition CreateEvent :: "nat \<Rightarrow> ResetType \<Rightarrow> ('s, 'g, 'e) kernel \<Rightarrow> ('s, 'g, 'e) kernel" where
  "CreateEvent a reset_type =
     set_object a (KEvent \<lparr>event_reset_type = reset_type, event_signaled = False\<rparr>)"

definition event_of :: "('s, 'g, 'e) kernel \<Rightarrow> nat \<Rightarrow> kernel_event run" where
  "event_of k a = (case sync_objects k a of Some (KEvent e) \<Rightarrow> Some e | _ \<Rightarrow> None)"

definition Event_Signal ::
  "('s, 'g, 'e) kenv \<Rightarrow> nat \<Rightarrow> ('s, 'g, 'e) kernel \<Rightarrow> ('s, 'g, 'e) kernel run" where
  "Event_Signal env a k = do {
     e \<leftarrow> event_of k a;
     WakeupAllWaitingThreads env (RObj a) (set_object a (KEvent (e\<lparr>event_signaled := True\<rparr>)) k)}"

definition Event_Clear :: "nat \<Rightarrow> ('s, 'g, 'e) kernel \<Rightarrow> ('s, 'g, 'e) kernel run" where
  "Event_Clear a k = do {
     e \<leftarrow> event_of k a;
     Some (set_object a (KEvent (e\<lparr>event_signaled := False\<rparr>)) k)}"

section \<open>Timers\<close>

definition timer_of :: "('s, 'g, 'e) kernel \<Rightarrow> nat \<Rightarrow> kernel_timer run" where
  "timer_of k a = (case sync_objects k a of Some (KTimer t) \<Rightarrow> Some t | _ \<Rightarrow> None)"

definition CreateTimer :: "nat \<Rightarrow> ResetType \<Rightarrow> ('s, 'g, 'e) kernel \<Rightarrow> ('s, 'g, 'e) kernel" where
  "CreateTimer a reset_type k =
     (let cb = next_timer_callback_id k + 1;
          k = k\<lparr>next_timer_callback_id := cb, timer_callback_table := (timer_callback_table k)(cb \<mapsto> a)\<rparr>
      in set_object a (KTimer \<lparr>timer_reset_type = reset_type, initial_delay = 0, interval_delay = 0,
           timer_signaled = False, callback_id = cb\<rparr>) k)"

definition KernelTimer_Signal ::
  "('s, 'g, 'e) kenv \<Rightarrow> nat \<Rightarrow> int \<Rightarrow> ('s, 'g, 'e) kernel \<Rightarrow> ('s, 'g, 'e) kernel run" where
  "KernelTimer_Signal env a cycles_late k = do {
     t \<leftarrow> timer_of k a;
     let k = set_object a (KTimer (t\<lparr>timer_signaled := True\<rparr>)) k;
     k \<leftarrow> WakeupAllWaitingThreads env (RObj a) k;
     t \<leftarrow> timer_of k a;
     if interval_delay t \<noteq> 0 then do {
       cycles \<leftarrow> chk64 (nsToCycles (interval_delay t) - cycles_late);
       tm \<leftarrow> ScheduleEvent cycles ''TimerCallback'' (callback_id t) None False (timing_of k);
       Some (k\<lparr>timing_of := tm\<rparr>)}
     else Some k}"

definition KernelTimer_Cancel :: "nat \<Rightarrow> ('s, 'g, 'e) kernel \<Rightarrow> ('s, 'g, 'e) kernel run" where
  "KernelTimer_Cancel a k = do {
     t \<leftarrow> timer_of k a;
     Some (k\<lparr>timing_of := UnscheduleEvent ''TimerCallback'' (callback_id t) (timing_of k)\<rparr>)}"

definition KernelTimer_Set ::
  "('s, 'g, 'e) kenv \<Rightarrow> nat \<Rightarrow> int \<Rightarrow> int \<Rightarrow> ('s, 'g, 'e) kernel \<Rightarrow> ('s, 'g, 'e) kernel run" where
  "KernelTimer_Set env a initial interval k = do {
     k \<leftarrow> KernelTimer_Cancel a k;
     t \<leftarrow> timer_of k a;
     let k = set_object a (KTimer (t\<lparr>initial_delay := initial, interval_delay := interval\<rparr>)) k;
     if initial = 0 then KernelTimer_Signal env a 0 k
     else do {
       tm \<leftarrow> ScheduleEvent (nsToCycles initial) ''TimerCallback'' (callback_id t) None False (timing_of k);
       Some (k\<lparr>timing_of := tm\<rparr>)}}"

definition KernelTimer_Clear :: "nat \<Rightarrow> ('s, 'g, 'e) kernel \<Rightarrow> ('s, 'g, 'e) kernel run" where
  "KernelTimer_Clear a k = do {
     t \<leftarrow> timer_of k a;
     Some (set_object a (KTimer (t\<lparr>timer_signaled := False\<rparr>)) k)}"

text \<open>\<open>at\<close> throws on an unknown id.\<close>

definition TimerCallback ::
  "('s, 'g, 'e) kenv \<Rightarrow> u64 \<Rightarrow> int \<Rightarrow> ('s, 'g, 'e) kernel \<Rightarrow> ('s, 'g, 'e) kernel run" where
  "TimerCallback env cb cycles_late k = do {
     a \<leftarrow> timer_callback_table k cb;
     KernelTimer_Signal env a cycles_late k}"

end
