(* ===== verification/Scheduler.thy ===== *)
theory Scheduler
  imports SyncObjects
begin

text \<open>Threads and their scheduling: the rest of \<open>kernel/thread.cpp\<close>, and the parts of
  \<open>kernel/kernel.cpp\<close> it calls. One \<open>ThreadManager\<close> and one CPU for each core; the floating-point
  registers of a context are left out, its status word is kept.\<close>

section \<open>Cores and processes\<close>

definition upd_cpu :: "nat \<Rightarrow> (cpu \<Rightarrow> cpu) \<Rightarrow> ('s, 'g, 'e) kernel \<Rightarrow> ('s, 'g, 'e) kernel" where
  "upd_cpu c f k = k\<lparr>cpus := (cpus k)[c := f (cpus k ! c)]\<rparr>"

definition SetCurrentMemoryPageTable ::
  "nat \<Rightarrow> ('s, 'g, 'e) kernel \<Rightarrow> ('s, 'g, 'e) kernel" where
  "SetCurrentMemoryPageTable p k =
     upd_cpu (current_cpu k) (\<lambda>c. c\<lparr>cpu_pages := Some p\<rparr>) (k\<lparr>memory_pages := Some p\<rparr>)"

definition SetCurrentProcess :: "nat \<Rightarrow> ('s, 'g, 'e) kernel \<Rightarrow> ('s, 'g, 'e) kernel" where
  "SetCurrentProcess p k = SetCurrentMemoryPageTable p (k\<lparr>current_process := Some p\<rparr>)"

definition SetCurrentProcessForCPU ::
  "nat \<Rightarrow> nat \<Rightarrow> ('s, 'g, 'e) kernel \<Rightarrow> ('s, 'g, 'e) kernel" where
  "SetCurrentProcessForCPU p core k =
     (if current_cpu k = core then SetCurrentMemoryPageTable p (k\<lparr>current_process := Some p\<rparr>)
      else upd_cpu core (\<lambda>c. c\<lparr>cpu_pages := Some p\<rparr>)
        (k\<lparr>stored_processes := (stored_processes k)[core := Some p]\<rparr>))"

definition SetRunningCPU :: "nat \<Rightarrow> ('s, 'g, 'e) kernel \<Rightarrow> ('s, 'g, 'e) kernel run" where
  "SetRunningCPU c k = do {
     let k = (case current_process k of None \<Rightarrow> k
       | Some p \<Rightarrow> k\<lparr>stored_processes := (stored_processes k)[current_cpu k := Some p]\<rparr>);
     tm \<leftarrow> SetCurrentTimer c (timing_of k);
     let k = k\<lparr>current_cpu := c, timing_of := tm\<rparr>;
     Some (case stored_processes k ! c of None \<Rightarrow> k | Some p \<Rightarrow> SetCurrentProcess p k)}"

definition NewThreadId :: "('s, 'g, 'e) kernel \<Rightarrow> u32 \<times> ('s, 'g, 'e) kernel" where
  "NewThreadId k = (next_thread_id k, k\<lparr>next_thread_id := next_thread_id k + 1\<rparr>)"

text \<open>\<open>lock\<close> of the weak pointer to the owner.\<close>

definition owner_lock :: "('s, 'g, 'e) kernel \<Rightarrow> thread \<Rightarrow> nat option" where
  "owner_lock k th = (case owner_process th of None \<Rightarrow> None
     | Some p \<Rightarrow> if processes k p = None then None else Some p)"

section \<open>Stopping a thread\<close>

definition release_slot :: "thread \<Rightarrow> ('s, 'g, 'e) kernel \<Rightarrow> ('s, 'g, 'e) kernel run" where
  "release_slot th k =
     (let tls_page = unat ((th_tls_address th - TLS_AREA_VADDR) div CITRA_PAGE_SIZE);
          tls_slot = unat (((th_tls_address th - TLS_AREA_VADDR) mod CITRA_PAGE_SIZE) div TLS_ENTRY_SIZE)
      in case owner_lock k th of
           None \<Rightarrow> Some k
         | Some i \<Rightarrow> do {
             p \<leftarrow> processes k i;
             ASSERT (tls_page < length (tls_slots p));
             let p = p\<lparr>tls_slots := (tls_slots p)[tls_page := (tls_slots p ! tls_page)[tls_slot := False]]\<rparr>;
             (ok, m) \<leftarrow> limit_op ResourceLimit_Release RL_Thread 1 p (kernel_memory k);
             Some (k\<lparr>processes := (processes k)(i \<mapsto> p), kernel_memory := m\<rparr>)})"

definition Thread_Stop ::
  "('s, 'g, 'e) kenv \<Rightarrow> nat \<Rightarrow> ('s, 'g, 'e) kernel \<Rightarrow> ('s, 'g, 'e) kernel run" where
  "Thread_Stop env t k = do {
     th \<leftarrow> threads k t;
     let k = k\<lparr>timing_of := UnscheduleEvent (wakeup_event (core_id th)) (ucast (thread_id th)) (timing_of k)\<rparr>;
     let k = upd_manager (core_id th)
       (\<lambda>m. m\<lparr>wakeup_callback_table := (wakeup_callback_table m)(ucast (thread_id th) := None)\<rparr>) k;
     let k = (if status th = Ready then upd_ready (core_id th) (tql_remove (current_priority th) t) k else k);
     let k = upd_thread t (\<lambda>th. th\<lparr>status := Dead\<rparr>) k;
     k \<leftarrow> WakeupAllWaitingThreads env (RThread t) k;
     k \<leftarrow> leave_waits t k;
     k \<leftarrow> ReleaseThreadMutexes env t k;
     th \<leftarrow> threads k t;
     release_slot th k}"

section \<open>Choosing the next thread\<close>

partial_function (option) pop_better_loop ::
  "nat \<Rightarrow> nat \<Rightarrow> nat \<Rightarrow> ('s, 'g, 'e) kernel \<Rightarrow> (nat option \<times> ('s, 'g, 'e) kernel) run" where
  "pop_better_loop core cur priority k =
     Option.bind (tql_pop_first_better priority (ready_queue (managers k ! core))) (\<lambda>popped.
       case fst popped of
         None \<Rightarrow> Some (Some cur, k)
       | Some t \<Rightarrow>
           Option.bind (threads k t) (\<lambda>th.
             if can_schedule th then Some (Some t, upd_ready core (\<lambda>_. snd popped) k)
             else pop_better_loop core cur priority
               (upd_manager core (\<lambda>m. m\<lparr>ready_queue := snd popped,
                  unscheduled_ready_queue := unscheduled_ready_queue m @ [t]\<rparr>) k)))"

partial_function (option) pop_any_loop ::
  "nat \<Rightarrow> ('s, 'g, 'e) kernel \<Rightarrow> (nat option \<times> ('s, 'g, 'e) kernel) run" where
  "pop_any_loop core k =
     Option.bind (tql_pop_first (ready_queue (managers k ! core))) (\<lambda>popped.
       case fst popped of
         None \<Rightarrow> Some (None, k)
       | Some t \<Rightarrow>
           Option.bind (threads k t) (\<lambda>th.
             if can_schedule th then Some (Some t, upd_ready core (\<lambda>_. snd popped) k)
             else pop_any_loop core
               (upd_manager core (\<lambda>m. m\<lparr>ready_queue := snd popped,
                  unscheduled_ready_queue := unscheduled_ready_queue m @ [t]\<rparr>) k)))"

text \<open>The threads that may not run go back, last first.\<close>

fun put_back :: "nat \<Rightarrow> nat list \<Rightarrow> ('s, 'g, 'e) kernel \<Rightarrow> ('s, 'g, 'e) kernel run" where
  "put_back core [] k = Some k"
| "put_back core (t # ts) k = do {
     th \<leftarrow> threads k t;
     put_back core ts (upd_ready core (tql_push_back (current_priority th) t) k)}"

definition PopNextReadyThread ::
  "nat \<Rightarrow> ('s, 'g, 'e) kernel \<Rightarrow> (nat option \<times> ('s, 'g, 'e) kernel) run" where
  "PopNextReadyThread core k = do {
     cur \<leftarrow> (case current_thread (managers k ! core) of None \<Rightarrow> Some None
       | Some t \<Rightarrow> map_option (\<lambda>th. if status th = Running then Some (t, current_priority th) else None)
           (threads k t));
     (next, k) \<leftarrow> (case cur of
         Some (t, priority) \<Rightarrow> pop_better_loop core t priority k
       | None \<Rightarrow> pop_any_loop core k);
     k \<leftarrow> put_back core (rev (unscheduled_ready_queue (managers k ! core))) k;
     Some (next, upd_manager core (\<lambda>m. m\<lparr>unscheduled_ready_queue := []\<rparr>) k)}"

section \<open>Switching\<close>

definition save_previous ::
  "nat \<Rightarrow> ('s, 'g, 'e) kernel \<Rightarrow> (nat option \<times> ('s, 'g, 'e) kernel) run" where
  "save_previous core k =
     (case current_thread (managers k ! core) of
        None \<Rightarrow> Some (None, k)
      | Some t \<Rightarrow> do {
          th \<leftarrow> threads k t;
          ticks \<leftarrow> Timer_GetTicks (timers (timing_of k) ! core);
          let k = upd_thread t (\<lambda>th. th\<lparr>last_running_ticks := ticks,
            th_context := cpu_context (cpus k ! core)\<rparr>) k;
          Some (owner_lock k th,
            if status th = Running
            then upd_thread t (\<lambda>th. th\<lparr>status := Ready\<rparr>)
              (upd_ready core (tql_push_front (current_priority th) t) k)
            else k)})"

definition load_next ::
  "nat \<Rightarrow> nat option \<Rightarrow> nat \<Rightarrow> ('s, 'g, 'e) kernel \<Rightarrow> ('s, 'g, 'e) kernel run" where
  "load_next core previous_process t k = do {
     th \<leftarrow> threads k t;
     ASSERT (status th = Ready);
     let k = k\<lparr>timing_of := UnscheduleEvent (wakeup_event core) (ucast (thread_id th)) (timing_of k)\<rparr>;
     let k = upd_manager core (\<lambda>m. m\<lparr>current_thread := Some t\<rparr>) k;
     let k = upd_ready core (tql_remove (current_priority th) t) k;
     let k = upd_thread t (\<lambda>th. th\<lparr>status := Running\<rparr>) k;
     p \<leftarrow> owner_lock k th;
     let k = (if previous_process \<noteq> Some p then SetCurrentProcessForCPU p core k else k);
     Some (upd_cpu core (\<lambda>c. c\<lparr>cpu_context := th_context th, cp15_uro := th_tls_address th\<rparr>) k)}"

definition SwitchContext ::
  "nat \<Rightarrow> nat option \<Rightarrow> ('s, 'g, 'e) kernel \<Rightarrow> ('s, 'g, 'e) kernel run" where
  "SwitchContext core new_thread k = do {
     (previous_process, k) \<leftarrow> save_previous core k;
     case new_thread of
       Some t \<Rightarrow> load_next core previous_process t k
     | None \<Rightarrow> Some (upd_manager core (\<lambda>m. m\<lparr>current_thread := None\<rparr>) k)}"

definition HaveReadyThreads :: "nat \<Rightarrow> ('s, 'g, 'e) kernel \<Rightarrow> bool run" where
  "HaveReadyThreads core k = map_option (\<lambda>t. t \<noteq> None) (tql_get_first (ready_queue (managers k ! core)))"

definition Reschedule :: "nat \<Rightarrow> ('s, 'g, 'e) kernel \<Rightarrow> ('s, 'g, 'e) kernel run" where
  "Reschedule core k = do {
     let cur = current_thread (managers k ! core);
     (next, k) \<leftarrow> PopNextReadyThread core k;
     if cur = None \<and> next = None then Some k else SwitchContext core next k}"

section \<open>Ending threads\<close>

definition WaitCurrentThread_Sleep :: "nat \<Rightarrow> ('s, 'g, 'e) kernel \<Rightarrow> ('s, 'g, 'e) kernel run" where
  "WaitCurrentThread_Sleep core k = do {
     t \<leftarrow> current_thread (managers k ! core);
     Some (upd_thread t (\<lambda>th. th\<lparr>status := WaitSleep\<rparr>) k)}"

definition ExitCurrentThread ::
  "('s, 'g, 'e) kenv \<Rightarrow> nat \<Rightarrow> ('s, 'g, 'e) kernel \<Rightarrow> ('s, 'g, 'e) kernel run" where
  "ExitCurrentThread env core k = do {
     t \<leftarrow> current_thread (managers k ! core);
     k \<leftarrow> Thread_Stop env t k;
     let k = upd_manager core (\<lambda>m. m\<lparr>thread_list := removeAll t (thread_list m)\<rparr>) k;
     Some (PrepareReschedule k)}"

fun stop_threads ::
  "('s, 'g, 'e) kenv \<Rightarrow> nat \<Rightarrow> nat \<Rightarrow> nat list \<Rightarrow> ('s, 'g, 'e) kernel \<Rightarrow> ('s, 'g, 'e) kernel run" where
  "stop_threads env core process [] k = Some k"
| "stop_threads env core process (t # ts) k = do {
     th \<leftarrow> threads k t;
     k \<leftarrow> (if current_thread (managers k ! core) = Some t \<or> owner_lock k th \<noteq> Some process then Some k
       else do {
         k \<leftarrow> Thread_Stop env t k;
         Some (upd_manager core (\<lambda>m. m\<lparr>thread_list := remove1 t (thread_list m)\<rparr>) k)});
     stop_threads env core process ts k}"

definition TerminateProcessThreads ::
  "('s, 'g, 'e) kenv \<Rightarrow> nat \<Rightarrow> nat \<Rightarrow> ('s, 'g, 'e) kernel \<Rightarrow> ('s, 'g, 'e) kernel run" where
  "TerminateProcessThreads env core process k = do {
     k \<leftarrow> stop_threads env core process (thread_list (managers k ! core)) k;
     case current_thread (managers k ! core) of
       None \<Rightarrow> Some k
     | Some t \<Rightarrow> do {
         th \<leftarrow> threads k t;
         if owner_lock k th = Some process then ExitCurrentThread env core k else Some k}}"

fun terminate_on_cores ::
  "('s, 'g, 'e) kenv \<Rightarrow> nat \<Rightarrow> nat list \<Rightarrow> ('s, 'g, 'e) kernel \<Rightarrow> ('s, 'g, 'e) kernel run" where
  "terminate_on_cores env process [] k = Some k"
| "terminate_on_cores env process (c # cs) k = do {
     k \<leftarrow> TerminateProcessThreads env c process k;
     terminate_on_cores env process cs k}"

text \<open>\<open>TerminateProcess\<close> up to the plugin loader and the destruction of the process.\<close>

definition TerminateProcess ::
  "('s, 'g, 'e) kenv \<Rightarrow> nat \<Rightarrow> ('s, 'g, 'e) kernel \<Rightarrow> ('s, 'g, 'e) kernel run" where
  "TerminateProcess env process k = do {
     p \<leftarrow> processes k process;
     ASSERT (process_status p = ProcessRunning);
     let k = k\<lparr>processes := (processes k)(process \<mapsto> p\<lparr>process_status := ProcessExited\<rparr>)\<rparr>;
     k \<leftarrow> terminate_on_cores env process [0..<length (managers k)] k;
     Some (k\<lparr>process_list := filter (\<lambda>i. i \<noteq> process) (process_list k)\<rparr>)}"

section \<open>Timeouts\<close>

definition ThreadWakeupCallback ::
  "('s, 'g, 'e) kenv \<Rightarrow> nat \<Rightarrow> u64 \<Rightarrow> ('s, 'g, 'e) kernel \<Rightarrow> ('s, 'g, 'e) kernel run" where
  "ThreadWakeupCallback env core id' k = do {
     t \<leftarrow> wakeup_callback_table (managers k ! core) id';
     th \<leftarrow> threads k t;
     k \<leftarrow> (if status th \<in> {WaitSynchAny, WaitSynchAll, WaitArb, WaitHleEvent}
       then do { k \<leftarrow> call_back env Timeout t None k; leave_waits t k }
       else Some k);
     ResumeFromWait t k}"

section \<open>Creating threads\<close>

definition ResetThreadContext :: "u32 \<Rightarrow> u32 \<Rightarrow> u32 \<Rightarrow> thread_context \<Rightarrow> thread_context" where
  "ResetThreadContext stack entry arg c =
     c\<lparr>cpu_registers := (cpu_registers c)[0 := arg, 15 := entry, 13 := stack],
       cpsr := 16 OR push_bit 5 (entry AND 1)\<rparr>"

definition initial_context :: thread_context where
  "initial_context = \<lparr>cpu_registers = replicate 16 0, cpsr = 0, fpscr = 0\<rparr>"

definition new_thread ::
  "u32 \<Rightarrow> u32 \<Rightarrow> nat \<Rightarrow> u32 \<Rightarrow> int \<Rightarrow> nat \<Rightarrow> nat \<Rightarrow> thread" where
  "new_thread tid entry priority stack ticks core process =
     \<lparr>th_context = initial_context, thread_id = tid, can_schedule = True, status = Dormant,
      entry_point = entry, stack_top = stack, nominal_priority = priority, current_priority = priority,
      last_running_ticks = ticks, processor_id = int core, th_tls_address = 0, held_mutexes = [],
      pending_mutexes = [], owner_process = Some process, wait_objects = [], wait_address = 0,
      wakeup_callback = None, core_id = core\<rparr>"

definition CreateThread ::
  "'s icl \<Rightarrow> 'g mem_env \<Rightarrow> nat \<Rightarrow> u32 \<Rightarrow> nat \<Rightarrow> u32 \<Rightarrow> int \<Rightarrow> u32 \<Rightarrow> nat \<Rightarrow> bool \<Rightarrow>
   ('s, 'g, 'e) kernel \<Rightarrow> ((result + nat) \<times> ('s, 'g, 'e) kernel) run" where
  "CreateThread ops menv t entry priority arg processor stack process make_ready k = do {
     p \<leftarrow> processes k process;
     if priority > ThreadPrioLowest then Some (Inl ResultOutOfRange, k)
     else if processor > 4 then Some (Inl ResultOutOfRangeKernel, k)
     else if \<not> IsValidVirtualAddress (vm_page_table (vm_of p)) entry
     then Some (Inl (Result_make Desc_InvalidAddress Mod_Kernel Sum_InvalidArgument Lvl_Permanent), k)
     else do {
       ASSERT (0 \<le> processor \<and> nat processor < length (managers k));
       let core = nat processor;
       let k = upd_manager core (\<lambda>m. m\<lparr>thread_list := thread_list m @ [t],
         ready_queue := tql_prepare priority (ready_queue m)\<rparr>) k;
       let (tid, k) = NewThreadId k;
       ticks \<leftarrow> Timer_GetTicks (timers (timing_of k) ! core);
       let k = upd_manager core
         (\<lambda>m. m\<lparr>wakeup_callback_table := (wakeup_callback_table m)(ucast tid \<mapsto> t)\<rparr>) k;
       let k = k\<lparr>threads := (threads k)(t \<mapsto> new_thread tid entry priority stack ticks core process)\<rparr>;
       (res, p, m) \<leftarrow> AllocateThreadLocalStorage ops menv (p, kernel_memory k);
       let k = k\<lparr>processes := (processes k)(process \<mapsto> p), kernel_memory := m\<rparr>;
       case res of
         Inl e \<Rightarrow> Some (Inl e, k)
       | Inr tls \<Rightarrow> do {
           let k = upd_thread t (\<lambda>th. th\<lparr>th_tls_address := tls,
             th_context := ResetThreadContext stack entry arg (th_context th)\<rparr>) k;
           Some (Inr t,
             if make_ready
             then upd_thread t (\<lambda>th. th\<lparr>status := Ready\<rparr>)
               (upd_ready core (tql_push_back priority t) k)
             else k)}}}"

text \<open>The main thread of a process. Its start is delayed when it is not a system module's, the kernel's
  flag asks for it and the setting \<open>delay_start\<close> allows it; the flag, an argument, is cleared. A
  failure of \<open>CreateThread\<close> is fatal.\<close>

definition main_thread_sleep :: "u64 \<Rightarrow> bool \<Rightarrow> bool \<Rightarrow> int \<times> bool" where
  "main_thread_sleep pid delay_start flag =
     (let is_lle_service = (ucast (drop_bit 32 pid) = (0x00040130 :: u32))
      in if \<not> is_lle_service \<and> flag then (if delay_start then 2600000000 else 0, False)
         else (0, flag))"

definition SetupMainThread ::
  "'s icl \<Rightarrow> 'g mem_env \<Rightarrow> u64 \<Rightarrow> bool \<Rightarrow> nat \<Rightarrow> u32 \<Rightarrow> nat \<Rightarrow> nat \<Rightarrow> bool \<times> ('s, 'g, 'e) kernel \<Rightarrow>
   (bool \<times> ('s, 'g, 'e) kernel) run" where
  "SetupMainThread ops menv pid delay_start t entry priority process fk = do {
     let (flag, k) = fk;
     let (sleep_time_ns, flag) = main_thread_sleep pid delay_start flag;
     p \<leftarrow> processes k process;
     (res, k) \<leftarrow> CreateThread ops menv t entry priority 0 (int (ideal_processor p)) HEAP_VADDR_END
       process (sleep_time_ns = 0) k;
     case res of
       Inl e \<Rightarrow> None
     | Inr t \<Rightarrow> do {
         let k = upd_thread t (\<lambda>th. th\<lparr>th_context := (th_context th)\<lparr>fpscr := 0x03C00010\<rparr>\<rparr>) k;
         k \<leftarrow> (if sleep_time_ns \<noteq> 0
           then WakeAfterDelay t sleep_time_ns False (upd_thread t (\<lambda>th. th\<lparr>status := WaitSleep\<rparr>) k)
           else Some k);
         Some (flag, k)}}"

end
