(* ===== verification/AddressArbiter.thy ===== *)
theory AddressArbiter
  imports Scheduler
begin

text \<open>Waiting on an address: \<open>AddressArbiter\<close> (\<open>kernel/address_arbiter.cpp\<close>). Memory is read and
  written through the page table of the process that \<open>memory_pages\<close> names; \<open>scaled\<close> is the product
  with the clock scale, as in the core timing.\<close>

datatype ArbitrationType = ArbSignal | WaitIfLessThan | DecrementAndWaitIfLessThan
  | WaitIfLessThanWithTimeout | DecrementAndWaitIfLessThanWithTimeout

definition arbitration_type :: "u32 \<Rightarrow> ArbitrationType option" where
  "arbitration_type n = (if n = 0 then Some ArbSignal else if n = 1 then Some WaitIfLessThan
     else if n = 2 then Some DecrementAndWaitIfLessThan else if n = 3 then Some WaitIfLessThanWithTimeout
     else if n = 4 then Some DecrementAndWaitIfLessThanWithTimeout else None)"

definition set_arbiter :: "nat \<Rightarrow> nat list \<Rightarrow> ('s, 'g, 'e) kernel \<Rightarrow> ('s, 'g, 'e) kernel" where
  "set_arbiter a ts k = k\<lparr>arbiter_threads := (arbiter_threads k)(a := ts)\<rparr>"

definition WaitThread :: "nat \<Rightarrow> nat \<Rightarrow> u32 \<Rightarrow> ('s, 'g, 'e) kernel \<Rightarrow> ('s, 'g, 'e) kernel" where
  "WaitThread a t address k =
     set_arbiter a (arbiter_threads k a @ [t])
       (upd_thread t (\<lambda>th. th\<lparr>wait_address := address, status := WaitArb\<rparr>) k)"

text \<open>The threads of the list that wait on another address and those that wait on this one.\<close>

fun split_waiters ::
  "('s, 'g, 'e) kernel \<Rightarrow> u32 \<Rightarrow> nat list \<Rightarrow> (nat list \<times> nat list) run" where
  "split_waiters k address [] = Some ([], [])"
| "split_waiters k address (t # ts) = do {
     th \<leftarrow> threads k t;
     ASSERT (status th = WaitArb);
     (others, matches) \<leftarrow> split_waiters k address ts;
     Some (if wait_address th \<noteq> address then (t # others, matches) else (others, t # matches))}"

fun resume_threads :: "nat list \<Rightarrow> ('s, 'g, 'e) kernel \<Rightarrow> ('s, 'g, 'e) kernel run" where
  "resume_threads [] k = Some k"
| "resume_threads (t # ts) k = do { k \<leftarrow> ResumeFromWait t k; resume_threads ts k }"

definition ResumeAllThreads ::
  "nat \<Rightarrow> u32 \<Rightarrow> ('s, 'g, 'e) kernel \<Rightarrow> (nat \<times> ('s, 'g, 'e) kernel) run" where
  "ResumeAllThreads a address k = do {
     (others, matches) \<leftarrow> split_waiters k address (arbiter_threads k a);
     k \<leftarrow> resume_threads matches k;
     Some (length matches, set_arbiter a others k)}"

text \<open>\<open>min_element\<close>: the first of the threads with the best priority.\<close>

fun min_waiter :: "('s, 'g, 'e) kernel \<Rightarrow> nat list \<Rightarrow> nat option" where
  "min_waiter k [] = None"
| "min_waiter k (t # ts) =
     (case min_waiter k ts of
        None \<Rightarrow> Some t
      | Some u \<Rightarrow> if current_priority (the (threads k u)) < current_priority (the (threads k t))
                  then Some u else Some t)"

definition ResumeHighestPriorityThread ::
  "nat \<Rightarrow> u32 \<Rightarrow> ('s, 'g, 'e) kernel \<Rightarrow> (bool \<times> ('s, 'g, 'e) kernel) run" where
  "ResumeHighestPriorityThread a address k = do {
     (others, matches) \<leftarrow> split_waiters k address (arbiter_threads k a);
     let k = set_arbiter a (others @ matches) k;
     case min_waiter k matches of
       None \<Rightarrow> Some (False, k)
     | Some t \<Rightarrow> do {
         k \<leftarrow> ResumeFromWait t k;
         Some (True, set_arbiter a (others @ remove1 t matches) k)}}"

text \<open>The loop \<open>for (i = 0; i < value; i++)\<close>.\<close>

fun resume_first ::
  "nat \<Rightarrow> nat \<Rightarrow> u32 \<Rightarrow> nat \<Rightarrow> ('s, 'g, 'e) kernel \<Rightarrow> (nat \<times> ('s, 'g, 'e) kernel) run" where
  "resume_first 0 a address n k = Some (n, k)"
| "resume_first (Suc i) a address n k = do {
     (ok, k) \<leftarrow> ResumeHighestPriorityThread a address k;
     resume_first i a address (if ok then n + 1 else n) k}"

definition CreateAddressArbiter :: "nat \<Rightarrow> ('s, 'g, 'e) kernel \<Rightarrow> ('s, 'g, 'e) kernel" where
  "CreateAddressArbiter a k = set_arbiter a [] k"

section \<open>Memory of the running process\<close>

definition current_pages :: "('s, 'g, 'e) kernel \<Rightarrow> page_table run" where
  "current_pages k = do {
     i \<leftarrow> memory_pages k;
     p \<leftarrow> processes k i;
     Some (vm_page_table (vm_of p))}"

definition Read32 :: "'g mem_env \<Rightarrow> u32 \<Rightarrow> ('s, 'g, 'e) kernel \<Rightarrow> (u32 \<times> ('s, 'g, 'e) kernel) run" where
  "Read32 menv address k = do {
     pt \<leftarrow> current_pages k;
     (v, m) \<leftarrow> MemorySystem_Read menv pt 4 address (km_machine (kernel_memory k));
     Some (of_nat v, k\<lparr>kernel_memory := (kernel_memory k)\<lparr>km_machine := m\<rparr>\<rparr>)}"

definition Write32 ::
  "'g mem_env \<Rightarrow> u32 \<Rightarrow> u32 \<Rightarrow> ('s, 'g, 'e) kernel \<Rightarrow> ('s, 'g, 'e) kernel run" where
  "Write32 menv address v k = do {
     pt \<leftarrow> current_pages k;
     m \<leftarrow> MemorySystem_Write menv pt 4 address (unat v) (km_machine (kernel_memory k));
     Some (k\<lparr>kernel_memory := (kernel_memory k)\<lparr>km_machine := m\<rparr>\<rparr>)}"

section \<open>Arbitration\<close>

definition wait_with_timeout ::
  "nat \<Rightarrow> nat \<Rightarrow> u32 \<Rightarrow> int \<Rightarrow> ('s, 'g, 'e) kernel \<Rightarrow> ('s, 'g, 'e) kernel run" where
  "wait_with_timeout a t address nanoseconds k = do {
     let k = upd_thread t (\<lambda>th. th\<lparr>wakeup_callback := Some (ArbiterCallback a)\<rparr>) k;
     k \<leftarrow> WakeAfterDelay t nanoseconds False k;
     Some (WaitThread a t address k)}"

definition arbitrate_signal ::
  "(u32 \<Rightarrow> u64 \<Rightarrow> u64) \<Rightarrow> nat \<Rightarrow> nat \<Rightarrow> u32 \<Rightarrow> s32 \<Rightarrow> ('s, 'g, 'e) kernel \<Rightarrow> ('s, 'g, 'e) kernel run" where
  "arbitrate_signal scaled a t address value k = do {
     (num_threads, k) \<leftarrow> (if sint value < 0 then ResumeAllThreads a address k
       else resume_first (nat (sint value)) a address 0 k);
     th \<leftarrow> threads k t;
     Some (if num_threads = 0 \<and> current_priority th \<ge> 49
       then k\<lparr>timing_of := upd_timer (current_cpu k) (AddTicks scaled 1614) (timing_of k)\<rparr> else k)}"

definition ArbitrateAddress ::
  "'g mem_env \<Rightarrow> (u32 \<Rightarrow> u64 \<Rightarrow> u64) \<Rightarrow> nat \<Rightarrow> nat \<Rightarrow> u32 \<Rightarrow> u32 \<Rightarrow> s32 \<Rightarrow> int \<Rightarrow>
   ('s, 'g, 'e) kernel \<Rightarrow> (result \<times> ('s, 'g, 'e) kernel) run" where
  "ArbitrateAddress menv scaled a t type address value nanoseconds k =
     (case arbitration_type type of
        None \<Rightarrow> Some (ResultInvalidEnumValueFnd, k)
      | Some ArbSignal \<Rightarrow> map_option (Pair ResultSuccess) (arbitrate_signal scaled a t address value k)
      | Some WaitIfLessThan \<Rightarrow> do {
          (v, k) \<leftarrow> Read32 menv address k;
          Some (ResultSuccess, if sint v < sint value then WaitThread a t address k else k)}
      | Some WaitIfLessThanWithTimeout \<Rightarrow> do {
          (v, k) \<leftarrow> Read32 menv address k;
          k \<leftarrow> (if sint v < sint value then wait_with_timeout a t address nanoseconds k else Some k);
          Some (ResultTimeout, k)}
      | Some DecrementAndWaitIfLessThan \<Rightarrow> do {
          (v, k) \<leftarrow> Read32 menv address k;
          k \<leftarrow> (if sint v < sint value
            then do {
              d \<leftarrow> s32_sub v 1;
              k \<leftarrow> Write32 menv address d k;
              Some (WaitThread a t address k)}
            else Some k);
          Some (ResultSuccess, k)}
      | Some DecrementAndWaitIfLessThanWithTimeout \<Rightarrow> do {
          (v, k) \<leftarrow> Read32 menv address k;
          k \<leftarrow> (if sint v < sint value
            then do {
              d \<leftarrow> s32_sub v 1;
              k \<leftarrow> Write32 menv address d k;
              wait_with_timeout a t address nanoseconds k}
            else Some k);
          Some (ResultTimeout, k)})"

end
