(* ===== verification/HandleTable.thy ===== *)
theory HandleTable
  imports KernelInterfaces ResultCode
begin

text \<open>
  \<open>Kernel::HandleTable\<close> (\<open>core/hle/kernel/handle_table.h\<close>, \<open>.cpp\<close>): the per-process table
  from handles to kernel objects. A handle holds a slot index and a 15-bit generation; the
  generations of free slots form a linked list. The arrays are functions read below
  \<open>MAX_COUNT\<close>; objects are an arbitrary type (the code holds shared pointers).
\<close>

section \<open>Data\<close>

abbreviation "CurrentThread \<equiv> (0xFFFF8000 :: u32)"
abbreviation "CurrentProcess \<equiv> (0xFFFF8001 :: u32)"

definition MAX_COUNT :: nat where "MAX_COUNT = 4096"

record 'o handle_table =
  objects :: "nat \<Rightarrow> 'o option"
  generations :: "nat \<Rightarrow> u16"
  next_generation :: u16
  next_free_slot :: u16

definition GetSlot :: "u32 \<Rightarrow> u16" where
  "GetSlot handle = ucast (drop_bit 15 handle)"

definition GetGeneration :: "u32 \<Rightarrow> u16" where
  "GetGeneration handle = ucast (handle AND 0x7FFF)"

section \<open>Operations\<close>

definition HandleTable_Clear :: "'o handle_table \<Rightarrow> 'o handle_table" where
  "HandleTable_Clear t =
     t\<lparr>generations := (\<lambda>i. if i < MAX_COUNT then of_nat i + 1 else generations t i),
       objects := (\<lambda>i. if i < MAX_COUNT then None else objects t i),
       next_free_slot := 0\<rparr>"

definition HandleTable_new :: "'o handle_table" where
  "HandleTable_new = HandleTable_Clear
     \<lparr>objects = (\<lambda>_. None), generations = (\<lambda>_. 0), next_generation = 1, next_free_slot = 0\<rparr>"

definition HandleTable_Create ::
  "'o handle_table \<Rightarrow> 'o \<Rightarrow> result + (u32 \<times> 'o handle_table)" where
  "HandleTable_Create t obj =
     (let slot = next_free_slot t
      in if \<not> unat slot < MAX_COUNT then Inl ResultOutOfHandles
         else
           (let generation = next_generation t;
                next_gen = next_generation t + 1;
                next_gen = (if next_gen \<ge> 0x8000 then 1 else next_gen)
            in Inr (ucast generation OR push_bit 15 (ucast slot),
                 t\<lparr>next_free_slot := generations t (unat slot),
                   next_generation := next_gen,
                   generations := (generations t)(unat slot := generation),
                   objects := (objects t)(unat slot := Some obj)\<rparr>)))"

definition HandleTable_IsValid :: "'o handle_table \<Rightarrow> u32 \<Rightarrow> bool" where
  "HandleTable_IsValid t handle \<longleftrightarrow>
     unat (GetSlot handle) < MAX_COUNT \<and> objects t (unat (GetSlot handle)) \<noteq> None \<and>
     generations t (unat (GetSlot handle)) = GetGeneration handle"

text \<open>The current thread and process of the kernel are arguments.\<close>

definition HandleTable_GetGeneric ::
  "'o option \<Rightarrow> 'o option \<Rightarrow> 'o handle_table \<Rightarrow> u32 \<Rightarrow> 'o option" where
  "HandleTable_GetGeneric current_thread current_process t handle =
     (if handle = CurrentThread then current_thread
      else if handle = CurrentProcess then current_process
      else if \<not> HandleTable_IsValid t handle then None
      else objects t (unat (GetSlot handle)))"

definition HandleTable_Duplicate ::
  "'o option \<Rightarrow> 'o option \<Rightarrow> 'o handle_table \<Rightarrow> u32 \<Rightarrow> result + (u32 \<times> 'o handle_table)" where
  "HandleTable_Duplicate current_thread current_process t handle =
     (case HandleTable_GetGeneric current_thread current_process t handle of
        None \<Rightarrow> Inl ResultInvalidHandle
      | Some obj \<Rightarrow> HandleTable_Create t obj)"

definition HandleTable_Close :: "'o handle_table \<Rightarrow> u32 \<Rightarrow> result + 'o handle_table" where
  "HandleTable_Close t handle =
     (if \<not> HandleTable_IsValid t handle then Inl ResultInvalidHandle
      else
        (let slot = GetSlot handle
         in Inr (t\<lparr>objects := (objects t)(unat slot := None),
                   generations := (generations t)(unat slot := next_free_slot t),
                   next_free_slot := slot\<rparr>)))"

section \<open>Handles as pairs\<close>

lemma bit_GetSlot: "bit (GetSlot h) n \<longleftrightarrow> n < 16 \<and> bit h (15 + n)"
  by (auto simp: GetSlot_def bit_ucast_iff bit_drop_bit_eq)

lemma mask15: "(0x7FFF :: u32) = mask 15"
  by (simp add: mask_eq_exp_minus_1)

lemma bit_GetGeneration: "bit (GetGeneration h) n \<longleftrightarrow> n < 15 \<and> bit h n"
  unfolding GetGeneration_def mask15
  by (auto simp: bit_ucast_iff bit_and_iff bit_mask_iff)

definition canonical :: "u32 \<Rightarrow> bool" where
  "canonical h \<longleftrightarrow> \<not> bit h 31"

lemma handle_ext:
  assumes "canonical h" "canonical h'" "GetSlot h = GetSlot h'" "GetGeneration h = GetGeneration h'"
  shows "h = h'"
proof (rule bit_word_eqI)
  fix n assume "n < LENGTH(32)"
  then have n: "n < 32" by simp
  from assms(3) have s: "n < 16 \<Longrightarrow> bit h (15 + n) = bit h' (15 + n)" for n
    by (metis bit_GetSlot)
  from assms(4) have g: "n < 15 \<Longrightarrow> bit h n = bit h' n" for n
    by (metis bit_GetGeneration)
  consider "n < 15" | "15 \<le> n" "n < 31" | "n = 31" using n by linarith
  then show "bit h n = bit h' n"
  proof cases
    case 2
    then show ?thesis using s [of "n - 15"] by simp
  qed (use g assms(1,2) in \<open>auto simp: canonical_def\<close>)
qed

lemma not_bit_of_small:
  assumes "unat (w :: 'a::len word) < 2 ^ k" and "k \<le> n"
  shows "\<not> bit w n"
proof -
  have "unat w < 2 ^ n"
    using assms by (meson less_le_trans power_increasing one_le_numeral)
  then have "\<not> bit (unat w) n"
    by (simp add: bit_iff_odd)
  then show ?thesis
    by (simp add: bit_unsigned_iff)
qed

lemma made_handle:
  assumes "unat s < MAX_COUNT" and "unat g < 2 ^ 15"
    and h_def: "h = (ucast (g :: u16) :: u32) OR push_bit 15 (ucast (s :: u16))"
  shows "GetSlot h = s" and "GetGeneration h = g" and "canonical h"
proof -
  have g: "15 \<le> n \<Longrightarrow> \<not> bit g n" for n
    using not_bit_of_small [OF assms(2)] by simp
  have s: "12 \<le> n \<Longrightarrow> \<not> bit s n" for n
    using assms(1) by (intro not_bit_of_small [of s 12]) (simp_all add: MAX_COUNT_def)
  have h: "bit h n \<longleftrightarrow> n < 32 \<and> (bit g n \<or> 15 \<le> n \<and> bit s (n - 15))" for n
    by (auto simp: h_def bit_or_iff bit_ucast_iff bit_push_bit_iff dest: bit_imp_le_length)
  show "GetSlot h = s"
    by (rule bit_eqI) (auto simp: bit_GetSlot h g s dest: bit_imp_le_length)
  show "GetGeneration h = g"
    by (rule bit_eqI) (use g in \<open>auto simp: bit_GetGeneration h intro: ccontr\<close>)
  show "canonical h"
    by (auto simp: canonical_def h g s)
qed

section \<open>The invariant\<close>

text \<open>\<open>free_path g s xs\<close>: from slot \<open>s\<close> the links \<open>g\<close> visit the slots \<open>xs\<close> and leave the table.\<close>

fun free_path :: "(nat \<Rightarrow> u16) \<Rightarrow> nat \<Rightarrow> nat list \<Rightarrow> bool" where
  "free_path g s [] \<longleftrightarrow> MAX_COUNT \<le> s"
| "free_path g s (x # xs) \<longleftrightarrow> s = x \<and> x < MAX_COUNT \<and> free_path g (unat (g x)) xs"

definition empty_slots :: "'o handle_table \<Rightarrow> nat set" where
  "empty_slots t = {i. i < MAX_COUNT \<and> objects t i = None}"

definition generation_ok :: "u16 \<Rightarrow> bool" where
  "generation_ok g \<longleftrightarrow> 1 \<le> unat g \<and> unat g < 2 ^ 15"

definition HandleTable_wf :: "'o handle_table \<Rightarrow> bool" where
  "HandleTable_wf t \<longleftrightarrow>
     (\<exists>xs. free_path (generations t) (unat (next_free_slot t)) xs \<and> distinct xs \<and>
       set xs = empty_slots t) \<and>
     (\<forall>i < MAX_COUNT. objects t i \<noteq> None \<longrightarrow> generation_ok (generations t i)) \<and>
     generation_ok (next_generation t)"

lemma free_path_upd:
  "x \<notin> set xs \<Longrightarrow> free_path (g(x := v)) s xs = free_path g s xs"
  by (induction xs arbitrary: s) auto

lemma free_path_upt:
  assumes "\<And>i. s \<le> i \<Longrightarrow> i < MAX_COUNT \<Longrightarrow> unat (g i) = Suc i" and "s \<le> MAX_COUNT"
  shows "free_path g s [s..<MAX_COUNT]"
  using assms(2,1)
proof (induction rule: inc_induct)
  case (step n)
  then show ?case by (simp add: upt_conv_Cons)
qed simp

lemma finite_empty_slots [simp]: "finite (empty_slots t)"
  by (simp add: empty_slots_def)

lemma wf_Clear:
  assumes "generation_ok (next_generation t)"
  shows "HandleTable_wf (HandleTable_Clear t)"
proof -
  have "unat (of_nat i + 1 :: u16) = Suc i" if "i < MAX_COUNT" for i
  proof -
    have "(of_nat i + 1 :: u16) = of_nat (Suc i)" by simp
    moreover have "unat (of_nat (Suc i) :: u16) = Suc i"
      using that by (simp only: unsigned_of_nat) (simp add: MAX_COUNT_def take_bit_nat_eq_self)
    ultimately show ?thesis by (simp only:)
  qed
  then have "free_path (generations (HandleTable_Clear t)) 0 [0..<MAX_COUNT]"
    by (intro free_path_upt) (auto simp: HandleTable_Clear_def)
  moreover have "set [0..<MAX_COUNT] = empty_slots (HandleTable_Clear t)"
    by (auto simp: empty_slots_def HandleTable_Clear_def)
  moreover have "unat (next_free_slot (HandleTable_Clear t)) = 0"
    by (simp add: HandleTable_Clear_def)
  ultimately have "\<exists>xs. free_path (generations (HandleTable_Clear t))
      (unat (next_free_slot (HandleTable_Clear t))) xs \<and> distinct xs \<and>
      set xs = empty_slots (HandleTable_Clear t)"
    by (metis distinct_upt)
  moreover have "\<forall>i < MAX_COUNT. objects (HandleTable_Clear t) i = None"
    by (simp add: HandleTable_Clear_def)
  moreover have "next_generation (HandleTable_Clear t) = next_generation t"
    by (simp add: HandleTable_Clear_def)
  ultimately show ?thesis
    using assms by (simp add: HandleTable_wf_def)
qed

lemma wf_new: "HandleTable_wf HandleTable_new"
  unfolding HandleTable_new_def by (rule wf_Clear) (simp add: generation_ok_def)

lemma free_slot_iff:
  assumes "HandleTable_wf t"
  shows "unat (next_free_slot t) < MAX_COUNT \<longleftrightarrow> empty_slots t \<noteq> {}"
proof -
  obtain xs where "free_path (generations t) (unat (next_free_slot t)) xs" "set xs = empty_slots t"
    using assms by (auto simp: HandleTable_wf_def)
  then show ?thesis by (cases xs) auto
qed

definition bump_generation :: "u16 \<Rightarrow> u16" where
  "bump_generation g = (if g + 1 \<ge> 0x8000 then 1 else g + 1)"

lemma bump_generation_ok: "generation_ok g \<Longrightarrow> generation_ok (bump_generation g)"
  by (auto simp: generation_ok_def bump_generation_def unat_word_ariths word_le_nat_alt)

text \<open>\<open>Create\<close> on a table with a free slot, and \<open>Close\<close> of a valid handle, written out.\<close>

definition new_handle :: "'o handle_table \<Rightarrow> u32" where
  "new_handle t = ucast (next_generation t) OR push_bit 15 (ucast (next_free_slot t))"

definition with_object :: "'o handle_table \<Rightarrow> 'o \<Rightarrow> 'o handle_table" where
  "with_object t obj = t
     \<lparr>next_free_slot := generations t (unat (next_free_slot t)),
      next_generation := bump_generation (next_generation t),
      generations := (generations t)(unat (next_free_slot t) := next_generation t),
      objects := (objects t)(unat (next_free_slot t) := Some obj)\<rparr>"

lemma Create_alt:
  "HandleTable_Create t obj =
     (if unat (next_free_slot t) < MAX_COUNT then Inr (new_handle t, with_object t obj)
      else Inl ResultOutOfHandles)"
  by (simp add: HandleTable_Create_def new_handle_def with_object_def bump_generation_def Let_def)

lemma wf_with_object:
  assumes wf: "HandleTable_wf t" and free: "unat (next_free_slot t) < MAX_COUNT"
  shows "HandleTable_wf (with_object t obj)"
    and "empty_slots (with_object t obj) = empty_slots t - {unat (next_free_slot t)}"
    and "unat (next_free_slot t) \<in> empty_slots t"
proof -
  let ?s = "unat (next_free_slot t)"
  obtain xs where xs: "free_path (generations t) ?s xs" "distinct xs" "set xs = empty_slots t"
    using wf by (auto simp: HandleTable_wf_def)
  then obtain ys where ys: "xs = ?s # ys" using free by (cases xs) auto
  show e: "empty_slots (with_object t obj) = empty_slots t - {?s}"
    by (auto simp: empty_slots_def with_object_def)
  show "?s \<in> empty_slots t" using xs ys by auto
  from xs ys have "free_path (generations (with_object t obj))
      (unat (next_free_slot (with_object t obj))) ys"
    by (auto simp: with_object_def free_path_upd)
  moreover from xs ys e have "set ys = empty_slots (with_object t obj)" by auto
  ultimately show "HandleTable_wf (with_object t obj)"
    using wf xs ys unfolding HandleTable_wf_def
    by (auto simp: with_object_def bump_generation_ok intro!: exI [of _ ys])
qed

definition without_slot :: "'o handle_table \<Rightarrow> u16 \<Rightarrow> 'o handle_table" where
  "without_slot t slot = t
     \<lparr>objects := (objects t)(unat slot := None),
      generations := (generations t)(unat slot := next_free_slot t),
      next_free_slot := slot\<rparr>"

lemma Close_alt:
  "HandleTable_Close t h =
     (if HandleTable_IsValid t h then Inr (without_slot t (GetSlot h)) else Inl ResultInvalidHandle)"
  by (simp add: HandleTable_Close_def without_slot_def Let_def)

lemma wf_without_slot:
  assumes wf: "HandleTable_wf t" and s: "unat s < MAX_COUNT" and used: "objects t (unat s) \<noteq> None"
  shows "HandleTable_wf (without_slot t s)"
    and "empty_slots (without_slot t s) = insert (unat s) (empty_slots t)"
proof -
  obtain xs where xs: "free_path (generations t) (unat (next_free_slot t)) xs" "distinct xs"
      "set xs = empty_slots t"
    using wf by (auto simp: HandleTable_wf_def)
  show e: "empty_slots (without_slot t s) = insert (unat s) (empty_slots t)"
    using s by (auto simp: empty_slots_def without_slot_def)
  have "unat s \<notin> set xs" using xs used by (simp add: empty_slots_def)
  with xs s have "free_path (generations (without_slot t s))
      (unat (next_free_slot (without_slot t s))) (unat s # xs)" "distinct (unat s # xs)"
    by (auto simp: without_slot_def free_path_upd)
  moreover have "set (unat s # xs) = empty_slots (without_slot t s)" using xs e by auto
  ultimately show "HandleTable_wf (without_slot t s)"
    using wf unfolding HandleTable_wf_def
    by (auto simp: without_slot_def intro!: exI [of _ "unat s # xs"])
qed

lemma new_handle_parts:
  assumes "HandleTable_wf t" and "unat (next_free_slot t) < MAX_COUNT"
  shows "GetSlot (new_handle t) = next_free_slot t"
    and "GetGeneration (new_handle t) = next_generation t"
    and "canonical (new_handle t)"
  using assms made_handle [OF assms(2), of "next_generation t" "new_handle t"]
  by (simp_all add: new_handle_def HandleTable_wf_def generation_ok_def)

section \<open>Lookup\<close>

definition HandleTable_lookup :: "'o handle_table \<Rightarrow> u32 \<Rightarrow> 'o option" where
  "HandleTable_lookup t h = (if HandleTable_IsValid t h then objects t (unat (GetSlot h)) else None)"

definition canon :: "u32 \<Rightarrow> u32" where
  "canon h = h AND 0x7FFFFFFF"

lemma mask31: "(0x7FFFFFFF :: u32) = mask 31"
  by (simp add: mask_eq_exp_minus_1)

lemma canon_parts:
  "GetSlot (canon h) = GetSlot h" "GetGeneration (canon h) = GetGeneration h" "canonical (canon h)"
  by (auto intro!: bit_word_eqI
      simp: bit_GetSlot bit_GetGeneration canon_def mask31 canonical_def bit_and_iff bit_mask_iff)

lemma canonical_iff: "canonical h \<longleftrightarrow> canon h = h"
  using canon_parts handle_ext by metis

lemma canon_eq_iff:
  "canon h = canon h' \<longleftrightarrow> GetSlot h = GetSlot h' \<and> GetGeneration h = GetGeneration h'"
  using canon_parts handle_ext by metis

lemma IsValid_iff_lookup: "HandleTable_IsValid t h \<longleftrightarrow> HandleTable_lookup t h \<noteq> None"
  by (auto simp: HandleTable_lookup_def HandleTable_IsValid_def)

lemma lookup_with_object:
  assumes wf: "HandleTable_wf t" and free: "unat (next_free_slot t) < MAX_COUNT"
  shows "HandleTable_lookup (with_object t obj) h =
    (if canon h = new_handle t then Some obj else HandleTable_lookup t h)"
proof -
  note p = new_handle_parts [OF wf free]
  have "canon h = new_handle t \<longleftrightarrow>
      GetSlot h = next_free_slot t \<and> GetGeneration h = next_generation t"
    using canon_eq_iff [of h "new_handle t"] p canonical_iff by auto
  moreover have "objects t (unat (next_free_slot t)) = None"
    using wf_with_object(3) [OF wf free] by (simp add: empty_slots_def)
  moreover have "unat (GetSlot h) = unat (next_free_slot t) \<longleftrightarrow> GetSlot h = next_free_slot t"
    by (simp add: word_unat_eq_iff)
  ultimately show ?thesis
    using free by (auto simp: HandleTable_lookup_def HandleTable_IsValid_def with_object_def)
qed

lemma lookup_without_slot:
  assumes v: "HandleTable_IsValid t h"
  shows "HandleTable_lookup (without_slot t (GetSlot h)) h' =
    (if canon h' = canon h then None else HandleTable_lookup t h')"
proof -
  have "unat (GetSlot h') = unat (GetSlot h) \<longleftrightarrow> GetSlot h' = GetSlot h"
    by (simp add: word_unat_eq_iff)
  then show ?thesis
    using v by (auto simp: HandleTable_lookup_def HandleTable_IsValid_def without_slot_def
        canon_eq_iff)
qed

section \<open>The handle table provides the interface\<close>

definition HandleTable_full :: "'o handle_table \<Rightarrow> bool" where
  "HandleTable_full t \<longleftrightarrow> empty_slots t = {}"

lemma full_iff: "HandleTable_wf t \<Longrightarrow> HandleTable_full t \<longleftrightarrow> \<not> unat (next_free_slot t) < MAX_COUNT"
  using free_slot_iff by (auto simp: HandleTable_full_def)

lemma GetSlot_valid:
  assumes "HandleTable_IsValid t h"
  shows "unat (GetSlot h) < MAX_COUNT" and "objects t (unat (GetSlot h)) \<noteq> None"
  using assms by (simp_all add: HandleTable_IsValid_def)

interpretation handles: handle_space HandleTable_wf HandleTable_full canon HandleTable_lookup
  HandleTable_Create HandleTable_Close ResultOutOfHandles ResultInvalidHandle
proof (unfold_locales, goal_cases)
  case (1 h)
  show ?case using canon_parts(3) [of h] by (simp add: canonical_iff)
next
  case (2 t h)
  show ?case by (simp add: HandleTable_lookup_def HandleTable_IsValid_def canon_parts)
next
  case (3 t x)
  then show ?case by (simp add: Create_alt full_iff)
next
  case (4 t x)
  then have free: "unat (next_free_slot t) < MAX_COUNT" by (simp add: full_iff)
  note s = wf_with_object [OF 4(1) free] and p = new_handle_parts [OF 4(1) free]
  have "HandleTable_lookup t (new_handle t) = None"
    using s(3) by (simp add: HandleTable_lookup_def HandleTable_IsValid_def p empty_slots_def)
  then show ?case
    using 4 free s(1) p(3)
    by (auto simp: Create_alt lookup_with_object canonical_iff fun_eq_iff)
next
  case (5 t h)
  then show ?case by (simp add: Close_alt IsValid_iff_lookup)
next
  case (6 t h x)
  then have v: "HandleTable_IsValid t h" by (simp add: IsValid_iff_lookup)
  from wf_without_slot [OF 6(1) GetSlot_valid [OF v]] v show ?case
    by (auto simp: Close_alt HandleTable_full_def lookup_without_slot fun_eq_iff)
qed

section \<open>Sequences of operations\<close>

datatype 'o handle_op = OpCreate 'o | OpDuplicate u32 | OpClose u32 | OpClear

fun run_handle_op :: "'o option \<Rightarrow> 'o option \<Rightarrow> 'o handle_op \<Rightarrow> 'o handle_table \<Rightarrow> 'o handle_table"
where
  "run_handle_op ct cp (OpCreate x) t =
     (case HandleTable_Create t x of Inr (h, t') \<Rightarrow> t' | Inl e \<Rightarrow> t)"
| "run_handle_op ct cp (OpDuplicate k) t =
     (case HandleTable_Duplicate ct cp t k of Inr (h, t') \<Rightarrow> t' | Inl e \<Rightarrow> t)"
| "run_handle_op ct cp (OpClose k) t =
     (case HandleTable_Close t k of Inr t' \<Rightarrow> t' | Inl e \<Rightarrow> t)"
| "run_handle_op ct cp OpClear t = HandleTable_Clear t"

fun creations :: "'o handle_op list \<Rightarrow> nat" where
  "creations [] = 0"
| "creations (OpCreate x # ops) = Suc (creations ops)"
| "creations (OpDuplicate k # ops) = Suc (creations ops)"
| "creations (OpClose k # ops) = creations ops"
| "creations (OpClear # ops) = creations ops"

text \<open>How many creations the counter \<open>n\<close> is before it issues generation \<open>g\<close> again.\<close>

definition generation_distance :: "u16 \<Rightarrow> u16 \<Rightarrow> nat" where
  "generation_distance n g = (if unat n \<le> unat g then unat g - unat n else 0x7FFF + unat g - unat n)"

lemma unat_bump:
  "generation_ok n \<Longrightarrow> unat (bump_generation n) = (if unat n = 0x7FFF then 1 else Suc (unat n))"
  by (auto simp: generation_ok_def bump_generation_def unat_word_ariths word_le_nat_alt)

lemma distance_bump:
  assumes "generation_ok n" and "generation_ok g" and "Suc k \<le> generation_distance n g"
  shows "k \<le> generation_distance (bump_generation n) g" and "n \<noteq> g"
  using assms by (auto simp: generation_distance_def unat_bump generation_ok_def split: if_splits)

lemma wf_op: "HandleTable_wf t \<Longrightarrow> HandleTable_wf (run_handle_op ct cp p t)"
  by (cases p)
    (auto simp: Create_alt Close_alt HandleTable_Duplicate_def wf_with_object wf_without_slot
      GetSlot_valid HandleTable_wf_def [THEN iffD1, THEN conjunct2, THEN conjunct2]
      intro!: wf_Clear split: option.split)

definition stale_for :: "nat \<Rightarrow> u32 \<Rightarrow> 'o handle_table \<Rightarrow> bool" where
  "stale_for k h t \<longleftrightarrow> HandleTable_wf t \<and> generation_ok (GetGeneration h) \<and>
     \<not> HandleTable_IsValid t h \<and> k \<le> generation_distance (next_generation t) (GetGeneration h)"

lemma stale_Create:
  assumes "stale_for (Suc k) h t"
  shows "stale_for k h (case HandleTable_Create t x of Inr (h, t') \<Rightarrow> t' | Inl e \<Rightarrow> t)"
proof (cases "unat (next_free_slot t) < MAX_COUNT")
  case free: True
  have wf: "HandleTable_wf t" and n: "generation_ok (next_generation t)"
    using assms by (auto simp: stale_for_def HandleTable_wf_def)
  note d = distance_bump [OF n, of "GetGeneration h" k]
  have "canon h \<noteq> new_handle t"
    using new_handle_parts(2) [OF wf free] d(2) assms canon_parts(2) [of h]
    by (auto simp: stale_for_def)
  then have "\<not> HandleTable_IsValid (with_object t x) h"
    using assms by (simp add: IsValid_iff_lookup lookup_with_object [OF wf free] stale_for_def)
  moreover have "next_generation (with_object t x) = bump_generation (next_generation t)"
    by (simp add: with_object_def)
  ultimately show ?thesis
    using assms d(1) free wf_with_object(1) [OF wf free, of x]
    by (simp add: Create_alt stale_for_def)
qed (use assms in \<open>simp add: Create_alt stale_for_def\<close>)

lemma stale_other:
  assumes "stale_for k h t"
  shows "stale_for k h (case HandleTable_Close t x of Inr t' \<Rightarrow> t' | Inl e \<Rightarrow> t)"
    and "stale_for k h (HandleTable_Clear t)"
proof -
  have "HandleTable_wf (run_handle_op None None (OpClose x) t)"
    using assms by (intro wf_op) (simp add: stale_for_def)
  then have wf: "HandleTable_wf (case HandleTable_Close t x of Inr t' \<Rightarrow> t' | Inl e \<Rightarrow> t)"
    by simp
  show "stale_for k h (case HandleTable_Close t x of Inr t' \<Rightarrow> t' | Inl e \<Rightarrow> t)"
  proof (cases "HandleTable_IsValid t x")
    case True
    then show ?thesis
      using assms wf lookup_without_slot [OF True, of h]
      by (auto simp: stale_for_def Close_alt IsValid_iff_lookup)
        (simp add: without_slot_def)
  qed (use assms in \<open>simp add: Close_alt\<close>)
  show "stale_for k h (HandleTable_Clear t)"
    using assms wf_Clear [of t]
    by (simp add: stale_for_def HandleTable_wf_def HandleTable_IsValid_def HandleTable_Clear_def)
qed

lemma stale_Suc: "stale_for (Suc k) h t \<Longrightarrow> stale_for k h t"
  by (simp add: stale_for_def)

lemma stale_run:
  assumes "stale_for (creations ops) h t"
  shows "\<not> HandleTable_IsValid (fold (run_handle_op ct cp) ops t) h"
  using assms
proof (induction ops arbitrary: t rule: creations.induct)
  case (3 x ops)
  have "stale_for (creations ops) h (run_handle_op ct cp (OpDuplicate x) t)"
    using stale_Create [of "creations ops" h t] stale_Suc [of "creations ops" h t] 3(2)
    by (auto simp: HandleTable_Duplicate_def split: option.split)
  then show ?case using 3(1) by simp
qed (auto simp: stale_for_def [of 0] stale_Create stale_other simp del: HandleTable_IsValid_def)

section \<open>Properties\<close>

definition live_handles :: "'o handle_table \<Rightarrow> u32 set" where
  "live_handles t = {h. canonical h \<and> HandleTable_IsValid t h}"

lemma live_slots:
  assumes wf: "HandleTable_wf t"
  shows "bij_betw (\<lambda>h. unat (GetSlot h)) (live_handles t) ({..<MAX_COUNT} - empty_slots t)"
proof (rule bij_betw_imageI)
  show "inj_on (\<lambda>h. unat (GetSlot h)) (live_handles t)"
    by (auto simp: inj_on_def live_handles_def HandleTable_IsValid_def word_unat_eq_iff [symmetric]
        intro!: handle_ext)
  show "(\<lambda>h. unat (GetSlot h)) ` live_handles t = {..<MAX_COUNT} - empty_slots t"
  proof (intro equalityI subsetI)
    fix i assume i: "i \<in> {..<MAX_COUNT} - empty_slots t"
    have u: "unat (of_nat i :: u16) = i"
      using i by (simp add: unsigned_of_nat MAX_COUNT_def take_bit_nat_eq_self)
    define h :: u32 where "h = ucast (generations t i) OR push_bit 15 (ucast (of_nat i :: u16))"
    have "generation_ok (generations t i)"
      using wf i by (auto simp: HandleTable_wf_def empty_slots_def)
    then have "GetSlot h = of_nat i" "GetGeneration h = generations t i" "canonical h"
      using made_handle [of "of_nat i" "generations t i" h] u i
      by (simp_all add: h_def generation_ok_def)
    then show "i \<in> (\<lambda>h. unat (GetSlot h)) ` live_handles t"
      using i u by (intro image_eqI [of _ _ h])
        (auto simp: live_handles_def HandleTable_IsValid_def empty_slots_def)
  qed (auto simp: live_handles_def HandleTable_IsValid_def empty_slots_def)
qed

lemma card_live:
  assumes "HandleTable_wf t"
  shows "card (live_handles t) + card (empty_slots t) = 4096"
proof -
  have sub: "empty_slots t \<subseteq> {..<MAX_COUNT}" by (auto simp: empty_slots_def)
  have "card (live_handles t) = card ({..<MAX_COUNT} - empty_slots t)"
    using bij_betw_same_card [OF live_slots [OF assms]] .
  also have "\<dots> + card (empty_slots t) = MAX_COUNT"
    using card_Diff_subset [OF _ sub] card_mono [OF _ sub] by simp
  finally show ?thesis by (simp add: MAX_COUNT_def)
qed

lemma full_card: "HandleTable_wf t \<Longrightarrow> HandleTable_full t \<longleftrightarrow> card (live_handles t) = 4096"
  using card_live [of t] finite_empty_slots [of t] by (auto simp: HandleTable_full_def)

text \<open>C16: \<open>Create\<close> fails, with \<open>ResultOutOfHandles\<close>, exactly when 4096 handles are live. Otherwise
  the new handle was not valid before, and afterwards it (and nothing else) maps to the new
  object, every other handle keeps its meaning, and the table stays well formed.\<close>

theorem handle_table_create:
  assumes "HandleTable_wf t"
  shows "case HandleTable_Create t x of
      Inl e \<Rightarrow> e = ResultOutOfHandles \<and> card (live_handles t) = 4096
    | Inr (h, t') \<Rightarrow> card (live_handles t) < 4096 \<and> HandleTable_wf t' \<and>
        canonical h \<and> \<not> HandleTable_IsValid t h \<and>
        (\<forall>k. HandleTable_lookup t' k = (if canon k = h then Some x else HandleTable_lookup t k))"
  using assms
proof (cases rule: handles.create_cases [where x = x])
  case (ok h t')
  then show ?thesis
    using full_card [OF assms] card_live [OF assms]
    by (simp add: canonical_iff IsValid_iff_lookup)
qed (use full_card [OF assms] in simp)

lemma handle_table_create_witness:
  "case HandleTable_Create HandleTable_new (7 :: nat) of
     Inl e \<Rightarrow> False
   | Inr (h, t') \<Rightarrow> h = 1 \<and> HandleTable_wf t' \<and> HandleTable_lookup t' 1 = Some 7"
proof -
  have c: "HandleTable_Create HandleTable_new (7 :: nat) = Inr (1, with_object HandleTable_new 7)"
    by (simp add: Create_alt new_handle_def HandleTable_new_def HandleTable_Clear_def MAX_COUNT_def)
  show ?thesis using handle_table_create [OF wf_new, of "7 :: nat"] by (simp add: c canon_def)
qed

text \<open>C17: \<open>Close\<close> accepts exactly the valid handles and fails with \<open>ResultInvalidHandle\<close> on the
  others; it removes the closed entry, keeps every other one, and the table stays well formed.\<close>

theorem handle_table_close:
  assumes "HandleTable_wf t"
  shows "case HandleTable_Close t h of
      Inl e \<Rightarrow> e = ResultInvalidHandle \<and> \<not> HandleTable_IsValid t h
    | Inr t' \<Rightarrow> HandleTable_IsValid t h \<and> HandleTable_wf t' \<and>
        card (live_handles t') + 1 = card (live_handles t) \<and>
        (\<forall>k. HandleTable_lookup t' k = (if canon k = canon h then None else HandleTable_lookup t k))"
proof (cases "HandleTable_IsValid t h")
  case True
  note s = GetSlot_valid [OF True]
  note w = wf_without_slot [OF assms s]
  have "unat (GetSlot h) \<notin> empty_slots t" using s by (simp add: empty_slots_def)
  then have "card (live_handles (without_slot t (GetSlot h))) + 1 = card (live_handles t)"
    using card_live [OF assms] card_live [OF w(1)] by (simp add: w(2))
  with True w(1) show ?thesis
    by (simp add: Close_alt lookup_without_slot)
qed (simp add: Close_alt)

lemma handle_table_close_witness:
  "case HandleTable_Create HandleTable_new (7 :: nat) of
     Inl e \<Rightarrow> False
   | Inr (h, t') \<Rightarrow>
       (case HandleTable_Close t' h of Inl e \<Rightarrow> False | Inr t'' \<Rightarrow> HandleTable_lookup t'' 1 = None)"
proof -
  let ?t = "with_object HandleTable_new (7 :: nat)"
  have free: "unat (next_free_slot (HandleTable_new :: nat handle_table)) < MAX_COUNT"
    by (simp add: HandleTable_new_def HandleTable_Clear_def MAX_COUNT_def)
  show ?thesis
    using handle_table_close [OF wf_with_object(1) [OF wf_new free], of 7 1]
    by (simp add: Create_alt new_handle_def free)
      (simp add: Close_alt with_object_def HandleTable_new_def HandleTable_Clear_def MAX_COUNT_def
        HandleTable_IsValid_def GetSlot_def GetGeneration_def split: sum.splits)
qed

text \<open>C18: a closed handle stays invalid, whatever is created, duplicated, closed or cleared, until
  the generation counter comes round to the handle's own generation: at most
  \<open>generation_distance\<close> creations later.\<close>

theorem stale_handles_stay_invalid:
  assumes "HandleTable_wf t" and "HandleTable_Close t h = Inr t'"
    and "creations ops \<le> generation_distance (next_generation t) (GetGeneration h)"
  shows "\<not> HandleTable_IsValid (fold (run_handle_op ct cp) ops t') h"
proof -
  have v: "HandleTable_IsValid t h" and t': "t' = without_slot t (GetSlot h)"
    using assms(2) by (auto simp: Close_alt split: if_splits)
  have "generation_ok (GetGeneration h)"
    using v assms(1) by (auto simp: HandleTable_IsValid_def HandleTable_wf_def)
  moreover have "next_generation t' = next_generation t" by (simp add: t' without_slot_def)
  moreover have "\<not> HandleTable_IsValid t' h"
    by (simp add: t' IsValid_iff_lookup lookup_without_slot [OF v])
  moreover have "HandleTable_wf t'"
    using handles.close_ok [OF assms(1)] v assms(2) by (force simp: IsValid_iff_lookup)
  ultimately show ?thesis
    using assms(3) by (intro stale_run) (simp add: stale_for_def)
qed

lemma stale_handles_stay_invalid_witness:
  "\<not> HandleTable_IsValid
     (fold (run_handle_op None None) [OpCreate 8, OpDuplicate 0x10002, OpClose 0x8003, OpCreate 9]
       (without_slot (with_object HandleTable_new (7 :: nat)) 0)) 1"
proof (rule stale_handles_stay_invalid [where t = "with_object HandleTable_new (7 :: nat)"])
  have free: "unat (next_free_slot (HandleTable_new :: nat handle_table)) < MAX_COUNT"
    by (simp add: HandleTable_new_def HandleTable_Clear_def MAX_COUNT_def)
  show "HandleTable_wf (with_object HandleTable_new (7 :: nat))"
    by (rule wf_with_object(1) [OF wf_new free])
qed (simp_all add: Close_alt with_object_def HandleTable_new_def HandleTable_Clear_def
    MAX_COUNT_def HandleTable_IsValid_def GetSlot_def GetGeneration_def generation_distance_def
    bump_generation_def)

end
