(* ===== verification/Svc.thy ===== *)
theory Svc
  imports AddressArbiter HandleTable
begin

text \<open>Supervisor calls on threads, synchronization objects and memory (\<open>kernel/svc.cpp\<close>): what each
  does with the kernel and with the handle table of the calling process, whose index is
  \<open>current_process\<close>. Arguments and results are those of the C++ functions; the wrapper that moves
  them from and to registers is not modelled, the names of objects are left out, and a new object's
  address is an argument.\<close>

type_synonym ('s, 'g, 'e) svc_state = "('s, 'g, 'e) kernel \<times> kref handle_table"

section \<open>The caller\<close>

definition GetCurrentThread :: "('s, 'g, 'e) kernel \<Rightarrow> nat run" where
  "GetCurrentThread k = current_thread (managers k ! current_cpu k)"

definition get_object :: "('s, 'g, 'e) svc_state \<Rightarrow> u32 \<Rightarrow> kref option" where
  "get_object s handle =
     HandleTable_GetGeneric (map_option (\<lambda>t. HWait (RThread t)) (GetCurrentThread (fst s)))
       (map_option HProcess (current_process (fst s))) (snd s) handle"

definition get_waitable :: "('s, 'g, 'e) svc_state \<Rightarrow> u32 \<Rightarrow> oref option" where
  "get_waitable s handle = (case get_object s handle of Some (HWait ob) \<Rightarrow> Some ob | _ \<Rightarrow> None)"

definition get_thread :: "('s, 'g, 'e) svc_state \<Rightarrow> u32 \<Rightarrow> nat option" where
  "get_thread s handle = (case get_waitable s handle of Some (RThread t) \<Rightarrow> Some t | _ \<Rightarrow> None)"

text \<open>The address of an object of the wanted kind.\<close>

definition get_kobject :: "(kobject \<Rightarrow> bool) \<Rightarrow> ('s, 'g, 'e) svc_state \<Rightarrow> u32 \<Rightarrow> nat option" where
  "get_kobject P s handle =
     (case get_waitable s handle of
        Some (RObj a) \<Rightarrow> (case sync_objects (fst s) a of Some ob \<Rightarrow> if P ob then Some a else None | None \<Rightarrow> None)
      | _ \<Rightarrow> None)"

definition is_KMutex :: "kobject \<Rightarrow> bool" where "is_KMutex ob = (case ob of KMutex m \<Rightarrow> True | _ \<Rightarrow> False)"
definition is_KSemaphore :: "kobject \<Rightarrow> bool" where "is_KSemaphore ob = (case ob of KSemaphore m \<Rightarrow> True | _ \<Rightarrow> False)"
definition is_KEvent :: "kobject \<Rightarrow> bool" where "is_KEvent ob = (case ob of KEvent m \<Rightarrow> True | _ \<Rightarrow> False)"
definition is_KServerPort :: "kobject \<Rightarrow> bool" where
  "is_KServerPort ob = (case ob of KServerPort p \<Rightarrow> True | _ \<Rightarrow> False)"
definition is_KServerSession :: "kobject \<Rightarrow> bool" where
  "is_KServerSession ob = (case ob of KServerSession s \<Rightarrow> True | _ \<Rightarrow> False)"
definition is_KTimer :: "kobject \<Rightarrow> bool" where "is_KTimer ob = (case ob of KTimer m \<Rightarrow> True | _ \<Rightarrow> False)"

text \<open>A call on the limit of the calling process.\<close>

definition caller_limit ::
  "(resource_limit \<Rightarrow> u32 \<Rightarrow> s32 \<Rightarrow> (bool \<times> resource_limit) run) \<Rightarrow> u32 \<Rightarrow> ('s, 'g, 'e) kernel \<Rightarrow>
   (bool \<times> ('s, 'g, 'e) kernel) run" where
  "caller_limit f type k = do {
     i \<leftarrow> current_process k;
     p \<leftarrow> processes k i;
     (ok, m) \<leftarrow> limit_op f type 1 p (kernel_memory k);
     Some (ok, k\<lparr>kernel_memory := m\<rparr>)}"

definition limit_error :: "u32 \<Rightarrow> result" where
  "limit_error code = Result_make code Mod_OS Sum_OutOfResource Lvl_Status"

text \<open>Entering a new object in the table; when the table is full the last reference to the object
  is dropped, which runs \<open>destroy\<close>.\<close>

definition create_handle ::
  "kref \<Rightarrow> (('s, 'g, 'e) kernel \<Rightarrow> ('s, 'g, 'e) kernel run) \<Rightarrow> ('s, 'g, 'e) svc_state \<Rightarrow>
   ((result + u32) \<times> ('s, 'g, 'e) svc_state) run" where
  "create_handle ob destroy s =
     (case HandleTable_Create (snd s) ob of
        Inl e \<Rightarrow> map_option (\<lambda>k. (Inl e, k, snd s)) (destroy (fst s))
      | Inr (h, t) \<Rightarrow> Some (Inr h, fst s, t))"

definition destroy_object :: "u32 \<Rightarrow> nat \<Rightarrow> ('s, 'g, 'e) kernel \<Rightarrow> ('s, 'g, 'e) kernel run" where
  "destroy_object type a k = do {
     (ok, k) \<leftarrow> caller_limit ResourceLimit_Release type k;
     Some (k\<lparr>sync_objects := (sync_objects k)(a := None)\<rparr>)}"

section \<open>Waiting\<close>

definition svc_WaitSynchronization1 ::
  "u32 \<Rightarrow> int \<Rightarrow> ('s, 'g, 'e) svc_state \<Rightarrow> (result \<times> ('s, 'g, 'e) svc_state) run" where
  "svc_WaitSynchronization1 handle nano_seconds s =
     (let (k, ht) = s
      in case get_waitable s handle of
           None \<Rightarrow> Some (ResultInvalidHandle, s)
         | Some ob \<Rightarrow> do {
             t \<leftarrow> GetCurrentThread k;
             w \<leftarrow> ShouldWait k ob t;
             if w then
               (if nano_seconds = 0 then Some (ResultTimeout, s)
                else do {
                  let k = upd_thread t (\<lambda>th. th\<lparr>wait_objects := [ob]\<rparr>) k;
                  k \<leftarrow> AddWaitingThread ob t k;
                  let k = upd_thread t (\<lambda>th. th\<lparr>status := WaitSynchAny\<rparr>) k;
                  k \<leftarrow> WakeAfterDelay t nano_seconds False k;
                  let k = upd_thread t (\<lambda>th. th\<lparr>wakeup_callback := Some (SyncCallback False)\<rparr>) k;
                  Some (ResultTimeout, PrepareReschedule k, ht)})
             else do {
               k \<leftarrow> Acquire ob t k;
               Some (ResultSuccess, k, ht)}})"

text \<open>Reading the handles; an invalid one stops the loop.\<close>

fun read_handles ::
  "'g mem_env \<Rightarrow> nat \<Rightarrow> u32 \<Rightarrow> oref list \<Rightarrow> ('s, 'g, 'e) svc_state \<Rightarrow>
   ((result + oref list) \<times> ('s, 'g, 'e) svc_state) run" where
  "read_handles menv 0 address obs s = Some (Inr obs, s)"
| "read_handles menv (Suc n) address obs s = do {
     (handle, k) \<leftarrow> Read32 menv address (fst s);
     case get_waitable (k, snd s) handle of
       None \<Rightarrow> Some (Inl ResultInvalidHandle, k, snd s)
     | Some ob \<Rightarrow> read_handles menv n (address + 4) (obs @ [ob]) (k, snd s)}"

fun Add_all :: "oref list \<Rightarrow> nat \<Rightarrow> ('s, 'g, 'e) kernel \<Rightarrow> ('s, 'g, 'e) kernel run" where
  "Add_all [] t k = Some k"
| "Add_all (ob # obs) t k = do { k \<leftarrow> AddWaitingThread ob t k; Add_all obs t k }"

text \<open>The position of the first available object.\<close>

fun first_ready :: "('s, 'g, 'e) kernel \<Rightarrow> oref list \<Rightarrow> nat \<Rightarrow> nat \<Rightarrow> nat option run" where
  "first_ready k [] t i = Some None"
| "first_ready k (ob # obs) t i = do {
     w \<leftarrow> ShouldWait k ob t;
     if w then first_ready k obs t (Suc i) else Some (Some i)}"

definition suspend ::
  "ThreadStatus \<Rightarrow> bool \<Rightarrow> oref list \<Rightarrow> nat \<Rightarrow> int \<Rightarrow> ('s, 'g, 'e) kernel \<Rightarrow> ('s, 'g, 'e) kernel run" where
  "suspend st do_output obs t nano_seconds k = do {
     let k = upd_thread t (\<lambda>th. th\<lparr>status := st\<rparr>) k;
     k \<leftarrow> Add_all obs t k;
     let k = upd_thread t (\<lambda>th. th\<lparr>wait_objects := obs\<rparr>) k;
     k \<leftarrow> WakeAfterDelay t nano_seconds False k;
     let k = upd_thread t (\<lambda>th. th\<lparr>wakeup_callback := Some (SyncCallback do_output)\<rparr>) k;
     Some (PrepareReschedule k)}"

text \<open>The result comes with the value of \<open>out\<close>, when it is set.\<close>

definition svc_WaitSynchronizationN ::
  "'g mem_env \<Rightarrow> u32 \<Rightarrow> s32 \<Rightarrow> bool \<Rightarrow> int \<Rightarrow> ('s, 'g, 'e) svc_state \<Rightarrow>
   ((result \<times> s32 option) \<times> ('s, 'g, 'e) svc_state) run" where
  "svc_WaitSynchronizationN menv handles_address handle_count wait_all nano_seconds s = do {
     let (k, ht) = s;
     t \<leftarrow> GetCurrentThread k;
     i \<leftarrow> current_process k;
     p \<leftarrow> processes k i;
     if \<not> IsValidVirtualAddress (vm_page_table (vm_of p)) handles_address
     then Some ((ResultInvalidPointer, None), s)
     else if \<not> sint handle_count \<ge> 0 then Some ((ResultOutOfRange, None), s)
     else do {
       (obs, k, ht) \<leftarrow> read_handles menv (nat (sint handle_count)) handles_address [] (k, ht);
       case obs of
         Inl e \<Rightarrow> Some ((e, None), k, ht)
       | Inr obs \<Rightarrow>
           if wait_all then do {
             all_available \<leftarrow> none_should_wait k obs t;
             if all_available then do {
               k \<leftarrow> Acquire_all obs t k;
               Some ((ResultSuccess, None), k, ht)}
             else if nano_seconds = 0 then Some ((ResultTimeout, None), k, ht)
             else do {
               k \<leftarrow> suspend WaitSynchAll False obs t nano_seconds k;
               Some ((ResultTimeout, Some (- 1)), k, ht)}}
           else do {
             found \<leftarrow> first_ready k obs t 0;
             case found of
               Some i \<Rightarrow> do {
                 k \<leftarrow> Acquire (obs ! i) t k;
                 Some ((ResultSuccess, Some (of_nat i)), k, ht)}
             | None \<Rightarrow>
                 if nano_seconds = 0 then Some ((ResultTimeout, None), k, ht)
                 else do {
                   k \<leftarrow> suspend WaitSynchAny True obs t nano_seconds k;
                   Some ((ResultTimeout, Some (- 1)), k, ht)}}}}"

definition svc_CreateAddressArbiter ::
  "nat \<Rightarrow> ('s, 'g, 'e) svc_state \<Rightarrow> ((result + u32) \<times> ('s, 'g, 'e) svc_state) run" where
  "svc_CreateAddressArbiter a s = do {
     (ok, k) \<leftarrow> caller_limit Reserve RL_AddressArbiter (fst s);
     if \<not> ok then Some (Inl (limit_error ErrCodes_OutOfAddressArbiters), k, snd s)
     else create_handle (HArbiter a)
       (\<lambda>k. map_option snd (caller_limit ResourceLimit_Release RL_AddressArbiter k))
       (CreateAddressArbiter a k, snd s)}"

definition svc_ArbitrateAddress ::
  "'g mem_env \<Rightarrow> (u32 \<Rightarrow> u64 \<Rightarrow> u64) \<Rightarrow> u32 \<Rightarrow> u32 \<Rightarrow> u32 \<Rightarrow> u32 \<Rightarrow> int \<Rightarrow> ('s, 'g, 'e) svc_state \<Rightarrow>
   (result \<times> ('s, 'g, 'e) svc_state) run" where
  "svc_ArbitrateAddress menv scaled handle address type value nanoseconds s =
     (case get_object s handle of
        Some (HArbiter a) \<Rightarrow> do {
          t \<leftarrow> GetCurrentThread (fst s);
          (res, k) \<leftarrow> ArbitrateAddress menv scaled a t type address value nanoseconds (fst s);
          Some (res, PrepareReschedule k, snd s)}
      | _ \<Rightarrow> Some (ResultInvalidHandle, s))"
section \<open>Threads\<close>

definition wait_for_reschedule :: "('s, 'g, 'e) svc_state \<Rightarrow> ('s, 'g, 'e) svc_state" where
  "wait_for_reschedule s = (PrepareReschedule (fst s), snd s)"

definition svc_CreateThread ::
  "'s icl \<Rightarrow> 'g mem_env \<Rightarrow> nat \<Rightarrow> u32 \<Rightarrow> u32 \<Rightarrow> u32 \<Rightarrow> u32 \<Rightarrow> s32 \<Rightarrow> ('s, 'g, 'e) svc_state \<Rightarrow>
   ((result + u32) \<times> ('s, 'g, 'e) svc_state) run" where
  "svc_CreateThread ops menv t entry arg stack priority processor s =
     (let (k, ht) = s
      in if priority > 63 then Some (Inl ResultOutOfRange, s)
         else do {
           i \<leftarrow> current_process k;
           p \<leftarrow> processes k i;
           l \<leftarrow> process_limit p;
           ASSERT (l < length (km_limits (kernel_memory k)));
           max_priority \<leftarrow> GetLimitValue (km_limits (kernel_memory k) ! l) RL_Priority;
           if \<not> (max_priority \<le> priority \<or> no_thread_restrictions p) then Some (Inl ResultNotAuthorized, s)
           else do {
             let id' = (if sint processor = -2 then int (ideal_processor p) else sint processor);
             if id' \<notin> {-1, 0, 1, 2, 3} then Some (Inl ResultOutOfRange, s)
             else do {
               let id' = (if id' = -1 then 0 else id');
               (ok, k) \<leftarrow> caller_limit Reserve RL_Thread k;
               if \<not> ok then Some (Inl (limit_error ErrCodes_OutOfThreads), k, ht)
               else do {
                 (res, k) \<leftarrow> CreateThread ops menv t entry (unat priority) arg id' stack i True k;
                 case res of
                   Inl e \<Rightarrow> Some (Inl e, k, ht)
                 | Inr t \<Rightarrow> create_handle (HWait (RThread t)) Some
                     (PrepareReschedule (upd_thread t
                       (\<lambda>th. th\<lparr>th_context := (th_context th)\<lparr>fpscr := 0x03C00000\<rparr>\<rparr>) k), ht)}}}})"

definition svc_ExitThread ::
  "('s, 'g, 'e) kenv \<Rightarrow> ('s, 'g, 'e) svc_state \<Rightarrow> ('s, 'g, 'e) svc_state run" where
  "svc_ExitThread env s = do {
     k \<leftarrow> ExitCurrentThread env (current_cpu (fst s)) (fst s);
     Some (PrepareReschedule k, snd s)}"

definition svc_GetThreadPriority :: "u32 \<Rightarrow> ('s, 'g, 'e) svc_state \<Rightarrow> (result + nat) run" where
  "svc_GetThreadPriority handle s =
     (case get_thread s handle of
        None \<Rightarrow> Some (Inl ResultInvalidHandle)
      | Some t \<Rightarrow> map_option (\<lambda>th. Inr (current_priority th)) (threads (fst s) t))"

fun update_mutexes :: "nat list \<Rightarrow> ('s, 'g, 'e) kernel \<Rightarrow> ('s, 'g, 'e) kernel run" where
  "update_mutexes [] k = Some k"
| "update_mutexes (a # as) k = do { k \<leftarrow> Mutex_UpdatePriority a k; update_mutexes as k }"

definition svc_SetThreadPriority ::
  "u32 \<Rightarrow> u32 \<Rightarrow> ('s, 'g, 'e) svc_state \<Rightarrow> (result \<times> ('s, 'g, 'e) svc_state) run" where
  "svc_SetThreadPriority handle priority s =
     (let (k, ht) = s
      in if priority > 63 then Some (ResultOutOfRange, s)
         else case get_thread s handle of
           None \<Rightarrow> Some (ResultInvalidHandle, s)
         | Some t \<Rightarrow> do {
             i \<leftarrow> current_process k;
             p \<leftarrow> processes k i;
             l \<leftarrow> process_limit p;
             ASSERT (l < length (km_limits (kernel_memory k)));
             max_priority \<leftarrow> GetLimitValue (km_limits (kernel_memory k) ! l) RL_Priority;
             if \<not> max_priority \<le> priority then Some (ResultNotAuthorized, s)
             else do {
               k \<leftarrow> SetPriority t (unat priority) k;
               k \<leftarrow> Thread_UpdatePriority t k;
               th \<leftarrow> threads k t;
               k \<leftarrow> update_mutexes (pending_mutexes th) k;
               Some (ResultSuccess, PrepareReschedule k, ht)}})"

definition svc_GetThreadId :: "u32 \<Rightarrow> ('s, 'g, 'e) svc_state \<Rightarrow> (result + u32) run" where
  "svc_GetThreadId handle s =
     (case get_thread s handle of
        None \<Rightarrow> Some (Inl ResultInvalidHandle)
      | Some t \<Rightarrow> map_option (\<lambda>th. Inr (thread_id th)) (threads (fst s) t))"

definition svc_GetProcessId :: "u32 \<Rightarrow> ('s, 'g, 'e) svc_state \<Rightarrow> (result + u32) run" where
  "svc_GetProcessId handle s =
     (case get_object s handle of
        Some (HProcess i) \<Rightarrow> map_option (\<lambda>p. Inr (process_id p)) (processes (fst s) i)
      | _ \<Rightarrow> Some (Inl ResultInvalidHandle))"

definition svc_GetProcessIdOfThread :: "u32 \<Rightarrow> ('s, 'g, 'e) svc_state \<Rightarrow> (result + u32) run" where
  "svc_GetProcessIdOfThread handle s =
     (case get_thread s handle of
        None \<Rightarrow> Some (Inl ResultInvalidHandle)
      | Some t \<Rightarrow> do {
          th \<leftarrow> threads (fst s) t;
          i \<leftarrow> owner_lock (fst s) th;
          map_option (\<lambda>p. Inr (process_id p)) (processes (fst s) i)})"

definition svc_SleepThread :: "int \<Rightarrow> ('s, 'g, 'e) svc_state \<Rightarrow> ('s, 'g, 'e) svc_state run" where
  "svc_SleepThread nanoseconds s = do {
     let (k, ht) = s;
     let core = current_cpu k;
     ready \<leftarrow> (if nanoseconds = 0 then HaveReadyThreads core k else Some True);
     if \<not> ready then Some s
     else do {
       k \<leftarrow> WaitCurrentThread_Sleep core k;
       t \<leftarrow> current_thread (managers k ! core);
       k \<leftarrow> WakeAfterDelay t nanoseconds False k;
       Some (PrepareReschedule k, ht)}}"

definition svc_GetSystemTick ::
  "(u32 \<Rightarrow> u64 \<Rightarrow> u64) \<Rightarrow> ('s, 'g, 'e) svc_state \<Rightarrow> (int \<times> ('s, 'g, 'e) svc_state) run" where
  "svc_GetSystemTick scaled s = do {
     let (k, ht) = s;
     ticks \<leftarrow> Timer_GetTicks (timers (timing_of k) ! current_cpu k);
     Some (wrap64 ticks, k\<lparr>timing_of := upd_timer (current_cpu k) (AddTicks scaled 150) (timing_of k)\<rparr>, ht)}"

section \<open>Handles\<close>

definition svc_CloseHandle ::
  "u32 \<Rightarrow> ('s, 'g, 'e) svc_state \<Rightarrow> result \<times> ('s, 'g, 'e) svc_state" where
  "svc_CloseHandle handle s =
     (case HandleTable_Close (snd s) handle of
        Inl e \<Rightarrow> (e, s)
      | Inr t \<Rightarrow> (ResultSuccess, fst s, t))"

definition svc_DuplicateHandle ::
  "u32 \<Rightarrow> ('s, 'g, 'e) svc_state \<Rightarrow> (result + u32) \<times> ('s, 'g, 'e) svc_state" where
  "svc_DuplicateHandle handle s =
     (case HandleTable_Duplicate (map_option (\<lambda>t. HWait (RThread t)) (GetCurrentThread (fst s)))
         (map_option HProcess (current_process (fst s))) (snd s) handle of
        Inl e \<Rightarrow> (Inl e, s)
      | Inr (h, t) \<Rightarrow> (Inr h, fst s, t))"
section \<open>Synchronization objects\<close>

definition reset_type_of :: "u32 \<Rightarrow> ResetType" where
  "reset_type_of n = (if n = 0 then OneShot else if n = 2 then Pulse else Sticky)"

text \<open>A mutex that the current thread holds survives the loss of its handle.\<close>

definition svc_CreateMutex ::
  "nat \<Rightarrow> u32 \<Rightarrow> ('s, 'g, 'e) svc_state \<Rightarrow> ((result + u32) \<times> ('s, 'g, 'e) svc_state) run" where
  "svc_CreateMutex a initial_locked s = do {
     (ok, k) \<leftarrow> caller_limit Reserve RL_Mutex (fst s);
     if \<not> ok then Some (Inl (limit_error ErrCodes_OutOfMutexes), k, snd s)
     else do {
       k \<leftarrow> CreateMutex a (initial_locked \<noteq> 0) k;
       create_handle (HWait (RObj a))
         (if initial_locked \<noteq> 0 then Some else destroy_object RL_Mutex a) (k, snd s)}}"

definition svc_ReleaseMutex ::
  "('s, 'g, 'e) kenv \<Rightarrow> u32 \<Rightarrow> ('s, 'g, 'e) svc_state \<Rightarrow> (result \<times> ('s, 'g, 'e) svc_state) run" where
  "svc_ReleaseMutex env handle s =
     (case get_kobject is_KMutex s handle of
        None \<Rightarrow> Some (ResultInvalidHandle, s)
      | Some a \<Rightarrow> do {
          t \<leftarrow> GetCurrentThread (fst s);
          (r, k) \<leftarrow> Mutex_Release env a t (fst s);
          Some (r, k, snd s)})"

definition svc_CreateSemaphore ::
  "nat \<Rightarrow> s32 \<Rightarrow> s32 \<Rightarrow> ('s, 'g, 'e) svc_state \<Rightarrow> ((result + u32) \<times> ('s, 'g, 'e) svc_state) run" where
  "svc_CreateSemaphore a initial_count maximum s = do {
     (ok, k) \<leftarrow> caller_limit Reserve RL_Semaphore (fst s);
     if \<not> ok then Some (Inl (limit_error ErrCodes_OutOfSemaphores), k, snd s)
     else
       (case CreateSemaphore a initial_count maximum k of
          (Inl e, k) \<Rightarrow> Some (Inl e, k, snd s)
        | (Inr a, k) \<Rightarrow> create_handle (HWait (RObj a)) (destroy_object RL_Semaphore a) (k, snd s))}"

definition svc_ReleaseSemaphore ::
  "('s, 'g, 'e) kenv \<Rightarrow> u32 \<Rightarrow> s32 \<Rightarrow> ('s, 'g, 'e) svc_state \<Rightarrow>
   ((result + s32) \<times> ('s, 'g, 'e) svc_state) run" where
  "svc_ReleaseSemaphore env handle release_count s =
     (case get_kobject is_KSemaphore s handle of
        None \<Rightarrow> Some (Inl ResultInvalidHandle, s)
      | Some a \<Rightarrow> do {
          (r, k) \<leftarrow> Semaphore_Release env a release_count (fst s);
          Some (r, k, snd s)})"

definition svc_CreateEvent ::
  "nat \<Rightarrow> u32 \<Rightarrow> ('s, 'g, 'e) svc_state \<Rightarrow> ((result + u32) \<times> ('s, 'g, 'e) svc_state) run" where
  "svc_CreateEvent a reset_type s = do {
     (ok, k) \<leftarrow> caller_limit Reserve RL_Event (fst s);
     if \<not> ok then Some (Inl (limit_error ErrCodes_OutOfEvents), k, snd s)
     else create_handle (HWait (RObj a)) (destroy_object RL_Event a)
       (CreateEvent a (reset_type_of reset_type) k, snd s)}"

text \<open>A call on an event or a timer by handle, when the handle names one.\<close>

definition on_object ::
  "(kobject \<Rightarrow> bool) \<Rightarrow> (nat \<Rightarrow> ('s, 'g, 'e) kernel \<Rightarrow> ('s, 'g, 'e) kernel run) \<Rightarrow> u32 \<Rightarrow>
   ('s, 'g, 'e) svc_state \<Rightarrow> (result \<times> ('s, 'g, 'e) svc_state) run" where
  "on_object P f handle s =
     (case get_kobject P s handle of
        None \<Rightarrow> Some (ResultInvalidHandle, s)
      | Some a \<Rightarrow> map_option (\<lambda>k. (ResultSuccess, k, snd s)) (f a (fst s)))"

definition svc_SignalEvent ::
  "('s, 'g, 'e) kenv \<Rightarrow> u32 \<Rightarrow> ('s, 'g, 'e) svc_state \<Rightarrow> (result \<times> ('s, 'g, 'e) svc_state) run" where
  "svc_SignalEvent env = on_object is_KEvent (Event_Signal env)"

definition svc_ClearEvent ::
  "u32 \<Rightarrow> ('s, 'g, 'e) svc_state \<Rightarrow> (result \<times> ('s, 'g, 'e) svc_state) run" where
  "svc_ClearEvent = on_object is_KEvent Event_Clear"

definition svc_CreateTimer ::
  "nat \<Rightarrow> u32 \<Rightarrow> ('s, 'g, 'e) svc_state \<Rightarrow> ((result + u32) \<times> ('s, 'g, 'e) svc_state) run" where
  "svc_CreateTimer a reset_type s = do {
     (ok, k) \<leftarrow> caller_limit Reserve RL_Timer (fst s);
     if \<not> ok then Some (Inl (limit_error ErrCodes_OutOfTimers), k, snd s)
     else create_handle (HWait (RObj a))
       (\<lambda>k. do {
          k \<leftarrow> KernelTimer_Cancel a k;
          t \<leftarrow> timer_of k a;
          destroy_object RL_Timer a
            (k\<lparr>timer_callback_table := (timer_callback_table k)(callback_id t := None)\<rparr>)})
       (CreateTimer a (reset_type_of reset_type) k, snd s)}"

definition svc_ClearTimer ::
  "u32 \<Rightarrow> ('s, 'g, 'e) svc_state \<Rightarrow> (result \<times> ('s, 'g, 'e) svc_state) run" where
  "svc_ClearTimer = on_object is_KTimer KernelTimer_Clear"

definition svc_SetTimer ::
  "('s, 'g, 'e) kenv \<Rightarrow> u32 \<Rightarrow> int \<Rightarrow> int \<Rightarrow> ('s, 'g, 'e) svc_state \<Rightarrow>
   (result \<times> ('s, 'g, 'e) svc_state) run" where
  "svc_SetTimer env handle initial interval s =
     (if \<not> (initial \<ge> 0 \<and> interval \<ge> 0) then Some (ResultOutOfRangeKernel, s)
      else on_object is_KTimer (\<lambda>a. KernelTimer_Set env a initial interval) handle s)"

definition svc_CancelTimer ::
  "u32 \<Rightarrow> ('s, 'g, 'e) svc_state \<Rightarrow> (result \<times> ('s, 'g, 'e) svc_state) run" where
  "svc_CancelTimer = on_object is_KTimer KernelTimer_Cancel"

section \<open>Resource limits\<close>

text \<open>The two queries, on the limit a handle of the caller names.\<close>

fun query_limit ::
  "'g mem_env \<Rightarrow> (u32 \<Rightarrow> s32 run) \<Rightarrow> (u32 \<Rightarrow> bool) \<Rightarrow> nat \<Rightarrow> u32 \<Rightarrow> u32 \<Rightarrow> ('s, 'g, 'e) kernel \<Rightarrow>
   (result \<times> ('s, 'g, 'e) kernel) run" where
  "query_limit menv get valid 0 names vals k = Some (ResultSuccess, k)"
| "query_limit menv get valid (Suc n) names vals k = do {
     (name, k) \<leftarrow> Read32 menv names k;
     if \<not> valid name then Some (ResultInvalidEnumValue, k)
     else do {
       v \<leftarrow> get name;
       pt \<leftarrow> current_pages k;
       m \<leftarrow> MemorySystem_Write menv pt 8 vals (nat (sint v mod 2 ^ 64)) (km_machine (kernel_memory k));
       query_limit menv get valid n (names + 4) (vals + 8)
         (k\<lparr>kernel_memory := (kernel_memory k)\<lparr>km_machine := m\<rparr>\<rparr>)}}"

definition svc_GetResourceLimitCurrentValues ::
  "'g mem_env \<Rightarrow> resource_limit \<Rightarrow> u32 \<Rightarrow> u32 \<Rightarrow> u32 \<Rightarrow> ('s, 'g, 'e) kernel \<Rightarrow>
   (result \<times> ('s, 'g, 'e) kernel) run" where
  "svc_GetResourceLimitCurrentValues menv r vals names name_count =
     query_limit menv (GetCurrentValue r) (\<lambda>_. True) (unat name_count) names vals"

definition svc_GetResourceLimitLimitValues ::
  "'g mem_env \<Rightarrow> resource_limit \<Rightarrow> u32 \<Rightarrow> u32 \<Rightarrow> u32 \<Rightarrow> ('s, 'g, 'e) kernel \<Rightarrow>
   (result \<times> ('s, 'g, 'e) kernel) run" where
  "svc_GetResourceLimitLimitValues menv r vals names name_count =
     query_limit menv (GetLimitValue r) (\<lambda>n. n < 10) (unat name_count) names vals"

section \<open>Memory\<close>

text \<open>Replacing the calling process and the memory of the kernel.\<close>

definition put_process ::
  "nat \<Rightarrow> 's process \<times> ('s, 'g) kmem \<Rightarrow> ('s, 'g, 'e) kernel \<Rightarrow> ('s, 'g, 'e) kernel" where
  "put_process i pm k = k\<lparr>processes := (processes k)(i \<mapsto> fst pm), kernel_memory := snd pm\<rparr>"

definition control_free ::
  "'s icl \<Rightarrow> 'g mem_env \<Rightarrow> u32 \<Rightarrow> u32 \<Rightarrow> 's process \<times> ('s, 'g) kmem \<Rightarrow>
   ((result + u32) \<times> 's process \<times> ('s, 'g) kmem) run" where
  "control_free ops menv addr0 sz pm =
     (let out = map_option (\<lambda>(r, pm). (map_sum id (\<lambda>_. addr0) r, pm))
      in if addr0 \<ge> HEAP_VADDR \<and> addr0 < HEAP_VADDR_END
         then out (Process_HeapFree ops menv addr0 sz pm)
         else do {
           b \<leftarrow> GetLinearHeapBase (fst pm) (snd pm);
           l \<leftarrow> GetLinearHeapLimit (fst pm) (snd pm);
           if addr0 \<ge> b \<and> addr0 < l then out (Process_LinearFree ops addr0 sz pm)
           else Some (Inl ResultInvalidAddress, pm)})"

text \<open>The value of \<open>out_addr\<close> is 0 where the code does not set it.\<close>

definition control_memory ::
  "'s icl \<Rightarrow> 'g mem_env \<Rightarrow> u32 \<Rightarrow> u32 \<Rightarrow> u32 \<Rightarrow> u32 \<Rightarrow> u32 \<Rightarrow> 's process \<times> ('s, 'g) kmem \<Rightarrow>
   ((result + u32) \<times> 's process \<times> ('s, 'g) kmem) run" where
  "control_memory ops menv addr0 addr1 sz operation perms pm =
     (let (p, m) = pm;
          unset = map_option (\<lambda>(r, p). (map_sum id (\<lambda>_. 0) r, p, m));
          vma_permissions = ucast perms;
          op = operation AND NOT 0xF00 AND 0xFF
      in if addr0 AND CITRA_PAGE_MASK \<noteq> 0 then Some (Inl ResultMisalignedAddress, pm)
         else if addr1 AND CITRA_PAGE_MASK \<noteq> 0 then Some (Inl ResultMisalignedAddress, pm)
         else if sz AND CITRA_PAGE_MASK \<noteq> 0 then Some (Inl ResultMisalignedSize, pm)
         else if perms AND 3 \<noteq> perms then Some (Inl ResultInvalidCombination, pm)
         else if op = 1 then control_free ops menv addr0 sz pm
         else if op = 3 then
           (if operation AND 0x10000 \<noteq> 0 then Process_LinearAllocate ops menv addr0 sz vma_permissions pm
            else Process_HeapAllocate ops menv addr0 sz vma_permissions MS_Private False pm)
         else if op = 4 then unset (Process_Map (km_marker m) addr0 addr1 sz vma_permissions False p)
         else if op = 5 then unset (Process_Unmap (km_marker m) addr0 addr1 sz vma_permissions False p)
         else if op = 6 then
           unset (map_option (set_vm p) (ReprotectRange (km_marker m) (vm_of p) addr0 sz vma_permissions))
         else Some (Inl ResultInvalidCombination, pm))"

definition svc_ControlMemory ::
  "'s icl \<Rightarrow> 'g mem_env \<Rightarrow> u32 \<Rightarrow> u32 \<Rightarrow> u32 \<Rightarrow> u32 \<Rightarrow> u32 \<Rightarrow> ('s, 'g, 'e) svc_state \<Rightarrow>
   ((result + u32) \<times> ('s, 'g, 'e) svc_state) run" where
  "svc_ControlMemory ops menv addr0 addr1 sz operation perms s = do {
     i \<leftarrow> current_process (fst s);
     p \<leftarrow> processes (fst s) i;
     (r, pm) \<leftarrow> control_memory ops menv addr0 addr1 sz operation perms (p, kernel_memory (fst s));
     Some (r, put_process i pm (fst s), snd s)}"

section \<open>Queries of the address space\<close>

record memory_info =
  mi_base_address :: u32
  mi_size :: u32
  mi_permission :: u8
  mi_state :: MemoryState

text \<open>The areas around position \<open>i\<close> with its state and permissions.\<close>

definition QueryProcessMemory :: "vm_manager \<Rightarrow> u32 \<Rightarrow> (result + memory_info) run" where
  "QueryProcessMemory vm addr = do {
     i \<leftarrow> FindVMA vm addr;
     if i = length (vma_map vm) then Some (Inl ResultInvalidAddress)
     else do {
       v \<leftarrow> vma_at vm i;
       let same = (\<lambda>w. permissions w = permissions v \<and> meminfo_state w = meminfo_state v);
       let below = takeWhile same (rev (take i (vma_map vm)));
       let above = takeWhile same (drop i (vma_map vm));
       let lower = last (v # below);
       let upper = last above;
       Some (Inr \<lparr>mi_base_address = vma_base lower,
         mi_size = vma_base upper + vma_size upper - vma_base lower,
         mi_permission = permissions v, mi_state = meminfo_state v\<rparr>)}}"

end
