(* ===== verification/KernelInvariant.thy ===== *)
theory KernelInvariant
  imports Svc
begin

text \<open>The invariants of the kernel's threads and objects: the ready queues hold exactly the ready
  threads, at their priority; a thread is in the lists of exactly the objects it waits for; a mutex
  and its holder agree. The operations on priorities keep them and change nothing else.\<close>

section \<open>Ready queues\<close>

definition queue_ok :: "(nat \<rightharpoonup> thread) \<Rightarrow> nat \<Rightarrow> nat tql \<Rightarrow> bool" where
  "queue_ok ths c q \<longleftrightarrow> tql_wf q \<and> tql_levels q = 64 \<and> (\<forall>p. distinct (tql_content q p)) \<and>
     (\<forall>p t. t \<in> set (tql_content q p) \<longleftrightarrow> (\<exists>th. ths t = Some th \<and> status th = Ready \<and>
       core_id th = c \<and> current_priority th = p)) \<and>
     (\<forall>t th. ths t = Some th \<longrightarrow> core_id th = c \<longrightarrow>
       current_priority th \<le> 63 \<and> tql_prepared q (current_priority th))"

lemma queue_okD:
  assumes "queue_ok ths c q"
  shows "tql_wf q" and "tql_levels q = 64" and "distinct (tql_content q p)"
    and "t \<in> set (tql_content q p) \<longleftrightarrow> (\<exists>th. ths t = Some th \<and> status th = Ready \<and>
       core_id th = c \<and> current_priority th = p)"
    and "ths t = Some th \<Longrightarrow> core_id th = c \<Longrightarrow> current_priority th \<le> 63"
    and "ths t = Some th \<Longrightarrow> core_id th = c \<Longrightarrow> tql_prepared q (current_priority th)"
  using assms by (auto simp: queue_ok_def)

lemma queue_okI:
  assumes "tql_wf q" and "tql_levels q = 64" and "\<And>p. distinct (tql_content q p)"
    and "\<And>p t. t \<in> set (tql_content q p) \<longleftrightarrow> (\<exists>th. ths t = Some th \<and> status th = Ready \<and>
       core_id th = c \<and> current_priority th = p)"
    and "\<And>t th. ths t = Some th \<Longrightarrow> core_id th = c \<Longrightarrow>
       current_priority th \<le> 63 \<and> tql_prepared q (current_priority th)"
  shows "queue_ok ths c q"
  using assms by (simp add: queue_ok_def)

text \<open>A thread of another core, or a change that the queue does not see.\<close>

lemma queue_ok_other:
  assumes q: "queue_ok ths c q" and t: "ths t = Some th"
    and same: "core_id th' = core_id th" "core_id th = c \<Longrightarrow> current_priority th' = current_priority th"
      "core_id th = c \<Longrightarrow> (status th' = Ready \<longleftrightarrow> status th = Ready)"
  shows "queue_ok (ths(t \<mapsto> th')) c q"
proof (rule queue_okI)
  note D = queue_okD [OF q]
  show "tql_wf q" "tql_levels q = 64" "distinct (tql_content q p)" for p using D(1-3) by simp_all
  show "u \<in> set (tql_content q p) \<longleftrightarrow> (\<exists>x. (ths(t \<mapsto> th')) u = Some x \<and> status x = Ready \<and>
       core_id x = c \<and> current_priority x = p)" for p u
  proof (cases "u = t")
    case True
    then show ?thesis using t same by (cases "core_id th = c") (simp_all add: D(4))
  qed (simp add: D(4))
  show "current_priority x \<le> 63 \<and> tql_prepared q (current_priority x)"
    if "(ths(t \<mapsto> th')) u = Some x" "core_id x = c" for u x
  proof (cases "u = t")
    case True
    then have "x = th'" "core_id th = c" using that same(1) by auto
    then show ?thesis using D(5,6) [OF t] same(2) by simp
  next
    case False
    then show ?thesis using D(5,6) [of u x] that by simp
  qed
qed

lemma queue_ok_push:
  assumes q: "queue_ok ths c q" and t: "ths t = Some th" "core_id th = c" "status th \<noteq> Ready"
    and th': "core_id th' = c" "current_priority th' = current_priority th" "status th' = Ready"
    and q': "q' = tql_push_back (current_priority th) t q \<or> q' = tql_push_front (current_priority th) t q"
  shows "queue_ok (ths(t \<mapsto> th')) c q'"
proof -
  note D = queue_okD [OF q]
  let ?p = "current_priority th"
  note B = rq.push_back [OF D(1) D(6) [OF t(1,2)], of t]
  note F = rq.push_front [OF D(1) D(6) [OF t(1,2)], of t]
  have new: "t \<notin> set (tql_content q p)" for p using D(4) [of t p] t by auto
  have c: "tql_wf q'" "tql_levels q' = 64" "tql_prepared q' = tql_prepared q"
    "set (tql_content q' p) = (if p = ?p then insert t (set (tql_content q p)) else set (tql_content q p))"
    "distinct (tql_content q' p)" for p
    using q' B F D(2) D(3) new by auto
  show ?thesis
  proof (rule queue_okI)
    show "tql_wf q'" "tql_levels q' = 64" "distinct (tql_content q' p)" for p using c by simp_all
    show "u \<in> set (tql_content q' p) \<longleftrightarrow> (\<exists>x. (ths(t \<mapsto> th')) u = Some x \<and> status x = Ready \<and>
       core_id x = c \<and> current_priority x = p)" for p u
      using D(4) [of u p] t th' new [of p] by (auto simp: c(4))
    show "current_priority x \<le> 63 \<and> tql_prepared q' (current_priority x)"
      if "(ths(t \<mapsto> th')) u = Some x" "core_id x = c" for u x
      using that D(5,6) [of u x] D(5,6) [OF t(1,2)] th' c(3) by (cases "u = t") auto
  qed
qed

lemma queue_ok_remove:
  assumes q: "queue_ok ths c q" and t: "ths t = Some th" "core_id th = c"
    and th': "core_id th' = c" "current_priority th' = current_priority th" "status th' \<noteq> Ready"
  shows "queue_ok (ths(t \<mapsto> th')) c (tql_remove (current_priority th) t q)"
proof -
  note D = queue_okD [OF q]
  have "current_priority th < tql_levels q" using D(2) D(5) [OF t] by simp
  note R = rq.remove [OF D(1) this, of t]
  show ?thesis
  proof (rule queue_okI)
    show "tql_wf (tql_remove (current_priority th) t q)"
      "tql_levels (tql_remove (current_priority th) t q) = 64"
      "distinct (tql_content (tql_remove (current_priority th) t q) p)" for p
      using R D(2) D(3) by (simp_all add: distinct_removeAll)
    show "u \<in> set (tql_content (tql_remove (current_priority th) t q) p) \<longleftrightarrow>
      (\<exists>x. (ths(t \<mapsto> th')) u = Some x \<and> status x = Ready \<and> core_id x = c \<and> current_priority x = p)" for p u
      using D(4) [of u p] R t th' by auto
    show "current_priority x \<le> 63 \<and> tql_prepared (tql_remove (current_priority th) t q) (current_priority x)"
      if "(ths(t \<mapsto> th')) u = Some x" "core_id x = c" for u x
      using that D(5,6) [of u x] D(5,6) [OF t] th' R by (cases "u = t") auto
  qed
qed

lemma queue_ok_prepare:
  assumes q: "queue_ok ths c q" and t: "ths t = Some th" "core_id th = c" "status th \<noteq> Ready"
    and p: "p \<le> 63" and th': "core_id th' = c" "current_priority th' = p" "status th' \<noteq> Ready"
  shows "queue_ok (ths(t \<mapsto> th')) c (tql_prepare p q)"
proof -
  note D = queue_okD [OF q]
  have "p < tql_levels q" using D(2) p by simp
  note R = rq.prepare [OF D(1) this]
  show ?thesis
  proof (rule queue_okI)
    show "tql_wf (tql_prepare p q)" "tql_levels (tql_prepare p q) = 64"
      "distinct (tql_content (tql_prepare p q) i)" for i
      using R D(2) D(3) by simp_all
    show "u \<in> set (tql_content (tql_prepare p q) i) \<longleftrightarrow>
      (\<exists>x. (ths(t \<mapsto> th')) u = Some x \<and> status x = Ready \<and> core_id x = c \<and> current_priority x = i)" for i u
      using D(4) [of u i] R t th' by auto
    show "current_priority x \<le> 63 \<and> tql_prepared (tql_prepare p q) (current_priority x)"
      if "(ths(t \<mapsto> th')) u = Some x" "core_id x = c" for u x
      using that D(5,6) [of u x] th' R p by (cases "u = t") auto
  qed
qed

lemma queue_ok_move:
  assumes q: "queue_ok ths c q" and t: "ths t = Some th" "core_id th = c" "status th = Ready"
    and p: "p \<le> 63" and th': "core_id th' = c" "current_priority th' = p" "status th' = Ready"
  shows "queue_ok (ths(t \<mapsto> th')) c (tql_move t (current_priority th) p q)"
proof -
  let ?mid = "th\<lparr>status := Dead\<rparr>"
  let ?mid2 = "th\<lparr>status := Dead, current_priority := p\<rparr>"
  have r: "queue_ok (ths(t \<mapsto> ?mid)) c (tql_remove (current_priority th) t q)"
    using queue_ok_remove [OF q t(1,2), of ?mid] t by simp
  have "queue_ok ((ths(t \<mapsto> ?mid))(t \<mapsto> ?mid2)) c (tql_prepare p (tql_remove (current_priority th) t q))"
    using queue_ok_prepare [OF r, of t ?mid p ?mid2] t p by simp
  from queue_ok_push [OF this, of t ?mid2 th'] t th' show ?thesis
    by (simp add: tql_move_def)
qed
section \<open>The invariant of the ready queues\<close>

definition queues_of :: "('s, 'g, 'e) kernel \<Rightarrow> nat tql list" where
  "queues_of k = map ready_queue (managers k)"

definition ready_ok :: "('s, 'g, 'e) kernel \<Rightarrow> bool" where
  "ready_ok k \<longleftrightarrow> (\<forall>c < length (queues_of k). queue_ok (threads k) c (queues_of k ! c)) \<and>
     (\<forall>t th. threads k t = Some th \<longrightarrow> core_id th < length (queues_of k) \<and> nominal_priority th \<le> 63)"

lemma ready_okD:
  assumes "ready_ok k" and "threads k t = Some th"
  shows "core_id th < length (queues_of k)" and "nominal_priority th \<le> 63"
    and "current_priority th \<le> 63" and "queue_ok (threads k) (core_id th) (queues_of k ! core_id th)"
proof -
  show "core_id th < length (queues_of k)" "nominal_priority th \<le> 63"
    using assms by (simp_all add: ready_ok_def)
  then show q: "queue_ok (threads k) (core_id th) (queues_of k ! core_id th)"
    using assms by (simp add: ready_ok_def)
  show "current_priority th \<le> 63" using queue_okD(5) [OF q assms(2)] by simp
qed

lemma ready_ok_cong:
  "threads k' = threads k \<Longrightarrow> queues_of k' = queues_of k \<Longrightarrow> ready_ok k' = ready_ok k"
  by (simp add: ready_ok_def)

text \<open>One thread and the queue of its core change.\<close>

lemma ready_ok_change:
  assumes k: "ready_ok k" and t: "threads k t = Some th" "threads k' = (threads k)(t \<mapsto> th')"
    and same: "core_id th' = core_id th" "nominal_priority th' \<le> 63"
    and q: "queues_of k' = (queues_of k)[core_id th := q]" "queue_ok (threads k') (core_id th) q"
  shows "ready_ok k'"
proof -
  have "queue_ok (threads k') c (queues_of k' ! c)" if c: "c < length (queues_of k')" for c
  proof (cases "c = core_id th")
    case True
    then show ?thesis using q c by simp
  next
    case False
    have "queue_ok (threads k) c (queues_of k ! c)" using k c q(1) by (simp add: ready_ok_def)
    from queue_ok_other [OF this t(1) same(1)] False q(1) show ?thesis
      by (simp add: t(2) nth_upd)
  qed
  moreover have "core_id x < length (queues_of k') \<and> nominal_priority x \<le> 63"
    if "threads k' u = Some x" for u x
    using that t same q(1) ready_okD(1,2) [OF k] by (cases "u = t") auto
  ultimately show ?thesis by (simp add: ready_ok_def)
qed

lemma ready_ok_thread:
  assumes k: "ready_ok k" and t: "threads k t = Some th" "threads k' = (threads k)(t \<mapsto> th')"
    and q: "queues_of k' = queues_of k"
    and same: "core_id th' = core_id th" "nominal_priority th' \<le> 63"
      "current_priority th' = current_priority th" "status th' = Ready \<longleftrightarrow> status th = Ready"
  shows "ready_ok k'"
proof (rule ready_ok_change [OF k t same(1,2)])
  show "queues_of k' = (queues_of k)[core_id th := queues_of k ! core_id th]" by (simp add: q)
  show "queue_ok (threads k') (core_id th) (queues_of k ! core_id th)"
    unfolding t(2) using queue_ok_other [OF ready_okD(4) [OF k t(1)] t(1) same(1)] same by simp
qed

section \<open>What operations on priorities leave alone\<close>

definition bare_thread :: "thread \<Rightarrow> thread" where
  "bare_thread th = th\<lparr>current_priority := 0, pending_mutexes := []\<rparr>"

definition bare_object :: "kobject \<Rightarrow> kobject" where
  "bare_object ob = (case ob of KMutex m \<Rightarrow> KMutex (m\<lparr>mutex_priority := 0\<rparr>) | _ \<Rightarrow> ob)"

definition bare :: "('s, 'g, 'e) kernel \<Rightarrow> ('s, 'g, 'e) kernel" where
  "bare k = k\<lparr>threads := (\<lambda>t. map_option bare_thread (threads k t)),
     managers := map (\<lambda>m. m\<lparr>ready_queue := tql_new 0\<rparr>) (managers k),
     sync_objects := (\<lambda>a. map_option bare_object (sync_objects k a))\<rparr>"

lemma upd_ready_queues [simp]:
  "queues_of (upd_ready c f k) = (queues_of k)[c := f (queues_of k ! c)]"
  by (cases "c < length (managers k)")
    (simp_all add: queues_of_def upd_ready_def upd_manager_def map_update list_update_beyond)

lemma upd_ready_sel [simp]:
  "threads (upd_ready c f k) = threads k" "sync_objects (upd_ready c f k) = sync_objects k"
  "waiting_threads (upd_ready c f k) = waiting_threads k"
  by (simp_all add: upd_ready_def upd_manager_def)

lemma upd_thread_sel [simp]:
  "threads k t = Some th \<Longrightarrow> threads (upd_thread t f k) = (threads k)(t \<mapsto> f th)"
  "queues_of (upd_thread t f k) = queues_of k" "sync_objects (upd_thread t f k) = sync_objects k"
  "waiting_threads (upd_thread t f k) = waiting_threads k" "managers (upd_thread t f k) = managers k"
  by (simp_all add: upd_thread_def queues_of_def)

lemma set_object_sel [simp]:
  "threads (set_object a ob k) = threads k" "queues_of (set_object a ob k) = queues_of k"
  "waiting_threads (set_object a ob k) = waiting_threads k"
  "sync_objects (set_object a ob k) = (sync_objects k)(a \<mapsto> ob)"
  "managers (set_object a ob k) = managers k"
  by (simp_all add: set_object_def queues_of_def)

lemma bare_upd_ready [simp]: "bare (upd_ready c f k) = bare k"
proof -
  have "map (\<lambda>m. m\<lparr>ready_queue := tql_new 0\<rparr>) ((managers k)[c := (managers k ! c)\<lparr>ready_queue := q\<rparr>]) =
      map (\<lambda>m. m\<lparr>ready_queue := tql_new 0\<rparr>) (managers k)" for q
    by (cases "c < length (managers k)")
      (simp_all add: map_update list_update_beyond list_update_same_conv)
  then show ?thesis by (simp add: bare_def upd_ready_def upd_manager_def)
qed

lemma bare_priority [simp]: "bare (upd_thread t (\<lambda>th. th\<lparr>current_priority := p\<rparr>) k) = bare k"
proof -
  have "(\<lambda>u. map_option bare_thread (threads (upd_thread t (\<lambda>th. th\<lparr>current_priority := p\<rparr>) k) u)) =
      (\<lambda>u. map_option bare_thread (threads k u))"
    by (auto simp: upd_thread_def bare_thread_def fun_eq_iff option.map_comp comp_def
        intro: option.map_cong)
  then show ?thesis by (simp add: bare_def upd_thread_def)
qed

lemma BoostPriority_ok:
  assumes k: "ready_ok k" and t: "threads k t = Some th" and p: "p \<le> 63"
  shows "\<exists>k'. BoostPriority t p k = Some k' \<and> ready_ok k' \<and> bare k' = bare k \<and>
    sync_objects k' = sync_objects k \<and> threads k' = (threads k)(t \<mapsto> th\<lparr>current_priority := p\<rparr>)"
proof -
  note D = ready_okD [OF k t]
  let ?c = "core_id th"
  define f where "f = (if status th = Ready then tql_move t (current_priority th) p else tql_prepare p)"
  let ?k = "upd_thread t (\<lambda>th. th\<lparr>current_priority := p\<rparr>) (upd_ready ?c f k)"
  have b: "BoostPriority t p k = Some ?k" by (simp add: BoostPriority_def t f_def)
  have th: "threads ?k = (threads k)(t \<mapsto> th\<lparr>current_priority := p\<rparr>)" using t by simp
  have "queue_ok ((threads k)(t \<mapsto> th\<lparr>current_priority := p\<rparr>)) ?c (f (queues_of k ! ?c))"
    using queue_ok_move [OF D(4) t refl _ p, of "th\<lparr>current_priority := p\<rparr>"]
      queue_ok_prepare [OF D(4) t refl _ p, of "th\<lparr>current_priority := p\<rparr>"]
    by (simp add: f_def)
  then have "ready_ok ?k"
    using th D(2) by (intro ready_ok_change [OF k t th, of "f (queues_of k ! ?c)"]) simp_all
  with b th show ?thesis by simp
qed
section \<open>Waiting lists and mutexes\<close>

definition known :: "('s, 'g, 'e) kernel \<Rightarrow> oref \<Rightarrow> bool" where
  "known k ob \<longleftrightarrow> (case ob of RThread x \<Rightarrow> threads k x \<noteq> None | RObj a \<Rightarrow> sync_objects k a \<noteq> None)"

definition waiting_status :: "ThreadStatus \<Rightarrow> bool" where
  "waiting_status s \<longleftrightarrow> s = WaitSynchAny \<or> s = WaitSynchAll \<or> s = WaitHleEvent"

definition wait_ok :: "('s, 'g, 'e) kernel \<Rightarrow> bool" where
  "wait_ok k \<longleftrightarrow> (\<forall>ob. distinct (waiting_threads k ob)) \<and>
     (\<forall>ob. \<forall>t \<in> set (waiting_threads k ob). \<exists>th. threads k t = Some th \<and> ob \<in> set (wait_objects th) \<and>
       waiting_status (status th)) \<and>
     (\<forall>t th. threads k t = Some th \<longrightarrow> (\<forall>ob \<in> set (wait_objects th). known k ob))"

definition holders_ok :: "('s, 'g, 'e) kernel \<Rightarrow> bool" where
  "holders_ok k \<longleftrightarrow>
     (\<forall>a m t. mutex_of k a = Some m \<longrightarrow> holding_thread m = Some t \<longrightarrow>
       (\<exists>th. threads k t = Some th \<and> a \<in> set (held_mutexes th))) \<and>
     (\<forall>t th. threads k t = Some th \<longrightarrow> (\<forall>a \<in> set (held_mutexes th).
       \<exists>m. mutex_of k a = Some m \<and> holding_thread m = Some t))"

definition counts_ok :: "('s, 'g, 'e) kernel \<Rightarrow> bool" where
  "counts_ok k \<longleftrightarrow> (\<forall>a m. mutex_of k a = Some m \<longrightarrow>
     0 \<le> sint (lock_count m) \<and> (lock_count m = 0 \<longleftrightarrow> holding_thread m = None))"

definition kernel_ok :: "('s, 'g, 'e) kernel \<Rightarrow> bool" where
  "kernel_ok k \<longleftrightarrow> ready_ok k \<and> wait_ok k \<and> holders_ok k \<and> counts_ok k"

text \<open>Two states that differ only in priorities and ready queues.\<close>

lemma bareD:
  assumes "bare k' = bare k"
  shows "waiting_threads k' = waiting_threads k"
    and "map_option bare_thread (threads k' t) = map_option bare_thread (threads k t)"
    and "map_option bare_object (sync_objects k' a) = map_option bare_object (sync_objects k a)"
    and "timing_of k' = timing_of k" and "processes k' = processes k" and "outside k' = outside k"
    and "kernel_memory k' = kernel_memory k" and "current_cpu k' = current_cpu k"
    and "current_process k' = current_process k" and "memory_pages k' = memory_pages k"
    and "arbiter_threads k' = arbiter_threads k"
proof -
  show "waiting_threads k' = waiting_threads k"
    using arg_cong [OF assms, of waiting_threads] by (simp add: bare_def)
  show "map_option bare_thread (threads k' t) = map_option bare_thread (threads k t)"
    using fun_cong [OF arg_cong [OF assms, of threads], of t] by (simp add: bare_def)
  show "map_option bare_object (sync_objects k' a) = map_option bare_object (sync_objects k a)"
    using fun_cong [OF arg_cong [OF assms, of sync_objects], of a] by (simp add: bare_def)
  show "timing_of k' = timing_of k"
    using arg_cong [OF assms, of timing_of] by (simp add: bare_def)
  show "processes k' = processes k"
    using arg_cong [OF assms, of processes] by (simp add: bare_def)
  show "outside k' = outside k"
    using arg_cong [OF assms, of outside] by (simp add: bare_def)
  show "kernel_memory k' = kernel_memory k"
    using arg_cong [OF assms, of kernel_memory] by (simp add: bare_def)
  show "current_cpu k' = current_cpu k"
    using arg_cong [OF assms, of current_cpu] by (simp add: bare_def)
  show "current_process k' = current_process k"
    using arg_cong [OF assms, of current_process] by (simp add: bare_def)
  show "memory_pages k' = memory_pages k"
    using arg_cong [OF assms, of memory_pages] by (simp add: bare_def)
  show "arbiter_threads k' = arbiter_threads k"
    using arg_cong [OF assms, of arbiter_threads] by (simp add: bare_def)
qed

lemma bare_threadD:
  assumes "bare k' = bare k"
  shows "threads k' t = Some th' \<Longrightarrow> \<exists>th. threads k t = Some th \<and> bare_thread th = bare_thread th'"
    and "threads k t = Some th \<Longrightarrow> \<exists>th'. threads k' t = Some th' \<and> bare_thread th' = bare_thread th"
  using bareD(2) [OF assms, of t] by (auto simp: map_option_case split: option.splits)

lemma bare_thread_sel [simp]:
  "status (bare_thread th) = status th" "wait_objects (bare_thread th) = wait_objects th"
  "held_mutexes (bare_thread th) = held_mutexes th" "core_id (bare_thread th) = core_id th"
  "nominal_priority (bare_thread th) = nominal_priority th"
  "wakeup_callback (bare_thread th) = wakeup_callback th"
  "th_context (bare_thread th) = th_context th" "thread_id (bare_thread th) = thread_id th"
  by (simp_all add: bare_thread_def)

lemma bare_thread_eqD:
  assumes "bare_thread a = bare_thread b"
  shows "status a = status b" and "wait_objects a = wait_objects b"
    and "held_mutexes a = held_mutexes b" and "core_id a = core_id b"
    and "nominal_priority a = nominal_priority b" and "wakeup_callback a = wakeup_callback b"
    and "th_context a = th_context b"
proof -
  show "status a = status b" using arg_cong [OF assms, of status] by simp
  show "wait_objects a = wait_objects b" using arg_cong [OF assms, of wait_objects] by simp
  show "held_mutexes a = held_mutexes b" using arg_cong [OF assms, of held_mutexes] by simp
  show "core_id a = core_id b" using arg_cong [OF assms, of core_id] by simp
  show "nominal_priority a = nominal_priority b" using arg_cong [OF assms, of nominal_priority] by simp
  show "wakeup_callback a = wakeup_callback b" using arg_cong [OF assms, of wakeup_callback] by simp
  show "th_context a = th_context b" using arg_cong [OF assms, of th_context] by simp
qed

lemma bare_threads [simp]: "threads (bare k) t = map_option bare_thread (threads k t)"
  by (simp add: bare_def)

lemma bare_waiting [simp]: "waiting_threads (bare k) = waiting_threads k"
  by (simp add: bare_def)

lemma bare_known [simp]: "known (bare k) ob = known k ob"
  by (simp add: known_def bare_def split: oref.splits)

lemma bare_mutex: "mutex_of (bare k) a = map_option (\<lambda>m. m\<lparr>mutex_priority := 0\<rparr>) (mutex_of k a)"
  by (simp add: mutex_of_def bare_def bare_object_def split: option.splits kobject.splits)

lemma image_quantifiers:
  "(\<exists>y. (\<exists>x. A x \<and> f x = y) \<and> P y) \<longleftrightarrow> (\<exists>x. A x \<and> P (f x))"
  "(\<forall>y. (\<exists>x. A x \<and> f x = y) \<longrightarrow> P y) \<longleftrightarrow> (\<forall>x. A x \<longrightarrow> P (f x))"
  "(\<forall>a y. (\<exists>x. B a x \<and> g x = y) \<longrightarrow> Q a y) \<longleftrightarrow> (\<forall>a x. B a x \<longrightarrow> Q a (g x))"
  by auto

lemma bare_wait_ok [simp]: "wait_ok (bare k) = wait_ok k"
  by (simp add: wait_ok_def image_quantifiers)

lemma bare_holders_ok [simp]: "holders_ok (bare k) = holders_ok k"
  by (simp add: holders_ok_def bare_mutex image_quantifiers)

lemma bare_counts_ok [simp]: "counts_ok (bare k) = counts_ok k"
  by (simp add: counts_ok_def bare_mutex image_quantifiers)

lemma bare_same:
  assumes "bare k' = bare k"
  shows "wait_ok k' = wait_ok k" and "holders_ok k' = holders_ok k" and "counts_ok k' = counts_ok k"
    and "known k' ob = known k ob"
  using arg_cong [OF assms, of wait_ok] arg_cong [OF assms, of holders_ok]
    arg_cong [OF assms, of counts_ok] arg_cong [OF assms, of "\<lambda>k. known k ob"] by simp_all
lemma holders_okD:
  assumes "holders_ok k"
  shows "mutex_of k a = Some m \<Longrightarrow> holding_thread m = Some t \<Longrightarrow>
      \<exists>th. threads k t = Some th \<and> a \<in> set (held_mutexes th)"
    and "threads k t = Some th \<Longrightarrow> a \<in> set (held_mutexes th) \<Longrightarrow>
      \<exists>m. mutex_of k a = Some m \<and> holding_thread m = Some t"
  using assms unfolding holders_ok_def by blast+

lemma wait_okD:
  assumes "wait_ok k"
  shows "distinct (waiting_threads k ob)"
    and "t \<in> set (waiting_threads k ob) \<Longrightarrow>
      \<exists>th. threads k t = Some th \<and> ob \<in> set (wait_objects th) \<and> waiting_status (status th)"
    and "threads k t = Some th \<Longrightarrow> ob \<in> set (wait_objects th) \<Longrightarrow> known k ob"
  using assms unfolding wait_ok_def by blast+

section \<open>Priority inheritance\<close>

definition prio_of :: "('s, 'g, 'e) kernel \<Rightarrow> nat \<Rightarrow> nat" where
  "prio_of k a = (case mutex_of k a of Some m \<Rightarrow> mutex_priority m | None \<Rightarrow> 64)"

text \<open>The better of a thread's nominal priority and the priorities of the mutexes it holds.\<close>

definition inherited :: "('s, 'g, 'e) kernel \<Rightarrow> thread \<Rightarrow> nat" where
  "inherited k th = Min (insert (nominal_priority th) (prio_of k ` set (held_mutexes th)))"

lemma Min_insert_fold:
  assumes "finite S"
  shows "Min (insert (b :: nat) (insert c S)) = Min (insert (if c < b then c else b) S)"
  using assms by (cases "S = {}") (auto simp: min_def)

lemma best_mutex_priority_Min:
  assumes "\<forall>a \<in> set ms. mutex_of k a \<noteq> None"
  shows "best_mutex_priority k ms b = Some (Min (insert b (prio_of k ` set ms)))"
  using assms
proof (induction ms arbitrary: b)
  case (Cons a ms)
  then obtain m where m: "mutex_of k a = Some m" by auto
  have p: "prio_of k a = mutex_priority m" by (simp add: prio_of_def m)
  show ?case
    using Cons Min_insert_fold [of "prio_of k ` set ms" b "mutex_priority m"] by (simp add: m p)
qed simp

lemma inherited_le: "inherited k th \<le> nominal_priority th"
  by (simp add: inherited_def)

lemma Thread_UpdatePriority_ok:
  assumes k: "ready_ok k" and t: "threads k t = Some th"
    and held: "\<forall>a \<in> set (held_mutexes th). mutex_of k a \<noteq> None"
  shows "\<exists>k'. Thread_UpdatePriority t k = Some k' \<and> ready_ok k' \<and> bare k' = bare k \<and>
    sync_objects k' = sync_objects k \<and>
    threads k' = (threads k)(t \<mapsto> th\<lparr>current_priority := inherited k th\<rparr>)"
proof -
  have "inherited k th \<le> 63"
    using inherited_le [of k th] ready_okD(2) [OF k t] by simp
  from BoostPriority_ok [OF k t this] show ?thesis
    by (simp add: Thread_UpdatePriority_def t best_mutex_priority_Min [OF held] inherited_def)
qed

lemma best_waiter_priority_total:
  "\<forall>t \<in> set ts. threads k t \<noteq> None \<Longrightarrow> \<exists>p. best_waiter_priority k ts b = Some p \<and> p \<le> b \<and>
     (\<forall>t \<in> set ts. p \<le> current_priority (the (threads k t)))"
proof (induction ts arbitrary: b)
  case (Cons t ts)
  then obtain th where t: "threads k t = Some th" by auto
  let ?b = "if current_priority th < b then current_priority th else b"
  obtain p where p: "best_waiter_priority k ts ?b = Some p" "p \<le> ?b"
      "\<forall>t \<in> set ts. p \<le> current_priority (the (threads k t))"
    using Cons.IH [of ?b] Cons.prems by auto
  then show ?case by (auto simp: t split: if_splits)
qed simp

lemma mutex_of_set_object:
  "mutex_of (set_object a ob k) b =
     (if b = a then (case ob of KMutex m \<Rightarrow> Some m | _ \<Rightarrow> None) else mutex_of k b)"
  by (auto simp: mutex_of_def set_object_def split: kobject.splits)

lemma mutex_of_cong: "sync_objects k' = sync_objects k \<Longrightarrow> mutex_of k' a = mutex_of k a"
  by (simp add: mutex_of_def)

lemma bare_set_priority:
  assumes "mutex_of k a = Some m"
  shows "bare (set_object a (KMutex (m\<lparr>mutex_priority := p\<rparr>)) k) = bare k"
proof -
  have "sync_objects k a = Some (KMutex m)"
    using assms by (auto simp: mutex_of_def split: option.splits kobject.splits)
  then have "(\<lambda>b. map_option bare_object (((sync_objects k)(a \<mapsto> KMutex (m\<lparr>mutex_priority := p\<rparr>))) b)) =
      (\<lambda>b. map_option bare_object (sync_objects k b))"
    by (auto simp: fun_eq_iff bare_object_def)
  then show ?thesis by (simp add: bare_def set_object_def)
qed

definition waiters_known :: "('s, 'g, 'e) kernel \<Rightarrow> nat \<Rightarrow> bool" where
  "waiters_known k a \<longleftrightarrow> (\<forall>t \<in> set (waiting_threads k (RObj a)). threads k t \<noteq> None)"

lemma Mutex_UpdatePriority_ok:
  assumes k: "ready_ok k" and m: "mutex_of k a = Some m" and w: "waiters_known k a"
    and h: "holders_ok k"
  shows "\<exists>k'. Mutex_UpdatePriority a k = Some k' \<and> ready_ok k' \<and> bare k' = bare k"
proof (cases "holding_thread m")
  case None
  then show ?thesis using k by (simp add: Mutex_UpdatePriority_def m)
next
  case (Some t)
  then obtain th where t: "threads k t = Some th" using holders_okD(1) [OF h m] by blast
  obtain p where p: "best_waiter_priority k (waiting_threads k (RObj a)) ThreadPrioLowest = Some p"
    using best_waiter_priority_total w unfolding waiters_known_def by blast
  let ?k = "set_object a (KMutex (m\<lparr>mutex_priority := p\<rparr>)) k"
  have "ready_ok ?k" using k ready_ok_cong [of ?k k] by simp
  moreover have "\<forall>b \<in> set (held_mutexes th). mutex_of ?k b \<noteq> None"
    using holders_okD(2) [OF h t] by (fastforce simp: mutex_of_set_object)
  moreover have "threads ?k t = Some th" using t by simp
  ultimately obtain k' where "Thread_UpdatePriority t ?k = Some k'" "ready_ok k'" "bare k' = bare ?k"
    using Thread_UpdatePriority_ok by blast
  then show ?thesis
    using k by (simp add: Mutex_UpdatePriority_def m Some p bare_set_priority [OF m])
qed

section \<open>Leaving waiting lists\<close>

text \<open>Every waiting thread exists: what the operations on waiting lists need of \<open>wait_ok\<close>, which does
  not hold while a thread is leaving.\<close>

definition lists_ok :: "('s, 'g, 'e) kernel \<Rightarrow> bool" where
  "lists_ok k \<longleftrightarrow> (\<forall>ob. \<forall>t \<in> set (waiting_threads k ob). threads k t \<noteq> None)"

lemma wait_ok_lists: "wait_ok k \<Longrightarrow> lists_ok k"
  unfolding lists_ok_def using wait_okD(2) by fastforce

lemma set_waiting_sel [simp]:
  "threads (set_waiting ob ts k) = threads k" "queues_of (set_waiting ob ts k) = queues_of k"
  "sync_objects (set_waiting ob ts k) = sync_objects k"
  "waiting_threads (set_waiting ob ts k) = (waiting_threads k)(ob := ts)"
  by (simp_all add: set_waiting_def queues_of_def)

lemma bare_set_waiting:
  "bare (set_waiting ob ts k) = set_waiting ob ts (bare k)"
  by (simp add: bare_def set_waiting_def)

lemma bare_pending [simp]: "bare (upd_thread t (\<lambda>th. th\<lparr>pending_mutexes := f th\<rparr>) k) = bare k"
proof -
  have "(\<lambda>u. map_option bare_thread (threads (upd_thread t (\<lambda>th. th\<lparr>pending_mutexes := f th\<rparr>) k) u)) =
      (\<lambda>u. map_option bare_thread (threads k u))"
    by (auto simp: upd_thread_def bare_thread_def fun_eq_iff option.map_comp comp_def
        intro: option.map_cong)
  then show ?thesis by (simp add: bare_def upd_thread_def)
qed

lemma is_mutex_Some:
  "is_mutex k ob = Some a \<longleftrightarrow> ob = RObj a \<and> mutex_of k a \<noteq> None"
  by (auto simp: is_mutex_def mutex_of_def split: oref.splits option.splits kobject.splits)

lemma update_waiting_ok:
  assumes k: "ready_ok k" "holders_ok k" "lists_ok k" and t: "threads k t = Some th"
    and ts: "\<forall>u \<in> set ts. threads k u \<noteq> None"
    and r: "r = (case is_mutex (set_waiting ob ts k) ob of None \<Rightarrow> Some (set_waiting ob ts k)
      | Some a \<Rightarrow> Mutex_UpdatePriority a
          (upd_thread t (\<lambda>th. th\<lparr>pending_mutexes := f a (pending_mutexes th)\<rparr>) (set_waiting ob ts k)))"
  shows "\<exists>k'. r = Some k' \<and> ready_ok k' \<and> bare k' = bare (set_waiting ob ts k)"
proof (cases "is_mutex (set_waiting ob ts k) ob")
  case None
  have "ready_ok (set_waiting ob ts k)" using k(1) ready_ok_cong [of "set_waiting ob ts k" k] by simp
  then show ?thesis using None r by simp
next
  case (Some a)
  let ?k = "upd_thread t (\<lambda>th. th\<lparr>pending_mutexes := f a (pending_mutexes th)\<rparr>) (set_waiting ob ts k)"
  have b: "bare ?k = bare (set_waiting ob ts k)" by simp
  have m: "ob = RObj a" "mutex_of ?k a \<noteq> None"
    using Some mutex_of_cong [of ?k k] mutex_of_cong [of "set_waiting ob ts k" k]
    by (simp_all add: is_mutex_Some)
  have th: "threads ?k = (threads k)(t \<mapsto> th\<lparr>pending_mutexes := f a (pending_mutexes th)\<rparr>)"
    using t by simp
  have "ready_ok ?k"
    using th ready_okD(2) [OF k(1) t] by (intro ready_ok_thread [OF k(1) t th]) simp_all
  moreover have "waiters_known ?k a"
    using ts k(3) t by (auto simp: waiters_known_def m(1) lists_ok_def)
  moreover have "holders_ok (set_waiting ob ts k)"
    using k(2) by (simp add: holders_ok_def mutex_of_cong [of "set_waiting ob ts k" k])
  then have "holders_ok ?k" using bare_same(2) [OF b] by simp
  ultimately show ?thesis
    using Mutex_UpdatePriority_ok m(2) r Some b by fastforce
qed

lemma RemoveWaitingThread_ok:
  assumes k: "ready_ok k" "holders_ok k" "lists_ok k" and t: "threads k t = Some th"
  shows "\<exists>k'. RemoveWaitingThread ob t k = Some k' \<and> ready_ok k' \<and>
    bare k' = bare (set_waiting ob (remove1 t (waiting_threads k ob)) k)"
proof (rule update_waiting_ok [OF k t])
  show "\<forall>u \<in> set (remove1 t (waiting_threads k ob)). threads k u \<noteq> None"
    using k(3) by (auto simp: lists_ok_def dest: notin_set_remove1)
qed (simp add: RemoveWaitingThread_def Let_def)

lemma AddWaitingThread_ok:
  assumes k: "ready_ok k" "holders_ok k" "lists_ok k" and t: "threads k t = Some th"
  shows "\<exists>k'. AddWaitingThread ob t k = Some k' \<and> ready_ok k' \<and>
    bare k' = bare (set_waiting ob (if t \<in> set (waiting_threads k ob) then waiting_threads k ob
      else waiting_threads k ob @ [t]) k)"
proof (rule update_waiting_ok [OF k t])
  let ?ts = "if t \<in> set (waiting_threads k ob) then waiting_threads k ob else waiting_threads k ob @ [t]"
  show "\<forall>u \<in> set ?ts. threads k u \<noteq> None"
    using k(3) t by (auto simp: lists_ok_def)
  have "set_waiting ob (waiting_threads k ob) k = k" by (simp add: set_waiting_def)
  then show "AddWaitingThread ob t k =
    (case is_mutex (set_waiting ob ?ts k) ob of None \<Rightarrow> Some (set_waiting ob ?ts k)
     | Some a \<Rightarrow> Mutex_UpdatePriority a
        (upd_thread t (\<lambda>th. th\<lparr>pending_mutexes := insert_sorted a (pending_mutexes th)\<rparr>)
          (set_waiting ob ?ts k)))"
    by (simp add: AddWaitingThread_def Let_def split: option.split)
qed
definition drop_waits :: "nat \<Rightarrow> oref list \<Rightarrow> ('s, 'g, 'e) kernel \<Rightarrow> ('s, 'g, 'e) kernel" where
  "drop_waits t obs k = k\<lparr>waiting_threads := (\<lambda>ob. if ob \<in> set obs then removeAll t (waiting_threads k ob)
     else waiting_threads k ob)\<rparr>"

lemma bare_waiting_update:
  "bare (k\<lparr>waiting_threads := w\<rparr>) = (bare k)\<lparr>waiting_threads := w\<rparr>"
  by (simp add: bare_def)

lemma lists_ok_bare:
  assumes "bare k' = bare k"
  shows "lists_ok k' = lists_ok k"
proof -
  have "threads k' t = None \<longleftrightarrow> threads k t = None" for t
    using bareD(2) [OF assms, of t] by (metis map_option_is_None)
  then show ?thesis using bareD(1) [OF assms] by (simp add: lists_ok_def)
qed

lemma holders_ok_waiting [simp]: "holders_ok (set_waiting ob ts k) = holders_ok k"
  by (simp add: holders_ok_def mutex_of_cong [of "set_waiting ob ts k" k])

lemma Remove_all_ok:
  assumes "ready_ok k" "holders_ok k" "lists_ok k" and "\<And>ob. distinct (waiting_threads k ob)"
    and "threads k t \<noteq> None"
  shows "\<exists>k'. Remove_all obs t k = Some k' \<and> ready_ok k' \<and> bare k' = drop_waits t obs (bare k)"
  using assms
proof (induction obs arbitrary: k)
  case Nil
  then show ?case by (simp add: drop_waits_def)
next
  case (Cons ob obs)
  then obtain th where t: "threads k t = Some th" by auto
  obtain k1 where k1: "RemoveWaitingThread ob t k = Some k1" "ready_ok k1"
      "bare k1 = bare (set_waiting ob (remove1 t (waiting_threads k ob)) k)"
    using RemoveWaitingThread_ok [OF Cons.prems(1-3) t] by blast
  have w: "waiting_threads k1 = (waiting_threads k)(ob := removeAll t (waiting_threads k ob))"
    using bareD(1) [OF k1(3)] distinct_remove1_removeAll [OF Cons.prems(4)] by simp
  have "lists_ok (set_waiting ob (remove1 t (waiting_threads k ob)) k)"
    using Cons.prems(3) by (auto simp: lists_ok_def dest: notin_set_remove1)
  then have l: "lists_ok k1" using lists_ok_bare [OF k1(3)] by simp
  have h: "holders_ok k1" using bare_same(2) [OF k1(3)] Cons.prems(2) by simp
  have "distinct (waiting_threads k1 ob')" for ob'
    using Cons.prems(4) by (simp add: w distinct_removeAll)
  moreover have "threads k1 t \<noteq> None"
    using bare_threadD(2) [OF k1(3), of t th] t by auto
  ultimately obtain k2 where k2: "Remove_all obs t k1 = Some k2" "ready_ok k2"
      "bare k2 = drop_waits t obs (bare k1)"
    using Cons.IH [OF k1(2) h l] by blast
  have "drop_waits t obs (bare k1) = drop_waits t (ob # obs) (bare k)"
    using distinct_remove1_removeAll [OF Cons.prems(4)]
    by (simp add: k1(3) bare_waiting_update set_waiting_def drop_waits_def fun_eq_iff)
  with k1(1) k2 show ?case by simp
qed

text \<open>The state after a thread has left everything it waited for.\<close>

definition left_by :: "nat \<Rightarrow> ('s, 'g, 'e) kernel \<Rightarrow> ('s, 'g, 'e) kernel" where
  "left_by t k = upd_thread t (\<lambda>th. th\<lparr>wait_objects := []\<rparr>)
     (k\<lparr>waiting_threads := (\<lambda>ob. removeAll t (waiting_threads k ob))\<rparr>)"

lemma left_by_threads:
  "threads k t = Some th \<Longrightarrow> threads (left_by t k) = (threads k)(t \<mapsto> th\<lparr>wait_objects := []\<rparr>)"
  by (simp add: left_by_def upd_thread_def)

lemma left_by_sel [simp]:
  "waiting_threads (left_by t k) ob = removeAll t (waiting_threads k ob)"
  "sync_objects (left_by t k) = sync_objects k" "queues_of (left_by t k) = queues_of k"
  by (simp_all add: left_by_def upd_thread_def queues_of_def)

lemma bare_upd_thread:
  assumes "\<And>th. bare_thread (f th) = f (bare_thread th)"
  shows "bare (upd_thread t f k) = upd_thread t f (bare k)"
proof -
  have "(\<lambda>u. map_option bare_thread (threads (upd_thread t f k) u)) = threads (upd_thread t f (bare k))"
    by (auto simp: upd_thread_def fun_eq_iff option.map_comp comp_def assms intro: option.map_cong)
  then show ?thesis by (simp add: bare_def upd_thread_def)
qed

lemma bare_left_by: "bare (left_by t k) = left_by t (bare k)"
proof -
  have "bare (left_by t k) = upd_thread t (\<lambda>th. th\<lparr>wait_objects := []\<rparr>)
      (bare (k\<lparr>waiting_threads := (\<lambda>ob. removeAll t (waiting_threads k ob))\<rparr>))"
    unfolding left_by_def by (rule bare_upd_thread) (simp add: bare_thread_def)
  then show ?thesis by (simp add: left_by_def bare_waiting_update)
qed

lemma leave_waits_ok:
  assumes k: "kernel_ok k" and t: "threads k t = Some th"
  shows "\<exists>k'. leave_waits t k = Some k' \<and> ready_ok k' \<and> bare k' = bare (left_by t k)"
proof -
  have inv: "ready_ok k" "wait_ok k" "holders_ok k" using k by (simp_all add: kernel_ok_def)
  obtain k1 where k1: "Remove_all (wait_objects th) t k = Some k1" "ready_ok k1"
      "bare k1 = drop_waits t (wait_objects th) (bare k)"
    using Remove_all_ok [OF inv(1,3) wait_ok_lists [OF inv(2)] wait_okD(1) [OF inv(2)], of t "wait_objects th"]
      t by blast
  have "removeAll t (waiting_threads k ob) = waiting_threads k ob" if "ob \<notin> set (wait_objects th)" for ob
    using wait_okD(2) [OF inv(2), of t ob] that t by (auto intro: removeAll_id)
  then have d: "drop_waits t (wait_objects th) (bare k) =
      (bare k)\<lparr>waiting_threads := (\<lambda>ob. removeAll t (waiting_threads k ob))\<rparr>"
    by (simp add: drop_waits_def fun_eq_iff)
  let ?k = "upd_thread t (\<lambda>th. th\<lparr>wait_objects := []\<rparr>) k1"
  have "threads (bare k1) t = threads (bare k) t"
    by (simp only: k1(3)) (simp add: drop_waits_def)
  then obtain th1 where th1: "threads k1 t = Some th1" using t by auto
  have "ready_ok ?k"
    using th1 ready_okD(2) [OF k1(2) th1]
    by (intro ready_ok_thread [OF k1(2) th1, of _ "th1\<lparr>wait_objects := []\<rparr>"]) simp_all
  moreover have "bare ?k = left_by t (bare k)"
    using bare_upd_thread [of "\<lambda>th. th\<lparr>wait_objects := []\<rparr>" t k1]
    by (simp add: bare_thread_def k1(3) d left_by_def)
  ultimately show ?thesis using k1(1) t by (simp add: leave_waits_def bare_left_by)
qed
section \<open>What stays while threads are woken\<close>

definition same_managers :: "('s, 'g, 'e) kernel \<Rightarrow> ('s, 'g, 'e) kernel \<Rightarrow> bool" where
  "same_managers k k' \<longleftrightarrow> map (\<lambda>m. (current_thread m, unscheduled_ready_queue m)) (managers k') =
     map (\<lambda>m. (current_thread m, unscheduled_ready_queue m)) (managers k)"

lemma same_managersD:
  assumes "same_managers k k'"
  shows "length (managers k') = length (managers k)"
    and "i < length (managers k) \<Longrightarrow> current_thread (managers k' ! i) = current_thread (managers k ! i)"
    and "i < length (managers k) \<Longrightarrow>
      unscheduled_ready_queue (managers k' ! i) = unscheduled_ready_queue (managers k ! i)"
proof -
  note m = assms [unfolded same_managers_def]
  show l: "length (managers k') = length (managers k)" using arg_cong [OF m, of length] by simp
  show "i < length (managers k) \<Longrightarrow> current_thread (managers k' ! i) = current_thread (managers k ! i)"
    "i < length (managers k) \<Longrightarrow>
      unscheduled_ready_queue (managers k' ! i) = unscheduled_ready_queue (managers k ! i)"
    using arg_cong [OF m, of "\<lambda>ms. ms ! i"] l by simp_all
qed

lemma same_managersI:
  assumes "length (managers k') = length (managers k)"
    and "\<And>i. current_thread (managers k' ! i) = current_thread (managers k ! i) \<and>
      unscheduled_ready_queue (managers k' ! i) = unscheduled_ready_queue (managers k ! i)"
  shows "same_managers k k'"
  unfolding same_managers_def using assms by (intro nth_equalityI) simp_all

text \<open>No object or thread disappears, no thread begins to run or changes its core.\<close>

definition keeps :: "('s, 'g, 'e) kernel \<Rightarrow> ('s, 'g, 'e) kernel \<Rightarrow> bool" where
  "keeps k k' \<longleftrightarrow> same_managers k k' \<and> (\<forall>ob. known k ob \<longrightarrow> known k' ob) \<and>
     (\<forall>t th. threads k t = Some th \<longrightarrow> (\<exists>th'. threads k' t = Some th' \<and> core_id th' = core_id th)) \<and>
     (\<forall>t th. threads k' t = Some th \<longrightarrow> status th = Running \<longrightarrow>
       (\<exists>x. threads k t = Some x \<and> status x = Running \<and> core_id x = core_id th))"

lemma same_managers_refl [simp]: "same_managers k k"
  by (simp add: same_managers_def)

lemma same_managers_trans: "same_managers k k' \<Longrightarrow> same_managers k' k'' \<Longrightarrow> same_managers k k''"
  by (simp add: same_managers_def)

lemma same_managers_cong [simp]: "managers k' = managers k \<Longrightarrow> same_managers k k'"
  by (simp add: same_managers_def)

lemma keepsD:
  assumes "keeps k k'"
  shows "same_managers k k'" and "known k ob \<Longrightarrow> known k' ob"
    and "threads k t = Some th \<Longrightarrow> \<exists>th'. threads k' t = Some th' \<and> core_id th' = core_id th"
    and "threads k' t = Some th \<Longrightarrow> status th = Running \<Longrightarrow>
      \<exists>x. threads k t = Some x \<and> status x = Running \<and> core_id x = core_id th"
  using assms unfolding keeps_def by blast+

lemma keepsI:
  assumes "same_managers k k'" and "\<And>ob. known k ob \<Longrightarrow> known k' ob"
    and "\<And>t th. threads k t = Some th \<Longrightarrow> \<exists>th'. threads k' t = Some th' \<and> core_id th' = core_id th"
    and "\<And>t th. threads k' t = Some th \<Longrightarrow> status th = Running \<Longrightarrow>
      \<exists>x. threads k t = Some x \<and> status x = Running \<and> core_id x = core_id th"
  shows "keeps k k'"
  using assms unfolding keeps_def by blast

lemma keeps_trans:
  assumes "keeps k k'" and "keeps k' k''"
  shows "keeps k k''"
proof (rule keepsI)
  note A = keepsD [OF assms(1)] and B = keepsD [OF assms(2)]
  show "same_managers k k''" by (rule same_managers_trans [OF A(1) B(1)])
  show "known k ob \<Longrightarrow> known k'' ob" for ob using A(2) B(2) by blast
  show "\<exists>th'. threads k'' t = Some th' \<and> core_id th' = core_id th" if "threads k t = Some th" for t th
    using A(3) [OF that] B(3) by fastforce
  show "\<exists>x. threads k t = Some x \<and> status x = Running \<and> core_id x = core_id th"
    if "threads k'' t = Some th" "status th = Running" for t th
    using B(4) [OF that] A(4) by fastforce
qed

lemma manager_upd_ready [simp]:
  "current_thread (managers (upd_ready c f k) ! i) = current_thread (managers k ! i)"
  "unscheduled_ready_queue (managers (upd_ready c f k) ! i) = unscheduled_ready_queue (managers k ! i)"
  "length (managers (upd_ready c f k)) = length (managers k)"
  by (cases "i = c \<and> c < length (managers k)"; auto simp: upd_ready_def upd_manager_def nth_upd list_update_beyond)+

lemma same_managers_upd_ready [simp]: "same_managers k (upd_ready c f k)"
  by (rule same_managersI) simp_all

lemma bare_managers:
  assumes "bare k' = bare k"
  shows "same_managers k k'"
proof -
  have "map (\<lambda>m. m\<lparr>ready_queue := tql_new 0\<rparr>) (managers k') = map (\<lambda>m. m\<lparr>ready_queue := tql_new 0\<rparr>) (managers k)"
    using arg_cong [OF assms, of managers] by (simp add: bare_def)
  from arg_cong [OF this, of "map (\<lambda>m. (current_thread m, unscheduled_ready_queue m))"]
  show ?thesis by (simp add: same_managers_def comp_def)
qed

section \<open>Waking a thread\<close>

lemma holders_ok_thread:
  assumes "holders_ok k" "threads k t = Some th" "threads k' = (threads k)(t \<mapsto> th')"
    "held_mutexes th' = held_mutexes th" "sync_objects k' = sync_objects k"
  shows "holders_ok k'"
proof -
  note m = mutex_of_cong [OF assms(5)]
  have "\<exists>x. threads k' u = Some x \<and> a \<in> set (held_mutexes x)"
    if "mutex_of k' a = Some mu" "holding_thread mu = Some u" for a mu u
    using holders_okD(1) [OF assms(1), of a mu u] that assms(2-4) by (cases "u = t") (auto simp: m)
  moreover have "\<exists>mu. mutex_of k' a = Some mu \<and> holding_thread mu = Some u"
    if "threads k' u = Some x" "a \<in> set (held_mutexes x)" for u x a
    using holders_okD(2) [OF assms(1), of u] that assms(2-4) by (cases "u = t") (auto simp: m)
  ultimately show ?thesis by (simp add: holders_ok_def)
qed

lemma counts_ok_cong: "sync_objects k' = sync_objects k \<Longrightarrow> counts_ok k' = counts_ok k"
  by (simp add: counts_ok_def mutex_of_cong [of k' k])

text \<open>A thread that is in no waiting list changes.\<close>

lemma wait_ok_thread:
  assumes k: "wait_ok k" and t: "threads k t = Some th" "threads k' = (threads k)(t \<mapsto> th')"
    and new: "set (wait_objects th') \<subseteq> set (wait_objects th)" "\<And>ob. t \<notin> set (waiting_threads k ob)"
    and same: "waiting_threads k' = waiting_threads k"
      "\<And>a. sync_objects k a \<noteq> None \<Longrightarrow> sync_objects k' a \<noteq> None"
  shows "wait_ok k'"
proof -
  have known: "known k ob \<Longrightarrow> known k' ob" for ob
    using same(2) by (auto simp: known_def t(2) split: oref.splits)
  have "\<exists>x. threads k' u = Some x \<and> ob \<in> set (wait_objects x) \<and> waiting_status (status x)"
    if "u \<in> set (waiting_threads k' ob)" for ob u
    using wait_okD(2) [OF k, of u ob] that same(1) new(2) by (auto simp: t(2))
  moreover have "known k' ob" if "threads k' u = Some x" "ob \<in> set (wait_objects x)" for u x ob
    using wait_okD(3) [OF k, of u] wait_okD(3) [OF k t(1)] known that new(1)
    by (cases "u = t") (auto simp: t(2))
  ultimately show ?thesis using wait_okD(1) [OF k] by (simp add: wait_ok_def same(1))
qed

lemma wait_ok_left_by:
  assumes k: "wait_ok k" and t: "threads k t = Some th"
  shows "wait_ok (left_by t k)"
proof -
  have known: "known (left_by t k) ob = known k ob" for ob
    using t by (auto simp: known_def left_by_threads split: oref.splits)
  have "\<exists>x. threads (left_by t k) u = Some x \<and> ob \<in> set (wait_objects x) \<and> waiting_status (status x)"
    if "u \<in> set (waiting_threads (left_by t k) ob)" for ob u
    using wait_okD(2) [OF k, of u ob] that by (auto simp: left_by_threads [OF t])
  moreover have "known (left_by t k) ob"
    if "threads (left_by t k) u = Some x" "ob \<in> set (wait_objects x)" for u x ob
    using wait_okD(3) [OF k, of u] that known
    by (cases "u = t") (auto simp: left_by_threads [OF t])
  ultimately show ?thesis
    using wait_okD(1) [OF k] by (simp add: wait_ok_def distinct_removeAll)
qed

lemma ResumeFromWait_ok:
  assumes k: "ready_ok k" and t: "threads k t = Some th" "wait_objects th = []"
    and s: "status th \<noteq> Ready" "status th \<noteq> Running" "status th \<noteq> Dead"
  shows "\<exists>k'. ResumeFromWait t k = Some k' \<and> ready_ok k' \<and> reschedule_pending k' \<and>
    threads k' = (threads k)(t \<mapsto> th\<lparr>wakeup_callback := None, status := Ready\<rparr>) \<and>
    sync_objects k' = sync_objects k \<and> waiting_threads k' = waiting_threads k \<and> same_managers k k'"
proof -
  note D = ready_okD [OF k t(1)]
  let ?th = "th\<lparr>wakeup_callback := None, status := Ready\<rparr>"
  let ?q = "tql_push_back (current_priority th) t (queues_of k ! core_id th)"
  let ?k = "PrepareReschedule (upd_thread t (\<lambda>th. th\<lparr>status := Ready\<rparr>)
    (upd_ready (core_id th) (tql_push_back (current_priority th) t)
      (upd_thread t (\<lambda>th. th\<lparr>wakeup_callback := None\<rparr>) k)))"
  have r: "ResumeFromWait t k = Some ?k"
    using t s by (cases "status th") (simp_all add: ResumeFromWait_def Let_def)
  have th: "threads ?k = (threads k)(t \<mapsto> ?th)"
    using t(1) by (simp add: PrepareReschedule_def)
  have q: "queues_of ?k = (queues_of k)[core_id th := ?q]"
    using t(1) by (simp add: PrepareReschedule_def queues_of_def upd_ready_def upd_manager_def
      upd_thread_def map_update list_update_beyond)
      (metis (no_types, opaque_lifting) nth_map list_update_beyond not_le_imp_less length_map)
  have "ready_ok ?k"
  proof (rule ready_ok_change [OF k t(1) th _ _ q])
    show "queue_ok (threads ?k) (core_id th) ?q"
      unfolding th by (rule queue_ok_push [OF D(4) t(1) refl s(1)]) simp_all
  qed (simp_all add: D(2))
  moreover have "same_managers k ?k" by (rule same_managersI) (simp_all add: PrepareReschedule_def)
  ultimately show ?thesis using r th by (simp add: PrepareReschedule_def)
qed
text \<open>What waking a thread reads of a thread.\<close>

definition view :: "thread \<Rightarrow> ThreadStatus \<times> oref list \<times> nat \<times> wakeup_callback option" where
  "view th = (status th, wait_objects th, core_id th, wakeup_callback th)"

definition woken :: "nat \<Rightarrow> ('s, 'g, 'e) kernel \<Rightarrow> ('s, 'g, 'e) kernel \<Rightarrow> bool" where
  "woken t k k' \<longleftrightarrow> waiting_threads k' = (\<lambda>ob. removeAll t (waiting_threads k ob)) \<and>
     (\<forall>u. map_option view (threads k' u) =
       (if u = t then map_option (\<lambda>th. (Ready, [], core_id th, None)) (threads k u)
        else map_option view (threads k u)))"

lemma map_view_bare: "map_option view (map_option bare_thread x) = map_option view x"
  by (cases x) (simp_all add: view_def)

lemma bare_map_view:
  assumes "bare k' = bare k"
  shows "map_option view (threads k' u) = map_option view (threads k u)"
  using arg_cong [OF bareD(2) [OF assms, of u], of "map_option view"] by (simp only: map_view_bare)

lemma leave_resume_ok:
  assumes k: "kernel_ok k" and t: "threads k t = Some th"
    and s: "status th \<noteq> Ready" "status th \<noteq> Running" "status th \<noteq> Dead"
  shows "\<exists>k'. Option.bind (leave_waits t k) (ResumeFromWait t) = Some k' \<and> kernel_ok k' \<and>
    woken t k k' \<and> (\<exists>k1. bare k1 = bare (left_by t k) \<and> sync_objects k' = sync_objects k1) \<and>
    reschedule_pending k' \<and> keeps k k'"
proof -
  have inv: "ready_ok k" "wait_ok k" "holders_ok k" "counts_ok k"
    using k by (simp_all add: kernel_ok_def)
  obtain k1 where k1: "leave_waits t k = Some k1" "ready_ok k1" "bare k1 = bare (left_by t k)"
    using leave_waits_ok [OF k t] by blast
  have "threads (left_by t k) t = Some (th\<lparr>wait_objects := []\<rparr>)" by (simp add: left_by_threads [OF t])
  from bare_threadD(2) [OF k1(3) this] obtain th1
    where th1: "threads k1 t = Some th1" "bare_thread th1 = bare_thread (th\<lparr>wait_objects := []\<rparr>)"
    by blast
  note e = bare_thread_eqD [OF th1(2)]
  have e1: "wait_objects th1 = []" "status th1 = status th" "core_id th1 = core_id th"
    using e by simp_all
  obtain k2 where k2: "ResumeFromWait t k1 = Some k2" "ready_ok k2" "reschedule_pending k2"
      "threads k2 = (threads k1)(t \<mapsto> th1\<lparr>wakeup_callback := None, status := Ready\<rparr>)"
      "sync_objects k2 = sync_objects k1" "waiting_threads k2 = waiting_threads k1" "same_managers k1 k2"
    using ResumeFromWait_ok [OF k1(2) th1(1) e1(1)] e1(2) s by auto
  have w1: "waiting_threads k1 = (\<lambda>ob. removeAll t (waiting_threads k ob))"
    using bareD(1) [OF k1(3)] by (simp add: fun_eq_iff)
  have "wait_ok k1" using bare_same(1) [OF k1(3)] wait_ok_left_by [OF inv(2) t] by simp
  then have "wait_ok k2"
    by (rule wait_ok_thread [OF _ th1(1) k2(4)]) (simp_all add: e1 w1 k2(5,6))
  moreover have "holders_ok (left_by t k)"
    by (rule holders_ok_thread [OF inv(3) t left_by_threads [OF t]]) simp_all
  then have "holders_ok k1" using bare_same(2) [OF k1(3)] by simp
  then have "holders_ok k2" by (rule holders_ok_thread [OF _ th1(1) k2(4)]) (simp_all add: k2(5))
  moreover have "counts_ok k2"
    using counts_ok_cong [OF k2(5)] bare_same(3) [OF k1(3)] counts_ok_cong [of "left_by t k" k] inv(4)
    by simp
  ultimately have "kernel_ok k2" using k2(2) by (simp add: kernel_ok_def)
  moreover have known: "known k2 ob = known k ob" for ob
  proof -
    have "known k2 ob = known k1 ob" using th1(1) k2(4,5) by (cases ob) (auto simp: known_def)
    also have "\<dots> = known (left_by t k) ob" by (rule bare_same(4) [OF k1(3)])
    also have "\<dots> = known k ob" using t by (auto simp: known_def left_by_threads split: oref.splits)
    finally show ?thesis .
  qed
  moreover have w: "map_option view (threads k2 u) =
      (if u = t then map_option (\<lambda>th. (Ready, [], core_id th, None)) (threads k u)
       else map_option view (threads k u))" for u
  proof (cases "u = t")
    case True
    then show ?thesis using t e1 by (simp add: k2(4) view_def)
  next
    case False
    then show ?thesis using bare_map_view [OF k1(3), of u] by (simp add: k2(4) left_by_threads [OF t])
  qed
  moreover have "keeps k k2"
  proof (rule keepsI)
    have "same_managers k (left_by t k)" by (simp add: left_by_def upd_thread_def)
    from same_managers_trans [OF same_managers_trans [OF this bare_managers [OF k1(3)]] k2(7)]
    show "same_managers k k2" .
    show "\<exists>y. threads k2 u = Some y \<and> core_id y = core_id x" if "threads k u = Some x" for u x
      using w [of u] that by (auto simp: view_def split: if_splits)
    show "\<exists>y. threads k u = Some y \<and> status y = Running \<and> core_id y = core_id x"
      if "threads k2 u = Some x" "status x = Running" for u x
      using w [of u] that by (cases "threads k u") (auto simp: view_def split: if_splits)
  qed (simp add: known)
  ultimately show ?thesis
    using k1(1,3) k2(1,3,5,6) w1 by (auto simp: woken_def)
qed

section \<open>Acquiring\<close>

text \<open>Two states whose threads wait for the same objects in the same way.\<close>

definition same_waits :: "('s, 'g, 'e) kernel \<Rightarrow> ('s, 'g, 'e) kernel \<Rightarrow> bool" where
  "same_waits k k' \<longleftrightarrow> waiting_threads k' = waiting_threads k \<and>
     (\<forall>u. map_option view (threads k' u) = map_option view (threads k u)) \<and>
     (\<forall>a. sync_objects k a \<noteq> None \<longrightarrow> sync_objects k' a \<noteq> None) \<and> same_managers k k'"

lemma same_waitsD:
  assumes "same_waits k k'"
  shows "waiting_threads k' = waiting_threads k"
    and "map_option view (threads k' u) = map_option view (threads k u)"
    and "sync_objects k a \<noteq> None \<Longrightarrow> sync_objects k' a \<noteq> None"
    and "same_managers k k'"
  using assms by (simp_all add: same_waits_def)

lemma same_waits_thread:
  assumes "same_waits k k'"
  shows "threads k u = Some x \<Longrightarrow> \<exists>x'. threads k' u = Some x' \<and> view x' = view x"
    and "threads k' u = Some x' \<Longrightarrow> \<exists>x. threads k u = Some x \<and> view x' = view x"
  using same_waitsD(2) [OF assms, of u] by (auto simp: map_option_case split: option.splits)

lemma same_waits_refl [simp, intro]: "same_waits k k"
  by (simp add: same_waits_def)

lemma same_waits_trans: "same_waits k k' \<Longrightarrow> same_waits k' k'' \<Longrightarrow> same_waits k k''"
  by (auto simp: same_waits_def intro: same_managers_trans)

lemma same_waits_known: "same_waits k k' \<Longrightarrow> known k ob \<Longrightarrow> known k' ob"
  using same_waits_thread(1) [of k k'] same_waitsD(3) [of k k']
  by (fastforce simp: known_def split: oref.splits)

lemma same_waits_keeps:
  assumes "same_waits k k'"
  shows "keeps k k'"
proof (rule keepsI)
  show "\<exists>th'. threads k' t = Some th' \<and> core_id th' = core_id th" if "threads k t = Some th" for t th
    using same_waits_thread(1) [OF assms that] by (auto simp: view_def)
  show "\<exists>x. threads k t = Some x \<and> status x = Running \<and> core_id x = core_id th"
    if "threads k' t = Some th" "status th = Running" for t th
    using same_waits_thread(2) [OF assms that(1)] that(2) by (auto simp: view_def)
qed (use assms same_waitsD(4) same_waits_known in blast)+

lemma wait_ok_same_waits:
  assumes k: "wait_ok k" and s: "same_waits k k'"
  shows "wait_ok k'"
proof -
  note known = same_waits_known [OF s]
  have "\<exists>x. threads k' u = Some x \<and> ob \<in> set (wait_objects x) \<and> waiting_status (status x)"
    if "u \<in> set (waiting_threads k' ob)" for ob u
    using wait_okD(2) [OF k, of u ob] that same_waitsD(1) [OF s] same_waits_thread(1) [OF s, of u]
    by (fastforce simp: view_def)
  moreover have "known k' ob" if "threads k' u = Some x" "ob \<in> set (wait_objects x)" for u x ob
    using wait_okD(3) [OF k, of u] that known same_waits_thread(2) [OF s that(1)]
    by (fastforce simp: view_def)
  ultimately show ?thesis
    using wait_okD(1) [OF k] same_waitsD(1) [OF s] by (simp add: wait_ok_def)
qed

lemma bare_same_waits:
  assumes "bare k' = bare k"
  shows "same_waits k k'"
proof -
  have "sync_objects k a \<noteq> None \<Longrightarrow> sync_objects k' a \<noteq> None" for a
    using bareD(3) [OF assms, of a] by auto
  then show ?thesis
    using bareD(1) [OF assms] bare_map_view [OF assms] bare_managers [OF assms]
    by (simp add: same_waits_def)
qed
lemma same_waits_set_object [simp]: "same_waits k (set_object a ob k)"
  by (simp add: same_waits_def)

text \<open>An object that is not a mutex changes.\<close>

lemma kernel_ok_set_plain:
  assumes k: "kernel_ok k" and a: "mutex_of k a = None" and ob: "\<And>m. ob \<noteq> KMutex m"
  shows "kernel_ok (set_object a ob k)"
proof -
  let ?k = "set_object a ob k"
  have m: "mutex_of ?k b = mutex_of k b" for b
    using a ob by (cases ob) (auto simp: mutex_of_set_object)
  have "ready_ok ?k" using k ready_ok_cong [of ?k k] by (simp add: kernel_ok_def)
  moreover have "wait_ok ?k"
    by (rule wait_ok_same_waits [of k]) (use k in \<open>simp_all add: kernel_ok_def\<close>)
  moreover have "holders_ok ?k" "counts_ok ?k"
    using k by (simp_all add: kernel_ok_def holders_ok_def counts_ok_def m)
  ultimately show ?thesis by (simp add: kernel_ok_def)
qed

text \<open>The lock count of a held mutex changes.\<close>

lemma kernel_ok_set_count:
  assumes k: "ready_ok k" "wait_ok k" "holders_ok k"
    and c: "\<And>b mu. b \<noteq> a \<Longrightarrow> mutex_of k b = Some mu \<Longrightarrow>
      0 \<le> sint (lock_count mu) \<and> (lock_count mu = 0 \<longleftrightarrow> holding_thread mu = None)"
    and a: "mutex_of k a = Some m" "holding_thread m = Some t" and n: "sint n > 0"
  shows "kernel_ok (set_object a (KMutex (m\<lparr>lock_count := n\<rparr>)) k)"
proof -
  let ?k = "set_object a (KMutex (m\<lparr>lock_count := n\<rparr>)) k"
  have m: "map_option holding_thread (mutex_of ?k b) = map_option holding_thread (mutex_of k b)" for b
    using a by (simp add: mutex_of_set_object)
  have m': "(\<exists>mu. mutex_of ?k b = Some mu \<and> holding_thread mu = Some u) =
      (\<exists>mu. mutex_of k b = Some mu \<and> holding_thread mu = Some u)" for b u
    using m [of b] by (cases "mutex_of k b") auto
  have "ready_ok ?k" using k(1) ready_ok_cong [of ?k k] by simp
  moreover have "wait_ok ?k"
    by (rule wait_ok_same_waits [OF k(2)]) simp
  moreover have "holders_ok ?k"
    unfolding holders_ok_def
  proof (intro conjI allI impI)
    show "\<exists>th. threads ?k u = Some th \<and> b \<in> set (held_mutexes th)"
      if "mutex_of ?k b = Some mu" "holding_thread mu = Some u" for b mu u
      using that m' [of b u] holders_okD(1) [OF k(3)] by auto
    show "\<forall>b \<in> set (held_mutexes th). \<exists>mu. mutex_of ?k b = Some mu \<and> holding_thread mu = Some u"
      if "threads ?k u = Some th" for u th
      using that m' holders_okD(2) [OF k(3)] by auto
  qed
  moreover have "n \<noteq> 0" using n by auto
  then have "counts_ok ?k" using a n c by (auto simp: counts_ok_def mutex_of_set_object)
  ultimately show ?thesis by (simp add: kernel_ok_def)
qed
lemma counts_okD:
  assumes "counts_ok k" "mutex_of k a = Some m"
  shows "0 \<le> sint (lock_count m)" "lock_count m = 0 \<longleftrightarrow> holding_thread m = None"
  using assms by (simp_all add: counts_ok_def)

text \<open>A free mutex is given to a thread: its holder, and its name among those the thread holds.\<close>

definition give :: "nat \<Rightarrow> mutex \<Rightarrow> nat \<Rightarrow> ('s, 'g, 'e) kernel \<Rightarrow> ('s, 'g, 'e) kernel" where
  "give a m t k = upd_thread t (\<lambda>th. th\<lparr>held_mutexes := insert_sorted a (held_mutexes th)\<rparr>)
     (set_object a (KMutex (m\<lparr>holding_thread := Some t\<rparr>)) k)"

lemma insert_sorted_set [simp]: "set (insert_sorted a xs) = insert a (set xs)"
  by (auto simp: insert_sorted_def set_insort_key)

lemma give_ok:
  assumes k: "kernel_ok k" and a: "mutex_of k a = Some m0" "holding_thread m0 = None"
    and t: "threads k t = Some th"
  shows "ready_ok (give a m t k)" "holders_ok (give a m t k)" "same_waits k (give a m t k)"
    "threads (give a m t k) = (threads k)(t \<mapsto> th\<lparr>held_mutexes := insert_sorted a (held_mutexes th)\<rparr>)"
    "mutex_of (give a m t k) b = (if b = a then Some (m\<lparr>holding_thread := Some t\<rparr>) else mutex_of k b)"
proof -
  let ?k = "give a m t k"
  have inv: "ready_ok k" "holders_ok k" using k by (simp_all add: kernel_ok_def)
  have s: "threads ?k = (threads k)(t \<mapsto> th\<lparr>held_mutexes := insert_sorted a (held_mutexes th)\<rparr>)"
    and m: "mutex_of ?k b = (if b = a then Some (m\<lparr>holding_thread := Some t\<rparr>) else mutex_of k b)" for b
    using t by (simp_all add: give_def mutex_of_def)
  show "threads ?k = (threads k)(t \<mapsto> th\<lparr>held_mutexes := insert_sorted a (held_mutexes th)\<rparr>)"
    "mutex_of ?k b = (if b = a then Some (m\<lparr>holding_thread := Some t\<rparr>) else mutex_of k b)"
    by (fact s, fact m)
  show "ready_ok ?k"
    by (rule ready_ok_thread [OF inv(1) t s]) (simp_all add: give_def ready_okD(2) [OF inv(1) t])
  have free: "a \<notin> set (held_mutexes x)" if "threads k u = Some x" for u x
    using holders_okD(2) [OF inv(2) that, of a] a by auto
  have "\<exists>x. threads ?k u = Some x \<and> b \<in> set (held_mutexes x)"
    if "mutex_of ?k b = Some mu" "holding_thread mu = Some u" for b mu u
    using holders_okD(1) [OF inv(2), of b mu u] that t by (auto simp: s m split: if_splits)
  moreover have "\<exists>mu. mutex_of ?k b = Some mu \<and> holding_thread mu = Some u"
    if "threads ?k u = Some x" "b \<in> set (held_mutexes x)" for u x b
  proof (cases "b = a")
    case True
    then show ?thesis using that free [of u x] by (auto simp: s m split: if_splits)
  next
    case False
    then show ?thesis
      using that holders_okD(2) [OF inv(2), of u] t by (cases "u = t") (auto simp: s m)
  qed
  ultimately show "holders_ok ?k" by (simp add: holders_ok_def)
  show "same_waits k ?k"
    using t by (simp add: same_waits_def give_def view_def)
qed

lemma PrepareReschedule_sel [simp]:
  "threads (PrepareReschedule k) = threads k" "sync_objects (PrepareReschedule k) = sync_objects k"
  "waiting_threads (PrepareReschedule k) = waiting_threads k"
  "queues_of (PrepareReschedule k) = queues_of k" "managers (PrepareReschedule k) = managers k" "mutex_of (PrepareReschedule k) = mutex_of k"
  by (simp_all add: PrepareReschedule_def queues_of_def mutex_of_def fun_eq_iff cong: option.case_cong)

lemma PrepareReschedule_known [simp]: "known (PrepareReschedule k) ob = known k ob"
  by (cases ob) (simp_all add: known_def)

lemma Mutex_Acquire_ok:
  assumes k: "kernel_ok k" and a: "sync_objects k a = Some (KMutex m)" and t: "threads k t = Some th"
    and r: "Mutex_Acquire a m t k = Some k'"
  shows "kernel_ok k' \<and> same_waits k k'"
proof -
  have m: "mutex_of k a = Some m" by (simp add: mutex_of_def a)
  have inv: "ready_ok k" "wait_ok k" "holders_ok k" "counts_ok k"
    using k by (simp_all add: kernel_ok_def)
  note c = counts_okD [OF inv(4) m]
  show ?thesis
  proof (cases "lock_count m = 0")
    case False
    then have "sint (lock_count m) \<noteq> 0" by (simp add: signed_eq_0_iff)
    with False have h: "holding_thread m = Some t"
      and k': "\<exists>n. s32_add (lock_count m) 1 = Some n \<and> k' = set_object a (KMutex (m\<lparr>lock_count := n\<rparr>)) k"
      using r c False by (auto simp: Mutex_Acquire_def ShouldWait_def a m split: bind_splits if_splits)
    then obtain n where n: "s32_add (lock_count m) 1 = Some n"
      "k' = set_object a (KMutex (m\<lparr>lock_count := n\<rparr>)) k" by blast
    have "sint n = sint (lock_count m) + 1"
      using n(1) sint_s32_fits [of "sint (lock_count m) + 1"] by (auto simp: s32_add_Some)
    then have "sint n > 0" using c(1) by simp
    from kernel_ok_set_count [OF inv(1-3) _ m h this] counts_okD [OF inv(4)] show ?thesis
      by (simp add: n(2))
  next
    case True
    let ?m = "m\<lparr>mutex_priority := current_priority th\<rparr>"
    let ?g = "give a ?m t k"
    have free: "holding_thread m = None" using c True by simp
    note G = give_ok [OF k m free t, of ?m]
    have gt: "threads ?g t = Some (th\<lparr>held_mutexes := insert_sorted a (held_mutexes th)\<rparr>)" by (simp add: G(4))
    have "\<forall>b \<in> set (insert_sorted a (held_mutexes th)). mutex_of ?g b \<noteq> None"
      using holders_okD(2) [OF inv(3) t] by (auto simp: G(5))
    then obtain k1 where k1: "Thread_UpdatePriority t ?g = Some k1" "ready_ok k1" "bare k1 = bare ?g"
        "sync_objects k1 = sync_objects ?g"
      using Thread_UpdatePriority_ok [OF G(1) gt] by auto
    have m1: "mutex_of k1 b = (if b = a then Some (?m\<lparr>holding_thread := Some t\<rparr>) else mutex_of k b)" for b
      using G(5) [of b] mutex_of_cong [OF k1(4), of b] by simp
    have n: "s32_add 0 1 = Some 1" by (simp add: s32_add_def)
    have "Mutex_Acquire a m t k =
        Some (set_object a (KMutex (?m\<lparr>holding_thread := Some t, lock_count := 1\<rparr>)) (PrepareReschedule k1))"
      using True t k1(1) m1 [of a] n c
      by (simp add: Mutex_Acquire_def ShouldWait_def a Let_def give_def PrepareReschedule_def mutex_of_def)
    then have k': "k' = set_object a (KMutex ((?m\<lparr>holding_thread := Some t\<rparr>)\<lparr>lock_count := 1\<rparr>)) (PrepareReschedule k1)"
      using r by simp
    let ?p = "PrepareReschedule k1"
    have p: "ready_ok ?p = ready_ok k1" "wait_ok ?p = wait_ok k1" "holders_ok ?p = holders_ok k1"
        "same_waits k1 ?p" "mutex_of ?p = mutex_of k1"
      by (simp_all add: ready_ok_def wait_ok_def holders_ok_def same_waits_def)
    have s: "same_waits k k1" using same_waits_trans [OF G(3) bare_same_waits [OF k1(3)]] .
    have "kernel_ok k'"
      unfolding k'
    proof (rule kernel_ok_set_count)
      show "ready_ok ?p" "wait_ok ?p" "holders_ok ?p"
        using p k1(2) wait_ok_same_waits [OF inv(2) s] bare_same(2) [OF k1(3)] G(2) by simp_all
      show "mutex_of ?p a = Some (?m\<lparr>holding_thread := Some t\<rparr>)" by (simp add: p m1)
      show "0 \<le> sint (lock_count mu) \<and> (lock_count mu = 0 \<longleftrightarrow> holding_thread mu = None)"
        if "b \<noteq> a" "mutex_of ?p b = Some mu" for b mu
        using that counts_okD [OF inv(4)] by (simp add: p m1)
    qed simp_all
    then show ?thesis
      using same_waits_trans [OF same_waits_trans [OF s p(4)] same_waits_set_object] by (simp add: k')
  qed
qed
lemma Acquire_ok:
  assumes k: "kernel_ok k" and t: "threads k t = Some th" and r: "Acquire ob t k = Some k'"
  shows "kernel_ok k' \<and> same_waits k k'"
proof (cases ob)
  case (RThread x)
  then show ?thesis using k r by (auto simp: Acquire_def split: bind_splits if_splits)
next
  case ob: (RObj a)
  show ?thesis
  proof (cases "sync_objects k a")
    case None
    then show ?thesis using r by (simp add: Acquire_def ob)
  next
    case (Some o')
    show ?thesis
    proof (cases o')
      case (KMutex m)
      then show ?thesis using Mutex_Acquire_ok [OF k _ t] r Some by (simp add: Acquire_def ob)
    next
      case (KSemaphore s)
      then have "mutex_of k a = None" by (simp add: mutex_of_def Some)
      then show ?thesis using kernel_ok_set_plain [OF k] k r Some KSemaphore
        by (auto simp: Acquire_def ob split: if_splits)
    next
      case (KEvent e)
      then have "mutex_of k a = None" by (simp add: mutex_of_def Some)
      then show ?thesis using kernel_ok_set_plain [OF k] k r Some KEvent
        by (auto simp: Acquire_def ob split: if_splits)
    next
      case (KTimer e)
      then have "mutex_of k a = None" by (simp add: mutex_of_def Some)
      then show ?thesis using kernel_ok_set_plain [OF k] k r Some KTimer
        by (auto simp: Acquire_def ob split: if_splits)
    next
      case (KServerPort p)
      then show ?thesis using k r Some by (auto simp: Acquire_def ob split: bind_splits if_splits)
    next
      case (KServerSession s)
      then have "mutex_of k a = None" by (simp add: mutex_of_def Some)
      moreover have "k' = k \<or> (\<exists>s'. k' = set_object a (KServerSession s') k)"
        using r Some KServerSession by (auto simp: Acquire_def ob ServerSession_Acquire_def split: bind_splits if_splits)
      ultimately show ?thesis using kernel_ok_set_plain [OF k] k by auto
    qed
  qed
qed

lemma Acquire_all_ok:
  assumes "kernel_ok k" and "threads k t \<noteq> None" and "Acquire_all obs t k = Some k'"
  shows "kernel_ok k' \<and> same_waits k k'"
  using assms
proof (induction obs arbitrary: k)
  case (Cons ob obs)
  then obtain k1 where k1: "Acquire ob t k = Some k1" "Acquire_all obs t k1 = Some k'"
    by (auto split: bind_splits)
  obtain th where t: "threads k t = Some th" using Cons.prems(2) by auto
  note A = Acquire_ok [OF Cons.prems(1) t k1(1)]
  then have "threads k1 t \<noteq> None" using same_waits_thread(1) [of k k1 t th] t by auto
  with Cons.IH [OF _ this k1(2)] A show ?case by (blast intro: same_waits_trans)
qed simp

section \<open>Callbacks\<close>

text \<open>What is assumed of the callbacks of HLE services and IPC: they write registers of threads, and
  leave the scheduling state and the synchronization objects to the caller.\<close>

definition silent :: "thread \<Rightarrow> thread" where
  "silent th = th\<lparr>th_context := \<lparr>cpu_registers = [], cpsr = 0, fpscr = 0\<rparr>\<rparr>"

definition hush :: "('s, 'g, 'e) kernel \<Rightarrow> ('s, 'g, 'e) kernel" where
  "hush k = k\<lparr>threads := (\<lambda>t. map_option silent (threads k t))\<rparr>"

definition quiet_step :: "('s, 'g, 'e) kernel \<Rightarrow> ('s, 'g, 'e) kernel \<Rightarrow> bool" where
  "quiet_step k k' \<longleftrightarrow> threads (hush k') = threads (hush k) \<and> sync_objects k' = sync_objects k \<and>
     waiting_threads k' = waiting_threads k \<and> managers k' = managers k"

definition quiet_env :: "('s, 'g, 'e) kenv \<Rightarrow> bool" where
  "quiet_env env \<longleftrightarrow>
     (\<forall>n r t ob k k'. other_wakeup env n r t ob k = Some k' \<longrightarrow> quiet_step k k') \<and>
     (\<forall>ob k k'. hle_notifier env ob k = Some k' \<longrightarrow> quiet_step k k')"

lemma silent_sel [simp]:
  "status (silent th) = status th" "wait_objects (silent th) = wait_objects th"
  "held_mutexes (silent th) = held_mutexes th" "core_id (silent th) = core_id th"
  "nominal_priority (silent th) = nominal_priority th"
  "current_priority (silent th) = current_priority th"
  "wakeup_callback (silent th) = wakeup_callback th" "view (silent th) = view th"
  by (simp_all add: silent_def view_def)

lemma hush_sel [simp]:
  "threads (hush k) = (\<lambda>t. map_option silent (threads k t))" "sync_objects (hush k) = sync_objects k"
  "waiting_threads (hush k) = waiting_threads k" "queues_of (hush k) = queues_of k"
  "mutex_of (hush k) = mutex_of k" "known (hush k) ob = known k ob"
  by (simp_all add: hush_def queues_of_def mutex_of_def known_def fun_eq_iff cong: option.case_cong
    split: oref.splits)

lemma kernel_ok_cong:
  assumes "threads k' = threads k" "sync_objects k' = sync_objects k"
    "waiting_threads k' = waiting_threads k" "queues_of k' = queues_of k"
  shows "kernel_ok k' = kernel_ok k"
proof -
  have "known k' ob = known k ob" for ob using assms by (cases ob) (simp_all add: known_def)
  then show ?thesis
    using assms by (simp add: kernel_ok_def ready_ok_def wait_ok_def holders_ok_def counts_ok_def
      mutex_of_cong [OF assms(2)])
qed

lemma queue_ok_silent: "queue_ok (\<lambda>t. map_option silent (ths t)) c q = queue_ok ths c q"
  by (simp add: queue_ok_def image_quantifiers)

lemma kernel_ok_hush: "kernel_ok (hush k) = kernel_ok k"
  by (simp add: kernel_ok_def ready_ok_def wait_ok_def holders_ok_def counts_ok_def
    queue_ok_silent image_quantifiers)

lemma quiet_step_ok:
  assumes "quiet_step k k'"
  shows "kernel_ok k' = kernel_ok k" and "same_waits k k'"
proof -
  have "kernel_ok (hush k') = kernel_ok (hush k)"
    using assms by (intro kernel_ok_cong) (simp_all add: quiet_step_def queues_of_def hush_def)
  then show "kernel_ok k' = kernel_ok k" by (simp add: kernel_ok_hush)
  have "map_option view (threads (hush k') u) = map_option view (threads (hush k) u)" for u
    using assms by (simp add: quiet_step_def)
  then have "map_option view (threads k' u) = map_option view (threads k u)" for u
    by (simp add: option.map_comp comp_def)
  then show "same_waits k k'" using assms by (simp add: same_waits_def quiet_step_def same_managers_cong)
qed
lemma quiet_step_context:
  "quiet_step k (upd_thread t (\<lambda>th. th\<lparr>th_context := f th\<rparr>) k)"
  by (cases "threads k t") (simp_all add: quiet_step_def fun_eq_iff upd_thread_def silent_def queues_of_def)

lemma quiet_step_trans: "quiet_step k k' \<Longrightarrow> quiet_step k' k'' \<Longrightarrow> quiet_step k k''"
  by (simp add: quiet_step_def)

lemma quiet_step_refl [simp]: "quiet_step k k"
  by (simp add: quiet_step_def)

lemma quiet_results [simp]:
  "quiet_step k (SetWaitSynchronizationResult t r k)" "quiet_step k (SetWaitSynchronizationOutput t v k)"
  by (simp_all add: SetWaitSynchronizationResult_def SetWaitSynchronizationOutput_def
    quiet_step_context)

lemma WakeUp_quiet:
  assumes env: "quiet_env env" and r: "WakeUp env cb reason t ob k = Some k'"
  shows "quiet_step k k'"
proof (cases cb)
  case (SyncCallback b)
  then show ?thesis
    using r quiet_step_trans [OF quiet_results(1) quiet_results(2)]
    by (auto simp: WakeUp_def WakeUp_Sync_def Let_def split: if_splits bind_splits)
next
  case (ArbiterCallback a)
  then show ?thesis
    using r by (auto simp: WakeUp_def WakeUp_Arbiter_def quiet_step_def queues_of_def split: if_splits bind_splits)
next
  case (OtherCallback n)
  then show ?thesis using r env by (simp add: WakeUp_def quiet_env_def)
qed

lemma call_back_quiet:
  assumes "quiet_env env" and "call_back env reason t ob k = Some k'"
  shows "quiet_step k k'"
  using assms WakeUp_quiet [OF assms(1)]
  by (auto simp: call_back_def split: bind_splits option.splits)

lemma woken_trans:
  assumes s: "same_waits k k1" and w: "woken t k1 k'"
  shows "woken t k k'"
proof -
  have "map_option (\<lambda>th. (Ready, [], core_id th, None)) (threads k1 u) =
      map_option (\<lambda>th. (Ready, [], core_id th, None)) (threads k u)" for u
    using same_waitsD(2) [OF s, of u]
    by (cases "threads k u"; cases "threads k1 u") (auto simp: view_def)
  then show ?thesis
    using w same_waitsD(1,2) [OF s] by (simp add: woken_def)
qed

text \<open>One round of \<open>WakeupAllWaitingThreads\<close>: what it acquired, and that the thread it chose is
  ready and waits for nothing any more.\<close>

lemma wake_one_ok:
  assumes k: "kernel_ok k" and env: "quiet_env env" and t: "t \<in> set (waiting_threads k ob)"
    and r: "wake_one env ob t k = Some k'"
  shows "kernel_ok k'" and "woken t k k'" and "reschedule_pending k'"
    and "keeps k k'"
proof -
  have "wait_ok k" using k by (simp add: kernel_ok_def)
  from wait_okD(2) [OF this t] obtain th where th: "threads k t = Some th" "waiting_status (status th)"
    by blast
  obtain k1 where k1: "kernel_ok k1 \<and> same_waits k k1"
      and k1r: "Option.bind (call_back env Signal t (Some ob) k1)
        (\<lambda>k. Option.bind (leave_waits t k) (ResumeFromWait t)) = Some k'"
    using r th Acquire_ok [OF k th(1), of ob] Acquire_all_ok [OF k, of t "wait_objects th"]
    by (cases "status th = WaitSynchAll") (auto simp: wake_one_def split: bind_splits)
  obtain k2 where k2: "quiet_step k1 k2" "Option.bind (leave_waits t k2) (ResumeFromWait t) = Some k'"
    using k1r call_back_quiet [OF env, of Signal t "Some ob" k1] by (auto split: bind_splits)
  note Q = quiet_step_ok [OF k2(1)]
  have s: "same_waits k k2" using same_waits_trans k1 Q(2) by blast
  obtain th2 where th2: "threads k2 t = Some th2" "view th2 = view th"
    using same_waits_thread(1) [OF s th(1)] by blast
  have "status th2 = status th" using th2(2) by (simp add: view_def)
  then have s2: "status th2 \<noteq> Ready" "status th2 \<noteq> Running" "status th2 \<noteq> Dead"
    using th(2) by (auto simp: waiting_status_def)
  have "kernel_ok k2" using Q(1) k1 by simp
  from leave_resume_ok [OF this th2(1) s2] k2(2)
  have "kernel_ok k' \<and> woken t k2 k' \<and> reschedule_pending k' \<and> keeps k2 k'"
    by auto
  then show "kernel_ok k'" "woken t k k'" "reschedule_pending k'" "keeps k k'"
    using woken_trans [OF s] keeps_trans [OF same_waits_keeps [OF s]] by simp_all
qed

lemma best_ready_mem:
  "best_ready k ob ts c p = Some (Some t) \<Longrightarrow> t \<in> set ts \<or> c = Some t"
  by (induction ts arbitrary: c p) (fastforce split: bind_splits if_splits)+

lemma GetHighestPriorityReadyThread_mem:
  "GetHighestPriorityReadyThread k ob = Some (Some t) \<Longrightarrow> t \<in> set (waiting_threads k ob)"
  using best_ready_mem [of k ob _ None] by (auto simp: GetHighestPriorityReadyThread_def)

lemma wakeup_loop_ok:
  assumes env: "quiet_env env" and r: "wakeup_loop env ob k = Some k'" and k: "kernel_ok k"
  shows "kernel_ok k' \<and> GetHighestPriorityReadyThread k' ob = Some None \<and>
      keeps k k'"
proof -
  have "quiet_env env \<longrightarrow> kernel_ok k \<longrightarrow>
      kernel_ok k' \<and> GetHighestPriorityReadyThread k' ob = Some None \<and>
      keeps k k'"
  proof (rule wakeup_loop.raw_induct [OF _ r, of "\<lambda>env ob k k'. quiet_env env \<longrightarrow> kernel_ok k \<longrightarrow>
      kernel_ok k' \<and> GetHighestPriorityReadyThread k' ob = Some None \<and>
      keeps k k'"], intro impI)
    fix f :: "('s, 'g, 'e) kenv \<Rightarrow> oref \<Rightarrow> ('s, 'g, 'e) kernel \<Rightarrow> ('s, 'g, 'e) kernel run"
      and env ob k k'
    assume IH: "\<And>env ob k k'. f env ob k = Some k' \<Longrightarrow> quiet_env env \<longrightarrow> kernel_ok k \<longrightarrow>
        kernel_ok k' \<and> GetHighestPriorityReadyThread k' ob = Some None \<and>
      keeps k k'"
      and body: "Option.bind (GetHighestPriorityReadyThread k ob) (\<lambda>best.
       case best of None \<Rightarrow> Some k
       | Some t \<Rightarrow> Option.bind (wake_one env ob t k) (f env ob)) = Some k'"
      and env: "quiet_env env" and k: "kernel_ok k"
    obtain best where b: "GetHighestPriorityReadyThread k ob = Some best"
      using body by (auto split: bind_splits)
    show "kernel_ok k' \<and> GetHighestPriorityReadyThread k' ob = Some None \<and>
      keeps k k'"
    proof (cases best)
      case None
      then show ?thesis using body b k same_waits_keeps [of k k] by simp
    next
      case (Some t)
      then obtain k1 where k1: "wake_one env ob t k = Some k1" "f env ob k1 = Some k'"
        using body b by (auto split: bind_splits)
      have "t \<in> set (waiting_threads k ob)"
        using GetHighestPriorityReadyThread_mem b Some by blast
      from wake_one_ok(1,4) [OF k env this k1(1)] IH [OF k1(2)] env keeps_trans show ?thesis by blast
    qed
  qed
  with env k show ?thesis by blast
qed

lemma end_pulse_ok:
  assumes "kernel_ok k"
  shows "kernel_ok (end_pulse ob k)" and "same_waits k (end_pulse ob k)"
proof -
  have "kernel_ok (end_pulse ob k) \<and> same_waits k (end_pulse ob k)"
    using assms by (auto simp: end_pulse_def mutex_of_def intro!: kernel_ok_set_plain
      split: oref.splits option.splits kobject.splits)
  then show "kernel_ok (end_pulse ob k)" "same_waits k (end_pulse ob k)" by simp_all
qed

lemma WakeupAllWaitingThreads_ok:
  assumes env: "quiet_env env" and k: "kernel_ok k" and r: "WakeupAllWaitingThreads env ob k = Some k'"
  shows "kernel_ok k'" and "keeps k k'"
proof -
  obtain k1 k2 where k1: "wakeup_loop env ob k = Some k1" "hle_notifier env ob k1 = Some k2"
      "k' = end_pulse ob k2"
    using r by (auto simp: WakeupAllWaitingThreads_def split: bind_splits)
  have "quiet_step k1 k2" using env k1(2) by (simp add: quiet_env_def)
  note Q = quiet_step_ok [OF this] and L = wakeup_loop_ok [OF env k1(1) k]
  from Q(1) L end_pulse_ok(1) [of k2 ob] show ok: "kernel_ok k'" by (simp add: k1(3))
  have "kernel_ok k2" using Q(1) L by simp
  from same_waits_keeps [OF Q(2)] L same_waits_keeps [OF end_pulse_ok(2) [OF this]]
  show "keeps k k'" using keeps_trans by (simp add: k1(3)) blast
qed

end
