(* ===== verification/KernelSteps.thy ===== *)
theory KernelSteps
  imports KernelInvariant
begin

text \<open>The kernel as a state machine: each operation on objects and threads as a step, and the
  invariant \<open>kernel_ok\<close> kept by every one of them.\<close>

definition safe :: "('s, 'g, 'e) kernel \<Rightarrow> ('s, 'g, 'e) kernel \<Rightarrow> bool" where
  "safe k k' \<longleftrightarrow> kernel_ok k' \<and> keeps k k'"

lemma safe_refl: "kernel_ok k \<Longrightarrow> safe k k"
  by (simp add: safe_def same_waits_keeps)

lemma safe_trans: "safe k k' \<Longrightarrow> safe k' k'' \<Longrightarrow> safe k k''"
  using keeps_trans by (auto simp: safe_def)

lemma safe_same_waits: "kernel_ok k' \<Longrightarrow> same_waits k k' \<Longrightarrow> safe k k'"
  by (simp add: safe_def same_waits_keeps)

lemma Acquire_safe:
  "kernel_ok k \<Longrightarrow> threads k t = Some th \<Longrightarrow> Acquire ob t k = Some k' \<Longrightarrow> safe k k'"
  using Acquire_ok safe_same_waits by blast

lemma Acquire_all_safe:
  "kernel_ok k \<Longrightarrow> threads k t = Some th \<Longrightarrow> Acquire_all obs t k = Some k' \<Longrightarrow> safe k k'"
  using Acquire_all_ok safe_same_waits by blast

lemma safe_wakeup:
  "quiet_env env \<Longrightarrow> kernel_ok k \<Longrightarrow> WakeupAllWaitingThreads env ob k = Some k' \<Longrightarrow> safe k k'"
  using WakeupAllWaitingThreads_ok by (fastforce simp: safe_def)

lemma safe_cong:
  assumes "threads k' = threads k" "sync_objects k' = sync_objects k"
    "waiting_threads k' = waiting_threads k" "managers k' = managers k" "kernel_ok k"
  shows "safe k k'"
proof (rule safe_same_waits)
  show "kernel_ok k'" using assms kernel_ok_cong [of k' k] by (simp add: queues_of_def)
qed (use assms in \<open>simp add: same_waits_def\<close>)

lemma safe_set_object: "kernel_ok (set_object a ob k) \<Longrightarrow> safe k (set_object a ob k)"
  by (rule safe_same_waits) simp_all

lemma known_update_object: "known (set_object a x k) ob \<longleftrightarrow> known k ob \<or> ob = RObj a"
  by (cases ob) (auto simp: known_def)

lemma known_of_bare: "bare k' = bare k \<Longrightarrow> known k' ob = known k ob"
  by (rule bare_same(4))

lemma upd_thread_threads:
  "threads (upd_thread t f k) = (threads k)(t := map_option f (threads k t))"
  by (simp add: upd_thread_def)

section \<open>Releasing a mutex\<close>

text \<open>A mutex leaves its holder: it is free, and no thread holds it.\<close>

lemma take_back_ok:
  fixes k k' :: "('s, 'g, 'e) kernel"
  assumes k: "kernel_ok k" and a: "mutex_of k a = Some m0" "holding_thread m0 = Some t"
    and t: "threads k t = Some th"
    and k': "threads k' = (threads k)(t \<mapsto> th')" "managers k' = managers k"
      "waiting_threads k' = waiting_threads k"
      "sync_objects k' = (sync_objects k)(a \<mapsto> KMutex m)"
    and th': "th' = th\<lparr>held_mutexes := removeAll a (held_mutexes th)\<rparr>"
    and m: "lock_count m = 0" "holding_thread m = None"
  shows "kernel_ok k'"
proof -
  have inv: "ready_ok k" "wait_ok k" "holders_ok k" "counts_ok k"
    using k by (simp_all add: kernel_ok_def)
  have mu: "mutex_of k' b = (if b = a then Some m else mutex_of k b)" for b
    by (simp add: mutex_of_def k'(4))
  have "ready_ok k'"
    by (rule ready_ok_thread [OF inv(1) t k'(1)])
      (simp_all add: th' ready_okD(2) [OF inv(1) t] queues_of_def k'(2))
  moreover have "same_waits k k'"
    using t by (simp add: same_waits_def k' th' view_def)
  then have "wait_ok k'" by (rule wait_ok_same_waits [OF inv(2)])
  moreover have "\<exists>x. threads k' u = Some x \<and> b \<in> set (held_mutexes x)"
    if "mutex_of k' b = Some mu" "holding_thread mu = Some u" for b mu u
    using holders_okD(1) [OF inv(3), of b mu u] that t m by (auto simp: mu k'(1) th' split: if_splits)
  moreover have "\<exists>mu. mutex_of k' b = Some mu \<and> holding_thread mu = Some u"
    if h: "threads k' u = Some x" "b \<in> set (held_mutexes x)" for u x b
  proof -
    obtain y where y: "threads k u = Some y" "b \<in> set (held_mutexes y)" "u = t \<Longrightarrow> b \<noteq> a"
      using h t by (cases "u = t") (auto simp: k'(1) th')
    have "b \<noteq> a" using holders_okD(2) [OF inv(3) y(1,2)] a y(3) by auto
    then show ?thesis using holders_okD(2) [OF inv(3) y(1,2)] by (simp add: mu)
  qed
  ultimately show ?thesis
    using counts_okD [OF inv(4)] m by (simp add: kernel_ok_def holders_ok_def counts_ok_def mu)
qed
lemma bare_set_object: "bare (set_object a ob k) = set_object a (bare_object ob) (bare k)"
  by (simp add: bare_def set_object_def fun_eq_iff)

lemma kernel_ok_bare:
  assumes "bare k' = bare k" "kernel_ok k" "ready_ok k'"
  shows "kernel_ok k'"
  using assms bare_same [OF assms(1)] by (simp add: kernel_ok_def)

text \<open>The state in which a released mutex looks for its next holder.\<close>

definition freed :: "nat \<Rightarrow> mutex \<Rightarrow> nat \<Rightarrow> ('s, 'g, 'e) kernel \<Rightarrow> ('s, 'g, 'e) kernel" where
  "freed a m t k = set_object a (KMutex (m\<lparr>lock_count := 0, holding_thread := None\<rparr>))
     (upd_thread t (\<lambda>th. th\<lparr>held_mutexes := removeAll a (held_mutexes th)\<rparr>) k)"

lemma freed_ok:
  assumes k: "kernel_ok k" and a: "mutex_of k a = Some m" "holding_thread m = Some t"
    and t: "threads k t = Some th"
  shows "kernel_ok (freed a m t k)"
  by (rule take_back_ok [OF k a t, where m = "m\<lparr>lock_count := 0, holding_thread := None\<rparr>"]) (use t in \<open>simp_all add: freed_def\<close>)

lemma freed_same_waits:
  assumes "threads k t = Some th"
  shows "same_waits k (freed a m t k)"
  using assms by (simp add: same_waits_def freed_def view_def)

lemma release_frees:
  assumes k: "kernel_ok k" and a: "mutex_of k a = Some m" "holding_thread m = Some t"
  shows "\<exists>k'. Thread_UpdatePriority t (upd_thread t (\<lambda>th. th\<lparr>held_mutexes := removeAll a (held_mutexes th)\<rparr>)
        (set_object a (KMutex (m\<lparr>lock_count := 0\<rparr>)) k)) = Some k' \<and>
      mutex_of k' a = Some (m\<lparr>lock_count := 0\<rparr>) \<and>
      bare (set_object a (KMutex (m\<lparr>lock_count := 0, holding_thread := None\<rparr>)) k') = bare (freed a m t k) \<and>
      kernel_ok (set_object a (KMutex (m\<lparr>lock_count := 0, holding_thread := None\<rparr>)) k')"
proof -
  have inv: "ready_ok k" "holders_ok k" using k by (simp_all add: kernel_ok_def)
  obtain th where t: "threads k t = Some th" using holders_okD(1) [OF inv(2) a] by blast
  let ?th = "th\<lparr>held_mutexes := removeAll a (held_mutexes th)\<rparr>"
  let ?a = "upd_thread t (\<lambda>th. th\<lparr>held_mutexes := removeAll a (held_mutexes th)\<rparr>)
        (set_object a (KMutex (m\<lparr>lock_count := 0\<rparr>)) k)"
  let ?free = "\<lambda>k. set_object a (KMutex (m\<lparr>lock_count := 0, holding_thread := None\<rparr>)) k"
  have th: "threads ?a = (threads k)(t \<mapsto> ?th)" using t by simp
  have r: "ready_ok ?a"
    by (rule ready_ok_thread [OF inv(1) t th]) (simp_all add: ready_okD(2) [OF inv(1) t])
  have h: "\<forall>b \<in> set (held_mutexes ?th). mutex_of ?a b \<noteq> None"
    using holders_okD(2) [OF inv(2) t] by (fastforce simp: mutex_of_def split: option.splits)
  obtain kb where kb: "Thread_UpdatePriority t ?a = Some kb" "ready_ok kb" "bare kb = bare ?a"
      "sync_objects kb = sync_objects ?a"
    using Thread_UpdatePriority_ok [OF r, of t ?th] th h by auto
  have m: "mutex_of kb a = Some (m\<lparr>lock_count := 0\<rparr>)"
    using mutex_of_cong [OF kb(4), of a] by (simp add: mutex_of_def)
  have "set_object a ob (upd_thread t f (set_object a ob' k)) = set_object a ob (upd_thread t f k)" for ob ob' f
    by (simp add: set_object_def upd_thread_def)
  then have "?free ?a = freed a m t k" by (simp add: freed_def)
  moreover have "bare (?free kb) = bare (?free ?a)" by (simp only: bare_set_object kb(3))
  ultimately have b: "bare (?free kb) = bare (freed a m t k)" by simp
  have "ready_ok (?free kb)" using kb(2) ready_ok_cong [of "?free kb" kb] by simp
  with kernel_ok_bare [OF b freed_ok [OF k a t]] kb(1) m b show ?thesis by blast
qed

lemma Mutex_Release_ok:
  assumes env: "quiet_env env" and k: "kernel_ok k" and r: "Mutex_Release env a t k = Some (res, k')"
  shows "safe k k'"
proof -
  have inv: "ready_ok k" "wait_ok k" "holders_ok k" "counts_ok k"
    using k by (simp_all add: kernel_ok_def)
  obtain m where m: "mutex_of k a = Some m" using r by (auto simp: Mutex_Release_def split: bind_splits)
  show ?thesis
  proof (cases "holding_thread m = Some t \<and> sint (lock_count m) > 0")
    case False
    then have "k' = k"
      using r by (auto simp: Mutex_Release_def m split: if_splits)
    with k show ?thesis by (simp add: safe_refl)
  next
    case h: True
    show ?thesis
    proof (cases "lock_count m - 1 = 0")
      case True
      then obtain kb where kb: "Thread_UpdatePriority t
            (upd_thread t (\<lambda>th. th\<lparr>held_mutexes := removeAll a (held_mutexes th)\<rparr>)
              (set_object a (KMutex (m\<lparr>lock_count := 0\<rparr>)) k)) = Some kb"
          "mutex_of kb a = Some (m\<lparr>lock_count := 0\<rparr>)"
          "bare (set_object a (KMutex (m\<lparr>lock_count := 0, holding_thread := None\<rparr>)) kb) = bare (freed a m t k)"
          "kernel_ok (set_object a (KMutex (m\<lparr>lock_count := 0, holding_thread := None\<rparr>)) kb)"
        using release_frees [OF k m] h by blast
      then obtain kc where kc: "WakeupAllWaitingThreads env (RObj a)
            (set_object a (KMutex (m\<lparr>lock_count := 0, holding_thread := None\<rparr>)) kb) = Some kc"
          "k' = PrepareReschedule kc"
        using r h True by (auto simp: Mutex_Release_def m Let_def split: bind_splits)
      obtain th where th: "threads k t = Some th" using holders_okD(1) [OF inv(3) m] h by blast
      have "safe k (set_object a (KMutex (m\<lparr>lock_count := 0, holding_thread := None\<rparr>)) kb)"
        using same_waits_trans [OF freed_same_waits [OF th] bare_same_waits [OF kb(3)]] kb(4)
        by (intro safe_same_waits)
      moreover note safe_wakeup [OF env kb(4) kc(1)]
      moreover from this have "safe kc k'" by (intro safe_cong) (simp_all add: kc(2) safe_def)
      ultimately show ?thesis using safe_trans by blast
    next
      case False
      have "k' = set_object a (KMutex (m\<lparr>lock_count := lock_count m - 1\<rparr>)) k"
        using r h False by (auto simp: Mutex_Release_def m Let_def)
      moreover have "sint (lock_count m - 1) = sint (lock_count m) - 1"
        using h sint_s32_fits [of "sint (lock_count m) - 1"] sint_lt [of "lock_count m"] by simp
      then have "sint (lock_count m - 1) > 0"
        using h False signed_eq_0_iff [of "lock_count m - 1", where 'a = int] by linarith
      ultimately show ?thesis
        using kernel_ok_set_count [OF inv(1-3) _ m, of t] counts_okD [OF inv(4)] h
        by (simp add: safe_set_object)
    qed
  qed
qed
section \<open>Waking up by time\<close>

lemma ResumeFromWait_kernel_ok:
  assumes k: "kernel_ok k" and r: "ResumeFromWait t k = Some k'"
  shows "safe k k'"
proof -
  have inv: "ready_ok k" "wait_ok k" "holders_ok k" "counts_ok k"
    using k by (simp_all add: kernel_ok_def)
  obtain th where t: "threads k t = Some th" "wait_objects th = []"
    using r by (auto simp: ResumeFromWait_def split: bind_splits if_splits)
  show ?thesis
  proof (cases "status th = Ready \<or> status th = Running \<or> status th = Dead")
    case True
    then have "k' = k" using r t by (auto simp: ResumeFromWait_def split: if_splits)
    with k show ?thesis by (simp add: safe_refl)
  next
    case False
    then have k': "ready_ok k'"
        "threads k' = (threads k)(t \<mapsto> th\<lparr>wakeup_callback := None, status := Ready\<rparr>)"
        "sync_objects k' = sync_objects k" "waiting_threads k' = waiting_threads k" "same_managers k k'"
      using ResumeFromWait_ok [OF inv(1) t] r by auto
    have "t \<notin> set (waiting_threads k ob)" for ob using wait_okD(2) [OF inv(2), of t ob] t by auto
    then have "wait_ok k'" by (intro wait_ok_thread [OF inv(2) t(1) k'(2)]) (simp_all add: t k')
    moreover have "holders_ok k'" by (rule holders_ok_thread [OF inv(3) t(1) k'(2)]) (simp_all add: k')
    moreover have "counts_ok k'" using counts_ok_cong [OF k'(3)] inv(4) by simp
    ultimately have "kernel_ok k'" using k'(1) by (simp add: kernel_ok_def)
    moreover have "keeps k k'"
    proof (rule keepsI [OF k'(5)])
      show "known k ob \<Longrightarrow> known k' ob" for ob by (cases ob) (auto simp: known_def k')
    qed (auto simp: k'(2) t split: if_splits)
    ultimately show ?thesis by (simp add: safe_def)
  qed
qed

lemma ThreadWakeupCallback_ok:
  assumes env: "quiet_env env" and k: "kernel_ok k"
    and r: "ThreadWakeupCallback env core n k = Some k'"
  shows "safe k k'"
proof -
  obtain t th where t: "wakeup_callback_table (managers k ! core) n = Some t" "threads k t = Some th"
    using r by (auto simp: ThreadWakeupCallback_def split: bind_splits)
  show ?thesis
  proof (cases "status th \<in> {WaitSynchAny, WaitSynchAll, WaitArb, WaitHleEvent}")
    case False
    then show ?thesis
      using r ResumeFromWait_kernel_ok [OF k, of t k'] by (simp add: ThreadWakeupCallback_def t)
  next
    case True
    then obtain k1 where k1: "call_back env Timeout t None k = Some k1"
        "Option.bind (leave_waits t k1) (ResumeFromWait t) = Some k'"
      using r by (auto simp: ThreadWakeupCallback_def t split: bind_splits)
    note Q = quiet_step_ok [OF call_back_quiet [OF env k1(1)]]
    obtain th1 where th1: "threads k1 t = Some th1" "view th1 = view th"
      using same_waits_thread(1) [OF Q(2) t(2)] by blast
    have "status th1 \<noteq> Ready" "status th1 \<noteq> Running" "status th1 \<noteq> Dead"
      using th1(2) True by (auto simp: view_def)
    moreover have "kernel_ok k1" using Q(1) k by simp
    ultimately have "safe k1 k'" using leave_resume_ok [OF _ th1(1)] k1(2) by (fastforce simp: safe_def)
    with safe_same_waits [OF \<open>kernel_ok k1\<close> Q(2)] show ?thesis by (rule safe_trans)
  qed
qed

section \<open>Beginning to wait\<close>

definition join_waits :: "nat \<Rightarrow> oref list \<Rightarrow> ('s, 'g, 'e) kernel \<Rightarrow> ('s, 'g, 'e) kernel" where
  "join_waits t obs k = k\<lparr>waiting_threads := (\<lambda>ob.
     if ob \<in> set obs \<and> t \<notin> set (waiting_threads k ob) then waiting_threads k ob @ [t]
     else waiting_threads k ob)\<rparr>"

lemma bare_join_waits: "bare (join_waits t obs k) = join_waits t obs (bare k)"
  by (simp add: join_waits_def bare_waiting_update cong: if_cong)

lemma Add_all_ok:
  assumes "ready_ok k" "holders_ok k" "lists_ok k" "threads k t \<noteq> None"
  shows "\<exists>k'. Add_all obs t k = Some k' \<and> ready_ok k' \<and> bare k' = join_waits t obs (bare k)"
  using assms
proof (induction obs arbitrary: k)
  case Nil
  then show ?case by (simp add: join_waits_def)
next
  case (Cons ob obs)
  then obtain th where t: "threads k t = Some th" by auto
  let ?ts = "if t \<in> set (waiting_threads k ob) then waiting_threads k ob else waiting_threads k ob @ [t]"
  obtain k1 where k1: "AddWaitingThread ob t k = Some k1" "ready_ok k1"
      "bare k1 = bare (set_waiting ob ?ts k)"
    using AddWaitingThread_ok [OF Cons.prems(1-3) t] by blast
  have "lists_ok (set_waiting ob ?ts k)"
    using Cons.prems(3,4) by (auto simp: lists_ok_def)
  then have l: "lists_ok k1" using lists_ok_bare [OF k1(3)] by simp
  have h: "holders_ok k1" using bare_same(2) [OF k1(3)] Cons.prems(2) by simp
  have "threads k1 t \<noteq> None" using bare_threadD(2) [OF k1(3), of t th] t by auto
  then obtain k2 where k2: "Add_all obs t k1 = Some k2" "ready_ok k2"
      "bare k2 = join_waits t obs (bare k1)"
    using Cons.IH [OF k1(2) h l] by blast
  have "join_waits t obs (bare k1) = join_waits t (ob # obs) (bare k)"
    by (simp add: k1(3) bare_waiting_update set_waiting_def join_waits_def fun_eq_iff)
  with k1(1) k2 show ?case by simp
qed

text \<open>A thread that waits for nothing enters the lists of what it now waits for.\<close>

lemma join_waits_ok:
  fixes k k' :: "('s, 'g, 'e) kernel"
  assumes k: "wait_ok k" and t: "threads k t = Some th" "\<And>ob. t \<notin> set (waiting_threads k ob)"
    and w: "waiting_threads k' = waiting_threads (join_waits t obs k)"
    and t': "threads k' t = Some th'" "wait_objects th' = obs" "waiting_status (status th')"
    and same: "\<And>u. u \<noteq> t \<Longrightarrow> map_option view (threads k' u) = map_option view (threads k u)"
      "\<And>ob. known k' ob = known k ob"
    and obs: "\<And>ob. ob \<in> set obs \<Longrightarrow> known k ob"
  shows "wait_ok k'"
proof -
  have w': "waiting_threads k' ob = (if ob \<in> set obs then waiting_threads k ob @ [t] else waiting_threads k ob)" for ob
    using t(2) by (simp add: w join_waits_def)
  have "\<exists>x. threads k' u = Some x \<and> ob \<in> set (wait_objects x) \<and> waiting_status (status x)"
    if u: "u \<in> set (waiting_threads k' ob)" for ob u
  proof (cases "u = t")
    case True
    then show ?thesis using u t' t(2) by (auto simp: w' split: if_splits)
  next
    case False
    then have "u \<in> set (waiting_threads k ob)" using u by (auto simp: w' split: if_splits)
    from wait_okD(2) [OF k this] obtain x where "threads k u = Some x" "ob \<in> set (wait_objects x)"
      "waiting_status (status x)" by blast
    then show ?thesis using same(1) [OF False] by (auto simp: view_def)
  qed
  moreover have "known k' ob" if u: "threads k' u = Some x" "ob \<in> set (wait_objects x)" for u x ob
  proof (cases "u = t")
    case True
    then show ?thesis using u t' obs same(2) by auto
  next
    case False
    then obtain y where "threads k u = Some y" "wait_objects y = wait_objects x"
      using same(1) [OF False] u(1) by (cases "threads k u") (auto simp: view_def)
    then show ?thesis using wait_okD(3) [OF k, of u] u(2) same(2) by simp
  qed
  moreover have "distinct (waiting_threads k' ob)" for ob
    using wait_okD(1) [OF k] t(2) by (simp add: w')
  ultimately show ?thesis by (simp add: wait_ok_def)
qed
lemma suspended_ok:
  fixes k k1 k2 k' :: "('s, 'g, 'e) kernel"
  assumes k: "kernel_ok k" and t: "threads k t = Some th" "status th = Running"
    and obs: "\<And>ob. ob \<in> set obs \<Longrightarrow> known k ob"
    and k1: "threads k1 = (threads k)(t \<mapsto> th1)" "held_mutexes th1 = held_mutexes th"
      "core_id th1 = core_id th" "managers k1 = managers k"
      "status th1 \<noteq> Ready" "sync_objects k1 = sync_objects k" "waiting_threads k1 = waiting_threads k"
    and k2: "bare k2 = join_waits t obs (bare k1)" "ready_ok k2"
    and k': "threads k' = (threads k2)(t := map_option f (threads k2 t))"
      "managers k' = managers k2" "sync_objects k' = sync_objects k2"
      "waiting_threads k' = waiting_threads k2"
    and f: "\<And>x. core_id (f x) = core_id x" "\<And>x. current_priority (f x) = current_priority x"
      "\<And>x. nominal_priority (f x) = nominal_priority x" "\<And>x. held_mutexes (f x) = held_mutexes x"
      "\<And>x. wait_objects x = wait_objects th1 \<Longrightarrow> wait_objects (f x) = obs"
      "\<And>x. status x = status th1 \<Longrightarrow> waiting_status (status (f x))"
  shows "safe k k'"
proof -
  have inv: "ready_ok k" "wait_ok k" "holders_ok k" "counts_ok k"
    using k by (simp_all add: kernel_ok_def)
  have b: "bare k2 = bare (join_waits t obs k1)" by (simp add: k2(1) bare_join_waits)
  have j: "threads (join_waits t obs k1) = threads k1" "sync_objects (join_waits t obs k1) = sync_objects k1"
    by (simp_all add: join_waits_def)
  obtain th2 where th2: "threads k2 t = Some th2" "bare_thread th2 = bare_thread th1"
    using bare_threadD(2) [OF b, of t th1] by (auto simp: j k1(1))
  note e = bare_thread_eqD [OF th2(2)]
  have t': "threads k' = (threads k2)(t \<mapsto> f th2)" by (simp add: k'(1) th2(1))
  have w: "waiting_status (status (f th2))" "wait_objects (f th2) = obs" using f(5,6) e by simp_all
  have out: "t \<notin> set (waiting_threads k ob)" for ob
    using wait_okD(2) [OF inv(2), of t ob] t by (auto simp: waiting_status_def)
  have "ready_ok k'"
  proof (rule ready_ok_thread [OF k2(2) th2(1) t' _ f(1)])
    show "queues_of k' = queues_of k2" by (simp add: queues_of_def k'(2))
    show "nominal_priority (f th2) \<le> 63" using ready_okD(2) [OF k2(2) th2(1)] f(3) by simp
    show "status (f th2) = Ready \<longleftrightarrow> status th2 = Ready"
      using w(1) k1(5) e(1) by (auto simp: waiting_status_def)
  qed (rule f(2))
  moreover have known: "known k' ob = known k ob" for ob
  proof -
    have "known k' ob = known k2 ob" using th2(1) by (cases ob) (auto simp: known_def t' k'(3))
    also have "\<dots> = known (join_waits t obs k1) ob" by (rule known_of_bare [OF b])
    also have "\<dots> = known k ob" using t(1) by (cases ob) (auto simp: known_def j k1)
    finally show ?thesis .
  qed
  moreover have others: "map_option view (threads k' u) = map_option view (threads k u)" if "u \<noteq> t" for u
    using bare_map_view [OF b, of u] that by (simp add: t' j k1(1))
  moreover have "wait_ok k'"
  proof (rule join_waits_ok [OF inv(2) t(1) out _ _ w(2,1) _ _ obs])
    show "waiting_threads k' = waiting_threads (join_waits t obs k)"
      using bareD(1) [OF b] by (simp add: k'(4) join_waits_def k1(7) cong: if_cong)
    show "threads k' t = Some (f th2)" by (simp add: t')
    show "map_option view (threads k' u) = map_option view (threads k u)" if "u \<noteq> t" for u
      using others [OF that] .
    show "known k' ob = known k ob" for ob by (rule known)
  qed
  moreover have "holders_ok k1" by (rule holders_ok_thread [OF inv(3) t(1) k1(1,2,6)])
  then have "holders_ok (join_waits t obs k1)"
    by (simp add: holders_ok_def j mutex_of_cong [OF j(2)])
  then have "holders_ok k2" using bare_same(2) [OF b] by simp
  then have "holders_ok k'" by (rule holders_ok_thread [OF _ th2(1) t']) (simp_all add: f(4) k'(3))
  moreover have "counts_ok k'"
    using counts_ok_cong [OF k'(3)] bare_same(3) [OF b] counts_ok_cong [of "join_waits t obs k1" k] inv(4)
    by (simp add: j k1(6))
  moreover have "keeps k k'"
  proof (rule keepsI)
    have "same_managers k (join_waits t obs k1)" by (simp add: join_waits_def k1(4))
    from same_managers_trans [OF same_managers_trans [OF this bare_managers [OF b]], of k'] k'(2)
    show "same_managers k k'" by simp
    show "\<exists>y. threads k' u = Some y \<and> core_id y = core_id x" if "threads k u = Some x" for u x
    proof (cases "u = t")
      case True
      then show ?thesis using that t(1) e(4) by (simp add: t' f(1) k1(3))
    next
      case False
      then show ?thesis using others [OF False] that by (auto simp: view_def)
    qed
    show "\<exists>y. threads k u = Some y \<and> status y = Running \<and> core_id y = core_id x"
      if "threads k' u = Some x" "status x = Running" for u x
    proof (cases "u = t")
      case True
      then show ?thesis using that w(1) by (auto simp: t' waiting_status_def)
    next
      case False
      then show ?thesis using others [OF False] that by (cases "threads k u") (auto simp: view_def)
    qed
  qed (simp add: known)
  ultimately show ?thesis by (simp add: kernel_ok_def safe_def)
qed

lemma timing_sel [simp]:
  "queues_of (k\<lparr>timing_of := tm\<rparr>) = queues_of k"
  by (simp add: queues_of_def)

lemma WakeAfterDelay_timing:
  "WakeAfterDelay t n b k = Some k' \<Longrightarrow> \<exists>tm. k' = k\<lparr>timing_of := tm\<rparr>"
  by (auto simp: WakeAfterDelay_def split: if_splits bind_splits intro: exI [of _ "timing_of k"])

lemma suspend_ok:
  assumes k: "kernel_ok k" and t: "threads k t = Some th" "status th = Running"
    and obs: "\<And>ob. ob \<in> set obs \<Longrightarrow> known k ob"
    and st: "st = WaitSynchAny \<or> st = WaitSynchAll"
    and r: "suspend st b obs t ns k = Some k'"
  shows "safe k k'"
proof -
  have inv: "ready_ok k" "wait_ok k" "holders_ok k" using k by (simp_all add: kernel_ok_def)
  let ?k = "upd_thread t (\<lambda>th. th\<lparr>status := st\<rparr>) k"
  have th: "threads ?k = (threads k)(t \<mapsto> th\<lparr>status := st\<rparr>)" using t(1) by simp
  have "ready_ok ?k"
    by (rule ready_ok_thread [OF inv(1) t(1) th]) (use st t(2) ready_okD(2) [OF inv(1) t(1)] in auto)
  moreover have "holders_ok ?k" by (rule holders_ok_thread [OF inv(3) t(1) th]) simp_all
  moreover have "lists_ok ?k" using wait_ok_lists [OF inv(2)] by (auto simp: lists_ok_def th)
  ultimately obtain k2 where k2: "Add_all obs t ?k = Some k2" "ready_ok k2"
      "bare k2 = join_waits t obs (bare ?k)"
    using Add_all_ok [of ?k t obs] by (auto simp: th)
  obtain k3 where k3: "WakeAfterDelay t ns False (upd_thread t (\<lambda>th. th\<lparr>wait_objects := obs\<rparr>) k2) = Some k3"
      "k' = PrepareReschedule (upd_thread t (\<lambda>th. th\<lparr>wakeup_callback := Some (SyncCallback b)\<rparr>) k3)"
    using r k2(1) by (auto simp: suspend_def Let_def split: bind_splits)
  obtain tm where "k3 = (upd_thread t (\<lambda>th. th\<lparr>wait_objects := obs\<rparr>) k2)\<lparr>timing_of := tm\<rparr>"
    using WakeAfterDelay_timing [OF k3(1)] by blast
  then have k': "threads k' = (threads k2)(t := map_option (\<lambda>th. th\<lparr>wait_objects := obs,
        wakeup_callback := Some (SyncCallback b)\<rparr>) (threads k2 t))"
      "managers k' = managers k2" "sync_objects k' = sync_objects k2"
      "waiting_threads k' = waiting_threads k2"
    using k3(2) by (simp_all add: upd_thread_threads option.map_comp comp_def)
  show ?thesis
    by (rule suspended_ok [OF k t obs th _ _ _ _ _ _ k2(3,2) k'])
       (use st in \<open>auto simp: waiting_status_def\<close>)
qed

lemma WaitSynchronization1_ok:
  assumes k: "kernel_ok k" and t: "GetCurrentThread k = Some t" "threads k t = Some th" "status th = Running"
    and known: "\<And>ob. get_waitable (k, ht) h = Some ob \<Longrightarrow> known k ob"
    and r: "svc_WaitSynchronization1 h ns (k, ht) = Some (res, k', ht')"
  shows "safe k k'"
proof (cases "get_waitable (k, ht) h")
  case None
  then show ?thesis using r safe_refl [OF k] by (simp add: svc_WaitSynchronization1_def)
next
  case (Some ob)
  obtain w where w: "ShouldWait k ob t = Some w"
    using r by (auto simp: svc_WaitSynchronization1_def Some t split: bind_splits)
  show ?thesis
  proof (cases "w \<and> ns \<noteq> 0")
    case False
    then have "k' = k \<or> Acquire ob t k = Some k'"
      using r by (auto simp: svc_WaitSynchronization1_def Some t w split: bind_splits if_splits)
    then show ?thesis using safe_refl [OF k] Acquire_safe [OF k t(2)] by blast
  next
    case True
    have inv: "ready_ok k" "wait_ok k" "holders_ok k" using k by (simp_all add: kernel_ok_def)
    let ?k = "upd_thread t (\<lambda>th. th\<lparr>wait_objects := [ob]\<rparr>) k"
    have th: "threads ?k = (threads k)(t \<mapsto> th\<lparr>wait_objects := [ob]\<rparr>)" using t(2) by simp
    have "ready_ok ?k"
      by (rule ready_ok_thread [OF inv(1) t(2) th]) (use t ready_okD(2) [OF inv(1) t(2)] in auto)
    moreover have "holders_ok ?k" by (rule holders_ok_thread [OF inv(3) t(2) th]) simp_all
    moreover have "lists_ok ?k" using wait_ok_lists [OF inv(2)] by (auto simp: lists_ok_def th)
    ultimately obtain k2 where k2: "AddWaitingThread ob t ?k = Some k2" "ready_ok k2"
        "bare k2 = join_waits t [ob] (bare ?k)"
      using Add_all_ok [of ?k t "[ob]"] by (auto simp: th split: bind_splits)
    obtain k3 where k3: "WakeAfterDelay t ns False (upd_thread t (\<lambda>th. th\<lparr>status := WaitSynchAny\<rparr>) k2) = Some k3"
        "k' = PrepareReschedule (upd_thread t (\<lambda>th. th\<lparr>wakeup_callback := Some (SyncCallback False)\<rparr>) k3)"
      using r k2(1) True by (auto simp: svc_WaitSynchronization1_def Some t w Let_def split: bind_splits)
    obtain tm where "k3 = (upd_thread t (\<lambda>th. th\<lparr>status := WaitSynchAny\<rparr>) k2)\<lparr>timing_of := tm\<rparr>"
      using WakeAfterDelay_timing [OF k3(1)] by blast
    then have k': "threads k' = (threads k2)(t := map_option (\<lambda>th. th\<lparr>status := WaitSynchAny,
          wakeup_callback := Some (SyncCallback False)\<rparr>) (threads k2 t))"
        "managers k' = managers k2" "sync_objects k' = sync_objects k2"
        "waiting_threads k' = waiting_threads k2"
      using k3(2) by (simp_all add: upd_thread_threads option.map_comp comp_def)
    show ?thesis
      by (rule suspended_ok [OF k t(2,3) _ th _ _ _ _ _ _ k2(3,2) k'])
         (use known Some t(3) in \<open>auto simp: waiting_status_def\<close>)
  qed
qed
section \<open>Semaphores, events and timers\<close>

lemma safe_set_plain:
  assumes "kernel_ok k" "mutex_of k a = None" "\<And>m. ob \<noteq> KMutex m"
  shows "safe k (set_object a ob k)"
  by (rule safe_set_object) (rule kernel_ok_set_plain [OF assms])

lemma plain_objects:
  "event_of k a = Some e \<Longrightarrow> mutex_of k a = None" "timer_of k a = Some tm \<Longrightarrow> mutex_of k a = None"
  "sync_objects k a = Some (KSemaphore s) \<Longrightarrow> mutex_of k a = None"
  by (auto simp: event_of_def timer_of_def mutex_of_def split: option.splits kobject.splits)

lemma Event_Signal_safe:
  assumes env: "quiet_env env" and k: "kernel_ok k" and r: "Event_Signal env a k = Some k'"
  shows "safe k k'"
proof -
  obtain e where e: "event_of k a = Some e"
      "WakeupAllWaitingThreads env (RObj a) (set_object a (KEvent (e\<lparr>event_signaled := True\<rparr>)) k) = Some k'"
    using r by (auto simp: Event_Signal_def split: bind_splits)
  have s: "safe k (set_object a (KEvent (e\<lparr>event_signaled := True\<rparr>)) k)"
    by (rule safe_set_plain [OF k plain_objects(1) [OF e(1)]]) simp
  then have "kernel_ok (set_object a (KEvent (e\<lparr>event_signaled := True\<rparr>)) k)" by (simp add: safe_def)
  from safe_trans [OF s safe_wakeup [OF env this e(2)]] show ?thesis .
qed

lemma Event_Clear_safe:
  assumes k: "kernel_ok k" and r: "Event_Clear a k = Some k'"
  shows "safe k k'"
proof -
  obtain e where "event_of k a = Some e" "k' = set_object a (KEvent (e\<lparr>event_signaled := False\<rparr>)) k"
    using r by (auto simp: Event_Clear_def split: bind_splits)
  then show ?thesis using safe_set_plain [OF k plain_objects(1)] by simp
qed

lemma Semaphore_Release_safe:
  assumes env: "quiet_env env" and k: "kernel_ok k" and r: "Semaphore_Release env a n k = Some (res, k')"
  shows "safe k k'"
proof -
  obtain s total where s: "sync_objects k a = Some (KSemaphore s)" "s32_add n (available_count s) = Some total"
    using r by (auto simp: Semaphore_Release_def split: option.splits kobject.splits bind_splits)
  show ?thesis
  proof (cases "sint (max_count s) \<ge> sint total")
    case False
    then have "k' = k" using r s by (simp add: Semaphore_Release_def)
    then show ?thesis using safe_refl [OF k] by simp
  next
    case True
    let ?k = "set_object a (KSemaphore (s\<lparr>available_count := total\<rparr>)) k"
    have w: "WakeupAllWaitingThreads env (RObj a) ?k = Some k'"
      using r s True by (auto simp: Semaphore_Release_def split: bind_splits)
    have s1: "safe k ?k" by (rule safe_set_plain [OF k plain_objects(3) [OF s(1)]]) simp
    then have "kernel_ok ?k" by (simp add: safe_def)
    from safe_trans [OF s1 safe_wakeup [OF env this w]] show ?thesis .
  qed
qed

lemma safe_timing: "kernel_ok k \<Longrightarrow> safe k (k\<lparr>timing_of := tm\<rparr>)"
  by (rule safe_cong) simp_all

lemma KernelTimer_Signal_safe:
  assumes env: "quiet_env env" and k: "kernel_ok k" and r: "KernelTimer_Signal env a late k = Some k'"
  shows "safe k k'"
proof -
  obtain t k1 where t: "timer_of k a = Some t"
      and w: "WakeupAllWaitingThreads env (RObj a) (set_object a (KTimer (t\<lparr>timer_signaled := True\<rparr>)) k) = Some k1"
      and k': "k' = k1 \<or> (\<exists>tm. k' = k1\<lparr>timing_of := tm\<rparr>)"
    using r by (auto simp: KernelTimer_Signal_def split: bind_splits if_splits)
  let ?k = "set_object a (KTimer (t\<lparr>timer_signaled := True\<rparr>)) k"
  have s1: "safe k ?k" by (rule safe_set_plain [OF k plain_objects(2) [OF t]]) simp
  then have "kernel_ok ?k" by (simp add: safe_def)
  from safe_trans [OF s1 safe_wakeup [OF env this w]] have s: "safe k k1" .
  then have "safe k1 k'" using k' safe_refl [of k1] safe_timing [of k1] by (auto simp: safe_def)
  with s show ?thesis by (rule safe_trans)
qed

lemma KernelTimer_Cancel_safe:
  assumes k: "kernel_ok k" and r: "KernelTimer_Cancel a k = Some k'"
  shows "safe k k'"
  using r safe_timing [OF k] by (auto simp: KernelTimer_Cancel_def split: bind_splits)

lemma KernelTimer_Clear_safe:
  assumes k: "kernel_ok k" and r: "KernelTimer_Clear a k = Some k'"
  shows "safe k k'"
proof -
  obtain t where "timer_of k a = Some t" "k' = set_object a (KTimer (t\<lparr>timer_signaled := False\<rparr>)) k"
    using r by (auto simp: KernelTimer_Clear_def split: bind_splits)
  then show ?thesis using safe_set_plain [OF k plain_objects(2)] by simp
qed

lemma KernelTimer_Set_safe:
  assumes env: "quiet_env env" and k: "kernel_ok k" and r: "KernelTimer_Set env a initial interval k = Some k'"
  shows "safe k k'"
proof -
  obtain k1 t where k1: "KernelTimer_Cancel a k = Some k1" "timer_of k1 a = Some t"
    using r by (auto simp: KernelTimer_Set_def split: bind_splits)
  let ?k = "set_object a (KTimer (t\<lparr>initial_delay := initial, interval_delay := interval\<rparr>)) k1"
  have s1: "safe k k1" by (rule KernelTimer_Cancel_safe [OF k k1(1)])
  then have "kernel_ok k1" by (simp add: safe_def)
  from safe_trans [OF s1 safe_set_plain [OF this plain_objects(2) [OF k1(2)]]]
  have s2: "safe k ?k" by simp
  then have ok: "kernel_ok ?k" by (simp add: safe_def)
  have "safe ?k k'"
  proof (cases "initial = 0")
    case True
    then show ?thesis
      using r k1 KernelTimer_Signal_safe [OF env ok] by (simp add: KernelTimer_Set_def Let_def)
  next
    case False
    then show ?thesis
      using r k1 safe_timing [OF ok] by (auto simp: KernelTimer_Set_def Let_def split: bind_splits)
  qed
  with s2 show ?thesis by (rule safe_trans)
qed

lemma TimerCallback_safe:
  assumes "quiet_env env" and "kernel_ok k" and "TimerCallback env cb late k = Some k'"
  shows "safe k k'"
  using assms KernelTimer_Signal_safe by (auto simp: TimerCallback_def split: bind_splits)

section \<open>Priorities\<close>

lemma SetPriority_safe:
  assumes k: "kernel_ok k" and r: "SetPriority t p k = Some k'"
  shows "safe k k'"
proof -
  have inv: "ready_ok k" "wait_ok k" "holders_ok k" "counts_ok k"
    using k by (simp_all add: kernel_ok_def)
  obtain th where t: "threads k t = Some th" and p: "p \<le> 63"
    using r by (auto simp: SetPriority_def split: bind_splits if_splits)
  note D = ready_okD [OF inv(1) t]
  let ?c = "core_id th" and ?th = "th\<lparr>nominal_priority := p, current_priority := p\<rparr>"
  define f where "f = (if status th = Ready then tql_move t (current_priority th) p else tql_prepare p)"
  have k': "k' = upd_thread t (\<lambda>th. th\<lparr>nominal_priority := p, current_priority := p\<rparr>) (upd_ready ?c f k)"
    using r t p by (auto simp: SetPriority_def f_def split: if_splits)
  then have th: "threads k' = (threads k)(t \<mapsto> ?th)" using t by simp
  have q: "queue_ok ((threads k)(t \<mapsto> ?th)) ?c (f (queues_of k ! ?c))"
    using queue_ok_move [OF D(4) t refl _ p, of ?th] queue_ok_prepare [OF D(4) t refl _ p, of ?th]
    by (simp add: f_def)
  have "ready_ok k'"
    using th q p by (intro ready_ok_change [OF inv(1) t th, of "f (queues_of k ! ?c)"]) (simp_all add: k')
  moreover have s: "same_waits k k'"
    using t same_managers_upd_ready [of k ?c f]
    by (simp add: same_waits_def th k' view_def same_managers_def)
  moreover have "holders_ok k'" by (rule holders_ok_thread [OF inv(3) t th]) (simp_all add: k')
  moreover have "counts_ok k'" using counts_ok_cong [of k' k] inv(4) by (simp add: k')
  ultimately show ?thesis
    using wait_ok_same_waits [OF inv(2) s] by (intro safe_same_waits) (simp_all add: kernel_ok_def)
qed

lemma safe_bare:
  assumes "kernel_ok k" "bare k' = bare k" "ready_ok k'"
  shows "safe k k'"
  using kernel_ok_bare [OF assms(2,1,3)] bare_same_waits [OF assms(2)] by (rule safe_same_waits)

lemma Thread_UpdatePriority_safe:
  assumes k: "kernel_ok k" and r: "Thread_UpdatePriority t k = Some k'"
  shows "safe k k'"
proof -
  have inv: "ready_ok k" "holders_ok k" using k by (simp_all add: kernel_ok_def)
  obtain th where t: "threads k t = Some th"
    using r by (auto simp: Thread_UpdatePriority_def split: bind_splits)
  have "\<forall>a \<in> set (held_mutexes th). mutex_of k a \<noteq> None" using holders_okD(2) [OF inv(2) t] by auto
  from Thread_UpdatePriority_ok [OF inv(1) t this] r safe_bare [OF k] show ?thesis by auto
qed

lemma Mutex_UpdatePriority_safe:
  assumes k: "kernel_ok k" and r: "Mutex_UpdatePriority a k = Some k'"
  shows "safe k k'"
proof -
  have inv: "ready_ok k" "wait_ok k" "holders_ok k" using k by (simp_all add: kernel_ok_def)
  obtain m where m: "mutex_of k a = Some m"
    using r by (auto simp: Mutex_UpdatePriority_def split: bind_splits)
  have "waiters_known k a" using wait_ok_lists [OF inv(2)] by (simp add: lists_ok_def waiters_known_def)
  from Mutex_UpdatePriority_ok [OF inv(1) m this inv(3)] r safe_bare [OF k] show ?thesis by auto
qed

lemma update_mutexes_safe:
  assumes "kernel_ok k" and "update_mutexes as k = Some k'"
  shows "safe k k'"
  using assms
proof (induction as arbitrary: k)
  case Nil
  then show ?case by (simp add: safe_refl)
next
  case (Cons a as)
  then obtain k1 where k1: "Mutex_UpdatePriority a k = Some k1" "update_mutexes as k1 = Some k'"
    by (auto split: bind_splits)
  note s = Mutex_UpdatePriority_safe [OF Cons.prems(1) k1(1)]
  then have "kernel_ok k1" by (simp add: safe_def)
  from safe_trans [OF s Cons.IH [OF this k1(2)]] show ?case .
qed
section \<open>Supervisor calls\<close>

definition refs_ok :: "('s, 'g, 'e) svc_state \<Rightarrow> bool" where
  "refs_ok s \<longleftrightarrow> (\<forall>n ob. objects (snd s) n = Some (HWait ob) \<longrightarrow> known (fst s) ob)"

text \<open>The thread that makes a call.\<close>

definition caller :: "('s, 'g, 'e) kernel \<Rightarrow> nat \<Rightarrow> bool" where
  "caller k t \<longleftrightarrow> GetCurrentThread k = Some t \<and> (\<exists>th. threads k t = Some th \<and> status th = Running)"

lemma get_waitable_known:
  assumes r: "refs_ok s" and t: "GetCurrentThread (fst s) = Some t" "threads (fst s) t \<noteq> None"
    and h: "get_waitable s h = Some ob"
  shows "known (fst s) ob"
proof -
  have "get_object s h = Some (HWait ob)"
    using h by (auto simp: get_waitable_def split: option.splits kref.splits)
  then show ?thesis
    using r t by (auto simp: get_object_def HandleTable_GetGeneric_def refs_ok_def known_def
      split: if_splits)
qed

lemma refs_ok_safe: "refs_ok (k, ht) \<Longrightarrow> safe k k' \<Longrightarrow> refs_ok (k', ht)"
  using keepsD(2) by (fastforce simp: refs_ok_def safe_def)

lemma memory_sel [simp]: "queues_of (k\<lparr>kernel_memory := m\<rparr>) = queues_of k"
  by (simp add: queues_of_def)

text \<open>Reading the handles changes only what the machine's devices change.\<close>

lemma Read32_memory: "Read32 menv a k = Some (v, k') \<Longrightarrow> \<exists>m. k' = k\<lparr>kernel_memory := m\<rparr>"
  by (auto simp: Read32_def split: bind_splits)

lemma known_memory [simp]: "known (k\<lparr>kernel_memory := m\<rparr>) ob = known k ob"
  by (simp add: known_def cong: oref.case_cong)

lemma read_handles_memory:
  assumes "read_handles menv n a obs (k, ht) = Some (r, k', ht')" and "refs_ok (k, ht)"
    and "GetCurrentThread k = Some t" and "threads k t \<noteq> None" and "\<forall>ob \<in> set obs. known k ob"
  shows "(\<exists>m. k' = k\<lparr>kernel_memory := m\<rparr>) \<and> ht' = ht \<and> (\<forall>obs. r = Inr obs \<longrightarrow> (\<forall>ob \<in> set obs. known k ob))"
  using assms
proof (induction n arbitrary: a obs k)
  case 0
  then show ?case by (auto intro: exI [of _ "kernel_memory k"])
next
  case (Suc n)
  obtain h k1 where k1: "Read32 menv a k = Some (h, k1)" using Suc.prems(1) by (auto split: bind_splits)
  then obtain m where m: "k1 = k\<lparr>kernel_memory := m\<rparr>" using Read32_memory by blast
  have p: "refs_ok (k1, ht)" "GetCurrentThread k1 = Some t" "threads k1 t \<noteq> None"
    using Suc.prems(2-4) by (simp_all add: m refs_ok_def GetCurrentThread_def)
  show ?case
  proof (cases "get_waitable (k1, ht) h")
    case None
    then show ?thesis using Suc.prems(1) k1 by (auto simp: m)
  next
    case (Some ob)
    then have "\<forall>ob \<in> set (obs @ [ob]). known k1 ob"
      using get_waitable_known [of "(k1, ht)"] p Suc.prems(5) by (auto simp: m)
    from Suc.IH [OF _ p this] Suc.prems(1) k1 Some show ?thesis by (fastforce simp: m)
  qed
qed

lemma WaitSynchronizationN_safe:
  assumes k: "kernel_ok k" and c: "caller k t" and refs: "refs_ok (k, ht)"
    and r: "svc_WaitSynchronizationN menv a n all ns (k, ht) = Some (res, k', ht')"
  shows "safe k k' \<and> ht' = ht"
proof -
  obtain th where t: "GetCurrentThread k = Some t" "threads k t = Some th" "status th = Running"
    using c by (auto simp: caller_def)
  note R = r [unfolded svc_WaitSynchronizationN_def]
  obtain i p where ip: "current_process k = Some i" "processes k i = Some p"
    using R t by (cases "current_process k"; cases "processes k (the (current_process k))") auto
  show ?thesis
  proof (cases "IsValidVirtualAddress (vm_page_table (vm_of p)) a \<and> sint n \<ge> 0")
    case False
    then show ?thesis using R t ip safe_refl [OF k] by (auto split: if_splits)
  next
    case True
    then obtain obs k1 ht1 where rh: "read_handles menv (nat (sint n)) a [] (k, ht) = Some (obs, k1, ht1)"
      using R t ip by (cases "read_handles menv (nat (sint n)) a [] (k, ht)") auto
    have R1: "(case obs of
         Inl e \<Rightarrow> Some ((e, None), k1, ht1)
       | Inr obs \<Rightarrow>
           if all then do {
             all_available \<leftarrow> none_should_wait k1 obs t;
             if all_available then do {
               k \<leftarrow> Acquire_all obs t k1;
               Some ((ResultSuccess, None), k, ht1)}
             else if ns = 0 then Some ((ResultTimeout, None), k1, ht1)
             else do {
               k \<leftarrow> suspend WaitSynchAll False obs t ns k1;
               Some ((ResultTimeout, Some (- 1)), k, ht1)}}
           else do {
             found \<leftarrow> first_ready k1 obs t 0;
             case found of
               Some i \<Rightarrow> do {
                 k \<leftarrow> Acquire (obs ! i) t k1;
                 Some ((ResultSuccess, Some (of_nat i)), k, ht1)}
             | None \<Rightarrow>
                 if ns = 0 then Some ((ResultTimeout, None), k1, ht1)
                 else do {
                   k \<leftarrow> suspend WaitSynchAny True obs t ns k1;
                   Some ((ResultTimeout, Some (- 1)), k, ht1)}}) = Some (res, k', ht')"
      using R t ip True rh by simp
    have m: "ht1 = ht" "safe k k1"
      and known: "\<And>os ob. obs = Inr os \<Longrightarrow> ob \<in> set os \<Longrightarrow> known k1 ob"
      and t1: "threads k1 t = Some th"
      using read_handles_memory [OF rh refs t(1)] t(2) k by (auto intro!: safe_cong)
    then have k1: "kernel_ok k1" by (simp add: safe_def)
    have "safe k1 k' \<and> ht' = ht1"
    proof (cases obs)
      case (Inl e)
      then show ?thesis using R1 safe_refl [OF k1] by simp
    next
      case (Inr os)
      show ?thesis
      proof (cases all)
        case True
        then show ?thesis
          using R1 Inr safe_refl [OF k1] Acquire_all_safe [OF k1 t1]
            suspend_ok [OF k1 t1 t(3) known [OF Inr], where st = WaitSynchAll]
          by (auto split: bind_splits if_splits)
      next
        case False
        then show ?thesis
          using R1 Inr safe_refl [OF k1] Acquire_safe [OF k1 t1]
            suspend_ok [OF k1 t1 t(3) known [OF Inr], where st = WaitSynchAny]
          by (auto split: bind_splits if_splits option.splits)
      qed
    qed
    with m show ?thesis using safe_trans by blast
  qed
qed

lemma WaitSynchronization1_safe:
  assumes k: "kernel_ok k" and c: "caller k t" and refs: "refs_ok (k, ht)"
    and r: "svc_WaitSynchronization1 h ns (k, ht) = Some (res, k', ht')"
  shows "safe k k' \<and> ht' = ht"
proof -
  obtain th where t: "GetCurrentThread k = Some t" "threads k t = Some th" "status th = Running"
    using c by (auto simp: caller_def)
  have "ht' = ht"
    using r by (auto simp: svc_WaitSynchronization1_def Let_def split: option.splits bind_splits if_splits)
  moreover have "safe k k'"
    by (rule WaitSynchronization1_ok [OF k t _ r]) (use get_waitable_known [OF refs] t in auto)
  ultimately show ?thesis by simp
qed

lemma SleepThread_safe:
  assumes k: "kernel_ok k" and c: "caller k t"
    and r: "svc_SleepThread ns (k, ht) = Some (k', ht')"
  shows "safe k k' \<and> ht' = ht"
proof -
  obtain th where t: "current_thread (managers k ! current_cpu k) = Some t" "threads k t = Some th"
      "status th = Running"
    using c by (auto simp: caller_def GetCurrentThread_def)
  let ?k = "upd_thread t (\<lambda>th. th\<lparr>status := WaitSleep\<rparr>) k"
  have inv: "ready_ok k" "wait_ok k" "holders_ok k" "counts_ok k"
    using k by (simp_all add: kernel_ok_def)
  have th: "threads ?k = (threads k)(t \<mapsto> th\<lparr>status := WaitSleep\<rparr>)" using t(2) by simp
  have out: "t \<notin> set (waiting_threads k ob)" for ob
    using wait_okD(2) [OF inv(2), of t ob] t by (auto simp: waiting_status_def)
  have "ready_ok ?k"
    by (rule ready_ok_thread [OF inv(1) t(2) th]) (use t ready_okD(2) [OF inv(1) t(2)] in auto)
  moreover have "wait_ok ?k" by (rule wait_ok_thread [OF inv(2) t(2) th]) (simp_all add: out)
  moreover have "holders_ok ?k" by (rule holders_ok_thread [OF inv(3) t(2) th]) simp_all
  moreover have "counts_ok ?k" using counts_ok_cong [of ?k k] inv(4) by simp
  ultimately have ok: "kernel_ok ?k" by (simp add: kernel_ok_def)
  have "keeps k ?k"
  proof (rule keepsI)
    show "known k ob \<Longrightarrow> known ?k ob" for ob by (cases ob) (auto simp: known_def th)
  qed (auto simp: th t(2) split: if_splits)
  with ok have s: "safe k ?k" by (simp add: safe_def)
  have "(k' = k \<or> (\<exists>k1. WakeAfterDelay t ns False ?k = Some k1 \<and> k' = PrepareReschedule k1)) \<and> ht' = ht"
    using r t(1) by (auto simp: svc_SleepThread_def WaitCurrentThread_Sleep_def Let_def upd_thread_def
      split: bind_splits if_splits)
  then consider "k' = k" "ht' = ht" | tm where "k' = PrepareReschedule (?k\<lparr>timing_of := tm\<rparr>)" "ht' = ht"
    using WakeAfterDelay_timing by blast
  then show ?thesis
  proof cases
    case 1
    then show ?thesis using safe_refl [OF k] by simp
  next
    case 2
    have "safe ?k k'" by (rule safe_cong) (simp_all add: 2 ok)
    with s 2 show ?thesis using safe_trans by blast
  qed
qed

end
