(* ===== verification/SchedulerProofs.thy ===== *)
theory SchedulerProofs
  imports KernelSteps
begin

text \<open>Choosing and switching threads. While the scheduler works, the threads it has taken out of a
  ready queue are still \<open>Ready\<close>; \<open>hide\<close> gives them another status, so that the queue's invariant
  speaks of the others.\<close>

section \<open>Threads taken out of the queue\<close>

definition hide :: "nat set \<Rightarrow> (nat \<rightharpoonup> thread) \<Rightarrow> (nat \<rightharpoonup> thread)" where
  "hide S ths = (\<lambda>u. if u \<in> S then map_option (\<lambda>th. th\<lparr>status := Dead\<rparr>) (ths u) else ths u)"

lemma hide_empty [simp]: "hide {} ths = ths"
  by (simp add: hide_def)

lemma hide_insert:
  "ths t = Some th \<Longrightarrow> t \<notin> S \<Longrightarrow> hide (insert t S) ths = (hide S ths)(t \<mapsto> th\<lparr>status := Dead\<rparr>)"
  by (auto simp: hide_def fun_eq_iff)

lemma hide_ready:
  "hide S ths t = Some th \<Longrightarrow> status th = Ready \<Longrightarrow> t \<notin> S \<and> ths t = Some th"
  by (auto simp: hide_def split: if_splits)

lemma hide_Some: "ths u = Some x \<Longrightarrow> u \<notin> S \<Longrightarrow> hide S ths u = Some x"
  by (simp add: hide_def)

definition ready_on :: "(nat \<rightharpoonup> thread) \<Rightarrow> nat \<Rightarrow> nat \<Rightarrow> thread \<Rightarrow> bool" where
  "ready_on ths c u x \<longleftrightarrow> ths u = Some x \<and> status x = Ready \<and> core_id x = c"

text \<open>Every ready thread of the core with a priority better than \<open>b\<close> is in \<open>S\<close>.\<close>

definition none_better :: "(nat \<rightharpoonup> thread) \<Rightarrow> nat \<Rightarrow> nat set \<Rightarrow> nat \<Rightarrow> bool" where
  "none_better ths c S b \<longleftrightarrow> (\<forall>u x. ready_on ths c u x \<longrightarrow> current_priority x < b \<longrightarrow> u \<in> S)"

lemma empty_levels:
  assumes q: "queue_ok (hide S ths) c q" and e: "\<And>p. p < b \<Longrightarrow> tql_content q p = []"
  shows "none_better ths c S b"
  unfolding none_better_def
proof (intro allI impI)
  fix u x assume u: "ready_on ths c u x" "current_priority x < b"
  show "u \<in> S"
  proof (rule ccontr)
    assume "u \<notin> S"
    then have "hide S ths u = Some x" using u by (simp add: ready_on_def hide_Some)
    then have "u \<in> set (tql_content q (current_priority x))"
      using queue_okD(4) [OF q, of u "current_priority x"] u(1) by (simp add: ready_on_def)
    with e [OF u(2)] show False by simp
  qed
qed

definition qsize :: "nat tql \<Rightarrow> nat" where
  "qsize q = (\<Sum>p < tql_levels q. length (tql_content q p))"

lemma popped_thread:
  assumes q: "queue_ok (hide S ths) c q" and h: "tql_content q i = t # ts"
    and q': "tql_wf q'" "tql_levels q' = tql_levels q" "tql_prepared q' = tql_prepared q"
      "tql_content q' = (tql_content q)(i := ts)"
  shows "\<exists>th. ready_on ths c t th \<and> t \<notin> S \<and> current_priority th = i" and "queue_ok (hide (insert t S) ths) c q'"
    and "qsize q' < qsize q"
proof -
  note D = queue_okD [OF q]
  have "t \<in> set (tql_content q i)" by (simp add: h)
  then obtain th where th: "hide S ths t = Some th" "status th = Ready" "core_id th = c"
      "current_priority th = i"
    using D(4) by blast
  have t: "ths t = Some th" "t \<notin> S" using hide_ready [OF th(1,2)] by auto
  then show "\<exists>th. ready_on ths c t th \<and> t \<notin> S \<and> current_priority th = i"
    using th by (auto simp: ready_on_def)
  have i: "i < tql_levels q" using rq.content_levels [of q i] h by fastforce
  have "t \<notin> set ts" using D(3) [of i] h by simp
  then have e: "tql_content q' = tql_content (tql_remove i t q)"
    using rq.remove [OF D(1) i, of t] by (simp add: q'(4) h fun_eq_iff)
  have "queue_ok (hide (insert t S) ths) c (tql_remove i t q)"
    using queue_ok_remove [OF q th(1,3), of "th\<lparr>status := Dead\<rparr>"] th by (simp add: hide_insert [of ths t th S, OF t])
  then show "queue_ok (hide (insert t S) ths) c q'"
    using rq.remove [OF D(1) i, of t] by (simp add: queue_ok_def q'(1-3) e)
  have "length (tql_content q' p) \<le> length (tql_content q p)" for p
    by (simp add: q'(4) h)
  then show "qsize q' < qsize q"
    unfolding qsize_def q'(2) using i
    by (intro sum_strict_mono_ex1) (auto simp: q'(4) h intro!: bexI [of _ i])
qed

section \<open>The loops\<close>

definition parked :: "(nat \<rightharpoonup> thread) \<Rightarrow> nat \<Rightarrow> nat list \<Rightarrow> bool" where
  "parked ths c us \<longleftrightarrow> distinct us \<and> (\<forall>u \<in> set us. \<exists>x. ready_on ths c u x \<and> \<not> can_schedule x)"

lemma parked_snoc:
  "parked ths c us \<Longrightarrow> ready_on ths c t th \<Longrightarrow> \<not> can_schedule th \<Longrightarrow> t \<notin> set us \<Longrightarrow> parked ths c (us @ [t])"
  by (auto simp: parked_def)

definition set_queue :: "nat \<Rightarrow> nat tql \<Rightarrow> nat list \<Rightarrow> ('s, 'g, 'e) kernel \<Rightarrow> ('s, 'g, 'e) kernel" where
  "set_queue core q us = upd_manager core (\<lambda>m. m\<lparr>ready_queue := q, unscheduled_ready_queue := us\<rparr>)"

lemma set_queue_manager:
  "core < length (managers k) \<Longrightarrow>
    managers (set_queue core q us k) ! core =
      (managers k ! core)\<lparr>ready_queue := q, unscheduled_ready_queue := us\<rparr>"
  by (simp add: set_queue_def upd_manager_def)

lemma set_queue_sel [simp]:
  "threads (set_queue core q us k) = threads k" "length (managers (set_queue core q us k)) = length (managers k)"
  by (simp_all add: set_queue_def upd_manager_def)

lemma set_queue_twice [simp]:
  "set_queue core q us (set_queue core q' us' k) = set_queue core q us k"
  by (cases "core < length (managers k)") (simp_all add: set_queue_def upd_manager_def list_update_beyond)

lemma set_queue_same:
  assumes "unscheduled_ready_queue (managers k ! core) = us" "ready_queue (managers k ! core) = q"
  shows "set_queue core q us k = k"
proof -
  have "(managers k ! core)\<lparr>ready_queue := q, unscheduled_ready_queue := us\<rparr> = managers k ! core"
    using assms by simp
  then show ?thesis by (simp add: set_queue_def upd_manager_def)
qed

text \<open>What the loops find: the first thread that may run, of the best priority; those they passed
  over may not run.\<close>

definition chosen :: "(nat \<rightharpoonup> thread) \<Rightarrow> nat \<Rightarrow> nat set \<Rightarrow> nat \<Rightarrow> bool" where
  "chosen ths c S t \<longleftrightarrow> (\<exists>th. ready_on ths c t th \<and> can_schedule th \<and> t \<notin> S \<and>
     none_better ths c S (current_priority th))"

definition any_choice :: "(nat \<rightharpoonup> thread) \<Rightarrow> nat \<Rightarrow> nat set \<Rightarrow> nat option \<Rightarrow> bool" where
  "any_choice ths c S next \<longleftrightarrow> (case next of None \<Rightarrow> none_better ths c S 64 | Some t \<Rightarrow> chosen ths c S t)"

lemma pop_any_loop_spec:
  fixes k :: "('s, 'g, 'e) kernel"
  assumes "queue_ok (hide (set us) (threads k)) core (ready_queue (managers k ! core))"
    and "core < length (managers k)" and "unscheduled_ready_queue (managers k ! core) = us"
    and "parked (threads k) core us"
  shows "\<exists>next q us'. pop_any_loop core k = Some (next, set_queue core q us' k) \<and>
    parked (threads k) core us' \<and> queue_ok (hide (set us' \<union> set_option next) (threads k)) core q \<and>
    any_choice (threads k) core (set us') next"
  using assms
proof (induction "qsize (ready_queue (managers k ! core))" arbitrary: k us rule: less_induct)
  case less
  let ?q = "ready_queue (managers k ! core)"
  note D = queue_okD [OF less.prems(1)]
  show ?case
  proof (cases rule: rq.pop_first_cases [OF D(1)])
    case 1
    then have "pop_any_loop core k = Some (None, set_queue core ?q us k)"
      using less.prems(3) by (subst pop_any_loop.simps) (simp add: set_queue_same)
    moreover have "none_better (threads k) core (set us) 64"
      by (rule empty_levels [OF less.prems(1)]) (simp add: 1)
    ultimately show ?thesis
      using less.prems(1,4)
      by (intro exI [of _ None] exI [of _ ?q] exI [of _ us]) (simp add: any_choice_def)
  next
    case (2 i t ts q')
    note P = popped_thread [OF less.prems(1) 2(6,2,3,4,7)]
    obtain th where th: "ready_on (threads k) core t th" "t \<notin> set us" "current_priority th = i"
      using P(1) by blast
    then have t: "threads k t = Some th" by (simp add: ready_on_def)
    have nb: "none_better (threads k) core (set us) i"
      by (rule empty_levels [OF less.prems(1)]) (simp add: 2(5))
    show ?thesis
    proof (cases "can_schedule th")
      case True
      have "upd_ready core (\<lambda>_. q') k = set_queue core q' us k"
        by (simp add: upd_ready_def upd_manager_def set_queue_def flip: less.prems(3))
      then have "pop_any_loop core k = Some (Some t, set_queue core q' us k)"
        using t True by (subst pop_any_loop.simps) (simp add: 2(1))
      moreover have "chosen (threads k) core (set us) t"
        using th True nb by (auto simp: chosen_def)
      ultimately show ?thesis
        using P(2) less.prems(4)
        by (intro exI [of _ "Some t"] exI [of _ q'] exI [of _ us]) (simp add: any_choice_def)
    next
      case False
      let ?k = "set_queue core q' (us @ [t]) k"
      have step: "pop_any_loop core k = pop_any_loop core ?k"
        using t False less.prems(3)
        by (subst pop_any_loop.simps) (simp add: 2(1) set_queue_def upd_manager_def)
      have "\<exists>next q us'. pop_any_loop core ?k = Some (next, set_queue core q us' ?k) \<and>
          parked (threads ?k) core us' \<and> queue_ok (hide (set us' \<union> set_option next) (threads ?k)) core q \<and>
          any_choice (threads ?k) core (set us') next"
      proof (rule less.hyps)
        show "qsize (ready_queue (managers ?k ! core)) < qsize ?q"
          using P(3) by (simp add: set_queue_manager [OF less.prems(2)])
        show "queue_ok (hide (set (us @ [t])) (threads ?k)) core (ready_queue (managers ?k ! core))"
          using P(2) by (simp add: set_queue_manager [OF less.prems(2)])
        show "unscheduled_ready_queue (managers ?k ! core) = us @ [t]"
          by (simp add: set_queue_manager [OF less.prems(2)])
        show "parked (threads ?k) core (us @ [t])"
          using parked_snoc [OF less.prems(4) th(1) False th(2)] by simp
      qed (use less.prems(2) in simp)
      then show ?thesis by (simp add: step)
    qed
  qed
qed

definition better_choice ::
  "(nat \<rightharpoonup> thread) \<Rightarrow> nat \<Rightarrow> nat set \<Rightarrow> nat \<Rightarrow> nat \<Rightarrow> nat \<Rightarrow> bool" where
  "better_choice ths c S cur b t \<longleftrightarrow> t = cur \<and> none_better ths c S b \<or>
     chosen ths c S t \<and> current_priority (the (ths t)) < b"

text \<open>The same loop below the priority of the running thread. The returned set is that of the threads
  taken out and not put back.\<close>

lemma pop_better_loop_spec:
  fixes k :: "('s, 'g, 'e) kernel"
  assumes "queue_ok (hide (set us) (threads k)) core (ready_queue (managers k ! core))"
    and "core < length (managers k)" and "unscheduled_ready_queue (managers k ! core) = us"
    and "parked (threads k) core us" and "tql_prepared (ready_queue (managers k ! core)) b"
    and "threads k cur = Some x" "status x \<noteq> Ready"
  shows "\<exists>t q us'. pop_better_loop core cur b k = Some (Some t, set_queue core q us' k) \<and>
    parked (threads k) core us' \<and>
    queue_ok (hide (set us' \<union> (if t = cur then {} else {t})) (threads k)) core q \<and>
    better_choice (threads k) core (set us') cur b t"
  using assms
proof (induction "qsize (ready_queue (managers k ! core))" arbitrary: k us rule: less_induct)
  case less
  let ?q = "ready_queue (managers k ! core)"
  note D = queue_okD [OF less.prems(1)]
  show ?case
  proof (cases rule: rq.pop_first_better_cases [OF D(1) less.prems(5)])
    case 1
    then have "pop_better_loop core cur b k = Some (Some cur, set_queue core ?q us k)"
      using less.prems(3) by (subst pop_better_loop.simps) (simp add: set_queue_same)
    moreover have "none_better (threads k) core (set us) b"
      by (rule empty_levels [OF less.prems(1)]) (simp add: 1)
    ultimately show ?thesis
      using less.prems(1,4)
      by (intro exI [of _ cur] exI [of _ ?q] exI [of _ us]) (simp add: better_choice_def)
  next
    case (2 i t ts q')
    note P = popped_thread [OF less.prems(1) 2(7,3,4,5,8)]
    obtain th where th: "ready_on (threads k) core t th" "t \<notin> set us" "current_priority th = i"
      using P(1) by blast
    then have t: "threads k t = Some th" "t \<noteq> cur" using less.prems(6,7) by (auto simp: ready_on_def)
    have nb: "none_better (threads k) core (set us) i"
      by (rule empty_levels [OF less.prems(1)]) (simp add: 2(6))
    show ?thesis
    proof (cases "can_schedule th")
      case True
      have "upd_ready core (\<lambda>_. q') k = set_queue core q' us k"
        by (simp add: upd_ready_def upd_manager_def set_queue_def flip: less.prems(3))
      then have "pop_better_loop core cur b k = Some (Some t, set_queue core q' us k)"
        using t True by (subst pop_better_loop.simps) (simp add: 2(1))
      moreover have "better_choice (threads k) core (set us) cur b t"
        using th True nb t 2(2) by (auto simp: better_choice_def chosen_def)
      ultimately show ?thesis
        using P(2) less.prems(4) t(2) by (intro exI [of _ t] exI [of _ q'] exI [of _ us]) simp
    next
      case False
      let ?k = "set_queue core q' (us @ [t]) k"
      have step: "pop_better_loop core cur b k = pop_better_loop core cur b ?k"
        using t False less.prems(3)
        by (subst pop_better_loop.simps) (simp add: 2(1) set_queue_def upd_manager_def)
      have "\<exists>t' q us'. pop_better_loop core cur b ?k = Some (Some t', set_queue core q us' ?k) \<and>
          parked (threads ?k) core us' \<and>
          queue_ok (hide (set us' \<union> (if t' = cur then {} else {t'})) (threads ?k)) core q \<and>
          better_choice (threads ?k) core (set us') cur b t'"
      proof (rule less.hyps)
        show "qsize (ready_queue (managers ?k ! core)) < qsize ?q"
          using P(3) by (simp add: set_queue_manager [OF less.prems(2)])
        show "queue_ok (hide (set (us @ [t])) (threads ?k)) core (ready_queue (managers ?k ! core))"
          using P(2) by (simp add: set_queue_manager [OF less.prems(2)])
        show "unscheduled_ready_queue (managers ?k ! core) = us @ [t]"
          by (simp add: set_queue_manager [OF less.prems(2)])
        show "parked (threads ?k) core (us @ [t])"
          using parked_snoc [OF less.prems(4) th(1) False th(2)] by simp
        show "tql_prepared (ready_queue (managers ?k ! core)) b"
          using less.prems(5) 2(5) by (simp add: set_queue_manager [OF less.prems(2)])
      qed (use less.prems(2,6,7) in simp_all)
      then show ?thesis by (simp add: step)
    qed
  qed
qed

text \<open>The threads passed over go back to their queues.\<close>

lemma put_back_spec:
  fixes k :: "('s, 'g, 'e) kernel"
  assumes "queue_ok (hide (set us \<union> N) (threads k)) core (ready_queue (managers k ! core))"
    and "core < length (managers k)" and "parked (threads k) core us" and "set us \<inter> N = {}"
  shows "\<exists>q. put_back core us k = Some (upd_ready core (\<lambda>_. q) k) \<and> queue_ok (hide N (threads k)) core q"
  using assms
proof (induction us arbitrary: k)
  case Nil
  then show ?case
    by (intro exI [of _ "ready_queue (managers k ! core)"]) (simp add: upd_ready_def upd_manager_def)
next
  case (Cons t us)
  let ?q = "ready_queue (managers k ! core)"
  obtain th where th: "ready_on (threads k) core t th"
    using Cons.prems(3) by (auto simp: parked_def)
  then have t: "threads k t = Some th" "status th = Ready" "core_id th = core" by (simp_all add: ready_on_def)
  let ?k = "upd_ready core (tql_push_back (current_priority th) t) k"
  have out: "t \<notin> set us \<union> N" using Cons.prems(3,4) by (auto simp: parked_def)
  have h: "hide (set (t # us) \<union> N) (threads k) = (hide (set us \<union> N) (threads k))(t \<mapsto> th\<lparr>status := Dead\<rparr>)"
    using hide_insert [of "threads k" t th "set us \<union> N", OF t(1) out] by simp
  have "queue_ok ((hide (set us \<union> N) (threads k))(t \<mapsto> th\<lparr>status := Dead\<rparr>)) core ?q"
    using Cons.prems(1) unfolding h .
  from queue_ok_push [OF this, of t "th\<lparr>status := Dead\<rparr>" th]
  have "queue_ok ((hide (set us \<union> N) (threads k))(t \<mapsto> th\<lparr>status := Dead\<rparr>, t \<mapsto> th)) core
      (tql_push_back (current_priority th) t ?q)"
    using t by simp
  moreover have "(hide (set us \<union> N) (threads k))(t \<mapsto> th) = hide (set us \<union> N) (threads k)"
    using t(1) out by (auto simp: hide_def fun_eq_iff)
  ultimately have q: "queue_ok (hide (set us \<union> N) (threads ?k)) core (ready_queue (managers ?k ! core))"
    using Cons.prems(2) by (simp add: upd_ready_def upd_manager_def)
  have "parked (threads ?k) core us" "core < length (managers ?k)" "set us \<inter> N = {}"
    using Cons.prems(2-4) by (auto simp: parked_def upd_ready_def upd_manager_def)
  from Cons.IH [OF q this(2,1,3)] obtain q'
    where q': "put_back core us ?k = Some (upd_ready core (\<lambda>_. q') ?k)" "queue_ok (hide N (threads ?k)) core q'"
    by blast
  have "upd_ready core (\<lambda>_. q') ?k = upd_ready core (\<lambda>_. q') k"
    using Cons.prems(2) by (simp add: upd_ready_def upd_manager_def)
  with q' show ?case using t(1) by auto
qed
section \<open>The choice of the next thread\<close>

definition core_ok :: "('s, 'g, 'e) kernel \<Rightarrow> nat \<Rightarrow> bool" where
  "core_ok k core \<longleftrightarrow> core < length (managers k) \<and> unscheduled_ready_queue (managers k ! core) = [] \<and>
     (\<forall>t. current_thread (managers k ! core) = Some t \<longrightarrow>
       (\<exists>th. threads k t = Some th \<and> core_id th = core)) \<and>
     (\<forall>t th. threads k t = Some th \<longrightarrow> status th = Running \<longrightarrow> core_id th = core \<longrightarrow>
       current_thread (managers k ! core) = Some t)"

lemma core_okD:
  assumes "core_ok k core"
  shows "core < length (managers k)" and "unscheduled_ready_queue (managers k ! core) = []"
    and "current_thread (managers k ! core) = Some t \<Longrightarrow> \<exists>th. threads k t = Some th \<and> core_id th = core"
    and "threads k t = Some th \<Longrightarrow> status th = Running \<Longrightarrow> core_id th = core \<Longrightarrow>
      current_thread (managers k ! core) = Some t"
  using assms unfolding core_ok_def by blast+

lemma core_ok_transfer:
  assumes c: "core_ok k i" and m: "length (managers k') = length (managers k)"
      "current_thread (managers k' ! i) = current_thread (managers k ! i)"
      "unscheduled_ready_queue (managers k' ! i) = unscheduled_ready_queue (managers k ! i)"
    and t: "\<And>u x. threads k u = Some x \<Longrightarrow> core_id x = i \<Longrightarrow> \<exists>y. threads k' u = Some y \<and> core_id y = i"
      "\<And>u y. threads k' u = Some y \<Longrightarrow> status y = Running \<Longrightarrow> core_id y = i \<Longrightarrow>
        \<exists>x. threads k u = Some x \<and> status x = Running \<and> core_id x = i"
  shows "core_ok k' i"
  unfolding core_ok_def
proof (intro conjI allI impI)
  note C = core_okD [OF c]
  show "i < length (managers k')" "unscheduled_ready_queue (managers k' ! i) = []" using C(1,2) m by simp_all
  show "\<exists>th. threads k' u = Some th \<and> core_id th = i" if "current_thread (managers k' ! i) = Some u" for u
    using C(3) [of u] t(1) [of u] that m(2) by auto
  show "current_thread (managers k' ! i) = Some u"
    if "threads k' u = Some x" "status x = Running" "core_id x = i" for u x
    using C(4) [of u] t(2) [OF that] m(2) by auto
qed

lemma core_ok_keeps:
  assumes "core_ok k i" and "keeps k k'"
  shows "core_ok k' i"
proof -
  note m = same_managersD [OF keepsD(1) [OF assms(2)]] and l = core_okD(1) [OF assms(1)]
  show ?thesis
    by (rule core_ok_transfer [OF assms(1) m(1) m(2) [OF l] m(3) [OF l]])
      (use keepsD(3,4) [OF assms(2)] in fastforce)+
qed

text \<open>No ready thread of the core that may run is better than priority \<open>b\<close>.\<close>

definition best_for :: "(nat \<rightharpoonup> thread) \<Rightarrow> nat \<Rightarrow> nat \<Rightarrow> bool" where
  "best_for ths c b \<longleftrightarrow> (\<forall>u x. ready_on ths c u x \<longrightarrow> can_schedule x \<longrightarrow> b \<le> current_priority x)"

definition running_on :: "('s, 'g, 'e) kernel \<Rightarrow> nat \<Rightarrow> nat \<Rightarrow> thread \<Rightarrow> bool" where
  "running_on k core t th \<longleftrightarrow> current_thread (managers k ! core) = Some t \<and> threads k t = Some th \<and>
     status th = Running"

definition good_choice :: "('s, 'g, 'e) kernel \<Rightarrow> nat \<Rightarrow> nat option \<Rightarrow> bool" where
  "good_choice k core next \<longleftrightarrow>
     (case next of
        None \<Rightarrow> (\<forall>t th. \<not> running_on k core t th) \<and> best_for (threads k) core 64
      | Some t \<Rightarrow> \<exists>th. threads k t = Some th \<and> best_for (threads k) core (current_priority th) \<and>
          (running_on k core t th \<or>
           ready_on (threads k) core t th \<and> can_schedule th \<and>
           (\<forall>c x. running_on k core c x \<longrightarrow> current_priority th < current_priority x)))"

lemma parked_best_for:
  assumes "parked ths c us" and "none_better ths c (set us) b"
  shows "best_for ths c b"
  using assms unfolding parked_def none_better_def best_for_def ready_on_def
  by (metis linorder_not_less option.inject)

lemma set_queue_reset:
  assumes "core < length (managers k)" "unscheduled_ready_queue (managers k ! core) = []"
  shows "upd_manager core (\<lambda>m. m\<lparr>unscheduled_ready_queue := []\<rparr>)
     (upd_ready core (\<lambda>_. q) (set_queue core q' us k)) = upd_ready core (\<lambda>_. q) k"
  using assms(1) by (simp add: upd_ready_def upd_manager_def set_queue_def flip: assms(2))

lemma pop_then_put_back:
  fixes k :: "('s, 'g, 'e) kernel"
  assumes c: "core_ok k core"
    and pop: "parked (threads k) core us" "queue_ok (hide (set us \<union> N) (threads k)) core q" "set us \<inter> N = {}"
  shows "\<exists>q'. put_back core (rev us) (set_queue core q us k) = Some (upd_ready core (\<lambda>_. q') (set_queue core q us k)) \<and>
    queue_ok (hide N (threads k)) core q'"
proof -
  have l: "core < length (managers k)" using c by (simp add: core_ok_def)
  let ?k = "set_queue core q us k"
  have "\<exists>q'. put_back core (rev us) ?k = Some (upd_ready core (\<lambda>_. q') ?k) \<and> queue_ok (hide N (threads ?k)) core q'"
    by (rule put_back_spec) (use pop l in \<open>simp_all add: set_queue_manager parked_def\<close>)
  then show ?thesis by simp
qed

lemma PopNextReadyThread_spec:
  fixes k :: "('s, 'g, 'e) kernel"
  assumes k: "ready_ok k" and c: "core_ok k core"
  shows "\<exists>next q. PopNextReadyThread core k = Some (next, upd_ready core (\<lambda>_. q) k) \<and> good_choice k core next \<and>
    queue_ok (hide {t. next = Some t \<and> (\<exists>th. ready_on (threads k) core t th)} (threads k)) core q"
proof -
  have l: "core < length (managers k)" and u: "unscheduled_ready_queue (managers k ! core) = []"
    using c by (simp_all add: core_ok_def)
  have q: "queue_ok (hide (set []) (threads k)) core (ready_queue (managers k ! core))"
    using k l by (simp add: ready_ok_def queues_of_def)
  have pk: "parked (threads k) core []" by (simp add: parked_def)
  note reset = set_queue_reset [OF l u]
  show ?thesis
  proof (cases "\<exists>t th. running_on k core t th")
    case True
    then obtain t th where t: "current_thread (managers k ! core) = Some t" "threads k t = Some th"
        "status th = Running" by (auto simp: running_on_def)
    have core: "core_id th = core" using core_okD(3) [OF c t(1)] t(2) by simp
    have p: "tql_prepared (ready_queue (managers k ! core)) (current_priority th)"
      using queue_okD(6) [OF q, of t th] t(2) core by simp
    have "status th \<noteq> Ready" using t(3) by simp
    from pop_better_loop_spec [OF q l u pk p t(2) this]
    obtain t' q1 us where pop: "pop_better_loop core t (current_priority th) k = Some (Some t', set_queue core q1 us k)"
        "parked (threads k) core us"
        "queue_ok (hide (set us \<union> (if t' = t then {} else {t'})) (threads k)) core q1"
        "better_choice (threads k) core (set us) t (current_priority th) t'" by blast
    have d: "set us \<inter> (if t' = t then {} else {t'}) = {}"
      using pop(4) by (auto simp: better_choice_def chosen_def)
    obtain q2 where q2: "put_back core (rev us) (set_queue core q1 us k) = Some (upd_ready core (\<lambda>_. q2) (set_queue core q1 us k))"
        "queue_ok (hide (if t' = t then {} else {t'}) (threads k)) core q2"
      using pop_then_put_back [OF c pop(2,3) d] by blast
    have r: "PopNextReadyThread core k = Some (Some t', upd_ready core (\<lambda>_. q2) k)"
      using t pop(1) q2(1) l reset [of q2 q1 us] by (simp add: PopNextReadyThread_def set_queue_manager)
    have g: "good_choice k core (Some t')"
      using pop(4) parked_best_for [OF pop(2)] t
      by (auto simp: good_choice_def better_choice_def chosen_def running_on_def ready_on_def)
    have "{x. Some t' = Some x \<and> (\<exists>th. ready_on (threads k) core x th)} = (if t' = t then {} else {t'})"
      using pop(4) t by (auto simp: better_choice_def chosen_def ready_on_def)
    with r g q2(2) show ?thesis by auto
  next
    case False
    then have cur: "(case current_thread (managers k ! core) of None \<Rightarrow> Some None
       | Some t \<Rightarrow> map_option (\<lambda>th. if status th = Running then Some (t, current_priority th) else None)
           (threads k t)) = Some None"
      using core_okD(3) [OF c] by (fastforce simp: running_on_def split: option.split)
    obtain nx q1 us where pop: "pop_any_loop core k = Some (nx, set_queue core q1 us k)"
        "parked (threads k) core us" "queue_ok (hide (set us \<union> set_option nx) (threads k)) core q1"
        "any_choice (threads k) core (set us) nx"
      using pop_any_loop_spec [OF q l u pk] by blast
    have d: "set us \<inter> set_option nx = {}"
      using pop(4) by (auto simp: any_choice_def chosen_def split: option.splits)
    obtain q2 where q2: "put_back core (rev us) (set_queue core q1 us k) = Some (upd_ready core (\<lambda>_. q2) (set_queue core q1 us k))"
        "queue_ok (hide (set_option nx) (threads k)) core q2"
      using pop_then_put_back [OF c pop(2,3) d] by blast
    have r: "PopNextReadyThread core k = Some (nx, upd_ready core (\<lambda>_. q2) k)"
      using cur pop(1) q2(1) l reset [of q2 q1 us] by (simp add: PopNextReadyThread_def set_queue_manager)
    have g: "good_choice k core nx"
      using pop(4) parked_best_for [OF pop(2)] False
      by (auto simp: good_choice_def any_choice_def chosen_def ready_on_def split: option.splits)
    have "{x. nx = Some x \<and> (\<exists>th. ready_on (threads k) core x th)} = set_option nx"
      using pop(4) by (auto simp: any_choice_def chosen_def split: option.splits)
    with r g q2(2) show ?thesis by auto
  qed
qed
section \<open>Switching contexts\<close>

definition hk :: "nat set \<Rightarrow> ('s, 'g, 'e) kernel \<Rightarrow> ('s, 'g, 'e) kernel" where
  "hk S k = k\<lparr>threads := hide S (threads k)\<rparr>"

definition kernel_but :: "nat set \<Rightarrow> ('s, 'g, 'e) kernel \<Rightarrow> bool" where
  "kernel_but S k \<longleftrightarrow> ready_ok (hk S k) \<and> wait_ok k \<and> holders_ok k \<and> counts_ok k"

lemma kernel_but_empty [simp]: "kernel_but {} k = kernel_ok k"
  by (simp add: kernel_but_def kernel_ok_def hk_def)

lemma hk_sel [simp]: "threads (hk S k) = hide S (threads k)" "queues_of (hk S k) = queues_of k"
  by (simp_all add: hk_def queues_of_def)

lemma hide_upd:
  "hide S (ths(t \<mapsto> x)) = (hide S ths)(t \<mapsto> if t \<in> S then x\<lparr>status := Dead\<rparr> else x)"
  by (auto simp: hide_def fun_eq_iff)

lemma not_waiting:
  "wait_ok k \<Longrightarrow> threads k t = Some th \<Longrightarrow> \<not> waiting_status (status th) \<Longrightarrow> t \<notin> set (waiting_threads k ob)"
  using wait_okD(2) by fastforce

text \<open>One thread changes, and the queue of its core with it.\<close>

lemma kernel_but_change:
  fixes k k' :: "('s, 'g, 'e) kernel"
  assumes k: "kernel_but S k" and t: "threads k t = Some th" "threads k' = (threads k)(t \<mapsto> th')"
    and same: "core_id th' = core_id th" "nominal_priority th' = nominal_priority th"
      "wait_objects th' = wait_objects th" "held_mutexes th' = held_mutexes th"
      "wakeup_callback th' = wakeup_callback th"
    and st: "status th' = status th \<or> \<not> waiting_status (status th)"
    and obj: "sync_objects k' = sync_objects k" "waiting_threads k' = waiting_threads k"
    and q: "queues_of k' = (queues_of k)[core_id th := q]"
      "queue_ok (hide S' (threads k')) (core_id th) q"
    and S: "hide S' (threads k') = (hide S (threads k))(t \<mapsto> th'') \<and>
      core_id th'' = core_id th \<and> nominal_priority th'' = nominal_priority th"
  shows "kernel_but S' k'"
proof -
  have inv: "ready_ok (hk S k)" "wait_ok k" "holders_ok k" "counts_ok k"
    using k by (simp_all add: kernel_but_def)
  obtain x where x: "threads (hk S k) t = Some x" "core_id x = core_id th" "nominal_priority x = nominal_priority th"
    using t(1) by (cases "t \<in> S") (auto simp: hide_def)
  have "ready_ok (hk S' k')"
  proof (rule ready_ok_change [OF inv(1) x(1), of "hk S' k'" th'' q])
    show "threads (hk S' k') = (threads (hk S k))(t \<mapsto> th'')" using S by simp
    show "queues_of (hk S' k') = (queues_of (hk S k))[core_id x := q]" using q(1) x(2) by simp
    show "queue_ok (threads (hk S' k')) (core_id x) q" using q(2) x(2) by simp
    show "nominal_priority th'' \<le> 63" using S ready_okD(2) [OF inv(1) x(1)] x(3) by simp
  qed (use S x in simp)
  moreover have "wait_ok k'"
  proof (cases "\<exists>ob. t \<in> set (waiting_threads k ob)")
    case True
    then have "status th' = status th" using st not_waiting [OF inv(2) t(1)] by blast
    then have "same_waits k (k'\<lparr>managers := managers k\<rparr>)"
      using t same obj by (simp add: same_waits_def view_def)
    then have "wait_ok (k'\<lparr>managers := managers k\<rparr>)" by (rule wait_ok_same_waits [OF inv(2)])
    then show ?thesis by (simp add: wait_ok_def known_def cong: oref.case_cong)
  next
    case False
    then show ?thesis by (intro wait_ok_thread [OF inv(2) t]) (simp_all add: same obj)
  qed
  moreover have "holders_ok k'" by (rule holders_ok_thread [OF inv(3) t same(4) obj(1)])
  moreover have "counts_ok k'" using counts_ok_cong [OF obj(1)] inv(4) by simp
  ultimately show ?thesis by (simp add: kernel_but_def)
qed

lemma popped_kernel_but:
  fixes k :: "('s, 'g, 'e) kernel"
  assumes k: "kernel_ok k" and c: "core < length (managers k)"
    and q: "queue_ok (hide S (threads k)) core q" and S: "\<And>u. u \<in> S \<Longrightarrow> \<exists>x. ready_on (threads k) core u x"
  shows "kernel_but S (upd_ready core (\<lambda>_. q) k)"
proof -
  let ?k = "upd_ready core (\<lambda>_. q) k"
  have inv: "ready_ok k" "wait_ok k" "holders_ok k" "counts_ok k"
    using k by (simp_all add: kernel_ok_def)
  have "queue_ok (hide S (threads k)) i (queues_of ?k ! i)" if i: "i < length (queues_of k)" for i
  proof (cases "i = core")
    case True
    then show ?thesis using q i by simp
  next
    case False
    then have "hide S (threads k) u = Some x \<and> core_id x = i \<longleftrightarrow> threads k u = Some x \<and> core_id x = i" for u x
      using S [of u] by (auto simp: hide_def ready_on_def)
    then have e: "(\<exists>x. hide S (threads k) u = Some x \<and> status x = Ready \<and> core_id x = i \<and> current_priority x = p) \<longleftrightarrow>
        (\<exists>x. threads k u = Some x \<and> status x = Ready \<and> core_id x = i \<and> current_priority x = p)"
      "hide S (threads k) u = Some x \<Longrightarrow> core_id x = i \<Longrightarrow> threads k u = Some x" for u p x
      by metis+
    have "queue_ok (threads k) i (queues_of k ! i)" using inv(1) i by (simp add: ready_ok_def)
    note D = queue_okD [OF this]
    have "current_priority x \<le> 63 \<and> tql_prepared (queues_of k ! i) (current_priority x)"
      if "hide S (threads k) u = Some x" "core_id x = i" for u x
      using D(5,6) [OF e(2) [OF that] that(2)] by simp
    then show ?thesis
      using D(1-4) e(1) False by (intro queue_okI) (simp_all add: nth_upd)
  qed
  moreover have "core_id x < length (queues_of k) \<and> nominal_priority x \<le> 63"
    if "hide S (threads k) u = Some x" for u x
    using ready_okD(1,2) [OF inv(1), of u] that by (auto simp: hide_def split: if_splits)
  moreover have "wait_ok ?k = wait_ok k" "holders_ok ?k = holders_ok k"
    by (simp_all add: wait_ok_def holders_ok_def known_def mutex_of_cong [of ?k k] cong: oref.case_cong)
  ultimately show ?thesis
    using inv counts_ok_cong [of ?k k] by (simp add: kernel_but_def ready_ok_def)
qed
lemma queues_of_upd_manager:
  assumes "\<And>m. ready_queue (f m) = ready_queue m"
  shows "queues_of (upd_manager c f k) = queues_of k"
proof (cases "c < length (managers k)")
  case True
  then have "(map ready_queue (managers k))[c := ready_queue (managers k ! c)] = map ready_queue (managers k)"
    by (metis length_map list_update_id nth_map)
  then show ?thesis by (simp add: queues_of_def upd_manager_def map_update assms)
qed (simp add: queues_of_def upd_manager_def list_update_beyond)

lemma upd_cpu_sel [simp]:
  "threads (upd_cpu c f k) = threads k" "sync_objects (upd_cpu c f k) = sync_objects k"
  "waiting_threads (upd_cpu c f k) = waiting_threads k" "managers (upd_cpu c f k) = managers k"
  by (simp_all add: upd_cpu_def)

lemma SetCurrentProcessForCPU_sel [simp]:
  "threads (SetCurrentProcessForCPU p c k) = threads k"
  "sync_objects (SetCurrentProcessForCPU p c k) = sync_objects k"
  "waiting_threads (SetCurrentProcessForCPU p c k) = waiting_threads k"
  "managers (SetCurrentProcessForCPU p c k) = managers k"
  by (simp_all add: SetCurrentProcessForCPU_def SetCurrentMemoryPageTable_def)

lemma kernel_but_cong:
  assumes "threads k' = threads k" "sync_objects k' = sync_objects k"
    "waiting_threads k' = waiting_threads k" "managers k' = managers k" "kernel_but S k"
  shows "kernel_but S k'"
proof -
  have "ready_ok (hk S k') = ready_ok (hk S k)"
    by (rule ready_ok_cong) (simp_all add: assms hk_def queues_of_def)
  moreover have "wait_ok k' = wait_ok k"
    using assms(1-3) by (simp add: wait_ok_def known_def cong: oref.case_cong)
  moreover have "holders_ok k' = holders_ok k"
    by (simp add: holders_ok_def assms(1) mutex_of_cong [OF assms(2)])
  ultimately show ?thesis using assms(5) counts_ok_cong [OF assms(2)] by (simp add: kernel_but_def)
qed

lemma kernel_but_queue:
  assumes "kernel_but S k" "threads k t = Some th"
  shows "core_id th < length (queues_of k)"
    and "queue_ok (hide S (threads k)) (core_id th) (queues_of k ! core_id th)"
proof -
  have r: "ready_ok (hk S k)" using assms(1) by (simp add: kernel_but_def)
  obtain x where x: "threads (hk S k) t = Some x" "core_id x = core_id th"
    using assms(2) by (cases "t \<in> S") (auto simp: hide_def)
  show "core_id th < length (queues_of k)"
    "queue_ok (hide S (threads k)) (core_id th) (queues_of k ! core_id th)"
    using ready_okD(1,4) [OF r x(1)] x(2) by simp_all
qed

text \<open>The state after the outgoing thread's context is saved.\<close>

lemma save_previous_ok:
  fixes k k' :: "('s, 'g, 'e) kernel"
  assumes k: "kernel_but S k" and S: "\<And>u. u \<in> S \<Longrightarrow> \<exists>x. ready_on (threads k) core u x"
    and t: "current_thread (managers k ! core) = Some t" "threads k t = Some th" "core_id th = core"
    and r: "save_previous core k = Some (p, k')"
  shows "kernel_but S k' \<and> (\<exists>th'. threads k' = (threads k)(t \<mapsto> th') \<and> core_id th' = core \<and>
      current_priority th' = current_priority th \<and> can_schedule th' = can_schedule th \<and>
      status th' = (if status th = Running then Ready else status th)) \<and>
    length (managers k') = length (managers k) \<and> sync_objects k' = sync_objects k \<and>
    (\<forall>i. current_thread (managers k' ! i) = current_thread (managers k ! i) \<and>
      unscheduled_ready_queue (managers k' ! i) = unscheduled_ready_queue (managers k ! i))"
proof -
  obtain ticks where ticks: "Timer_GetTicks (timers (timing_of k) ! core) = Some ticks"
    using r t by (auto simp: save_previous_def split: bind_splits)
  let ?f = "\<lambda>th. th\<lparr>last_running_ticks := ticks, th_context := cpu_context (cpus k ! core)\<rparr>"
  note Q = kernel_but_queue [OF k t(2), unfolded t(3)]
  show ?thesis
  proof (cases "status th = Running")
    case True
    let ?th = "(?f th)\<lparr>status := Ready\<rparr>" and ?q = "tql_push_front (current_priority th) t (queues_of k ! core)"
    let ?k = "upd_thread t (\<lambda>th. th\<lparr>status := Ready\<rparr>)
      (upd_ready core (tql_push_front (current_priority th) t) (upd_thread t ?f k))"
    have k': "k' = ?k" using r t True ticks by (simp add: save_previous_def Let_def)
    have out: "t \<notin> S" using S [of t] t True by (auto simp: ready_on_def)
    have th: "threads k' = (threads k)(t \<mapsto> ?th)" using t by (simp add: k' upd_thread_threads)
    have h: "hide S (threads k') = (hide S (threads k))(t \<mapsto> ?th)" using out by (simp add: th hide_upd)
    have ht: "hide S (threads k) t = Some th" using t(2) out by (rule hide_Some)
    have "kernel_but S k'"
    proof (rule kernel_but_change [OF k t(2) th])
      show "queues_of k' = (queues_of k)[core_id th := ?q]" by (simp add: k' t(3))
      show "queue_ok (hide S (threads k')) (core_id th) ?q"
        unfolding h t(3) by (rule queue_ok_push [OF Q(2) ht t(3)]) (use True t in simp_all)
      show "hide S (threads k') = (hide S (threads k))(t \<mapsto> ?th) \<and> core_id ?th = core_id th \<and>
        nominal_priority ?th = nominal_priority th" using h by simp
    qed (use True in \<open>simp_all add: k' waiting_status_def\<close>)
    moreover have "\<exists>th'. threads k' = (threads k)(t \<mapsto> th') \<and> core_id th' = core \<and>
        current_priority th' = current_priority th \<and> can_schedule th' = can_schedule th \<and>
        status th' = (if status th = Running then Ready else status th)"
      by (rule exI [of _ ?th]) (simp add: th t True)
    ultimately show ?thesis by (simp add: k')
  next
    case False
    let ?th = "?f th"
    let ?h = "if t \<in> S then ?th\<lparr>status := Dead\<rparr> else ?th"
    have k': "k' = upd_thread t ?f k" using r t False ticks by (simp add: save_previous_def Let_def)
    have th: "threads k' = (threads k)(t \<mapsto> ?th)" using t by (simp add: k' upd_thread_threads)
    have h: "hide S (threads k') = (hide S (threads k))(t \<mapsto> ?h)" by (simp add: th hide_upd)
    obtain x where x: "hide S (threads k) t = Some x" "x = (if t \<in> S then th\<lparr>status := Dead\<rparr> else th)"
      using t(2) by (simp add: hide_def)
    have "kernel_but S k'"
    proof (rule kernel_but_change [OF k t(2) th])
      show "queues_of k' = (queues_of k)[core_id th := queues_of k ! core_id th]" by (simp add: k')
      show "queue_ok (hide S (threads k')) (core_id th) (queues_of k ! core_id th)"
        unfolding h t(3) by (rule queue_ok_other [OF Q(2) x(1)]) (simp_all add: x(2))
      show "hide S (threads k') = (hide S (threads k))(t \<mapsto> ?h) \<and> core_id ?h = core_id th \<and>
        nominal_priority ?h = nominal_priority th" using h by simp
    qed (simp_all add: k')
    moreover have "\<exists>th'. threads k' = (threads k)(t \<mapsto> th') \<and> core_id th' = core \<and>
        current_priority th' = current_priority th \<and> can_schedule th' = can_schedule th \<and>
        status th' = (if status th = Running then Ready else status th)"
      by (rule exI [of _ ?th]) (simp add: th t False)
    ultimately show ?thesis by (simp add: k')
  qed
qed
lemma load_next_ok:
  fixes k k' :: "('s, 'g, 'e) kernel"
  assumes k: "kernel_but S k" and S: "S \<subseteq> {t}" and c: "core < length (managers k)"
    and t: "threads k t = Some th" "core_id th = core"
    and r: "load_next core p t k = Some k'"
  shows "kernel_ok k' \<and> threads k' = (threads k)(t \<mapsto> th\<lparr>status := Running\<rparr>) \<and> status th = Ready \<and>
    current_thread (managers k' ! core) = Some t \<and> length (managers k') = length (managers k) \<and>
    sync_objects k' = sync_objects k \<and>
    (\<forall>i. (i \<noteq> core \<longrightarrow> current_thread (managers k' ! i) = current_thread (managers k ! i)) \<and>
      unscheduled_ready_queue (managers k' ! i) = unscheduled_ready_queue (managers k ! i))"
proof -
  have ready: "status th = Ready" using r t by (auto simp: load_next_def split: bind_splits if_splits)
  let ?tm = "UnscheduleEvent (wakeup_event core) (ucast (thread_id th)) (timing_of k)"
  let ?m = "upd_manager core (\<lambda>m. m\<lparr>current_thread := Some t\<rparr>) (k\<lparr>timing_of := ?tm\<rparr>)"
  let ?k = "upd_thread t (\<lambda>th. th\<lparr>status := Running\<rparr>)
    (upd_ready core (tql_remove (current_priority th) t) ?m)"
  let ?th = "th\<lparr>status := Running\<rparr>" and ?q = "tql_remove (current_priority th) t (queues_of k ! core)"
  obtain q where k': "k' = upd_cpu core (\<lambda>c. c\<lparr>cpu_context := th_context th, cp15_uro := th_tls_address th\<rparr>)
      (if p \<noteq> Some q then SetCurrentProcessForCPU q core ?k else ?k)"
    using r t ready by (auto simp: load_next_def Let_def split: bind_splits)
  have same: "threads k' = threads ?k" "sync_objects k' = sync_objects ?k"
    "waiting_threads k' = waiting_threads ?k" "managers k' = managers ?k"
    by (simp_all add: k')
  note Q = kernel_but_queue [OF k t(1), unfolded t(2)]
  have q: "queues_of ?m = queues_of k"
    by (subst queues_of_upd_manager) (simp_all add: queues_of_def)
  have th: "threads ?k = (threads k)(t \<mapsto> ?th)"
    using t by (simp add: upd_thread_threads upd_manager_def)
  have h: "hide {} (threads ?k) = (hide S (threads k))(t \<mapsto> ?th)"
    using S by (auto simp: th hide_def fun_eq_iff)
  obtain x where x: "hide S (threads k) t = Some x" "x = (if t \<in> S then th\<lparr>status := Dead\<rparr> else th)"
    using t(1) by (simp add: hide_def)
  have "kernel_but {} ?k"
  proof (rule kernel_but_change [OF k t(1) th])
    show "queues_of ?k = (queues_of k)[core_id th := ?q]" using q by (simp add: t(2))
    have "queue_ok ((hide S (threads k))(t \<mapsto> ?th)) core (tql_remove (current_priority x) t (queues_of k ! core))"
      by (rule queue_ok_remove [OF Q(2) x(1)]) (simp_all add: x(2) t(2))
    moreover have "current_priority x = current_priority th" by (simp add: x(2))
    ultimately show "queue_ok (hide {} (threads ?k)) (core_id th) ?q"
      by (simp add: h t(2) del: hide_empty)
    show "hide {} (threads ?k) = (hide S (threads k))(t \<mapsto> ?th) \<and> core_id ?th = core_id th \<and>
      nominal_priority ?th = nominal_priority th" using h by simp
  qed (simp_all add: ready waiting_status_def upd_manager_def)
  then have "kernel_but {} k'" by (rule kernel_but_cong [OF same])
  moreover have "current_thread (managers k' ! core) = Some t" using c by (simp add: same(4) upd_manager_def)
  moreover have "(i \<noteq> core \<longrightarrow> current_thread (managers k' ! i) = current_thread (managers k ! i)) \<and>
      unscheduled_ready_queue (managers k' ! i) = unscheduled_ready_queue (managers k ! i)" for i
    using c by (cases "i = core") (simp_all add: same(4) upd_manager_def)
  moreover have "length (managers k') = length (managers k)" by (simp add: same(4) upd_manager_def)
  moreover have "sync_objects k' = sync_objects k" by (simp add: same(2) upd_manager_def)
  ultimately show ?thesis using ready by (simp add: same(1) th)
qed

definition runs_best :: "('s, 'g, 'e) kernel \<Rightarrow> nat \<Rightarrow> bool" where
  "runs_best k core \<longleftrightarrow>
     (case current_thread (managers k ! core) of
        None \<Rightarrow> best_for (threads k) core 64
      | Some t \<Rightarrow> \<exists>th. running_on k core t th \<and> best_for (threads k) core (current_priority th))"

definition sview :: "thread \<Rightarrow> nat \<times> nat \<times> bool \<times> ThreadStatus" where
  "sview th = (core_id th, current_priority th, can_schedule th, status th)"

definition off_core :: "nat \<Rightarrow> thread \<Rightarrow> thread" where
  "off_core core th = (if status th = Running \<and> core_id th = core then th\<lparr>status := Ready\<rparr> else th)"

lemma saved_ok:
  fixes k k' :: "('s, 'g, 'e) kernel"
  assumes c: "core_ok k core" and kb: "kernel_but S (upd_ready core (\<lambda>_. q) k)"
    and S: "\<forall>u \<in> S. \<exists>x. ready_on (threads k) core u x"
    and r: "save_previous core (upd_ready core (\<lambda>_. q) k) = Some (p, k')"
  shows "kernel_but S k'" and "same_managers k k'" and "sync_objects k' = sync_objects k"
    and "map_option sview (threads k' u) = map_option (\<lambda>th. sview (off_core core th)) (threads k u)"
proof -
  let ?k = "upd_ready core (\<lambda>_. q) k"
  have other: "off_core core th = th" if "threads k u = Some th" "current_thread (managers k ! core) \<noteq> Some u" for u th
    using core_okD(4) [OF c that(1)] that(2) by (auto simp: off_core_def)
  have "kernel_but S k' \<and> same_managers k k' \<and> sync_objects k' = sync_objects k \<and>
    map_option sview (threads k' u) = map_option (\<lambda>th. sview (off_core core th)) (threads k u)"
  proof (cases "current_thread (managers k ! core)")
    case None
    then have "k' = ?k" using r by (simp add: save_previous_def)
    then show ?thesis
      using kb other [of u] None by (cases "threads k u") simp_all
  next
    case (Some t)
    then obtain th where t: "threads k t = Some th" "core_id th = core" using core_okD(3) [OF c] by blast
    have "current_thread (managers ?k ! core) = Some t" "threads ?k t = Some th" using t Some by simp_all
    from save_previous_ok [OF kb _ this t(2) r] S
    obtain th' where k': "kernel_but S k'" "threads k' = (threads k)(t \<mapsto> th')" "core_id th' = core"
        "current_priority th' = current_priority th" "can_schedule th' = can_schedule th"
        "status th' = (if status th = Running then Ready else status th)" "same_managers k k'"
        "sync_objects k' = sync_objects k"
      by (auto intro: same_managersI)
    have "map_option sview (threads k' u) = map_option (\<lambda>th. sview (off_core core th)) (threads k u)"
    proof (cases "u = t")
      case True
      then show ?thesis using t k'(2-6) by (simp add: sview_def off_core_def)
    next
      case False
      then show ?thesis using k'(2) other [of u] Some by (cases "threads k u") simp_all
    qed
    with k'(1,7,8) show ?thesis by simp
  qed
  then show "kernel_but S k'" "same_managers k k'" "sync_objects k' = sync_objects k"
    "map_option sview (threads k' u) = map_option (\<lambda>th. sview (off_core core th)) (threads k u)"
    by simp_all
qed

lemma sview_cases:
  assumes "\<And>u. map_option sview (threads k' u) = map_option (\<lambda>th. sview (off_core core th)) (threads k u)"
  shows "threads k' u = Some x' \<Longrightarrow> \<exists>x. threads k u = Some x \<and> core_id x' = core_id x \<and>
      current_priority x' = current_priority x \<and> can_schedule x' = can_schedule x \<and>
      status x' = (if status x = Running \<and> core_id x = core then Ready else status x)"
    and "threads k u = Some x \<Longrightarrow> \<exists>x'. threads k' u = Some x' \<and> core_id x' = core_id x \<and>
      current_priority x' = current_priority x \<and> can_schedule x' = can_schedule x \<and>
      status x' = (if status x = Running \<and> core_id x = core then Ready else status x)"
  using assms [of u] by (auto simp: map_option_case sview_def off_core_def split: option.splits if_splits)

lemma Reschedule_spec:
  fixes k k' :: "('s, 'g, 'e) kernel"
  assumes k: "kernel_ok k" and c: "core_ok k core" and r: "Reschedule core k = Some k'"
  shows "kernel_ok k' \<and> core_ok k' core \<and> runs_best k' core \<and>
    (\<forall>i. i \<noteq> core \<longrightarrow> core_ok k i \<longrightarrow> core_ok k' i) \<and> (\<forall>ob. known k ob \<longrightarrow> known k' ob) \<and>
    length (managers k') = length (managers k)"
proof -
  have l: "core < length (managers k)" using c by (simp add: core_ok_def)
  have "ready_ok k" using k by (simp add: kernel_ok_def)
  from PopNextReadyThread_spec [OF this c] obtain nx q
    where pop: "PopNextReadyThread core k = Some (nx, upd_ready core (\<lambda>_. q) k)" "good_choice k core nx"
      "queue_ok (hide {t. nx = Some t \<and> (\<exists>th. ready_on (threads k) core t th)} (threads k)) core q"
    by blast
  define S where "S = {t. nx = Some t \<and> (\<exists>th. ready_on (threads k) core t th)}"
  let ?k = "upd_ready core (\<lambda>_. q) k"
  have S: "\<forall>u \<in> S. \<exists>x. ready_on (threads k) core u x" by (simp add: S_def)
  have kb: "kernel_but S ?k" by (rule popped_kernel_but [OF k l pop(3) [folded S_def]]) (use S in blast)
  show ?thesis
  proof (cases nx)
    case None
    then have S0: "S = {}" by (simp add: S_def)
    have none: "\<And>t th. \<not> running_on k core t th" "best_for (threads k) core 64"
      using pop(2) None by (simp_all add: good_choice_def)
    have off: "off_core core x = x" if "threads k u = Some x" for u x
      using none(1) [of u x] core_okD(4) [OF c that] that by (auto simp: off_core_def running_on_def)
    obtain k1 where k1: "kernel_ok k1" "same_managers k k1"
        "sync_objects k1 = sync_objects k"
        "\<And>u. map_option sview (threads k1 u) = map_option sview (threads k u)"
        "k' = k1 \<and> current_thread (managers k1 ! core) = None \<or>
         k' = upd_manager core (\<lambda>m. m\<lparr>current_thread := None\<rparr>) k1"
    proof (cases "current_thread (managers k ! core)")
      case cur: None
      then have "k' = ?k" using r pop(1) None by (simp add: Reschedule_def)
      with kb S0 cur show thesis by (intro that [of ?k]) simp_all
    next
      case (Some t)
      then obtain p k1 where s: "save_previous core ?k = Some (p, k1)"
          "k' = upd_manager core (\<lambda>m. m\<lparr>current_thread := None\<rparr>) k1"
        using r pop(1) None by (auto simp: Reschedule_def SwitchContext_def split: bind_splits)
      note V = saved_ok [OF c kb S s(1)]
      have "map_option sview (threads k1 u) = map_option sview (threads k u)" for u
        using V(4) [of u] off [of u] by (cases "threads k u") simp_all
      with V(1-3) S0 s(2) show thesis by (intro that [of k1]) simp_all
    qed
    have th: "threads k' = threads k1" "queues_of k' = queues_of k1" "sync_objects k' = sync_objects k1"
        "waiting_threads k' = waiting_threads k1"
      using k1(5) queues_of_upd_manager [of "\<lambda>m. m\<lparr>current_thread := None\<rparr>" core k1]
      by (auto simp: upd_manager_def)
    have same: "map_option sview (threads k' u) = map_option sview (threads k u)" for u
      using k1(4) by (simp add: th(1))
    have cur: "current_thread (managers k' ! core) = None" "core < length (managers k')"
        "unscheduled_ready_queue (managers k' ! core) = []"
      using k1(5) l core_okD(2) [OF c] same_managersD [OF k1(2)] by (auto simp: upd_manager_def)
    have "status x \<noteq> Running" if x: "threads k' u = Some x" "core_id x = core" for u x
    proof -
      obtain y where y: "threads k u = Some y" "sview y = sview x"
        using same [of u] x(1) by (cases "threads k u") auto
      then show ?thesis
        using none(1) [of u y] core_okD(4) [OF c y(1)] x(2) by (auto simp: sview_def running_on_def)
    qed
    then have "core_ok k' core" using cur by (auto simp: core_ok_def)
    moreover have "best_for (threads k') core 64"
      unfolding best_for_def ready_on_def
    proof (intro allI impI)
      fix u x assume x: "threads k' u = Some x \<and> status x = Ready \<and> core_id x = core" "can_schedule x"
      obtain y where y: "threads k u = Some y" "sview y = sview x"
        using same [of u] x(1) by (cases "threads k u") auto
      then have "ready_on (threads k) core u y" "can_schedule y" using x by (simp_all add: sview_def ready_on_def)
      then show "64 \<le> current_priority x"
        using none(2) y(2) by (fastforce simp: best_for_def sview_def)
    qed
    moreover have "kernel_ok k'" using kernel_ok_cong [OF th(1,3,4,2)] k1(1) by simp
    moreover have "core_ok k' i" if i: "i \<noteq> core" "core_ok k i" for i
    proof (rule core_ok_transfer [OF i(2)])
      show "length (managers k') = length (managers k)"
        "current_thread (managers k' ! i) = current_thread (managers k ! i)"
        "unscheduled_ready_queue (managers k' ! i) = unscheduled_ready_queue (managers k ! i)"
        using k1(5) i same_managersD [OF k1(2)] core_okD(1) [OF i(2)] by (auto simp: upd_manager_def)
      show "\<exists>y. threads k' u = Some y \<and> core_id y = i" if "threads k u = Some x" "core_id x = i" for u x
        using same [of u] that by (auto simp: sview_def)
      show "\<exists>x. threads k u = Some x \<and> status x = Running \<and> core_id x = i"
        if "threads k' u = Some y" "status y = Running" "core_id y = i" for u y
        using same [of u] that by (cases "threads k u") (auto simp: sview_def)
    qed
    moreover have "known k' ob" if "known k ob" for ob
    proof (cases ob)
      case (RThread u)
      then show ?thesis using that same [of u] by (auto simp: known_def)
    next
      case (RObj a)
      then show ?thesis using that k1(3) by (simp add: known_def th(3))
    qed
    moreover have "length (managers k') = length (managers k)"
      using k1(5) same_managersD(1) [OF k1(2)] by (auto simp: upd_manager_def)
    ultimately show ?thesis using cur by (simp add: runs_best_def)
  next
    case (Some t)
    obtain th where t: "threads k t = Some th" "best_for (threads k) core (current_priority th)"
        "running_on k core t th \<or> ready_on (threads k) core t th \<and> can_schedule th \<and>
           (\<forall>c x. running_on k core c x \<longrightarrow> current_priority th < current_priority x)"
      using pop(2) Some by (auto simp: good_choice_def)
    have "core_id th = core"
      using t(1,3) core_okD(3) [OF c] by (auto simp: running_on_def ready_on_def)
    obtain p k1 where s: "save_previous core ?k = Some (p, k1)" "load_next core p t k1 = Some k'"
      using r pop(1) Some by (auto simp: Reschedule_def SwitchContext_def split: bind_splits)
    note V = saved_ok [OF c kb S s(1)]
    note C = sview_cases [OF V(4)]
    obtain th1 where th1: "threads k1 t = Some th1" "core_id th1 = core" "current_priority th1 = current_priority th"
      using C(2) [OF t(1)] \<open>core_id th = core\<close> by auto
    have l1: "core < length (managers k1)" using same_managersD(1) [OF V(2)] l by simp
    have "S \<subseteq> {t}" using Some by (auto simp: S_def)
    note L = load_next_ok [OF V(1) this l1 th1(1,2) s(2)]
    have th': "threads k' = (threads k1)(t \<mapsto> th1\<lparr>status := Running\<rparr>)"
        "current_thread (managers k' ! core) = Some t" "length (managers k') = length (managers k1)"
        "unscheduled_ready_queue (managers k' ! core) = []"
      using L same_managersD(3) [OF V(2) l] core_okD(2) [OF c] by simp_all
    have nr: "status x \<noteq> Running" if "threads k1 u = Some x" "core_id x = core" for u x
      using C(1) [OF that(1)] that(2) by (auto split: if_splits)
    have "current_thread (managers k' ! core) = Some u"
      if "threads k' u = Some x" "status x = Running" "core_id x = core" for u x
      using that nr [of u x] th'(1,2) by (cases "u = t") auto
    then have "core_ok k' core"
      using th' th1(2) l1 by (simp add: core_ok_def)
    moreover have "best_for (threads k') core (current_priority th)"
      unfolding best_for_def ready_on_def
    proof (intro allI impI)
      fix u x assume x: "threads k' u = Some x \<and> status x = Ready \<and> core_id x = core" "can_schedule x"
      then have u: "u \<noteq> t" "threads k1 u = Some x" using th'(1) by (auto split: if_splits)
      from C(1) [OF u(2)] obtain y where y: "threads k u = Some y" "core_id y = core"
          "current_priority x = current_priority y" "can_schedule y"
          "status y = Ready \<or> status y = Running"
        using x by (auto split: if_splits)
      show "current_priority th \<le> current_priority x"
      proof (cases "status y = Ready")
        case True
        then have "ready_on (threads k) core u y" using y by (simp add: ready_on_def)
        then show ?thesis using t(2) y(3,4) by (fastforce simp: best_for_def)
      next
        case False
        then have "running_on k core u y"
          using y core_okD(4) [OF c y(1)] by (simp add: running_on_def)
        then show ?thesis using t(3) y(3) u(1) by (fastforce simp: running_on_def)
      qed
    qed
    moreover have "core_ok k' i" if i: "i \<noteq> core" "core_ok k i" for i
    proof (rule core_ok_transfer [OF i(2)])
      show "length (managers k') = length (managers k)"
        "current_thread (managers k' ! i) = current_thread (managers k ! i)"
        "unscheduled_ready_queue (managers k' ! i) = unscheduled_ready_queue (managers k ! i)"
        using L i same_managersD [OF V(2)] core_okD(1) [OF i(2)] by simp_all
      show "\<exists>y. threads k' u = Some y \<and> core_id y = i" if "threads k u = Some x" "core_id x = i" for u x
        using C(2) [OF that(1)] that(2) th1 by (auto simp: th'(1))
      show "\<exists>x. threads k u = Some x \<and> status x = Running \<and> core_id x = i"
        if "threads k' u = Some y" "status y = Running" "core_id y = i" for u y
        using C(1) [of u y] that i th1(2) by (fastforce simp: th'(1) split: if_splits)
    qed
    moreover have "known k' ob" if "known k ob" for ob
    proof (cases ob)
      case (RThread u)
      then show ?thesis using that C(2) [of u] by (auto simp: known_def th'(1))
    next
      case (RObj a)
      then show ?thesis using that L V(3) by (simp add: known_def)
    qed
    moreover have "length (managers k') = length (managers k)"
      using L same_managersD(1) [OF V(2)] by simp
    moreover have "running_on k' core t (th1\<lparr>status := Running\<rparr>)"
      using th' by (simp add: running_on_def)
    ultimately show ?thesis
      using L th1(3) th'(2) by (auto simp: runs_best_def)
  qed
qed

end
