(* ===== verification/SvcSteps.thy ===== *)
theory SvcSteps
  imports SchedulerProofs
begin

text \<open>Supervisor calls keep the invariant of the kernel and the handle table's references.\<close>

section \<open>Threads that are neither ready nor waiting\<close>

lemma idle_changes:
  fixes k k' :: "('s, 'g, 'e) kernel"
  assumes k: "kernel_ok k" and t: "threads k t = Some th" "status th \<noteq> Ready" "\<not> waiting_status (status th)"
    and k': "threads k' = (threads k)(t \<mapsto> th')" "managers k' = managers k"
      "sync_objects k' = sync_objects k" "waiting_threads k' = waiting_threads k"
    and same: "status th' \<noteq> Ready" "core_id th' = core_id th" "current_priority th' = current_priority th"
      "nominal_priority th' = nominal_priority th" "held_mutexes th' = held_mutexes th"
      "wait_objects th' = wait_objects th" "status th' = Running \<Longrightarrow> status th = Running"
  shows "safe k k'"
proof -
  have inv: "ready_ok k" "wait_ok k" "holders_ok k" "counts_ok k"
    using k by (simp_all add: kernel_ok_def)
  have out: "t \<notin> set (waiting_threads k ob)" for ob
    by (rule not_waiting [OF inv(2) t(1,3)])
  have "ready_ok k'"
    by (rule ready_ok_thread [OF inv(1) t(1) k'(1)])
      (use same t(2) k'(2) ready_okD(2) [OF inv(1) t(1)] in \<open>simp_all add: queues_of_def\<close>)
  moreover have "wait_ok k'"
    by (rule wait_ok_thread [OF inv(2) t(1) k'(1)]) (simp_all add: out k' same)
  moreover have "holders_ok k'" by (rule holders_ok_thread [OF inv(3) t(1) k'(1) same(5) k'(3)])
  moreover have "counts_ok k'" using counts_ok_cong [OF k'(3)] inv(4) by simp
  moreover have "keeps k k'"
  proof (rule keepsI)
    show "known k ob \<Longrightarrow> known k' ob" for ob by (cases ob) (auto simp: known_def k')
  qed (use t k' same in \<open>auto split: if_splits\<close>)
  ultimately show ?thesis by (simp add: safe_def kernel_ok_def)
qed

lemma caller_changes:
  fixes k k' :: "('s, 'g, 'e) kernel"
  assumes k: "kernel_ok k" and t: "threads k t = Some th" "status th = Running"
    and k': "threads k' = (threads k)(t \<mapsto> th')" "managers k' = managers k"
      "sync_objects k' = sync_objects k" "waiting_threads k' = waiting_threads k"
    and same: "status th' \<noteq> Ready" "core_id th' = core_id th" "current_priority th' = current_priority th"
      "nominal_priority th' = nominal_priority th" "held_mutexes th' = held_mutexes th"
      "wait_objects th' = wait_objects th"
  shows "safe k k'"
  by (rule idle_changes [OF k t(1) _ _ k' same]) (simp_all add: t waiting_status_def)

section \<open>Arbitration\<close>

lemma set_arbiter_safe: "kernel_ok k \<Longrightarrow> safe k (set_arbiter a ts k)"
  by (rule safe_cong) (simp_all add: set_arbiter_def)

lemma WaitThread_safe:
  assumes "kernel_ok k" and "threads k t = Some th" "status th = Running"
  shows "safe k (WaitThread a t addr k)"
  by (rule caller_changes [OF assms, of _ "th\<lparr>wait_address := addr, status := WaitArb\<rparr>"])
    (use assms in \<open>simp_all add: WaitThread_def set_arbiter_def\<close>)

lemma resume_threads_safe:
  "kernel_ok k \<Longrightarrow> resume_threads ts k = Some k' \<Longrightarrow> safe k k'"
proof (induction ts arbitrary: k)
  case Nil
  then show ?case by (simp add: safe_refl)
next
  case (Cons t ts)
  then obtain k1 where k1: "ResumeFromWait t k = Some k1" "resume_threads ts k1 = Some k'"
    by (auto split: bind_splits)
  note s = ResumeFromWait_kernel_ok [OF Cons.prems(1) k1(1)]
  then have "kernel_ok k1" by (simp add: safe_def)
  from safe_trans [OF s Cons.IH [OF this k1(2)]] show ?case .
qed

lemma ResumeAllThreads_safe:
  assumes k: "kernel_ok k" and r: "ResumeAllThreads a addr k = Some (n, k')"
  shows "safe k k'"
proof -
  obtain os ms k1 where k1: "resume_threads ms k = Some k1" "k' = set_arbiter a os k1"
    using r by (auto simp: ResumeAllThreads_def split: bind_splits)
  note s = resume_threads_safe [OF k k1(1)]
  then have "kernel_ok k1" by (simp add: safe_def)
  from safe_trans [OF s set_arbiter_safe [OF this]] show ?thesis by (simp add: k1(2))
qed

lemma ResumeHighestPriorityThread_safe:
  assumes k: "kernel_ok k" and r: "ResumeHighestPriorityThread a addr k = Some (ok, k')"
  shows "safe k k'"
proof -
  obtain os ms where sp: "split_waiters k addr (arbiter_threads k a) = Some (os, ms)"
    using r by (auto simp: ResumeHighestPriorityThread_def split: bind_splits)
  let ?k = "set_arbiter a (os @ ms) k"
  note s = set_arbiter_safe [OF k, of a "os @ ms"]
  then have k0: "kernel_ok ?k" by (simp add: safe_def)
  show ?thesis
  proof (cases "min_waiter ?k ms")
    case None
    then show ?thesis using r sp s by (simp add: ResumeHighestPriorityThread_def)
  next
    case (Some t)
    then obtain k1 where k1: "ResumeFromWait t ?k = Some k1" "k' = set_arbiter a (os @ remove1 t ms) k1"
      using r sp by (auto simp: ResumeHighestPriorityThread_def split: bind_splits)
    note s1 = ResumeFromWait_kernel_ok [OF k0 k1(1)]
    then have "kernel_ok k1" by (simp add: safe_def)
    from safe_trans [OF safe_trans [OF s s1] set_arbiter_safe [OF this]] show ?thesis by (simp add: k1(2))
  qed
qed

lemma resume_first_safe:
  "kernel_ok k \<Longrightarrow> resume_first i a addr n k = Some (m, k') \<Longrightarrow> safe k k'"
proof (induction i arbitrary: k n)
  case 0
  then show ?case by (simp add: safe_refl)
next
  case (Suc i)
  then obtain ok k1 where k1: "ResumeHighestPriorityThread a addr k = Some (ok, k1)"
      "resume_first i a addr (if ok then n + 1 else n) k1 = Some (m, k')"
    by (auto split: bind_splits)
  note s = ResumeHighestPriorityThread_safe [OF Suc.prems(1) k1(1)]
  then have "kernel_ok k1" by (simp add: safe_def)
  from safe_trans [OF s Suc.IH [OF this k1(2)]] show ?case .
qed

lemma Write32_memory: "Write32 menv a v k = Some k' \<Longrightarrow> \<exists>m. k' = k\<lparr>kernel_memory := m\<rparr>"
  by (auto simp: Write32_def split: bind_splits)

lemma safe_memory: "kernel_ok k \<Longrightarrow> safe k (k\<lparr>kernel_memory := m\<rparr>)"
  by (rule safe_cong) simp_all

lemma wait_with_timeout_safe:
  assumes k: "kernel_ok k" and t: "threads k t = Some th" "status th = Running"
    and r: "wait_with_timeout a t addr ns k = Some k'"
  shows "safe k k'"
proof -
  let ?k = "upd_thread t (\<lambda>th. th\<lparr>wakeup_callback := Some (ArbiterCallback a)\<rparr>) k"
  let ?th = "th\<lparr>wakeup_callback := Some (ArbiterCallback a)\<rparr>"
  obtain tm where k': "k' = WaitThread a t addr (?k\<lparr>timing_of := tm\<rparr>)"
    using r WakeAfterDelay_timing by (fastforce simp: wait_with_timeout_def Let_def split: bind_splits)
  have s: "safe k ?k"
    by (rule caller_changes [OF k t, of _ ?th]) (use t in \<open>simp_all add: upd_thread_threads\<close>)
  then have "kernel_ok ?k" by (simp add: safe_def)
  from safe_timing [OF this] have s1: "safe ?k (?k\<lparr>timing_of := tm\<rparr>)" .
  then have "kernel_ok (?k\<lparr>timing_of := tm\<rparr>)" by (simp add: safe_def)
  from WaitThread_safe [OF this, of t ?th] t
  have "safe (?k\<lparr>timing_of := tm\<rparr>) k'" by (simp add: k')
  with safe_trans [OF s s1] show ?thesis by (rule safe_trans)
qed

lemma arbitrate_signal_safe:
  assumes k: "kernel_ok k" and r: "arbitrate_signal scaled a t addr v k = Some k'"
  shows "safe k k'"
proof -
  obtain n k1 where k1: "(if sint v < 0 then ResumeAllThreads a addr k
       else resume_first (nat (sint v)) a addr 0 k) = Some (n, k1)"
      "k' = k1 \<or> k' = k1\<lparr>timing_of := upd_timer (current_cpu k1) (AddTicks scaled 1614) (timing_of k1)\<rparr>"
    using r by (auto simp: arbitrate_signal_def split: bind_splits if_splits)
  have s: "safe k k1"
    using k1(1) ResumeAllThreads_safe [OF k] resume_first_safe [OF k] by (auto split: if_splits)
  then have "kernel_ok k1" by (simp add: safe_def)
  then have "safe k1 k'" using k1(2) safe_refl safe_timing by auto
  with s show ?thesis by (rule safe_trans)
qed

lemma ArbitrateAddress_safe:
  assumes k: "kernel_ok k" and t: "threads k t = Some th" "status th = Running"
    and r: "ArbitrateAddress menv scaled a t ty addr v ns k = Some (res, k')"
  shows "safe k k'"
proof -
  have reads: "safe k k1 \<and> kernel_ok k1 \<and> threads k1 t = Some th" if "Read32 menv addr k = Some (w, k1)" for w k1
    using Read32_memory [OF that] safe_memory [OF k] t(1) by (auto simp: safe_def)
  have writes: "safe k1 k2 \<and> kernel_ok k2 \<and> threads k2 t = Some th"
    if "kernel_ok k1" "threads k1 t = Some th" "Write32 menv addr d k1 = Some k2" for d k1 k2
    using Write32_memory [OF that(3)] safe_memory [OF that(1)] that(2) by (auto simp: safe_def)
  note W = WaitThread_safe [OF _ _ t(2)] wait_with_timeout_safe [OF _ _ t(2)]
  show ?thesis
  proof (cases "arbitration_type ty")
    case None
    then show ?thesis using r safe_refl [OF k] by (simp add: ArbitrateAddress_def)
  next
    case (Some b)
    show ?thesis
    proof (cases b)
      case ArbSignal
      then show ?thesis using r Some arbitrate_signal_safe [OF k] by (auto simp: ArbitrateAddress_def)
    next
      case WaitIfLessThan
      then obtain w k1 where k1: "Read32 menv addr k = Some (w, k1)"
          "k' = k1 \<or> k' = WaitThread a t addr k1"
        using r Some by (auto simp: ArbitrateAddress_def split: bind_splits if_splits)
      then show ?thesis using reads [OF k1(1)] W(1) [of k1] safe_trans [of k k1 k'] by auto
    next
      case WaitIfLessThanWithTimeout
      then obtain w k1 where k1: "Read32 menv addr k = Some (w, k1)"
          "k' = k1 \<or> wait_with_timeout a t addr ns k1 = Some k'"
        using r Some by (auto simp: ArbitrateAddress_def split: bind_splits if_splits)
      then show ?thesis using reads [OF k1(1)] W(2) [of k1] safe_trans [of k k1 k'] by auto
    next
      case DecrementAndWaitIfLessThan
      then obtain w k1 where k1: "Read32 menv addr k = Some (w, k1)"
          "k' = k1 \<or> (\<exists>d k2. Write32 menv addr d k1 = Some k2 \<and> k' = WaitThread a t addr k2)"
        using r Some by (fastforce simp: ArbitrateAddress_def split: bind_splits if_splits)
      have k1': "safe k k1" "kernel_ok k1" "threads k1 t = Some th" using reads [OF k1(1)] by simp_all
      from k1(2) have "safe k1 k'"
      proof (elim disjE exE conjE)
        fix d k2 assume w: "Write32 menv addr d k1 = Some k2" and k': "k' = WaitThread a t addr k2"
        have k2: "safe k1 k2" "kernel_ok k2" "threads k2 t = Some th" using writes [OF k1'(2,3) w] by simp_all
        show "safe k1 k'" by (rule safe_trans [OF k2(1)]) (use W(1) [OF k2(2,3)] k' in simp)
      qed (simp add: safe_refl [OF k1'(2)])
      with k1'(1) show ?thesis by (rule safe_trans)
    next
      case DecrementAndWaitIfLessThanWithTimeout
      then obtain w k1 where w: "Read32 menv addr k = Some (w, k1)"
        using r Some by (auto simp: ArbitrateAddress_def split: bind_splits)
      have "k' = k1 \<or> (\<exists>d k2. Write32 menv addr d k1 = Some k2 \<and> wait_with_timeout a t addr ns k2 = Some k')"
      proof (cases "sint w < sint v")
        case True
        then obtain d k2 where "Write32 menv addr d k1 = Some k2" "wait_with_timeout a t addr ns k2 = Some k'"
          using r Some w DecrementAndWaitIfLessThanWithTimeout
          by (auto simp: ArbitrateAddress_def split: bind_splits)
        then show ?thesis by blast
      qed (use r Some w DecrementAndWaitIfLessThanWithTimeout in \<open>simp add: ArbitrateAddress_def\<close>)
      note k1 = w this
      have k1': "safe k k1" "kernel_ok k1" "threads k1 t = Some th" using reads [OF k1(1)] by simp_all
      from k1(2) have "safe k1 k'"
      proof (elim disjE exE conjE)
        fix d k2 assume w: "Write32 menv addr d k1 = Some k2" and k': "wait_with_timeout a t addr ns k2 = Some k'"
        have k2: "safe k1 k2" "kernel_ok k2" "threads k2 t = Some th" using writes [OF k1'(2,3) w] by simp_all
        show "safe k1 k'" by (rule safe_trans [OF k2(1)]) (use W(2) [OF k2(2,3)] k' in simp)
      qed (simp add: safe_refl [OF k1'(2)])
      with k1'(1) show ?thesis by (rule safe_trans)
    qed
  qed
qed
section \<open>New objects\<close>

definition unused :: "kobject \<Rightarrow> bool" where
  "unused ob \<longleftrightarrow> (\<forall>m. ob = KMutex m \<longrightarrow> lock_count m = 0 \<and> holding_thread m = None)"

lemma set_new_object_safe:
  assumes k: "kernel_ok k" and a: "sync_objects k a = None" and ob: "unused ob"
  shows "safe k (set_object a ob k)"
proof (rule safe_set_object)
  let ?k = "set_object a ob k"
  have inv: "ready_ok k" "wait_ok k" "holders_ok k" "counts_ok k"
    using k by (simp_all add: kernel_ok_def)
  have free: "mutex_of k a = None" by (simp add: mutex_of_def a)
  have new: "mutex_of ?k b = Some m \<Longrightarrow> mutex_of k b = Some m \<or> lock_count m = 0 \<and> holding_thread m = None" for b m
    using ob by (cases ob) (auto simp: mutex_of_set_object unused_def split: if_splits)
  have old: "mutex_of k b = Some m \<Longrightarrow> mutex_of ?k b = Some m" for b m
    using free by (auto simp: mutex_of_set_object)
  have "holders_ok ?k"
    unfolding holders_ok_def
  proof (intro conjI allI impI)
    show "\<exists>th. threads ?k t = Some th \<and> b \<in> set (held_mutexes th)"
      if "mutex_of ?k b = Some m" "holding_thread m = Some t" for b m t
      using new [OF that(1)] that(2) holders_okD(1) [OF inv(3)] by auto
    show "\<forall>b \<in> set (held_mutexes th). \<exists>m. mutex_of ?k b = Some m \<and> holding_thread m = Some t"
      if "threads ?k t = Some th" for t th
      using holders_okD(2) [OF inv(3), of t th] that old by fastforce
  qed
  moreover have "counts_ok ?k"
    unfolding counts_ok_def using new counts_okD [OF inv(4)] by fastforce
  moreover have "ready_ok ?k" using inv(1) ready_ok_cong [of ?k k] by simp
  moreover have "wait_ok ?k" by (rule wait_ok_same_waits [OF inv(2)]) simp
  ultimately show "kernel_ok ?k" by (simp add: kernel_ok_def)
qed

text \<open>The object loses its only reference when the table is full.\<close>

lemma forget_object_safe:
  assumes k: "kernel_ok k" and a: "sync_objects k a = None"
    and k': "threads k' = threads k" "waiting_threads k' = waiting_threads k" "managers k' = managers k"
      "sync_objects k' = (sync_objects k)(a := None)"
  shows "safe k k'"
  by (rule safe_cong) (use k a k' in auto)

definition good_step :: "('s, 'g, 'e) svc_state \<Rightarrow> ('s, 'g, 'e) svc_state \<Rightarrow> bool" where
  "good_step s s' \<longleftrightarrow> safe (fst s) (fst s') \<and> refs_ok s'"

lemma good_stepI: "refs_ok (k, ht) \<Longrightarrow> safe k k' \<Longrightarrow> good_step (k, ht) (k', ht)"
  using refs_ok_safe by (simp add: good_step_def)

lemma caller_limit_memory:
  "caller_limit f ty k = Some (ok, k') \<Longrightarrow> \<exists>m. k' = k\<lparr>kernel_memory := m\<rparr>"
  by (auto simp: caller_limit_def split: bind_splits)

lemma create_handle_good:
  assumes k: "kernel_ok k" and refs: "refs_ok (k, ht)" and s: "safe k k1" and a: "known k1 ob"
    and d: "\<And>k2. destroy k1 = Some k2 \<Longrightarrow> safe k k2"
    and r: "create_handle (HWait ob) destroy (k1, ht) = Some (res, s')"
  shows "good_step (k, ht) s'"
proof (cases "HandleTable_Create ht (HWait ob)")
  case (Inl e)
  then obtain k2 where k2: "destroy k1 = Some k2" "s' = (k2, ht)"
    using r by (auto simp: create_handle_def)
  show ?thesis unfolding k2(2) by (rule good_stepI [OF refs d [OF k2(1)]])
next
  case (Inr ht2)
  then have s': "s' = (k1, snd ht2)" using r by (auto simp: create_handle_def split: prod.splits)
  have o: "objects (snd ht2) n = Some (HWait ob') \<Longrightarrow> ob' = ob \<or> objects ht n = Some (HWait ob')" for n ob'
    using Inr by (auto simp: HandleTable_Create_def Let_def split: if_splits)
  have "refs_ok (k1, ht)" by (rule refs_ok_safe [OF refs s])
  then have "refs_ok s'" using o a by (fastforce simp: refs_ok_def s')
  then show ?thesis using s by (simp add: good_step_def s')
qed

text \<open>Reserving and entering an object, for events, semaphores and timers.\<close>

lemma create_plain_good:
  assumes k: "kernel_ok k" and refs: "refs_ok (k, ht)" and a: "sync_objects k a = None"
    and ob: "unused ob"
    and k2: "threads k2 = threads k" "waiting_threads k2 = waiting_threads k" "managers k2 = managers k"
      "sync_objects k2 = (sync_objects k)(a \<mapsto> ob)"
    and d: "\<And>k3. destroy k2 = Some k3 \<Longrightarrow>
      threads k3 = threads k \<and> waiting_threads k3 = waiting_threads k \<and> managers k3 = managers k \<and>
      sync_objects k3 = (sync_objects k)(a := None)"
    and r: "create_handle (HWait (RObj a)) destroy (k2, ht) = Some (res, s')"
  shows "good_step (k, ht) s'"
proof (rule create_handle_good [OF k refs _ _ _ r])
  have s: "safe k (set_object a ob k)" by (rule set_new_object_safe [OF k a ob])
  then have "kernel_ok (set_object a ob k)" by (simp add: safe_def)
  then have "safe (set_object a ob k) k2" by (rule safe_cong [rotated -1]) (simp_all add: k2)
  with s show "safe k k2" by (rule safe_trans)
  show "known k2 (RObj a)" by (simp add: known_def k2)
  show "safe k k3" if "destroy k2 = Some k3" for k3
    using d [OF that] by (intro forget_object_safe [OF k a]) simp_all
qed

lemma destroy_object_sel:
  assumes "destroy_object ty a k = Some k'"
  shows "threads k' = threads k \<and> waiting_threads k' = waiting_threads k \<and> managers k' = managers k \<and>
    sync_objects k' = (sync_objects k)(a := None)"
  using assms caller_limit_memory by (fastforce simp: destroy_object_def split: bind_splits)
section \<open>The calls\<close>

lemma CreateEvent_good:
  assumes k: "kernel_ok k" and refs: "refs_ok (k, ht)" and a: "sync_objects k a = None"
    and r: "svc_CreateEvent a ty (k, ht) = Some (res, s')"
  shows "good_step (k, ht) s'"
proof -
  obtain ok k1 where c: "caller_limit Reserve RL_Event k = Some (ok, k1)"
    using r by (auto simp: svc_CreateEvent_def split: bind_splits)
  then obtain m where m: "k1 = k\<lparr>kernel_memory := m\<rparr>" using caller_limit_memory by blast
  show ?thesis
  proof (cases ok)
    case False
    then show ?thesis
      using r c m good_stepI [OF refs safe_memory [OF k]] by (auto simp: svc_CreateEvent_def)
  next
    case True
    let ?k = "CreateEvent a (reset_type_of ty) k1"
    have h: "create_handle (HWait (RObj a)) (destroy_object RL_Event a) (?k, ht) = Some (res, s')"
      using r c True by (simp add: svc_CreateEvent_def)
    show ?thesis
      by (rule create_plain_good [OF k refs a _ _ _ _ _ _ h,
            where ob = "KEvent \<lparr>event_reset_type = reset_type_of ty, event_signaled = False\<rparr>"])
        (simp_all add: unused_def CreateEvent_def m set_object_def,
         fastforce dest: destroy_object_sel simp: m)
  qed
qed

lemma CreateSemaphore_good:
  assumes k: "kernel_ok k" and refs: "refs_ok (k, ht)" and a: "sync_objects k a = None"
    and r: "svc_CreateSemaphore a initial maximum (k, ht) = Some (res, s')"
  shows "good_step (k, ht) s'"
proof -
  obtain ok k1 where c: "caller_limit Reserve RL_Semaphore k = Some (ok, k1)"
    using r by (auto simp: svc_CreateSemaphore_def split: bind_splits)
  then obtain m where m: "k1 = k\<lparr>kernel_memory := m\<rparr>" using caller_limit_memory by blast
  show ?thesis
  proof (cases "ok \<and> sint initial \<le> sint maximum")
    case False
    then have "s' = (k1, ht)"
      using r c by (auto simp: svc_CreateSemaphore_def CreateSemaphore_def split: if_splits)
    then show ?thesis using m good_stepI [OF refs safe_memory [OF k]] by simp
  next
    case True
    let ?ob = "KSemaphore \<lparr>max_count = maximum, available_count = initial\<rparr>"
    have h: "create_handle (HWait (RObj a)) (destroy_object RL_Semaphore a) (set_object a ?ob k1, ht) = Some (res, s')"
      using r c True by (simp add: svc_CreateSemaphore_def CreateSemaphore_def)
    show ?thesis
      by (rule create_plain_good [OF k refs a _ _ _ _ _ _ h, where ob = ?ob])
        (simp_all add: unused_def m set_object_def, fastforce dest: destroy_object_sel simp: m)
  qed
qed

lemma CreateTimer_good:
  assumes k: "kernel_ok k" and refs: "refs_ok (k, ht)" and a: "sync_objects k a = None"
    and r: "svc_CreateTimer a ty (k, ht) = Some (res, s')"
  shows "good_step (k, ht) s'"
proof -
  obtain ok k1 where c: "caller_limit Reserve RL_Timer k = Some (ok, k1)"
    using r by (auto simp: svc_CreateTimer_def split: bind_splits)
  then obtain m where m: "k1 = k\<lparr>kernel_memory := m\<rparr>" using caller_limit_memory by blast
  show ?thesis
  proof (cases ok)
    case False
    then show ?thesis
      using r c m good_stepI [OF refs safe_memory [OF k]] by (auto simp: svc_CreateTimer_def)
  next
    case True
    let ?k = "CreateTimer a (reset_type_of ty) k1"
    define destroy :: "('a, 'b, 'c) kernel \<Rightarrow> ('a, 'b, 'c) kernel run"
      where "destroy = (\<lambda>k. do {
          k \<leftarrow> KernelTimer_Cancel a k;
          t \<leftarrow> timer_of k a;
          destroy_object RL_Timer a
            (k\<lparr>timer_callback_table := (timer_callback_table k)(callback_id t := None)\<rparr>)})"
    have h: "create_handle (HWait (RObj a)) destroy (?k, ht) = Some (res, s')"
      using r c True by (simp add: svc_CreateTimer_def destroy_def)
    have d: "threads k3 = threads ?k \<and> waiting_threads k3 = waiting_threads ?k \<and> managers k3 = managers ?k \<and>
        sync_objects k3 = (sync_objects ?k)(a := None)" if dk: "destroy ?k = Some k3" for k3
    proof -
      obtain tm tab where "destroy_object RL_Timer a
          (?k\<lparr>timing_of := tm, timer_callback_table := tab\<rparr>) = Some k3"
        using dk by (auto simp: destroy_def KernelTimer_Cancel_def split: bind_splits)
      from destroy_object_sel [OF this] show ?thesis by simp
    qed
    have sel: "threads ?k = threads k" "waiting_threads ?k = waiting_threads k" "managers ?k = managers k"
        "sync_objects ?k = (sync_objects k)(a \<mapsto> KTimer \<lparr>timer_reset_type = reset_type_of ty, initial_delay = 0,
          interval_delay = 0, timer_signaled = False, callback_id = next_timer_callback_id k1 + 1\<rparr>)"
      by (simp_all add: CreateTimer_def m set_object_def Let_def)
    show ?thesis
      by (rule create_plain_good [OF k refs a _ sel _ h])
        (use d in \<open>simp_all add: unused_def sel\<close>)
  qed
qed

lemma CreateMutex_good:
  assumes k: "kernel_ok k" and refs: "refs_ok (k, ht)" and c: "caller k t" and a: "sync_objects k a = None"
    and r: "svc_CreateMutex a locked (k, ht) = Some (res, s')"
  shows "good_step (k, ht) s'"
proof -
  obtain th where t: "GetCurrentThread k = Some t" "threads k t = Some th" using c by (auto simp: caller_def)
  obtain ok k1 where l: "caller_limit Reserve RL_Mutex k = Some (ok, k1)"
    using r by (auto simp: svc_CreateMutex_def split: bind_splits)
  then obtain m where m: "k1 = k\<lparr>kernel_memory := m\<rparr>" using caller_limit_memory by blast
  let ?m = "\<lparr>lock_count = 0, mutex_priority = 0, holding_thread = None\<rparr> :: mutex"
  have s1: "safe k k1" using safe_memory [OF k] m by simp
  then have k1: "kernel_ok k1" by (simp add: safe_def)
  show ?thesis
  proof (cases ok)
    case False
    then show ?thesis using r l good_stepI [OF refs s1] by (auto simp: svc_CreateMutex_def)
  next
    case True
    show ?thesis
    proof (cases "locked = 0")
      case free: True
      have h: "create_handle (HWait (RObj a)) (destroy_object RL_Mutex a) (set_object a (KMutex ?m) k1, ht) = Some (res, s')"
        using r l True free by (simp add: svc_CreateMutex_def CreateMutex_def)
      show ?thesis
        by (rule create_plain_good [OF k refs a _ _ _ _ _ _ h, where ob = "KMutex ?m"])
          (simp_all add: unused_def m set_object_def, fastforce dest: destroy_object_sel simp: m)
    next
      case False
      obtain k2 where k2: "Mutex_Acquire a ?m t (set_object a (KMutex ?m) k1) = Some k2"
          "create_handle (HWait (RObj a)) Some (k2, ht) = Some (res, s')"
        using r l True False t
        by (auto simp: svc_CreateMutex_def CreateMutex_def m GetCurrentThread_def set_object_def Let_def
          split: bind_splits)
      have s2: "safe k1 (set_object a (KMutex ?m) k1)"
        by (rule set_new_object_safe [OF k1]) (simp_all add: m a unused_def)
      then have "kernel_ok (set_object a (KMutex ?m) k1)" by (simp add: safe_def)
      from Mutex_Acquire_ok [OF this _ _ k2(1), of th] t
      have s3: "safe (set_object a (KMutex ?m) k1) k2" by (intro safe_same_waits) (simp_all add: m)
      have s: "safe k k2" by (rule safe_trans [OF safe_trans [OF s1 s2] s3])
      have "known (set_object a (KMutex ?m) k1) (RObj a)" by (simp add: known_def)
      then have "known k2 (RObj a)" using s3 keepsD(2) by (auto simp: safe_def)
      then show ?thesis by (rule create_handle_good [OF k refs s _ _ k2(2)]) (use s in simp)
    qed
  qed
qed
lemma on_object_good:
  assumes refs: "refs_ok (k, ht)" and k: "kernel_ok k"
    and f: "\<And>a k'. f a k = Some k' \<Longrightarrow> safe k k'"
    and r: "on_object P f h (k, ht) = Some (res, s')"
  shows "good_step (k, ht) s'"
  using r f good_stepI [OF refs] safe_refl [OF k] by (auto simp: on_object_def split: option.splits)

lemma ReleaseMutex_good:
  assumes "quiet_env env" "kernel_ok k" "refs_ok (k, ht)" "svc_ReleaseMutex env h (k, ht) = Some (res, s')"
  shows "good_step (k, ht) s'"
  using assms(4) good_stepI [OF assms(3)] safe_refl [OF assms(2)] Mutex_Release_ok [OF assms(1,2)]
  by (auto simp: svc_ReleaseMutex_def split: option.splits bind_splits)

lemma ReleaseSemaphore_good:
  assumes "quiet_env env" "kernel_ok k" "refs_ok (k, ht)" "svc_ReleaseSemaphore env h n (k, ht) = Some (res, s')"
  shows "good_step (k, ht) s'"
  using assms(4) good_stepI [OF assms(3)] safe_refl [OF assms(2)] Semaphore_Release_safe [OF assms(1,2)]
  by (auto simp: svc_ReleaseSemaphore_def split: option.splits bind_splits)

lemma SetThreadPriority_good:
  assumes k: "kernel_ok k" and refs: "refs_ok (k, ht)"
    and r: "svc_SetThreadPriority h p (k, ht) = Some (res, s')"
  shows "good_step (k, ht) s'"
proof -
  have "s' = (k, ht) \<or> (\<exists>t k1 k2 ms k3. SetPriority t (unat p) k = Some k1 \<and>
      Thread_UpdatePriority t k1 = Some k2 \<and> update_mutexes ms k2 = Some k3 \<and> s' = (PrepareReschedule k3, ht))"
    using r by (auto simp: svc_SetThreadPriority_def Let_def split: if_splits option.splits bind_splits) blast+
  then consider "s' = (k, ht)" | t k1 k2 ms k3 where "SetPriority t (unat p) k = Some k1"
      "Thread_UpdatePriority t k1 = Some k2" "update_mutexes ms k2 = Some k3" "s' = (PrepareReschedule k3, ht)"
    by blast
  then show ?thesis
  proof cases
    case 1
    then show ?thesis using good_stepI [OF refs safe_refl [OF k]] by simp
  next
    case 2
    have s1: "safe k k1" by (rule SetPriority_safe [OF k 2(1)])
    then have "kernel_ok k1" by (simp add: safe_def)
    from safe_trans [OF s1 Thread_UpdatePriority_safe [OF this 2(2)]] have s2: "safe k k2" .
    then have "kernel_ok k2" by (simp add: safe_def)
    from safe_trans [OF s2 update_mutexes_safe [OF this 2(3)]] have s3: "safe k k3" .
    then have "kernel_ok k3" by (simp add: safe_def)
    then have "safe k3 (PrepareReschedule k3)" by (rule safe_cong [rotated -1]) simp_all
    with s3 have "safe k (PrepareReschedule k3)" by (rule safe_trans)
    then show ?thesis using good_stepI [OF refs] 2(4) by simp
  qed
qed

lemma ArbitrateAddress_good:
  assumes k: "kernel_ok k" and refs: "refs_ok (k, ht)" and c: "caller k t"
    and r: "svc_ArbitrateAddress menv scaled h a ty v ns (k, ht) = Some (res, s')"
  shows "good_step (k, ht) s'"
proof -
  obtain th where t: "GetCurrentThread k = Some t" "threads k t = Some th" "status th = Running"
    using c by (auto simp: caller_def)
  have "s' = (k, ht) \<or> (\<exists>b res' k1. ArbitrateAddress menv scaled b t ty a v ns k = Some (res', k1) \<and>
      s' = (PrepareReschedule k1, ht))"
    using r t(1) by (auto simp: svc_ArbitrateAddress_def split: option.splits kref.splits bind_splits)
  then consider "s' = (k, ht)" | b res' k1 where
      "ArbitrateAddress menv scaled b t ty a v ns k = Some (res', k1)" "s' = (PrepareReschedule k1, ht)"
    by blast
  then show ?thesis
  proof cases
    case 1
    then show ?thesis using good_stepI [OF refs safe_refl [OF k]] by simp
  next
    case 2
    have s1: "safe k k1" by (rule ArbitrateAddress_safe [OF k t(2,3) 2(1)])
    then have "kernel_ok k1" by (simp add: safe_def)
    then have "safe k1 (PrepareReschedule k1)" by (rule safe_cong [rotated -1]) simp_all
    with s1 have "safe k (PrepareReschedule k1)" by (rule safe_trans)
    then show ?thesis using good_stepI [OF refs] 2(2) by simp
  qed
qed

lemma refs_ok_close:
  assumes "refs_ok (k, ht)" and "svc_CloseHandle h (k, ht) = (res, s')"
  shows "fst s' = k \<and> refs_ok s'"
  using assms by (auto simp: svc_CloseHandle_def HandleTable_Close_def refs_ok_def Let_def
    split: if_splits sum.splits)

lemma refs_ok_duplicate:
  assumes refs: "refs_ok (k, ht)" and c: "caller k t"
    and r: "svc_DuplicateHandle h (k, ht) = (res, s')"
  shows "fst s' = k \<and> refs_ok s'"
proof -
  let ?o = "HandleTable_GetGeneric (map_option (\<lambda>t. HWait (RThread t)) (GetCurrentThread k))
         (map_option HProcess (current_process k)) ht h"
  consider "s' = (k, ht)" | ob ht2 where "?o = Some ob" "HandleTable_Create ht ob = Inr ht2" "s' = (k, snd ht2)"
    using r by (auto simp: svc_DuplicateHandle_def HandleTable_Duplicate_def split: option.splits sum.splits)
  then show ?thesis
  proof cases
    case 1
    then show ?thesis using refs by simp
  next
    case 2
    have "known k ob'" if "ob = HWait ob'" for ob'
    proof (rule get_waitable_known [OF refs, simplified, of t h])
      show "get_waitable (k, ht) h = Some ob'" using 2(1) that by (simp add: get_waitable_def get_object_def)
    qed (use c in \<open>auto simp: caller_def\<close>)
    moreover have "objects (snd ht2) n = Some (HWait ob') \<Longrightarrow> ob = HWait ob' \<or> objects ht n = Some (HWait ob')" for n ob'
      using 2(2) by (auto simp: HandleTable_Create_def Let_def split: if_splits)
    ultimately show ?thesis using refs 2(3) by (fastforce simp: refs_ok_def)
  qed
qed

end
