(* ===== verification/ThreadCreation.thy ===== *)
theory ThreadCreation
  imports SvcSteps
begin

text \<open>New threads keep the kernel's invariant.\<close>

lemma queue_ok_new_thread:
  assumes q: "queue_ok ths c q" and t: "ths t = None"
    and th: "core_id th = c" "current_priority th \<le> 63" "status th \<noteq> Ready"
  shows "queue_ok (ths(t \<mapsto> th)) c (tql_prepare (current_priority th) q)"
proof -
  note D = queue_okD [OF q]
  have "current_priority th < tql_levels q" using D(2) th(2) by simp
  note R = rq.prepare [OF D(1) this]
  show ?thesis
  proof (rule queue_okI)
    show "tql_wf (tql_prepare (current_priority th) q)" "tql_levels (tql_prepare (current_priority th) q) = 64"
      "distinct (tql_content (tql_prepare (current_priority th) q) p)" for p
      using R D(2,3) by simp_all
    show "u \<in> set (tql_content (tql_prepare (current_priority th) q) p) \<longleftrightarrow>
      (\<exists>x. (ths(t \<mapsto> th)) u = Some x \<and> status x = Ready \<and> core_id x = c \<and> current_priority x = p)" for p u
      using D(4) [of u p] R t th by auto
    show "current_priority x \<le> 63 \<and> tql_prepared (tql_prepare (current_priority th) q) (current_priority x)"
      if "(ths(t \<mapsto> th)) u = Some x" "core_id x = c" for u x
      using that D(5,6) [of u x] R th by (cases "u = t") auto
  qed
qed

lemma queue_ok_other_core:
  assumes q: "queue_ok ths c q" and t: "ths t = None" "core_id th \<noteq> c"
  shows "queue_ok (ths(t \<mapsto> th)) c q"
proof -
  note D = queue_okD [OF q]
  have e: "(ths(t \<mapsto> th)) u = Some x \<and> core_id x = c \<longleftrightarrow> ths u = Some x \<and> core_id x = c" for u x
    using t by auto
  then have e': "(\<exists>x. (ths(t \<mapsto> th)) u = Some x \<and> status x = Ready \<and> core_id x = c \<and> current_priority x = p) \<longleftrightarrow>
      (\<exists>x. ths u = Some x \<and> status x = Ready \<and> core_id x = c \<and> current_priority x = p)" for u p
    by blast
  have "current_priority x \<le> 63 \<and> tql_prepared q (current_priority x)"
    if "(ths(t \<mapsto> th)) u = Some x" "core_id x = c" for u x
    using D(5,6) [of u x] e [of u x] that by simp
  then show ?thesis using D(1-4) e' by (intro queue_okI) simp_all
qed

text \<open>A thread that waits for nothing and holds nothing is added, its level prepared.\<close>

lemma add_thread_safe:
  fixes k k' :: "('s, 'g, 'e) kernel"
  assumes k: "kernel_ok k" and t: "threads k t = None" "threads k' = (threads k)(t \<mapsto> th)"
    and c: "core_id th < length (managers k)"
    and th: "current_priority th \<le> 63" "nominal_priority th \<le> 63" "status th = Dormant"
      "wait_objects th = []" "held_mutexes th = []"
    and k': "queues_of k' = (queues_of k)[core_id th := tql_prepare (current_priority th) (queues_of k ! core_id th)]"
      "sync_objects k' = sync_objects k" "waiting_threads k' = waiting_threads k" "same_managers k k'"
  shows "safe k k'"
proof -
  have inv: "ready_ok k" "wait_ok k" "holders_ok k" "counts_ok k"
    using k by (simp_all add: kernel_ok_def)
  have l: "length (queues_of k) = length (managers k)" by (simp add: queues_of_def)
  have "queue_ok (threads k') i (queues_of k' ! i)" if i: "i < length (queues_of k')" for i
  proof -
    have q: "queue_ok (threads k) i (queues_of k ! i)" using inv(1) i k'(1) by (simp add: ready_ok_def)
    show ?thesis
      using queue_ok_new_thread [OF q t(1), of th] queue_ok_other_core [OF q t(1), of th] th i k'(1)
      by (cases "i = core_id th") (simp_all add: t(2) nth_upd)
  qed
  moreover have "core_id x < length (queues_of k') \<and> nominal_priority x \<le> 63" if "threads k' u = Some x" for u x
    using that ready_okD(1,2) [OF inv(1), of u x] c th(2) k'(1) l by (cases "u = t") (auto simp: t(2))
  ultimately have "ready_ok k'" by (simp add: ready_ok_def)
  moreover have known: "known k ob \<Longrightarrow> known k' ob" for ob by (cases ob) (auto simp: known_def t k'(2))
  moreover have "wait_ok k'"
    unfolding wait_ok_def k'(3)
  proof (intro conjI allI impI ballI)
    show "distinct (waiting_threads k ob)" for ob by (rule wait_okD(1) [OF inv(2)])
    show "\<exists>x. threads k' u = Some x \<and> ob \<in> set (wait_objects x) \<and> waiting_status (status x)"
      if "u \<in> set (waiting_threads k ob)" for ob u
      using wait_okD(2) [OF inv(2) that] t by auto
    show "known k' ob" if "threads k' u = Some x" "ob \<in> set (wait_objects x)" for u x ob
      using that wait_okD(3) [OF inv(2), of u x] known th(4) by (cases "u = t") (auto simp: t(2))
  qed
  moreover have "holders_ok k'"
    unfolding holders_ok_def
  proof (intro conjI allI impI ballI)
    show "\<exists>x. threads k' u = Some x \<and> a \<in> set (held_mutexes x)"
      if "mutex_of k' a = Some m" "holding_thread m = Some u" for a m u
      using holders_okD(1) [OF inv(3), of a m u] that t mutex_of_cong [OF k'(2)] by auto
    show "\<exists>m. mutex_of k' a = Some m \<and> holding_thread m = Some u"
      if "threads k' u = Some x" "a \<in> set (held_mutexes x)" for u x a
      using holders_okD(2) [OF inv(3), of u x] that th(5) mutex_of_cong [OF k'(2)]
      by (cases "u = t") (auto simp: t(2))
  qed
  moreover have "counts_ok k'" using counts_ok_cong [OF k'(2)] inv(4) by simp
  moreover have "keeps k k'"
    by (rule keepsI [OF k'(4)]) (use t known th(3) in \<open>auto split: if_splits\<close>)
  ultimately show ?thesis by (simp add: safe_def kernel_ok_def)
qed

text \<open>Then it becomes ready.\<close>

lemma make_ready_safe:
  fixes k k' :: "('s, 'g, 'e) kernel"
  assumes k: "kernel_ok k" and t: "threads k t = Some th" "status th = Dormant" "core_id th = c"
    and k': "k' = upd_thread t (\<lambda>th. th\<lparr>status := Ready\<rparr>)
      (upd_ready c (tql_push_back (current_priority th) t) k)"
  shows "safe k k'"
proof -
  have inv: "ready_ok k" "wait_ok k" "holders_ok k" "counts_ok k"
    using k by (simp_all add: kernel_ok_def)
  note D = ready_okD [OF inv(1) t(1), unfolded t(3)]
  let ?q = "tql_push_back (current_priority th) t (queues_of k ! c)"
  have th: "threads k' = (threads k)(t \<mapsto> th\<lparr>status := Ready\<rparr>)" using t(1) by (simp add: k')
  have "queue_ok (threads k') c ?q"
    unfolding th by (rule queue_ok_push [OF D(4) t(1) t(3)]) (use t in simp_all)
  then have "ready_ok k'"
    by (intro ready_ok_change [OF inv(1) t(1) th, of ?q]) (use D in \<open>simp_all add: k' t(3)\<close>)
  moreover have "wait_ok k'"
    by (rule wait_ok_thread [OF inv(2) t(1) th])
      (use not_waiting [OF inv(2) t(1)] t(2) in \<open>simp_all add: k' waiting_status_def\<close>)
  moreover have "holders_ok k'" by (rule holders_ok_thread [OF inv(3) t(1) th]) (simp_all add: k')
  moreover have "counts_ok k'" using counts_ok_cong [of k' k] inv(4) by (simp add: k')
  moreover have "keeps k k'"
  proof (rule keepsI)
    show "same_managers k k'" by (rule same_managersI) (simp_all add: k')
    have "sync_objects k' = sync_objects k" by (simp add: k')
    then show "known k ob \<Longrightarrow> known k' ob" for ob by (cases ob) (auto simp: known_def th)
  qed (auto simp: th t split: if_splits)
  ultimately show ?thesis by (simp add: safe_def kernel_ok_def)
qed

lemma CreateThread_safe:
  fixes k k' :: "('s, 'g, 'e) kernel"
  assumes k: "kernel_ok k" and t: "threads k t = None"
    and r: "CreateThread ops menv t entry priority arg processor stack process make_ready k = Some (res, k')"
  shows "safe k k' \<and> (\<forall>u. res = Inr u \<longrightarrow> known k' (RThread u))"
proof -
  obtain p where p: "processes k process = Some p" using r by (auto simp: CreateThread_def split: bind_splits)
  show ?thesis
  proof (cases "priority \<le> 63 \<and> \<not> processor > 4 \<and> IsValidVirtualAddress (vm_page_table (vm_of p)) entry")
    case False
    then have "k' = k \<and> (\<exists>e. res = Inl e)" using r p by (auto simp: CreateThread_def split: if_splits)
    then show ?thesis using safe_refl [OF k] by auto
  next
    case True
    define core where "core = nat processor"
    define kp where "kp = upd_manager core (\<lambda>m. m\<lparr>thread_list := thread_list m @ [t],
         ready_queue := tql_prepare priority (ready_queue m)\<rparr>) k"
    define kn where "kn = snd (NewThreadId kp)"
    define tid where "tid = fst (NewThreadId kp)"
    define kt where "kt = upd_manager core
         (\<lambda>m. m\<lparr>wakeup_callback_table := (wakeup_callback_table m)(ucast tid \<mapsto> t)\<rparr>) kn"
    have core: "core < length (managers k)"
      using r p True by (auto simp: CreateThread_def core_def Let_def split: if_splits bind_splits)
    have guard: "0 \<le> processor" "nat processor < length (managers k)"
      using r p True by (auto simp: CreateThread_def split: if_splits)
    obtain ticks where ticks: "Timer_GetTicks (timers (timing_of k) ! core) = Some ticks"
      using r p True guard
      by (auto simp: CreateThread_def core_def NewThreadId_def upd_manager_def Let_def split: bind_splits)
    let ?th = "new_thread tid entry priority stack ticks core process"
    define k0 where "k0 = kt\<lparr>threads := (threads kt)(t \<mapsto> ?th)\<rparr>"
    define finish where "finish = (\<lambda>(tls :: result + u32, p1, m1).
        let k1 = k0\<lparr>processes := (processes k0)(process \<mapsto> p1), kernel_memory := m1\<rparr>
        in case tls of
          Inl e \<Rightarrow> Some (Inl e, k1)
        | Inr tls \<Rightarrow> (let k2 = upd_thread t (\<lambda>th. th\<lparr>th_tls_address := tls,
              th_context := ResetThreadContext stack entry arg (th_context th)\<rparr>) k1
            in Some (Inr t,
              if make_ready
              then upd_thread t (\<lambda>th. th\<lparr>status := Ready\<rparr>)
                (upd_ready core (tql_push_back priority t) k2)
              else k2)))"
    have "CreateThread ops menv t entry priority arg processor stack process make_ready k =
        Option.bind (AllocateThreadLocalStorage ops menv (p, kernel_memory k0)) finish"
      using p True guard ticks
      by (simp add: CreateThread_def finish_def k0_def kt_def kn_def kp_def tid_def core_def NewThreadId_def
        upd_manager_def Let_def cong: sum.case_cong if_cong)
    then obtain tls p1 m1 where tls: "finish (tls, p1, m1) = Some (res, k')"
      using r by (auto split: bind_splits)
    let ?k1 = "k0\<lparr>processes := (processes k0)(process \<mapsto> p1), kernel_memory := m1\<rparr>"
    have m0: "managers k0 = (managers k)[core := (managers k ! core)\<lparr>thread_list := thread_list (managers k ! core) @ [t],
          ready_queue := tql_prepare priority (ready_queue (managers k ! core)),
          wakeup_callback_table := (wakeup_callback_table (managers k ! core))(ucast tid \<mapsto> t)\<rparr>]"
      using guard by (simp add: k0_def kt_def kn_def kp_def core_def NewThreadId_def upd_manager_def)
    have sel: "threads k0 = (threads k)(t \<mapsto> ?th)" "sync_objects k0 = sync_objects k"
        "waiting_threads k0 = waiting_threads k"
      by (simp_all add: k0_def kt_def kn_def kp_def NewThreadId_def upd_manager_def)
    have l: "core < length (managers k)" using guard by (simp add: core_def)
    have s0: "safe k k0"
    proof (rule add_thread_safe [OF k t sel(1) _ _ _ _ _ _ _ sel(2,3)])
      show "queues_of k0 = (queues_of k)[core_id ?th := tql_prepare (current_priority ?th) (queues_of k ! core_id ?th)]"
        using l by (simp add: queues_of_def m0 map_update new_thread_def)
      show "same_managers k k0"
        using l by (intro same_managersI) (simp_all add: m0 nth_upd)
    qed (use True l in \<open>simp_all add: new_thread_def\<close>)
    then have "kernel_ok k0" by (simp add: safe_def)
    then have "safe k0 ?k1" by (rule safe_cong [rotated -1]) simp_all
    with s0 have s1: "safe k ?k1" by (rule safe_trans)
    then have k1: "kernel_ok ?k1" by (simp add: safe_def)
    show ?thesis
    proof (cases tls)
      case (Inl e)
      then show ?thesis using tls s1 by (auto simp: finish_def Let_def)
    next
      case (Inr a)
      let ?k2 = "upd_thread t (\<lambda>th. th\<lparr>th_tls_address := a,
              th_context := ResetThreadContext stack entry arg (th_context th)\<rparr>) ?k1"
      let ?th2 = "?th\<lparr>th_tls_address := a, th_context := ResetThreadContext stack entry arg (th_context ?th)\<rparr>"
      have th1: "threads ?k1 t = Some ?th" by (simp add: sel(1))
      have th2: "threads ?k2 = (threads ?k1)(t \<mapsto> ?th2)" using th1 by (simp add: upd_thread_threads)
      have "safe ?k1 ?k2"
        by (rule idle_changes [OF k1 th1 _ _ th2]) (simp_all add: new_thread_def waiting_status_def)
      with s1 have s2: "safe k ?k2" by (rule safe_trans)
      then have k2: "kernel_ok ?k2" by (simp add: safe_def)
      have "threads ?k2 t = Some ?th2" by (simp add: th2)
      from make_ready_safe [OF k2 this _ _ refl, of core]
      have "safe ?k2 (upd_thread t (\<lambda>th. th\<lparr>status := Ready\<rparr>) (upd_ready core (tql_push_back priority t) ?k2))"
        by (simp add: new_thread_def)
      with s2 have "safe k (upd_thread t (\<lambda>th. th\<lparr>status := Ready\<rparr>) (upd_ready core (tql_push_back priority t) ?k2))"
        by (rule safe_trans)
      with s2 show ?thesis
        using tls Inr th1 by (auto simp: finish_def Let_def known_def upd_thread_threads split: if_splits)
    qed
  qed
qed

lemma svc_CreateThread_good:
  fixes k :: "('s, 'g, 'e) kernel"
  assumes k: "kernel_ok k" and refs: "refs_ok (k, ht)" and t: "threads k t = None"
    and r: "svc_CreateThread ops menv t entry arg stack prio cpu (k, ht) = Some (res, s')"
  shows "good_step (k, ht) s'"
proof -
  have limit: "safe k k1 \<and> kernel_ok k1 \<and> threads k1 t = None" if "caller_limit Reserve RL_Thread k = Some (ok, k1)" for ok k1
    using caller_limit_memory [OF that] safe_memory [OF k] t by (auto simp: safe_def)
  have A: "good_step (k, ht) (k, ht)" by (rule good_stepI [OF refs safe_refl [OF k]])
  have B: "good_step (k, ht) (k1, ht)" if "caller_limit Reserve RL_Thread k = Some (ok, k1)" for ok k1
    using good_stepI [OF refs] limit [OF that] by simp
  have create: "safe k k2 \<and> (\<forall>u. new = Inr u \<longrightarrow> known k2 (RThread u))"
    if "caller_limit Reserve RL_Thread k = Some (ok, k1)"
      "CreateThread ops menv t entry pr arg i stack proc True k1 = Some (new, k2)" for ok k1 pr i proc new k2
    using CreateThread_safe [OF _ _ that(2)] limit [OF that(1)] safe_trans [of k k1 k2] by simp
  have C: "good_step (k, ht) (k2, ht)"
    if "caller_limit Reserve RL_Thread k = Some (ok, k1)"
      "CreateThread ops menv t entry pr arg i stack proc True k1 = Some (Inl e, k2)" for ok k1 pr i proc e k2
    using good_stepI [OF refs] create [OF that] by simp
  have D: "good_step (k, ht) s'"
    if c: "caller_limit Reserve RL_Thread k = Some (ok, k1)"
      "CreateThread ops menv t entry pr arg i stack proc True k1 = Some (Inr u, k2)"
    and h: "create_handle (HWait (RThread u)) Some
        (PrepareReschedule (upd_thread u (\<lambda>th. th\<lparr>th_context := (th_context th)\<lparr>fpscr := 0x03C00000\<rparr>\<rparr>) k2), ht) =
        Some (h', s')" for ok k1 pr i proc u k2 h'
  proof -
    let ?k3 = "upd_thread u (\<lambda>th. th\<lparr>th_context := (th_context th)\<lparr>fpscr := 0x03C00000\<rparr>\<rparr>) k2"
    have s2: "safe k k2" and known: "known k2 (RThread u)" using create [OF c] by simp_all
    then have k2: "kernel_ok k2" by (simp add: safe_def)
    note Q = quiet_step_ok [OF quiet_step_context [of k2 u "\<lambda>th. (th_context th)\<lparr>fpscr := 0x03C00000\<rparr>"]]
    have s3: "safe k2 ?k3" by (rule safe_same_waits [OF _ Q(2)]) (use Q(1) k2 in simp)
    then have "kernel_ok ?k3" by (simp add: safe_def)
    then have "safe ?k3 (PrepareReschedule ?k3)" by (rule safe_cong [rotated -1]) simp_all
    with safe_trans [OF s2 s3] have s: "safe k (PrepareReschedule ?k3)" by (rule safe_trans)
    have "known (PrepareReschedule ?k3) (RThread u)" using known by (simp add: known_def upd_thread_threads)
    then show ?thesis by (rule create_handle_good [OF k refs s _ _ h]) (use s in simp)
  qed
  show ?thesis
    using r by (auto simp: svc_CreateThread_def Let_def intro: A B C D
      split: if_splits bind_splits sum.splits prod.splits)
qed

end
