(* ===== verification/KernelMachine.thy ===== *)
theory KernelMachine
  imports ThreadCreation
begin

text \<open>The kernel as a machine whose steps are supervisor calls of the running thread, timer and
  timeout callbacks, and reschedules of a core; its invariant holds in every reachable state.\<close>

section \<open>The machine\<close>

inductive kernel_step ::
  "('s, 'g, 'e) kenv \<Rightarrow> 'g mem_env \<Rightarrow> (u32 \<Rightarrow> u64 \<Rightarrow> u64) \<Rightarrow> ('s, 'g, 'e) svc_state \<Rightarrow>
   ('s, 'g, 'e) svc_state \<Rightarrow> bool"
  for env :: "('s, 'g, 'e) kenv" and menv :: "'g mem_env" and scaled :: "u32 \<Rightarrow> u64 \<Rightarrow> u64" where
  wait1: "caller (fst s) t \<Longrightarrow> svc_WaitSynchronization1 h ns s = Some (res, s') \<Longrightarrow>
    kernel_step env menv scaled s s'"
| waitN: "caller (fst s) t \<Longrightarrow> svc_WaitSynchronizationN menv a n all ns s = Some (out, s') \<Longrightarrow>
    kernel_step env menv scaled s s'"
| new_thread: "threads (fst s) t = None \<Longrightarrow>
    svc_CreateThread ops menv t entry arg stack prio cpu s = Some (new, s') \<Longrightarrow>
    kernel_step env menv scaled s s'"
| arbitrate: "caller (fst s) t \<Longrightarrow> svc_ArbitrateAddress menv scaled h a ty v ns s = Some (res, s') \<Longrightarrow>
    kernel_step env menv scaled s s'"
| sleep: "caller (fst s) t \<Longrightarrow> svc_SleepThread ns s = Some s' \<Longrightarrow> kernel_step env menv scaled s s'"
| priority: "svc_SetThreadPriority h p s = Some (res, s') \<Longrightarrow> kernel_step env menv scaled s s'"
| new_mutex: "caller (fst s) t \<Longrightarrow> sync_objects (fst s) b = None \<Longrightarrow>
    svc_CreateMutex b locked s = Some (new, s') \<Longrightarrow> kernel_step env menv scaled s s'"
| release_mutex: "svc_ReleaseMutex env h s = Some (res, s') \<Longrightarrow> kernel_step env menv scaled s s'"
| new_semaphore: "sync_objects (fst s) b = None \<Longrightarrow>
    svc_CreateSemaphore b initial maximum s = Some (new, s') \<Longrightarrow> kernel_step env menv scaled s s'"
| release_semaphore: "svc_ReleaseSemaphore env h m s = Some (r, s') \<Longrightarrow> kernel_step env menv scaled s s'"
| new_event: "sync_objects (fst s) b = None \<Longrightarrow> svc_CreateEvent b ty s = Some (new, s') \<Longrightarrow>
    kernel_step env menv scaled s s'"
| signal: "svc_SignalEvent env h s = Some (res, s') \<Longrightarrow> kernel_step env menv scaled s s'"
| clear: "svc_ClearEvent h s = Some (res, s') \<Longrightarrow> kernel_step env menv scaled s s'"
| new_timer: "sync_objects (fst s) b = None \<Longrightarrow> svc_CreateTimer b ty s = Some (new, s') \<Longrightarrow>
    kernel_step env menv scaled s s'"
| set_timer: "svc_SetTimer env h initial_ns interval s = Some (res, s') \<Longrightarrow> kernel_step env menv scaled s s'"
| cancel_timer: "svc_CancelTimer h s = Some (res, s') \<Longrightarrow> kernel_step env menv scaled s s'"
| clear_timer: "svc_ClearTimer h s = Some (res, s') \<Longrightarrow> kernel_step env menv scaled s s'"
| close: "svc_CloseHandle h s = (res, s') \<Longrightarrow> kernel_step env menv scaled s s'"
| duplicate: "caller (fst s) t \<Longrightarrow> svc_DuplicateHandle h s = (dup, s') \<Longrightarrow> kernel_step env menv scaled s s'"
| timeout: "ThreadWakeupCallback env core n (fst s) = Some k \<Longrightarrow> kernel_step env menv scaled s (k, snd s)"
| timer: "TimerCallback env n late (fst s) = Some k \<Longrightarrow> kernel_step env menv scaled s (k, snd s)"
| switch: "core < length (managers (fst s)) \<Longrightarrow> Reschedule core (fst s) = Some k \<Longrightarrow>
    kernel_step env menv scaled s (k, snd s)"

definition machine_ok :: "('s, 'g, 'e) svc_state \<Rightarrow> bool" where
  "machine_ok s \<longleftrightarrow> kernel_ok (fst s) \<and> (\<forall>c < length (managers (fst s)). core_ok (fst s) c) \<and> refs_ok s"

lemma machine_ok_good:
  assumes s: "machine_ok s" and g: "good_step s s'"
  shows "machine_ok s'"
proof -
  have s': "kernel_ok (fst s')" "keeps (fst s) (fst s')" "refs_ok s'"
    using g by (simp_all add: good_step_def safe_def)
  have "length (managers (fst s')) = length (managers (fst s))"
    using same_managersD(1) [OF keepsD(1) [OF s'(2)]] .
  then show ?thesis
    using s' s core_ok_keeps [OF _ s'(2)] by (simp add: machine_ok_def)
qed

lemma machine_ok_switch:
  assumes s: "machine_ok s" and r: "Reschedule core (fst s) = Some k" and c: "core < length (managers (fst s))"
  shows "machine_ok (k, snd s)"
proof -
  have ok: "kernel_ok (fst s)" "\<And>c. c < length (managers (fst s)) \<Longrightarrow> core_ok (fst s) c" "refs_ok s"
    using s by (simp_all add: machine_ok_def)
  note R = Reschedule_spec [OF ok(1) ok(2) [OF c] r]
  have "core_ok k i" if "i < length (managers k)" for i
    using R ok(2) [of i] that by (cases "i = core") auto
  moreover have "refs_ok (k, snd s)" using ok(3) R by (cases s) (auto simp: refs_ok_def)
  ultimately show ?thesis using R by (simp add: machine_ok_def)
qed

lemma kernel_step_ok:
  assumes env: "quiet_env env" and st: "kernel_step env menv scaled s s'" and ok: "machine_ok s"
  shows "machine_ok s'"
proof -
  obtain k ht where s: "s = (k, ht)" by (cases s)
  have k: "kernel_ok k" and refs: "refs_ok (k, ht)" using ok by (simp_all add: machine_ok_def s)
  have good: "machine_ok s'" if "good_step (k, ht) s'" using machine_ok_good [OF ok] that s by simp
  have inner: "machine_ok (k', ht)" if "safe k k'" for k'
    using machine_ok_good [OF ok] good_stepI [OF refs that] s by simp
  have same: "machine_ok s'" if "fst s' = k \<and> refs_ok s'"
    using that ok s by (simp add: machine_ok_def)
  from st show ?thesis
  proof (cases rule: kernel_step.cases)
    case (wait1 t h ns res)
    then show ?thesis
      using WaitSynchronization1_safe [OF k, of t ht h ns res] refs inner s by (cases s') auto
  next
    case (waitN t a n all ns out)
    then show ?thesis
      using WaitSynchronizationN_safe [OF k, of t ht menv a n all ns out] refs inner s by (cases s') auto
  next
    case (new_thread t ops entry arg stack prio cpu new)
    then show ?thesis using svc_CreateThread_good [OF k refs] good s by simp
  next
    case (arbitrate t h a ty v ns res)
    then show ?thesis using ArbitrateAddress_good [OF k refs] good s by simp
  next
    case (sleep t ns)
    then show ?thesis using SleepThread_safe [OF k, of t ns ht] inner s by (cases s') auto
  next
    case (priority h p res)
    then show ?thesis using SetThreadPriority_good [OF k refs] good s by simp
  next
    case (new_mutex t b locked new)
    then show ?thesis using CreateMutex_good [OF k refs] good s by simp
  next
    case (release_mutex h res)
    then show ?thesis using ReleaseMutex_good [OF env k refs] good s by simp
  next
    case (new_semaphore b initial maximum new)
    then show ?thesis using CreateSemaphore_good [OF k refs] good s by simp
  next
    case (release_semaphore h m r)
    then show ?thesis using ReleaseSemaphore_good [OF env k refs] good s by simp
  next
    case (new_event b ty new)
    then show ?thesis using CreateEvent_good [OF k refs] good s by simp
  next
    case (signal h res)
    then show ?thesis
      using on_object_good [OF refs k Event_Signal_safe [OF env k]] good s by (simp add: svc_SignalEvent_def)
  next
    case (clear h res)
    then show ?thesis
      using on_object_good [OF refs k Event_Clear_safe [OF k]] good s by (simp add: svc_ClearEvent_def)
  next
    case (new_timer b ty new)
    then show ?thesis using CreateTimer_good [OF k refs] good s by simp
  next
    case (set_timer h initial_ns interval res)
    then show ?thesis
      using on_object_good [OF refs k KernelTimer_Set_safe [OF env k]] good s good_stepI [OF refs safe_refl [OF k]]
      by (auto simp: svc_SetTimer_def split: if_splits)
  next
    case (cancel_timer h res)
    then show ?thesis
      using on_object_good [OF refs k KernelTimer_Cancel_safe [OF k]] good s by (simp add: svc_CancelTimer_def)
  next
    case (clear_timer h res)
    then show ?thesis
      using on_object_good [OF refs k KernelTimer_Clear_safe [OF k]] good s by (simp add: svc_ClearTimer_def)
  next
    case (close h res)
    then show ?thesis using refs_ok_close [OF refs] same s by simp
  next
    case (duplicate t h dup)
    then show ?thesis using refs_ok_duplicate [OF refs] same s by simp
  next
    case (timeout core n k')
    then show ?thesis using ThreadWakeupCallback_ok [OF env k] inner s by simp
  next
    case (timer n late k')
    then show ?thesis using TimerCallback_safe [OF env k] inner s by simp
  next
    case (switch core k')
    then show ?thesis using machine_ok_switch [OF ok] by simp
  qed
qed

lemma kernel_steps_ok:
  assumes env: "quiet_env env" and st: "(kernel_step env menv scaled)\<^sup>*\<^sup>* s s'" and ok: "machine_ok s"
  shows "machine_ok s'"
  using st by (induction rule: rtranclp_induct) (use ok kernel_step_ok [OF env] in auto)

end
