(* ===== verification/Wakeups.thy ===== *)
theory Wakeups
  imports KernelSteps
begin

text \<open>Whom a signal wakes: the loop of \<open>WakeupAllWaitingThreads\<close> returns, and leaves exactly the
  threads that the object's reset type says.\<close>

section \<open>The best waiter\<close>

definition prio :: "('s, 'g, 'e) kernel \<Rightarrow> nat \<Rightarrow> nat" where
  "prio k t = current_priority (the (threads k t))"

lemma min_waiter_None [simp]: "min_waiter k ts = None \<longleftrightarrow> ts = []"
  by (cases ts) (auto split: option.splits)

lemma min_waiter_first:
  "min_waiter k ts = Some t \<Longrightarrow> \<exists>xs ys. ts = xs @ t # ys \<and> (\<forall>u \<in> set xs. prio k t < prio k u) \<and>
     (\<forall>u \<in> set ys. prio k t \<le> prio k u)"
proof (induction ts arbitrary: t)
  case (Cons x ts)
  show ?case
  proof (cases "min_waiter k ts")
    case None
    then show ?thesis using Cons.prems by (intro exI [of _ "[]"] exI [of _ ts]) simp
  next
    case (Some u)
    from Cons.IH [OF this] obtain xs ys where u: "ts = xs @ u # ys" "\<forall>v \<in> set xs. prio k u < prio k v"
        "\<forall>v \<in> set ys. prio k u \<le> prio k v" by blast
    show ?thesis
    proof (cases "prio k u < prio k x")
      case True
      then have "t = u" using Cons.prems Some by (simp add: prio_def)
      then show ?thesis using u True by (intro exI [of _ "x # xs"] exI [of _ ys]) simp
    next
      case False
      then have "t = x" using Cons.prems Some by (simp add: prio_def)
      then show ?thesis using u False by (intro exI [of _ "[]"] exI [of _ ts]) auto
    qed
  qed
qed simp

lemma min_waiter_mem: "min_waiter k ts = Some t \<Longrightarrow> t \<in> set ts"
  using min_waiter_first by fastforce

text \<open>A waiter that waits for one of its objects.\<close>

definition simple_waiter :: "thread \<Rightarrow> bool" where
  "simple_waiter th \<longleftrightarrow> waiting_status (status th) \<and> status th \<noteq> WaitSynchAll \<and>
     (\<forall>a. wakeup_callback th \<noteq> Some (ArbiterCallback a))"

lemma best_ready_available:
  assumes "\<forall>t \<in> set ts. \<exists>th. threads k t = Some th \<and> simple_waiter th \<and> ShouldWait k ob t = Some False"
  shows "best_ready k ob ts c p =
    Some (case min_waiter k ts of None \<Rightarrow> c | Some t \<Rightarrow> if prio k t < p then Some t else c)"
  using assms
proof (induction ts arbitrary: c p)
  case (Cons t ts)
  then obtain th where t: "threads k t = Some th" "simple_waiter th" "ShouldWait k ob t = Some False" by auto
  have s: "status th = WaitSynchAny \<or> status th = WaitHleEvent" "status th \<noteq> WaitSynchAll"
    using t(2) by (auto simp: simple_waiter_def waiting_status_def)
  have p: "prio k t = current_priority th" by (simp add: prio_def t)
  have IH: "best_ready k ob ts c p =
      Some (case min_waiter k ts of None \<Rightarrow> c | Some t \<Rightarrow> if prio k t < p then Some t else c)" for c p
    using Cons by simp
  show ?case
    using s p t by (cases "min_waiter k ts") (auto simp: IH prio_def)
qed simp

lemma best_ready_unavailable:
  assumes "\<forall>t \<in> set ts. \<exists>th. threads k t = Some th \<and> waiting_status (status th) \<and> ShouldWait k ob t = Some True"
  shows "best_ready k ob ts c p = Some c"
  using assms by (induction ts arbitrary: c p) (fastforce simp: waiting_status_def)+

section \<open>Environments that answer\<close>

definition responsive :: "('s, 'g, 'e) kenv \<Rightarrow> bool" where
  "responsive env \<longleftrightarrow> (\<forall>n r t ob k. other_wakeup env n r t ob k \<noteq> None) \<and> (\<forall>ob k. hle_notifier env ob k \<noteq> None)"

lemma call_back_total:
  assumes env: "responsive env" and t: "threads k t = Some th" "simple_waiter th" "ob \<in> set (wait_objects th)"
  shows "\<exists>k'. call_back env Signal t (Some ob) k = Some k'"
proof (cases "wakeup_callback th")
  case None
  then show ?thesis by (simp add: call_back_def t)
next
  case (Some cb)
  show ?thesis
  proof (cases cb)
    case (SyncCallback b)
    have "wait_objects th \<noteq> []" using t(3) by auto
    moreover have "\<exists>x. threads (SetWaitSynchronizationResult t ResultSuccess k) t = Some x \<and> wait_objects x = wait_objects th"
      by (simp add: SetWaitSynchronizationResult_def t(1))
    ultimately have "\<exists>k'. WakeUp_Sync b Signal t (Some ob) k = Some k'"
      by (auto simp: WakeUp_Sync_def Let_def GetWaitObjectIndex_def)
    then show ?thesis by (simp add: call_back_def t Some SyncCallback WakeUp_def)
  next
    case (ArbiterCallback a)
    then show ?thesis using t(2) Some by (simp add: simple_waiter_def)
  next
    case (OtherCallback n)
    have "\<exists>k'. other_wakeup env n Signal t (Some ob) k = Some k'"
      using env unfolding responsive_def by (meson option.exhaust_sel)
    then show ?thesis by (simp add: call_back_def t Some OtherCallback WakeUp_def)
  qed
qed

section \<open>Events\<close>

lemma event_of_bare:
  assumes "bare k' = bare k"
  shows "event_of k' a = event_of k a"
  using bareD(3) [OF assms, of a]
  by (auto simp: event_of_def bare_object_def map_option_case split: option.splits kobject.splits)

lemma event_of_cong: "sync_objects k' = sync_objects k \<Longrightarrow> event_of k' a = event_of k a"
  by (simp add: event_of_def)

lemma event_of_set: "event_of (set_object a (KEvent e) k) a = Some e"
  by (simp add: event_of_def)

text \<open>One round for a simple waiter: it returns once the object could be acquired, and what it
  leaves of the objects is what acquiring made of them, up to priorities.\<close>

lemma wake_one_total:
  fixes k :: "('s, 'g, 'e) kernel"
  assumes k: "kernel_ok k" and env: "quiet_env env" "responsive env"
    and t: "t \<in> set (waiting_threads k ob)" "threads k t = Some th" "simple_waiter th"
    and acq: "Acquire ob t k = Some k1"
  shows "\<exists>k' (kb :: ('s, 'g, 'e) kernel) (kc :: ('s, 'g, 'e) kernel). wake_one env ob t k = Some k' \<and> kernel_ok k' \<and> woken t k k' \<and>
    sync_objects k' = sync_objects kb \<and> bare kb = bare kc \<and> sync_objects kc = sync_objects k1"
proof -
  note A = Acquire_ok [OF k t(2) acq]
  then obtain th1 where th1: "threads k1 t = Some th1" "view th1 = view th"
    using same_waits_thread(1) [of k k1 t th] t(2) by auto
  have "wait_ok k" using k by (simp add: kernel_ok_def)
  then have "ob \<in> set (wait_objects th)" using wait_okD(2) [of k t] t(1,2) by auto
  then have th1': "simple_waiter th1" "ob \<in> set (wait_objects th1)"
    using th1(2) t(3) by (simp_all add: view_def simple_waiter_def)
  obtain k2 where k2: "call_back env Signal t (Some ob) k1 = Some k2"
    using call_back_total [OF env(2) th1(1) th1'] by blast
  note q = call_back_quiet [OF env(1) k2]
  obtain th2 where th2: "threads k2 t = Some th2" "view th2 = view th1"
    using same_waits_thread(1) [OF quiet_step_ok(2) [OF q] th1(1)] by blast
  have s2: "status th2 \<noteq> Ready" "status th2 \<noteq> Running" "status th2 \<noteq> Dead"
    using th2(2) th1(2) t(3) by (auto simp: view_def simple_waiter_def waiting_status_def)
  have "kernel_ok k2" using quiet_step_ok(1) [OF q] A by simp
  from leave_resume_ok [OF this th2(1) s2] obtain k3 kb
    where k3: "Option.bind (leave_waits t k2) (ResumeFromWait t) = Some k3" "bare kb = bare (left_by t k2)"
      "sync_objects k3 = sync_objects kb" by blast
  have w: "wake_one env ob t k = Some k3"
    using t(2,3) acq k2 k3(1) by (simp add: wake_one_def simple_waiter_def)
  have "sync_objects (left_by t k2) = sync_objects k1" using q by (simp add: quiet_step_def)
  with w k3(2,3) wake_one_ok(1,2) [OF k env(1) t(1) w] show ?thesis
    by blast
qed

lemma wake_one_event:
  fixes k :: "('s, 'g, 'e) kernel"
  assumes k: "kernel_ok k" and env: "quiet_env env" "responsive env" and e: "event_of k a = Some e" "event_signaled e"
    and t: "t \<in> set (waiting_threads k (RObj a))" "threads k t = Some th" "simple_waiter th"
  shows "\<exists>k'. wake_one env (RObj a) t k = Some k' \<and> kernel_ok k' \<and> woken t k k' \<and>
    event_of k' a = Some (e\<lparr>event_signaled := event_reset_type e \<noteq> OneShot\<rparr>)"
proof -
  have o: "sync_objects k a = Some (KEvent e)"
    using e(1) by (auto simp: event_of_def split: option.splits kobject.splits)
  let ?e = "e\<lparr>event_signaled := event_reset_type e \<noteq> OneShot\<rparr>"
  obtain k1 where k1: "Acquire (RObj a) t k = Some k1" "event_of k1 a = Some ?e"
  proof (cases "event_reset_type e = OneShot")
    case True
    then show thesis
      using o e(2) by (intro that [of "set_object a (KEvent ?e) k"]) (simp_all add: Acquire_def event_of_set)
  next
    case False
    moreover have "e\<lparr>event_signaled := True\<rparr> = e" using e(2) by simp
    ultimately show thesis
      using o e by (intro that [of k]) (simp_all add: Acquire_def)
  qed
  obtain k' and kb kc :: "('s, 'g, 'e) kernel" where w: "wake_one env (RObj a) t k = Some k'" "kernel_ok k'" "woken t k k'"
      "sync_objects k' = sync_objects kb" "bare kb = bare kc" "sync_objects kc = sync_objects k1"
    using wake_one_total [OF k env t k1(1)] by blast
  have "event_of k' a = event_of k1 a"
    using event_of_cong [OF w(4)] event_of_bare [OF w(5)] event_of_cong [OF w(6)] by simp
  with w k1(2) show ?thesis by auto
qed

section \<open>The threads that were woken\<close>

definition awake :: "thread \<Rightarrow> ThreadStatus \<times> oref list \<times> nat \<times> wakeup_callback option" where
  "awake th = (Ready, [], core_id th, None)"

definition woken_set :: "nat set \<Rightarrow> ('s, 'g, 'e) kernel \<Rightarrow> ('s, 'g, 'e) kernel \<Rightarrow> bool" where
  "woken_set W k k' \<longleftrightarrow> (\<forall>ob. waiting_threads k' ob = filter (\<lambda>u. u \<notin> W) (waiting_threads k ob)) \<and>
     (\<forall>u. map_option view (threads k' u) =
       (if u \<in> W then map_option awake (threads k u) else map_option view (threads k u)))"

lemma view_awake:
  "map_option view x = map_option view y \<Longrightarrow> map_option awake x = map_option awake y"
  by (cases x; cases y) (auto simp: view_def awake_def)

lemma awake_awake:
  "map_option view x = map_option awake y \<Longrightarrow> map_option awake x = map_option awake y"
  by (cases x; cases y) (auto simp: view_def awake_def)

lemma woken_one:
  assumes "woken t k k'"
  shows "woken_set {t} k k'"
proof -
  have "awake = (\<lambda>th. (Ready, [], core_id th, None))" by (simp add: awake_def fun_eq_iff)
  moreover have "filter ((\<noteq>) t) xs = filter (\<lambda>u. u \<noteq> t) xs" for xs by (rule filter_cong) auto
  ultimately show ?thesis
    using assms by (simp add: woken_def woken_set_def removeAll_filter_not_eq)
qed

lemma woken_set_trans:
  assumes a: "woken_set A k k1" and b: "woken_set B k1 k2"
  shows "woken_set (A \<union> B) k k2"
proof -
  have "waiting_threads k2 ob = filter (\<lambda>u. u \<notin> A \<union> B) (waiting_threads k ob)" for ob
    using a b by (auto simp: woken_set_def intro: filter_cong)
  moreover have "map_option view (threads k2 u) =
      (if u \<in> A \<union> B then map_option awake (threads k u) else map_option view (threads k u))" for u
  proof -
    have 1: "map_option view (threads k1 u) = (if u \<in> A then map_option awake (threads k u) else map_option view (threads k u))"
      and 2: "map_option view (threads k2 u) = (if u \<in> B then map_option awake (threads k1 u) else map_option view (threads k1 u))"
      using a b by (simp_all add: woken_set_def)
    show ?thesis
      using 1 2 view_awake [of "threads k1 u" "threads k u"] awake_awake [of "threads k1 u" "threads k u"]
      by (cases "u \<in> A"; cases "u \<in> B") simp_all
  qed
  ultimately show ?thesis by (simp add: woken_set_def)
qed

lemma woken_set_same_waits:
  assumes "same_waits k k1"
  shows "woken_set {} k k1" and "woken_set W k1 k2 \<Longrightarrow> woken_set W k k2" and "woken_set W k2 k \<Longrightarrow> woken_set W k2 k1"
proof -
  show e: "woken_set {} k k1"
    using same_waitsD(1,2) [OF assms] by (simp add: woken_set_def)
  show "woken_set W k1 k2 \<Longrightarrow> woken_set W k k2" using woken_set_trans [OF e] by simp
  show "woken_set W k2 k \<Longrightarrow> woken_set W k2 k1" using woken_set_trans [OF _ e] by fastforce
qed

definition simple_waiters :: "('s, 'g, 'e) kernel \<Rightarrow> oref \<Rightarrow> bool" where
  "simple_waiters k ob \<longleftrightarrow> (\<forall>t \<in> set (waiting_threads k ob). \<exists>th. threads k t = Some th \<and> simple_waiter th)"

lemma simple_waiters_woken:
  assumes w: "woken_set W k k'" and s: "simple_waiters k ob"
  shows "simple_waiters k' ob"
  unfolding simple_waiters_def
proof
  fix t assume "t \<in> set (waiting_threads k' ob)"
  then have t: "t \<in> set (waiting_threads k ob)" "t \<notin> W" using w by (auto simp: woken_set_def)
  then obtain th where th: "threads k t = Some th" "simple_waiter th" using s by (auto simp: simple_waiters_def)
  have "map_option view (threads k' t) = Some (view th)" using w t(2) th(1) by (simp add: woken_set_def)
  then obtain th' where "threads k' t = Some th'" "view th' = view th" by auto
  then show "\<exists>th. threads k' t = Some th \<and> simple_waiter th"
    using th(2) by (auto simp: simple_waiter_def view_def)
qed

lemma prio_le:
  assumes "ready_ok k" and "threads k t = Some th"
  shows "prio k t < ThreadPrioLowest + 1"
  using ready_okD(3) [OF assms] assms(2) by (simp add: prio_def)

text \<open>The candidate of an object: the first waiter of the best priority, when it is available.\<close>

lemma best_waiter_available:
  assumes k: "kernel_ok k" and s: "simple_waiters k ob" and sw: "\<And>t. ShouldWait k ob t = Some False"
  shows "GetHighestPriorityReadyThread k ob = Some (min_waiter k (waiting_threads k ob))"
proof -
  let ?ws = "waiting_threads k ob"
  have b: "best_ready k ob ?ws None (ThreadPrioLowest + 1) =
      Some (case min_waiter k ?ws of None \<Rightarrow> None | Some t \<Rightarrow> if prio k t < ThreadPrioLowest + 1 then Some t else None)"
    using s sw by (intro best_ready_available) (auto simp: simple_waiters_def)
  show ?thesis
  proof (cases "min_waiter k ?ws")
    case (Some t)
    then obtain th where "threads k t = Some th" using min_waiter_mem s by (fastforce simp: simple_waiters_def)
    then have "prio k t < ThreadPrioLowest + 1" using prio_le k by (auto simp: kernel_ok_def)
    then show ?thesis using b Some by (simp add: GetHighestPriorityReadyThread_def)
  qed (use b in \<open>simp add: GetHighestPriorityReadyThread_def\<close>)
qed

lemma best_waiter_unavailable:
  assumes s: "simple_waiters k ob" and sw: "\<And>t. t \<in> set (waiting_threads k ob) \<Longrightarrow> ShouldWait k ob t = Some True"
  shows "GetHighestPriorityReadyThread k ob = Some None"
  unfolding GetHighestPriorityReadyThread_def
  using s sw by (intro best_ready_unavailable) (fastforce simp: simple_waiters_def simple_waiter_def)

lemma best_waiter_of_event:
  assumes k: "kernel_ok k" and e: "event_of k a = Some e" and s: "simple_waiters k (RObj a)"
  shows "GetHighestPriorityReadyThread k (RObj a) =
    Some (if event_signaled e then min_waiter k (waiting_threads k (RObj a)) else None)"
proof -
  have "sync_objects k a = Some (KEvent e)"
    using e(1) by (auto simp: event_of_def split: option.splits kobject.splits)
  then have "ShouldWait k (RObj a) t = Some (\<not> event_signaled e)" for t by (simp add: ShouldWait_def)
  then show ?thesis
    using best_waiter_available [OF k s] best_waiter_unavailable [OF s] by (cases "event_signaled e") simp_all
qed

section \<open>The loop\<close>

lemma wakeup_loop_stop:
  "GetHighestPriorityReadyThread k ob = Some None \<Longrightarrow> wakeup_loop env ob k = Some k"
  by (subst wakeup_loop.simps) simp

lemma wakeup_loop_step:
  "GetHighestPriorityReadyThread k ob = Some (Some t) \<Longrightarrow> wake_one env ob t k = Some k' \<Longrightarrow>
   wakeup_loop env ob k = wakeup_loop env ob k'"
  by (subst wakeup_loop.simps) simp

lemma simple_waiter_thread:
  assumes "simple_waiters k ob" and "min_waiter k (waiting_threads k ob) = Some t"
  shows "\<exists>th. t \<in> set (waiting_threads k ob) \<and> threads k t = Some th \<and> simple_waiter th"
  using min_waiter_mem [OF assms(2)] assms(1) by (auto simp: simple_waiters_def)

text \<open>A sticky or pulsing event wakes every waiter.\<close>

lemma event_loop_all:
  fixes k :: "('s, 'g, 'e) kernel"
  assumes env: "quiet_env env" "responsive env"
    and k: "kernel_ok k" "event_of k a = Some e" "simple_waiters k (RObj a)"
    and e: "event_signaled e" "event_reset_type e \<noteq> OneShot"
  shows "\<exists>k'. wakeup_loop env (RObj a) k = Some k' \<and> kernel_ok k' \<and> event_of k' a = Some e \<and>
    woken_set (set (waiting_threads k (RObj a))) k k'"
  using k
proof (induction "length (waiting_threads k (RObj a))" arbitrary: k rule: less_induct)
  case less
  let ?ws = "waiting_threads k (RObj a)"
  note best = best_waiter_of_event [OF less.prems]
  show ?case
  proof (cases "min_waiter k ?ws")
    case None
    then have "wakeup_loop env (RObj a) k = Some k" using best by (intro wakeup_loop_stop) simp
    moreover have "woken_set {} k k" by (rule woken_set_same_waits(1)) simp
    ultimately show ?thesis using less.prems None by simp
  next
    case (Some t)
    obtain th where t: "t \<in> set ?ws" "threads k t = Some th" "simple_waiter th"
      using simple_waiter_thread [OF less.prems(3) Some] by blast
    have same: "e\<lparr>event_signaled := event_reset_type e \<noteq> OneShot\<rparr> = e" using e by simp
    obtain k1 where k1: "wake_one env (RObj a) t k = Some k1" "kernel_ok k1" "woken t k k1" "event_of k1 a = Some e"
      using wake_one_event [OF less.prems(1) env less.prems(2) e(1) t] by (auto simp: same)
    have step: "wakeup_loop env (RObj a) k = wakeup_loop env (RObj a) k1"
      using best Some e(1) by (intro wakeup_loop_step [OF _ k1(1)]) simp
    have w1: "woken_set {t} k k1" by (rule woken_one [OF k1(3)])
    have ws: "waiting_threads k1 (RObj a) = filter (\<lambda>u. u \<noteq> t) ?ws" using w1 by (simp add: woken_set_def)
    have "length (waiting_threads k1 (RObj a)) < length ?ws"
      unfolding ws by (rule length_filter_less [OF t(1)]) simp
    from less.hyps [OF this k1(2,4) simple_waiters_woken [OF w1 less.prems(3)]]
    obtain k2 where k2: "wakeup_loop env (RObj a) k1 = Some k2" "kernel_ok k2" "event_of k2 a = Some e"
        "woken_set (set (waiting_threads k1 (RObj a))) k1 k2" by blast
    have "{t} \<union> set (waiting_threads k1 (RObj a)) = set ?ws" using t(1) ws by auto
    with woken_set_trans [OF w1 k2(4)] have "woken_set (set ?ws) k k2" by simp
    with k2 step show ?thesis by simp
  qed
qed

text \<open>A one-shot event wakes the best waiter, which clears it.\<close>

lemma event_loop_one:
  fixes k :: "('s, 'g, 'e) kernel"
  assumes env: "quiet_env env" "responsive env"
    and k: "kernel_ok k" "event_of k a = Some e" "simple_waiters k (RObj a)"
    and e: "event_signaled e" "event_reset_type e = OneShot"
  shows "\<exists>k'. wakeup_loop env (RObj a) k = Some k' \<and> kernel_ok k' \<and>
    event_of k' a = Some (e\<lparr>event_signaled := (waiting_threads k (RObj a) = [])\<rparr>) \<and>
    woken_set (set_option (min_waiter k (waiting_threads k (RObj a)))) k k'"
proof -
  let ?ws = "waiting_threads k (RObj a)"
  note best = best_waiter_of_event [OF k]
  show ?thesis
  proof (cases "min_waiter k ?ws")
    case None
    then have "wakeup_loop env (RObj a) k = Some k" using best by (intro wakeup_loop_stop) simp
    moreover have "woken_set {} k k" by (rule woken_set_same_waits(1)) simp
    moreover have "e\<lparr>event_signaled := True\<rparr> = e" using e(1) by simp
    ultimately show ?thesis using k None by simp
  next
    case (Some t)
    obtain th where t: "t \<in> set ?ws" "threads k t = Some th" "simple_waiter th"
      using simple_waiter_thread [OF k(3) Some] by blast
    let ?e = "e\<lparr>event_signaled := False\<rparr>"
    obtain k1 where k1: "wake_one env (RObj a) t k = Some k1" "kernel_ok k1" "woken t k k1" "event_of k1 a = Some ?e"
      using wake_one_event [OF k(1) env k(2) e(1) t] by (auto simp: e(2))
    have w1: "woken_set {t} k k1" by (rule woken_one [OF k1(3)])
    have step: "wakeup_loop env (RObj a) k = wakeup_loop env (RObj a) k1"
      using best Some e(1) by (intro wakeup_loop_step [OF _ k1(1)]) simp
    have "GetHighestPriorityReadyThread k1 (RObj a) = Some None"
      using best_waiter_of_event [OF k1(2,4) simple_waiters_woken [OF w1 k(3)]] by simp
    moreover have "(?ws = []) = False" using t(1) by auto
    ultimately show ?thesis using wakeup_loop_stop [of k1] k1(2,4) w1 step Some by simp
  qed
qed

section \<open>The signal\<close>

lemma end_pulse_event:
  assumes "event_of k a = Some e"
  shows "event_of (end_pulse (RObj a) k) a =
    Some (e\<lparr>event_signaled := event_signaled e \<and> event_reset_type e \<noteq> Pulse\<rparr>)"
proof -
  have o: "sync_objects k a = Some (KEvent e)"
    using assms by (auto simp: event_of_def split: option.splits kobject.splits)
  show ?thesis by (cases e) (simp add: end_pulse_def o event_of_def)
qed

definition signal_wakes :: "('s, 'g, 'e) kernel \<Rightarrow> nat \<Rightarrow> kernel_event \<Rightarrow> nat set" where
  "signal_wakes k a e =
     (if event_reset_type e = OneShot then set_option (min_waiter k (waiting_threads k (RObj a)))
      else set (waiting_threads k (RObj a)))"

lemma min_waiter_cong: "threads k' = threads k \<Longrightarrow> min_waiter k' ts = min_waiter k ts"
  by (induction ts) (auto split: option.split)

lemma Event_Signal_spec:
  fixes k :: "('s, 'g, 'e) kernel"
  assumes env: "quiet_env env" "responsive env"
    and k: "kernel_ok k" "event_of k a = Some e" "simple_waiters k (RObj a)"
  shows "\<exists>k'. Event_Signal env a k = Some k' \<and> kernel_ok k' \<and> woken_set (signal_wakes k a e) k k' \<and>
    event_of k' a = Some (e\<lparr>event_signaled := event_reset_type e = Sticky \<or>
      event_reset_type e = OneShot \<and> waiting_threads k (RObj a) = []\<rparr>)"
proof -
  let ?e = "e\<lparr>event_signaled := True\<rparr>" and ?ws = "waiting_threads k (RObj a)"
  let ?k = "set_object a (KEvent ?e) k"
  have "mutex_of k a = None" by (rule plain_objects(1) [OF k(2)])
  then have k0: "kernel_ok ?k" using kernel_ok_set_plain [OF k(1)] by simp
  have e0: "event_of ?k a = Some ?e" by (rule event_of_set)
  have s0: "simple_waiters ?k (RObj a)" using k(3) by (simp add: simple_waiters_def)
  have w0: "waiting_threads ?k (RObj a) = ?ws" "min_waiter ?k ts = min_waiter k ts" for ts
    using min_waiter_cong [of ?k k] by simp_all
  obtain e1 k1 where k1: "wakeup_loop env (RObj a) ?k = Some k1" "kernel_ok k1" "event_of k1 a = Some e1"
      "woken_set (signal_wakes k a e) ?k k1"
      "e1 = e\<lparr>event_signaled := event_reset_type e = OneShot \<longrightarrow> ?ws = []\<rparr>"
  proof (cases "event_reset_type e = OneShot")
    case True
    obtain k1 where "wakeup_loop env (RObj a) ?k = Some k1" "kernel_ok k1"
        "event_of k1 a = Some (?e\<lparr>event_signaled := (?ws = [])\<rparr>)"
        "woken_set (set_option (min_waiter k ?ws)) ?k k1"
      using event_loop_one [OF env k0 e0 s0] True w0 by auto
    then show thesis using True by (intro that) (simp_all add: signal_wakes_def)
  next
    case False
    obtain k1 where "wakeup_loop env (RObj a) ?k = Some k1" "kernel_ok k1" "event_of k1 a = Some ?e"
        "woken_set (set ?ws) ?k k1"
      using event_loop_all [OF env k0 e0 s0] False w0 by auto
    then show thesis using False by (intro that) (simp_all add: signal_wakes_def)
  qed
  obtain k2 where k2: "hle_notifier env (RObj a) k1 = Some k2"
    using env(2) unfolding responsive_def by (meson option.exhaust_sel)
  then have q: "quiet_step k1 k2" using env(1) by (simp add: quiet_env_def)
  note Q = quiet_step_ok [OF q]
  have e2: "event_of k2 a = Some e1" using q k1(3) event_of_cong [of k2 k1] by (simp add: quiet_step_def)
  let ?k' = "end_pulse (RObj a) k2"
  have "kernel_ok k2" using Q(1) k1(2) by simp
  note P = end_pulse_ok [OF this, of "RObj a"]
  have "woken_set (signal_wakes k a e) k ?k'"
    using woken_set_same_waits(2) [OF same_waits_set_object k1(4)]
      woken_set_same_waits(3) [OF same_waits_trans [OF Q(2) P(2)]] by blast
  moreover have "Event_Signal env a k = Some ?k'"
    using k(2) k1(1) k2 by (simp add: Event_Signal_def WakeupAllWaitingThreads_def)
  moreover have "event_of ?k' a = Some (e\<lparr>event_signaled := event_reset_type e = Sticky \<or>
      event_reset_type e = OneShot \<and> ?ws = []\<rparr>)"
    using end_pulse_event [OF e2] k1(5) by (cases "event_reset_type e") auto
  ultimately show ?thesis using P(1) by blast
qed
section \<open>Mutexes\<close>

lemma mutex_object: "mutex_of k a = Some m \<Longrightarrow> sync_objects k a = Some (KMutex m)"
  by (auto simp: mutex_of_def split: option.splits kobject.splits)

lemma Mutex_Acquire_free:
  fixes k :: "('s, 'g, 'e) kernel"
  assumes k: "kernel_ok k" and a: "mutex_of k a = Some m" "lock_count m = 0" and t: "threads k t = Some th"
  shows "\<exists>k' m'. Mutex_Acquire a m t k = Some k' \<and> mutex_of k' a = Some m' \<and>
    holding_thread m' = Some t \<and> lock_count m' = 1"
proof -
  have inv: "holders_ok k" "counts_ok k" using k by (simp_all add: kernel_ok_def)
  let ?m = "m\<lparr>mutex_priority := current_priority th\<rparr>"
  let ?g = "give a ?m t k"
  have free: "holding_thread m = None" using counts_okD(2) [OF inv(2) a(1)] a(2) by simp
  note G = give_ok [OF k a(1) free t, of ?m]
  have gt: "threads ?g t = Some (th\<lparr>held_mutexes := insert_sorted a (held_mutexes th)\<rparr>)" by (simp add: G(4))
  have "\<forall>b \<in> set (insert_sorted a (held_mutexes th)). mutex_of ?g b \<noteq> None"
    using holders_okD(2) [OF inv(1) t] by (auto simp: G(5))
  then obtain k1 where k1: "Thread_UpdatePriority t ?g = Some k1" "sync_objects k1 = sync_objects ?g"
    using Thread_UpdatePriority_ok [OF G(1) gt] by auto
  have m1: "mutex_of (PrepareReschedule k1) a = Some (?m\<lparr>holding_thread := Some t\<rparr>)"
    using G(5) [of a] mutex_of_cong [OF k1(2), of a] by simp
  have n: "s32_add 0 1 = Some 1" by (simp add: s32_add_def)
  let ?k = "set_object a (KMutex (?m\<lparr>holding_thread := Some t, lock_count := 1\<rparr>)) (PrepareReschedule k1)"
  have "Mutex_Acquire a m t k = Some ?k"
    using t k1(1) m1 n a mutex_object [OF a(1)]
    by (simp add: Mutex_Acquire_def ShouldWait_def Let_def give_def)
  moreover have "mutex_of ?k a = Some (?m\<lparr>holding_thread := Some t, lock_count := 1\<rparr>)"
    by (simp add: mutex_of_set_object)
  ultimately show ?thesis by auto
qed

text \<open>Who holds a mutex, and how often.\<close>

definition lock_of :: "('s, 'g, 'e) kernel \<Rightarrow> nat \<Rightarrow> (s32 \<times> nat option) option" where
  "lock_of k a = map_option (\<lambda>m. (lock_count m, holding_thread m)) (mutex_of k a)"

lemma lock_of_bare:
  fixes k k' :: "('s, 'g, 'e) kernel"
  assumes "bare k' = bare k"
  shows "lock_of k' a = lock_of k a"
proof -
  have e: "lock_of (bare x) a = lock_of x a" for x :: "('s, 'g, 'e) kernel"
    by (cases "mutex_of x a") (simp_all add: bare_mutex lock_of_def)
  show ?thesis using e [of k'] e [of k] assms by simp
qed

lemma lock_of_cong: "sync_objects k' = sync_objects k \<Longrightarrow> lock_of k' a = lock_of k a"
  by (simp add: lock_of_def mutex_of_def)

lemma wake_one_mutex:
  fixes k :: "('s, 'g, 'e) kernel"
  assumes k: "kernel_ok k" and env: "quiet_env env" "responsive env" and a: "mutex_of k a = Some m" "lock_count m = 0"
    and t: "t \<in> set (waiting_threads k (RObj a))" "threads k t = Some th" "simple_waiter th"
  shows "\<exists>k'. wake_one env (RObj a) t k = Some k' \<and> kernel_ok k' \<and> woken t k k' \<and>
    lock_of k' a = Some (1, Some t)"
proof -
  obtain k1 m1 where k1: "Mutex_Acquire a m t k = Some k1" "mutex_of k1 a = Some m1"
      "holding_thread m1 = Some t" "lock_count m1 = 1"
    using Mutex_Acquire_free [OF k a t(2)] by blast
  have acq: "Acquire (RObj a) t k = Some k1" using k1(1) mutex_object [OF a(1)] by (simp add: Acquire_def)
  obtain k' and kb kc :: "('s, 'g, 'e) kernel" where w: "wake_one env (RObj a) t k = Some k'" "kernel_ok k'" "woken t k k'"
      "sync_objects k' = sync_objects kb" "bare kb = bare kc" "sync_objects kc = sync_objects k1"
    using wake_one_total [OF k env t acq] by blast
  have "lock_of k' a = lock_of k1 a"
    using lock_of_cong [OF w(4)] lock_of_bare [OF w(5)] lock_of_cong [OF w(6)] by simp
  with w k1 show ?thesis by (auto simp: lock_of_def)
qed

lemma mutex_loop:
  fixes k :: "('s, 'g, 'e) kernel"
  assumes env: "quiet_env env" "responsive env"
    and k: "kernel_ok k" "mutex_of k a = Some m" "lock_count m = 0" "simple_waiters k (RObj a)"
  shows "\<exists>k'. wakeup_loop env (RObj a) k = Some k' \<and> kernel_ok k' \<and>
    lock_of k' a = Some (if waiting_threads k (RObj a) = [] then 0 else 1, min_waiter k (waiting_threads k (RObj a))) \<and>
    woken_set (set_option (min_waiter k (waiting_threads k (RObj a)))) k k'"
proof -
  let ?ws = "waiting_threads k (RObj a)"
  have "counts_ok k" using k(1) by (simp add: kernel_ok_def)
  then have free: "holding_thread m = None" using counts_okD(2) [OF _ k(2)] k(3) by simp
  have best: "GetHighestPriorityReadyThread k (RObj a) = Some (min_waiter k ?ws)"
    by (rule best_waiter_available [OF k(1,4)]) (simp add: ShouldWait_def mutex_object [OF k(2)] k(3))
  show ?thesis
  proof (cases "min_waiter k ?ws")
    case None
    then have "wakeup_loop env (RObj a) k = Some k" using best by (intro wakeup_loop_stop) simp
    moreover have "woken_set {} k k" by (rule woken_set_same_waits(1)) simp
    ultimately show ?thesis using k None free by (simp add: lock_of_def)
  next
    case (Some t)
    obtain th where t: "t \<in> set ?ws" "threads k t = Some th" "simple_waiter th"
      using simple_waiter_thread [OF k(4) Some] by blast
    obtain k1 where k1: "wake_one env (RObj a) t k = Some k1" "kernel_ok k1" "woken t k k1"
        "lock_of k1 a = Some (1, Some t)"
      using wake_one_mutex [OF k(1) env k(2,3) t] by blast
    obtain m1 where m1: "mutex_of k1 a = Some m1" "lock_count m1 = 1" "holding_thread m1 = Some t"
      using k1(4) by (auto simp: lock_of_def)
    have w1: "woken_set {t} k k1" by (rule woken_one [OF k1(3)])
    have step: "wakeup_loop env (RObj a) k = wakeup_loop env (RObj a) k1"
      using best Some by (intro wakeup_loop_step [OF _ k1(1)]) simp
    have "GetHighestPriorityReadyThread k1 (RObj a) = Some None"
    proof (rule best_waiter_unavailable [OF simple_waiters_woken [OF w1 k(4)]])
      fix u assume "u \<in> set (waiting_threads k1 (RObj a))"
      then have "u \<noteq> t" using w1 by (auto simp: woken_set_def)
      then show "ShouldWait k1 (RObj a) u = Some True"
        by (simp add: ShouldWait_def mutex_object [OF m1(1)] m1(2,3))
    qed
    moreover have "(?ws = []) = False" using t(1) by auto
    ultimately show ?thesis using wakeup_loop_stop [of k1] k1(2,4) w1 step Some by simp
  qed
qed

section \<open>Releasing a mutex\<close>

text \<open>The holder may go on; its priority is no business of those who wait.\<close>

lemma min_waiter_same_prio:
  "(\<And>t. t \<in> set ts \<Longrightarrow> prio k' t = prio k t) \<Longrightarrow> min_waiter k' ts = min_waiter k ts"
proof (induction ts)
  case (Cons t ts)
  then have "min_waiter k' ts = min_waiter k ts" by simp
  moreover have "prio k' u = prio k u" if "min_waiter k ts = Some u" for u
    using Cons.prems min_waiter_mem [OF that] by simp
  ultimately show ?case using Cons.prems [of t] by (auto simp: prio_def split: option.split)
qed simp

lemma Mutex_Release_hands_over:
  fixes k :: "('s, 'g, 'e) kernel"
  assumes env: "quiet_env env" "responsive env"
    and k: "kernel_ok k" "mutex_of k a = Some m" "lock_count m = 1" "holding_thread m = Some t"
      "simple_waiters k (RObj a)" and out: "t \<notin> set (waiting_threads k (RObj a))"
  shows "\<exists>k'. Mutex_Release env a t k = Some (ResultSuccess, k') \<and> kernel_ok k' \<and>
    lock_of k' a = Some (if waiting_threads k (RObj a) = [] then 0 else 1, min_waiter k (waiting_threads k (RObj a))) \<and>
    woken_set (set_option (min_waiter k (waiting_threads k (RObj a)))) k k'"
proof -
  let ?ws = "waiting_threads k (RObj a)"
  have inv: "ready_ok k" "holders_ok k" using k by (simp_all add: kernel_ok_def)
  obtain th where t: "threads k t = Some th" using holders_okD(1) [OF inv(2) k(2,4)] by blast
  let ?a = "upd_thread t (\<lambda>th. th\<lparr>held_mutexes := removeAll a (held_mutexes th)\<rparr>)
        (set_object a (KMutex (m\<lparr>lock_count := 0\<rparr>)) k)"
  let ?free = "\<lambda>k. set_object a (KMutex (m\<lparr>lock_count := 0, holding_thread := None\<rparr>)) k"
  obtain kb where kb: "Thread_UpdatePriority t ?a = Some kb" "mutex_of kb a = Some (m\<lparr>lock_count := 0\<rparr>)"
      "bare (?free kb) = bare (freed a m t k)" "kernel_ok (?free kb)"
    using release_frees [OF k(1,2,4)] by blast
  have p: "prio (?free kb) u = prio k u" if "u \<noteq> t" for u
  proof -
    have "threads kb u = threads ?a u"
      using kb(1) that by (auto simp: Thread_UpdatePriority_def BoostPriority_def Let_def upd_thread_threads
        split: bind_splits if_splits)
    then show ?thesis using that by (simp add: prio_def upd_thread_threads)
  qed
  have s: "same_waits k (?free kb)"
    by (rule same_waits_trans [OF freed_same_waits [OF t] bare_same_waits [OF kb(3)]])
  have ws: "waiting_threads (?free kb) (RObj a) = ?ws" using same_waitsD(1) [OF s] by simp
  have mw: "min_waiter (?free kb) ?ws = min_waiter k ?ws"
    by (rule min_waiter_same_prio) (use p out in metis)
  have "simple_waiters (?free kb) (RObj a)"
    by (rule simple_waiters_woken [OF woken_set_same_waits(1) [OF s] k(5)])
  from mutex_loop [OF env kb(4) _ _ this, of "m\<lparr>lock_count := 0, holding_thread := None\<rparr>"] obtain k1
    where k1: "wakeup_loop env (RObj a) (?free kb) = Some k1" "kernel_ok k1"
      "lock_of k1 a = Some (if ?ws = [] then 0 else 1, min_waiter k ?ws)"
      "woken_set (set_option (min_waiter k ?ws)) (?free kb) k1"
    by (auto simp: mutex_of_set_object ws mw simp del: set_object_sel)
  obtain k2 where k2: "hle_notifier env (RObj a) k1 = Some k2"
    using env(2) unfolding responsive_def by (meson option.exhaust_sel)
  then have q: "quiet_step k1 k2" using env(1) by (simp add: quiet_env_def)
  have lock2: "lock_of k2 a = lock_of k1 a" using q lock_of_cong [of k2 k1] by (simp add: quiet_step_def)
  then obtain m2 where "mutex_of k2 a = Some m2" using k1(3) by (auto simp: lock_of_def)
  then have pulse: "end_pulse (RObj a) k2 = k2" by (simp add: end_pulse_def mutex_object)
  let ?k' = "PrepareReschedule k2"
  have w: "WakeupAllWaitingThreads env (RObj a) (?free kb) = Some k2"
    using k1(1) k2 pulse by (simp add: WakeupAllWaitingThreads_def)
  have "Mutex_Release env a t k = Some (ResultSuccess, ?k')"
    using k(2-4) kb(1,2) w by (simp add: Mutex_Release_def Let_def)
  moreover have "lock_of ?k' a = lock_of k1 a" using lock2 lock_of_cong [of ?k' k2] by simp
  moreover have "same_waits k2 ?k'" by (simp add: same_waits_def)
  then have "woken_set (set_option (min_waiter k ?ws)) k ?k'"
    using woken_set_same_waits(2) [OF s k1(4)] woken_set_same_waits(3)
      [OF same_waits_trans [OF quiet_step_ok(2) [OF q]]] by blast
  moreover have "kernel_ok ?k'"
    using quiet_step_ok(1) [OF q] k1(2) kernel_ok_cong [of ?k' k2] by simp
  ultimately show ?thesis using k1(3) by auto
qed
section \<open>Semaphores\<close>

definition sem_of :: "('s, 'g, 'e) kernel \<Rightarrow> nat \<Rightarrow> semaphore option" where
  "sem_of k a = (case sync_objects k a of Some (KSemaphore s) \<Rightarrow> Some s | _ \<Rightarrow> None)"

lemma sem_object: "sem_of k a = Some s \<longleftrightarrow> sync_objects k a = Some (KSemaphore s)"
  by (auto simp: sem_of_def split: option.splits kobject.splits)

lemma sem_of_bare:
  fixes k k' :: "('s, 'g, 'e) kernel"
  assumes "bare k' = bare k"
  shows "sem_of k' a = sem_of k a"
  using bareD(3) [OF assms, of a]
  by (auto simp: sem_of_def bare_object_def map_option_case split: option.splits kobject.splits)

lemma sem_of_cong: "sync_objects k' = sync_objects k \<Longrightarrow> sem_of k' a = sem_of k a"
  by (simp add: sem_of_def)

lemma wake_one_semaphore:
  fixes k :: "('s, 'g, 'e) kernel"
  assumes k: "kernel_ok k" and env: "quiet_env env" "responsive env"
    and s: "sem_of k a = Some s" "sint (available_count s) > 0"
    and t: "t \<in> set (waiting_threads k (RObj a))" "threads k t = Some th" "simple_waiter th"
  shows "\<exists>k'. wake_one env (RObj a) t k = Some k' \<and> kernel_ok k' \<and> woken t k k' \<and>
    sem_of k' a = Some (s\<lparr>available_count := available_count s - 1\<rparr>)"
proof -
  let ?k = "set_object a (KSemaphore (s\<lparr>available_count := available_count s - 1\<rparr>)) k"
  have acq: "Acquire (RObj a) t k = Some ?k" using s by (simp add: Acquire_def sem_object)
  obtain k' and kb kc :: "('s, 'g, 'e) kernel" where w: "wake_one env (RObj a) t k = Some k'" "kernel_ok k'" "woken t k k'"
      "sync_objects k' = sync_objects kb" "bare kb = bare kc" "sync_objects kc = sync_objects ?k"
    using wake_one_total [OF k env t acq] by blast
  have "sem_of k' a = sem_of ?k a"
    using sem_of_cong [OF w(4)] sem_of_bare [OF w(5)] sem_of_cong [OF w(6)] by simp
  with w show ?thesis by (simp add: sem_of_def)
qed

text \<open>Each unit wakes one waiter while there is one.\<close>

lemma semaphore_loop:
  fixes k :: "('s, 'g, 'e) kernel"
  assumes env: "quiet_env env" "responsive env"
    and k: "kernel_ok k" "sem_of k a = Some s" "simple_waiters k (RObj a)"
  shows "\<exists>k' W. wakeup_loop env (RObj a) k = Some k' \<and> kernel_ok k' \<and>
    W \<subseteq> set (waiting_threads k (RObj a)) \<and>
    card W = min (length (waiting_threads k (RObj a))) (nat (sint (available_count s))) \<and>
    sem_of k' a = Some (s\<lparr>available_count := available_count s - of_nat (card W)\<rparr>) \<and> woken_set W k k'"
  using k
proof (induction "length (waiting_threads k (RObj a))" arbitrary: k s rule: less_induct)
  case less
  let ?ws = "waiting_threads k (RObj a)" and ?n = "sint (available_count s)"
  have sw: "ShouldWait k (RObj a) t = Some (?n \<le> 0)" for t
    using less.prems(2) by (simp add: ShouldWait_def sem_object)
  have stop: ?case if "wakeup_loop env (RObj a) k = Some k" "?ws = [] \<or> ?n \<le> 0"
  proof -
    have "woken_set {} k k" by (rule woken_set_same_waits(1)) simp
    moreover have "s\<lparr>available_count := available_count s - of_nat (card {})\<rparr> = s" by simp
    ultimately show ?thesis
      using that less.prems by (intro exI [of _ k] exI [of _ "{}"]) auto
  qed
  show ?case
  proof (cases "?n \<le> 0")
    case True
    then have "GetHighestPriorityReadyThread k (RObj a) = Some None"
      using sw by (intro best_waiter_unavailable [OF less.prems(3)]) simp
    then show ?thesis using True by (intro stop wakeup_loop_stop) simp_all
  next
    case pos: False
    then have best: "GetHighestPriorityReadyThread k (RObj a) = Some (min_waiter k ?ws)"
      using sw by (intro best_waiter_available [OF less.prems(1,3)]) simp
    show ?thesis
    proof (cases "min_waiter k ?ws")
      case None
      then have "wakeup_loop env (RObj a) k = Some k" using best by (intro wakeup_loop_stop) simp
      then show ?thesis using None by (intro stop) simp_all
    next
      case (Some t)
      obtain th where t: "t \<in> set ?ws" "threads k t = Some th" "simple_waiter th"
        using simple_waiter_thread [OF less.prems(3) Some] by blast
      let ?s = "s\<lparr>available_count := available_count s - 1\<rparr>"
      obtain k1 where k1: "wake_one env (RObj a) t k = Some k1" "kernel_ok k1" "woken t k k1"
          "sem_of k1 a = Some ?s"
        using wake_one_semaphore [OF less.prems(1) env less.prems(2) _ t] pos by auto
      have step: "wakeup_loop env (RObj a) k = wakeup_loop env (RObj a) k1"
        using best Some by (intro wakeup_loop_step [OF _ k1(1)]) simp
      have w1: "woken_set {t} k k1" by (rule woken_one [OF k1(3)])
      have ws: "waiting_threads k1 (RObj a) = removeAll t ?ws"
        using k1(3) by (simp add: woken_def)
      have "wait_ok k" using less.prems(1) by (simp add: kernel_ok_def)
      then have l: "length ?ws = Suc (length (waiting_threads k1 (RObj a)))"
        using t(1) distinct_remove1_removeAll [of ?ws t] length_remove1 [of t ?ws] wait_okD(1) [of k "RObj a"]
        by (cases ?ws) (auto simp: ws split: if_splits)
      have n1: "sint (available_count ?s) = ?n - 1"
        using pos sint_s32_fits [of "?n - 1"] sint_lt [of "available_count s"] by simp
      have "length (waiting_threads k1 (RObj a)) < length ?ws" using l by simp
      from less.hyps [OF this k1(2,4) simple_waiters_woken [OF w1 less.prems(3)]]
      obtain k2 W where k2: "wakeup_loop env (RObj a) k1 = Some k2" "kernel_ok k2"
          "W \<subseteq> set (waiting_threads k1 (RObj a))"
          "card W = min (length (waiting_threads k1 (RObj a))) (nat (sint (available_count ?s)))"
          "sem_of k2 a = Some (?s\<lparr>available_count := available_count ?s - of_nat (card W)\<rparr>)"
          "woken_set W k1 k2" by blast
      have "t \<notin> W" "finite W" using k2(3) finite_subset by (auto simp: ws)
      then have c: "card (insert t W) = Suc (card W)" by simp
      have "card (insert t W) = min (length ?ws) (nat ?n)"
        unfolding c using k2(4) l n1 pos by linarith
      moreover have "insert t W \<subseteq> set ?ws" using k2(3) t(1) by (auto simp: ws)
      moreover have "woken_set (insert t W) k k2" using woken_set_trans [OF w1 k2(6)] by simp
      moreover have "sem_of k2 a = Some (s\<lparr>available_count := available_count s - of_nat (card (insert t W))\<rparr>)"
        using k2(5) by (simp add: c algebra_simps)
      ultimately show ?thesis
        using k2(1,2) step by - (rule exI [of _ k2], rule exI [of _ "insert t W"], simp)
    qed
  qed
qed

lemma Semaphore_Release_spec:
  fixes k :: "('s, 'g, 'e) kernel"
  assumes env: "quiet_env env" "responsive env"
    and k: "kernel_ok k" "sem_of k a = Some s" "simple_waiters k (RObj a)"
    and n: "0 \<le> sint n" "0 \<le> sint (available_count s)" "sint n + sint (available_count s) \<le> sint (max_count s)"
  shows "\<exists>k' W s'. Semaphore_Release env a n k = Some (Inr (available_count s), k') \<and> kernel_ok k' \<and>
    W \<subseteq> set (waiting_threads k (RObj a)) \<and> woken_set W k k' \<and> sem_of k' a = Some s' \<and>
    card W = min (length (waiting_threads k (RObj a))) (nat (sint n + sint (available_count s))) \<and>
    sint (available_count s') = sint n + sint (available_count s) - int (card W) \<and> max_count s' = max_count s"
proof -
  let ?ws = "waiting_threads k (RObj a)" and ?n = "sint n + sint (available_count s)"
  have m: "?n < 2 ^ 31" using n(3) sint_lt [of "max_count s"] by simp
  then have add: "s32_add n (available_count s) = Some (n + available_count s)"
    using n by (simp add: s32_add_def)
  have v: "sint (n + available_count s) = ?n"
    using n m sint_s32_fits [of ?n] by simp
  let ?s = "s\<lparr>available_count := n + available_count s\<rparr>"
  let ?k = "set_object a (KSemaphore ?s) k"
  have "mutex_of k a = None" using plain_objects(3) k(2) by (simp add: sem_object)
  then have k0: "kernel_ok ?k" using kernel_ok_set_plain [OF k(1)] by simp
  have s0: "sem_of ?k a = Some ?s" by (simp add: sem_of_def)
  have w0: "simple_waiters ?k (RObj a)" using k(3) by (simp add: simple_waiters_def)
  from semaphore_loop [OF env k0 s0 w0] obtain k1 W
    where k1: "wakeup_loop env (RObj a) ?k = Some k1" "kernel_ok k1" "W \<subseteq> set ?ws"
      "card W = min (length ?ws) (nat ?n)"
      "sem_of k1 a = Some (?s\<lparr>available_count := n + available_count s - of_nat (card W)\<rparr>)"
      "woken_set W ?k k1"
    by (auto simp: v)
  obtain k2 where k2: "hle_notifier env (RObj a) k1 = Some k2"
    using env(2) unfolding responsive_def by (meson option.exhaust_sel)
  then have q: "quiet_step k1 k2" using env(1) by (simp add: quiet_env_def)
  have s2: "sem_of k2 a = Some (?s\<lparr>available_count := n + available_count s - of_nat (card W)\<rparr>)"
    using k1(5) q sem_of_cong [of k2 k1] by (simp add: quiet_step_def)
  then have pulse: "end_pulse (RObj a) k2 = k2" by (simp add: end_pulse_def sem_object)
  have "Semaphore_Release env a n k = Some (Inr (available_count s), k2)"
    using k(2) add v n(3) k1(1) k2 pulse
    by (simp add: Semaphore_Release_def WakeupAllWaitingThreads_def sem_object)
  moreover have "kernel_ok k2" using quiet_step_ok(1) [OF q] k1(2) by simp
  moreover have "woken_set W k k2"
    using woken_set_same_waits(2) [OF same_waits_set_object k1(6)] woken_set_same_waits(3) [OF quiet_step_ok(2) [OF q]]
    by blast
  moreover have "sint (n + available_count s - of_nat (card W)) = ?n - int (card W)"
    using v k1(4) n m sint_s32_fits [of "?n - int (card W)"] by simp
  ultimately show ?thesis
    using k1(3,4) s2
    by - (rule exI [of _ k2], rule exI [of _ W],
      rule exI [of _ "?s\<lparr>available_count := n + available_count s - of_nat (card W)\<rparr>"], simp)
qed

end
