(* ===== verification/ArbiterProofs.thy ===== *)
theory ArbiterProofs
  imports SvcSteps Wakeups
begin

text \<open>Whom a signal of an address arbiter wakes.\<close>

definition arbiter_ok :: "('s, 'g, 'e) kernel \<Rightarrow> nat \<Rightarrow> bool" where
  "arbiter_ok k a \<longleftrightarrow> distinct (arbiter_threads k a) \<and>
     (\<forall>t \<in> set (arbiter_threads k a). \<exists>th. threads k t = Some th \<and> status th = WaitArb \<and> wait_objects th = [])"

definition waits_at :: "('s, 'g, 'e) kernel \<Rightarrow> u32 \<Rightarrow> nat \<Rightarrow> bool" where
  "waits_at k address t \<longleftrightarrow> wait_address (the (threads k t)) = address"

definition waiters_at :: "('s, 'g, 'e) kernel \<Rightarrow> nat \<Rightarrow> u32 \<Rightarrow> nat list" where
  "waiters_at k a address = filter (waits_at k address) (arbiter_threads k a)"

lemma split_waiters_filter:
  assumes "\<forall>t \<in> set ts. \<exists>th. threads k t = Some th \<and> status th = WaitArb"
  shows "split_waiters k address ts =
    Some (filter (\<lambda>t. \<not> waits_at k address t) ts, filter (waits_at k address) ts)"
  using assms by (induction ts) (auto simp: waits_at_def)

definition resumed :: "thread \<Rightarrow> thread" where
  "resumed th = th\<lparr>wakeup_callback := None, status := Ready\<rparr>"

definition resumed_set :: "nat set \<Rightarrow> ('s, 'g, 'e) kernel \<Rightarrow> ('s, 'g, 'e) kernel \<Rightarrow> bool" where
  "resumed_set W k k' \<longleftrightarrow>
     threads k' = (\<lambda>u. if u \<in> W then map_option resumed (threads k u) else threads k u)"

lemma ResumeFromWait_arbiter:
  fixes k :: "('s, 'g, 'e) kernel"
  assumes k: "kernel_ok k" and t: "threads k t = Some th" "status th = WaitArb" "wait_objects th = []"
  shows "\<exists>k'. ResumeFromWait t k = Some k' \<and> kernel_ok k' \<and> resumed_set {t} k k' \<and>
    arbiter_threads k' = arbiter_threads k"
proof -
  have "ready_ok k" using k by (simp add: kernel_ok_def)
  then obtain k' where k': "ResumeFromWait t k = Some k'"
      "threads k' = (threads k)(t \<mapsto> th\<lparr>wakeup_callback := None, status := Ready\<rparr>)"
    using ResumeFromWait_ok [OF _ t(1,3)] t(2) by fastforce
  have "arbiter_threads k' = arbiter_threads k"
    using k'(1) t by (auto simp: ResumeFromWait_def PrepareReschedule_def upd_ready_def upd_manager_def
      upd_thread_def Let_def)
  moreover have "resumed_set {t} k k'"
    using t(1) by (auto simp: resumed_set_def k'(2) resumed_def)
  ultimately show ?thesis
    using k'(1) ResumeFromWait_kernel_ok [OF k k'(1)] by (simp add: safe_def)
qed

lemma set_arbiter_sel [simp]:
  "threads (set_arbiter a ts k) = threads k" "arbiter_threads (set_arbiter a ts k) = (arbiter_threads k)(a := ts)"
  by (simp_all add: set_arbiter_def)

text \<open>One thread: the first of the best priority among those that wait on the address.\<close>

lemma ResumeHighestPriorityThread_spec:
  fixes k :: "('s, 'g, 'e) kernel"
  assumes k: "kernel_ok k" and a: "arbiter_ok k a"
  shows "\<exists>k'. ResumeHighestPriorityThread a address k = Some (waiters_at k a address \<noteq> [], k') \<and> kernel_ok k' \<and>
    arbiter_ok k' a \<and> resumed_set (set_option (min_waiter k (waiters_at k a address))) k k' \<and>
    set (arbiter_threads k' a) = set (arbiter_threads k a) - set_option (min_waiter k (waiters_at k a address)) \<and>
    set (waiters_at k' a address) = set (waiters_at k a address) - set_option (min_waiter k (waiters_at k a address)) \<and>
    length (waiters_at k' a address) = length (waiters_at k a address) - 1"
proof -
  let ?ts = "arbiter_threads k a" and ?ms = "waiters_at k a address"
  let ?os = "filter (\<lambda>t. \<not> waits_at k address t) ?ts"
  have all: "\<forall>t \<in> set ?ts. \<exists>th. threads k t = Some th \<and> status th = WaitArb" and d: "distinct ?ts"
    using a by (auto simp: arbiter_ok_def)
  have sp: "split_waiters k address ?ts = Some (?os, ?ms)"
    using split_waiters_filter [OF all] by (simp add: waiters_at_def)
  let ?k = "set_arbiter a (?os @ ?ms) k"
  have k0: "kernel_ok ?k" using set_arbiter_safe [OF k] by (simp add: safe_def)
  have mw: "min_waiter ?k ?ms = min_waiter k ?ms" by (rule min_waiter_cong) simp
  have dm: "distinct (?os @ ?ms)" using d by (auto simp: waiters_at_def)
  have sets: "set (?os @ ?ms) = set ?ts" by (auto simp: waiters_at_def)
  show ?thesis
  proof (cases "min_waiter k ?ms")
    case None
    then have e: "?ms = []" by simp
    then have r: "ResumeHighestPriorityThread a address k = Some (False, ?k)"
      using sp mw by (simp add: ResumeHighestPriorityThread_def)
    have os: "?os = ?ts" using e by (auto simp: waiters_at_def filter_empty_conv intro: filter_True)
    have "arbiter_ok ?k a" using a e os by (simp add: arbiter_ok_def)
    moreover have "waiters_at ?k a address = []" using e os by (auto simp: waiters_at_def waits_at_def filter_empty_conv)
    ultimately show ?thesis using r k0 e os by (intro exI [of _ ?k]) (simp add: resumed_set_def)
  next
    case (Some t)
    then have t: "t \<in> set ?ms" by (rule min_waiter_mem)
    then have tt: "t \<in> set ?ts" "t \<notin> set ?os" by (auto simp: waiters_at_def)
    then obtain th where th: "threads k t = Some th" "status th = WaitArb" "wait_objects th = []"
      using a by (auto simp: arbiter_ok_def)
    then have th': "threads ?k t = Some th" by simp
    obtain k1 where k1: "ResumeFromWait t ?k = Some k1" "kernel_ok k1" "resumed_set {t} ?k k1"
        "arbiter_threads k1 = arbiter_threads ?k"
      using ResumeFromWait_arbiter [OF k0 th' th(2,3)] by blast
    let ?k' = "set_arbiter a (?os @ remove1 t ?ms) k1"
    have r: "ResumeHighestPriorityThread a address k = Some (True, ?k')"
      using sp mw Some k1(1) by (simp add: ResumeHighestPriorityThread_def)
    have rs: "resumed_set {t} k ?k'" using k1(3) by (simp add: resumed_set_def cong: if_cong)
    have rem: "set (?os @ remove1 t ?ms) = set ?ts - {t}"
      using dm tt(2) sets by (auto simp: set_remove1_eq)
    have same: "threads ?k' u = threads k u" if "u \<noteq> t" for u using rs that by (simp add: resumed_set_def)
    have wat: "waits_at ?k' address u = waits_at k address u" if "u \<noteq> t" for u
      using same [OF that] by (simp add: waits_at_def)
    have ok': "arbiter_ok ?k' a"
      unfolding arbiter_ok_def
    proof
      show "distinct (arbiter_threads ?k' a)" using dm by (auto dest: notin_set_remove1)
      show "\<forall>u \<in> set (arbiter_threads ?k' a). \<exists>x. threads ?k' u = Some x \<and> status x = WaitArb \<and> wait_objects x = []"
        using rem same a by (auto simp: arbiter_ok_def)
    qed
    have w: "waiters_at ?k' a address = remove1 t ?ms"
    proof -
      have "filter (waits_at ?k' address) ?os = []"
        unfolding filter_empty_conv
      proof
        fix u assume u: "u \<in> set ?os"
        then have "u \<noteq> t" using tt(2) by blast
        then show "\<not> waits_at ?k' address u" using wat u by simp
      qed
      moreover have "filter (waits_at ?k' address) (remove1 t ?ms) = remove1 t ?ms"
      proof (rule filter_True, rule ballI)
        fix u assume u: "u \<in> set (remove1 t ?ms)"
        then have "u \<noteq> t" using dm by (auto simp: set_remove1_eq)
        then show "waits_at ?k' address u" using wat u by (auto simp: waiters_at_def dest: notin_set_remove1)
      qed
      ultimately show ?thesis by (simp add: waiters_at_def)
    qed
    have rm: "set (remove1 t ?ms) = set ?ms - {t}" using dm by (auto simp: set_remove1_eq)
    have "kernel_ok ?k'" using set_arbiter_safe [OF k1(2)] by (simp add: safe_def)
    moreover have "?ms \<noteq> []" using t by (cases ?ms) simp_all
    moreover have "length (remove1 t ?ms) = length ?ms - 1" using t by (simp add: length_remove1)
    moreover have "arbiter_threads ?k' a = ?os @ remove1 t ?ms" by simp
    ultimately show ?thesis
      using r rs rem ok' w rm Some by (intro exI [of _ ?k']) (simp only: option.set simp_thms)
  qed
qed

lemma resumed_set_prio: "resumed_set W k k' \<Longrightarrow> prio k' u = prio k u"
  by (cases "threads k u") (simp_all add: resumed_set_def prio_def resumed_def)

lemma resumed_set_trans:
  assumes "resumed_set A k k1" and "resumed_set B k1 k2" and "A \<inter> B = {}"
  shows "resumed_set (A \<union> B) k k2"
  using assms by (auto simp: resumed_set_def fun_eq_iff)

lemma min_waiter_best:
  "min_waiter k ts = Some t \<Longrightarrow> u \<in> set ts \<Longrightarrow> prio k t \<le> prio k u"
  using min_waiter_first [of k ts t] by fastforce

text \<open>The loop wakes as many threads as it counts, at most \<open>value\<close> of them, and none before a thread
  of a better priority.\<close>

lemma resume_first_spec:
  fixes k :: "('s, 'g, 'e) kernel"
  assumes "kernel_ok k" and "arbiter_ok k a"
  shows "\<exists>k' W. resume_first i a address n k = Some (n + card W, k') \<and> kernel_ok k' \<and> arbiter_ok k' a \<and>
    W \<subseteq> set (waiters_at k a address) \<and> card W = min i (length (waiters_at k a address)) \<and>
    resumed_set W k k' \<and> set (arbiter_threads k' a) = set (arbiter_threads k a) - W \<and>
    (\<forall>u \<in> W. \<forall>v \<in> set (waiters_at k a address) - W. prio k u \<le> prio k v)"
  using assms
proof (induction i arbitrary: k n)
  case 0
  then show ?case by (intro exI [of _ k] exI [of _ "{}"]) (simp add: resumed_set_def)
next
  case (Suc i)
  let ?ms = "waiters_at k a address" and ?m = "min_waiter k (waiters_at k a address)"
  obtain k1 where k1: "ResumeHighestPriorityThread a address k = Some (?ms \<noteq> [], k1)" "kernel_ok k1"
      "arbiter_ok k1 a" "resumed_set (set_option ?m) k k1"
      "set (arbiter_threads k1 a) = set (arbiter_threads k a) - set_option ?m"
      "set (waiters_at k1 a address) = set ?ms - set_option ?m"
      "length (waiters_at k1 a address) = length ?ms - 1"
    using ResumeHighestPriorityThread_spec [OF Suc.prems, of address] by blast
  let ?n = "if ?ms \<noteq> [] then n + 1 else n"
  obtain k2 W where k2: "resume_first i a address ?n k1 = Some (?n + card W, k2)" "kernel_ok k2" "arbiter_ok k2 a"
      "W \<subseteq> set (waiters_at k1 a address)" "card W = min i (length (waiters_at k1 a address))"
      "resumed_set W k1 k2" "set (arbiter_threads k2 a) = set (arbiter_threads k1 a) - W"
      "\<forall>u \<in> W. \<forall>v \<in> set (waiters_at k1 a address) - W. prio k1 u \<le> prio k1 v"
    using Suc.IH [OF k1(2,3), of ?n] by blast
  let ?W = "set_option ?m \<union> W"
  have disj: "set_option ?m \<inter> W = {}" using k2(4) k1(6) by auto
  have fin: "finite W" using k2(4) finite_subset by blast
  have c: "card ?W = (if ?ms = [] then 0 else 1) + card W"
    using disj fin by (cases ?m) (auto simp: card_Un_disjoint)
  have "card ?W = min (Suc i) (length ?ms)"
  proof (cases "?ms = []")
    case True
    then show ?thesis using c k2(5) k1(7) by simp
  next
    case False
    then have "length ?ms = Suc (length (waiters_at k1 a address))" using k1(7) by (cases ?ms) simp_all
    then show ?thesis using False c k2(5) by simp
  qed
  moreover have "resume_first (Suc i) a address n k = Some (n + card ?W, k2)"
    using k1(1) k2(1) c by (simp split: if_splits)
  moreover have "resumed_set ?W k k2" by (rule resumed_set_trans [OF k1(4) k2(6) disj])
  moreover have "?W \<subseteq> set ?ms" using k2(4) k1(6) min_waiter_mem by (cases ?m) auto
  moreover have "set (arbiter_threads k2 a) = set (arbiter_threads k a) - ?W" using k2(7) k1(5) by auto
  moreover have "\<forall>u \<in> ?W. \<forall>v \<in> set ?ms - ?W. prio k u \<le> prio k v"
  proof (intro ballI)
    fix u v assume u: "u \<in> ?W" and v: "v \<in> set ?ms - ?W"
    show "prio k u \<le> prio k v"
    proof (cases "u \<in> W")
      case True
      moreover have "v \<in> set (waiters_at k1 a address) - W" using v k1(6) by blast
      ultimately show ?thesis using k2(8) resumed_set_prio [OF k1(4)] by auto
    next
      case False
      then have "?m = Some u" using u by (cases ?m) auto
      then show ?thesis using min_waiter_best v by blast
    qed
  qed
  ultimately show ?case using k2(2,3) by (intro exI [of _ k2] exI [of _ ?W]) simp
qed

lemma resume_threads_spec:
  fixes k :: "('s, 'g, 'e) kernel"
  assumes "kernel_ok k" and "distinct ts"
    and "\<forall>t \<in> set ts. \<exists>th. threads k t = Some th \<and> status th = WaitArb \<and> wait_objects th = []"
  shows "\<exists>k'. resume_threads ts k = Some k' \<and> kernel_ok k' \<and> resumed_set (set ts) k k' \<and>
    arbiter_threads k' = arbiter_threads k"
  using assms
proof (induction ts arbitrary: k)
  case Nil
  then show ?case by (simp add: resumed_set_def)
next
  case (Cons t ts)
  obtain th where th: "threads k t = Some th" "status th = WaitArb" "wait_objects th = []" using Cons.prems(3) by auto
  obtain k1 where k1: "ResumeFromWait t k = Some k1" "kernel_ok k1" "resumed_set {t} k k1"
      "arbiter_threads k1 = arbiter_threads k"
    using ResumeFromWait_arbiter [OF Cons.prems(1) th] by blast
  have "\<forall>u \<in> set ts. \<exists>x. threads k1 u = Some x \<and> status x = WaitArb \<and> wait_objects x = []"
    using Cons.prems(2,3) k1(3) by (fastforce simp: resumed_set_def)
  with Cons.IH [OF k1(2)] Cons.prems(2) obtain k2 where k2: "resume_threads ts k1 = Some k2" "kernel_ok k2"
      "resumed_set (set ts) k1 k2" "arbiter_threads k2 = arbiter_threads k1"
    by auto
  have "resumed_set ({t} \<union> set ts) k k2"
    using resumed_set_trans [OF k1(3) k2(3)] Cons.prems(2) by simp
  then show ?case using k1 k2 by simp
qed

lemma ResumeAllThreads_spec:
  fixes k :: "('s, 'g, 'e) kernel"
  assumes k: "kernel_ok k" and a: "arbiter_ok k a"
  shows "\<exists>k'. ResumeAllThreads a address k = Some (length (waiters_at k a address), k') \<and> kernel_ok k' \<and>
    resumed_set (set (waiters_at k a address)) k k' \<and>
    set (arbiter_threads k' a) = set (arbiter_threads k a) - set (waiters_at k a address)"
proof -
  let ?ts = "arbiter_threads k a" and ?ms = "waiters_at k a address"
  let ?os = "filter (\<lambda>t. \<not> waits_at k address t) ?ts"
  have all: "\<forall>t \<in> set ?ts. \<exists>th. threads k t = Some th \<and> status th = WaitArb" and d: "distinct ?ms"
    using a by (auto simp: arbiter_ok_def waiters_at_def)
  have sp: "split_waiters k address ?ts = Some (?os, ?ms)"
    using split_waiters_filter [OF all] by (simp add: waiters_at_def)
  have "\<forall>t \<in> set ?ms. \<exists>th. threads k t = Some th \<and> status th = WaitArb \<and> wait_objects th = []"
    using a by (auto simp: arbiter_ok_def waiters_at_def)
  from resume_threads_spec [OF k d this] obtain k1
    where k1: "resume_threads ?ms k = Some k1" "kernel_ok k1" "resumed_set (set ?ms) k k1"
    by blast
  let ?k = "set_arbiter a ?os k1"
  have "kernel_ok ?k" using set_arbiter_safe [OF k1(2)] by (simp add: safe_def)
  moreover have "resumed_set (set ?ms) k ?k" using k1(3) by (simp add: resumed_set_def)
  moreover have "set (arbiter_threads ?k a) = set ?ts - set ?ms" by (auto simp: waiters_at_def)
  ultimately show ?thesis using sp k1(1) by (intro exI [of _ ?k]) (simp add: ResumeAllThreads_def)
qed

end
