(* ===== verification/ProcessMemory.thy ===== *)
theory ProcessMemory
  imports Process
begin

text \<open>Properties of a process's memory: the linear heap gives back what it took, thread-local
  storage hands out each slot once, kernel capabilities grant no more than they list.\<close>

section \<open>The linear heap\<close>

text \<open>Protecting an area that is read-write already changes nothing that can be seen.\<close>

lemma reprotect_same:
  assumes wf: "vm_wf mk H vm" and unlocked: "\<not> vm_locked vm" and v: "vma_at vm i = Some v"
    and k: "permissions v = np"
  shows "\<exists>j vm'. Reprotect mk vm i np = Some (j, vm') \<and> vm_wf mk H vm' \<and> \<not> vm_locked vm' \<and>
    view (vma_map vm') = view (vma_map vm)"
proof -
  define ps where "ps = take i (vma_map vm)"
  define ns where "ns = drop (Suc i) (vma_map vm)"
  have i: "i < length (vma_map vm)" "vma_map vm ! i = v"
    using v by (auto simp: vma_at_def split: if_splits)
  then have vm: "vma_map vm = ps @ v # ns" and len: "length ps = i"
    unfolding ps_def ns_def by (auto simp: id_take_nth_drop)
  have same: "v\<lparr>permissions := np\<rparr> = v" using k by simp
  have ok: "areas_ok H (ps @ v # ns)" using wf vm by (simp add: vm_wf_def)
  obtain ps' u ns' pt where m: "Option.bind (UpdatePageTableForVMA mk (set_vma vm (length ps) v) v)
        (\<lambda>vm. MergeAdjacent vm (length ps)) =
      Some (length ps', vm\<lparr>vma_map := ps' @ u # ns', vm_page_table := pt\<rparr>)"
    "vm_wf mk H (vm\<lparr>vma_map := ps' @ u # ns', vm_page_table := pt\<rparr>)"
    "view (ps' @ u # ns') = (\<lambda>a. if in_area a v then Some (info v a) else view (vma_map vm) a)"
    using modify_spec [OF wf vm areas_okD(5) [OF ok] refl refl] by blast
  have "view (ps' @ u # ns') = view (vma_map vm)"
    using view_middle(1) [OF areas_okD(7) [OF ok]] by (auto simp: m(3) vm fun_eq_iff)
  moreover have "Reprotect mk vm i np =
      Some (length ps', vm\<lparr>vma_map := ps' @ u # ns', vm_page_table := pt\<rparr>)"
    using m(1) v len same unlocked by (simp add: Reprotect_def Let_def)
  ultimately show ?thesis using m(2) unlocked by simp
qed

lemma map_protected_rw:
  assumes wf: "vm_wf (km_marker k) H vm" and unlocked: "\<not> vm_locked vm"
    and al: "page_aligned t" "page_aligned sz"
    and fit: "0 < unat sz" "unat t + unat sz < 2 ^ 32"
    and ref: "ref_covers memory (unat sz)" "the (backing_mem memory) \<in> H"
    and mapped: "map_protected k t memory sz state Perm_ReadWrite vm = Some vm'"
  shows "vm_wf (km_marker k) H vm' \<and> \<not> vm_locked vm' \<and> free_room vm t sz \<and>
    view (vma_map vm') = (\<lambda>a. if unat t \<le> a \<and> a < unat t + unat sz
      then Some (VMA_BackingMemory, Perm_ReadWrite, state, GetPtr memory + of_nat (a - unat t))
      else view (vma_map vm) a)"
proof (cases "free_room vm t sz")
  case True
  obtain i w v where w: "MapBackingMemory (km_marker k) vm t memory sz state = Some (Inr (i, w))"
      "vm_wf (km_marker k) H w" "\<not> vm_locked w" "vma_at w i = Some v"
      "kind v = (VMA_BackingMemory, Perm_ReadWrite, state)"
      "view (vma_map w) = (\<lambda>a. if unat t \<le> a \<and> a < unat t + unat sz
      then Some (VMA_BackingMemory, Perm_ReadWrite, state, GetPtr memory + of_nat (a - unat t))
      else view (vma_map vm) a)"
    using MapBackingMemory_ok [OF wf unlocked al fit ref True, of state] by blast
  have "permissions v = Perm_ReadWrite" using w(5) by (simp add: kind_def)
  from reprotect_same [OF w(2-4) this] obtain j x where x:
    "Reprotect (km_marker k) w i Perm_ReadWrite = Some (j, x)" "vm_wf (km_marker k) H x"
    "\<not> vm_locked x" "view (vma_map x) = view (vma_map w)" by blast
  then have "vm' = x" using mapped w(1) by (simp add: map_protected_def)
  with x w(6) True show ?thesis by simp
next
  case False
  have ok: "areas_ok H (vma_map vm)" using wf by (simp add: vm_wf_def)
  have "\<exists>e. CarveVMA vm t sz = Some (Inl e)"
    using CarveVMA_spec [OF ok al fit] False unfolding free_room_def
    by (cases "0x40000000 \<le> unat t") auto
  then show ?thesis
    using unlocked mapped ref_covers_ptr(1) [OF ref(1)]
    by (auto simp: map_protected_def MapBackingMemory_def)
qed

text \<open>The region's side.\<close>

lemma linear_allocate_free:
  assumes ops: "icl_ok ops" and wf: "region_wf ops r" and sz: "0 < sz"
    and alloc: "Region_LinearAllocate ops r sz = Some (Some a, r1)"
  shows "{unat a..<unat a + unat sz} \<subseteq> free_points ops r \<and> base r1 = base r \<and>
    region_size r1 = region_size r \<and>
    (\<exists>r2. Region_Free ops r1 a sz = Some r2 \<and> region_wf ops r2 \<and>
      free_points ops r2 = free_points ops r \<and> used r2 = used r \<and> base r2 = base r \<and>
      region_size r2 = region_size r)"
proof -
  have unlocked: "\<not> is_locked r"
    using alloc by (auto simp: Region_LinearAllocate_def)
  from linear_allocate_lowest_raw [OF ops wf unlocked sz] alloc
  have r1: "region_wf ops r1" "{unat a..<unat a + unat sz} \<subseteq> free_points ops r"
      "free_points ops r1 = free_points ops r - {unat a..<unat a + unat sz}" "used r1 = used r + sz"
    by auto
  have same: "base r1 = base r" "region_size r1 = region_size r" "is_locked r1 = is_locked r"
    using alloc by (auto simp: Region_LinearAllocate_def Let_def split: option.splits bind_splits)
  have "free_points ops r \<subseteq> region_points r1"
    using wf same by (simp add: region_wf_def region_points_def)
  with r1(2) have blk: "{unat a..<unat a + unat sz} \<subseteq> region_points r1" by (rule subset_trans)
  note g = give_back [OF ops r1(1) blk sz]
  have disj: "{unat a..<unat a + unat sz} \<inter> free_points ops r1 = {}" using r1(3) by auto
  show ?thesis
    using g(1) g(2) [OF disj] g(3) r1(2-4) same unlocked disj
    by (auto simp: free_points_def)
qed
text \<open>The limit's side: whatever \<open>Reserve\<close> answered, the later \<open>Release\<close> takes the amount off.\<close>

definition commit_current :: "('s, 'g) kmem \<Rightarrow> nat \<Rightarrow> int" where
  "commit_current k l = sint (m_current_values (km_limits k ! l) ! 1)"

definition commit_limit :: "('s, 'g) kmem \<Rightarrow> nat \<Rightarrow> int" where
  "commit_limit k l = sint (m_limit_values (km_limits k ! l) ! 1)"

definition commit_granted :: "('s, 'g) kmem \<Rightarrow> nat \<Rightarrow> u32 \<Rightarrow> bool" where
  "commit_granted k l sz \<longleftrightarrow> commit_current k l + sint sz \<le> commit_limit k l"

lemma limit_round_trip:
  assumes r: "limit_op Reserve RL_Commit sz p k = Some (ok, k1)"
    and l: "process_limit p = Some l" "process_limit p1 = Some l"
    and nn: "0 \<le> commit_current k l" "0 \<le> sint sz" and k1': "km_limits k1' = km_limits k1"
  shows "\<exists>ok' k2. limit_op ResourceLimit_Release RL_Commit sz p1 k1' = Some (ok', k2) \<and>
    km_regions k2 = km_regions k1' \<and> km_machine k2 = km_machine k1' \<and>
    km_marker k2 = km_marker k1' \<and>
    (if commit_granted k l sz then km_limits k2 = km_limits k
     else if sint sz \<le> commit_current k l then commit_current k2 l = commit_current k l - sint sz
     else km_limits k2 = km_limits k)"
proof -
  define L where "L = km_limits k ! l"
  define c where "c = m_current_values L ! Suc 0"
  have len: "l < length (km_limits k)" "1 < length (m_current_values L)"
      "1 < length (m_limit_values L)" "- (2 ^ 31) \<le> sint c + sint sz" "sint c + sint sz < 2 ^ 31"
    using r l by (auto simp: limit_op_def Reserve_def array_get_def s32_add_def c_def L_def
        split: bind_splits if_splits)
  have s: "sint (c + sz) = sint c + sint sz"
    using sint_s32_fits [OF len(4,5)] by simp
  have cc: "commit_current k l = sint c" by (simp add: commit_current_def c_def L_def)
  have lim: "commit_limit k l = sint (m_limit_values L ! 1)" by (simp add: commit_limit_def L_def)
  show ?thesis
  proof (cases "commit_granted k l sz")
    case True
    let ?L1 = "L\<lparr>m_current_values := (m_current_values L)[1 := c + sz]\<rparr>"
    have k1: "km_limits k1 = (km_limits k)[l := ?L1]"
      using r l len s cc lim True
      by (auto simp: limit_op_def Reserve_def array_get_def array_set_def s32_add_def commit_granted_def
          simp flip: c_def L_def)
    have "ResourceLimit_Release ?L1 RL_Commit sz = Some (True, L)"
      using len s nn cc list_update_id [of "m_current_values L" 1]
      by (simp add: ResourceLimit_Release_def array_get_def array_set_def s32_sub_def c_def [symmetric])
    then show ?thesis
      using l len(1) True list_update_id [of "km_limits k" l]
      by (auto simp: limit_op_def k1' k1 L_def [symmetric])
  next
    case False
    have k1: "km_limits k1 = km_limits k"
      using r l len s cc lim False list_update_id [of "km_limits k" l]
      by (auto simp: limit_op_def Reserve_def array_get_def array_set_def s32_add_def commit_granted_def
          simp flip: c_def L_def)
    have "sint (c - sz) = sint c - sint sz" if "sint sz \<le> sint c"
      using sint_s32_fits [of "sint c - sint sz"] that nn cc len by simp
    then have "ResourceLimit_Release L RL_Commit sz = Some
        (if sint sz \<le> sint c then (True, L\<lparr>m_current_values := (m_current_values L)[1 := c - sz]\<rparr>)
         else (False, L))"
      using len nn cc
      by (auto simp: ResourceLimit_Release_def array_get_def array_set_def s32_sub_def simp flip: c_def)
    then show ?thesis
      using l len False list_update_id [of "km_limits k" l] \<open>sint sz \<le> sint c \<Longrightarrow> _\<close>
      by (auto simp: limit_op_def k1' k1 commit_current_def c_def simp flip: L_def)
  qed
qed
text \<open>What a linear allocation leaves behind.\<close>

lemma LinearAllocate_parts:
  assumes alloc: "Process_LinearAllocate ops env 0 sz perms (p, k) = Some (Inr t, p1, k1)"
    and reg: "process_region p k = Some (i, r)"
  shows "\<exists>a r1 ref vm ok k2. Region_LinearAllocate ops r sz = Some (Some a, r1) \<and>
    t = a + GetLinearHeapAreaAddress p \<and> GetFCRAMRef env (ucast a) = Some ref \<and>
    k2 = fill_zero (GetPtr ref) (GetPtr ref + ucast sz) (upd_region i r1 k) \<and>
    map_protected k2 t ref sz MS_Continuous perms (vm_of p) = Some vm \<and>
    p1 = p\<lparr>vm_of := vm, holding_memory := icl_add ops (holding_memory p) (Interval a (a + sz)),
      memory_used := memory_used p + sz\<rparr> \<and>
    limit_op Reserve RL_Commit sz p1 k2 = Some (ok, k1)"
proof -
  from alloc reg obtain a r1 where a: "Region_LinearAllocate ops r sz = Some (Some a, r1)"
      "linear_map ops env a (a + GetLinearHeapAreaAddress p) sz perms (p, upd_region i r1 k) =
        Some (Inr t, p1, k1)"
    by (auto simp: Process_LinearAllocate_def split: option.splits bind_splits)
  from a(2) show ?thesis
    using a(1) by (auto simp: linear_map_def Let_def split: bind_splits)
qed

lemma limit_op_frame:
  assumes "limit_op f type amount p k = Some (ok, k1)"
  shows "km_regions k1 = km_regions k" and "km_machine k1 = km_machine k"
    and "km_marker k1 = km_marker k"
  using assms by (auto simp: limit_op_def split: bind_splits)

lemma fill_zero_sel [simp]:
  "km_regions (fill_zero a b k) = km_regions k" "km_limits (fill_zero a b k) = km_limits k"
  "km_marker (fill_zero a b k) = km_marker k"
  by (simp_all add: fill_zero_def)

lemma upd_region_sel [simp]:
  "km_regions (upd_region i r k) = (km_regions k)[i := r]" "km_limits (upd_region i r k) = km_limits k"
  "km_marker (upd_region i r k) = km_marker k"
  by (simp_all add: upd_region_def)

text \<open>A block of FCRAM and the address it has in the linear heap.\<close>

definition fcram_ok :: "host_buffer set \<Rightarrow> 'g mem_env \<Rightarrow> bool" where
  "fcram_ok H env \<longleftrightarrow> (let b = fcram_mem (phys env)
     in b \<in> H \<and> hb_ptr b \<noteq> 0 \<and> unat (hb_ptr b) + unat (hb_size b) < 2 ^ 64 \<and>
        unat (hb_size b) = 0x10000000)"

lemma fcram_ref:
  assumes "fcram_ok H env" and "GetFCRAMRef env (ucast (a :: u32)) = Some ref"
    and "unat a + n \<le> 0x10000000"
  shows "ref_covers ref n" and "the (backing_mem ref) \<in> H"
    and "GetPtr ref = hb_ptr (fcram_mem (phys env)) + ucast a"
  using assms
  by (auto simp: fcram_ok_def Let_def GetFCRAMRef_def MemoryRef_at_def ref_covers_def GetPtr_def
      split: bind_splits)

lemma linear_area:
  "unat (GetLinearHeapAreaAddress p) + 0x10000000 \<le> 0x40000000"
  "unat (GetLinearHeapAreaAddress p) \<le> 0x30000000"
  by (simp_all add: GetLinearHeapAreaAddress_def)
lemma sint_s32_small:
  assumes "unat (w :: u32) < 2 ^ 31"
  shows "sint w = int (unat w)"
proof -
  define n where "n = unat w"
  then have n: "unat w = n" "w = of_nat n" by simp_all
  have "sint (word_of_int (int n) :: s32) = int n"
    using assms n(1) by (intro sint_s32_fits) simp_all
  then show ?thesis using n by simp
qed

lemma unmap_mapped:
  assumes wf: "vm_wf mk H vm" and unlocked: "\<not> vm_locked vm"
    and al: "page_aligned t" "page_aligned sz"
    and fit: "0 < unat sz" "unat t + unat sz \<le> 0x40000000"
    and mapped: "\<And>a. unat t \<le> a \<Longrightarrow> a < unat t + unat sz \<Longrightarrow>
      \<exists>p s q. view (vma_map vm) a = Some (VMA_BackingMemory, p, s, q)"
  shows "\<exists>vm'. UnmapRange mk vm t sz = Some (Inr vm') \<and> vm_wf mk H vm' \<and> \<not> vm_locked vm' \<and>
    view (vma_map vm') = (\<lambda>a. if unat t \<le> a \<and> a < unat t + unat sz then Some free_info
                             else view (vma_map vm) a)"
proof -
  have "\<not> has_free vm t sz" using mapped by (fastforce simp: has_free_def)
  moreover obtain res where "UnmapRange mk vm t sz = Some res" "case res of
       Inl e \<Rightarrow> e = ResultInvalidAddressState \<and> has_free vm t sz
     | Inr vm' \<Rightarrow> \<not> has_free vm t sz \<and> vm_wf mk H vm' \<and> \<not> vm_locked vm' \<and>
         view (vma_map vm') = (\<lambda>a. if unat t \<le> a \<and> a < unat t + unat sz then Some free_info
                                  else view (vma_map vm) a)"
    using UnmapRange_spec [OF wf unlocked al fit] by blast
  ultimately show ?thesis by (cases res) simp_all
qed

text \<open>The block's way back: every part of \<open>LinearFree\<close> undoes its part of \<open>LinearAllocate\<close>.\<close>

lemma linear_round_trip_raw:
  assumes ops: "icl_ok ops" and reg: "process_region p k = Some (i, r)" and rwf: "region_wf ops r"
    and inside: "unat (base r) + unat (region_size r) \<le> 0x10000000"
    and vm: "vm_wf (km_marker k) H (vm_of p)" "\<not> vm_locked (vm_of p)" and f: "fcram_ok H env"
    and sz: "page_aligned sz" "0 < sz"
    and lim: "process_limit p = Some l" "0 \<le> commit_current k l"
    and alloc: "Process_LinearAllocate ops env 0 sz Perm_ReadWrite (p, k) = Some (Inr t, p1, k1)"
    and t: "page_aligned t"
  shows "\<exists>p2 k2 r2. (\<forall>a. view (vma_map (vm_of p1)) a =
      (if unat t \<le> a \<and> a < unat t + unat sz
       then Some (VMA_BackingMemory, Perm_ReadWrite, MS_Continuous,
         hb_ptr (fcram_mem (phys env)) + of_nat (a - unat (GetLinearHeapAreaAddress p)))
       else view (vma_map (vm_of p)) a)) \<and>
    Process_LinearFree ops t sz (p1, k1) = Some (Inr (), p2, k2) \<and>
    (\<forall>a. view (vma_map (vm_of p2)) a =
      (if unat t \<le> a \<and> a < unat t + unat sz then Some free_info else view (vma_map (vm_of p)) a)) \<and>
    process_region p2 k2 = Some (i, r2) \<and> region_wf ops r2 \<and>
    free_points ops r2 = free_points ops r \<and> used r2 = used r \<and> memory_used p2 = memory_used p \<and>
    (if commit_granted k l sz then km_limits k2 = km_limits k
     else if sint sz \<le> commit_current k l then commit_current k2 l = commit_current k l - sint sz
     else km_limits k2 = km_limits k)"
proof -
  let ?A = "GetLinearHeapAreaAddress p"
  obtain a r1 ref vm1 ok k2 where P: "Region_LinearAllocate ops r sz = Some (Some a, r1)"
      "t = a + ?A" "GetFCRAMRef env (ucast a) = Some ref"
      "k2 = fill_zero (GetPtr ref) (GetPtr ref + ucast sz) (upd_region i r1 k)"
      "map_protected k2 t ref sz MS_Continuous Perm_ReadWrite (vm_of p) = Some vm1"
      "p1 = p\<lparr>vm_of := vm1, holding_memory := icl_add ops (holding_memory p) (Interval a (a + sz)),
        memory_used := memory_used p + sz\<rparr>"
      "limit_op Reserve RL_Commit sz p1 k2 = Some (ok, k1)"
    using LinearAllocate_parts [OF alloc reg] by blast
  obtain r2 where R: "{unat a..<unat a + unat sz} \<subseteq> free_points ops r" "base r1 = base r"
      "region_size r1 = region_size r" "Region_Free ops r1 a sz = Some r2" "region_wf ops r2"
      "free_points ops r2 = free_points ops r" "used r2 = used r" "base r2 = base r"
    using linear_allocate_free [OF ops rwf sz(2) P(1)] by blast
  have pos: "0 < unat sz" using sz(2) by (simp add: word_less_nat_alt)
  have "{unat a..<unat a + unat sz} \<subseteq> {unat (base r)..<unat (base r) + unat (region_size r)}"
    using R(1) rwf unfolding region_wf_def region_points_def by blast
  then have a: "unat (base r) \<le> unat a" "unat a + unat sz \<le> unat (base r) + unat (region_size r)"
    using pos by simp_all
  have ut: "unat t = unat a + unat ?A"
    unfolding P(2) using a inside linear_area(2) [of p] by (intro unat_plus_fits) simp
  have low: "unat t + unat sz \<le> 0x40000000" using ut a inside linear_area(1) [of p] by simp
  have bnd: "unat a + unat sz \<le> 0x10000000" using a inside by simp
  note F = fcram_ref [OF f P(3) bnd]
  have wf: "vm_wf (km_marker k2) H (vm_of p)" using vm(1) by (simp add: P(4))
  have M: "vm_wf (km_marker k2) H vm1" "\<not> vm_locked vm1"
      "view (vma_map vm1) = (\<lambda>x. if unat t \<le> x \<and> x < unat t + unat sz
        then Some (VMA_BackingMemory, Perm_ReadWrite, MS_Continuous, GetPtr ref + of_nat (x - unat t))
        else view (vma_map (vm_of p)) x)"
    using map_protected_rw [OF wf vm(2) t sz(1) pos _ F(1,2) P(5)] low by auto
  have mk: "km_marker k1 = km_marker k2" and regs: "km_regions k1 = (km_regions k)[i := r1]"
    using limit_op_frame [OF P(7)] by (simp_all add: P(4))
  have i: "memory_region_of p = Some i" "i < length (km_regions k)" "r = km_regions k ! i"
    using reg by (auto simp: process_region_def split: bind_splits)
  have reg1: "process_region p1 k1 = Some (i, r1)"
    using i by (simp add: process_region_def P(6) regs)
  have vm1: "vm_of p1 = vm1" by (simp add: P(6))
  have A1: "GetLinearHeapAreaAddress p1 = ?A" by (simp add: GetLinearHeapAreaAddress_def P(6))
  have b: "GetLinearHeapBase p1 k1 = Some (?A + base r)"
      "GetLinearHeapLimit p1 k1 = Some (?A + base r + region_size r)"
    by (simp_all add: GetLinearHeapBase_def GetLinearHeapLimit_def reg1 A1 R(2,3))
  have ub: "unat (?A + base r) = unat ?A + unat (base r)"
    using inside linear_area(2) [of p] by (intro unat_plus_fits) simp
  have ul: "unat (?A + base r + region_size r) = unat ?A + unat (base r) + unat (region_size r)"
    using inside linear_area(2) [of p] ub by (subst unat_plus_fits) simp_all
  have ue: "unat (t + sz) = unat t + unat sz" using low by (intro unat_plus_fits) simp
  have range: "\<not> (t < ?A + base r \<or> t + sz > ?A + base r + region_size r \<or> t + sz < t)"
    using a ut ub ul ue by (simp add: word_less_nat_alt)
  obtain vm2 where U: "UnmapRange (km_marker k2) vm1 t sz = Some (Inr vm2)"
      "view (vma_map vm2) = (\<lambda>x. if unat t \<le> x \<and> x < unat t + unat sz then Some free_info
                                else view (vma_map vm1) x)"
    using unmap_mapped [OF M(1,2) t sz(1) pos low] by (auto simp: M(3))
  have off: "t - ?A = a" by (simp add: P(2))
  have snn: "0 \<le> sint sz" using bnd sint_s32_small [of sz] by simp
  let ?p2 = "p1\<lparr>vm_of := vm2, holding_memory := icl_sub ops (holding_memory p1) (Interval a (a + sz)),
    memory_used := memory_used p1 - sz\<rparr>"
  have P7: "limit_op Reserve RL_Commit sz p k2 = Some (ok, k1)"
    using P(7) by (simp add: P(6) limit_op_def)
  have cc: "commit_current k2 l = commit_current k l" "commit_granted k2 l sz = commit_granted k l sz"
      "km_limits k2 = km_limits k"
    by (simp_all add: commit_current_def commit_granted_def commit_limit_def P(4))
  obtain ok' k3 where K: "limit_op ResourceLimit_Release RL_Commit sz ?p2 (upd_region i r2 k1) = Some (ok', k3)"
      "km_regions k3 = (km_regions k1)[i := r2]"
      "if commit_granted k l sz then km_limits k3 = km_limits k
       else if sint sz \<le> commit_current k l then commit_current k3 l = commit_current k l - sint sz
       else km_limits k3 = km_limits k"
    using limit_round_trip [OF P7 lim(1), of ?p2 "upd_region i r2 k1"] lim snn
    unfolding cc by (auto simp: P(6))
  have lf: "Process_LinearFree ops t sz (p1, k1) = Some (Inr (), ?p2, k3)"
    using range sz(2) U(1) mk K(1) vm1
    by (simp add: Process_LinearFree_def b reg1 A1 off R(4) Let_def)
  have "process_region ?p2 k3 = Some (i, r2)"
    using i by (simp add: process_region_def P(6) K(2) regs)
  moreover have "GetPtr ref + of_nat (x - unat t) =
      hb_ptr (fcram_mem (phys env)) + of_nat (x - unat ?A)" if "unat t \<le> x" for x
  proof -
    have "x - unat ?A = unat a + (x - unat t)" using that ut by simp
    then show ?thesis by (simp add: F(3))
  qed
  ultimately show ?thesis
    using lf U(2) M(3) R(5-7) K(3)
    by (intro exI [of _ ?p2] exI [of _ k3] exI [of _ r2]) (simp add: P(6))
qed
lemma map_protected_ok:
  assumes wf: "vm_wf (km_marker k) H vm" and unlocked: "\<not> vm_locked vm"
    and al: "page_aligned t" "page_aligned sz"
    and fit: "0 < unat sz" "unat t + unat sz < 2 ^ 32"
    and ref: "ref_covers memory (unat sz)" "the (backing_mem memory) \<in> H"
    and room: "free_room vm t sz"
  shows "\<exists>vm'. map_protected k t memory sz state Perm_ReadWrite vm = Some vm'"
proof -
  obtain i w v where w: "MapBackingMemory (km_marker k) vm t memory sz state = Some (Inr (i, w))"
      "vm_wf (km_marker k) H w" "\<not> vm_locked w" "vma_at w i = Some v"
      "kind v = (VMA_BackingMemory, Perm_ReadWrite, state)"
    using MapBackingMemory_ok [OF wf unlocked al fit ref room, of state] by blast
  have "permissions v = Perm_ReadWrite" using w(5) by (simp add: kind_def)
  from reprotect_same [OF w(2-4) this] show ?thesis using w(1) by (auto simp: map_protected_def)
qed

definition limit_usable :: "('s, 'g) kmem \<Rightarrow> nat \<Rightarrow> u32 \<Rightarrow> bool" where
  "limit_usable k l sz \<longleftrightarrow> l < length (km_limits k) \<and>
     1 < length (m_current_values (km_limits k ! l)) \<and> 1 < length (m_limit_values (km_limits k ! l)) \<and>
     0 \<le> commit_current k l \<and> commit_current k l + sint sz < 2 ^ 31"

lemma LinearAllocate_ok:
  assumes ops: "icl_ok ops" and reg: "process_region p k = Some (i, r)" and rwf: "region_wf ops r"
    and inside: "unat (base r) + unat (region_size r) \<le> 0x10000000"
    and vm: "vm_wf (km_marker k) H (vm_of p)" "\<not> vm_locked (vm_of p)" and f: "fcram_ok H env"
    and sz: "page_aligned sz" "0 < sz"
    and lim: "process_limit p = Some l" "limit_usable k l sz"
    and alloc: "Region_LinearAllocate ops r sz = Some (Some a, r1)"
    and t: "t = a + GetLinearHeapAreaAddress p" "page_aligned t" "free_room (vm_of p) t sz"
  shows "\<exists>p1 k1. Process_LinearAllocate ops env 0 sz Perm_ReadWrite (p, k) = Some (Inr t, p1, k1)"
proof -
  have pos: "0 < unat sz" using sz(2) by (simp add: word_less_nat_alt)
  have "{unat a..<unat a + unat sz} \<subseteq> free_points ops r"
    using linear_allocate_free [OF ops rwf sz(2) alloc] by simp
  then have "{unat a..<unat a + unat sz} \<subseteq> {unat (base r)..<unat (base r) + unat (region_size r)}"
    using rwf unfolding region_wf_def region_points_def by blast
  then have bnd: "unat a + unat sz \<le> 0x10000000" using pos inside by simp
  have "(ucast a :: u64) \<le> ucast FCRAM_N3DS_SIZE"
    using bnd by (simp add: word_le_nat_alt)
  moreover have "(ucast a :: u64) \<le> hb_size (fcram_mem (phys env))"
    using bnd f by (simp add: word_le_nat_alt fcram_ok_def Let_def)
  ultimately obtain ref where ref: "GetFCRAMRef env (ucast a) = Some ref"
    by (simp add: GetFCRAMRef_def MemoryRef_at_def)
  note F = fcram_ref [OF f ref bnd]
  let ?k = "fill_zero (GetPtr ref) (GetPtr ref + ucast sz) (upd_region i r1 k)"
  have "unat t = unat a + unat (GetLinearHeapAreaAddress p)"
    unfolding t(1) using bnd linear_area(2) [of p] by (intro unat_plus_fits) simp
  then have fit: "unat t + unat sz < 2 ^ 32" using bnd linear_area(2) [of p] by simp
  have wf: "vm_wf (km_marker ?k) H (vm_of p)" using vm(1) by simp
  obtain vm' where m: "map_protected ?k t ref sz MS_Continuous Perm_ReadWrite (vm_of p) = Some vm'"
    using map_protected_ok [OF wf vm(2) t(2) sz(1) pos fit F(1,2) t(3)] by blast
  let ?p = "p\<lparr>vm_of := vm', holding_memory := icl_add ops (holding_memory p) (Interval a (a + sz)),
    memory_used := memory_used p + sz\<rparr>"
  have "0 \<le> sint sz" using bnd sint_s32_small [of sz] by simp
  then have "\<exists>ok k1. limit_op Reserve RL_Commit sz ?p ?k = Some (ok, k1)"
    using lim
    by (auto simp: limit_op_def Reserve_def limit_usable_def commit_current_def array_get_def
        array_set_def s32_add_def)
  then show ?thesis
    using reg alloc ref m t(1)
    by (auto simp: Process_LinearAllocate_def linear_map_def Let_def)
qed

section \<open>Thread-local storage\<close>

definition tls_used :: "'s process \<Rightarrow> nat \<Rightarrow> nat \<Rightarrow> bool" where
  "tls_used p page slot \<longleftrightarrow> page < length (tls_slots p) \<and> slot < 8 \<and> tls_slots p ! page ! slot"

lemma find_tls_slot_Some:
  assumes "find_tls_slot ts n = Some (page, slot)"
  shows "n \<le> page \<and> page - n < length ts \<and> slot < length (ts ! (page - n)) \<and> \<not> ts ! (page - n) ! slot"
  using assms
proof (induction ts arbitrary: n)
  case (Cons s ts)
  show ?case
  proof (cases "list_all (\<lambda>b. b) s")
    case True
    with Cons show ?thesis by (fastforce simp: Suc_diff_le Suc_le_eq nth_Cons')
  next
    case False
    then have "takeWhile (\<lambda>b. b) s \<noteq> s" by (metis list.pred_set set_takeWhileD)
    then have "length (takeWhile (\<lambda>b. b) s) < length s"
      by (metis length_takeWhile_le nat_less_le takeWhile_eq_take take_all_iff order_refl)
    with False Cons.prems show ?thesis
      using nth_length_takeWhile [of "\<lambda>b. b" s] by auto
  qed
qed simp

lemma tls_address_unat:
  assumes "page \<le> 0xE0000" and "slot < 8"
  shows "unat (tls_address page slot) = 0x1FF82000 + page * 0x1000 + slot * 0x200"
proof -
  have n: "0x1FF82000 + page * 0x1000 + slot * 0x200 < 2 ^ 32" using assms by simp
  have "tls_address page slot = of_nat (0x1FF82000 + page * 0x1000 + slot * 0x200)"
    by (simp add: tls_address_def)
  then show ?thesis
    using n by (simp only: unsigned_of_nat) (simp add: take_bit_nat_eq_self)
qed

lemma new_tls_page_slots:
  assumes "new_tls_page ops env (p, k) = Some (Inr page, p', k')"
  shows "page = length (tls_slots p) \<and> tls_slots p' = tls_slots p @ [replicate 8 False]"
  using assms
  by (simp add: new_tls_page_def Let_def region_index_def split: bind_splits option.splits prod.splits) auto

lemma TLS_new_page:
  assumes al: "AllocateThreadLocalStorage ops env (p, k) = Some (Inr address, p1, k1)"
    and none: "find_tls_slot (tls_slots p) 0 = None"
  obtains p' k' where "new_tls_page ops env (p, k) = Some (Inr (length (tls_slots p)), p', k')"
    "tls_slots p' = tls_slots p @ [replicate 8 False]"
    "address = tls_address (length (tls_slots p)) 0"
    "tls_slots p1 = (tls_slots p')[length (tls_slots p) :=
      (tls_slots p' ! length (tls_slots p))[0 := True]]"
proof (cases "new_tls_page ops env (p, k)")
  case None
  then show ?thesis using al none by (simp add: AllocateThreadLocalStorage_def)
next
  case (Some x)
  obtain r p' k' where x: "x = (r, p', k')" by (cases x)
  show ?thesis
  proof (cases r)
    case (Inl e)
    then show ?thesis using al none Some x by (simp add: AllocateThreadLocalStorage_def)
  next
    case (Inr page)
    note n = new_tls_page_slots [OF Some [unfolded x Inr]]
    obtain m where "ZeroBlock env (vm_page_table (vm_of p')) address (unat TLS_ENTRY_SIZE) (km_machine k') = Some m"
        "address = tls_address page 0" "tls_slots p1 = (tls_slots p')[page := (tls_slots p' ! page)[0 := True]]"
      using al none Some x Inr by (auto simp: AllocateThreadLocalStorage_def Let_def split: bind_splits)
    then show ?thesis using that Some x Inr n by simp
  qed
qed

lemma AllocateThreadLocalStorage_slot:
  assumes al: "AllocateThreadLocalStorage ops env (p, k) = Some (Inr address, p1, k1)"
    and eight: "\<forall>s \<in> set (tls_slots p). length s = 8"
  shows "\<exists>page slot. address = tls_address page slot \<and> slot < 8 \<and> page \<le> length (tls_slots p) \<and>
    \<not> tls_used p page slot \<and> (\<forall>s \<in> set (tls_slots p1). length s = 8) \<and>
    (\<forall>i j. tls_used p1 i j \<longleftrightarrow> tls_used p i j \<or> i = page \<and> j = slot)"
proof (cases "find_tls_slot (tls_slots p) 0")
  case (Some ps)
  obtain page slot where ps: "ps = (page, slot)" by (cases ps)
  with Some find_tls_slot_Some [of "tls_slots p" 0 page slot]
  have f: "page < length (tls_slots p)" "slot < length (tls_slots p ! page)"
    "\<not> tls_slots p ! page ! slot" by simp_all
  have a: "address = tls_address page slot"
    "tls_slots p1 = (tls_slots p)[page := (tls_slots p ! page)[slot := True]]"
    using al Some ps by (auto simp: AllocateThreadLocalStorage_def Let_def split: bind_splits)
  have e: "length (tls_slots p ! page) = 8" using eight f(1) by simp
  have "length s = 8" if "s \<in> set (tls_slots p1)" for s
    using that eight e f(1) unfolding a(2) by (auto dest!: set_update_subset_insert [THEN subsetD])
  then show ?thesis
    using a f e
    by (intro exI [of _ page] exI [of _ slot]) (auto simp: tls_used_def nth_upd)
next
  case None
  let ?page = "length (tls_slots p)"
  obtain p' k' where n: "new_tls_page ops env (p, k) = Some (Inr ?page, p', k')"
      "tls_slots p' = tls_slots p @ [replicate 8 False]"
    and a: "address = tls_address ?page 0"
      "tls_slots p1 = (tls_slots p')[?page := (tls_slots p' ! ?page)[0 := True]]"
    by (rule TLS_new_page [OF al None])
  have s: "tls_slots p1 = tls_slots p @ [(replicate 8 False)[0 := True]]"
    by (simp add: a(2) n(2))
  have z: "((replicate 8 False)[0 := True]) ! j \<longleftrightarrow> j = 0" if "j < 8" for j
    using that by (simp add: nth_upd)
  show ?thesis
    using a(1) eight z
    by (intro exI [of _ ?page] exI [of _ 0]) (auto simp: tls_used_def s nth_append)
qed

text \<open>thread-local storage hands out each slot once. A successful allocation returns the address
  of a slot that was free, marks that slot and no other, and its 0x200 bytes overlap those of no
  slot in use.\<close>

theorem tls_slots_disjoint:
  assumes "AllocateThreadLocalStorage ops env (p, k) = Some (Inr address, p1, k1)"
    and "\<forall>s \<in> set (tls_slots p). length s = 8" and "length (tls_slots p) \<le> 0xE0000"
  shows "\<exists>page slot. address = tls_address page slot \<and> \<not> tls_used p page slot \<and>
    (\<forall>i j. tls_used p1 i j \<longleftrightarrow> tls_used p i j \<or> i = page \<and> j = slot) \<and>
    (\<forall>i j. tls_used p i j \<longrightarrow> unat address + 0x200 \<le> unat (tls_address i j) \<or>
      unat (tls_address i j) + 0x200 \<le> unat address) \<and>
    (\<forall>s \<in> set (tls_slots p1). length s = 8)"
proof -
  obtain page slot where s: "address = tls_address page slot" "slot < 8" "page \<le> length (tls_slots p)"
      "\<not> tls_used p page slot" "\<forall>s \<in> set (tls_slots p1). length s = 8"
      "\<forall>i j. tls_used p1 i j \<longleftrightarrow> tls_used p i j \<or> i = page \<and> j = slot"
    using AllocateThreadLocalStorage_slot [OF assms(1,2)] by blast
  have u: "unat address = 0x1FF82000 + page * 0x1000 + slot * 0x200"
    using tls_address_unat s assms(3) by simp
  have "unat address + 0x200 \<le> unat (tls_address i j) \<or> unat (tls_address i j) + 0x200 \<le> unat address"
    if used: "tls_used p i j" for i j
  proof -
    have ij: "i < length (tls_slots p)" "j < 8" using used by (simp_all add: tls_used_def)
    then have v: "unat (tls_address i j) = 0x1FF82000 + i * 0x1000 + j * 0x200"
      using tls_address_unat assms(3) by simp
    have "(i, j) \<noteq> (page, slot)" using used s(4) by auto
    then consider "i < page" | "page < i" | "i = page" "j < slot" | "i = page" "slot < j" by fastforce
    then show ?thesis using u v ij(2) s(2) by cases auto
  qed
  then show ?thesis using s by blast
qed
section \<open>Kernel capabilities\<close>

text \<open>A descriptor of 24 syscalls, and the bits of it that the code writes: those up to the highest
  one that is set.\<close>

definition syscall_descriptor :: "u32 \<Rightarrow> bool" where
  "syscall_descriptor d \<longleftrightarrow> drop_bit 20 d AND 0xF80 = 0xF00"

definition first_syscall :: "u32 \<Rightarrow> nat" where
  "first_syscall d = unat (drop_bit 24 d AND 7) * 24"

definition listed_bits :: "u32 \<Rightarrow> nat" where
  "listed_bits d = unat (d AND 0xFFFFFF)"

definition syscall_covered :: "u32 \<Rightarrow> nat \<Rightarrow> bool" where
  "syscall_covered d n \<longleftrightarrow> syscall_descriptor d \<and> first_syscall d \<le> n \<and>
     2 ^ (n - first_syscall d) \<le> listed_bits d"

definition syscall_listed :: "u32 \<Rightarrow> nat \<Rightarrow> bool" where
  "syscall_listed d n \<longleftrightarrow> syscall_descriptor d \<and> first_syscall d \<le> n \<and>
     odd (listed_bits d div 2 ^ (n - first_syscall d))"

lemma set_svc_bits_nth:
  assumes "n < length bs" and "bits < 2 ^ fuel"
  shows "set_svc_bits fuel i bits bs ! n =
    (if i \<le> n \<and> 2 ^ (n - i) \<le> bits then odd (bits div 2 ^ (n - i)) else bs ! n)"
  using assms
proof (induction fuel arbitrary: i bits bs)
  case (Suc fuel)
  have b: "bits div 2 < 2 ^ fuel" using Suc.prems(2) by (simp add: less_mult_imp_div_less)
  show ?case
  proof (cases "bits \<noteq> 0 \<and> i < length bs")
    case True
    have n: "n < length (bs[i := odd bits])" using Suc.prems(1) by simp
    consider "n < i" | "n = i" | m where "n = Suc (i + m)" by (metis less_imp_Suc_add not_less_iff_gr_or_eq)
    then show ?thesis
    proof cases
      case 3
      have "bits div 2 div 2 ^ m = bits div 2 ^ Suc m" by (simp add: div_mult2_eq)
      moreover have "2 ^ m \<le> bits div 2 \<longleftrightarrow> 2 ^ Suc m \<le> bits"
        by (simp add: less_eq_div_iff_mult_less_eq mult.commute)
      ultimately show ?thesis using True Suc.IH [OF n b, of "Suc i"] 3 by (simp add: Suc_diff_le)
    qed (use True Suc.IH [OF n b, of "Suc i"] Suc.prems in \<open>auto simp: Suc_le_eq\<close>)
  qed (use Suc.prems in auto)
qed simp

lemma set_svc_bits_length [simp]: "length (set_svc_bits fuel i bits bs) = length bs"
  by (induction fuel arbitrary: i bits bs) auto

lemma not_syscall_descriptor:
  "drop_bit 20 d AND 0xF00 = 0xE00 \<Longrightarrow> \<not> syscall_descriptor d"
  "drop_bit 20 d AND 0xFFE = 0xFF8 \<Longrightarrow> \<not> syscall_descriptor d"
  "\<not> syscall_descriptor 0xFFFFFFFF"
proof -
  have "(w AND 0xF80) AND 0xF00 = w AND 0xF00" "(w AND 0xFFE) AND 0xF80 = w AND 0xF80" for w :: u32
    by (simp_all add: and.assoc)
  from this [of "drop_bit 20 d"]
  show "drop_bit 20 d AND 0xF00 = 0xE00 \<Longrightarrow> \<not> syscall_descriptor d"
    "drop_bit 20 d AND 0xFFE = 0xFF8 \<Longrightarrow> \<not> syscall_descriptor d"
    by (auto simp: syscall_descriptor_def)
qed (simp add: syscall_descriptor_def)

text \<open>What one descriptor does to the permission of syscall \<open>n\<close>: the last one that covers it decides.\<close>

definition grant :: "nat \<Rightarrow> u32 \<Rightarrow> bool \<Rightarrow> bool" where
  "grant n d b = (if syscall_covered d n then syscall_listed d n else b)"

lemma grant_other [simp]: "\<not> syscall_descriptor d \<Longrightarrow> grant n d b = b"
  by (simp add: grant_def syscall_covered_def)

lemma push_mapping_mask:
  "push_mapping m p = Some q \<Longrightarrow> svc_access_mask q = svc_access_mask p"
  by (auto simp: push_mapping_def split: bind_splits)

lemma listed_bits_less: "listed_bits d < 2 ^ svc_mask_fuel"
proof -
  have "d AND 0xFFFFFF = take_bit 24 d" by (simp add: take_bit_eq_mask mask_eq_exp_minus_1)
  then have "listed_bits d = take_bit 24 (unat d)" by (simp add: listed_bits_def unsigned_take_bit_eq)
  then show ?thesis using take_bit_nat_less_exp [of 24 "unat d"] by (simp add: svc_mask_fuel_def)
qed

text \<open>One step of the parser: where it goes on and what it did to the mask.\<close>

definition caps_step :: "u32 \<Rightarrow> u32 list \<Rightarrow> 's process \<Rightarrow> u32 list \<Rightarrow> 's process \<Rightarrow> bool" where
  "caps_step d caps p caps' q \<longleftrightarrow>
     (caps' = caps \<or> (\<exists>e. caps = e # caps' \<and> \<not> syscall_descriptor e)) \<and>
     svc_access_mask q =
       (if syscall_descriptor d
        then set_svc_bits svc_mask_fuel (first_syscall d) (listed_bits d) (svc_access_mask p)
        else svc_access_mask p)"

lemma caps_stepI:
  assumes "\<not> syscall_descriptor d" and "svc_access_mask q = svc_access_mask p"
    and "ParseKernelCaps caps q = Some p'"
  shows "\<exists>caps' q. caps_step d caps p caps' q \<and> ParseKernelCaps caps' q = Some p'"
  using assms unfolding caps_step_def by metis

lemma if_cases:
  "(if c then x else y) = z \<Longrightarrow> (c \<Longrightarrow> x = z \<Longrightarrow> thesis) \<Longrightarrow> (\<not> c \<Longrightarrow> y = z \<Longrightarrow> thesis) \<Longrightarrow> thesis"
  by (auto split: if_splits)

lemma ParseKernelCaps_step:
  assumes "ParseKernelCaps (d # caps) p = Some p'"
  shows "\<exists>caps' q. caps_step d caps p caps' q \<and> ParseKernelCaps caps' q = Some p'"
proof -
  note D = not_syscall_descriptor
  have svc: "drop_bit 20 d AND 0xF80 \<noteq> 0xF00 \<Longrightarrow> \<not> syscall_descriptor d"
    by (simp add: syscall_descriptor_def)
  show ?thesis
    using assms unfolding ParseKernelCaps.simps Let_def
  proof (elim if_cases, goal_cases)
    case 1
    then show ?case using D(3) by (intro caps_stepI [of d p p]) simp_all
  next
    case 2
    then show ?case using D(1) by (intro caps_stepI [of d p p]) simp_all
  next
    case 3
    then show ?case
      by (intro exI conjI) (auto simp: caps_step_def syscall_descriptor_def first_syscall_def listed_bits_def)
  next
    case 4
    then show ?case using svc by (elim caps_stepI [rotated 2]) simp_all
  next
    case 5
    then show ?case using svc by (elim caps_stepI [rotated 2]) simp_all
  next
    case 6
    note s = svc [OF 6(3)]
    from 6(7) show ?case
    proof (cases caps)
      case Nil
      then show ?thesis using 6(7) s by (intro caps_stepI [of d p p]) simp_all
    next
      case (Cons e rest)
      show ?thesis
      proof (cases "drop_bit 20 e AND 0xFFE = 0xFF8")
        case False
        then show ?thesis using 6(7) s Cons by (intro caps_stepI [of d p p]) simp_all
      next
        case True
        then show ?thesis using 6(7) s Cons D(2) [OF True]
          by (auto simp: caps_step_def split: bind_splits dest: push_mapping_mask intro!: exI [of _ rest])
      qed
    qed
  next
    case 7
    note s = svc [OF 7(3)]
    from 7(8) obtain q where "ParseKernelCaps caps q = Some p'" "svc_access_mask q = svc_access_mask p"
      by (auto split: bind_splits dest: push_mapping_mask)
    then show ?case using s by (intro caps_stepI [of d q p]) simp_all
  next
    case 8
    then show ?case using svc by (elim caps_stepI [rotated 2]) simp_all
  next
    case 9
    then show ?case using svc by (intro caps_stepI [of d p p]) simp_all
  qed
qed

lemma ParseKernelCaps_mask:
  assumes "ParseKernelCaps caps p = Some p'" and "n < length (svc_access_mask p)"
  shows "length (svc_access_mask p') = length (svc_access_mask p) \<and>
    svc_access_mask p' ! n = fold (grant n) caps (svc_access_mask p ! n)"
  using assms
proof (induction caps arbitrary: p rule: length_induct)
  case (1 caps)
  show ?case
  proof (cases caps)
    case (Cons d rest)
    obtain caps' q where q: "caps_step d rest p caps' q" "ParseKernelCaps caps' q = Some p'"
      using ParseKernelCaps_step 1(2) Cons by blast
    then have len: "length caps' < length caps" "length (svc_access_mask q) = length (svc_access_mask p)"
      using Cons by (auto simp: caps_step_def)
    have f: "fold (grant n) rest b = fold (grant n) caps' b" for b
      using q(1) by (auto simp: caps_step_def)
    have "svc_access_mask q ! n = grant n d (svc_access_mask p ! n)"
      using q(1) set_svc_bits_nth [OF 1(3) listed_bits_less]
      by (auto simp: caps_step_def grant_def syscall_covered_def syscall_listed_def)
    then show ?thesis using 1(1) len q(2) 1(3) f Cons by simp
  qed (use 1 in simp)
qed

text \<open>the syscall mask a process gets is exactly what its descriptors list: for every syscall the
  last descriptor that covers it decides (a descriptor covers its group of 24 up to its highest set
  bit), so that a syscall no descriptor lists is allowed only if it was before.\<close>

theorem kernel_caps_syscalls:
  assumes "ParseKernelCaps caps p = Some p'" and "n < length (svc_access_mask p)"
  shows "svc_access_mask p' ! n = fold (grant n) caps (svc_access_mask p ! n) \<and>
    (svc_access_mask p' ! n \<longrightarrow> svc_access_mask p ! n \<or> (\<exists>d \<in> set caps. syscall_listed d n))"
proof -
  have m: "svc_access_mask p' ! n = fold (grant n) caps (svc_access_mask p ! n)"
    using ParseKernelCaps_mask [OF assms] by simp
  have "fold (grant n) ds b \<Longrightarrow> b \<or> (\<exists>d \<in> set ds. syscall_listed d n)" for ds b
    by (induction ds arbitrary: b) (auto simp: grant_def split: if_splits)
  with m show ?thesis by blast
qed
section \<open>The properties at concrete inputs\<close>

definition example_process :: "interval list process" where
  "example_process = (fst (CreateProcess list_icl example_vm 0 0))
     \<lparr>memory_region_of := Some 0, process_limit := Some 0, kernel_version := 0x22C,
      tls_slots := [[True, False, False, False, False, False, False, False]]\<rparr>"

definition example_limit :: resource_limit where
  "example_limit = \<lparr>m_name = [], m_limit_values = replicate 10 0x800, m_current_values = replicate 10 0x1400\<rparr>"

definition example_kmem :: "(interval list, unit) kmem" where
  "example_kmem = \<lparr>km_regions = [example_region, example_region, example_region],
     km_limits = [example_limit], km_machine = example_machine, km_marker = (\<lambda>_. False)\<rparr>"

lemma example_fcram: "fcram_ok {fcram_mem example_bufs} example_env"
  by (simp add: fcram_ok_def example_env_def example_bufs_def)

lemma example_process_vm: "vm_wf (\<lambda>_. False) {fcram_mem example_bufs} example_vm"
proof -
  have s: "separated {fcram_mem example_bufs}" by (simp add: separated_def)
  have "pages_agree (\<lambda>_. False) [initial_vma] (vm_page_table example_vm)"
    by (auto simp: pages_agree_def view_Cons in_area_def initial_vma_def example_vm_def entry_of_def
        info_def)
  then show ?thesis
    using initial_areas [OF s] by (simp add: vm_wf_def example_vm_def)
qed


lemma tls_slots_disjoint_witness:
  "\<exists>address p1 k1. AllocateThreadLocalStorage list_icl example_env (example_process, example_kmem) =
       Some (Inr address, p1, k1) \<and> tls_used p1 0 0 \<and> address \<noteq> tls_address 0 0"
proof -
  have slots: "tls_slots example_process = [[True, False, False, False, False, False, False, False]]"
    by (simp add: example_process_def)
  have pages: "attributes (vm_page_table (vm_of example_process)) page = Unmapped" for page
    by (simp add: example_process_def CreateProcess_def example_vm_def)
  have "ZeroBlock example_env (vm_page_table (vm_of example_process)) 0x1FF82200 0x200 m = Some m" for m
    by (simp add: ZeroBlock_def block_loop_start page_loop.simps zero_step_def pages Let_def)
  then obtain p1 k1 where a: "AllocateThreadLocalStorage list_icl example_env (example_process, example_kmem) =
      Some (Inr 0x1FF82200, p1, k1)"
    by (simp add: AllocateThreadLocalStorage_def slots tls_address_def Let_def)
  have u: "tls_used example_process 0 0" by (simp add: tls_used_def slots)
  show ?thesis
    using tls_slots_disjoint [OF a] u a slots by fastforce
qed

lemma kernel_caps_syscalls_witness:
  "\<exists>p'. ParseKernelCaps [0xF0000006, 0xFFFFFFFF] (fst (CreateProcess list_icl example_vm 0 0)) = Some p' \<and>
     svc_access_mask p' ! 1 \<and> \<not> svc_access_mask p' ! 3"
proof -
  obtain p' where p: "ParseKernelCaps [0xF0000006, 0xFFFFFFFF]
      (fst (CreateProcess list_icl example_vm 0 0)) = Some p'" by simp
  let ?m = "svc_access_mask (fst (CreateProcess list_icl example_vm 0 0))"
  have m: "length ?m = 0x80" "\<not> ?m ! 1" "\<not> ?m ! 3" by (simp_all add: CreateProcess_def)
  have "svc_access_mask p' ! 1" "\<not> svc_access_mask p' ! 3"
    using kernel_caps_syscalls [OF p, of 1, THEN conjunct1] kernel_caps_syscalls [OF p, of 3, THEN conjunct1] m
    by (simp_all add: grant_def syscall_covered_def syscall_listed_def syscall_descriptor_def
        first_syscall_def listed_bits_def)
  with p show ?thesis by blast
qed

end
