(* ===== verification/KernelProperties.thy ===== *)
theory KernelProperties
  imports KernelMachine ArbiterProofs ProcessMemory
begin

text \<open>What the kernel's threads and synchronization objects guarantee, with a small kernel on which
  each guarantee is exercised: a thread that runs and two that wait for one object.\<close>

section \<open>A small kernel\<close>

definition example_runner :: "nat list \<Rightarrow> nat \<Rightarrow> thread" where
  "example_runner held p = (new_thread 1 0x100000 48 0x10000000 0 0 0)
     \<lparr>status := Running, current_priority := p, held_mutexes := held\<rparr>"

definition example_waiter :: "u32 \<Rightarrow> nat \<Rightarrow> thread" where
  "example_waiter tid p = (new_thread tid 0x100000 p 0x10000000 0 0 0)
     \<lparr>status := WaitSynchAny, wait_objects := [RObj 10], wakeup_callback := Some (SyncCallback False)\<rparr>"

definition example_threads :: "nat list \<Rightarrow> nat \<Rightarrow> nat \<rightharpoonup> thread" where
  "example_threads held p = [1 \<mapsto> example_runner held p, 2 \<mapsto> example_waiter 2 30, 3 \<mapsto> example_waiter 3 20]"

definition example_queue :: "nat \<Rightarrow> nat tql" where
  "example_queue p = tql_prepare 20 (tql_prepare 30 (tql_prepare p (tql_new 64)))"

definition example_kernel ::
  "kobject \<Rightarrow> nat list \<Rightarrow> nat \<Rightarrow> (interval list, unit, unit) kernel" where
  "example_kernel ob held p =
     \<lparr>threads = example_threads held p, sync_objects = [10 \<mapsto> ob],
      waiting_threads = (\<lambda>r. if r = RObj 10 then [2, 3] else []), arbiter_threads = (\<lambda>_. []),
      managers = [\<lparr>current_thread = Some 1, ready_queue = example_queue p, unscheduled_ready_queue = [],
        wakeup_callback_table = Map.empty, thread_list = [1, 2, 3]\<rparr>],
      cpus = [\<lparr>cpu_context = initial_context, cp15_uro = 0, cpu_pages = None\<rparr>], current_cpu = 0,
      current_process = Some 0, stored_processes = [Some 0], memory_pages = None, next_thread_id = 4,
      next_timer_callback_id = 0, timer_callback_table = Map.empty, reschedule_pending = False,
      timing_of = \<lparr>event_types = Map.empty, timers = [Timer_new 0], current_timer = 0, event_queue_locked = False\<rparr>,
      processes = [0 \<mapsto> example_process], process_list = [0], kernel_memory = example_kmem, sessions = Map.empty,
      client_ports = Map.empty, client_sessions = Map.empty, named_ports = Map.empty,
      shared_memories = Map.empty, outside = ()\<rparr>"

definition example_kenv :: "(interval list, unit, unit) kenv" where
  "example_kenv = \<lparr>other_wakeup = (\<lambda>_ _ _ _ k. Some k), hle_notifier = (\<lambda>_ k. Some k)\<rparr>"

definition example_event :: "ResetType \<Rightarrow> kobject" where
  "example_event ty = KEvent \<lparr>event_reset_type = ty, event_signaled = False\<rparr>"

definition example_mutex :: "nat \<Rightarrow> kobject" where
  "example_mutex p = KMutex \<lparr>lock_count = 1, mutex_priority = p, holding_thread = Some 1\<rparr>"

lemma example_kenv_ok: "quiet_env example_kenv" "responsive example_kenv"
  by (simp_all add: example_kenv_def quiet_env_def responsive_def quiet_step_def)

declare wakeup_loop.simps [code] pop_better_loop.simps [code] pop_any_loop.simps [code] scan_nonempty.simps [code] scan_better.simps [code]

lemma example_queue_ok:
  assumes "p \<le> 63"
  shows "queue_ok (example_threads held p) 0 (example_queue p)"
proof -
  have e: "tql_content (tql_new 64 :: nat tql) q = []" for q
    by (cases "q < 64") (simp_all add: tql_content_def tql_new_def empty_queue_def)
  have "queue_ok Map.empty 0 (tql_new 64)"
    using wf_new_queue [of 64] e by (intro queue_okI) (simp_all add: tql_levels_def tql_new_def)
  from queue_ok_new_thread [OF this, where t = 1 and th = "example_runner held p"] assms
  have "queue_ok [1 \<mapsto> example_runner held p] 0 (tql_prepare p (tql_new 64))"
    by (simp add: example_runner_def new_thread_def)
  from queue_ok_new_thread [OF this, where t = 2 and th = "example_waiter 2 30"]
  have "queue_ok [1 \<mapsto> example_runner held p, 2 \<mapsto> example_waiter 2 30] 0 (tql_prepare 30 (tql_prepare p (tql_new 64)))"
    by (simp add: example_waiter_def new_thread_def)
  from queue_ok_new_thread [OF this, where t = 3 and th = "example_waiter 3 20"]
  show ?thesis by (simp add: example_waiter_def new_thread_def example_threads_def example_queue_def)
qed

lemma example_threads_iff:
  "example_threads held p t = Some th \<longleftrightarrow> t = 1 \<and> th = example_runner held p \<or>
     t = 2 \<and> th = example_waiter 2 30 \<or> t = 3 \<and> th = example_waiter 3 20"
  by (auto simp: example_threads_def)

lemma example_sel [simp]:
  "threads (example_kernel ob held p) = example_threads held p"
  "sync_objects (example_kernel ob held p) = [10 \<mapsto> ob]"
  "waiting_threads (example_kernel ob held p) r = (if r = RObj 10 then [2, 3] else [])"
  "queues_of (example_kernel ob held p) = [example_queue p]"
  "length (managers (example_kernel ob held p)) = 1"
  "current_thread (managers (example_kernel ob held p) ! 0) = Some 1"
  "unscheduled_ready_queue (managers (example_kernel ob held p) ! 0) = []"
  "example_threads held p 1 = Some (example_runner held p)"
  by (simp_all add: example_kernel_def queues_of_def example_threads_def)

lemma example_ready_wait:
  assumes "p \<le> 63"
  shows "ready_ok (example_kernel ob held p)" and "wait_ok (example_kernel ob held p)"
    and "core_ok (example_kernel ob held p) 0"
proof -
  show "ready_ok (example_kernel ob held p)"
    using example_queue_ok [OF assms]
    by (auto simp: ready_ok_def example_threads_iff example_runner_def example_waiter_def new_thread_def)
  show "wait_ok (example_kernel ob held p)"
    by (auto simp: wait_ok_def example_threads_iff example_waiter_def example_runner_def new_thread_def
        waiting_status_def known_def)
  show "core_ok (example_kernel ob held p) 0"
    by (auto simp: core_ok_def example_threads_iff example_runner_def example_waiter_def new_thread_def)
qed

lemma example_plain_ok:
  assumes "p \<le> 63" and "\<And>m. ob \<noteq> KMutex m"
  shows "kernel_ok (example_kernel ob [] p)"
proof -
  have m: "mutex_of (example_kernel ob [] p) a = None" for a
    using assms(2) by (auto simp: mutex_of_def split: kobject.splits)
  then show ?thesis
    using example_ready_wait [OF assms(1)]
    by (auto simp: kernel_ok_def holders_ok_def counts_ok_def example_threads_iff example_runner_def
        example_waiter_def new_thread_def)
qed

lemma example_mutex_ok:
  assumes "p \<le> 63"
  shows "kernel_ok (example_kernel (example_mutex p) [10] p)"
proof -
  have m: "mutex_of (example_kernel (example_mutex p) [10] p) a = Some m \<longleftrightarrow> a = 10 \<and>
      m = \<lparr>lock_count = 1, mutex_priority = p, holding_thread = Some 1\<rparr>" for a m
    by (auto simp: mutex_of_def example_mutex_def)
  show ?thesis
    using example_ready_wait [OF assms]
    by (auto simp: kernel_ok_def holders_ok_def counts_ok_def example_threads_iff example_runner_def
        example_waiter_def new_thread_def m)
qed

lemma example_simple_waiters: "simple_waiters (example_kernel ob held p) r"
  by (auto simp: simple_waiters_def example_threads_def example_waiter_def simple_waiter_def
      waiting_status_def new_thread_def)
section \<open>The machine\<close>

definition example_handles :: "kref handle_table" where
  "example_handles = (case HandleTable_Create HandleTable_new (HWait (RObj 10)) of Inr (h, t) \<Rightarrow> t | _ \<Rightarrow> HandleTable_new)"

lemma example_handles_objects: "objects example_handles n = Some ob \<Longrightarrow> ob = HWait (RObj 10)"
  by (auto simp: example_handles_def HandleTable_Create_def HandleTable_new_def HandleTable_Clear_def Let_def
      MAX_COUNT_def split: if_splits)

lemma example_machine_ok:
  assumes "kernel_ok (example_kernel ob held p)" and "p \<le> 63"
  shows "machine_ok (example_kernel ob held p, example_handles)"
  using assms example_ready_wait(3) [OF assms(2)]
  by (auto simp: machine_ok_def refs_ok_def known_def dest: example_handles_objects)

text \<open>The handle 1 of the table is the object at address 10.\<close>

lemma example_signal_runs:
  "case do {
     (res, s) \<leftarrow> svc_SignalEvent example_kenv 1 (example_kernel (example_event Sticky) [] 48, example_handles);
     k \<leftarrow> Reschedule 0 (fst s);
     Some (res, length (managers (fst s)), k)} of
     None \<Rightarrow> False
   | Some (res, n, k) \<Rightarrow> res = ResultSuccess \<and> n = 1 \<and> current_thread (managers k ! 0) = Some 3"
  by code_simp


section \<open>The scheduler\<close>

lemma example_signalled:
  "\<exists>(s :: (interval list, unit, unit) svc_state) k. machine_ok s \<and> length (managers (fst s)) = 1 \<and> Reschedule 0 (fst s) = Some k \<and>
     current_thread (managers k ! 0) = Some 3"
proof -
  let ?s = "(example_kernel (example_event Sticky) [] 48, example_handles)"
  obtain res s k where s: "svc_SignalEvent example_kenv 1 ?s = Some (res, s)"
      and k: "Reschedule 0 (fst s) = Some k" "current_thread (managers k ! 0) = Some 3" "length (managers (fst s)) = 1"
    using example_signal_runs by (auto split: option.splits bind_splits)
  have ok: "machine_ok ?s" by (rule example_machine_ok [OF example_plain_ok]) (simp_all add: example_event_def)
  have "kernel_step example_kenv example_env (\<lambda>_ x. x) ?s s" by (rule kernel_step.signal [OF s])
  then have "machine_ok s" by (rule kernel_step_ok [OF example_kenv_ok(1) _ ok])
  with k show ?thesis by blast
qed

text \<open>C2: After a reschedule the core runs a thread and no thread of that core that is ready and may
  be scheduled has a better priority; with nothing to run, no such thread is ready. The invariant
  holds again, on the other cores too.\<close>

theorem reschedule_runs_best:
  assumes "kernel_ok k" and "core_ok k core" and "Reschedule core k = Some k'"
  shows "kernel_ok k' \<and> core_ok k' core \<and> (\<forall>i. i \<noteq> core \<longrightarrow> core_ok k i \<longrightarrow> core_ok k' i) \<and>
    (case current_thread (managers k' ! core) of
       None \<Rightarrow> \<not> (\<exists>u x. threads k' u = Some x \<and> status x = Ready \<and> core_id x = core \<and> can_schedule x \<and>
         current_priority x < 64)
     | Some t \<Rightarrow> \<exists>th. threads k' t = Some th \<and> status th = Running \<and>
         (\<forall>u x. threads k' u = Some x \<longrightarrow> status x = Ready \<longrightarrow> core_id x = core \<longrightarrow> can_schedule x \<longrightarrow>
            current_priority th \<le> current_priority x))"
  using Reschedule_spec [OF assms]
  by (auto simp: runs_best_def best_for_def running_on_def ready_on_def not_less split: option.splits)

lemma reschedule_runs_best_witness:
  "\<exists>(k :: (interval list, unit, unit) kernel) k'. kernel_ok k \<and> core_ok k 0 \<and> Reschedule 0 k = Some k' \<and>
     current_thread (managers k' ! 0) = Some 3 \<and> core_ok k' 0 \<and>
     (\<exists>th. threads k' 3 = Some th \<and> status th = Running)"
proof -
  obtain s :: "(interval list, unit, unit) svc_state" and k where s: "machine_ok s" "length (managers (fst s)) = 1"
      "Reschedule 0 (fst s) = Some k" "current_thread (managers k ! 0) = Some 3"
    using example_signalled by blast
  have ok: "kernel_ok (fst s)" "core_ok (fst s) 0" using s(1,2) by (simp_all add: machine_ok_def)
  from reschedule_runs_best [OF ok s(3)] s ok show ?thesis by auto
qed
section \<open>Synchronization objects\<close>

lemma example_min_waiter: "min_waiter (example_kernel ob held p) [2, 3] = Some 3"
  by (simp add: example_threads_def example_waiter_def new_thread_def)

lemma awake_iff: "map_option awake (threads k t) = Some w \<longleftrightarrow> (\<exists>th. threads k t = Some th \<and> awake th = w)"
  by auto

lemma woken_set_ready:
  assumes "woken_set W k k'" and "t \<in> W" and "threads k t \<noteq> None"
  shows "\<exists>th. threads k' t = Some th \<and> status th = Ready"
  using assms by (cases "threads k' t") (auto simp: woken_set_def awake_def view_def dest!: spec [of _ t])





definition example_semaphore :: kobject where
  "example_semaphore = KSemaphore \<lparr>max_count = 5, available_count = 0\<rparr>"

section \<open>Priority inheritance\<close>

lemma best_waiter_priority_Min:
  assumes "\<forall>t \<in> set ts. threads k t \<noteq> None"
  shows "best_waiter_priority k ts b = Some (Min (insert b (prio k ` set ts)))"
  using assms
proof (induction ts arbitrary: b)
  case (Cons t ts)
  then obtain th where t: "threads k t = Some th" by auto
  have "best_waiter_priority k (t # ts) b =
      Some (Min (insert (if prio k t < b then prio k t else b) (prio k ` set ts)))"
    using Cons by (simp add: prio_def t)
  then show ?case using Min_insert_fold [of "prio k ` set ts" b "prio k t"] by simp
qed simp

lemma Mutex_UpdatePriority_spec:
  fixes k :: "('s, 'g, 'e) kernel"
  assumes k: "kernel_ok k" and m: "mutex_of k a = Some m" and h: "holding_thread m = Some t"
    and t: "threads k t = Some th" and inh: "current_priority th = inherited k th"
  shows "\<exists>k' th'. Mutex_UpdatePriority a k = Some k' \<and> kernel_ok k' \<and>
    prio_of k' a = Min (insert 63 (prio k ` set (waiting_threads k (RObj a)))) \<and>
    threads k' = (threads k)(t \<mapsto> th') \<and> current_priority th' = inherited k' th \<and>
    current_priority th' \<le> prio_of k' a \<and> nominal_priority th' = nominal_priority th \<and>
    held_mutexes th' = held_mutexes th"
proof -
  have inv: "ready_ok k" "wait_ok k" "holders_ok k" using k by (simp_all add: kernel_ok_def)
  let ?p = "Min (insert 63 (prio k ` set (waiting_threads k (RObj a))))"
  have "\<forall>u \<in> set (waiting_threads k (RObj a)). threads k u \<noteq> None"
    using inv(2) by (fastforce simp: wait_ok_def)
  then have best: "best_waiter_priority k (waiting_threads k (RObj a)) ThreadPrioLowest = Some ?p"
    by (rule best_waiter_priority_Min)
  obtain x where x: "threads k t = Some x" "a \<in> set (held_mutexes x)" using holders_okD(1) [OF inv(3) m h] by blast
  then have held: "a \<in> set (held_mutexes th)" using t by simp
  have le: "inherited k' th \<le> prio_of k' a" for k' :: "('s, 'g, 'e) kernel"
    using held by (auto simp: inherited_def intro: Min_le)
  show ?thesis
  proof (cases "?p = mutex_priority m")
    case True
    then have "Mutex_UpdatePriority a k = Some k" by (simp add: Mutex_UpdatePriority_def m h best)
    moreover have "prio_of k a = ?p" using True by (simp add: prio_of_def m)
    ultimately show ?thesis
      using k le [of k] inh t by (intro exI [of _ k] exI [of _ th]) (simp add: map_upd_triv)
  next
    case False
    let ?k = "set_object a (KMutex (m\<lparr>mutex_priority := ?p\<rparr>)) k"
    have "ready_ok ?k" using inv(1) ready_ok_cong [of ?k k] by simp
    moreover have "threads ?k t = Some th" using t by simp
    moreover have "\<forall>b \<in> set (held_mutexes th). mutex_of ?k b \<noteq> None"
      using holders_okD(2) [OF inv(3) t] by (fastforce simp: mutex_of_set_object)
    ultimately obtain k' where k': "Thread_UpdatePriority t ?k = Some k'" "ready_ok k'" "bare k' = bare ?k"
        "sync_objects k' = sync_objects ?k" "threads k' = (threads ?k)(t \<mapsto> th\<lparr>current_priority := inherited ?k th\<rparr>)"
      using Thread_UpdatePriority_ok by blast
    have r: "Mutex_UpdatePriority a k = Some k'"
      using False k'(1) by (simp add: Mutex_UpdatePriority_def m h best)
    have mu: "mutex_of k' = mutex_of ?k" using k'(4) by (auto simp: mutex_of_def fun_eq_iff)
    then have "prio_of k' = prio_of ?k" by (simp add: prio_of_def fun_eq_iff)
    then have "inherited ?k th = inherited k' th" "prio_of k' a = ?p"
      by (simp_all add: inherited_def prio_of_def mutex_of_set_object)
    moreover have "kernel_ok k'" using Mutex_UpdatePriority_safe [OF k r] by (simp add: safe_def)
    ultimately show ?thesis
      using r k'(5) le [of k'] by (intro exI [of _ k'] exI [of _ "th\<lparr>current_priority := inherited k' th\<rparr>"]) simp
  qed
qed
text \<open>C25: When the waiters of a mutex change, the mutex takes the best of their priorities and its
  holder the better of its own nominal priority and the priorities of all mutexes it holds: afterwards
  no waiter has a better priority than the holder.\<close>

theorem priority_inheritance:
  fixes k :: "('s, 'g, 'e) kernel"
  assumes k: "kernel_ok k" and m: "sync_objects k a = Some (KMutex m)" and h: "holding_thread m = Some t"
    and t: "threads k t = Some th" and inh: "current_priority th = inherited k th"
  shows "\<exists>k' th'. Mutex_UpdatePriority a k = Some k' \<and> kernel_ok k' \<and> threads k' = (threads k)(t \<mapsto> th') \<and>
    current_priority th' = inherited k' th' \<and>
    (\<forall>u \<in> set (waiting_threads k (RObj a)). \<forall>x. threads k u = Some x \<longrightarrow> current_priority th' \<le> current_priority x)"
proof -
  have mu: "mutex_of k a = Some m" using m by (simp add: mutex_of_def)
  let ?p = "Min (insert 63 (prio k ` set (waiting_threads k (RObj a))))"
  obtain k' th' where k': "Mutex_UpdatePriority a k = Some k'" "kernel_ok k'" "prio_of k' a = ?p"
      "threads k' = (threads k)(t \<mapsto> th')" "current_priority th' = inherited k' th"
      "current_priority th' \<le> prio_of k' a" "nominal_priority th' = nominal_priority th"
      "held_mutexes th' = held_mutexes th"
    using Mutex_UpdatePriority_spec [OF k mu h t inh] by blast
  have "current_priority th' \<le> current_priority x"
    if "u \<in> set (waiting_threads k (RObj a))" "threads k u = Some x" for u x
  proof -
    have "prio k u \<in> insert 63 (prio k ` set (waiting_threads k (RObj a)))" using that(1) by blast
    then have "?p \<le> prio k u" by (intro Min_le) simp_all
    then have "current_priority th' \<le> prio k u" using k'(3,6) by (simp only: order_trans)
    then show ?thesis by (simp add: prio_def that(2))
  qed
  moreover have "inherited k' th' = inherited k' th" using k'(7,8) by (simp add: inherited_def)
  ultimately show ?thesis using k'(1,2,4,5) by (intro exI [of _ k'] exI [of _ th']) simp
qed

lemma priority_inheritance_witness:
  "\<exists>k' th'. Mutex_UpdatePriority 10 (example_kernel (example_mutex 48) [10] 48) = Some k' \<and>
     threads k' 1 = Some th' \<and> current_priority th' \<le> 20"
proof -
  let ?k = "example_kernel (example_mutex 48) [10] 48"
  have ok: "kernel_ok ?k" by (rule example_mutex_ok) simp
  have m: "sync_objects ?k 10 = Some (KMutex \<lparr>lock_count = 1, mutex_priority = 48, holding_thread = Some 1\<rparr>)"
    by (simp add: example_mutex_def)
  have t: "threads ?k 1 = Some (example_runner [10] 48)" by (simp add: example_threads_def)
  have inh: "current_priority (example_runner [10] 48) = inherited ?k (example_runner [10] 48)"
    by (simp add: inherited_def example_runner_def new_thread_def prio_of_def mutex_of_def example_mutex_def)
  obtain k' th' where k': "Mutex_UpdatePriority 10 ?k = Some k'" "threads k' = (threads ?k)(1 \<mapsto> th')"
      "\<forall>u \<in> set (waiting_threads ?k (RObj 10)). \<forall>x. threads ?k u = Some x \<longrightarrow> current_priority th' \<le> current_priority x"
    using priority_inheritance [OF ok m _ t inh] by auto
  have "threads ?k 3 = Some (example_waiter 3 20)" by (simp add: example_threads_def)
  then have "current_priority th' \<le> current_priority (example_waiter 3 20)" using k'(3) by auto
  then show ?thesis using k'(1,2) by (auto simp: example_waiter_def new_thread_def)
qed

section \<open>The address arbiter\<close>

text \<open>C28: A signal to an address of an arbiter returns, and wakes as many of the threads that wait on
  the address as the value says, all of them when it is negative; none wakes before a waiter of a
  better priority, and exactly the woken threads leave the arbiter.\<close>

theorem arbiter_signal_wakes:
  fixes k :: "('s, 'g, 'e) kernel"
  assumes k: "kernel_ok k" and a: "arbiter_ok k a" and t: "threads k t = Some th"
  shows "\<exists>k' W. ArbitrateAddress menv scaled a t 0 address value ns k = Some (ResultSuccess, k') \<and> kernel_ok k' \<and>
    W \<subseteq> set (waiters_at k a address) \<and>
    card W = (if sint value < 0 then length (waiters_at k a address)
      else min (nat (sint value)) (length (waiters_at k a address))) \<and>
    resumed_set W k k' \<and> set (arbiter_threads k' a) = set (arbiter_threads k a) - W \<and>
    (\<forall>u \<in> W. \<forall>v \<in> set (waiters_at k a address) - W. prio k u \<le> prio k v)"
proof -
  let ?ms = "waiters_at k a address"
  have d: "distinct ?ms" using a by (simp add: arbiter_ok_def waiters_at_def)
  obtain k1 W n where k1: "(if sint value < 0 then ResumeAllThreads a address k
        else resume_first (nat (sint value)) a address 0 k) = Some (n, k1)" "kernel_ok k1"
      "W \<subseteq> set ?ms" "card W = (if sint value < 0 then length ?ms else min (nat (sint value)) (length ?ms))"
      "resumed_set W k k1" "set (arbiter_threads k1 a) = set (arbiter_threads k a) - W"
      "\<forall>u \<in> W. \<forall>v \<in> set ?ms - W. prio k u \<le> prio k v"
  proof (cases "sint value < 0")
    case True
    obtain k1 where "ResumeAllThreads a address k = Some (length ?ms, k1)" "kernel_ok k1"
        "resumed_set (set ?ms) k k1" "set (arbiter_threads k1 a) = set (arbiter_threads k a) - set ?ms"
      using ResumeAllThreads_spec [OF k a] by blast
    then show ?thesis using True distinct_card [OF d] by (intro that [of "length ?ms" k1 "set ?ms"]) simp_all
  next
    case False
    obtain k1 W where "resume_first (nat (sint value)) a address 0 k = Some (0 + card W, k1)" "kernel_ok k1"
        "W \<subseteq> set ?ms" "card W = min (nat (sint value)) (length ?ms)" "resumed_set W k k1"
        "set (arbiter_threads k1 a) = set (arbiter_threads k a) - W"
        "\<forall>u \<in> W. \<forall>v \<in> set ?ms - W. prio k u \<le> prio k v"
      using resume_first_spec [OF k a] by blast
    then show ?thesis using False by (intro that [of "card W" k1 W]) simp_all
  qed
  obtain th1 where t1: "threads k1 t = Some th1" using k1(5) t by (cases "t \<in> W") (simp_all add: resumed_set_def)
  let ?k = "if n = 0 \<and> current_priority th1 \<ge> 49
       then k1\<lparr>timing_of := upd_timer (current_cpu k1) (AddTicks scaled 1614) (timing_of k1)\<rparr> else k1"
  have r: "ArbitrateAddress menv scaled a t 0 address value ns k = Some (ResultSuccess, ?k)"
    using k1(1) t1 by (simp add: ArbitrateAddress_def arbitration_type_def arbitrate_signal_def)
  have "kernel_ok ?k" using safe_timing [OF k1(2)] k1(2) by (simp add: safe_def)
  moreover have "threads ?k = threads k1" "arbiter_threads ?k = arbiter_threads k1" by simp_all
  ultimately show ?thesis
    using r k1(3-7) by (intro exI [of _ ?k] exI [of _ W]) (simp only: resumed_set_def simp_thms)
qed
definition at_arbiter :: "thread \<Rightarrow> thread" where
  "at_arbiter th = th\<lparr>status := WaitArb, wait_objects := [], wait_address := 0x1000, wakeup_callback := None\<rparr>"

definition example_arbiter_kernel :: "(interval list, unit, unit) kernel" where
  "example_arbiter_kernel = (example_kernel (example_event OneShot) [] 48)
     \<lparr>threads := (example_threads [] 48)(2 \<mapsto> at_arbiter (example_waiter 2 30), 3 \<mapsto> at_arbiter (example_waiter 3 20)),
      waiting_threads := (\<lambda>_. []), arbiter_threads := (\<lambda>_. [])(5 := [2, 3])\<rparr>"

lemma example_arbiter_ok: "kernel_ok example_arbiter_kernel" "arbiter_ok example_arbiter_kernel 5"
proof -
  let ?k = "example_arbiter_kernel"
  have th: "threads ?k t = Some th \<longleftrightarrow> t = 1 \<and> th = example_runner [] 48 \<or>
      t = 2 \<and> th = at_arbiter (example_waiter 2 30) \<or> t = 3 \<and> th = at_arbiter (example_waiter 3 20)" for t th
    by (auto simp: example_arbiter_kernel_def example_threads_def)
  note defs = example_runner_def example_waiter_def new_thread_def at_arbiter_def
  have "queue_ok (example_threads [] 48) 0 (example_queue 48)" by (rule example_queue_ok) simp
  from queue_ok_other [OF this, of 2 "example_waiter 2 30" "at_arbiter (example_waiter 2 30)"]
  have "queue_ok ((example_threads [] 48)(2 \<mapsto> at_arbiter (example_waiter 2 30))) 0 (example_queue 48)"
    by (simp add: example_threads_def defs)
  from queue_ok_other [OF this, of 3 "example_waiter 3 20" "at_arbiter (example_waiter 3 20)"]
  have "queue_ok (threads ?k) 0 (example_queue 48)"
    by (simp add: example_threads_def defs example_arbiter_kernel_def)
  moreover have "queues_of ?k = [example_queue 48]" by (simp add: example_arbiter_kernel_def queues_of_def example_kernel_def)
  ultimately have "ready_ok ?k" by (auto simp: ready_ok_def th defs)
  moreover have "wait_ok ?k"
    by (auto simp: wait_ok_def th defs) (simp_all add: example_arbiter_kernel_def)
  moreover have "mutex_of ?k a = None" for a
    by (simp add: mutex_of_def example_arbiter_kernel_def example_event_def)
  ultimately show "kernel_ok ?k" by (auto simp: kernel_ok_def holders_ok_def counts_ok_def th defs)
  show "arbiter_ok ?k 5"
    by (auto simp: arbiter_ok_def example_arbiter_kernel_def at_arbiter_def)
qed

lemma arbiter_signal_wakes_witness:
  "\<exists>k' W. ArbitrateAddress example_env (\<lambda>_ x. x) 5 1 0 0x1000 1 0 example_arbiter_kernel = Some (ResultSuccess, k') \<and>
     W \<subseteq> {2, 3} \<and> card W = 1 \<and> resumed_set W example_arbiter_kernel k'"
proof -
  let ?k = "example_arbiter_kernel"
  have t: "threads ?k 1 = Some (example_runner [] 48)" by (simp add: example_arbiter_kernel_def example_threads_def)
  have w: "waiters_at ?k 5 0x1000 = [2, 3]"
    by (simp add: waiters_at_def waits_at_def example_arbiter_kernel_def at_arbiter_def)
  obtain k' W where "ArbitrateAddress example_env (\<lambda>_ x. x) 5 1 0 0x1000 1 0 ?k = Some (ResultSuccess, k')"
      "W \<subseteq> set (waiters_at ?k 5 0x1000)" "resumed_set W ?k k'"
      "card W = (if sint (1 :: s32) < 0 then length (waiters_at ?k 5 0x1000)
        else min (nat (sint (1 :: s32))) (length (waiters_at ?k 5 0x1000)))"
    using arbiter_signal_wakes [OF example_arbiter_ok t] by meson
  then show ?thesis by (simp add: w) blast
qed

section \<open>Resource accounting of a refused object\<close>

definition semaphore_use :: "('s, 'g, 'e) kernel \<Rightarrow> s32 run" where
  "semaphore_use k = do {
     i \<leftarrow> current_process k;
     p \<leftarrow> processes k i;
     l \<leftarrow> process_limit p;
     ASSERT (l < length (km_limits (kernel_memory k)));
     GetCurrentValue (km_limits (kernel_memory k) ! l) RL_Semaphore}"

lemma caller_reserve_counts:
  assumes r: "caller_limit Reserve RL_Semaphore k = Some (True, k')"
  shows "semaphore_use k' = map_option (\<lambda>u. u + 1) (semaphore_use k)" and "sync_objects k' = sync_objects k"
proof -
  obtain i p l lim where k: "current_process k = Some i" "processes k i = Some p" "process_limit p = Some l"
      "l < length (km_limits (kernel_memory k))" "Reserve (km_limits (kernel_memory k) ! l) RL_Semaphore 1 = Some (True, lim)"
      "k' = k\<lparr>kernel_memory := (kernel_memory k)\<lparr>km_limits := (km_limits (kernel_memory k))[l := lim]\<rparr>\<rparr>"
    using r by (auto simp: caller_limit_def limit_op_def split: bind_splits)
  let ?r = "km_limits (kernel_memory k) ! l"
  obtain u where u: "5 < length (m_current_values ?r)" "m_current_values ?r ! 5 = u"
      "lim = ?r\<lparr>m_current_values := (m_current_values ?r)[5 := u + 1]\<rparr>"
    using k(5) by (auto simp: Reserve_def array_get_def array_set_def s32_add_def split: bind_splits if_splits)
  show "semaphore_use k' = map_option (\<lambda>u. u + 1) (semaphore_use k)"
    using k(1-4) u by (simp add: semaphore_use_def k(6) GetCurrentValue_def array_get_def)
  show "sync_objects k' = sync_objects k" by (simp add: k(6))
qed

text \<open>Creating a semaphore with an initial count above its maximum is refused, makes no object and
  no handle, and yet keeps the unit reserved for it from the process's resource limit.\<close>

theorem refused_semaphore_keeps_reservation:
  assumes bad: "sint maximum < sint initial" and r: "caller_limit Reserve RL_Semaphore k = Some (True, k')"
  shows "svc_CreateSemaphore a initial maximum (k, ht) = Some (Inl ResultInvalidCombinationKernel, k', ht) \<and>
    sync_objects k' = sync_objects k \<and> semaphore_use k' = map_option (\<lambda>u. u + 1) (semaphore_use k)"
  using caller_reserve_counts [OF r] r bad by (simp add: svc_CreateSemaphore_def CreateSemaphore_def)

definition example_limited_kernel :: "(interval list, unit, unit) kernel" where
  "example_limited_kernel = (example_kernel (example_event OneShot) [] 48)
     \<lparr>kernel_memory := example_kmem\<lparr>km_limits :=
        [\<lparr>m_name = [], m_limit_values = replicate 10 8, m_current_values = replicate 10 0\<rparr>]\<rparr>\<rparr>"

lemma refused_semaphore_keeps_reservation_witness:
  "\<exists>k'. svc_CreateSemaphore 11 2 1 (example_limited_kernel, example_handles) =
     Some (Inl ResultInvalidCombinationKernel, k', example_handles) \<and> semaphore_use k' = Some 1"
proof -
  have "case caller_limit Reserve RL_Semaphore example_limited_kernel of Some (ok, k) \<Rightarrow> ok | None \<Rightarrow> False"
    by code_simp
  then obtain k' where r: "caller_limit Reserve RL_Semaphore example_limited_kernel = Some (True, k')"
    by (auto split: option.splits)
  have u: "semaphore_use example_limited_kernel = Some 0" by code_simp
  show ?thesis using refused_semaphore_keeps_reservation [of 1 2, OF _ r, of 11 example_handles] u by simp
qed

end
