(* ===== verification/SharedMemory.thy ===== *)
theory SharedMemory
  imports Svc
begin

text \<open>Shared memory blocks: \<open>SharedMemory\<close> (\<open>kernel/shared_memory.cpp\<close>) and the supervisor calls on
  them. A block is either cut from the linear heap of a region, or it is a part of its owner's address
  space that is locked while the block lives.\<close>

section \<open>Creation and destruction\<close>

abbreviation (input) "Permission_DontCare \<equiv> (0x10000000 :: u32)"
abbreviation (input) "SHARED_MEMORY_VADDR_END \<equiv> (0x14000000 :: u32)"
abbreviation (input) "PROCESS_IMAGE_VADDR \<equiv> (0x00100000 :: u32)"

definition ConvertPermissions :: "u32 \<Rightarrow> u8" where
  "ConvertPermissions permission = ucast (permission AND 7)"

text \<open>A change of the owner, when there is one and it is alive.\<close>

definition upd_owner ::
  "nat option \<Rightarrow> ('s process \<Rightarrow> 's process) \<Rightarrow> ('s, 'g, 'e) kernel \<Rightarrow> ('s, 'g, 'e) kernel" where
  "upd_owner owner f k =
     (case owner of
        None \<Rightarrow> k
      | Some i \<Rightarrow> k\<lparr>processes := (processes k)(i := map_option f (processes k i))\<rparr>)"

fun free_intervals ::
  "'s icl \<Rightarrow> nat \<Rightarrow> interval list \<Rightarrow> ('s, 'g) kmem \<Rightarrow> ('s, 'g) kmem run" where
  "free_intervals ops i [] m = Some m"
| "free_intervals ops i (interval # is) m = do {
     ASSERT (i < length (km_regions m));
     r \<leftarrow> Region_Free ops (km_regions m ! i) (lower interval) (upper interval - lower interval);
     free_intervals ops i is (upd_region i r m)}"

text \<open>The destructor; it ignores what the limit and the address space answer.\<close>

definition destroy_SharedMemory ::
  "'s icl \<Rightarrow> 's shared_memory \<Rightarrow> ('s, 'g, 'e) kernel \<Rightarrow> ('s, 'g, 'e) kernel run" where
  "destroy_SharedMemory ops sm k = do {
     m \<leftarrow> free_intervals ops (sm_region sm) (icl_iter ops (sm_holding_memory sm)) (kernel_memory k);
     let k = k\<lparr>kernel_memory := m\<rparr>;
     case sm_owner sm of
       None \<Rightarrow> Some k
     | Some i \<Rightarrow>
         (case processes k i of
            None \<Rightarrow> Some k
          | Some p \<Rightarrow> do {
              (ok, m) \<leftarrow> limit_op ResourceLimit_Release RL_SharedMemory 1 p m;
              let k = k\<lparr>kernel_memory := m\<rparr>;
              if base_address sm \<noteq> 0 then do {
                r \<leftarrow> ChangeMemoryState (km_marker m) (vm_of p) (base_address sm) (sm_size sm)
                  MS_Locked Perm_None MS_Private Perm_ReadWrite;
                Some (upd_owner (Some i) (\<lambda>p. snd (set_vm p r)) k)}
              else Some (upd_owner (Some i) (\<lambda>p. p\<lparr>memory_used := memory_used p - sm_size sm\<rparr>) k)})}"

definition new_shared_memory ::
  "'s icl \<Rightarrow> nat option \<Rightarrow> u32 \<Rightarrow> u32 \<Rightarrow> u32 \<Rightarrow> nat \<Rightarrow> 's shared_memory" where
  "new_shared_memory ops owner sz perms other_perms i =
     \<lparr>linear_heap_phys_offset = 0, sm_backing_blocks = [], sm_size = sz, sm_region = i,
      sm_permissions = perms, sm_other_permissions = other_perms, sm_owner = owner, base_address = 0,
      sm_holding_memory = icl_empty ops\<rparr>"

definition CreateSharedMemory ::
  "'s icl \<Rightarrow> 'g mem_env \<Rightarrow> nat option \<Rightarrow> u32 \<Rightarrow> u32 \<Rightarrow> u32 \<Rightarrow> u32 \<Rightarrow> u16 \<Rightarrow> ('s, 'g, 'e) kernel \<Rightarrow>
   ((result + 's shared_memory) \<times> ('s, 'g, 'e) kernel) run" where
  "CreateSharedMemory ops menv owner sz perms other_perms address region k = do {
     i \<leftarrow> region_index region;
     let m = kernel_memory k;
     ASSERT (i < length (km_regions m));
     let sm = new_shared_memory ops owner sz perms other_perms i;
     if address = 0 then do {
       (offset, r) \<leftarrow> Region_LinearAllocate ops (km_regions m ! i) sz;
       off \<leftarrow> offset;
       p \<leftarrow> GetFCRAMPointer menv (ucast off);
       q \<leftarrow> GetFCRAMPointer menv (ucast (off + sz));
       let m = fill_zero p q (upd_region i r m);
       ref \<leftarrow> GetFCRAMRef menv (ucast off);
       let sm = sm\<lparr>sm_backing_blocks := [(ref, sz)],
         sm_holding_memory := icl_add ops (icl_empty ops) (Interval off (off + sz)),
         linear_heap_phys_offset := off\<rparr>;
       Some (Inr sm, upd_owner owner (\<lambda>p. p\<lparr>memory_used := memory_used p + sz\<rparr>) (k\<lparr>kernel_memory := m\<rparr>))}
     else do {
       j \<leftarrow> owner;
       p \<leftarrow> processes k j;
       r \<leftarrow> ChangeMemoryState (km_marker m) (vm_of p) address sz MS_Private Perm_ReadWrite MS_Locked
         (ConvertPermissions perms);
       case r of
         Inl e \<Rightarrow> map_option (Pair (Inl e)) (destroy_SharedMemory ops sm k)
       | Inr vm \<Rightarrow> do {
           blocks \<leftarrow> GetBackingBlocksForRange vm address sz;
           case blocks of
             Inl e \<Rightarrow> None
           | Inr bs \<Rightarrow> Some (Inr (sm\<lparr>sm_backing_blocks := bs, base_address := address\<rparr>),
               upd_owner owner (\<lambda>p. p\<lparr>vm_of := vm\<rparr>) k)}}}"

text \<open>The blocks of an applet's shared memory, cleared.\<close>

fun applet_blocks ::
  "'g mem_env \<Rightarrow> interval list \<Rightarrow> ('s, 'g) kmem \<Rightarrow> ((memory_ref \<times> u32) list \<times> ('s, 'g) kmem) run" where
  "applet_blocks menv [] m = Some ([], m)"
| "applet_blocks menv (interval # is) m = do {
     ref \<leftarrow> GetFCRAMRef menv (ucast (lower interval));
     p \<leftarrow> GetFCRAMPointer menv (ucast (lower interval));
     q \<leftarrow> GetFCRAMPointer menv (ucast (upper interval));
     (bs, m) \<leftarrow> applet_blocks menv is (fill_zero p q m);
     Some ((ref, upper interval - lower interval) # bs, m)}"

definition CreateSharedMemoryForApplet ::
  "'s icl \<Rightarrow> 'g mem_env \<Rightarrow> u32 \<Rightarrow> u32 \<Rightarrow> u32 \<Rightarrow> u32 \<Rightarrow> ('s, 'g, 'e) kernel \<Rightarrow>
   ('s shared_memory \<times> ('s, 'g, 'e) kernel) run" where
  "CreateSharedMemoryForApplet ops menv offset sz perms other_perms k = do {
     i \<leftarrow> region_index 2;
     let m = kernel_memory k;
     ASSERT (i < length (km_regions m));
     (allocated, r) \<leftarrow> Region_HeapAllocate ops (km_regions m ! i) sz;
     ASSERT (icl_iter ops allocated \<noteq> []);
     (bs, m) \<leftarrow> applet_blocks menv (icl_iter ops allocated) (upd_region i r m);
     Some ((new_shared_memory ops None sz perms other_perms i)
         \<lparr>sm_holding_memory := allocated, sm_backing_blocks := bs, base_address := HEAP_VADDR + offset\<rparr>,
       k\<lparr>kernel_memory := m\<rparr>)}"

section \<open>Mapping\<close>

definition SharedMemory_Map ::
  "cache_marker \<Rightarrow> 's shared_memory \<Rightarrow> nat \<Rightarrow> u32 \<Rightarrow> u32 \<Rightarrow> u32 \<Rightarrow> vm_manager \<Rightarrow> (result + vm_manager) run" where
  "SharedMemory_Map mk sm target_process address perms other_perms vm =
     (let own_other_permissions =
        (if sm_owner sm = Some target_process then sm_permissions sm else sm_other_permissions sm);
          sz = sm_size sm
      in if base_address sm = 0 \<and> other_perms \<noteq> Permission_DontCare then Some (Inl ResultInvalidCombination)
         else if perms AND NOT own_other_permissions \<noteq> 0 then Some (Inl ResultInvalidCombination)
         else if base_address sm \<noteq> 0 \<and> other_perms = Permission_DontCare then Some (Inl ResultInvalidCombination)
         else if other_perms \<noteq> Permission_DontCare \<and> sm_permissions sm AND NOT other_perms \<noteq> 0
         then Some (Inl ResultWrongPermission)
         else if address \<noteq> 0 \<and> (address < HEAP_VADDR \<or> address + sz \<ge> SHARED_MEMORY_VADDR_END)
         then Some (Inl ResultInvalidAddress)
         else do {
           let target_address = (if base_address sm = 0 \<and> address = 0
             then linear_heap_phys_offset sm + LINEAR_HEAP_VADDR else address);
           i \<leftarrow> FindVMA vm target_address;
           v \<leftarrow> vma_at vm i;
           if vma_type v \<noteq> VMA_Free \<or> vma_base v + vma_size v < target_address + sz
           then Some (Inl ResultInvalidAddressState)
           else map_option Inr
             (map_blocks mk (sm_backing_blocks sm) target_address MS_Shared (ConvertPermissions perms) vm)})"

definition SharedMemory_Unmap ::
  "cache_marker \<Rightarrow> 's shared_memory \<Rightarrow> u32 \<Rightarrow> vm_manager \<Rightarrow> (result + vm_manager) run" where
  "SharedMemory_Unmap mk sm address vm = UnmapRange mk vm address (sm_size sm)"

definition SharedMemory_GetPointer :: "'s shared_memory \<Rightarrow> u32 \<Rightarrow> u64 run" where
  "SharedMemory_GetPointer sm offset =
     (case sm_backing_blocks sm of
        [] \<Rightarrow> None
      | (ref, n) # bs \<Rightarrow> map_option GetPtr (ref_plus ref offset))"
section \<open>Supervisor calls\<close>

definition get_shared :: "('s, 'g, 'e) svc_state \<Rightarrow> u32 \<Rightarrow> (nat \<times> 's shared_memory) option" where
  "get_shared s handle =
     (case get_object s handle of
        Some (HShared a) \<Rightarrow> map_option (Pair a) (shared_memories (fst s) a)
      | _ \<Rightarrow> None)"

definition put_vm :: "nat \<Rightarrow> result + vm_manager \<Rightarrow> ('s, 'g, 'e) kernel \<Rightarrow> result \<times> ('s, 'g, 'e) kernel" where
  "put_vm i r k =
     (case r of Inl e \<Rightarrow> (e, k) | Inr vm \<Rightarrow> (ResultSuccess, upd_owner (Some i) (\<lambda>p. p\<lparr>vm_of := vm\<rparr>) k))"

definition svc_MapMemoryBlock ::
  "u32 \<Rightarrow> u32 \<Rightarrow> u32 \<Rightarrow> u32 \<Rightarrow> ('s, 'g, 'e) svc_state \<Rightarrow> (result \<times> ('s, 'g, 'e) svc_state) run" where
  "svc_MapMemoryBlock handle addr perms other_perms s =
     (case get_shared s handle of
        None \<Rightarrow> Some (ResultInvalidHandle, s)
      | Some (a, sm) \<Rightarrow>
          if perms \<in> {1, 2, 3, 4, 5, 6, 7, Permission_DontCare} then do {
            i \<leftarrow> current_process (fst s);
            p \<leftarrow> processes (fst s) i;
            r \<leftarrow> SharedMemory_Map (km_marker (kernel_memory (fst s))) sm i addr perms other_perms (vm_of p);
            let (e, k) = put_vm i r (fst s);
            Some (e, k, snd s)}
          else Some (ResultInvalidCombination, s))"

definition svc_UnmapMemoryBlock ::
  "u32 \<Rightarrow> u32 \<Rightarrow> ('s, 'g, 'e) svc_state \<Rightarrow> (result \<times> ('s, 'g, 'e) svc_state) run" where
  "svc_UnmapMemoryBlock handle addr s =
     (case get_shared s handle of
        None \<Rightarrow> Some (ResultInvalidHandle, s)
      | Some (a, sm) \<Rightarrow> do {
          i \<leftarrow> current_process (fst s);
          p \<leftarrow> processes (fst s) i;
          r \<leftarrow> SharedMemory_Unmap (km_marker (kernel_memory (fst s))) sm addr (vm_of p);
          let (e, k) = put_vm i r (fst s);
          Some (e, k, snd s)})"

definition VerifyPermissions :: "u32 \<Rightarrow> bool" where
  "VerifyPermissions permission \<longleftrightarrow> permission \<in> {0, 1, 2, 3, Permission_DontCare}"

definition flags_shared_device_mem :: "'s process \<Rightarrow> bool" where
  "flags_shared_device_mem p \<longleftrightarrow> ExtractValue 6 1 (process_flags p) \<noteq> 0"

text \<open>The new block is stored at the address \<open>a\<close>; a full handle table destroys it again.\<close>

definition svc_CreateMemoryBlock ::
  "'s icl \<Rightarrow> 'g mem_env \<Rightarrow> nat \<Rightarrow> u32 \<Rightarrow> u32 \<Rightarrow> u32 \<Rightarrow> u32 \<Rightarrow> ('s, 'g, 'e) svc_state \<Rightarrow>
   ((result + u32) \<times> ('s, 'g, 'e) svc_state) run" where
  "svc_CreateMemoryBlock ops menv a addr sz my_permission other_permission s =
     (if sz mod CITRA_PAGE_SIZE \<noteq> 0 then Some (Inl ResultMisalignedSize, s)
      else if \<not> VerifyPermissions my_permission then Some (Inl ResultInvalidCombination, s)
      else if \<not> VerifyPermissions other_permission then Some (Inl ResultInvalidCombination, s)
      else if (addr < PROCESS_IMAGE_VADDR \<or> addr + sz > SHARED_MEMORY_VADDR_END) \<and> addr \<noteq> 0
      then Some (Inl ResultInvalidAddress, s)
      else do {
        (ok, k) \<leftarrow> caller_limit Reserve RL_SharedMemory (fst s);
        if \<not> ok then Some (Inl (limit_error ErrCodes_OutOfSharedMems), k, snd s)
        else do {
          i \<leftarrow> current_process k;
          p \<leftarrow> processes k i;
          let region = (if addr = 0 \<and> flags_shared_device_mem p then flags_region p else 3);
          (r, k) \<leftarrow> CreateSharedMemory ops menv (Some i) sz my_permission other_permission addr region k;
          case r of
            Inl e \<Rightarrow> Some (Inl e, k, snd s)
          | Inr sm \<Rightarrow> create_handle (HShared a)
              (\<lambda>k. map_option (\<lambda>k. k\<lparr>shared_memories := (shared_memories k)(a := None)\<rparr>)
                (destroy_SharedMemory ops sm k))
              (k\<lparr>shared_memories := (shared_memories k)(a \<mapsto> sm)\<rparr>, snd s)}})"

section \<open>What a mapping shows\<close>

text \<open>The host byte behind byte \<open>i\<close> of a list of blocks.\<close>

fun block_byte :: "(memory_ref \<times> u32) list \<Rightarrow> nat \<Rightarrow> u64" where
  "block_byte [] i = 0"
| "block_byte ((ref, n) # bs) i = (if i < unat n then GetPtr ref + of_nat i else block_byte bs (i - unat n))"

definition blocks_size :: "(memory_ref \<times> u32) list \<Rightarrow> nat" where
  "blocks_size bs = sum_list (map (unat \<circ> snd) bs)"

definition blocks_ok :: "host_buffer set \<Rightarrow> (memory_ref \<times> u32) list \<Rightarrow> bool" where
  "blocks_ok H bs \<longleftrightarrow> (\<forall>(ref, n) \<in> set bs. page_aligned n \<and> 0 < unat n \<and> ref_covers ref (unat n) \<and>
     the (backing_mem ref) \<in> H)"

text \<open>An address keeps what it maps to, and perhaps not its permissions.\<close>

fun unprotected ::
  "(VMAType \<times> u8 \<times> MemoryState \<times> u64) option \<Rightarrow> (VMAType \<times> MemoryState \<times> u64) option" where
  "unprotected None = None"
| "unprotected (Some (ty, p, s, q)) = Some (ty, s, q)"

end
