(* ===== verification/ProcessCalls.thy ===== *)
theory ProcessCalls
  imports Svc
begin

text \<open>The remaining supervisor calls (\<open>kernel/svc.cpp\<close>): opening processes and threads, resource limits
  by handle, information about handles, processes, threads and the system, and the calls of Luma3DS on
  another process's memory and threads.\<close>

section \<open>Processes and threads\<close>

definition get_process :: "('s, 'g, 'e) svc_state \<Rightarrow> u32 \<Rightarrow> nat option" where
  "get_process s handle = (case get_object s handle of Some (HProcess i) \<Rightarrow> Some i | _ \<Rightarrow> None)"

definition GetProcessById :: "u32 \<Rightarrow> ('s, 'g, 'e) kernel \<Rightarrow> nat option" where
  "GetProcessById pid k =
     find (\<lambda>i. case processes k i of Some p \<Rightarrow> process_id p = pid | None \<Rightarrow> False) (process_list k)"

definition svc_OpenProcess ::
  "u32 \<Rightarrow> ('s, 'g, 'e) svc_state \<Rightarrow> ((result + u32) \<times> ('s, 'g, 'e) svc_state) run" where
  "svc_OpenProcess pid s =
     (case GetProcessById pid (fst s) of
        None \<Rightarrow> Some (Inl (Result_make 24 Mod_OS Sum_WrongArgument Lvl_Permanent), s)
      | Some i \<Rightarrow> create_handle (HProcess i) Some s)"

definition find_thread :: "nat \<Rightarrow> u32 \<Rightarrow> ('s, 'g, 'e) kernel \<Rightarrow> nat option" where
  "find_thread process id' k =
     find (\<lambda>t. case threads k t of
         Some th \<Rightarrow> owner_lock k th = Some process \<and> thread_id th = id' | None \<Rightarrow> False)
       (concat (map thread_list (managers k)))"

definition svc_OpenThread ::
  "u32 \<Rightarrow> u32 \<Rightarrow> ('s, 'g, 'e) svc_state \<Rightarrow> ((result + u32) \<times> ('s, 'g, 'e) svc_state) run" where
  "svc_OpenThread process_handle id' s =
     (let ResultThreadNotFound = Result_make 25 Mod_OS Sum_WrongArgument Lvl_Permanent
      in if process_handle = 0 then Some (Inl ResultThreadNotFound, s)
         else case get_process s process_handle of
           None \<Rightarrow> Some (Inl ResultInvalidHandle, s)
         | Some i \<Rightarrow>
             (case find_thread i id' (fst s) of
                None \<Rightarrow> Some (Inl ResultThreadNotFound, s)
              | Some t \<Rightarrow> create_handle (HWait (RThread t)) Some s))"

definition svc_TerminateProcess ::
  "('s, 'g, 'e) kenv \<Rightarrow> u32 \<Rightarrow> ('s, 'g, 'e) svc_state \<Rightarrow> (result \<times> ('s, 'g, 'e) svc_state) run" where
  "svc_TerminateProcess env handle s =
     (case get_process s handle of
        None \<Rightarrow> Some (ResultInvalidHandle, s)
      | Some i \<Rightarrow> map_option (\<lambda>k. (ResultSuccess, k, snd s)) (TerminateProcess env i (fst s)))"

definition svc_ExitProcess ::
  "('s, 'g, 'e) kenv \<Rightarrow> ('s, 'g, 'e) svc_state \<Rightarrow> ('s, 'g, 'e) svc_state run" where
  "svc_ExitProcess env s = do {
     i \<leftarrow> current_process (fst s);
     k \<leftarrow> TerminateProcess env i (fst s);
     Some (k, snd s)}"

section \<open>Resource limits by handle\<close>

definition svc_GetResourceLimit ::
  "u32 \<Rightarrow> ('s, 'g, 'e) svc_state \<Rightarrow> ((result + u32) \<times> ('s, 'g, 'e) svc_state) run" where
  "svc_GetResourceLimit process_handle s =
     (case get_process s process_handle of
        None \<Rightarrow> Some (Inl ResultInvalidHandle, s)
      | Some i \<Rightarrow> do {
          p \<leftarrow> processes (fst s) i;
          l \<leftarrow> process_limit p;
          create_handle (HLimit l) Some s})"

definition get_limit :: "('s, 'g, 'e) svc_state \<Rightarrow> u32 \<Rightarrow> nat option" where
  "get_limit s handle = (case get_object s handle of Some (HLimit l) \<Rightarrow> Some l | _ \<Rightarrow> None)"

text \<open>The loop of \<open>SetResourceLimitLimitValues\<close>: a limit of committed memory with a high word also
  sets the memory of the application in the configuration, the second component.\<close>

fun set_limits ::
  "'g mem_env \<Rightarrow> nat \<Rightarrow> nat \<Rightarrow> u32 \<Rightarrow> u32 \<Rightarrow> u32 \<Rightarrow> ('s, 'g, 'e) kernel \<Rightarrow>
   (result \<times> u32 \<times> ('s, 'g, 'e) kernel) run" where
  "set_limits menv l 0 names resource_list alloc_mem k = Some (ResultSuccess, alloc_mem, k)"
| "set_limits menv l (Suc n) names resource_list alloc_mem k = do {
     (name, k) \<leftarrow> Read32 menv names k;
     if \<not> name < 10 then Some (ResultInvalidEnumValue, alloc_mem, k)
     else do {
       pt \<leftarrow> current_pages k;
       (v, m) \<leftarrow> MemorySystem_Read menv pt 8 resource_list (km_machine (kernel_memory k));
       let k = k\<lparr>kernel_memory := (kernel_memory k)\<lparr>km_machine := m\<rparr>\<rparr>;
       let value_high = (of_nat (v div 2 ^ 32) :: s32);
       if \<not> sint value_high \<ge> 0 then Some (ResultOutOfRangeKernel, alloc_mem, k)
       else do {
         let alloc_mem = (if name = RL_Commit \<and> value_high \<noteq> 0 then value_high else alloc_mem);
         ASSERT (l < length (km_limits (kernel_memory k)));
         r \<leftarrow> SetLimitValue (km_limits (kernel_memory k) ! l) name (of_nat v);
         set_limits menv l n (names + 4) (resource_list + 8) alloc_mem
           (k\<lparr>kernel_memory := (kernel_memory k)\<lparr>km_limits := (km_limits (kernel_memory k))[l := r]\<rparr>\<rparr>)}}}"

definition svc_SetResourceLimitLimitValues ::
  "'g mem_env \<Rightarrow> u32 \<Rightarrow> u32 \<Rightarrow> u32 \<Rightarrow> u32 \<Rightarrow> u32 \<Rightarrow> ('s, 'g, 'e) svc_state \<Rightarrow>
   (result \<times> u32 \<times> ('s, 'g, 'e) svc_state) run" where
  "svc_SetResourceLimitLimitValues menv handle names resource_list name_count alloc_mem s =
     (case get_limit s handle of
        None \<Rightarrow> Some (ResultInvalidHandle, alloc_mem, s)
      | Some l \<Rightarrow> map_option (\<lambda>(r, alloc_mem, k). (r, alloc_mem, k, snd s))
          (set_limits menv l (unat name_count) names resource_list alloc_mem (fst s)))"

section \<open>Information\<close>

definition svc_QueryProcessMemory ::
  "u32 \<Rightarrow> u32 \<Rightarrow> ('s, 'g, 'e) svc_state \<Rightarrow> (result + memory_info) run" where
  "svc_QueryProcessMemory process_handle addr s =
     (case get_process s process_handle of
        None \<Rightarrow> Some (Inl ResultInvalidHandle)
      | Some i \<Rightarrow> do { p \<leftarrow> processes (fst s) i; QueryProcessMemory (vm_of p) addr })"

definition svc_QueryMemory :: "u32 \<Rightarrow> ('s, 'g, 'e) svc_state \<Rightarrow> (result + memory_info) run" where
  "svc_QueryMemory addr s = svc_QueryProcessMemory CurrentProcess addr s"

text \<open>The count of an object's references is an argument.\<close>

definition svc_GetHandleInfo ::
  "(kref \<Rightarrow> int) \<Rightarrow> u32 \<Rightarrow> u32 \<Rightarrow> ('s, 'g, 'e) svc_state \<Rightarrow> (result + int) run" where
  "svc_GetHandleInfo use_count handle type s =
     (case get_object s handle of
        None \<Rightarrow> Some (Inl ResultInvalidHandle)
      | Some ob \<Rightarrow>
          if type = 0 then
            (case ob of
               HProcess i \<Rightarrow> map_option (\<lambda>p. Inr (wrap64 (creation_time_ticks p))) (processes (fst s) i)
             | _ \<Rightarrow> Some (Inr 0))
          else if type = 1 then Some (Inr (use_count ob - 1))
          else if type = 2 \<or> type = 0x32107 then Some (Inr 0)
          else Some (Inl ResultInvalidEnumValue))"

text \<open>The strings of the build, without their final zero.\<close>

record build_info =
  build_name :: bytes
  build_version :: bytes
  build_date :: bytes
  scm_branch :: bytes
  scm_desc :: bytes

text \<open>Eight bytes of output: \<open>strncpy\<close> fills with zeros; past the end of the string only the first
  byte is written.\<close>

definition CopyStringPart :: "bytes \<Rightarrow> bytes \<Rightarrow> nat \<Rightarrow> nat \<Rightarrow> bytes" where
  "CopyStringPart out str offset max_length =
     (if offset < length str
      then (let part = take (max_length - 1) (drop offset str)
            in part @ replicate (max_length - length part) 0)
      else out[0 := 0])"

text \<open>What \<open>out\<close> holds before the call is an argument.\<close>

definition citra_info :: "build_info \<Rightarrow> nat \<Rightarrow> bytes \<Rightarrow> bytes" where
  "citra_info b param out =
     (let part = (\<lambda>str n. CopyStringPart out str (7 * n) 8)
      in if param = 0 then to_le 8 1
         else if param = 10 then part (build_name b) 0
         else if param = 11 then part (build_version b) 0
         else if param \<in> {20, 21, 22, 23} then part (build_date b) (param - 20)
         else if param \<in> {30, 31} then part (scm_branch b) (param - 30)
         else if param \<in> {40, 41} then part (scm_desc b) (param - 40)
         else to_le 8 0)"

definition region_usage :: "('s, 'g, 'e) kernel \<Rightarrow> u16 \<Rightarrow> u32 run" where
  "region_usage k region = do {
     i \<leftarrow> region_index region;
     ASSERT (i < length (km_regions (kernel_memory k)));
     Some (used (km_regions (kernel_memory k) ! i))}"

definition svc_GetSystemInfo ::
  "build_info \<Rightarrow> bytes \<Rightarrow> u32 \<Rightarrow> s32 \<Rightarrow> ('s, 'g, 'e) kernel \<Rightarrow> (result \<times> bytes) run" where
  "svc_GetSystemInfo b out type param k =
     (let ok = (\<lambda>v. (ResultSuccess, to_le 8 (unat (v :: u32))))
      in if type = 0 then
           (if param = 0 then do {
              application \<leftarrow> region_usage k 1;
              system \<leftarrow> region_usage k 2;
              base_used \<leftarrow> region_usage k 3;
              Some (ok (application + system + base_used))}
            else if param \<in> {1, 2, 3} then map_option ok (region_usage k (ucast param))
            else Some (ok 0))
         else if type = 2 then Some (ok 0)
         else if type = 26 then Some (ok 5)
         else if type = 0x10001 then
           Some (if length (cpus k) = 4 then ResultSuccess else ResultInvalidEnumValue, to_le 8 0)
         else if type = 0x20000 then
           Some (ResultSuccess, citra_info b (unat param) out)
         else Some (ok 0))"

text \<open>The code set and its name are arguments; \<open>None\<close> as a value is an output that is left as it was.\<close>

definition svc_GetProcessInfo ::
  "(nat \<Rightarrow> codeset) \<Rightarrow> (nat \<Rightarrow> bytes) \<Rightarrow> u32 \<Rightarrow> u32 \<Rightarrow> ('s, 'g, 'e) svc_state \<Rightarrow>
   (result \<times> bytes option) run" where
  "svc_GetProcessInfo code_set name process_handle type s =
     (case get_process s process_handle of
        None \<Rightarrow> Some (ResultInvalidHandle, None)
      | Some i \<Rightarrow> do {
          p \<leftarrow> processes (fst s) i;
          let (code, rodata, data) = segments (code_set i);
          let ok = (\<lambda>v. Some (ResultSuccess, Some (to_le 8 (unat (v :: u32)))));
          if type = 0 \<or> type = 2 then
            Some (if memory_used p mod CITRA_PAGE_SIZE \<noteq> 0 then ResultMisalignedSize else ResultSuccess,
              Some (to_le 8 (unat (memory_used p))))
          else if type \<in> {1, 3, 4, 5, 6, 7, 8} then Some (ResultSuccess, None)
          else if type = 20 then ok (0x20000000 - GetLinearHeapAreaAddress p)
          else if type \<in> {21, 22, 23} then Some (ResultNotImplemented, None)
          else if type = 0x10000 then
            Some (ResultSuccess, Some (take 8 (name i @ replicate 8 0)))
          else if type = 0x10001 then Some (ResultSuccess, Some (to_le 8 (unat (program_id (code_set i)))))
          else if type = 0x10002 then ok (seg_size code)
          else if type = 0x10003 then ok (seg_size rodata)
          else if type = 0x10004 then ok (seg_size data)
          else if type = 0x10005 then ok (seg_addr code)
          else if type = 0x10006 then ok (seg_addr rodata)
          else if type = 0x10007 then ok (seg_addr data)
          else Some (ResultInvalidEnumValue, None)})"

definition svc_GetThreadInfo :: "u32 \<Rightarrow> u32 \<Rightarrow> ('s, 'g, 'e) svc_state \<Rightarrow> (result + int) run" where
  "svc_GetThreadInfo thread_handle type s =
     (case get_thread s thread_handle of
        None \<Rightarrow> Some (Inl ResultInvalidHandle)
      | Some t \<Rightarrow> do {
          th \<leftarrow> threads (fst s) t;
          Some (if type = 0x10000 then Inr (uint (th_tls_address th)) else Inl ResultInvalidEnumValue)})"

fun write_process_list ::
  "'g mem_env \<Rightarrow> nat list \<Rightarrow> u32 \<Rightarrow> s32 \<Rightarrow> s32 \<Rightarrow> ('s, 'g, 'e) kernel \<Rightarrow> (s32 \<times> ('s, 'g, 'e) kernel) run" where
  "write_process_list menv [] out array_count written k = Some (written, k)"
| "write_process_list menv (i # is) out array_count written k =
     (if sint written \<ge> sint array_count then Some (written, k)
      else do {
        p \<leftarrow> processes k i;
        k \<leftarrow> Write32 menv (out + written * 4) (process_id p) k;
        write_process_list menv is out array_count (written + 1) k})"

definition svc_GetProcessList ::
  "'g mem_env \<Rightarrow> u32 \<Rightarrow> s32 \<Rightarrow> ('s, 'g, 'e) svc_state \<Rightarrow> ((result + s32) \<times> ('s, 'g, 'e) svc_state) run" where
  "svc_GetProcessList menv out array_count s = do {
     i \<leftarrow> current_process (fst s);
     p \<leftarrow> processes (fst s) i;
     if \<not> IsValidVirtualAddress (vm_page_table (vm_of p)) out then Some (Inl ResultInvalidPointer, s)
     else do {
       (n, k) \<leftarrow> write_process_list menv (process_list (fst s)) out array_count 0 (fst s);
       Some (Inr n, k, snd s)}}"

section \<open>The memory of other processes\<close>

definition svc_ConvertVaToPa :: "'g mem_env \<Rightarrow> u32 \<Rightarrow> ('s, 'g, 'e) svc_state \<Rightarrow> u32 run" where
  "svc_ConvertVaToPa menv addr s = do {
     i \<leftarrow> current_process (fst s);
     p \<leftarrow> processes (fst s) i;
     j \<leftarrow> FindVMA (vm_of p) addr;
     if j = length (vma_map (vm_of p)) then Some 0
     else do {
       v \<leftarrow> vma_at (vm_of p) j;
       if vma_type v \<noteq> VMA_BackingMemory then Some 0
       else do {
         off \<leftarrow> GetFCRAMOffset menv (GetPtr (backing_memory v) + ucast addr - ucast (vma_base v));
         Some (off + 0x20000000)}}}"

definition round_size :: "u32 \<Rightarrow> u32" where
  "round_size sz = (if sz AND 0xFFF \<noteq> 0 then (sz AND NOT 0xFFF) + CITRA_PAGE_SIZE else sz)"

text \<open>The area of linear memory at an address.\<close>

definition linear_vma :: "vm_manager \<Rightarrow> u32 \<Rightarrow> (result + vma) run" where
  "linear_vma vm addr = do {
     j \<leftarrow> FindVMA vm addr;
     if j = length (vma_map vm) then Some (Inl ResultInvalidAddress)
     else do {
       v \<leftarrow> vma_at vm j;
       Some (if vma_type v = VMA_BackingMemory \<and> meminfo_state v = MS_Continuous
         then Inr v else Inl ResultInvalidAddress)}}"

definition upd_vm :: "nat \<Rightarrow> vm_manager \<Rightarrow> ('s, 'g, 'e) kernel \<Rightarrow> ('s, 'g, 'e) kernel" where
  "upd_vm i vm k = k\<lparr>processes := (processes k)(i := map_option (\<lambda>p. p\<lparr>vm_of := vm\<rparr>) (processes k i))\<rparr>"

definition svc_MapProcessMemoryEx ::
  "'g mem_env \<Rightarrow> u32 \<Rightarrow> u32 \<Rightarrow> u32 \<Rightarrow> u32 \<Rightarrow> u32 \<Rightarrow> ('s, 'g, 'e) svc_state \<Rightarrow>
   (result \<times> ('s, 'g, 'e) svc_state) run" where
  "svc_MapProcessMemoryEx menv dst_handle dst_address src_handle src_address sz s =
     (case (get_process s dst_handle, get_process s src_handle) of
        (Some dst, Some src) \<Rightarrow> do {
          let k = fst s;
          let sz = round_size sz;
          sp \<leftarrow> processes k src;
          found \<leftarrow> linear_vma (vm_of sp) src_address;
          case found of
            Inl e \<Rightarrow> Some (e, s)
          | Inr v \<Rightarrow> do {
              let offset = src_address - vma_base v;
              if \<not> offset + sz \<le> vma_size v then Some (ResultInvalidAddress, s)
              else do {
                fcram \<leftarrow> GetFCRAMPointer menv 0;
                ref \<leftarrow> GetFCRAMRef menv (GetPtr (backing_memory v) + ucast offset - fcram);
                dp \<leftarrow> processes k dst;
                let mk = km_marker (kernel_memory k);
                r \<leftarrow> MapBackingMemory mk (vm_of dp) dst_address ref sz MS_Continuous;
                case r of
                  Inl e \<Rightarrow> Some (ResultInvalidAddressState, s)
                | Inr (j, vm) \<Rightarrow> do {
                    (j, vm) \<leftarrow> Reprotect mk vm j 7;
                    Some (ResultSuccess, upd_vm dst vm k, snd s)}}}}
      | _ \<Rightarrow> Some (ResultInvalidHandle, s))"

text \<open>The answer of \<open>UnmapRange\<close> is not looked at.\<close>

definition svc_UnmapProcessMemoryEx ::
  "u32 \<Rightarrow> u32 \<Rightarrow> u32 \<Rightarrow> ('s, 'g, 'e) svc_state \<Rightarrow> (result \<times> ('s, 'g, 'e) svc_state) run" where
  "svc_UnmapProcessMemoryEx process dst_address sz s =
     (case get_process s process of
        None \<Rightarrow> Some (ResultInvalidHandle, s)
      | Some i \<Rightarrow> do {
          let k = fst s;
          let sz = round_size sz;
          p \<leftarrow> processes k i;
          found \<leftarrow> linear_vma (vm_of p) dst_address;
          case found of
            Inl e \<Rightarrow> Some (e, s)
          | Inr v \<Rightarrow> do {
              r \<leftarrow> UnmapRange (km_marker (kernel_memory k)) (vm_of p) dst_address sz;
              Some (ResultSuccess, (case r of Inl e \<Rightarrow> k | Inr vm \<Rightarrow> upd_vm i vm k), snd s)}})"

section \<open>Control of a process\<close>

text \<open>The loop over the areas: the iterator is invalid when its area was merged into the one before.
  Every round moves on by an area, so that their number is enough fuel.\<close>

fun set_rwx :: "cache_marker \<Rightarrow> nat \<Rightarrow> nat \<Rightarrow> vm_manager \<Rightarrow> vm_manager run" where
  "set_rwx mk 0 i vm = (if i < length (vma_map vm) then None else Some vm)"
| "set_rwx mk (Suc n) i vm =
     (if i < length (vma_map vm) then do {
        v \<leftarrow> vma_at vm i;
        if meminfo_state v \<noteq> MS_Free then do {
          (j, vm) \<leftarrow> Reprotect mk vm i 7;
          ASSERT (j = i);
          set_rwx mk n (Suc i) vm}
        else set_rwx mk n (Suc i) vm}
      else Some vm)"

text \<open>The threads of the process but the caller's, and but those whose local storage starts with the
  magic word.\<close>

fun schedule_threads ::
  "'g mem_env \<Rightarrow> nat \<Rightarrow> u32 \<Rightarrow> u32 \<Rightarrow> nat list \<Rightarrow> ('s, 'g, 'e) kernel \<Rightarrow> ('s, 'g, 'e) kernel run" where
  "schedule_threads menv process varg2 varg3 [] k = Some k"
| "schedule_threads menv process varg2 varg3 (t # ts) k = do {
     th \<leftarrow> threads k t;
     if owner_lock k th \<noteq> Some process then schedule_threads menv process varg2 varg3 ts k
     else do {
       (magic, k) \<leftarrow> Read32 menv (th_tls_address th) k;
       if magic = varg3 then schedule_threads menv process varg2 varg3 ts k
       else do {
         c \<leftarrow> GetCurrentThread k;
         cth \<leftarrow> threads k c;
         schedule_threads menv process varg2 varg3 ts
           (if thread_id th = thread_id cth then k
            else upd_thread t (\<lambda>th. th\<lparr>can_schedule := (varg2 = 0)\<rparr>) k)}}}"

text \<open>The plugin loader, when there is one, gives the handle of an event: the argument \<open>plgldr\<close>.\<close>

definition svc_ControlProcess ::
  "'g mem_env \<Rightarrow> (('s, 'g, 'e) svc_state \<Rightarrow> ((result + u32) \<times> ('s, 'g, 'e) svc_state) run) option \<Rightarrow>
   u32 \<Rightarrow> u32 \<Rightarrow> u32 \<Rightarrow> u32 \<Rightarrow> ('s, 'g, 'e) svc_state \<Rightarrow> (result \<times> ('s, 'g, 'e) svc_state) run" where
  "svc_ControlProcess menv plgldr process_handle process_OP varg2 varg3 s =
     (case get_process s process_handle of
        None \<Rightarrow> Some (ResultInvalidHandle, s)
      | Some i \<Rightarrow>
          if process_OP = 1 then do {
            p \<leftarrow> processes (fst s) i;
            vm \<leftarrow> set_rwx (km_marker (kernel_memory (fst s))) (length (vma_map (vm_of p))) 0 (vm_of p);
            Some (ResultSuccess, upd_vm i vm (fst s), snd s)}
          else if process_OP = 2 then
            (case plgldr of
               None \<Rightarrow> Some (ResultNotFound, s)
             | Some get_handle \<Rightarrow> do {
                 (r, s) \<leftarrow> get_handle s;
                 case r of
                   Inl e \<Rightarrow> Some (e, s)
                 | Inr h \<Rightarrow> map_option (\<lambda>k. (ResultSuccess, k, snd s)) (Write32 menv varg2 h (fst s))})
          else if process_OP = 6 then
            map_option (\<lambda>k. (ResultSuccess, k, snd s))
              (schedule_threads menv i varg2 varg3 (concat (map thread_list (managers (fst s)))) (fst s))
          else if process_OP = 7 then
            Some (ResultSuccess, (fst s)\<lparr>processes := (processes (fst s))(i := map_option
              (\<lambda>p. p\<lparr>no_thread_restrictions := (varg2 = 1)\<rparr>) (processes (fst s) i))\<rparr>, snd s)
          else Some (ResultNotImplemented, s))"

end
