(* ===== verification/ProcessControl.thy ===== *)
theory ProcessControl
  imports ProcessCalls KernelProperties
begin

text \<open>Making all memory of a process readable, writable and executable (\<open>ControlProcess\<close>): when it
  works, and when the loop goes on with an iterator to an area that no longer exists.\<close>

section \<open>Merging, exactly\<close>

lemma merge_next_none:
  assumes vm: "vma_map vm = ps @ v # ns" and ok: "areas_ok H (ps @ v # ns)"
    and none: "\<And>w ws. ns = w # ws \<Longrightarrow> \<not> continues v w"
  shows "merge_next vm (length ps) = Some vm"
proof (cases ns)
  case Nil
  then show ?thesis using vm by (simp add: merge_next_def)
next
  case (Cons w ws)
  have "CanBeMergedWith v w = Some (continues v w)"
    using areas_okD(3,4) [OF ok] Cons by (intro CanBeMergedWith_iff) auto
  then show ?thesis using vm Cons none by (simp add: merge_next_def)
qed

lemma merge_prev_exact:
  assumes vm: "vma_map vm = ps @ v # ns" and ok: "areas_ok H (ps @ v # ns)"
  shows "if ps \<noteq> [] \<and> continues (last ps) v
    then \<exists>vm'. merge_prev vm (length ps) = Some (length ps - 1, vm')
    else merge_prev vm (length ps) = Some (length ps, vm)"
proof (cases ps rule: rev_cases)
  case Nil
  then show ?thesis by (simp add: merge_prev_def)
next
  case (snoc qs p)
  have ok': "areas_ok H (qs @ p # v # ns)" using ok snoc by simp
  have can: "CanBeMergedWith p v = Some (continues p v)"
    using areas_okD(3,4) [OF ok'] by (intro CanBeMergedWith_iff) auto
  have "vma_at vm (length qs) = Some p" "vma_at vm (Suc (length qs)) = Some v"
    using vm snoc by (simp_all add: vma_at_def nth_append)
  then show ?thesis using vm snoc can by (simp add: merge_prev_def)
qed

lemma Reprotect_exact:
  assumes wf: "vm_wf mk H vm" and unlocked: "\<not> vm_locked vm" and vm: "vma_map vm = ps @ v # ns"
    and none: "\<And>w ws. ns = w # ws \<Longrightarrow> \<not> continues (v\<lparr>permissions := np\<rparr>) w"
  shows "if ps \<noteq> [] \<and> continues (last ps) (v\<lparr>permissions := np\<rparr>)
    then \<exists>vm'. Reprotect mk vm (length ps) np = Some (length ps - 1, vm')
    else \<exists>vm'. Reprotect mk vm (length ps) np = Some (length ps, vm') \<and> vm_wf mk H vm' \<and>
      \<not> vm_locked vm' \<and> vma_map vm' = ps @ v\<lparr>permissions := np\<rparr> # ns"
proof -
  let ?v = "v\<lparr>permissions := np\<rparr>"
  have ok: "areas_ok H (ps @ v # ns)" using wf vm by (simp add: vm_wf_def)
  have ok': "vma_ok H ?v" using areas_okD(5) [OF ok] by (simp add: vma_ok_def)
  have same: "vma_base ?v = vma_base v" "vma_size ?v = vma_size v" by simp_all
  have okn: "areas_ok H (ps @ ?v # ns)" by (rule replace_area(1) [OF ok ok' same])
  obtain ps' u ns' pt' where M: "Option.bind (UpdatePageTableForVMA mk (set_vma vm (length ps) ?v) ?v)
        (\<lambda>vm. MergeAdjacent vm (length ps)) =
      Some (length ps', vm\<lparr>vma_map := ps' @ u # ns', vm_page_table := pt'\<rparr>)"
      "vm_wf mk H (vm\<lparr>vma_map := ps' @ u # ns', vm_page_table := pt'\<rparr>)"
    using modify_spec [OF wf vm ok' same] by blast
  obtain vm1 where u: "UpdatePageTableForVMA mk (set_vma vm (length ps) ?v) ?v = Some vm1"
    using M(1) by (cases "UpdatePageTableForVMA mk (set_vma vm (length ps) ?v) ?v") auto
  have vm1: "vma_map vm1 = ps @ ?v # ns" "vm_locked vm1 = vm_locked vm"
    using u vm by (auto simp: UpdatePageTableForVMA_def set_vma_def split: VMAType.splits bind_splits)
  have merge: "MergeAdjacent vm1 (length ps) = merge_prev vm1 (length ps)"
    using merge_next_none [OF vm1(1) okn none] vm1(1) by (simp add: MergeAdjacent_def)
  have call: "Reprotect mk vm (length ps) np = merge_prev vm1 (length ps)"
    using vm unlocked u merge by (simp add: Reprotect_def Let_def)
  show ?thesis
  proof (cases "ps \<noteq> [] \<and> continues (last ps) ?v")
    case True
    then show ?thesis using merge_prev_exact [OF vm1(1) okn] by (simp add: call)
  next
    case False
    then have p: "merge_prev vm1 (length ps) = Some (length ps, vm1)"
      using merge_prev_exact [OF vm1(1) okn] by (simp only: if_False)
    then have "vm_wf mk H vm1" using M u merge by simp
    then show ?thesis using False p vm1 unlocked by (simp only: call if_False) simp
  qed
qed

section \<open>The loop\<close>

definition rwx :: "vma \<Rightarrow> vma" where
  "rwx v = (if meminfo_state v \<noteq> MS_Free then v\<lparr>permissions := 7\<rparr> else v)"

text \<open>Two neighbours that become one area when both are readable, writable and executable.\<close>

definition joins :: "vma \<Rightarrow> vma \<Rightarrow> bool" where
  "joins v w \<longleftrightarrow> meminfo_state w \<noteq> MS_Free \<and> continues (rwx v) (rwx w)"

fun neighbours_join :: "vma list \<Rightarrow> bool" where
  "neighbours_join (v # w # vs) \<longleftrightarrow> joins v w \<or> neighbours_join (w # vs)"
| "neighbours_join vs \<longleftrightarrow> False"

lemma set_rwx_spec:
  assumes "vm_wf mk H vm" and "\<not> vm_locked vm" and "vma_map vm = map rwx ds @ rest" and "length rest \<le> n"
    and "\<And>v. v \<in> set rest \<Longrightarrow> meminfo_state v \<noteq> MS_Free \<Longrightarrow> permissions v \<noteq> 7"
  shows "(neighbours_join (drop (length ds - 1) ds @ rest) \<longrightarrow> set_rwx mk n (length ds) vm = None) \<and>
    (\<not> neighbours_join (drop (length ds - 1) ds @ rest) \<longrightarrow>
      (\<exists>vm'. set_rwx mk n (length ds) vm = Some vm' \<and> vm_wf mk H vm' \<and> vma_map vm' = map rwx (ds @ rest)))"
  using assms
proof (induction rest arbitrary: vm n ds)
  case Nil
  have "\<not> neighbours_join (drop (length ds - 1) ds)"
    by (cases ds rule: rev_cases) simp_all
  moreover have "set_rwx mk n (length ds) vm = Some vm" using Nil by (cases n) simp_all
  ultimately show ?case using Nil by simp
next
  case (Cons v ns)
  obtain m where n: "n = Suc m" "length ns \<le> m" using Cons.prems(4) by (cases n) auto
  have at: "vma_at vm (length ds) = Some v"
    using vma_at_middle [OF Cons.prems(3)] by simp
  have i: "length ds < length (vma_map vm)" using Cons.prems(3) by simp
  have last_drop: "drop (length (ds @ [v]) - 1) (ds @ [v]) = [v]" by simp
  have nj: "neighbours_join (drop (length ds - 1) ds @ v # ns) \<longleftrightarrow>
      (ds \<noteq> [] \<and> joins (last ds) v) \<or> neighbours_join (v # ns)"
    by (cases ds rule: rev_cases) simp_all
  have IH: "(neighbours_join (v # ns) \<longrightarrow> set_rwx mk m (Suc (length ds)) vm1 = None) \<and>
      (\<not> neighbours_join (v # ns) \<longrightarrow> (\<exists>vm'. set_rwx mk m (Suc (length ds)) vm1 = Some vm' \<and> vm_wf mk H vm' \<and>
        vma_map vm' = map rwx (ds @ v # ns)))"
    if "vm_wf mk H vm1" "\<not> vm_locked vm1" "vma_map vm1 = map rwx ds @ rwx v # ns" for vm1
    using Cons.IH [of vm1 "ds @ [v]" m] that n(2) Cons.prems(5) unfolding last_drop by simp
  show ?case
  proof (cases "meminfo_state v = MS_Free")
    case True
    then have "\<not> joins x v" for x by (simp add: joins_def)
    moreover have "rwx v = v" using True by (simp add: rwx_def)
    ultimately show ?thesis
      using IH [of vm] Cons.prems(1-3) at i True n(1) nj by simp
  next
    case False
    then have rv: "rwx v = v\<lparr>permissions := 7\<rparr>" by (simp add: rwx_def)
    have none: "\<not> continues (v\<lparr>permissions := 7\<rparr>) w" if "ns = w # ws" for w ws
    proof
      assume "continues (v\<lparr>permissions := 7\<rparr>) w"
      then have "meminfo_state w = meminfo_state v" "permissions w = 7"
        by (auto simp: continues_def kind_def)
      with Cons.prems(5) [of w] that False show False by simp
    qed
    have last: "ds \<noteq> [] \<and> joins (last ds) v \<longleftrightarrow>
        map rwx ds \<noteq> [] \<and> continues (last (map rwx ds)) (v\<lparr>permissions := 7\<rparr>)"
      using False rv by (auto simp: joins_def last_map)
    have R: "if map rwx ds \<noteq> [] \<and> continues (last (map rwx ds)) (v\<lparr>permissions := 7\<rparr>)
      then \<exists>vm'. Reprotect mk vm (length ds) 7 = Some (length ds - 1, vm')
      else \<exists>vm'. Reprotect mk vm (length ds) 7 = Some (length ds, vm') \<and> vm_wf mk H vm' \<and>
        \<not> vm_locked vm' \<and> vma_map vm' = map rwx ds @ v\<lparr>permissions := 7\<rparr> # ns"
      by (rule Reprotect_exact [OF Cons.prems(1-3), where np = 7, unfolded length_map]) (erule none)
    show ?thesis
    proof (cases "ds \<noteq> [] \<and> joins (last ds) v")
      case True
      then obtain vm' where "Reprotect mk vm (length ds) 7 = Some (length ds - 1, vm')"
        using R last by (auto split: if_splits)
      moreover have "length ds - 1 \<noteq> length ds" using True by (cases ds) simp_all
      ultimately have "set_rwx mk n (length ds) vm = None"
        using at i False n(1) by simp
      then show ?thesis using True nj by simp
    next
      case no: False
      then obtain vm' where "Reprotect mk vm (length ds) 7 = Some (length ds, vm')" "vm_wf mk H vm'"
          "\<not> vm_locked vm'" "vma_map vm' = map rwx ds @ rwx v # ns"
        using R last rv by (auto split: if_splits)
      then show ?thesis using IH [of vm'] at i False n(1) no nj by auto
    qed
  qed
qed

definition all_rwx :: "addr_info \<Rightarrow> addr_info" where
  "all_rwx x = (case x of (ty, p, st, q) \<Rightarrow> (ty, if st \<noteq> MS_Free then 7 else p, st, q))"

lemma view_rwx: "VMManager.view (map rwx xs) a = map_option all_rwx (VMManager.view xs a)"
  by (induction xs) (auto simp: view_Cons in_area_def rwx_def info_def all_rwx_def)
section \<open>A process with one mapped area\<close>

definition mapped_kernel :: "vm_manager \<Rightarrow> (interval list, unit, unit) svc_state" where
  "mapped_kernel vm = ((example_kernel (example_event Sticky) [] 48)
     \<lparr>processes := [0 \<mapsto> example_process\<lparr>vm_of := vm\<rparr>]\<rparr>, HandleTable_new)"

lemma mapped_kernel_process:
  "get_process (mapped_kernel vm) CurrentProcess = Some 0"
  "processes (fst (mapped_kernel vm)) 0 = Some (example_process\<lparr>vm_of := vm\<rparr>)"
  "km_marker (kernel_memory (fst (mapped_kernel vm))) = (\<lambda>_. False)"
  by (simp_all add: mapped_kernel_def get_process_def get_object_def HandleTable_GetGeneric_def
    example_kernel_def example_kmem_def)

lemma example_mapped_areas: "vma_map example_mapped =
    [\<lparr>vma_base = 0, vma_size = 0x100000, vma_type = VMA_Free, permissions = Perm_None,
       meminfo_state = MS_Free, backing_memory = null_ref\<rparr>,
     \<lparr>vma_base = 0x100000, vma_size = 0x2000, vma_type = VMA_BackingMemory,
       permissions = Perm_ReadWrite, meminfo_state = MS_Private, backing_memory = example_ref\<rparr>,
     \<lparr>vma_base = 0x102000, vma_size = 0x3FEFE000, vma_type = VMA_Free, permissions = Perm_None,
       meminfo_state = MS_Free, backing_memory = null_ref\<rparr>]"
  by (simp add: evaluate_mapping example_mapped_def example_ref_def example_buffer_def map_two_pages)

lemma example_mapped_neighbours:
  "\<not> neighbours_join (vma_map example_mapped)"
  "list_all (\<lambda>v. meminfo_state v \<noteq> MS_Free \<longrightarrow> permissions v \<noteq> 7) (vma_map example_mapped)"
  by (simp_all add: example_mapped_areas joins_def rwx_def continues_def kind_def)


end
