(* ===== verification/SharedMappings.thy ===== *)
theory SharedMappings
  imports SharedMemory ProcessControl
begin

text \<open>Memory that two address spaces share: what a mapping of given permissions shows, for shared memory
  blocks and for the calls on another process's memory. Protecting a new mapping may protect the area it
  was merged with, so that other addresses keep what they map to and perhaps not their permissions.\<close>

section \<open>Mapping with permissions\<close>

lemma unprotected_info:
  "unprotected (Some (info (v\<lparr>permissions := np\<rparr>) a)) = unprotected (Some (info v a))"
  by (simp add: info_def)

lemma reprotect_view:
  assumes wf: "vm_wf mk H vm" and unlocked: "\<not> vm_locked vm" and v: "vma_at vm i = Some v"
  shows "\<exists>j vm'. Reprotect mk vm i np = Some (j, vm') \<and> vm_wf mk H vm' \<and> \<not> vm_locked vm' \<and>
    VMManager.view (vma_map vm') = (\<lambda>a. if in_area a v then Some (info (v\<lparr>permissions := np\<rparr>) a) else VMManager.view (vma_map vm) a) \<and>
    (\<forall>a. in_area a v \<longrightarrow> VMManager.view (vma_map vm) a = Some (info v a))"
proof -
  define ps where "ps = take i (vma_map vm)"
  define ns where "ns = drop (Suc i) (vma_map vm)"
  have i: "i < length (vma_map vm)" "vma_map vm ! i = v"
    using v by (auto simp: vma_at_def split: if_splits)
  then have vm: "vma_map vm = ps @ v # ns" and len: "length ps = i"
    unfolding ps_def ns_def by (auto simp: id_take_nth_drop)
  have ok: "areas_ok H (ps @ v # ns)" using wf vm by (simp add: vm_wf_def)
  have ok': "vma_ok H (v\<lparr>permissions := np\<rparr>)" using areas_okD(5) [OF ok] by (simp add: vma_ok_def)
  have same: "vma_base (v\<lparr>permissions := np\<rparr>) = vma_base v" "vma_size (v\<lparr>permissions := np\<rparr>) = vma_size v"
    by simp_all
  obtain ps' u ns' pt where m: "Option.bind (UpdatePageTableForVMA mk
          (set_vma vm (length ps) (v\<lparr>permissions := np\<rparr>)) (v\<lparr>permissions := np\<rparr>))
        (\<lambda>vm. MergeAdjacent vm (length ps)) =
      Some (length ps', vm\<lparr>vma_map := ps' @ u # ns', vm_page_table := pt\<rparr>)"
    "vm_wf mk H (vm\<lparr>vma_map := ps' @ u # ns', vm_page_table := pt\<rparr>)"
    "VMManager.view (ps' @ u # ns') =
      (\<lambda>a. if in_area a v then Some (info (v\<lparr>permissions := np\<rparr>) a) else VMManager.view (vma_map vm) a)"
    using modify_spec [OF wf vm ok' same] by blast
  have "Reprotect mk vm i np = Some (length ps', vm\<lparr>vma_map := ps' @ u # ns', vm_page_table := pt\<rparr>)"
    using m(1) v len unlocked by (simp add: Reprotect_def Let_def)
  moreover have "\<forall>a. in_area a v \<longrightarrow> VMManager.view (vma_map vm) a = Some (info v a)"
    using view_middle(1) [OF areas_okD(7) [OF ok]] by (simp add: vm)
  ultimately show ?thesis using m(2,3) unlocked by simp
qed

text \<open>The mapping that a block's permissions are put on.\<close>

definition shows_range :: "vma list \<Rightarrow> u32 \<Rightarrow> u32 \<Rightarrow> addr_info \<Rightarrow> bool" where
  "shows_range xs t sz x \<longleftrightarrow> (case x of (ty, p, s, q) \<Rightarrow>
     \<forall>a. unat t \<le> a \<and> a < unat t + unat sz \<longrightarrow> VMManager.view xs a = Some (ty, p, s, q + of_nat (a - unat t)))"

definition same_but :: "u32 \<Rightarrow> u32 \<Rightarrow> vma list \<Rightarrow> vma list \<Rightarrow> bool" where
  "same_but t sz xs ys \<longleftrightarrow> (\<forall>a. \<not> (unat t \<le> a \<and> a < unat t + unat sz) \<longrightarrow>
     unprotected (VMManager.view ys a) = unprotected (VMManager.view xs a))"

lemma map_and_protect:
  assumes wf: "vm_wf mk H vm" and unlocked: "\<not> vm_locked vm"
    and al: "page_aligned t" "page_aligned sz"
    and fit: "0 < unat sz" "unat t + unat sz < 2 ^ 32"
    and ref: "ref_covers memory (unat sz)" "the (backing_mem memory) \<in> H"
    and room: "free_room vm t sz"
  shows "\<exists>i w j vm'. MapBackingMemory mk vm t memory sz state = Some (Inr (i, w)) \<and>
    Reprotect mk w i np = Some (j, vm') \<and> vm_wf mk H vm' \<and> \<not> vm_locked vm' \<and>
    shows_range (vma_map vm') t sz (VMA_BackingMemory, np, state, GetPtr memory) \<and>
    same_but t sz (vma_map vm) (vma_map vm')"
proof -
  obtain i w v where w: "MapBackingMemory mk vm t memory sz state = Some (Inr (i, w))"
      "vm_wf mk H w" "\<not> vm_locked w" "vma_at w i = Some v"
      "unat (vma_base v) \<le> unat t" "unat t + unat sz \<le> vma_end v"
      "VMManager.view (vma_map w) = (\<lambda>a. if unat t \<le> a \<and> a < unat t + unat sz
        then Some (VMA_BackingMemory, Perm_ReadWrite, state, GetPtr memory + of_nat (a - unat t))
        else VMManager.view (vma_map vm) a)"
    using MapBackingMemory_ok [OF wf unlocked al fit ref room, of state] by blast
  obtain j vm' where r: "Reprotect mk w i np = Some (j, vm')" "vm_wf mk H vm'" "\<not> vm_locked vm'"
      "VMManager.view (vma_map vm') = (\<lambda>a. if in_area a v then Some (info (v\<lparr>permissions := np\<rparr>) a) else VMManager.view (vma_map w) a)"
      "\<forall>a. in_area a v \<longrightarrow> VMManager.view (vma_map w) a = Some (info v a)"
    using reprotect_view [OF w(2-4), of np] by blast
  have un: "unprotected (VMManager.view (vma_map vm') a) = unprotected (VMManager.view (vma_map w) a)" for a
    using r(4,5) unprotected_info by simp
  have "VMManager.view (vma_map vm') a = Some (VMA_BackingMemory, np, state, GetPtr memory + of_nat (a - unat t))"
    if a: "unat t \<le> a" "a < unat t + unat sz" for a
  proof -
    have "in_area a v" using a w(5,6) by (simp add: in_area_def)
    with a w(7) r(4,5) show ?thesis by (auto simp: info_def)
  qed
  then have "shows_range (vma_map vm') t sz (VMA_BackingMemory, np, state, GetPtr memory)"
    by (simp add: shows_range_def)
  moreover have "same_but t sz (vma_map vm) (vma_map vm')"
    using un w(7) by (auto simp: same_but_def)
  ultimately show ?thesis using w(1) r(1-3) by blast
qed

section \<open>The memory of another process\<close>

lemma area_end_less:
  assumes ok: "areas_ok H xs" and v: "v \<in> set xs"
  shows "vma_end v \<le> 0x40000000"
proof -
  obtain ps ns where "xs = ps @ v # ns" using v by (meson split_list)
  with ok have "areas_ok H (ps @ v # ns)" by simp
  then show ?thesis by (rule areas_okD(4))
qed

lemma round_size_aligned: "page_aligned (round_size sz)"
proof (cases "sz AND 0xFFF = 0")
  case True
  then show ?thesis by (simp add: round_size_def page_aligned_def)
next
  case False
  define x where "x = sz AND NOT 0xFFF"
  have "(sz AND NOT m) AND m = 0" for m :: u32 by (rule bit_eqI) (auto simp: bit_and_iff bit_not_iff)
  then have "x AND 0xFFF = 0" unfolding x_def by blast
  then have x: "unat x mod 0x1000 = 0" using page_aligned_iff [of x] by (simp add: page_aligned_def)
  have "unat (x + 0x1000) = (unat x + 0x1000) mod 2 ^ 32" by (simp add: unat_word_ariths)
  moreover have "(unat x + 0x1000) mod 2 ^ 32 mod 0x1000 = (unat x + 0x1000) mod 0x1000"
    by (rule mod_mod_cancel) simp
  ultimately have "unat (x + 0x1000) mod 0x1000 = 0" using x by (metis mod_add_self2)
  then show ?thesis using False by (simp add: round_size_def page_aligned_iff x_def)
qed

definition one_linear_area :: "vm_manager \<Rightarrow> u32 \<Rightarrow> u32 \<Rightarrow> bool" where
  "one_linear_area vm t sz \<longleftrightarrow> (\<exists>v \<in> set (vma_map vm). vma_type v = VMA_BackingMemory \<and>
     meminfo_state v = MS_Continuous \<and> unat (vma_base v) \<le> unat t \<and> unat t + unat sz \<le> vma_end v)"

lemma linear_vma_spec:
  assumes ok: "areas_ok H (vma_map vm)"
  shows "\<exists>res. linear_vma vm t = Some res \<and> (case res of
      Inl e \<Rightarrow> e = ResultInvalidAddress \<and> (0 < unat sz \<longrightarrow> \<not> one_linear_area vm t sz)
    | Inr v \<Rightarrow> v \<in> set (vma_map vm) \<and> vma_type v = VMA_BackingMemory \<and> meminfo_state v = MS_Continuous \<and>
        unat (vma_base v) \<le> unat t \<and> unat t < vma_end v \<and>
        (0 < unat sz \<longrightarrow> one_linear_area vm t sz = (unat t + unat sz \<le> vma_end v)))"
proof (cases "unat t < 0x40000000")
  case False
  have "\<not> one_linear_area vm t sz" if "0 < unat sz"
  proof
    assume "one_linear_area vm t sz"
    then obtain v where v: "v \<in> set (vma_map vm)" "unat t + unat sz \<le> vma_end v"
      by (auto simp: one_linear_area_def)
    have "vma_end v \<le> 0x40000000" by (rule area_end_less [OF ok v(1)])
    with v(2) that False show False by simp
  qed
  then show ?thesis using False by (simp add: linear_vma_def FindVMA_end)
next
  case True
  obtain ps v ns where v: "vma_map vm = ps @ v # ns" "FindVMA vm t = Some (length ps)"
      "unat (vma_base v) \<le> unat t" "unat t < vma_end v"
    using FindVMA_spec [OF ok True] by blast
  have okv: "areas_ok H (ps @ v # ns)" using ok v(1) by simp
  note D = areas_okD [OF okv]
  have uniq: "w = v" if "w \<in> set (vma_map vm)" "unat (vma_base w) \<le> unat t" "unat t < vma_end w" for w
    using that tiles_bounds [OF D(1), of w] tiles_bounds [OF D(3), of w] v by auto
  have one: "one_linear_area vm t sz = (vma_type v = VMA_BackingMemory \<and> meminfo_state v = MS_Continuous \<and>
      unat t + unat sz \<le> vma_end v)" if "0 < unat sz"
    using that uniq v unfolding one_linear_area_def by fastforce
  have "linear_vma vm t = Some (if vma_type v = VMA_BackingMemory \<and> meminfo_state v = MS_Continuous
      then Inr v else Inl ResultInvalidAddress)"
    using v(1,2) by (simp add: linear_vma_def)
  then show ?thesis using one v by (auto split: if_splits)
qed

lemma map_refused:
  assumes wf: "vm_wf mk H vm" and unlocked: "\<not> vm_locked vm"
    and al: "page_aligned t" "page_aligned sz"
    and fit: "0 < unat sz" "unat t + unat sz < 2 ^ 32"
    and ref: "ref_covers memory (unat sz)" and room: "\<not> free_room vm t sz"
  shows "\<exists>e. MapBackingMemory mk vm t memory sz state = Some (Inl e)"
proof -
  have ok: "areas_ok H (vma_map vm)" using wf by (simp add: vm_wf_def)
  have "\<exists>e. CarveVMA vm t sz = Some (Inl e)"
    using CarveVMA_spec [OF ok al fit] room unfolding free_room_def
    by (cases "0x40000000 \<le> unat t") auto
  then show ?thesis using unlocked ref_covers_ptr(1) [OF ref] by (auto simp: MapBackingMemory_def)
qed

text \<open>A reference into FCRAM at the place of an area's byte.\<close>

lemma fcram_place:
  assumes f: "fcram_ok H menv" and b: "backing_mem r = Some (fcram_mem (phys menv))"
    and cov: "ref_covers r n" and o: "unat (off :: u32) + m \<le> n"
  shows "\<exists>fcram ref. GetFCRAMPointer menv 0 = Some fcram \<and>
    GetFCRAMRef menv (GetPtr r + ucast off - fcram) = Some ref \<and>
    ref_covers ref m \<and> the (backing_mem ref) \<in> H \<and> GetPtr ref = GetPtr r + ucast off"
proof -
  let ?b = "fcram_mem (phys menv)"
  have sz: "unat (hb_size ?b) = 0x10000000" and h: "?b \<in> H" "hb_ptr ?b \<noteq> 0" "unat (hb_ptr ?b) + unat (hb_size ?b) < 2 ^ 64"
    using f by (simp_all add: fcram_ok_def Let_def)
  have r: "unat (ref_offset r) + n \<le> unat (hb_size ?b)" using cov b by (simp add: ref_covers_def)
  have p: "GetPtr r + ucast off - hb_ptr ?b = ref_offset r + ucast off" using b by (simp add: GetPtr_def)
  have u: "unat (ref_offset r + ucast off) = unat (ref_offset r) + unat off"
    using r sz o by (subst unat_plus_fits64) (simp_all add: unsigned_ucast_eq)
  have "ref_offset r + ucast off \<le> ucast FCRAM_N3DS_SIZE" "ref_offset r + ucast off \<le> hb_size ?b"
    using u r sz o by (simp_all add: word_le_nat_alt)
  then have "GetFCRAMRef menv (ref_offset r + ucast off) =
      Some \<lparr>backing_mem = Some ?b, ref_offset = ref_offset r + ucast off\<rparr>"
    by (simp add: GetFCRAMRef_def MemoryRef_at_def)
  moreover have "GetFCRAMPointer menv 0 = Some (hb_ptr ?b)" by (simp add: GetFCRAMPointer_def)
  ultimately show ?thesis
    using p u r o b h by (simp add: ref_covers_def GetPtr_def add.assoc)
qed

text \<open>A part of an area of linear memory: the code's offset, its bound, and the reference it takes.\<close>

lemma linear_offset:
  assumes "unat (vma_base v) \<le> unat a" "unat a + unat n < 2 ^ 32"
  shows "unat (a - vma_base v) = unat a - unat (vma_base v)"
    and "a - vma_base v + n \<le> vma_size v \<longleftrightarrow> unat a + unat n \<le> vma_end v"
proof -
  show off: "unat (a - vma_base v) = unat a - unat (vma_base v)"
    using assms(1) by (simp add: unat_sub word_le_nat_alt)
  then have "unat (a - vma_base v + n) = unat (a - vma_base v) + unat n"
    using assms by (intro unat_plus_fits) simp
  then show "a - vma_base v + n \<le> vma_size v \<longleftrightarrow> unat a + unat n \<le> vma_end v"
    using off assms(1) by (simp add: word_le_nat_alt) linarith
qed

lemma linear_part:
  assumes ok: "areas_ok H xs" and f: "fcram_ok H menv"
    and v: "v \<in> set xs" "vma_type v = VMA_BackingMemory" "meminfo_state v = MS_Continuous" "unat (vma_base v) \<le> unat a"
    and b: "backing_mem (backing_memory v) = Some (fcram_mem (phys menv))"
    and inside: "unat a + unat n \<le> vma_end v"
  shows "\<exists>fcram ref. GetFCRAMPointer menv 0 = Some fcram \<and>
    GetFCRAMRef menv (GetPtr (backing_memory v) + ucast (a - vma_base v) - fcram) = Some ref \<and>
    ref_covers ref (unat n) \<and> the (backing_mem ref) \<in> H \<and>
    (\<forall>i < unat n. VMManager.view xs (unat a + i) =
      Some (VMA_BackingMemory, permissions v, MS_Continuous, GetPtr ref + of_nat i))"
proof -
  obtain ps ns where split: "xs = ps @ v # ns" using v(1) by (meson split_list)
  note D = areas_okD [OF ok [unfolded split]]
  define off where "off = a - vma_base v"
  have off: "unat off = unat a - unat (vma_base v)"
    unfolding off_def using v(4) by (simp add: unat_sub word_le_nat_alt)
  have cov: "ref_covers (backing_memory v) (unat (vma_size v))" using D(5) v(2) by (simp add: vma_ok_def)
  have "unat off + unat n \<le> unat (vma_size v)" using inside off v(4) by simp
  from fcram_place [OF f b cov this] obtain fcram ref where
    fc: "GetFCRAMPointer menv 0 = Some fcram"
      "GetFCRAMRef menv (GetPtr (backing_memory v) + ucast off - fcram) = Some ref"
      "ref_covers ref (unat n)" "the (backing_mem ref) \<in> H"
    and ref: "GetPtr ref = GetPtr (backing_memory v) + ucast off" by blast
  have "VMManager.view xs (unat a + i) = Some (VMA_BackingMemory, permissions v, MS_Continuous, GetPtr ref + of_nat i)"
    if i: "i < unat n" for i
  proof -
    have area: "in_area (unat a + i) v" using i inside v(4) by (simp add: in_area_def)
    have "unat a + i - unat (vma_base v) = unat off + i" using off v(4) by simp
    then have "info v (unat a + i) = (VMA_BackingMemory, permissions v, MS_Continuous, GetPtr ref + of_nat i)"
      using v(2,3) ref by (simp add: info_def of_nat_unat_u32 add.assoc)
    then show ?thesis using view_middle(1) [OF D(7)] area by (simp add: split)
  qed
  then show ?thesis using fc unfolding off_def by blast
qed


section \<open>Shared memory blocks\<close>

text \<open>What the block's creator allows, and the addresses where a block may be placed.\<close>

definition mapping_granted :: "'s shared_memory \<Rightarrow> nat \<Rightarrow> u32 \<Rightarrow> u32 \<Rightarrow> bool" where
  "mapping_granted sm i perms other_perms \<longleftrightarrow>
     perms AND NOT (if sm_owner sm = Some i then sm_permissions sm else sm_other_permissions sm) = 0 \<and>
     (if base_address sm = 0 then other_perms = Permission_DontCare
      else other_perms \<noteq> Permission_DontCare \<and> sm_permissions sm AND NOT other_perms = 0)"

definition mapping_placed :: "'s shared_memory \<Rightarrow> u32 \<Rightarrow> bool" where
  "mapping_placed sm address \<longleftrightarrow>
     address = 0 \<or> HEAP_VADDR \<le> address \<and> address + sm_size sm < SHARED_MEMORY_VADDR_END"

definition mapping_target :: "'s shared_memory \<Rightarrow> u32 \<Rightarrow> u32" where
  "mapping_target sm address = (if base_address sm = 0 \<and> address = 0
     then linear_heap_phys_offset sm + LINEAR_HEAP_VADDR else address)"

text \<open>The area at an address is free and large enough exactly when there is room.\<close>

lemma room_at:
  assumes ok: "areas_ok H (vma_map vm)" and t: "unat t < 0x40000000" and fit: "0 < unat sz" "unat t + unat sz < 2 ^ 32"
  shows "\<exists>i v. FindVMA vm t = Some i \<and> vma_at vm i = Some v \<and>
    (free_room vm t sz \<longleftrightarrow> \<not> (vma_type v \<noteq> VMA_Free \<or> vma_base v + vma_size v < t + sz))"
proof -
  obtain ps v ns where v: "vma_map vm = ps @ v # ns" "FindVMA vm t = Some (length ps)"
      "unat (vma_base v) \<le> unat t" "unat t < vma_end v"
    using FindVMA_spec [OF ok t] by blast
  have okv: "areas_ok H (ps @ v # ns)" using ok v(1) by simp
  note D = areas_okD [OF okv]
  have uniq: "w = v" if "w \<in> set (vma_map vm)" "unat (vma_base w) \<le> unat t" "unat t < vma_end w" for w
    using that tiles_bounds [OF D(1), of w] tiles_bounds [OF D(3), of w] v by auto
  have "free_room vm t sz \<longleftrightarrow> vma_type v = VMA_Free \<and> unat t + unat sz \<le> vma_end v"
    using fit(1) uniq v unfolding free_room_def by fastforce
  moreover have "unat (vma_base v + vma_size v) = vma_end v" "unat (t + sz) = unat t + unat sz"
    using D(4) fit(2) by (auto intro!: unat_plus_fits)
  ultimately show ?thesis using v(1,2) by (auto simp: word_less_nat_alt)
qed

lemma SharedMemory_Map_at:
  assumes at: "FindVMA vm (mapping_target sm address) = Some j" "vma_at vm j = Some v"
    and room: "room \<longleftrightarrow> \<not> (vma_type v \<noteq> VMA_Free \<or> vma_base v + vma_size v < mapping_target sm address + sm_size sm)"
  shows "mapping_granted sm i perms other_perms \<and> mapping_placed sm address \<and> room \<Longrightarrow>
      SharedMemory_Map mk sm i address perms other_perms vm = map_option Inr (map_blocks mk (sm_backing_blocks sm)
        (mapping_target sm address) MS_Shared (ConvertPermissions perms) vm)"
    and "\<not> (mapping_granted sm i perms other_perms \<and> mapping_placed sm address \<and> room) \<Longrightarrow>
      \<exists>e. SharedMemory_Map mk sm i address perms other_perms vm = Some (Inl e)"
proof -
  define own where "own = (if sm_owner sm = Some i then sm_permissions sm else sm_other_permissions sm)"
  define B where "B \<longleftrightarrow> perms AND NOT own = 0"
  define D where "D \<longleftrightarrow> sm_permissions sm AND NOT other_perms = 0"
  define dc where "dc \<longleftrightarrow> other_perms = Permission_DontCare"
  define z where "z \<longleftrightarrow> base_address sm = 0"
  define E where "E \<longleftrightarrow> mapping_placed sm address"
  have E: "(address \<noteq> 0 \<and> (address < HEAP_VADDR \<or> address + sm_size sm \<ge> SHARED_MEMORY_VADDR_END)) \<longleftrightarrow> \<not> E"
    unfolding E_def mapping_placed_def by (simp only: de_Morgan_disj de_Morgan_conj not_le not_less)
  have g: "mapping_granted sm i perms other_perms \<longleftrightarrow> B \<and> (if z then dc else \<not> dc \<and> D)"
    unfolding mapping_granted_def own_def [symmetric] B_def D_def dc_def z_def ..
  have call: "SharedMemory_Map mk sm i address perms other_perms vm =
      (if z \<and> \<not> dc then Some (Inl ResultInvalidCombination)
       else if \<not> B then Some (Inl ResultInvalidCombination)
       else if \<not> z \<and> dc then Some (Inl ResultInvalidCombination)
       else if \<not> dc \<and> \<not> D then Some (Inl ResultWrongPermission)
       else if \<not> E then Some (Inl ResultInvalidAddress)
       else if \<not> room then Some (Inl ResultInvalidAddressState)
       else map_option Inr (map_blocks mk (sm_backing_blocks sm)
         (mapping_target sm address) MS_Shared (ConvertPermissions perms) vm))"
    unfolding SharedMemory_Map_def Let_def own_def [symmetric] E mapping_target_def [symmetric]
      at(1) Option.bind.simps at(2) room not_not
    unfolding B_def D_def dc_def z_def ..
  show "mapping_granted sm i perms other_perms \<and> mapping_placed sm address \<and> room \<Longrightarrow>
      SharedMemory_Map mk sm i address perms other_perms vm = map_option Inr (map_blocks mk (sm_backing_blocks sm)
        (mapping_target sm address) MS_Shared (ConvertPermissions perms) vm)"
    unfolding call g E_def [symmetric] by (cases z) simp_all
  show "\<not> (mapping_granted sm i perms other_perms \<and> mapping_placed sm address \<and> room) \<Longrightarrow>
      \<exists>e. SharedMemory_Map mk sm i address perms other_perms vm = Some (Inl e)"
    unfolding call g E_def [symmetric] by (cases z; cases dc; cases B; cases D; cases E; cases room) simp_all
qed

text \<open>C21: Mapping a block of one piece always returns. It succeeds exactly when the creator's permissions
  allow it, the address may be used and the range is free; then the range shows the block's bytes with
  the permissions asked for and every other address maps to what it did. Unmapping it again succeeds and
  frees exactly that range.\<close>

theorem shared_block_round_trip:
  assumes wf: "vm_wf mk H vm" and unlocked: "\<not> vm_locked vm"
    and block: "sm_backing_blocks sm = [(ref, sm_size sm)]" "page_aligned (sm_size sm)" "0 < unat (sm_size sm)"
      "ref_covers ref (unat (sm_size sm))" "the (backing_mem ref) \<in> H"
    and t: "page_aligned (mapping_target sm address)" "unat (mapping_target sm address) < 0x40000000"
      "unat (mapping_target sm address) + unat (sm_size sm) < 2 ^ 32"
  shows "\<exists>r. SharedMemory_Map mk sm i address perms other_perms vm = Some r \<and>
    (case r of
       Inl e \<Rightarrow> \<not> (mapping_granted sm i perms other_perms \<and> mapping_placed sm address \<and>
         free_room vm (mapping_target sm address) (sm_size sm))
     | Inr vm' \<Rightarrow> mapping_granted sm i perms other_perms \<and> mapping_placed sm address \<and>
         free_room vm (mapping_target sm address) (sm_size sm) \<and> vm_wf mk H vm' \<and>
         shows_range (vma_map vm') (mapping_target sm address) (sm_size sm)
           (VMA_BackingMemory, ConvertPermissions perms, MS_Shared, GetPtr ref) \<and>
         same_but (mapping_target sm address) (sm_size sm) (vma_map vm) (vma_map vm') \<and>
         (\<exists>vm''. SharedMemory_Unmap mk sm (mapping_target sm address) vm' = Some (Inr vm'') \<and> vm_wf mk H vm'' \<and>
           (\<forall>a. VMManager.view (vma_map vm'') a =
             (if unat (mapping_target sm address) \<le> a \<and> a < unat (mapping_target sm address) + unat (sm_size sm)
              then Some free_info else VMManager.view (vma_map vm') a))))"
proof -
  let ?t = "mapping_target sm address" and ?sz = "sm_size sm"
  have ok: "areas_ok H (vma_map vm)" using wf by (simp add: vm_wf_def)
  obtain j v where at: "FindVMA vm ?t = Some j" "vma_at vm j = Some v"
      "free_room vm ?t ?sz \<longleftrightarrow> \<not> (vma_type v \<noteq> VMA_Free \<or> vma_base v + vma_size v < ?t + ?sz)"
    using room_at [OF ok t(2) block(3) t(3)] by blast
  show ?thesis
  proof (cases "mapping_granted sm i perms other_perms \<and> mapping_placed sm address \<and> free_room vm ?t ?sz")
    case False
    from SharedMemory_Map_at(2) [OF at this] obtain e where
      "SharedMemory_Map mk sm i address perms other_perms vm = Some (Inl e)" by blast
    with False show ?thesis by simp
  next
    case True
    obtain i1 w j1 vm' where m: "MapBackingMemory mk vm ?t ref ?sz MS_Shared = Some (Inr (i1, w))"
        "Reprotect mk w i1 (ConvertPermissions perms) = Some (j1, vm')" "vm_wf mk H vm'" "\<not> vm_locked vm'"
        "shows_range (vma_map vm') ?t ?sz (VMA_BackingMemory, ConvertPermissions perms, MS_Shared, GetPtr ref)"
        "same_but ?t ?sz (vma_map vm) (vma_map vm')"
      using map_and_protect [OF wf unlocked t(1) block(2,3) t(3) block(4,5), of MS_Shared "ConvertPermissions perms"] True
      by blast
    have "map_blocks mk [(ref, ?sz)] ?t MS_Shared (ConvertPermissions perms) vm = Some vm'"
      using m(1,2) by simp
    with SharedMemory_Map_at(1) [OF at True, of mk] have map:
        "SharedMemory_Map mk sm i address perms other_perms vm = Some (Inr vm')"
      by (simp only: block(1) option.map)
    obtain u where u: "u \<in> set (vma_map vm)" "unat ?t + unat ?sz \<le> vma_end u"
      using True by (auto simp: free_room_def)
    have end_: "unat ?t + unat ?sz \<le> 0x40000000" by (rule order_trans [OF u(2) area_end_less [OF ok u(1)]])
    have "\<And>a. unat ?t \<le> a \<Longrightarrow> a < unat ?t + unat ?sz \<Longrightarrow>
        \<exists>p s q. VMManager.view (vma_map vm') a = Some (VMA_BackingMemory, p, s, q)"
      using m(5) by (auto simp: shows_range_def)
    from unmap_mapped [OF m(3,4) t(1) block(2,3) end_ this] obtain vm'' where
      "UnmapRange mk vm' ?t ?sz = Some (Inr vm'')" "vm_wf mk H vm''"
      "VMManager.view (vma_map vm'') = (\<lambda>a. if unat ?t \<le> a \<and> a < unat ?t + unat ?sz then Some free_info
                             else VMManager.view (vma_map vm') a)" by blast
    then show ?thesis using True map m(3,5,6) by (simp add: SharedMemory_Unmap_def)
  qed
qed

section \<open>The properties at concrete inputs\<close>

definition fcram_block :: memory_ref where
  "fcram_block = \<lparr>backing_mem = Some (fcram_mem example_bufs), ref_offset = 0x4000\<rparr>"

definition linear_vm :: vm_manager where
  "linear_vm = (case MapBackingMemory (\<lambda>_. False) example_vm 0x30004000 fcram_block 0x2000 MS_Continuous of
     Some (Inr (i, vm)) \<Rightarrow> vm | _ \<Rightarrow> example_vm)"

lemma linear_vm_areas: "vma_map linear_vm =
    [\<lparr>vma_base = 0, vma_size = 0x30004000, vma_type = VMA_Free, permissions = Perm_None,
       meminfo_state = MS_Free, backing_memory = null_ref\<rparr>,
     \<lparr>vma_base = 0x30004000, vma_size = 0x2000, vma_type = VMA_BackingMemory,
       permissions = Perm_ReadWrite, meminfo_state = MS_Continuous, backing_memory = fcram_block\<rparr>,
     \<lparr>vma_base = 0x30006000, vma_size = 0xFFFA000, vma_type = VMA_Free, permissions = Perm_None,
       meminfo_state = MS_Free, backing_memory = null_ref\<rparr>]"
  by (simp add: evaluate_mapping linear_vm_def fcram_block_def map_two_pages)

lemma fcram_block_ok:
  "ref_covers fcram_block (unat (0x2000 :: u32))" "the (backing_mem fcram_block) \<in> {fcram_mem example_bufs}"
  "GetPtr fcram_block = 0x30004000"
  by (simp_all add: fcram_block_def ref_covers_def example_bufs_def GetPtr_def)

lemma linear_vm_wf: "vm_wf (\<lambda>_. False) {fcram_mem example_bufs} linear_vm"
proof -
  have al: "page_aligned 0x30004000" "page_aligned 0x2000" by (simp_all add: page_aligned_def)
  have room: "free_room example_vm 0x30004000 0x2000"
    by (simp add: free_room_def example_vm_def initial_vma_def)
  show ?thesis
    using MapBackingMemory_ok [OF example_process_vm example_vm_unlocked al _ _ fcram_block_ok(1,2) room, of MS_Continuous]
    by (auto simp: linear_vm_def)
qed

definition two_processes :: "(interval list, unit, unit) svc_state" where
  "two_processes = ((example_kernel (example_event Sticky) [] 48)
     \<lparr>processes := [0 \<mapsto> example_process\<lparr>vm_of := linear_vm\<rparr>, 2 \<mapsto> example_process\<lparr>vm_of := example_vm\<rparr>]\<rparr>,
     case HandleTable_Create HandleTable_new (HProcess 2) of Inr (h, t) \<Rightarrow> t | _ \<Rightarrow> HandleTable_new)"

lemma two_processes_handles:
  "get_process two_processes CurrentProcess = Some 0" "get_process two_processes 1 = Some 2"
proof -
  show "get_process two_processes CurrentProcess = Some 0"
    by (simp add: two_processes_def get_process_def get_object_def HandleTable_GetGeneric_def example_kernel_def)
  have "HandleTable_GetGeneric x y
      (case HandleTable_Create HandleTable_new (HProcess 2) of Inr (h, t) \<Rightarrow> t | _ \<Rightarrow> HandleTable_new) 1 = Some (HProcess 2)"
    for x y by code_simp
  then show "get_process two_processes 1 = Some 2"
    by (simp add: two_processes_def get_process_def get_object_def)
qed


definition shared_block :: "interval list shared_memory" where
  "shared_block = \<lparr>linear_heap_phys_offset = 0x4000, sm_backing_blocks = [(fcram_block, 0x2000)], sm_size = 0x2000,
     sm_region = 2, sm_permissions = 3, sm_other_permissions = 1, sm_owner = Some 0, base_address = 0,
     sm_holding_memory = []\<rparr>"

lemma shared_block_round_trip_witness:
  "\<exists>vm' vm''. SharedMemory_Map (\<lambda>_. False) shared_block 2 0x10000000 1 Permission_DontCare example_vm = Some (Inr vm') \<and>
    VMManager.view (vma_map vm') 0x10001008 = Some (VMA_BackingMemory, Perm_Read, MS_Shared, 0x30005008) \<and>
    SharedMemory_Unmap (\<lambda>_. False) shared_block 0x10000000 vm' = Some (Inr vm'') \<and>
    VMManager.view (vma_map vm'') 0x10001008 = Some free_info"
proof -
  have t: "mapping_target shared_block 0x10000000 = 0x10000000" by (simp add: mapping_target_def shared_block_def)
  have sz: "sm_size shared_block = 0x2000" by (simp add: shared_block_def)
  have block: "sm_backing_blocks shared_block = [(fcram_block, sm_size shared_block)]"
    "page_aligned (sm_size shared_block)" "0 < unat (sm_size shared_block)"
    "ref_covers fcram_block (unat (sm_size shared_block))"
    using fcram_block_ok(1) example_aligned(2) by (simp_all add: shared_block_def)
  have al: "page_aligned (mapping_target shared_block 0x10000000)"
    "unat (mapping_target shared_block 0x10000000) < 0x40000000"
    "unat (mapping_target shared_block 0x10000000) + unat (sm_size shared_block) < 2 ^ 32"
    by (simp_all add: t sz page_aligned_def)
  have ok: "mapping_granted shared_block 2 1 Permission_DontCare \<and> mapping_placed shared_block 0x10000000 \<and>
      free_room example_vm (mapping_target shared_block 0x10000000) (sm_size shared_block)"
    unfolding t sz by (simp add: mapping_granted_def mapping_placed_def shared_block_def free_room_def
      example_vm_def initial_vma_def)
  have c: "ConvertPermissions 1 = Perm_Read" by (simp add: ConvertPermissions_def)
  note round = shared_block_round_trip [OF example_process_vm example_vm_unlocked block fcram_block_ok(2) al]
  obtain vm' vm'' where r: "SharedMemory_Map (\<lambda>_. False) shared_block 2 0x10000000 1 Permission_DontCare example_vm = Some (Inr vm')"
      "shows_range (vma_map vm') 0x10000000 0x2000 (VMA_BackingMemory, Perm_Read, MS_Shared, 0x30004000)"
      "SharedMemory_Unmap (\<lambda>_. False) shared_block 0x10000000 vm' = Some (Inr vm'')"
      "VMManager.view (vma_map vm'') = (\<lambda>a. if unat (0x10000000 :: u32) \<le> a \<and> a < unat (0x10000000 :: u32) + unat (0x2000 :: u32)
        then Some free_info else VMManager.view (vma_map vm') a)"
  proof -
    obtain r where call: "SharedMemory_Map (\<lambda>_. False) shared_block 2 0x10000000 1 Permission_DontCare example_vm = Some r"
      and s: "case r of
         Inl e \<Rightarrow> \<not> (mapping_granted shared_block 2 1 Permission_DontCare \<and> mapping_placed shared_block 0x10000000 \<and>
           free_room example_vm 0x10000000 0x2000)
       | Inr vm' \<Rightarrow> shows_range (vma_map vm') 0x10000000 0x2000 (VMA_BackingMemory, Perm_Read, MS_Shared, 0x30004000) \<and>
           (\<exists>vm''. SharedMemory_Unmap (\<lambda>_. False) shared_block 0x10000000 vm' = Some (Inr vm'') \<and>
             (\<forall>a. VMManager.view (vma_map vm'') a =
               (if unat (0x10000000 :: u32) \<le> a \<and> a < unat (0x10000000 :: u32) + unat (0x2000 :: u32)
                then Some free_info else VMManager.view (vma_map vm') a)))"
      using round [of 2 1 Permission_DontCare, unfolded t sz c fcram_block_ok(3)]
      by (elim exE conjE) (rule that, assumption, split sum.split,
        intro allI conjI impI; simp only: sum.case; blast)
    show ?thesis
    proof (cases r)
      case (Inl e)
      then show ?thesis using s ok unfolding t sz by simp
    next
      case (Inr vm')
      then show ?thesis using that [of vm'] call s by (auto intro!: ext)
    qed
  qed
  have "VMManager.view (vma_map vm') 0x10001008 = Some (VMA_BackingMemory, Perm_Read, MS_Shared, 0x30005008)"
    using r(2) unfolding shows_range_def by simp
  moreover have "VMManager.view (vma_map vm'') 0x10001008 = Some free_info"
    unfolding r(4) by simp
  ultimately show ?thesis using r(1,3) by blast
qed

end
