(* ===== verification/IPC.thy ===== *)
theory IPC
  imports Svc
begin

text \<open>Messages between processes: the words of a command buffer (\<open>core/hle/ipc.h\<close>) and their
  translation from the address space and the handle table of one process to those of another
  (\<open>kernel/ipc.cpp\<close>). The tables of all processes are a part of the state outside the kernel proper,
  so that a wake-up callback can translate a message. The recorder of the debugger is not modelled.\<close>

section \<open>Headers and descriptors\<close>

abbreviation (input) "StaticBuffer \<equiv> (0x02 :: u32)"
abbreviation (input) "PXIBuffer \<equiv> (0x04 :: u32)"
abbreviation (input) "MappedBuffer \<equiv> (0x08 :: u32)"
abbreviation (input) "CopyHandle \<equiv> (0x00 :: u32)"
abbreviation (input) "MoveHandle \<equiv> (0x10 :: u32)"
abbreviation (input) "CallingPid \<equiv> (0x20 :: u32)"

abbreviation (input) "COMMAND_BUFFER_LENGTH \<equiv> (0x40 :: nat)"
abbreviation (input) "MappedBuffer_R \<equiv> (1 :: u32)"

definition Header_translate_params_size :: "u32 \<Rightarrow> u32" where
  "Header_translate_params_size = ExtractValue 0 6"

definition Header_normal_params_size :: "u32 \<Rightarrow> u32" where
  "Header_normal_params_size = ExtractValue 6 6"

definition Header_command_id :: "u32 \<Rightarrow> u32" where
  "Header_command_id = ExtractValue 16 16"

definition MakeHeader :: "u16 \<Rightarrow> u32 \<Rightarrow> u32 \<Rightarrow> u32" where
  "MakeHeader command_id normal_params_size translate_params_size =
     Assign 0 6 translate_params_size (Assign 6 6 normal_params_size (Assign 16 16 (ucast command_id) 0))"

definition MoveHandleDesc :: "u32 \<Rightarrow> u32" where
  "MoveHandleDesc num_handles = MoveHandle OR push_bit 26 (num_handles - 1)"

definition CopyHandleDesc :: "u32 \<Rightarrow> u32" where
  "CopyHandleDesc num_handles = CopyHandle OR push_bit 26 (num_handles - 1)"

definition CallingPidDesc :: u32 where "CallingPidDesc = CallingPid"

definition IsHandleDescriptor :: "u32 \<Rightarrow> bool" where
  "IsHandleDescriptor descriptor \<longleftrightarrow> descriptor AND 0xF = 0"

definition HandleNumberFromDesc :: "u32 \<Rightarrow> u32" where
  "HandleNumberFromDesc handle_descriptor = drop_bit 26 handle_descriptor + 1"

definition StaticBuffer_id :: "u32 \<Rightarrow> u32" where "StaticBuffer_id = ExtractValue 10 4"
definition StaticBuffer_size :: "u32 \<Rightarrow> u32" where "StaticBuffer_size = ExtractValue 14 18"

definition StaticBufferDesc :: "u64 \<Rightarrow> u8 \<Rightarrow> u32" where
  "StaticBufferDesc sz buffer_id =
     Assign 14 18 (ucast sz) (Assign 10 4 (ucast buffer_id) (Assign 0 4 StaticBuffer 0))"

definition PXIBufferDesc :: "u32 \<Rightarrow> u32 \<Rightarrow> bool \<Rightarrow> u32" where
  "PXIBufferDesc sz buffer_id is_read_only =
     (let type = (if is_read_only then PXIBuffer OR 0x2 else PXIBuffer)
      in type OR push_bit 8 sz OR push_bit 4 (buffer_id AND 0xF))"

definition MappedBuffer_perms :: "u32 \<Rightarrow> u32" where "MappedBuffer_perms = ExtractValue 1 2"
definition MappedBuffer_size :: "u32 \<Rightarrow> u32" where "MappedBuffer_size = ExtractValue 4 28"

definition MappedBufferDesc :: "u64 \<Rightarrow> u32 \<Rightarrow> u32" where
  "MappedBufferDesc sz perms =
     Assign 4 28 (ucast sz) (Assign 1 2 perms (Assign 0 4 MappedBuffer 0))"

definition GetDescriptorType :: "u32 \<Rightarrow> u32" where
  "GetDescriptorType descriptor =
     (if IsHandleDescriptor descriptor then descriptor AND 0x30
      else if descriptor AND MappedBuffer \<noteq> 0 then MappedBuffer
      else if descriptor AND PXIBuffer \<noteq> 0 then PXIBuffer
      else StaticBuffer)"

section \<open>Handle tables and memory of the processes\<close>

record mapped_buffer =
  mb_permissions :: u32
  mb_size :: u32
  mb_source :: u32
  mb_target :: u32
  mb_buffer :: host_buffer

text \<open>The list \<open>mapped_buffer_context\<close> of each server session is found under the session's address.\<close>

record 'o world =
  handle_tables :: "nat \<Rightarrow> kref handle_table"
  mapped_buffer_context :: "nat \<Rightarrow> mapped_buffer list"
  services :: 'o

type_synonym ('s, 'g, 'o) sys = "('s, 'g, 'o world) kernel"

definition table_of :: "nat \<Rightarrow> ('s, 'g, 'o) sys \<Rightarrow> kref handle_table" where
  "table_of i k = handle_tables (outside k) i"

definition put_table :: "nat \<Rightarrow> kref handle_table \<Rightarrow> ('s, 'g, 'o) sys \<Rightarrow> ('s, 'g, 'o) sys" where
  "put_table i t k = k\<lparr>outside := (outside k)\<lparr>handle_tables := (handle_tables (outside k))(i := t)\<rparr>\<rparr>"

definition put_machine :: "'g machine \<Rightarrow> ('s, 'g, 'e) kernel \<Rightarrow> ('s, 'g, 'e) kernel" where
  "put_machine m k = k\<lparr>kernel_memory := (kernel_memory k)\<lparr>km_machine := m\<rparr>\<rparr>"

definition process_pages :: "nat \<Rightarrow> ('s, 'g, 'e) kernel \<Rightarrow> page_table run" where
  "process_pages i k = map_option (\<lambda>p. vm_page_table (vm_of p)) (processes k i)"

definition read_process ::
  "'g mem_env \<Rightarrow> nat \<Rightarrow> u32 \<Rightarrow> nat \<Rightarrow> ('s, 'g, 'e) kernel \<Rightarrow> (bytes \<times> ('s, 'g, 'e) kernel) run" where
  "read_process menv i addr n k = do {
     pt \<leftarrow> process_pages i k;
     (bs, m) \<leftarrow> ReadBlock menv pt False addr n (km_machine (kernel_memory k));
     Some (bs, put_machine m k)}"

definition write_process ::
  "'g mem_env \<Rightarrow> nat \<Rightarrow> u32 \<Rightarrow> bytes \<Rightarrow> ('s, 'g, 'e) kernel \<Rightarrow> ('s, 'g, 'e) kernel run" where
  "write_process menv i addr bs k = do {
     pt \<leftarrow> process_pages i k;
     m \<leftarrow> WriteBlock menv pt False addr bs (km_machine (kernel_memory k));
     Some (put_machine m k)}"

definition copy_process ::
  "'g mem_env \<Rightarrow> nat \<Rightarrow> nat \<Rightarrow> u32 \<Rightarrow> u32 \<Rightarrow> nat \<Rightarrow> ('s, 'g, 'e) kernel \<Rightarrow> ('s, 'g, 'e) kernel run" where
  "copy_process menv dst src dest_addr src_addr n k = do {
     dpt \<leftarrow> process_pages dst k;
     spt \<leftarrow> process_pages src k;
     m \<leftarrow> CopyBlock menv dpt spt dest_addr src_addr n (km_machine (kernel_memory k));
     Some (put_machine m k)}"

definition put_process_vm :: "nat \<Rightarrow> vm_manager \<Rightarrow> ('s, 'g, 'e) kernel \<Rightarrow> ('s, 'g, 'e) kernel" where
  "put_process_vm i vm k =
     k\<lparr>processes := (processes k)(i := map_option (\<lambda>p. p\<lparr>vm_of := vm\<rparr>) (processes k i))\<rparr>"

text \<open>Words in memory are little-endian.\<close>

fun words_of :: "nat \<Rightarrow> bytes \<Rightarrow> u32 list" where
  "words_of 0 bs = []"
| "words_of (Suc n) bs = of_nat (from_le (take 4 bs)) # words_of n (drop 4 bs)"

definition bytes_of :: "u32 list \<Rightarrow> bytes" where
  "bytes_of ws = concat (map (\<lambda>w. to_le 4 (unat w)) ws)"

text \<open>The command is the first part of an array of 64 words whose rest is not initialized: reading
  the rest has no meaning, and what is written there is never read.\<close>

definition get_word :: "u32 list \<Rightarrow> nat \<Rightarrow> u32 run" where
  "get_word cmd i = (if i < length cmd then Some (cmd ! i) else None)"

definition set_word :: "u32 list \<Rightarrow> nat \<Rightarrow> u32 \<Rightarrow> u32 list run" where
  "set_word cmd i w = (if i < COMMAND_BUFFER_LENGTH then Some (cmd[i := w]) else None)"

section \<open>Handles\<close>

text \<open>The object a handle of the source names, after a move of a single handle has closed it.\<close>

definition take_object ::
  "nat \<Rightarrow> nat \<Rightarrow> u32 \<Rightarrow> u32 \<Rightarrow> ('s, 'g, 'o) sys \<Rightarrow> kref option \<times> ('s, 'g, 'o) sys" where
  "take_object src_thread src descriptor handle k =
     (if handle = CurrentThread then (Some (HWait (RThread src_thread)), k)
      else if handle = CurrentProcess then (Some (HProcess src), k)
      else if handle \<noteq> 0 then
        (HandleTable_GetGeneric None None (table_of src k) handle,
         if descriptor = MoveHandle
         then (case HandleTable_Close (table_of src k) handle of Inl e \<Rightarrow> k | Inr t \<Rightarrow> put_table src t k)
         else k)
      else (None, k))"

fun translate_handles ::
  "nat \<Rightarrow> nat \<Rightarrow> nat \<Rightarrow> u32 \<Rightarrow> nat \<Rightarrow> nat \<Rightarrow> u32 list \<Rightarrow> ('s, 'g, 'o) sys \<Rightarrow>
   (u32 list \<times> ('s, 'g, 'o) sys) run" where
  "translate_handles src_thread src dst descriptor 0 i cmd k = Some (cmd, k)"
| "translate_handles src_thread src dst descriptor (Suc n) i cmd k = do {
     handle \<leftarrow> get_word cmd i;
     let (ob, k) = take_object src_thread src descriptor handle k;
     case ob of
       None \<Rightarrow> do {
         cmd \<leftarrow> set_word cmd i 0;
         translate_handles src_thread src dst descriptor n (i + 1) cmd k}
     | Some ob \<Rightarrow>
         (case HandleTable_Create (table_of dst k) ob of
            Inl e \<Rightarrow> None
          | Inr (h, t) \<Rightarrow> do {
              cmd \<leftarrow> set_word cmd i h;
              translate_handles src_thread src dst descriptor n (i + 1) cmd (put_table dst t k)})}"

section \<open>Buffers\<close>

definition translate_static ::
  "'g mem_env \<Rightarrow> nat \<Rightarrow> nat \<Rightarrow> u32 \<Rightarrow> u32 \<Rightarrow> nat \<Rightarrow> u32 list \<Rightarrow> ('s, 'g, 'o) sys \<Rightarrow>
   (u32 list \<times> ('s, 'g, 'o) sys) run" where
  "translate_static menv src dst dst_address descriptor i cmd k = do {
     source \<leftarrow> get_word cmd i;
     (data, k) \<leftarrow> read_process menv src source (unat (StaticBuffer_size descriptor)) k;
     let static_buffer_offset = 0x100 + 8 * StaticBuffer_id descriptor;
     (target, k) \<leftarrow> read_process menv dst (dst_address + static_buffer_offset) 8 k;
     let target_descriptor = (of_nat (from_le (take 4 target)) :: u32);
     let target_address = (of_nat (from_le (drop 4 target)) :: u32);
     ASSERT (unat (StaticBuffer_size target_descriptor) \<ge> length data);
     k \<leftarrow> write_process menv dst target_address data k;
     cmd \<leftarrow> set_word cmd i target_address;
     Some (cmd, k)}"

definition AlignDown :: "u32 \<Rightarrow> u32 \<Rightarrow> u32" where
  "AlignDown v sz = v - v mod sz"

definition AlignUp :: "u32 \<Rightarrow> u32 \<Rightarrow> u32" where
  "AlignUp v sz = (if v mod sz = 0 then v - v mod sz else v - v mod sz + sz)"

abbreviation (input) "IPC_MAPPING_VADDR \<equiv> (0x04000000 :: u32)"
abbreviation (input) "IPC_MAPPING_SIZE \<equiv> (0x04000000 :: u32)"

text \<open>The position of the request's buffer that a reply returns.\<close>

definition find_context :: "u32 \<Rightarrow> u32 \<Rightarrow> u32 \<Rightarrow> mapped_buffer list \<Rightarrow> nat" where
  "find_context perms sz source ctx =
     length (takeWhile (\<lambda>c. \<not> (mb_permissions c = perms \<and> mb_size c = sz \<and> mb_target c = source)) ctx)"

definition meminfo_at :: "nat \<Rightarrow> u32 \<Rightarrow> ('s, 'g, 'e) kernel \<Rightarrow> MemoryState run" where
  "meminfo_at i addr k = do {
     p \<leftarrow> processes k i;
     j \<leftarrow> FindVMA (vm_of p) addr;
     v \<leftarrow> vma_at (vm_of p) j;
     Some (meminfo_state v)}"

text \<open>A reply: the server's buffer is copied back and unmapped with its guard pages.\<close>

definition return_buffer ::
  "'g mem_env \<Rightarrow> nat \<Rightarrow> nat \<Rightarrow> u32 \<Rightarrow> u32 \<Rightarrow> u32 \<Rightarrow> u32 \<Rightarrow> u32 \<Rightarrow> mapped_buffer list \<Rightarrow> ('s, 'g, 'o) sys \<Rightarrow>
   (mapped_buffer list \<times> ('s, 'g, 'o) sys) run" where
  "return_buffer menv src dst source sz perms page_start num_pages ctx k = do {
     let j = find_context perms sz source ctx;
     ASSERT (j < length ctx);
     k \<leftarrow> (if perms \<noteq> MappedBuffer_R
       then copy_process menv dst src (mb_source (ctx ! j)) (mb_target (ctx ! j)) (unat sz) k
       else Some k);
     prev \<leftarrow> meminfo_at src (page_start - CITRA_PAGE_SIZE) k;
     following \<leftarrow> meminfo_at src (page_start + num_pages * CITRA_PAGE_SIZE) k;
     ASSERT (prev = MS_Reserved \<and> following = MS_Reserved);
     p \<leftarrow> processes k src;
     r \<leftarrow> UnmapRange (km_marker (kernel_memory k)) (vm_of p) (page_start - CITRA_PAGE_SIZE)
       ((num_pages + 2) * CITRA_PAGE_SIZE);
     case r of
       Inl e \<Rightarrow> None
     | Inr vm \<Rightarrow> Some (take j ctx @ drop (Suc j) ctx, put_process_vm src vm k)}"

text \<open>A guard page keeps its backing and loses its permissions.\<close>

definition guard_page :: "cache_marker \<Rightarrow> u32 \<Rightarrow> vm_manager \<Rightarrow> vm_manager run" where
  "guard_page mk addr vm = do {
     r \<leftarrow> ChangeMemoryState mk vm addr CITRA_PAGE_SIZE MS_Shared Perm_ReadWrite MS_Reserved Perm_None;
     case r of Inl e \<Rightarrow> None | Inr vm \<Rightarrow> Some vm}"

text \<open>A request: a copy of the client's buffer, in cleared memory that the host allocates, is mapped
  between two guard pages.\<close>

definition lend_buffer ::
  "'g mem_env \<Rightarrow> (nat \<Rightarrow> 'g machine \<Rightarrow> u64) \<Rightarrow> nat \<Rightarrow> nat \<Rightarrow> u32 \<Rightarrow> u32 \<Rightarrow> u32 \<Rightarrow> u32 \<Rightarrow> u32 \<Rightarrow>
   mapped_buffer list \<Rightarrow> ('s, 'g, 'o) sys \<Rightarrow> (u32 \<times> mapped_buffer list \<times> ('s, 'g, 'o) sys) run" where
  "lend_buffer menv alloc src dst source sz perms page_offset num_pages ctx k = do {
     let buffer_size = (num_pages + 2) * CITRA_PAGE_SIZE;
     let buffer = \<lparr>hb_ptr = alloc (unat buffer_size) (km_machine (kernel_memory k)), hb_size = ucast buffer_size\<rparr>;
     let k = put_machine (store (hb_ptr buffer) (replicate (unat buffer_size) 0) (km_machine (kernel_memory k))) k;
     (data, k) \<leftarrow> read_process menv src source (unat sz) k;
     let k = put_machine (store (hb_ptr buffer + ucast CITRA_PAGE_SIZE + ucast page_offset) data
       (km_machine (kernel_memory k))) k;
     p \<leftarrow> processes k dst;
     ref \<leftarrow> MemoryRef_at buffer 0;
     let mk = km_marker (kernel_memory k);
     r \<leftarrow> MapBackingMemoryToBase mk (vm_of p) IPC_MAPPING_VADDR IPC_MAPPING_SIZE ref buffer_size MS_Shared;
     case r of
       Inl e \<Rightarrow> None
     | Inr (target, vm) \<Rightarrow> do {
         vm \<leftarrow> guard_page mk target vm;
         vm \<leftarrow> guard_page mk (target + buffer_size - CITRA_PAGE_SIZE) vm;
         let target_address = target + CITRA_PAGE_SIZE + page_offset;
         Some (target_address,
           ctx @ [\<lparr>mb_permissions = perms, mb_size = sz, mb_source = source,
             mb_target = target_address, mb_buffer = buffer\<rparr>],
           put_process_vm dst vm k)}}"

definition translate_mapped ::
  "'g mem_env \<Rightarrow> (nat \<Rightarrow> 'g machine \<Rightarrow> u64) \<Rightarrow> nat \<Rightarrow> nat \<Rightarrow> bool \<Rightarrow> u32 \<Rightarrow> nat \<Rightarrow> u32 list \<Rightarrow>
   mapped_buffer list \<Rightarrow> ('s, 'g, 'o) sys \<Rightarrow> (u32 list \<times> mapped_buffer list \<times> ('s, 'g, 'o) sys) run" where
  "translate_mapped menv alloc src dst reply descriptor i cmd ctx k = do {
     source \<leftarrow> get_word cmd i;
     let sz = MappedBuffer_size descriptor;
     let perms = MappedBuffer_perms descriptor;
     let page_start = AlignDown source CITRA_PAGE_SIZE;
     let page_offset = source - page_start;
     let num_pages = drop_bit 12 (AlignUp (page_offset + sz) CITRA_PAGE_SIZE);
     if sz = 0 then do {
       cmd \<leftarrow> set_word cmd i 0;
       Some (cmd, ctx, k)}
     else do {
       ASSERT (num_pages \<ge> 1);
       if reply then do {
         (ctx, k) \<leftarrow> return_buffer menv src dst source sz perms page_start num_pages ctx k;
         Some (cmd, ctx, k)}
       else do {
         (target, ctx, k) \<leftarrow> lend_buffer menv alloc src dst source sz perms page_offset num_pages ctx k;
         cmd \<leftarrow> set_word cmd i target;
         Some (cmd, ctx, k)}}}"

section \<open>The command buffer\<close>

text \<open>One descriptor at position \<open>i\<close>, with its parameters: an error ends the translation. A
  descriptor of an unknown type is only logged, and its parameter is the next descriptor.\<close>

definition translate_one ::
  "'g mem_env \<Rightarrow> (nat \<Rightarrow> 'g machine \<Rightarrow> u64) \<Rightarrow> nat \<Rightarrow> nat \<Rightarrow> nat \<Rightarrow> u32 \<Rightarrow> bool \<Rightarrow> nat \<Rightarrow> u32 list \<Rightarrow>
   mapped_buffer list \<Rightarrow> ('s, 'g, 'o) sys \<Rightarrow>
   ((result + nat) \<times> u32 list \<times> mapped_buffer list \<times> ('s, 'g, 'o) sys) run" where
  "translate_one menv alloc src_thread src dst dst_address reply i cmd ctx k = do {
     descriptor \<leftarrow> get_word cmd i;
     let i = i + 1;
     let type = GetDescriptorType descriptor;
     if type = CopyHandle \<or> type = MoveHandle then
       (let num_handles = unat (HandleNumberFromDesc descriptor)
        in if i + num_handles > length cmd
           then Some (Inl (Result_make ErrCodes_CommandTooLarge Mod_OS Sum_InvalidState Lvl_Status), cmd, ctx, k)
           else do {
             (cmd, k) \<leftarrow> translate_handles src_thread src dst descriptor num_handles i cmd k;
             Some (Inr (i + num_handles), cmd, ctx, k)})
     else if type = CallingPid then do {
       p \<leftarrow> processes k src;
       cmd \<leftarrow> set_word cmd i (process_id p);
       Some (Inr (i + 1), cmd, ctx, k)}
     else if type = StaticBuffer then do {
       (cmd, k) \<leftarrow> translate_static menv src dst dst_address descriptor i cmd k;
       Some (Inr (i + 1), cmd, ctx, k)}
     else if type = MappedBuffer then do {
       (cmd, ctx, k) \<leftarrow> translate_mapped menv alloc src dst reply descriptor i cmd ctx k;
       Some (Inr (i + 1), cmd, ctx, k)}
     else Some (Inr i, cmd, ctx, k)}"

text \<open>Every round moves on by a word at least, so that the number of words is enough fuel.\<close>

fun translate_loop ::
  "'g mem_env \<Rightarrow> (nat \<Rightarrow> 'g machine \<Rightarrow> u64) \<Rightarrow> nat \<Rightarrow> nat \<Rightarrow> nat \<Rightarrow> u32 \<Rightarrow> bool \<Rightarrow> nat \<Rightarrow> nat \<Rightarrow> u32 list \<Rightarrow>
   mapped_buffer list \<Rightarrow> ('s, 'g, 'o) sys \<Rightarrow>
   (result \<times> u32 list \<times> mapped_buffer list \<times> ('s, 'g, 'o) sys) run" where
  "translate_loop menv alloc src_thread src dst dst_address reply 0 i cmd ctx k =
     (if i < length cmd then None else Some (ResultSuccess, cmd, ctx, k))"
| "translate_loop menv alloc src_thread src dst dst_address reply (Suc fuel) i cmd ctx k =
     (if i < length cmd then do {
        (r, cmd, ctx, k) \<leftarrow> translate_one menv alloc src_thread src dst dst_address reply i cmd ctx k;
        case r of
          Inl e \<Rightarrow> Some (e, cmd, ctx, k)
        | Inr i \<Rightarrow> translate_loop menv alloc src_thread src dst dst_address reply fuel i cmd ctx k}
      else Some (ResultSuccess, cmd, ctx, k))"

text \<open>The threads' owners must be alive. The list of mapped buffers is an argument and a result.\<close>

definition thread_process :: "nat \<Rightarrow> ('s, 'g, 'e) kernel \<Rightarrow> nat run" where
  "thread_process t k = do { th \<leftarrow> threads k t; owner_lock k th }"

definition TranslateCommandBuffer ::
  "'g mem_env \<Rightarrow> (nat \<Rightarrow> 'g machine \<Rightarrow> u64) \<Rightarrow> nat \<Rightarrow> nat \<Rightarrow> u32 \<Rightarrow> u32 \<Rightarrow> mapped_buffer list \<Rightarrow> bool \<Rightarrow>
   ('s, 'g, 'o) sys \<Rightarrow> (result \<times> mapped_buffer list \<times> ('s, 'g, 'o) sys) run" where
  "TranslateCommandBuffer menv alloc src_thread dst_thread src_address dst_address ctx reply k = do {
     src \<leftarrow> thread_process src_thread k;
     dst \<leftarrow> thread_process dst_thread k;
     (bs, k) \<leftarrow> read_process menv src src_address 4 k;
     let header = (of_nat (from_le bs) :: u32);
     let untranslated_size = 1 + unat (Header_normal_params_size header);
     let command_size = untranslated_size + unat (Header_translate_params_size header);
     ASSERT (command_size \<le> COMMAND_BUFFER_LENGTH);
     (bs, k) \<leftarrow> read_process menv src src_address (4 * command_size) k;
     (r, cmd, ctx, k) \<leftarrow> translate_loop menv alloc src_thread src dst dst_address reply
       COMMAND_BUFFER_LENGTH untranslated_size (words_of command_size bs) ctx k;
     if r \<noteq> ResultSuccess then Some (r, ctx, k)
     else do {
       k \<leftarrow> write_process menv dst dst_address (bytes_of cmd) k;
       Some (ResultSuccess, ctx, k)}}"

end
