(* ===== verification/IpcProofs.thy ===== *)
theory IpcProofs
  imports IPC
begin

text \<open>What the translation of messages does: descriptors are read as they are built, handles name the
  same objects on the other side, and a lent buffer is given back.\<close>

section \<open>Descriptors\<close>

lemma take_bit_word_small: "unat (v :: u32) < 2 ^ n \<Longrightarrow> take_bit n v = v"
  by (rule take_bit_small)

lemma MakeHeader_fields:
  assumes "unat n < 2 ^ 6" and "unat t < 2 ^ 6"
  shows "Header_command_id (MakeHeader c n t) = ucast c"
    and "Header_normal_params_size (MakeHeader c n t) = n"
    and "Header_translate_params_size (MakeHeader c n t) = t"
proof -
  have "take_bit 16 (ucast c :: u32) = ucast c"
    by (rule bit_eqI) (auto simp: bit_take_bit_iff bit_unsigned_iff dest: bit_imp_le_length)
  then show "Header_command_id (MakeHeader c n t) = ucast c"
    by (simp add: Header_command_id_def MakeHeader_def Extract_Assign_same Extract_Assign_other)
  show "Header_normal_params_size (MakeHeader c n t) = n" "Header_translate_params_size (MakeHeader c n t) = t"
    using assms by (simp_all add: Header_normal_params_size_def Header_translate_params_size_def
      MakeHeader_def Extract_Assign_same Extract_Assign_other take_bit_word_small)
qed

lemma handle_number:
  assumes "0 < unat n" and "unat n \<le> 64" and "d = CopyHandle \<or> d = MoveHandle"
  shows "HandleNumberFromDesc (d OR push_bit 26 (n - 1)) = n"
proof -
  have m: "unat (n - 1) < 2 ^ 6" using assms by (simp add: unat_minus_one unat_gt_0)
  have "drop_bit 26 (push_bit 26 (n - 1)) = take_bit 6 (n - 1)"
    by (rule bit_eqI) (auto simp: bit_drop_bit_eq bit_push_bit_iff bit_take_bit_iff dest: bit_imp_le_length)
  then have "drop_bit 26 (push_bit 26 (n - 1)) = n - 1" using m by (simp add: take_bit_small)
  moreover have "drop_bit 26 d = 0" using assms(3) by auto
  ultimately show ?thesis by (simp add: HandleNumberFromDesc_def)
qed

lemma shifted_and:
  assumes "m AND mask k = m"
  shows "push_bit k (x :: u32) AND m = 0"
proof -
  have "push_bit k x AND m = take_bit k (push_bit k x) AND m"
    using assms by (metis and.assoc and.commute take_bit_eq_mask)
  then show ?thesis by (simp add: take_bit_push_bit)
qed

lemma or_shifted_and:
  assumes "m AND mask k = m"
  shows "(d OR push_bit k (x :: u32)) AND m = d AND m"
  using shifted_and [OF assms] by (simp add: bit.conj_disj_distrib2)

lemma handle_descriptor_type:
  assumes "d = CopyHandle \<or> d = MoveHandle"
  shows "GetDescriptorType (d OR push_bit 26 (x :: u32)) = d"
proof -
  have "(d OR push_bit 26 x) AND 0xF = 0" "(d OR push_bit 26 x) AND 0x30 = d"
    using or_shifted_and [of 15 26 d x] or_shifted_and [of 48 26 d x] assms
    by (auto simp: mask_eq_exp_minus_1)
  then show ?thesis by (simp add: GetDescriptorType_def IsHandleDescriptor_def)
qed

lemma mask_weaken: "m AND mask k = (m :: u32) \<Longrightarrow> k \<le> l \<Longrightarrow> m AND mask l = m"
  by (metis min.absorb2 take_bit_eq_mask take_bit_take_bit)

lemma PXI_and:
  assumes "m AND mask 4 = m"
  shows "PXIBufferDesc sz b ro AND m = (if ro then PXIBuffer OR 0x2 else PXIBuffer) AND m"
proof -
  have "(push_bit 4 b AND 240) AND m = (push_bit 4 b AND m) AND 240" by (simp add: ac_simps)
  then have "(push_bit 4 b AND 240) AND m = 0" using assms by (simp add: shifted_and)
  then show ?thesis
    using mask_weaken [OF assms, of 8] by (simp add: PXIBufferDesc_def Let_def bit.conj_disj_distrib2 shifted_and)
qed

lemma PXI_type: "GetDescriptorType (PXIBufferDesc sz b ro) = PXIBuffer"
  using PXI_and [of 15 sz b ro] PXI_and [of 8 sz b ro] PXI_and [of 4 sz b ro]
  by (simp add: GetDescriptorType_def IsHandleDescriptor_def mask_eq_exp_minus_1 split: if_splits)

lemma bit3_type:
  assumes "bit d 3"
  shows "GetDescriptorType d = MappedBuffer"
proof -
  have "bit (d AND 0xF) 3" "bit (d AND 8) 3"
    using assms by (simp_all add: bit_and_iff)
  then have "d AND 0xF \<noteq> 0" "d AND 8 \<noteq> 0" by (metis bit_0_eq bot_apply bot_bool_def)+
  then show ?thesis by (simp add: GetDescriptorType_def IsHandleDescriptor_def)
qed

lemma Assign_and:
  assumes "m AND mask pos = m" and "bits \<le> 32"
  shows "Assign pos bits v (d :: u32) AND m = d AND m"
proof (rule bit_word_eqI)
  fix n
  have "n < pos" if "bit m n"
    using that arg_cong [OF assms(1), of "\<lambda>x. bit x n"] by (auto simp: bit_and_iff bit_mask_iff)
  then show "bit (Assign pos bits v d AND m) n = bit (d AND m) n" if "n < LENGTH(32)"
    using that assms(2) by (auto simp: bit_and_iff bit_Assign)
qed

lemma static_and:
  assumes "m AND mask 4 = m"
  shows "StaticBufferDesc sz b AND m = 2 AND m"
proof -
  have "Assign 0 4 StaticBuffer 0 = StaticBuffer" by code_simp
  then show ?thesis
    using mask_weaken [OF assms, of 10] mask_weaken [OF assms, of 14]
    by (simp add: StaticBufferDesc_def Assign_and)
qed

lemma static_type: "GetDescriptorType (StaticBufferDesc sz b) = StaticBuffer"
  using static_and [of 15 sz b] static_and [of 8 sz b] static_and [of 4 sz b]
  by (simp add: GetDescriptorType_def IsHandleDescriptor_def mask_eq_exp_minus_1)

lemma mapped_type: "GetDescriptorType (MappedBufferDesc sz p) = MappedBuffer"
proof -
  have "Assign 0 4 MappedBuffer 0 = MappedBuffer" by code_simp
  then have "bit (MappedBufferDesc sz p) 3" by (simp add: MappedBufferDesc_def bit_Assign)
  then show ?thesis by (rule bit3_type)
qed

lemma ucast_take:
  "unat (sz :: u64) < 2 ^ n \<Longrightarrow> take_bit n (ucast sz :: u32) = ucast sz"
  by (metis take_bit_small unsigned_take_bit_eq unsigned_ucast_eq take_bit_tightened_less_eq_nat le_less_trans
    unsigned_take_bit_eq)
text \<open>the parts of a header and of a descriptor are read back as they were put in, as long as
  they fit: sizes of up to 63 words, 1 to 64 handles, static buffers of less than 256 KiB with an index
  below 16, mapped buffers of less than 256 MiB; and each kind of descriptor is told from the others.\<close>

theorem descriptors_round_trip:
  "(unat n < 64 \<and> unat t < 64 \<longrightarrow> Header_command_id (MakeHeader c n t) = ucast c \<and>
      Header_normal_params_size (MakeHeader c n t) = n \<and> Header_translate_params_size (MakeHeader c n t) = t) \<and>
   (0 < unat h \<and> unat h \<le> 64 \<longrightarrow>
      GetDescriptorType (CopyHandleDesc h) = CopyHandle \<and> HandleNumberFromDesc (CopyHandleDesc h) = h \<and>
      GetDescriptorType (MoveHandleDesc h) = MoveHandle \<and> HandleNumberFromDesc (MoveHandleDesc h) = h) \<and>
   GetDescriptorType CallingPidDesc = CallingPid \<and>
   GetDescriptorType (StaticBufferDesc sz b) = StaticBuffer \<and>
   (unat sz < 2 ^ 18 \<and> unat b < 16 \<longrightarrow>
      StaticBuffer_size (StaticBufferDesc sz b) = ucast sz \<and> StaticBuffer_id (StaticBufferDesc sz b) = ucast b) \<and>
   GetDescriptorType (PXIBufferDesc x y ro) = PXIBuffer \<and>
   GetDescriptorType (MappedBufferDesc sz p) = MappedBuffer \<and>
   (unat sz < 2 ^ 28 \<and> unat p < 4 \<longrightarrow>
      MappedBuffer_size (MappedBufferDesc sz p) = ucast sz \<and> MappedBuffer_perms (MappedBufferDesc sz p) = p)"
proof (intro conjI impI; (elim conjE)?)
  show "GetDescriptorType CallingPidDesc = CallingPid" by code_simp
next
  assume b: "unat b < 16"
  then have "take_bit 4 (ucast b :: u32) = ucast b" by (intro take_bit_small) (simp add: unsigned_ucast_eq take_bit_nat_def)
  then show "StaticBuffer_id (StaticBufferDesc sz b) = ucast b"
    by (simp add: StaticBuffer_id_def StaticBufferDesc_def Extract_Assign_same Extract_Assign_other)
qed (rule static_type PXI_type mapped_type | simp add: MakeHeader_fields CopyHandleDesc_def MoveHandleDesc_def handle_number handle_number [of _ 0, simplified]
  handle_descriptor_type handle_descriptor_type [of 0, simplified] static_type PXI_type mapped_type
  StaticBuffer_size_def StaticBufferDesc_def MappedBuffer_size_def MappedBuffer_perms_def MappedBufferDesc_def
  Extract_Assign_same Extract_Assign_other ucast_take take_bit_small)+

lemma descriptors_round_trip_witness:
  "Header_normal_params_size (MakeHeader 5 2 7) = 2 \<and> HandleNumberFromDesc (MoveHandleDesc 3) = 3 \<and>
   StaticBuffer_id (StaticBufferDesc 0x1000 9) = 9 \<and> MappedBuffer_size (MappedBufferDesc 0x2345 3) = 0x2345"
  using descriptors_round_trip [of 2 7 5 3 "0x1000" 9 0 0 True 3]
    descriptors_round_trip [of 2 7 5 3 "0x2345" 9 0 0 True 3] by simp

section \<open>Handles\<close>

text \<open>What a handle in a message names.\<close>

definition sent_object :: "nat \<Rightarrow> nat \<Rightarrow> kref handle_table \<Rightarrow> u32 \<Rightarrow> kref option" where
  "sent_object src_thread src t h =
     (if h = CurrentThread then Some (HWait (RThread src_thread))
      else if h = CurrentProcess then Some (HProcess src)
      else if h \<noteq> 0 then HandleTable_lookup t h else None)"

lemma table_put [simp]:
  "table_of i (put_table j t k) = (if i = j then t else table_of i k)"
  "put_table i t (put_table i t' k) = put_table i t k" "put_table i (table_of i k) k = k"
  by (simp_all add: table_of_def put_table_def)

lemma GetGeneric_lookup:
  "h \<noteq> CurrentThread \<Longrightarrow> h \<noteq> CurrentProcess \<Longrightarrow> HandleTable_GetGeneric a b t h = HandleTable_lookup t h"
  by (simp add: HandleTable_GetGeneric_def HandleTable_lookup_def)

lemma take_object_copy:
  "d \<noteq> MoveHandle \<Longrightarrow> take_object st src d h k = (sent_object st src (table_of src k) h, k)"
  by (simp add: take_object_def sent_object_def GetGeneric_lookup)

lemma Create_ok:
  assumes "HandleTable_wf t" and "empty_slots t \<noteq> {}"
  shows "HandleTable_Create t ob = Inr (new_handle t, with_object t ob)" and "HandleTable_wf (with_object t ob)"
    and "card (empty_slots (with_object t ob)) = card (empty_slots t) - 1"
    and "HandleTable_lookup (with_object t ob) (new_handle t) = Some ob"
    and "HandleTable_lookup t h = Some x \<Longrightarrow> HandleTable_lookup (with_object t ob) h = Some x"
proof -
  have free: "unat (next_free_slot t) < MAX_COUNT" using assms by (auto simp: free_slot_iff)
  note w = wf_with_object [OF assms(1) free] and l = lookup_with_object [OF assms(1) free]
  have can: "canon (new_handle t) = new_handle t"
    using new_handle_parts(3) [OF assms(1) free] by (simp add: canonical_iff)
  show "HandleTable_Create t ob = Inr (new_handle t, with_object t ob)" using free by (simp add: Create_alt)
  show "HandleTable_wf (with_object t ob)" using w by simp
  show "card (empty_slots (with_object t ob)) = card (empty_slots t) - 1" using w by (simp add: card_Diff_singleton)
  show "HandleTable_lookup (with_object t ob) (new_handle t) = Some ob" by (simp add: l can)
  assume x: "HandleTable_lookup t h = Some x"
  have "HandleTable_lookup t (new_handle t) = None"
    using w(3) new_handle_parts(1) [OF assms(1) free]
    by (simp add: HandleTable_lookup_def HandleTable_IsValid_def empty_slots_def)
  then have "canon h \<noteq> new_handle t"
    using x by (metis GetSlot_valid HandleTable_IsValid_def HandleTable_lookup_def canon_parts(1,2) option.distinct(1))
  then show "HandleTable_lookup (with_object t ob) h = Some x" using x by (simp add: l)
qed

lemma translate_copies:
  fixes k :: "('s, 'g, 'o) sys"
  assumes "d \<noteq> MoveHandle" and "src \<noteq> dst" and "HandleTable_wf (table_of dst k)"
    and "n \<le> card (empty_slots (table_of dst k))" and "i + n \<le> length cmd" and "length cmd \<le> 64"
  shows "\<exists>cmd' t'. translate_handles st src dst d n i cmd k = Some (cmd', put_table dst t' k) \<and>
    HandleTable_wf t' \<and> length cmd' = length cmd \<and> (\<forall>j. j < i \<or> i + n \<le> j \<longrightarrow> cmd' ! j = cmd ! j) \<and>
    (\<forall>j. i \<le> j \<and> j < i + n \<longrightarrow> (case sent_object st src (table_of src k) (cmd ! j) of
       None \<Rightarrow> cmd' ! j = 0 | Some ob \<Rightarrow> HandleTable_lookup t' (cmd' ! j) = Some ob)) \<and>
    (\<forall>h ob. HandleTable_lookup (table_of dst k) h = Some ob \<longrightarrow> HandleTable_lookup t' h = Some ob)"
  using assms(3-)
proof (induction n arbitrary: i cmd k)
  case 0
  then show ?case by (intro exI [of _ cmd] exI [of _ "table_of dst k"]) auto
next
  case (Suc n)
  let ?ob = "sent_object st src (table_of src k) (cmd ! i)" and ?t = "table_of dst k"
  define w where "w = (case ?ob of None \<Rightarrow> 0 | Some ob \<Rightarrow> new_handle ?t)"
  define t where "t = (case ?ob of None \<Rightarrow> ?t | Some ob \<Rightarrow> with_object ?t ob)"
  have e: "empty_slots ?t \<noteq> {}" using Suc.prems(2) by auto
  note C = Create_ok [OF Suc.prems(1) e]
  have step: "translate_handles st src dst d (Suc n) i cmd k =
      translate_handles st src dst d n (i + 1) (cmd[i := w]) (put_table dst t k)"
    using Suc.prems assms(1) C(1)
    by (simp add: get_word_def set_word_def take_object_copy w_def t_def Let_def split: option.splits)
  have t: "HandleTable_wf t" "n \<le> card (empty_slots t)"
    "\<And>h ob. HandleTable_lookup ?t h = Some ob \<Longrightarrow> HandleTable_lookup t h = Some ob"
    "\<And>ob. ?ob = Some ob \<Longrightarrow> HandleTable_lookup t w = Some ob" "?ob = None \<Longrightarrow> w = 0"
    using C Suc.prems by (cases ?ob; simp add: t_def w_def)+
  have "\<exists>cmd' t'. translate_handles st src dst d n (i + 1) (cmd[i := w]) (put_table dst t k) =
      Some (cmd', put_table dst t' (put_table dst t k)) \<and> HandleTable_wf t' \<and> length cmd' = length (cmd[i := w]) \<and>
      (\<forall>j. j < i + 1 \<or> i + 1 + n \<le> j \<longrightarrow> cmd' ! j = cmd[i := w] ! j) \<and>
      (\<forall>j. i + 1 \<le> j \<and> j < i + 1 + n \<longrightarrow> (case sent_object st src (table_of src (put_table dst t k)) (cmd[i := w] ! j) of
         None \<Rightarrow> cmd' ! j = 0 | Some ob \<Rightarrow> HandleTable_lookup t' (cmd' ! j) = Some ob)) \<and>
      (\<forall>h ob. HandleTable_lookup (table_of dst (put_table dst t k)) h = Some ob \<longrightarrow> HandleTable_lookup t' h = Some ob)"
    using Suc.prems t by (intro Suc.IH) simp_all
  then show ?case
  proof (elim exE conjE, goal_cases)
    case (1 cmd' t')
    note r = 1(1-3)
    have out: "\<And>j. j < i + 1 \<or> i + 1 + n \<le> j \<Longrightarrow> cmd' ! j = cmd[i := w] ! j" using 1(4) by blast
    have ins: "case sent_object st src (table_of src k) (cmd ! j) of
        None \<Rightarrow> cmd' ! j = 0 | Some ob \<Rightarrow> HandleTable_lookup t' (cmd' ! j) = Some ob"
      if "i + 1 \<le> j" "j < i + 1 + n" for j
      using 1(5) that assms(2) by (simp add: nth_upd)
    have keep: "\<And>h ob. HandleTable_lookup t h = Some ob \<Longrightarrow> HandleTable_lookup t' h = Some ob"
      using 1(6) by simp
  have wi: "cmd' ! i = w" using out [of i] Suc.prems(3) by simp
  have "case sent_object st src (table_of src k) (cmd ! j) of
      None \<Rightarrow> cmd' ! j = 0 | Some ob \<Rightarrow> HandleTable_lookup t' (cmd' ! j) = Some ob" if "i \<le> j" "j < i + Suc n" for j
  proof (cases "j = i")
    case True
    then show ?thesis using t(4,5) keep wi by (simp split: option.splits)
  next
    case False
    then show ?thesis using ins [of j] that by simp
  qed
  moreover have "cmd' ! j = cmd ! j" if "j < i \<or> i + Suc n \<le> j" for j
    using out [of j] that by (auto simp: nth_upd)
  ultimately show ?case
    using step r t(3) keep by (intro exI [of _ cmd'] exI [of _ t']) (simp del: translate_handles.simps)
  qed
qed
text \<open>A move of a single handle.\<close>

lemma take_object_move:
  assumes wf: "HandleTable_wf (table_of src k)" and r: "take_object st src MoveHandle h k = (ob, k')"
  shows "ob = sent_object st src (table_of src k) h"
    and "\<exists>t. k' = put_table src t k \<and> HandleTable_wf t \<and>
      (if h = CurrentThread \<or> h = CurrentProcess \<or> h = 0 \<or> HandleTable_lookup (table_of src k) h = None
       then t = table_of src k
       else \<forall>h'. HandleTable_lookup t h' = (if canon h' = canon h then None else HandleTable_lookup (table_of src k) h'))"
proof -
  let ?t = "table_of src k"
  show "ob = sent_object st src ?t h"
    using r by (auto simp: take_object_def sent_object_def GetGeneric_lookup split: if_splits)
  show "\<exists>t. k' = put_table src t k \<and> HandleTable_wf t \<and>
      (if h = CurrentThread \<or> h = CurrentProcess \<or> h = 0 \<or> HandleTable_lookup ?t h = None then t = ?t
       else \<forall>h'. HandleTable_lookup t h' = (if canon h' = canon h then None else HandleTable_lookup ?t h'))"
  proof (cases "h = CurrentThread \<or> h = CurrentProcess \<or> h = 0 \<or> HandleTable_lookup ?t h = None")
    case True
    then have "k' = k"
      using r by (auto simp: take_object_def Close_alt IsValid_iff_lookup split: if_splits)
    then show ?thesis using True wf by (intro exI [of _ ?t]) auto
  next
    case False
    then have v: "HandleTable_IsValid ?t h" by (simp add: IsValid_iff_lookup)
    then have "k' = put_table src (without_slot ?t (GetSlot h)) k"
      using r False by (auto simp: take_object_def Close_alt split: if_splits)
    then show ?thesis
      using False wf_without_slot [OF wf GetSlot_valid [OF v]] lookup_without_slot [OF v]
      by (intro exI [of _ "without_slot ?t (GetSlot h)"]) auto
  qed
qed

lemma put_table_commute: "i \<noteq> j \<Longrightarrow> put_table i t (put_table j u k) = put_table j u (put_table i t k)"
  by (simp add: put_table_def fun_upd_twist)

lemma translate_move:
  fixes k :: "('s, 'g, 'o) sys"
  assumes "src \<noteq> dst" and "HandleTable_wf (table_of src k)" and wf: "HandleTable_wf (table_of dst k)"
    and room: "0 < card (empty_slots (table_of dst k))" and "i < length cmd" and "length cmd \<le> 64"
  shows "\<exists>w t u. translate_handles st src dst MoveHandle 1 i cmd k =
      Some (cmd[i := w], put_table dst t (put_table src u k)) \<and> HandleTable_wf t \<and> HandleTable_wf u \<and>
    (case sent_object st src (table_of src k) (cmd ! i) of
       None \<Rightarrow> w = 0 | Some ob \<Rightarrow> HandleTable_lookup t w = Some ob) \<and>
    (\<forall>h ob. HandleTable_lookup (table_of dst k) h = Some ob \<longrightarrow> HandleTable_lookup t h = Some ob) \<and>
    (if cmd ! i = CurrentThread \<or> cmd ! i = CurrentProcess \<or> cmd ! i = 0 \<or>
        HandleTable_lookup (table_of src k) (cmd ! i) = None
     then u = table_of src k
     else \<forall>h. HandleTable_lookup u h = (if canon h = canon (cmd ! i) then None else HandleTable_lookup (table_of src k) h))"
proof -
  let ?t = "table_of dst k"
  obtain ob k1 where o: "take_object st src MoveHandle (cmd ! i) k = (ob, k1)" by fastforce
  obtain u where u: "k1 = put_table src u k" "HandleTable_wf u"
    "if cmd ! i = CurrentThread \<or> cmd ! i = CurrentProcess \<or> cmd ! i = 0 \<or>
        HandleTable_lookup (table_of src k) (cmd ! i) = None
     then u = table_of src k
     else \<forall>h. HandleTable_lookup u h = (if canon h = canon (cmd ! i) then None else HandleTable_lookup (table_of src k) h)"
    using take_object_move(2) [OF assms(2) o] by blast
  have e: "empty_slots ?t \<noteq> {}" using room by auto
  note C = Create_ok [OF wf e]
  define w where "w = (case ob of None \<Rightarrow> 0 | Some ob \<Rightarrow> new_handle ?t)"
  define t where "t = (case ob of None \<Rightarrow> ?t | Some ob \<Rightarrow> with_object ?t ob)"
  have "table_of dst k1 = ?t" using u(1) assms(1) by simp
  then have "translate_handles st src dst MoveHandle 1 i cmd k = Some (cmd[i := w], put_table dst t k1)"
    using o assms(5,6) C(1) unfolding One_nat_def
    by (cases ob) (simp_all add: get_word_def set_word_def w_def t_def, metis table_put(3))
  moreover have "HandleTable_wf t" using C(2) wf by (simp add: t_def split: option.splits)
  moreover have "case ob of None \<Rightarrow> w = 0 | Some ob \<Rightarrow> HandleTable_lookup t w = Some ob"
    using C(4) by (simp add: t_def w_def split: option.splits)
  moreover have "\<forall>h ob. HandleTable_lookup ?t h = Some ob \<longrightarrow> HandleTable_lookup t h = Some ob"
    using C(5) by (simp add: t_def split: option.splits)
  ultimately show ?thesis
    using u take_object_move(1) [OF assms(2) o] by (intro exI [of _ w] exI [of _ t] exI [of _ u]) simp
qed
text \<open>The table of the sender after a move of the handle \<open>h\<close>.\<close>

definition gives_up :: "u32 \<Rightarrow> kref handle_table \<Rightarrow> kref handle_table \<Rightarrow> bool" where
  "gives_up h t u \<longleftrightarrow>
     (if h = CurrentThread \<or> h = CurrentProcess \<or> h = 0 \<or> HandleTable_lookup t h = None then u = t
      else \<forall>h'. HandleTable_lookup u h' = (if canon h' = canon h then None else HandleTable_lookup t h'))"

text \<open>C23: when a message from one process to another passes handles, every handle is replaced by a new
  handle of the receiver that names the same object (the sender's thread and process for the two pseudo
  handles), an invalid one by 0, the receiver keeps its handles and the rest of the command is
  unchanged; a move of one handle takes it from the sender, and a descriptor that asks for more
  handles than the command holds is refused before anything is done.\<close>

theorem handles_translated:
  fixes k :: "('s, 'g, 'o) sys"
  assumes cmd: "i < length cmd" "length cmd \<le> 64"
    and ty: "GetDescriptorType (cmd ! i) = CopyHandle \<or> GetDescriptorType (cmd ! i) = MoveHandle"
    and n: "n = unat (HandleNumberFromDesc (cmd ! i))" and "src \<noteq> dst"
    and wf: "HandleTable_wf (table_of src k)" "HandleTable_wf (table_of dst k)"
    and room: "n \<le> card (empty_slots (table_of dst k))"
  shows "if i + 1 + n > length cmd
    then translate_one menv alloc st src dst dst_address reply i cmd ctx k = Some
      (Inl (Result_make ErrCodes_CommandTooLarge Mod_OS Sum_InvalidState Lvl_Status), cmd, ctx, k)
    else \<exists>cmd' t u. translate_one menv alloc st src dst dst_address reply i cmd ctx k =
        Some (Inr (i + 1 + n), cmd', ctx, put_table dst t (put_table src u k)) \<and>
      HandleTable_wf t \<and> HandleTable_wf u \<and> length cmd' = length cmd \<and>
      (\<forall>j. j \<le> i \<or> i + 1 + n \<le> j \<longrightarrow> cmd' ! j = cmd ! j) \<and>
      (\<forall>j. i < j \<and> j \<le> i + n \<longrightarrow> (case sent_object st src (table_of src k) (cmd ! j) of
         None \<Rightarrow> cmd' ! j = 0 | Some ob \<Rightarrow> HandleTable_lookup t (cmd' ! j) = Some ob)) \<and>
      (\<forall>h ob. HandleTable_lookup (table_of dst k) h = Some ob \<longrightarrow> HandleTable_lookup t h = Some ob) \<and>
      (if cmd ! i = MoveHandle then gives_up (cmd ! (i + 1)) (table_of src k) u else u = table_of src k)"
proof -
  have one: "translate_one menv alloc st src dst dst_address reply i cmd ctx k =
      (if i + 1 + n > length cmd
       then Some (Inl (Result_make ErrCodes_CommandTooLarge Mod_OS Sum_InvalidState Lvl_Status), cmd, ctx, k)
       else map_option (\<lambda>(cmd, k). (Inr (i + 1 + n), cmd, ctx, k)) (translate_handles st src dst (cmd ! i) n (i + 1) cmd k))"
    using cmd ty n by (auto simp: translate_one_def get_word_def Let_def split: option.splits bind_splits)
  show ?thesis
  proof (cases "i + 1 + n > length cmd")
    case True
    then show ?thesis using one by simp
  next
    case False
    show ?thesis
    proof (cases "cmd ! i = MoveHandle")
      case True
      then have n1: "n = 1" using n by (simp add: HandleNumberFromDesc_def)
      obtain w t u where m: "translate_handles st src dst MoveHandle 1 (i + 1) cmd k =
          Some (cmd[i + 1 := w], put_table dst t (put_table src u k))" "HandleTable_wf t" "HandleTable_wf u"
        "case sent_object st src (table_of src k) (cmd ! (i + 1)) of
           None \<Rightarrow> w = 0 | Some ob \<Rightarrow> HandleTable_lookup t w = Some ob"
        "\<forall>h ob. HandleTable_lookup (table_of dst k) h = Some ob \<longrightarrow> HandleTable_lookup t h = Some ob"
        "gives_up (cmd ! (i + 1)) (table_of src k) u"
        using translate_move [OF assms(5) wf, of "i + 1" cmd st] room n1 False cmd unfolding gives_up_def by auto
      have "cmd[i + 1 := w] ! j = cmd ! j" if "j \<le> i \<or> i + 1 + n \<le> j" for j
        using that n1 by (auto simp: nth_upd)
      moreover have "case sent_object st src (table_of src k) (cmd ! j) of None \<Rightarrow> cmd[i + 1 := w] ! j = 0
          | Some ob \<Rightarrow> HandleTable_lookup t (cmd[i + 1 := w] ! j) = Some ob" if "i < j \<and> j \<le> i + n" for j
      proof -
        have "j = i + 1" using that n1 by simp
        then have "cmd[i + 1 := w] ! j = w" using False n1 by simp
        then show ?thesis using m(4) \<open>j = i + 1\<close> by (simp only:)
      qed
      moreover have "translate_one menv alloc st src dst dst_address reply i cmd ctx k =
          Some (Inr (i + 1 + n), cmd[i + 1 := w], ctx, put_table dst t (put_table src u k))"
        using one False m(1) unfolding True n1 by simp
      ultimately show ?thesis
        unfolding if_not_P [OF False] if_P [OF True] using m(2,3,5,6)
        by (intro exI [of _ "cmd[i + 1 := w]"] exI [of _ t] exI [of _ u] conjI) simp_all
    next
      case copy: False
      have "i + 1 + n \<le> length cmd" using False by simp
      from translate_copies [OF copy assms(5) wf(2) room this cmd(2), of st] obtain cmd' t
        where c: "translate_handles st src dst (cmd ! i) n (i + 1) cmd k = Some (cmd', put_table dst t k)"
          "HandleTable_wf t" "length cmd' = length cmd" "\<forall>j. j < i + 1 \<or> i + 1 + n \<le> j \<longrightarrow> cmd' ! j = cmd ! j"
          "\<forall>j. i + 1 \<le> j \<and> j < i + 1 + n \<longrightarrow> (case sent_object st src (table_of src k) (cmd ! j) of
             None \<Rightarrow> cmd' ! j = 0 | Some ob \<Rightarrow> HandleTable_lookup t (cmd' ! j) = Some ob)"
          "\<forall>h ob. HandleTable_lookup (table_of dst k) h = Some ob \<longrightarrow> HandleTable_lookup t h = Some ob"
        by blast
      have "translate_one menv alloc st src dst dst_address reply i cmd ctx k =
          Some (Inr (i + 1 + n), cmd', ctx, put_table dst t (put_table src (table_of src k) k))"
        using one False c(1) by simp
      then show ?thesis
        unfolding if_not_P [OF False] if_not_P [OF copy] using c(2-6) wf(1)
        by (intro exI [of _ cmd'] exI [of _ t] exI [of _ "table_of src k"] conjI) simp_all
    qed
  qed
qed
text \<open>A system with two processes' tables, and nothing else.\<close>

definition example_sys :: "kref handle_table \<Rightarrow> kref handle_table \<Rightarrow> (interval list, unit, unit) sys" where
  "example_sys t u =
     \<lparr>threads = Map.empty, sync_objects = Map.empty, waiting_threads = (\<lambda>_. []), arbiter_threads = (\<lambda>_. []),
      managers = [], cpus = [], current_cpu = 0, current_process = None, stored_processes = [],
      memory_pages = None, next_thread_id = 1, next_timer_callback_id = 0, timer_callback_table = Map.empty,
      reschedule_pending = False,
      timing_of = \<lparr>event_types = Map.empty, timers = [], current_timer = 0, event_queue_locked = False\<rparr>,
      processes = Map.empty, process_list = [],
      kernel_memory = \<lparr>km_regions = [], km_limits = [], km_machine = \<lparr>host_mem = (\<lambda>_. 0), gpu = ()\<rparr>,
        km_marker = (\<lambda>_. False)\<rparr>,
      sessions = Map.empty, client_ports = Map.empty, client_sessions = Map.empty, named_ports = Map.empty,
      shared_memories = Map.empty,
      outside = \<lparr>handle_tables = (\<lambda>i. if i = 0 then t else u), mapped_buffer_context = (\<lambda>_. []), services = ()\<rparr>\<rparr>"

lemma new_table_room: "card (empty_slots (HandleTable_new :: kref handle_table)) = 4096"
proof -
  have "empty_slots (HandleTable_new :: kref handle_table) = {..<4096}"
    by (auto simp: empty_slots_def MAX_COUNT_def HandleTable_new_def HandleTable_Clear_def)
  then show ?thesis by simp
qed

lemma handles_translated_witness:
  "\<exists>cmd' t u. translate_one example_env (\<lambda>_ _. 0) 7 0 1 0x100 False 1 [MakeHeader 1 0 3, CopyHandleDesc 2, CurrentThread, 5]
      [] (example_sys HandleTable_new HandleTable_new) =
        Some (Inr 4, cmd', [], put_table 1 t (put_table 0 u (example_sys HandleTable_new HandleTable_new))) \<and>
     HandleTable_lookup t (cmd' ! 2) = Some (HWait (RThread 7)) \<and> cmd' ! 3 = 0"
proof -
  let ?cmd = "[MakeHeader 1 0 3, CopyHandleDesc 2, CurrentThread, 5 :: u32]"
  let ?k = "example_sys HandleTable_new HandleTable_new"
  have t: "table_of 0 ?k = HandleTable_new" "table_of 1 ?k = HandleTable_new"
    by (simp_all add: table_of_def example_sys_def)
  have d: "GetDescriptorType (?cmd ! 1) = CopyHandle" "unat (HandleNumberFromDesc (?cmd ! 1)) = 2" by code_simp+
  have l: "HandleTable_lookup (HandleTable_new :: kref handle_table) 5 = None" by code_simp
  have s: "sent_object 7 0 HandleTable_new (?cmd ! 2) = Some (HWait (RThread 7))"
    "sent_object 7 0 HandleTable_new (?cmd ! 3) = None"
    using l by (simp_all add: sent_object_def)
  have p: "1 < length ?cmd" "length ?cmd \<le> 64" "(0 :: nat) \<noteq> 1" "(2 :: nat) \<le> 4096"
    and le: "\<not> 1 + 1 + 2 > length ?cmd" by simp_all
  note T = handles_translated [of 1 ?cmd 2 0 1 ?k example_env "\<lambda>_ _. 0" 7 "0x100" False "[]", unfolded t new_table_room if_not_P [OF le],
    OF p(1,2) disjI1 [OF d(1)] d(2) [symmetric] p(3) wf_new wf_new p(4)]
  then obtain cmd' t u where r: "translate_one example_env (\<lambda>_ _. 0) 7 0 1 0x100 False 1 ?cmd [] ?k =
        Some (Inr (1 + 1 + 2), cmd', [], put_table 1 t (put_table 0 u ?k))"
    and j: "\<forall>j. 1 < j \<and> j \<le> 1 + 2 \<longrightarrow> (case sent_object 7 0 HandleTable_new (?cmd ! j) of
         None \<Rightarrow> cmd' ! j = 0 | Some ob \<Rightarrow> HandleTable_lookup t (cmd' ! j) = Some ob)"
    by (elim exE conjE)
  have "HandleTable_lookup t (cmd' ! 2) = Some (HWait (RThread 7))" "cmd' ! 3 = 0"
    using j [rule_format, of 2] j [rule_format, of 3] s by simp_all
  then show ?thesis using r by (intro exI [of _ cmd'] exI [of _ t] exI [of _ u]) simp
qed

end
