(* ===== verification/LentBuffers.thy ===== *)
theory LentBuffers
  imports IpcProofs ProcessMemory
begin

text \<open>Buffers that a message lends to its receiver (\<open>MappedBuffer\<close> descriptors): where they are
  mapped, what the receiver sees there, and that a reply removes them.\<close>

section \<open>Pages\<close>

definition lent_pages :: "u32 \<Rightarrow> u32 \<Rightarrow> nat" where
  "lent_pages source sz = (unat source mod 0x1000 + unat sz + 0xFFF) div 0x1000"

lemma unat_mod_page: "unat (w mod 0x1000 :: u32) = unat w mod 0x1000"
  by (simp add: unat_mod)

lemma AlignDown_page:
  "unat (AlignDown w 0x1000) = unat w div 0x1000 * 0x1000"
  "w - AlignDown w 0x1000 = w mod 0x1000"
proof -
  have le: "unat (w mod 0x1000) \<le> unat w" by (simp add: unat_mod_page)
  have "unat (w - w mod 0x1000) = unat w - unat w mod 0x1000"
    using le by (simp add: unat_sub word_le_nat_alt unat_mod_page)
  then show "unat (AlignDown w 0x1000) = unat w div 0x1000 * 0x1000"
    by (simp add: AlignDown_def minus_mod_eq_div_mult)
  show "w - AlignDown w 0x1000 = w mod 0x1000" by (simp add: AlignDown_def)
qed

lemma round_up:
  "(n + 0xFFF) div 0x1000 = n div 0x1000 + (if n mod 0x1000 = 0 then 0 else 1)" for n :: nat
proof -
  define q r where "q = n div 0x1000" and "r = n mod 0x1000"
  then have n: "n = q * 0x1000 + r" and r: "r < 0x1000" by simp_all
  have "(n + 0xFFF) div 0x1000 = ((r + 0xFFF) + q * 0x1000) div 0x1000" by (simp add: n)
  also have "\<dots> = (r + 0xFFF) div 0x1000 + q" by simp
  also have "(r + 0xFFF) div 0x1000 = (if r = 0 then 0 else 1)"
  proof (cases r)
    case (Suc s)
    then have "(r + 0xFFF) div 0x1000 = (s + 0x1000) div 0x1000" by simp
    also have "\<dots> = s div 0x1000 + 1" by simp
    finally show ?thesis using Suc r by simp
  qed simp
  finally show ?thesis by (simp add: q_def r_def)
qed

lemma num_pages_unat:
  assumes "unat (x :: u32) < 2 ^ 30"
  shows "unat (drop_bit 12 (AlignUp x 0x1000)) = (unat x + 0xFFF) div 0x1000"
proof -
  have m: "unat (x - x mod 0x1000) = unat x div 0x1000 * 0x1000"
    using AlignDown_page(1) [of x] by (simp add: AlignDown_def)
  have "unat (AlignUp x 0x1000) = (unat x + 0xFFF) div 0x1000 * 0x1000"
  proof (cases "x mod 0x1000 = 0")
    case True
    then have "unat x mod 0x1000 = 0" by (metis unat_mod_page unsigned_0)
    then have "(unat x + 0xFFF) div 0x1000 = unat x div 0x1000" by (simp add: round_up)
    then show ?thesis using m True by (simp add: AlignUp_def)
  next
    case False
    then have z: "unat x mod 0x1000 \<noteq> 0" by (metis unat_mod_page unsigned_eq_0_iff)
    then have "(unat x + 0xFFF) div 0x1000 = unat x div 0x1000 + 1" by (simp add: round_up)
    moreover have "unat x div 0x1000 * 0x1000 \<le> unat x" by simp
    then have "unat (x - x mod 0x1000) + 0x1000 < 2 ^ 32" using m assms by simp
    then have "unat (x - x mod 0x1000 + 0x1000) = unat (x - x mod 0x1000) + 0x1000"
      using unat_plus_fits [of "x - x mod 0x1000" "0x1000"] by simp
    ultimately show ?thesis using m False by (simp add: AlignUp_def)
  qed
  then show ?thesis by (simp add: drop_bit_eq_div unat_div_distrib)
qed

section \<open>Mapping at the first fit\<close>

definition first_fit :: "vm_manager \<Rightarrow> u32 \<Rightarrow> nat \<Rightarrow> u32 \<Rightarrow> bool" where
  "first_fit vm b sz t \<longleftrightarrow> (\<exists>ps v ns. vma_map vm = ps @ v # ns \<and>
     (\<forall>w \<in> set ps. \<not> (vma_type w = VMA_Free \<and> unat b < vma_end w \<and> unat b + sz \<le> vma_end w)) \<and>
     kind v = (VMA_Free, Perm_None, MS_Free) \<and> unat b < vma_end v \<and> t = max b (vma_base v) \<and>
     unat t + sz \<le> vma_end v)"

lemma area_end:
  assumes "areas_ok H xs" and "v \<in> set xs"
  shows "unat (vma_base v + vma_size v) = vma_end v" and "vma_end v \<le> 0x40000000"
proof -
  obtain ps ns where "xs = ps @ v # ns" using assms(2) by (auto simp: in_set_conv_decomp)
  then show e: "vma_end v \<le> 0x40000000" using areas_okD(4) [of H ps v ns] assms(1) by simp
  then show "unat (vma_base v + vma_size v) = vma_end v" by (intro unat_plus_fits) simp
qed

lemma first_fit_found:
  assumes ok: "areas_ok H (vma_map vm)" and fit: "first_fit vm b (unat sz) t" and b: "unat b + unat sz < 2 ^ 32"
  shows "\<exists>ps v ns. vma_map vm = ps @ v # ns \<and> kind v = (VMA_Free, Perm_None, MS_Free) \<and>
    length (takeWhile (\<lambda>v. \<not> (vma_type v = VMA_Free \<and>
       vma_base v + vma_size v > b \<and> vma_base v + vma_size v \<ge> b + sz)) (vma_map vm)) = length ps \<and>
    t = max b (vma_base v) \<and> unat (vma_base v) \<le> unat t \<and> unat t + unat sz \<le> vma_end v"
proof -
  obtain ps v ns where v: "vma_map vm = ps @ v # ns"
     "\<forall>w \<in> set ps. \<not> (vma_type w = VMA_Free \<and> unat b < vma_end w \<and> unat b + unat sz \<le> vma_end w)"
     "kind v = (VMA_Free, Perm_None, MS_Free)" "unat b < vma_end v" "t = max b (vma_base v)"
     "unat t + unat sz \<le> vma_end v"
    using fit by (auto simp: first_fit_def)
  have bs: "unat (b + sz) = unat b + unat sz" using b by (intro unat_plus_fits) simp
  have cmp: "(vma_base w + vma_size w > b \<and> vma_base w + vma_size w \<ge> b + sz) \<longleftrightarrow>
      (unat b < vma_end w \<and> unat b + unat sz \<le> vma_end w)" if "w \<in> set (vma_map vm)" for w
    using area_end(1) [OF ok that] bs by (simp add: word_less_nat_alt word_le_nat_alt)
  have t: "unat b \<le> unat t" "unat (vma_base v) \<le> unat t"
    using v(5) by (simp_all add: max_def word_le_nat_alt)
  let ?P = "\<lambda>v. \<not> (vma_type v = VMA_Free \<and> vma_base v + vma_size v > b \<and> vma_base v + vma_size v \<ge> b + sz)"
  have "takeWhile ?P (ps @ v # ns) = ps"
  proof (subst takeWhile_append2)
    show "\<And>w. w \<in> set ps \<Longrightarrow> ?P w" using v(1,2) cmp by simp
    have "\<not> ?P v" using v(1,3,4,6) t(1) cmp [of v] by (simp add: kind_def)
    then show "ps @ takeWhile ?P (v # ns) = ps" by simp
  qed
  then show ?thesis using v t by (intro exI [of _ ps] exI [of _ v] exI [of _ ns]) simp
qed

lemma kind_free_view:
  assumes "areas_ok H xs" and "xs = ps @ v # ns" and "kind v = (VMA_Free, Perm_None, MS_Free)"
    and "unat (vma_base v) \<le> a" "a < vma_end v"
  shows "view xs a = Some free_info"
proof -
  have "tiles 0 xs 0x40000000" using assms(1) by (simp add: areas_ok_def)
  moreover have "in_area a v" using assms(4,5) by (simp add: in_area_def)
  ultimately have "view xs a = Some (info v a)" using view_Some_iff assms(2) by fastforce
  then show ?thesis using assms(3) by (simp add: kind_def info_def free_info_def)
qed

lemma MapToBase_ok:
  assumes wf: "vm_wf mk H vm" and unlocked: "\<not> vm_locked vm"
    and al: "page_aligned t" "page_aligned sz" and pos: "0 < unat sz"
    and inside: "unat b + unat rs < 2 ^ 32" "unat t + unat sz \<le> unat b + unat rs"
    and ref: "ref_covers memory (unat sz)" "the (backing_mem memory) \<in> H"
    and fit: "first_fit vm b (unat sz) t"
  shows "\<exists>vm'. MapBackingMemoryToBase mk vm b rs memory sz state = Some (Inr (t, vm')) \<and>
    vm_wf mk H vm' \<and> \<not> vm_locked vm' \<and>
    view (vma_map vm') = (\<lambda>a. if unat t \<le> a \<and> a < unat t + unat sz
      then Some (VMA_BackingMemory, Perm_ReadWrite, state, GetPtr memory + of_nat (a - unat t))
      else view (vma_map vm) a) \<and>
    (\<forall>a. unat t \<le> a \<and> a < unat t + unat sz \<longrightarrow> view (vma_map vm) a = Some free_info)"
proof -
  have ok: "areas_ok H (vma_map vm)" using wf by (simp add: vm_wf_def)
  have tb: "unat b \<le> unat t" using fit by (auto simp: first_fit_def max_def word_le_nat_alt)
  have fits: "unat b + unat sz < 2 ^ 32" "unat t + unat sz < 2 ^ 32" using inside tb by simp_all
  obtain ps v ns where v: "vma_map vm = ps @ v # ns" "kind v = (VMA_Free, Perm_None, MS_Free)"
    "length (takeWhile (\<lambda>v. \<not> (vma_type v = VMA_Free \<and>
       vma_base v + vma_size v > b \<and> vma_base v + vma_size v \<ge> b + sz)) (vma_map vm)) = length ps"
    "t = max b (vma_base v)" "unat (vma_base v) \<le> unat t" "unat t + unat sz \<le> vma_end v"
    using first_fit_found [OF ok fit fits(1)] by blast
  have "free_room vm t sz"
    using v by (auto simp: free_room_def kind_def)
  from MapBackingMemory_ok [OF wf unlocked al pos fits(2) ref this, of state] obtain i vm'
    where m: "MapBackingMemory mk vm t memory sz state = Some (Inr (i, vm'))" "vm_wf mk H vm'" "\<not> vm_locked vm'"
      "view (vma_map vm') = (\<lambda>a. if unat t \<le> a \<and> a < unat t + unat sz
        then Some (VMA_BackingMemory, Perm_ReadWrite, state, GetPtr memory + of_nat (a - unat t))
        else view (vma_map vm) a)" by blast
  have at: "vma_at vm (length ps) = Some v" using v(1) by simp
  have "unat (t + sz) = unat t + unat sz" "unat (b + rs) = unat b + unat rs"
    using fits inside by (simp_all add: unat_plus_fits)
  then have "\<not> t + sz > b + rs" using inside(2) by (simp add: word_less_nat_alt)
  then have "MapBackingMemoryToBase mk vm b rs memory sz state = Some (Inr (t, vm'))"
    using unlocked at v(1,3,4) m(1) by (simp add: MapBackingMemoryToBase_def Let_def)
  moreover have "view (vma_map vm) a = Some free_info" if "unat t \<le> a" "a < unat t + unat sz" for a
    using that v(5,6) by (intro kind_free_view [OF ok v(1,2)]) simp_all
  ultimately show ?thesis using m by blast
qed

section \<open>Lending\<close>

lemma guard_ok:
  assumes wf: "vm_wf mk H vm" and unlocked: "\<not> vm_locked vm" and al: "page_aligned t"
    and fit: "unat t + 0x1000 \<le> 0x40000000"
    and mapped: "\<And>a. unat t \<le> a \<Longrightarrow> a < unat t + 0x1000 \<Longrightarrow>
      \<exists>q. view (vma_map vm) a = Some (VMA_BackingMemory, Perm_ReadWrite, MS_Shared, q)"
  shows "\<exists>vm'. guard_page mk t vm = Some vm' \<and> vm_wf mk H vm' \<and> \<not> vm_locked vm' \<and>
    view (vma_map vm') = (\<lambda>a. if unat t \<le> a \<and> a < unat t + 0x1000
      then map_option (\<lambda>(ty, p, s, q). (ty, Perm_None, MS_Reserved, q)) (view (vma_map vm) a)
      else view (vma_map vm) a)"
proof -
  have sz: "page_aligned 0x1000" "0 < unat (0x1000 :: u32)" "unat t + unat (0x1000 :: u32) \<le> 0x40000000"
    using fit by (simp_all add: page_aligned_iff)
  show ?thesis
  proof (rule exE [OF ChangeMemoryState_spec [OF wf unlocked al sz,
      of MS_Shared Perm_ReadWrite MS_Reserved Perm_None]], goal_cases)
    case (1 res)
    show ?case
    proof (cases res)
      case (Inl e)
      then obtain a ty p s q where "unat t \<le> a" "a < unat t + 0x1000"
          "view (vma_map vm) a = Some (ty, p, s, q)" "ty = VMA_Free \<or> s \<noteq> MS_Shared \<or> p AND Perm_ReadWrite \<noteq> Perm_ReadWrite"
        using 1 by auto
      then show ?thesis using mapped [of a] by auto
    next
      case (Inr vm')
      then show ?thesis using 1 by (intro exI [of _ vm']) (simp add: guard_page_def)
    qed
  qed
qed

text \<open>What the receiver's addresses map to: a copy of the buffer at \<open>p\<close> between two guard pages.\<close>

definition lent_view :: "(nat \<Rightarrow> addr_info option) \<Rightarrow> nat \<Rightarrow> nat \<Rightarrow> u64 \<Rightarrow> nat \<Rightarrow> addr_info option" where
  "lent_view old t n p a =
     (if a < t \<or> t + n \<le> a then old a
      else if a < t + 0x1000 \<or> t + n - 0x1000 \<le> a
      then Some (VMA_BackingMemory, Perm_None, MS_Reserved, p + of_nat (a - t))
      else Some (VMA_BackingMemory, Perm_ReadWrite, MS_Shared, p + of_nat (a - t)))"

lemma lend_area:
  assumes wf: "vm_wf mk H vm" and unlocked: "\<not> vm_locked vm"
    and al: "page_aligned t" "page_aligned sz" and n: "0x3000 \<le> unat sz"
    and inside: "unat t + unat sz \<le> 0x08000000"
    and ref: "ref_covers memory (unat sz)" "the (backing_mem memory) \<in> H"
    and fit: "first_fit vm IPC_MAPPING_VADDR (unat sz) t"
  shows "\<exists>vm1 vm2 vm3. MapBackingMemoryToBase mk vm IPC_MAPPING_VADDR IPC_MAPPING_SIZE memory sz MS_Shared =
      Some (Inr (t, vm1)) \<and> guard_page mk t vm1 = Some vm2 \<and> guard_page mk (t + sz - CITRA_PAGE_SIZE) vm2 = Some vm3 \<and>
    vm_wf mk H vm3 \<and> \<not> vm_locked vm3 \<and>
    view (vma_map vm3) = lent_view (view (vma_map vm)) (unat t) (unat sz) (GetPtr memory) \<and>
    (\<forall>a. unat t \<le> a \<and> a < unat t + unat sz \<longrightarrow> view (vma_map vm) a = Some free_info)"
proof -
  have pos: "0 < unat sz" and fin: "unat IPC_MAPPING_VADDR + unat IPC_MAPPING_SIZE < 2 ^ 32"
    "unat t + unat sz \<le> unat IPC_MAPPING_VADDR + unat IPC_MAPPING_SIZE" using n inside by simp_all
  from MapToBase_ok [OF wf unlocked al pos fin ref fit, of MS_Shared] obtain vm1
    where m: "MapBackingMemoryToBase mk vm IPC_MAPPING_VADDR IPC_MAPPING_SIZE memory sz MS_Shared = Some (Inr (t, vm1))"
      "vm_wf mk H vm1" "\<not> vm_locked vm1"
      "view (vma_map vm1) = (\<lambda>a. if unat t \<le> a \<and> a < unat t + unat sz
        then Some (VMA_BackingMemory, Perm_ReadWrite, MS_Shared, GetPtr memory + of_nat (a - unat t))
        else view (vma_map vm) a)"
      "\<forall>a. unat t \<le> a \<and> a < unat t + unat sz \<longrightarrow> view (vma_map vm) a = Some free_info" by blast
  have "\<exists>q. view (vma_map vm1) a = Some (VMA_BackingMemory, Perm_ReadWrite, MS_Shared, q)"
    if "unat t \<le> a" "a < unat t + 0x1000" for a using that n by (simp add: m(4))
  from guard_ok [OF m(2,3) al(1) _ this] obtain vm2 where g: "guard_page mk t vm1 = Some vm2"
      "vm_wf mk H vm2" "\<not> vm_locked vm2"
      "view (vma_map vm2) = (\<lambda>a. if unat t \<le> a \<and> a < unat t + 0x1000
        then map_option (\<lambda>(ty, p, s, q). (ty, Perm_None, MS_Reserved, q)) (view (vma_map vm1) a)
        else view (vma_map vm1) a)" using n inside by auto
  define h where "h = t + sz - CITRA_PAGE_SIZE"
  have "unat (t + sz) = unat t + unat sz" using inside by (intro unat_plus_fits) simp
  then have h: "unat h = unat t + unat sz - 0x1000"
    using n by (simp add: h_def unat_sub word_le_nat_alt)
  have "0x1000 dvd unat t" "0x1000 dvd unat sz" using al by (simp_all add: page_aligned_iff dvd_eq_mod_eq_0)
  then have "0x1000 dvd unat h" unfolding h by (intro dvd_diff_nat dvd_add) simp_all
  then have ha: "page_aligned h" by (simp add: page_aligned_iff dvd_eq_mod_eq_0)
  have "\<exists>q. view (vma_map vm2) a = Some (VMA_BackingMemory, Perm_ReadWrite, MS_Shared, q)"
    if "unat h \<le> a" "a < unat h + 0x1000" for a
  proof -
    have "unat t + 0x1000 \<le> a" "a < unat t + unat sz" using that n h by simp_all
    then show ?thesis by (simp add: g(4) m(4))
  qed
  from guard_ok [OF g(2,3) ha _ this] obtain vm3 where l: "guard_page mk h vm2 = Some vm3"
      "vm_wf mk H vm3" "\<not> vm_locked vm3"
      "view (vma_map vm3) = (\<lambda>a. if unat h \<le> a \<and> a < unat h + 0x1000
        then map_option (\<lambda>(ty, p, s, q). (ty, Perm_None, MS_Reserved, q)) (view (vma_map vm2) a)
        else view (vma_map vm2) a)" using n inside h by auto
  have "view (vma_map vm3) a = lent_view (view (vma_map vm)) (unat t) (unat sz) (GetPtr memory) a" for a
  proof -
    consider "a < unat t" | "unat t \<le> a" "a < unat t + 0x1000" | "unat t + 0x1000 \<le> a" "a < unat h"
      | "unat h \<le> a" "a < unat t + unat sz" | "unat t + unat sz \<le> a" by linarith
    moreover have "unat t + 0x2000 \<le> unat h" "unat h + 0x1000 = unat t + unat sz"
      and h1: "unat t + unat sz - 0x1000 = unat h" using n h by simp_all
    ultimately show ?thesis
      unfolding lent_view_def h1 l(4) g(4) m(4) by cases simp_all
  qed
  then show ?thesis
    using m(1,5) g(1) l(1-3) unfolding h_def by blast
qed
text \<open>The memory of the machine.\<close>

lemma put_machine_sel [simp]:
  "processes (put_machine m k) = processes k" "km_machine (kernel_memory (put_machine m k)) = m"
  "km_marker (kernel_memory (put_machine m k)) = km_marker (kernel_memory k)"
  "put_machine m (put_machine m' k) = put_machine m k" "process_pages i (put_machine m k) = process_pages i k"
  "outside (put_machine m k) = outside k"
  by (simp_all add: put_machine_def process_pages_def)

lemma put_process_vm_sel [simp]:
  "processes (put_process_vm i vm k) j =
     (if j = i then map_option (\<lambda>p. p\<lparr>vm_of := vm\<rparr>) (processes k i) else processes k j)"
  "kernel_memory (put_process_vm i vm k) = kernel_memory k" "outside (put_process_vm i vm k) = outside k"
  by (simp_all add: put_process_vm_def)

lemma host_store:
  assumes "j < length bs" and "length bs < 2 ^ 64"
  shows "host_mem (store p bs m) (p + of_nat j) = bs ! j"
  using assms by (simp add: store_def write_host_def unsigned_of_nat take_bit_nat_eq_self)

lemma host_store_other:
  assumes "length bs \<le> unat (a - p)"
  shows "host_mem (store p bs m) a = host_mem m a"
  using assms by (simp add: store_def write_host_def)

lemma read_plain:
  assumes "processes k i = Some p" and "plain_pages (vm_page_table (vm_of p)) (unat a) n"
  shows "read_process menv i a n k =
    Some (seen (vm_page_table (vm_of p)) (host_mem (km_machine (kernel_memory k))) (unat a) n, k)"
  using assms by (simp add: read_process_def process_pages_def ReadBlock_plain put_machine_def)

definition buffer_bytes :: "u32 \<Rightarrow> u32 \<Rightarrow> nat" where
  "buffer_bytes source sz = (lent_pages source sz + 2) * 0x1000"

lemma lent_pages_bound:
  assumes "0 < unat sz" and "unat sz < 2 ^ 28"
  shows "1 \<le> lent_pages source sz" and "lent_pages source sz \<le> 0x10001"
    and "unat source mod 0x1000 + unat sz \<le> lent_pages source sz * 0x1000"
proof -
  let ?n = "unat source mod 0x1000 + unat sz"
  have m: "unat source mod 0x1000 < 0x1000" by simp
  show "1 \<le> lent_pages source sz" using assms(1) by (simp add: lent_pages_def less_eq_div_iff_mult_less_eq)
  have "(?n + 0xFFF) div 0x1000 \<le> (0x10001 * 0x1000 + 0xFFF) div 0x1000"
    using m assms(2) by (intro div_le_mono) simp
  then show "lent_pages source sz \<le> 0x10001" by (simp add: lent_pages_def)
  have "?n + 0xFFF < ((?n + 0xFFF) div 0x1000 + 1) * 0x1000"
    using dividend_less_div_times [of "0x1000" "?n + 0xFFF"] by simp
  then show "?n \<le> lent_pages source sz * 0x1000" by (simp add: lent_pages_def)
qed

lemma buffer_size_unat:
  assumes "unat (np :: u32) = lent_pages source sz" and "lent_pages source sz \<le> 0x10001"
  shows "unat ((np + 2) * 0x1000) = buffer_bytes source sz" and "page_aligned ((np + 2) * 0x1000)"
proof -
  have "unat (np + 2) = unat np + 2" using assms unat_plus_fits [of np 2] by simp
  moreover have "unat (w * 0x1000) = unat w * 0x1000" if "unat w \<le> 0x10003" for w :: u32
    using that by (simp add: unat_word_ariths(2))
  from this [of "np + 2"] have "unat ((np + 2) * 0x1000) = (unat np + 2) * 0x1000"
    using calculation assms by (simp only:)
  then show u: "unat ((np + 2) * 0x1000) = buffer_bytes source sz" using assms(1) by (simp add: buffer_bytes_def)
  show "page_aligned ((np + 2) * 0x1000)" unfolding page_aligned_iff u by (simp add: buffer_bytes_def)
qed

text \<open>The host gives the buffer memory that the source does not use.\<close>

definition fresh_buffer :: "host_buffer set \<Rightarrow> host_buffer \<Rightarrow> page_table \<Rightarrow> nat \<Rightarrow> nat \<Rightarrow> bool" where
  "fresh_buffer H b pt a n \<longleftrightarrow> b \<in> H \<and> hb_ptr b \<noteq> 0 \<and> unat (hb_ptr b) + unat (hb_size b) < 2 ^ 64 \<and>
     (\<forall>x \<in> {a..<a + n}. unat (hb_size b) \<le> unat (host_of pt x - hb_ptr b))"

lemma lend_buffer_ok:
  fixes k :: "('s, 'g, 'o) sys"
  defines "m \<equiv> km_machine (kernel_memory k)" and "mk \<equiv> km_marker (kernel_memory k)"
  assumes dst: "processes k dst = Some p" "vm_wf mk H (vm_of p)" "\<not> vm_locked (vm_of p)"
    and src: "processes k src = Some q" "plain_pages (vm_page_table (vm_of q)) (unat source) (unat sz)"
    and sz: "0 < unat sz" "unat sz < 2 ^ 28" and np: "unat np = lent_pages source sz"
    and b: "b = \<lparr>hb_ptr = alloc (buffer_bytes source sz) m, hb_size = ucast ((np + 2) * 0x1000 :: u32)\<rparr>"
    and fresh: "fresh_buffer H b (vm_page_table (vm_of q)) (unat source) (unat sz)"
    and room: "first_fit (vm_of p) IPC_MAPPING_VADDR (buffer_bytes source sz) t" "page_aligned t"
      "unat t + buffer_bytes source sz \<le> 0x08000000"
  shows "\<exists>vm' m'. lend_buffer menv alloc src dst source sz perms (source mod 0x1000) np ctx k =
      Some (t + 0x1000 + source mod 0x1000,
        ctx @ [\<lparr>mb_permissions = perms, mb_size = sz, mb_source = source,
          mb_target = t + 0x1000 + source mod 0x1000, mb_buffer = b\<rparr>],
        put_process_vm dst vm' (put_machine m' k)) \<and>
    vm_wf mk H vm' \<and> \<not> vm_locked vm' \<and>
    view (vma_map vm') = lent_view (view (vma_map (vm_of p))) (unat t) (buffer_bytes source sz) (hb_ptr b) \<and>
    (\<forall>a. unat t \<le> a \<and> a < unat t + buffer_bytes source sz \<longrightarrow> view (vma_map (vm_of p)) a = Some free_info) \<and>
    (\<forall>j < unat sz. host_mem m' (hb_ptr b + of_nat (0x1000 + unat source mod 0x1000 + j)) =
       host_mem m (host_of (vm_page_table (vm_of q)) (unat source + j)))"
proof -
  note B = lent_pages_bound [OF sz, of source]
  define bs where "bs = (np + 2) * (0x1000 :: u32)"
  have bsu: "unat bs = buffer_bytes source sz" "page_aligned bs"
    using buffer_size_unat [OF np B(2)] by (simp_all add: bs_def)
  have big: "0x3000 \<le> unat bs" "unat source mod 0x1000 + unat sz + 0x2000 \<le> unat bs" "unat bs < 2 ^ 32"
    using B bsu by (simp_all add: buffer_bytes_def)
  have hb: "hb_size b = ucast bs" "hb_ptr b = alloc (unat bs) m" using b bsu by (simp_all add: bs_def)
  have size: "unat (hb_size b) = unat bs"
    using big(3) by (simp add: hb unsigned_ucast_eq take_bit_nat_eq_self)
  define ref where "ref = \<lparr>backing_mem = Some b, ref_offset = 0\<rparr>"
  have ref: "MemoryRef_at b 0 = Some ref" "ref_covers ref (unat bs)" "the (backing_mem ref) \<in> H" "GetPtr ref = hb_ptr b"
    using fresh size by (auto simp: MemoryRef_at_def ref_def ref_covers_def fresh_buffer_def GetPtr_def)
  from lend_area [OF dst(2,3) room(2) bsu(2) big(1) _ ref(2,3)] room(1,3) bsu(1) obtain vm1 vm2 vm3
    where A: "MapBackingMemoryToBase mk (vm_of p) IPC_MAPPING_VADDR IPC_MAPPING_SIZE ref bs MS_Shared = Some (Inr (t, vm1))"
      "guard_page mk t vm1 = Some vm2" "guard_page mk (t + bs - CITRA_PAGE_SIZE) vm2 = Some vm3"
      "vm_wf mk H vm3" "\<not> vm_locked vm3"
      "view (vma_map vm3) = lent_view (view (vma_map (vm_of p))) (unat t) (unat bs) (hb_ptr b)"
      "\<forall>a. unat t \<le> a \<and> a < unat t + unat bs \<longrightarrow> view (vma_map (vm_of p)) a = Some free_info"
    by (auto simp: ref(4))
  define m1 where "m1 = store (hb_ptr b) (replicate (unat bs) 0) m"
  define data where "data = seen (vm_page_table (vm_of q)) (host_mem m1) (unat source) (unat sz)"
  define m2 where "m2 = store (hb_ptr b + 0x1000 + ucast (source mod 0x1000)) data m1"
  have rd: "read_process menv src source (unat sz) (put_machine m1 k) = Some (data, put_machine m1 k)"
    using read_plain [of "put_machine m1 k" src q source "unat sz" menv] src by (simp add: data_def)
  have buf: "\<lparr>hb_ptr = alloc (unat bs) m, hb_size = ucast bs\<rparr> = b" using b bsu by (simp add: bs_def)
  have "lend_buffer menv alloc src dst source sz perms (source mod 0x1000) np ctx k =
      Some (t + 0x1000 + source mod 0x1000,
        ctx @ [\<lparr>mb_permissions = perms, mb_size = sz, mb_source = source,
          mb_target = t + 0x1000 + source mod 0x1000, mb_buffer = b\<rparr>],
        put_process_vm dst vm3 (put_machine m2 k))"
    unfolding lend_buffer_def Let_def bs_def [symmetric] m_def [symmetric] buf m1_def [symmetric] rd
    using dst(1) A(1-3) ref(1) by (simp add: mk_def m2_def m1_def Let_def)
  moreover have "host_mem m2 (hb_ptr b + of_nat (0x1000 + unat source mod 0x1000 + j)) =
      host_mem m (host_of (vm_page_table (vm_of q)) (unat source + j))" if j: "j < unat sz" for j
  proof -
    have len: "length data = unat sz" by (simp add: data_def seen_def)
    have "(ucast (source mod 0x1000) :: u64) = of_nat (unat source mod 0x1000)"
      using of_nat_unat_u32 [of "source mod 0x1000"] by (simp only: unat_mod_page)
    then have "hb_ptr b + of_nat (0x1000 + unat source mod 0x1000 + j) =
        hb_ptr b + 0x1000 + ucast (source mod 0x1000) + of_nat j" by simp
    then have "host_mem m2 (hb_ptr b + of_nat (0x1000 + unat source mod 0x1000 + j)) = data ! j"
      using host_store [of j data "hb_ptr b + 0x1000 + ucast (source mod 0x1000)" m1] len j sz
      by (simp add: m2_def add.assoc)
    also have "\<dots> = host_mem m1 (host_of (vm_page_table (vm_of q)) (unat source + j))"
      using j by (simp add: data_def seen_def)
    also have "\<dots> = host_mem m (host_of (vm_page_table (vm_of q)) (unat source + j))"
      unfolding m1_def using fresh j size by (intro host_store_other) (simp add: fresh_buffer_def)
    finally show ?thesis .
  qed
  ultimately show ?thesis using A(4-7) bsu(1) by (intro exI [of _ vm3] exI [of _ m2]) simp
qed

section \<open>Giving back\<close>

lemma meminfo_at_view:
  assumes p: "processes k i = Some p" and wf: "vm_wf mk H (vm_of p)"
    and v: "view (vma_map (vm_of p)) (unat a) = Some (ty, pr, s, q)"
  shows "meminfo_at i a k = Some s"
proof -
  have ok: "areas_ok H (vma_map (vm_of p))" using wf by (simp add: vm_wf_def)
  have t: "tiles 0 (vma_map (vm_of p)) 0x40000000" using ok by (simp add: areas_ok_def)
  have "unat a < 0x40000000" using view_outside [OF t, of "unat a"] v by fastforce
  then obtain ps w ns where w: "vma_map (vm_of p) = ps @ w # ns" "FindVMA (vm_of p) a = Some (length ps)"
      "unat (vma_base w) \<le> unat a" "unat a < vma_end w"
    using FindVMA_spec [OF ok, of a] by auto
  then have "view (vma_map (vm_of p)) (unat a) = Some (info w (unat a))"
    using view_Some_iff [OF t] by (fastforce simp: in_area_def)
  then have "meminfo_state w = s" using v by (simp add: info_def)
  then show ?thesis using p w by (simp add: meminfo_at_def)
qed

lemma find_context_last:
  assumes "\<forall>c \<in> set ctx. mb_target c \<noteq> mb_target e"
  shows "find_context (mb_permissions e) (mb_size e) (mb_target e) (ctx @ [e]) = length ctx"
proof -
  have "takeWhile (\<lambda>c. \<not> (mb_permissions c = mb_permissions e \<and> mb_size c = mb_size e \<and> mb_target c = mb_target e))
      (ctx @ [e]) = ctx"
    by (subst takeWhile_append2) (use assms in auto)
  then show ?thesis by (simp add: find_context_def)
qed

lemma return_buffer_ok:
  fixes k :: "('s, 'g, 'o) sys"
  assumes srv: "processes k server = Some p" "vm_wf (km_marker (kernel_memory k)) H (vm_of p)" "\<not> vm_locked (vm_of p)"
    and v: "view (vma_map (vm_of p)) = lent_view old t n ptr"
    and free: "\<forall>a. t \<le> a \<and> a < t + n \<longrightarrow> old a = Some free_info"
    and n: "n = (unat np + 2) * 0x1000" "1 \<le> unat np" "unat np \<le> 0x10001" and t: "t mod 0x1000 = 0" "t + n \<le> 0x08000000"
    and ps: "unat page_start = t + 0x1000"
    and e: "mb_permissions e = perms" "mb_size e = sz" "mb_target e = target" "\<forall>c \<in> set ctx. mb_target c \<noteq> target"
    and copied: "(if perms = MappedBuffer_R then Some k
      else copy_process menv client server (mb_source e) target (unat sz) k) = Some k'"
    and same: "processes k' = processes k" "km_marker (kernel_memory k') = km_marker (kernel_memory k)"
  shows "\<exists>vm'. return_buffer menv server client target sz perms page_start np (ctx @ [e]) k =
      Some (ctx, put_process_vm server vm' k') \<and>
    vm_wf (km_marker (kernel_memory k)) H vm' \<and> \<not> vm_locked vm' \<and> view (vma_map vm') = old"
proof -
  have j: "find_context perms sz target (ctx @ [e]) = length ctx" using find_context_last [of ctx e] e by simp
  have prev: "unat (page_start - 0x1000) = t" using ps by (simp add: unat_sub word_le_nat_alt)
  have sizes: "unat (np + 2) = unat np + 2" using n unat_plus_fits [of np 2] by simp
  have mult: "unat (w * 0x1000) = unat w * 0x1000" if "unat w \<le> 0x10003" for w :: u32
    using that by (simp add: unat_word_ariths(2))
  have len: "unat ((np + 2) * 0x1000) = n" using mult [of "np + 2"] sizes n by (simp only:)
  have npm: "unat (np * 0x1000) = unat np * 0x1000" using mult [of np] n by simp
  have "unat (page_start + np * 0x1000) = unat page_start + unat (np * 0x1000)"
    using ps npm t(2) n(1) by (intro unat_plus_fits) simp
  then have nxt: "unat (page_start + np * 0x1000) = t + n - 0x1000" using ps npm n(1) by simp
  have srv': "processes k' server = Some p" using srv(1) same by simp
  have m1: "meminfo_at server (page_start - 0x1000) k' = Some MS_Reserved"
    using n(1,2) by (intro meminfo_at_view [OF srv' srv(2)]) (simp add: v lent_view_def prev)
  have m2: "meminfo_at server (page_start + np * 0x1000) k' = Some MS_Reserved"
    using n(1,2) by (intro meminfo_at_view [OF srv' srv(2)]) (simp add: v lent_view_def nxt)
  have "\<exists>vm'. UnmapRange (km_marker (kernel_memory k)) (vm_of p) (page_start - 0x1000) ((np + 2) * 0x1000) = Some (Inr vm') \<and>
      vm_wf (km_marker (kernel_memory k)) H vm' \<and> \<not> vm_locked vm' \<and> view (vma_map vm') =
      (\<lambda>a. if unat (page_start - 0x1000) \<le> a \<and> a < unat (page_start - 0x1000) + unat ((np + 2) * 0x1000)
        then Some free_info else view (vma_map (vm_of p)) a)"
  proof (rule unmap_mapped [OF srv(2,3)])
    show "page_aligned (page_start - 0x1000)" using t(1) by (simp add: page_aligned_iff prev)
    show "page_aligned ((np + 2) * 0x1000)" unfolding page_aligned_iff len by (simp add: n(1))
    show "0 < unat ((np + 2) * 0x1000)" unfolding len by (simp add: n(1))
    show "unat (page_start - 0x1000) + unat ((np + 2) * 0x1000) \<le> 0x40000000" unfolding len prev using t(2) by simp
    show "\<exists>p' s q. view (vma_map (vm_of p)) a = Some (VMA_BackingMemory, p', s, q)"
      if "unat (page_start - 0x1000) \<le> a" "a < unat (page_start - 0x1000) + unat ((np + 2) * 0x1000)" for a
      using that unfolding len prev v lent_view_def by simp
  qed
  then obtain vm' where u: "UnmapRange (km_marker (kernel_memory k)) (vm_of p) (page_start - 0x1000) ((np + 2) * 0x1000) = Some (Inr vm')"
      "vm_wf (km_marker (kernel_memory k)) H vm'" "\<not> vm_locked vm'"
      "view (vma_map vm') = (\<lambda>a. if t \<le> a \<and> a < t + n then Some free_info else view (vma_map (vm_of p)) a)"
    unfolding len prev by blast
  define pz where "pz = (np + 2) * (0x1000 :: u32)"
  have c: "(if perms \<noteq> MappedBuffer_R
       then copy_process menv client server (mb_source ((ctx @ [e]) ! length ctx)) (mb_target ((ctx @ [e]) ! length ctx)) (unat sz) k
       else Some k) = Some k'"
    using copied e(3) by (simp split: if_splits)
  have "return_buffer menv server client target sz perms page_start np (ctx @ [e]) k =
      Some (ctx, put_process_vm server vm' k')"
    unfolding return_buffer_def Let_def j c pz_def [symmetric] using u(1) [folded pz_def] srv' m1 m2 same by simp
  moreover have "view (vma_map vm') = old"
  proof
    fix a
    show "view (vma_map vm') a = old a"
    proof (cases "t \<le> a \<and> a < t + n")
      case False
      then have "a < t \<or> t + n \<le> a" by linarith
      then have "lent_view old t n ptr a = old a" by (simp only: lent_view_def if_True)
      then show ?thesis unfolding u(4) if_not_P [OF False] v .
    qed (use free in \<open>simp add: u(4)\<close>)
  qed
  ultimately show ?thesis using u by blast
qed

section \<open>The round trip\<close>

lemma Extract_less:
  assumes "bits \<le> 32"
  shows "unat (ExtractValue pos bits (d :: u32)) < 2 ^ bits"
proof -
  have "take_bit bits (ExtractValue pos bits d) = ExtractValue pos bits d"
    by (rule bit_eqI) (use assms in \<open>auto simp: bit_take_bit_iff bit_ExtractValue\<close>)
  then show ?thesis by (metis take_bit_nat_less_exp unsigned_take_bit_eq)
qed

lemma mapped_pages:
  assumes "unat sz < 2 ^ 28"
  shows "unat (drop_bit 12 (AlignUp (source mod 0x1000 + sz) 0x1000)) = lent_pages source sz"
proof -
  have "unat source mod 0x1000 < 0x1000" by simp
  then have "unat (source mod 0x1000) + unat sz < 2 ^ 29" using assms unfolding unat_mod_page by simp
  then have "unat (source mod 0x1000 + sz) = unat source mod 0x1000 + unat sz" "unat (source mod 0x1000 + sz) < 2 ^ 30"
    using unat_plus_fits [of "source mod 0x1000" sz] by (simp_all add: unat_mod_page)
  then show ?thesis using num_pages_unat [of "source mod 0x1000 + sz"] by (simp add: lent_pages_def add.assoc)
qed

text \<open>Where the receiver finds the buffer.\<close>

definition lent_address :: "u32 \<Rightarrow> u32 \<Rightarrow> u32" where
  "lent_address t source = t + 0x1000 + source mod 0x1000"

lemma lent_address_parts:
  assumes "page_aligned t" and "unat t + 0x2000 \<le> 0x08000000"
  shows "unat (lent_address t source) = unat t + 0x1000 + unat source mod 0x1000"
    and "unat (AlignDown (lent_address t source) 0x1000) = unat t + 0x1000"
    and "lent_pages (lent_address t source) sz = lent_pages source sz"
proof -
  have m: "unat source mod 0x1000 < 0x1000" by simp
  have "unat (t + 0x1000) = unat t + 0x1000" using assms(2) unat_plus_fits [of t "0x1000"] by simp
  then have "unat (lent_address t source) = unat (t + 0x1000) + unat (source mod 0x1000)"
    unfolding lent_address_def using assms(2) m unat_mod_page [of source] by (intro unat_plus_fits) simp
  then show u: "unat (lent_address t source) = unat t + 0x1000 + unat source mod 0x1000"
    using \<open>unat (t + 0x1000) = unat t + 0x1000\<close> by (simp add: unat_mod_page)
  obtain c where c: "unat t = 0x1000 * c" using assms(1) by (auto simp: page_aligned_iff)
  have "unat t + 0x1000 + unat source mod 0x1000 = (c + 1) * 0x1000 + unat source mod 0x1000" by (simp add: c)
  then have "unat (lent_address t source) div 0x1000 = c + 1" "unat (lent_address t source) mod 0x1000 = unat source mod 0x1000"
    using m u by (simp_all only: div_mult_self3 mod_mult_self3 div_less) simp_all
  then show "unat (AlignDown (lent_address t source) 0x1000) = unat t + 0x1000"
    "lent_pages (lent_address t source) sz = lent_pages source sz"
    using c by (simp_all add: AlignDown_page(1) lent_pages_def)
qed

lemma copy_process_sel:
  "copy_process menv dst src a b n k = Some k' \<Longrightarrow>
     processes k' = processes k \<and> km_marker (kernel_memory k') = km_marker (kernel_memory k)"
  by (auto simp: copy_process_def split: bind_splits)

text \<open>The reply, as the translation of the command runs it.\<close>

lemma reply_returns_buffer:
  fixes k :: "('s, 'g, 'o) sys"
  assumes d: "MappedBuffer_size d = sz" "0 < unat sz" "unat sz < 2 ^ 28" "MappedBuffer_perms d = perms"
    and cmd: "i < length cmd" "cmd ! i = lent_address t source"
    and srv: "processes k server = Some p" "vm_wf (km_marker (kernel_memory k)) H (vm_of p)" "\<not> vm_locked (vm_of p)"
    and v: "view (vma_map (vm_of p)) = lent_view old (unat t) (buffer_bytes source sz) ptr"
    and free: "\<forall>a. unat t \<le> a \<and> a < unat t + buffer_bytes source sz \<longrightarrow> old a = Some free_info"
    and t: "page_aligned t" "unat t + buffer_bytes source sz \<le> 0x08000000"
    and e: "mb_permissions e = perms" "mb_size e = sz" "mb_source e = source" "mb_target e = lent_address t source"
      "\<forall>c \<in> set ctx. mb_target c \<noteq> lent_address t source"
    and copied: "(if perms = MappedBuffer_R then Some k
      else copy_process menv client server source (lent_address t source) (unat sz) k) = Some k'"
  shows "\<exists>vm'. translate_mapped menv alloc server client True d i cmd (ctx @ [e]) k =
      Some (cmd, ctx, put_process_vm server vm' k') \<and>
    vm_wf (km_marker (kernel_memory k)) H vm' \<and> view (vma_map vm') = old"
proof -
  let ?a = "lent_address t source"
  define np where "np = drop_bit 12 (AlignUp (?a mod 0x1000 + sz) 0x1000)"
  note B = lent_pages_bound [OF d(2,3), of source]
  have bs: "buffer_bytes source sz = (lent_pages source sz + 2) * 0x1000" by (simp add: buffer_bytes_def)
  have low: "unat t + 0x2000 \<le> 0x08000000" using t(2) bs by simp
  note A = lent_address_parts [OF t(1) low, of source]
  have np: "unat np = lent_pages source sz" using mapped_pages [OF d(3), of ?a] A(3) by (simp add: np_def)
  have np1: "np \<ge> 1" using np B(1) by (simp add: word_le_nat_alt)
  have same: "processes k' = processes k" "km_marker (kernel_memory k') = km_marker (kernel_memory k)"
    using copied copy_process_sel [of menv client server source ?a "unat sz" k k'] by (simp_all split: if_splits)
  have "\<exists>vm'. return_buffer menv server client ?a sz perms (AlignDown ?a 0x1000) np (ctx @ [e]) k =
      Some (ctx, put_process_vm server vm' k') \<and>
    vm_wf (km_marker (kernel_memory k)) H vm' \<and> \<not> vm_locked vm' \<and> view (vma_map vm') = old"
  proof (rule return_buffer_ok [OF srv v])
    show "(if perms = MappedBuffer_R then Some k
        else copy_process menv client server (mb_source e) ?a (unat sz) k) = Some k'"
      using copied by (simp add: e(3) split: if_splits)
  qed (use free bs B np t A(2) e same in \<open>simp_all add: page_aligned_iff\<close>)
  then obtain vm' where r: "return_buffer menv server client ?a sz perms (AlignDown ?a 0x1000) np (ctx @ [e]) k =
      Some (ctx, put_process_vm server vm' k')" "vm_wf (km_marker (kernel_memory k)) H vm'" "view (vma_map vm') = old"
    by blast
  moreover have "sz \<noteq> 0" using d(2) by auto
  ultimately have "translate_mapped menv alloc server client True d i cmd (ctx @ [e]) k =
      Some (cmd, ctx, put_process_vm server vm' k')"
    using cmd np1
    by (simp add: translate_mapped_def get_word_def Let_def d(1,4) AlignDown_page(2) np_def [symmetric])
  then show ?thesis using r(2,3) by blast
qed

text \<open>C4: a mapped buffer of a message. The request maps a copy of the client's buffer into the server's
  IPC region: at the address put into the command the server reads, byte for byte, what the client had
  at its address, read-write and shared. Whatever happens before the reply, as long as the server's
  address space is the same by then, the reply finds its guard pages in place, copies the buffer back
  unless it was read-only, and leaves the server's address space and the list of lent buffers as they
  were before the request.\<close>

theorem lent_buffer_round_trip:
  fixes k :: "('s, 'g, 'o) sys"
  defines "mk \<equiv> km_marker (kernel_memory k)"
  assumes cmd: "i < length cmd" "length cmd \<le> 64" "cmd ! i = source"
    and d: "MappedBuffer_size d = sz" "0 < unat sz" "MappedBuffer_perms d = perms"
    and server: "processes k server = Some p" "vm_wf mk H (vm_of p)" "\<not> vm_locked (vm_of p)"
    and client: "processes k client = Some q" "plain_pages (vm_page_table (vm_of q)) (unat source) (unat sz)"
    and b: "b = \<lparr>hb_ptr = alloc (buffer_bytes source sz) (km_machine (kernel_memory k)), hb_size = of_nat (buffer_bytes source sz)\<rparr>"
    and fresh: "fresh_buffer H b (vm_page_table (vm_of q)) (unat source) (unat sz)"
    and room: "first_fit (vm_of p) IPC_MAPPING_VADDR (buffer_bytes source sz) t" "page_aligned t"
      "unat t + buffer_bytes source sz \<le> 0x08000000"
    and new: "\<forall>c \<in> set ctx. mb_target c \<noteq> lent_address t source"
  shows "\<exists>vm' m' e. translate_mapped menv alloc client server False d i cmd ctx k =
      Some (cmd[i := lent_address t source], ctx @ [e], put_process_vm server vm' (put_machine m' k)) \<and>
    vm_wf mk H vm' \<and>
    (\<forall>j < unat sz. \<exists>h. view (vma_map vm') (unat (lent_address t source) + j) =
        Some (VMA_BackingMemory, Perm_ReadWrite, MS_Shared, h) \<and>
      host_mem m' h = host_mem (km_machine (kernel_memory k)) (host_of (vm_page_table (vm_of q)) (unat source + j))) \<and>
    (\<forall>k2 k3 (p2 :: 's process) cmd2 i2. processes k2 server = Some p2 \<longrightarrow> vm_of p2 = vm' \<longrightarrow>
      km_marker (kernel_memory k2) = mk \<longrightarrow> i2 < length cmd2 \<longrightarrow> cmd2 ! i2 = lent_address t source \<longrightarrow>
      (if perms = MappedBuffer_R then Some k2
       else copy_process menv client server source (lent_address t source) (unat sz) k2) = Some k3 \<longrightarrow>
      (\<exists>vm2. translate_mapped menv alloc server client True d i2 cmd2 (ctx @ [e]) (k2 :: ('s, 'g, 'o) sys) =
          Some (cmd2, ctx, put_process_vm server vm2 k3) \<and>
        vm_wf mk H vm2 \<and> view (vma_map vm2) = view (vma_map (vm_of p))))"
proof -
  let ?a = "lent_address t source" and ?n = "buffer_bytes source sz"
  define np where "np = drop_bit 12 (AlignUp (source mod 0x1000 + sz) 0x1000)"
  have s28: "unat sz < 2 ^ 28" using Extract_less [of 28 4 d] d(1) by (simp add: MappedBuffer_size_def)
  note B = lent_pages_bound [OF d(2) s28, of source]
  have np: "unat np = lent_pages source sz" using mapped_pages [OF s28] by (simp add: np_def)
  have np1: "np \<ge> 1" using np B(1) by (simp add: word_le_nat_alt)
  have bs: "?n = (unat np + 2) * 0x1000" by (simp add: buffer_bytes_def np)
  have "unat ((np + 2) * 0x1000) = ?n" using buffer_size_unat(1) [OF np B(2)] .
  then have b': "b = \<lparr>hb_ptr = alloc ?n (km_machine (kernel_memory k)), hb_size = ucast ((np + 2) * 0x1000 :: u32)\<rparr>"
    unfolding b of_nat_unat_u32 [symmetric] by (simp only:)
  have low: "unat t + 0x2000 \<le> 0x08000000" using room(3) bs by simp
  note A = lent_address_parts [OF room(2) low, of source]
  from lend_buffer_ok [where alloc = alloc and k = k, OF server(1) server(2) [unfolded mk_def] server(3) client d(2) s28 np b' fresh room, of menv perms ctx]
  obtain vm' m' where L: "lend_buffer menv alloc client server source sz perms (source mod 0x1000) np ctx k =
        Some (?a, ctx @ [\<lparr>mb_permissions = perms, mb_size = sz, mb_source = source, mb_target = ?a, mb_buffer = b\<rparr>],
          put_process_vm server vm' (put_machine m' k))"
      "vm_wf mk H vm'" "\<not> vm_locked vm'"
      "view (vma_map vm') = lent_view (view (vma_map (vm_of p))) (unat t) ?n (hb_ptr b)"
      "\<forall>a. unat t \<le> a \<and> a < unat t + ?n \<longrightarrow> view (vma_map (vm_of p)) a = Some free_info"
      "\<forall>j < unat sz. host_mem m' (hb_ptr b + of_nat (0x1000 + unat source mod 0x1000 + j)) =
         host_mem (km_machine (kernel_memory k)) (host_of (vm_page_table (vm_of q)) (unat source + j))"
    unfolding lent_address_def mk_def by blast
  define e where "e = \<lparr>mb_permissions = perms, mb_size = sz, mb_source = source, mb_target = ?a, mb_buffer = b\<rparr>"
  have sz0: "sz \<noteq> 0" using d(2) by auto
  have "translate_mapped menv alloc client server False d i cmd ctx k =
      Some (cmd[i := ?a], ctx @ [e], put_process_vm server vm' (put_machine m' k))"
    using cmd L(1) np1 sz0
    by (simp add: translate_mapped_def get_word_def set_word_def Let_def d AlignDown_page(2) np_def [symmetric] e_def)
  moreover have "\<exists>h. view (vma_map vm') (unat ?a + j) = Some (VMA_BackingMemory, Perm_ReadWrite, MS_Shared, h) \<and>
      host_mem m' h = host_mem (km_machine (kernel_memory k)) (host_of (vm_page_table (vm_of q)) (unat source + j))"
    if j: "j < unat sz" for j
  proof -
    have "unat ?a + j = unat t + (0x1000 + unat source mod 0x1000 + j)" using A(1) by simp
    moreover have "0x1000 + unat source mod 0x1000 + j + 0x1000 < ?n"
      using B(3) j bs np by simp
    ultimately have "view (vma_map vm') (unat ?a + j) = Some (VMA_BackingMemory, Perm_ReadWrite, MS_Shared,
        hb_ptr b + of_nat (0x1000 + unat source mod 0x1000 + j))"
      unfolding L(4) lent_view_def by simp
    then show ?thesis using L(6) j by blast
  qed
  moreover have "\<exists>vm2. translate_mapped menv alloc server client True d i2 cmd2 (ctx @ [e]) k2 =
        Some (cmd2, ctx, put_process_vm server vm2 k3) \<and> vm_wf mk H vm2 \<and> view (vma_map vm2) = view (vma_map (vm_of p))"
    if k2: "processes k2 server = Some p2" "vm_of p2 = vm'" "km_marker (kernel_memory k2) = mk" "i2 < length cmd2" "cmd2 ! i2 = ?a"
      and copied: "(if perms = MappedBuffer_R then Some k2
         else copy_process menv client server source ?a (unat sz) k2) = Some k3"
    for k2 k3 :: "('s, 'g, 'o) sys" and p2 cmd2 i2
    using reply_returns_buffer [where e = e, OF d(1,2) s28 d(3) k2(4,5,1) _ _ _ L(5) room(2,3) _ _ _ _ new copied] L(2-4) k2(2,3)
    by (simp add: e_def)
  ultimately show ?thesis using L(2) by blast
qed

section \<open>A concrete buffer\<close>

text \<open>Four bytes across two pages of a client, lent to a server with an empty address space.\<close>

definition example_client :: "interval list process" where
  "example_client = example_process\<lparr>vm_of := example_vm\<lparr>vm_page_table := swapped_pages\<rparr>\<rparr>"

definition example_pair :: "(interval list, unit, unit) sys" where
  "example_pair = (example_sys HandleTable_new HandleTable_new)\<lparr>processes := [0 \<mapsto> example_client, 2 \<mapsto> example_process]\<rparr>"

definition example_lent :: host_buffer where
  "example_lent = \<lparr>hb_ptr = 0x900000, hb_size = 0x4000\<rparr>"

lemma example_pair_sel:
  "processes example_pair 0 = Some example_client" "processes example_pair 2 = Some example_process"
  "vm_of example_process = example_vm" "vm_page_table (vm_of example_client) = swapped_pages"
  "km_marker (kernel_memory example_pair) = (\<lambda>_. False)"
  "mapped_buffer_context (outside example_pair) a = []"
  by (simp_all add: example_pair_def example_sys_def example_client_def example_process_def CreateProcess_def)

lemma example_vm_over: "separated H \<Longrightarrow> vm_wf (\<lambda>_. False) H example_vm"
  using initial_areas [of H]
  by (auto simp: vm_wf_def example_vm_def pages_agree_def view_Cons in_area_def initial_vma_def entry_of_def info_def)

lemma lent_buffer_round_trip_witness:
  "\<exists>vm' m' e vm2. let d = MappedBufferDesc 4 1; cmd = [MakeHeader 1 0 2, d, 0x5FFE];
       k = put_process_vm 2 vm' (put_machine m' example_pair) in
     translate_mapped example_env (\<lambda>_ _. 0x900000) 0 2 False d 2 cmd [] example_pair =
       Some (cmd[2 := 0x04001FFE], [e], k) \<and>
     translate_mapped example_env (\<lambda>_ _. 0x900000) 2 0 True d 2 (cmd[2 := 0x04001FFE]) [e] k =
       Some (cmd[2 := 0x04001FFE], [], put_process_vm 2 vm2 k) \<and>
     view (vma_map vm2) = view (vma_map example_vm)"
proof -
  let ?d = "MappedBufferDesc 4 1" and ?cmd = "[MakeHeader 1 0 2, MappedBufferDesc 4 1, 0x5FFE]"
  have r: "{unat (0x5FFE :: u32)..<unat (0x5FFE :: u32) + unat (4 :: u32)} = {0x5FFE, 0x5FFF, 0x6000, 0x6001}" by auto
  have d: "MappedBuffer_size ?d = 4" "MappedBuffer_perms ?d = 1" by code_simp+
  have n: "buffer_bytes 0x5FFE 4 = 0x4000" by (simp add: buffer_bytes_def lent_pages_def)
  have a: "lent_address 0x04000000 0x5FFE = 0x04001FFE" by (simp add: lent_address_def)
  have b: "example_lent = \<lparr>hb_ptr = 0x900000, hb_size = 0x4000\<rparr>" by (simp add: example_lent_def)
  have sep: "separated {example_lent}" by (simp add: separated_def)
  have plain: "plain_pages swapped_pages (unat (0x5FFE :: u32)) (unat (4 :: u32))"
    unfolding plain_pages_def r by (simp add: swapped_pages_def)
  have fresh: "fresh_buffer {example_lent} example_lent swapped_pages (unat (0x5FFE :: u32)) (unat (4 :: u32))"
    unfolding fresh_buffer_def r by (simp add: example_lent_def host_of_def swapped_pages_def GetPtr_def example_buffer_def)
  have fit: "first_fit example_vm 0x04000000 0x4000 0x04000000"
    unfolding first_fit_def
    by (intro exI [of _ "[]"] exI [of _ initial_vma]) (simp add: example_vm_def initial_vma_def kind_def)
  have al: "page_aligned 0x04000000" by (simp add: page_aligned_def)
  obtain vm' m' e where L: "translate_mapped example_env (\<lambda>_ _. 0x900000) 0 2 False ?d 2 ?cmd [] example_pair =
      Some (?cmd[2 := 0x04001FFE], [] @ [e], put_process_vm 2 vm' (put_machine m' example_pair))"
    and R: "\<And>k2 k3 (p2 :: interval list process) cmd2 i2. processes k2 2 = Some p2 \<Longrightarrow> vm_of p2 = vm' \<Longrightarrow>
      km_marker (kernel_memory k2) = (\<lambda>_. False) \<Longrightarrow> i2 < length cmd2 \<Longrightarrow> cmd2 ! i2 = 0x04001FFE \<Longrightarrow>
      (if (1 :: u32) = 1 then Some k2 else copy_process example_env 0 2 0x5FFE 0x04001FFE (unat (4 :: u32)) k2) = Some k3 \<Longrightarrow>
      (\<exists>vm2. translate_mapped example_env (\<lambda>_ _. 0x900000) 2 0 True ?d i2 cmd2 ([] @ [e]) (k2 :: (interval list, unit, unit) sys) =
          Some (cmd2, [], put_process_vm 2 vm2 k3) \<and>
        vm_wf (\<lambda>_. False) {example_lent} vm2 \<and> view (vma_map vm2) = view (vma_map example_vm))"
    using lent_buffer_round_trip [where alloc = "\<lambda>_ _. 0x900000" and k = example_pair and i = 2 and cmd = ?cmd
        and source = "0x5FFE" and d = ?d and sz = 4 and perms = 1 and server = 2 and p = example_process
        and H = "{example_lent}" and client = 0 and q = example_client and b = example_lent and t = "0x04000000"
        and ctx = "[]" and menv = example_env]
    using d sep plain fresh fit al example_vm_over [OF sep] b
    by (simp add: example_pair_sel n a example_vm_unlocked) blast
  let ?k = "put_process_vm 2 vm' (put_machine m' example_pair)"
  obtain vm2 where "translate_mapped example_env (\<lambda>_ _. 0x900000) 2 0 True ?d 2 (?cmd[2 := 0x04001FFE]) [e] ?k =
      Some (?cmd[2 := 0x04001FFE], [], put_process_vm 2 vm2 ?k)" "view (vma_map vm2) = view (vma_map example_vm)"
    using R [of ?k "example_process\<lparr>vm_of := vm'\<rparr>" 2 "?cmd[2 := 0x04001FFE]" ?k]
    by (auto simp: example_pair_sel)
  then show ?thesis
    using L by (intro exI [of _ vm'] exI [of _ m'] exI [of _ e] exI [of _ vm2]) (simp add: Let_def)
qed

end
