(* ===== verification/Sessions.thy ===== *)
theory Sessions
  imports IPC
begin

text \<open>Ports and sessions: \<open>kernel/client_port.cpp\<close>, \<open>kernel/server_port.cpp\<close>,
  \<open>kernel/client_session.cpp\<close>, \<open>kernel/server_session.cpp\<close> and the supervisor calls on them. A new
  object's address is an argument. A destructor is an operation of its own: the counts of the
  references that decide when it runs are not modelled, but where a call drops the only reference to
  what it has just made, the destructor is a part of the call. The emulated services are the record
  \<open>hle\<close> of the virtual functions of \<open>SessionRequestHandler\<close>.\<close>

section \<open>Services\<close>

text \<open>\<open>hle_request\<close> is given the command buffer, and \<open>hle_reply\<close> yields what the reply makes of it.\<close>

record ('s, 'g, 'o) hle =
  client_connected :: "nat \<Rightarrow> nat \<Rightarrow> ('s, 'g, 'o) sys \<Rightarrow> ('s, 'g, 'o) sys run"
  client_disconnected :: "nat \<Rightarrow> nat \<Rightarrow> ('s, 'g, 'o) sys \<Rightarrow> ('s, 'g, 'o) sys run"
  hle_request :: "nat \<Rightarrow> nat \<Rightarrow> nat \<Rightarrow> bytes \<Rightarrow> ('s, 'g, 'o) sys \<Rightarrow> ('s, 'g, 'o) sys run"
  hle_reply :: "nat \<Rightarrow> nat \<Rightarrow> nat \<Rightarrow> bytes \<Rightarrow> ('s, 'g, 'o) sys \<Rightarrow> (bytes \<times> ('s, 'g, 'o) sys) run"

section \<open>Ports\<close>

definition server_port_of :: "('s, 'g, 'e) kernel \<Rightarrow> nat \<Rightarrow> server_port run" where
  "server_port_of k a = (case sync_objects k a of Some (KServerPort p) \<Rightarrow> Some p | _ \<Rightarrow> None)"

definition server_session_of :: "('s, 'g, 'e) kernel \<Rightarrow> nat \<Rightarrow> server_session run" where
  "server_session_of k a = (case sync_objects k a of Some (KServerSession s) \<Rightarrow> Some s | _ \<Rightarrow> None)"

definition set_session :: "nat \<Rightarrow> session \<Rightarrow> ('s, 'g, 'e) kernel \<Rightarrow> ('s, 'g, 'e) kernel" where
  "set_session p x k = k\<lparr>sessions := (sessions k)(p \<mapsto> x)\<rparr>"

definition CreatePortPair ::
  "nat \<Rightarrow> nat \<Rightarrow> u32 \<Rightarrow> ('s, 'g, 'e) kernel \<Rightarrow> ('s, 'g, 'e) kernel" where
  "CreatePortPair a c maximum k =
     (set_object a (KServerPort \<lparr>pending_sessions = [], port_handler = None\<rparr>) k)
       \<lparr>client_ports := (client_ports k)(c \<mapsto>
          \<lparr>cp_server_port = a, max_sessions = maximum, active_sessions = 0\<rparr>)\<rparr>"

text \<open>A server's end \<open>a\<close>, a client's end \<open>c\<close> and their parent \<open>p\<close>.\<close>

definition CreateSessionPair ::
  "nat \<Rightarrow> nat \<Rightarrow> nat \<Rightarrow> nat option \<Rightarrow> ('s, 'g, 'o) sys \<Rightarrow> ('s, 'g, 'o) sys" where
  "CreateSessionPair a c p port k =
     (let k = set_object a (KServerSession \<lparr>session_parent = p, session_handler = None,
            pending_requesting_threads = [], currently_handling = None\<rparr>) k;
          k = set_session p \<lparr>session_client = Some c, session_server = Some a, session_port = port\<rparr> k
      in k\<lparr>client_sessions := (client_sessions k)(c \<mapsto> p),
           outside := (outside k)\<lparr>mapped_buffer_context := (mapped_buffer_context (outside k))(a := [])\<rparr>\<rparr>)"

definition ClientPort_Connect ::
  "('s, 'g, 'o world) kenv \<Rightarrow> ('s, 'g, 'o) hle \<Rightarrow> nat \<times> nat \<times> nat \<Rightarrow> nat \<Rightarrow> ('s, 'g, 'o) sys \<Rightarrow>
   ((result + nat) \<times> ('s, 'g, 'o) sys) run" where
  "ClientPort_Connect env hle new port k = do {
     let (a, c, p) = new;
     cp \<leftarrow> client_ports k port;
     if \<not> active_sessions cp < max_sessions cp then Some (Inl ResultMaxConnectionsReached, k)
     else do {
       let k = k\<lparr>client_ports := (client_ports k)(port \<mapsto> cp\<lparr>active_sessions := active_sessions cp + 1\<rparr>)\<rparr>;
       let k = CreateSessionPair a c p (Some port) k;
       sp \<leftarrow> server_port_of k (cp_server_port cp);
       k \<leftarrow> (case port_handler sp of
           Some h \<Rightarrow> client_connected hle h a k
         | None \<Rightarrow> Some (set_object (cp_server_port cp)
             (KServerPort (sp\<lparr>pending_sessions := pending_sessions sp @ [a]\<rparr>)) k));
       k \<leftarrow> WakeupAllWaitingThreads env (RObj (cp_server_port cp)) k;
       Some (Inr c, k)}}"

definition ConnectionClosed :: "nat \<Rightarrow> ('s, 'g, 'e) kernel \<Rightarrow> ('s, 'g, 'e) kernel run" where
  "ConnectionClosed port k = do {
     cp \<leftarrow> client_ports k port;
     ASSERT (active_sessions cp > 0);
     Some (k\<lparr>client_ports := (client_ports k)(port \<mapsto> cp\<lparr>active_sessions := active_sessions cp - 1\<rparr>)\<rparr>)}"

text \<open>The session that was added last is accepted first.\<close>

definition ServerPort_Accept ::
  "nat \<Rightarrow> ('s, 'g, 'e) kernel \<Rightarrow> ((result + nat) \<times> ('s, 'g, 'e) kernel) run" where
  "ServerPort_Accept a k = do {
     sp \<leftarrow> server_port_of k a;
     if pending_sessions sp = [] then Some (Inl ResultNoPendingSessions, k)
     else Some (Inr (last (pending_sessions sp)),
       set_object a (KServerPort (sp\<lparr>pending_sessions := butlast (pending_sessions sp)\<rparr>)) k)}"

section \<open>Ends of a session\<close>

definition destroy_ClientSession ::
  "('s, 'g, 'o world) kenv \<Rightarrow> ('s, 'g, 'o) hle \<Rightarrow> nat \<Rightarrow> ('s, 'g, 'o) sys \<Rightarrow> ('s, 'g, 'o) sys run" where
  "destroy_ClientSession env hle c k = do {
     p \<leftarrow> client_sessions k c;
     parent \<leftarrow> sessions k p;
     let server = session_server parent;
     k \<leftarrow> (case server of
         None \<Rightarrow> Some k
       | Some a \<Rightarrow> do {
           s \<leftarrow> server_session_of k a;
           k \<leftarrow> (case session_handler s of None \<Rightarrow> Some k | Some h \<Rightarrow> client_disconnected hle h a k);
           s \<leftarrow> server_session_of k a;
           Some (set_object a (KServerSession (s\<lparr>pending_requesting_threads := [], currently_handling := None\<rparr>)) k)});
     parent \<leftarrow> sessions k p;
     let k = set_session p (parent\<lparr>session_client := None\<rparr>) k;
     k \<leftarrow> (case server of None \<Rightarrow> Some k | Some a \<Rightarrow> WakeupAllWaitingThreads env (RObj a) k);
     Some (k\<lparr>client_sessions := (client_sessions k)(c := None)\<rparr>)}"

definition destroy_ServerSession :: "nat \<Rightarrow> ('s, 'g, 'e) kernel \<Rightarrow> ('s, 'g, 'e) kernel run" where
  "destroy_ServerSession a k = do {
     s \<leftarrow> server_session_of k a;
     parent \<leftarrow> sessions k (session_parent s);
     k \<leftarrow> (case session_port parent of None \<Rightarrow> Some k | Some port \<Rightarrow> ConnectionClosed port k);
     let k = set_session (session_parent s) (parent\<lparr>session_server := None\<rparr>) k;
     Some (k\<lparr>sync_objects := (sync_objects k)(a := None)\<rparr>)}"

section \<open>Requests\<close>

text \<open>A request to a service: the command buffer is 64 words and 16 static buffers of two words.\<close>

abbreviation (input) "cmd_buf_bytes \<equiv> (384 :: nat)"

definition forward_request ::
  "'g mem_env \<Rightarrow> ('s, 'g, 'o) hle \<Rightarrow> nat \<Rightarrow> nat \<Rightarrow> nat \<Rightarrow> ('s, 'g, 'o) sys \<Rightarrow> ('s, 'g, 'o) sys run" where
  "forward_request menv hle h a t k = do {
     th \<leftarrow> threads k t;
     i \<leftarrow> owner_lock k th;
     (cmd_buf, k) \<leftarrow> read_process menv i (GetCommandBufferAddress th) cmd_buf_bytes k;
     k \<leftarrow> hle_request hle h a t cmd_buf k;
     th \<leftarrow> threads k t;
     ASSERT (status th = Running \<or> status th = WaitHleEvent);
     if status th = Running then do {
       (cmd_buf, k) \<leftarrow> hle_reply hle h a t cmd_buf k;
       th \<leftarrow> threads k t;
       write_process menv i (GetCommandBufferAddress th) cmd_buf k}
     else Some k}"

abbreviation (input) "IPCDelayNanoseconds \<equiv> (39000 :: int)"

definition HandleSyncRequest ::
  "('s, 'g, 'o world) kenv \<Rightarrow> 'g mem_env \<Rightarrow> ('s, 'g, 'o) hle \<Rightarrow> nat \<Rightarrow> nat \<Rightarrow> ('s, 'g, 'o) sys \<Rightarrow>
   (result \<times> ('s, 'g, 'o) sys) run" where
  "HandleSyncRequest env menv hle a t k = do {
     s \<leftarrow> server_session_of k a;
     k \<leftarrow> (case session_handler s of None \<Rightarrow> Some k | Some h \<Rightarrow> forward_request menv hle h a t k);
     th \<leftarrow> threads k t;
     k \<leftarrow> (if status th = Running then do {
         let k = upd_thread t (\<lambda>th. th\<lparr>status := WaitIPC\<rparr>) k;
         s \<leftarrow> server_session_of k a;
         if session_handler s \<noteq> None then WakeAfterDelay t IPCDelayNanoseconds False k
         else Some (set_object a
           (KServerSession (s\<lparr>pending_requesting_threads := pending_requesting_threads s @ [t]\<rparr>)) k)}
       else Some k);
     k \<leftarrow> WakeupAllWaitingThreads env (RObj a) k;
     Some (ResultSuccess, k)}"

definition ClientSession_SendSyncRequest ::
  "('s, 'g, 'o world) kenv \<Rightarrow> 'g mem_env \<Rightarrow> ('s, 'g, 'o) hle \<Rightarrow> nat \<Rightarrow> nat \<Rightarrow> ('s, 'g, 'o) sys \<Rightarrow>
   (result \<times> ('s, 'g, 'o) sys) run" where
  "ClientSession_SendSyncRequest env menv hle c t k = do {
     p \<leftarrow> client_sessions k c;
     parent \<leftarrow> sessions k p;
     case session_server parent of
       None \<Rightarrow> Some (ResultSessionClosed, k)
     | Some a \<Rightarrow> HandleSyncRequest env menv hle a t k}"

text \<open>A failed translation ends in a failed assertion.\<close>

definition ReceiveIPCRequest ::
  "'g mem_env \<Rightarrow> (nat \<Rightarrow> 'g machine \<Rightarrow> u64) \<Rightarrow> nat \<Rightarrow> nat \<Rightarrow> ('s, 'g, 'o) sys \<Rightarrow>
   (result \<times> ('s, 'g, 'o) sys) run" where
  "ReceiveIPCRequest menv alloc a t k = do {
     s \<leftarrow> server_session_of k a;
     parent \<leftarrow> sessions k (session_parent s);
     if session_client parent = None then Some (ResultSessionClosed, k)
     else do {
       th \<leftarrow> threads k t;
       client \<leftarrow> currently_handling s;
       cth \<leftarrow> threads k client;
       (r, ctx, k) \<leftarrow> TranslateCommandBuffer menv alloc client t (GetCommandBufferAddress cth)
         (GetCommandBufferAddress th) (mapped_buffer_context (outside k) a) False k;
       ASSERT (\<not> Result_IsError r);
       Some (r, k\<lparr>outside := (outside k)\<lparr>mapped_buffer_context := (mapped_buffer_context (outside k))(a := ctx)\<rparr>\<rparr>)}}"

section \<open>Wake-up callbacks\<close>

definition SVC_IPCCallback ::
  "'g mem_env \<Rightarrow> (nat \<Rightarrow> 'g machine \<Rightarrow> u64) \<Rightarrow> ThreadWakeupReason \<Rightarrow> nat \<Rightarrow> oref option \<Rightarrow>
   ('s, 'g, 'o) sys \<Rightarrow> ('s, 'g, 'o) sys run" where
  "SVC_IPCCallback menv alloc reason t ob k = do {
     th \<leftarrow> threads k t;
     ASSERT (status th = WaitSynchAny);
     ASSERT (reason = Signal);
     ob \<leftarrow> ob;
     (r, k) \<leftarrow> (case ob of
         RObj a \<Rightarrow> (if server_session_of k a \<noteq> None then ReceiveIPCRequest menv alloc a t k
                    else Some (ResultSuccess, k))
       | RThread x \<Rightarrow> Some (ResultSuccess, k));
     let k = SetWaitSynchronizationResult t r k;
     th \<leftarrow> threads k t;
     i \<leftarrow> GetWaitObjectIndex th ob;
     Some (SetWaitSynchronizationOutput t i k)}"

text \<open>The environment in which the callback 0 is the one of IPC.\<close>

definition ipc_env ::
  "'g mem_env \<Rightarrow> (nat \<Rightarrow> 'g machine \<Rightarrow> u64) \<Rightarrow> ('s, 'g, 'o world) kenv \<Rightarrow> ('s, 'g, 'o world) kenv" where
  "ipc_env menv alloc env = env\<lparr>other_wakeup := (\<lambda>n. case n of
     0 \<Rightarrow> SVC_IPCCallback menv alloc
   | Suc m \<Rightarrow> other_wakeup env m)\<rparr>"

section \<open>Supervisor calls\<close>

definition call_object :: "('s, 'g, 'o) sys \<Rightarrow> u32 \<Rightarrow> kref option" where
  "call_object k handle = do { i \<leftarrow> current_process k; get_object (k, table_of i k) handle }"

text \<open>A handle for a new object, in the table of the running process.\<close>

definition new_handle_for ::
  "kref \<Rightarrow> (('s, 'g, 'o) sys \<Rightarrow> ('s, 'g, 'o) sys run) \<Rightarrow> ('s, 'g, 'o) sys \<Rightarrow>
   ((result + u32) \<times> ('s, 'g, 'o) sys) run" where
  "new_handle_for ob destroy k = do {
     i \<leftarrow> current_process k;
     case HandleTable_Create (table_of i k) ob of
       Inl e \<Rightarrow> map_option (Pair (Inl e)) (destroy k)
     | Inr (h, t) \<Rightarrow> Some (Inr h, put_table i t k)}"

definition svc_CreateSessionToPort ::
  "('s, 'g, 'o world) kenv \<Rightarrow> ('s, 'g, 'o) hle \<Rightarrow> nat \<times> nat \<times> nat \<Rightarrow> u32 \<Rightarrow> ('s, 'g, 'o) sys \<Rightarrow>
   ((result + u32) \<times> ('s, 'g, 'o) sys) run" where
  "svc_CreateSessionToPort env hle new client_port_handle k =
     (case call_object k client_port_handle of
        Some (HClientPort port) \<Rightarrow> do {
          (r, k) \<leftarrow> ClientPort_Connect env hle new port k;
          case r of
            Inl e \<Rightarrow> Some (Inl e, k)
          | Inr c \<Rightarrow> new_handle_for (HClientSession c) (destroy_ClientSession env hle c) k}
      | _ \<Rightarrow> Some (Inl ResultInvalidHandle, k))"

abbreviation (input) "PortNameMaxLength \<equiv> (11 :: nat)"

definition svc_ConnectToPort ::
  "('s, 'g, 'o world) kenv \<Rightarrow> 'g mem_env \<Rightarrow> ('s, 'g, 'o) hle \<Rightarrow> nat \<times> nat \<times> nat \<Rightarrow> u32 \<Rightarrow>
   ('s, 'g, 'o) sys \<Rightarrow> ((result + u32) \<times> ('s, 'g, 'o) sys) run" where
  "svc_ConnectToPort env menv hle new port_name_address k = do {
     i \<leftarrow> current_process k;
     pt \<leftarrow> process_pages i k;
     if \<not> IsValidVirtualAddress pt port_name_address then Some (Inl ResultNotFound, k)
     else do {
       cpt \<leftarrow> current_pages k;
       (port_name, m) \<leftarrow> ReadCString menv cpt port_name_address (PortNameMaxLength + 1) (km_machine (kernel_memory k));
       let k = put_machine m k;
       if length port_name > PortNameMaxLength then Some (Inl ResultPortNameTooLong, k)
       else (case named_ports k port_name of
           None \<Rightarrow> Some (Inl ResultNotFound, k)
         | Some port \<Rightarrow> do {
             (r, k) \<leftarrow> ClientPort_Connect env hle new port k;
             case r of
               Inl e \<Rightarrow> Some (Inl e, k)
             | Inr c \<Rightarrow> new_handle_for (HClientSession c) (destroy_ClientSession env hle c) k})}}"

definition svc_SendSyncRequest ::
  "('s, 'g, 'o world) kenv \<Rightarrow> 'g mem_env \<Rightarrow> ('s, 'g, 'o) hle \<Rightarrow> u32 \<Rightarrow> ('s, 'g, 'o) sys \<Rightarrow>
   (result \<times> ('s, 'g, 'o) sys) run" where
  "svc_SendSyncRequest env menv hle handle k =
     (case call_object k handle of
        Some (HClientSession c) \<Rightarrow> do {
          let k = PrepareReschedule k;
          t \<leftarrow> GetCurrentThread k;
          ClientSession_SendSyncRequest env menv hle c t k}
      | _ \<Rightarrow> Some (ResultInvalidHandle, k))"

text \<open>The client's handle is entered first; when the server's cannot be, it stays.\<close>

definition svc_CreatePort ::
  "nat \<Rightarrow> nat \<Rightarrow> u32 \<Rightarrow> u32 \<Rightarrow> ('s, 'g, 'o) sys \<Rightarrow> ((result + u32 \<times> u32) \<times> ('s, 'g, 'o) sys) run" where
  "svc_CreatePort a c name_address maximum k = do {
     ASSERT (name_address = 0);
     let k = CreatePortPair a c maximum k;
     (r, k) \<leftarrow> new_handle_for (HClientPort c)
       (\<lambda>k. Some (k\<lparr>client_ports := (client_ports k)(c := None), sync_objects := (sync_objects k)(a := None)\<rparr>)) k;
     case r of
       Inl e \<Rightarrow> Some (Inl e, k)
     | Inr client_port \<Rightarrow> do {
         (r, k) \<leftarrow> new_handle_for (HWait (RObj a)) Some k;
         case r of
           Inl e \<Rightarrow> Some (Inl e, k)
         | Inr server_port \<Rightarrow> Some (Inr (server_port, client_port), k)}}"

definition svc_CreateSession ::
  "('s, 'g, 'o world) kenv \<Rightarrow> ('s, 'g, 'o) hle \<Rightarrow> nat \<times> nat \<times> nat \<Rightarrow> ('s, 'g, 'o) sys \<Rightarrow>
   ((result + u32 \<times> u32) \<times> ('s, 'g, 'o) sys) run" where
  "svc_CreateSession env hle new k = do {
     let (a, c, p) = new;
     let k = CreateSessionPair a c p None k;
     (r, k) \<leftarrow> new_handle_for (HWait (RObj a))
       (\<lambda>k. do { k \<leftarrow> destroy_ServerSession a k; destroy_ClientSession env hle c k }) k;
     case r of
       Inl e \<Rightarrow> Some (Inl e, k)
     | Inr server_session \<Rightarrow> do {
         (r, k) \<leftarrow> new_handle_for (HClientSession c) (destroy_ClientSession env hle c) k;
         case r of
           Inl e \<Rightarrow> Some (Inl e, k)
         | Inr client_session \<Rightarrow> Some (Inr (server_session, client_session), k)}}"

definition call_kobject :: "(kobject \<Rightarrow> bool) \<Rightarrow> ('s, 'g, 'o) sys \<Rightarrow> u32 \<Rightarrow> nat option" where
  "call_kobject P k handle = do { i \<leftarrow> current_process k; get_kobject P (k, table_of i k) handle }"

definition svc_AcceptSession ::
  "u32 \<Rightarrow> ('s, 'g, 'o) sys \<Rightarrow> ((result + u32) \<times> ('s, 'g, 'o) sys) run" where
  "svc_AcceptSession server_port_handle k =
     (case call_kobject is_KServerPort k server_port_handle of
        None \<Rightarrow> Some (Inl ResultInvalidHandle, k)
      | Some a \<Rightarrow> do {
          (r, k) \<leftarrow> ServerPort_Accept a k;
          case r of
            Inl e \<Rightarrow> Some (Inl e, k)
          | Inr s \<Rightarrow> new_handle_for (HWait (RObj s)) (destroy_ServerSession s) k})"

section \<open>Reply and receive\<close>

text \<open>The reply to the request in hand: an error or the state after it.\<close>

definition send_reply ::
  "'g mem_env \<Rightarrow> (nat \<Rightarrow> 'g machine \<Rightarrow> u64) \<Rightarrow> nat \<Rightarrow> u32 \<Rightarrow> ('s, 'g, 'o) sys \<Rightarrow>
   ((result \<times> s32 option) option \<times> ('s, 'g, 'o) sys) run" where
  "send_reply menv alloc t reply_target k =
     (case call_kobject is_KServerSession k reply_target of
        None \<Rightarrow> Some (Some (ResultInvalidHandle, None), k)
      | Some a \<Rightarrow> do {
          s \<leftarrow> server_session_of k a;
          let k = set_object a (KServerSession (s\<lparr>currently_handling := None\<rparr>)) k;
          parent \<leftarrow> sessions k (session_parent s);
          case currently_handling s of
            None \<Rightarrow> Some (Some (ResultSessionClosed, Some (- 1)), k)
          | Some client \<Rightarrow>
              if session_client parent = None then Some (Some (ResultSessionClosed, Some (- 1)), k)
              else do {
                th \<leftarrow> threads k t;
                cth \<leftarrow> threads k client;
                (r, ctx, k) \<leftarrow> TranslateCommandBuffer menv alloc t client (GetCommandBufferAddress th)
                  (GetCommandBufferAddress cth) (mapped_buffer_context (outside k) a) True k;
                let k = k\<lparr>outside := (outside k)\<lparr>mapped_buffer_context := (mapped_buffer_context (outside k))(a := ctx)\<rparr>\<rparr>;
                ASSERT (Result_IsSuccess r);
                k \<leftarrow> ResumeFromWait client k;
                Some (None, k)}})"

definition wait_for_request ::
  "oref list \<Rightarrow> nat \<Rightarrow> ('s, 'g, 'o) sys \<Rightarrow> ('s, 'g, 'o) sys run" where
  "wait_for_request obs t k = do {
     let k = upd_thread t (\<lambda>th. th\<lparr>status := WaitSynchAny\<rparr>) k;
     k \<leftarrow> Add_all obs t k;
     let k = upd_thread t (\<lambda>th. th\<lparr>wait_objects := obs, wakeup_callback := Some (OtherCallback 0)\<rparr>) k;
     Some (PrepareReschedule k)}"

text \<open>The result comes with the value of \<open>index\<close>, when it is set.\<close>

definition receive_request ::
  "'g mem_env \<Rightarrow> (nat \<Rightarrow> 'g machine \<Rightarrow> u64) \<Rightarrow> oref list \<Rightarrow> nat \<Rightarrow> ('s, 'g, 'o) sys \<Rightarrow>
   ((result \<times> s32 option) \<times> ('s, 'g, 'o) sys) run" where
  "receive_request menv alloc obs t k = do {
     found \<leftarrow> first_ready k obs t 0;
     case found of
       Some i \<Rightarrow> do {
         k \<leftarrow> Acquire (obs ! i) t k;
         let index = (of_nat i :: s32);
         case obs ! i of
           RObj a \<Rightarrow> (if server_session_of k a \<noteq> None then do {
               (r, k) \<leftarrow> ReceiveIPCRequest menv alloc a t k;
               Some ((r, Some index), k)}
             else Some ((ResultSuccess, Some index), k))
         | RThread x \<Rightarrow> Some ((ResultSuccess, Some index), k)}
     | None \<Rightarrow> do {
         k \<leftarrow> wait_for_request obs t k;
         Some ((ResultSuccess, Some (- 1)), k)}}"

definition svc_ReplyAndReceive ::
  "'g mem_env \<Rightarrow> (nat \<Rightarrow> 'g machine \<Rightarrow> u64) \<Rightarrow> u32 \<Rightarrow> s32 \<Rightarrow> u32 \<Rightarrow> ('s, 'g, 'o) sys \<Rightarrow>
   ((result \<times> s32 option) \<times> ('s, 'g, 'o) sys) run" where
  "svc_ReplyAndReceive menv alloc handles_address handle_count reply_target k = do {
     i \<leftarrow> current_process k;
     pt \<leftarrow> process_pages i k;
     if \<not> IsValidVirtualAddress pt handles_address then Some ((ResultInvalidPointer, None), k)
     else if \<not> sint handle_count \<ge> 0 then Some ((ResultOutOfRange, None), k)
     else do {
       (obs, k, ht) \<leftarrow> read_handles menv (nat (sint handle_count)) handles_address [] (k, table_of i k);
       case obs of
         Inl e \<Rightarrow> Some ((e, None), k)
       | Inr obs \<Rightarrow> do {
           t \<leftarrow> GetCurrentThread k;
           th \<leftarrow> threads k t;
           (header, k) \<leftarrow> Read32 menv (GetCommandBufferAddress th) k;
           let replies = (reply_target \<noteq> 0 \<and> Header_command_id header \<noteq> 0xFFFF);
           (stopped, k) \<leftarrow> (if replies then send_reply menv alloc t reply_target k else Some (None, k));
           case stopped of
             Some out \<Rightarrow> Some (out, k)
           | None \<Rightarrow>
               if handle_count = 0
               then Some ((if replies then ResultSuccess else 0xE7E3FFFF, Some 0), k)
               else receive_request menv alloc obs t k}}}"

end
