(* ===== verification/Connections.thy ===== *)
theory Connections
  imports Sessions IpcProofs
begin

text \<open>Ports and sessions as an abstract table of connections, and the proof that the kernel's calls on
  them are steps of that table: a port counts its connections and never has more than its maximum.\<close>

section \<open>The table\<close>

text \<open>The parents of the sessions, the parent of each client's end, the clients' ports, and the parent
  of each server's end.\<close>

record links =
  l_sessions :: "nat \<rightharpoonup> session"
  l_clients :: "nat \<rightharpoonup> nat"
  l_ports :: "nat \<rightharpoonup> client_port"
  l_servers :: "nat \<rightharpoonup> nat"

definition links_of :: "('s, 'g, 'e) kernel \<Rightarrow> links" where
  "links_of k = \<lparr>l_sessions = sessions k, l_clients = client_sessions k, l_ports = client_ports k,
     l_servers = (\<lambda>a. map_option session_parent (server_session_of k a))\<rparr>"

definition add_session :: "nat \<Rightarrow> nat \<Rightarrow> nat \<Rightarrow> nat option \<Rightarrow> links \<Rightarrow> links" where
  "add_session a c p port l = l\<lparr>l_sessions := (l_sessions l)
       (p \<mapsto> \<lparr>session_client = Some c, session_server = Some a, session_port = port\<rparr>),
     l_clients := (l_clients l)(c \<mapsto> p), l_servers := (l_servers l)(a \<mapsto> p)\<rparr>"

definition count_port :: "nat \<Rightarrow> client_port \<Rightarrow> u32 \<Rightarrow> links \<Rightarrow> links" where
  "count_port port cp n l = l\<lparr>l_ports := (l_ports l)(port \<mapsto> cp\<lparr>active_sessions := n\<rparr>)\<rparr>"

inductive link_step :: "links \<Rightarrow> links \<Rightarrow> bool" where
  open_port: "l_ports l c = None \<Longrightarrow>
    link_step l (l\<lparr>l_ports := (l_ports l)(c \<mapsto> \<lparr>cp_server_port = a, max_sessions = m, active_sessions = 0\<rparr>)\<rparr>)"
| close_port: "l_ports l c = Some cp \<Longrightarrow> active_sessions cp = 0 \<Longrightarrow>
    link_step l (l\<lparr>l_ports := (l_ports l)(c := None)\<rparr>)"
| open_session: "l_sessions l p = None \<Longrightarrow> l_servers l a = None \<Longrightarrow>
    link_step l (add_session a c p None l)"
| connect: "l_sessions l p = None \<Longrightarrow> l_servers l a = None \<Longrightarrow> l_ports l port = Some cp \<Longrightarrow>
    active_sessions cp < max_sessions cp \<Longrightarrow>
    link_step l (add_session a c p (Some port) (count_port port cp (active_sessions cp + 1) l))"
| client_gone: "l_sessions l p = Some x \<Longrightarrow>
    link_step l (l\<lparr>l_sessions := (l_sessions l)(p \<mapsto> x\<lparr>session_client := None\<rparr>)\<rparr>)"
| client_forgotten: "link_step l (l\<lparr>l_clients := (l_clients l)(c := None)\<rparr>)"
| server_gone: "l_servers l a = Some p \<Longrightarrow> l_sessions l p = Some x \<Longrightarrow> session_port x = None \<Longrightarrow>
    link_step l (l\<lparr>l_sessions := (l_sessions l)(p \<mapsto> x\<lparr>session_server := None\<rparr>),
      l_servers := (l_servers l)(a := None)\<rparr>)"
| connection_closed: "l_servers l a = Some p \<Longrightarrow> l_sessions l p = Some x \<Longrightarrow> session_port x = Some port \<Longrightarrow>
    l_ports l port = Some cp \<Longrightarrow> active_sessions cp > 0 \<Longrightarrow>
    link_step l ((count_port port cp (active_sessions cp - 1) l)
      \<lparr>l_sessions := (l_sessions l)(p \<mapsto> x\<lparr>session_server := None\<rparr>),
       l_servers := (l_servers l)(a := None)\<rparr>)"

text \<open>The servers' ends that are connected through a port.\<close>

definition connected :: "links \<Rightarrow> nat \<Rightarrow> nat set" where
  "connected l port = {a. \<exists>p x. l_sessions l p = Some x \<and> session_server x = Some a \<and> session_port x = Some port}"

definition links_ok :: "links \<Rightarrow> bool" where
  "links_ok l \<longleftrightarrow> finite (dom (l_servers l)) \<and>
     (\<forall>a p. l_servers l a = Some p \<longleftrightarrow> (\<exists>x. l_sessions l p = Some x \<and> session_server x = Some a)) \<and>
     (\<forall>port cp. l_ports l port = Some cp \<longrightarrow> unat (active_sessions cp) = card (connected l port) \<and>
       active_sessions cp \<le> max_sessions cp) \<and>
     (\<forall>port. l_ports l port = None \<longrightarrow> connected l port = {})"

section \<open>The invariant of the table\<close>

lemma links_okD:
  assumes "links_ok l"
  shows "finite (dom (l_servers l))"
    and "l_servers l a = Some p \<longleftrightarrow> (\<exists>x. l_sessions l p = Some x \<and> session_server x = Some a)"
    and "l_ports l port = Some cp \<Longrightarrow> unat (active_sessions cp) = card (connected l port)"
    and "l_ports l port = Some cp \<Longrightarrow> active_sessions cp \<le> max_sessions cp"
    and "l_ports l port = None \<Longrightarrow> connected l port = {}"
  using assms unfolding links_ok_def by blast+

lemma finite_connected:
  assumes "links_ok l"
  shows "finite (connected l port)"
proof -
  have "connected l port \<subseteq> dom (l_servers l)"
    using links_okD(2) [OF assms] unfolding connected_def dom_def by blast
  then show ?thesis using links_okD(1) [OF assms] by (rule finite_subset)
qed

lemma new_server:
  assumes "links_ok l" and "l_servers l a = None"
  shows "l_sessions l q = Some x \<Longrightarrow> session_server x \<noteq> Some a" and "a \<notin> connected l port"
proof -
  show *: "l_sessions l q = Some x \<Longrightarrow> session_server x \<noteq> Some a" for q x
    using links_okD(2) [OF assms(1), of a q] assms(2) by auto
  then show "a \<notin> connected l port" by (auto simp: connected_def)
qed

lemma ex_upd:
  "(\<exists>r y. (m(p \<mapsto> z)) r = Some y \<and> P y) \<longleftrightarrow> P z \<or> (\<exists>r y. r \<noteq> p \<and> m r = Some y \<and> P y)"
  by (metis fun_upd_apply option.inject)

lemma connected_upd:
  assumes "l_sessions l' = (l_sessions l)(p \<mapsto> z)"
  shows "b \<in> connected l' q \<longleftrightarrow> (session_server z = Some b \<and> session_port z = Some q) \<or>
    (\<exists>r y. r \<noteq> p \<and> l_sessions l r = Some y \<and> session_server y = Some b \<and> session_port y = Some q)"
  unfolding connected_def mem_Collect_eq assms
  by (rule ex_upd [of "l_sessions l" p z "\<lambda>y. session_server y = Some b \<and> session_port y = Some q"])

lemma add_session_connected:
  assumes "links_ok l" and "l_servers l a = None" and "l_sessions l p = None"
  shows "connected (add_session a c p port l) q = (if port = Some q then insert a (connected l q) else connected l q)"
proof (rule set_eqI)
  fix b
  have "l_sessions (add_session a c p port l) =
      (l_sessions l)(p \<mapsto> \<lparr>session_client = Some c, session_server = Some a, session_port = port\<rparr>)"
    by (simp add: add_session_def)
  note U = connected_upd [OF this]
  have "(\<exists>r y. r \<noteq> p \<and> l_sessions l r = Some y \<and> session_server y = Some b \<and> session_port y = Some q) \<longleftrightarrow>
      b \<in> connected l q"
    using assms(3) unfolding connected_def mem_Collect_eq by (metis option.distinct(1))
  then show "b \<in> connected (add_session a c p port l) q \<longleftrightarrow>
      b \<in> (if port = Some q then insert a (connected l q) else connected l q)"
    unfolding U by auto
qed

lemma add_session_servers:
  assumes ok: "links_ok l" and new: "l_servers l a = None" "l_sessions l p = None"
  shows "l_servers (add_session a c p port l) b = Some q \<longleftrightarrow>
    (\<exists>x. l_sessions (add_session a c p port l) q = Some x \<and> session_server x = Some b)"
proof (cases "q = p")
  case True
  have "l_servers l b \<noteq> Some p" using links_okD(2) [OF ok, of b p] new(2) by simp
  then show ?thesis using True by (auto simp: add_session_def)
next
  case False
  then show ?thesis
    using links_okD(2) [OF ok, of b q] new_server(1) [OF ok new(1), of q] by (auto simp: add_session_def)
qed

definition drop_server :: "nat \<Rightarrow> nat \<Rightarrow> session \<Rightarrow> links \<Rightarrow> links" where
  "drop_server a p x l = l\<lparr>l_sessions := (l_sessions l)(p \<mapsto> x\<lparr>session_server := None\<rparr>),
     l_servers := (l_servers l)(a := None)\<rparr>"

lemma drop_server_links:
  assumes ok: "links_ok l" and a: "l_servers l a = Some p" "l_sessions l p = Some x"
  shows "connected (drop_server a p x l) q = connected l q - {a}"
    and "l_servers (drop_server a p x l) b = Some r \<longleftrightarrow>
      (\<exists>y. l_sessions (drop_server a p x l) r = Some y \<and> session_server y = Some b)"
    and "a \<in> connected l q \<longleftrightarrow> session_port x = Some q"
proof -
  have srv: "session_server x = Some a" using links_okD(2) [OF ok, of a p] a by auto
  have only: "r = p" if "l_sessions l r = Some y" "session_server y = Some a" for r y
    using links_okD(2) [OF ok, of a r] a that by auto
  show "a \<in> connected l q \<longleftrightarrow> session_port x = Some q"
  proof
    assume "a \<in> connected l q"
    then obtain r y where r: "l_sessions l r = Some y" "session_server y = Some a" "session_port y = Some q"
      by (auto simp: connected_def)
    from only [OF r(1,2)] r(1,3) a(2) show "session_port x = Some q" by simp
  qed (use srv a(2) in \<open>auto simp: connected_def\<close>)
  show "connected (drop_server a p x l) q = connected l q - {a}"
  proof (rule set_eqI)
    fix b
    have "b \<in> connected (drop_server a p x l) q \<longleftrightarrow>
        (\<exists>r y. r \<noteq> p \<and> l_sessions l r = Some y \<and> session_server y = Some b \<and> session_port y = Some q)"
      using connected_upd [of "drop_server a p x l" l p "x\<lparr>session_server := None\<rparr>" b q]
      by (simp add: drop_server_def)
    also have "\<dots> \<longleftrightarrow> b \<in> connected l q \<and> b \<noteq> a"
    proof
      assume "\<exists>r y. r \<noteq> p \<and> l_sessions l r = Some y \<and> session_server y = Some b \<and> session_port y = Some q"
      then show "b \<in> connected l q \<and> b \<noteq> a" using only unfolding connected_def by blast
    next
      assume "b \<in> connected l q \<and> b \<noteq> a"
      then obtain r y where r: "l_sessions l r = Some y" "session_server y = Some b" "session_port y = Some q" "b \<noteq> a"
        by (auto simp: connected_def)
      then have "r \<noteq> p" using srv a(2) by auto
      then show "\<exists>r y. r \<noteq> p \<and> l_sessions l r = Some y \<and> session_server y = Some b \<and> session_port y = Some q"
        using r by blast
    qed
    finally show "b \<in> connected (drop_server a p x l) q \<longleftrightarrow> b \<in> connected l q - {a}" by simp
  qed
  show "l_servers (drop_server a p x l) b = Some r \<longleftrightarrow>
      (\<exists>y. l_sessions (drop_server a p x l) r = Some y \<and> session_server y = Some b)"
  proof (cases "b = a")
    case True
    then show ?thesis using only by (auto simp: drop_server_def)
  next
    case False
    then show ?thesis using links_okD(2) [OF ok, of b r] srv a by (auto simp: drop_server_def)
  qed
qed

lemma unat_plus_one: "a < b \<Longrightarrow> unat (a + 1 :: u32) = unat a + 1"
  using unat_u32_less [of b] by (simp add: word_less_nat_alt unat_plus_fits)

lemma count_port_sel [simp]:
  "connected (count_port port cp n l) q = connected l q" "l_servers (count_port port cp n l) = l_servers l"
  "l_sessions (count_port port cp n l) = l_sessions l"
  "l_ports (count_port port cp n l) = (l_ports l)(port \<mapsto> cp\<lparr>active_sessions := n\<rparr>)"
  by (simp_all add: count_port_def connected_def)

lemma connected_cong: "l_sessions l' = l_sessions l \<Longrightarrow> connected l' = connected l"
  by (simp add: connected_def fun_eq_iff)

lemma connected_other [simp]:
  "connected (l\<lparr>l_ports := P\<rparr>) = connected l" "connected (l\<lparr>l_clients := C\<rparr>) = connected l"
  by (simp_all add: connected_def fun_eq_iff)

lemma links_okI:
  assumes "finite (dom (l_servers l))"
    and "\<And>a p. l_servers l a = Some p \<longleftrightarrow> (\<exists>x. l_sessions l p = Some x \<and> session_server x = Some a)"
    and "\<And>port cp. l_ports l port = Some cp \<Longrightarrow> unat (active_sessions cp) = card (connected l port) \<and>
      active_sessions cp \<le> max_sessions cp"
    and "\<And>port. l_ports l port = None \<Longrightarrow> connected l port = {}"
  shows "links_ok l"
  using assms unfolding links_ok_def by blast

lemma link_step_ok:
  assumes st: "link_step l l'" and ok: "links_ok l"
  shows "links_ok l'"
  using st
proof (cases rule: link_step.cases)
  case (open_port c a m)
  show ?thesis
    using links_okD [OF ok] open_port links_okD(5) [OF ok open_port(2)]
    by (intro links_okI) (auto split: if_splits)
next
  case (close_port c cp)
  have "connected l c = {}"
    using links_okD(3) [OF ok close_port(2)] close_port(3) finite_connected [OF ok, of c] by simp
  then show ?thesis
    using links_okD [OF ok] close_port by (intro links_okI) (auto split: if_splits)
next
  case (open_session p a c)
  note A = add_session_connected [OF ok open_session(3,2), of c None] add_session_servers [OF ok open_session(3,2), of c None]
  have "l_ports l' = l_ports l" "dom (l_servers l') = insert a (dom (l_servers l))"
    using open_session(1) by (simp_all add: add_session_def)
  then show ?thesis
    using links_okD [OF ok] A open_session(1) by (intro links_okI) simp_all
next
  case (connect p a port cp c)
  let ?l = "count_port port cp (active_sessions cp + 1) l"
  define l1 where "l1 = add_session a c p (Some port) l"
  have l': "l_sessions l' = l_sessions l1" "l_servers l' = l_servers l1"
      "l_ports l' = (l_ports l)(port \<mapsto> cp\<lparr>active_sessions := active_sessions cp + 1\<rparr>)"
    unfolding connect(1) l1_def by (simp_all add: add_session_def)
  have dom: "dom (l_servers l') = insert a (dom (l_servers l))" by (simp add: l'(2) l1_def add_session_def)
  have con: "connected l' q = (if q = port then insert a (connected l q) else connected l q)" for q
    using add_session_connected [OF ok connect(3,2), of c "Some port" q] connected_cong [OF l'(1)] by (simp add: l1_def)
  have srv: "l_servers l' b = Some q \<longleftrightarrow> (\<exists>x. l_sessions l' q = Some x \<and> session_server x = Some b)" for b q
    using add_session_servers [OF ok connect(3,2), of c "Some port" b q] by (simp add: l' l1_def)
  have n: "unat (active_sessions cp + 1) = unat (active_sessions cp) + 1" using connect(5) by (rule unat_plus_one)
  have card: "card (insert a (connected l port)) = unat (active_sessions cp) + 1"
    using new_server(2) [OF ok connect(3)] finite_connected [OF ok] links_okD(3) [OF ok connect(4)] by simp
  show ?thesis
  proof (rule links_okI)
    show "finite (dom (l_servers l'))" using links_okD(1) [OF ok] dom by simp
    show "unat (active_sessions c') = card (connected l' q) \<and> active_sessions c' \<le> max_sessions c'"
      if "l_ports l' q = Some c'" for q c'
    proof (cases "q = port")
      case True
      then show ?thesis
        using that n card connect(5) by (auto simp: l'(3) con word_le_nat_alt word_less_nat_alt)
    next
      case False
      then show ?thesis using that links_okD(3,4) [OF ok, of q c'] by (simp add: l'(3) con)
    qed
    show "connected l' q = {}" if "l_ports l' q = None" for q
      using that links_okD(5) [OF ok, of q] by (auto simp: l'(3) con split: if_splits)
  qed (rule srv)
next
  case (client_gone p x)
  have con: "connected l' = connected l"
  proof (intro ext set_eqI)
    fix q b
    have "b \<in> connected l' q \<longleftrightarrow> (session_server x = Some b \<and> session_port x = Some q) \<or>
        (\<exists>r y. r \<noteq> p \<and> l_sessions l r = Some y \<and> session_server y = Some b \<and> session_port y = Some q)"
      using connected_upd [of l' l p "x\<lparr>session_client := None\<rparr>" b q] client_gone(1) by simp
    also have "\<dots> \<longleftrightarrow> b \<in> connected l q"
      unfolding connected_def mem_Collect_eq using client_gone(2) by (metis option.inject)
    finally show "b \<in> connected l' q \<longleftrightarrow> b \<in> connected l q" .
  qed
  show ?thesis
    using links_okD [OF ok] client_gone con [unfolded client_gone(1)]
    by (intro links_okI) (auto split: if_splits)
next
  case (client_forgotten c)
  then show ?thesis using links_okD [OF ok] client_forgotten by (intro links_okI) simp_all
next
  case (server_gone a p x)
  have l': "l' = drop_server a p x l" using server_gone(1) by (simp add: drop_server_def)
  note D = drop_server_links [OF ok server_gone(2,3)]
  have "connected l' q = connected l q" for q using D(1,3) server_gone(4) by (auto simp: l')
  moreover have "l_ports l' = l_ports l" "dom (l_servers l') \<subseteq> dom (l_servers l)"
    by (auto simp: l' drop_server_def)
  ultimately show ?thesis
    using links_okD [OF ok] D(2) finite_subset by (intro links_okI) (simp_all add: l', blast?)
next
  case (connection_closed a p x port cp)
  let ?l = "drop_server a p x l"
  have l': "l_sessions l' = l_sessions ?l" "l_servers l' = l_servers ?l"
      "l_ports l' = (l_ports l)(port \<mapsto> cp\<lparr>active_sessions := active_sessions cp - 1\<rparr>)"
    using connection_closed(1) by (simp_all add: drop_server_def)
  note D = drop_server_links [OF ok connection_closed(2,3)]
  have con: "connected l' q = connected l q - {a}" for q using D(1) connected_cong [OF l'(1)] by simp
  have srv: "l_servers l' b = Some q \<longleftrightarrow> (\<exists>y. l_sessions l' q = Some y \<and> session_server y = Some b)" for b q
    using D(2) [of b q] by (simp add: l')
  have n: "unat (active_sessions cp - 1) = unat (active_sessions cp) - 1"
    using connection_closed(6) by (intro unat_minus_one) auto
  have mem: "a \<in> connected l q \<longleftrightarrow> q = port" for q using D(3) [of q] connection_closed(4) by auto
  show ?thesis
  proof (rule links_okI)
    show "finite (dom (l_servers l'))"
      using links_okD(1) [OF ok] by (rule rev_finite_subset) (auto simp: l'(2) drop_server_def)
    show "unat (active_sessions c') = card (connected l' q) \<and> active_sessions c' \<le> max_sessions c'"
      if "l_ports l' q = Some c'" for q c'
    proof (cases "q = port")
      case True
      then show ?thesis
        using that n mem links_okD(3,4) [OF ok connection_closed(5)] finite_connected [OF ok]
        by (auto simp: l'(3) con card_Diff_singleton word_le_nat_alt)
    next
      case False
      then show ?thesis using that links_okD(3,4) [OF ok, of q c'] mem [of q] by (simp add: l'(3) con)
    qed
    show "connected l' q = {}" if "l_ports l' q = None" for q
      using that links_okD(5) [OF ok, of q] by (auto simp: l'(3) con split: if_splits)
  qed (rule srv)
qed
section \<open>Operations that leave the table alone\<close>

lemma server_session_set:
  "server_session_of (set_object a ob k) b =
     (if b = a then (case ob of KServerSession s \<Rightarrow> Some s | _ \<Rightarrow> None) else server_session_of k b)"
  by (simp add: server_session_of_def set_object_def split: kobject.splits)

lemma links_cong:
  "sessions k' = sessions k \<Longrightarrow> client_sessions k' = client_sessions k \<Longrightarrow> client_ports k' = client_ports k \<Longrightarrow>
   sync_objects k' = sync_objects k \<Longrightarrow> links_of k' = links_of k"
  by (simp add: links_of_def server_session_of_def)

text \<open>Replacing an object by one of its own kind.\<close>

lemma links_set_object:
  assumes "sync_objects k a = Some ob"
    and "(case ob of KServerSession s \<Rightarrow> Some (session_parent s) | _ \<Rightarrow> None) =
      (case ob' of KServerSession s \<Rightarrow> Some (session_parent s) | _ \<Rightarrow> None)"
  shows "links_of (set_object a ob' k) = links_of k"
  using assms by (auto simp: links_of_def server_session_of_def set_object_def fun_eq_iff split: kobject.splits)

lemma links_simps [simp]:
  "links_of (upd_thread t f k) = links_of k" "links_of (upd_ready c g k) = links_of k"
  "links_of (upd_manager c h k) = links_of k" "links_of (set_waiting ob ts k) = links_of k"
  "links_of (PrepareReschedule k) = links_of k" "links_of (put_machine m k) = links_of k"
  "links_of (put_process_vm i vm k) = links_of k" "links_of (k\<lparr>timing_of := tm\<rparr>) = links_of k"
  "links_of (k\<lparr>kernel_memory := km\<rparr>) = links_of k" "links_of (k\<lparr>outside := w\<rparr>) = links_of k"
  "links_of (SetWaitSynchronizationResult t r k) = links_of k"
  "links_of (SetWaitSynchronizationOutput t v k) = links_of k"
  "links_of (k\<lparr>arbiter_threads := ar\<rparr>) = links_of k"
  by (simp_all add: links_of_def server_session_of_def upd_thread_def upd_ready_def upd_manager_def
    set_waiting_def PrepareReschedule_def put_machine_def put_process_vm_def SetWaitSynchronizationResult_def
    SetWaitSynchronizationOutput_def)

lemma links_put_table [simp]: "links_of (put_table i t k) = links_of k"
  by (simp add: put_table_def)

lemma links_priority:
  "BoostPriority t p k = Some k' \<Longrightarrow> links_of k' = links_of k"
  "Thread_UpdatePriority t k = Some k' \<Longrightarrow> links_of k' = links_of k"
proof -
  show B: "links_of k' = links_of k" if "BoostPriority t p k = Some k'" for p k'
    using that by (auto simp: BoostPriority_def Let_def split: bind_splits if_splits)
  show "links_of k' = links_of k" if "Thread_UpdatePriority t k = Some k'"
    using that B by (auto simp: Thread_UpdatePriority_def split: bind_splits)
qed

lemma mutex_of_object: "mutex_of k a = Some m \<Longrightarrow> sync_objects k a = Some (KMutex m)"
  by (simp add: mutex_of_def split: option.splits kobject.splits)

lemma links_mutex:
  "Mutex_UpdatePriority a k = Some k' \<Longrightarrow> links_of k' = links_of k"
  using links_priority(2) links_set_object [of k a]
  by (fastforce simp: Mutex_UpdatePriority_def dest: mutex_of_object split: bind_splits option.splits if_splits)

lemma links_waiting:
  "AddWaitingThread ob t k = Some k' \<Longrightarrow> links_of k' = links_of k"
  "RemoveWaitingThread ob t k = Some k' \<Longrightarrow> links_of k' = links_of k"
  by (auto simp: AddWaitingThread_def RemoveWaitingThread_def Let_def split: option.splits if_splits dest!: links_mutex)

lemma links_waits:
  "Add_all obs t k = Some k' \<Longrightarrow> links_of k' = links_of k"
  "Remove_all obs t k = Some k' \<Longrightarrow> links_of k' = links_of k"
  by (induction obs arbitrary: k) (auto split: bind_splits dest!: links_waiting)

lemma links_set_known:
  "sync_objects k a = Some (KMutex m) \<Longrightarrow> links_of (set_object a (KMutex m') k) = links_of k"
  "sync_objects k a = Some (KSemaphore s) \<Longrightarrow> links_of (set_object a (KSemaphore s') k) = links_of k"
  "sync_objects k a = Some (KEvent e) \<Longrightarrow> links_of (set_object a (KEvent e') k) = links_of k"
  "sync_objects k a = Some (KTimer tm) \<Longrightarrow> links_of (set_object a (KTimer tm') k) = links_of k"
  "sync_objects k a = Some (KServerPort p) \<Longrightarrow> links_of (set_object a (KServerPort p') k) = links_of k"
  "sync_objects k a = Some (KServerSession x) \<Longrightarrow> session_parent x' = session_parent x \<Longrightarrow>
    links_of (set_object a (KServerSession x') k) = links_of k"
  by (simp_all add: links_set_object)

lemma links_Mutex_Acquire:
  assumes "Mutex_Acquire a m t k = Some k'" and "sync_objects k a = Some (KMutex m)"
  shows "links_of k' = links_of k"
proof -
  obtain k1 m1 n where k1: "(if lock_count m = 0 then do {
         th \<leftarrow> threads k t;
         let k = set_object a (KMutex (m\<lparr>mutex_priority := current_priority th, holding_thread := Some t\<rparr>)) k;
         let k = upd_thread t (\<lambda>th. th\<lparr>held_mutexes := insert_sorted a (held_mutexes th)\<rparr>) k;
         k \<leftarrow> Thread_UpdatePriority t k;
         Some (PrepareReschedule k)}
       else Some k) = Some k1" "mutex_of k1 a = Some m1" "k' = set_object a (KMutex (m1\<lparr>lock_count := n\<rparr>)) k1"
    using assms(1) by (auto simp: Mutex_Acquire_def split: bind_splits)
  have "links_of k1 = links_of k"
    using k1(1) assms(2) by (auto simp: Let_def links_set_known split: if_splits bind_splits dest!: links_priority(2))
  then show ?thesis using k1(2,3) by (simp add: links_set_known(1) [OF mutex_of_object])
qed

lemma links_Acquire: "Acquire ob t k = Some k' \<Longrightarrow> links_of k' = links_of k"
  by (auto simp: Acquire_def ServerSession_Acquire_def links_set_known links_Mutex_Acquire
      split: oref.splits option.splits kobject.splits bind_splits if_splits)

lemma links_Acquire_all: "Acquire_all obs t k = Some k' \<Longrightarrow> links_of k' = links_of k"
  by (induction obs arbitrary: k) (auto split: bind_splits dest!: links_Acquire)

lemma links_ResumeFromWait: "ResumeFromWait t k = Some k' \<Longrightarrow> links_of k' = links_of k"
  by (auto simp: ResumeFromWait_def Let_def split: bind_splits ThreadStatus.splits)

lemma links_leave_waits: "leave_waits t k = Some k' \<Longrightarrow> links_of k' = links_of k"
  by (auto simp: leave_waits_def split: bind_splits dest!: links_waits(2))

lemma links_WakeAfterDelay: "WakeAfterDelay t ns b k = Some k' \<Longrightarrow> links_of k' = links_of k"
  by (auto simp: WakeAfterDelay_def split: bind_splits if_splits)

lemma links_end_pulse: "links_of (end_pulse ob k) = links_of k"
  by (simp add: end_pulse_def links_set_known split: oref.splits option.splits kobject.splits)
section \<open>Callbacks and services\<close>

text \<open>The callbacks of the services and the services themselves act on ports and sessions only through
  the kernel: what they do to the table are steps of it.\<close>

abbreviation link_steps :: "links \<Rightarrow> links \<Rightarrow> bool" where
  "link_steps \<equiv> link_step\<^sup>*\<^sup>*"

definition linked :: "('s, 'g, 'e) kernel \<Rightarrow> ('s, 'g, 'e) kernel \<Rightarrow> bool" where
  "linked k k' \<longleftrightarrow> link_steps (links_of k) (links_of k')"

definition linked_env :: "('s, 'g, 'e) kenv \<Rightarrow> bool" where
  "linked_env env \<longleftrightarrow> (\<forall>n r t ob k k'. other_wakeup env n r t ob k = Some k' \<longrightarrow> linked k k') \<and>
     (\<forall>ob k k'. hle_notifier env ob k = Some k' \<longrightarrow> linked k k')"

definition linked_hle :: "('s, 'g, 'o) hle \<Rightarrow> bool" where
  "linked_hle hle \<longleftrightarrow> (\<forall>h a k k'. client_connected hle h a k = Some k' \<longrightarrow> linked k k') \<and>
     (\<forall>h a k k'. client_disconnected hle h a k = Some k' \<longrightarrow> linked k k') \<and>
     (\<forall>h a t bs k k'. hle_request hle h a t bs k = Some k' \<longrightarrow> linked k k') \<and>
     (\<forall>h a t bs k bs' k'. hle_reply hle h a t bs k = Some (bs', k') \<longrightarrow> linked k k')"

lemma linked_same: "links_of k' = links_of k \<Longrightarrow> linked k k'"
  by (simp add: linked_def)

lemma linked_trans: "linked k k' \<Longrightarrow> linked k' k'' \<Longrightarrow> linked k k''"
  by (simp add: linked_def)

lemma linked_step: "link_step (links_of k) (links_of k') \<Longrightarrow> linked k k'"
  by (simp add: linked_def)

lemma linked_cong: "links_of k1 = links_of k \<Longrightarrow> links_of k1' = links_of k' \<Longrightarrow> linked k1 k1' = linked k k'"
  by (simp add: linked_def)

lemma WakeUp_linked:
  assumes env: "linked_env env" and r: "WakeUp env cb reason t ob k = Some k'"
  shows "linked k k'"
  using assms
  by (cases cb) (auto simp: WakeUp_def WakeUp_Sync_def WakeUp_Arbiter_def linked_env_def Let_def
    intro!: linked_same split: bind_splits if_splits)

lemma wake_one_linked:
  assumes env: "linked_env env" and r: "wake_one env ob t k = Some k'"
  shows "linked k k'"
proof -
  obtain th k1 k2 k3 where th: "threads k t = Some th"
    and k1: "(if status th \<noteq> WaitSynchAll then Acquire ob t k else Acquire_all (wait_objects th) t k) = Some k1"
    and k2: "call_back env Signal t (Some ob) k1 = Some k2" and k3: "leave_waits t k2 = Some k3" "ResumeFromWait t k3 = Some k'"
    using r by (auto simp: wake_one_def split: bind_splits)
  have "links_of k1 = links_of k" using k1 links_Acquire links_Acquire_all by (auto split: if_splits)
  moreover have "linked k1 k2"
    using k2 WakeUp_linked [OF env] by (auto simp: call_back_def intro: linked_same split: bind_splits option.splits)
  moreover have "links_of k' = links_of k2"
    using links_leave_waits [OF k3(1)] links_ResumeFromWait [OF k3(2)] by simp
  ultimately show ?thesis by (simp add: linked_def)
qed

lemma wakeup_loop_linked:
  assumes env: "linked_env env" and r: "wakeup_loop env ob k = Some k'"
  shows "linked k k'"
proof -
  have "linked_env env \<longrightarrow> linked k k'"
  proof (rule wakeup_loop.raw_induct [OF _ r, of "\<lambda>env ob k k'. linked_env env \<longrightarrow> linked k k'"], intro impI)
    fix f :: "('s, 'g, 'e) kenv \<Rightarrow> oref \<Rightarrow> ('s, 'g, 'e) kernel \<Rightarrow> ('s, 'g, 'e) kernel run"
      and env ob k k'
    assume IH: "\<And>env ob k k'. f env ob k = Some k' \<Longrightarrow> linked_env env \<longrightarrow> linked k k'"
      and body: "Option.bind (GetHighestPriorityReadyThread k ob) (\<lambda>best.
       case best of None \<Rightarrow> Some k
       | Some t \<Rightarrow> Option.bind (wake_one env ob t k) (f env ob)) = Some k'"
      and env: "linked_env env"
    show "linked k k'"
      using body wake_one_linked [OF env] IH env linked_trans
      by (auto intro: linked_same split: bind_splits option.splits) blast
  qed
  with env show ?thesis by blast
qed

lemma WakeupAll_linked:
  assumes env: "linked_env env" and r: "WakeupAllWaitingThreads env ob k = Some k'"
  shows "linked k k'"
proof -
  obtain k1 k2 where k1: "wakeup_loop env ob k = Some k1" "hle_notifier env ob k1 = Some k2" "k' = end_pulse ob k2"
    using r by (auto simp: WakeupAllWaitingThreads_def split: bind_splits)
  have "linked k1 k2" using env k1(2) by (simp add: linked_env_def)
  then show ?thesis
    using wakeup_loop_linked [OF env k1(1)] by (simp add: k1(3) linked_def links_end_pulse)
qed

section \<open>Translation of messages\<close>

lemma links_read_process: "read_process menv i a n k = Some (bs, k') \<Longrightarrow> links_of k' = links_of k"
  by (auto simp: read_process_def split: bind_splits)

lemma links_write_process: "write_process menv i a bs k = Some k' \<Longrightarrow> links_of k' = links_of k"
  by (auto simp: write_process_def split: bind_splits)

lemma links_copy_process: "copy_process menv i j a b n k = Some k' \<Longrightarrow> links_of k' = links_of k"
  by (auto simp: copy_process_def split: bind_splits)

lemma links_take_object: "take_object st src d h k = (ob, k') \<Longrightarrow> links_of k' = links_of k"
  by (auto simp: take_object_def split: if_splits sum.splits)

lemma links_translate_handles:
  "translate_handles st src dst d n i cmd k = Some (cmd', k') \<Longrightarrow> links_of k' = links_of k"
proof (induction n arbitrary: i cmd k)
  case (Suc n)
  obtain h ob k1 where h: "get_word cmd i = Some h" and o: "take_object st src d h k = (ob, k1)"
    using Suc.prems by (auto split: bind_splits prod.splits)
  have l: "links_of k1 = links_of k" using links_take_object [OF o] .
  from Suc.prems h o show ?case
    by (auto simp: l Let_def split: bind_splits option.splits sum.splits dest!: Suc.IH)
qed simp

lemma links_buffers:
  "translate_static menv src dst da d i cmd k = Some (cmd', k') \<Longrightarrow> links_of k' = links_of k"
  "return_buffer menv src dst s z pr ps np ctx k = Some (ctx', k') \<Longrightarrow> links_of k' = links_of k"
  "lend_buffer menv alloc src dst s z pr po np ctx k = Some (w, ctx', k') \<Longrightarrow> links_of k' = links_of k"
proof -
  show "links_of k' = links_of k" if "translate_static menv src dst da d i cmd k = Some (cmd', k')"
    using that by (auto simp: translate_static_def Let_def split: bind_splits dest!: links_read_process links_write_process)
  show "links_of k' = links_of k" if "return_buffer menv src dst s z pr ps np ctx k = Some (ctx', k')"
    using that by (auto simp: return_buffer_def Let_def split: bind_splits sum.splits if_splits dest!: links_copy_process)
  show "links_of k' = links_of k" if "lend_buffer menv alloc src dst s z pr po np ctx k = Some (w, ctx', k')"
    using that by (auto simp: lend_buffer_def Let_def split: bind_splits sum.splits dest!: links_read_process)
qed

lemma links_translate_mapped:
  assumes r: "translate_mapped menv alloc src dst reply d i cmd ctx k = Some (cmd', ctx', k')"
  shows "links_of k' = links_of k"
proof -
  obtain source where "get_word cmd i = Some source" using r by (cases "get_word cmd i") (simp_all add: translate_mapped_def)
  note r' = r [unfolded translate_mapped_def this Let_def Option.bind.simps]
  show ?thesis
  proof (cases "MappedBuffer_size d = 0")
    case True
    then show ?thesis using r' by (simp split: bind_splits)
  next
    case False
    note r'' = r' [unfolded if_not_P [OF False]]
    show ?thesis
    proof (cases reply)
      case True
      then show ?thesis using r'' links_buffers(2) by (fastforce simp: ASSERT_def split: bind_splits if_splits)
    next
      case False
      then show ?thesis using r'' links_buffers(3) by (fastforce simp: ASSERT_def split: bind_splits if_splits)
    qed
  qed
qed

lemma links_translate_one:
  assumes r: "translate_one menv alloc st src dst da reply i cmd ctx k = Some (r, cmd', ctx', k')"
  shows "links_of k' = links_of k"
proof -
  obtain d where d: "get_word cmd i = Some d" using r by (cases "get_word cmd i") (simp_all add: translate_one_def)
  define type where "type = GetDescriptorType d"
  note r' = r [unfolded translate_one_def d Let_def Option.bind.simps type_def [symmetric]]
  consider "type = CopyHandle \<or> type = MoveHandle" | "type = CallingPid" | "type = StaticBuffer" | "type = MappedBuffer"
    | "\<not> (type = CopyHandle \<or> type = MoveHandle)" "type \<noteq> CallingPid" "type \<noteq> StaticBuffer" "type \<noteq> MappedBuffer" by blast
  then show ?thesis
  proof cases
    case 1
    show ?thesis
      using r' unfolding if_P [OF 1] by (auto split: bind_splits if_splits dest!: links_translate_handles)
  next
    case 4
    then show ?thesis using r' by (auto split: bind_splits dest!: links_translate_mapped)
  qed (use r' in \<open>auto split: bind_splits dest!: links_buffers(1)\<close>)
qed

lemma links_translate_loop:
  "translate_loop menv alloc st src dst da reply fuel i cmd ctx k = Some (r, cmd', ctx', k') \<Longrightarrow>
   links_of k' = links_of k"
  by (induction fuel arbitrary: i cmd ctx k)
    (auto split: bind_splits if_splits sum.splits dest!: links_translate_one)

lemma links_Translate:
  "TranslateCommandBuffer menv alloc s d sa da ctx reply k = Some (r, ctx', k') \<Longrightarrow> links_of k' = links_of k"
  by (auto simp: TranslateCommandBuffer_def Let_def split: bind_splits if_splits
    dest!: links_read_process links_write_process links_translate_loop)

lemma links_Receive: "ReceiveIPCRequest menv alloc a t k = Some (r, k') \<Longrightarrow> links_of k' = links_of k"
  by (auto simp: ReceiveIPCRequest_def Let_def split: bind_splits if_splits dest!: links_Translate)

lemma links_IPCCallback: "SVC_IPCCallback menv alloc reason t ob k = Some k' \<Longrightarrow> links_of k' = links_of k"
  by (auto simp: SVC_IPCCallback_def Let_def split: bind_splits oref.splits if_splits dest!: links_Receive)

lemma ipc_env_linked: "linked_env env \<Longrightarrow> linked_env (ipc_env menv alloc env)"
  by (auto simp: linked_env_def ipc_env_def intro: linked_same dest: links_IPCCallback split: nat.splits)
section \<open>The calls\<close>

lemma links_add_session:
  "links_of (CreateSessionPair a c p port k) = add_session a c p port (links_of k)"
  by (simp add: CreateSessionPair_def links_of_def add_session_def set_session_def server_session_of_def
    set_object_def Let_def fun_eq_iff)

lemma links_port_update:
  "links_of (k\<lparr>client_ports := P\<rparr>) = (links_of k)\<lparr>l_ports := P\<rparr>"
  "links_of (k\<lparr>client_sessions := C\<rparr>) = (links_of k)\<lparr>l_clients := C\<rparr>"
  "links_of (set_session p x k) = (links_of k)\<lparr>l_sessions := (sessions k)(p \<mapsto> x)\<rparr>"
  by (simp_all add: links_of_def server_session_of_def set_session_def)

lemma links_sel [simp]:
  "l_sessions (links_of k) = sessions k" "l_clients (links_of k) = client_sessions k"
  "l_ports (links_of k) = client_ports k"
  "l_servers (links_of k) a = map_option session_parent (server_session_of k a)"
  by (simp_all add: links_of_def)

text \<open>The addresses of new objects are not in use.\<close>

definition fresh_session :: "nat \<times> nat \<times> nat \<Rightarrow> ('s, 'g, 'e) kernel \<Rightarrow> bool" where
  "fresh_session new k \<longleftrightarrow> (case new of (a, c, p) \<Rightarrow>
     sync_objects k a = None \<and> client_sessions k c = None \<and> sessions k p = None)"

lemma Connect_linked:
  assumes env: "linked_env env" and hle: "linked_hle hle" and new: "fresh_session new k"
    and r: "ClientPort_Connect env hle new port k = Some (res, k')"
  shows "linked k k'"
proof -
  obtain a c p where n: "new = (a, c, p)" by (cases new) auto
  obtain cp where cp: "client_ports k port = Some cp" using r by (auto simp: ClientPort_Connect_def n split: bind_splits)
  show ?thesis
  proof (cases "active_sessions cp < max_sessions cp")
    case False
    then show ?thesis using r cp by (simp add: ClientPort_Connect_def n linked_same)
  next
    case True
    define k1 where "k1 = CreateSessionPair a c p (Some port)
      (k\<lparr>client_ports := (client_ports k)(port \<mapsto> cp\<lparr>active_sessions := active_sessions cp + 1\<rparr>)\<rparr>)"
    obtain sp k2 where sp: "server_port_of k1 (cp_server_port cp) = Some sp"
      and k2: "(case port_handler sp of Some h \<Rightarrow> client_connected hle h a k1
         | None \<Rightarrow> Some (set_object (cp_server_port cp) (KServerPort (sp\<lparr>pending_sessions := pending_sessions sp @ [a]\<rparr>)) k1)) = Some k2"
      and w: "WakeupAllWaitingThreads env (RObj (cp_server_port cp)) k2 = Some k'"
      using r cp True unfolding k1_def by (auto simp: ClientPort_Connect_def n Let_def split: bind_splits)
    have "sync_objects k1 (cp_server_port cp) = Some (KServerPort sp)"
      using sp by (simp add: server_port_of_def split: option.splits kobject.splits)
    then have "linked k1 k2"
      using k2 hle by (auto simp: linked_hle_def links_set_known intro: linked_same split: option.splits)
    moreover have "link_step (links_of k) (links_of k1)"
      using link_step.connect [of "links_of k" p a port cp c] cp True new
      by (simp add: k1_def n fresh_session_def links_add_session links_port_update count_port_def server_session_of_def)
    ultimately show ?thesis
      using WakeupAll_linked [OF env w] linked_step linked_trans by blast
  qed
qed

lemma destroy_ServerSession_linked:
  assumes "destroy_ServerSession a k = Some k'"
  shows "linked k k'"
proof -
  obtain s x k1 where s: "server_session_of k a = Some s" and x: "sessions k (session_parent s) = Some x"
    and k1: "(case session_port x of None \<Rightarrow> Some k | Some port \<Rightarrow> ConnectionClosed port k) = Some k1"
    and k': "k' = (set_session (session_parent s) (x\<lparr>session_server := None\<rparr>) k1)\<lparr>sync_objects := (sync_objects k1)(a := None)\<rparr>"
    using assms by (auto simp: destroy_ServerSession_def set_session_def Let_def split: bind_splits)
  have rm: "links_of k' = (links_of k1)\<lparr>l_sessions := (sessions k1)(session_parent s \<mapsto> x\<lparr>session_server := None\<rparr>),
      l_servers := (l_servers (links_of k1))(a := None)\<rparr>"
    unfolding k' by (simp add: links_of_def server_session_of_def set_session_def fun_eq_iff)
  show ?thesis
  proof (cases "session_port x")
    case None
    then have "links_of k' = (links_of k)\<lparr>l_sessions := (l_sessions (links_of k))(session_parent s \<mapsto> x\<lparr>session_server := None\<rparr>),
      l_servers := (l_servers (links_of k))(a := None)\<rparr>" using k1 rm by simp
    then show ?thesis
      using link_step.server_gone [of "links_of k" a "session_parent s" x] s x None by (intro linked_step) simp
  next
    case (Some port)
    then obtain cp where cp: "client_ports k port = Some cp" "active_sessions cp > 0"
        "k1 = k\<lparr>client_ports := (client_ports k)(port \<mapsto> cp\<lparr>active_sessions := active_sessions cp - 1\<rparr>)\<rparr>"
      using k1 by (auto simp: ConnectionClosed_def split: bind_splits)
    then have l1: "links_of k1 = count_port port cp (active_sessions cp - 1) (links_of k)" "sessions k1 = sessions k"
      by (simp_all add: links_port_update count_port_def)
    have "links_of k' = (count_port port cp (active_sessions cp - 1) (links_of k))
        \<lparr>l_sessions := (l_sessions (links_of k))(session_parent s \<mapsto> x\<lparr>session_server := None\<rparr>),
         l_servers := (l_servers (links_of k))(a := None)\<rparr>"
      using rm unfolding l1 by (simp add: count_port_def)
    then show ?thesis
      using link_step.connection_closed [of "links_of k" a "session_parent s" x port cp] s x Some cp
      by (intro linked_step) simp
  qed
qed

lemma destroy_ClientSession_linked:
  assumes env: "linked_env env" and hle: "linked_hle hle" and r: "destroy_ClientSession env hle c k = Some k'"
  shows "linked k k'"
proof -
  obtain p x0 k1 x k2 where p: "client_sessions k c = Some p" "sessions k p = Some x0"
    and k1: "(case session_server x0 of None \<Rightarrow> Some k
       | Some a \<Rightarrow> do {
           s \<leftarrow> server_session_of k a;
           k \<leftarrow> (case session_handler s of None \<Rightarrow> Some k | Some h \<Rightarrow> client_disconnected hle h a k);
           s \<leftarrow> server_session_of k a;
           Some (set_object a (KServerSession (s\<lparr>pending_requesting_threads := [], currently_handling := None\<rparr>)) k)}) = Some k1"
    and x: "sessions k1 p = Some x"
    and k2: "(case session_server x0 of None \<Rightarrow> Some (set_session p (x\<lparr>session_client := None\<rparr>) k1)
       | Some a \<Rightarrow> WakeupAllWaitingThreads env (RObj a) (set_session p (x\<lparr>session_client := None\<rparr>) k1)) = Some k2"
    and k': "k' = k2\<lparr>client_sessions := (client_sessions k2)(c := None)\<rparr>"
    using r by (auto simp: destroy_ClientSession_def Let_def split: bind_splits)
  have s: "links_of (set_object a (KServerSession (s\<lparr>pending_requesting_threads := [], currently_handling := None\<rparr>)) kk) = links_of kk"
    if "server_session_of kk a = Some s" for kk :: "('a, 'b, 'c) sys" and a s
    using that by (intro links_set_known(6)) (simp_all add: server_session_of_def split: option.splits kobject.splits)
  have "linked k k1"
    using k1 hle s by (auto simp: linked_hle_def linked_def split: option.splits bind_splits)
  moreover have "linked k1 (set_session p (x\<lparr>session_client := None\<rparr>) k1)"
    using link_step.client_gone [of "links_of k1" p x] x by (intro linked_step) (simp add: links_port_update)
  moreover have "linked (set_session p (x\<lparr>session_client := None\<rparr>) k1) k2"
    using k2 WakeupAll_linked [OF env] by (auto intro: linked_same split: option.splits)
  moreover have "linked k2 k'"
    using link_step.client_forgotten [of "links_of k2" c] by (intro linked_step) (simp add: k' links_port_update)
  ultimately show ?thesis using linked_trans by blast
qed

lemma new_handle_linked:
  assumes "new_handle_for ob destroy k = Some (r, k')" and "\<And>k2. destroy k = Some k2 \<Longrightarrow> linked k k2"
  shows "linked k k'"
  using assms by (auto simp: new_handle_for_def intro: linked_same split: bind_splits sum.splits)

lemma second_handle_linked:
  assumes r: "do { (r, k) \<leftarrow> new_handle_for ob destroy k;
      case r of Inl e \<Rightarrow> Some (Inl e, k) | Inr h \<Rightarrow> Some (Inr (g h), k) } = Some (res, k')"
    and d: "\<And>k2. destroy k = Some k2 \<Longrightarrow> linked k k2"
  shows "linked k k'"
proof -
  obtain x where "new_handle_for ob destroy k = Some (x, k')"
    using r by (auto split: bind_splits sum.splits)
  from new_handle_linked [OF this d] show ?thesis by blast
qed

lemma links_read_handles:
  "read_handles menv n a obs s = Some (r, s') \<Longrightarrow> links_of (fst s') = links_of (fst s)"
proof (induction n arbitrary: a obs s)
  case (Suc n)
  obtain h k where h: "Read32 menv a (fst s) = Some (h, k)" using Suc.prems by (auto split: bind_splits)
  then have "links_of k = links_of (fst s)" by (auto simp: Read32_def split: bind_splits)
  then show ?case
    using Suc.prems h by (auto split: bind_splits option.splits dest!: Suc.IH)
qed simp

lemma links_Read32: "Read32 menv a k = Some (v, k') \<Longrightarrow> links_of k' = links_of k"
  by (auto simp: Read32_def split: bind_splits)

lemma forward_linked:
  assumes "linked_hle hle" and "forward_request menv hle h a t k = Some k'"
  shows "linked k k'"
proof -
  obtain th i bs k1 k2 th2 where k1: "read_process menv i (GetCommandBufferAddress th) cmd_buf_bytes k = Some (bs, k1)"
    and k2: "hle_request hle h a t bs k1 = Some k2" and th2: "threads k2 t = Some th2"
    and r: "(if status th2 = Running then do {
       (cmd_buf, k) \<leftarrow> hle_reply hle h a t bs k2;
       th \<leftarrow> threads k t;
       write_process menv i (GetCommandBufferAddress th) cmd_buf k}
     else Some k2) = Some k'"
    using assms(2) unfolding forward_request_def bind_eq_Some_conv case_prod_unfold by (metis (no_types, lifting) prod.collapse)
  have rq: "linked k1 k2" using assms(1) k2 by (simp add: linked_hle_def)
  then have "linked k k2" using links_read_process [OF k1] by (simp add: linked_def)
  moreover have rp: "linked ka kb" if "hle_reply hle h a t bs ka = Some (cmd, kb)" for ka kb cmd
    using assms(1) that by (simp add: linked_hle_def)
  have "linked k2 k'"
    using r rp [of k2] by (auto simp: linked_def split: if_splits bind_splits dest!: links_write_process)
  ultimately show ?thesis by (rule linked_trans)
qed

lemma HandleSyncRequest_linked:
  assumes env: "linked_env env" and hle: "linked_hle hle" and r: "HandleSyncRequest env menv hle a t k = Some (res, k')"
  shows "linked k k'"
proof -
  define park where "park k1 th = (if status th = Running then do {
         let k = upd_thread t (\<lambda>th. th\<lparr>status := WaitIPC\<rparr>) k1;
         s \<leftarrow> server_session_of k a;
         if session_handler s \<noteq> None then WakeAfterDelay t IPCDelayNanoseconds False k
         else Some (set_object a
           (KServerSession (s\<lparr>pending_requesting_threads := pending_requesting_threads s @ [t]\<rparr>)) k)}
       else Some k1)" for k1 :: "('a, 'b, 'c) sys" and th :: thread
  from r obtain s where s: "server_session_of k a = Some s"
    by (cases "server_session_of k a") (simp_all add: HandleSyncRequest_def)
  note r' = r [unfolded HandleSyncRequest_def s Option.bind.simps, folded park_def]
  from r' obtain k1 where k1: "(case session_handler s of None \<Rightarrow> Some k | Some h \<Rightarrow> forward_request menv hle h a t k) = Some k1"
    by (cases "case session_handler s of None \<Rightarrow> Some k | Some h \<Rightarrow> forward_request menv hle h a t k") simp_all
  from r' [unfolded k1 Option.bind.simps] obtain th where th: "threads k1 t = Some th"
    by (cases "threads k1 t") simp_all
  from r' [unfolded k1 th Option.bind.simps] obtain k2 where k2: "park k1 th = Some k2"
      and w: "WakeupAllWaitingThreads env (RObj a) k2 = Some k'"
    by (auto split: bind_splits)
  have "linked k k1" using k1 forward_linked [OF hle] by (auto intro: linked_same split: option.splits)
  moreover have "links_of (set_object a (KServerSession (s\<lparr>pending_requesting_threads := ts\<rparr>)) kk) = links_of kk"
    if "server_session_of kk a = Some s" for kk :: "('a, 'b, 'c) sys" and s ts
    using that by (intro links_set_known(6)) (simp_all add: server_session_of_def split: option.splits kobject.splits)
  then have "links_of k2 = links_of k1"
    using k2 unfolding park_def by (auto simp: Let_def split: if_splits bind_splits dest!: links_WakeAfterDelay)
  ultimately show ?thesis
    using WakeupAll_linked [OF env w] by (simp add: linked_def)
qed

lemma send_reply_links:
  assumes "send_reply menv alloc t h k = Some (r, k')"
  shows "links_of k' = links_of k"
proof (cases "call_kobject is_KServerSession k h")
  case None
  then show ?thesis using assms by (simp add: send_reply_def)
next
  case (Some a)
  obtain s where s: "server_session_of k a = Some s" using assms Some by (auto simp: send_reply_def split: bind_splits)
  define k1 where "k1 = set_object a (KServerSession (s\<lparr>currently_handling := None\<rparr>)) k"
  have "links_of k1 = links_of k" unfolding k1_def
    using s by (intro links_set_known(6)) (simp_all add: server_session_of_def split: option.splits kobject.splits)
  moreover have "links_of k' = links_of k1"
    using assms Some s unfolding k1_def
    by (auto simp: send_reply_def Let_def split: bind_splits option.splits if_splits dest!: links_Translate links_ResumeFromWait)
  ultimately show ?thesis by simp
qed

lemma receive_links: "receive_request menv alloc obs t k = Some (r, k') \<Longrightarrow> links_of k' = links_of k"
  by (auto simp: receive_request_def wait_for_request_def Let_def
    split: bind_splits option.splits oref.splits if_splits dest!: links_Acquire links_Receive links_waits(1))

lemma ReplyAndReceive_links:
  assumes "svc_ReplyAndReceive menv alloc a n h k = Some (r, k')"
  shows "links_of k' = links_of k"
  using assms
  by (auto simp: svc_ReplyAndReceive_def Let_def split: bind_splits sum.splits option.splits if_splits
    dest!: links_read_handles links_Read32 send_reply_links receive_links)

text \<open>The calls of the model, and the destructors that run when the last handle of an end is gone.\<close>

inductive session_call ::
  "('s, 'g, 'o world) kenv \<Rightarrow> 'g mem_env \<Rightarrow> (nat \<Rightarrow> 'g machine \<Rightarrow> u64) \<Rightarrow> ('s, 'g, 'o) hle \<Rightarrow>
   ('s, 'g, 'o) sys \<Rightarrow> ('s, 'g, 'o) sys \<Rightarrow> bool"
  for env :: "('s, 'g, 'o world) kenv" and menv :: "'g mem_env" and alloc :: "nat \<Rightarrow> 'g machine \<Rightarrow> u64"
    and hle :: "('s, 'g, 'o) hle" where
  call_port: "sync_objects k a = None \<Longrightarrow> client_ports k c = None \<Longrightarrow>
    svc_CreatePort a c name maximum k = Some (p, k') \<Longrightarrow> session_call env menv alloc hle k k'"
| call_session: "fresh_session new k \<Longrightarrow> svc_CreateSession env hle new k = Some (s, k') \<Longrightarrow>
    session_call env menv alloc hle k k'"
| call_connect: "fresh_session new k \<Longrightarrow> svc_CreateSessionToPort env hle new h k = Some (c, k') \<Longrightarrow>
    session_call env menv alloc hle k k'"
| call_named: "fresh_session new k \<Longrightarrow> svc_ConnectToPort env menv hle new name_address k = Some (c, k') \<Longrightarrow>
    session_call env menv alloc hle k k'"
| call_accept: "svc_AcceptSession h k = Some (s, k') \<Longrightarrow> session_call env menv alloc hle k k'"
| call_send: "svc_SendSyncRequest env menv hle h k = Some (res, k') \<Longrightarrow> session_call env menv alloc hle k k'"
| call_reply: "svc_ReplyAndReceive menv alloc hs n target k = Some (out, k') \<Longrightarrow>
    session_call env menv alloc hle k k'"
| client_dropped: "destroy_ClientSession env hle c k = Some k' \<Longrightarrow> session_call env menv alloc hle k k'"
| server_dropped: "destroy_ServerSession a k = Some k' \<Longrightarrow> session_call env menv alloc hle k k'"

lemma CreatePort_linked:
  assumes new: "sync_objects k a = None" "client_ports k c = None" and r: "svc_CreatePort a c name m k = Some (res, k')"
  shows "linked k k'"
proof -
  let ?cp = "\<lparr>cp_server_port = a, max_sessions = m, active_sessions = 0\<rparr>"
  define k1 where "k1 = CreatePortPair a c m k"
  have l1: "links_of k1 = (links_of k)\<lparr>l_ports := (client_ports k)(c \<mapsto> ?cp)\<rparr>"
    using new(1) by (simp add: k1_def CreatePortPair_def links_of_def server_session_of_def set_object_def fun_eq_iff)
  have "linked k k1"
    using link_step.open_port [of "links_of k" c a m] new(2) by (intro linked_step) (simp add: l1)
  moreover have "linked k1 (k1\<lparr>client_ports := (client_ports k1)(c := None), sync_objects := (sync_objects k1)(a := None)\<rparr>)"
  proof -
    have "links_of (k1\<lparr>client_ports := (client_ports k1)(c := None), sync_objects := (sync_objects k1)(a := None)\<rparr>) =
        (links_of k1)\<lparr>l_ports := (l_ports (links_of k1))(c := None)\<rparr>"
      by (simp add: links_of_def server_session_of_def k1_def CreatePortPair_def set_object_def fun_eq_iff)
    moreover have "l_ports (links_of k1) c = Some ?cp" unfolding l1 by simp
    ultimately show ?thesis using link_step.close_port [of "links_of k1" c ?cp] by (intro linked_step) simp
  qed
  note C = this
  obtain x k2 where x: "new_handle_for (HClientPort c)
       (\<lambda>k. Some (k\<lparr>client_ports := (client_ports k)(c := None), sync_objects := (sync_objects k)(a := None)\<rparr>)) k1 = Some (x, k2)"
    and y: "(case x of Inl e \<Rightarrow> Some (Inl e, k2)
     | Inr client_port \<Rightarrow> do {
         (r, k) \<leftarrow> new_handle_for (HWait (RObj a)) Some k2;
         case r of
           Inl e \<Rightarrow> Some (Inl e, k)
         | Inr server_port \<Rightarrow> Some (Inr (server_port, client_port), k)}) = Some (res, k')"
    using r unfolding k1_def by (auto simp: svc_CreatePort_def Let_def split: bind_splits)
  have "linked k1 k2" using new_handle_linked [OF x] C by simp
  moreover have "linked k2 k'"
  proof (cases x)
    case (Inl e)
    then show ?thesis using y by (simp add: linked_same)
  next
    case (Inr h)
    show ?thesis by (rule second_handle_linked [OF y [unfolded Inr sum.case]]) (simp add: linked_same)
  qed
  ultimately show ?thesis using linked_trans by blast
qed

lemma CreateSession_linked:
  assumes env: "linked_env env" and hle: "linked_hle hle" and new: "fresh_session new k"
    and r: "svc_CreateSession env hle new k = Some (res, k')"
  shows "linked k k'"
proof -
  obtain a c p where n: "new = (a, c, p)" by (cases new) auto
  define k1 where "k1 = CreateSessionPair a c p None k"
  have "linked k k1"
    using link_step.open_session [of "links_of k" p a c] new
    by (intro linked_step) (simp add: k1_def links_add_session fresh_session_def n server_session_of_def)
  moreover obtain x k2 where x: "new_handle_for (HWait (RObj a))
       (\<lambda>k. do { k \<leftarrow> destroy_ServerSession a k; destroy_ClientSession env hle c k }) k1 = Some (x, k2)"
    and y: "(case x of Inl e \<Rightarrow> Some (Inl e, k2)
     | Inr server_session \<Rightarrow> do {
         (r, k) \<leftarrow> new_handle_for (HClientSession c) (destroy_ClientSession env hle c) k2;
         case r of
           Inl e \<Rightarrow> Some (Inl e, k)
         | Inr client_session \<Rightarrow> Some (Inr (server_session, client_session), k)}) = Some (res, k')"
    using r unfolding k1_def by (auto simp: svc_CreateSession_def n Let_def split: bind_splits)
  have "linked k1 k2"
    by (rule new_handle_linked [OF x])
      (auto intro: linked_trans [OF destroy_ServerSession_linked destroy_ClientSession_linked [OF env hle]] split: bind_splits)
  moreover have "linked k2 k'"
  proof (cases x)
    case (Inl e)
    then show ?thesis using y by (simp add: linked_same)
  next
    case (Inr h)
    show ?thesis
      by (rule second_handle_linked [OF y [unfolded Inr sum.case]]) (rule destroy_ClientSession_linked [OF env hle])
  qed
  ultimately show ?thesis using linked_trans by blast
qed

lemma connect_handle_linked:
  assumes env: "linked_env env" and hle: "linked_hle hle" and new: "fresh_session new k"
    and r: "do { (r, k) \<leftarrow> ClientPort_Connect env hle new port k;
      case r of Inl e \<Rightarrow> Some (Inl e, k)
      | Inr c \<Rightarrow> new_handle_for (HClientSession c) (destroy_ClientSession env hle c) k } = Some (res, k')"
  shows "linked k k'"
proof -
  obtain x k1 where x: "ClientPort_Connect env hle new port k = Some (x, k1)"
    and y: "(case x of Inl e \<Rightarrow> Some (Inl e, k1)
      | Inr c \<Rightarrow> new_handle_for (HClientSession c) (destroy_ClientSession env hle c) k1) = Some (res, k')"
    using r by (auto split: bind_splits)
  have "linked k1 k'"
  proof (cases x)
    case (Inl e)
    then show ?thesis using y by (simp add: linked_same)
  next
    case (Inr c)
    show ?thesis by (rule new_handle_linked [OF y [unfolded Inr sum.case]]) (rule destroy_ClientSession_linked [OF env hle])
  qed
  then show ?thesis using Connect_linked [OF env hle new x] linked_trans by blast
qed

lemma AcceptSession_linked:
  assumes r: "svc_AcceptSession h k = Some (res, k')"
  shows "linked k k'"
proof (cases "call_kobject is_KServerPort k h")
  case None
  then show ?thesis using r by (simp add: svc_AcceptSession_def linked_same)
next
  case (Some a)
  obtain x k1 where x: "ServerPort_Accept a k = Some (x, k1)"
    and y: "(case x of Inl e \<Rightarrow> Some (Inl e, k1)
      | Inr s \<Rightarrow> new_handle_for (HWait (RObj s)) (destroy_ServerSession s) k1) = Some (res, k')"
    using r Some by (auto simp: svc_AcceptSession_def split: bind_splits)
  obtain sp where sp: "sync_objects k a = Some (KServerPort sp)"
    using x by (auto simp: ServerPort_Accept_def server_port_of_def split: bind_splits option.splits kobject.splits)
  have "links_of k1 = links_of k"
    using x sp links_set_known(5) [OF sp]
    by (auto simp: ServerPort_Accept_def server_port_of_def split: if_splits)
  moreover have "linked k1 k'"
  proof (cases x)
    case (Inl e)
    then show ?thesis using y by (simp add: linked_same)
  next
    case (Inr s)
    show ?thesis by (rule new_handle_linked [OF y [unfolded Inr sum.case]]) (rule destroy_ServerSession_linked)
  qed
  ultimately show ?thesis using linked_trans linked_same by blast
qed

lemma ConnectToPort_linked:
  assumes env: "linked_env env" and hle: "linked_hle hle" and new: "fresh_session new k"
    and r: "svc_ConnectToPort env menv hle new addr k = Some (res, k')"
  shows "linked k k'"
proof (cases "links_of k' = links_of k")
  case True
  then show ?thesis by (rule linked_same)
next
  case False
  obtain m port where c: "do { (r, k) \<leftarrow> ClientPort_Connect env hle new port (put_machine m k);
      case r of Inl e \<Rightarrow> Some (Inl e, k)
      | Inr c \<Rightarrow> new_handle_for (HClientSession c) (destroy_ClientSession env hle c) k } = Some (res, k')"
    using r False by (auto simp: svc_ConnectToPort_def Let_def split: bind_splits if_splits option.splits)
  have "fresh_session new (put_machine m k)"
    using new by (simp add: fresh_session_def put_machine_def split: prod.splits)
  from connect_handle_linked [OF env hle this c] show ?thesis by (simp add: linked_def)
qed

lemma SendSyncRequest_linked:
  assumes env: "linked_env env" and hle: "linked_hle hle" and r: "svc_SendSyncRequest env menv hle h k = Some (res, k')"
  shows "linked k k'"
proof (cases "\<exists>c. call_object k h = Some (HClientSession c)")
  case False
  then show ?thesis using r by (auto simp: svc_SendSyncRequest_def linked_same split: option.splits kref.splits)
next
  case True
  then obtain c t where "ClientSession_SendSyncRequest env menv hle c t (PrepareReschedule k) = Some (res, k')"
    using r by (auto simp: svc_SendSyncRequest_def Let_def split: bind_splits)
  then have "linked (PrepareReschedule k) k'"
    using HandleSyncRequest_linked [OF env hle]
    by (auto simp: ClientSession_SendSyncRequest_def linked_same split: bind_splits option.splits)
  then show ?thesis by (simp add: linked_def)
qed

lemma CreateSessionToPort_linked:
  assumes env: "linked_env env" and hle: "linked_hle hle" and new: "fresh_session new k"
    and r: "svc_CreateSessionToPort env hle new h k = Some (res, k')"
  shows "linked k k'"
proof (cases "\<exists>port. call_object k h = Some (HClientPort port)")
  case False
  then show ?thesis using r by (auto simp: svc_CreateSessionToPort_def linked_same split: option.splits kref.splits)
next
  case True
  then obtain port where "call_object k h = Some (HClientPort port)" by blast
  with r connect_handle_linked [OF env hle new] show ?thesis by (simp add: svc_CreateSessionToPort_def)
qed

lemma session_call_linked:
  assumes env: "linked_env env" and hle: "linked_hle hle" and call: "session_call env menv alloc hle k k'"
  shows "linked k k'"
  using call
proof cases
  case call_port
  then show ?thesis using CreatePort_linked by blast
next
  case call_session
  then show ?thesis using CreateSession_linked [OF env hle] by blast
next
  case call_connect
  then show ?thesis using CreateSessionToPort_linked [OF env hle] by blast
next
  case call_named
  then show ?thesis using ConnectToPort_linked [OF env hle] by blast
next
  case call_accept
  then show ?thesis by (rule AcceptSession_linked)
next
  case call_send
  then show ?thesis by (rule SendSyncRequest_linked [OF env hle])
next
  case call_reply
  then show ?thesis using ReplyAndReceive_links linked_same by blast
next
  case client_dropped
  then show ?thesis by (rule destroy_ClientSession_linked [OF env hle])
next
  case server_dropped
  then show ?thesis by (rule destroy_ServerSession_linked)
qed

lemma session_calls_linked:
  assumes "linked_env env" and "linked_hle hle" and "(session_call env menv alloc hle)\<^sup>*\<^sup>* k k'"
  shows "linked k k'"
  using assms(3) by induction (auto intro: linked_same linked_trans session_call_linked [OF assms(1,2)])

lemma links_ok_steps: "link_steps l l' \<Longrightarrow> links_ok l \<Longrightarrow> links_ok l'"
  by (induction rule: rtranclp_induct) (auto intro: link_step_ok)

section \<open>Properties\<close>

text \<open>C24: Whatever the kernel's calls on ports and sessions do is a sequence of steps of the table of
  connections: opening a port, connecting to a port below its maximum, opening a session of no port, and
  the loss of a client's or a server's end, the latter with the port's count taken down. The emulated
  services and the other callbacks are assumed to take no other steps themselves.\<close>

theorem connections_refine:
  assumes "linked_env env" and "linked_hle hle" and "session_call (ipc_env menv alloc env) menv alloc hle k k'"
  shows "link_step\<^sup>*\<^sup>* (links_of k) (links_of k')"
  using session_call_linked [OF ipc_env_linked [OF assms(1)] assms(2,3)] unfolding linked_def .

text \<open>C3: However ports and sessions are created, connected, accepted, used and dropped, a port's
  count of active sessions is the number of the server's ends that are connected through it, and never
  more than its maximum.\<close>

theorem connections_counted:
  assumes "linked_env env" and "linked_hle hle" and "links_ok (links_of k)"
    and "(session_call (ipc_env menv alloc env) menv alloc hle)\<^sup>*\<^sup>* k k'" and "client_ports k' port = Some cp"
  shows "unat (active_sessions cp) = card {a. \<exists>p x. sessions k' p = Some x \<and> session_server x = Some a \<and>
        session_port x = Some port} \<and> active_sessions cp \<le> max_sessions cp"
proof -
  have "links_ok (links_of k')"
    using session_calls_linked [OF ipc_env_linked [OF assms(1)] assms(2,4)] assms(3)
    unfolding linked_def by (rule links_ok_steps)
  from links_okD(3,4) [OF this, of port cp] show ?thesis
    using assms(5) by (simp add: connected_def links_of_def)
qed

text \<open>A system with a process that opens a port for one session and connects to it.\<close>

definition quiet_kenv :: "(interval list, unit, unit world) kenv" where
  "quiet_kenv = \<lparr>other_wakeup = (\<lambda>_ _ _ _ k. Some k), hle_notifier = (\<lambda>_ k. Some k)\<rparr>"

definition no_hle :: "(interval list, unit, unit) hle" where
  "no_hle = \<lparr>client_connected = (\<lambda>_ _ k. Some k), client_disconnected = (\<lambda>_ _ k. Some k),
     hle_request = (\<lambda>_ _ _ _ k. Some k), hle_reply = (\<lambda>_ _ _ bs k. Some (bs, k))\<rparr>"

definition one_process :: "(interval list, unit, unit) sys" where
  "one_process = (example_sys HandleTable_new HandleTable_new)\<lparr>current_process := Some 0\<rparr>"

abbreviation "example_ipc \<equiv> ipc_env example_env (\<lambda>_ _. 0) quiet_kenv"

definition with_port :: "((result + u32 \<times> u32) \<times> (interval list, unit, unit) sys) run" where
  "with_port = svc_CreatePort 10 20 0 1 one_process"

definition with_session :: "((result + u32) \<times> (interval list, unit, unit) sys) run" where
  "with_session = do {
     (r, k) \<leftarrow> with_port;
     case r of Inl e \<Rightarrow> None
     | Inr (server, client) \<Rightarrow> svc_CreateSessionToPort example_ipc no_hle (11, 21, 31) client k}"

declare wakeup_loop.simps [code]

lemma example_linked: "linked_env quiet_kenv" "linked_hle no_hle" "links_ok (links_of one_process)"
  by (auto simp: quiet_kenv_def no_hle_def linked_env_def linked_hle_def linked_same links_ok_def links_of_def
    one_process_def example_sys_def connected_def server_session_of_def)
lemma example_port: "map_option (\<lambda>(r, k). (r, client_ports k 20)) with_port =
    Some (Inr (0x8002, 1), Some \<lparr>cp_server_port = 10, max_sessions = 1, active_sessions = 0\<rparr>)"
  by code_simp

lemma example_session: "map_option (\<lambda>(r, k). (r, client_ports k 20)) with_session =
    Some (Inr 0x10003, Some \<lparr>cp_server_port = 10, max_sessions = 1, active_sessions = 1\<rparr>)"
  by code_simp

lemma example_fresh:
  "map_option (\<lambda>(r, k). (map_option (\<lambda>_. ()) (sync_objects k 11), client_sessions k 21, sessions k 31)) with_port =
    Some (None, None, None)"
  by code_simp

lemma example_connection:
  obtains k1 k2 where "svc_CreatePort 10 20 0 1 one_process = Some (Inr (0x8002, 1), k1)"
    and "session_call example_ipc example_env (\<lambda>_ _. 0) no_hle one_process k1"
    and "session_call example_ipc example_env (\<lambda>_ _. 0) no_hle k1 k2"
    and "with_session = Some (Inr 0x10003, k2)"
    and "client_ports k2 20 = Some \<lparr>cp_server_port = 10, max_sessions = 1, active_sessions = 1\<rparr>"
proof -
  obtain k1 where k1: "with_port = Some (Inr (0x8002, 1), k1)" using example_port by (cases with_port) auto
  have s: "with_session = svc_CreateSessionToPort example_ipc no_hle (11, 21, 31) 1 k1"
    by (simp add: with_session_def k1)
  obtain k2 where k2: "with_session = Some (Inr 0x10003, k2)" "client_ports k2 20 = Some \<lparr>cp_server_port = 10, max_sessions = 1, active_sessions = 1\<rparr>"
    using example_session by (cases with_session) auto
  have "fresh_session (11, 21, 31) k1" using example_fresh by (simp add: k1 fresh_session_def)
  then have 2: "session_call example_ipc example_env (\<lambda>_ _. 0) no_hle k1 k2"
    using call_connect [of _ k1] k2(1) unfolding s by blast
  have "session_call example_ipc example_env (\<lambda>_ _. 0) no_hle one_process k1"
    by (rule call_port [of one_process 10 20 0 1]) (use k1 in \<open>simp_all add: one_process_def example_sys_def with_port_def\<close>)
  then show ?thesis using that k1 k2 2 unfolding with_port_def by blast
qed

lemma connections_refine_witness:
  "\<exists>k k'. session_call example_ipc example_env (\<lambda>_ _. 0) no_hle k k' \<and>
     with_session = Some (Inr 0x10003, k') \<and> link_step\<^sup>*\<^sup>* (links_of k) (links_of k')"
proof -
  obtain k1 k2 where c: "session_call example_ipc example_env (\<lambda>_ _. 0) no_hle k1 k2"
    and k2: "with_session = Some (Inr 0x10003, k2)"
    using example_connection by blast
  show ?thesis using connections_refine [OF example_linked(1,2) c] c k2 by blast
qed

lemma connections_counted_witness:
  "\<exists>k cp. with_session = Some (Inr 0x10003, k) \<and> client_ports k 20 = Some cp \<and> active_sessions cp = 1 \<and>
     unat (active_sessions cp) = card {a. \<exists>p x. sessions k p = Some x \<and> session_server x = Some a \<and>
        session_port x = Some 20} \<and> active_sessions cp \<le> max_sessions cp"
proof -
  obtain k1 k2 where c: "session_call example_ipc example_env (\<lambda>_ _. 0) no_hle one_process k1"
      "session_call example_ipc example_env (\<lambda>_ _. 0) no_hle k1 k2"
    and k2: "with_session = Some (Inr 0x10003, k2)"
      "client_ports k2 20 = Some \<lparr>cp_server_port = 10, max_sessions = 1, active_sessions = 1\<rparr>"
    using example_connection by blast
  have "(session_call example_ipc example_env (\<lambda>_ _. 0) no_hle)\<^sup>*\<^sup>* one_process k2"
    using c by (meson rtranclp.rtrancl_into_rtrancl rtranclp.rtrancl_refl)
  from connections_counted [OF example_linked this k2(2)] k2 show ?thesis by auto
qed

end
