(* ===== verification/RequestContext.thy ===== *)
theory RequestContext
  imports Sessions
begin

text \<open>Requests to emulated services: \<open>HLERequestContext\<close> and \<open>MappedBuffer\<close>
  (\<open>kernel/hle_ipc.cpp\<close>), which translate a client's command buffer to objects and bytes and a service's
  answer back. The contexts of the requests in progress are kept beside the services, one for each
  client thread, with what \<open>SleepClientThread\<close> was given to call; the handlers of the services and
  these callbacks are parameters. The recorder of requests is not modelled.\<close>

section \<open>The context of a request\<close>

record request_buffer =
  rb_id :: u32
  rb_address :: u32
  rb_process :: nat
  rb_size :: u32
  rb_perms :: u32

record request_context =
  cmd_buf :: "u32 list"
  request_session :: nat
  request_thread :: nat
  request_handles :: "kref option list"
  static_buffers :: "bytes list"
  request_mapped_buffers :: "request_buffer list"

text \<open>The words of a new command buffer but the first are not initialized: they are an argument.\<close>

definition new_context :: "u32 list \<Rightarrow> nat \<Rightarrow> nat \<Rightarrow> request_context" where
  "new_context stale session thread =
     \<lparr>cmd_buf = stale[0 := 0], request_session = session, request_thread = thread, request_handles = [],
      static_buffers = replicate 16 [], request_mapped_buffers = []\<rparr>"

definition GetIncomingHandle :: "u32 \<Rightarrow> request_context \<Rightarrow> kref option run" where
  "GetIncomingHandle id_from_cmdbuf ctx = do {
     ASSERT (unat id_from_cmdbuf < length (request_handles ctx));
     Some (request_handles ctx ! unat id_from_cmdbuf)}"

definition AddOutgoingHandle :: "kref option \<Rightarrow> request_context \<Rightarrow> u32 \<times> request_context" where
  "AddOutgoingHandle ob ctx =
     (of_nat (length (request_handles ctx)), ctx\<lparr>request_handles := request_handles ctx @ [ob]\<rparr>)"

definition ClearIncomingObjects :: "request_context \<Rightarrow> request_context" where
  "ClearIncomingObjects ctx = ctx\<lparr>request_handles := []\<rparr>"

definition GetStaticBuffer :: "u32 \<Rightarrow> request_context \<Rightarrow> bytes run" where
  "GetStaticBuffer buffer_id ctx =
     (if unat buffer_id < length (static_buffers ctx) then Some (static_buffers ctx ! unat buffer_id) else None)"

definition AddStaticBuffer :: "u32 \<Rightarrow> bytes \<Rightarrow> request_context \<Rightarrow> request_context run" where
  "AddStaticBuffer buffer_id buf ctx =
     (if unat buffer_id < length (static_buffers ctx)
      then Some (ctx\<lparr>static_buffers := (static_buffers ctx)[unat buffer_id := buf]\<rparr>) else None)"

definition GetMappedBuffer :: "u32 \<Rightarrow> request_context \<Rightarrow> request_buffer run" where
  "GetMappedBuffer id_from_cmdbuf ctx = do {
     ASSERT (unat id_from_cmdbuf < length (request_mapped_buffers ctx));
     Some (request_mapped_buffers ctx ! unat id_from_cmdbuf)}"

section \<open>Mapped buffers\<close>

definition MappedBuffer_make :: "nat \<Rightarrow> u32 \<Rightarrow> u32 \<Rightarrow> u32 \<Rightarrow> request_buffer" where
  "MappedBuffer_make process descriptor address id' =
     \<lparr>rb_id = id', rb_address = address, rb_process = process,
      rb_size = MappedBuffer_size descriptor, rb_perms = MappedBuffer_perms descriptor\<rparr>"

definition MappedBuffer_Read ::
  "'g mem_env \<Rightarrow> request_buffer \<Rightarrow> u64 \<Rightarrow> u64 \<Rightarrow> ('s, 'g, 'o) sys \<Rightarrow> (bytes \<times> ('s, 'g, 'o) sys) run" where
  "MappedBuffer_Read menv b offset sz k = do {
     ASSERT (rb_perms b AND 1 \<noteq> 0);
     ASSERT (offset + sz \<le> ucast (rb_size b));
     read_process menv (rb_process b) (rb_address b + ucast offset) (unat sz) k}"

definition MappedBuffer_Write ::
  "'g mem_env \<Rightarrow> request_buffer \<Rightarrow> bytes \<Rightarrow> u64 \<Rightarrow> ('s, 'g, 'o) sys \<Rightarrow> ('s, 'g, 'o) sys run" where
  "MappedBuffer_Write menv b buf offset k = do {
     ASSERT (rb_perms b AND 2 \<noteq> 0);
     ASSERT (offset + of_nat (length buf) \<le> ucast (rb_size b));
     write_process menv (rb_process b) (rb_address b + ucast offset) buf k}"

section \<open>From the client's command buffer\<close>

text \<open>A word of an array; writing past its end has no meaning.\<close>

definition put_word :: "u32 list \<Rightarrow> nat \<Rightarrow> u32 \<Rightarrow> u32 list run" where
  "put_word ws i w = (if i < length ws then Some (ws[i := w]) else None)"

definition put_cmd :: "nat \<Rightarrow> u32 \<Rightarrow> request_context \<Rightarrow> request_context run" where
  "put_cmd i w ctx = map_option (\<lambda>ws. ctx\<lparr>cmd_buf := ws\<rparr>) (put_word (cmd_buf ctx) i w)"

definition named_object :: "nat \<Rightarrow> u32 \<Rightarrow> ('s, 'g, 'o) sys \<Rightarrow> kref option" where
  "named_object src handle k = get_object (k, table_of src k) handle"

text \<open>The object a handle of the client names; a move of a single handle closes it.\<close>

definition incoming_object ::
  "nat \<Rightarrow> u32 \<Rightarrow> u32 \<Rightarrow> ('s, 'g, 'o) sys \<Rightarrow> (kref option \<times> ('s, 'g, 'o) sys) run" where
  "incoming_object src descriptor handle k =
     (if handle = 0 then Some (None, k)
      else do {
        ob \<leftarrow> named_object src handle k;
        Some (Some ob,
          if descriptor = MoveHandle
          then (case HandleTable_Close (table_of src k) handle of Inl e \<Rightarrow> k | Inr t \<Rightarrow> put_table src t k)
          else k)})"

fun populate_handles ::
  "nat \<Rightarrow> u32 \<Rightarrow> u32 list \<Rightarrow> nat \<Rightarrow> nat \<Rightarrow> request_context \<Rightarrow> ('s, 'g, 'o) sys \<Rightarrow>
   (request_context \<times> ('s, 'g, 'o) sys) run" where
  "populate_handles src descriptor src_cmdbuf 0 i ctx k = Some (ctx, k)"
| "populate_handles src descriptor src_cmdbuf (Suc n) i ctx k = do {
     handle \<leftarrow> get_word src_cmdbuf i;
     (ob, k) \<leftarrow> incoming_object src descriptor handle k;
     let (id', ctx) = AddOutgoingHandle ob ctx;
     ctx \<leftarrow> put_cmd i id' ctx;
     populate_handles src descriptor src_cmdbuf n (i + 1) ctx k}"

text \<open>One round of the loop, at a descriptor. A descriptor of another type is only logged.\<close>

definition populate_one ::
  "'g mem_env \<Rightarrow> nat \<Rightarrow> u32 list \<Rightarrow> nat \<Rightarrow> nat \<Rightarrow> request_context \<Rightarrow> ('s, 'g, 'o) sys \<Rightarrow>
   (nat \<times> request_context \<times> ('s, 'g, 'o) sys) run" where
  "populate_one menv src src_cmdbuf command_size i ctx k = do {
     descriptor \<leftarrow> get_word src_cmdbuf i;
     ctx \<leftarrow> put_cmd i descriptor ctx;
     let i = i + 1;
     let type = GetDescriptorType descriptor;
     if type = CopyHandle \<or> type = MoveHandle then do {
       let num_handles = unat (HandleNumberFromDesc descriptor);
       ASSERT (i + num_handles \<le> command_size);
       (ctx, k) \<leftarrow> populate_handles src descriptor src_cmdbuf num_handles i ctx k;
       Some (i + num_handles, ctx, k)}
     else if type = CallingPid then do {
       p \<leftarrow> processes k src;
       ctx \<leftarrow> put_cmd i (process_id p) ctx;
       Some (i + 1, ctx, k)}
     else if type = StaticBuffer then do {
       source_address \<leftarrow> get_word src_cmdbuf i;
       (buf, k) \<leftarrow> read_process menv src source_address (unat (StaticBuffer_size descriptor)) k;
       ctx \<leftarrow> AddStaticBuffer (StaticBuffer_id descriptor) buf ctx;
       ctx \<leftarrow> put_cmd i source_address ctx;
       Some (i + 1, ctx, k)}
     else if type = MappedBuffer then do {
       let next_id = (of_nat (length (request_mapped_buffers ctx)) :: u32);
       address \<leftarrow> get_word src_cmdbuf i;
       let ctx = ctx\<lparr>request_mapped_buffers := request_mapped_buffers ctx @
         [MappedBuffer_make src descriptor address next_id]\<rparr>;
       ctx \<leftarrow> put_cmd i next_id ctx;
       Some (i + 1, ctx, k)}
     else Some (i, ctx, k)}"

text \<open>Every round takes a word, of at most 64.\<close>

fun populate_loop ::
  "'g mem_env \<Rightarrow> nat \<Rightarrow> u32 list \<Rightarrow> nat \<Rightarrow> nat \<Rightarrow> nat \<Rightarrow> request_context \<Rightarrow> ('s, 'g, 'o) sys \<Rightarrow>
   (request_context \<times> ('s, 'g, 'o) sys) run" where
  "populate_loop menv src src_cmdbuf command_size 0 i ctx k =
     (if i < command_size then None else Some (ctx, k))"
| "populate_loop menv src src_cmdbuf command_size (Suc fuel) i ctx k =
     (if i < command_size then do {
        (i, ctx, k) \<leftarrow> populate_one menv src src_cmdbuf command_size i ctx k;
        populate_loop menv src src_cmdbuf command_size fuel i ctx k}
      else Some (ctx, k))"

definition untranslated_words :: "u32 \<Rightarrow> nat" where
  "untranslated_words header = 1 + unat (Header_normal_params_size header)"

definition command_words :: "u32 \<Rightarrow> nat" where
  "command_words header = untranslated_words header + unat (Header_translate_params_size header)"

definition PopulateFromIncomingCommandBuffer ::
  "'g mem_env \<Rightarrow> nat \<Rightarrow> u32 list \<Rightarrow> request_context \<Rightarrow> ('s, 'g, 'o) sys \<Rightarrow>
   (request_context \<times> ('s, 'g, 'o) sys) run" where
  "PopulateFromIncomingCommandBuffer menv src src_cmdbuf ctx k = do {
     header \<leftarrow> get_word src_cmdbuf 0;
     let untranslated_size = untranslated_words header;
     let command_size = command_words header;
     ASSERT (command_size \<le> COMMAND_BUFFER_LENGTH);
     let ctx = ctx\<lparr>cmd_buf := take untranslated_size src_cmdbuf @ drop untranslated_size (cmd_buf ctx)\<rparr>;
     populate_loop menv src src_cmdbuf command_size COMMAND_BUFFER_LENGTH untranslated_size ctx k}"

section \<open>To the client's command buffer\<close>

fun write_handles ::
  "nat \<Rightarrow> request_context \<Rightarrow> nat \<Rightarrow> nat \<Rightarrow> u32 list \<Rightarrow> ('s, 'g, 'o) sys \<Rightarrow>
   (u32 list \<times> ('s, 'g, 'o) sys) run" where
  "write_handles dst ctx 0 i dst_cmdbuf k = Some (dst_cmdbuf, k)"
| "write_handles dst ctx (Suc n) i dst_cmdbuf k = do {
     id_from_cmdbuf \<leftarrow> get_word (cmd_buf ctx) i;
     ob \<leftarrow> GetIncomingHandle id_from_cmdbuf ctx;
     (handle, k) \<leftarrow> (case ob of
         None \<Rightarrow> Some (0, k)
       | Some ob \<Rightarrow> (case HandleTable_Create (table_of dst k) ob of
             Inl e \<Rightarrow> None
           | Inr (h, t) \<Rightarrow> Some (h, put_table dst t k)));
     dst_cmdbuf \<leftarrow> put_word dst_cmdbuf i handle;
     write_handles dst ctx n (i + 1) dst_cmdbuf k}"

definition write_one ::
  "'g mem_env \<Rightarrow> nat \<Rightarrow> request_context \<Rightarrow> nat \<Rightarrow> nat \<Rightarrow> u32 list \<Rightarrow> ('s, 'g, 'o) sys \<Rightarrow>
   (nat \<times> u32 list \<times> ('s, 'g, 'o) sys) run" where
  "write_one menv dst ctx command_size i dst_cmdbuf k = do {
     descriptor \<leftarrow> get_word (cmd_buf ctx) i;
     dst_cmdbuf \<leftarrow> put_word dst_cmdbuf i descriptor;
     let i = i + 1;
     let type = GetDescriptorType descriptor;
     if type = CopyHandle \<or> type = MoveHandle then do {
       let num_handles = unat (HandleNumberFromDesc descriptor);
       ASSERT (i + num_handles \<le> command_size);
       (dst_cmdbuf, k) \<leftarrow> write_handles dst ctx num_handles i dst_cmdbuf k;
       Some (i + num_handles, dst_cmdbuf, k)}
     else if type = StaticBuffer then do {
       let buffer_id = StaticBuffer_id descriptor;
       buf \<leftarrow> GetStaticBuffer buffer_id ctx;
       let static_buffer_offset = COMMAND_BUFFER_LENGTH + 2 * unat buffer_id;
       target_descriptor \<leftarrow> get_word dst_cmdbuf static_buffer_offset;
       target_address \<leftarrow> get_word dst_cmdbuf (static_buffer_offset + 1);
       ASSERT (unat (StaticBuffer_size target_descriptor) \<ge> length buf);
       k \<leftarrow> write_process menv dst target_address buf k;
       dst_cmdbuf \<leftarrow> put_word dst_cmdbuf i target_address;
       Some (i + 1, dst_cmdbuf, k)}
     else if type = MappedBuffer then do {
       id_from_cmdbuf \<leftarrow> get_word (cmd_buf ctx) i;
       ASSERT (unat id_from_cmdbuf < length (request_mapped_buffers ctx));
       let addr = rb_address (request_mapped_buffers ctx ! unat id_from_cmdbuf);
       dst_cmdbuf \<leftarrow> put_word dst_cmdbuf i addr;
       Some (i + 1, dst_cmdbuf, k)}
     else Some (i, dst_cmdbuf, k)}"

fun write_loop ::
  "'g mem_env \<Rightarrow> nat \<Rightarrow> request_context \<Rightarrow> nat \<Rightarrow> nat \<Rightarrow> nat \<Rightarrow> u32 list \<Rightarrow> ('s, 'g, 'o) sys \<Rightarrow>
   (u32 list \<times> ('s, 'g, 'o) sys) run" where
  "write_loop menv dst ctx command_size 0 i dst_cmdbuf k =
     (if i < command_size then None else Some (dst_cmdbuf, k))"
| "write_loop menv dst ctx command_size (Suc fuel) i dst_cmdbuf k =
     (if i < command_size then do {
        (i, dst_cmdbuf, k) \<leftarrow> write_one menv dst ctx command_size i dst_cmdbuf k;
        write_loop menv dst ctx command_size fuel i dst_cmdbuf k}
      else Some (dst_cmdbuf, k))"

definition WriteToOutgoingCommandBuffer ::
  "'g mem_env \<Rightarrow> nat \<Rightarrow> request_context \<Rightarrow> u32 list \<Rightarrow> ('s, 'g, 'o) sys \<Rightarrow>
   (u32 list \<times> ('s, 'g, 'o) sys) run" where
  "WriteToOutgoingCommandBuffer menv dst ctx dst_cmdbuf k = do {
     header \<leftarrow> get_word (cmd_buf ctx) 0;
     let untranslated_size = untranslated_words header;
     let command_size = command_words header;
     ASSERT (command_size \<le> COMMAND_BUFFER_LENGTH);
     let dst_cmdbuf = take untranslated_size (cmd_buf ctx) @ drop untranslated_size dst_cmdbuf;
     write_loop menv dst ctx command_size COMMAND_BUFFER_LENGTH untranslated_size dst_cmdbuf k}"

section \<open>Requests in progress\<close>

record ('c, 'o) hosted =
  requests :: "nat \<rightharpoonup> request_context"
  sleep_callbacks :: "nat \<rightharpoonup> 'c"
  connected_sessions :: "nat \<Rightarrow> nat list"
  service_state :: 'o

type_synonym ('s, 'g, 'c, 'o) host = "('s, 'g, ('c, 'o) hosted) sys"

definition upd_hosted ::
  "(('c, 'o) hosted \<Rightarrow> ('c, 'o) hosted) \<Rightarrow> ('s, 'g, 'c, 'o) host \<Rightarrow> ('s, 'g, 'c, 'o) host" where
  "upd_hosted f k = k\<lparr>outside := (outside k)\<lparr>services := f (services (outside k))\<rparr>\<rparr>"

definition put_request ::
  "nat \<Rightarrow> request_context \<Rightarrow> ('s, 'g, 'c, 'o) host \<Rightarrow> ('s, 'g, 'c, 'o) host" where
  "put_request t ctx = upd_hosted (\<lambda>x. x\<lparr>requests := (requests x)(t \<mapsto> ctx)\<rparr>)"

text \<open>\<open>ServerSession::SetHleHandler\<close>, and the sessions that \<open>SessionRequestHandler\<close> keeps; the
  data of a session is the service's affair.\<close>

definition SetHleHandler :: "nat \<Rightarrow> nat option \<Rightarrow> ('s, 'g, 'e) kernel \<Rightarrow> ('s, 'g, 'e) kernel run" where
  "SetHleHandler a h k = do {
     s \<leftarrow> server_session_of k a;
     Some (set_object a (KServerSession (s\<lparr>session_handler := h\<rparr>)) k)}"

definition ClientConnected ::
  "nat \<Rightarrow> nat \<Rightarrow> ('s, 'g, 'c, 'o) host \<Rightarrow> ('s, 'g, 'c, 'o) host run" where
  "ClientConnected h a k = do {
     k \<leftarrow> SetHleHandler a (Some h) k;
     Some (upd_hosted (\<lambda>x. x\<lparr>connected_sessions :=
       (connected_sessions x)(h := connected_sessions x h @ [a])\<rparr>) k)}"

definition ClientDisconnected ::
  "nat \<Rightarrow> nat \<Rightarrow> ('s, 'g, 'c, 'o) host \<Rightarrow> ('s, 'g, 'c, 'o) host run" where
  "ClientDisconnected h a k = do {
     k \<leftarrow> SetHleHandler a None k;
     Some (upd_hosted (\<lambda>x. x\<lparr>connected_sessions :=
       (connected_sessions x)(h := removeAll a (connected_sessions x h))\<rparr>) k)}"

text \<open>The thread sleeps on a new event \<open>a\<close>; the callback 1 is \<open>HLERequestContext::ThreadCallback\<close>.\<close>

definition SleepClientThread ::
  "nat \<Rightarrow> int \<Rightarrow> 'c option \<Rightarrow> request_context \<Rightarrow> ('s, 'g, 'c, 'o) host \<Rightarrow> ('s, 'g, 'c, 'o) host run" where
  "SleepClientThread a timeout callback ctx k = do {
     let t = request_thread ctx;
     let k = upd_hosted (\<lambda>x. x\<lparr>sleep_callbacks := (sleep_callbacks x)(t := callback)\<rparr>) k;
     let k = upd_thread t (\<lambda>th. th\<lparr>wakeup_callback := Some (OtherCallback 1)\<rparr>) k;
     let k = CreateEvent a OneShot k;
     let k = upd_thread t (\<lambda>th. th\<lparr>status := WaitHleEvent, wait_objects := [RObj a]\<rparr>) k;
     k \<leftarrow> AddWaitingThread (RObj a) t k;
     if timeout > 0 then WakeAfterDelay t timeout False k else Some k}"

text \<open>Work that a service does in the background: at once, or on a thread of the host that wakes the
  client when it is done (\<open>async_done\<close>). The client's callback then runs \<open>result_function\<close>.\<close>

type_synonym ('s, 'g, 'c, 'o) async_work =
  "request_context \<Rightarrow> ('s, 'g, 'c, 'o) host \<Rightarrow> (int \<times> request_context \<times> ('s, 'g, 'c, 'o) host) run"

definition RunAsync ::
  "nat \<Rightarrow> 'c \<Rightarrow> ('s, 'g, 'c, 'o) async_work \<Rightarrow>
   (request_context \<Rightarrow> ('s, 'g, 'c, 'o) host \<Rightarrow> (request_context \<times> ('s, 'g, 'c, 'o) host) run) \<Rightarrow> bool \<Rightarrow>
   request_context \<Rightarrow> ('s, 'g, 'c, 'o) host \<Rightarrow> (request_context \<times> ('s, 'g, 'c, 'o) host) run" where
  "RunAsync a callback async_section result_function really_async ctx k =
     (if really_async then map_option (Pair ctx) (SleepClientThread a (-1) (Some callback) ctx k)
      else do {
        (sleep_for, ctx, k) \<leftarrow> async_section ctx k;
        if sleep_for > 0 then map_option (Pair ctx) (SleepClientThread a sleep_for (Some callback) ctx k)
        else result_function ctx k})"

definition async_done ::
  "('s, 'g, 'c, 'o) async_work \<Rightarrow> nat \<Rightarrow> ('s, 'g, 'c, 'o) host \<Rightarrow> ('s, 'g, 'c, 'o) host run" where
  "async_done async_section t k = do {
     ctx \<leftarrow> requests (services (outside k)) t;
     (sleep_for, ctx, k) \<leftarrow> async_section ctx k;
     WakeAfterDelay t sleep_for True (put_request t ctx k)}"

definition ThreadCallback_WakeUp ::
  "'g mem_env \<Rightarrow>
   ('c \<Rightarrow> nat \<Rightarrow> request_context \<Rightarrow> ThreadWakeupReason \<Rightarrow> ('s, 'g, 'c, 'o) host \<Rightarrow>
     (request_context \<times> ('s, 'g, 'c, 'o) host) run) \<Rightarrow>
   ThreadWakeupReason \<Rightarrow> nat \<Rightarrow> oref option \<Rightarrow> ('s, 'g, 'c, 'o) host \<Rightarrow> ('s, 'g, 'c, 'o) host run" where
  "ThreadCallback_WakeUp menv callback reason t ob k = do {
     th \<leftarrow> threads k t;
     ASSERT (status th = WaitHleEvent);
     ctx \<leftarrow> requests (services (outside k)) t;
     (ctx, k) \<leftarrow> (case sleep_callbacks (services (outside k)) t of
         None \<Rightarrow> Some (ctx, k)
       | Some c \<Rightarrow> callback c t ctx reason k);
     th \<leftarrow> threads k t;
     i \<leftarrow> owner_lock k th;
     (bs, k) \<leftarrow> read_process menv i (GetCommandBufferAddress th) cmd_buf_bytes k;
     (ws, k) \<leftarrow> WriteToOutgoingCommandBuffer menv i ctx (words_of 96 bs) k;
     k \<leftarrow> write_process menv i (GetCommandBufferAddress th) (bytes_of ws) k;
     Some (put_request t ctx k)}"

text \<open>The services' side of a session: \<open>handler h ctx\<close> is the virtual \<open>HandleSyncRequest\<close> of service
  \<open>h\<close>.\<close>

definition service_hle ::
  "'g mem_env \<Rightarrow> u32 list \<Rightarrow>
   (nat \<Rightarrow> request_context \<Rightarrow> ('s, 'g, 'c, 'o) host \<Rightarrow> (request_context \<times> ('s, 'g, 'c, 'o) host) run) \<Rightarrow>
   ('s, 'g, ('c, 'o) hosted) hle" where
  "service_hle menv stale handler =
     \<lparr>client_connected = ClientConnected,
      client_disconnected = ClientDisconnected,
      hle_request = (\<lambda>h a t bs k. do {
        th \<leftarrow> threads k t;
        i \<leftarrow> owner_lock k th;
        (ctx, k) \<leftarrow> PopulateFromIncomingCommandBuffer menv i (words_of 96 bs) (new_context stale a t) k;
        (ctx, k) \<leftarrow> handler h ctx k;
        Some (put_request t ctx k)}),
      hle_reply = (\<lambda>h a t bs k. do {
        th \<leftarrow> threads k t;
        i \<leftarrow> owner_lock k th;
        ctx \<leftarrow> requests (services (outside k)) t;
        (ws, k) \<leftarrow> WriteToOutgoingCommandBuffer menv i ctx (words_of 96 bs) k;
        Some (bytes_of ws, k)})\<rparr>"

definition host_env ::
  "'g mem_env \<Rightarrow> (nat \<Rightarrow> 'g machine \<Rightarrow> u64) \<Rightarrow>
   ('c \<Rightarrow> nat \<Rightarrow> request_context \<Rightarrow> ThreadWakeupReason \<Rightarrow> ('s, 'g, 'c, 'o) host \<Rightarrow>
     (request_context \<times> ('s, 'g, 'c, 'o) host) run) \<Rightarrow>
   ('s, 'g, ('c, 'o) hosted world) kenv \<Rightarrow> ('s, 'g, ('c, 'o) hosted world) kenv" where
  "host_env menv alloc callback env = ipc_env menv alloc (env\<lparr>other_wakeup := (\<lambda>n. case n of
     0 \<Rightarrow> ThreadCallback_WakeUp menv callback
   | Suc m \<Rightarrow> other_wakeup env m)\<rparr>)"

end
