(* ===== verification/RequestHelpers.thy ===== *)
theory RequestHelpers
  imports RequestContext
begin

text \<open>Reading a request and building its answer (\<open>core/hle/ipc_helpers.h\<close>): \<open>RequestParser\<close> and
  \<open>RequestBuilder\<close> are a position in the command buffer of a context and the header that the reads
  or writes must match when they end. The check is that of the debug build.\<close>

section \<open>The position in the command buffer\<close>

record helper =
  help_index :: nat
  help_header :: u32
  help_context :: request_context

definition TotalSize :: "helper \<Rightarrow> nat" where
  "TotalSize h = 1 + unat (Header_normal_params_size (help_header h)) +
     unat (Header_translate_params_size (help_header h))"

definition ValidateHeader :: "helper \<Rightarrow> unit run" where
  "ValidateHeader h = (if help_index h = TotalSize h then Some () else None)"

definition Skip :: "nat \<Rightarrow> bool \<Rightarrow> helper \<Rightarrow> helper run" where
  "Skip size_in_words set_to_null h =
     (let i = help_index h; n = length (cmd_buf (help_context h))
      in if set_to_null then
           (if i + size_in_words \<le> n
            then Some (h\<lparr>help_index := i + size_in_words, help_context := (help_context h)\<lparr>cmd_buf :=
              take i (cmd_buf (help_context h)) @ replicate size_in_words 0 @
              drop (i + size_in_words) (cmd_buf (help_context h))\<rparr>\<rparr>)
            else None)
         else Some (h\<lparr>help_index := i + size_in_words\<rparr>))"

section \<open>Answers\<close>

definition RequestBuilder :: "u32 \<Rightarrow> request_context \<Rightarrow> helper run" where
  "RequestBuilder header ctx = do {
     ctx \<leftarrow> put_cmd 0 header (ClearIncomingObjects ctx);
     Some \<lparr>help_index = 1, help_header = header, help_context = ctx\<rparr>}"

definition Push_u32 :: "u32 \<Rightarrow> helper \<Rightarrow> helper run" where
  "Push_u32 v h = do {
     ctx \<leftarrow> put_cmd (help_index h) v (help_context h);
     Some (h\<lparr>help_index := help_index h + 1, help_context := ctx\<rparr>)}"

text \<open>\<open>PushRaw\<close> writes the bytes of a value; in the last word the bytes behind it stay.\<close>

definition PushRaw :: "bytes \<Rightarrow> helper \<Rightarrow> helper run" where
  "PushRaw bs h = do {
     let buf = cmd_buf (help_context h);
     let at = 4 * help_index h;
     ASSERT (at + length bs \<le> 4 * length buf);
     let raw = bytes_of buf;
     Some (h\<lparr>help_index := help_index h + (length bs + 3) div 4,
       help_context := (help_context h)\<lparr>cmd_buf :=
         words_of (length buf) (take at raw @ bs @ drop (at + length bs) raw)\<rparr>\<rparr>)}"

definition Push_s32 :: "s32 \<Rightarrow> helper \<Rightarrow> helper run" where
  "Push_s32 v = Push_u32 v"

definition Push_u8 :: "u8 \<Rightarrow> helper \<Rightarrow> helper run" where
  "Push_u8 v = PushRaw [v]"

definition Push_u16 :: "u16 \<Rightarrow> helper \<Rightarrow> helper run" where
  "Push_u16 v = PushRaw (to_le 2 (unat v))"

definition Push_u64 :: "u64 \<Rightarrow> helper \<Rightarrow> helper run" where
  "Push_u64 v h = do {
     h \<leftarrow> Push_u32 (ucast v) h;
     Push_u32 (ucast (drop_bit 32 v)) h}"

definition Push_bool :: "bool \<Rightarrow> helper \<Rightarrow> helper run" where
  "Push_bool v = Push_u8 (if v then 1 else 0)"

definition Push_Result :: "result \<Rightarrow> helper \<Rightarrow> helper run" where
  "Push_Result r = Push_u32 r"

fun Push_all :: "u32 list \<Rightarrow> helper \<Rightarrow> helper run" where
  "Push_all [] h = Some h"
| "Push_all (v # vs) h = do { h \<leftarrow> Push_u32 v h; Push_all vs h }"

fun add_outgoing :: "kref option list \<Rightarrow> request_context \<Rightarrow> u32 list \<times> request_context" where
  "add_outgoing [] ctx = ([], ctx)"
| "add_outgoing (ob # obs) ctx =
     (let (id', ctx) = AddOutgoingHandle ob ctx; (ids, ctx) = add_outgoing obs ctx in (id' # ids, ctx))"

text \<open>The language leaves the order in which the objects are added open; from the first is one.\<close>

definition PushCopyObjects :: "kref option list \<Rightarrow> helper \<Rightarrow> helper run" where
  "PushCopyObjects obs h = do {
     let (handles, ctx) = add_outgoing obs (help_context h);
     h \<leftarrow> Push_u32 (CopyHandleDesc (of_nat (length obs))) (h\<lparr>help_context := ctx\<rparr>);
     Push_all handles h}"

definition PushMoveObjects :: "kref option list \<Rightarrow> helper \<Rightarrow> helper run" where
  "PushMoveObjects obs h = do {
     let (handles, ctx) = add_outgoing obs (help_context h);
     h \<leftarrow> Push_u32 (MoveHandleDesc (of_nat (length obs))) (h\<lparr>help_context := ctx\<rparr>);
     Push_all handles h}"

definition PushStaticBuffer :: "bytes \<Rightarrow> u8 \<Rightarrow> helper \<Rightarrow> helper run" where
  "PushStaticBuffer buffer buffer_id h = do {
     ASSERT (unat buffer_id < 16);
     h \<leftarrow> Push_u32 (StaticBufferDesc (of_nat (length buffer)) buffer_id) h;
     h \<leftarrow> Push_u32 0xDEADC0DE h;
     ctx \<leftarrow> AddStaticBuffer (ucast buffer_id) buffer (help_context h);
     Some (h\<lparr>help_context := ctx\<rparr>)}"

definition GenerateDescriptor :: "request_buffer \<Rightarrow> u32" where
  "GenerateDescriptor b = MappedBufferDesc (ucast (rb_size b)) (rb_perms b)"

definition PushMappedBuffer :: "request_buffer \<Rightarrow> helper \<Rightarrow> helper run" where
  "PushMappedBuffer b h = do {
     h \<leftarrow> Push_u32 (GenerateDescriptor b) h;
     Push_u32 (rb_id b) h}"

text \<open>The builder's end, where its destructor runs.\<close>

definition finish :: "helper \<Rightarrow> request_context run" where
  "finish h = do { _ \<leftarrow> ValidateHeader h; Some (help_context h) }"

section \<open>Requests\<close>

definition RequestParser :: "request_context \<Rightarrow> helper run" where
  "RequestParser ctx = do {
     header \<leftarrow> get_word (cmd_buf ctx) 0;
     Some \<lparr>help_index = 1, help_header = header, help_context = ctx\<rparr>}"

definition MakeBuilder :: "u32 \<Rightarrow> u32 \<Rightarrow> bool \<Rightarrow> helper \<Rightarrow> helper run" where
  "MakeBuilder normal_params_size translate_params_size validateHeader h = do {
     _ \<leftarrow> (if validateHeader then ValidateHeader h else Some ());
     RequestBuilder (MakeHeader (ucast (Header_command_id (help_header h))) normal_params_size
       translate_params_size) (help_context h)}"

definition Pop_u32 :: "helper \<Rightarrow> (u32 \<times> helper) run" where
  "Pop_u32 h = do {
     v \<leftarrow> get_word (cmd_buf (help_context h)) (help_index h);
     Some (v, h\<lparr>help_index := help_index h + 1\<rparr>)}"

definition PopRaw :: "nat \<Rightarrow> helper \<Rightarrow> (bytes \<times> helper) run" where
  "PopRaw n h = do {
     let buf = cmd_buf (help_context h);
     ASSERT (4 * help_index h + n \<le> 4 * length buf);
     Some (take n (drop (4 * help_index h) (bytes_of buf)), h\<lparr>help_index := help_index h + (n + 3) div 4\<rparr>)}"

definition Pop_u8 :: "helper \<Rightarrow> (u8 \<times> helper) run" where
  "Pop_u8 h = map_option (\<lambda>(bs, h). (hd bs, h)) (PopRaw 1 h)"

definition Pop_u16 :: "helper \<Rightarrow> (u16 \<times> helper) run" where
  "Pop_u16 h = map_option (\<lambda>(bs, h). (of_nat (from_le bs), h)) (PopRaw 2 h)"

definition Pop_s32 :: "helper \<Rightarrow> (s32 \<times> helper) run" where
  "Pop_s32 h = map_option (\<lambda>(bs, h). (of_nat (from_le bs), h)) (PopRaw 4 h)"

definition Pop_u64 :: "helper \<Rightarrow> (u64 \<times> helper) run" where
  "Pop_u64 h = do {
     (lsw, h) \<leftarrow> Pop_u32 h;
     (msw, h) \<leftarrow> Pop_u32 h;
     Some (push_bit 32 (ucast msw) OR ucast lsw, h)}"

definition Pop_bool :: "helper \<Rightarrow> (bool \<times> helper) run" where
  "Pop_bool h = map_option (\<lambda>(v, h). (v \<noteq> 0, h)) (Pop_u8 h)"

fun Pop_words :: "nat \<Rightarrow> helper \<Rightarrow> (u32 list \<times> helper) run" where
  "Pop_words 0 h = Some ([], h)"
| "Pop_words (Suc n) h = do {
     (v, h) \<leftarrow> Pop_u32 h;
     (vs, h) \<leftarrow> Pop_words n h;
     Some (v # vs, h)}"

definition PopHLEHandles :: "nat \<Rightarrow> helper \<Rightarrow> (u32 list \<times> helper) run" where
  "PopHLEHandles n h = do {
     (handle_descriptor, h) \<leftarrow> Pop_u32 h;
     ASSERT (IsHandleDescriptor handle_descriptor);
     ASSERT (n = unat (HandleNumberFromDesc handle_descriptor));
     Pop_words n h}"

fun incoming_objects :: "u32 list \<Rightarrow> request_context \<Rightarrow> kref option list run" where
  "incoming_objects [] ctx = Some []"
| "incoming_objects (v # vs) ctx = do {
     ob \<leftarrow> GetIncomingHandle v ctx;
     obs \<leftarrow> incoming_objects vs ctx;
     Some (ob # obs)}"

definition PopGenericObjects :: "nat \<Rightarrow> helper \<Rightarrow> (kref option list \<times> helper) run" where
  "PopGenericObjects n h = do {
     (handles, h) \<leftarrow> PopHLEHandles n h;
     obs \<leftarrow> incoming_objects handles (help_context h);
     Some (obs, h)}"

definition PopPID :: "helper \<Rightarrow> (u32 \<times> helper) run" where
  "PopPID h = do {
     (descriptor, h) \<leftarrow> Pop_u32 h;
     ASSERT (descriptor = CallingPid);
     Pop_u32 h}"

definition PopStaticBuffer :: "helper \<Rightarrow> (bytes \<times> helper) run" where
  "PopStaticBuffer h = do {
     (sbuffer_descriptor, h) \<leftarrow> Pop_u32 h;
     (address, h) \<leftarrow> Pop_u32 h;
     buffer \<leftarrow> GetStaticBuffer (StaticBuffer_id sbuffer_descriptor) (help_context h);
     Some (buffer, h)}"

definition PopMappedBuffer :: "helper \<Rightarrow> (request_buffer \<times> helper) run" where
  "PopMappedBuffer h = do {
     (mapped_buffer_descriptor, h) \<leftarrow> Pop_u32 h;
     ASSERT (GetDescriptorType mapped_buffer_descriptor = MappedBuffer);
     (id', h) \<leftarrow> Pop_u32 h;
     b \<leftarrow> GetMappedBuffer id' (help_context h);
     Some (b, h)}"

end
