(* ===== verification/ServiceManager.thy ===== *)
theory ServiceManager
  imports RequestHelpers
begin

text \<open>The dispatch of requests to a service's functions (\<open>core/hle/service/service.cpp\<close>), the manager
  of services (\<open>service/sm/sm.cpp\<close>) and the service \<open>srv:\<close> through which processes reach all others
  (\<open>service/sm/srv.cpp\<close>). The addresses of new objects are arguments.\<close>

section \<open>Dispatch\<close>

text \<open>A command's function; \<open>None\<close> is a null pointer. The first entry of a command stays.\<close>

type_synonym 'f handler_map = "u32 \<rightharpoonup> 'f option"

fun RegisterHandlersBase :: "(u32 \<times> 'f option) list \<Rightarrow> 'f handler_map \<Rightarrow> 'f handler_map" where
  "RegisterHandlersBase [] handlers = handlers"
| "RegisterHandlersBase ((command_id, f) # functions) handlers =
     RegisterHandlersBase functions
       (if command_id \<in> dom handlers then handlers else handlers(command_id \<mapsto> f))"

text \<open>The answer is a success with one word, whatever the request.\<close>

definition ReportUnimplementedFunction :: "request_context \<Rightarrow> request_context run" where
  "ReportUnimplementedFunction ctx = do {
     header \<leftarrow> get_word (cmd_buf ctx) 0;
     ctx \<leftarrow> put_cmd 0 (Assign 0 6 0 (Assign 6 6 1 header)) ctx;
     put_cmd 1 0 ctx}"

definition Framework_HandleSyncRequest ::
  "('f \<Rightarrow> request_context \<Rightarrow> ('s, 'g, 'c, 'o) host \<Rightarrow> (request_context \<times> ('s, 'g, 'c, 'o) host) run) \<Rightarrow>
   'f handler_map \<Rightarrow> request_context \<Rightarrow> ('s, 'g, 'c, 'o) host \<Rightarrow>
   (request_context \<times> ('s, 'g, 'c, 'o) host) run" where
  "Framework_HandleSyncRequest invoke handlers ctx k = do {
     header \<leftarrow> get_word (cmd_buf ctx) 0;
     case handlers (Header_command_id header) of
       Some (Some f) \<Rightarrow> invoke f ctx k
     | _ \<Rightarrow> map_option (\<lambda>ctx. (ctx, k)) (ReportUnimplementedFunction ctx)}"

section \<open>The manager of services\<close>

text \<open>What the manager and \<open>srv:\<close> keep: the client ports by name, the names by port for the recorder,
  the semaphore of notifications and the events of clients that wait for a service.\<close>

record srv_state =
  registered_services :: "bytes \<rightharpoonup> nat"
  registered_services_inverse :: "nat \<rightharpoonup> bytes"
  notification_semaphore :: "nat option"
  get_service_handle_delayed_map :: "bytes \<rightharpoonup> nat"

type_synonym ('s, 'g) srv_host = "('s, 'g, bytes, srv_state) host"

definition srv_of :: "('s, 'g) srv_host \<Rightarrow> srv_state" where
  "srv_of k = service_state (services (outside k))"

definition upd_srv :: "(srv_state \<Rightarrow> srv_state) \<Rightarrow> ('s, 'g) srv_host \<Rightarrow> ('s, 'g) srv_host" where
  "upd_srv f = upd_hosted (\<lambda>x. x\<lparr>service_state := f (service_state x)\<rparr>)"

definition ResultServiceNotRegistered :: result where
  "ResultServiceNotRegistered = Result_make 1 25 Sum_WouldBlock Lvl_Temporary"

definition ResultInvalidNameSize :: result where
  "ResultInvalidNameSize = Result_make 5 25 Sum_WrongArgument Lvl_Permanent"

definition ResultNameContainsNul :: result where
  "ResultNameContainsNul = Result_make 7 25 Sum_WrongArgument Lvl_Permanent"

definition ResultAlreadyRegistered :: result where
  "ResultAlreadyRegistered = Result_make Desc_AlreadyExists Mod_OS Sum_WrongArgument Lvl_Permanent"

definition ValidateServiceName :: "bytes \<Rightarrow> result" where
  "ValidateServiceName name =
     (if \<not> (length name > 0 \<and> length name \<le> 8) then ResultInvalidNameSize
      else if 0 \<in> set name then ResultNameContainsNul
      else ResultSuccess)"

definition ServiceManager_RegisterService ::
  "nat \<times> nat \<Rightarrow> bytes \<Rightarrow> u32 \<Rightarrow> ('s, 'g) srv_host \<Rightarrow> (result + nat) \<times> ('s, 'g) srv_host" where
  "ServiceManager_RegisterService new name max_sessions' k =
     (let valid = ValidateServiceName name; (a, c) = new
      in if Result_IsError valid then (Inl valid, k)
         else if name \<in> dom (registered_services (srv_of k)) then (Inl ResultAlreadyRegistered, k)
         else (Inr a, upd_srv (\<lambda>s. s\<lparr>registered_services := (registered_services s)(name \<mapsto> c),
             registered_services_inverse := (registered_services_inverse s)(c \<mapsto> name)\<rparr>)
           (CreatePortPair a c max_sessions' k)))"

definition GetServicePort :: "bytes \<Rightarrow> ('s, 'g) srv_host \<Rightarrow> result + nat" where
  "GetServicePort name k =
     (let valid = ValidateServiceName name
      in if Result_IsError valid then Inl valid
         else case registered_services (srv_of k) name of
           None \<Rightarrow> Inl ResultServiceNotRegistered
         | Some c \<Rightarrow> Inr c)"

text \<open>A connection made by a service: the environment, the services and the new addresses.\<close>

type_synonym ('s, 'g) connector =
  "nat \<Rightarrow> ('s, 'g) srv_host \<Rightarrow> ((result + nat) \<times> ('s, 'g) srv_host) run"

definition ConnectToService ::
  "('s, 'g) connector \<Rightarrow> bytes \<Rightarrow> ('s, 'g) srv_host \<Rightarrow> ((result + nat) \<times> ('s, 'g) srv_host) run" where
  "ConnectToService connect name k =
     (case GetServicePort name k of
        Inl e \<Rightarrow> Some (Inl e, k)
      | Inr c \<Rightarrow> connect c k)"

definition GetServiceNameByPortId :: "nat \<Rightarrow> ('s, 'g) srv_host \<Rightarrow> bytes" where
  "GetServiceNameByPortId port k =
     (case registered_services_inverse (srv_of k) port of None \<Rightarrow> [] | Some name \<Rightarrow> name)"

text \<open>The handler behind a service's port.\<close>

definition GetService :: "bytes \<Rightarrow> ('s, 'g) srv_host \<Rightarrow> nat option" where
  "GetService name k = do {
     c \<leftarrow> registered_services (srv_of k) name;
     cp \<leftarrow> client_ports k c;
     sp \<leftarrow> server_port_of k (cp_server_port cp);
     port_handler sp}"

section \<open>The service srv:\<close>

text \<open>An answer of one word.\<close>

definition answer :: "result \<Rightarrow> helper \<Rightarrow> request_context run" where
  "answer r rp = do {
     rb \<leftarrow> MakeBuilder 1 0 True rp;
     rb \<leftarrow> Push_Result r rb;
     finish rb}"

definition SRV_RegisterClient :: "request_context \<Rightarrow> request_context run" where
  "SRV_RegisterClient ctx = do {
     rp \<leftarrow> RequestParser ctx;
     (pid_descriptor, rp) \<leftarrow> Pop_u32 rp;
     if pid_descriptor \<noteq> CallingPidDesc then answer ResultInvalidBufferDescriptor rp
     else do {
       (caller_pid, rp) \<leftarrow> Pop_u32 rp;
       answer ResultSuccess rp}}"

definition SRV_EnableNotification ::
  "nat \<Rightarrow> request_context \<Rightarrow> ('s, 'g) srv_host \<Rightarrow> (request_context \<times> ('s, 'g) srv_host) run" where
  "SRV_EnableNotification a ctx k = do {
     rp \<leftarrow> RequestParser ctx;
     let (r, k) = CreateSemaphore a 0 16 k;
     ASSERT (r = Inr a);
     let k = upd_srv (\<lambda>s. s\<lparr>notification_semaphore := Some a\<rparr>) k;
     rb \<leftarrow> MakeBuilder 1 2 True rp;
     rb \<leftarrow> Push_Result ResultSuccess rb;
     rb \<leftarrow> PushCopyObjects [Some (HWait (RObj a))] rb;
     ctx \<leftarrow> finish rb;
     Some (ctx, k)}"

definition session_answer :: "nat \<Rightarrow> helper \<Rightarrow> request_context run" where
  "session_answer c rb = do {
     rb \<leftarrow> Push_Result ResultSuccess rb;
     rb \<leftarrow> PushMoveObjects [Some (HClientSession c)] rb;
     finish rb}"

text \<open>What wakes a client that waited for a service: the callback of \<open>SRV::ThreadCallback\<close>.\<close>

definition SRV_WakeUp ::
  "('s, 'g) connector \<Rightarrow> bytes \<Rightarrow> nat \<Rightarrow> request_context \<Rightarrow> ThreadWakeupReason \<Rightarrow>
   ('s, 'g) srv_host \<Rightarrow> (request_context \<times> ('s, 'g) srv_host) run" where
  "SRV_WakeUp connect name t ctx reason k =
     (case GetServicePort name k of
        Inl e \<Rightarrow> None
      | Inr port \<Rightarrow> do {
          (r, k) \<leftarrow> connect port k;
          case r of
            Inr c \<Rightarrow> do {
              rb \<leftarrow> RequestBuilder (MakeHeader 0x5 1 2) ctx;
              ctx \<leftarrow> session_answer c rb;
              Some (ctx, k)}
          | Inl e \<Rightarrow>
              if e = ResultMaxConnectionsReached then None
              else do {
                rb \<leftarrow> RequestBuilder (MakeHeader 0x5 1 0) ctx;
                rb \<leftarrow> Push_Result e rb;
                ctx \<leftarrow> finish rb;
                Some (ctx, k)}})"

text \<open>With no connection left the code only logs that it should wait. \<open>ev\<close> is the event of a client
  that is put to sleep.\<close>

definition SRV_GetServiceHandle ::
  "('s, 'g) connector \<Rightarrow> nat \<Rightarrow> request_context \<Rightarrow> ('s, 'g) srv_host \<Rightarrow>
   (request_context \<times> ('s, 'g) srv_host) run" where
  "SRV_GetServiceHandle connect ev ctx k = do {
     rp \<leftarrow> RequestParser ctx;
     (name_buf, rp) \<leftarrow> PopRaw 8 rp;
     (name_len, rp) \<leftarrow> Pop_u32 rp;
     (flags, rp) \<leftarrow> Pop_u32 rp;
     let wait_until_available = (flags AND 1 = 0);
     if unat name_len > 8 then map_option (\<lambda>ctx. (ctx, k)) (answer ResultInvalidNameSize rp)
     else do {
       let name = take (unat name_len) name_buf;
       case GetServicePort name k of
         Inl e \<Rightarrow>
           if wait_until_available \<and> e = ResultServiceNotRegistered then do {
             k \<leftarrow> SleepClientThread ev (-1) (Some name) ctx k;
             Some (ctx, upd_srv (\<lambda>s. s\<lparr>get_service_handle_delayed_map :=
               (get_service_handle_delayed_map s)(name \<mapsto> ev)\<rparr>) k)}
           else map_option (\<lambda>ctx. (ctx, k)) (answer e rp)
       | Inr port \<Rightarrow> do {
           (r, k) \<leftarrow> connect port k;
           case r of
             Inr c \<Rightarrow> do {
               rb \<leftarrow> MakeBuilder 1 2 True rp;
               ctx \<leftarrow> session_answer c rb;
               Some (ctx, k)}
           | Inl e \<Rightarrow>
               if e = ResultMaxConnectionsReached \<and> wait_until_available then Some (ctx, k)
               else map_option (\<lambda>ctx. (ctx, k)) (answer e rp)}}}"

text \<open>\<open>Subscribe\<close> and \<open>Unsubscribe\<close>.\<close>

definition SRV_Subscribe :: "request_context \<Rightarrow> request_context run" where
  "SRV_Subscribe ctx = do {
     rp \<leftarrow> RequestParser ctx;
     (notification_id, rp) \<leftarrow> Pop_u32 rp;
     answer ResultSuccess rp}"

text \<open>The notification that powers the console off is passed on; the first component says so.\<close>

definition SRV_PublishToSubscriber :: "request_context \<Rightarrow> (bool \<times> request_context) run" where
  "SRV_PublishToSubscriber ctx = do {
     rp \<leftarrow> RequestParser ctx;
     (notification_id, rp) \<leftarrow> Pop_u32 rp;
     (flags, rp) \<leftarrow> Pop_u8 rp;
     ctx \<leftarrow> answer ResultSuccess rp;
     Some (notification_id = 0x203, ctx)}"

text \<open>A new service wakes the client that waits for it.\<close>

definition SRV_RegisterService ::
  "('s, 'g, (bytes, srv_state) hosted world) kenv \<Rightarrow> nat \<times> nat \<Rightarrow> request_context \<Rightarrow> ('s, 'g) srv_host \<Rightarrow>
   (request_context \<times> ('s, 'g) srv_host) run" where
  "SRV_RegisterService env new ctx k = do {
     rp \<leftarrow> RequestParser ctx;
     (name_buf, rp) \<leftarrow> PopRaw 8 rp;
     (name_len, rp) \<leftarrow> Pop_u32 rp;
     (max_sessions', rp) \<leftarrow> Pop_u32 rp;
     let name = take (min (unat name_len) 8) name_buf;
     let (r, k) = ServiceManager_RegisterService new name max_sessions' k;
     case r of
       Inl e \<Rightarrow> map_option (\<lambda>ctx. (ctx, k)) (answer e rp)
     | Inr port \<Rightarrow> do {
         k \<leftarrow> (case get_service_handle_delayed_map (srv_of k) name of
             None \<Rightarrow> Some k
           | Some ev \<Rightarrow> do {
               k \<leftarrow> Event_Signal env ev k;
               Some (upd_srv (\<lambda>s. s\<lparr>get_service_handle_delayed_map :=
                 (get_service_handle_delayed_map s)(name := None)\<rparr>) k)});
         rb \<leftarrow> MakeBuilder 1 2 True rp;
         rb \<leftarrow> Push_Result ResultSuccess rb;
         rb \<leftarrow> PushMoveObjects [Some (HWait (RObj port))] rb;
         ctx \<leftarrow> finish rb;
         Some (ctx, k)}}"

text \<open>Some of the functions of the table have no implementation.\<close>

datatype srv_function = RegisterClient | EnableNotification | RegisterService | GetServiceHandle
  | Subscribe | Unsubscribe | PublishToSubscriber

definition srv_functions :: "(u32 \<times> srv_function option) list" where
  "srv_functions =
     [(0x1, Some RegisterClient), (0x2, Some EnableNotification), (0x3, Some RegisterService), (0x4, None),
      (0x5, Some GetServiceHandle), (0x6, None), (0x7, None), (0x8, None), (0x9, Some Subscribe),
      (0xA, Some Unsubscribe), (0xB, None), (0xC, Some PublishToSubscriber), (0xD, None), (0xE, None)]"

text \<open>A shutdown that a client asks for is the caller's affair. Three new addresses serve the
  semaphore or event and a pair of ports.\<close>

definition SRV_invoke ::
  "('s, 'g, (bytes, srv_state) hosted world) kenv \<Rightarrow> ('s, 'g) connector \<Rightarrow>
   (('s, 'g) srv_host \<Rightarrow> nat \<times> nat \<times> nat) \<Rightarrow> srv_function \<Rightarrow> request_context \<Rightarrow> ('s, 'g) srv_host \<Rightarrow>
   (request_context \<times> ('s, 'g) srv_host) run" where
  "SRV_invoke env connect fresh f ctx k =
     (let (a, b, c) = fresh k; same = map_option (\<lambda>ctx. (ctx, k))
      in case f of
        RegisterClient \<Rightarrow> same (SRV_RegisterClient ctx)
      | EnableNotification \<Rightarrow> SRV_EnableNotification a ctx k
      | RegisterService \<Rightarrow> SRV_RegisterService env (b, c) ctx k
      | GetServiceHandle \<Rightarrow> SRV_GetServiceHandle connect a ctx k
      | Subscribe \<Rightarrow> same (SRV_Subscribe ctx)
      | Unsubscribe \<Rightarrow> same (SRV_Subscribe ctx)
      | PublishToSubscriber \<Rightarrow> same (map_option snd (SRV_PublishToSubscriber ctx)))"

definition SRV_HandleSyncRequest ::
  "('s, 'g, (bytes, srv_state) hosted world) kenv \<Rightarrow> ('s, 'g) connector \<Rightarrow>
   (('s, 'g) srv_host \<Rightarrow> nat \<times> nat \<times> nat) \<Rightarrow> request_context \<Rightarrow> ('s, 'g) srv_host \<Rightarrow>
   (request_context \<times> ('s, 'g) srv_host) run" where
  "SRV_HandleSyncRequest env connect fresh =
     Framework_HandleSyncRequest (SRV_invoke env connect fresh) (RegisterHandlersBase srv_functions Map.empty)"

section \<open>Installing services\<close>

definition InstallAsService ::
  "nat \<times> nat \<Rightarrow> nat \<Rightarrow> bytes \<Rightarrow> u32 \<Rightarrow> ('s, 'g) srv_host \<Rightarrow> ('s, 'g) srv_host run" where
  "InstallAsService new h service_name max_sessions' k =
     (case ServiceManager_RegisterService new service_name max_sessions' k of
        (Inl e, k) \<Rightarrow> None
      | (Inr a, k) \<Rightarrow> do {
          sp \<leftarrow> server_port_of k a;
          Some (set_object a (KServerPort (sp\<lparr>port_handler := Some h\<rparr>)) k)})"

definition InstallAsNamedPort ::
  "nat \<times> nat \<Rightarrow> nat \<Rightarrow> bytes \<Rightarrow> u32 \<Rightarrow> ('s, 'g, 'e) kernel \<Rightarrow> ('s, 'g, 'e) kernel run" where
  "InstallAsNamedPort new h service_name max_sessions' k = do {
     let (a, c) = new;
     let k = CreatePortPair a c max_sessions' k;
     sp \<leftarrow> server_port_of k a;
     let k = set_object a (KServerPort (sp\<lparr>port_handler := Some h\<rparr>)) k;
     Some (k\<lparr>named_ports := (named_ports k)(service_name := Some
       (case named_ports k service_name of None \<Rightarrow> c | Some old \<Rightarrow> old))\<rparr>)}"

text \<open>The handler of \<open>srv:\<close> is the number 0.\<close>

definition ServiceManager_InstallInterfaces ::
  "nat \<times> nat \<Rightarrow> ('s, 'g, 'e) kernel \<Rightarrow> ('s, 'g, 'e) kernel run" where
  "ServiceManager_InstallInterfaces new k = InstallAsNamedPort new 0 [0x73, 0x72, 0x76, 0x3A] 64 k"

end
