(* ===== verification/RequestProofs.thy ===== *)
theory RequestProofs
  imports ServiceManager LentBuffers
begin

text \<open>What services and their clients see of each other's messages: the words and objects that a
  service puts into an answer are those that the client finds in its command buffer and its handle
  table, and the other way round for a request.\<close>

section \<open>A run of words in a buffer\<close>

definition overlay :: "nat \<Rightarrow> 'a list \<Rightarrow> 'a list \<Rightarrow> 'a list" where
  "overlay i ws buf = take i buf @ ws @ drop (i + length ws) buf"

lemma overlay_Nil [simp]: "overlay i [] buf = buf"
  by (simp add: overlay_def)

lemma length_overlay [simp]: "i + length ws \<le> length buf \<Longrightarrow> length (overlay i ws buf) = length buf"
  by (simp add: overlay_def)

lemma overlay_Cons: "i < length buf \<Longrightarrow> overlay (Suc i) ws (buf[i := w]) = overlay i (w # ws) buf"
  by (simp add: overlay_def take_Suc_conv_app_nth drop_update_cancel take_update_cancel)

lemma overlay_append:
  assumes "i + length us + length vs \<le> length buf"
  shows "overlay (i + length us) vs (overlay i us buf) = overlay i (us @ vs) buf"
  using assms by (simp add: overlay_def add.assoc add.commute [of "length vs"])

lemma overlay_part: "i + length ws \<le> length buf \<Longrightarrow> take (length ws) (drop i (overlay i ws buf)) = ws"
  by (simp add: overlay_def)

lemma part_nth: "take n (drop i buf) = w # ws \<Longrightarrow> i < length buf \<and> buf ! i = w \<and> 0 < n \<and> take (n - 1) (drop (Suc i) buf) = ws"
  by (cases "i < length buf"; cases n) (auto simp: Cons_nth_drop_Suc [symmetric])

lemma take_append_parts:
  assumes "take (a + b) xs = us @ vs" and "length us = a"
  shows "take a xs = us" and "take b (drop a xs) = vs"
proof -
  have "take a (take (a + b) xs) = us" "drop a (take (a + b) xs) = vs" using assms by simp_all
  then show "take a xs = us" "take b (drop a xs) = vs" by (simp_all add: drop_take)
qed

section \<open>Building an answer\<close>

definition at_words :: "nat \<Rightarrow> u32 list \<Rightarrow> kref option list \<Rightarrow> helper \<Rightarrow> helper" where
  "at_words i ws obs h = h\<lparr>help_index := i, help_context := (help_context h)
     \<lparr>cmd_buf := ws, request_handles := obs\<rparr>\<rparr>"

lemma Push_u32_at:
  "i < length ws \<Longrightarrow> Push_u32 v (at_words i ws obs h) = Some (at_words (Suc i) (ws[i := v]) obs h)"
  by (simp add: Push_u32_def at_words_def put_cmd_def put_word_def)

lemma Push_all_at:
  "i + length vs \<le> length ws \<Longrightarrow> Push_all vs (at_words i ws obs h) =
     Some (at_words (i + length vs) (overlay i vs ws) obs h)"
  by (induction vs arbitrary: i ws) (auto simp: Push_u32_at overlay_Cons)

lemma add_outgoing_at:
  "add_outgoing obs ctx = (map of_nat [length (request_handles ctx) ..< length (request_handles ctx) + length obs],
     ctx\<lparr>request_handles := request_handles ctx @ obs\<rparr>)"
  by (induction obs arbitrary: ctx) (simp_all add: AddOutgoingHandle_def Let_def upt_conv_Cons del: upt_Suc)

text \<open>Runs of objects, each moved or copied, and the words for them.\<close>

definition object_desc :: "bool \<Rightarrow> nat \<Rightarrow> u32" where
  "object_desc mv n = (if mv then MoveHandleDesc (of_nat n) else CopyHandleDesc (of_nat n))"

fun Push_objects :: "(bool \<times> kref option list) list \<Rightarrow> helper \<Rightarrow> helper run" where
  "Push_objects [] h = Some h"
| "Push_objects ((mv, obs) # obss) h = do {
     h \<leftarrow> (if mv then PushMoveObjects obs h else PushCopyObjects obs h);
     Push_objects obss h}"

fun ids_words :: "nat \<Rightarrow> (bool \<times> kref option list) list \<Rightarrow> u32 list" where
  "ids_words n [] = []"
| "ids_words n ((mv, obs) # obss) =
     (object_desc mv (length obs) # map of_nat [n ..< n + length obs]) @ ids_words (n + length obs) obss"

definition object_words :: "(bool \<times> 'a list) list \<Rightarrow> nat" where
  "object_words obss = sum_list (map (\<lambda>(mv, obs). 1 + length obs) obss)"

lemma length_ids_words [simp]: "length (ids_words n obss) = object_words obss"
  by (induction obss arbitrary: n) (auto simp: object_words_def)

lemma object_words_simps [simp]:
  "object_words [] = 0" "object_words ((mv, obs) # obss) = Suc (length obs) + object_words obss"
  by (simp_all add: object_words_def)

lemma Push_objects_one:
  "i + Suc (length new) \<le> length ws \<Longrightarrow>
   (if mv then PushMoveObjects new (at_words i ws obs h) else PushCopyObjects new (at_words i ws obs h)) =
     Some (at_words (i + Suc (length new))
       (overlay i (object_desc mv (length new) # map of_nat [length obs ..< length obs + length new]) ws) (obs @ new) h)"
proof -
  assume a: "i + Suc (length new) \<le> length ws"
  have ctx: "(at_words i ws obs h)\<lparr>help_context := (help_context (at_words i ws obs h))\<lparr>request_handles := obs @ new\<rparr>\<rparr> =
      at_words i ws (obs @ new) h" by (simp add: at_words_def)
  have rh: "request_handles (help_context (at_words i ws obs h)) = obs" by (simp add: at_words_def)
  show ?thesis
    using a by (simp add: PushMoveObjects_def PushCopyObjects_def add_outgoing_at Let_def rh ctx Push_u32_at
      Push_all_at object_desc_def overlay_Cons)
qed

lemma Push_objects_at:
  "i + object_words obss \<le> length ws \<Longrightarrow> Push_objects obss (at_words i ws obs h) =
     Some (at_words (i + object_words obss) (overlay i (ids_words (length obs) obss) ws)
       (obs @ concat (map snd obss)) h)"
proof (induction obss arbitrary: i ws obs)
  case (Cons x obss)
  obtain mv new where x: "x = (mv, new)" by (cases x)
  let ?d = "object_desc mv (length new) # map of_nat [length obs ..< length obs + length new]"
  have one: "(if mv then PushMoveObjects new (at_words i ws obs h) else PushCopyObjects new (at_words i ws obs h)) =
      Some (at_words (i + Suc (length new)) (overlay i ?d ws) (obs @ new) h)"
    using Cons.prems x by (intro Push_objects_one) simp
  have "overlay (i + length ?d) (ids_words (length (obs @ new)) obss) (overlay i ?d ws) =
      overlay i (?d @ ids_words (length (obs @ new)) obss) ws"
    using Cons.prems x by (intro overlay_append) simp
  then have sp: "overlay (Suc (i + length new)) (ids_words (length obs + length new) obss) (overlay i ?d ws) =
      overlay i (?d @ ids_words (length obs + length new) obss) ws" by simp
  show ?case
    using Cons.prems x one by (simp add: Cons.IH sp add.assoc del: append_Cons)
qed (simp add: at_words_def)

section \<open>The answer as the client gets it\<close>

definition names :: "kref handle_table \<Rightarrow> kref option \<Rightarrow> u32 \<Rightarrow> bool" where
  "names t ob h \<longleftrightarrow> (case ob of None \<Rightarrow> h = 0 | Some x \<Rightarrow> HandleTable_lookup t h = Some x)"

definition keeps_handles :: "kref handle_table \<Rightarrow> kref handle_table \<Rightarrow> bool" where
  "keeps_handles t t' \<longleftrightarrow> (\<forall>h x. HandleTable_lookup t h = Some x \<longrightarrow> HandleTable_lookup t' h = Some x)"

lemma names_keeps: "names t ob h \<Longrightarrow> keeps_handles t t' \<Longrightarrow> names t' ob h"
  by (simp add: names_def keeps_handles_def split: option.splits)

lemma keeps_handles_refl [simp]: "keeps_handles t t"
  by (simp add: keeps_handles_def)

lemma keeps_handles_trans: "keeps_handles t t' \<Longrightarrow> keeps_handles t' t'' \<Longrightarrow> keeps_handles t t''"
  by (simp add: keeps_handles_def)

definition objects_in :: "kref option list \<Rightarrow> nat" where
  "objects_in obs = length (filter (\<lambda>ob. ob \<noteq> None) obs)"

lemma objects_in_simps [simp]:
  "objects_in [] = 0" "objects_in (ob # obs) = (if ob = None then 0 else 1) + objects_in obs"
  "objects_in (obs @ obs') = objects_in obs + objects_in obs'"
  by (simp_all add: objects_in_def)

lemma create_names:
  assumes "HandleTable_wf t" and "objects_in [ob] \<le> card (empty_slots t)"
  shows "\<exists>h t'. (case ob of None \<Rightarrow> Some (0, k) | Some ob \<Rightarrow>
        (case HandleTable_Create t ob of Inl e \<Rightarrow> None | Inr (h, t) \<Rightarrow> Some (h, put_table dst t k))) =
      Some (h, if ob = None then k else put_table dst t' k) \<and>
    HandleTable_wf t' \<and> names t' ob h \<and> keeps_handles t t' \<and>
    card (empty_slots t) - objects_in [ob] \<le> card (empty_slots t') \<and> (ob = None \<longrightarrow> t' = t)"
proof (cases ob)
  case None
  then show ?thesis using assms by (auto simp: names_def)
next
  case (Some x)
  have e: "empty_slots t \<noteq> {}" using assms(2) Some by auto
  note C = Create_ok [OF assms(1) e, where ob = x]
  then show ?thesis using Some by (auto simp: names_def keeps_handles_def)
qed

lemma write_handles_at:
  fixes k :: "('s, 'g, 'o) sys"
  assumes "HandleTable_wf (table_of dst k)" and "objects_in obs \<le> card (empty_slots (table_of dst k))"
    and "take (length obs) (drop i (cmd_buf ctx)) = map of_nat [n ..< n + length obs]"
    and "take (length obs) (drop n (request_handles ctx)) = obs" and "length (request_handles ctx) < 2 ^ 32"
    and "i + length obs \<le> length buf"
  shows "\<exists>hs t. write_handles dst ctx (length obs) i buf k = Some (overlay i hs buf, put_table dst t k) \<and>
    HandleTable_wf t \<and> list_all2 (names t) obs hs \<and> keeps_handles (table_of dst k) t \<and>
    card (empty_slots (table_of dst k)) - objects_in obs \<le> card (empty_slots t)"
  using assms
proof (induction obs arbitrary: n i buf k)
  case Nil
  then show ?case by (intro exI [of _ "[]"] exI [of _ "table_of dst k"]) simp
next
  case (Cons ob obs)
  let ?t = "table_of dst k"
  have ids: "take (Suc (length obs)) (drop i (cmd_buf ctx)) = of_nat n # map of_nat [Suc n ..< Suc n + length obs]"
    using Cons.prems(3) by (simp add: upt_conv_Cons del: upt_Suc)
  note I = part_nth [OF ids, unfolded diff_Suc_1]
  have R: "n < length (request_handles ctx) \<and> request_handles ctx ! n = ob \<and>
      take (length obs) (drop (Suc n) (request_handles ctx)) = obs"
    using part_nth [of "Suc (length obs)" n "request_handles ctx" ob obs] Cons.prems(4) by simp
  then have n: "unat (of_nat n :: u32) = n" using Cons.prems(5) by (simp add: unat_of_nat)
  obtain h t where c: "(case ob of None \<Rightarrow> Some (0, k) | Some ob \<Rightarrow>
        (case HandleTable_Create ?t ob of Inl e \<Rightarrow> None | Inr (h, t) \<Rightarrow> Some (h, put_table dst t k))) =
      Some (h, if ob = None then k else put_table dst t k)"
    and t: "HandleTable_wf t" "names t ob h" "keeps_handles ?t t"
      "card (empty_slots ?t) - objects_in [ob] \<le> card (empty_slots t)" "ob = None \<longrightarrow> t = ?t"
    using create_names [OF Cons.prems(1), where ob = ob and k = k and dst = dst] Cons.prems(2) by auto
  have c': "(if ob = None then k else put_table dst t k) = put_table dst t k" using t(5) by simp
  have step: "write_handles dst ctx (Suc (length obs)) i buf k =
      write_handles dst ctx (length obs) (Suc i) (buf[i := h]) (put_table dst t k)"
    using I R n c [unfolded c'] Cons.prems(6)
    by (simp add: get_word_def GetIncomingHandle_def put_word_def)
  have "\<exists>hs t'. write_handles dst ctx (length obs) (Suc i) (buf[i := h]) (put_table dst t k) =
      Some (overlay (Suc i) hs (buf[i := h]), put_table dst t' (put_table dst t k)) \<and>
    HandleTable_wf t' \<and> list_all2 (names t') obs hs \<and> keeps_handles (table_of dst (put_table dst t k)) t' \<and>
    card (empty_slots (table_of dst (put_table dst t k))) - objects_in obs \<le> card (empty_slots t')"
    using Cons.prems t(1,4) I R by (intro Cons.IH [where n = "Suc n"]) (simp_all del: upt_Suc)
  then obtain hs t' where r: "write_handles dst ctx (length obs) (Suc i) (buf[i := h]) (put_table dst t k) =
      Some (overlay i (h # hs) buf, put_table dst t' k)"
    "HandleTable_wf t'" "list_all2 (names t') obs hs" "keeps_handles t t'"
    "card (empty_slots t) - objects_in obs \<le> card (empty_slots t')"
    using Cons.prems(6) by (auto simp: overlay_Cons)
  show ?case
    using step r t names_keeps [OF t(2) r(4)] keeps_handles_trans [OF t(3) r(4)]
    by (intro exI [of _ "h # hs"] exI [of _ t']) (simp del: write_handles.simps)
qed

lemma object_desc_type: "GetDescriptorType (object_desc mv n) = (if mv then MoveHandle else CopyHandle)"
  using handle_descriptor_type [of MoveHandle] handle_descriptor_type [of CopyHandle]
  by (simp add: object_desc_def MoveHandleDesc_def CopyHandleDesc_def)

lemma object_desc_number:
  assumes "0 < n" and "n \<le> 64"
  shows "unat (HandleNumberFromDesc (object_desc mv n)) = n"
proof -
  have "unat (of_nat n :: u32) = n" using assms by (simp add: unat_of_nat)
  then show ?thesis
    using handle_number [of "of_nat n" MoveHandle] handle_number [of "of_nat n" CopyHandle] assms
    by (cases mv) (simp_all add: object_desc_def MoveHandleDesc_def CopyHandleDesc_def)
qed

text \<open>The words of a run of objects: the descriptor and a handle for each.\<close>

fun shows_objects :: "kref handle_table \<Rightarrow> (bool \<times> kref option list) list \<Rightarrow> u32 list \<Rightarrow> bool" where
  "shows_objects t [] ws \<longleftrightarrow> ws = []"
| "shows_objects t ((mv, obs) # obss) ws \<longleftrightarrow> (\<exists>hs rest. ws = object_desc mv (length obs) # hs @ rest \<and>
     list_all2 (names t) obs hs \<and> shows_objects t obss rest)"

lemma write_loop_at:
  fixes k :: "('s, 'g, 'o) sys"
  assumes "HandleTable_wf (table_of dst k)" and "objects_in (concat (map snd obss)) \<le> card (empty_slots (table_of dst k))"
    and "take (object_words obss) (drop i (cmd_buf ctx)) = ids_words n obss"
    and "drop n (request_handles ctx) = concat (map snd obss)" and "length (request_handles ctx) < 2 ^ 32"
    and "i + object_words obss \<le> length buf" and "i + object_words obss = sz"
    and "\<forall>x \<in> set obss. 0 < length (snd x) \<and> length (snd x) \<le> 64" and "length obss \<le> fuel"
  shows "\<exists>ws t. write_loop menv dst ctx sz fuel i buf k = Some (overlay i ws buf, put_table dst t k) \<and>
    length ws = object_words obss \<and> HandleTable_wf t \<and> shows_objects t obss ws \<and> keeps_handles (table_of dst k) t"
  using assms
proof (induction obss arbitrary: n i buf k fuel)
  case Nil
  then show ?case by (intro exI [of _ "[]"] exI [of _ "table_of dst k"], cases fuel) simp_all
next
  case (Cons x obss)
  obtain mv obs where x: "x = (mv, obs)" by (cases x)
  obtain fuel' where fuel: "fuel = Suc fuel'" using Cons.prems(9) by (cases fuel) auto
  have len: "0 < length obs" "length obs \<le> 64" using Cons.prems(8) x by auto
  have w: "take (Suc (length obs + object_words obss)) (drop i (cmd_buf ctx)) =
      object_desc mv (length obs) # map of_nat [n ..< n + length obs] @ ids_words (n + length obs) obss"
    using Cons.prems(3) by (simp add: x)
  note D = part_nth [OF w, simplified]
  have "take (length obs + object_words obss) (drop (Suc i) (cmd_buf ctx)) =
      map of_nat [n ..< n + length obs] @ ids_words (n + length obs) obss" using D by simp
  from take_append_parts [OF this] have ids:
    "take (length obs) (drop (Suc i) (cmd_buf ctx)) = map of_nat [n ..< n + length obs]"
    "take (object_words obss) (drop (Suc i + length obs) (cmd_buf ctx)) = ids_words (n + length obs) obss"
    by (simp_all add: add.commute)
  have "drop n (request_handles ctx) = obs @ concat (map snd obss)" using Cons.prems(4) by (simp add: x)
  then have rh: "take (length obs) (drop n (request_handles ctx)) = obs"
    "drop (n + length obs) (request_handles ctx) = concat (map snd obss)"
    by (simp, metis append_eq_conv_conj drop_drop add.commute)
  let ?d = "object_desc mv (length obs)"
  have size: "Suc i + length obs \<le> length (buf[i := ?d])" using Cons.prems(6) by (simp add: x)
  obtain hs t where h: "write_handles dst ctx (length obs) (Suc i) (buf[i := ?d]) k =
      Some (overlay (Suc i) hs (buf[i := ?d]), put_table dst t k)"
    and t: "HandleTable_wf t" "list_all2 (names t) obs hs" "keeps_handles (table_of dst k) t"
      "card (empty_slots (table_of dst k)) - objects_in obs \<le> card (empty_slots t)"
    using write_handles_at [OF Cons.prems(1) _ ids(1) rh(1) Cons.prems(5) size] Cons.prems(2) by (auto simp: x)
  have hl: "length hs = length obs" using t(2) by (simp add: list_all2_lengthD)
  have sp: "overlay (Suc i) hs (buf[i := ?d]) = overlay i (?d # hs) buf"
    using Cons.prems(6) by (intro overlay_Cons) (simp add: x)
  have one: "write_one menv dst ctx sz i buf k =
      Some (Suc i + length obs, overlay i (?d # hs) buf, put_table dst t k)"
    using D h object_desc_type [of mv "length obs"] object_desc_number [OF len, of mv] Cons.prems(6,7)
    by (simp add: write_one_def get_word_def put_word_def Let_def sp x)
  have "\<exists>ws t'. write_loop menv dst ctx sz fuel' (Suc i + length obs) (overlay i (?d # hs) buf) (put_table dst t k) =
      Some (overlay (Suc i + length obs) ws (overlay i (?d # hs) buf), put_table dst t' (put_table dst t k)) \<and>
    length ws = object_words obss \<and> HandleTable_wf t' \<and> shows_objects t' obss ws \<and>
    keeps_handles (table_of dst (put_table dst t k)) t'"
    using Cons.prems t(1,4) fuel hl ids(2) rh(2) x
    by (intro Cons.IH [where n = "n + length obs"]) simp_all
  then obtain ws t' where r: "write_loop menv dst ctx sz fuel' (Suc i + length obs) (overlay i (?d # hs) buf) (put_table dst t k) =
      Some (overlay (Suc i + length obs) ws (overlay i (?d # hs) buf), put_table dst t' k)"
    "length ws = object_words obss" "HandleTable_wf t'" "shows_objects t' obss ws" "keeps_handles t t'"
    by auto
  have sp': "overlay (Suc i + length obs) ws (overlay i (?d # hs) buf) = overlay i ((?d # hs) @ ws) buf"
    using overlay_append [of i "?d # hs" ws buf] Cons.prems(6) hl r(2) by (simp add: x)
  have "list_all2 (names t') obs hs" using t(2) names_keeps [OF _ r(5)] by (rule list_all2_mono)
  then have "shows_objects t' (x # obss) ((?d # hs) @ ws)" using r(4) x by auto
  moreover have "write_loop menv dst ctx sz fuel i buf k = Some (overlay i ((?d # hs) @ ws) buf, put_table dst t' k)"
    using one r(1) Cons.prems(7) by (simp add: fuel x sp' [simplified])
  ultimately show ?case using r(2,3) keeps_handles_trans [OF t(3) r(5)] hl x
    by (intro exI [of _ "(?d # hs) @ ws"] exI [of _ t']) simp
qed

lemma RequestBuilder_at:
  "length (cmd_buf ctx) = 64 \<Longrightarrow> RequestBuilder header ctx =
     Some (at_words 1 ((cmd_buf ctx)[0 := header]) [] \<lparr>help_index = 1, help_header = header, help_context = ctx\<rparr>)"
  by (simp add: RequestBuilder_def ClearIncomingObjects_def put_cmd_def put_word_def at_words_def)

lemma finish_at:
  "finish (at_words i ws obs h) = (if i = 1 + unat (Header_normal_params_size (help_header h)) +
       unat (Header_translate_params_size (help_header h))
     then Some ((help_context h)\<lparr>cmd_buf := ws, request_handles := obs\<rparr>) else None)"
  by (simp add: finish_def ValidateHeader_def TotalSize_def at_words_def)

lemma build_answer:
  assumes ctx: "length (cmd_buf ctx) = 64" and n: "1 + length ws + object_words obss \<le> 64"
    and header: "header = MakeHeader c (of_nat (length ws)) (of_nat (object_words obss))"
  shows "do {h \<leftarrow> RequestBuilder header ctx; h \<leftarrow> Push_all ws h; h \<leftarrow> Push_objects obss h; finish h} =
    Some (ctx\<lparr>cmd_buf := overlay 0 (header # ws @ ids_words 0 obss) (cmd_buf ctx),
      request_handles := concat (map snd obss)\<rparr>)"
proof -
  have u: "unat (of_nat (length ws) :: u32) = length ws" "unat (of_nat (object_words obss) :: u32) = object_words obss"
    using n by (simp_all add: unat_of_nat)
  have total: "1 + unat (Header_normal_params_size header) + unat (Header_translate_params_size header) =
      1 + length ws + object_words obss"
    using MakeHeader_fields(2,3) [of "of_nat (length ws)" "of_nat (object_words obss)" c] n u header by simp
  have sp: "overlay (Suc (length ws)) (ids_words 0 obss) (overlay 1 ws ((cmd_buf ctx)[0 := header])) =
      overlay 0 (header # ws @ ids_words 0 obss) (cmd_buf ctx)"
    using overlay_append [of 1 ws "ids_words 0 obss" "(cmd_buf ctx)[0 := header]"] n ctx overlay_Cons [of 0 "cmd_buf ctx"]
    by simp
  show ?thesis
    using n ctx total
    by (simp add: RequestBuilder_at Push_all_at Push_objects_at finish_at sp [unfolded One_nat_def])
qed

lemma answer_written:
  fixes k :: "('s, 'g, 'o) sys"
  assumes ctx: "length (cmd_buf ctx) = 64" and n: "1 + length ws + object_words obss \<le> 64"
    and runs: "\<forall>x \<in> set obss. snd x \<noteq> []"
    and header: "header = MakeHeader c (of_nat (length ws)) (of_nat (object_words obss))"
    and table: "HandleTable_wf (table_of client k)"
      "objects_in (concat (map snd obss)) \<le> card (empty_slots (table_of client k))"
    and buf: "64 \<le> length buf"
  shows "\<exists>handles t. WriteToOutgoingCommandBuffer menv client (ctx\<lparr>cmd_buf := overlay 0 (header # ws @ ids_words 0 obss) (cmd_buf ctx),
        request_handles := concat (map snd obss)\<rparr>) buf k =
      Some ((header # ws @ handles) @ drop (1 + length ws + object_words obss) buf, put_table client t k) \<and>
    length handles = object_words obss \<and> shows_objects t obss handles \<and>
    HandleTable_wf t \<and> keeps_handles (table_of client k) t"
proof -
  let ?cmd = "overlay 0 (header # ws @ ids_words 0 obss) (cmd_buf ctx)"
  define ctx' where "ctx' = ctx\<lparr>cmd_buf := ?cmd, request_handles := concat (map snd obss)\<rparr>"
  have u: "unat (of_nat (length ws) :: u32) = length ws" "unat (of_nat (object_words obss) :: u32) = object_words obss"
    using n by (simp_all add: unat_of_nat)
  have words: "untranslated_words header = 1 + length ws" "command_words header = 1 + length ws + object_words obss"
    using MakeHeader_fields(2,3) [of "of_nat (length ws)" "of_nat (object_words obss)" c] n u header
    by (simp_all add: untranslated_words_def command_words_def)
  have cmd: "cmd_buf ctx' ! 0 = header" "0 < length (cmd_buf ctx')" "take (1 + length ws) (cmd_buf ctx') = header # ws"
    "take (object_words obss) (drop (1 + length ws) (cmd_buf ctx')) = ids_words 0 obss"
    using n ctx by (simp_all add: ctx'_def overlay_def)
  have small: "length (request_handles ctx') < 2 ^ 32" "length obss \<le> object_words obss"
    "\<forall>x \<in> set obss. 0 < length (snd x) \<and> length (snd x) \<le> 64"
  proof -
    have len: "length (concat (map snd obss)) \<le> object_words obss" "length obss \<le> object_words obss"
      "x \<in> set obss \<Longrightarrow> length (snd x) \<le> object_words obss" for x
      by (induction obss) auto
    show "length (request_handles ctx') < 2 ^ 32" using len(1) n by (simp add: ctx'_def)
    show "length obss \<le> object_words obss" by (rule len(2))
    show "\<forall>x \<in> set obss. 0 < length (snd x) \<and> length (snd x) \<le> 64" using len(3) n runs by fastforce
  qed
  define buf' where "buf' = (header # ws) @ drop (1 + length ws) buf"
  have len: "1 + length ws + object_words obss \<le> length buf'" using buf n by (simp add: buf'_def)
  obtain hs t where w: "write_loop menv client ctx' (1 + length ws + object_words obss) 64 (1 + length ws) buf' k =
      Some (overlay (1 + length ws) hs buf', put_table client t k)"
    "length hs = object_words obss" "HandleTable_wf t" "shows_objects t obss hs" "keeps_handles (table_of client k) t"
    using write_loop_at [where dst = client and k = k and obss = obss and n = 0 and fuel = 64, OF table cmd(4) _ small(1) len refl small(3), of menv]
      small(2) n by (auto simp: ctx'_def)
  have "overlay (1 + length ws) hs buf' = (header # ws @ hs) @ drop (1 + length ws + object_words obss) buf"
    using w(2) by (simp add: overlay_def buf'_def add.commute)
  moreover have "WriteToOutgoingCommandBuffer menv client ctx' buf k = Some (overlay (1 + length ws) hs buf', put_table client t k)"
    using w(1) cmd words n by (simp add: WriteToOutgoingCommandBuffer_def get_word_def Let_def buf'_def)
  ultimately show ?thesis
    using w(2-) unfolding ctx'_def by (intro exI [of _ hs] exI [of _ t]) simp
qed

text \<open>C6: what a service puts into an answer is what its client gets. Whatever words and runs of objects,
  copied or moved, are pushed, as long as they fit into a command buffer of 64 words and the client's
  handle table has room for the objects, the answer is built and written; the client finds the header,
  the words and, for each run, the descriptor and handles that name the objects in its table, 0 for
  none. Its other handles stay, and so does the rest of its buffer.\<close>

theorem answer_reaches_client:
  fixes k :: "('s, 'g, 'o) sys"
  assumes ctx: "length (cmd_buf ctx) = 64" and n: "1 + length ws + object_words obss \<le> 64"
    and runs: "\<forall>x \<in> set obss. snd x \<noteq> []"
    and header: "header = MakeHeader c (of_nat (length ws)) (of_nat (object_words obss))"
    and table: "HandleTable_wf (table_of client k)"
      "objects_in (concat (map snd obss)) \<le> card (empty_slots (table_of client k))"
    and buf: "64 \<le> length buf"
  shows "\<exists>ctx' handles t. do {h \<leftarrow> RequestBuilder header ctx; h \<leftarrow> Push_all ws h; h \<leftarrow> Push_objects obss h; finish h} = Some ctx' \<and>
    WriteToOutgoingCommandBuffer menv client ctx' buf k =
      Some ((header # ws @ handles) @ drop (1 + length ws + object_words obss) buf, put_table client t k) \<and>
    length handles = object_words obss \<and> shows_objects t obss handles \<and>
    HandleTable_wf t \<and> keeps_handles (table_of client k) t"
  using build_answer [OF ctx n header] answer_written [OF assms, of menv] by auto

section \<open>The request as the service gets it\<close>

text \<open>Runs of handles in a client's command buffer: descriptors, none of which moves a single handle,
  with their handles; and the objects they name, None when one names nothing.\<close>

type_synonym handle_runs = "(u32 \<times> u32 list) list"

definition run_ok :: "u32 \<times> u32 list \<Rightarrow> bool" where
  "run_ok x \<longleftrightarrow> (case x of (d, hs) \<Rightarrow> GetDescriptorType d \<in> {CopyHandle, MoveHandle} \<and> d \<noteq> MoveHandle \<and>
     unat (HandleNumberFromDesc d) = length hs)"

definition run_words :: "handle_runs \<Rightarrow> u32 list" where
  "run_words rs = concat (map (\<lambda>(d, hs). d # hs) rs)"

definition named :: "nat \<Rightarrow> ('s, 'g, 'o) sys \<Rightarrow> u32 \<Rightarrow> kref option option" where
  "named src k h = (if h = 0 then Some None else map_option Some (named_object src h k))"

definition named_runs :: "nat \<Rightarrow> ('s, 'g, 'o) sys \<Rightarrow> handle_runs \<Rightarrow> kref option list list option" where
  "named_runs src k rs = those (map (\<lambda>(d, hs). those (map (named src k) hs)) rs)"

fun run_ids :: "nat \<Rightarrow> handle_runs \<Rightarrow> u32 list" where
  "run_ids n [] = []"
| "run_ids n ((d, hs) # rs) = (d # map of_nat [n ..< n + length hs]) @ run_ids (n + length hs) rs"

lemma length_run_ids [simp]: "length (run_ids n rs) = length (run_words rs)"
  by (induction rs arbitrary: n) (auto simp: run_words_def)

lemma run_words_simps [simp]:
  "run_words [] = []" "run_words ((d, hs) # rs) = d # hs @ run_words rs"
  by (simp_all add: run_words_def)

lemma those_Some: "those xs = Some ys \<longleftrightarrow> xs = map Some ys"
proof (induction xs arbitrary: ys)
  case (Cons x xs)
  then show ?case by (cases x; cases ys) (auto split: option.splits)
qed auto

lemma length_those: "those xs = Some ys \<Longrightarrow> length ys = length xs"
  by (auto simp: those_Some)

text \<open>A context with other words and more objects.\<close>

definition with_words :: "u32 list \<Rightarrow> kref option list \<Rightarrow> request_context \<Rightarrow> request_context" where
  "with_words ws obs ctx = ctx\<lparr>cmd_buf := ws, request_handles := obs\<rparr>"

lemma with_words_sel [simp]:
  "cmd_buf (with_words ws obs ctx) = ws" "request_handles (with_words ws obs ctx) = obs"
  "with_words ws obs (with_words ws' obs' ctx) = with_words ws obs ctx"
  "with_words (cmd_buf ctx) (request_handles ctx) ctx = ctx"
  "put_cmd i w (with_words ws obs ctx) = map_option (\<lambda>ws. with_words ws obs ctx) (put_word ws i w)"
  "AddOutgoingHandle ob (with_words ws obs ctx) = (of_nat (length obs), with_words ws (obs @ [ob]) ctx)"
  by (cases "put_word ws i w"; simp add: with_words_def put_cmd_def AddOutgoingHandle_def)+

lemma incoming_named:
  "d \<noteq> MoveHandle \<Longrightarrow> incoming_object src d h k = map_option (\<lambda>ob. (ob, k)) (named src k h)"
  by (cases "named_object src h k") (simp_all add: incoming_object_def named_def)

lemma populate_handles_at:
  assumes "d \<noteq> MoveHandle" and "take (length hs) (drop i src_cmdbuf) = hs" and "i + length hs \<le> length ws"
  shows "populate_handles src d src_cmdbuf (length hs) i (with_words ws obs ctx) k =
    map_option (\<lambda>new. (with_words (overlay i (map of_nat [length obs ..< length obs + length hs]) ws) (obs @ new) ctx, k))
      (those (map (named src k) hs))"
  using assms
proof (induction hs arbitrary: i ws obs)
  case (Cons h hs)
  have "take (Suc (length hs)) (drop i src_cmdbuf) = h # hs" using Cons.prems(2) by simp
  note H = part_nth [OF this, unfolded diff_Suc_1]
  show ?case
  proof (cases "named src k h")
    case None
    then show ?thesis using H Cons.prems(1) by (simp add: get_word_def incoming_named)
  next
    case (Some ob)
    have "populate_handles src d src_cmdbuf (length hs) (Suc i) (with_words (ws[i := of_nat (length obs)]) (obs @ [ob]) ctx) k =
        map_option (\<lambda>new. (with_words (overlay (Suc i) (map of_nat [length (obs @ [ob]) ..< length (obs @ [ob]) + length hs])
          (ws[i := of_nat (length obs)])) ((obs @ [ob]) @ new) ctx, k)) (those (map (named src k) hs))"
      using H Cons.prems by (intro Cons.IH) simp_all
    then show ?thesis
      using H Cons.prems Some
      by (simp add: get_word_def incoming_named put_word_def overlay_Cons upt_conv_Cons option.map_comp comp_def
        del: upt_Suc)
  qed
qed simp

lemma populate_loop_at:
  assumes "\<forall>x \<in> set rs. run_ok x" and "take (length (run_words rs)) (drop i src_cmdbuf) = run_words rs"
    and "i + length (run_words rs) \<le> length ws" and "i + length (run_words rs) = sz" and "length rs \<le> fuel"
  shows "populate_loop menv src src_cmdbuf sz fuel i (with_words ws obs ctx) k =
    map_option (\<lambda>new. (with_words (overlay i (run_ids (length obs) rs) ws) (obs @ concat new) ctx, k)) (named_runs src k rs)"
  using assms
proof (induction rs arbitrary: i ws obs fuel)
  case Nil
  then show ?case by (cases fuel) (simp_all add: named_runs_def)
next
  case (Cons x rs)
  obtain d hs where x: "x = (d, hs)" by (cases x)
  obtain fuel' where fuel: "fuel = Suc fuel'" using Cons.prems(5) by (cases fuel) auto
  have ok: "GetDescriptorType d = CopyHandle \<or> GetDescriptorType d = MoveHandle" "d \<noteq> MoveHandle"
    "unat (HandleNumberFromDesc d) = length hs" using Cons.prems(1) by (auto simp: run_ok_def x)
  have w: "take (Suc (length hs + length (run_words rs))) (drop i src_cmdbuf) = d # hs @ run_words rs"
    using Cons.prems(2) by (simp add: x)
  note D = part_nth [OF w, unfolded diff_Suc_1]
  then have "take (length hs + length (run_words rs)) (drop (Suc i) src_cmdbuf) = hs @ run_words rs" by simp
  note P = take_append_parts [OF this refl]
  let ?ids = "map of_nat [length obs ..< length obs + length hs] :: u32 list"
  have size: "Suc i + length hs \<le> length (ws[i := d])" using Cons.prems(3) by (simp add: x)
  have sp: "overlay (Suc i) ?ids (ws[i := d]) = overlay i (d # ?ids) ws"
    using Cons.prems(3) by (intro overlay_Cons) (simp add: x)
  have one: "populate_one menv src src_cmdbuf sz i (with_words ws obs ctx) k =
      map_option (\<lambda>new. (Suc i + length hs, with_words (overlay i (d # ?ids) ws) (obs @ new) ctx, k)) (those (map (named src k) hs))"
    using D ok Cons.prems(3,4) populate_handles_at [OF ok(2) P(1) size, of src obs ctx k]
    by (auto simp: populate_one_def get_word_def put_word_def Let_def sp x option.map_comp comp_def map_conv_bind_option)
  have go: "populate_loop menv src src_cmdbuf sz fuel i (with_words ws obs ctx) k =
      Option.bind (those (map (named src k) hs)) (\<lambda>new. populate_loop menv src src_cmdbuf sz fuel' (Suc i + length hs)
        (with_words (overlay i (d # ?ids) ws) (obs @ new) ctx) k)"
    using one Cons.prems(4) by (simp add: fuel x map_conv_bind_option)
  show ?case
  proof (cases "those (map (named src k) hs)")
    case None
    then show ?thesis using go by (simp add: named_runs_def x)
  next
    case (Some new)
    then have n: "length new = length hs" using length_those by fastforce
    let ?ws = "overlay i (d # ?ids) ws"
    have "populate_loop menv src src_cmdbuf sz fuel' (Suc i + length hs) (with_words ?ws (obs @ new) ctx) k =
        map_option (\<lambda>new'. (with_words (overlay (Suc i + length hs) (run_ids (length (obs @ new)) rs) ?ws)
          ((obs @ new) @ concat new') ctx, k)) (named_runs src k rs)"
      using Cons.prems P(2) fuel x by (intro Cons.IH) (simp_all add: add.commute)
    moreover have "overlay (Suc i + length hs) (run_ids (length obs + length hs) rs) ?ws =
        overlay i ((d # ?ids) @ run_ids (length obs + length hs) rs) ws"
      using overlay_append [of i "d # ?ids" "run_ids (length obs + length hs) rs" ws] Cons.prems(3) by (simp add: x)
    ultimately show ?thesis
      using go Some n by (cases "named_runs src k rs") (simp_all add: named_runs_def x)
  qed
qed

fun Pop_objects :: "nat list \<Rightarrow> helper \<Rightarrow> (kref option list list \<times> helper) run" where
  "Pop_objects [] h = Some ([], h)"
| "Pop_objects (n # ns) h = do {
     (obs, h) \<leftarrow> PopGenericObjects n h;
     (obss, h) \<leftarrow> Pop_objects ns h;
     Some (obs # obss, h)}"

lemma Pop_words_at:
  "take n (drop (help_index h) (cmd_buf (help_context h))) = vs \<Longrightarrow> length vs = n \<Longrightarrow>
     Pop_words n h = Some (vs, h\<lparr>help_index := help_index h + n\<rparr>)"
proof (induction n arbitrary: h vs)
  case (Suc n)
  obtain v vs' where vs: "vs = v # vs'" using Suc.prems(2) by (cases vs) auto
  note D = part_nth [OF Suc.prems(1) [unfolded vs], unfolded diff_Suc_1]
  have "Pop_words n (h\<lparr>help_index := Suc (help_index h)\<rparr>) = Some (vs', h\<lparr>help_index := Suc (help_index h) + n\<rparr>)"
    using Suc.IH [of "h\<lparr>help_index := Suc (help_index h)\<rparr>" vs'] D Suc.prems(2) vs by simp
  then show ?case using D by (simp add: Pop_u32_def get_word_def vs)
qed simp

lemma incoming_objects_at:
  "n + m \<le> length (request_handles ctx) \<Longrightarrow> length (request_handles ctx) < 2 ^ 32 \<Longrightarrow>
     incoming_objects (map of_nat [n ..< n + m]) ctx = Some (take m (drop n (request_handles ctx)))"
proof (induction m arbitrary: n)
  case (Suc m)
  then have "incoming_objects (map of_nat [Suc n ..< Suc n + m]) ctx = Some (take m (drop (Suc n) (request_handles ctx)))"
    by (intro Suc.IH) simp_all
  moreover have "unat (of_nat n :: u32) = n" using Suc.prems by (simp add: unat_of_nat)
  ultimately show ?case
    using Suc.prems by (simp add: upt_conv_Cons GetIncomingHandle_def Cons_nth_drop_Suc [symmetric] del: upt_Suc)
qed simp

lemma handle_type:
  "GetDescriptorType d = CopyHandle \<or> GetDescriptorType d = MoveHandle \<Longrightarrow> IsHandleDescriptor d"
  by (auto simp: GetDescriptorType_def split: if_splits)

lemma Pop_objects_at:
  assumes "\<forall>x \<in> set rs. run_ok x"
    and "take (length (run_words rs)) (drop (help_index h) (cmd_buf (help_context h))) = run_ids n rs"
    and "drop n (request_handles (help_context h)) = concat obss" and "map length obss = map (length \<circ> snd) rs"
    and "length (request_handles (help_context h)) < 2 ^ 32" and "n \<le> length (request_handles (help_context h))"
  shows "Pop_objects (map (length \<circ> snd) rs) h =
    Some (obss, h\<lparr>help_index := help_index h + length (run_words rs)\<rparr>)"
  using assms
proof (induction rs arbitrary: h n obss)
  case (Cons x rs)
  obtain d hs where x: "x = (d, hs)" by (cases x)
  obtain obs obss' where o: "obss = obs # obss'" "length obs = length hs" "map length obss' = map (length \<circ> snd) rs"
    using Cons.prems(4) x by (cases obss) auto
  have ok: "IsHandleDescriptor d" "unat (HandleNumberFromDesc d) = length hs"
    using Cons.prems(1) handle_type [of d] by (auto simp: run_ok_def x)
  let ?i = "help_index h" and ?cmd = "cmd_buf (help_context h)" and ?rh = "request_handles (help_context h)"
  have w: "take (Suc (length hs + length (run_words rs))) (drop ?i ?cmd) =
      d # map of_nat [n ..< n + length hs] @ run_ids (n + length hs) rs"
    using Cons.prems(2) by (simp add: x)
  note D = part_nth [OF w, unfolded diff_Suc_1]
  then have "take (length hs + length (run_words rs)) (drop (Suc ?i) ?cmd) =
      map of_nat [n ..< n + length hs] @ run_ids (n + length hs) rs" by simp
  from take_append_parts [OF this] have P: "take (length hs) (drop (Suc ?i) ?cmd) = map of_nat [n ..< n + length hs]"
    "take (length (run_words rs)) (drop (length hs) (drop (Suc ?i) ?cmd)) = run_ids (n + length hs) rs" by simp_all
  have rh: "drop n ?rh = obs @ concat obss'" using Cons.prems(3) o by simp
  then have len: "length ?rh - n = length hs + length (concat obss')" using o(2) by (metis length_append length_drop)
  have rh': "take (length hs) (drop n ?rh) = obs" "drop (n + length hs) ?rh = concat obss'"
    using rh o(2) by (simp, metis add.commute append_eq_conv_conj drop_drop)
  let ?h = "h\<lparr>help_index := Suc ?i + length hs\<rparr>"
  have "Pop_words (length hs) (h\<lparr>help_index := Suc ?i\<rparr>) = Some (map of_nat [n ..< n + length hs], ?h)"
    using Pop_words_at [of "length hs" "h\<lparr>help_index := Suc ?i\<rparr>"] P(1) by simp
  moreover have "incoming_objects (map of_nat [n ..< n + length hs]) (help_context ?h) = Some obs"
    using incoming_objects_at [of n "length hs" "help_context h"] len Cons.prems(5,6) rh'(1) by simp
  ultimately have one: "PopGenericObjects (length hs) h = Some (obs, ?h)"
    using D ok by (simp add: PopGenericObjects_def PopHLEHandles_def Pop_u32_def get_word_def)
  have "Pop_objects (map (length \<circ> snd) rs) ?h = Some (obss', ?h\<lparr>help_index := help_index ?h + length (run_words rs)\<rparr>)"
    using Cons.prems P(2) rh'(2) o(3) len by (intro Cons.IH [where n = "n + length hs"]) (simp_all add: add.commute)
  then show ?case using one by (simp add: x o(1) add.assoc comp_def)
qed simp

lemma named_runs_lengths: "named_runs src k rs = Some obss \<Longrightarrow> map length obss = map (length \<circ> snd) rs"
proof (induction rs arbitrary: obss)
  case (Cons x rs)
  then show ?case by (cases x) (auto simp: named_runs_def those_Some split: option.splits dest: map_eq_imp_length_eq [symmetric])
qed (simp add: named_runs_def)


section \<open>The messages at concrete inputs\<close>

lemma answer_reaches_client_witness:
  "\<exists>ctx' reply t. do {h \<leftarrow> RequestBuilder (MakeHeader 5 1 2) (new_context (replicate 64 7) 3 4);
      h \<leftarrow> Push_all [0] h; h \<leftarrow> Push_objects [(True, [Some (HClientSession 9)])] h; finish h} = Some ctx' \<and>
    WriteToOutgoingCommandBuffer example_env 1 ctx' (replicate 96 0) (example_sys HandleTable_new HandleTable_new) =
      Some (reply, put_table 1 t (example_sys HandleTable_new HandleTable_new)) \<and>
    reply ! 0 = MakeHeader 5 1 2 \<and> HandleTable_lookup t (reply ! 3) = Some (HClientSession 9)"
proof -
  let ?k = "example_sys HandleTable_new HandleTable_new" and ?obss = "[(True, [Some (HClientSession 9)])]"
  have tb: "table_of 1 ?k = HandleTable_new" by (simp add: table_of_def example_sys_def)
  have "\<exists>ctx' handles t. do {h \<leftarrow> RequestBuilder (MakeHeader 5 1 2) (new_context (replicate 64 7) 3 4);
      h \<leftarrow> Push_all [0] h; h \<leftarrow> Push_objects ?obss h; finish h} = Some ctx' \<and>
    WriteToOutgoingCommandBuffer example_env 1 ctx' (replicate 96 0) ?k =
      Some ((MakeHeader 5 1 2 # [0] @ handles) @ drop (1 + length [0 :: u32] + object_words ?obss) (replicate 96 0),
        put_table 1 t ?k) \<and>
    length handles = object_words ?obss \<and> shows_objects t ?obss handles \<and>
    HandleTable_wf t \<and> keeps_handles (table_of 1 ?k) t"
    by (rule answer_reaches_client)
      (simp_all add: tb [unfolded One_nat_def] wf_new new_table_room new_context_def)
  then obtain ctx' handles t where r: "do {h \<leftarrow> RequestBuilder (MakeHeader 5 1 2) (new_context (replicate 64 7) 3 4);
      h \<leftarrow> Push_all [0] h; h \<leftarrow> Push_objects ?obss h; finish h} = Some ctx'"
    "WriteToOutgoingCommandBuffer example_env 1 ctx' (replicate 96 0) ?k =
      Some ((MakeHeader 5 1 2 # [0] @ handles) @ drop (1 + length [0 :: u32] + object_words ?obss) (replicate 96 0),
        put_table 1 t ?k)" "shows_objects t ?obss handles" by blast
  then show ?thesis
    by (intro exI [of _ ctx'] exI [of _ "(MakeHeader 5 1 2 # [0] @ handles) @
        drop (1 + length [0 :: u32] + object_words ?obss) (replicate 96 0)"] exI [of _ t])
      (auto simp: list_all2_Cons1 names_def)
qed


end
