(* ===== verification/ServiceProofs.thy ===== *)
theory ServiceProofs
  imports RequestProofs KernelProperties
begin

text \<open>A client that asks \<open>srv:\<close> for a service that is not there yet sleeps until the service registers,
  and is then given a session to it; but of several that wait for the same service only the last is
  remembered.\<close>

section \<open>Requests to srv:\<close>

lemma from_le_less: "from_le bs < 256 ^ length bs"
proof (induction bs)
  case (Cons b bs)
  have "unat b < 2 ^ LENGTH(8)" by (rule unsigned_less)
  then have "unat b < 256" by simp
  then show ?case using Cons by simp
qed simp

lemma to_le_from_le: "to_le (length bs) (from_le bs) = bs"
proof (induction bs)
  case (Cons b bs)
  have "unat b < 2 ^ LENGTH(8)" by (rule unsigned_less)
  then have "unat b < 256" by simp
  moreover have "(256 :: u8) = 0" by simp
  then have "(of_nat (unat b + 256 * from_le bs) :: u8) = b" by (simp only: of_nat_add of_nat_mult of_nat_numeral) simp
  ultimately show ?case using Cons by (simp add: div_add1_eq)
qed simp

lemma bytes_of_words: "length bs = 4 * n \<Longrightarrow> bytes_of (words_of n bs) = bs"
proof (induction n arbitrary: bs)
  case (Suc n)
  have four: "length (take 4 bs) = 4" using Suc.prems by simp
  then have "from_le (take 4 bs) < 2 ^ 32" using from_le_less [of "take 4 bs"] by simp
  then have "unat (of_nat (from_le (take 4 bs)) :: u32) = from_le (take 4 bs)" by (simp add: unat_of_nat)
  then have "to_le 4 (unat (of_nat (from_le (take 4 bs)) :: u32)) = take 4 bs"
    using to_le_from_le [of "take 4 bs"] four by simp
  moreover have "bytes_of (words_of n (drop 4 bs)) = drop 4 bs" using Suc.prems by (intro Suc.IH) simp
  ultimately show ?case by (simp add: bytes_of_def)
qed (simp add: bytes_of_def)

lemma length_to_le [simp]: "length (to_le n x) = n"
  by (induction n arbitrary: x) auto

lemma length_bytes_of [simp]: "length (bytes_of ws) = 4 * length ws"
  by (induction ws) (auto simp: bytes_of_def)

lemma bytes_of_append: "bytes_of (us @ vs) = bytes_of us @ bytes_of vs"
  by (simp add: bytes_of_def)

lemma length_words_of [simp]: "length (words_of n bs) = n"
  by (induction n arbitrary: bs) auto

text \<open>The words of a request that names a service: eight bytes, a length and one more word.\<close>

definition names_service :: "request_context \<Rightarrow> u32 \<Rightarrow> bytes \<Rightarrow> u32 \<Rightarrow> u32 \<Rightarrow> bool" where
  "names_service ctx header buf len word \<longleftrightarrow> length buf = 8 \<and> length (cmd_buf ctx) = 64 \<and>
     Header_normal_params_size header = 4 \<and> Header_translate_params_size header = 0 \<and>
     take 5 (cmd_buf ctx) = header # words_of 2 buf @ [len, word]"

definition parsed :: "u32 \<Rightarrow> request_context \<Rightarrow> helper" where
  "parsed header ctx = \<lparr>help_index = 5, help_header = header, help_context = ctx\<rparr>"

lemma service_request:
  assumes "names_service ctx header buf len word"
  shows "do {rp \<leftarrow> RequestParser ctx; (name_buf, rp) \<leftarrow> PopRaw 8 rp; (name_len, rp) \<leftarrow> Pop_u32 rp;
      (w, rp) \<leftarrow> Pop_u32 rp; f name_buf name_len w rp} = f buf len word (parsed header ctx)"
proof -
  have a: "length buf = 8" "length (cmd_buf ctx) = 64" using assms by (simp_all add: names_service_def)
  have cmd: "cmd_buf ctx = header # words_of 2 buf @ [len, word] @ drop 5 (cmd_buf ctx)"
    using assms append_take_drop_id [of 5 "cmd_buf ctx"] by (simp add: names_service_def)
  obtain x y where xy: "words_of 2 buf = [x, y]" by (simp add: numeral_2_eq_2)
  have w: "cmd_buf ctx ! 0 = header" "cmd_buf ctx ! Suc (Suc (Suc 0)) = len" "cmd_buf ctx ! Suc (Suc (Suc (Suc 0))) = word"
    by (subst cmd, simp add: xy)+
  have "bytes_of (cmd_buf ctx) = to_le 4 (unat header) @ buf @ bytes_of ([len, word] @ drop 5 (cmd_buf ctx))"
    by (subst cmd) (simp add: bytes_of_words a bytes_of_append bytes_of_def [of "_ # _"] flip: bytes_of_def)
  then have raw: "take 8 (drop 4 (bytes_of (cmd_buf ctx))) = buf" using a(1) by simp
  have five: "5 = Suc (Suc (Suc (Suc (Suc 0))))" by simp
  show ?thesis
    using w raw a(2)
    by (simp add: RequestParser_def PopRaw_def Pop_u32_def get_word_def Let_def parsed_def five)
qed

section \<open>Asking for a service that is not there\<close>

text \<open>A client that sleeps on an event until it is given a service.\<close>

definition asleep_for :: "('s, 'g) srv_host \<Rightarrow> nat \<Rightarrow> nat \<Rightarrow> bytes \<Rightarrow> bool" where
  "asleep_for k t ev name \<longleftrightarrow>
     (\<exists>th. threads k t = Some th \<and> status th = WaitHleEvent \<and> wait_objects th = [RObj ev] \<and>
       wakeup_callback th = Some (OtherCallback 1)) \<and>
     waiting_threads k (RObj ev) = [t] \<and>
     sync_objects k ev = Some (KEvent \<lparr>event_reset_type = OneShot, event_signaled = False\<rparr>) \<and>
     sleep_callbacks (services (outside k)) t = Some name"

definition valid_name :: "bytes \<Rightarrow> bool" where
  "valid_name name \<longleftrightarrow> 0 < length name \<and> length name \<le> 8 \<and> 0 \<notin> set name"

lemma valid_name_result: "valid_name name \<Longrightarrow> \<not> Result_IsError (ValidateServiceName name)"
  by (auto simp: valid_name_def ValidateServiceName_def Result_IsError_def ResultSuccess_def)

lemma not_registered:
  "valid_name name \<Longrightarrow> registered_services (srv_of k) name = None \<Longrightarrow>
     GetServicePort name k = Inl ResultServiceNotRegistered"
  by (simp add: GetServicePort_def valid_name_result)

lemma SleepClientThread_forever:
  assumes "threads k (request_thread ctx) = Some th" and "waiting_threads k (RObj ev) = []"
  shows "SleepClientThread ev (-1) (Some name) ctx k = Some (k
    \<lparr>threads := (threads k)(request_thread ctx \<mapsto>
       th\<lparr>wakeup_callback := Some (OtherCallback 1), status := WaitHleEvent, wait_objects := [RObj ev]\<rparr>),
     sync_objects := (sync_objects k)(ev \<mapsto> KEvent \<lparr>event_reset_type = OneShot, event_signaled = False\<rparr>),
     waiting_threads := (waiting_threads k)(RObj ev := [request_thread ctx]),
     outside := (outside k)\<lparr>services := (services (outside k))
       \<lparr>sleep_callbacks := (sleep_callbacks (services (outside k)))(request_thread ctx \<mapsto> name)\<rparr>\<rparr>\<rparr>)"
  using assms
  by (cases k) (simp add: SleepClientThread_def Let_def upd_hosted_def upd_thread_def CreateEvent_def set_object_def
    AddWaitingThread_def set_waiting_def is_mutex_def)

text \<open>C33: a client that asks for a service that has not registered, and does not refuse to wait, sleeps
  without a timeout on an event under the service's name. Another client that waits for the same service
  is forgotten by this: it still sleeps, but under no name is its event known any more, so that no
  registration will ever signal it.\<close>

theorem second_waiter_forgets_first:
  fixes k :: "('s, 'g) srv_host"
  assumes req: "names_service ctx header buf len flags" and flags: "flags AND 1 = 0"
    and name: "unat len \<le> 8" "name = take (unat len) buf" "valid_name name" "registered_services (srv_of k) name = None"
    and thread: "threads k (request_thread ctx) = Some th" "waiting_threads k (RObj ev) = []"
    and first: "asleep_for k t1 ev1 name" "t1 \<noteq> request_thread ctx" "get_service_handle_delayed_map (srv_of k) name = Some ev1"
      "\<forall>n. n \<noteq> name \<longrightarrow> get_service_handle_delayed_map (srv_of k) n \<noteq> Some ev1"
  shows "\<exists>k'. SRV_GetServiceHandle connect ev ctx k = Some (ctx, k') \<and>
    asleep_for k' (request_thread ctx) ev name \<and> get_service_handle_delayed_map (srv_of k') name = Some ev \<and>
    timing_of k' = timing_of k \<and>
    asleep_for k' t1 ev1 name \<and> (\<forall>n. get_service_handle_delayed_map (srv_of k') n \<noteq> Some ev1)"
proof -
  let ?t = "request_thread ctx"
  note wait = SleepClientThread_forever [OF thread, of name]
  have "SRV_GetServiceHandle connect ev ctx k = map_option
      (\<lambda>k. (ctx, upd_srv (\<lambda>s. s\<lparr>get_service_handle_delayed_map := (get_service_handle_delayed_map s)(name \<mapsto> ev)\<rparr>) k))
      (SleepClientThread ev (- 1) (Some name) ctx k)"
    unfolding SRV_GetServiceHandle_def service_request [OF req]
    using name flags not_registered [OF name(3,4)] by (simp add: Let_def map_conv_bind_option comp_def)
  moreover have "ev1 \<noteq> ev" using first(1) thread(2) by (auto simp: asleep_for_def)
  ultimately show ?thesis
    using first by (auto simp: wait asleep_for_def upd_srv_def upd_hosted_def srv_of_def)
qed

section \<open>A service that registers\<close>

text \<open>The first connection to a new port.\<close>

lemma connect_new_port:
  assumes "client_ports k c = Some \<lparr>cp_server_port = b, max_sessions = maximum, active_sessions = 0\<rparr>" and "0 < maximum"
    and "sync_objects k b = Some (KServerPort \<lparr>pending_sessions = [], port_handler = None\<rparr>)"
    and "waiting_threads k (RObj b) = []" and "s \<noteq> b" and "hle_notifier env = (\<lambda>_. Some)"
  shows "ClientPort_Connect env hle (s, cs, pa) c k = Some (Inr cs, k
    \<lparr>client_ports := (client_ports k)(c \<mapsto> \<lparr>cp_server_port = b, max_sessions = maximum, active_sessions = 1\<rparr>),
     sync_objects := (sync_objects k)(s \<mapsto> KServerSession \<lparr>session_parent = pa, session_handler = None,
         pending_requesting_threads = [], currently_handling = None\<rparr>,
       b \<mapsto> KServerPort \<lparr>pending_sessions = [s], port_handler = None\<rparr>),
     sessions := (sessions k)(pa \<mapsto> \<lparr>session_client = Some cs, session_server = Some s, session_port = Some c\<rparr>),
     client_sessions := (client_sessions k)(cs \<mapsto> pa),
     outside := (outside k)\<lparr>mapped_buffer_context := (mapped_buffer_context (outside k))(s := [])\<rparr>\<rparr>)"
proof -
  have stop: "wakeup_loop env (RObj b) k' = Some k'" if "waiting_threads k' (RObj b) = []" for k' :: "('a, 'b, 'c world) kernel"
    using that by (intro wakeup_loop_stop) (simp add: GetHighestPriorityReadyThread_def)
  show ?thesis
    using assms by (cases k) (simp add: ClientPort_Connect_def Let_def CreateSessionPair_def set_object_def set_session_def
      server_port_of_def WakeupAllWaitingThreads_def stop end_pulse_def)
qed

text \<open>The answer that \<open>srv:\<close> gives with a session.\<close>

definition session_context :: "u32 \<Rightarrow> nat \<Rightarrow> request_context \<Rightarrow> request_context" where
  "session_context header cs ctx = ctx\<lparr>cmd_buf := overlay 0 (header # [0] @ ids_words 0 [(True, [Some (HClientSession cs)])]) (cmd_buf ctx),
     request_handles := [Some (HClientSession cs)]\<rparr>"

lemma build_object_answer:
  assumes "length (cmd_buf ctx) = 64"
  shows "do {rb \<leftarrow> RequestBuilder (MakeHeader i 1 2) ctx; rb \<leftarrow> Push_Result ResultSuccess rb;
      rb \<leftarrow> PushMoveObjects [ob] rb; finish rb} =
    Some (ctx\<lparr>cmd_buf := overlay 0 (MakeHeader i 1 2 # [0] @ ids_words 0 [(True, [ob])]) (cmd_buf ctx), request_handles := [ob]\<rparr>)"
  using build_answer [OF assms, of "[0]" "[(True, [ob])]" "MakeHeader i 1 2" i]
  by (simp add: Push_Result_def ResultSuccess_def)

lemma WakeUp_session:
  assumes "length (cmd_buf ctx) = 64" and "GetServicePort name k = Inr c" and "connect c k = Some (Inr cs, k')"
  shows "SRV_WakeUp connect name t ctx reason k = Some (session_context (MakeHeader 5 1 2) cs ctx, k')"
proof -
  have "Option.bind (RequestBuilder (MakeHeader 0x5 1 2) ctx) (\<lambda>rb. session_answer cs rb) =
      Some (session_context (MakeHeader 5 1 2) cs ctx)"
    using build_object_answer [OF assms(1), of 5 "Some (HClientSession cs)"]
    by (simp add: session_answer_def session_context_def)
  then show ?thesis using assms(2,3) by (simp add: SRV_WakeUp_def flip: bind_assoc)
qed

text \<open>The callback writes the answer into the client's command buffer.\<close>

lemma callback_writes:
  fixes k :: "('s, 'g, 'c, 'o) host"
  assumes t: "threads k t = Some th" "status th = WaitHleEvent" "requests (services (outside k)) t = Some ctx"
      "sleep_callbacks (services (outside k)) t = Some cb"
    and call: "callback cb t ctx reason k = Some (session_context (MakeHeader 5 1 2) cs ctx, k1)"
    and ctx: "length (cmd_buf ctx) = 64"
    and t1: "threads k1 t = Some th" "owner_process th = Some i" "processes k1 i = Some p"
    and pages: "plain_pages (vm_page_table (vm_of p)) (unat (GetCommandBufferAddress th)) 384"
      "inj_on (host_of (vm_page_table (vm_of p))) {unat (GetCommandBufferAddress th)..<unat (GetCommandBufferAddress th) + 384}"
    and table: "HandleTable_wf (table_of i k1)" "empty_slots (table_of i k1) \<noteq> {}"
  shows "\<exists>h tb m ws. ThreadCallback_WakeUp menv callback reason t ob k =
      Some (put_request t (session_context (MakeHeader 5 1 2) cs ctx) (put_machine m (put_table i tb k1))) \<and>
    HandleTable_lookup tb h = Some (HClientSession cs) \<and>
    seen (vm_page_table (vm_of p)) (host_mem m) (unat (GetCommandBufferAddress th)) 384 =
      bytes_of ([MakeHeader 5 1 2, 0, MoveHandleDesc 1, h] @ ws)"
proof -
  let ?a = "GetCommandBufferAddress th" and ?pt = "vm_page_table (vm_of p)" and ?obss = "[(True, [Some (HClientSession cs)])]"
  let ?old = "words_of 96 (seen ?pt (host_mem (km_machine (kernel_memory k1))) (unat ?a) 384)"
  have four: "1 + length [0 :: u32] + object_words ?obss = 4" and runs: "concat (map snd ?obss) = [Some (HClientSession cs)]"
    by simp_all
  have room: "objects_in (concat (map snd ?obss)) \<le> card (empty_slots (table_of i k1))"
    using table(2) by (simp add: Suc_le_eq card_gt_0_iff empty_slots_def)
  have "\<exists>handles tb. WriteToOutgoingCommandBuffer menv i (ctx\<lparr>cmd_buf := overlay 0 (MakeHeader 5 1 2 # [0] @ ids_words 0 ?obss) (cmd_buf ctx),
        request_handles := concat (map snd ?obss)\<rparr>) ?old k1 =
      Some ((MakeHeader 5 1 2 # [0] @ handles) @ drop (1 + length [0 :: u32] + object_words ?obss) ?old, put_table i tb k1) \<and>
    length handles = object_words ?obss \<and> shows_objects tb ?obss handles \<and>
    HandleTable_wf tb \<and> keeps_handles (table_of i k1) tb"
    by (rule answer_written) (use ctx table(1) room in \<open>simp_all\<close>)
  then obtain handles tb where w: "WriteToOutgoingCommandBuffer menv i (session_context (MakeHeader 5 1 2) cs ctx) ?old k1 =
      Some ((MakeHeader 5 1 2 # [0] @ handles) @ drop 4 ?old, put_table i tb k1)" "shows_objects tb ?obss handles"
    unfolding session_context_def four runs by blast
  then obtain h where h: "handles = [MoveHandleDesc 1, h]" "HandleTable_lookup tb h = Some (HClientSession cs)"
    by (auto simp: list_all2_Cons1 names_def object_desc_def)
  define ws where "ws = [MakeHeader 5 1 2, 0, MoveHandleDesc 1, h] @ drop 4 ?old"
  have len: "length (bytes_of ws) = 384" by (simp add: ws_def)
  define m where "m = (km_machine (kernel_memory k1))\<lparr>host_mem := pokes (host_range ?pt (unat ?a) 384) (bytes_of ws)
      (host_mem (km_machine (kernel_memory k1)))\<rparr>"
  have "read_process menv i ?a 384 k1 = Some (seen ?pt (host_mem (km_machine (kernel_memory k1))) (unat ?a) 384, k1)"
    by (rule read_plain [OF t1(3) pages(1)])
  moreover have "write_process menv i ?a (bytes_of ws) (put_table i tb k1) = Some (put_machine m (put_table i tb k1))"
    using WriteBlock_plain [of ?pt ?a "bytes_of ws", where env = menv] pages(1) t1(3) len
    by (simp add: write_process_def process_pages_def m_def put_table_def put_machine_def)
  ultimately have "ThreadCallback_WakeUp menv callback reason t ob k =
      Some (put_request t (session_context (MakeHeader 5 1 2) cs ctx) (put_machine m (put_table i tb k1)))"
    using t call t1 w(1) h(1) by (simp add: ThreadCallback_WakeUp_def owner_lock_def ws_def)
  moreover have "seen ?pt (host_mem m) (unat ?a) 384 = bytes_of ws"
  proof -
    have "distinct (host_range ?pt (unat ?a) 384)" using pages(2) by (simp add: host_range_def distinct_map)
    from pokes_read [OF this, of "bytes_of ws"] len show ?thesis
      by (simp add: seen_def host_range_def comp_def m_def)
  qed
  ultimately show ?thesis using h(2) unfolding ws_def by blast
qed

text \<open>The sleeper wakes, and its event is as it was.\<close>

definition sleeps_on :: "('s, 'g, 'e) kernel \<Rightarrow> nat \<Rightarrow> nat \<Rightarrow> thread \<Rightarrow> bool" where
  "sleeps_on k t ev th \<longleftrightarrow> threads k t = Some th \<and> status th = WaitHleEvent \<and> wait_objects th = [RObj ev] \<and>
     wakeup_callback th = Some (OtherCallback 1) \<and> current_priority th \<le> ThreadPrioLowest \<and>
     waiting_threads k (RObj ev) = [t]"

definition rest_of :: "('s, 'g, 'e) kernel \<Rightarrow> _" where
  "rest_of k = (sync_objects k, processes k, kernel_memory k, sessions k, client_sessions k, outside k)"

lemma sleeper_wakes:
  fixes k :: "('s, 'g, 'e) kernel"
  defines "quiet \<equiv> KEvent \<lparr>event_reset_type = OneShot, event_signaled = False\<rparr>"
  assumes ev: "sync_objects k ev = Some (KEvent \<lparr>event_reset_type = OneShot, event_signaled = True\<rparr>)"
    and t: "sleeps_on k t ev th"
    and call: "other_wakeup env 1 Signal t (Some (RObj ev)) (set_object ev quiet k) = Some k1"
    and k1: "sleeps_on k1 t ev th" "sync_objects k1 ev = Some quiet" and env: "hle_notifier env = (\<lambda>_. Some)"
  shows "\<exists>k2. WakeupAllWaitingThreads env (RObj ev) k = Some k2 \<and> rest_of k2 = rest_of k1 \<and>
    (\<exists>th'. threads k2 t = Some th' \<and> status th' = Ready \<and> wait_objects th' = [] \<and> wakeup_callback th' = None)"
proof -
  note t' = t [unfolded sleeps_on_def] and k1' = k1(1) [unfolded sleeps_on_def]
  have best: "GetHighestPriorityReadyThread k (RObj ev) = Some (Some t)"
    using t' ev by (simp add: GetHighestPriorityReadyThread_def ShouldWait_def)
  have cb: "call_back env Signal t (Some (RObj ev)) (set_object ev quiet k) = Some k1"
    using t' call by (simp add: call_back_def WakeUp_def set_object_def)
  define k2 where "k2 = PrepareReschedule (upd_thread t (\<lambda>th. th\<lparr>status := Ready\<rparr>)
    (upd_ready (core_id th) (tql_push_back (current_priority th) t) (upd_thread t (\<lambda>th. th\<lparr>wakeup_callback := None\<rparr>)
      (upd_thread t (\<lambda>th. th\<lparr>wait_objects := []\<rparr>) (set_waiting (RObj ev) [] k1)))))"
  have one: "wake_one env (RObj ev) t k = Some k2"
    using t' ev k1' k1(2) cb
    by (simp add: wake_one_def Acquire_def leave_waits_def RemoveWaitingThread_def Let_def is_mutex_def set_waiting_def
      ResumeFromWait_def upd_thread_def k2_def quiet_def)
  have "waiting_threads k2 (RObj ev) = []" "sync_objects k2 = sync_objects k1"
    by (simp_all add: k2_def PrepareReschedule_def upd_thread_def upd_ready_def upd_manager_def set_waiting_def)
  then have "WakeupAllWaitingThreads env (RObj ev) k = Some k2"
    using wakeup_loop_step [OF best one] wakeup_loop_stop [of k2 "RObj ev" env] env k1(2)
    by (simp add: WakeupAllWaitingThreads_def GetHighestPriorityReadyThread_def end_pulse_def quiet_def)
  moreover have "rest_of k2 = rest_of k1"
    by (simp add: rest_of_def k2_def PrepareReschedule_def upd_thread_def upd_ready_def upd_manager_def set_waiting_def)
  moreover have "\<exists>th'. threads k2 t = Some th' \<and> status th' = Ready \<and> wait_objects th' = [] \<and> wakeup_callback th' = None"
    using k1' by (simp add: k2_def PrepareReschedule_def upd_thread_def upd_ready_def upd_manager_def set_waiting_def)
  ultimately show ?thesis by blast
qed

text \<open>C5: a service that registers wakes the client that waits for it. Let a client sleep on the event
  that is kept under the service's name, with its command buffer in plain memory and a free slot in its
  handle table. When a server registers the service with room for at least one session, the call returns;
  the server is given its end of the port, the client is ready to run, and its command buffer holds the
  answer to its request: success and a handle, which names a new session's client end. The session's other
  end is the only one pending at the port, and nobody waits under the name any more.\<close>

theorem new_service_wakes_client:
  fixes k :: "('s, 'g) srv_host"
  assumes req: "names_service ctx header buf len maximum" "unat len \<le> 8" "name = take (unat len) buf" "0 < maximum"
    and name: "valid_name name" "registered_services (srv_of k) name = None"
    and client: "sleeps_on k t ev th" "requests (services (outside k)) t = Some ctx'" "length (cmd_buf ctx') = 64"
      "sleep_callbacks (services (outside k)) t = Some name" "get_service_handle_delayed_map (srv_of k) name = Some ev"
      "sync_objects k ev = Some (KEvent \<lparr>event_reset_type = OneShot, event_signaled = False\<rparr>)"
    and process: "owner_process th = Some i" "processes k i = Some p"
      "HandleTable_wf (table_of i k)" "empty_slots (table_of i k) \<noteq> {}"
    and pages: "plain_pages (vm_page_table (vm_of p)) (unat (GetCommandBufferAddress th)) 384"
      "inj_on (host_of (vm_page_table (vm_of p))) {unat (GetCommandBufferAddress th)..<unat (GetCommandBufferAddress th) + 384}"
    and fresh: "sync_objects k b = None" "waiting_threads k (RObj b) = []" "sync_objects k s = None" "s \<noteq> b"
    and env: "hle_notifier env = (\<lambda>_. Some)" "hle_notifier env' = (\<lambda>_. Some)"
  shows "\<exists>ctx2 k' h ws. SRV_RegisterService
      (host_env menv alloc (SRV_WakeUp (ClientPort_Connect env' hle (s, cs, pa))) env) (b, c) ctx k = Some (ctx2, k') \<and>
    request_handles ctx2 = [Some (HWait (RObj b))] \<and>
    (\<exists>th'. threads k' t = Some th' \<and> status th' = Ready \<and> wait_objects th' = []) \<and>
    seen (vm_page_table (vm_of p)) (host_mem (km_machine (kernel_memory k'))) (unat (GetCommandBufferAddress th)) 384 =
      bytes_of ([MakeHeader 5 1 2, ResultSuccess, MoveHandleDesc 1, h] @ ws) \<and>
    HandleTable_lookup (table_of i k') h = Some (HClientSession cs) \<and> client_sessions k' cs = Some pa \<and>
    sessions k' pa = Some \<lparr>session_client = Some cs, session_server = Some s, session_port = Some c\<rparr> \<and>
    sync_objects k' b = Some (KServerPort \<lparr>pending_sessions = [s], port_handler = None\<rparr>) \<and>
    registered_services (srv_of k') name = Some c \<and> get_service_handle_delayed_map (srv_of k') name = None"
proof -
  let ?connect = "ClientPort_Connect env' hle (s, cs, pa)"
  let ?env = "host_env menv alloc (SRV_WakeUp ?connect) env"
  let ?quiet = "KEvent \<lparr>event_reset_type = OneShot, event_signaled = False\<rparr>"
    and ?loud = "KEvent \<lparr>event_reset_type = OneShot, event_signaled = True\<rparr>"
  note S = client(1) [unfolded sleeps_on_def]
  have bev: "b \<noteq> ev" "s \<noteq> ev" using fresh(1,3) client(6) by auto
  define k1 where "k1 = upd_srv (\<lambda>x. x\<lparr>registered_services := (registered_services x)(name \<mapsto> c),
    registered_services_inverse := (registered_services_inverse x)(c \<mapsto> name)\<rparr>) (CreatePortPair b c maximum k)"
  have reg: "ServiceManager_RegisterService (b, c) name maximum k = (Inr b, k1)"
    using name by (simp add: ServiceManager_RegisterService_def valid_name_result k1_def domIff)
  note K1 = k1_def upd_srv_def upd_hosted_def CreatePortPair_def set_object_def srv_of_def
  have k1: "sync_objects k1 ev = Some ?quiet" "get_service_handle_delayed_map (srv_of k1) name = Some ev"
    "sleeps_on (set_object ev ?loud k1) t ev th"
    using client bev S by (simp_all add: K1 sleeps_on_def)
  have quiet: "set_object ev ?quiet (set_object ev ?loud k1) = k1"
    using k1(1) by (cases k1) (simp add: set_object_def fun_upd_idem)
  obtain k2 where k2: "?connect c k1 = Some (Inr cs, k2)" "k2 = k1
    \<lparr>client_ports := (client_ports k1)(c \<mapsto> \<lparr>cp_server_port = b, max_sessions = maximum, active_sessions = 1\<rparr>),
     sync_objects := (sync_objects k1)(s \<mapsto> KServerSession \<lparr>session_parent = pa, session_handler = None,
         pending_requesting_threads = [], currently_handling = None\<rparr>,
       b \<mapsto> KServerPort \<lparr>pending_sessions = [s], port_handler = None\<rparr>),
     sessions := (sessions k1)(pa \<mapsto> \<lparr>session_client = Some cs, session_server = Some s, session_port = Some c\<rparr>),
     client_sessions := (client_sessions k1)(cs \<mapsto> pa),
     outside := (outside k1)\<lparr>mapped_buffer_context := (mapped_buffer_context (outside k1))(s := [])\<rparr>\<rparr>"
    using connect_new_port [of k1 c b maximum s env' hle cs pa] req(4) fresh env(2) by (simp add: K1)
  have port: "GetServicePort name k1 = Inr c"
    using name(1) by (simp add: GetServicePort_def valid_name_result K1)
  have call: "SRV_WakeUp ?connect name t ctx' Signal k1 = Some (session_context (MakeHeader 5 1 2) cs ctx', k2)"
    using WakeUp_session [where connect = ?connect, OF client(3) port k2(1)] by blast
  have t1: "threads k1 t = Some th" "requests (services (outside k1)) t = Some ctx'"
    "sleep_callbacks (services (outside k1)) t = Some name" "status th = WaitHleEvent"
    using client S by (simp_all add: K1)
  have t2: "threads k2 t = Some th" "processes k2 i = Some p" "HandleTable_wf (table_of i k2)" "empty_slots (table_of i k2) \<noteq> {}"
    using S process by (simp_all add: k2(2) K1 table_of_def)
  obtain h tb m ws where w: "ThreadCallback_WakeUp menv (SRV_WakeUp ?connect) Signal t (Some (RObj ev)) k1 =
      Some (put_request t (session_context (MakeHeader 5 1 2) cs ctx') (put_machine m (put_table i tb k2)))"
    "HandleTable_lookup tb h = Some (HClientSession cs)"
    "seen (vm_page_table (vm_of p)) (host_mem m) (unat (GetCommandBufferAddress th)) 384 =
      bytes_of ([MakeHeader 5 1 2, 0, MoveHandleDesc 1, h] @ ws)"
    using callback_writes [where callback = "SRV_WakeUp ?connect", OF t1(1,4,2,3) call client(3) t2(1) process(1) t2(2) pages t2(3,4)] by blast
  define k3 where "k3 = put_request t (session_context (MakeHeader 5 1 2) cs ctx') (put_machine m (put_table i tb k2))"
  note K3 = k3_def put_request_def upd_hosted_def put_machine_def put_table_def k2(2)
  have k3: "sleeps_on k3 t ev th" "sync_objects k3 ev = Some ?quiet"
    using k1(1,3) bev by (simp_all add: K3 sleeps_on_def set_object_def)
  have "other_wakeup ?env 1 Signal t (Some (RObj ev)) (set_object ev ?quiet (set_object ev ?loud k1)) = Some k3"
    unfolding quiet using w(1) by (simp add: host_env_def ipc_env_def k3_def)
  moreover have "hle_notifier ?env = (\<lambda>_. Some)" using env(1) by (simp add: host_env_def ipc_env_def)
  moreover have "sync_objects (set_object ev ?loud k1) ev = Some ?loud" by (simp add: set_object_def)
  ultimately obtain k4 where k4: "WakeupAllWaitingThreads ?env (RObj ev) (set_object ev ?loud k1) = Some k4"
      "rest_of k4 = rest_of k3" "\<exists>th'. threads k4 t = Some th' \<and> status th' = Ready \<and> wait_objects th' = []"
    using sleeper_wakes [of "set_object ev ?loud k1" ev t th ?env k3] k1(3) k3 by blast
  have signal: "Event_Signal ?env ev k1 = Some k4"
    using k1(1) k4(1) by (simp add: Event_Signal_def event_of_def)
  define k5 where "k5 = upd_srv (\<lambda>x. x\<lparr>get_service_handle_delayed_map := (get_service_handle_delayed_map x)(name := None)\<rparr>) k4"
  have head: "Header_normal_params_size header = 4" "Header_translate_params_size header = 0" "length (cmd_buf ctx) = 64"
    using req(1) by (simp_all add: names_service_def)
  obtain ctx2 where answer: "do {rb \<leftarrow> MakeBuilder 1 2 True (parsed header ctx); rb \<leftarrow> Push_Result ResultSuccess rb;
      rb \<leftarrow> PushMoveObjects [Some (HWait (RObj b))] rb; finish rb} = Some ctx2"
    "request_handles ctx2 = [Some (HWait (RObj b))]"
    using build_object_answer [OF head(3), of "ucast (Header_command_id header)" "Some (HWait (RObj b))"] head
    by (simp add: MakeBuilder_def ValidateHeader_def TotalSize_def parsed_def)
  have "SRV_RegisterService ?env (b, c) ctx k = Some (ctx2, k5)"
    unfolding SRV_RegisterService_def service_request [OF req(1)]
    using req(2,3) reg k1(2) signal answer(1) by (simp add: Let_def min_def k5_def flip: bind_assoc)
  moreover have "\<exists>th'. threads k5 t = Some th' \<and> status th' = Ready \<and> wait_objects th' = []"
    using k4(3) by (simp add: k5_def upd_srv_def upd_hosted_def)
  ultimately show ?thesis
    using answer(2) w(2,3) k4(2) by (intro exI [of _ ctx2] exI [of _ k5] exI [of _ h] exI [of _ ws])
      (simp add: k5_def rest_of_def K3 K1 table_of_def ResultSuccess_def)
qed

section \<open>A system with a sleeping client\<close>

definition example_name :: bytes where "example_name = [97, 98, 99]"

definition example_request :: "u16 \<Rightarrow> nat \<Rightarrow> u32 \<Rightarrow> request_context" where
  "example_request command t word = (new_context [] 9 t)
     \<lparr>cmd_buf := MakeHeader command 4 0 # words_of 2 (example_name @ replicate 5 0) @ [3, word] @ replicate 59 0\<rparr>"

definition example_sleeper :: thread where
  "example_sleeper = (example_waiter 2 30)\<lparr>status := WaitHleEvent, wait_objects := [RObj 20],
     wakeup_callback := Some (OtherCallback 1), th_tls_address := 0x5000, owner_process := Some 2\<rparr>"

definition service_host :: "(interval list, unit) srv_host" where
  "service_host =
     \<lparr>threads = [4 \<mapsto> example_sleeper, 5 \<mapsto> example_sleeper], sync_objects = [20 \<mapsto> example_event OneShot],
      waiting_threads = (\<lambda>r. if r = RObj 20 then [4] else []), arbiter_threads = (\<lambda>_. []),
      managers = [], cpus = [], current_cpu = 0, current_process = None, stored_processes = [],
      memory_pages = None, next_thread_id = 4, next_timer_callback_id = 0, timer_callback_table = Map.empty,
      reschedule_pending = False,
      timing_of = \<lparr>event_types = Map.empty, timers = [], current_timer = 0, event_queue_locked = False\<rparr>,
      processes = [2 \<mapsto> example_client], process_list = [2], kernel_memory = example_kmem,
      sessions = Map.empty, client_ports = Map.empty, client_sessions = Map.empty, named_ports = Map.empty,
      shared_memories = Map.empty,
      outside = \<lparr>handle_tables = (\<lambda>_. HandleTable_new), mapped_buffer_context = (\<lambda>_. []),
        services = \<lparr>requests = [4 \<mapsto> new_context (replicate 64 7) 9 4], sleep_callbacks = [4 \<mapsto> example_name],
          connected_sessions = (\<lambda>_. []),
          service_state = \<lparr>registered_services = Map.empty, registered_services_inverse = Map.empty,
            notification_semaphore = None, get_service_handle_delayed_map = [example_name \<mapsto> 20]\<rparr>\<rparr>\<rparr>\<rparr>"

lemma example_request_names:
  "names_service (example_request command t word) (MakeHeader command 4 0) (example_name @ replicate 5 0) 3 word"
  "take (unat (3 :: u32)) (example_name @ replicate 5 0) = example_name" "valid_name example_name"
proof -
  have "Header_normal_params_size (MakeHeader command 4 0) = 4" "Header_translate_params_size (MakeHeader command 4 0) = 0"
    using MakeHeader_fields(2,3) [of 4 0 command] by simp_all
  moreover have "length (words_of 2 bs) = 2" for bs by simp
  ultimately show "names_service (example_request command t word) (MakeHeader command 4 0) (example_name @ replicate 5 0) 3 word"
    by (simp add: names_service_def example_request_def example_name_def)
  show "take (unat (3 :: u32)) (example_name @ replicate 5 0) = example_name" "valid_name example_name"
    by (simp_all add: example_name_def valid_name_def)
qed

lemma service_host_sel:
  "threads service_host 4 = Some example_sleeper" "threads service_host 5 = Some example_sleeper"
  "registered_services (srv_of service_host) = Map.empty"
  "get_service_handle_delayed_map (srv_of service_host) = [example_name \<mapsto> 20]"
  "waiting_threads service_host r = (if r = RObj 20 then [4] else [])"
  "sync_objects service_host a = (if a = 20 then Some (KEvent \<lparr>event_reset_type = OneShot, event_signaled = False\<rparr>) else None)"
  "processes service_host 2 = Some example_client" "table_of i service_host = HandleTable_new"
  "requests (services (outside service_host)) 4 = Some (new_context (replicate 64 7) 9 4)"
  "sleep_callbacks (services (outside service_host)) 4 = Some example_name"
  by (simp_all add: service_host_def srv_of_def table_of_def example_event_def)

lemma second_waiter_forgets_first_witness:
  "\<exists>k'. SRV_GetServiceHandle (\<lambda>_ _. None) 21 (example_request 5 5 0) service_host = Some (example_request 5 5 0, k') \<and>
    asleep_for k' 5 21 example_name \<and> asleep_for k' 4 20 example_name \<and>
    (\<forall>n. get_service_handle_delayed_map (srv_of k') n \<noteq> Some 20)"
proof -
  have t: "request_thread (example_request 5 5 0) = 5" by (simp add: example_request_def new_context_def)
  have "\<exists>k'. SRV_GetServiceHandle (\<lambda>_ _. None) 21 (example_request 5 5 0) service_host = Some (example_request 5 5 0, k') \<and>
    asleep_for k' (request_thread (example_request 5 5 0)) 21 example_name \<and>
    get_service_handle_delayed_map (srv_of k') example_name = Some 21 \<and> timing_of k' = timing_of service_host \<and>
    asleep_for k' 4 20 example_name \<and> (\<forall>n. get_service_handle_delayed_map (srv_of k') n \<noteq> Some 20)"
  proof (rule second_waiter_forgets_first [OF example_request_names(1) _ _ example_request_names(2) [symmetric] example_request_names(3)])
    show "asleep_for service_host 4 20 example_name"
      by (simp add: asleep_for_def service_host_sel example_sleeper_def)
  qed (simp_all add: t service_host_sel)
  then show ?thesis unfolding t by blast
qed

lemma new_service_wakes_client_witness:
  "\<exists>ctx2 k' h. SRV_RegisterService
      (host_env example_env (\<lambda>_ _. 0) (SRV_WakeUp (ClientPort_Connect \<lparr>other_wakeup = (\<lambda>_ _ _ _. Some), hle_notifier = (\<lambda>_. Some)\<rparr>
        (service_hle example_env [] (\<lambda>_ c k. Some (c, k))) (32, 33, 34))) \<lparr>other_wakeup = (\<lambda>_ _ _ _. Some), hle_notifier = (\<lambda>_. Some)\<rparr>)
      (30, 31) (example_request 3 5 1) service_host = Some (ctx2, k') \<and>
    (\<exists>th'. threads k' 4 = Some th' \<and> status th' = Ready) \<and>
    HandleTable_lookup (table_of 2 k') h = Some (HClientSession 33) \<and>
    sync_objects k' 30 = Some (KServerPort \<lparr>pending_sessions = [32], port_handler = None\<rparr>)"
proof -
  have a: "GetCommandBufferAddress example_sleeper = 0x5080" by (simp add: GetCommandBufferAddress_def example_sleeper_def)
  have page: "x div 0x1000 = 5" "x mod 0x1000 = x - 0x5000" if "x \<in> {0x5080..<0x5200}" for x :: nat
  proof -
    show d: "x div 0x1000 = 5" using that by (intro div_nat_eqI) simp_all
    show "x mod 0x1000 = x - 0x5000" by (simp add: modulo_nat_def d)
  qed
  have range: "{unat (GetCommandBufferAddress example_sleeper)..<unat (GetCommandBufferAddress example_sleeper) + 384} =
      {0x5080..<0x5200}" by (simp add: a)
  have pages: "plain_pages (vm_page_table (vm_of example_client)) (unat (GetCommandBufferAddress example_sleeper)) 384"
    unfolding plain_pages_def range using page(1) by (simp add: example_pair_sel swapped_pages_def a)
  have inj: "inj_on (host_of (vm_page_table (vm_of example_client)))
      {unat (GetCommandBufferAddress example_sleeper)..<unat (GetCommandBufferAddress example_sleeper) + 384}"
    unfolding range
  proof (rule inj_onI)
    fix x y :: nat
    assume x: "x \<in> {0x5080..<0x5200}" and y: "y \<in> {0x5080..<0x5200}"
      and "host_of (vm_page_table (vm_of example_client)) x = host_of (vm_page_table (vm_of example_client)) y"
    then have "(of_nat (x - 0x5000) :: u64) = of_nat (y - 0x5000)" by (simp add: host_of_def page)
    then have "unat (of_nat (x - 0x5000) :: u64) = unat (of_nat (y - 0x5000) :: u64)" by (rule arg_cong)
    moreover have small: "unat (of_nat d :: u64) = d" if "d < 0x200" for d
      using that by (simp add: unat_of_nat)
    moreover have "x - 0x5000 < 0x200" "y - 0x5000 < 0x200" using x y by auto
    ultimately have "x - 0x5000 = y - 0x5000" by metis
    then show "x = y" using x y by (simp; linarith)
  qed
  have empty: "empty_slots (HandleTable_new :: kref handle_table) \<noteq> {}" using new_table_room by force
  have asleep: "sleeps_on service_host 4 20 example_sleeper"
    by (simp add: sleeps_on_def service_host_sel) (simp add: example_sleeper_def example_waiter_def new_thread_def)
  have stale: "length (cmd_buf (new_context (replicate 64 7) 9 4)) = 64" by (simp add: new_context_def)
  have owner: "owner_process example_sleeper = Some 2" by (simp add: example_sleeper_def)
  let ?env = "\<lparr>other_wakeup = (\<lambda>_ _ _ _. Some), hle_notifier = (\<lambda>_. Some)\<rparr> :: (interval list, unit, (bytes, srv_state) hosted world) kenv"
  let ?hle = "service_hle example_env [] (\<lambda>_ c k. Some (c, k)) :: (interval list, unit, (bytes, srv_state) hosted) hle"
  have "\<exists>ctx2 k' h ws. SRV_RegisterService (host_env example_env (\<lambda>_ _. 0) (SRV_WakeUp (ClientPort_Connect ?env ?hle (32, 33, 34))) ?env)
      (30, 31) (example_request 3 5 1) service_host = Some (ctx2, k') \<and>
    request_handles ctx2 = [Some (HWait (RObj 30))] \<and>
    (\<exists>th'. threads k' 4 = Some th' \<and> status th' = Ready \<and> wait_objects th' = []) \<and>
    seen (vm_page_table (vm_of example_client)) (host_mem (km_machine (kernel_memory k'))) (unat (GetCommandBufferAddress example_sleeper)) 384 =
      bytes_of ([MakeHeader 5 1 2, ResultSuccess, MoveHandleDesc 1, h] @ ws) \<and>
    HandleTable_lookup (table_of 2 k') h = Some (HClientSession 33) \<and> client_sessions k' 33 = Some 34 \<and>
    sessions k' 34 = Some \<lparr>session_client = Some 33, session_server = Some 32, session_port = Some 31\<rparr> \<and>
    sync_objects k' 30 = Some (KServerPort \<lparr>pending_sessions = [32], port_handler = None\<rparr>) \<and>
    registered_services (srv_of k') example_name = Some 31 \<and> get_service_handle_delayed_map (srv_of k') example_name = None"
    by (rule new_service_wakes_client [OF example_request_names(1) _ example_request_names(2) [symmetric] _ example_request_names(3)
          _ asleep service_host_sel(9) stale _ _ _ owner _ _ _ pages inj])
      (simp_all add: service_host_sel stale wf_new empty)
  then show ?thesis by blast
qed

end
