(* ===== verification/CodePatches.thy ===== *)
theory CodePatches
  imports MemoryAccess
begin

text \<open>Patches of an executable's code: \<open>ApplyIpsPatch\<close> and \<open>ApplyBpsPatch\<close> of
  \<open>core/file_sys/patch.cpp\<close>. A patch is a file of the user's and may hold anything. Sizes and
  cursors that the code keeps below a vector's size are \<open>nat\<close>; the relative offsets of the BPS
  format, which it does not bound, are \<open>u64\<close> as the code has them. None is an access the language
  leaves undefined: outside of a vector, or through an empty \<open>std::optional\<close>. The buffer is changed
  in place, so that a refused patch returns the buffer it has changed so far. The checksum is
  boost's and is a parameter.\<close>

section \<open>IPS\<close>

definition patch_byte :: "bytes \<Rightarrow> nat \<Rightarrow> u8 run" where
  "patch_byte xs i = (if i < length xs then Some (xs ! i) else None)"

text \<open>Big-endian numbers of the patch.\<close>

definition ips_u16 :: "bytes \<Rightarrow> nat \<Rightarrow> nat run" where
  "ips_u16 ips i = do {
     a \<leftarrow> patch_byte ips i;
     b \<leftarrow> patch_byte ips (i + 1);
     Some (256 * unat a + unat b)}"

definition ips_u24 :: "bytes \<Rightarrow> nat \<Rightarrow> nat run" where
  "ips_u24 ips i = do {
     a \<leftarrow> patch_byte ips i;
     b \<leftarrow> patch_byte ips (i + 1);
     c \<leftarrow> patch_byte ips (i + 2);
     Some (65536 * unat a + 256 * unat b + unat c)}"

definition bytes_range :: "bytes \<Rightarrow> nat \<Rightarrow> nat \<Rightarrow> bytes run" where
  "bytes_range xs i n = (if i + n \<le> length xs then Some (take n (drop i xs)) else None)"

text \<open>\<open>memcpy\<close> to \<open>&buffer[offset]\<close>.\<close>

definition copy_in :: "nat \<Rightarrow> bytes \<Rightarrow> bytes \<Rightarrow> bytes run" where
  "copy_in offset bs buffer =
     (if offset + length bs \<le> length buffer
      then Some (take offset buffer @ bs @ drop (offset + length bs) buffer) else None)"

abbreviation (input) "IPS_HEADER \<equiv> ([0x50, 0x41, 0x54, 0x43, 0x48] :: bytes)"
abbreviation (input) "IPS_EOF \<equiv> ([0x45, 0x4F, 0x46] :: bytes)"

text \<open>The record at the cursor; the result is the next cursor, or that the record does not fit.\<close>

definition ips_record_step :: "bytes \<Rightarrow> nat \<Rightarrow> bytes \<Rightarrow> (nat option \<times> bytes) run" where
  "ips_record_step ips cursor buffer = do {
     offset \<leftarrow> ips_u24 ips cursor;
     len \<leftarrow> ips_u16 ips (cursor + 3);
     if len = 0 then do {
       len \<leftarrow> ips_u16 ips (cursor + 5);
       if length buffer < offset + len then Some (None, buffer)
       else if len = 0 then Some (Some (cursor + 8), buffer)
       else do {
         b \<leftarrow> patch_byte ips (cursor + 7);
         buffer \<leftarrow> copy_in offset (replicate len b) buffer;
         Some (Some (cursor + 8), buffer)}}
     else if length buffer < offset + len then Some (None, buffer)
     else do {
       bs \<leftarrow> bytes_range ips (cursor + 5) len;
       buffer \<leftarrow> copy_in offset bs buffer;
       Some (Some (cursor + (len + 5)), buffer)}}"

lemma ips_record_step_advances:
  "ips_record_step ips cursor buffer = Some (Some cursor', buffer') \<Longrightarrow> cursor < cursor'"
  by (auto simp: ips_record_step_def split: bind_splits if_splits)

function ips_loop :: "bytes \<Rightarrow> nat \<Rightarrow> bytes \<Rightarrow> (bool \<times> bytes) run" where
  "ips_loop ips cursor buffer =
     (if cursor < length ips - 3 then
        (if take 3 (drop cursor ips) = IPS_EOF then Some (False, buffer)
         else (case ips_record_step ips cursor buffer of
                 None \<Rightarrow> None
               | Some (None, buffer') \<Rightarrow> Some (False, buffer')
               | Some (Some cursor', buffer') \<Rightarrow> ips_loop ips cursor' buffer'))
      else Some (True, buffer))"
  by pat_completeness auto
termination
  by (relation "measure (\<lambda>(ips, cursor, buffer). length ips - cursor)")
    (auto dest: ips_record_step_advances)

declare ips_loop.simps [simp del]

definition ApplyIpsPatch :: "bytes \<Rightarrow> bytes \<Rightarrow> (bool \<times> bytes) run" where
  "ApplyIpsPatch ips buffer = do {
     header \<leftarrow> bytes_range ips 0 5;
     if header \<noteq> IPS_HEADER then Some (False, buffer)
     else ips_loop ips 5 buffer}"

section \<open>BPS\<close>

subsection \<open>Streams\<close>

record stream =
  m_data :: bytes
  m_offset :: nat

text \<open>The functions below answer None where the code returns false or \<open>std::nullopt\<close>; the
  stream is unchanged then.\<close>

definition Stream_Read :: "nat \<Rightarrow> stream \<Rightarrow> (bytes \<times> stream) option" where
  "Stream_Read n s =
     (if m_offset s + n > length (m_data s) then None
      else Some (take n (drop (m_offset s) (m_data s)), s\<lparr>m_offset := m_offset s + n\<rparr>))"

definition Stream_CopyFrom :: "nat \<Rightarrow> stream \<Rightarrow> stream \<Rightarrow> (stream \<times> stream) option" where
  "Stream_CopyFrom n s other_stream =
     (if m_offset s + n > length (m_data s) then None
      else case Stream_Read n other_stream of
        None \<Rightarrow> None
      | Some (bs, other_stream) \<Rightarrow>
          Some (s\<lparr>m_data := take (m_offset s) (m_data s) @ bs @ drop (m_offset s + n) (m_data s),
                  m_offset := m_offset s + n\<rparr>, other_stream))"

definition Stream_Seek :: "nat \<Rightarrow> stream \<Rightarrow> stream option" where
  "Stream_Seek offset s = (if offset > length (m_data s) then None else Some (s\<lparr>m_offset := offset\<rparr>))"

definition Stream_Read_u32 :: "stream \<Rightarrow> (u32 \<times> stream) option" where
  "Stream_Read_u32 s = (case Stream_Read 4 s of None \<Rightarrow> None | Some (bs, s) \<Rightarrow> Some (of_nat (from_le bs), s))"

text \<open>\<open>ReadNumber\<close> from the bytes that are left: the number and how many bytes it has taken.\<close>

fun read_number :: "bytes \<Rightarrow> u32 \<Rightarrow> u32 \<Rightarrow> u32 \<times> nat" where
  "read_number [] num shift = (num, 0)"
| "read_number (x # xs) num shift =
     (let num = num + ucast (x AND 0x7F) * shift
      in if x AND 0x80 \<noteq> 0 then (num, 1)
         else
           (let shift = push_bit 7 shift;
                (num, n) = read_number xs (num + shift) shift
            in (num, Suc n)))"

definition ReadNumber :: "stream \<Rightarrow> u32 \<times> stream" where
  "ReadNumber s =
     (let (num, n) = read_number (drop (m_offset s) (m_data s)) 0 1
      in (num, s\<lparr>m_offset := m_offset s + n\<rparr>))"

subsection \<open>Commands\<close>

record patch_applier =
  m_source :: stream
  m_target :: stream
  m_patch :: stream
  m_source_relative_offset :: u64
  m_target_relative_offset :: u64

text \<open>A command returns whether it succeeded.\<close>

definition SourceRead :: "u32 \<Rightarrow> patch_applier \<Rightarrow> (bool \<times> patch_applier) run" where
  "SourceRead len a =
     (case Stream_Seek (m_offset (m_target a)) (m_source a) of
        None \<Rightarrow> Some (False, a)
      | Some source \<Rightarrow>
          (case Stream_CopyFrom (unat len) (m_target a) source of
             None \<Rightarrow> Some (False, a\<lparr>m_source := source\<rparr>)
           | Some (target, source) \<Rightarrow> Some (True, a\<lparr>m_target := target, m_source := source\<rparr>)))"

definition TargetRead :: "u32 \<Rightarrow> patch_applier \<Rightarrow> (bool \<times> patch_applier) run" where
  "TargetRead len a =
     (case Stream_CopyFrom (unat len) (m_target a) (m_patch a) of
        None \<Rightarrow> Some (False, a)
      | Some (target, patch) \<Rightarrow> Some (True, a\<lparr>m_target := target, m_patch := patch\<rparr>))"

text \<open>\<open>(num & 1 ? -1 : +1) * int(num >> 1)\<close>, added to a \<open>size_t\<close>.\<close>

definition relative_offset :: "u32 \<Rightarrow> u64" where
  "relative_offset num =
     (if num AND 1 \<noteq> 0 then - ucast (drop_bit 1 num) else ucast (drop_bit 1 num))"

definition SourceCopy :: "u32 \<Rightarrow> patch_applier \<Rightarrow> (bool \<times> patch_applier) run" where
  "SourceCopy len a =
     (let (num, patch) = ReadNumber (m_patch a);
          a = a\<lparr>m_patch := patch,
                m_source_relative_offset := m_source_relative_offset a + relative_offset num\<rparr>
      in case Stream_Seek (unat (m_source_relative_offset a)) (m_source a) of
           None \<Rightarrow> Some (False, a)
         | Some source \<Rightarrow>
             (case Stream_CopyFrom (unat len) (m_target a) source of
                None \<Rightarrow> Some (False, a\<lparr>m_source := source\<rparr>)
              | Some (target, source) \<Rightarrow>
                  Some (True, a\<lparr>m_target := target, m_source := source,
                    m_source_relative_offset := m_source_relative_offset a + ucast len\<rparr>)))"

text \<open>The copy byte by byte: \<open>n\<close> bytes are left, \<open>i\<close> is the index of the next one written and
  \<open>from\<close> the relative offset.\<close>

fun target_copy_loop :: "nat \<Rightarrow> nat \<Rightarrow> u64 \<Rightarrow> bytes \<Rightarrow> (bytes \<times> u64) run" where
  "target_copy_loop 0 i from_offset bs = Some (bs, from_offset)"
| "target_copy_loop (Suc n) i from_offset bs = do {
     b \<leftarrow> patch_byte bs (unat from_offset);
     ASSERT (i < length bs);
     target_copy_loop n (Suc i) (from_offset + 1) (bs[i := b])}"

definition TargetCopy :: "u32 \<Rightarrow> patch_applier \<Rightarrow> (bool \<times> patch_applier) run" where
  "TargetCopy len a =
     (let (num, patch) = ReadNumber (m_patch a);
          a = a\<lparr>m_patch := patch,
                m_target_relative_offset := m_target_relative_offset a + relative_offset num\<rparr>;
          target = m_target a
      in if m_offset target + unat len > length (m_data target) then Some (False, a)
         else if unat (m_target_relative_offset a + ucast len) > length (m_data target) then Some (False, a)
         else do {
           (bs, from_offset) \<leftarrow>
             target_copy_loop (unat len) (m_offset target) (m_target_relative_offset a) (m_data target);
           Some (True, a\<lparr>m_target := \<lparr>m_data = bs, m_offset = m_offset target + unat len\<rparr>,
             m_target_relative_offset := from_offset\<rparr>)})"

definition HandleCommand :: "patch_applier \<Rightarrow> (bool \<times> patch_applier) run" where
  "HandleCommand a =
     (let (num, patch) = ReadNumber (m_patch a);
          a = a\<lparr>m_patch := patch\<rparr>;
          command = num AND 3;
          len = drop_bit 2 num + 1
      in if command = 0 then SourceRead len a
         else if command = 1 then TargetRead len a
         else if command = 2 then SourceCopy len a
         else TargetCopy len a)"

text \<open>A command that succeeds has written at least one byte of the target, and no further than
  its end: the loop over the commands ends.\<close>

definition target_progress :: "patch_applier \<Rightarrow> patch_applier \<Rightarrow> bool" where
  "target_progress a a' \<longleftrightarrow>
     m_offset (m_target a) < m_offset (m_target a') \<and>
     m_offset (m_target a') \<le> length (m_data (m_target a')) \<and>
     length (m_data (m_target a')) = length (m_data (m_target a))"

lemma Stream_CopyFrom_Some:
  "Stream_CopyFrom n s src = Some (s', src') \<Longrightarrow>
     m_offset s + n \<le> length (m_data s) \<and> m_offset s' = m_offset s + n \<and>
     length (m_data s') = length (m_data s)"
  by (auto simp: Stream_CopyFrom_def Stream_Read_def split: if_splits option.splits)

lemma target_copy_loop_length:
  "target_copy_loop n i from_offset bs = Some (bs', from') \<Longrightarrow> length bs' = length bs"
  by (induction n i from_offset bs rule: target_copy_loop.induct) (auto split: bind_splits)

lemma command_length_positive: "0 < unat (drop_bit 2 num + 1 :: u32)"
proof -
  have "drop_bit 2 num + 1 \<noteq> (0 :: u32)"
  proof
    assume "drop_bit 2 num + 1 = (0 :: u32)"
    then have "drop_bit 2 num = (- 1 :: u32)" by (simp add: eq_neg_iff_add_eq_0)
    then have "bit (drop_bit 2 num) 31 = bit (- 1 :: u32) 31" by simp
    then show False using bit_imp_le_length [of num 33] by (auto simp: bit_drop_bit_eq)
  qed
  then show ?thesis by (simp add: unat_gt_0)
qed

lemma command_progress:
  assumes "0 < unat len"
  shows "SourceRead len a = Some (True, a') \<Longrightarrow> target_progress a a'"
    and "TargetRead len a = Some (True, a') \<Longrightarrow> target_progress a a'"
    and "SourceCopy len a = Some (True, a') \<Longrightarrow> target_progress a a'"
    and "TargetCopy len a = Some (True, a') \<Longrightarrow> target_progress a a'"
  using assms
  by (auto simp: SourceRead_def TargetRead_def SourceCopy_def TargetCopy_def target_progress_def Let_def
      split: option.splits prod.splits if_splits bind_splits
      dest!: Stream_CopyFrom_Some dest: target_copy_loop_length)

lemma HandleCommand_progress:
  assumes "HandleCommand a = Some (True, a')" shows "target_progress a a'"
proof -
  obtain num patch where n: "ReadNumber (m_patch a) = (num, patch)" by fastforce
  have "target_progress (a\<lparr>m_patch := patch\<rparr>) a'"
    using assms command_progress [OF command_length_positive]
    by (auto simp: HandleCommand_def n Let_def split: if_splits)
  then show ?thesis by (simp add: target_progress_def)
qed

text \<open>The loop of \<open>PatchApplier::Apply\<close>.\<close>

function run_commands :: "u64 \<Rightarrow> patch_applier \<Rightarrow> (bool \<times> patch_applier) run" where
  "run_commands command_end a =
     (if m_offset (m_patch a) < unat command_end then
        (case HandleCommand a of
           None \<Rightarrow> None
         | Some (ok, a') \<Rightarrow> if ok then run_commands command_end a' else Some (False, a'))
      else Some (True, a))"
  by pat_completeness auto
termination
  by (relation "measure (\<lambda>(e, a). length (m_data (m_target a)) - m_offset (m_target a))")
    (auto dest!: HandleCommand_progress simp: target_progress_def)

declare run_commands.simps [simp del]

text \<open>\<open>PatchApplier::Apply\<close>. \<open>crc\<close> is boost's CRC-32. The result is that of \<open>Apply\<close> and the
  bytes of the target.\<close>

definition Apply :: "(bytes \<Rightarrow> u32) \<Rightarrow> patch_applier \<Rightarrow> (bool \<times> bytes) run" where
  "Apply crc a = do {
     (magic, patch) \<leftarrow> Stream_Read 4 (m_patch a);
     if magic \<noteq> [0x42, 0x50, 0x53, 0x31] then Some (False, m_data (m_target a))
     else
       (let (source_size, patch) = ReadNumber patch;
            (target_size, patch) = ReadNumber patch;
            (metadata_size, patch) = ReadNumber patch
        in if unat source_size > length (m_data (m_source a)) \<or>
              unat target_size > length (m_data (m_target a)) \<or> metadata_size \<noteq> 0
           then Some (False, m_data (m_target a))
           else do {
             let command_start = m_offset patch;
             let command_end = (of_nat (length (m_data patch)) - 12 :: u64);
             let patch = (case Stream_Seek (unat command_end) patch of None \<Rightarrow> patch | Some p \<Rightarrow> p);
             (source_crc, patch) \<leftarrow> Stream_Read_u32 patch;
             (target_crc, patch) \<leftarrow> Stream_Read_u32 patch;
             let patch = (case Stream_Seek command_start patch of None \<Rightarrow> patch | Some p \<Rightarrow> p);
             if crc (take (unat source_size) (m_data (m_source a))) \<noteq> source_crc
             then Some (False, m_data (m_target a))
             else do {
               let target = (m_target a)\<lparr>m_data := replicate (length (m_data (m_target a))) 0\<rparr>;
               (ok, a) \<leftarrow> run_commands command_end (a\<lparr>m_patch := patch, m_target := target\<rparr>);
               if \<not> ok then Some (False, m_data (m_target a))
               else
                 Some (crc (take (unat target_size) (m_data (m_target a))) = target_crc,
                   m_data (m_target a))}})}"

definition resize :: "nat \<Rightarrow> bytes \<Rightarrow> bytes" where
  "resize n bs = take n bs @ replicate (n - length bs) 0"

definition ApplyBpsPatch :: "(bytes \<Rightarrow> u32) \<Rightarrow> bytes \<Rightarrow> bytes \<Rightarrow> (bool \<times> bytes) run" where
  "ApplyBpsPatch crc patch buffer =
     (let patch_stream = \<lparr>m_data = patch, m_offset = 0\<rparr>;
          s = (case Stream_Seek 4 patch_stream of None \<Rightarrow> patch_stream | Some s \<Rightarrow> s);
          (source_size, s) = ReadNumber s;
          (target_size, s) = ReadNumber s;
          buffer = (if target_size > source_size then resize (unat target_size) buffer else buffer)
      in Apply crc \<lparr>m_source = \<lparr>m_data = buffer, m_offset = 0\<rparr>,
           m_target = \<lparr>m_data = buffer, m_offset = 0\<rparr>, m_patch = patch_stream,
           m_source_relative_offset = 0, m_target_relative_offset = 0\<rparr>)"
end
