(* ===== verification/PatchProofs.thy ===== *)
theory PatchProofs
  imports CodePatches
begin

text \<open>What the patches do. Both formats are specified by an encoder from a list of records (IPS) or
  commands (BPS) to the bytes of a file, and by the meaning of such a list on a buffer; the properties
  are that applying the bytes has the meaning of the list.\<close>

section \<open>IPS records\<close>

datatype ips_record =
    Ips_Data nat bytes
  | Ips_Fill nat nat u8

definition be16 :: "nat \<Rightarrow> bytes" where
  "be16 n = [of_nat (n div 256), of_nat n]"

definition be24 :: "nat \<Rightarrow> bytes" where
  "be24 n = [of_nat (n div 65536), of_nat (n div 256), of_nat n]"

fun encode_ips :: "ips_record \<Rightarrow> bytes" where
  "encode_ips (Ips_Data off bs) = be24 off @ be16 (length bs) @ bs"
| "encode_ips (Ips_Fill off n b) = be24 off @ be16 0 @ be16 n @ [b]"

definition ips_file :: "ips_record list \<Rightarrow> bytes" where
  "ips_file rs = IPS_HEADER @ concat (map encode_ips rs) @ IPS_EOF"

text \<open>What the format can express: the offset is not the end mark, and data is not empty.\<close>

fun ips_ok :: "ips_record \<Rightarrow> bool" where
  "ips_ok (Ips_Data off bs) \<longleftrightarrow> off < 2 ^ 24 \<and> off \<noteq> 0x454F46 \<and> 0 < length bs \<and> length bs < 2 ^ 16"
| "ips_ok (Ips_Fill off n b) \<longleftrightarrow> off < 2 ^ 24 \<and> off \<noteq> 0x454F46 \<and> n < 2 ^ 16"

fun ips_write :: "ips_record \<Rightarrow> nat \<times> bytes" where
  "ips_write (Ips_Data off bs) = (off, bs)"
| "ips_write (Ips_Fill off n b) = (off, replicate n b)"

text \<open>The meaning: write after write, up to the first that does not fit.\<close>

fun apply_writes :: "(nat \<times> bytes) list \<Rightarrow> bytes \<Rightarrow> bool \<times> bytes" where
  "apply_writes [] buffer = (True, buffer)"
| "apply_writes ((off, bs) # ws) buffer =
     (if off + length bs \<le> length buffer
      then apply_writes ws (take off buffer @ bs @ drop (off + length bs) buffer)
      else (False, buffer))"

lemma patch_byte_append [simp]: "patch_byte (pre @ xs) (length pre + i) = patch_byte xs i"
  by (simp add: patch_byte_def nth_append)

lemma patch_byte_append_numeral [simp]:
  "patch_byte (pre @ xs) (length pre) = patch_byte xs 0"
  "patch_byte (pre @ xs) (Suc (length pre)) = patch_byte xs 1"
  "patch_byte (pre @ xs) (Suc (Suc (length pre))) = patch_byte xs 2"
  using patch_byte_append [of pre xs 0] patch_byte_append [of pre xs 1] patch_byte_append [of pre xs 2] by simp_all

lemma patch_byte_Cons [simp]:
  "patch_byte (x # xs) 0 = Some x"
  "patch_byte (x # xs) (Suc i) = patch_byte xs i"
  "patch_byte (x # xs) (numeral k) = patch_byte xs (pred_numeral k)"
  by (simp_all add: patch_byte_def numeral_eq_Suc)

lemma unat_byte: "unat (of_nat n :: u8) = n mod 256"
  by (simp add: unat_of_nat)

lemma be16_value: "n < 2 ^ 16 \<Longrightarrow> 256 * unat (of_nat (n div 256) :: u8) + unat (of_nat n :: u8) = n"
  by (simp add: unat_byte less_mult_imp_div_less)

lemma be24_value:
  assumes "n < 2 ^ 24"
  shows "65536 * unat (of_nat (n div 65536) :: u8) + 256 * unat (of_nat (n div 256) :: u8) + unat (of_nat n :: u8) = n"
proof -
  have "n div 65536 = n div 256 div 256" using div_mult2_eq [of n 256 256] by simp
  moreover have "n div 65536 mod 256 = n div 65536" using assms by (simp add: less_mult_imp_div_less)
  ultimately show ?thesis
    unfolding unat_byte using div_mult_mod_eq [of "n div 256" 256] div_mult_mod_eq [of n 256] by linarith
qed

lemma ips_u16_at:
  "n < 2 ^ 16 \<Longrightarrow> ips_u16 (pre @ be16 n @ rest) (length pre) = Some n"
  using be16_value [of n] by (simp add: ips_u16_def be16_def)

lemma ips_u24_at:
  "n < 2 ^ 24 \<Longrightarrow> ips_u24 (pre @ be24 n @ rest) (length pre) = Some n"
  using be24_value [of n] by (simp add: ips_u24_def be24_def)

lemma be_length [simp]: "length (be16 n) = 2" "length (be24 n) = 3"
  by (simp_all add: be16_def be24_def)

lemma be24_eof:
  assumes "n < 2 ^ 24" "be24 n = IPS_EOF" shows "n = 0x454F46"
proof -
  have "unat (of_nat (n div 65536) :: u8) = 0x45" "unat (of_nat (n div 256) :: u8) = 0x4F"
    "unat (of_nat n :: u8) = 0x46"
    using assms(2) by (simp_all add: be24_def)
  then show ?thesis using be24_value [OF assms(1)] by simp
qed

text \<open>A record at the cursor is applied and passed.\<close>

lemma ips_data_step:
  assumes "ips_ok (Ips_Data off bs)"
  shows "ips_record_step (pre @ encode_ips (Ips_Data off bs) @ rest) (length pre) buffer =
    Some (if off + length bs \<le> length buffer
      then (Some (length pre + length (encode_ips (Ips_Data off bs))),
            take off buffer @ bs @ drop (off + length bs) buffer)
      else (None, buffer))"
proof -
  let ?ips = "pre @ be24 off @ be16 (length bs) @ bs @ rest"
  have "ips_u24 ?ips (length pre) = Some off"
    using assms by (simp add: ips_u24_at)
  moreover have "ips_u16 ?ips (length pre + 3) = Some (length bs)"
    using ips_u16_at [of "length bs" "pre @ be24 off" "bs @ rest"] assms by simp
  moreover have "bytes_range ?ips (length pre + 5) (length bs) = Some bs"
    by (simp add: bytes_range_def)
  ultimately show ?thesis
    using assms by (simp add: ips_record_step_def copy_in_def)
qed

lemma ips_fill_step:
  assumes "ips_ok (Ips_Fill off n b)"
  shows "ips_record_step (pre @ encode_ips (Ips_Fill off n b) @ rest) (length pre) buffer =
    Some (if off + n \<le> length buffer
      then (Some (length pre + length (encode_ips (Ips_Fill off n b))),
            take off buffer @ replicate n b @ drop (off + n) buffer)
      else (None, buffer))"
proof -
  let ?ips = "pre @ be24 off @ be16 0 @ be16 n @ b # rest"
  have "ips_u24 ?ips (length pre) = Some off"
    using assms by (simp add: ips_u24_at)
  moreover have "ips_u16 ?ips (length pre + 3) = Some 0"
    using ips_u16_at [of 0 "pre @ be24 off" "be16 n @ b # rest"] by simp
  moreover have "ips_u16 ?ips (length pre + 5) = Some n"
    using ips_u16_at [of n "pre @ be24 off @ be16 0" "b # rest"] assms by simp
  moreover have "patch_byte ?ips (length pre + 7) = Some b"
    using patch_byte_append_numeral(1) [of "pre @ be24 off @ be16 0 @ be16 n" "b # rest"] by simp
  ultimately show ?thesis
    by (simp add: ips_record_step_def copy_in_def)
qed

lemma ips_record_step_encoded:
  assumes "ips_ok r" and "ips_write r = (off, bs)"
  shows "ips_record_step (pre @ encode_ips r @ rest) (length pre) buffer =
    Some (if off + length bs \<le> length buffer
      then (Some (length pre + length (encode_ips r)), take off buffer @ bs @ drop (off + length bs) buffer)
      else (None, buffer))"
proof (cases r)
  case (Ips_Data o2 b2)
  then show ?thesis using assms ips_data_step [of o2 b2] by simp
next
  case (Ips_Fill o2 n b)
  then show ?thesis using assms ips_fill_step [of o2 n b] by auto
qed

lemma encode_ips_starts:
  assumes "ips_ok r" shows "take 3 (encode_ips r @ rest) \<noteq> IPS_EOF"
proof (cases r)
  case (Ips_Data off bs)
  then show ?thesis using assms be24_eof [of off] by (simp, metis)
next
  case (Ips_Fill off n b)
  then show ?thesis using assms be24_eof [of off] by (simp, metis)
qed

lemma encode_ips_length [simp]: "0 < length (encode_ips r)"
  by (cases r) simp_all

lemma ips_loop_encoded:
  assumes "\<forall>r \<in> set rs. ips_ok r"
  shows "ips_loop (pre @ concat (map encode_ips rs) @ IPS_EOF) (length pre) buffer =
    Some (apply_writes (map ips_write rs) buffer)"
  using assms
proof (induction rs arbitrary: pre buffer)
  case Nil
  show ?case by (subst ips_loop.simps) simp
next
  case (Cons r rs)
  obtain off bs where w: "ips_write r = (off, bs)" by fastforce
  let ?rest = "concat (map encode_ips rs) @ IPS_EOF"
  let ?ips = "pre @ encode_ips r @ ?rest"
  have r: "ips_ok r" using Cons.prems by simp
  note step = ips_record_step_encoded [OF r w, of pre ?rest buffer]
  have next_record: "ips_loop ?ips (length pre + length (encode_ips r)) buf =
      Some (apply_writes (map ips_write rs) buf)" for buf
    using Cons.IH [of "pre @ encode_ips r" buf] Cons.prems by simp
  have "length pre < length ?ips - 3"
    using encode_ips_length [of r] by (simp del: encode_ips_length)
  moreover have "take 3 (drop (length pre) ?ips) \<noteq> IPS_EOF"
    using encode_ips_starts [OF r, of ?rest] by simp
  ultimately have "ips_loop ?ips (length pre) buffer =
      (if off + length bs \<le> length buffer
       then ips_loop ?ips (length pre + length (encode_ips r)) (take off buffer @ bs @ drop (off + length bs) buffer)
       else Some (False, buffer))"
    by (subst ips_loop.simps) (simp add: step)
  then show ?case
    by (simp add: w next_record)
qed

text \<open>C30: Applying an IPS file performs its records on the buffer, data and fills in their order, up
  to the first that does not fit, which refuses the patch with what is written so far.\<close>

theorem ips_patch_applies:
  assumes "\<forall>r \<in> set rs. ips_ok r"
  shows "ApplyIpsPatch (ips_file rs) buffer = Some (apply_writes (map ips_write rs) buffer)"
proof -
  have "ips_file rs = IPS_HEADER @ concat (map encode_ips rs) @ IPS_EOF"
    by (simp add: ips_file_def)
  then show ?thesis
    using ips_loop_encoded [OF assms, of IPS_HEADER buffer]
    by (simp add: ApplyIpsPatch_def bytes_range_def eval_nat_numeral)
qed

text \<open>A data record cut off by the end of the file is copied from beyond the patch's bytes.\<close>

lemma ips_cut_record_step:
  assumes "off < 2 ^ 24" "length bs < n" "n < 2 ^ 16" "off + n \<le> length buffer"
  shows "ips_record_step (pre @ be24 off @ be16 n @ bs) (length pre) buffer = None"
proof -
  have "ips_u24 (pre @ be24 off @ be16 n @ bs) (length pre) = Some off"
    "ips_u16 (pre @ be24 off @ be16 n @ bs) (length pre + 3) = Some n"
    using ips_u24_at [of off pre "be16 n @ bs"] ips_u16_at [of n "pre @ be24 off" bs] assms by simp_all
  then show ?thesis
    using assms by (simp add: ips_record_step_def bytes_range_def)
qed

lemma ips_cut_record_overruns:
  assumes "off < 2 ^ 24" "off \<noteq> 0x454F46" "length bs < n" "n < 2 ^ 16" "off + n \<le> length buffer"
  shows "ApplyIpsPatch (IPS_HEADER @ be24 off @ be16 n @ bs) buffer = None"
proof -
  let ?ips = "IPS_HEADER @ be24 off @ be16 n @ bs"
  have "ips_record_step ?ips (length IPS_HEADER) buffer = None"
    using assms by (intro ips_cut_record_step)
  moreover have "take 3 (drop (length IPS_HEADER) ?ips) \<noteq> IPS_EOF"
    using be24_eof [of off] assms by (simp, metis)
  ultimately have "ips_loop ?ips (length IPS_HEADER) buffer = None"
    by (subst ips_loop.simps) simp
  then show ?thesis
    by (simp add: ApplyIpsPatch_def bytes_range_def eval_nat_numeral)
qed

section \<open>BPS numbers\<close>

text \<open>The variable-length encoding: seven bits a byte, the lowest first, the last byte marked with
  bit 7, and one subtracted from what is left so that no number has two encodings.\<close>

fun encode_number :: "nat \<Rightarrow> bytes" where
  "encode_number n =
     (if n < 128 then [of_nat (n + 128)] else of_nat (n mod 128) # encode_number (n div 128 - 1))"

declare encode_number.simps [simp del]

lemma byte_fields:
  assumes "n < 256"
  shows "(of_nat n :: u8) AND 0x7F = of_nat (n mod 128)" and "(of_nat n :: u8) AND 0x80 = 0 \<longleftrightarrow> n < 128"
proof -
  have "(of_nat n :: u8) AND mask 7 = take_bit 7 (of_nat n)" by (simp add: take_bit_eq_mask)
  also have "\<dots> = of_nat (n mod 128)"
    using assms by (subst word_unat_eq_iff) (simp add: unsigned_take_bit_eq unat_of_nat; simp add: take_bit_eq_mod)
  finally show "(of_nat n :: u8) AND 0x7F = of_nat (n mod 128)" by (simp add: mask_eq_exp_minus_1)
  have "(of_nat n :: u8) AND 2 ^ 7 = 0 \<longleftrightarrow> \<not> bit (of_nat n :: u8) 7"
    by (rule and_exp_eq_0_iff_not_bit)
  also have "\<dots> \<longleftrightarrow> \<not> odd (n div 128)" by (simp add: bit_of_nat_iff bit_nat_def)
  also have "\<dots> \<longleftrightarrow> n < 128"
  proof -
    have "n div 128 < 2" using assms by (simp add: less_mult_imp_div_less)
    then have "n div 128 = 0 \<or> n div 128 = 1" by linarith
    then show ?thesis using div_eq_0_iff [of n 128] by auto
  qed
  finally show "(of_nat n :: u8) AND 0x80 = 0 \<longleftrightarrow> n < 128" by simp
qed

lemma ucast_byte: "n < 256 \<Longrightarrow> ucast (of_nat n :: u8) = (of_nat n :: u32)"
  by (simp add: unsigned_of_nat take_bit_nat_eq_self)

lemma read_number_encoded:
  "read_number (encode_number n @ rest) num shift = (num + of_nat n * shift, length (encode_number n))"
proof (induction n arbitrary: num shift rule: encode_number.induct)
  case (1 n)
  show ?case
  proof (cases "n < 128")
    case True
    then show ?thesis
      using byte_fields [of "n + 128"] ucast_byte [of n]
      by (simp add: encode_number.simps [of n] del: of_nat_add)
  next
    case False
    let ?x = "of_nat (n mod 128) :: u8" and ?m = "n div 128 - 1"
    have x: "?x AND 0x7F = ?x" "?x AND 0x80 = 0"
      using byte_fields [of "n mod 128"] by simp_all
    have shift: "push_bit 7 shift = 128 * shift" by (simp add: push_bit_eq_mult)
    have "read_number (encode_number n @ rest) num shift =
        (num + of_nat (n mod 128) * shift + 128 * shift + of_nat ?m * (128 * shift), length (encode_number n))"
      using False "1.IH" [OF False] ucast_byte [of "n mod 128"]
      by (simp add: encode_number.simps [of n] x shift Let_def)
    moreover have "of_nat n = (of_nat (n mod 128) + 128 + of_nat ?m * 128 :: u32)"
    proof -
      have "0 < n div 128" using False by (simp add: div_greater_zero_iff)
      then have "n mod 128 + 128 + ?m * 128 = n"
        using div_mult_mod_eq [of n 128] by (simp add: diff_mult_distrib)
      then have "of_nat n = (of_nat (n mod 128 + 128 + ?m * 128) :: u32)" by (rule arg_cong [OF sym])
      then show ?thesis by (simp only: of_nat_add of_nat_mult of_nat_numeral)
    qed
    ultimately show ?thesis by (simp add: distrib_right mult.assoc add.assoc)
  qed
qed

section \<open>BPS commands\<close>

datatype bps_command =
    Source_Read nat
  | Target_Read bytes
  | Source_Copy nat nat
  | Target_Copy nat nat

fun command_length :: "bps_command \<Rightarrow> nat" where
  "command_length (Source_Read n) = n"
| "command_length (Target_Read bs) = length bs"
| "command_length (Source_Copy p n) = n"
| "command_length (Target_Copy p n) = n"

text \<open>A copy of \<open>n\<close> bytes from position \<open>p\<close> of the bytes produced so far, which may run into the bytes
  it produces itself.\<close>

fun self_copy :: "nat \<Rightarrow> nat \<Rightarrow> bytes \<Rightarrow> bytes" where
  "self_copy p 0 t = t"
| "self_copy p (Suc n) t = self_copy (Suc p) n (t @ [t ! p])"

text \<open>What a command adds to the target \<open>t\<close>; None if it reads what is not there.\<close>

fun command_output :: "bytes \<Rightarrow> bps_command \<Rightarrow> bytes \<Rightarrow> bytes option" where
  "command_output src (Source_Read n) t =
     (if length t + n \<le> length src then Some (t @ take n (drop (length t) src)) else None)"
| "command_output src (Target_Read bs) t = Some (t @ bs)"
| "command_output src (Source_Copy p n) t =
     (if p + n \<le> length src then Some (t @ take n (drop p src)) else None)"
| "command_output src (Target_Copy p n) t = (if p < length t then Some (self_copy p n t) else None)"

fun commands_output :: "nat \<Rightarrow> bytes \<Rightarrow> bps_command list \<Rightarrow> bytes \<Rightarrow> bytes option" where
  "commands_output cap src [] t = Some t"
| "commands_output cap src (c # cs) t =
     (if 0 < command_length c \<and> length t + command_length c \<le> cap
      then Option.bind (command_output src c t) (commands_output cap src cs) else None)"

text \<open>The bytes of a command; positions are written relative to the end of the last copy.\<close>

definition delta_number :: "nat \<Rightarrow> nat \<Rightarrow> nat" where
  "delta_number p from_offset = (if from_offset \<le> p then 2 * (p - from_offset) else 2 * (from_offset - p) + 1)"

definition command_head :: "nat \<Rightarrow> nat \<Rightarrow> bytes" where
  "command_head n k = encode_number (4 * (n - 1) + k)"

fun encode_command :: "bps_command \<Rightarrow> nat \<times> nat \<Rightarrow> bytes" where
  "encode_command (Source_Read n) (s, r) = command_head n 0"
| "encode_command (Target_Read bs) (s, r) = command_head (length bs) 1 @ bs"
| "encode_command (Source_Copy p n) (s, r) = command_head n 2 @ encode_number (delta_number p s)"
| "encode_command (Target_Copy p n) (s, r) = command_head n 3 @ encode_number (delta_number p r)"

fun next_relative :: "bps_command \<Rightarrow> nat \<times> nat \<Rightarrow> nat \<times> nat" where
  "next_relative (Source_Copy p n) (s, r) = (p + n, r)"
| "next_relative (Target_Copy p n) (s, r) = (s, p + n)"
| "next_relative _ sr = sr"

fun encode_commands :: "bps_command list \<Rightarrow> nat \<times> nat \<Rightarrow> bytes" where
  "encode_commands [] sr = []"
| "encode_commands (c # cs) sr = encode_command c sr @ encode_commands cs (next_relative c sr)"

subsection \<open>The fields of a command\<close>

lemma command_fields:
  assumes "0 < n" "n \<le> 2 ^ 30" "k < 4"
  shows "(of_nat (4 * (n - 1) + k) :: u32) AND 3 = of_nat k"
    and "unat (drop_bit 2 (of_nat (4 * (n - 1) + k)) + 1 :: u32) = n"
proof -
  let ?x = "4 * (n - 1) + k"
  have small: "?x < 2 ^ 32" using assms by simp
  have "unat ((of_nat ?x :: u32) AND 3) = ?x mod 4"
  proof -
    have "(of_nat ?x :: u32) AND 3 = take_bit 2 (of_nat ?x)"
      by (simp add: take_bit_eq_mask mask_eq_exp_minus_1)
    then show ?thesis
      using small by (simp add: unsigned_take_bit_eq unat_of_nat del: of_nat_add of_nat_mult; simp add: take_bit_eq_mod)
  qed
  then show "(of_nat ?x :: u32) AND 3 = of_nat k"
    using assms(3) by (subst word_unat_eq_iff) (simp add: unat_of_nat)
  have "unat (drop_bit 2 (of_nat ?x) :: u32) = ?x div 4"
    using small by (simp add: drop_bit_eq_div unat_div unat_of_nat del: of_nat_add of_nat_mult)
  then have d: "unat (drop_bit 2 (of_nat ?x) :: u32) = n - 1" using assms(3) by simp
  then have "unat (drop_bit 2 (of_nat ?x) + 1 :: u32) = n - 1 + 1"
    using assms(1,2) by (subst unat_plus_fits) simp_all
  then show "unat (drop_bit 2 (of_nat ?x) + 1 :: u32) = n" using assms(1) by simp
qed

lemma word_nat_inverse: "of_nat (unat w) = (w :: 'a :: len word)"
  by simp

lemma relative_offset_fields:
  assumes "d < 2 ^ 31"
  shows "relative_offset (of_nat (2 * d)) = of_nat d" and "relative_offset (of_nat (2 * d + 1)) = - of_nat d"
proof -
  have half: "drop_bit 1 (of_nat (2 * d + k) :: u32) = of_nat d" "(of_nat (2 * d + k) :: u32) AND 1 = of_nat k"
    if "k < 2" for k :: nat
  proof -
    let ?w = "of_nat (2 * d + k) :: u32"
    have w: "unat ?w = 2 * d + k" using that assms by (simp add: unat_of_nat del: of_nat_add of_nat_mult)
    have "unat (drop_bit 1 ?w) = d" "unat (?w AND 1) = k"
      using that by (simp_all add: drop_bit_eq_div unat_div unat_mod and_one_eq w flip: mod_2_eq_odd del: of_nat_add of_nat_mult)
    then show "drop_bit 1 ?w = of_nat d" and "?w AND 1 = of_nat k"
      using word_nat_inverse [of "drop_bit 1 ?w"] word_nat_inverse [of "?w AND 1"] by metis+
  qed
  have "ucast (of_nat d :: u32) = (of_nat d :: u64)"
    using assms by (simp add: unsigned_of_nat take_bit_nat_eq_self)
  then show "relative_offset (of_nat (2 * d)) = of_nat d" and "relative_offset (of_nat (2 * d + 1)) = - of_nat d"
    using half [of 0] half [of 1] by (simp_all add: relative_offset_def del: of_nat_mult of_nat_add)
qed

lemma relative_offset_delta:
  assumes "p < 2 ^ 31" "q < 2 ^ 31"
  shows "of_nat q + relative_offset (of_nat (delta_number p q)) = of_nat p"
proof (cases "q \<le> p")
  case True
  then obtain d where "p = q + d" by (auto simp: le_iff_add)
  then show ?thesis
    using assms relative_offset_fields(1) [of d] by (simp add: delta_number_def del: of_nat_mult)
next
  case False
  then obtain d where "q = p + d" "0 < d" by (metis less_imp_add_positive not_le)
  then show ?thesis
    using assms relative_offset_fields(2) [of d] by (simp add: delta_number_def del: of_nat_mult of_nat_Suc)
qed

lemma ReadNumber_encoded:
  "ReadNumber \<lparr>m_data = pre @ encode_number n @ rest, m_offset = length pre\<rparr> =
    (of_nat n, \<lparr>m_data = pre @ encode_number n @ rest, m_offset = length (pre @ encode_number n)\<rparr>)"
  by (simp add: ReadNumber_def read_number_encoded)

subsection \<open>One command\<close>

text \<open>The applier between two commands: \<open>t\<close> is the part of the target that is produced, of a buffer
  of \<open>cap\<close> bytes; \<open>pre\<close> the part of the patch that is read and \<open>rest\<close> what follows; the relative
  offsets are \<open>s\<close> and \<open>r\<close>, and \<open>o\<close> is where the source's stream stands, which no command depends on.\<close>

definition applier_at ::
  "nat \<Rightarrow> bytes \<Rightarrow> nat \<Rightarrow> bytes \<Rightarrow> bytes \<Rightarrow> bytes \<Rightarrow> nat \<times> nat \<Rightarrow> patch_applier" where
  "applier_at cap src so t pre rest sr =
     \<lparr>m_source = \<lparr>m_data = src, m_offset = so\<rparr>,
      m_target = \<lparr>m_data = t @ replicate (cap - length t) 0, m_offset = length t\<rparr>,
      m_patch = \<lparr>m_data = pre @ rest, m_offset = length pre\<rparr>,
      m_source_relative_offset = of_nat (fst sr), m_target_relative_offset = of_nat (snd sr)\<rparr>"

lemma copy_to_target:
  assumes "length t + n \<le> cap" "p + n \<le> length xs"
  shows "Stream_CopyFrom n \<lparr>m_data = t @ replicate (cap - length t) 0, m_offset = length t\<rparr>
      \<lparr>m_data = xs, m_offset = p\<rparr> =
    Some (\<lparr>m_data = (t @ take n (drop p xs)) @ replicate (cap - (length t + n)) 0, m_offset = length t + n\<rparr>,
      \<lparr>m_data = xs, m_offset = p + n\<rparr>)"
  using assms by (simp add: Stream_CopyFrom_def Stream_Read_def)

lemma HandleCommand_head:
  assumes "0 < n" "n \<le> 2 ^ 30" "k < 4"
  shows "HandleCommand (applier_at cap src so t pre (command_head n k @ rest) sr) =
    (let a = applier_at cap src so t (pre @ command_head n k) rest sr;
         len = drop_bit 2 (of_nat (4 * (n - 1) + k)) + 1
     in if k = 0 then SourceRead len a else if k = 1 then TargetRead len a
        else if k = 2 then SourceCopy len a else TargetCopy len a)"
proof -
  have k: "(of_nat k = (i :: u32)) = (k = unat i)" if "unat i < 4" for i
    using assms(3) that by (auto simp: word_unat_eq_iff unat_of_nat)
  show ?thesis
    using command_fields(1) [OF assms] assms(3) k [of 0] k [of 1] k [of 2]
    by (simp add: HandleCommand_def applier_at_def command_head_def ReadNumber_encoded Let_def
        del: of_nat_add of_nat_mult)
qed

lemma source_read_step:
  assumes "0 < n" "n \<le> 2 ^ 30" "length t + n \<le> cap" "length t + n \<le> length src"
  shows "HandleCommand (applier_at cap src so t pre (command_head n 0 @ rest) sr) =
    Some (True, applier_at cap src (length t + n) (t @ take n (drop (length t) src)) (pre @ command_head n 0) rest sr)"
  using command_fields(2) [of n 0] assms copy_to_target [OF assms(3,4)]
  by (subst HandleCommand_head) (simp_all add: SourceRead_def Let_def applier_at_def Stream_Seek_def del: of_nat_mult)

lemma target_read_step:
  assumes "0 < length bs" "length bs \<le> 2 ^ 30" "length t + length bs \<le> cap"
  shows "HandleCommand (applier_at cap src so t pre (command_head (length bs) 1 @ bs @ rest) sr) =
    Some (True, applier_at cap src so (t @ bs) (pre @ command_head (length bs) 1 @ bs) rest sr)"
  using command_fields(2) [of "length bs" 1] assms(1,2)
    copy_to_target [OF assms(3), of "length (pre @ command_head (length bs) 1)" "pre @ command_head (length bs) 1 @ bs @ rest"]
  by (subst HandleCommand_head) (simp_all add: TargetRead_def Let_def applier_at_def del: of_nat_mult of_nat_add of_nat_Suc)

lemma ucast_of_unat: "unat (w :: u32) = n \<Longrightarrow> (ucast w :: u64) = of_nat n"
  by (metis of_nat_unat)

lemma unat_word_small: "n < 2 ^ 64 \<Longrightarrow> unat (of_nat n :: u64) = n"
  by (simp add: unat_of_nat)

lemma source_copy_step:
  assumes "0 < n" "n \<le> 2 ^ 30" "length t + n \<le> cap" "p + n \<le> length src" "length src < 2 ^ 31" "fst sr < 2 ^ 31"
  shows "HandleCommand (applier_at cap src so t pre (command_head n 2 @ encode_number (delta_number p (fst sr)) @ rest) sr) =
    Some (True, applier_at cap src (p + n) (t @ take n (drop p src))
      (pre @ command_head n 2 @ encode_number (delta_number p (fst sr))) rest (p + n, snd sr))"
proof -
  let ?len = "drop_bit 2 (of_nat (4 * (n - 1) + 2)) + 1 :: u32"
  have "unat ?len = n" using command_fields(2) [of n 2] assms(1,2) by simp
  note len = this ucast_of_unat [OF this]
  have "of_nat (fst sr) + relative_offset (of_nat (delta_number p (fst sr))) = of_nat p" "unat (of_nat p :: u64) = p"
    using assms by (simp_all add: relative_offset_delta unat_word_small)
  then show ?thesis
    using len assms copy_to_target [OF assms(3,4)]
      ReadNumber_encoded [of "pre @ command_head n 2" "delta_number p (fst sr)" rest]
    by (subst HandleCommand_head) (simp_all add: SourceCopy_def Let_def applier_at_def Stream_Seek_def del: of_nat_mult)
qed

lemma self_copy_length: "length (self_copy p n t) = length t + n"
  by (induction p n t rule: self_copy.induct) simp_all

lemma target_copy_loop_output:
  assumes "p < length t" "length t + n \<le> cap" "cap < 2 ^ 31"
  shows "target_copy_loop n (length t) (of_nat p) (t @ replicate (cap - length t) 0) =
    Some (self_copy p n t @ replicate (cap - (length t + n)) 0, of_nat (p + n))"
  using assms
proof (induction n arbitrary: p t)
  case 0
  then show ?case by simp
next
  case (Suc n)
  let ?t = "t @ [t ! p]"
  have "unat (of_nat p :: u64) = p" using Suc.prems by (simp add: unat_word_small)
  then have "patch_byte (t @ replicate (cap - length t) 0) (unat (of_nat p :: u64)) = Some (t ! p)"
    using Suc.prems by (simp add: patch_byte_def nth_append)
  moreover have "(t @ replicate (cap - length t) 0)[length t := t ! p] = ?t @ replicate (cap - length ?t) 0"
  proof -
    have "cap - length t = Suc (cap - length ?t)" using Suc.prems by simp
    then show ?thesis by simp
  qed
  moreover have "of_nat p + 1 = (of_nat (Suc p) :: u64)" by simp
  ultimately show ?case
    using Suc.IH [of "Suc p" ?t] Suc.prems by (simp del: of_nat_Suc)
qed

lemma target_copy_step:
  assumes "0 < n" "n \<le> 2 ^ 30" "length t + n \<le> cap" "p < length t" "cap < 2 ^ 31" "snd sr < 2 ^ 31"
  shows "HandleCommand (applier_at cap src so t pre (command_head n 3 @ encode_number (delta_number p (snd sr)) @ rest) sr) =
    Some (True, applier_at cap src so (self_copy p n t)
      (pre @ command_head n 3 @ encode_number (delta_number p (snd sr))) rest (fst sr, p + n))"
proof -
  let ?len = "drop_bit 2 (of_nat (4 * (n - 1) + 3)) + 1 :: u32"
  have "unat ?len = n" using command_fields(2) [of n 3] assms(1,2) by simp
  note len = this ucast_of_unat [OF this]
  have "of_nat (snd sr) + relative_offset (of_nat (delta_number p (snd sr))) = of_nat p"
    "unat (of_nat p + of_nat n :: u64) = p + n"
    using assms unat_word_small [of "p + n"] by (simp_all add: relative_offset_delta)
  then show ?thesis
    using len assms target_copy_loop_output [OF assms(4,3,5)] self_copy_length [of p n t]
      ReadNumber_encoded [of "pre @ command_head n 3" "delta_number p (snd sr)" rest]
    by (subst HandleCommand_head) (simp_all add: TargetCopy_def Let_def applier_at_def del: of_nat_mult)
qed

lemma command_step:
  assumes "command_output src c t = Some t'" "0 < command_length c" "length t + command_length c \<le> cap"
    and "cap \<le> 2 ^ 30" "length src \<le> 2 ^ 30" "fst sr \<le> 2 ^ 30" "snd sr \<le> 2 ^ 30"
  shows "\<exists>so'. HandleCommand (applier_at cap src so t pre (encode_command c sr @ rest) sr) =
      Some (True, applier_at cap src so' t' (pre @ encode_command c sr) rest (next_relative c sr))"
    and "length t' = length t + command_length c"
    and "fst (next_relative c sr) \<le> 2 ^ 30" and "snd (next_relative c sr) \<le> 2 ^ 30"
proof -
  obtain s r where sr: "sr = (s, r)" by fastforce
  show "\<exists>so'. HandleCommand (applier_at cap src so t pre (encode_command c sr @ rest) sr) =
      Some (True, applier_at cap src so' t' (pre @ encode_command c sr) rest (next_relative c sr))"
  proof (cases c)
    case (Source_Read n)
    then show ?thesis
      using assms source_read_step [of n t cap src so pre rest sr] by (auto simp: sr split: if_splits)
  next
    case (Target_Read bs)
    then show ?thesis
      using assms target_read_step [of bs t cap src so pre rest sr] by (auto simp: sr)
  next
    case (Source_Copy p n)
    then show ?thesis
      using assms source_copy_step [of n t cap p src sr so pre rest] by (auto simp: sr split: if_splits)
  next
    case (Target_Copy p n)
    then show ?thesis
      using assms target_copy_step [of n t cap p sr src so pre rest] by (auto simp: sr split: if_splits)
  qed
  show "length t' = length t + command_length c"
    using assms(1) by (cases c) (auto simp: self_copy_length split: if_splits)
  show "fst (next_relative c sr) \<le> 2 ^ 30" "snd (next_relative c sr) \<le> 2 ^ 30"
    using assms by (cases c; auto simp: sr split: if_splits)+
qed

lemma encode_number_nonempty: "encode_number n \<noteq> []"
  by (subst encode_number.simps) simp

lemma encode_command_nonempty: "encode_command c sr \<noteq> []"
  by (cases c; cases sr) (simp_all add: command_head_def encode_number_nonempty)

lemma commands_run:
  assumes "commands_output cap src cs t = Some out" "length t \<le> cap"
    and "cap \<le> 2 ^ 30" "length src \<le> 2 ^ 30" "fst sr \<le> 2 ^ 30" "snd sr \<le> 2 ^ 30"
    and "unat command_end = length (pre @ encode_commands cs sr)"
  shows "length out \<le> cap \<and> (\<exists>a'. run_commands command_end (applier_at cap src so t pre (encode_commands cs sr @ foot) sr) =
      Some (True, a') \<and> m_data (m_target a') = out @ replicate (cap - length out) 0)"
  using assms
proof (induction cs arbitrary: t pre sr so)
  case Nil
  then show ?case by (subst run_commands.simps) (simp add: applier_at_def)
next
  case (Cons c cs)
  obtain t' where t': "command_output src c t = Some t'" "commands_output cap src cs t' = Some out"
      and c: "0 < command_length c" "length t + command_length c \<le> cap"
    using Cons.prems(1) by (auto split: if_splits bind_splits)
  note step = command_step [OF t'(1) c Cons.prems(3-6)]
  obtain so' where h: "HandleCommand (applier_at cap src so t pre (encode_command c sr @ (encode_commands cs (next_relative c sr) @ foot)) sr) =
      Some (True, applier_at cap src so' t' (pre @ encode_command c sr) (encode_commands cs (next_relative c sr) @ foot) (next_relative c sr))"
    using step(1) [of so pre "encode_commands cs (next_relative c sr) @ foot"] by blast
  have "m_offset (m_patch (applier_at cap src so t pre rest sr)) < unat command_end" for rest
    using Cons.prems(7) encode_command_nonempty [of c sr] by (simp add: applier_at_def)
  then have "run_commands command_end (applier_at cap src so t pre (encode_commands (c # cs) sr @ foot) sr) =
      run_commands command_end (applier_at cap src so' t' (pre @ encode_command c sr)
        (encode_commands cs (next_relative c sr) @ foot) (next_relative c sr))"
    by (subst run_commands.simps) (simp add: h)
  then show ?case
    using Cons.IH [OF t'(2) _ Cons.prems(3,4) step(3,4), of "pre @ encode_command c sr" so'] step(2) c(2) Cons.prems(7)
    by simp
qed

subsection \<open>A patch\<close>

lemma to_le_value: "x < 256 ^ n \<Longrightarrow> from_le (to_le n x) = x"
  by (induction n arbitrary: x) (auto simp: unat_of_nat less_mult_imp_div_less mult.commute)

lemma to_le_size: "length (to_le n x) = n"
  by (induction n arbitrary: x) simp_all

lemma Stream_Read_u32_encoded:
  "Stream_Read_u32 \<lparr>m_data = pre @ to_le 4 (unat w) @ rest, m_offset = length pre\<rparr> =
    Some (w, \<lparr>m_data = pre @ to_le 4 (unat w) @ rest, m_offset = length (pre @ to_le 4 (unat w))\<rparr>)"
  using unat_u32_less [of w]
  by (simp add: Stream_Read_u32_def Stream_Read_def to_le_value to_le_size)

text \<open>A file: the sizes \<open>n\<close> and \<open>m\<close> of source and target, no metadata, the commands, and a footer
  with the checksums of the source, of the target and of the patch itself, which the code does not
  read. Any such file comes down to the run of its commands.\<close>

definition bps_frame :: "nat \<Rightarrow> nat \<Rightarrow> bytes \<Rightarrow> u32 \<Rightarrow> u32 \<Rightarrow> u32 \<Rightarrow> bytes" where
  "bps_frame n m body c d e =
     ([0x42, 0x50, 0x53, 0x31] @ encode_number n @ encode_number m @ encode_number 0) @ body @
     to_le 4 (unat c) @ to_le 4 (unat d) @ to_le 4 (unat e)"

definition bps_start :: "nat \<Rightarrow> nat \<Rightarrow> bytes" where
  "bps_start n m = [0x42, 0x50, 0x53, 0x31] @ encode_number n @ encode_number m @ encode_number 0"

definition bps_result :: "(bytes \<Rightarrow> u32) \<Rightarrow> nat \<Rightarrow> u32 \<Rightarrow> bool \<times> patch_applier \<Rightarrow> bool \<times> bytes" where
  "bps_result crc m d r =
     (if fst r then (crc (take m (m_data (m_target (snd r)))) = d, m_data (m_target (snd r)))
      else (False, m_data (m_target (snd r))))"

lemma Apply_frame:
  assumes "n \<le> length src" "m \<le> length src" "n < 2 ^ 32" "m < 2 ^ 32" "length (bps_frame n m body c d e) < 2 ^ 64"
  shows "Apply crc \<lparr>m_source = \<lparr>m_data = src, m_offset = 0\<rparr>, m_target = \<lparr>m_data = src, m_offset = 0\<rparr>,
      m_patch = \<lparr>m_data = bps_frame n m body c d e, m_offset = 0\<rparr>,
      m_source_relative_offset = 0, m_target_relative_offset = 0\<rparr> =
    (if crc (take n src) \<noteq> c then Some (False, src)
     else map_option (bps_result crc m d) (run_commands (of_nat (length (bps_start n m @ body)))
       (applier_at (length src) src 0 [] (bps_start n m) (body @ to_le 4 (unat c) @ to_le 4 (unat d) @ to_le 4 (unat e)) (0, 0))))"
proof -
  let ?p0 = "[0x42, 0x50, 0x53, 0x31] :: bytes"
  let ?p1 = "?p0 @ encode_number n" let ?p2 = "?p1 @ encode_number m"
  let ?pre = "bps_start n m" let ?foot = "to_le 4 (unat c) @ to_le 4 (unat d) @ to_le 4 (unat e)"
  define f where "f = bps_frame n m body c d e"
  let ?at = "\<lambda>i. \<lparr>m_data = f, m_offset = i\<rparr>"
  define i0 where "i0 = length ?p0"
  define i1 where "i1 = length ?p1"
  define i2 where "i2 = length ?p2"
  define i3 where "i3 = length ?pre"
  define i4 where "i4 = length (?pre @ body)"
  define i5 where "i5 = length ((?pre @ body) @ to_le 4 (unat c))"
  define i6 where "i6 = length (((?pre @ body) @ to_le 4 (unat c)) @ to_le 4 (unat d))"
  have frame: "f = (?pre @ body) @ ?foot" by (simp add: f_def bps_frame_def bps_start_def)
  have magic: "Stream_Read 4 (?at 0) = Some (?p0, ?at i0)"
    by (simp add: Stream_Read_def f_def bps_frame_def i0_def)
  have numbers: "ReadNumber (?at i0) = (of_nat n, ?at i1)" "ReadNumber (?at i1) = (of_nat m, ?at i2)"
    "ReadNumber (?at i2) = (of_nat 0, ?at i3)"
    using ReadNumber_encoded [of ?p0 n "encode_number m @ encode_number 0 @ body @ ?foot"]
      ReadNumber_encoded [of ?p1 m "encode_number 0 @ body @ ?foot"]
      ReadNumber_encoded [of ?p2 0 "body @ ?foot"]
    by (simp_all only: frame i0_def i1_def i2_def i3_def bps_start_def append_assoc append_Cons append_Nil)
  have len: "length f = i4 + 12" by (simp add: frame i4_def to_le_size)
  then have end_offset: "of_nat (length f) - 12 = (of_nat i4 :: u64)" "unat (of_nat i4 :: u64) = i4"
    using assms(5) by (simp_all add: unat_word_small f_def)
  have seek: "Stream_Seek i4 (?at i) = Some (?at i4)" "Stream_Seek i3 (?at i) = Some (?at i3)" for i
    by (simp_all add: Stream_Seek_def len i3_def i4_def)
  have sums: "Stream_Read_u32 (?at i4) = Some (c, ?at i5)" "Stream_Read_u32 (?at i5) = Some (d, ?at i6)"
    using Stream_Read_u32_encoded [of "?pre @ body" c "to_le 4 (unat d) @ to_le 4 (unat e)"]
      Stream_Read_u32_encoded [of "(?pre @ body) @ to_le 4 (unat c)" d "to_le 4 (unat e)"]
    by (simp_all only: frame i4_def i5_def i6_def append_assoc)
  have sizes: "unat (of_nat n :: u32) = n" "unat (of_nat m :: u32) = m"
    using assms(3,4) by (simp_all add: unat_of_nat)
  have start: "applier_at (length src) src 0 [] ?pre (body @ ?foot) (0, 0) =
    \<lparr>m_source = \<lparr>m_data = src, m_offset = 0\<rparr>, m_target = \<lparr>m_data = replicate (length src) 0, m_offset = 0\<rparr>,
      m_patch = ?at i3, m_source_relative_offset = 0, m_target_relative_offset = 0\<rparr>"
    by (simp add: applier_at_def frame i3_def)
  show ?thesis
    using assms(1,2) unfolding start i4_def [symmetric] f_def [symmetric]
    by (simp add: Apply_def magic numbers end_offset seek sums sizes bps_result_def Let_def
        split: bind_split option.split)
qed

lemma ApplyBpsPatch_frame:
  assumes "src = (if n < m then resize m buffer else buffer)" "n \<le> length src" "m \<le> length src"
    and "n < 2 ^ 32" "m < 2 ^ 32" "length (bps_frame n m body c d e) < 2 ^ 64"
  shows "ApplyBpsPatch crc (bps_frame n m body c d e) buffer =
    (if crc (take n src) \<noteq> c then Some (False, src)
     else map_option (bps_result crc m d) (run_commands (of_nat (length (bps_start n m @ body)))
       (applier_at (length src) src 0 [] (bps_start n m) (body @ to_le 4 (unat c) @ to_le 4 (unat d) @ to_le 4 (unat e)) (0, 0))))"
proof -
  let ?p0 = "[0x42, 0x50, 0x53, 0x31] :: bytes"
  let ?foot = "to_le 4 (unat c) @ to_le 4 (unat d) @ to_le 4 (unat e)"
  define f where "f = bps_frame n m body c d e"
  let ?at = "\<lambda>i. \<lparr>m_data = f, m_offset = i\<rparr>"
  define i0 where "i0 = length ?p0"
  define i1 where "i1 = length (?p0 @ encode_number n)"
  define i2 where "i2 = length ((?p0 @ encode_number n) @ encode_number m)"
  have seek: "Stream_Seek 4 (?at 0) = Some (?at i0)"
    by (simp add: Stream_Seek_def f_def bps_frame_def i0_def)
  have numbers: "ReadNumber (?at i0) = (of_nat n, ?at i1)" "ReadNumber (?at i1) = (of_nat m, ?at i2)"
    using ReadNumber_encoded [of ?p0 n "encode_number m @ encode_number 0 @ body @ ?foot"]
      ReadNumber_encoded [of "?p0 @ encode_number n" m "encode_number 0 @ body @ ?foot"]
    by (simp_all only: f_def bps_frame_def i0_def i1_def i2_def append_assoc append_Cons append_Nil)
  have "unat (of_nat n :: u32) = n" and m: "unat (of_nat m :: u32) = m"
    using assms(4,5) by (simp_all add: unat_of_nat)
  then have "(of_nat m > (of_nat n :: u32)) = (n < m)" by (simp add: word_less_nat_alt)
  then have "ApplyBpsPatch crc f buffer = Apply crc \<lparr>m_source = \<lparr>m_data = src, m_offset = 0\<rparr>,
      m_target = \<lparr>m_data = src, m_offset = 0\<rparr>, m_patch = ?at 0,
      m_source_relative_offset = 0, m_target_relative_offset = 0\<rparr>"
    using assms(1) m by (simp add: ApplyBpsPatch_def seek numbers Let_def)
  then show ?thesis
    using Apply_frame [OF assms(2-6)] by (simp add: f_def)
qed

text \<open>C9: Applying a BPS file builds the target its commands describe: the buffer becomes the bytes
  that the commands produce from it, followed by zeros up to the larger of the two sizes, and the
  result says whether their checksum is the one in the file. If the checksum of the buffer is not the
  file's, the buffer is only resized and the patch is refused.\<close>

theorem bps_patch_builds_target:
  assumes "m = length out" "src = resize (max (length buffer) m) buffer"
    and "commands_output (length src) src cs [] = Some out"
    and "length buffer \<le> 2 ^ 30" "m \<le> 2 ^ 30"
    and "file = bps_frame (length buffer) m (encode_commands cs (0, 0)) c d e" "length file < 2 ^ 64"
  shows "ApplyBpsPatch crc file buffer =
    Some (if crc buffer = c then (crc out = d, out @ replicate (length buffer - m) 0) else (False, src))"
proof -
  let ?n = "length buffer" and ?body = "encode_commands cs (0, 0)"
  have src: "src = (if ?n < m then resize m buffer else buffer)" "length src = max ?n m" "take ?n src = buffer"
    using assms(2) by (auto simp: resize_def max_def)
  have fits: "?n \<le> length src" "m \<le> length src" "length src \<le> 2 ^ 30" "?n < 2 ^ 32" "m < 2 ^ 32"
    using assms(4,5) src(2) by simp_all
  have "length (bps_start ?n m @ ?body) < 2 ^ 64"
    using assms(6,7) by (simp add: bps_frame_def bps_start_def)
  then have "unat (of_nat (length (bps_start ?n m @ ?body)) :: u64) = length (bps_start ?n m @ ?body)"
    by (rule unat_word_small)
  from commands_run [OF assms(3) _ fits(3,3) _ _ this, of 0 "to_le 4 (unat c) @ to_le 4 (unat d) @ to_le 4 (unat e)"]
  obtain a where "run_commands (of_nat (length (bps_start ?n m @ ?body))) (applier_at (length src) src 0 []
      (bps_start ?n m) (?body @ to_le 4 (unat c) @ to_le 4 (unat d) @ to_le 4 (unat e)) (0, 0)) = Some (True, a)"
    "m_data (m_target a) = out @ replicate (length src - m) 0"
    using assms(1) by auto
  moreover have "length src - m = ?n - m" using src(2) by simp
  ultimately show ?thesis
    using ApplyBpsPatch_frame [OF src(1) fits(1,2,4,5), of ?body c d e crc] assms(1,6,7) src(3)
    by (simp add: bps_result_def)
qed

lemma target_copy_before_start:
  assumes "0 < q" "q \<le> n" "n \<le> cap" "n \<le> 2 ^ 30" "cap < 2 ^ 31"
  shows "HandleCommand (applier_at cap src so [] pre (command_head n 3 @ encode_number (2 * q + 1) @ rest) (0, 0)) = None"
proof -
  let ?len = "drop_bit 2 (of_nat (4 * (n - 1) + 3)) + 1 :: u32" and ?q = "of_nat q :: u64"
  have "unat ?len = n" using command_fields(2) [of n 3] assms by simp
  note len = this ucast_of_unat [OF this]
  have rel: "relative_offset (of_nat (2 * q + 1)) = - ?q"
    using assms by (intro relative_offset_fields(2)) simp
  have "- ?q + of_nat n = of_nat (n - q)" using assms(2) by (simp add: of_nat_diff)
  then have passes: "unat (- ?q + of_nat n) \<le> cap" using assms unat_word_small [of "n - q"] by simp
  have "\<not> unat (- ?q) < cap"
  proof
    assume r: "unat (- ?q) < cap"
    have "of_nat (q + unat (- ?q)) = (0 :: u64)" by simp
    then have "q + unat (- ?q) = 0" using r assms unat_word_small [of "q + unat (- ?q)"] by simp
    then show False using assms(1) by simp
  qed
  then have "patch_byte (replicate cap 0) (unat (- ?q)) = None" by (simp add: patch_byte_def)
  moreover obtain j where "n = Suc j" using assms(1,2) by (cases n) auto
  ultimately have "target_copy_loop n 0 (- ?q) (replicate cap 0) = None" by simp
  then show ?thesis
    using len rel passes assms ReadNumber_encoded [of "pre @ command_head n 3" "2 * q + 1" rest]
    by (subst HandleCommand_head) (simp_all add: TargetCopy_def Let_def applier_at_def del: of_nat_mult of_nat_add of_nat_Suc)
qed

text \<open>C31: A BPS file can make the emulator read before the first byte of the buffer. The relative
  offset of a copy within the target is a \<open>size_t\<close> that a negative delta wraps, and the check adds
  the length to it and wraps back: the first command of a file that copies \<open>n\<close> bytes from \<open>q \<le> n\<close> bytes
  before the target passes the check and reads outside of the vector.\<close>

theorem bps_copy_before_target:
  assumes "0 < q" "q \<le> n" "n \<le> length buffer" "length buffer \<le> 2 ^ 30"
    and "file = bps_frame (length buffer) (length buffer) (command_head n 3 @ encode_number (2 * q + 1)) (crc buffer) d e"
    and "length file < 2 ^ 64"
  shows "ApplyBpsPatch crc file buffer = None"
proof -
  let ?n = "length buffer" and ?body = "command_head n 3 @ encode_number (2 * q + 1)"
  let ?foot = "to_le 4 (unat (crc buffer)) @ to_le 4 (unat d) @ to_le 4 (unat e)"
  have "length (bps_start ?n ?n @ ?body) < 2 ^ 64"
    using assms(5,6) by (simp add: bps_frame_def bps_start_def)
  then have "unat (of_nat (length (bps_start ?n ?n @ ?body)) :: u64) = length (bps_start ?n ?n @ ?body)"
    by (rule unat_word_small)
  then have "run_commands (of_nat (length (bps_start ?n ?n @ ?body)))
      (applier_at ?n buffer 0 [] (bps_start ?n ?n) (?body @ ?foot) (0, 0)) = None"
    using target_copy_before_start [of q n ?n buffer 0 "bps_start ?n ?n" ?foot] assms(1-4)
      encode_number_nonempty [of "2 * q + 1"]
    by (subst run_commands.simps) (simp add: applier_at_def)
  then show ?thesis
    using ApplyBpsPatch_frame [of buffer ?n ?n buffer ?body "crc buffer" d e crc] assms(4-6) by simp
qed

section \<open>Witnesses\<close>

lemma ips_patch_applies_witness:
  "ApplyIpsPatch (ips_file [Ips_Data 1 [7, 8], Ips_Fill 3 2 9]) [0, 0, 0, 0, 0, 0] = Some (True, [0, 7, 8, 9, 9, 0])"
  using ips_patch_applies [of "[Ips_Data 1 [7, 8], Ips_Fill 3 2 9]" "[0, 0, 0, 0, 0, 0]"]
  by (simp add: replicate_numeral)

lemma bps_patch_builds_target_witness:
  "ApplyBpsPatch (\<lambda>bs. of_nat (length bs))
     (bps_frame 3 5 (encode_commands [Source_Copy 1 2, Target_Read [9], Target_Copy 0 2] (0, 0)) 3 5 0) [1, 2, 3] =
   Some (True, [2, 3, 9, 2, 3])"
proof -
  let ?cs = "[Source_Copy 1 2, Target_Read [9], Target_Copy 0 2] :: bps_command list"
  let ?file = "bps_frame 3 5 (encode_commands ?cs (0, 0)) 3 5 0"
  have m: "5 = length [2, 3, 9, 2, 3 :: u8]"
    and src: "[1, 2, 3, 0, 0] = resize (max (length [1, 2, 3 :: u8]) 5) [1, 2, 3]"
    by (simp_all add: resize_def numeral_2_eq_2)
  have out: "commands_output (length [1, 2, 3, 0, 0 :: u8]) [1, 2, 3, 0, 0] ?cs [] = Some [2, 3, 9, 2, 3]"
    by (simp add: numeral_2_eq_2)
  have small: "length [1, 2, 3 :: u8] \<le> 2 ^ 30" "(5 :: nat) \<le> 2 ^ 30" by simp_all
  have whole: "?file = bps_frame (length [1, 2, 3 :: u8]) 5 (encode_commands ?cs (0, 0)) 3 5 0"
    by (simp add: numeral_3_eq_3)
  have "length ?file < 2 ^ 64"
    by (simp add: bps_frame_def encode_number.simps command_head_def delta_number_def to_le_size)
  from bps_patch_builds_target [OF m src out small whole this, of "\<lambda>bs. of_nat (length bs)"]
  show ?thesis by simp
qed

lemma bps_copy_before_target_witness:
  "ApplyBpsPatch (\<lambda>bs. of_nat (length bs)) (bps_frame 1 1 (command_head 1 3 @ encode_number 3) 1 0 0) [5] = None"
proof (rule bps_copy_before_target [where q = 1 and n = 1 and d = 0 and e = 0])
  show "length (bps_frame 1 1 (command_head 1 3 @ encode_number 3) 1 0 0) < 2 ^ 64"
    by (simp add: bps_frame_def encode_number.simps command_head_def to_le_size)
qed simp_all
end
