(* ===== verification/GatewayCheat.thy ===== *)
theory GatewayCheat
  imports MemoryAccess CoreTiming
begin

text \<open>Cheat codes: the interpreter of \<open>core/cheats/gateway_cheat.cpp\<close>. A cheat is a list of lines,
  each an operation on two registers (\<open>reg\<close> and the offset), the memory and the control state: how
  many conditions are open and false (\<open>if_flag\<close>) and the one loop. The system a cheat runs on is a
  parameter, the record \<open>cheat_system\<close>, and \<open>system_on\<close> is the one of \<open>MemoryAccess\<close>. Accesses are by
  the number of their bytes, as \<open>MemorySystem::Read\<close> and \<open>Write\<close> are there. None is a crash of an access,
  a read outside of the lines or of the fields of a line that were never set, and a cheat that does not
  return.\<close>

section \<open>Lines\<close>

text \<open>\<open>CT_Unnamed\<close> is a value of the enumeration's type that has no name.\<close>

datatype CheatType =
    CT_Null | CT_Write32 | CT_Write16 | CT_Write8
  | CT_GreaterThan32 | CT_LessThan32 | CT_EqualTo32 | CT_NotEqualTo32
  | CT_GreaterThan16WithMask | CT_LessThan16WithMask | CT_EqualTo16WithMask | CT_NotEqualTo16WithMask
  | CT_LoadOffset | CT_Loop | CT_Terminator | CT_LoopExecuteVariant | CT_FullTerminator
  | CT_SetOffset | CT_AddValue | CT_SetValue
  | CT_IncrementiveWrite32 | CT_IncrementiveWrite16 | CT_IncrementiveWrite8
  | CT_Load32 | CT_Load16 | CT_Load8 | CT_AddOffset | CT_Joker | CT_Patch | CT_Unnamed int

definition cheat_types :: "(int \<times> CheatType) list" where
  "cheat_types =
     [(-1, CT_Null), (0x00, CT_Write32), (0x01, CT_Write16), (0x02, CT_Write8),
      (0x03, CT_GreaterThan32), (0x04, CT_LessThan32), (0x05, CT_EqualTo32), (0x06, CT_NotEqualTo32),
      (0x07, CT_GreaterThan16WithMask), (0x08, CT_LessThan16WithMask), (0x09, CT_EqualTo16WithMask),
      (0x0A, CT_NotEqualTo16WithMask), (0x0B, CT_LoadOffset), (0x0C, CT_Loop), (0xD0, CT_Terminator),
      (0xD1, CT_LoopExecuteVariant), (0xD2, CT_FullTerminator), (0xD3, CT_SetOffset), (0xD4, CT_AddValue),
      (0xD5, CT_SetValue), (0xD6, CT_IncrementiveWrite32), (0xD7, CT_IncrementiveWrite16),
      (0xD8, CT_IncrementiveWrite8), (0xD9, CT_Load32), (0xDA, CT_Load16), (0xDB, CT_Load8),
      (0xDC, CT_AddOffset), (0xDD, CT_Joker), (0xE, CT_Patch)]"

definition cheat_type_of :: "int \<Rightarrow> CheatType" where
  "cheat_type_of i = (case map_of cheat_types i of Some t \<Rightarrow> t | None \<Rightarrow> CT_Unnamed i)"

text \<open>The numbers of a line that is not valid are not set, but for the first where only the second is
  not a number; they are 0 here and not read.\<close>

record cheat_line =
  line_type :: CheatType
  line_address :: u32
  line_value :: u32
  line_first :: u32
  line_text :: string
  line_valid :: bool
  line_first_set :: bool

section \<open>State\<close>

record cheat_state =
  reg :: u32
  cheat_offset :: u32
  if_flag :: u32
  loop_count :: u32
  loop_back_line :: u64
  current_line_nr :: u64
  loop_flag :: bool

definition cheat_state0 :: cheat_state where
  "cheat_state0 = \<lparr>reg = 0, cheat_offset = 0, if_flag = 0, loop_count = 0, loop_back_line = 0,
     current_line_nr = 0, loop_flag = False\<rparr>"

record 'm cheat_system =
  mem_read :: "nat \<Rightarrow> u32 \<Rightarrow> 'm \<Rightarrow> (nat \<times> 'm) run"
  mem_write :: "nat \<Rightarrow> u32 \<Rightarrow> nat \<Rightarrow> 'm \<Rightarrow> 'm run"
  invalidate_cache :: "u32 \<Rightarrow> u32 \<Rightarrow> 'm \<Rightarrow> 'm"
  pad_state :: "'m \<Rightarrow> u32"

definition system_on ::
  "'g mem_env \<Rightarrow> page_table \<Rightarrow> (u32 \<Rightarrow> u32 \<Rightarrow> 'g machine \<Rightarrow> 'g machine) \<Rightarrow> ('g machine \<Rightarrow> u32) \<Rightarrow>
   'g machine cheat_system" where
  "system_on env pt invalidate pad =
     \<lparr>mem_read = MemorySystem_Read env pt, mem_write = MemorySystem_Write env pt,
      invalidate_cache = invalidate, pad_state = pad\<rparr>"

section \<open>Operations\<close>

text \<open>\<open>n\<close> is \<open>sizeof(T)\<close>; \<open>cast_to n\<close> is \<open>static_cast<T>\<close>.\<close>

definition cast_to :: "nat \<Rightarrow> u32 \<Rightarrow> nat" where
  "cast_to n w = unat w mod 256 ^ n"

definition write_changed :: "'m cheat_system \<Rightarrow> nat \<Rightarrow> u32 \<Rightarrow> nat \<Rightarrow> 'm \<Rightarrow> 'm run" where
  "write_changed sys n addr v m = do {
     (val, m) \<leftarrow> mem_read sys n addr m;
     if val \<noteq> v then do {
       m \<leftarrow> mem_write sys n addr v m;
       Some (invalidate_cache sys addr (of_nat n) m)}
     else Some m}"

definition WriteOp ::
  "'m cheat_system \<Rightarrow> nat \<Rightarrow> cheat_line \<Rightarrow> cheat_state \<Rightarrow> 'm \<Rightarrow> (cheat_state \<times> 'm) run" where
  "WriteOp sys n line st m = do {
     m \<leftarrow> write_changed sys n (line_address line + cheat_offset st) (cast_to n (line_value line)) m;
     Some (st, m)}"

definition CompOp ::
  "'m cheat_system \<Rightarrow> nat \<Rightarrow> (nat \<Rightarrow> bool) \<Rightarrow> cheat_line \<Rightarrow> cheat_state \<Rightarrow> 'm \<Rightarrow> (cheat_state \<times> 'm) run" where
  "CompOp sys n cmp line st m = do {
     (val, m) \<leftarrow> mem_read sys n (line_address line + cheat_offset st) m;
     Some (if cmp val then st else st\<lparr>if_flag := if_flag st + 1\<rparr>, m)}"

definition LoadOffsetOp :: "'m cheat_system \<Rightarrow> cheat_line \<Rightarrow> cheat_state \<Rightarrow> 'm \<Rightarrow> (cheat_state \<times> 'm) run" where
  "LoadOffsetOp sys line st m = do {
     (val, m) \<leftarrow> mem_read sys 4 (line_address line + cheat_offset st) m;
     Some (st\<lparr>cheat_offset := of_nat val\<rparr>, m)}"

definition LoopOp :: "cheat_line \<Rightarrow> cheat_state \<Rightarrow> cheat_state" where
  "LoopOp line st =
     st\<lparr>loop_flag := loop_count st < line_value line, loop_count := loop_count st + 1,
        loop_back_line := current_line_nr st\<rparr>"

definition TerminateOp :: "cheat_state \<Rightarrow> cheat_state" where
  "TerminateOp st = (if if_flag st > 0 then st\<lparr>if_flag := if_flag st - 1\<rparr> else st)"

definition LoopExecuteVariantOp :: "cheat_state \<Rightarrow> cheat_state" where
  "LoopExecuteVariantOp st =
     (if loop_flag st then st\<lparr>current_line_nr := loop_back_line st - 1\<rparr> else st\<lparr>loop_count := 0\<rparr>)"

definition FullTerminateOp :: "cheat_state \<Rightarrow> cheat_state" where
  "FullTerminateOp st =
     (if loop_flag st then st\<lparr>current_line_nr := loop_back_line st - 1\<rparr>
      else st\<lparr>cheat_offset := 0, reg := 0, loop_count := 0, if_flag := 0, loop_flag := False\<rparr>)"

definition SetOffsetOp :: "cheat_line \<Rightarrow> cheat_state \<Rightarrow> cheat_state" where
  "SetOffsetOp line st = st\<lparr>cheat_offset := line_value line\<rparr>"

definition AddValueOp :: "cheat_line \<Rightarrow> cheat_state \<Rightarrow> cheat_state" where
  "AddValueOp line st = st\<lparr>reg := reg st + line_value line\<rparr>"

definition SetValueOp :: "cheat_line \<Rightarrow> cheat_state \<Rightarrow> cheat_state" where
  "SetValueOp line st = st\<lparr>reg := line_value line\<rparr>"

definition IncrementiveWriteOp ::
  "'m cheat_system \<Rightarrow> nat \<Rightarrow> cheat_line \<Rightarrow> cheat_state \<Rightarrow> 'm \<Rightarrow> (cheat_state \<times> 'm) run" where
  "IncrementiveWriteOp sys n line st m = do {
     m \<leftarrow> write_changed sys n (line_value line + cheat_offset st) (cast_to n (reg st)) m;
     Some (st\<lparr>cheat_offset := cheat_offset st + of_nat n\<rparr>, m)}"

definition LoadOp :: "'m cheat_system \<Rightarrow> nat \<Rightarrow> cheat_line \<Rightarrow> cheat_state \<Rightarrow> 'm \<Rightarrow> (cheat_state \<times> 'm) run" where
  "LoadOp sys n line st m = do {
     (val, m) \<leftarrow> mem_read sys n (line_value line + cheat_offset st) m;
     Some (st\<lparr>reg := of_nat val\<rparr>, m)}"

definition AddOffsetOp :: "cheat_line \<Rightarrow> cheat_state \<Rightarrow> cheat_state" where
  "AddOffsetOp line st = st\<lparr>cheat_offset := cheat_offset st + line_value line\<rparr>"

definition JokerOp :: "'m cheat_system \<Rightarrow> cheat_line \<Rightarrow> cheat_state \<Rightarrow> 'm \<Rightarrow> cheat_state" where
  "JokerOp sys line st m =
     (if pad_state sys m AND line_value line = line_value line then st else st\<lparr>if_flag := if_flag st + 1\<rparr>)"

subsection \<open>Patches\<close>

text \<open>A word of the data lines behind a patch: the first number of a line, then its second.\<close>

definition patch_word :: "cheat_line list \<Rightarrow> u64 \<Rightarrow> bool \<Rightarrow> u32 run" where
  "patch_word lines nr first =
     (if \<not> unat nr < length lines then None
      else
        (let d = lines ! unat nr
         in if first then (if line_first_set d then Some (line_first d) else None)
            else (if line_valid d then Some (line_value d) else None)))"

function patch_words ::
  "'m cheat_system \<Rightarrow> cheat_line list \<Rightarrow> u64 \<Rightarrow> u32 \<Rightarrow> nat \<Rightarrow> bool \<Rightarrow> 'm \<Rightarrow>
   (u64 \<times> u32 \<times> nat \<times> bool \<times> 'm) run" where
  "patch_words sys lines nr addr num_bytes first m =
     (if num_bytes \<ge> 4 then do {
        tmp \<leftarrow> patch_word lines nr first;
        let nr = (if \<not> first \<and> num_bytes > 4 then nr + 1 else nr);
        m \<leftarrow> mem_write sys 4 addr (unat tmp) m;
        patch_words sys lines nr (addr + 4) (num_bytes - 4) (\<not> first) m}
      else Some (nr, addr, num_bytes, first, m))"
  by pat_completeness auto
termination by (relation "measure (\<lambda>(sys, lines, nr, addr, num_bytes, first, m). num_bytes)") auto

declare patch_words.simps [simp del]

fun patch_bytes ::
  "'m cheat_system \<Rightarrow> cheat_line list \<Rightarrow> u64 \<Rightarrow> bool \<Rightarrow> u32 \<Rightarrow> nat \<Rightarrow> nat \<Rightarrow> 'm \<Rightarrow> 'm run" where
  "patch_bytes sys lines nr first addr 0 bit_offset m = Some m"
| "patch_bytes sys lines nr first addr (Suc num_bytes) bit_offset m = do {
     tmp \<leftarrow> patch_word lines nr first;
     m \<leftarrow> mem_write sys 1 addr (cast_to 1 (drop_bit bit_offset tmp)) m;
     patch_bytes sys lines nr first (addr + 1) num_bytes (bit_offset + 8) m}"

definition PatchOp ::
  "'m cheat_system \<Rightarrow> cheat_line list \<Rightarrow> cheat_line \<Rightarrow> cheat_state \<Rightarrow> 'm \<Rightarrow> (cheat_state \<times> 'm) run" where
  "PatchOp sys lines line st m =
     (if if_flag st > 0 then
        Some (st\<lparr>current_line_nr := current_line_nr st + of_nat ((unat (line_value line) + 7) div 8)\<rparr>, m)
      else do {
        let num_bytes = line_value line;
        let addr = line_address line + cheat_offset st;
        let m = invalidate_cache sys addr num_bytes m;
        let nr = (if num_bytes > 0 then current_line_nr st + 1 else current_line_nr st);
        (nr, addr, num_bytes, first, m) \<leftarrow> patch_words sys lines nr addr (unat num_bytes) True m;
        m \<leftarrow> patch_bytes sys lines nr first addr num_bytes 0 m;
        Some (st\<lparr>current_line_nr := nr\<rparr>, m)})"

section \<open>Execution\<close>

text \<open>The operand of a comparison under a mask: \<open>~line.value >> 16\<close> and the value, cut to 16 bits.\<close>

definition masked :: "cheat_line \<Rightarrow> nat \<Rightarrow> nat" where
  "masked line val = cast_to 2 (drop_bit 16 (NOT (line_value line))  AND of_nat val)"

definition is_condition :: "CheatType \<Rightarrow> bool" where
  "is_condition t \<longleftrightarrow>
     t \<in> {CT_GreaterThan32, CT_LessThan32, CT_EqualTo32, CT_NotEqualTo32, CT_GreaterThan16WithMask,
       CT_LessThan16WithMask, CT_EqualTo16WithMask, CT_NotEqualTo16WithMask, CT_Joker}"

text \<open>A line below a condition that is false.\<close>

definition skip_line ::
  "'m cheat_system \<Rightarrow> cheat_line list \<Rightarrow> cheat_line \<Rightarrow> cheat_state \<Rightarrow> 'm \<Rightarrow> (cheat_state \<times> 'm) run" where
  "skip_line sys lines line st m =
     (if is_condition (line_type line) then Some (st\<lparr>if_flag := if_flag st + 1\<rparr>, m)
      else if line_type line = CT_Patch then PatchOp sys lines line st m
      else if line_type line = CT_Terminator then Some (TerminateOp st, m)
      else if line_type line = CT_FullTerminator then Some (FullTerminateOp st, m)
      else Some (st, m))"

definition execute_line ::
  "'m cheat_system \<Rightarrow> cheat_line list \<Rightarrow> cheat_line \<Rightarrow> cheat_state \<Rightarrow> 'm \<Rightarrow> (cheat_state \<times> 'm) run" where
  "execute_line sys lines line st m =
     (if if_flag st > 0 then skip_line sys lines line st m
      else (case line_type line of
         CT_Null \<Rightarrow> Some (st, m)
       | CT_Write32 \<Rightarrow> WriteOp sys 4 line st m
       | CT_Write16 \<Rightarrow> WriteOp sys 2 line st m
       | CT_Write8 \<Rightarrow> WriteOp sys 1 line st m
       | CT_GreaterThan32 \<Rightarrow> CompOp sys 4 (\<lambda>val. unat (line_value line) > val) line st m
       | CT_LessThan32 \<Rightarrow> CompOp sys 4 (\<lambda>val. unat (line_value line) < val) line st m
       | CT_EqualTo32 \<Rightarrow> CompOp sys 4 (\<lambda>val. unat (line_value line) = val) line st m
       | CT_NotEqualTo32 \<Rightarrow> CompOp sys 4 (\<lambda>val. unat (line_value line) \<noteq> val) line st m
       | CT_GreaterThan16WithMask \<Rightarrow> CompOp sys 2 (\<lambda>val. cast_to 2 (line_value line) > masked line val) line st m
       | CT_LessThan16WithMask \<Rightarrow> CompOp sys 2 (\<lambda>val. cast_to 2 (line_value line) < masked line val) line st m
       | CT_EqualTo16WithMask \<Rightarrow> CompOp sys 2 (\<lambda>val. cast_to 2 (line_value line) = masked line val) line st m
       | CT_NotEqualTo16WithMask \<Rightarrow> CompOp sys 2 (\<lambda>val. cast_to 2 (line_value line) \<noteq> masked line val) line st m
       | CT_LoadOffset \<Rightarrow> LoadOffsetOp sys line st m
       | CT_Loop \<Rightarrow> Some (LoopOp line st, m)
       | CT_Terminator \<Rightarrow> Some (TerminateOp st, m)
       | CT_LoopExecuteVariant \<Rightarrow> Some (LoopExecuteVariantOp st, m)
       | CT_FullTerminator \<Rightarrow> Some (FullTerminateOp st, m)
       | CT_SetOffset \<Rightarrow> Some (SetOffsetOp line st, m)
       | CT_AddValue \<Rightarrow> Some (AddValueOp line st, m)
       | CT_SetValue \<Rightarrow> Some (SetValueOp line st, m)
       | CT_IncrementiveWrite32 \<Rightarrow> IncrementiveWriteOp sys 4 line st m
       | CT_IncrementiveWrite16 \<Rightarrow> IncrementiveWriteOp sys 2 line st m
       | CT_IncrementiveWrite8 \<Rightarrow> IncrementiveWriteOp sys 1 line st m
       | CT_Load32 \<Rightarrow> LoadOp sys 4 line st m
       | CT_Load16 \<Rightarrow> LoadOp sys 2 line st m
       | CT_Load8 \<Rightarrow> LoadOp sys 1 line st m
       | CT_AddOffset \<Rightarrow> Some (AddOffsetOp line st, m)
       | CT_Joker \<Rightarrow> Some (JokerOp sys line st m, m)
       | CT_Patch \<Rightarrow> PatchOp sys lines line st m
       | CT_Unnamed _ \<Rightarrow> Some (st, m)))"

text \<open>The loop over the lines.\<close>

partial_function (option) execute_loop ::
  "'m cheat_system \<Rightarrow> cheat_line list \<Rightarrow> cheat_state \<Rightarrow> 'm \<Rightarrow> 'm run" where
  "execute_loop sys lines st m =
     (if unat (current_line_nr st) < length lines then do {
        (st, m) \<leftarrow> execute_line sys lines (lines ! unat (current_line_nr st)) st m;
        execute_loop sys lines (st\<lparr>current_line_nr := current_line_nr st + 1\<rparr>) m}
      else Some m)"

record gateway_cheat =
  cheat_enabled :: bool
  cheat_name :: string
  cheat_lines :: "cheat_line list"
  cheat_comments :: string

definition GatewayCheat_Execute :: "'m cheat_system \<Rightarrow> gateway_cheat \<Rightarrow> 'm \<Rightarrow> 'm run" where
  "GatewayCheat_Execute sys cheat m = execute_loop sys (cheat_lines cheat) cheat_state0 m"
end
