(* ===== verification/CheatProofs.thy ===== *)
theory CheatProofs
  imports GatewayCheat
begin

text \<open>What a cheat does. The lines of a cheat are a flat list with a jump back and a counter of false
  conditions; its author writes blocks: conditions with an end, a loop with an end, patches with their
  data. The reference here gives blocks their meaning by recursion, and the property is that the
  interpreter run on the lines of a program of blocks has that meaning. A single operation means what
  \<open>execute_line\<close> does with it alone.\<close>

section \<open>Programs of blocks\<close>

datatype cheat_stmt =
    Plain cheat_line
  | With_Data cheat_line "cheat_line list"
  | When cheat_line "cheat_stmt list"
  | Repeat cheat_line "cheat_stmt list"

definition end_line :: "CheatType \<Rightarrow> cheat_line" where
  "end_line t = \<lparr>line_type = t, line_address = 0, line_value = 0, line_first = 0, line_text = [], line_valid = True,
     line_first_set = True\<rparr>"

fun lines_of :: "cheat_stmt \<Rightarrow> cheat_line list" and block_lines :: "cheat_stmt list \<Rightarrow> cheat_line list" where
  "lines_of (Plain l) = [l]"
| "lines_of (With_Data l ds) = l # ds"
| "lines_of (When l ss) = l # block_lines ss @ [end_line CT_Terminator]"
| "lines_of (Repeat l ss) = l # block_lines ss @ [end_line CT_LoopExecuteVariant]"
| "block_lines [] = []"
| "block_lines (s # ss) = lines_of s @ block_lines ss"

text \<open>Programs that are well formed: a patch has all its data and a loop holds no loop.\<close>

definition plain_type :: "CheatType \<Rightarrow> bool" where
  "plain_type t \<longleftrightarrow> \<not> is_condition t \<and>
     t \<notin> {CT_Loop, CT_Terminator, CT_LoopExecuteVariant, CT_FullTerminator, CT_Patch}"

definition line_readable :: "cheat_line \<Rightarrow> bool" where
  "line_readable d \<longleftrightarrow> line_valid d \<and> line_first_set d"

definition data_ok :: "cheat_line \<Rightarrow> cheat_line list \<Rightarrow> bool" where
  "data_ok l ds \<longleftrightarrow> line_type l = CT_Patch \<and> length ds = (unat (line_value l) + 7) div 8 \<and> list_all line_readable ds"

fun simple :: "cheat_stmt \<Rightarrow> bool" and simple_block :: "cheat_stmt list \<Rightarrow> bool" where
  "simple (Plain l) \<longleftrightarrow> plain_type (line_type l)"
| "simple (With_Data l ds) \<longleftrightarrow> data_ok l ds"
| "simple (When l ss) \<longleftrightarrow> is_condition (line_type l) \<and> simple_block ss"
| "simple (Repeat l ss) \<longleftrightarrow> False"
| "simple_block [] \<longleftrightarrow> True"
| "simple_block (s # ss) \<longleftrightarrow> simple s \<and> simple_block ss"

fun good :: "cheat_stmt \<Rightarrow> bool" and good_block :: "cheat_stmt list \<Rightarrow> bool" where
  "good (Plain l) \<longleftrightarrow> plain_type (line_type l)"
| "good (With_Data l ds) \<longleftrightarrow> data_ok l ds"
| "good (When l ss) \<longleftrightarrow> is_condition (line_type l) \<and> good_block ss"
| "good (Repeat l ss) \<longleftrightarrow> line_type l = CT_Loop \<and> simple_block ss"
| "good_block [] \<longleftrightarrow> True"
| "good_block (s # ss) \<longleftrightarrow> good s \<and> good_block ss"

section \<open>Their meaning\<close>

text \<open>What a program works on: the register, the offset and the memory.\<close>

type_synonym 'm cheat_data = "u32 \<times> u32 \<times> 'm"

definition alone :: "u32 \<Rightarrow> u32 \<Rightarrow> cheat_state" where
  "alone r off = cheat_state0\<lparr>reg := r, cheat_offset := off\<rparr>"

definition plain_effect :: "'m cheat_system \<Rightarrow> cheat_line \<Rightarrow> 'm cheat_data \<Rightarrow> 'm cheat_data run" where
  "plain_effect sys l = (\<lambda>(r, off, m). do {
     (st, m) \<leftarrow> execute_line sys [] l (alone r off) m;
     Some (reg st, cheat_offset st, m)})"

text \<open>Whether a condition holds.\<close>

definition condition :: "'m cheat_system \<Rightarrow> cheat_line \<Rightarrow> 'm cheat_data \<Rightarrow> (bool \<times> 'm) run" where
  "condition sys l = (\<lambda>(r, off, m). do {
     (st, m) \<leftarrow> execute_line sys [] l (alone r off) m;
     Some (if_flag st = 0, m)})"

text \<open>The words of the data lines, and what a patch writes of them.\<close>

definition data_words :: "cheat_line list \<Rightarrow> u32 list" where
  "data_words ds = concat (map (\<lambda>d. [line_first d, line_value d]) ds)"

fun write_seq :: "'m cheat_system \<Rightarrow> nat \<Rightarrow> u32 \<Rightarrow> nat list \<Rightarrow> 'm \<Rightarrow> 'm run" where
  "write_seq sys n addr [] m = Some m"
| "write_seq sys n addr (v # vs) m = do {
     m \<leftarrow> mem_write sys n addr v m;
     write_seq sys n (addr + of_nat n) vs m}"

definition patch_effect ::
  "'m cheat_system \<Rightarrow> cheat_line \<Rightarrow> cheat_line list \<Rightarrow> 'm cheat_data \<Rightarrow> 'm cheat_data run" where
  "patch_effect sys l ds = (\<lambda>(r, off, m).
     (let n = unat (line_value l);
          addr = line_address l + off;
          ws = data_words ds
      in do {
        m \<leftarrow> write_seq sys 4 addr (map unat (take (n div 4) ws)) (invalidate_cache sys addr (line_value l) m);
        m \<leftarrow> write_seq sys 1 (addr + of_nat (4 * (n div 4)))
               (map (\<lambda>i. cast_to 1 (drop_bit (8 * i) (ws ! (n div 4)))) [0..<n mod 4]) m;
        Some (r, off, m)}))"

fun repeat_run :: "nat \<Rightarrow> ('a \<Rightarrow> 'a run) \<Rightarrow> 'a \<Rightarrow> 'a run" where
  "repeat_run 0 f x = Some x"
| "repeat_run (Suc n) f x = Option.bind (f x) (repeat_run n f)"

text \<open>A loop with the number \<open>N\<close> runs its block \<open>N + 1\<close> times.\<close>

fun stmt_effect :: "'m cheat_system \<Rightarrow> cheat_stmt \<Rightarrow> 'm cheat_data \<Rightarrow> 'm cheat_data run"
and block_effect :: "'m cheat_system \<Rightarrow> cheat_stmt list \<Rightarrow> 'm cheat_data \<Rightarrow> 'm cheat_data run" where
  "stmt_effect sys (Plain l) = plain_effect sys l"
| "stmt_effect sys (With_Data l ds) = patch_effect sys l ds"
| "stmt_effect sys (When l ss) = (\<lambda>(r, off, m). do {
     (holds, m) \<leftarrow> condition sys l (r, off, m);
     if holds then block_effect sys ss (r, off, m) else Some (r, off, m)})"
| "stmt_effect sys (Repeat l ss) = repeat_run (Suc (unat (line_value l))) (block_effect sys ss)"
| "block_effect sys [] = Some"
| "block_effect sys (s # ss) = (\<lambda>d. Option.bind (stmt_effect sys s d) (block_effect sys ss))"

section \<open>Single lines\<close>

abbreviation (input) at_line :: "cheat_state \<Rightarrow> nat \<Rightarrow> cheat_state" where
  "at_line st i \<equiv> st\<lparr>current_line_nr := of_nat i\<rparr>"

lemma unat_line_nr: "n < 2 ^ 32 \<Longrightarrow> unat (of_nat n :: u64) = n"
  by (simp add: unat_of_nat)

lemma execute_loop_step:
  assumes "length (pre @ l # post) < 2 ^ 32"
  shows "execute_loop sys (pre @ l # post) (at_line st (length pre)) m =
    (case execute_line sys (pre @ l # post) l (at_line st (length pre)) m of
       None \<Rightarrow> None
     | Some (st', m') \<Rightarrow> execute_loop sys (pre @ l # post) (st'\<lparr>current_line_nr := current_line_nr st' + 1\<rparr>) m')"
proof -
  have nr: "unat (of_nat (length pre) :: u64) = length pre"
    using assms by (intro unat_line_nr) simp
  show ?thesis
    by (subst execute_loop.simps) (simp add: nr split: option.split)
qed

lemma next_line [simp]: "(of_nat n :: u64) + 1 = of_nat (Suc n)"
  by simp

text \<open>A plain line and a condition depend on the register and the offset and change nothing else,
  but for the count of false conditions.\<close>

lemma execute_plain:
  assumes "plain_type (line_type l)" "if_flag st = 0"
  shows "execute_line sys lines l st m =
    map_option (\<lambda>(r, off, m). (st\<lparr>reg := r, cheat_offset := off\<rparr>, m)) (plain_effect sys l (reg st, cheat_offset st, m))"
  using assms
  by (cases "line_type l")
    (auto simp: plain_type_def is_condition_def execute_line_def plain_effect_def alone_def cheat_state0_def
      WriteOp_def LoadOffsetOp_def SetOffsetOp_def AddValueOp_def SetValueOp_def IncrementiveWriteOp_def
      LoadOp_def AddOffsetOp_def split: bind_split)

lemma execute_condition:
  assumes "is_condition (line_type l)" "if_flag st = 0"
  shows "execute_line sys lines l st m =
    map_option (\<lambda>(holds, m). (if holds then st else st\<lparr>if_flag := 1\<rparr>, m)) (condition sys l (reg st, cheat_offset st, m))"
  using assms
  by (cases "line_type l")
    (auto simp: is_condition_def execute_line_def condition_def alone_def cheat_state0_def
      CompOp_def JokerOp_def split: bind_split)

section \<open>Patches\<close>

lemma data_words_length [simp]: "length (data_words ds) = 2 * length ds"
  by (induction ds) (simp_all add: data_words_def)

lemma data_words_Cons [simp]: "data_words (d # ds) = line_first d # line_value d # data_words ds"
  by (simp add: data_words_def)

lemma data_words_nth:
  "k < 2 * length ds \<Longrightarrow>
     data_words ds ! k = (if even k then line_first (ds ! (k div 2)) else line_value (ds ! (k div 2)))"
proof (induction ds arbitrary: k)
  case (Cons d ds)
  show ?case
  proof (cases k)
    case (Suc j)
    then show ?thesis using Cons by (cases j) auto
  qed simp
qed simp

lemma map_option_bind': "map_option f (Option.bind x g) = Option.bind x (\<lambda>y. map_option f (g y))"
  by (cases x) simp_all

lemma bind_map_option: "Option.bind (map_option f x) g = Option.bind x (\<lambda>y. g (f y))"
  by (cases x) simp_all

lemma patch_word_at:
  assumes "lines = pre @ ds @ post" "length lines < 2 ^ 32" "k < 2 * length ds" "list_all line_readable ds"
  shows "patch_word lines (of_nat (length pre + k div 2)) (even k) = Some (data_words ds ! k)"
proof -
  have i: "k div 2 < length ds" using assms(3) by simp
  moreover have "unat (of_nat (length pre + k div 2) :: u64) = length pre + k div 2"
    using assms(1,2) i by (intro unat_line_nr) simp
  moreover have "lines ! (length pre + k div 2) = ds ! (k div 2)"
    using assms(1) i by (simp add: nth_append)
  ultimately show ?thesis
    using assms by (simp add: patch_word_def data_words_nth list_all_length line_readable_def del: of_nat_add)
qed

text \<open>The loops of a patch from word \<open>k\<close> on: \<open>n > 0\<close> bytes are left, and the line number stays at the
  line of the last word that is read.\<close>

lemma patch_words_run:
  assumes "lines = pre @ ds @ post" "length lines < 2 ^ 32" "list_all line_readable ds" "4 * k + n \<le> 8 * length ds" "0 < n"
  shows "patch_words sys lines (of_nat (length pre + k div 2)) addr n (even k) m =
    map_option (\<lambda>m. (of_nat (length pre + (k + (n - 1) div 4) div 2), addr + of_nat (4 * (n div 4)), n mod 4,
        even (k + n div 4), m))
      (write_seq sys 4 addr (map unat (take (n div 4) (drop k (data_words ds)))) m)"
  using assms(4,5)
proof (induction n arbitrary: k addr m rule: less_induct)
  case (less n)
  show ?case
  proof (cases "n < 4")
    case True
    then show ?thesis using less.prems by (subst patch_words.simps) simp
  next
    case False
    then obtain j where n: "n = j + 4" by (metis add.commute le_iff_add not_less)
    have k: "k < 2 * length ds" using less.prems False by simp
    note word = patch_word_at [OF assms(1,2) k assms(3)]
    have div: "n div 4 = Suc (j div 4)" "n mod 4 = j mod 4" using n by simp_all
    have words: "take (n div 4) (drop k (data_words ds)) =
        data_words ds ! k # take (j div 4) (drop (Suc k) (data_words ds))"
      using k by (simp add: div Cons_nth_drop_Suc [symmetric])
    show ?thesis
    proof (cases "j = 0")
      case True
      then show ?thesis
        using word words n
        by (subst patch_words.simps) (simp add: patch_words.simps [of _ _ _ _ 0] del: of_nat_add split: bind_split)
    next
      case False
      let ?nr = "\<lambda>i. of_nat (length pre + i div 2) :: u64" and ?w = "data_words ds ! k"
      have nr: "(if \<not> even k \<and> n > 4 then ?nr k + 1 else ?nr k) = ?nr (Suc k)"
        using n False by (cases "even k") (simp_all flip: of_nat_Suc del: of_nat_add)
      have step: "patch_words sys lines (?nr k) addr n (even k) m =
          Option.bind (mem_write sys 4 addr (unat ?w) m) (patch_words sys lines (?nr (Suc k)) (addr + 4) j (even (Suc k)))"
        using n by (subst patch_words.simps) (simp only: word nr Let_def bind.bind_lunit, use False in \<open>simp add: algebra_simps\<close>)
      have rest: "patch_words sys lines (?nr (Suc k)) (addr + 4) j (even (Suc k)) m' =
          map_option (\<lambda>m. (of_nat (length pre + (Suc k + (j - 1) div 4) div 2), addr + 4 + of_nat (4 * (j div 4)), j mod 4,
            even (Suc k + j div 4), m))
          (write_seq sys 4 (addr + 4) (map unat (take (j div 4) (drop (Suc k) (data_words ds)))) m')" for m'
        using less.IH [of j "Suc k"] less.prems n False by simp
      have last: "k + (n - 1) div 4 = Suc k + (j - 1) div 4"
        using n False by (cases j) simp_all
      show ?thesis
        unfolding step last words rest [THEN ext]
        by (simp add: div map_option_bind' del: of_nat_add of_nat_mult) (simp add: algebra_simps)
    qed
  qed
qed

lemma patch_bytes_run:
  assumes "0 < n \<longrightarrow> patch_word lines nr first = Some w"
  shows "patch_bytes sys lines nr first addr n b m =
    write_seq sys 1 addr (map (\<lambda>i. cast_to 1 (drop_bit (b + 8 * i) w)) [0..<n]) m"
  using assms
proof (induction n arbitrary: addr b m)
  case (Suc n)
  have "map (\<lambda>i. cast_to 1 (drop_bit (b + 8 * i) w)) [0..<Suc n] =
      cast_to 1 (drop_bit b w) # map (\<lambda>i. cast_to 1 (drop_bit (b + 8 + 8 * i) w)) [0..<n]"
    by (simp add: upt_conv_Cons map_Suc_upt [symmetric] add.assoc del: upt_Suc)
  moreover have "patch_bytes sys lines nr first a n k =
      write_seq sys 1 a (map (\<lambda>i. cast_to 1 (drop_bit (k + 8 * i) w)) [0..<n])" for a k
    using Suc by (intro ext) simp
  ultimately show ?case using Suc.prems by (simp del: upt_Suc)
qed simp

lemma execute_patch:
  assumes "lines = pre @ l # ds @ post" "length lines < 2 ^ 32" "data_ok l ds" "if_flag st = 0"
  shows "execute_line sys lines l (at_line st (length pre)) m =
    map_option (\<lambda>(r, off, m). (at_line st (length pre + length ds), m))
      (patch_effect sys l ds (reg st, cheat_offset st, m))"
proof -
  have l: "line_type l = CT_Patch" and ds: "length ds = (unat (line_value l) + 7) div 8" "list_all line_readable ds"
    using assms(3) by (auto simp: data_ok_def)
  define n where "n = unat (line_value l)"
  show ?thesis
  proof (cases "n = 0")
    case True
    then have "line_value l = 0" "ds = []" using ds by (simp_all add: n_def word_unat_eq_iff)
    then show ?thesis
      using l assms(4) by (simp add: execute_line_def PatchOp_def patch_words.simps patch_effect_def data_words_def)
  next
    case False
    let ?lines = "(pre @ [l]) @ ds @ post"
    have lines: "lines = ?lines" using assms(1) by simp
    have pos: "line_value l > 0" using False by (simp add: n_def word_gt_0 word_unat_eq_iff)
    have fits: "4 * 0 + n \<le> 8 * length ds" using ds(1) by (simp add: n_def)
    have last: "length (pre @ [l]) + (0 + (n - 1) div 4) div 2 = length pre + length ds"
      using ds(1) False by (simp add: n_def [symmetric] div_mult2_eq [symmetric] Suc_diff_le)
    have tail: "0 < n mod 4 \<longrightarrow> patch_word lines (of_nat (length pre + length ds)) (even (n div 4)) = Some (data_words ds ! (n div 4))"
    proof
      assume "0 < n mod 4"
      then have "n div 4 = (n - 1) div 4" by (cases n) (auto simp: div_Suc mod_Suc split: if_splits)
      then have line: "length (pre @ [l]) + n div 4 div 2 = length pre + length ds" using last by simp
      have "n div 4 < 2 * length ds" using ds(1) \<open>0 < n mod 4\<close> by (simp add: n_def) presburger
      from patch_word_at [OF lines assms(2) this ds(2), unfolded line]
      show "patch_word lines (of_nat (length pre + length ds)) (even (n div 4)) = Some (data_words ds ! (n div 4))"
        by simp
    qed
    have words: "patch_words sys lines (1 + of_nat (length pre)) addr n True m =
        map_option (\<lambda>m. (of_nat (length pre + length ds), addr + of_nat (4 * (n div 4)), n mod 4, even (n div 4), m))
          (write_seq sys 4 addr (map unat (take (n div 4) (data_words ds))) m)" for addr m
      using patch_words_run [OF lines assms(2) ds(2) fits, unfolded last] False by simp
    show ?thesis
      using l assms(4) pos False
      by (simp add: execute_line_def PatchOp_def Let_def words n_def [symmetric] patch_effect_def
        patch_bytes_run [OF tail] map_option_bind' bind_map_option comp_def del: of_nat_add even_add)
  qed
qed

section \<open>Below a false condition\<close>

lemma simple_good: "simple s \<Longrightarrow> good s" "simple_block ss \<Longrightarrow> good_block ss"
  by (induction s and ss rule: lines_of_block_lines.induct) auto

lemma if_flag_up:
  assumes "unat (f :: u32) + 1 < 2 ^ 32" shows "unat (f + 1) = unat f + 1"
  using assms unat_plus_fits [of f 1] by simp

lemma execute_skip:
  assumes "if_flag st \<noteq> 0"
  shows "execute_line sys lines l st m = skip_line sys lines l st m"
  using assms by (simp add: execute_line_def word_gt_0)

text \<open>Lines are passed without an effect, and the count of conditions is as before at the end of a
  block: nested conditions end, loops do not run, patches take their data with them.\<close>

lemma skip_run:
  "good s \<Longrightarrow> if_flag st \<noteq> 0 \<Longrightarrow> unat (if_flag st) + length (lines_of s) < 2 ^ 32 \<Longrightarrow>
     length (pre @ lines_of s @ post) < 2 ^ 32 \<Longrightarrow>
     execute_loop sys (pre @ lines_of s @ post) (at_line st (length pre)) m =
     execute_loop sys (pre @ lines_of s @ post) (at_line st (length pre + length (lines_of s))) m"
  "good_block ss \<Longrightarrow> if_flag st \<noteq> 0 \<Longrightarrow> unat (if_flag st) + length (block_lines ss) < 2 ^ 32 \<Longrightarrow>
     length (pre @ block_lines ss @ post) < 2 ^ 32 \<Longrightarrow>
     execute_loop sys (pre @ block_lines ss @ post) (at_line st (length pre)) m =
     execute_loop sys (pre @ block_lines ss @ post) (at_line st (length pre + length (block_lines ss))) m"
proof (induction s and ss arbitrary: st pre post m and st pre post m rule: lines_of_block_lines.induct)
  case (1 l)
  then show ?case
    using execute_loop_step [of pre l post sys st m]
    by (simp add: execute_skip skip_line_def plain_type_def)
next
  case (2 l ds)
  have "line_type l = CT_Patch" "length ds = (unat (line_value l) + 7) div 8"
    using 2(1) by (simp_all add: data_ok_def)
  moreover have "if_flag st > 0" using 2(2) by (simp add: word_gt_0)
  ultimately show ?case
    using execute_loop_step [of pre l "ds @ post" sys st m] 2
    by (simp add: execute_skip skip_line_def is_condition_def PatchOp_def flip: of_nat_add)
next
  case (3 l ss)
  let ?lines = "pre @ (l # block_lines ss @ [end_line CT_Terminator]) @ post"
  let ?st = "st\<lparr>if_flag := if_flag st + 1\<rparr>" and ?n = "length pre + 1 + length (block_lines ss)"
  have f: "unat (if_flag ?st) = unat (if_flag st) + 1"
    using 3(4) if_flag_up [of "if_flag st"] by simp
  then have f0: "if_flag st + 1 \<noteq> 0" by (metis cheat_state.select_convs(3) cheat_state.update_convs(3) cheat_state.surjective unat_0 add_is_0 one_neq_zero)
  have "execute_loop sys ?lines (at_line st (length pre)) m = execute_loop sys ?lines (at_line ?st (length pre + 1)) m"
    using execute_loop_step [of pre l "block_lines ss @ [end_line CT_Terminator] @ post" sys st m] 3
    by (simp add: execute_skip skip_line_def)
  also have "\<dots> = execute_loop sys ?lines (at_line ?st ?n) m"
    using "3.IH" [of ?st "pre @ [l]" "[end_line CT_Terminator] @ post"] 3(2-) f f0 by simp
  also have "\<dots> = execute_loop sys ?lines (at_line st (Suc ?n)) m"
    using execute_loop_step [of "pre @ l # block_lines ss" "end_line CT_Terminator" post sys ?st m] 3(2-) f0
    by (simp add: execute_skip skip_line_def end_line_def is_condition_def TerminateOp_def word_gt_0)
  finally show ?case by simp
next
  case (4 l ss)
  let ?lines = "pre @ (l # block_lines ss @ [end_line CT_LoopExecuteVariant]) @ post"
  let ?n = "length pre + 1 + length (block_lines ss)"
  have "execute_loop sys ?lines (at_line st (length pre)) m = execute_loop sys ?lines (at_line st (length pre + 1)) m"
    using execute_loop_step [of pre l "block_lines ss @ [end_line CT_LoopExecuteVariant] @ post" sys st m] 4
    by (simp add: execute_skip skip_line_def is_condition_def)
  also have "\<dots> = execute_loop sys ?lines (at_line st ?n) m"
    using "4.IH" [of st "pre @ [l]" "[end_line CT_LoopExecuteVariant] @ post"] 4(2-) simple_good(2) by simp
  also have "\<dots> = execute_loop sys ?lines (at_line st (Suc ?n)) m"
    using execute_loop_step [of "pre @ l # block_lines ss" "end_line CT_LoopExecuteVariant" post sys st m] 4(2-)
    by (simp add: execute_skip skip_line_def end_line_def is_condition_def)
  finally show ?case by simp
next
  case 5
  then show ?case by simp
next
  case (6 s ss)
  then show ?case
    using "6.IH"(1) [of st pre "block_lines ss @ post" m]
      "6.IH"(2) [of st "pre @ lines_of s" post m]
    by (simp add: add.assoc)
qed

section \<open>Blocks\<close>

abbreviation (input) with_data :: "cheat_state \<Rightarrow> u32 \<Rightarrow> u32 \<Rightarrow> cheat_state" where
  "with_data st r off \<equiv> st\<lparr>reg := r, cheat_offset := off\<rparr>"

lemma with_data_same [simp]: "st\<lparr>reg := reg st, cheat_offset := cheat_offset st\<rparr> = st"
  by simp

lemma no_false_conditions: "if_flag st = 0 \<Longrightarrow> st\<lparr>if_flag := 0\<rparr> = st"
  by simp

text \<open>The first and the last line of a condition.\<close>

lemma condition_starts:
  assumes "is_condition (line_type l)" "if_flag st = 0" "length (pre @ l # block_lines ss @ end_line CT_Terminator # post) < 2 ^ 32"
  shows "execute_loop sys (pre @ l # block_lines ss @ end_line CT_Terminator # post) (at_line st (length pre)) m =
    Option.bind (condition sys l (reg st, cheat_offset st, m)) (\<lambda>(holds, m).
      execute_loop sys (pre @ l # block_lines ss @ end_line CT_Terminator # post)
        (at_line (if holds then st else st\<lparr>if_flag := 1\<rparr>) (length pre + 1)) m)"
  using execute_loop_step [of pre l "block_lines ss @ end_line CT_Terminator # post" sys st m] assms
  by (auto simp: execute_condition split: option.split)

lemma condition_ends:
  assumes "if_flag st = 0 \<or> if_flag st = 1" "length (pre @ l # block_lines ss @ end_line CT_Terminator # post) < 2 ^ 32"
  shows "execute_loop sys (pre @ l # block_lines ss @ end_line CT_Terminator # post)
      (at_line st (length pre + 1 + length (block_lines ss))) m =
    execute_loop sys (pre @ l # block_lines ss @ end_line CT_Terminator # post)
      (at_line (st\<lparr>if_flag := 0\<rparr>) (Suc (length pre + 1 + length (block_lines ss)))) m"
  using execute_loop_step [of "pre @ l # block_lines ss" "end_line CT_Terminator" post sys st m] assms
  by (auto simp: execute_line_def skip_line_def end_line_def is_condition_def TerminateOp_def no_false_conditions)

text \<open>Blocks without loops change the register, the offset, the memory and the line number alone.\<close>

lemma simple_run:
  "simple s \<Longrightarrow> if_flag st = 0 \<Longrightarrow> length (pre @ lines_of s @ post) < 2 ^ 32 \<Longrightarrow>
     execute_loop sys (pre @ lines_of s @ post) (at_line st (length pre)) m =
     Option.bind (stmt_effect sys s (reg st, cheat_offset st, m)) (\<lambda>(r, off, m).
       execute_loop sys (pre @ lines_of s @ post) (at_line (with_data st r off) (length pre + length (lines_of s))) m)"
  "simple_block ss \<Longrightarrow> if_flag st = 0 \<Longrightarrow> length (pre @ block_lines ss @ post) < 2 ^ 32 \<Longrightarrow>
     execute_loop sys (pre @ block_lines ss @ post) (at_line st (length pre)) m =
     Option.bind (block_effect sys ss (reg st, cheat_offset st, m)) (\<lambda>(r, off, m).
       execute_loop sys (pre @ block_lines ss @ post) (at_line (with_data st r off) (length pre + length (block_lines ss))) m)"
proof (induction s and ss arbitrary: st pre post m and st pre post m rule: lines_of_block_lines.induct)
  case (1 l)
  then show ?case
    using execute_loop_step [of pre l post sys st m]
    by (simp add: execute_plain bind_map_option map_option_bind' split: option.split)
next
  case (2 l ds)
  then show ?case
    using execute_loop_step [of pre l "ds @ post" sys st m]
      execute_patch [of "pre @ l # ds @ post" pre l ds post st sys m]
    by (auto simp: patch_effect_def Let_def ac_simps split: option.split bind_split)
next
  case (3 l ss)
  let ?lines = "pre @ l # block_lines ss @ end_line CT_Terminator # post"
  let ?n = "length pre + 1 + length (block_lines ss)" and ?st = "st\<lparr>if_flag := 1\<rparr>"
  have last: "execute_loop sys ?lines (at_line st' ?n) m' =
      execute_loop sys ?lines (at_line (st'\<lparr>if_flag := 0\<rparr>) (Suc ?n)) m'"
    if "if_flag st' = 0 \<or> if_flag st' = 1" for st' m'
    using condition_ends [OF that] 3(2-) by simp
  have skip: "execute_loop sys ?lines (?st\<lparr>current_line_nr := 1 + of_nat (length pre)\<rparr>) m' =
      execute_loop sys ?lines (at_line st (Suc ?n)) m'" for m'
    using skip_run(2) [of ss ?st "pre @ [l]" "end_line CT_Terminator # post" sys m'] 3(2-) simple_good(2) last [of ?st m']
    by (simp add: no_false_conditions)
  have body: "execute_loop sys ?lines (st\<lparr>current_line_nr := 1 + of_nat (length pre)\<rparr>) m' =
      Option.bind (block_effect sys ss (reg st, cheat_offset st, m')) (\<lambda>(r, off, m).
        execute_loop sys ?lines (at_line (with_data st r off) (Suc ?n)) m)" for m'
  proof -
    have "execute_loop sys ?lines (at_line (with_data st r off) ?n) m =
        execute_loop sys ?lines (at_line (with_data st r off) (Suc ?n)) m" for r off m
      using last [of "with_data st r off" m] 3(3) by (simp add: no_false_conditions)
    then show ?thesis
      using "3.IH" [of st "pre @ [l]" "end_line CT_Terminator # post" m'] 3(2-) by simp
  qed
  have "execute_loop sys ?lines (at_line st (length pre)) m =
      Option.bind (condition sys l (reg st, cheat_offset st, m)) (\<lambda>(holds, m).
        execute_loop sys ?lines (at_line (if holds then st else ?st) (length pre + 1)) m)"
    using condition_starts [of l st pre ss post sys m] 3(2-) by simp
  then show ?case
    by (auto simp: body skip intro!: Option.bind_cong split: option.split)
next
  case (4 l ss)
  then show ?case by simp
next
  case 5
  then show ?case by simp
next
  case (6 s ss)
  then show ?case
    using "6.IH"(1) [of st pre "block_lines ss @ post" m]
      "6.IH"(2) [of _ "pre @ lines_of s" post]
    by (auto simp: add.assoc intro!: Option.bind_cong)
qed

section \<open>Loops\<close>

text \<open>From the line of a loop on: \<open>c\<close> rounds are counted, so that \<open>N - c + 1\<close> more are run.\<close>

lemma loop_run:
  assumes "line_type l = CT_Loop" "simple_block ss" "if_flag st = 0"
    and "length (pre @ lines_of (Repeat l ss) @ post) < 2 ^ 32" "c \<le> unat (line_value l)"
  shows "execute_loop sys (pre @ lines_of (Repeat l ss) @ post) (at_line (st\<lparr>loop_count := of_nat c\<rparr>) (length pre)) m =
    Option.bind (repeat_run (Suc (unat (line_value l) - c)) (block_effect sys ss) (reg st, cheat_offset st, m))
      (\<lambda>(r, off, m). execute_loop sys (pre @ lines_of (Repeat l ss) @ post)
        (at_line ((with_data st r off)\<lparr>loop_count := 0, loop_flag := False, loop_back_line := of_nat (length pre)\<rparr>)
          (length pre + length (lines_of (Repeat l ss)))) m)"
proof -
  have N: "unat (line_value l) < 2 ^ 32" by (rule unat_u32_less)
  let ?lines = "pre @ (l # block_lines ss @ [end_line CT_LoopExecuteVariant]) @ post"
  let ?n = "length pre + 1 + length (block_lines ss)"
  let ?in = "\<lambda>st c. st\<lparr>loop_flag := c < unat (line_value l), loop_count := of_nat c + 1, loop_back_line := of_nat (length pre)\<rparr>"
  have enter: "execute_loop sys ?lines (at_line (st\<lparr>loop_count := of_nat c\<rparr>) (length pre)) m =
      execute_loop sys ?lines (at_line (?in st c) (length pre + 1)) m"
    if "if_flag st = 0" "c \<le> unat (line_value l)" for st c m
    using execute_loop_step [of pre l "block_lines ss @ [end_line CT_LoopExecuteVariant] @ post" sys
        "st\<lparr>loop_count := of_nat c\<rparr>" m] assms that N
    by (simp add: execute_line_def LoopOp_def word_less_nat_alt unat_of_nat)
  have body: "execute_loop sys ?lines (at_line st (length pre + 1)) m =
      Option.bind (block_effect sys ss (reg st, cheat_offset st, m)) (\<lambda>(r, off, m).
        execute_loop sys ?lines (at_line (with_data st r off) ?n) m)" if "if_flag st = 0" for st m
    using simple_run(2) [of ss st "pre @ [l]" "[end_line CT_LoopExecuteVariant] @ post" sys m] assms that by simp
  have leave: "execute_loop sys ?lines (at_line st ?n) m =
      execute_loop sys ?lines (at_line (if loop_flag st then st else st\<lparr>loop_count := 0\<rparr>)
        (if loop_flag st then length pre else Suc ?n)) m"
    if "if_flag st = 0" "loop_back_line st = of_nat (length pre)" for st m
    using execute_loop_step [of "pre @ l # block_lines ss" "end_line CT_LoopExecuteVariant" post sys st m] assms that
    by (simp add: execute_line_def end_line_def LoopExecuteVariantOp_def)
  have round: "execute_loop sys ?lines (at_line (st\<lparr>loop_count := of_nat c\<rparr>) (length pre)) m =
      Option.bind (block_effect sys ss (reg st, cheat_offset st, m)) (\<lambda>(r, off, m).
        if c < unat (line_value l)
        then execute_loop sys ?lines (at_line ((with_data (?in st c) r off)\<lparr>loop_count := of_nat (Suc c)\<rparr>) (length pre)) m
        else execute_loop sys ?lines (at_line ((with_data (?in st c) r off)\<lparr>loop_count := 0\<rparr>) (Suc ?n)) m)"
    if "if_flag st = 0" "c \<le> unat (line_value l)" for st c m
  proof -
    have "execute_loop sys ?lines (at_line (st\<lparr>loop_count := of_nat c\<rparr>) (length pre)) m =
        Option.bind (block_effect sys ss (reg st, cheat_offset st, m)) (\<lambda>(r, off, m).
          execute_loop sys ?lines (at_line (with_data (?in st c) r off) ?n) m)"
      using enter [OF that, of m] body [of "?in st c" m] that(1) by simp
    also have "\<dots> = Option.bind (block_effect sys ss (reg st, cheat_offset st, m)) (\<lambda>(r, off, m).
        if c < unat (line_value l)
        then execute_loop sys ?lines (at_line ((with_data (?in st c) r off)\<lparr>loop_count := of_nat (Suc c)\<rparr>) (length pre)) m
        else execute_loop sys ?lines (at_line ((with_data (?in st c) r off)\<lparr>loop_count := 0\<rparr>) (Suc ?n)) m)"
    proof (intro Option.bind_cong refl, clarify)
      fix r off m
      show "execute_loop sys ?lines (at_line (with_data (?in st c) r off) ?n) m =
        (if c < unat (line_value l)
         then execute_loop sys ?lines (at_line ((with_data (?in st c) r off)\<lparr>loop_count := of_nat (Suc c)\<rparr>) (length pre)) m
         else execute_loop sys ?lines (at_line ((with_data (?in st c) r off)\<lparr>loop_count := 0\<rparr>) (Suc ?n)) m)"
        using leave [of "with_data (?in st c) r off" m] that(1) by (cases st) (simp add: add.commute)
    qed
    finally show ?thesis .
  qed
  show ?thesis
    using assms(3,5)
  proof (induction "unat (line_value l) - c" arbitrary: c st m)
    case 0
    then have "c = unat (line_value l)" by simp
    then show ?case
      using round [of st c m] 0 by (cases st) (auto intro!: Option.bind_cong)
  next
    case (Suc d)
    then have c: "c < unat (line_value l)" by simp
    then have d: "unat (line_value l) - c = Suc (unat (line_value l) - Suc c)" by simp
    have "execute_loop sys ?lines (at_line ((with_data (?in st c) r off)\<lparr>loop_count := of_nat (Suc c)\<rparr>) (length pre)) m' =
        Option.bind (repeat_run (Suc (unat (line_value l) - Suc c)) (block_effect sys ss) (r, off, m'))
          (\<lambda>(r, off, m). execute_loop sys ?lines
            (at_line ((with_data st r off)\<lparr>loop_count := 0, loop_flag := False, loop_back_line := of_nat (length pre)\<rparr>) (Suc ?n)) m)"
      for r off m'
      using Suc.hyps(1) [of "Suc c" "with_data (?in st c) r off" m'] Suc.hyps(2) Suc.prems c by (cases st) simp
    then show ?case
      using round [of st c m] Suc.prems c
      by (simp add: d bind_assoc) (auto intro!: Option.bind_cong)
  qed
qed

section \<open>Programs\<close>

text \<open>With loops, the line that the last loop started at is left behind in the state.\<close>

definition quiet :: "cheat_state \<Rightarrow> bool" where
  "quiet st \<longleftrightarrow> if_flag st = 0 \<and> loop_count st = 0 \<and> \<not> loop_flag st"

lemma good_run:
  "good s \<Longrightarrow> quiet st \<Longrightarrow> length (pre @ lines_of s @ post) < 2 ^ 32 \<Longrightarrow>
     \<exists>b. execute_loop sys (pre @ lines_of s @ post) (at_line st (length pre)) m =
     Option.bind (stmt_effect sys s (reg st, cheat_offset st, m)) (\<lambda>(r, off, m).
       execute_loop sys (pre @ lines_of s @ post)
         (at_line ((with_data st r off)\<lparr>loop_back_line := b\<rparr>) (length pre + length (lines_of s))) m)"
  "good_block ss \<Longrightarrow> quiet st \<Longrightarrow> length (pre @ block_lines ss @ post) < 2 ^ 32 \<Longrightarrow>
     \<exists>b. execute_loop sys (pre @ block_lines ss @ post) (at_line st (length pre)) m =
     Option.bind (block_effect sys ss (reg st, cheat_offset st, m)) (\<lambda>(r, off, m).
       execute_loop sys (pre @ block_lines ss @ post)
         (at_line ((with_data st r off)\<lparr>loop_back_line := b\<rparr>) (length pre + length (block_lines ss))) m)"
proof (induction s and ss arbitrary: st pre post m and st pre post m rule: lines_of_block_lines.induct)
  case (1 l)
  then show ?case
    using simple_run(1) [of "Plain l" st pre post sys m]
    by (cases st) (auto simp: quiet_def intro!: exI [of _ "loop_back_line st"])
next
  case (2 l ds)
  then show ?case
    using simple_run(1) [of "With_Data l ds" st pre post sys m]
    by (cases st) (auto simp: quiet_def intro!: exI [of _ "loop_back_line st"])
next
  case (3 l ss)
  let ?lines = "pre @ l # block_lines ss @ end_line CT_Terminator # post"
  let ?n = "length pre + 1 + length (block_lines ss)" and ?st = "st\<lparr>if_flag := 1\<rparr>"
  have flag: "if_flag st = 0" using 3(3) by (simp add: quiet_def)
  have last: "execute_loop sys ?lines (at_line st' ?n) m' =
      execute_loop sys ?lines (at_line (st'\<lparr>if_flag := 0\<rparr>) (Suc ?n)) m'"
    if "if_flag st' = 0 \<or> if_flag st' = 1" for st' m'
    using condition_ends [OF that] 3(2-) by simp
  have enter: "execute_loop sys ?lines (at_line st (length pre)) m =
      Option.bind (condition sys l (reg st, cheat_offset st, m)) (\<lambda>(holds, m).
        execute_loop sys ?lines (at_line (if holds then st else ?st) (length pre + 1)) m)"
    using condition_starts [of l st pre ss post sys m] 3(2-) flag by simp
  show ?case
  proof (cases "condition sys l (reg st, cheat_offset st, m)")
    case None
    then show ?thesis using enter by simp
  next
    case (Some hm)
    obtain holds m' where hm: "hm = (holds, m')" by fastforce
    show ?thesis
    proof (cases holds)
      case False
      have "execute_loop sys ?lines (at_line ?st (length pre + 1)) m' = execute_loop sys ?lines (at_line st (Suc ?n)) m'"
        using skip_run(2) [of ss ?st "pre @ [l]" "end_line CT_Terminator # post" sys m'] 3(2-) last [of ?st m'] flag
        by (simp add: no_false_conditions)
      then show ?thesis
        using enter Some hm False by (cases st) (auto intro!: exI [of _ "loop_back_line st"])
    next
      case True
      obtain b where "execute_loop sys ?lines (at_line st (length pre + 1)) m' =
          Option.bind (block_effect sys ss (reg st, cheat_offset st, m')) (\<lambda>(r, off, m).
            execute_loop sys ?lines (at_line ((with_data st r off)\<lparr>loop_back_line := b\<rparr>) ?n) m)"
        using "3.IH" [of st "pre @ [l]" "end_line CT_Terminator # post" m'] 3(2-) by auto
      moreover have "execute_loop sys ?lines (at_line ((with_data st r off)\<lparr>loop_back_line := b\<rparr>) ?n) m =
          execute_loop sys ?lines (at_line ((with_data st r off)\<lparr>loop_back_line := b\<rparr>) (Suc ?n)) m" for r off m
        using last [of "(with_data st r off)\<lparr>loop_back_line := b\<rparr>" m] flag by (simp add: no_false_conditions)
      ultimately show ?thesis
        using enter Some hm True by (intro exI [of _ b]) simp
    qed
  qed
next
  case (4 l ss)
  then have "st\<lparr>loop_count := 0\<rparr> = st" by (simp add: quiet_def)
  moreover have "(with_data st r off)\<lparr>loop_count := 0, loop_flag := False, loop_back_line := b\<rparr> =
      (with_data st r off)\<lparr>loop_back_line := b\<rparr>" for r off b
    using 4(3) by (cases st) (simp add: quiet_def)
  ultimately show ?case
    using loop_run [of l ss st pre post 0 sys m] 4(2-) by (intro exI [of _ "of_nat (length pre)"]) (simp add: quiet_def)
next
  case 5
  show ?case by (cases st) (auto intro!: exI [of _ "loop_back_line st"])
next
  case (6 s ss)
  obtain b where b: "execute_loop sys (pre @ lines_of s @ block_lines ss @ post) (at_line st (length pre)) m =
     Option.bind (stmt_effect sys s (reg st, cheat_offset st, m)) (\<lambda>(r, off, m).
       execute_loop sys (pre @ lines_of s @ block_lines ss @ post)
         (at_line ((with_data st r off)\<lparr>loop_back_line := b\<rparr>) (length pre + length (lines_of s))) m)"
    using "6.IH"(1) [of st pre "block_lines ss @ post" m] 6(3-) by auto
  show ?case
  proof (cases "stmt_effect sys s (reg st, cheat_offset st, m)")
    case None
    then show ?thesis using b by simp
  next
    case (Some d)
    obtain r off m' where d: "d = (r, off, m')" by (cases d) auto
    let ?st = "(with_data st r off)\<lparr>loop_back_line := b\<rparr>"
    obtain b' where "execute_loop sys (pre @ lines_of s @ block_lines ss @ post)
          (at_line ?st (length pre + length (lines_of s))) m' =
       Option.bind (block_effect sys ss (r, off, m')) (\<lambda>(r, off, m).
         execute_loop sys (pre @ lines_of s @ block_lines ss @ post)
           (at_line ((with_data ?st r off)\<lparr>loop_back_line := b'\<rparr>) (length pre + length (lines_of s) + length (block_lines ss))) m)"
      using "6.IH"(2) [of ?st "pre @ lines_of s" post m'] 6(3-) by (auto simp: quiet_def)
    then show ?thesis
      using b Some d by (cases st) (auto simp: add.assoc intro!: exI [of _ b'])
  qed
qed

text \<open>A cheat is a sequence of blocks that each end with a full terminator, which clears the register,
  the offset and the loop.\<close>

definition program_lines :: "cheat_stmt list list \<Rightarrow> cheat_line list" where
  "program_lines bs = concat (map (\<lambda>ss. block_lines ss @ [end_line CT_FullTerminator]) bs)"

fun program_effect :: "'m cheat_system \<Rightarrow> cheat_stmt list list \<Rightarrow> 'm \<Rightarrow> 'm run" where
  "program_effect sys [] m = Some m"
| "program_effect sys (ss # bs) m = do {
     (r, off, m) \<leftarrow> block_effect sys ss (0, 0, m);
     program_effect sys bs m}"

lemma program_lines_Cons:
  "program_lines (ss # bs) = block_lines ss @ end_line CT_FullTerminator # program_lines bs"
  by (simp add: program_lines_def)

lemma program_run:
  assumes "list_all good_block bs" "quiet st" "reg st = 0" "cheat_offset st = 0" "length (pre @ program_lines bs) < 2 ^ 32"
  shows "execute_loop sys (pre @ program_lines bs) (at_line st (length pre)) m = program_effect sys bs m"
  using assms
proof (induction bs arbitrary: pre st m)
  case Nil
  then show ?case
    using unat_line_nr [of "length pre"] by (subst execute_loop.simps) (simp add: program_lines_def)
next
  case (Cons ss bs)
  let ?lines = "pre @ block_lines ss @ end_line CT_FullTerminator # program_lines bs"
  let ?n = "length pre + length (block_lines ss)"
  obtain b where run: "execute_loop sys ?lines (at_line st (length pre)) m =
      Option.bind (block_effect sys ss (0, 0, m)) (\<lambda>(r, off, m).
        execute_loop sys ?lines (at_line ((with_data st r off)\<lparr>loop_back_line := b\<rparr>) ?n) m)"
    using good_run(2) [of ss st pre "end_line CT_FullTerminator # program_lines bs" sys m] Cons.prems
    by (auto simp: program_lines_Cons)
  have "execute_loop sys ?lines (at_line ((with_data st r off)\<lparr>loop_back_line := b\<rparr>) ?n) m = program_effect sys bs m"
    for r off m
  proof -
    let ?st = "(with_data st 0 0)\<lparr>loop_back_line := b\<rparr>"
    have "execute_loop sys ?lines (at_line ((with_data st r off)\<lparr>loop_back_line := b\<rparr>) ?n) m =
        execute_loop sys ?lines (at_line ?st (Suc ?n)) m"
      using execute_loop_step [of "pre @ block_lines ss" "end_line CT_FullTerminator" "program_lines bs" sys
          "(with_data st r off)\<lparr>loop_back_line := b\<rparr>" m] Cons.prems
      by (cases st) (simp add: program_lines_Cons execute_line_def end_line_def FullTerminateOp_def quiet_def ac_simps)
    also have "\<dots> = program_effect sys bs m"
      using Cons.IH [of ?st "pre @ block_lines ss @ [end_line CT_FullTerminator]" m] Cons.prems
      by (simp add: program_lines_Cons quiet_def)
    finally show ?thesis .
  qed
  then show ?case
    using run by (simp add: program_lines_Cons)
qed

text \<open>C8: The interpreter gives a cheat the meaning of its blocks: a condition runs its block or passes
  it, nested ones included, with the data of patches passed as data; a loop of number \<open>N\<close> runs its
  block \<open>N + 1\<close> times; a patch writes the bytes of its data lines; a full terminator clears the
  registers. A crash of an access is the only way such a cheat does not return.\<close>

theorem cheat_runs_blocks:
  assumes "list_all good_block bs" "cheat_lines cheat = program_lines bs" "length (cheat_lines cheat) < 2 ^ 32"
  shows "GatewayCheat_Execute sys cheat m = program_effect sys bs m"
  using program_run [of bs cheat_state0 "[]" sys m] assms
  by (simp add: GatewayCheat_Execute_def cheat_state0_def quiet_def)

section \<open>A cheat that does not return\<close>

text \<open>The lines \<open>C N; D0; 5 a v; D2\<close>: a loop whose condition is false at its full terminator. The jump
  back lands on the loop's line with the condition still counted, which skips the count of the loop;
  the stray terminator takes the condition back before it is tested again.\<close>

definition trap_lines :: "u32 \<Rightarrow> u32 \<Rightarrow> u32 \<Rightarrow> cheat_line list" where
  "trap_lines n a v =
     [(end_line CT_Loop)\<lparr>line_value := n\<rparr>, end_line CT_Terminator,
      (end_line CT_EqualTo32)\<lparr>line_address := a, line_value := v\<rparr>, end_line CT_FullTerminator]"

definition trap_states :: "cheat_state set" where
  "trap_states =
     {cheat_state0} \<union>
     {st. cheat_offset st = 0 \<and> loop_flag st \<and> loop_back_line st = 0 \<and>
        (current_line_nr st, if_flag st) \<in> {(0, 1), (1, 0), (1, 1), (2, 0), (3, 1)}}"

lemmas trap_simps = trap_lines_def end_line_def execute_line_def skip_line_def is_condition_def
  LoopOp_def TerminateOp_def CompOp_def FullTerminateOp_def cheat_state0_def

lemma trap_step:
  assumes "st \<in> trap_states" "0 < n" "mem_read sys 4 a m = Some (w, m)" "w \<noteq> unat v"
  shows "unat (current_line_nr st) < length (trap_lines n a v) \<and>
    (\<exists>st'. execute_line sys (trap_lines n a v) (trap_lines n a v ! unat (current_line_nr st)) st m = Some (st', m) \<and>
      st'\<lparr>current_line_nr := current_line_nr st' + 1\<rparr> \<in> trap_states)"
proof -
  consider "st = cheat_state0"
    | "cheat_offset st = 0" "loop_flag st" "loop_back_line st = 0" "current_line_nr st = 0" "if_flag st = 1"
    | "cheat_offset st = 0" "loop_flag st" "loop_back_line st = 0" "current_line_nr st = 1" "if_flag st = 0 \<or> if_flag st = 1"
    | "cheat_offset st = 0" "loop_flag st" "loop_back_line st = 0" "current_line_nr st = 2" "if_flag st = 0"
    | "cheat_offset st = 0" "loop_flag st" "loop_back_line st = 0" "current_line_nr st = 3" "if_flag st = 1"
    using assms(1) by (auto simp: trap_states_def)
  then show ?thesis
  proof cases
    case 1
    then show ?thesis using assms(2) by (simp add: trap_simps trap_states_def)
  next
    case 2
    then show ?thesis by (simp add: trap_simps trap_states_def)
  next
    case 3
    then show ?thesis by (auto simp: trap_simps trap_states_def)
  next
    case 4
    then show ?thesis using assms(3,4) by (simp add: trap_simps trap_states_def)
  next
    case 5
    then show ?thesis by (simp add: trap_simps trap_states_def)
  qed
qed

lemma trap_never_ends:
  assumes "0 < n" "mem_read sys 4 a m = Some (w, m)" "w \<noteq> unat v" "st \<in> trap_states"
  shows "execute_loop sys (trap_lines n a v) st m = None"
proof (rule ccontr)
  let ?ls = "trap_lines n a v"
  assume "execute_loop sys ?ls st m \<noteq> None"
  then obtain m' where r: "execute_loop sys ?ls st m = Some m'" by blast
  have "sys = sys \<longrightarrow> ?ls = ?ls \<longrightarrow> m = m \<longrightarrow> st \<notin> trap_states"
  proof (rule execute_loop.raw_induct [OF _ r, of "\<lambda>s ls st m1 y. s = sys \<longrightarrow> ls = ?ls \<longrightarrow> m1 = m \<longrightarrow> st \<notin> trap_states"],
      intro impI notI)
    fix f s ls st m1 y
    assume IH: "\<And>s ls st m1 y. f s ls st m1 = Some y \<Longrightarrow> s = sys \<longrightarrow> ls = ?ls \<longrightarrow> m1 = m \<longrightarrow> st \<notin> trap_states"
      and body: "(if unat (current_line_nr st) < length ls then do {
          (st, m) \<leftarrow> execute_line s ls (ls ! unat (current_line_nr st)) st m1;
          f s ls (st\<lparr>current_line_nr := current_line_nr st + 1\<rparr>) m}
        else Some m1) = Some y"
      and at: "s = sys" "ls = ?ls" "m1 = m" "st \<in> trap_states"
    obtain st' where "f sys ?ls (st'\<lparr>current_line_nr := current_line_nr st' + 1\<rparr>) m = Some y"
      "st'\<lparr>current_line_nr := current_line_nr st' + 1\<rparr> \<in> trap_states"
      using trap_step [OF at(4) assms(1-3)] body at(1-3) by auto
    then show False using IH by blast
  qed
  then show False using assms(4) by simp
qed

text \<open>C32: A cheat can keep the emulator from ever returning: in a loop whose block starts with a
  terminator and ends with a full terminator below a false condition, the loop's line is skipped and
  nothing counts the rounds.\<close>

theorem cheat_never_returns:
  assumes "0 < n" "mem_read sys 4 a m = Some (w, m)" "w \<noteq> unat v" "cheat_lines cheat = trap_lines n a v"
  shows "GatewayCheat_Execute sys cheat m = None"
  using trap_never_ends [OF assms(1-3), of cheat_state0] assms(4)
  by (simp add: GatewayCheat_Execute_def trap_states_def)

section \<open>Witnesses\<close>

text \<open>A memory of words that reads and writes whole words and single bytes at their address.\<close>

definition toy_system :: "(u32 \<Rightarrow> nat) cheat_system" where
  "toy_system = \<lparr>mem_read = (\<lambda>n a m. Some (m a, m)), mem_write = (\<lambda>n a v m. Some (m(a := v))),
     invalidate_cache = (\<lambda>a n m. m), pad_state = (\<lambda>m. 0)\<rparr>"

definition toy_blocks :: "cheat_stmt list list" where
  "toy_blocks =
     [[Plain ((end_line CT_SetValue)\<lparr>line_value := 7\<rparr>),
       Repeat ((end_line CT_Loop)\<lparr>line_value := 1\<rparr>) [Plain ((end_line CT_IncrementiveWrite32)\<lparr>line_value := 100\<rparr>)],
       When ((end_line CT_EqualTo32)\<lparr>line_address := 92, line_value := 9\<rparr>)
         [With_Data ((end_line CT_Patch)\<lparr>line_address := 0, line_value := 4\<rparr>) [end_line CT_Null]]]]"

lemma cheat_runs_blocks_witness:
  "GatewayCheat_Execute toy_system
     \<lparr>cheat_enabled = True, cheat_name = [], cheat_lines = program_lines toy_blocks, cheat_comments = []\<rparr> (\<lambda>a. 0) =
   Some ((\<lambda>a. 0)(100 := 7, 104 := 7))"
proof -
  have "program_effect toy_system toy_blocks (\<lambda>a. 0) = Some ((\<lambda>a. 0)(100 := 7, 104 := 7))"
    by (simp add: toy_blocks_def toy_system_def end_line_def plain_effect_def condition_def alone_def cheat_state0_def
        execute_line_def SetValueOp_def IncrementiveWriteOp_def write_changed_def cast_to_def CompOp_def)
  moreover have "list_all good_block toy_blocks" "length (program_lines toy_blocks) < 2 ^ 32"
    by (simp_all add: toy_blocks_def program_lines_def end_line_def plain_type_def is_condition_def data_ok_def line_readable_def)
  ultimately show ?thesis
    using cheat_runs_blocks [of toy_blocks
      "\<lparr>cheat_enabled = True, cheat_name = [], cheat_lines = program_lines toy_blocks, cheat_comments = []\<rparr>" toy_system "\<lambda>a. 0"]
    by simp
qed

lemma cheat_never_returns_witness:
  "GatewayCheat_Execute toy_system
     \<lparr>cheat_enabled = True, cheat_name = [], cheat_lines = trap_lines 2 16 1, cheat_comments = []\<rparr> (\<lambda>a. 0) = None"
  by (rule cheat_never_returns [where n = 2 and a = 16 and w = 0 and v = 1]) (simp_all add: toy_system_def)
end
