(* ===== verification/CheatFile.thy ===== *)
theory CheatFile
  imports GatewayCheat
begin

text \<open>The text of cheats and the engine that keeps them: the constructors of \<open>CheatLine\<close> and
  \<open>GatewayCheat\<close>, \<open>ToString\<close> and \<open>LoadFile\<close> of \<open>core/cheats/gateway_cheat.cpp\<close>, the functions of
  \<open>common/string_util.cpp\<close> they use, and \<open>CheatEngine\<close> of \<open>core/cheats/cheats.cpp\<close>. The directory of
  cheat files is a map from title ids to texts. A conversion of the standard library that throws is
  None.\<close>

section \<open>Strings\<close>

abbreviation (input) newline :: char where "newline \<equiv> CHR 0x0A"

text \<open>The pieces between delimiters; there is always a last one.\<close>

fun pieces :: "char \<Rightarrow> string \<Rightarrow> string list" where
  "pieces d [] = [[]]"
| "pieces d (c # cs) =
     (if c = d then [] # pieces d cs
      else (case pieces d cs of [] \<Rightarrow> [[c]] | w # ws \<Rightarrow> (c # w) # ws))"

text \<open>\<open>Common::SplitString\<close>: \<open>getline\<close> finds no line after a delimiter that ends the text.\<close>

definition SplitString :: "string \<Rightarrow> char \<Rightarrow> string list" where
  "SplitString s d = (let ps = pieces d s in if last ps = [] then butlast ps else ps)"

definition strip_char :: "char \<Rightarrow> bool" where
  "strip_char c \<longleftrightarrow> c \<in> {CHR 0x20, CHR 0x09, CHR 0x0D, CHR 0x0A}"

definition StripSpaces :: "string \<Rightarrow> string" where
  "StripSpaces s = rev (dropWhile strip_char (rev (dropWhile strip_char s)))"

text \<open>\<open>std::stoi\<close> and \<open>std::stoul\<close> in base 16: white space, a sign, a prefix \<open>0x\<close> that a digit follows, and
  as many digits as there are; no digit is \<open>std::invalid_argument\<close>.\<close>

definition hex_digit :: "char \<Rightarrow> nat option" where
  "hex_digit c =
     (let n = of_char c
      in if 48 \<le> n \<and> n \<le> 57 then Some (n - 48)
         else if 65 \<le> n \<and> n \<le> 70 then Some (n - 55)
         else if 97 \<le> n \<and> n \<le> 102 then Some (n - 87) else None)"

definition is_space :: "char \<Rightarrow> bool" where
  "is_space c \<longleftrightarrow> (let n = of_char c in n = (32 :: nat) \<or> 9 \<le> n \<and> n \<le> 13)"

definition drop_prefix :: "string \<Rightarrow> string" where
  "drop_prefix s =
     (case s of a # b # c # cs \<Rightarrow>
        if a = CHR ''0'' \<and> (b = CHR ''x'' \<or> b = CHR ''X'') \<and> hex_digit c \<noteq> None then c # cs else s
      | _ \<Rightarrow> s)"

definition hex_number :: "string \<Rightarrow> nat option" where
  "hex_number s =
     (let ds = takeWhile (\<lambda>c. hex_digit c \<noteq> None) (drop_prefix s)
      in if ds = [] then None else Some (foldl (\<lambda>v c. 16 * v + the (hex_digit c)) 0 ds))"

definition strtol16 :: "string \<Rightarrow> int option" where
  "strtol16 s =
     (case dropWhile is_space s of
        [] \<Rightarrow> None
      | c # cs \<Rightarrow>
          if c = CHR ''-'' then map_option (\<lambda>n. - int n) (hex_number cs)
          else if c = CHR ''+'' then map_option int (hex_number cs)
          else map_option int (hex_number (c # cs)))"

section \<open>Lines and cheats\<close>

definition invalid_line :: "string \<Rightarrow> u32 option \<Rightarrow> cheat_line" where
  "invalid_line text first =
     \<lparr>line_type = CT_Null, line_address = (case first of None \<Rightarrow> 0 | Some f \<Rightarrow> f AND 0x0FFFFFFF), line_value = 0,
      line_first = (case first of None \<Rightarrow> 0 | Some f \<Rightarrow> f), line_text = text, line_valid = False,
      line_first_set = (first \<noteq> None)\<rparr>"

definition CheatLine_make :: "string \<Rightarrow> cheat_line" where
  "CheatLine_make line =
     (if length line \<noteq> 17 then invalid_line line None
      else
        (let type_temp = take 1 line;
             sub_type = (if type_temp = ''D'' \<or> type_temp = ''d'' then take 1 (drop 1 line) else [])
         in case strtol16 (type_temp @ sub_type) of
              None \<Rightarrow> invalid_line line None
            | Some t \<Rightarrow>
                (case strtol16 (take 8 line) of
                   None \<Rightarrow> invalid_line line None
                 | Some f \<Rightarrow>
                     (case strtol16 (take 8 (drop 9 line)) of
                        None \<Rightarrow> invalid_line line (Some (of_int f))
                      | Some v \<Rightarrow>
                          \<lparr>line_type = cheat_type_of t, line_address = of_int f AND 0x0FFFFFFF, line_value = of_int v,
                           line_first = of_int f, line_text = line, line_valid = True, line_first_set = True\<rparr>))))"

definition GatewayCheat_make :: "string \<Rightarrow> cheat_line list \<Rightarrow> string \<Rightarrow> gateway_cheat" where
  "GatewayCheat_make name ls comments =
     \<lparr>cheat_enabled = False, cheat_name = name, cheat_lines = ls, cheat_comments = comments\<rparr>"

definition GatewayCheat_of_code :: "string \<Rightarrow> string \<Rightarrow> string \<Rightarrow> gateway_cheat" where
  "GatewayCheat_of_code name code comments =
     GatewayCheat_make name (map CheatLine_make (filter (\<lambda>l. l \<noteq> []) (SplitString code newline))) comments"

definition SetEnabled :: "bool \<Rightarrow> gateway_cheat \<Rightarrow> gateway_cheat" where
  "SetEnabled b c = c\<lparr>cheat_enabled := b\<rparr>"

definition GetCode :: "gateway_cheat \<Rightarrow> string" where
  "GetCode c = concat (map (\<lambda>l. line_text l @ [newline]) (cheat_lines c))"

definition EnabledText :: string where "EnabledText = ''*citra_enabled''"

definition ToString :: "gateway_cheat \<Rightarrow> string" where
  "ToString c =
     ''['' @ cheat_name c @ '']'' @ [newline] @
     (if cheat_enabled c then EnabledText @ [newline] else []) @
     concat (map (\<lambda>l. ''*'' @ l @ [newline]) (SplitString (cheat_comments c) newline)) @
     GetCode c @ [newline]"

section \<open>Loading\<close>

record load_state =
  ld_cheats :: "gateway_cheat list"
  ld_comments :: string
  ld_lines :: "cheat_line list"
  ld_name :: string
  ld_enabled :: bool

definition push_cheat :: "load_state \<Rightarrow> load_state" where
  "push_cheat s =
     s\<lparr>ld_cheats := ld_cheats s @ [SetEnabled (ld_enabled s) (GatewayCheat_make (ld_name s) (ld_lines s) (ld_comments s))]\<rparr>"

definition load_line :: "load_state \<Rightarrow> string \<Rightarrow> load_state" where
  "load_line s raw =
     (let line = StripSpaces (filter (\<lambda>c. c \<noteq> CHR 0x00) raw)
      in if length line \<ge> 2 \<and> hd line = CHR ''['' then
           (let s = (if ld_lines s \<noteq> [] then (push_cheat s)\<lparr>ld_enabled := False\<rparr> else s)
            in s\<lparr>ld_name := take (length line - 2) (drop 1 line), ld_lines := [], ld_comments := []\<rparr>)
         else if line \<noteq> [] \<and> hd line = CHR ''*'' then
           (if line = EnabledText then s\<lparr>ld_enabled := True\<rparr>
            else s\<lparr>ld_comments := ld_comments s @ drop 1 line @ [newline]\<rparr>)
         else if line \<noteq> [] then s\<lparr>ld_lines := ld_lines s @ [CheatLine_make line]\<rparr>
         else s)"

text \<open>The loop runs until the end of the file is met, so that what follows the last newline is a line,
  empty or not.\<close>

definition LoadFile :: "string \<Rightarrow> gateway_cheat list" where
  "LoadFile content =
     (let s = foldl load_line
           \<lparr>ld_cheats = [], ld_comments = [], ld_lines = [], ld_name = [], ld_enabled = False\<rparr> (pieces newline content);
          s = (if ld_lines s \<noteq> [] then push_cheat s else s)
      in ld_cheats s)"

section \<open>The engine\<close>

record cheat_engine =
  cheats_list :: "gateway_cheat list"
  loaded_title_id :: "u64 option"

definition AddCheat :: "gateway_cheat \<Rightarrow> cheat_engine \<Rightarrow> cheat_engine" where
  "AddCheat c e = e\<lparr>cheats_list := cheats_list e @ [c]\<rparr>"

definition RemoveCheat :: "nat \<Rightarrow> cheat_engine \<Rightarrow> cheat_engine" where
  "RemoveCheat index e =
     (if index \<ge> length (cheats_list e) then e
      else e\<lparr>cheats_list := take index (cheats_list e) @ drop (Suc index) (cheats_list e)\<rparr>)"

definition UpdateCheat :: "nat \<Rightarrow> gateway_cheat \<Rightarrow> cheat_engine \<Rightarrow> cheat_engine" where
  "UpdateCheat index c e =
     (if index \<ge> length (cheats_list e) then e else e\<lparr>cheats_list := (cheats_list e)[index := c]\<rparr>)"

type_synonym cheat_files = "u64 \<Rightarrow> string option"

definition SaveCheatFile :: "u64 \<Rightarrow> cheat_engine \<Rightarrow> cheat_files \<Rightarrow> cheat_files" where
  "SaveCheatFile title_id e files = files(title_id \<mapsto> concat (map ToString (cheats_list e)))"

definition LoadCheatFile :: "u64 \<Rightarrow> cheat_files \<Rightarrow> cheat_engine \<Rightarrow> cheat_engine" where
  "LoadCheatFile title_id files e =
     (if loaded_title_id e = Some title_id then e
      else case files title_id of
        None \<Rightarrow> e
      | Some content \<Rightarrow> e\<lparr>loaded_title_id := Some title_id, cheats_list := LoadFile content\<rparr>)"

abbreviation (input) "run_interval_ticks \<equiv> (50000000 :: int)"

definition cheat_event :: string where "cheat_event = ''CheatCore::run_event''"

text \<open>\<open>callback\<close> is the number the timing component gives the engine's callback.\<close>

definition CheatEngine_Connect :: "nat \<Rightarrow> timing \<Rightarrow> timing run" where
  "CheatEngine_Connect callback tm =
     ScheduleEvent run_interval_ticks cheat_event 0 None False (RegisterEvent cheat_event (Some callback) tm)"

definition CheatEngine_destroy :: "bool \<Rightarrow> timing \<Rightarrow> timing" where
  "CheatEngine_destroy powered_on tm = (if powered_on then UnscheduleEvent cheat_event 0 tm else tm)"

fun execute_enabled :: "'m cheat_system \<Rightarrow> gateway_cheat list \<Rightarrow> 'm \<Rightarrow> 'm run" where
  "execute_enabled sys [] m = Some m"
| "execute_enabled sys (c # cs) m = do {
     m \<leftarrow> (if cheat_enabled c then GatewayCheat_Execute sys c m else Some m);
     execute_enabled sys cs m}"

definition CheatEngine_RunCallback ::
  "'m cheat_system \<Rightarrow> cheat_engine \<Rightarrow> int \<Rightarrow> 'm \<Rightarrow> timing \<Rightarrow> ('m \<times> timing) run" where
  "CheatEngine_RunCallback sys e cycles_late m tm = do {
     m \<leftarrow> execute_enabled sys (cheats_list e) m;
     tm \<leftarrow> ScheduleEvent (run_interval_ticks - cycles_late) cheat_event 0 None False tm;
     Some (m, tm)}"
end
