(* ===== verification/CheatFileProofs.thy ===== *)
theory CheatFileProofs
  imports CheatFile
begin

text \<open>Cheats survive their file: what \<open>SaveCheatFile\<close> writes, \<open>LoadCheatFile\<close> reads back, but for cheats
  without lines, which are lost and pass on that they are enabled; and a line of two numbers is parsed
  to its numbers.\<close>

section \<open>Numbers\<close>

definition hex_char :: "nat \<Rightarrow> char" where
  "hex_char n = (if n < 10 then char_of (48 + n) else char_of (55 + n))"

fun hex_text :: "nat \<Rightarrow> nat \<Rightarrow> string" where
  "hex_text 0 n = []"
| "hex_text (Suc k) n = hex_text k (n div 16) @ [hex_char (n mod 16)]"

lemma hex_digit_char: "n < 16 \<Longrightarrow> hex_digit (hex_char n) = Some n"
  by (auto simp: hex_digit_def hex_char_def)

lemma hex_text_length [simp]: "length (hex_text k n) = k"
  by (induction k arbitrary: n) simp_all

lemma hex_text_digits: "c \<in> set (hex_text k n) \<Longrightarrow> hex_digit c \<noteq> None"
  by (induction k arbitrary: n) (auto simp: hex_digit_char)

lemma hex_text_value:
  "foldl (\<lambda>v c. 16 * v + the (hex_digit c)) 0 (hex_text k n) = n mod 16 ^ k"
  by (induction k arbitrary: n) (simp_all add: hex_digit_char mod_mult2_eq)

lemma digit_chars:
  assumes "hex_digit c \<noteq> None" shows "c \<noteq> CHR ''x''" "c \<noteq> CHR ''X''" "c \<noteq> CHR ''-''" "c \<noteq> CHR ''+''" "\<not> is_space c"
  using assms by (auto simp: hex_digit_def is_space_def Let_def split: if_splits)

lemma strtol16_hex_text:
  assumes "0 < k" shows "strtol16 (hex_text k n) = Some (int (n mod 16 ^ k))"
proof -
  obtain c cs where t: "hex_text k n = c # cs" using assms by (cases "hex_text k n") (auto dest: arg_cong [of _ _ length])
  have digits: "\<forall>c \<in> set (hex_text k n). hex_digit c \<noteq> None" using hex_text_digits by blast
  have "drop_prefix (hex_text k n) = hex_text k n"
    using digits digit_chars(1,2) by (auto simp: drop_prefix_def t split: list.splits)
  moreover have "takeWhile (\<lambda>c. hex_digit c \<noteq> None) (hex_text k n) = hex_text k n"
    using digits by (simp add: takeWhile_eq_all_conv)
  ultimately have "hex_number (hex_text k n) = Some (n mod 16 ^ k)"
    using hex_text_value [of k n] by (simp add: hex_number_def Let_def t)
  moreover have "hex_digit c \<noteq> None" using digits by (simp add: t)
  ultimately show ?thesis
    using digit_chars [of c] by (simp add: strtol16_def t)
qed

lemma hex_text_split: "hex_text (j + k) n = hex_text j (n div 16 ^ k) @ hex_text k n"
proof (induction k arbitrary: n)
  case (Suc k)
  have "n div 16 div 16 ^ k = n div 16 ^ Suc k" by (simp add: div_mult2_eq)
  then show ?case using Suc [of "n div 16"] by simp
qed simp

lemma hex_text_1: "hex_text 1 n = [hex_char (n mod 16)]"
  by simp

lemma hex_char_D: "n < 16 \<Longrightarrow> hex_char n = CHR ''D'' \<longleftrightarrow> n = 13" "n < 16 \<Longrightarrow> hex_char n \<noteq> CHR ''d''"
  by (auto simp: hex_char_def char_of_eq_iff take_bit_nat_eq_self)

lemma line_chars:
  assumes "n < 2 ^ 32"
  shows "take 1 (hex_text 8 n @ rest) = hex_text 1 (n div 2 ^ 28)"
    and "take 1 (hex_text 8 n @ rest) @ take 1 (drop 1 (hex_text 8 n @ rest)) = hex_text 2 (n div 2 ^ 24)"
proof -
  have 1: "hex_text 8 n = hex_text 1 (n div 2 ^ 28) @ hex_text 7 n"
    using hex_text_split [of 1 7 n] by simp
  have 2: "hex_text 8 n = hex_text 2 (n div 2 ^ 24) @ hex_text 6 n"
    using hex_text_split [of 2 6 n] by simp
  show "take 1 (hex_text 8 n @ rest) = hex_text 1 (n div 2 ^ 28)"
    by (simp add: 1 del: hex_text.simps)
  have "take 1 xs @ take 1 (drop 1 xs) = take 2 xs" for xs :: string
    using take_add [of 1 1 xs] by (simp add: numeral_2_eq_2)
  then show "take 1 (hex_text 8 n @ rest) @ take 1 (drop 1 (hex_text 8 n @ rest)) = hex_text 2 (n div 2 ^ 24)"
    by (simp add: 2 del: hex_text.simps)
qed

text \<open>A line of two hexadecimal numbers is parsed to them: the first gives the type, by its highest
  digit or, for 0xD, its two highest, and the address, its low 28 bits; the second is the value.\<close>

theorem cheat_line_parsed:
  "CheatLine_make (hex_text 8 (unat f) @ [c] @ hex_text 8 (unat v)) =
    \<lparr>line_type = cheat_type_of (if drop_bit 28 f = 13 then uint (drop_bit 24 f) else uint (drop_bit 28 f)),
     line_address = f AND 0x0FFFFFFF, line_value = v, line_first = f,
     line_text = hex_text 8 (unat f) @ [c] @ hex_text 8 (unat v), line_valid = True, line_first_set = True\<rparr>"
proof -
  let ?n = "unat f" and ?rest = "[c] @ hex_text 8 (unat v)"
  let ?line = "hex_text 8 ?n @ ?rest"
  have n: "?n < 2 ^ 32" "unat v < 2 ^ 32" by (rule unat_u32_less)+
  have "uint f < 2 ^ LENGTH(32)" by (rule unsigned_less)
  then have "take_bit 32 (uint f) = uint f" by (simp add: take_bit_int_eq_self)
  then have drop: "uint (drop_bit k f) = int (?n div 2 ^ k)" for k
    by (simp only: unsigned_drop_bit_eq) (simp add: drop_bit_eq_div zdiv_int)
  have top: "?n div 2 ^ 28 < 16" "?n div 2 ^ 24 < 256" using n by (simp_all add: less_mult_imp_div_less)
  have thirteen: "drop_bit 28 f = 13 \<longleftrightarrow> ?n div 2 ^ 28 = 13"
    using drop [of 28] by (simp add: word_uint_eq_iff)
  have "take 8 ?line = hex_text 8 ?n" "take 8 (drop 9 ?line) = hex_text 8 (unat v)" "length ?line = 17"
    by (simp_all del: hex_text.simps)
  moreover have "strtol16 (take 1 ?line @ (if take 1 ?line = ''D'' \<or> take 1 ?line = ''d'' then take 1 (drop 1 ?line) else [])) =
      Some (if drop_bit 28 f = 13 then uint (drop_bit 24 f) else uint (drop_bit 28 f))"
  proof (cases "?n div 2 ^ 28 = 13")
    case True
    then have "take 1 ?line = ''D''"
      unfolding line_chars(1) [OF n(1)] hex_text_1 using hex_char_D(1) [of 13] by simp
    then show ?thesis
      using line_chars(2) [OF n(1), of ?rest] strtol16_hex_text [of 2 "?n div 2 ^ 24"] top(2) True thirteen drop [of 24]
      by (simp del: hex_text.simps)
  next
    case False
    then have "take 1 ?line \<noteq> ''D'' \<and> take 1 ?line \<noteq> ''d''"
      unfolding line_chars(1) [OF n(1)] hex_text_1 using hex_char_D [of "?n div 2 ^ 28"] top(1) by simp
    then show ?thesis
      using line_chars(1) [OF n(1), of ?rest] strtol16_hex_text [of 1 "?n div 2 ^ 28"] top(1) False thirteen drop [of 28]
      by (simp del: hex_text.simps)
  qed
  moreover have "strtol16 (hex_text 8 ?n) = Some (int ?n)" "strtol16 (hex_text 8 (unat v)) = Some (int (unat v))"
    using strtol16_hex_text [of 8] n by simp_all
  ultimately show ?thesis
    by (simp only: CheatLine_make_def Let_def option.case if_False not_not HOL.simp_thms) simp
qed

section \<open>Lines of a file\<close>

definition whole_lines :: "string list \<Rightarrow> string" where
  "whole_lines ls = concat (map (\<lambda>l. l @ [newline]) ls)"

lemma whole_lines_simps [simp]:
  "whole_lines [] = []" "whole_lines (l # ls) = l @ newline # whole_lines ls"
  "whole_lines (ls @ ls') = whole_lines ls @ whole_lines ls'"
  by (simp_all add: whole_lines_def)

lemma pieces_nonempty [simp]: "pieces d s \<noteq> []"
  by (induction s) (auto split: list.splits)

lemma pieces_line: "d \<notin> set l \<Longrightarrow> pieces d (l @ d # s) = l # pieces d s"
proof (induction l)
  case (Cons c l)
  then show ?case by (auto split: list.splits)
qed simp

lemma pieces_whole_lines:
  "\<forall>l \<in> set ls. newline \<notin> set l \<Longrightarrow> pieces newline (whole_lines ls) = ls @ [[]]"
  by (induction ls) (simp_all add: pieces_line)

lemma SplitString_whole_lines:
  "\<forall>l \<in> set ls. newline \<notin> set l \<Longrightarrow> SplitString (whole_lines ls) newline = ls"
  by (simp add: SplitString_def pieces_whole_lines Let_def)

text \<open>A line that loading leaves as it is.\<close>

definition kept_line :: "string \<Rightarrow> bool" where
  "kept_line l \<longleftrightarrow> l \<noteq> [] \<and> newline \<notin> set l \<and> CHR 0x00 \<notin> set l \<and> \<not> strip_char (hd l) \<and> \<not> strip_char (last l)"

lemma kept_line_strip: "kept_line l \<Longrightarrow> StripSpaces (filter (\<lambda>c. c \<noteq> CHR 0x00) l) = l"
proof -
  assume k: "kept_line l"
  then have "filter (\<lambda>c. c \<noteq> CHR 0x00) l = l" by (auto simp: kept_line_def intro!: filter_True)
  moreover have "dropWhile strip_char l = l" using k by (cases l) (simp_all add: kept_line_def)
  moreover have "dropWhile strip_char (rev l) = rev l"
    using k by (cases "rev l") (auto simp: kept_line_def)
  ultimately show ?thesis by (simp add: StripSpaces_def)
qed

text \<open>What can be stored: a name without newlines, comments that are whole lines, and lines that are
  neither a name nor a comment.\<close>

definition storable_line :: "cheat_line \<Rightarrow> bool" where
  "storable_line l \<longleftrightarrow> l = CheatLine_make (line_text l) \<and> kept_line (line_text l) \<and>
     hd (line_text l) \<noteq> CHR ''*'' \<and> (hd (line_text l) = CHR ''['' \<longrightarrow> length (line_text l) < 2)"

definition storable_comment :: "string \<Rightarrow> bool" where
  "storable_comment l \<longleftrightarrow> kept_line (CHR ''*'' # l) \<and> CHR ''*'' # l \<noteq> EnabledText"

definition storable :: "gateway_cheat \<Rightarrow> bool" where
  "storable c \<longleftrightarrow> newline \<notin> set (cheat_name c) \<and> CHR 0x00 \<notin> set (cheat_name c) \<and>
     (\<exists>ls. cheat_comments c = whole_lines ls \<and> (\<forall>l \<in> set ls. storable_comment l)) \<and>
     (\<forall>l \<in> set (cheat_lines c). storable_line l)"

definition name_line :: "gateway_cheat \<Rightarrow> string" where
  "name_line c = CHR ''['' # cheat_name c @ [CHR '']'']"

definition file_lines :: "gateway_cheat \<Rightarrow> string list \<Rightarrow> string list" where
  "file_lines c ls =
     name_line c # (if cheat_enabled c then [EnabledText] else []) @ map ((#) (CHR ''*'')) ls @
     map line_text (cheat_lines c) @ [[]]"

lemma ToString_lines:
  assumes "cheat_comments c = whole_lines ls" "\<forall>l \<in> set ls. newline \<notin> set l"
  shows "ToString c = whole_lines (file_lines c ls)"
  using SplitString_whole_lines [OF assms(2)] assms(1)
  by (simp add: ToString_def GetCode_def file_lines_def name_line_def whole_lines_def comp_def)

section \<open>Loading\<close>

text \<open>The lines of one cheat take the state of the loop from the cheat before to this one.\<close>

definition flushed :: "load_state \<Rightarrow> load_state" where
  "flushed s = (if ld_lines s \<noteq> [] then (push_cheat s)\<lparr>ld_enabled := False\<rparr> else s)"

lemma load_name:
  assumes "newline \<notin> set (cheat_name c)" "CHR 0x00 \<notin> set (cheat_name c)"
  shows "load_line s (name_line c) =
    (flushed s)\<lparr>ld_name := cheat_name c, ld_lines := [], ld_comments := []\<rparr>"
proof -
  have "kept_line (name_line c)" using assms by (simp add: kept_line_def name_line_def strip_char_def)
  from kept_line_strip [OF this] show ?thesis
    by (simp add: load_line_def name_line_def flushed_def Let_def)
qed

lemma load_enabled: "load_line s EnabledText = s\<lparr>ld_enabled := True\<rparr>"
proof -
  have "kept_line EnabledText" by (simp add: kept_line_def EnabledText_def strip_char_def)
  from kept_line_strip [OF this] show ?thesis by (simp add: load_line_def EnabledText_def Let_def)
qed

lemma load_comments:
  "\<forall>l \<in> set ls. storable_comment l \<Longrightarrow>
     foldl load_line s (map ((#) (CHR ''*'')) ls) = s\<lparr>ld_comments := ld_comments s @ whole_lines ls\<rparr>"
proof (induction ls arbitrary: s)
  case (Cons l ls)
  have "load_line s (CHR ''*'' # l) = s\<lparr>ld_comments := ld_comments s @ l @ [newline]\<rparr>"
    using Cons.prems kept_line_strip [of "CHR ''*'' # l"] by (simp add: load_line_def storable_comment_def Let_def)
  then show ?case using Cons by simp
qed simp

lemma load_lines:
  "\<forall>l \<in> set ls. storable_line l \<Longrightarrow>
     foldl load_line s (map line_text ls) = s\<lparr>ld_lines := ld_lines s @ ls\<rparr>"
proof (induction ls arbitrary: s)
  case (Cons l ls)
  have "load_line s (line_text l) = s\<lparr>ld_lines := ld_lines s @ [l]\<rparr>"
    using Cons.prems kept_line_strip [of "line_text l"]
    by (auto simp: load_line_def storable_line_def kept_line_def Let_def)
  then show ?case using Cons by simp
qed simp

lemma load_empty: "load_line s [] = s"
  by (simp add: load_line_def StripSpaces_def Let_def)

lemma load_cheat:
  assumes "newline \<notin> set (cheat_name c)" "CHR 0x00 \<notin> set (cheat_name c)"
    and "cheat_comments c = whole_lines ls" "\<forall>l \<in> set ls. storable_comment l" "\<forall>l \<in> set (cheat_lines c). storable_line l"
  shows "foldl load_line s (file_lines c ls) =
    \<lparr>ld_cheats = ld_cheats (flushed s), ld_comments = cheat_comments c, ld_lines = cheat_lines c,
     ld_name = cheat_name c, ld_enabled = (ld_enabled (flushed s) \<or> cheat_enabled c)\<rparr>"
  using assms by (simp add: file_lines_def load_name load_enabled load_comments load_lines load_empty)

text \<open>The cheats that are there after loading: one without lines is not, and the next takes its mark.\<close>

fun survivors :: "bool \<Rightarrow> gateway_cheat list \<Rightarrow> gateway_cheat list" where
  "survivors b [] = []"
| "survivors b (c # cs) =
     (if cheat_lines c = [] then survivors (b \<or> cheat_enabled c) cs
      else c\<lparr>cheat_enabled := b \<or> cheat_enabled c\<rparr> # survivors False cs)"

lemma survivors_all: "\<forall>c \<in> set cs. cheat_lines c \<noteq> [] \<Longrightarrow> survivors False cs = cs"
  by (induction cs) simp_all

definition load_result :: "load_state \<Rightarrow> gateway_cheat list" where
  "load_result s = ld_cheats (if ld_lines s \<noteq> [] then push_cheat s else s)"

lemma load_result_flushed: "load_result s = ld_cheats (flushed s)"
  by (simp add: load_result_def flushed_def)

lemma load_all:
  assumes "\<forall>c \<in> set cs. storable c"
  shows "\<exists>Ls. concat (map ToString cs) = whole_lines Ls \<and> (\<forall>l \<in> set Ls. newline \<notin> set l) \<and>
    (\<forall>s. load_result (foldl load_line s Ls) = ld_cheats (flushed s) @ survivors (ld_enabled (flushed s)) cs)"
  using assms
proof (induction cs)
  case Nil
  show ?case by (intro exI [of _ "[]"]) (simp add: load_result_flushed)
next
  case (Cons c cs)
  obtain ls where c: "newline \<notin> set (cheat_name c)" "CHR 0x00 \<notin> set (cheat_name c)"
      "cheat_comments c = whole_lines ls" "\<forall>l \<in> set ls. storable_comment l" "\<forall>l \<in> set (cheat_lines c). storable_line l"
    using Cons.prems by (auto simp: storable_def)
  obtain Ls where Ls: "concat (map ToString cs) = whole_lines Ls" "\<forall>l \<in> set Ls. newline \<notin> set l"
      "\<forall>s. load_result (foldl load_line s Ls) = ld_cheats (flushed s) @ survivors (ld_enabled (flushed s)) cs"
    using Cons by auto
  have no_newline: "\<forall>l \<in> set (file_lines c ls). newline \<notin> set l" "\<forall>l \<in> set ls. newline \<notin> set l"
    using c by (auto simp: file_lines_def name_line_def EnabledText_def storable_comment_def storable_line_def kept_line_def)
  have "load_result (foldl load_line s (file_lines c ls @ Ls)) =
      ld_cheats (flushed s) @ survivors (ld_enabled (flushed s)) (c # cs)" for s
    using Ls(3) c(1-2)
    by (simp add: load_cheat [OF c])
      (simp add: flushed_def [of "load_state_ext _ _ _ _ _ _"] push_cheat_def SetEnabled_def GatewayCheat_make_def)
  then show ?case
    using Ls(1,2) no_newline ToString_lines [OF c(3) no_newline(2)]
    by (intro exI [of _ "file_lines c ls @ Ls"]) auto
qed


end
