(* ===== verification/Spec2Isabelle.thy ===== *)
theory Spec2Isabelle
  imports KernelProperties MemoryAccess CoreTiming HandleTable ResourceLimit ThreadQueueList
    SharedMappings LentBuffers Connections ServiceProofs PatchProofs CheatProofs CheatFileProofs
begin

text \<open>
  A verification development for the kernel of Lime3DS, an emulator of the Nintendo 3DS. The emulator
  runs the guest's ARM code and answers its supervisor calls with a kernel of its own, under
  \<open>src/src/core/hle/kernel\<close>. That kernel, the guest's memory (\<open>core/memory.cpp\<close>), the emulator's
  clock (\<open>core/core_timing.cpp\<close>), its cheats (\<open>core/cheats\<close>) and its patches of code are modelled
  here, translated from the C++ sources; paths below are
  relative to \<open>src/src/\<close>.

  \<^bold>\<open>How the program is put together.\<close> A guest thread runs on a core until it makes a supervisor call
  (\<open>kernel/svc.cpp\<close>) or its time slice ends. A call works on kernel objects that the process names by
  handles (\<open>kernel/handle_table.cpp\<close>), may be charged to the process's resource limit
  (\<open>kernel/resource_limit.cpp\<close>) and may put the thread to sleep on wait objects
  (\<open>kernel/wait_object.cpp\<close>, \<open>mutex.cpp\<close>, \<open>semaphore.cpp\<close>, \<open>event.cpp\<close>, \<open>timer.cpp\<close>), on an address
  (\<open>kernel/address_arbiter.cpp\<close>) or on a request to another process (\<open>client_session.cpp\<close>,
  \<open>server_session.cpp\<close>, \<open>ipc.cpp\<close>). The scheduler (\<open>kernel/thread.cpp\<close>) then picks a thread from the
  core's ready queue (\<open>common/thread_queue_list.h\<close>). Timeouts and timers are events of the clock, whose
  callbacks wake threads. A process's address space (\<open>kernel/vm_manager.cpp\<close>) is a list of areas over
  blocks of FCRAM that the memory regions (\<open>kernel/memory.cpp\<close>) give out; it drives the page table
  through which all guest memory is read and written.

  \<^bold>\<open>Theories, in the order of their dependencies.\<close>

  \<^item> \<open>Prelude\<close>: machine integers as words, the option monad in which every failed assertion, crash and
    undefined behaviour is None, and the lemma collections. \<open>KernelInterfaces\<close>: the contracts between
    components as locales; each is interpreted on the model in the theory that provides it.
  \<^item> \<open>BitFields\<close>, \<open>ResultCode\<close>: \<open>common/bit_field.h\<close>, \<open>core/hle/result.h\<close>, \<open>kernel/errors.h\<close>.
  \<^item> \<open>ThreadQueueList\<close>, \<open>HandleTable\<close>, \<open>ResourceLimit\<close>: \<open>common/thread_queue_list.h\<close>,
    \<open>kernel/handle_table.cpp\<close>, \<open>kernel/resource_limit.cpp\<close>, each with an abstract specification
    (lists by priority, a map with generations, counters) that the operations refine.
  \<^item> \<open>IntervalSets\<close>, \<open>MemoryRegions\<close>: what the code relies on of \<open>boost::icl\<close>, with a verified
    implementation as its instance, and the allocators of FCRAM (\<open>kernel/memory.cpp\<close>).
  \<^item> \<open>PageTable\<close>, \<open>VMManager\<close>, \<open>AddressSpace\<close>, \<open>MemoryAccess\<close>: \<open>common/memory_ref.h\<close>, \<open>core/memory.cpp\<close>,
    \<open>kernel/vm_manager.cpp\<close>. The state of an address space is the list of its areas; \<open>view\<close> says what
    each address maps to, and every operation is characterized by its effect on \<open>view\<close>.
  \<^item> \<open>EventHeap\<close>, \<open>CoreTiming\<close>: the event queue and the clock (\<open>core/core_timing.cpp\<close>).
  \<^item> \<open>Process\<close>, \<open>ProcessMemory\<close>: \<open>kernel/process.cpp\<close>, and what it guarantees.
  \<^item> \<open>KernelState\<close>, \<open>WaitObjects\<close>, \<open>SyncObjects\<close>, \<open>Scheduler\<close>, \<open>AddressArbiter\<close>, \<open>Svc\<close>: the record
    \<open>kernel\<close>, the threads and objects in it, and the operations on them, from \<open>kernel/thread.cpp\<close>,
    \<open>wait_object.cpp\<close>, the files of the objects and \<open>svc.cpp\<close>. A shared pointer is an address in a map
    of the record, so that aliasing is as in the code; handles name objects by \<open>kref\<close>.
  \<^item> \<open>KernelInvariant\<close>, \<open>SchedulerProofs\<close>, \<open>ThreadCreation\<close>, \<open>KernelSteps\<close>, \<open>SvcSteps\<close>,
    \<open>KernelMachine\<close>: the invariant \<open>kernel_ok\<close> and the step relation \<open>kernel_step\<close>, whose steps are
    supervisor calls, callbacks of timers and timeouts, and reschedules; every step keeps the
    invariant. \<open>Wakeups\<close>, \<open>ArbiterProofs\<close>, \<open>KernelProperties\<close>: who is woken, by what, and who runs.
  \<^item> \<open>ProcessCalls\<close>, \<open>ProcessControl\<close>: the calls of \<open>kernel/svc.cpp\<close> on processes, limits and other
    processes' memory, and the loop that makes a whole address space executable.
  \<^item> \<open>SharedMemory\<close>, \<open>SharedMappings\<close>: \<open>kernel/shared_memory.cpp\<close> and its supervisor calls; what two
    processes that share memory see.
  \<^item> \<open>IPC\<close>, \<open>IpcProofs\<close>, \<open>LentBuffers\<close>: command buffers and their translation between processes
    (\<open>core/hle/ipc.h\<close>, \<open>kernel/ipc.cpp\<close>).
  \<^item> \<open>Sessions\<close>, \<open>Connections\<close>: ports and sessions (\<open>kernel/client_port.cpp\<close>, \<open>server_port.cpp\<close>,
    \<open>client_session.cpp\<close>, \<open>server_session.cpp\<close>), and the abstract table of connections they refine.
  \<^item> \<open>RequestContext\<close>, \<open>RequestHelpers\<close>, \<open>RequestProofs\<close>: requests to emulated services
    (\<open>kernel/hle_ipc.cpp\<close>, \<open>core/hle/ipc_helpers.h\<close>): what a client sends is what the service parses, and
    what the service builds is what the client gets.
  \<^item> \<open>ServiceManager\<close>, \<open>ServiceProofs\<close>: the dispatch of requests (\<open>core/hle/service/service.cpp\<close>), the
    manager of services and \<open>srv:\<close> (\<open>service/sm/sm.cpp\<close>, \<open>srv.cpp\<close>), which puts a client to sleep until
    the service it asks for registers. \<open>service_hle\<close> and \<open>host_env\<close> make these the parameters \<open>hle\<close> and
    \<open>kenv\<close> of the sessions.
  \<^item> \<open>CodePatches\<close>, \<open>PatchProofs\<close>: IPS and BPS patches of an executable (\<open>core/file_sys/patch.cpp\<close>): an
    encoded list of records or commands has the meaning of the list, and a crafted file reads outside
    of the buffer.
  \<^item> \<open>GatewayCheat\<close>, \<open>CheatProofs\<close>: the interpreter of cheat codes (\<open>core/cheats/gateway_cheat.cpp\<close>) over the
    accesses of \<open>MemoryAccess\<close>: flat lines with a jump mean what their blocks mean, and one that never
    returns. \<open>CheatFile\<close>, \<open>CheatFileProofs\<close>: their text, and the engine that saves, loads and runs them
    (\<open>core/cheats/cheats.cpp\<close>).

  \<^bold>\<open>Parameters and hypotheses.\<close> Code that is not the repository's, or not part of the kernel, is an
  argument of the definitions: \<open>ops\<close> (interval sets, laws \<open>icl_ok\<close>, instance \<open>list_icl\<close>), \<open>mem_env\<close>
  (the renderer, the GPU's registers, the plugin framebuffer), \<open>scaled\<close> (a product in double precision),
  \<open>call\<close> (the callbacks of events), \<open>kenv\<close> (the wake-up callbacks of emulated services and their
  notifiers; the one of IPC is \<open>ipc_env\<close>), \<open>hle\<close> (the emulated services themselves) \<open>alloc\<close> (the
  host's allocator), \<open>cheat_system\<close> (the memory, caches and pad a cheat works on, with \<open>system_on\<close> the
  memory modelled here) and \<open>crc\<close> (a checksum). What a property needs of them is a named hypothesis: \<open>quiet_env\<close> (callbacks keep the
  kernel's invariant), \<open>responsive\<close> (they return), \<open>linked_env\<close> and \<open>linked_hle\<close> (they change
  connections only as the kernel does), \<open>tame\<close> (events schedule ahead). Each property with a hypothesis
  has a witness: a concrete input, with concrete parameters, at which the hypotheses are discharged and
  the definitions evaluated.

  \<^bold>\<open>Loops.\<close> Structural recursion is \<open>fun\<close>; loops that follow pointers or may not end are
  \<open>partial_function (option)\<close> (\<open>ThreadQueueList\<close>, \<open>VMManager\<close>, \<open>MemoryAccess\<close>, \<open>CoreTiming\<close>, \<open>WaitObjects\<close>,
  \<open>Scheduler\<close>, \<open>GatewayCheat\<close>), and the properties show that they return, or, for a cheat, when it does
  not. Fuel is used where a bound is in the data:
  the translation of a command buffer has 64 rounds for at most 64 words, of which every round consumes
  one, as does that of a request to a service, and the loop over a process's areas has one round for each
  of them.

  \<^bold>\<open>Not modelled.\<close> Reference counts: a destructor is an operation that may run, not one that must.
  Names, logging, serialization (but for the ready queue) and the debugger's recorder of requests.
  The debugging calls (\<open>Break\<close>, \<open>OutputDebugString\<close>), \<open>KernelSetState\<close>, the invalidation of instruction
  caches and the wrapper that moves the arguments of a call between registers and the handler.
  Floating-point registers. Concurrency of host threads: the kernel runs under one lock. Everything
  outside the kernel (the CPU cores, graphics, audio, the emulated services but \<open>srv:\<close>, file systems but for
  the patches of code, loaders and the user interfaces) is reached only through the parameters above.
\<close>

end
